(* ===== verification/Prelude.thy ===== *)
theory Prelude
  imports Main "HOL-Library.AList" "HOL-Library.Word" "HOL-Library.Code_Target_Nat"
begin

text \<open>
  Shared vocabulary of the development: the result type of a Go function that returns an
  error, computations that thread a state through fallible calls, a small calculus for
  invariants of such computations, association-list tables, sorting facts, and the integer
  and time conventions of Go the components rely on.
\<close>

named_theorems io_simps \<open>unfolding rules of the state-and-error combinators\<close>
named_theorems keeps_intros \<open>structural rules for invariants of computations\<close>

section \<open>Computations with state and errors\<close>

text \<open>
  A Go function \<open>f(args) (T, error)\<close> that reads and writes shared state is a function from
  the state to its result and the new state; \<open>Inl\<close> is a non-nil error. \<open>bindE\<close> is
  the sequence \<open>x, err := m(); if err != nil { return err }; f(x)\<close>.
\<close>

type_synonym ('s, 'e, 'a) io = "'s \<Rightarrow> ('e + 'a) \<times> 's"

definition ret :: "'a \<Rightarrow> ('s, 'e, 'a) io" where
  [io_simps]: "ret x = (\<lambda>s. (Inr x, s))"

definition raise :: "'e \<Rightarrow> ('s, 'e, 'a) io" where
  [io_simps]: "raise e = (\<lambda>s. (Inl e, s))"

definition bindE :: "('s, 'e, 'a) io \<Rightarrow> ('a \<Rightarrow> ('s, 'e, 'b) io) \<Rightarrow> ('s, 'e, 'b) io" where
  "bindE m f = (\<lambda>s. case m s of (Inl e, t) \<Rightarrow> (Inl e, t) | (Inr x, t) \<Rightarrow> f x t)"

text \<open>\<open>tryE m h\<close> hands the result, error or value, to \<open>h\<close>: Go code that inspects \<open>err\<close>.\<close>

definition tryE :: "('s, 'e, 'a) io \<Rightarrow> ('e + 'a \<Rightarrow> ('s, 'f, 'b) io) \<Rightarrow> ('s, 'f, 'b) io" where
  "tryE m h = (\<lambda>s. case m s of (r, t) \<Rightarrow> h r t)"

definition gets :: "('s \<Rightarrow> 'a) \<Rightarrow> ('s, 'e, 'a) io" where
  [io_simps]: "gets f = (\<lambda>s. (Inr (f s), s))"

definition modify :: "('s \<Rightarrow> 's) \<Rightarrow> ('s, 'e, unit) io" where
  [io_simps]: "modify f = (\<lambda>s. (Inr (), f s))"

text \<open>A \<open>for range\<close> loop whose body may return an error ends at the first error.\<close>

fun forE :: "'a list \<Rightarrow> ('a \<Rightarrow> ('s, 'e, unit) io) \<Rightarrow> ('s, 'e, unit) io" where
  "forE [] f = ret ()"
| "forE (x # xs) f = bindE (f x) (\<lambda>_. forE xs f)"

lemma bindE_run [io_simps]:
  "bindE m f s = (case m s of (Inl e, t) \<Rightarrow> (Inl e, t) | (Inr x, t) \<Rightarrow> f x t)"
  by (simp add: bindE_def)

lemma tryE_run [io_simps]: "tryE m h s = h (fst (m s)) (snd (m s))"
  by (simp add: tryE_def case_prod_beta)

lemma bindE_ret [simp]: "bindE (ret x) f = f x"
  by (simp add: bindE_def ret_def)

lemma bindE_Inr_iff:
  "bindE m f s = (Inr y, u) \<longleftrightarrow> (\<exists>x t. m s = (Inr x, t) \<and> f x t = (Inr y, u))"
  by (auto simp: bindE_def split: prod.splits sum.splits)

lemma bindE_Inl_iff:
  "bindE m f s = (Inl e, u) \<longleftrightarrow>
     m s = (Inl e, u) \<or> (\<exists>x t. m s = (Inr x, t) \<and> f x t = (Inl e, u))"
  by (auto simp: bindE_def split: prod.splits sum.splits)

lemma tryE_eq_iff: "tryE m h s = (x, u) \<longleftrightarrow> (\<exists>r t. m s = (r, t) \<and> h r t = (x, u))"
  by (auto simp: tryE_def split: prod.splits)

lemma tryE_case_iff:
  "tryE m (case_sum f g) s = (x, u) \<longleftrightarrow>
     (\<exists>e t. m s = (Inl e, t) \<and> f e t = (x, u)) \<or> (\<exists>y t. m s = (Inr y, t) \<and> g y t = (x, u))"
  by (auto simp: tryE_def split: prod.splits sum.splits)

lemma bindE_snd:
  "snd (bindE m f s) =
     (case fst (m s) of Inl e \<Rightarrow> snd (m s) | Inr x \<Rightarrow> snd (f x (snd (m s))))"
  by (auto simp: bindE_def split: prod.splits sum.splits)

subsection \<open>Invariants of computations\<close>

text \<open>\<open>keeps I m\<close>: \<open>m\<close> leaves \<open>I\<close> true on every path, errors included.\<close>

definition keeps :: "('s \<Rightarrow> bool) \<Rightarrow> ('s, 'e, 'a) io \<Rightarrow> bool" where
  "keeps I m \<longleftrightarrow> (\<forall>s. I s \<longrightarrow> I (snd (m s)))"

lemma keepsI: "(\<And>s. I s \<Longrightarrow> I (snd (m s))) \<Longrightarrow> keeps I m"
  by (simp add: keeps_def)

lemma keepsD: "keeps I m \<Longrightarrow> I s \<Longrightarrow> I (snd (m s))"
  by (simp add: keeps_def)

lemma keeps_run: "keeps I m \<Longrightarrow> I s \<Longrightarrow> m s = (r, t) \<Longrightarrow> I t"
  by (metis keepsD snd_conv)

lemma keeps_ret [keeps_intros]: "keeps I (ret x)"
  by (simp add: keeps_def ret_def)

lemma keeps_raise [keeps_intros]: "keeps I (raise e)"
  by (simp add: keeps_def raise_def)

lemma keeps_gets [keeps_intros]: "keeps I (gets f)"
  by (simp add: keeps_def gets_def)

lemma keeps_bindE [keeps_intros]:
  "keeps I m \<Longrightarrow> (\<And>x. keeps I (f x)) \<Longrightarrow> keeps I (bindE m f)"
  by (auto simp: keeps_def bindE_snd split: sum.splits)

lemma keeps_tryE [keeps_intros]:
  "keeps I m \<Longrightarrow> (\<And>r. keeps I (h r)) \<Longrightarrow> keeps I (tryE m h)"
  by (simp add: keeps_def tryE_run)

lemma keeps_forE [keeps_intros]: "(\<And>x. x \<in> set xs \<Longrightarrow> keeps I (f x)) \<Longrightarrow> keeps I (forE xs f)"
  by (induction xs) (auto intro!: keeps_intros)

lemma keeps_if [keeps_intros]:
  "(b \<Longrightarrow> keeps I m) \<Longrightarrow> (\<not> b \<Longrightarrow> keeps I n) \<Longrightarrow> keeps I (if b then m else n)"
  by simp

lemma keeps_case_sum [keeps_intros]:
  "(\<And>e. keeps I (f e)) \<Longrightarrow> (\<And>x. keeps I (g x)) \<Longrightarrow> keeps I (case r of Inl e \<Rightarrow> f e | Inr x \<Rightarrow> g x)"
  by (cases r) auto

lemma keeps_case_option [keeps_intros]:
  "keeps I m \<Longrightarrow> (\<And>x. keeps I (f x)) \<Longrightarrow> keeps I (case r of None \<Rightarrow> m | Some x \<Rightarrow> f x)"
  by (cases r) auto

lemma keeps_case_prod [keeps_intros]:
  "(\<And>x y. keeps I (f x y)) \<Longrightarrow> keeps I (case p of (x, y) \<Rightarrow> f x y)"
  by (cases p) auto

text \<open>
  \<open>ensures I Q m\<close>: \<open>m\<close> leaves \<open>I\<close> true on every path, and a value it returns satisfies \<open>Q\<close>.
\<close>

definition ensures :: "('s \<Rightarrow> bool) \<Rightarrow> ('a \<Rightarrow> bool) \<Rightarrow> ('s, 'e, 'a) io \<Rightarrow> bool" where
  "ensures I Q m \<longleftrightarrow> (\<forall>s. I s \<longrightarrow> I (snd (m s)) \<and> (\<forall>x. fst (m s) = Inr x \<longrightarrow> Q x))"

lemma ensures_ret: "Q x \<Longrightarrow> ensures I Q (ret x)"
  by (simp add: ensures_def ret_def)

lemma ensures_keeps: "ensures I Q m \<Longrightarrow> keeps I m"
  by (simp add: ensures_def keeps_def)

lemma keeps_ensures: "keeps I m \<Longrightarrow> ensures I (\<lambda>_. True) m"
  by (simp add: ensures_def keeps_def)

lemma ensures_bindE:
  assumes "ensures I Q m" "\<And>x. Q x \<Longrightarrow> ensures I R (f x)"
  shows "ensures I R (bindE m f)"
  unfolding ensures_def
proof (intro allI impI)
  fix s
  assume I: "I s"
  obtain r t where m: "m s = (r, t)" by fastforce
  with assms(1) I have t: "I t" "\<And>x. r = Inr x \<Longrightarrow> Q x" by (auto simp: ensures_def)
  show "I (snd (bindE m f s)) \<and> (\<forall>x. fst (bindE m f s) = Inr x \<longrightarrow> R x)"
  proof (cases r)
    case (Inr x)
    with assms(2) [of x] t m show ?thesis by (simp add: ensures_def bindE_run)
  qed (use t m in \<open>simp add: bindE_run\<close>)
qed

section \<open>Tables as association lists\<close>

text \<open>
  A database table with a primary key, a Redis keyspace and a Go map that is iterated are
  association lists: \<open>map_of\<close> looks a key up, \<open>AList.update\<close> stores, \<open>AList.delete\<close>
  removes. \<open>distinct (map fst t)\<close> is the primary-key constraint.
\<close>

type_synonym ('k, 'v) table = "('k \<times> 'v) list"

abbreviation keyed :: "('k, 'v) table \<Rightarrow> bool" where
  "keyed t \<equiv> distinct (map fst t)"

declare map_of_eq_Some_iff [simp del]

definition delete_where :: "('k \<Rightarrow> 'v \<Rightarrow> bool) \<Rightarrow> ('k, 'v) table \<Rightarrow> ('k, 'v) table" where
  "delete_where p t = filter (\<lambda>(k, v). \<not> p k v) t"

lemma delete_where_Nil [simp]: "delete_where p [] = []"
  by (simp add: delete_where_def)

lemma delete_where_Cons [simp]:
  "delete_where p (kv # t) =
     (if p (fst kv) (snd kv) then delete_where p t else kv # delete_where p t)"
  by (cases kv) (simp add: delete_where_def)

lemma set_delete_where: "set (delete_where p t) = {(k, v) \<in> set t. \<not> p k v}"
  by (auto simp: delete_where_def)

lemma keyed_delete_where [simp]: "keyed t \<Longrightarrow> keyed (delete_where p t)"
  by (induction t) (auto simp: set_delete_where)

lemma map_of_delete_where:
  "keyed t \<Longrightarrow> map_of (delete_where p t) k =
     (case map_of t k of None \<Rightarrow> None | Some v \<Rightarrow> if p k v then None else Some v)"
proof (induction t)
  case Nil
  then show ?case by simp
next
  case (Cons kv t)
  have out: "map_of t (fst kv) = None"
    using Cons.prems by (simp add: map_of_eq_None_iff)
  show ?case
    using Cons out by (cases "k = fst kv") (auto simp: set_delete_where split: option.splits)
qed

lemma keyed_update [simp]: "keyed t \<Longrightarrow> keyed (AList.update k v t)"
  by (rule distinct_update)

lemma keyed_delete [simp]: "keyed t \<Longrightarrow> keyed (AList.delete k t)"
  by (rule distinct_delete)

lemma map_of_update [simp]: "map_of (AList.update k v t) = (map_of t)(k \<mapsto> v)"
  by (simp add: update_conv')

lemma map_of_delete [simp]: "map_of (AList.delete k t) = (map_of t)(k := None)"
  by (simp add: delete_conv')

lemma map_of_map_entry_Some:
  "map_of (AList.map_entry k f t) x = Some y \<longleftrightarrow>
     (if x = k then (\<exists>v. map_of t k = Some v \<and> y = f v) else map_of t x = Some y)"
  by (auto simp: map_of_map_entry split: option.splits)

lemma map_of_delete_where_Some:
  "keyed t \<Longrightarrow> map_of (delete_where p t) k = Some v \<longleftrightarrow> map_of t k = Some v \<and> \<not> p k v"
  by (auto simp: map_of_delete_where split: option.splits)

definition has_key :: "('k, 'v) table \<Rightarrow> 'k \<Rightarrow> bool" where
  "has_key t k \<longleftrightarrow> map_of t k \<noteq> None"

lemma has_keyI: "map_of t k = Some v \<Longrightarrow> has_key t k"
  by (simp add: has_key_def)

lemma has_keyE: "has_key t k \<Longrightarrow> (\<And>v. map_of t k = Some v \<Longrightarrow> P) \<Longrightarrow> P"
  by (auto simp: has_key_def)

lemma not_has_key: "\<not> has_key t k \<longleftrightarrow> map_of t k = None"
  by (simp add: has_key_def)

lemma has_key_update [simp]: "has_key (AList.update k v t) x \<longleftrightarrow> x = k \<or> has_key t x"
  by (simp add: has_key_def)

lemma has_key_delete [simp]: "has_key (AList.delete k t) x \<longleftrightarrow> x \<noteq> k \<and> has_key t x"
  by (simp add: has_key_def)

lemma has_key_map_entry [simp]: "has_key (AList.map_entry k f t) x \<longleftrightarrow> has_key t x"
  by (auto simp: has_key_def map_of_map_entry split: option.splits)

lemma has_key_delete_where:
  "keyed t \<Longrightarrow> has_key (delete_where p t) x \<longleftrightarrow> (\<exists>v. map_of t x = Some v \<and> \<not> p x v)"
  by (auto simp: has_key_def map_of_delete_where split: option.splits)

lemma keyed_in_set_map_of: "keyed t \<Longrightarrow> (k, v) \<in> set t \<longleftrightarrow> map_of t k = Some v"
  by (auto simp: map_of_eq_Some_iff)

lemma keyed_filter [simp]: "keyed t \<Longrightarrow> keyed (filter p t)"
  by (induction t) auto

section \<open>Go integers, durations and instants\<close>

text \<open>
  A \<open>time.Time\<close> is its instant in nanoseconds since the Unix epoch, a \<open>time.Duration\<close> a
  number of nanoseconds. \<open>Sub\<close>, \<open>Since\<close> and \<open>Until\<close> saturate at the bounds of \<open>int64\<close>.
\<close>

type_synonym go_time = int
type_synonym duration = int

definition min_int64 :: int where "min_int64 = - (2 ^ 63)"
definition max_int64 :: int where "max_int64 = 2 ^ 63 - 1"

abbreviation (input) "nanosecond \<equiv> (1 :: duration)"
abbreviation (input) "millisecond \<equiv> (1000000 :: duration)"
abbreviation (input) "second \<equiv> (1000000000 :: duration)"
abbreviation (input) "minute \<equiv> (60000000000 :: duration)"
abbreviation (input) "hour \<equiv> (3600000000000 :: duration)"

definition time_sub :: "go_time \<Rightarrow> go_time \<Rightarrow> duration" where
  "time_sub t u = max min_int64 (min max_int64 (t - u))"

definition unix :: "go_time \<Rightarrow> int" where
  "unix t = t div second"

lemma time_sub_le_iff:
  "min_int64 \<le> d \<Longrightarrow> d < max_int64 \<Longrightarrow> time_sub t u \<le> d \<longleftrightarrow> t - u \<le> d"
  by (auto simp: time_sub_def)

lemma time_sub_less_iff:
  "min_int64 < d \<Longrightarrow> d \<le> max_int64 \<Longrightarrow> time_sub t u < d \<longleftrightarrow> t - u < d"
  by (auto simp: time_sub_def)

lemma unix_mono: "t \<le> u \<Longrightarrow> unix t \<le> unix u"
  by (simp add: unix_def zdiv_mono1)

text \<open>The arithmetic of \<open>int64\<close> wraps around.\<close>

definition wrap64 :: "int \<Rightarrow> int" where
  "wrap64 i = signed_take_bit 63 i"

lemma wrap64_id [simp]: "min_int64 \<le> i \<Longrightarrow> i \<le> max_int64 \<Longrightarrow> wrap64 i = i"
  by (simp add: wrap64_def min_int64_def max_int64_def signed_take_bit_int_eq_self)

text \<open>Go's integer division truncates towards zero.\<close>

definition go_div :: "int \<Rightarrow> int \<Rightarrow> int" where
  "go_div a b = sgn a * sgn b * (\<bar>a\<bar> div \<bar>b\<bar>)"

definition go_mod :: "int \<Rightarrow> int \<Rightarrow> int" where
  "go_mod a b = a - b * go_div a b"

lemma go_div_nonneg [simp]: "0 \<le> a \<Longrightarrow> 0 < b \<Longrightarrow> go_div a b = a div b"
  by (cases "a = 0") (auto simp: go_div_def)

lemma go_mod_nonneg [simp]: "0 \<le> a \<Longrightarrow> 0 < b \<Longrightarrow> go_mod a b = a mod b"
  by (simp add: go_mod_def minus_mult_div_eq_mod)

section \<open>Sorted lists and chunks\<close>

lemma set_take_drop_chunk: "set (take n xs) \<union> set (drop n xs) = set xs"
  by (metis append_take_drop_id set_append)

lemma sorted_distinct_eqI:
  "sorted xs \<Longrightarrow> sorted ys \<Longrightarrow> distinct xs \<Longrightarrow> distinct ys \<Longrightarrow> set xs = set ys \<Longrightarrow>
     (xs :: 'a :: linorder list) = ys"
  by (rule sorted_distinct_set_unique)

text \<open>The consecutive blocks of at most \<open>n\<close> elements a Go offset loop slices off a list.\<close>

function chunks :: "nat \<Rightarrow> 'a list \<Rightarrow> 'a list list" where
  "chunks n xs = (if xs = [] \<or> n = 0 then [] else take n xs # chunks n (drop n xs))"
  by pat_completeness auto
termination
  by (relation "measure (\<lambda>(n, xs). length xs)") auto

declare chunks.simps [simp del]

lemma chunks_Nil [simp]: "chunks n [] = []"
  by (simp add: chunks.simps)

lemma concat_chunks: "0 < n \<Longrightarrow> concat (chunks n xs) = xs"
proof (induction n xs rule: chunks.induct)
  case (1 n xs)
  then show ?case by (cases "xs = []") (simp_all add: chunks.simps [of n xs])
qed

lemma chunks_length: "ys \<in> set (chunks n xs) \<Longrightarrow> ys \<noteq> [] \<and> length ys \<le> n"
proof (induction n xs rule: chunks.induct)
  case (1 n xs)
  show ?case
  proof (cases "xs = [] \<or> n = 0")
    case True
    with "1.prems" show ?thesis by (simp add: chunks.simps [of n xs])
  next
    case False
    with 1 show ?thesis by (auto simp: chunks.simps [of n xs])
  qed
qed

section \<open>Decimal numerals\<close>

text \<open>\<open>strconv.FormatInt(i, 10)\<close> and the \<open>%d\<close> verb.\<close>

fun dec :: "nat \<Rightarrow> string" where
  "dec n = (if n < 10 then [char_of (48 + n)] else dec (n div 10) @ [char_of (48 + n mod 10)])"

declare dec.simps [simp del]

definition itoa :: "int \<Rightarrow> string" where
  "itoa i = (if i < 0 then CHR ''-'' # dec (nat (- i)) else dec (nat i))"

definition digit_value :: "char \<Rightarrow> nat" where
  "digit_value c = of_char c - 48"

definition undec :: "string \<Rightarrow> nat" where
  "undec s = foldl (\<lambda>n c. 10 * n + digit_value c) 0 s"

lemma digit_value_char [simp]: "k < 10 \<Longrightarrow> digit_value (char_of (48 + k)) = k"
  by (simp add: digit_value_def of_char_of)

lemma undec_dec [simp]: "undec (dec n) = n"
proof (induction n rule: dec.induct)
  case (1 n)
  show ?case
  proof (cases "n < 10")
    case True
    then show ?thesis by (simp add: dec.simps [of n] undec_def)
  next
    case False
    with 1 have "undec (dec (n div 10)) = n div 10" by simp
    then have "undec (dec n) = 10 * (n div 10) + n mod 10"
      using False by (simp add: dec.simps [of n] undec_def)
    then show ?thesis by simp
  qed
qed

lemma dec_inject [simp]: "dec m = dec n \<longleftrightarrow> m = n"
  by (metis undec_dec)

lemma dec_digits: "c \<in> set (dec n) \<Longrightarrow> 48 \<le> (of_char c :: nat) \<and> (of_char c :: nat) < 58"
proof (induction n rule: dec.induct)
  case (1 n)
  show ?case
  proof (cases "n < 10")
    case True
    with "1.prems" show ?thesis by (simp add: dec.simps [of n] of_char_of)
  next
    case False
    with 1 show ?thesis by (auto simp: dec.simps [of n] of_char_of)
  qed
qed

lemma dec_not_minus: "CHR ''-'' \<notin> set (dec n)"
  using dec_digits by fastforce

lemma itoa_inject [simp]: "itoa i = itoa j \<longleftrightarrow> i = j"
proof -
  have "dec m \<noteq> CHR ''-'' # dec n" for m n
    using dec_not_minus [of m] by (metis list.set_intros(1))
  then show ?thesis by (auto simp: itoa_def) metis
qed

text \<open>
  \<open>strconv.ParseInt(s, 10, 64)\<close>: an optional sign and at least one digit, in the range of
  \<open>int64\<close>; \<open>None\<close> is a non-nil error.
\<close>

definition is_digit :: "char \<Rightarrow> bool" where
  "is_digit c \<longleftrightarrow> 48 \<le> (of_char c :: nat) \<and> (of_char c :: nat) < 58"

definition parse_int64 :: "string \<Rightarrow> int option" where
  "parse_int64 s =
     (let neg = (s \<noteq> [] \<and> hd s = CHR ''-'');
          ds = (if s \<noteq> [] \<and> (hd s = CHR ''-'' \<or> hd s = CHR ''+'') then tl s else s);
          n = (if neg then - int (undec ds) else int (undec ds)) in
      if ds = [] \<or> \<not> list_all is_digit ds \<or> n < min_int64 \<or> max_int64 < n then None else Some n)"

lemma dec_nonempty [simp]: "dec n \<noteq> []"
  by (simp add: dec.simps [of n])

lemma dec_all_digits [simp]: "list_all is_digit (dec n)"
  using dec_digits by (auto simp: list_all_iff is_digit_def)

lemma dec_hd: "hd (dec n) \<noteq> CHR ''-''" "hd (dec n) \<noteq> CHR ''+''"
  using dec_digits [OF hd_in_set [OF dec_nonempty], of n] by auto

lemma parse_int64_itoa:
  assumes "min_int64 \<le> i" "i \<le> max_int64"
  shows "parse_int64 (itoa i) = Some i"
  using assms by (auto simp: parse_int64_def itoa_def dec_hd Let_def)

lemma parse_int64_range: "parse_int64 s = Some i \<Longrightarrow> min_int64 \<le> i \<and> i \<le> max_int64"
  by (auto simp: parse_int64_def Let_def split: if_splits)

text \<open>
  The number \<open>ParseInt\<close> returns when its error is ignored: zero for a syntax error, the bound
  that was passed for a number out of range.
\<close>

definition parse_int64_value :: "string \<Rightarrow> int" where
  "parse_int64_value s =
     (let neg = (s \<noteq> [] \<and> hd s = CHR ''-'');
          ds = (if s \<noteq> [] \<and> (hd s = CHR ''-'' \<or> hd s = CHR ''+'') then tl s else s);
          n = (if neg then - int (undec ds) else int (undec ds)) in
      if ds = [] \<or> \<not> list_all is_digit ds then 0 else max min_int64 (min max_int64 n))"

lemma parse_int64_value_Some: "parse_int64 s = Some i \<Longrightarrow> parse_int64_value s = i"
  by (auto simp: parse_int64_def parse_int64_value_def Let_def split: if_splits)

text \<open>Reading a list after a write, in range or not.\<close>

lemma nth_upd: "xs[p := x] ! q = (if q = p \<and> p < length xs then x else xs ! q)"
  by (cases "p < length xs") (auto simp: list_update_beyond)

end
