(* ===== verification/World.thy ===== *)
theory World
  imports Prelude
begin

text \<open>
  The environment the hub runs in: the clock, the outcome of every call that leaves the
  process, the errors the code distinguishes, and the PostgreSQL tables of users, teams
  and memberships with the constraints of
  \<open>deploy/postgres/init\<close> (primary keys, foreign keys and their \<open>ON DELETE\<close> actions).
\<close>

section \<open>Errors\<close>

datatype err =
    ErrNoRows
  | ErrDb
  | ErrConstraint
  | ErrUniqueEmail
  | ErrInvalidTeamMembers
  | ErrTeamEditForbidden
  | ErrDeleteUserConfirmationMismatch
  | ErrCannotModifySelf
  | ErrLastAdmin
  | ErrAdminReauthenticationRequired
  | ErrActorNotAdmin
  | ErrUserEmailExists
  | UserOwnsTeamsError "(int \<times> string) list"
  | ErrRedis
  | ErrRedisNil
  | ErrSession
  | ErrSessionOwner
  | ErrInvalidUserOrTeam
  | ErrTeamAccessRevoked
  | ErrAlertNotFound
  | ErrAlertInvalidConfig
  | ErrAlertServerNotFound
  | ErrCrypt
  | ErrServerCategoryNotFound
  | ErrSSHHostKeyStateChanged
  | ErrSameCategoryName
  | ErrCanNotDeleteDefaultCategory
  | ErrUnsupportedConnectionType
  | ErrRegister err "err list"

section \<open>The environment\<close>

text \<open>
  Each call of a service outside the process ends in one of three ways: it is done, it fails
  with no effect, or its effect takes place but the caller sees an error (a commit whose
  acknowledgement is lost). The field \<open>outcomes\<close> fixes the outcome of the \<open>n\<close>-th call; theorems
  quantify over it, so they hold for every pattern of failures. \<open>clock\<close> is the value of the
  \<open>n\<close>-th reading of \<open>time.Now()\<close>.
\<close>

datatype outcome = Done | Failed | Lost

record user_row =
  username :: string
  email :: string
  password :: string
  salt :: string
  is_admin :: bool
  verified :: bool
  totp :: "string option"

record team_row =
  name :: string
  description :: string
  color :: string
  image :: string
  owner_id :: int

record tables =
  users :: "(int, user_row) table"
  teams :: "(int, team_row) table"
  m_team_user :: "(int \<times> int, int) table"  \<comment> \<open>(team_id, user_id) to role\<close>
  users_config :: "(int, int) table"             \<comment> \<open>uid to active_team\<close>
  categories :: "(int \<times> string) list"        \<comment> \<open>(team, name)\<close>

record env =
  calls :: nat
  outcomes :: "nat \<Rightarrow> outcome"
  reads :: nat
  clock :: "nat \<Rightarrow> go_time"
  team_seq :: int
  tabs :: tables

definition time_now :: "('z env_scheme, err, go_time) io" where
  "time_now = (\<lambda>s. (Inr (clock s (reads s)), s\<lparr>reads := Suc (reads s)\<rparr>))"

definition next_call :: "'z env_scheme \<Rightarrow> outcome \<times> 'z env_scheme" where
  "next_call s = (outcomes s (calls s), s\<lparr>calls := Suc (calls s)\<rparr>)"

section \<open>SQL statements and transactions\<close>

text \<open>
  A statement is a function on the tables; \<open>None\<close> is a constraint violation. A query that
  finds no row is \<open>ErrNoRows\<close>. Row locks (\<open>FOR UPDATE\<close>) serialise the transactions of
  the code, so a transaction runs on the tables as one unit; sequences are not rolled back.
\<close>

definition exec_sql :: "err \<Rightarrow> (tables \<Rightarrow> tables option) \<Rightarrow> ('z env_scheme, err, unit) io" where
  "exec_sql e f = (\<lambda>s. case next_call s of (oc, t) \<Rightarrow>
     (case (oc, f (tabs t)) of
        (Done, Some d) \<Rightarrow> (Inr (), t\<lparr>tabs := d\<rparr>)
      | (Done, None) \<Rightarrow> (Inl e, t)
      | (Lost, Some d) \<Rightarrow> (Inl ErrDb, t\<lparr>tabs := d\<rparr>)
      | (_, _) \<Rightarrow> (Inl ErrDb, t)))"

definition query_sql :: "(tables \<Rightarrow> 'a) \<Rightarrow> ('z env_scheme, err, 'a) io" where
  "query_sql q = (\<lambda>s. case next_call s of (oc, t) \<Rightarrow>
     (if oc = Done then (Inr (q (tabs t)), t) else (Inl ErrDb, t)))"

definition query_row :: "(tables \<Rightarrow> 'a option) \<Rightarrow> ('z env_scheme, err, 'a) io" where
  "query_row q = bindE (query_sql q) (\<lambda>r. case r of None \<Rightarrow> raise ErrNoRows | Some x \<Rightarrow> ret x)"

definition transaction :: "('z env_scheme, err, 'a) io \<Rightarrow> ('z env_scheme, err, 'a) io" where
  "transaction body = (\<lambda>s. case next_call s of (oc, t) \<Rightarrow>
     (if oc \<noteq> Done then (Inl ErrDb, t)
      else case body t of
        (Inl e, u) \<Rightarrow> (Inl e, u\<lparr>tabs := tabs t\<rparr>)
      | (Inr x, u) \<Rightarrow> (case next_call u of (oc', v) \<Rightarrow>
          (case oc' of
             Done \<Rightarrow> (Inr x, v)
           | Failed \<Rightarrow> (Inl ErrDb, v\<lparr>tabs := tabs t\<rparr>)
           | Lost \<Rightarrow> (Inl ErrDb, v)))))"

lemma next_call_simps [simp]:
  "fst (next_call s) = outcomes s (calls s)"
  "snd (next_call s) = s\<lparr>calls := Suc (calls s)\<rparr>"
  by (simp_all add: next_call_def)

lemma query_sql_tabs [simp]: "tabs (snd (query_sql q s)) = tabs s"
  by (simp add: query_sql_def next_call_def)

lemma query_sql_Inr_iff:
  "query_sql q s = (Inr x, t) \<longleftrightarrow>
     outcomes s (calls s) = Done \<and> x = q (tabs s) \<and> t = s\<lparr>calls := Suc (calls s)\<rparr>"
  by (auto simp: query_sql_def next_call_def)

lemma query_row_tabs [simp]: "tabs (snd (query_row q s)) = tabs s"
  by (auto simp: query_row_def bindE_snd raise_def ret_def split: sum.splits option.splits)

lemma query_row_Inr_iff:
  "query_row q s = (Inr x, t) \<longleftrightarrow>
     outcomes s (calls s) = Done \<and> q (tabs s) = Some x \<and> t = s\<lparr>calls := Suc (calls s)\<rparr>"
  by (auto simp: query_row_def bindE_Inr_iff query_sql_Inr_iff raise_def ret_def
      split: option.splits)

lemma exec_sql_Inr_iff:
  "exec_sql e f s = (Inr x, t) \<longleftrightarrow>
     outcomes s (calls s) = Done \<and>
     (\<exists>d. f (tabs s) = Some d \<and> t = s\<lparr>calls := Suc (calls s), tabs := d\<rparr>)"
  by (auto simp: exec_sql_def next_call_def split: outcome.splits option.splits)

lemma exec_sql_tabs_cases:
  "tabs (snd (exec_sql e f s)) = tabs s \<or> f (tabs s) = Some (tabs (snd (exec_sql e f s)))"
  by (auto simp: exec_sql_def next_call_def split: outcome.splits option.splits)

lemmas sql_Inr_iffs = query_sql_Inr_iff query_row_Inr_iff exec_sql_Inr_iff bindE_Inr_iff

text \<open>A loop of statements, as a partial function on the tables.\<close>

fun seq_opt :: "('a \<Rightarrow> tables \<Rightarrow> tables option) \<Rightarrow> 'a list \<Rightarrow> tables \<Rightarrow> tables option" where
  "seq_opt f [] d = Some d"
| "seq_opt f (x # xs) d = Option.bind (f x d) (seq_opt f xs)"

lemma forE_exec_sql_Inr:
  "forE xs (\<lambda>x. exec_sql e (f x)) s = (Inr y, t) \<Longrightarrow> seq_opt f xs (tabs s) = Some (tabs t)"
  by (induction xs arbitrary: s) (fastforce simp: ret_def bindE_Inr_iff exec_sql_Inr_iff)+

lemma forE_exec2_sql_Inr:
  "forE xs (\<lambda>x. bindE (exec_sql e (f x)) (\<lambda>_. exec_sql e (g x))) s = (Inr y, t) \<Longrightarrow>
     seq_opt (\<lambda>x d. Option.bind (f x d) (g x)) xs (tabs s) = Some (tabs t)"
  by (induction xs arbitrary: s) (fastforce simp: ret_def bindE_Inr_iff exec_sql_Inr_iff)+

text \<open>
  A transaction either leaves the tables as they were or installs those its body computed;
  it reports success only in the second case.
\<close>

lemma transaction_atomic:
  assumes "transaction body s = (r, u)"
  shows "(tabs u = tabs s \<and> (\<exists>e. r = Inl e)) \<or>
    (\<exists>x v. body (s\<lparr>calls := Suc (calls s)\<rparr>) = (Inr x, v) \<and> tabs u = tabs v \<and>
      (r = Inr x \<or> r = Inl ErrDb))"
  using assms
  by (auto simp: transaction_def next_call_def split: if_splits prod.splits sum.splits outcome.splits)

lemma transaction_Inr_iff:
  "transaction body s = (Inr x, u) \<longleftrightarrow>
     outcomes s (calls s) = Done \<and>
     (\<exists>v. body (s\<lparr>calls := Suc (calls s)\<rparr>) = (Inr x, v) \<and> outcomes v (calls v) = Done \<and>
       u = v\<lparr>calls := Suc (calls v)\<rparr>)"
  by (auto simp: transaction_def next_call_def split: prod.splits sum.splits outcome.splits)

text \<open>Invariants of the tables through statements and transactions.\<close>

lemma keeps_query_sql [keeps_intros]: "keeps (\<lambda>s. J (tabs s)) (query_sql q)"
  by (simp add: keeps_def)

lemma keeps_query_row [keeps_intros]: "keeps (\<lambda>s. J (tabs s)) (query_row q)"
  by (simp add: keeps_def)

lemma keeps_exec_sql:
  assumes "\<And>d d'. J d \<Longrightarrow> f d = Some d' \<Longrightarrow> J d'"
  shows "keeps (\<lambda>s. J (tabs s)) (exec_sql e f)"
  using assms by (auto simp: keeps_def exec_sql_def next_call_def split: outcome.splits option.splits)

lemma keeps_transaction:
  assumes "\<And>s x t. J (tabs s) \<Longrightarrow> body s = (Inr x, t) \<Longrightarrow> J (tabs t)"
  shows "keeps (\<lambda>s. J (tabs s)) (transaction body)"
proof (rule keepsI)
  fix s :: "'a env_scheme"
  assume J: "J (tabs s)"
  obtain r u where run: "transaction body s = (r, u)" by fastforce
  from transaction_atomic [OF run] show "J (tabs (snd (transaction body s)))"
    using assms [of "s\<lparr>calls := Suc (calls s)\<rparr>"] J run by auto
qed

lemma keeps_transaction_body [keeps_intros]:
  "keeps (\<lambda>s. J (tabs s)) body \<Longrightarrow> keeps (\<lambda>s. J (tabs s)) (transaction body)"
  by (rule keeps_transaction) (metis keeps_run)

section \<open>Constraints of the schema\<close>

definition wf_tables :: "tables \<Rightarrow> bool" where
  "wf_tables d \<longleftrightarrow>
     keyed (users d) \<and> keyed (teams d) \<and> keyed (m_team_user d) \<and> keyed (users_config d) \<and>
     (\<forall>t u. has_key (m_team_user d) (t, u) \<longrightarrow> has_key (teams d) t \<and> has_key (users d) u) \<and>
     (\<forall>u t. map_of (users_config d) u = Some t \<longrightarrow> has_key (m_team_user d) (t, u)) \<and>
     (\<forall>t row. map_of (teams d) t = Some row \<longrightarrow> has_key (users d) (owner_id row))"

definition role_of :: "tables \<Rightarrow> int \<Rightarrow> int \<Rightarrow> int option" where
  "role_of d tid uid = map_of (m_team_user d) (tid, uid)"

definition members_of :: "tables \<Rightarrow> int \<Rightarrow> int list" where
  "members_of d tid = sort (map (snd \<circ> fst) (filter (\<lambda>((t, _), _). t = tid) (m_team_user d)))"

lemma set_members_of: "set (members_of d tid) = {u. role_of d tid u \<noteq> None}"
  by (force simp: members_of_def role_of_def map_of_eq_None_iff)

lemma distinct_members_of: "keyed (m_team_user d) \<Longrightarrow> distinct (members_of d tid)"
  unfolding members_of_def distinct_sort distinct_map
  by (fastforce simp: inj_on_def distinct_map)

lemma sorted_members_of: "sorted (members_of d tid)"
  by (simp add: members_of_def)

section \<open>A sample environment\<close>

text \<open>
  Three users, the first of them the administrator, one team owned by the first with the other
  two as members, and a second team of the third alone; every call succeeds. The theorems of
  the components are evaluated on it.
\<close>

definition sample_user :: "string \<Rightarrow> bool \<Rightarrow> user_row" where
  "sample_user nm adm = \<lparr>username = nm, email = nm @ ''@example.org'', password = ''hash-'' @ nm,
     salt = ''salt'', is_admin = adm, verified = True, totp = None\<rparr>"

definition sample_team :: "string \<Rightarrow> int \<Rightarrow> team_row" where
  "sample_team nm owner = \<lparr>name = nm, description = '''', color = ''red'', image = '''', owner_id = owner\<rparr>"

definition sample_tables :: tables where
  "sample_tables = \<lparr>
     users = [(1, sample_user ''ann'' True), (2, sample_user ''bob'' False), (3, sample_user ''cid'' False)],
     teams = [(7, sample_team ''core'' 1), (8, sample_team ''solo'' 3)],
     m_team_user = [((7, 1), 0), ((7, 2), 1), ((7, 3), 2), ((8, 3), 0)],
     users_config = [(1, 7), (2, 7)],
     categories = []\<rparr>"

definition sample_env :: env where
  "sample_env = \<lparr>calls = 0, outcomes = (\<lambda>_. Done), reads = 0, clock = (\<lambda>n. int n * second),
     team_seq = 8, tabs = sample_tables\<rparr>"

end
