(* ===== verification/Teams.thy ===== *)
theory Teams
  imports World
begin

text \<open>
  Teams and memberships: \<open>internal/db/team.go\<close>, \<open>internal/db/user_config.go\<close> and the
  membership part of \<open>internal/app/api/team\<close> (\<open>validateTeamMembers\<close>, \<open>updateTeam\<close>
  and the owner check of \<open>create\<close>). The invariant \<open>team_inv\<close> is the contract of the
  component: the schema's constraints hold, roles are 0, 1 or 2, and the owner of every
  team is one of its administrators.
\<close>

section \<open>SQL statements\<close>

definition insert_team_row :: "int \<Rightarrow> team_row \<Rightarrow> tables \<Rightarrow> tables option" where
  "insert_team_row i row d =
     (if has_key (teams d) i \<or> \<not> has_key (users d) (owner_id row) then None
      else Some (d\<lparr>teams := AList.update i row (teams d)\<rparr>))"

definition fk_member :: "int \<Rightarrow> int \<Rightarrow> tables \<Rightarrow> bool" where
  "fk_member tid uid d \<longleftrightarrow> has_key (teams d) tid \<and> has_key (users d) uid"

definition insert_member :: "int \<Rightarrow> int \<Rightarrow> int \<Rightarrow> tables \<Rightarrow> tables option" where
  "insert_member tid uid role d =
     (if has_key (m_team_user d) (tid, uid) \<or> \<not> fk_member tid uid d then None
      else Some (d\<lparr>m_team_user := AList.update (tid, uid) role (m_team_user d)\<rparr>))"

definition upsert_member :: "int \<Rightarrow> int \<Rightarrow> int \<Rightarrow> tables \<Rightarrow> tables option" where
  "upsert_member tid uid role d =
     (if \<not> fk_member tid uid d then None
      else Some (d\<lparr>m_team_user := AList.update (tid, uid) role (m_team_user d)\<rparr>))"

definition set_role :: "int \<Rightarrow> int \<Rightarrow> int \<Rightarrow> tables \<Rightarrow> tables option" where
  "set_role tid uid role d =
     Some (d\<lparr>m_team_user := AList.map_entry (tid, uid) (\<lambda>_. role) (m_team_user d)\<rparr>)"

definition set_owner :: "int \<Rightarrow> int \<Rightarrow> tables \<Rightarrow> tables option" where
  "set_owner tid uid d =
     (if has_key (teams d) tid \<and> \<not> has_key (users d) uid then None
      else Some (d\<lparr>teams := AList.map_entry tid (\<lambda>r. r\<lparr>owner_id := uid\<rparr>) (teams d)\<rparr>))"

definition delete_member :: "int \<Rightarrow> int \<Rightarrow> tables \<Rightarrow> tables option" where
  "delete_member tid uid d =
     Some (d\<lparr>m_team_user := AList.delete (tid, uid) (m_team_user d),
             users_config := delete_where (\<lambda>u t. u = uid \<and> t = tid) (users_config d)\<rparr>)"

definition clear_active :: "int \<Rightarrow> int \<Rightarrow> tables \<Rightarrow> tables option" where
  "clear_active uid tid d =
     Some (d\<lparr>users_config := delete_where (\<lambda>u t. u = uid \<and> t = tid) (users_config d)\<rparr>)"

text \<open>
  With a team go its memberships, the active teams that refer to them and its categories. A foreign key keeps a category that a server is
  in; the servers of a team are deleted by the same statement, and that the statement may still be refused is
  a failure of the database like any other.
\<close>

definition delete_team_row :: "int \<Rightarrow> tables \<Rightarrow> tables option" where
  "delete_team_row tid d =
     Some (d\<lparr>teams := AList.delete tid (teams d),
             m_team_user := delete_where (\<lambda>k _. fst k = tid) (m_team_user d),
             users_config := delete_where (\<lambda>_ t. t = tid) (users_config d),
             categories := filter (\<lambda>c. fst c \<noteq> tid) (categories d)\<rparr>)"

definition insert_category :: "int \<Rightarrow> string \<Rightarrow> tables \<Rightarrow> tables option" where
  "insert_category tid nm d =
     (if \<not> has_key (teams d) tid \<or> (tid, nm) \<in> set (categories d) then None
      else Some (d\<lparr>categories := categories d @ [(tid, nm)]\<rparr>))"

definition update_team_row ::
  "int \<Rightarrow> string \<Rightarrow> string \<Rightarrow> string \<Rightarrow> string \<Rightarrow> tables \<Rightarrow> tables option" where
  "update_team_row tid nm descr col img d =
     Some (d\<lparr>teams := AList.map_entry tid
       (\<lambda>r. r\<lparr>name := nm, description := descr, color := col, image := img\<rparr>) (teams d)\<rparr>)"

lemmas member_statements =
  insert_member_def upsert_member_def set_role_def delete_member_def fk_member_def

lemmas team_statements =
  insert_team_row_def set_owner_def delete_team_row_def update_team_row_def insert_category_def
  clear_active_def

section \<open>The operations of internal/db/team.go\<close>

definition GetTeamRole :: "int \<Rightarrow> int \<Rightarrow> ('z env_scheme, err, int) io" where
  "GetTeamRole userID teamID = query_row (\<lambda>d. role_of d teamID userID)"

definition first_other :: "int \<Rightarrow> int list \<Rightarrow> int" where
  "first_other uid ms = (case filter (\<lambda>m. m \<noteq> uid) ms of [] \<Rightarrow> 0 | m # _ \<Rightarrow> m)"

definition leave_members :: "int \<Rightarrow> int \<Rightarrow> int \<Rightarrow> int list \<Rightarrow> ('z env_scheme, err, unit) io" where
  "leave_members userID teamID ownerID members =
     (if userID \<notin> set members then raise ErrNoRows
      else if ownerID = userID \<and> length members = 1
      then exec_sql ErrConstraint (delete_team_row teamID)
      else
        bindE (if ownerID = userID
               then let newOwnerID = first_other userID members in
                 bindE (exec_sql ErrConstraint (set_role teamID newOwnerID 0))
                   (\<lambda>_. exec_sql ErrConstraint (set_owner teamID newOwnerID))
               else ret ()) (\<lambda>_.
        bindE (exec_sql ErrConstraint (clear_active userID teamID)) (\<lambda>_.
        exec_sql ErrConstraint (delete_member teamID userID))))"

definition LeaveTeam :: "int \<Rightarrow> int \<Rightarrow> ('z env_scheme, err, unit) io" where
  "LeaveTeam userID teamID = transaction (
     bindE (query_row (\<lambda>d. map_option owner_id (map_of (teams d) teamID))) (\<lambda>ownerID.
     bindE (query_sql (\<lambda>d. members_of d teamID)) (\<lambda>members.
     leave_members userID teamID ownerID members)))"

definition insert_team :: "team_row \<Rightarrow> ('z env_scheme, err, int) io" where
  "insert_team row = (\<lambda>s.
     bindE (exec_sql ErrConstraint (insert_team_row (team_seq s + 1) row))
       (\<lambda>_. ret (team_seq s + 1)) (s\<lparr>team_seq := team_seq s + 1\<rparr>))"

text \<open>A member of a request is its user id and its role.\<close>

type_synonym member = "int \<times> int"

definition CreateTeam ::
  "string \<Rightarrow> string \<Rightarrow> string \<Rightarrow> string \<Rightarrow> member list \<Rightarrow> int \<Rightarrow> ('z env_scheme, err, int) io" where
  "CreateTeam nm descr avatarColor avatarUrl members ownerId = transaction (
     bindE (insert_team \<lparr>name = nm, description = descr, color = avatarColor,
                         image = avatarUrl, owner_id = ownerId\<rparr>) (\<lambda>teamId.
     bindE (forE members (\<lambda>m. exec_sql ErrConstraint (insert_member teamId (fst m) (snd m)))) (\<lambda>_.
     bindE (exec_sql ErrConstraint (insert_category teamId ''Default'')) (\<lambda>_.
     ret teamId))))"

definition IsTeamOwner :: "int \<Rightarrow> int \<Rightarrow> ('z env_scheme, err, bool) io" where
  "IsTeamOwner teamId userId =
     bindE (query_row (\<lambda>d. map_option owner_id (map_of (teams d) teamId)))
       (\<lambda>ownerId. ret (ownerId = userId))"

definition GetTeamById :: "int \<Rightarrow> ('z env_scheme, err, team_row) io" where
  "GetTeamById tid = query_row (\<lambda>d. map_of (teams d) tid)"

definition GetTeamsByUserId :: "int \<Rightarrow> ('z env_scheme, err, (int \<times> team_row) list) io" where
  "GetTeamsByUserId uid = query_sql (\<lambda>d. filter (\<lambda>(t, _). role_of d t uid \<noteq> None) (teams d))"

definition GetTeamMembers :: "int \<Rightarrow> ('z env_scheme, err, (int \<times> user_row option \<times> int) list) io" where
  "GetTeamMembers tid = query_sql (\<lambda>d.
     map (\<lambda>((_, u), r). (u, map_of (users d) u, r))
       (filter (\<lambda>((t, _), _). t = tid) (m_team_user d)))"

definition TransferTeamOwnership :: "int \<Rightarrow> int \<Rightarrow> ('z env_scheme, err, unit) io" where
  "TransferTeamOwnership teamId newOwnerId = transaction (
     bindE (query_row (\<lambda>d. map_of (teams d) teamId)) (\<lambda>_.
     bindE (exec_sql ErrConstraint (upsert_member teamId newOwnerId 0)) (\<lambda>_.
     exec_sql ErrConstraint (set_owner teamId newOwnerId))))"

definition RemoveUserFromTeam :: "int \<Rightarrow> int \<Rightarrow> ('z env_scheme, err, unit) io" where
  "RemoveUserFromTeam userId teamId = exec_sql ErrConstraint (delete_member teamId userId)"

definition RemoveTeam :: "int \<Rightarrow> ('z env_scheme, err, unit) io" where
  "RemoveTeam teamId = exec_sql ErrConstraint (delete_team_row teamId)"

section \<open>The active team: internal/db/user_config.go\<close>

definition set_active_row :: "int \<Rightarrow> int \<Rightarrow> tables \<Rightarrow> tables option" where
  "set_active_row uid tid d =
     (if role_of d tid uid = None then None
      else Some (d\<lparr>users_config := AList.update uid tid (users_config d)\<rparr>))"

definition SetUserActiveTeam :: "int \<Rightarrow> int \<Rightarrow> ('z env_scheme, err, unit) io" where
  "SetUserActiveTeam uid tid =
     (if tid = 0
      then exec_sql ErrConstraint
             (\<lambda>d. Some (d\<lparr>users_config := AList.delete uid (users_config d)\<rparr>))
      else exec_sql ErrNoRows (set_active_row uid tid))"

definition active_team_row :: "int \<Rightarrow> tables \<Rightarrow> int option" where
  "active_team_row uid d =
     (case map_of (users_config d) uid of
        None \<Rightarrow> None
      | Some tid \<Rightarrow> if role_of d tid uid = None then None else Some tid)"

definition GetUserActiveTeam :: "int \<Rightarrow> ('z env_scheme, err, int) io" where
  "GetUserActiveTeam uid = tryE (query_row (active_team_row uid)) (\<lambda>r.
     case r of
       Inl e \<Rightarrow> if e = ErrNoRows then ret 0 else raise e
     | Inr tid \<Rightarrow> ret tid)"

definition ClearUserActiveTeam :: "int \<Rightarrow> int \<Rightarrow> ('z env_scheme, err, unit) io" where
  "ClearUserActiveTeam uid staleTid = exec_sql ErrConstraint (clear_active uid staleTid)"

section \<open>Member lists of requests: internal/app/api/team\<close>

text \<open>The loop of \<open>validateTeamMembers\<close>, with its \<open>seen\<close> set and its three flags.\<close>

fun validate_loop ::
  "int \<Rightarrow> int \<Rightarrow> member list \<Rightarrow> int list \<Rightarrow> bool \<Rightarrow> bool \<Rightarrow> bool \<Rightarrow> err + unit" where
  "validate_loop ownerID actorID [] seen hasAdmin ownerAdmin actorAdmin =
     (if \<not> hasAdmin \<or> \<not> ownerAdmin \<or> \<not> actorAdmin then Inl ErrInvalidTeamMembers else Inr ())"
| "validate_loop ownerID actorID ((i, role) # ms) seen hasAdmin ownerAdmin actorAdmin =
     (if i \<le> 0 \<or> role < 0 \<or> role > 2 then Inl ErrInvalidTeamMembers
      else if i \<in> set seen then Inl ErrInvalidTeamMembers
      else if role = 0
      then validate_loop ownerID actorID ms (i # seen) True
             (ownerAdmin \<or> i = ownerID) (actorAdmin \<or> i = actorID)
      else validate_loop ownerID actorID ms (i # seen) hasAdmin ownerAdmin actorAdmin)"

definition validateTeamMembers :: "int \<Rightarrow> int \<Rightarrow> member list \<Rightarrow> err + unit" where
  "validateTeamMembers ownerID actorID members =
     validate_loop ownerID actorID members [] False False False"

text \<open>
  The member list \<open>create\<close> hands to \<open>CreateTeam\<close>: the creator must be listed, gets role
  0, and the list must be valid with the creator as owner and actor.
\<close>

definition create_members :: "int \<Rightarrow> member list \<Rightarrow> member list option" where
  "create_members uid members =
     (if uid \<notin> fst ` set members then None
      else let ms = map (\<lambda>(i, role). if i = uid then (i, 0) else (i, role)) members in
        (case validateTeamMembers uid uid ms of Inl _ \<Rightarrow> None | Inr _ \<Rightarrow> Some ms))"

text \<open>
  \<open>updateTeam\<close> runs inside the transaction of \<open>edit\<close>. Go iterates over the map
  \<open>existing\<close> in an unspecified order, which \<open>ord\<close> stands for.
\<close>

definition map_order :: "(int list \<Rightarrow> int list) \<Rightarrow> bool" where
  "map_order ord \<longleftrightarrow> (\<forall>xs. set (ord xs) = set xs)"

definition updateTeam ::
  "(int list \<Rightarrow> int list) \<Rightarrow> int \<Rightarrow> int \<Rightarrow> string \<Rightarrow> string \<Rightarrow> string \<Rightarrow> string option \<Rightarrow>
   member list \<Rightarrow> ('z env_scheme, err, int list \<times> string) io" where
  "updateTeam ord teamID actorID nm descr avatarColor newAvatar members =
     bindE (query_row (\<lambda>d. map_option (\<lambda>r. (owner_id r, image r)) (map_of (teams d) teamID)))
       (\<lambda>(ownerID, oldAvatar).
     bindE (query_row (\<lambda>d. role_of d teamID actorID)) (\<lambda>actorRole.
     if actorRole \<noteq> 0 then raise ErrTeamEditForbidden
     else case validateTeamMembers ownerID actorID members of
       Inl e \<Rightarrow> raise e
     | Inr _ \<Rightarrow>
       bindE (query_sql (\<lambda>d. members_of d teamID)) (\<lambda>existing.
       bindE (forE members
         (\<lambda>m. exec_sql ErrConstraint (upsert_member teamID (fst m) (snd m)))) (\<lambda>_.
       let removed = filter (\<lambda>u. u \<notin> fst ` set members) (ord existing) in
       bindE (forE removed (\<lambda>u.
         bindE (exec_sql ErrConstraint (clear_active u teamID))
           (\<lambda>_. exec_sql ErrConstraint (delete_member teamID u)))) (\<lambda>_.
       bindE (exec_sql ErrConstraint (update_team_row teamID nm descr avatarColor
         (case newAvatar of None \<Rightarrow> oldAvatar | Some a \<Rightarrow> a))) (\<lambda>_.
       ret (removed, oldAvatar)))))))"

text \<open>
  The converted avatar is moved to its public name after the statements and before the commit;
  \<open>os.Rename\<close> is one more call that can fail, and its failure rolls the transaction back.
\<close>

definition publish_avatar :: "string option \<Rightarrow> ('z env_scheme, err, unit) io" where
  "publish_avatar newAvatar = (case newAvatar of None \<Rightarrow> ret () | Some _ \<Rightarrow> query_sql (\<lambda>_. ()))"

definition edit_team ::
  "(int list \<Rightarrow> int list) \<Rightarrow> int \<Rightarrow> int \<Rightarrow> string \<Rightarrow> string \<Rightarrow> string \<Rightarrow> string option \<Rightarrow>
   member list \<Rightarrow> ('z env_scheme, err, int list \<times> string) io" where
  "edit_team ord teamID actorID nm descr avatarColor newAvatar members =
     transaction (
       bindE (updateTeam ord teamID actorID nm descr avatarColor newAvatar members) (\<lambda>r.
       bindE (publish_avatar newAvatar) (\<lambda>_. ret r)))"


section \<open>The invariant\<close>

definition roles_ok :: "tables \<Rightarrow> bool" where
  "roles_ok d \<longleftrightarrow> (\<forall>t u r. role_of d t u = Some r \<longrightarrow> 0 \<le> r \<and> r \<le> 2)"

definition owner_admin :: "tables \<Rightarrow> bool" where
  "owner_admin d \<longleftrightarrow>
     (\<forall>t row. map_of (teams d) t = Some row \<longrightarrow> role_of d t (owner_id row) = Some 0)"

definition team_inv :: "tables \<Rightarrow> bool" where
  "team_inv d \<longleftrightarrow> wf_tables d \<and> roles_ok d \<and> owner_admin d"

subsection \<open>Statements keep the constraints of the schema\<close>

definition base_inv :: "tables \<Rightarrow> bool" where
  "base_inv d \<longleftrightarrow> wf_tables d \<and> roles_ok d"

lemma team_inv_alt: "team_inv d \<longleftrightarrow> base_inv d \<and> owner_admin d"
  by (auto simp: team_inv_def base_inv_def)

lemma base_invI:
  assumes "keyed (users d)" "keyed (teams d)" "keyed (m_team_user d)" "keyed (users_config d)"
    "\<And>t u. has_key (m_team_user d) (t, u) \<Longrightarrow> has_key (teams d) t \<and> has_key (users d) u"
    "\<And>t u r. map_of (m_team_user d) (t, u) = Some r \<Longrightarrow> 0 \<le> r \<and> r \<le> 2"
    "\<And>u t. map_of (users_config d) u = Some t \<Longrightarrow> has_key (m_team_user d) (t, u)"
    "\<And>t row. map_of (teams d) t = Some row \<Longrightarrow> has_key (users d) (owner_id row)"
  shows "base_inv d"
  using assms by (simp add: base_inv_def wf_tables_def roles_ok_def role_of_def)

lemma base_inv_keyed:
  assumes "base_inv d"
  shows "keyed (users d)" "keyed (teams d)" "keyed (m_team_user d)" "keyed (users_config d)"
  using assms by (auto simp: base_inv_def wf_tables_def)

lemma base_invD:
  assumes "base_inv d"
  shows "has_key (m_team_user d) (t, u) \<Longrightarrow> has_key (teams d) t"
    "has_key (m_team_user d) (t, u) \<Longrightarrow> has_key (users d) u"
    "map_of (m_team_user d) (t, u) = Some r \<Longrightarrow> 0 \<le> r \<and> r \<le> 2"
    "map_of (users_config d) u = Some t \<Longrightarrow> has_key (m_team_user d) (t, u)"
    "map_of (teams d) t = Some row \<Longrightarrow> has_key (users d) (owner_id row)"
  using assms by (auto simp: base_inv_def wf_tables_def roles_ok_def role_of_def)

lemmas inv_simps = map_of_map_entry_Some distinct_map_entry map_of_delete_where_Some
  has_key_delete_where base_inv_keyed

lemma insert_team_row_base: "base_inv d \<Longrightarrow> insert_team_row i row d = Some d' \<Longrightarrow> base_inv d'"
  by (rule base_invI)
    (auto simp: inv_simps insert_team_row_def dest: base_invD
      intro: has_keyI split: if_splits)

lemma insert_member_base:
  "base_inv d \<Longrightarrow> insert_member t u r d = Some d' \<Longrightarrow> 0 \<le> r \<Longrightarrow> r \<le> 2 \<Longrightarrow> base_inv d'"
  by (rule base_invI)
    (auto simp: inv_simps insert_member_def fk_member_def dest: base_invD
      intro: has_keyI split: if_splits)

lemma upsert_member_base:
  "base_inv d \<Longrightarrow> upsert_member t u r d = Some d' \<Longrightarrow> 0 \<le> r \<Longrightarrow> r \<le> 2 \<Longrightarrow> base_inv d'"
  by (rule base_invI)
    (auto simp: inv_simps upsert_member_def fk_member_def dest: base_invD
      intro: has_keyI split: if_splits)

lemma set_role_base:
  "base_inv d \<Longrightarrow> set_role t u r d = Some d' \<Longrightarrow> 0 \<le> r \<Longrightarrow> r \<le> 2 \<Longrightarrow> base_inv d'"
  by (rule base_invI)
    (auto simp: inv_simps set_role_def dest: base_invD
      intro: has_keyI split: if_splits)

lemma set_owner_base: "base_inv d \<Longrightarrow> set_owner t u d = Some d' \<Longrightarrow> base_inv d'"
  by (rule base_invI)
    (auto simp: inv_simps set_owner_def dest: base_invD
      intro: has_keyI split: if_splits)

lemma delete_member_base: "base_inv d \<Longrightarrow> delete_member t u d = Some d' \<Longrightarrow> base_inv d'"
  by (rule base_invI)
    (auto simp: inv_simps delete_member_def dest: base_invD
      intro: has_keyI split: if_splits)

lemma clear_active_base: "base_inv d \<Longrightarrow> clear_active u t d = Some d' \<Longrightarrow> base_inv d'"
  by (rule base_invI)
    (auto simp: inv_simps clear_active_def dest: base_invD
      intro: has_keyI split: if_splits)

lemma delete_team_row_base:
  assumes inv: "base_inv d" and st: "delete_team_row t d = Some d'"
  shows "base_inv d'"
proof (rule base_invI)
  fix u t'
  assume "map_of (users_config d') u = Some t'"
  then have "map_of (users_config d) u = Some t'" "t' \<noteq> t"
    using inv st by (auto simp: inv_simps delete_team_row_def)
  moreover from inv this(1) have "has_key (m_team_user d) (t', u)" by (rule base_invD)
  ultimately show "has_key (m_team_user d') (t', u)"
    using inv st by (auto simp: inv_simps delete_team_row_def elim: has_keyE)
qed (use inv st in \<open>auto simp: inv_simps delete_team_row_def dest: base_invD(3)
      intro: base_invD(1,2) [OF _ has_keyI] base_invD(5) split: if_splits\<close>)

lemma update_team_row_base:
  assumes inv: "base_inv d" and st: "update_team_row t nm de co im d = Some d'"
  shows "base_inv d'"
proof (rule base_invI)
  fix t' row
  assume "map_of (teams d') t' = Some row"
  then obtain row' where "map_of (teams d) t' = Some row'" "owner_id row = owner_id row'"
    using st by (auto simp: inv_simps update_team_row_def split: if_splits)
  then show "has_key (users d') (owner_id row)"
    using st base_invD(5) [OF inv] by (auto simp: update_team_row_def)
qed (use inv st in \<open>auto simp: inv_simps update_team_row_def dest: base_invD(1-4)\<close>)

lemma insert_category_base: "base_inv d \<Longrightarrow> insert_category t nm d = Some d' \<Longrightarrow> base_inv d'"
  by (rule base_invI)
    (auto simp: inv_simps insert_category_def dest: base_invD
      intro: has_keyI split: if_splits)

lemma set_active_row_base: "base_inv d \<Longrightarrow> set_active_row u t d = Some d' \<Longrightarrow> base_inv d'"
  by (rule base_invI)
    (auto simp: inv_simps set_active_row_def role_of_def dest: base_invD
      intro: has_keyI split: if_splits)

lemma drop_active_base:
  "base_inv d \<Longrightarrow> base_inv (d\<lparr>users_config := AList.delete u (users_config d)\<rparr>)"
  by (rule base_invI)
    (auto simp: inv_simps  dest: base_invD
      intro: has_keyI split: if_splits)


subsection \<open>Statements and the owner's role\<close>

definition owner_of :: "tables \<Rightarrow> int \<Rightarrow> int option" where
  "owner_of d t = map_option owner_id (map_of (teams d) t)"

lemma owner_admin_alt:
  "owner_admin d \<longleftrightarrow> (\<forall>t u. owner_of d t = Some u \<longrightarrow> role_of d t u = Some 0)"
  by (auto simp: owner_admin_def owner_of_def)

lemma owner_is_member: "team_inv d \<Longrightarrow> owner_of d t = Some u \<Longrightarrow> role_of d t u = Some 0"
  by (auto simp: team_inv_def owner_admin_alt)

text \<open>What each statement does to owners and roles.\<close>

lemma insert_team_row_effect:
  assumes "insert_team_row i row d = Some d'"
  shows "owner_of d' = (owner_of d)(i \<mapsto> owner_id row)" "role_of d' = role_of d"
  using assms by (auto simp: insert_team_row_def owner_of_def role_of_def fun_eq_iff split: if_splits)

lemma insert_member_effect:
  assumes "insert_member t u r d = Some d'"
  shows "owner_of d' = owner_of d" "role_of d' = (role_of d)(t := (role_of d t)(u \<mapsto> r))"
    "role_of d t u = None"
  using assms by (auto simp: insert_member_def owner_of_def role_of_def fun_eq_iff not_has_key split: if_splits)

lemma upsert_member_effect:
  assumes "upsert_member t u r d = Some d'"
  shows "owner_of d' = owner_of d" "role_of d' = (role_of d)(t := (role_of d t)(u \<mapsto> r))"
  using assms by (auto simp: upsert_member_def owner_of_def role_of_def fun_eq_iff split: if_splits)

lemma set_role_effect:
  assumes "set_role t u r d = Some d'"
  shows "owner_of d' = owner_of d"
    "role_of d' = (role_of d)(t := (role_of d t)(u := map_option (\<lambda>_. r) (role_of d t u)))"
  using assms
  by (auto simp: set_role_def owner_of_def role_of_def fun_eq_iff map_of_map_entry split: option.splits)

lemma set_owner_effect:
  assumes "set_owner t u d = Some d'"
  shows "owner_of d' = (owner_of d)(t := map_option (\<lambda>_. u) (owner_of d t))" "role_of d' = role_of d"
  using assms
  by (auto simp: set_owner_def owner_of_def role_of_def fun_eq_iff map_of_map_entry
      split: if_splits option.splits)

lemma delete_member_effect:
  assumes "delete_member t u d = Some d'"
  shows "owner_of d' = owner_of d" "role_of d' = (role_of d)(t := (role_of d t)(u := None))"
  using assms by (auto simp: delete_member_def owner_of_def role_of_def fun_eq_iff)

lemma clear_active_effect:
  assumes "clear_active u t d = Some d'"
  shows "owner_of d' = owner_of d" "role_of d' = role_of d"
  using assms by (auto simp: clear_active_def owner_of_def role_of_def fun_eq_iff)

lemma delete_team_row_effect:
  assumes "delete_team_row t d = Some d'" "keyed (m_team_user d)"
  shows "owner_of d' = (owner_of d)(t := None)" "role_of d' = (role_of d)(t := Map.empty)"
  using assms
  by (auto simp: delete_team_row_def owner_of_def role_of_def fun_eq_iff map_of_delete_where
      split: option.splits)

lemma update_team_row_effect:
  assumes "update_team_row t nm de co im d = Some d'"
  shows "owner_of d' = owner_of d" "role_of d' = role_of d"
  using assms
  by (auto simp: update_team_row_def owner_of_def role_of_def fun_eq_iff map_of_map_entry
      split: option.splits)

lemma insert_category_effect:
  assumes "insert_category t nm d = Some d'"
  shows "owner_of d' = owner_of d" "role_of d' = role_of d"
  using assms by (auto simp: insert_category_def owner_of_def role_of_def fun_eq_iff split: if_splits)

lemma set_active_row_effect:
  assumes "set_active_row u t d = Some d'"
  shows "owner_of d' = owner_of d" "role_of d' = role_of d"
    "map_of (users_config d') u = Some t" "role_of d t u \<noteq> None"
  using assms by (auto simp: set_active_row_def owner_of_def role_of_def fun_eq_iff split: if_splits)

lemmas statement_effects =
  insert_team_row_effect insert_member_effect upsert_member_effect set_role_effect
  set_owner_effect delete_member_effect clear_active_effect update_team_row_effect
  insert_category_effect set_active_row_effect

lemmas statement_base =
  insert_team_row_base insert_member_base upsert_member_base set_role_base set_owner_base
  delete_member_base clear_active_base delete_team_row_base update_team_row_base
  insert_category_base set_active_row_base

section \<open>Member validation\<close>

text \<open>The loop accepts exactly the lists a declarative reading of the checks accepts.\<close>

definition valid_members :: "int \<Rightarrow> int \<Rightarrow> member list \<Rightarrow> bool" where
  "valid_members ownerID actorID ms \<longleftrightarrow>
     distinct (map fst ms) \<and> (\<forall>(i, r) \<in> set ms. 0 < i \<and> 0 \<le> r \<and> r \<le> 2) \<and>
     (ownerID, 0) \<in> set ms \<and> (actorID, 0) \<in> set ms"

lemma validate_loop_correct:
  "validate_loop ow ac ms seen h o' a = Inr () \<longleftrightarrow>
     distinct (map fst ms) \<and> set seen \<inter> fst ` set ms = {} \<and>
     (\<forall>(i, r) \<in> set ms. 0 < i \<and> 0 \<le> r \<and> r \<le> 2) \<and>
     (h \<or> (\<exists>i. (i, 0) \<in> set ms)) \<and> (o' \<or> (ow, 0) \<in> set ms) \<and> (a \<or> (ac, 0) \<in> set ms)"
  by (induction ow ac ms seen h o' a rule: validate_loop.induct) (auto split: if_splits)

lemma validateTeamMembers_iff:
  "validateTeamMembers ow ac ms = Inr () \<longleftrightarrow> valid_members ow ac ms"
  by (auto simp: validateTeamMembers_def validate_loop_correct valid_members_def)


section \<open>Every operation keeps the invariant\<close>

lemma team_inv_statement:
  assumes "base_inv d'" "\<And>t u. owner_of d' t = Some u \<Longrightarrow> role_of d' t u = Some 0"
  shows "team_inv d'"
  using assms by (simp add: team_inv_alt owner_admin_alt)

lemma team_invD: "team_inv d \<Longrightarrow> base_inv d" "team_inv d \<Longrightarrow> keyed (m_team_user d)"
  by (auto simp: team_inv_alt base_inv_def wf_tables_def)

lemma upsert_member_inv:
  assumes "team_inv d" "upsert_member t u r d = Some d'" "0 \<le> r" "r \<le> 2"
    "owner_of d t = Some u \<Longrightarrow> r = 0"
  shows "team_inv d'"
  using assms upsert_member_base [of d t u r d']
  by (intro team_inv_statement) (auto simp: team_invD upsert_member_effect owner_is_member)

lemma delete_member_inv:
  assumes "team_inv d" "delete_member t u d = Some d'" "owner_of d t \<noteq> Some u"
  shows "team_inv d'"
  using assms delete_member_base [of d t u d']
  by (intro team_inv_statement) (auto simp: team_invD delete_member_effect owner_is_member)

lemma clear_active_inv: "team_inv d \<Longrightarrow> clear_active u t d = Some d' \<Longrightarrow> team_inv d'"
  using clear_active_base [of d u t d']
  by (intro team_inv_statement) (auto simp: team_invD clear_active_effect owner_is_member)

lemma update_team_row_inv:
  "team_inv d \<Longrightarrow> update_team_row t nm de co im d = Some d' \<Longrightarrow> team_inv d'"
  using update_team_row_base [of d t nm de co im d']
  by (intro team_inv_statement) (auto simp: team_invD update_team_row_effect owner_is_member)

lemma delete_team_row_inv: "team_inv d \<Longrightarrow> delete_team_row t d = Some d' \<Longrightarrow> team_inv d'"
  using delete_team_row_base [of d t d']
  by (intro team_inv_statement)
    (auto simp: team_invD delete_team_row_effect owner_is_member split: if_splits)

lemma set_active_row_inv: "team_inv d \<Longrightarrow> set_active_row u t d = Some d' \<Longrightarrow> team_inv d'"
  using set_active_row_base [of d u t d']
  by (intro team_inv_statement) (auto simp: team_invD set_active_row_effect owner_is_member)

lemma set_role_inv:
  "team_inv d \<Longrightarrow> set_role t u 0 d = Some d' \<Longrightarrow> team_inv d'"
  using set_role_base [of d t u 0 d']
  by (intro team_inv_statement) (auto simp: team_invD set_role_effect owner_is_member)

lemma set_owner_inv:
  assumes "team_inv d" "set_owner t u d = Some d'" "role_of d t u = Some 0"
  shows "team_inv d'"
  using assms set_owner_base [of d t u d']
  by (intro team_inv_statement)
    (auto simp: team_invD set_owner_effect owner_is_member split: if_splits)

lemma insert_category_inv: "team_inv d \<Longrightarrow> insert_category t nm d = Some d' \<Longrightarrow> team_inv d'"
  using insert_category_base [of d t nm d']
  by (intro team_inv_statement) (auto simp: team_invD insert_category_effect owner_is_member)

subsection \<open>Leaving a team\<close>

lemma first_other_Min:
  assumes "sorted ms" "set ms - {u} \<noteq> {}"
  shows "first_other u ms = Min (set ms - {u})"
proof -
  let ?f = "filter (\<lambda>m. m \<noteq> u) ms"
  have set: "set ?f = set ms - {u}" by auto
  with assms(2) obtain m r where f: "?f = m # r" by (metis list.set(1) neq_Nil_conv)
  have "sorted ?f" using assms(1) by (rule sorted_wrt_filter)
  then have "Min (set ?f) = m"
    unfolding f by (intro Min_eqI) auto
  then show ?thesis by (simp add: first_other_def f flip: set)
qed

lemma others_nonempty:
  assumes "distinct ms" "u \<in> set ms" "length ms \<noteq> 1"
  shows "set ms - {u} \<noteq> {}"
proof
  assume "set ms - {u} = {}"
  with assms(2) have "set ms = {u}" by auto
  with assms(1) have "length ms = 1" by (metis card_1_singleton_iff distinct_card One_nat_def)
  with assms(3) show False by simp
qed

text \<open>What a committed \<open>LeaveTeam\<close> does to the tables.\<close>

definition leave_spec :: "int \<Rightarrow> int \<Rightarrow> tables \<Rightarrow> tables \<Rightarrow> bool" where
  "leave_spec u t d d' \<longleftrightarrow>
     role_of d t u \<noteq> None \<and> team_inv d' \<and>
     (\<forall>t'. t' \<noteq> t \<longrightarrow> role_of d' t' = role_of d t' \<and> owner_of d' t' = owner_of d t') \<and>
     role_of d' t u = None \<and>
     (if owner_of d t \<noteq> Some u
      then owner_of d' t = owner_of d t \<and> (\<forall>v. v \<noteq> u \<longrightarrow> role_of d' t v = role_of d t v)
      else if set (members_of d t) = {u} then owner_of d' t = None
      else (let w = Min (set (members_of d t) - {u}) in
        owner_of d' t = Some w \<and> role_of d' t w = Some 0 \<and>
        (\<forall>v. v \<noteq> u \<and> v \<noteq> w \<longrightarrow> role_of d' t v = role_of d t v)))"

lemma leave_delete_team:
  assumes "team_inv d" "role_of d t u \<noteq> None" "owner_of d t = Some u" "set (members_of d t) = {u}"
    "delete_team_row t d = Some d'"
  shows "leave_spec u t d d'"
  using assms delete_team_row_inv [OF assms(1,5)]
  by (auto simp: leave_spec_def delete_team_row_effect team_invD)

lemma leave_member:
  assumes "team_inv d" "role_of d t u \<noteq> None" "owner_of d t \<noteq> Some u"
    "clear_active u t d = Some d1" "delete_member t u d1 = Some d'"
  shows "leave_spec u t d d'"
  using assms clear_active_inv [OF assms(1,4)] delete_member_inv [of d1 t u d']
  by (auto simp: leave_spec_def clear_active_effect delete_member_effect)

lemma leave_handover:
  assumes inv: "team_inv d" and mem: "role_of d t u \<noteq> None" and own: "owner_of d t = Some u"
    and others: "set (members_of d t) - {u} \<noteq> {}"
    and w: "w = Min (set (members_of d t) - {u})"
    and st: "set_role t w 0 d = Some d1" "set_owner t w d1 = Some d2"
      "clear_active u t d2 = Some d3" "delete_member t u d3 = Some d'"
  shows "leave_spec u t d d'"
proof -
  note eff = set_role_effect [OF st(1)] set_owner_effect [OF st(2)] clear_active_effect [OF st(3)]
    delete_member_effect [OF st(4)]
  have "w \<in> set (members_of d t) - {u}" using others unfolding w by (intro Min_in) auto
  then have wm: "role_of d t w \<noteq> None" "w \<noteq> u" by (auto simp: set_members_of)
  have i1: "team_inv d1" using inv st(1) by (rule set_role_inv)
  have "role_of d1 t w = Some 0" using wm by (auto simp: eff)
  with i1 st(2) have i2: "team_inv d2" by (rule set_owner_inv)
  then have i3: "team_inv d3" using st(3) by (rule clear_active_inv)
  have "owner_of d3 t = Some w" using own by (simp add: eff)
  then have "team_inv d'" using wm by (auto intro!: delete_member_inv [OF i3 st(4)])
  moreover have "set (members_of d t) \<noteq> {u}" using others by auto
  moreover have "owner_of d' t = Some w" "role_of d' t w = Some 0" "role_of d' t u = None"
    using own wm by (auto simp: eff)
  moreover have "\<forall>v. v \<noteq> u \<and> v \<noteq> w \<longrightarrow> role_of d' t v = role_of d t v"
    "\<forall>t'. t' \<noteq> t \<longrightarrow> role_of d' t' = role_of d t' \<and> owner_of d' t' = owner_of d t'"
    by (auto simp: eff)
  ultimately show ?thesis
    using mem own unfolding leave_spec_def w by simp
qed

text \<open>On every success path the body of \<open>LeaveTeam\<close> reaches such tables.\<close>

lemma leave_members_spec:
  assumes inv: "team_inv (tabs s)"
    and own: "owner_of (tabs s) teamID = Some ownerID"
    and run: "leave_members userID teamID ownerID (members_of (tabs s) teamID) s = (Inr (), s')"
  shows "leave_spec userID teamID (tabs s) (tabs s')"
proof -
  let ?d = "tabs s" and ?ms = "members_of (tabs s) teamID"
  let ?w = "first_other userID ?ms"
  from run have "userID \<in> set ?ms" by (auto simp: leave_members_def raise_def split: if_splits)
  then have mem: "role_of ?d teamID userID \<noteq> None" by (simp add: set_members_of)
  have dist: "distinct ?ms" using inv by (auto intro: distinct_members_of team_invD)
  consider (last) "ownerID = userID" "length ?ms = 1" | (owner) "ownerID = userID" "length ?ms \<noteq> 1"
    | (member) "ownerID \<noteq> userID" by blast
  then show ?thesis
  proof cases
    case last
    with \<open>userID \<in> set ?ms\<close> have "set ?ms = {userID}" by (cases ?ms) auto
    with run last own mem inv \<open>userID \<in> set ?ms\<close> show ?thesis
      by (auto simp: leave_members_def exec_sql_Inr_iff intro: leave_delete_team)
  next
    case owner
    have "set ?ms - {userID} \<noteq> {}"
      using dist \<open>userID \<in> set ?ms\<close> owner(2) by (rule others_nonempty)
    moreover from this have "?w = Min (set ?ms - {userID})"
      by (intro first_other_Min sorted_members_of)
    moreover from run owner \<open>userID \<in> set ?ms\<close> obtain d1 d2 d3 where
      "set_role teamID ?w 0 ?d = Some d1" "set_owner teamID ?w d1 = Some d2"
      "clear_active userID teamID d2 = Some d3" "delete_member teamID userID d3 = Some (tabs s')"
      by (auto simp: leave_members_def Let_def sql_Inr_iffs)
    ultimately show ?thesis using inv mem own owner by (intro leave_handover) auto
  next
    case member
    with run own mem inv \<open>userID \<in> set ?ms\<close> show ?thesis
      by (auto simp: leave_members_def sql_Inr_iffs ret_def intro: leave_member)
  qed
qed

lemma LeaveTeam_tables:
  assumes inv: "team_inv (tabs s)" and run: "LeaveTeam userID teamID s = (r, s')"
  shows "tabs s' = tabs s \<and> (\<exists>e. r = Inl e) \<or>
    leave_spec userID teamID (tabs s) (tabs s') \<and> (r = Inr () \<or> r = Inl ErrDb)"
  using transaction_atomic [OF run [unfolded LeaveTeam_def]] inv
    leave_members_spec [of "s\<lparr>calls := Suc (Suc (Suc (calls s)))\<rparr>" teamID _ userID]
  by (auto simp: bindE_Inr_iff query_row_Inr_iff query_sql_Inr_iff owner_of_def)


subsection \<open>Creating and editing a team\<close>

lemma seq_insert_member:
  assumes "seq_opt (\<lambda>m. insert_member t (fst m) (snd m)) ms d = Some d'" "base_inv d"
    "\<forall>m \<in> set ms. 0 \<le> snd m \<and> snd m \<le> 2"
  shows "base_inv d' \<and> owner_of d' = owner_of d \<and> (\<forall>t'. t' \<noteq> t \<longrightarrow> role_of d' t' = role_of d t') \<and>
    role_of d' t = role_of d t ++ map_of ms"
  using assms
proof (induction ms arbitrary: d)
  case Nil
  then show ?case by simp
next
  case (Cons m ms)
  then obtain d1 where d1: "insert_member t (fst m) (snd m) d = Some d1"
    and rest: "seq_opt (\<lambda>m. insert_member t (fst m) (snd m)) ms d1 = Some d'"
    by (auto split: bind_splits)
  have "fst m \<notin> fst ` set ms"
  proof
    assume "fst m \<in> fst ` set ms"
    moreover have "role_of d1 t (fst m) \<noteq> None" using insert_member_effect [OF d1] by simp
    ultimately show False using rest
    proof (induction ms arbitrary: d1)
      case (Cons n ms)
      from Cons.prems(3) obtain d2 where d2: "insert_member t (fst n) (snd n) d1 = Some d2"
        and "seq_opt (\<lambda>m. insert_member t (fst m) (snd m)) ms d2 = Some d'"
        by (auto split: bind_splits)
      moreover have "fst n \<noteq> fst m" "role_of d2 t (fst m) \<noteq> None"
        using insert_member_effect [OF d2] Cons.prems(2) by auto
      ultimately show ?case using Cons.IH [of d2] Cons.prems by auto
    qed simp
  qed
  moreover have "base_inv d1" using Cons.prems d1 by (auto intro: insert_member_base)
  ultimately show ?case
    using Cons.IH [OF rest] Cons.prems(3) insert_member_effect [OF d1]
    by (cases m) (auto simp: map_add_def fun_eq_iff map_of_eq_None_iff split: option.splits)
qed

lemma seq_upsert_member:
  assumes "seq_opt (\<lambda>m. upsert_member t (fst m) (snd m)) ms d = Some d'" "base_inv d"
    "\<forall>m \<in> set ms. 0 \<le> snd m \<and> snd m \<le> 2" "distinct (map fst ms)"
  shows "base_inv d' \<and> owner_of d' = owner_of d \<and> (\<forall>t'. t' \<noteq> t \<longrightarrow> role_of d' t' = role_of d t') \<and>
    role_of d' t = role_of d t ++ map_of ms"
  using assms
proof (induction ms arbitrary: d)
  case Nil
  then show ?case by simp
next
  case (Cons m ms)
  then obtain d1 where d1: "upsert_member t (fst m) (snd m) d = Some d1"
    and rest: "seq_opt (\<lambda>m. upsert_member t (fst m) (snd m)) ms d1 = Some d'"
    by (auto split: bind_splits)
  have "base_inv d1" using Cons.prems d1 by (auto intro: upsert_member_base)
  then show ?case
    using Cons.IH [OF rest] Cons.prems(3,4) upsert_member_effect [OF d1]
    by (cases m) (auto simp: map_add_def fun_eq_iff map_of_eq_None_iff split: option.splits)
qed

lemma seq_remove_member:
  assumes "seq_opt (\<lambda>u d. Option.bind (clear_active u t d) (delete_member t u)) us d = Some d'"
    "base_inv d"
  shows "base_inv d' \<and> owner_of d' = owner_of d \<and> (\<forall>t'. t' \<noteq> t \<longrightarrow> role_of d' t' = role_of d t') \<and>
    (\<forall>u. role_of d' t u = (if u \<in> set us then None else role_of d t u))"
  using assms
proof (induction us arbitrary: d)
  case Nil
  then show ?case by simp
next
  case (Cons u us)
  then obtain d1 d2 where d1: "clear_active u t d = Some d1" and d2: "delete_member t u d1 = Some d2"
    and rest: "seq_opt (\<lambda>u d. Option.bind (clear_active u t d) (delete_member t u)) us d2 = Some d'"
    by (auto split: bind_splits)
  have "base_inv d2" using Cons.prems d1 d2 by (metis clear_active_base delete_member_base)
  then show ?case
    using Cons.IH [OF rest] clear_active_effect [OF d1] delete_member_effect [OF d2] by auto
qed

lemma valid_membersD:
  assumes "valid_members ow ac ms"
  shows "distinct (map fst ms)" "\<forall>m \<in> set ms. 0 \<le> snd m \<and> snd m \<le> 2"
    "map_of ms ow = Some 0" "map_of ms ac = Some 0"
  using assms by (auto simp: valid_members_def map_of_eq_Some_iff)

lemma create_members_Some:
  "create_members uid members = Some ms \<Longrightarrow> valid_members uid uid ms"
  by (auto simp: create_members_def Let_def split: if_splits sum.splits simp flip: validateTeamMembers_iff)

text \<open>What a committed \<open>CreateTeam\<close> does to the tables.\<close>

definition create_spec :: "int \<Rightarrow> member list \<Rightarrow> int \<Rightarrow> tables \<Rightarrow> tables \<Rightarrow> bool" where
  "create_spec owner ms tid d d' \<longleftrightarrow>
     team_inv d' \<and> owner_of d tid = None \<and> owner_of d' = (owner_of d)(tid \<mapsto> owner) \<and>
     role_of d' = (role_of d)(tid := map_of ms)"

lemma CreateTeam_tables:
  assumes inv: "team_inv (tabs s)" and ms: "valid_members owner owner ms"
    and run: "CreateTeam nm de co im ms owner s = (r, s')"
  shows "tabs s' = tabs s \<and> (\<exists>e. r = Inl e) \<or>
    (\<exists>tid. create_spec owner ms tid (tabs s) (tabs s') \<and> (r = Inr tid \<or> r = Inl ErrDb))"
proof -
  let ?row = "\<lparr>name = nm, description = de, color = co, image = im, owner_id = owner\<rparr>"
  have spec: "create_spec owner ms tid (tabs s) (tabs v)"
    if st: "insert_team_row tid ?row (tabs s) = Some d1"
      "seq_opt (\<lambda>m. insert_member tid (fst m) (snd m)) ms d1 = Some d2"
      "insert_category tid ''Default'' d2 = Some (tabs v)" for tid d1 d2 v
  proof -
    have b1: "base_inv d1" using inv st(1) by (metis insert_team_row_base team_invD(1))
    have "\<not> has_key (teams (tabs s)) tid" using st(1) by (auto simp: insert_team_row_def split: if_splits)
    moreover have none: "role_of (tabs s) tid u = None" for u
      using base_invD(1) [OF team_invD(1) [OF inv], of tid u] calculation
      by (auto simp: role_of_def simp flip: not_has_key)
    moreover note e1 = insert_team_row_effect [OF st(1)]
      and e2 = seq_insert_member [OF st(2) b1 valid_membersD(2) [OF ms]]
      and e3 = insert_category_effect [OF st(3)]
    moreover have roles: "role_of (tabs v) = (role_of (tabs s))(tid := map_of ms)"
      using e1 e2 e3 none by (auto simp: fun_eq_iff map_add_def split: option.splits)
    moreover have "base_inv (tabs v)" using e2 st(3) by (metis insert_category_base)
    moreover from this have "team_inv (tabs v)"
      using inv e1 e2 e3 roles valid_membersD(3) [OF ms]
      by (intro team_inv_statement) (auto simp: owner_is_member split: if_splits)
    ultimately show ?thesis
      by (auto simp: create_spec_def owner_of_def not_has_key)
  qed
  show ?thesis
    using transaction_atomic [OF run [unfolded CreateTeam_def]]
    by (fastforce simp: sql_Inr_iffs insert_team_def ret_def dest!: forE_exec_sql_Inr intro: spec)
qed


text \<open>
  What a committed edit does: the member list of the request replaces the memberships of the
  team, everything else about owners and roles stays.
\<close>

definition edit_spec :: "int \<Rightarrow> int \<Rightarrow> member list \<Rightarrow> int list \<Rightarrow> tables \<Rightarrow> tables \<Rightarrow> bool" where
  "edit_spec actor tid ms removed d d' \<longleftrightarrow>
     team_inv d' \<and> role_of d tid actor = Some 0 \<and> role_of d' tid actor = Some 0 \<and>
     owner_of d' = owner_of d \<and> role_of d' = (role_of d)(tid := map_of ms) \<and>
     set removed = {u. role_of d tid u \<noteq> None \<and> role_of d' tid u = None}"

lemma updateTeam_Inr:
  assumes inv: "team_inv (tabs s)" and ord: "map_order ord"
    and run: "updateTeam ord tid actor nm de co im ms s = (Inr (removed, old), s')"
  shows "edit_spec actor tid ms removed (tabs s) (tabs s')"
proof -
  let ?d = "tabs s"
  from run obtain ow d1 d2 where own: "owner_of ?d tid = Some ow" and actor: "role_of ?d tid actor = Some 0"
    and val: "validateTeamMembers ow actor ms = Inr ()"
    and st: "seq_opt (\<lambda>m. upsert_member tid (fst m) (snd m)) ms ?d = Some d1"
      "seq_opt (\<lambda>u d. Option.bind (clear_active u tid d) (delete_member tid u)) removed d1 = Some d2"
      "update_team_row tid nm de co (case im of None \<Rightarrow> old | Some a \<Rightarrow> a) d2 = Some (tabs s')"
    and rem: "removed = filter (\<lambda>u. u \<notin> fst ` set ms) (ord (members_of ?d tid))"
    unfolding updateTeam_def
    by (fastforce simp: sql_Inr_iffs raise_def ret_def Let_def owner_of_def
        dest!: forE_exec_sql_Inr forE_exec2_sql_Inr split: if_splits sum.splits prod.splits)
  note vm = valid_membersD [OF val [unfolded validateTeamMembers_iff]]
  have e1: "base_inv d1" "owner_of d1 = owner_of ?d" "\<And>t'. t' \<noteq> tid \<Longrightarrow> role_of d1 t' = role_of ?d t'"
    "role_of d1 tid = role_of ?d tid ++ map_of ms"
    using seq_upsert_member [OF st(1) team_invD(1) [OF inv] vm(2,1)] by auto
  have e2: "base_inv d2" "owner_of d2 = owner_of d1" "\<And>t'. t' \<noteq> tid \<Longrightarrow> role_of d2 t' = role_of d1 t'"
    "\<And>u. role_of d2 tid u = (if u \<in> set removed then None else role_of d1 tid u)"
    using seq_remove_member [OF st(2) e1(1)] by auto
  have mem: "set removed = {u. role_of ?d tid u \<noteq> None \<and> map_of ms u = None}"
    using ord by (auto simp: rem map_order_def set_members_of map_of_eq_None_iff)
  have "role_of (tabs s') tid u = map_of ms u" for u
    using e1(4) e2(4) [of u] update_team_row_effect(2) [OF st(3)]
    by (cases "map_of ms u") (auto simp: mem map_add_def)
  then have roles: "role_of (tabs s') = (role_of ?d)(tid := map_of ms)"
    using e1(3) e2(3) update_team_row_effect(2) [OF st(3)] by (intro ext) auto
  moreover have own': "owner_of (tabs s') = owner_of ?d"
    using e1 e2 update_team_row_effect [OF st(3)] by simp
  moreover have "base_inv (tabs s')" using e2(1) st(3) by (rule update_team_row_base)
  moreover from this have "team_inv (tabs s')"
    using inv own own' roles vm(3) by (intro team_inv_statement) (auto simp: owner_is_member)
  ultimately show ?thesis
    using actor mem vm(4) by (auto simp: edit_spec_def)
qed

lemma publish_avatar_Inr:
  "bindE m (\<lambda>r. bindE (publish_avatar a) (\<lambda>_. ret r)) s = (Inr x, u) \<Longrightarrow>
     \<exists>t. m s = (Inr x, t) \<and> tabs u = tabs t"
  by (auto simp: bindE_Inr_iff publish_avatar_def ret_def sql_Inr_iffs split: option.splits)

lemma edit_team_tables:
  assumes inv: "team_inv (tabs s)" and ord: "map_order ord"
    and run: "edit_team ord tid actor nm de co im ms s = (r, s')"
  shows "tabs s' = tabs s \<and> (\<exists>e. r = Inl e) \<or>
    (\<exists>removed old. edit_spec actor tid ms removed (tabs s) (tabs s') \<and>
      (r = Inr (removed, old) \<or> r = Inl ErrDb))"
  using transaction_atomic [OF run [unfolded edit_team_def]] inv
    updateTeam_Inr [OF _ ord, of "s\<lparr>calls := Suc (calls s)\<rparr>"]
  by (fastforce dest!: publish_avatar_Inr)

subsection \<open>Ownership transfer and the active team\<close>

lemma TransferTeamOwnership_tables:
  assumes inv: "team_inv (tabs s)" and run: "TransferTeamOwnership tid u s = (r, s')"
  shows "tabs s' = tabs s \<and> (\<exists>e. r = Inl e) \<or>
    team_inv (tabs s') \<and> owner_of (tabs s') tid = Some u \<and> role_of (tabs s') tid u = Some 0 \<and>
      (r = Inr () \<or> r = Inl ErrDb)"
proof -
  have "team_inv d2 \<and> owner_of d2 tid = Some u \<and> role_of d2 tid u = Some 0"
    if "map_of (teams (tabs s)) tid = Some row" "upsert_member tid u 0 (tabs s) = Some d1"
      "set_owner tid u d1 = Some d2" for row d1 d2
    using that upsert_member_inv [OF inv that(2)] set_owner_inv [OF _ that(3)]
      upsert_member_effect [OF that(2)] set_owner_effect [OF that(3)]
    by (auto simp: owner_of_def)
  then show ?thesis
    using transaction_atomic [OF run [unfolded TransferTeamOwnership_def]]
    by (fastforce simp: sql_Inr_iffs)
qed

lemma SetUserActiveTeam_keeps: "keeps (\<lambda>s. team_inv (tabs s)) (SetUserActiveTeam u t)"
proof -
  have "team_inv (d\<lparr>users_config := AList.delete u (users_config d)\<rparr>)" if "team_inv d" for d
    using that drop_active_base [of d u] by (auto simp: team_inv_alt owner_admin_def role_of_def)
  then show ?thesis
    by (auto simp: SetUserActiveTeam_def intro!: keeps_exec_sql elim: set_active_row_inv)
qed

lemma ClearUserActiveTeam_keeps: "keeps (\<lambda>s. team_inv (tabs s)) (ClearUserActiveTeam u t)"
  unfolding ClearUserActiveTeam_def by (rule keeps_exec_sql) (rule clear_active_inv)

lemma RemoveTeam_keeps: "keeps (\<lambda>s. team_inv (tabs s)) (RemoveTeam t)"
  unfolding RemoveTeam_def by (rule keeps_exec_sql) (rule delete_team_row_inv)

section \<open>Properties\<close>

lemma sample_team_inv: "team_inv sample_tables"
  by (auto simp: team_inv_def wf_tables_def roles_ok_def owner_admin_def sample_tables_def
      sample_user_def sample_team_def has_key_def role_of_def split: if_splits)

lemma sample_env_tabs [simp]: "tabs sample_env = sample_tables"
  by (simp add: sample_env_def)

text \<open>
  Leaving a team is atomic. Either nothing changes and the caller sees an error, or the
  member is gone, no other team is touched, and the team invariant holds again: the roles of
  the others stay when the leaver was not the owner; an owner who was alone takes the team
  with them; otherwise the remaining member with the smallest id owns the team as
  administrator and nobody else changes. A run that reports success did change the tables.
\<close>

theorem LeaveTeam_correct:
  assumes "team_inv (tabs s)" "LeaveTeam userID teamID s = (r, s')"
  defines "d \<equiv> tabs s" and "d' \<equiv> tabs s'"
  shows "(d' = d \<and> r \<noteq> Inr ()) \<or>
    (team_inv d' \<and> role_of d teamID userID \<noteq> None \<and> role_of d' teamID userID = None \<and>
     (\<forall>t. t \<noteq> teamID \<longrightarrow> role_of d' t = role_of d t \<and> owner_of d' t = owner_of d t) \<and>
     (if owner_of d teamID \<noteq> Some userID
      then owner_of d' teamID = owner_of d teamID \<and>
           (\<forall>v. v \<noteq> userID \<longrightarrow> role_of d' teamID v = role_of d teamID v)
      else if set (members_of d teamID) = {userID} then owner_of d' teamID = None
      else (let w = Min (set (members_of d teamID) - {userID}) in
        owner_of d' teamID = Some w \<and> role_of d' teamID w = Some 0 \<and>
        (\<forall>v. v \<noteq> userID \<and> v \<noteq> w \<longrightarrow> role_of d' teamID v = role_of d teamID v))))"
proof (rule disjE [OF LeaveTeam_tables [OF assms(1,2)]])
  assume "tabs s' = tabs s \<and> (\<exists>e. r = Inl e)"
  then show ?thesis by (intro disjI1) (auto simp: d_def d'_def)
next
  assume "leave_spec userID teamID (tabs s) (tabs s') \<and> (r = Inr () \<or> r = Inl ErrDb)"
  then show ?thesis unfolding leave_spec_def d_def d'_def by (intro disjI2) blast
qed

theorem LeaveTeam_correct_witness:
  "LeaveTeam 1 7 sample_env = (Inr (), snd (LeaveTeam 1 7 sample_env)) \<and>
   owner_of (tabs (snd (LeaveTeam 1 7 sample_env))) 7 = Some 2 \<and>
   role_of (tabs (snd (LeaveTeam 1 7 sample_env))) 7 2 = Some 0"
proof -
  have run: "LeaveTeam 1 7 sample_env = (Inr (), snd (LeaveTeam 1 7 sample_env))"
    by (rule prod_eqI) (simp_all, code_simp)
  have own: "owner_of (tabs sample_env) 7 = Some 1" "set (members_of (tabs sample_env) 7) = {1, 2, 3}"
    by code_simp+
  have "Min ({1, 2, 3} - {1 :: int}) = 2" by code_simp
  with run own LeaveTeam_correct [OF _ run] show ?thesis
    by (auto simp: sample_team_inv Let_def)
qed

text \<open>
  The member list of a request is accepted exactly when its ids are positive and pairwise
  different, its roles are 0, 1 or 2, and both the owner and the acting user are listed with
  the administrator role.
\<close>

theorem validateTeamMembers_correct:
  "validateTeamMembers ownerID actorID members = Inr () \<longleftrightarrow>
     distinct (map fst members) \<and>
     list_all (\<lambda>(i, role). 0 < i \<and> 0 \<le> role \<and> role \<le> 2) members \<and>
     (ownerID, 0) \<in> set members \<and> (actorID, 0) \<in> set members"
  unfolding validateTeamMembers_iff valid_members_def by (auto simp: list_all_iff)

text \<open>
  Creating a team with an accepted member list is atomic: either nothing changes and the
  caller sees an error, or exactly one team that did not exist is added, owned by the creator,
  with exactly the listed members and roles, and no other membership or owner changes.
\<close>

theorem CreateTeam_correct:
  assumes "team_inv (tabs s)" "create_members uid members = Some ms"
    "CreateTeam nm descr colour avatar ms uid s = (r, s')"
  shows "(tabs s' = tabs s \<and> (\<exists>e. r = Inl e)) \<or>
    (\<exists>tid. team_inv (tabs s') \<and> owner_of (tabs s) tid = None \<and>
      owner_of (tabs s') = (owner_of (tabs s))(tid \<mapsto> uid) \<and>
      role_of (tabs s') = (role_of (tabs s))(tid := map_of ms) \<and>
      role_of (tabs s') tid uid = Some 0 \<and> (r = Inr tid \<or> r = Inl ErrDb))"
  using CreateTeam_tables [OF assms(1) create_members_Some [OF assms(2)] assms(3)]
    valid_membersD(3) [OF create_members_Some [OF assms(2)]]
  by (auto simp: create_spec_def)

theorem CreateTeam_correct_witness:
  "fst (CreateTeam ''new'' '''' ''blue'' '''' [(2, 0), (3, 1)] 2 sample_env) = Inr 9 \<and>
   role_of (tabs (snd (CreateTeam ''new'' '''' ''blue'' '''' [(2, 0), (3, 1)] 2 sample_env))) 9 2 = Some 0"
proof -
  let ?run = "CreateTeam ''new'' '''' ''blue'' '''' [(2, 0), (3, 1)] 2 sample_env"
  have ms: "create_members 2 [(2, 2), (3, 1)] = Some [(2, 0), (3, 1)]" by code_simp
  have res: "fst ?run = Inr 9" by code_simp
  show ?thesis
    using CreateTeam_correct [OF _ ms prod.collapse [symmetric], of sample_env "''new''" "''''" "''blue''" "''''"] res
    by (auto simp: sample_team_inv)
qed

text \<open>
  Editing a team is atomic and authorised inside the transaction: when the tables change,
  the acting user was an administrator of the team and still is, the memberships of the team
  are exactly the requested ones, owners and all other teams are as before, and the reported
  list of removed users is exactly the set of users who lost their membership. This holds for
  every order in which the map of existing members is iterated.
\<close>

theorem edit_team_correct:
  assumes "team_inv (tabs s)" "map_order ord"
    "edit_team ord tid actor nm descr colour avatar members s = (r, s')"
  shows "(tabs s' = tabs s \<and> (\<exists>e. r = Inl e)) \<or>
    (\<exists>removed old. (r = Inr (removed, old) \<or> r = Inl ErrDb) \<and> team_inv (tabs s') \<and>
      role_of (tabs s) tid actor = Some 0 \<and> role_of (tabs s') tid actor = Some 0 \<and>
      owner_of (tabs s') = owner_of (tabs s) \<and>
      role_of (tabs s') = (role_of (tabs s))(tid := map_of members) \<and>
      set removed = {u. role_of (tabs s) tid u \<noteq> None \<and> role_of (tabs s') tid u = None})"
  using edit_team_tables [OF assms] unfolding edit_spec_def by blast

theorem edit_team_correct_witness:
  "fst (edit_team rev 7 1 ''core'' '''' ''red'' None [(1, 0), (3, 1)] sample_env) = Inr ([2], '''') \<and>
   role_of (tabs (snd (edit_team rev 7 1 ''core'' '''' ''red'' None [(1, 0), (3, 1)] sample_env))) 7 2 = None"
proof -
  let ?run = "edit_team rev 7 1 ''core'' '''' ''red'' None [(1, 0), (3, 1)] sample_env"
  have ord: "map_order rev" by (simp add: map_order_def)
  have res: "fst ?run = Inr ([2], '''')" by code_simp
  show ?thesis
    using edit_team_correct [OF _ ord prod.collapse [symmetric], of sample_env 7 1 "''core''" "''''" "''red''" None "[(1, 0), (3, 1)]"] res
    by (auto simp: sample_team_inv)
qed

end
