(* ===== verification/Accounts.thy ===== *)
theory Accounts
  imports Teams
begin

text \<open>
  User accounts: the administrative operations of \<open>internal/db/user.go\<close>
  (\<open>DeleteUser\<close>, \<open>UpdateAdminUser\<close> and the helpers that lock and look up the
  administrators) and its queries. The contract: the hub never loses its last
  administrator, and only a re-authenticated administrator removes or demotes others.
\<close>

section \<open>Statements\<close>

text \<open>\<open>exec_count\<close> is a statement whose affected rows the code reads.\<close>

definition exec_count :: "err \<Rightarrow> (tables \<Rightarrow> (tables \<times> nat) option) \<Rightarrow> ('z env_scheme, err, nat) io" where
  "exec_count e f = (\<lambda>s. case exec_sql e (\<lambda>d. map_option fst (f d)) s of
     (Inl x, t) \<Rightarrow> (Inl x, t)
   | (Inr _, t) \<Rightarrow> (Inr (case f (tabs s) of None \<Rightarrow> 0 | Some (_, n) \<Rightarrow> n), t))"

lemma exec_count_Inr_iff:
  "exec_count e f s = (Inr n, t) \<longleftrightarrow>
     outcomes s (calls s) = Done \<and>
     (\<exists>d. f (tabs s) = Some (d, n) \<and> t = s\<lparr>calls := Suc (calls s), tabs := d\<rparr>)"
  by (auto simp: exec_count_def exec_sql_def next_call_def split: outcome.splits option.splits)

definition owned_teams :: "int \<Rightarrow> tables \<Rightarrow> (int \<times> string) list" where
  "owned_teams uid d =
     sort_key fst (map (\<lambda>(t, r). (t, name r)) (filter (\<lambda>(_, r). owner_id r = uid) (teams d)))"

definition delete_user_row :: "int \<Rightarrow> tables \<Rightarrow> (tables \<times> nat) option" where
  "delete_user_row uid d =
     (if \<not> has_key (users d) uid then Some (d, 0)
      else if list_ex (\<lambda>(_, r). owner_id r = uid) (teams d) then None
      else Some (d\<lparr>users := AList.delete uid (users d),
                   m_team_user := delete_where (\<lambda>k _. snd k = uid) (m_team_user d),
                   users_config := delete_where (\<lambda>u _. u = uid) (users_config d)\<rparr>, 1))"

record AdminUserUpdate =
  upd_username :: string
  upd_email :: string
  upd_verified :: bool
  upd_is_admin :: bool
  upd_password_hash :: string
  upd_password_salt :: string

definition apply_update :: "AdminUserUpdate \<Rightarrow> user_row \<Rightarrow> user_row" where
  "apply_update upd r =
     (let r' = r\<lparr>username := upd_username upd, email := upd_email upd,
                verified := upd_verified upd, is_admin := upd_is_admin upd\<rparr> in
      if upd_password_hash upd = '''' then r'
      else r'\<lparr>password := upd_password_hash upd, salt := upd_password_salt upd\<rparr>)"

definition update_user_row :: "int \<Rightarrow> AdminUserUpdate \<Rightarrow> tables \<Rightarrow> (tables \<times> nat) option" where
  "update_user_row uid upd d =
     (if \<not> has_key (users d) uid then Some (d, 0)
      else if list_ex (\<lambda>(u, r). u \<noteq> uid \<and> email r = upd_email upd) (users d) then None
      else Some (d\<lparr>users := AList.map_entry uid (apply_update upd) (users d)\<rparr>, 1))"

section \<open>Operations\<close>

type_synonym credential = "int \<times> string"

definition lockAdministrators :: "('z env_scheme, err, credential list) io" where
  "lockAdministrators = query_sql (\<lambda>d.
     sort_key fst (map (\<lambda>(i, r). (i, password r)) (filter (\<lambda>(_, r). is_admin r) (users d))))"

fun administratorPassword :: "credential list \<Rightarrow> int \<Rightarrow> string \<times> bool" where
  "administratorPassword [] userID = ('''', False)"
| "administratorPassword ((i, pw) # admins) userID =
     (if i = userID then (pw, True) else administratorPassword admins userID)"

definition DeleteUser :: "int \<Rightarrow> int \<Rightarrow> string \<Rightarrow> string \<Rightarrow> ('z env_scheme, err, string) io" where
  "DeleteUser actorID userID confirmation reauthenticatedHash =
     (if actorID = userID then raise ErrCannotModifySelf
      else if reauthenticatedHash = '''' then raise ErrAdminReauthenticationRequired
      else transaction (
        bindE lockAdministrators (\<lambda>admins.
        case administratorPassword admins actorID of (actorHash, actorIsAdmin) \<Rightarrow>
        if \<not> actorIsAdmin then raise ErrActorNotAdmin
        else if actorHash \<noteq> reauthenticatedHash then raise ErrAdminReauthenticationRequired
        else bindE (query_row (\<lambda>d. map_option (\<lambda>r. (username r, is_admin r)) (map_of (users d) userID)))
          (\<lambda>(uname, isAdmin).
        if confirmation = '''' \<or> confirmation \<noteq> uname then raise ErrDeleteUserConfirmationMismatch
        else if isAdmin \<and> length admins = 1 then raise ErrLastAdmin
        else bindE (query_sql (owned_teams userID)) (\<lambda>ownedTeams.
        if ownedTeams \<noteq> [] then raise (UserOwnsTeamsError ownedTeams)
        else bindE (exec_count ErrConstraint (delete_user_row userID)) (\<lambda>affected.
        if affected \<noteq> 1 then raise ErrNoRows else ret uname))))))"

definition update_admin_body ::
  "int \<Rightarrow> int \<Rightarrow> AdminUserUpdate \<Rightarrow> string \<Rightarrow> ('z env_scheme, err, unit) io" where
  "update_admin_body actorID userID upd reauthenticatedHash =
     bindE lockAdministrators (\<lambda>admins.
     case administratorPassword admins actorID of (actorHash, actorIsAdmin) \<Rightarrow>
     if \<not> actorIsAdmin then raise ErrActorNotAdmin
     else bindE (query_row (\<lambda>d. map_option is_admin (map_of (users d) userID))) (\<lambda>targetIsAdmin.
     if targetIsAdmin \<and> \<not> upd_is_admin upd \<and> actorID = userID then raise ErrCannotModifySelf
     else if targetIsAdmin \<and> \<not> upd_is_admin upd \<and> length admins = 1 then raise ErrLastAdmin
     else if (targetIsAdmin \<noteq> upd_is_admin upd \<or> upd_password_hash upd \<noteq> '''')
          \<and> (reauthenticatedHash = '''' \<or> actorHash \<noteq> reauthenticatedHash)
     then raise ErrAdminReauthenticationRequired
     else tryE (exec_count ErrUniqueEmail (update_user_row userID upd)) (\<lambda>res.
     case res of
       Inl e \<Rightarrow> raise (if e = ErrUniqueEmail then ErrUserEmailExists else e)
     | Inr affected \<Rightarrow> if affected \<noteq> 1 then raise ErrNoRows else ret ())))"

definition UpdateAdminUser ::
  "int \<Rightarrow> int \<Rightarrow> AdminUserUpdate \<Rightarrow> string \<Rightarrow> ('z env_scheme, err, unit) io" where
  "UpdateAdminUser actorID userID upd reauthenticatedHash =
     (if actorID = userID \<and> \<not> upd_is_admin upd then raise ErrCannotModifySelf
      else transaction (update_admin_body actorID userID upd reauthenticatedHash))"

definition GetUserById :: "int \<Rightarrow> ('z env_scheme, err, user_row) io" where
  "GetUserById i = query_row (\<lambda>d. map_of (users d) i)"

definition user_by_email :: "string \<Rightarrow> tables \<Rightarrow> (int \<times> user_row) option" where
  "user_by_email mail d = List.find (\<lambda>(_, r). email r = mail) (users d)"

definition GetUserAuthByEmail :: "string \<Rightarrow> ('z env_scheme, err, int \<times> user_row) io" where
  "GetUserAuthByEmail mail = query_row (user_by_email mail)"

definition GetUserAuthById :: "int \<Rightarrow> ('z env_scheme, err, int \<times> user_row) io" where
  "GetUserAuthById i = query_row (\<lambda>d. map_option (\<lambda>r. (i, r)) (map_of (users d) i))"

definition CheckEmailExists :: "string \<Rightarrow> ('z env_scheme, err, bool) io" where
  "CheckEmailExists mail =
     query_sql (\<lambda>d. 0 < length (filter (\<lambda>(_, r). email r = mail) (users d)))"

definition SetUserTOTP :: "int \<Rightarrow> string option \<Rightarrow> ('z env_scheme, err, unit) io" where
  "SetUserTOTP userID secret = exec_sql ErrConstraint (\<lambda>d.
     Some (d\<lparr>users := AList.map_entry userID (\<lambda>r. r\<lparr>totp := secret\<rparr>) (users d)\<rparr>))"

definition UpdateUsername :: "int \<Rightarrow> string \<Rightarrow> ('z env_scheme, err, unit) io" where
  "UpdateUsername userID newUsername = exec_sql ErrConstraint (\<lambda>d.
     Some (d\<lparr>users := AList.map_entry userID (\<lambda>r. r\<lparr>username := newUsername\<rparr>) (users d)\<rparr>))"

text \<open>
  Rows the handlers write themselves. The identity column gives a new user the id \<open>i\<close>;
  \<open>is_admin\<close> and \<open>totp\<close> have the defaults of the schema unless the statement names them.
\<close>

definition insert_user_row :: "int \<Rightarrow> user_row \<Rightarrow> tables \<Rightarrow> tables option" where
  "insert_user_row i row d =
     (if has_key (users d) i \<or> list_ex (\<lambda>(_, r). email r = email row) (users d) then None
      else Some (d\<lparr>users := AList.update i row (users d)\<rparr>))"

definition add_user ::
  "int \<Rightarrow> string \<Rightarrow> string \<Rightarrow> string \<Rightarrow> string \<Rightarrow> bool \<Rightarrow> bool \<Rightarrow> ('z env_scheme, err, unit) io" where
  "add_user i uname mail newPassword signature isVerified isAdmin =
     bindE (CheckEmailExists mail) (\<lambda>isExist.
     if isExist then raise ErrUserEmailExists
     else exec_sql ErrConstraint (insert_user_row i
       \<lparr>username = uname, email = mail, password = newPassword, salt = signature,
        is_admin = isAdmin, verified = isVerified, totp = None\<rparr>))"

definition set_verified :: "int \<Rightarrow> ('z env_scheme, err, unit) io" where
  "set_verified uid = exec_sql ErrConstraint (\<lambda>d.
     Some (d\<lparr>users := AList.map_entry uid (\<lambda>r. r\<lparr>verified := True\<rparr>) (users d)\<rparr>))"

definition migrate_password :: "int \<Rightarrow> string \<Rightarrow> string \<Rightarrow> ('z env_scheme, err, unit) io" where
  "migrate_password uid oldHash newHash = exec_sql ErrConstraint (\<lambda>d.
     Some (d\<lparr>users := AList.map_entry uid
       (\<lambda>r. if password r = oldHash then r\<lparr>password := newHash\<rparr> else r) (users d)\<rparr>))"

section \<open>Contract\<close>

definition is_admin_user :: "tables \<Rightarrow> int \<Rightarrow> bool" where
  "is_admin_user d i \<longleftrightarrow> (\<exists>r. map_of (users d) i = Some r \<and> is_admin r)"

definition has_admin :: "tables \<Rightarrow> bool" where
  "has_admin d \<longleftrightarrow> list_ex (\<lambda>(_, r). is_admin r) (users d)"

definition account_inv :: "tables \<Rightarrow> bool" where
  "account_inv d \<longleftrightarrow> team_inv d \<and> has_admin d"

lemma has_adminI: "is_admin_user d i \<Longrightarrow> has_admin d"
  by (auto simp: is_admin_user_def has_admin_def list_ex_iff dest!: map_of_SomeD)

lemma administratorPassword_admins:
  assumes "keyed (users d)"
    "administratorPassword (sort_key fst (map (\<lambda>(i, r). (i, password r))
       (filter (\<lambda>(_, r). is_admin r) (users d)))) i = (h, True)"
  shows "\<exists>r. map_of (users d) i = Some r \<and> is_admin r \<and> password r = h"
proof -
  have found: "administratorPassword as i = (h, True) \<Longrightarrow> (i, h) \<in> set as" for as
    by (induction as i rule: administratorPassword.induct) (auto split: if_splits)
  then show ?thesis
    using found [OF assms(2)] assms(1) by (auto simp: map_of_eq_Some_iff)
qed

lemma delete_user_row_effect:
  assumes "delete_user_row uid d = Some (d', Suc 0)"
  shows "map_of (users d') = (map_of (users d))(uid := None)"
  using assms by (auto simp: delete_user_row_def split: if_splits)

lemma delete_user_row_inv:
  assumes inv: "team_inv d" and st: "delete_user_row uid d = Some (d', n)"
  shows "team_inv d'"
proof (cases "has_key (users d) uid")
  case False
  with inv st show ?thesis by (auto simp: delete_user_row_def)
next
  case True
  note b = team_invD(1) [OF inv] and kb = base_inv_keyed [OF team_invD(1) [OF inv]]
  have no_owner: "owner_id r \<noteq> uid" if "map_of (teams d) t = Some r" for t r
    using True st map_of_SomeD [OF that] by (auto simp: delete_user_row_def list_ex_iff split: if_splits)
  have d': "d' = d\<lparr>users := AList.delete uid (users d),
      m_team_user := delete_where (\<lambda>k _. snd k = uid) (m_team_user d),
      users_config := delete_where (\<lambda>u _. u = uid) (users_config d)\<rparr>"
    using True st by (auto simp: delete_user_row_def split: if_splits)
  have "base_inv d'"
  proof (rule base_invI)
    fix u t assume "map_of (users_config d') u = Some t"
    then have "map_of (users_config d) u = Some t" "u \<noteq> uid"
      using kb by (auto simp: d' map_of_delete_where_Some)
    then show "has_key (m_team_user d') (t, u)"
      using base_invD(4) [OF b] kb by (auto simp: d' has_key_delete_where elim!: has_keyE)
  next
    fix t row assume "map_of (teams d') t = Some row"
    then show "has_key (users d') (owner_id row)"
      using base_invD(5) [OF b] no_owner by (auto simp: d')
  qed (use b kb in \<open>auto simp: d' has_key_delete_where map_of_delete_where_Some
      intro: base_invD(1,2) [OF _ has_keyI] dest: base_invD(3)\<close>)
  moreover have "owner_admin d'"
    using inv no_owner kb by (auto simp: team_inv_def owner_admin_def role_of_def d' map_of_delete_where)
  ultimately show ?thesis by (simp add: team_inv_alt)
qed

lemma update_user_row_inv:
  assumes inv: "team_inv d" and st: "update_user_row uid upd d = Some (d', n)"
  shows "team_inv d'"
proof (cases "has_key (users d) uid")
  case False
  with inv st show ?thesis by (auto simp: update_user_row_def)
next
  case True
  note b = team_invD(1) [OF inv]
  have d': "d' = d\<lparr>users := AList.map_entry uid (apply_update upd) (users d)\<rparr>"
    using True st by (auto simp: update_user_row_def split: if_splits)
  have "base_inv d'"
    by (rule base_invI) (use b in \<open>auto simp: d' base_inv_keyed distinct_map_entry dest: base_invD\<close>)
  with inv show ?thesis by (auto simp: team_inv_alt owner_admin_def role_of_def d')
qed

text \<open>What must have held when \<open>DeleteUser\<close> changed the tables.\<close>

definition delete_user_authorised :: "int \<Rightarrow> int \<Rightarrow> string \<Rightarrow> string \<Rightarrow> tables \<Rightarrow> bool" where
  "delete_user_authorised actor uid confirmation hash d \<longleftrightarrow>
     actor \<noteq> uid \<and> hash \<noteq> '''' \<and>
     (\<exists>r. map_of (users d) actor = Some r \<and> is_admin r \<and> password r = hash) \<and>
     (\<exists>r. map_of (users d) uid = Some r \<and> username r = confirmation) \<and>
     (\<forall>t. owner_of d t \<noteq> Some uid)"

lemma owned_teams_empty: "owned_teams uid d = [] \<Longrightarrow> owner_of d t \<noteq> Some uid"
proof
  assume none: "owned_teams uid d = []" and own: "owner_of d t = Some uid"
  from own obtain r where "(t, r) \<in> set (teams d)" "owner_id r = uid"
    by (auto simp: owner_of_def dest!: map_of_SomeD)
  then have "(t, name r) \<in> set (owned_teams uid d)" by (force simp: owned_teams_def)
  with none show False by simp
qed

lemma account_inv_keyed: "account_inv d \<Longrightarrow> keyed (users d)"
  by (simp add: account_inv_def team_inv_alt base_inv_keyed)

lemma transaction_cases:
  assumes "transaction m s = (r, s')"
    "\<And>x v. m (s\<lparr>calls := Suc (calls s)\<rparr>) = (Inr x, v) \<Longrightarrow> P x (tabs v)"
  shows "tabs s' = tabs s \<and> (\<exists>e. r = Inl e) \<or> (\<exists>x. P x (tabs s') \<and> (r = Inr x \<or> r = Inl ErrDb))"
  using transaction_atomic [OF assms(1)] assms(2) by fastforce

lemma DeleteUser_commit:
  assumes inv: "account_inv d" and "actor \<noteq> uid" "hash \<noteq> ''''"
    and admin: "administratorPassword (sort_key fst (map (\<lambda>(i, r). (i, password r))
         (filter (\<lambda>(_, r). is_admin r) (users d)))) actor = (hash, True)"
    and "map_of (users d) uid = Some u" "owned_teams uid d = []"
    and st: "delete_user_row uid d = Some (d', Suc 0)"
  shows "delete_user_authorised actor uid (username u) hash d \<and> account_inv d' \<and>
    (\<forall>i. map_of (users d') i = (if i = uid then None else map_of (users d) i))"
proof -
  obtain a where a: "map_of (users d) actor = Some a" "is_admin a" "password a = hash"
    using administratorPassword_admins [OF account_inv_keyed [OF inv] admin] by blast
  have "is_admin_user d' actor"
    using a assms(2) delete_user_row_effect [OF st] by (simp add: is_admin_user_def)
  then show ?thesis
    using assms a delete_user_row_inv [OF _ st] delete_user_row_effect [OF st]
    by (auto simp: delete_user_authorised_def account_inv_def owned_teams_empty intro: has_adminI)
qed

lemma DeleteUser_tables:
  assumes inv: "account_inv (tabs s)" and run: "DeleteUser actor uid conf hash s = (r, s')"
  shows "tabs s' = tabs s \<and> (\<exists>e. r = Inl e) \<or>
    (\<exists>x. (x = conf \<and> delete_user_authorised actor uid conf hash (tabs s) \<and> account_inv (tabs s') \<and>
      (\<forall>i. map_of (users (tabs s')) i = (if i = uid then None else map_of (users (tabs s)) i))) \<and> (r = Inr x \<or> r = Inl ErrDb))"
proof (cases "actor = uid \<or> hash = ''''")
  case True
  with run show ?thesis by (cases "actor = uid") (auto simp: DeleteUser_def raise_def)
next
  case False
  then have neq: "actor \<noteq> uid" "hash \<noteq> ''''" by auto
  show ?thesis
    by (rule transaction_cases [OF run [unfolded DeleteUser_def if_not_P [OF neq(1)] if_not_P [OF neq(2)]]])
      (auto simp: lockAdministrators_def sql_Inr_iffs exec_count_Inr_iff raise_def ret_def
        split: if_splits prod.splits dest: DeleteUser_commit [OF inv neq])
qed

lemma apply_update_admin [simp]: "is_admin (apply_update upd r) = upd_is_admin upd"
  by (simp add: apply_update_def Let_def)

lemma update_user_row_Some:
  assumes "update_user_row uid upd d = Some (d', n)"
  shows "map_of (users d') = (map_of (users d))(uid := map_option (apply_update upd) (map_of (users d) uid))"
  using assms
  by (auto simp: update_user_row_def fun_eq_iff map_of_map_entry not_has_key split: if_splits option.splits)

lemma UpdateAdminUser_commit:
  assumes inv: "account_inv d" and "actor \<noteq> uid \<or> upd_is_admin upd"
    and admin: "administratorPassword (sort_key fst (map (\<lambda>(i, r). (i, password r))
         (filter (\<lambda>(_, r). is_admin r) (users d)))) actor = (h, True)"
    and st: "update_user_row uid upd d = Some (d', n)"
  shows "is_admin_user d actor \<and> account_inv d'"
proof -
  obtain a where a: "map_of (users d) actor = Some a" "is_admin a"
    using administratorPassword_admins [OF account_inv_keyed [OF inv] admin] by blast
  then have "is_admin_user d' actor"
    using assms(2) update_user_row_Some [OF st] by (auto simp: is_admin_user_def)
  then have "has_admin d'" by (rule has_adminI)
  then show ?thesis
    using a inv update_user_row_inv [OF _ st] by (auto simp: account_inv_def is_admin_user_def)
qed

text \<open>What must have held when \<open>UpdateAdminUser\<close> changed the tables.\<close>

definition update_user_authorised ::
  "int \<Rightarrow> int \<Rightarrow> AdminUserUpdate \<Rightarrow> string \<Rightarrow> tables \<Rightarrow> bool" where
  "update_user_authorised actor uid upd hash d \<longleftrightarrow>
     (\<exists>a u. map_of (users d) actor = Some a \<and> is_admin a \<and> map_of (users d) uid = Some u \<and>
       (is_admin u \<noteq> upd_is_admin upd \<or> upd_password_hash upd \<noteq> '''' \<longrightarrow>
          hash \<noteq> '''' \<and> password a = hash) \<and>
       (is_admin u \<and> \<not> upd_is_admin upd \<longrightarrow> actor \<noteq> uid))"

lemma update_admin_body_Inr:
  assumes inv: "account_inv (tabs s)" and self: "actor \<noteq> uid \<or> upd_is_admin upd"
    and run: "update_admin_body actor uid upd hash s = (Inr x, v)"
  shows "update_user_authorised actor uid upd hash (tabs s) \<and> account_inv (tabs v)"
proof -
  let ?d = "tabs s"
  from run obtain h n u where
    admin: "administratorPassword (sort_key fst (map (\<lambda>(i, r). (i, password r))
       (filter (\<lambda>(_, r). is_admin r) (users ?d)))) actor = (h, True)"
    and u: "map_of (users ?d) uid = Some u"
    and reauth: "is_admin u \<noteq> upd_is_admin upd \<or> upd_password_hash upd \<noteq> '''' \<longrightarrow> hash \<noteq> '''' \<and> h = hash"
    and st: "update_user_row uid upd ?d = Some (tabs v, n)"
    unfolding update_admin_body_def lockAdministrators_def
    by (auto simp: sql_Inr_iffs exec_count_Inr_iff raise_def ret_def tryE_case_iff
        split: if_splits prod.splits)
  obtain a where "map_of (users ?d) actor = Some a" "is_admin a" "password a = h"
    using administratorPassword_admins [OF account_inv_keyed [OF inv] admin] by blast
  then have "update_user_authorised actor uid upd hash ?d"
    using u reauth self unfolding update_user_authorised_def by auto
  with UpdateAdminUser_commit [OF inv self admin st] show ?thesis by blast
qed

lemma UpdateAdminUser_tables:
  assumes inv: "account_inv (tabs s)" and run: "UpdateAdminUser actor uid upd hash s = (r, s')"
  shows "tabs s' = tabs s \<and> (\<exists>e. r = Inl e) \<or>
    (\<exists>x. (update_user_authorised actor uid upd hash (tabs s) \<and> account_inv (tabs s')) \<and>
      (r = Inr x \<or> r = Inl ErrDb))"
proof (cases "actor = uid \<and> \<not> upd_is_admin upd")
  case True
  with run show ?thesis by (auto simp: UpdateAdminUser_def raise_def)
next
  case False
  then have self: "actor \<noteq> uid \<or> upd_is_admin upd" by blast
  show ?thesis
    by (rule transaction_cases [OF run [unfolded UpdateAdminUser_def if_not_P [OF False]]])
      (use inv self update_admin_body_Inr [of "s\<lparr>calls := Suc (calls s)\<rparr>"] in auto)
qed

section \<open>Changes of a user row that leave the administrator flag\<close>

lemma has_admin_map_entry:
  assumes "\<And>r. is_admin (f r) = is_admin r"
  shows "list_ex (\<lambda>(_, r). is_admin r) (AList.map_entry i f us) = list_ex (\<lambda>(_, r). is_admin r) us"
  by (induction us) (auto simp: assms)

lemma has_admin_update:
  "\<not> has_key us i \<Longrightarrow> list_ex (\<lambda>(_, r). is_admin r) us \<Longrightarrow>
     list_ex (\<lambda>(_, r). is_admin r) (AList.update i row us)"
  by (induction us) (auto simp: has_key_def split: if_splits)

text \<open>The team invariant depends on the users table only through its keys.\<close>

lemma team_inv_users:
  assumes "team_inv d" "keyed us" "\<And>u. has_key (users d) u \<Longrightarrow> has_key us u"
  shows "team_inv (d\<lparr>users := us\<rparr>)"
  using assms by (auto simp: team_inv_def wf_tables_def roles_ok_def owner_admin_def role_of_def)

lemma map_entry_user_inv:
  assumes inv: "account_inv d" and f: "\<And>r. is_admin (f r) = is_admin r"
  shows "account_inv (d\<lparr>users := AList.map_entry i f (users d)\<rparr>)"
  using inv account_inv_keyed [OF inv] has_admin_map_entry [OF f, of i "users d"]
  by (auto simp: account_inv_def has_admin_def distinct_map_entry intro!: team_inv_users)

lemma insert_user_row_inv:
  assumes inv: "account_inv d" and st: "insert_user_row i row d = Some d'"
  shows "account_inv d'"
proof -
  have "\<not> has_key (users d) i" and d': "d' = d\<lparr>users := AList.update i row (users d)\<rparr>"
    using st by (auto simp: insert_user_row_def split: if_splits)
  then show ?thesis
    using inv account_inv_keyed [OF inv] has_admin_update [of "users d" i row]
    by (auto simp: account_inv_def has_admin_def intro!: team_inv_users)
qed

lemma user_statements_keep:
  "keeps (\<lambda>s. account_inv (tabs s)) (SetUserTOTP i sec)"
  "keeps (\<lambda>s. account_inv (tabs s)) (UpdateUsername i nm)"
  "keeps (\<lambda>s. account_inv (tabs s)) (set_verified i)"
  "keeps (\<lambda>s. account_inv (tabs s)) (migrate_password i old new)"
  unfolding SetUserTOTP_def UpdateUsername_def set_verified_def migrate_password_def
  by (rule keeps_exec_sql; auto intro!: map_entry_user_inv split: if_splits)+

lemma add_user_keeps: "keeps (\<lambda>s. account_inv (tabs s)) (add_user i nm ma pw sa ve ad)"
  unfolding add_user_def CheckEmailExists_def
  by (intro keeps_intros keeps_exec_sql [where J = account_inv]) (auto elim: insert_user_row_inv)

section \<open>Properties\<close>

lemma sample_account_inv: "account_inv sample_tables"
  by (simp add: account_inv_def sample_team_inv) code_simp

text \<open>
  Deleting a user is atomic and guarded inside the transaction. When the tables change,
  the acting user was a different user, an administrator whose current password hash is the
  one that was re-authenticated; the confirmation was the name of the deleted user, who owned
  no team; exactly that user is gone; and the hub still has an administrator. A reported
  success returns the name of the deleted user.
\<close>

theorem DeleteUser_correct:
  assumes "account_inv (tabs s)" "DeleteUser actorID userID confirmation hash s = (r, s')"
  shows "(tabs s' = tabs s \<and> (\<exists>e. r = Inl e)) \<or>
    ((r = Inr confirmation \<or> r = Inl ErrDb) \<and> actorID \<noteq> userID \<and> hash \<noteq> '''' \<and>
     (\<exists>a. map_of (users (tabs s)) actorID = Some a \<and> is_admin a \<and> password a = hash) \<and>
     (\<exists>u. map_of (users (tabs s)) userID = Some u \<and> username u = confirmation) \<and>
     (\<forall>t. owner_of (tabs s) t \<noteq> Some userID) \<and>
     map_of (users (tabs s')) = (map_of (users (tabs s)))(userID := None) \<and>
     team_inv (tabs s') \<and> has_admin (tabs s'))"
  using DeleteUser_tables [OF assms] by (auto simp: delete_user_authorised_def account_inv_def fun_eq_iff)

theorem DeleteUser_correct_witness:
  "fst (DeleteUser 1 2 ''bob'' ''hash-ann'' sample_env) = Inr ''bob'' \<and>
   map_of (users (tabs (snd (DeleteUser 1 2 ''bob'' ''hash-ann'' sample_env)))) 2 = None"
proof -
  have res: "fst (DeleteUser 1 2 ''bob'' ''hash-ann'' sample_env) = Inr ''bob''" by code_simp
  show ?thesis
    using DeleteUser_correct [OF _ prod.collapse [symmetric], of sample_env 1 2 "''bob''" "''hash-ann''"] res
    by (auto simp: sample_account_inv)
qed

text \<open>
  Changing a user as an administrator is atomic and guarded: when the tables change, the
  acting user was an administrator and the target existed; a change of the administrator flag
  or of the password needed the acting user's current password hash; nobody revoked their own
  administrator flag; and the hub still has an administrator.
\<close>

theorem UpdateAdminUser_correct:
  assumes "account_inv (tabs s)" "UpdateAdminUser actorID userID upd hash s = (r, s')"
  shows "(tabs s' = tabs s \<and> (\<exists>e. r = Inl e)) \<or>
    ((r = Inr () \<or> r = Inl ErrDb) \<and>
     (\<exists>a u. map_of (users (tabs s)) actorID = Some a \<and> is_admin a \<and>
       map_of (users (tabs s)) userID = Some u \<and>
       (is_admin u \<noteq> upd_is_admin upd \<or> upd_password_hash upd \<noteq> '''' \<longrightarrow>
          hash \<noteq> '''' \<and> password a = hash) \<and>
       (is_admin u \<and> \<not> upd_is_admin upd \<longrightarrow> actorID \<noteq> userID)) \<and>
     team_inv (tabs s') \<and> has_admin (tabs s'))"
  using UpdateAdminUser_tables [OF assms] unfolding update_user_authorised_def account_inv_def by auto

theorem UpdateAdminUser_correct_witness:
  "fst (UpdateAdminUser 1 2 \<lparr>upd_username = ''bob'', upd_email = ''b'', upd_verified = True,
     upd_is_admin = True, upd_password_hash = '''', upd_password_salt = ''''\<rparr> ''hash-ann'' sample_env) = Inr () \<and>
   has_admin (tabs (snd (UpdateAdminUser 1 2 \<lparr>upd_username = ''bob'', upd_email = ''b'', upd_verified = True,
     upd_is_admin = True, upd_password_hash = '''', upd_password_salt = ''''\<rparr> ''hash-ann'' sample_env)))"
proof -
  let ?upd = "\<lparr>upd_username = ''bob'', upd_email = ''b'', upd_verified = True,
     upd_is_admin = True, upd_password_hash = '''', upd_password_salt = ''''\<rparr>"
  have res: "fst (UpdateAdminUser 1 2 ?upd ''hash-ann'' sample_env) = Inr ()" by code_simp
  show ?thesis
    using UpdateAdminUser_correct [OF _ prod.collapse [symmetric], of sample_env 1 2 ?upd "''hash-ann''"] res
    by (auto simp: sample_account_inv)
qed

end
