(* ===== verification/Sessions.thy ===== *)
theory Sessions
  imports Accounts
begin

text \<open>
  Login sessions: \<open>internal/redis/sessions.go\<close>, \<open>internal/app/auth/session_finalize.go\<close>
  and \<open>internal/access/team.go\<close>. Redis is a service outside the repository: the
  definitions take its commands as the argument \<open>R\<close>, the locale \<open>redis_service\<close> lists
  the documented laws of these commands, and the in-memory keyspace at the end of the
  section shows that the laws can hold.
\<close>

section \<open>The Redis commands\<close>

record 'r redis_client =
  cmd_get :: "'r \<Rightarrow> string \<Rightarrow> string option"
  cmd_set :: "string \<Rightarrow> string \<Rightarrow> 'r \<Rightarrow> 'r"
  cmd_del :: "string \<Rightarrow> 'r \<Rightarrow> 'r"
  cmd_exists :: "'r \<Rightarrow> string \<Rightarrow> bool"
  cmd_sadd :: "string \<Rightarrow> string \<Rightarrow> 'r \<Rightarrow> 'r"
  cmd_srem :: "string \<Rightarrow> string list \<Rightarrow> 'r \<Rightarrow> 'r"
  cmd_smembers :: "'r \<Rightarrow> string \<Rightarrow> string list"
  cmd_sismember :: "'r \<Rightarrow> string \<Rightarrow> string \<Rightarrow> bool"

record 'r renv = env +
  rstate :: 'r

definition redis_write :: "('r \<Rightarrow> 'r) \<Rightarrow> (('r, 'z) renv_scheme, err, unit) io" where
  "redis_write f = (\<lambda>s. case next_call s of (oc, t) \<Rightarrow>
     (case oc of
        Done \<Rightarrow> (Inr (), t\<lparr>rstate := f (rstate t)\<rparr>)
      | Failed \<Rightarrow> (Inl ErrRedis, t)
      | Lost \<Rightarrow> (Inl ErrRedis, t\<lparr>rstate := f (rstate t)\<rparr>)))"

definition redis_read :: "('r \<Rightarrow> 'a) \<Rightarrow> (('r, 'z) renv_scheme, err, 'a) io" where
  "redis_read f = (\<lambda>s. case next_call s of (oc, t) \<Rightarrow>
     (if oc = Done then (Inr (f (rstate t)), t) else (Inl ErrRedis, t)))"

definition redis_get :: "'r redis_client \<Rightarrow> string \<Rightarrow> (('r, 'z) renv_scheme, err, string) io" where
  "redis_get R k = bindE (redis_read (\<lambda>r. cmd_get R r k)) (\<lambda>v.
     case v of None \<Rightarrow> raise ErrRedisNil | Some x \<Rightarrow> ret x)"

locale redis_service =
  fixes R :: "'r redis_client"
  assumes get_set: "cmd_get R (cmd_set R k v r) k' = (if k' = k then Some v else cmd_get R r k')"
    and get_del: "cmd_get R (cmd_del R k r) k' = (if k' = k then None else cmd_get R r k')"
    and get_sadd: "k' \<noteq> k \<Longrightarrow> cmd_get R (cmd_sadd R k m r) k' = cmd_get R r k'"
    and get_srem: "cmd_get R (cmd_srem R k ms r) k' = cmd_get R r k'"
    and get_exists: "cmd_get R r k = Some v \<Longrightarrow> cmd_exists R r k"
    and exists_set: "cmd_exists R (cmd_set R k v r) k' \<longleftrightarrow> k' = k \<or> cmd_exists R r k'"
    and exists_del: "cmd_exists R (cmd_del R k r) k' \<longleftrightarrow> k' \<noteq> k \<and> cmd_exists R r k'"
    and exists_sadd: "k' \<noteq> k \<Longrightarrow> cmd_exists R (cmd_sadd R k m r) k' = cmd_exists R r k'"
    and exists_srem: "k' \<noteq> k \<Longrightarrow> cmd_exists R (cmd_srem R k ms r) k' = cmd_exists R r k'"
    and members_set: "k' \<noteq> k \<Longrightarrow> set (cmd_smembers R (cmd_set R k v r) k') = set (cmd_smembers R r k')"
    and members_del: "k' \<noteq> k \<Longrightarrow> set (cmd_smembers R (cmd_del R k r) k') = set (cmd_smembers R r k')"
    and members_sadd: "set (cmd_smembers R (cmd_sadd R k m r) k') =
      (if k' = k then insert m (set (cmd_smembers R r k')) else set (cmd_smembers R r k'))"
    and members_srem: "set (cmd_smembers R (cmd_srem R k ms r) k') =
      (if k' = k then set (cmd_smembers R r k') - set ms else set (cmd_smembers R r k'))"
    and sismember: "cmd_sismember R r k m \<longleftrightarrow> m \<in> set (cmd_smembers R r k)"

section \<open>Session records\<close>

text \<open>
  A stored session is a gob-encoded map; \<open>gob\<close> is the decoder, \<open>None\<close> a decode error. A
  type assertion \<open>x.(T)\<close> succeeds on a value of that dynamic type only.
\<close>

datatype sval = VInt64 int | VInt int | VStr string | VOther

type_synonym session_values = "(string, sval) table"

record SessionData =
  sd_id :: string
  sd_uid :: int
  sd_tid :: int
  sd_user_agent :: string
  sd_client_ip :: string
  sd_time :: int

definition as_int64 :: "sval option \<Rightarrow> int option" where
  "as_int64 v = (case v of Some (VInt64 i) \<Rightarrow> Some i | _ \<Rightarrow> None)"

definition as_string :: "sval option \<Rightarrow> string option" where
  "as_string v = (case v of Some (VStr x) \<Rightarrow> Some x | _ \<Rightarrow> None)"

definition ParseSessionData ::
  "(string \<Rightarrow> session_values option) \<Rightarrow> string \<Rightarrow> string \<Rightarrow> SessionData option" where
  "ParseSessionData gob sid data =
     (case gob data of
        None \<Rightarrow> None
      | Some m \<Rightarrow>
        (case as_int64 (map_of m ''uid'') of
           None \<Rightarrow> None
         | Some uid \<Rightarrow>
           (case as_int64 (map_of m ''tid'') of
              None \<Rightarrow> None
            | Some tid \<Rightarrow>
              (case as_string (map_of m ''user_agent'') of
                 None \<Rightarrow> None
               | Some ua \<Rightarrow>
                 (case as_int64 (map_of m ''time'') of
                    None \<Rightarrow> None
                  | Some loginTime \<Rightarrow>
                    let clientIP = (case as_string (map_of m ''client_ip'') of
                                      None \<Rightarrow> '''' | Some ip \<Rightarrow> ip) in
                    Some \<lparr>sd_id = sid, sd_uid = uid, sd_tid = tid, sd_user_agent = ua,
                          sd_client_ip = clientIP, sd_time = loginTime\<rparr>)))))"

definition user_sessions_key :: "int \<Rightarrow> string" where
  "user_sessions_key uid = ''user:sessions:'' @ itoa uid"

definition session_key :: "string \<Rightarrow> string" where
  "session_key sid = ''mosona:session:'' @ sid"

lemma user_sessions_key_inject [simp]: "user_sessions_key u = user_sessions_key v \<longleftrightarrow> u = v"
  by (simp add: user_sessions_key_def)

lemma session_key_inject [simp]: "session_key a = session_key b \<longleftrightarrow> a = b"
  by (simp add: session_key_def)

lemma session_keys_disjoint [simp]:
  "session_key a \<noteq> user_sessions_key u" "user_sessions_key u \<noteq> session_key a"
  by (simp_all add: session_key_def user_sessions_key_def)

section \<open>Operations of internal/redis/sessions.go\<close>

definition AddSessionID :: "'r redis_client \<Rightarrow> int \<Rightarrow> string \<Rightarrow> (('r, 'z) renv_scheme, err, unit) io" where
  "AddSessionID R uid sessionID = redis_write (cmd_sadd R (user_sessions_key uid) sessionID)"

definition SessionExists :: "'r redis_client \<Rightarrow> string \<Rightarrow> (('r, 'z) renv_scheme, err, bool) io" where
  "SessionExists R sessionID =
     (if sessionID = '''' then ret False
      else redis_read (\<lambda>r. cmd_exists R r (session_key sessionID)))"

definition listUserSessionIDs :: "'r redis_client \<Rightarrow> int \<Rightarrow> (('r, 'z) renv_scheme, err, string list) io" where
  "listUserSessionIDs R uid = redis_read (\<lambda>r. cmd_smembers R r (user_sessions_key uid))"

definition getSessionValue :: "'r redis_client \<Rightarrow> string \<Rightarrow> (('r, 'z) renv_scheme, err, string) io" where
  "getSessionValue R sessionID = redis_get R (session_key sessionID)"

text \<open>The transaction pipeline deletes the sessions and their references as one unit.\<close>

definition removeUserSessionIDsAtomic ::
  "'r redis_client \<Rightarrow> int \<Rightarrow> string list \<Rightarrow> (('r, 'z) renv_scheme, err, unit) io" where
  "removeUserSessionIDsAtomic R uid sessionIDs =
     (if sessionIDs = [] then ret ()
      else redis_write (\<lambda>r. cmd_srem R (user_sessions_key uid) sessionIDs
        (fold (\<lambda>sid. cmd_del R (session_key sid)) sessionIDs r)))"

text \<open>The loop that selects the sessions to revoke; it reads, and never writes.\<close>

fun matching_sessions ::
  "'r redis_client \<Rightarrow> (string \<Rightarrow> session_values option) \<Rightarrow> int \<Rightarrow> int \<Rightarrow> string list \<Rightarrow>
   (('r, 'z) renv_scheme, err, string list) io" where
  "matching_sessions R gob uid teamID [] = ret []"
| "matching_sessions R gob uid teamID (sid # ids) =
     tryE (getSessionValue R sid) (\<lambda>res.
     case res of
       Inl e \<Rightarrow>
         if e = ErrRedisNil
         then bindE (matching_sessions R gob uid teamID ids) (\<lambda>ms. ret (sid # ms))
         else raise e
     | Inr data \<Rightarrow>
         (case ParseSessionData gob sid data of
            None \<Rightarrow> bindE (matching_sessions R gob uid teamID ids) (\<lambda>ms. ret (sid # ms))
          | Some sd \<Rightarrow>
              if sd_uid sd \<noteq> uid then raise ErrSessionOwner
              else if sd_tid sd = teamID
              then bindE (matching_sessions R gob uid teamID ids) (\<lambda>ms. ret (sid # ms))
              else matching_sessions R gob uid teamID ids))"

definition removeUserTeamSessions ::
  "'r redis_client \<Rightarrow> (string \<Rightarrow> session_values option) \<Rightarrow> int \<Rightarrow> int \<Rightarrow>
   (('r, 'z) renv_scheme, err, unit) io" where
  "removeUserTeamSessions R gob uid teamID =
     bindE (listUserSessionIDs R uid) (\<lambda>ids.
     bindE (matching_sessions R gob uid teamID ids) (\<lambda>matching.
     if matching = [] then ret ()
     else removeUserSessionIDsAtomic R uid matching))"

definition RemoveUserTeamSessions ::
  "'r redis_client \<Rightarrow> (string \<Rightarrow> session_values option) \<Rightarrow> int \<Rightarrow> int \<Rightarrow>
   (('r, 'z) renv_scheme, err, unit) io" where
  "RemoveUserTeamSessions R gob uid teamID =
     (if uid \<le> 0 \<or> teamID \<le> 0 then raise ErrInvalidUserOrTeam
      else removeUserTeamSessions R gob uid teamID)"

definition RemoveSessionIDs :: "'r redis_client \<Rightarrow> string list \<Rightarrow> (('r, 'z) renv_scheme, err, unit) io" where
  "RemoveSessionIDs R sessionIDs = forE sessionIDs (\<lambda>sid. redis_write (cmd_del R (session_key sid)))"

definition RemoveUserSessionIDRefs ::
  "'r redis_client \<Rightarrow> int \<Rightarrow> string list \<Rightarrow> (('r, 'z) renv_scheme, err, unit) io" where
  "RemoveUserSessionIDRefs R uid sessionIDs =
     (if sessionIDs = [] then ret ()
      else redis_write (cmd_srem R (user_sessions_key uid) sessionIDs))"

definition RemoveUserSessionIDs ::
  "'r redis_client \<Rightarrow> int \<Rightarrow> string list \<Rightarrow> (('r, 'z) renv_scheme, err, unit) io" where
  "RemoveUserSessionIDs R uid sessionIDs =
     (if sessionIDs = [] then ret ()
      else bindE (RemoveSessionIDs R sessionIDs) (\<lambda>_. RemoveUserSessionIDRefs R uid sessionIDs))"

text \<open>The scan of \<open>GetUserSessions\<close>: any read error, an empty value or a parse error is stale.\<close>

fun scan_sessions ::
  "'r redis_client \<Rightarrow> (string \<Rightarrow> session_values option) \<Rightarrow> string list \<Rightarrow>
   (('r, 'z) renv_scheme, err, SessionData list \<times> string list) io" where
  "scan_sessions R gob [] = ret ([], [])"
| "scan_sessions R gob (sid # ids) =
     tryE (getSessionValue R sid) (\<lambda>res.
     bindE (scan_sessions R gob ids) (\<lambda>(good, stale).
     ret (case res of
       Inl _ \<Rightarrow> (good, sid # stale)
     | Inr data \<Rightarrow>
         if data = '''' then (good, sid # stale)
         else (case ParseSessionData gob sid data of
                 None \<Rightarrow> (good, sid # stale)
               | Some sd \<Rightarrow> (sd # good, stale)))))"

definition GetUserSessions ::
  "'r redis_client \<Rightarrow> (string \<Rightarrow> session_values option) \<Rightarrow> int \<Rightarrow>
   (('r, 'z) renv_scheme, err, SessionData list) io" where
  "GetUserSessions R gob uid =
     bindE (listUserSessionIDs R uid) (\<lambda>ids.
     bindE (scan_sessions R gob ids) (\<lambda>(sessions, notExistIDs).
     if notExistIDs = [] then ret sessions
     else bindE (RemoveUserSessionIDs R uid notExistIDs) (\<lambda>_. ret sessions)))"

definition CheckSessionOwnership ::
  "'r redis_client \<Rightarrow> int \<Rightarrow> string \<Rightarrow> (('r, 'z) renv_scheme, err, bool) io" where
  "CheckSessionOwnership R uid sessionID =
     redis_read (\<lambda>r. cmd_sismember R r (user_sessions_key uid) sessionID)"

section \<open>Team access: internal/access/team.go\<close>

definition ValidateTeamSession ::
  "'r redis_client \<Rightarrow> int \<Rightarrow> int \<Rightarrow> string \<Rightarrow> int list \<Rightarrow> (('r, 'z) renv_scheme, err, unit) io" where
  "ValidateTeamSession R userID teamID sessionID allowedRoles =
     (if userID \<le> 0 \<or> teamID \<le> 0 \<or> sessionID = '''' then raise ErrTeamAccessRevoked
      else bindE (SessionExists R sessionID) (\<lambda>ex.
        if \<not> ex then raise ErrTeamAccessRevoked
        else tryE (GetTeamRole userID teamID) (\<lambda>res.
          case res of
            Inl e \<Rightarrow> if e = ErrNoRows then raise ErrTeamAccessRevoked else raise e
          | Inr role \<Rightarrow> if role \<in> set allowedRoles then ret () else raise ErrTeamAccessRevoked)))"

text \<open>
  \<open>WatchTeamSession\<close> validates at once and then at every tick, and stops at the first error
  or when its context ends; \<open>ticks\<close> says, tick by tick, whether the context is still live.
  The result is the error it sends on its channel, if any.
\<close>

fun watch_ticks ::
  "(('r, 'z) renv_scheme, err, unit) io \<Rightarrow> bool list \<Rightarrow> ('r, 'z) renv_scheme \<Rightarrow>
   err option \<times> ('r, 'z) renv_scheme" where
  "watch_ticks validate [] s = (None, s)"
| "watch_ticks validate (live # ticks) s =
     (if \<not> live then (None, s)
      else case validate s of (Inl e, t) \<Rightarrow> (Some e, t) | (Inr _, t) \<Rightarrow> watch_ticks validate ticks t)"

definition WatchTeamSession ::
  "'r redis_client \<Rightarrow> int \<Rightarrow> int \<Rightarrow> string \<Rightarrow> int list \<Rightarrow> bool list \<Rightarrow> ('r, 'z) renv_scheme \<Rightarrow>
   err option \<times> ('r, 'z) renv_scheme" where
  "WatchTeamSession R userID teamID sessionID allowedRoles ticks s =
     (let validate = ValidateTeamSession R userID teamID sessionID allowedRoles in
      case validate s of (Inl e, t) \<Rightarrow> (Some e, t) | (Inr _, t) \<Rightarrow> watch_ticks validate ticks t)"

section \<open>Reads do not write\<close>

lemma redis_read_state [simp]:
  "rstate (snd (redis_read f s)) = rstate s" "tabs (snd (redis_read f s)) = tabs s"
  by (simp_all add: redis_read_def next_call_def)

lemma redis_read_Inr_iff:
  "redis_read f s = (Inr x, t) \<longleftrightarrow>
     outcomes s (calls s) = Done \<and> x = f (rstate s) \<and> t = s\<lparr>calls := Suc (calls s)\<rparr>"
  by (auto simp: redis_read_def next_call_def)

lemma redis_get_state [simp]:
  "rstate (snd (redis_get R k s)) = rstate s" "tabs (snd (redis_get R k s)) = tabs s"
  by (auto simp: redis_get_def bindE_snd raise_def ret_def split: sum.splits option.splits)

lemma redis_get_cases:
  "fst (redis_get R k s) =
     (if outcomes s (calls s) \<noteq> Done then Inl ErrRedis
      else case cmd_get R (rstate s) k of None \<Rightarrow> Inl ErrRedisNil | Some v \<Rightarrow> Inr v)"
  by (auto simp: redis_get_def redis_read_def bindE_run next_call_def raise_def ret_def
      split: option.splits)

lemma redis_write_Inr_iff:
  "redis_write f s = (Inr x, t) \<longleftrightarrow>
     outcomes s (calls s) = Done \<and> t = s\<lparr>calls := Suc (calls s), rstate := f (rstate s)\<rparr>"
  by (auto simp: redis_write_def next_call_def split: outcome.splits)

lemma redis_write_cases:
  "rstate (snd (redis_write f s)) = rstate s \<or> rstate (snd (redis_write f s)) = f (rstate s)"
  by (auto simp: redis_write_def next_call_def split: outcome.splits)

lemmas redis_Inr_iffs = redis_read_Inr_iff redis_write_Inr_iff bindE_Inr_iff

lemma matching_sessions_state [simp]:
  "rstate (snd (matching_sessions R gob uid tid ids s)) = rstate s \<and>
   tabs (snd (matching_sessions R gob uid tid ids s)) = tabs s"
  by (induction ids arbitrary: s)
    (auto simp: ret_def raise_def tryE_run bindE_snd getSessionValue_def split: sum.splits option.splits)

lemma scan_sessions_state [simp]:
  "rstate (snd (scan_sessions R gob ids s)) = rstate s \<and> tabs (snd (scan_sessions R gob ids s)) = tabs s"
  by (induction ids arbitrary: s)
    (auto simp: ret_def tryE_run bindE_snd getSessionValue_def split: sum.splits)

section \<open>Revoking the sessions of a team\<close>

text \<open>A session is to be revoked when it is gone, unreadable, or has the team as its active one.\<close>

definition session_matches ::
  "'r redis_client \<Rightarrow> (string \<Rightarrow> session_values option) \<Rightarrow> int \<Rightarrow> 'r \<Rightarrow> string \<Rightarrow> bool" where
  "session_matches R gob tid r sid =
     (case Option.bind (cmd_get R r (session_key sid)) (ParseSessionData gob sid) of
        None \<Rightarrow> True | Some sd \<Rightarrow> sd_tid sd = tid)"

lemma getSessionValue_state: "snd (getSessionValue R sid s) = t \<Longrightarrow> rstate t = rstate s"
  by (auto simp: getSessionValue_def)

lemma getSessionValue_Inl:
  assumes "getSessionValue R sid s = (Inl e, t)"
  shows "rstate t = rstate s" "e = ErrRedisNil \<Longrightarrow> cmd_get R (rstate s) (session_key sid) = None"
  using redis_get_cases [of R "session_key sid" s] assms getSessionValue_state [of R sid s]
  by (auto simp: getSessionValue_def split: if_splits option.splits)

lemma getSessionValue_Inr:
  assumes "getSessionValue R sid s = (Inr v, t)"
  shows "rstate t = rstate s" "cmd_get R (rstate s) (session_key sid) = Some v"
  using redis_get_cases [of R "session_key sid" s] assms getSessionValue_state [of R sid s]
  by (auto simp: getSessionValue_def split: if_splits option.splits)

lemma matching_sessions_Inr:
  "matching_sessions R gob uid tid ids s = (Inr ms, t) \<Longrightarrow>
     ms = filter (session_matches R gob tid (rstate s)) ids \<and> rstate t = rstate s"
proof (induction ids arbitrary: s ms)
  case Nil
  then show ?case by (simp add: ret_def)
next
  case (Cons sid ids)
  obtain r u where get: "getSessionValue R sid s = (r, u)" by fastforce
  show ?case
  proof (cases r)
    case (Inl e)
    with Cons.prems get have "e = ErrRedisNil"
      and rest: "bindE (matching_sessions R gob uid tid ids) (\<lambda>ms. ret (sid # ms)) u = (Inr ms, t)"
      by (auto simp: tryE_run raise_def split: if_splits)
    with Cons.IH [of u] getSessionValue_Inl [OF get [unfolded Inl]] show ?thesis
      by (auto simp: bindE_Inr_iff ret_def session_matches_def)
  next
    case (Inr v)
    note get' = getSessionValue_Inr [OF get [unfolded Inr]]
    show ?thesis
    proof (cases "ParseSessionData gob sid v")
      case None
      with Cons.prems Cons.IH [of u] get get' Inr show ?thesis
        by (auto simp: tryE_run bindE_Inr_iff ret_def session_matches_def)
    next
      case (Some sd)
      with Cons.prems get Inr have "sd_uid sd = uid" by (auto simp: tryE_run raise_def split: if_splits)
      with Some Cons.prems Cons.IH [of u] get get' Inr show ?thesis
        by (cases "sd_tid sd = tid") (auto simp: tryE_run bindE_Inr_iff ret_def session_matches_def)
    qed
  qed
qed

lemma removeUserTeamSessions_Inr:
  assumes "removeUserTeamSessions R gob uid tid s = (Inr x, t)"
  shows "let r = rstate s; k = user_sessions_key uid;
             ms = filter (session_matches R gob tid r) (cmd_smembers R r k) in
         (ms = [] \<and> rstate t = r) \<or>
         (ms \<noteq> [] \<and> rstate t = cmd_srem R k ms (fold (\<lambda>sid. cmd_del R (session_key sid)) ms r))"
  using assms
  by (auto simp: removeUserTeamSessions_def listUserSessionIDs_def removeUserSessionIDsAtomic_def
      redis_Inr_iffs ret_def Let_def dest!: matching_sessions_Inr split: if_splits)

text \<open>Nothing is deleted until every indexed session has been read and checked.\<close>

lemma removeUserTeamSessions_state:
  "let r = rstate s; k = user_sessions_key uid;
       ms = filter (session_matches R gob tid r) (cmd_smembers R r k);
       r' = rstate (snd (removeUserTeamSessions R gob uid tid s)) in
   r' = r \<or> (ms \<noteq> [] \<and> r' = cmd_srem R k ms (fold (\<lambda>sid. cmd_del R (session_key sid)) ms r))"
proof -
  obtain r1 s1 where l: "listUserSessionIDs R uid s = (r1, s1)" by fastforce
  have s1: "rstate s1 = rstate s" using l by (metis listUserSessionIDs_def redis_read_state(1) snd_conv)
  show ?thesis
  proof (cases r1)
    case (Inl e)
    then show ?thesis using l s1 by (simp add: removeUserTeamSessions_def bindE_run)
  next
    case (Inr ids)
    obtain r2 s2 where m: "matching_sessions R gob uid tid ids s1 = (r2, s2)" by fastforce
    have s2: "rstate s2 = rstate s" using m s1 by (metis matching_sessions_state snd_conv)
    have ids: "ids = cmd_smembers R (rstate s) (user_sessions_key uid)"
      using l Inr by (auto simp: listUserSessionIDs_def redis_read_Inr_iff)
    show ?thesis
    proof (cases r2)
      case Inl
      then show ?thesis using l m Inr s2 by (simp add: removeUserTeamSessions_def bindE_run)
    next
      case ms: (Inr ms)
      have "ms = filter (session_matches R gob tid (rstate s)) ids"
        using matching_sessions_Inr [OF m [unfolded ms]] s1 by simp
      then show ?thesis
        using l m Inr ms s2 ids
          redis_write_cases [of "\<lambda>r. cmd_srem R (user_sessions_key uid) ms (fold (\<lambda>sid. cmd_del R (session_key sid)) ms r)" s2]
        by (auto simp: removeUserTeamSessions_def bindE_run removeUserSessionIDsAtomic_def ret_def)
    qed
  qed
qed

context redis_service
begin

lemma get_fold_del:
  "cmd_get R (fold (\<lambda>sid. cmd_del R (session_key sid)) ms r) (session_key a) =
     (if a \<in> set ms then None else cmd_get R r (session_key a))"
  by (induction ms arbitrary: r) (auto simp: get_del)

lemma exists_fold_del:
  "cmd_exists R (fold (\<lambda>sid. cmd_del R (session_key sid)) ms r) (session_key a) \<longleftrightarrow>
     a \<notin> set ms \<and> cmd_exists R r (session_key a)"
  by (induction ms arbitrary: r) (auto simp: exists_del)

lemma members_fold_del:
  "set (cmd_smembers R (fold (\<lambda>sid. cmd_del R (session_key sid)) ms r) (user_sessions_key u)) =
     set (cmd_smembers R r (user_sessions_key u))"
  by (induction ms arbitrary: r) (auto simp: members_del)

lemmas revoke_simps = get_fold_del exists_fold_del members_fold_del get_srem exists_srem members_srem

text \<open>After a successful revocation, with \<open>D\<close> the indexed sessions that match.\<close>

lemma removeUserTeamSessions_effect:
  assumes "removeUserTeamSessions R gob uid tid s = (Inr x, t)"
  defines "D \<equiv> {sid \<in> set (cmd_smembers R (rstate s) (user_sessions_key uid)).
    session_matches R gob tid (rstate s) sid}"
  shows "set (cmd_smembers R (rstate t) (user_sessions_key uid)) =
      set (cmd_smembers R (rstate s) (user_sessions_key uid)) - D"
    "\<And>u. u \<noteq> uid \<Longrightarrow> set (cmd_smembers R (rstate t) (user_sessions_key u)) =
      set (cmd_smembers R (rstate s) (user_sessions_key u))"
    "\<And>sid. cmd_get R (rstate t) (session_key sid) =
      (if sid \<in> D then None else cmd_get R (rstate s) (session_key sid))"
    "\<And>sid. cmd_exists R (rstate t) (session_key sid) \<longleftrightarrow>
      sid \<notin> D \<and> cmd_exists R (rstate s) (session_key sid)"
  using removeUserTeamSessions_Inr [OF assms(1)]
  unfolding Let_def D_def
  by (auto simp: revoke_simps filter_empty_conv)

lemma no_team_session_left:
  assumes "removeUserTeamSessions R gob uid tid s = (Inr x, t)"
    "sid \<in> set (cmd_smembers R (rstate t) (user_sessions_key uid))"
  shows "\<exists>data sd. cmd_get R (rstate t) (session_key sid) = Some data \<and>
    ParseSessionData gob sid data = Some sd \<and> sd_tid sd \<noteq> tid"
  using assms(2) removeUserTeamSessions_effect [OF assms(1)]
  by (auto simp: session_matches_def split: option.splits bind_splits)

end

section \<open>Access checks\<close>

lemma ValidateTeamSession_state [simp]:
  "rstate (snd (ValidateTeamSession R u t sid roles s)) = rstate s"
  "tabs (snd (ValidateTeamSession R u t sid roles s)) = tabs s"
proof -
  have q: "rstate (snd (query_row q s)) = rstate s" for q and s :: "('a, 'b) renv_scheme"
    by (auto simp: query_row_def query_sql_def next_call_def bindE_snd raise_def ret_def
        split: sum.splits option.splits)
  show "rstate (snd (ValidateTeamSession R u t sid roles s)) = rstate s"
    "tabs (snd (ValidateTeamSession R u t sid roles s)) = tabs s"
    by (auto simp: ValidateTeamSession_def SessionExists_def GetTeamRole_def raise_def ret_def
        bindE_snd tryE_run q split: sum.splits)
qed

lemma ValidateTeamSession_Inr:
  assumes "ValidateTeamSession R u t sid roles s = (Inr x, s')"
  shows "0 < u \<and> 0 < t \<and> sid \<noteq> '''' \<and> cmd_exists R (rstate s) (session_key sid) \<and>
    (\<exists>role \<in> set roles. role_of (tabs s) t u = Some role)"
  using assms
  by (auto simp: ValidateTeamSession_def SessionExists_def GetTeamRole_def raise_def ret_def
      redis_Inr_iffs tryE_case_iff query_row_Inr_iff split: if_splits)

text \<open>Without failures of the services the check decides exactly the access condition.\<close>

lemma ValidateTeamSession_total:
  assumes "outcomes s = (\<lambda>_. Done)"
  shows "fst (ValidateTeamSession R u t sid roles s) =
    (if 0 < u \<and> 0 < t \<and> sid \<noteq> '''' \<and> cmd_exists R (rstate s) (session_key sid) \<and>
        (\<exists>role \<in> set roles. role_of (tabs s) t u = Some role)
     then Inr () else Inl ErrTeamAccessRevoked)"
  using assms
  by (auto simp: ValidateTeamSession_def SessionExists_def GetTeamRole_def raise_def ret_def
      redis_read_def query_row_def query_sql_def next_call_def bindE_run tryE_run split: option.splits)

lemma watch_ticks_None:
  assumes "watch_ticks v ticks s = (None, t)" "list_all (\<lambda>l. l) ticks" "ticks \<noteq> []"
  shows "\<exists>u x. v u = (Inr x, t)"
  using assms
  by (induction ticks arbitrary: s) (fastforce split: prod.splits sum.splits if_splits)+

section \<open>Creating an authenticated session\<close>

text \<open>
  The session store of the web framework is outside the repository: \<open>save\<close> stores the values
  of a session that has no id yet and returns the id it chose. \<open>got\<close> is the session of the
  request, \<open>ua\<close> and \<open>ip\<close> its user agent and address.
\<close>

record session =
  sess_id :: string
  sess_values :: session_values

type_synonym 'r save_fn = "session_values \<Rightarrow> 'r \<Rightarrow> string \<times> 'r"

definition sess_save ::
  "'r save_fn \<Rightarrow> session_values \<Rightarrow> (('r, 'z) renv_scheme, err, string) io" where
  "sess_save save vals = (\<lambda>s. case next_call s of (oc, t) \<Rightarrow>
     (case save vals (rstate t) of (sid, r') \<Rightarrow>
        (case oc of
           Done \<Rightarrow> (Inr sid, t\<lparr>rstate := r'\<rparr>)
         | Failed \<Rightarrow> (Inl ErrSession, t)
         | Lost \<Rightarrow> (Inl ErrSession, t\<lparr>rstate := r'\<rparr>))))"

definition auth_values ::
  "session_values \<Rightarrow> int \<Rightarrow> int \<Rightarrow> string \<Rightarrow> string \<Rightarrow> int \<Rightarrow> session_values" where
  "auth_values vals uid tid ua ip now =
     AList.delete ''pre_2fa_uid'' (AList.update ''time'' (VInt64 now)
       (AList.update ''client_ip'' (VStr ip) (AList.update ''user_agent'' (VStr ua)
         (AList.update ''tid'' (VInt64 tid) (AList.update ''uid'' (VInt64 uid) vals)))))"

definition errors_of :: "(err + unit) list \<Rightarrow> err list" where
  "errors_of rs = List.map_filter (\<lambda>r. case r of Inl e \<Rightarrow> Some e | Inr _ \<Rightarrow> None) rs"

definition register_session ::
  "'r redis_client \<Rightarrow> int \<Rightarrow> string \<Rightarrow> string \<Rightarrow> (('r, 'z) renv_scheme, err, string) io" where
  "register_session R uid oldID newID =
     tryE (AddSessionID R uid newID) (\<lambda>res.
     case res of
       Inl e \<Rightarrow>
         tryE (RemoveSessionIDs R [newID]) (\<lambda>r1.
         tryE (RemoveUserSessionIDRefs R uid [newID]) (\<lambda>r2.
         raise (ErrRegister e (errors_of [r1, r2]))))
     | Inr _ \<Rightarrow>
         if oldID \<noteq> '''' \<and> oldID \<noteq> newID
         then tryE (RemoveUserSessionIDRefs R uid [oldID]) (\<lambda>_. ret newID)
         else ret newID)"

definition active_team_or_zero :: "int \<Rightarrow> (('r, 'z) renv_scheme, err, int) io" where
  "active_team_or_zero uid = tryE (GetUserActiveTeam uid) (\<lambda>res.
     case res of Inl e \<Rightarrow> if e = ErrNoRows then ret 0 else raise e | Inr tid \<Rightarrow> ret tid)"

definition finalizeAuthenticatedSession ::
  "'r redis_client \<Rightarrow> 'r save_fn \<Rightarrow> err + session \<Rightarrow> string \<Rightarrow> string \<Rightarrow> int \<Rightarrow>
   (('r, 'z) renv_scheme, err, string) io" where
  "finalizeAuthenticatedSession R save got ua ip uid =
     (case got of
        Inl e \<Rightarrow> raise e
      | Inr sess \<Rightarrow>
        bindE (if sess_id sess \<noteq> '''' then RemoveSessionIDs R [sess_id sess] else ret ()) (\<lambda>_.
        bindE (active_team_or_zero uid) (\<lambda>activeTid.
        bindE time_now (\<lambda>now.
        bindE (sess_save save (auth_values (sess_values sess) uid activeTid ua ip (unix now))) (\<lambda>newID.
        if newID = '''' then raise ErrSession
        else register_session R uid (sess_id sess) newID)))))"

text \<open>
  What the code relies on: a session without an id is stored, gob-encoded, under a fresh id,
  nothing else of the keyspace changes, and decoding gives the stored map back.
\<close>

locale session_store = redis_service +
  fixes save :: "'a save_fn" and enc :: "session_values \<Rightarrow> string"
    and gob :: "string \<Rightarrow> session_values option"
  assumes gob_enc: "\<exists>m. gob (enc vals) = Some m \<and> map_of m = map_of vals"
    and save_stores: "save vals r = (sid, r') \<Longrightarrow> cmd_get R r' (session_key sid) = Some (enc vals)"
    and save_fresh: "save vals r = (sid, r') \<Longrightarrow> sid \<noteq> '''' \<and> \<not> cmd_exists R r (session_key sid)"
    and save_frame: "save vals r = (sid, r') \<Longrightarrow> sid' \<noteq> sid \<Longrightarrow>
      cmd_exists R r' (session_key sid') = cmd_exists R r (session_key sid') \<and>
      cmd_get R r' (session_key sid') = cmd_get R r (session_key sid')"
    and save_members: "save vals r = (sid, r') \<Longrightarrow>
      set (cmd_smembers R r' (user_sessions_key u)) = set (cmd_smembers R r (user_sessions_key u))"

lemma sql_rstate [simp]:
  "rstate (snd (query_sql q s)) = rstate s" "rstate (snd (query_row q' s)) = rstate s"
  by (auto simp: query_row_def query_sql_def next_call_def bindE_snd raise_def ret_def
      split: sum.splits option.splits)

lemma GetUserActiveTeam_rstate [simp]: "rstate (snd (GetUserActiveTeam u s)) = rstate s"
  by (auto simp: GetUserActiveTeam_def tryE_run raise_def ret_def split: sum.splits)

lemma GetUserActiveTeam_run: "GetUserActiveTeam u s = (r, t) \<Longrightarrow> rstate t = rstate s"
  by (metis GetUserActiveTeam_rstate snd_conv)

lemma sess_save_Inr_iff:
  "sess_save save vals s = (Inr sid, t) \<longleftrightarrow>
     outcomes s (calls s) = Done \<and> (\<exists>r'. save vals (rstate s) = (sid, r') \<and>
       t = s\<lparr>calls := Suc (calls s), rstate := r'\<rparr>)"
  by (auto simp: sess_save_def next_call_def split: prod.splits outcome.splits)

lemma active_team_or_zero_run: "active_team_or_zero u s = (r, t) \<Longrightarrow> rstate t = rstate s"
  by (auto simp: active_team_or_zero_def tryE_case_iff ret_def raise_def dest!: GetUserActiveTeam_run
      split: if_splits)

definition active_team :: "tables \<Rightarrow> int \<Rightarrow> int" where
  "active_team d uid = (case active_team_row uid d of None \<Rightarrow> 0 | Some tid \<Rightarrow> tid)"

lemma query_row_cases:
  "fst (query_row q s) = (if outcomes s (calls s) \<noteq> Done then Inl ErrDb
     else case q (tabs s) of None \<Rightarrow> Inl ErrNoRows | Some x \<Rightarrow> Inr x)"
  by (auto simp: query_row_def query_sql_def next_call_def bindE_run raise_def ret_def split: option.splits)

lemma GetUserActiveTeam_Inr:
  "GetUserActiveTeam uid s = (Inr tid, t) \<Longrightarrow> tid = active_team (tabs s) uid"
  using query_row_cases [of "active_team_row uid" s]
  by (auto simp: GetUserActiveTeam_def tryE_run ret_def raise_def active_team_def
      split: if_splits option.splits sum.splits)

lemma active_team_or_zero_Inr:
  assumes "active_team_or_zero uid s = (Inr tid, t)"
  shows "tid = active_team (tabs s) uid"
proof -
  have "GetUserActiveTeam uid s \<noteq> (Inl ErrNoRows, u)" for u
    by (auto simp: GetUserActiveTeam_def tryE_run ret_def raise_def split: sum.splits)
  with assms GetUserActiveTeam_Inr [of uid s] show ?thesis
    by (auto simp: active_team_or_zero_def tryE_case_iff ret_def raise_def split: if_splits)
qed

lemma time_now_rstate: "time_now s = (r, t) \<Longrightarrow> rstate t = rstate s"
  by (auto simp: time_now_def)

text \<open>Whatever the clean-up of the old reference does, the new session is indexed.\<close>

lemma register_session_Inr:
  assumes "register_session R uid old new s = (Inr x, t)"
  defines "k \<equiv> user_sessions_key uid" and "r \<equiv> cmd_sadd R (user_sessions_key uid) new (rstate s)"
  shows "x = new" "rstate t = r \<or> (old \<noteq> new \<and> rstate t = cmd_srem R k [old] r)"
proof -
  obtain q u where add: "AddSessionID R uid new s = (q, u)" by fastforce
  with assms(1) obtain y where q: "q = Inr y"
    by (cases q) (auto simp: register_session_def tryE_run raise_def)
  have rest: "(if old \<noteq> '''' \<and> old \<noteq> new
      then tryE (RemoveUserSessionIDRefs R uid [old]) (\<lambda>_. ret new) else ret new) u =
      (Inr x :: err + string, t)"
    using assms(1) add q by (auto simp: register_session_def tryE_run)
  have u: "rstate u = r" using add q by (auto simp: AddSessionID_def redis_write_Inr_iff r_def)
  show "x = new" using rest by (auto simp: tryE_run ret_def split: if_splits)
  show "rstate t = r \<or> (old \<noteq> new \<and> rstate t = cmd_srem R k [old] r)"
    using rest u redis_write_cases [of "cmd_srem R k [old]" u]
    by (auto simp: tryE_run ret_def RemoveUserSessionIDRefs_def k_def split: if_splits)
qed

text \<open>The run up to the registration: the old session is deleted, the new one stored.\<close>

definition without_session :: "'r redis_client \<Rightarrow> string \<Rightarrow> 'r \<Rightarrow> 'r" where
  "without_session R sid r = (if sid = '''' then r else cmd_del R (session_key sid) r)"

lemma drop_session_Inr:
  "(if sid \<noteq> '''' then RemoveSessionIDs R [sid] else ret ()) s = (Inr x, t) \<Longrightarrow>
     rstate t = without_session R sid (rstate s) \<and> tabs t = tabs s"
  by (cases "sid = ''''") (auto simp: RemoveSessionIDs_def redis_Inr_iffs ret_def without_session_def)

lemma finalize_register:
  assumes "finalizeAuthenticatedSession R save (Inr sess) ua ip uid s = (Inr new, t)"
  obtains now r' u where
    "save (auth_values (sess_values sess) uid (active_team (tabs s) uid) ua ip now)
       (without_session R (sess_id sess) (rstate s)) = (new, r')"
    "new \<noteq> ''''" "rstate u = r'" "register_session R uid (sess_id sess) new u = (Inr new, t)"
proof -
  from assms obtain a b c d e f g tid now new' where
    1: "(if sess_id sess \<noteq> '''' then RemoveSessionIDs R [sess_id sess] else ret ()) s = (Inr a, b)"
    and 2: "active_team_or_zero uid b = (Inr tid, c)" and 3: "time_now c = (Inr now, d)"
    and 4: "sess_save save (auth_values (sess_values sess) uid tid ua ip (unix now)) d = (Inr new', e)"
    and 5: "(if new' = '''' then raise ErrSession else register_session R uid (sess_id sess) new') e = (Inr new, t)"
    unfolding finalizeAuthenticatedSession_def by (auto simp: bindE_Inr_iff)
  from 5 have "new' \<noteq> ''''" and reg: "register_session R uid (sess_id sess) new' e = (Inr new, t)"
    by (auto simp: raise_def split: if_splits)
  have "new' = new" using register_session_Inr(1) [OF reg] by simp
  from 4 obtain r' where "save (auth_values (sess_values sess) uid tid ua ip (unix now)) (rstate d) = (new', r')"
    "rstate e = r'"
    by (auto simp: sess_save_Inr_iff)
  with drop_session_Inr [OF 1] active_team_or_zero_run [OF 2] active_team_or_zero_Inr [OF 2] time_now_rstate [OF 3] reg
    \<open>new' = new\<close> \<open>new' \<noteq> ''''\<close> that show thesis by simp
qed

context session_store
begin

lemma parse_auth_values:
  "\<exists>sd. ParseSessionData gob sid (enc (auth_values vals uid tid ua ip now)) = Some sd \<and>
     sd_uid sd = uid \<and> sd_tid sd = tid \<and> sd_user_agent sd = ua \<and> sd_client_ip sd = ip"
  using gob_enc [of "auth_values vals uid tid ua ip now"]
  by (auto simp: ParseSessionData_def auth_values_def as_int64_def as_string_def)

text \<open>
  A completed login: the new session is stored with the values of the login, it is indexed
  under the user, and the session the request came with is gone.
\<close>

lemma finalize_effect:
  assumes "finalizeAuthenticatedSession R save (Inr sess) ua ip uid s = (Inr new, t)"
  shows "new \<noteq> ''''"
    "new \<in> set (cmd_smembers R (rstate t) (user_sessions_key uid))"
    "\<exists>sd data. cmd_get R (rstate t) (session_key new) = Some data \<and>
       ParseSessionData gob new data = Some sd \<and> sd_uid sd = uid \<and>
       sd_tid sd = active_team (tabs s) uid \<and> sd_user_agent sd = ua \<and> sd_client_ip sd = ip"
    "sess_id sess \<noteq> '''' \<Longrightarrow> sess_id sess \<noteq> new \<Longrightarrow>
       \<not> cmd_exists R (rstate t) (session_key (sess_id sess))"
proof -
  from finalize_register [OF assms] obtain now r' u where
    save: "save (auth_values (sess_values sess) uid (active_team (tabs s) uid) ua ip now)
       (without_session R (sess_id sess) (rstate s)) = (new, r')"
    and "new \<noteq> ''''" and r': "rstate u = r'"
    and reg: "register_session R uid (sess_id sess) new u = (Inr new, t)" .
  note reg = register_session_Inr(2) [OF reg, unfolded r']
  show "new \<noteq> ''''" by fact
  show "new \<in> set (cmd_smembers R (rstate t) (user_sessions_key uid))"
    using reg by (auto simp: members_sadd members_srem)
  show "\<exists>sd data. cmd_get R (rstate t) (session_key new) = Some data \<and>
       ParseSessionData gob new data = Some sd \<and> sd_uid sd = uid \<and>
       sd_tid sd = active_team (tabs s) uid \<and> sd_user_agent sd = ua \<and> sd_client_ip sd = ip"
    using reg save_stores [OF save] parse_auth_values by (fastforce simp: get_sadd get_srem)
  show "\<not> cmd_exists R (rstate t) (session_key (sess_id sess))"
    if "sess_id sess \<noteq> ''''" "sess_id sess \<noteq> new"
    using that reg save_frame [OF save, of "sess_id sess"]
    by (auto simp: exists_sadd exists_srem exists_del without_session_def)
qed

text \<open>A session of somebody else is neither removed nor changed by a login.\<close>

lemma finalize_frame:
  assumes "finalizeAuthenticatedSession R save (Inr sess) ua ip uid s = (Inr new, t)"
    "sid \<noteq> sess_id sess" "cmd_exists R (rstate s) (session_key sid)"
  shows "sid \<noteq> new \<and> cmd_exists R (rstate t) (session_key sid) \<and>
    cmd_get R (rstate t) (session_key sid) = cmd_get R (rstate s) (session_key sid)"
proof -
  from finalize_register [OF assms(1)] obtain now r' u where
    save: "save (auth_values (sess_values sess) uid (active_team (tabs s) uid) ua ip now)
       (without_session R (sess_id sess) (rstate s)) = (new, r')"
    and r': "rstate u = r'"
    and reg: "register_session R uid (sess_id sess) new u = (Inr new, t)" .
  have keep: "cmd_exists R (without_session R (sess_id sess) (rstate s)) (session_key sid)"
    "cmd_get R (without_session R (sess_id sess) (rstate s)) (session_key sid) =
      cmd_get R (rstate s) (session_key sid)"
    using assms(2,3) by (auto simp: without_session_def exists_del get_del)
  have "sid \<noteq> new" using save_fresh [OF save] keep by auto
  with register_session_Inr(2) [OF reg, unfolded r'] save_frame [OF save, of sid] keep show ?thesis
    by (auto simp: exists_sadd exists_srem get_sadd get_srem)
qed

end

end
