(* ===== verification/Mem_Redis.thy ===== *)
theory Mem_Redis
  imports Sessions
begin

text \<open>
  A keyspace in memory that satisfies the laws of \<open>redis_service\<close> and \<open>session_store\<close>: strings
  and sets under their keys, session ids that are longer than every key in use, and an encoding
  of session values by length-prefixed fields. It shows that the laws can hold together, and it
  is the instance on which the theorems about sessions are evaluated.
\<close>

section \<open>An encoding of session values\<close>

definition netstring :: "string \<Rightarrow> string" where
  "netstring s = dec (length s) @ CHR '':'' # s"

definition un_netstring :: "string \<Rightarrow> string \<times> string" where
  "un_netstring s =
     (let ds = takeWhile (\<lambda>c. c \<noteq> CHR '':'') s; rest = drop (Suc (length ds)) s; n = undec ds
      in (take n rest, drop n rest))"

lemma dec_no_colon: "takeWhile (\<lambda>c. c \<noteq> CHR '':'') (dec n @ CHR '':'' # s) = dec n"
proof -
  have "CHR '':'' \<notin> set (dec n)" using dec_digits by fastforce
  then have "takeWhile (\<lambda>c. c \<noteq> CHR '':'') (dec n @ CHR '':'' # s) =
      dec n @ takeWhile (\<lambda>c. c \<noteq> CHR '':'') (CHR '':'' # s)"
    by (intro takeWhile_append2) auto
  then show ?thesis by simp
qed

lemma un_netstring [simp]: "un_netstring (netstring s @ rest) = (s, rest)"
  by (simp add: un_netstring_def netstring_def dec_no_colon Let_def)

definition atoi :: "string \<Rightarrow> int" where
  "atoi s = (if s \<noteq> [] \<and> hd s = CHR ''-'' then - int (undec (tl s)) else int (undec s))"

lemma atoi_itoa [simp]: "atoi (itoa i) = i"
  by (cases "i < 0") (simp_all add: atoi_def itoa_def dec_hd)

fun sval_fields :: "sval \<Rightarrow> char \<times> string" where
  "sval_fields (VInt64 i) = (CHR ''l'', itoa i)"
| "sval_fields (VInt i) = (CHR ''i'', itoa i)"
| "sval_fields (VStr s) = (CHR ''s'', s)"
| "sval_fields VOther = (CHR ''o'', '''')"

definition fields_sval :: "char \<Rightarrow> string \<Rightarrow> sval" where
  "fields_sval c s =
     (if c = CHR ''l'' then VInt64 (atoi s) else if c = CHR ''i'' then VInt (atoi s)
      else if c = CHR ''s'' then VStr s else VOther)"

lemma fields_sval_inverse [simp]: "case_prod fields_sval (sval_fields v) = v"
  by (cases v) (simp_all add: fields_sval_def)

fun enc_entry :: "string \<times> sval \<Rightarrow> string" where
  "enc_entry (k, v) = netstring k @ fst (sval_fields v) # netstring (snd (sval_fields v))"

definition mem_enc :: "session_values \<Rightarrow> string" where
  "mem_enc vals = dec (length vals) @ CHR '':'' # concat (map enc_entry vals)"

fun dec_entries :: "nat \<Rightarrow> string \<Rightarrow> session_values option" where
  "dec_entries 0 s = Some []"
| "dec_entries (Suc n) s =
     (case un_netstring s of (k, rest) \<Rightarrow>
        (case rest of
           [] \<Rightarrow> None
         | c # rest' \<Rightarrow>
             (case un_netstring rest' of (v, rest'') \<Rightarrow>
                map_option (\<lambda>m. (k, fields_sval c v) # m) (dec_entries n rest''))))"

definition mem_gob :: "string \<Rightarrow> session_values option" where
  "mem_gob s =
     (let ds = takeWhile (\<lambda>c. c \<noteq> CHR '':'') s in
      if ds = s then None else dec_entries (undec ds) (drop (Suc (length ds)) s))"

lemma dec_entries_concat: "dec_entries (length vals) (concat (map enc_entry vals)) = Some vals"
proof (induction vals)
  case (Cons kv vals)
  obtain k v where kv: "kv = (k, v)" by fastforce
  have "fields_sval (fst (sval_fields v)) (snd (sval_fields v)) = v"
    using fields_sval_inverse [of v] by (simp add: case_prod_beta)
  with Cons kv show ?case by simp
qed simp

lemma mem_gob_enc: "mem_gob (mem_enc vals) = Some vals"
  by (simp add: mem_gob_def mem_enc_def dec_no_colon dec_entries_concat Let_def)

section \<open>The keyspace\<close>

record mem =
  strs :: "(string, string) table"
  sets :: "(string, string list) table"
  ttls :: "(string, duration) table"  \<comment> \<open>remaining lifetimes\<close>

definition mem_members :: "mem \<Rightarrow> string \<Rightarrow> string list" where
  "mem_members r k = (case map_of (sets r) k of None \<Rightarrow> [] | Some ms \<Rightarrow> ms)"

definition mem_redis :: "mem redis_client" where
  "mem_redis = \<lparr>
     cmd_get = (\<lambda>r k. map_of (strs r) k),
     cmd_set = (\<lambda>k v r. r\<lparr>strs := AList.update k v (strs r), sets := AList.delete k (sets r),
       ttls := AList.delete k (ttls r)\<rparr>),
     cmd_del = (\<lambda>k r. r\<lparr>strs := AList.delete k (strs r), sets := AList.delete k (sets r),
       ttls := AList.delete k (ttls r)\<rparr>),
     cmd_exists = (\<lambda>r k. has_key (strs r) k \<or> has_key (sets r) k),
     cmd_sadd = (\<lambda>k m r. r\<lparr>sets := AList.update k (List.insert m (mem_members r k)) (sets r)\<rparr>),
     cmd_srem = (\<lambda>k ms r. r\<lparr>sets := AList.update k (filter (\<lambda>m. m \<notin> set ms) (mem_members r k)) (sets r)\<rparr>),
     cmd_smembers = mem_members,
     cmd_sismember = (\<lambda>r k m. m \<in> set (mem_members r k))\<rparr>"

interpretation mem: redis_service mem_redis
  by unfold_locales (auto simp: mem_redis_def mem_members_def intro: has_keyI)

definition all_keys :: "mem \<Rightarrow> string list" where
  "all_keys r = map fst (strs r) @ map fst (sets r)"

definition mem_save :: "mem save_fn" where
  "mem_save vals r =
     (let sid = replicate (Suc (sum_list (map length (all_keys r)))) CHR ''s''
      in (sid, r\<lparr>strs := AList.update (session_key sid) (mem_enc vals) (strs r)\<rparr>))"

lemma fresh_key:
  assumes "sum_list (map length ks) < length k"
  shows "k \<notin> set ks"
  using assms member_le_sum_list [of "length k" "map length ks"] by fastforce

lemma mem_save_fresh:
  assumes "mem_save vals r = (sid, r')"
  shows "sid \<noteq> ''''" "\<not> has_key (strs r) (session_key sid)" "\<not> has_key (sets r) (session_key sid)"
proof -
  have "session_key sid \<notin> set (all_keys r)"
    using assms by (intro fresh_key) (auto simp: mem_save_def Let_def session_key_def)
  then show "\<not> has_key (strs r) (session_key sid)" "\<not> has_key (sets r) (session_key sid)"
    by (simp_all add: all_keys_def has_key_def map_of_eq_None_iff)
  show "sid \<noteq> ''''" using assms by (auto simp: mem_save_def Let_def)
qed

interpretation mem: session_store mem_redis mem_save mem_enc mem_gob
proof
  fix vals r sid r' sid' u
  assume save: "mem_save vals r = (sid, r')"
  then have r': "r' = r\<lparr>strs := AList.update (session_key sid) (mem_enc vals) (strs r)\<rparr>"
    by (auto simp: mem_save_def Let_def)
  show "cmd_get mem_redis r' (session_key sid) = Some (mem_enc vals)"
    by (simp add: r' mem_redis_def)
  show "sid \<noteq> '''' \<and> \<not> cmd_exists mem_redis r (session_key sid)"
    using mem_save_fresh [OF save] by (simp add: mem_redis_def)
  show "set (cmd_smembers mem_redis r' (user_sessions_key u)) =
      set (cmd_smembers mem_redis r (user_sessions_key u))"
    by (simp add: r' mem_redis_def mem_members_def)
  show "cmd_exists mem_redis r' (session_key sid') = cmd_exists mem_redis r (session_key sid') \<and>
      cmd_get mem_redis r' (session_key sid') = cmd_get mem_redis r (session_key sid')"
    if "sid' \<noteq> sid"
    using that by (simp add: r' mem_redis_def)
qed (simp add: mem_gob_enc)

text \<open>The sample environment with an empty keyspace.\<close>

definition sample_renv :: "mem renv" where
  "sample_renv = \<lparr>calls = 0, outcomes = (\<lambda>_. Done), reads = 0, clock = (\<lambda>n. int n * second),
     team_seq = 8, tabs = sample_tables, rstate = \<lparr>strs = [], sets = [], ttls = []\<rparr>\<rparr>"


section \<open>Properties\<close>

text \<open>
  (C8) Revoking the sessions of a user in a team reads and checks every indexed session before
  it deletes any, and deletes as one unit. After a success, every session still indexed for the
  user is stored, readable and has another active team; the sessions that were not to be revoked
  and the indexes of other users are as before. After an error, either nothing was deleted or
  exactly the sessions to be revoked and their references were.
\<close>

theorem RemoveUserTeamSessions_correct:
  assumes "redis_service R" "RemoveUserTeamSessions R gob uid teamID s = (res, t)"
  defines "idx \<equiv> (\<lambda>r u. set (cmd_smembers R r (user_sessions_key u)))"
    and "D \<equiv> {sid. session_matches R gob teamID (rstate s) sid}"
  shows "(\<forall>u. u \<noteq> uid \<longrightarrow> idx (rstate t) u = idx (rstate s) u) \<and>
    (case res of
       Inr _ \<Rightarrow> 0 < uid \<and> 0 < teamID \<and> idx (rstate t) uid = idx (rstate s) uid - D \<and>
         (\<forall>sid \<in> idx (rstate t) uid. \<exists>data sd. cmd_get R (rstate t) (session_key sid) = Some data \<and>
            ParseSessionData gob sid data = Some sd \<and> sd_tid sd \<noteq> teamID) \<and>
         (\<forall>sid. cmd_get R (rstate t) (session_key sid) =
            (if sid \<in> idx (rstate s) uid \<inter> D then None else cmd_get R (rstate s) (session_key sid)))
     | Inl _ \<Rightarrow> rstate t = rstate s \<or>
         (idx (rstate t) uid = idx (rstate s) uid - D \<and>
          (\<forall>sid. cmd_get R (rstate t) (session_key sid) =
            (if sid \<in> idx (rstate s) uid \<inter> D then None else cmd_get R (rstate s) (session_key sid)))))"
proof (cases "uid \<le> 0 \<or> teamID \<le> 0")
  case True
  then show ?thesis using assms(2) by (auto simp: RemoveUserTeamSessions_def raise_def)
next
  case False
  then have run: "removeUserTeamSessions R gob uid teamID s = (res, t)"
    using assms(2) by (auto simp: RemoveUserTeamSessions_def)
  have state: "rstate t = rstate s \<or>
      (let ms = filter (session_matches R gob teamID (rstate s)) (cmd_smembers R (rstate s) (user_sessions_key uid)) in
       rstate t = cmd_srem R (user_sessions_key uid) ms (fold (\<lambda>sid. cmd_del R (session_key sid)) ms (rstate s)))"
    using removeUserTeamSessions_state [of s uid R gob teamID] run by (auto simp: Let_def)
  note simps = redis_service.revoke_simps [OF assms(1)]
  show ?thesis
  proof (cases res)
    case (Inl e)
    then show ?thesis
      using state by (auto simp: Let_def simps idx_def D_def)
  next
    case (Inr x)
    then show ?thesis
      using redis_service.removeUserTeamSessions_effect [OF assms(1) run [unfolded Inr]]
        redis_service.no_team_session_left [OF assms(1) run [unfolded Inr]] False
      by (auto simp: idx_def D_def)
  qed
qed

text \<open>Two sessions of the second user, with the first and the second team active.\<close>

definition sample_sessions :: "mem renv" where
  "sample_sessions = sample_renv\<lparr>rstate := \<lparr>
     strs = [(session_key ''a'', mem_enc (auth_values [] 2 7 ''ua'' ''ip'' 0)),
             (session_key ''b'', mem_enc (auth_values [] 2 8 ''ua'' ''ip'' 0))],
     sets = [(user_sessions_key 2, [''a'', ''b''])], ttls = []\<rparr>\<rparr>"

theorem RemoveUserTeamSessions_correct_witness:
  "fst (RemoveUserTeamSessions mem_redis mem_gob 2 7 sample_sessions) = Inr () \<and>
   set (cmd_smembers mem_redis (rstate (snd (RemoveUserTeamSessions mem_redis mem_gob 2 7 sample_sessions)))
     (user_sessions_key 2)) = {''b''}"
proof -
  have res: "fst (RemoveUserTeamSessions mem_redis mem_gob 2 7 sample_sessions) = Inr ()" by code_simp
  have idx: "set (cmd_smembers mem_redis (rstate sample_sessions) (user_sessions_key 2)) = {''a'', ''b''}"
    "session_matches mem_redis mem_gob 7 (rstate sample_sessions) ''a''"
    "\<not> session_matches mem_redis mem_gob 7 (rstate sample_sessions) ''b''"
    by code_simp+
  show ?thesis
    using RemoveUserTeamSessions_correct [OF mem.redis_service_axioms prod.collapse [symmetric],
        where gob = mem_gob and uid = 2 and teamID = 7 and s = sample_sessions] res idx
    by auto
qed

text \<open>
  A team session is accepted only when the user, the team and the session id are valid,
  the session is stored, and the user's current role in the team is one of the allowed ones;
  when no call of a service fails, these conditions are also sufficient and every other case
  is reported as revoked access. The check changes nothing.
\<close>

theorem ValidateTeamSession_correct:
  fixes s :: "('r, 'z) renv_scheme"
  defines "ok \<equiv> (\<lambda>R uid tid sid roles. 0 < uid \<and> 0 < tid \<and> sid \<noteq> '''' \<and>
    cmd_exists R (rstate s) (session_key sid) \<and> (\<exists>role \<in> set roles. role_of (tabs s) tid uid = Some role))"
  shows "(fst (ValidateTeamSession R uid tid sid roles s) = Inr () \<longrightarrow> ok R uid tid sid roles) \<and>
    (outcomes s = (\<lambda>_. Done) \<longrightarrow>
       fst (ValidateTeamSession R uid tid sid roles s) =
         (if ok R uid tid sid roles then Inr () else Inl ErrTeamAccessRevoked)) \<and>
    rstate (snd (ValidateTeamSession R uid tid sid roles s)) = rstate s \<and>
    tabs (snd (ValidateTeamSession R uid tid sid roles s)) = tabs s"
proof -
  have "ok R uid tid sid roles" if "fst (ValidateTeamSession R uid tid sid roles s) = Inr ()"
  proof -
    have "ValidateTeamSession R uid tid sid roles s = (Inr (), snd (ValidateTeamSession R uid tid sid roles s))"
      using that by (simp add: prod_eq_iff)
    from ValidateTeamSession_Inr [OF this] show ?thesis unfolding ok_def .
  qed
  moreover have "fst (ValidateTeamSession R uid tid sid roles s) =
      (if ok R uid tid sid roles then Inr () else Inl ErrTeamAccessRevoked)" if "outcomes s = (\<lambda>_. Done)"
    unfolding ok_def using that by (rule ValidateTeamSession_total)
  ultimately show ?thesis by (intro conjI impI ValidateTeamSession_state)
qed

theorem ValidateTeamSession_correct_witness:
  "fst (ValidateTeamSession mem_redis 2 7 ''a'' [0, 1] sample_sessions) = Inr () \<and>
   fst (ValidateTeamSession mem_redis 2 7 ''c'' [0, 1] sample_sessions) = Inl ErrTeamAccessRevoked"
proof -
  have ex: "cmd_exists mem_redis (rstate sample_sessions) (session_key ''a'')"
    "\<not> cmd_exists mem_redis (rstate sample_sessions) (session_key ''c'')"
    "role_of (tabs sample_sessions) 7 2 = Some 1"
    by code_simp+
  have oc: "outcomes sample_sessions = (\<lambda>_. Done)" by (simp add: sample_sessions_def sample_renv_def)
  note total = ValidateTeamSession_correct [THEN conjunct2, THEN conjunct1, rule_format, OF oc]
  show ?thesis unfolding total using ex by simp
qed

text \<open>
  A completed login stores a new session that decodes to the user, the user's active team
  (zero when there is none), user agent and address of the request, and indexes it under the
  user; the session the request came with no longer exists, and every other stored session is
  untouched.
\<close>

theorem finalizeAuthenticatedSession_correct:
  assumes "session_store R save enc gob"
    "finalizeAuthenticatedSession R save (Inr sess) ua ip uid s = (Inr new, t)"
  shows "new \<noteq> '''' \<and> new \<in> set (cmd_smembers R (rstate t) (user_sessions_key uid)) \<and>
    (\<exists>sd data. cmd_get R (rstate t) (session_key new) = Some data \<and>
       ParseSessionData gob new data = Some sd \<and> sd_uid sd = uid \<and>
       sd_tid sd = active_team (tabs s) uid \<and> sd_user_agent sd = ua \<and> sd_client_ip sd = ip) \<and>
    (sess_id sess \<noteq> '''' \<and> sess_id sess \<noteq> new \<longrightarrow>
       \<not> cmd_exists R (rstate t) (session_key (sess_id sess))) \<and>
    (\<forall>sid. sid \<noteq> sess_id sess \<and> cmd_exists R (rstate s) (session_key sid) \<longrightarrow>
       sid \<noteq> new \<and> cmd_get R (rstate t) (session_key sid) = cmd_get R (rstate s) (session_key sid))"
  using session_store.finalize_effect [OF assms] session_store.finalize_frame [OF assms] by blast

theorem finalizeAuthenticatedSession_correct_witness:
  "\<exists>new. fst (finalizeAuthenticatedSession mem_redis mem_save
       (Inr \<lparr>sess_id = ''a'', sess_values = []\<rparr>) ''ua'' ''ip'' 2 sample_sessions) = Inr new \<and>
     \<not> cmd_exists mem_redis (rstate (snd (finalizeAuthenticatedSession mem_redis mem_save
       (Inr \<lparr>sess_id = ''a'', sess_values = []\<rparr>) ''ua'' ''ip'' 2 sample_sessions))) (session_key ''a'')"
proof -
  let ?sess = "\<lparr>sess_id = ''a'', sess_values = []\<rparr>"
  let ?run = "finalizeAuthenticatedSession mem_redis mem_save (Inr ?sess) ''ua'' ''ip'' 2 sample_sessions"
  have "\<not> isl (fst ?run)" by code_simp
  then obtain new where new: "fst ?run = Inr new" by (metis sum.collapse(2))
  have "projr (fst ?run) \<noteq> ''a''" by code_simp
  with new have "new \<noteq> ''a''" by simp
  moreover have "?run = (Inr new, snd ?run)" using new by (metis prod.collapse)
  note finalizeAuthenticatedSession_correct [OF mem.session_store_axioms this]
  ultimately show ?thesis using new by auto
qed

end
