(* ===== verification/Rate_Limit.thy ===== *)
theory Rate_Limit
  imports Mem_Redis
begin

text \<open>
  Failure counters in Redis: \<open>internal/app/auth/rate_limit.go\<close>. A counter is a key that
  \<open>INCR\<close> creates and \<open>EXPIRE\<close> bounds in time; reaching the maximum locks further attempts until
  the key expires. The commands and the passage of time on the server are the argument \<open>C\<close>,
  with their documented laws in the locale \<open>redis_counters\<close>.
\<close>

section \<open>Commands\<close>

text \<open>
  \<open>remaining\<close> is the exact lifetime a key has left (\<open>None\<close>: it does not expire), \<open>cmd_ttl\<close> what
  \<open>TTL\<close> reports of it, in whole seconds; \<open>elapse\<close> is the keyspace some time later.
\<close>

record 'r counter_client =
  cmd_incr :: "string \<Rightarrow> 'r \<Rightarrow> (int \<times> 'r) option"
  cmd_expire :: "string \<Rightarrow> duration \<Rightarrow> 'r \<Rightarrow> 'r"
  cmd_ttl :: "'r \<Rightarrow> string \<Rightarrow> duration"
  remaining :: "'r \<Rightarrow> string \<Rightarrow> duration option"
  elapse :: "duration \<Rightarrow> 'r \<Rightarrow> 'r"

definition redis_incr :: "'r counter_client \<Rightarrow> string \<Rightarrow> (('r, 'z) renv_scheme, err, int) io" where
  "redis_incr C k = (\<lambda>s. case next_call s of (oc, t) \<Rightarrow>
     (case cmd_incr C k (rstate t) of
        None \<Rightarrow> (Inl ErrRedis, t)
      | Some (n, r') \<Rightarrow>
          (case oc of
             Done \<Rightarrow> (Inr n, t\<lparr>rstate := r'\<rparr>)
           | Failed \<Rightarrow> (Inl ErrRedis, t)
           | Lost \<Rightarrow> (Inl ErrRedis, t\<lparr>rstate := r'\<rparr>))))"

section \<open>Operations\<close>

definition loginFailureWindow :: duration where "loginFailureWindow = 15 * minute"
definition loginMaxFailures :: int where "loginMaxFailures = 5"
definition ipLoginMaxFailures :: int where "ipLoginMaxFailures = 30"
definition totpFailureWindow :: duration where "totpFailureWindow = 10 * minute"
definition totpMaxFailures :: int where "totpMaxFailures = 5"
definition enrollFailureWindow :: duration where "enrollFailureWindow = 15 * minute"
definition enrollMaxFailures :: int where "enrollMaxFailures = 30"
definition mfaFailureWindow :: duration where "mfaFailureWindow = 10 * minute"
definition mfaMaxFailures :: int where "mfaMaxFailures = 8"

definition retryAfter ::
  "'r redis_client \<Rightarrow> 'r counter_client \<Rightarrow> string \<Rightarrow> int \<Rightarrow> (('r, 'z) renv_scheme, err, duration) io" where
  "retryAfter R C key maxFailures =
     tryE (redis_get R key) (\<lambda>res.
     case res of
       Inl e \<Rightarrow> if e = ErrRedisNil then ret 0 else raise e
     | Inr v \<Rightarrow>
         (case parse_int64 v of
            None \<Rightarrow> raise ErrRedis
          | Some count \<Rightarrow>
              if count < maxFailures then ret 0
              else bindE (redis_read (\<lambda>r. cmd_ttl C r key)) (\<lambda>ttl.
                if ttl \<le> 0 then ret second else ret ttl)))"

definition incrementFailure ::
  "'r counter_client \<Rightarrow> string \<Rightarrow> duration \<Rightarrow> (('r, 'z) renv_scheme, err, unit) io" where
  "incrementFailure C key window =
     bindE (redis_incr C key) (\<lambda>count.
     if count = 1 then redis_write (cmd_expire C key window) else ret ())"

text \<open>The keys; \<open>sha\<close> is the hexadecimal SHA-256 digest.\<close>

definition loginEmailIPKey :: "(string \<Rightarrow> string) \<Rightarrow> string \<Rightarrow> string \<Rightarrow> string" where
  "loginEmailIPKey sha mail ip = ''auth:fail:login:email_ip:'' @ sha (mail @ ''|'' @ ip)"

definition loginIPKey :: "(string \<Rightarrow> string) \<Rightarrow> string \<Rightarrow> string" where
  "loginIPKey sha ip = ''auth:fail:login:ip:'' @ sha ip"

definition totpUIDIPKey :: "(string \<Rightarrow> string) \<Rightarrow> int \<Rightarrow> string \<Rightarrow> string" where
  "totpUIDIPKey sha uid ip = ''auth:fail:totp:uid_ip:'' @ sha (itoa uid @ ''|'' @ ip)"

definition enrollIPKey :: "(string \<Rightarrow> string) \<Rightarrow> string \<Rightarrow> string" where
  "enrollIPKey sha ip = ''auth:fail:enroll:ip:'' @ sha ip"

definition mfaUIDIPKey :: "(string \<Rightarrow> string) \<Rightarrow> int \<Rightarrow> string \<Rightarrow> string" where
  "mfaUIDIPKey sha uid ip = ''auth:fail:mfa:uid_ip:'' @ sha (itoa uid @ ''|'' @ ip)"

definition checkLoginRateLimit ::
  "'r redis_client \<Rightarrow> 'r counter_client \<Rightarrow> (string \<Rightarrow> string) \<Rightarrow> string \<Rightarrow> string \<Rightarrow>
   (('r, 'z) renv_scheme, err, duration) io" where
  "checkLoginRateLimit R C sha mail ip =
     bindE (retryAfter R C (loginEmailIPKey sha mail ip) loginMaxFailures) (\<lambda>emailRetry.
     bindE (retryAfter R C (loginIPKey sha ip) ipLoginMaxFailures) (\<lambda>ipRetry.
     if ipRetry > emailRetry then ret ipRetry else ret emailRetry))"

definition recordLoginFailure ::
  "'r counter_client \<Rightarrow> (string \<Rightarrow> string) \<Rightarrow> string \<Rightarrow> string \<Rightarrow> (('r, 'z) renv_scheme, err, unit) io" where
  "recordLoginFailure C sha mail ip =
     bindE (incrementFailure C (loginEmailIPKey sha mail ip) loginFailureWindow) (\<lambda>_.
     incrementFailure C (loginIPKey sha ip) loginFailureWindow)"

text \<open>The clearing functions drop the error of \<open>DEL\<close>.\<close>

definition clear_key :: "'r redis_client \<Rightarrow> string \<Rightarrow> (('r, 'z) renv_scheme, err, unit) io" where
  "clear_key R k = tryE (redis_write (cmd_del R k)) (\<lambda>_. ret ())"

definition clearLoginFailures ::
  "'r redis_client \<Rightarrow> (string \<Rightarrow> string) \<Rightarrow> string \<Rightarrow> string \<Rightarrow> (('r, 'z) renv_scheme, err, unit) io" where
  "clearLoginFailures R sha mail ip = clear_key R (loginEmailIPKey sha mail ip)"

definition checkTOTPRateLimit ::
  "'r redis_client \<Rightarrow> 'r counter_client \<Rightarrow> (string \<Rightarrow> string) \<Rightarrow> int \<Rightarrow> string \<Rightarrow>
   (('r, 'z) renv_scheme, err, duration) io" where
  "checkTOTPRateLimit R C sha uid ip = retryAfter R C (totpUIDIPKey sha uid ip) totpMaxFailures"

definition recordTOTPFailure ::
  "'r counter_client \<Rightarrow> (string \<Rightarrow> string) \<Rightarrow> int \<Rightarrow> string \<Rightarrow> (('r, 'z) renv_scheme, err, unit) io" where
  "recordTOTPFailure C sha uid ip = incrementFailure C (totpUIDIPKey sha uid ip) totpFailureWindow"

definition clearTOTPFailures ::
  "'r redis_client \<Rightarrow> (string \<Rightarrow> string) \<Rightarrow> int \<Rightarrow> string \<Rightarrow> (('r, 'z) renv_scheme, err, unit) io" where
  "clearTOTPFailures R sha uid ip = clear_key R (totpUIDIPKey sha uid ip)"

definition CheckEnrollRateLimit ::
  "'r redis_client \<Rightarrow> 'r counter_client \<Rightarrow> (string \<Rightarrow> string) \<Rightarrow> string \<Rightarrow>
   (('r, 'z) renv_scheme, err, duration) io" where
  "CheckEnrollRateLimit R C sha ip = retryAfter R C (enrollIPKey sha ip) enrollMaxFailures"

definition RecordEnrollFailure ::
  "'r counter_client \<Rightarrow> (string \<Rightarrow> string) \<Rightarrow> string \<Rightarrow> (('r, 'z) renv_scheme, err, unit) io" where
  "RecordEnrollFailure C sha ip = incrementFailure C (enrollIPKey sha ip) enrollFailureWindow"

definition CheckMFARateLimit ::
  "'r redis_client \<Rightarrow> 'r counter_client \<Rightarrow> (string \<Rightarrow> string) \<Rightarrow> int \<Rightarrow> string \<Rightarrow>
   (('r, 'z) renv_scheme, err, duration) io" where
  "CheckMFARateLimit R C sha uid ip = retryAfter R C (mfaUIDIPKey sha uid ip) mfaMaxFailures"

definition RecordMFAFailure ::
  "'r counter_client \<Rightarrow> (string \<Rightarrow> string) \<Rightarrow> int \<Rightarrow> string \<Rightarrow> (('r, 'z) renv_scheme, err, unit) io" where
  "RecordMFAFailure C sha uid ip = incrementFailure C (mfaUIDIPKey sha uid ip) mfaFailureWindow"

definition ClearMFAFailures ::
  "'r redis_client \<Rightarrow> (string \<Rightarrow> string) \<Rightarrow> int \<Rightarrow> string \<Rightarrow> (('r, 'z) renv_scheme, err, unit) io" where
  "ClearMFAFailures R sha uid ip = clear_key R (mfaUIDIPKey sha uid ip)"

section \<open>The interface\<close>

locale redis_counters = redis_service +
  fixes C :: "'a counter_client"
  assumes incr_absent: "\<not> cmd_exists R r k \<Longrightarrow> \<exists>r'. cmd_incr C k r = Some (1, r') \<and> remaining C r' k = None"
    and incr_present: "cmd_get R r k = Some (itoa n) \<Longrightarrow> min_int64 \<le> n \<Longrightarrow> n < max_int64 \<Longrightarrow>
      \<exists>r'. cmd_incr C k r = Some (n + 1, r') \<and> remaining C r' k = remaining C r k"
    and incr_get: "cmd_incr C k r = Some (n, r') \<Longrightarrow>
      cmd_get R r' k' = (if k' = k then Some (itoa n) else cmd_get R r k')"
    and expire_get: "cmd_get R (cmd_expire C k d r) k' = cmd_get R r k'"
    and expire_remaining: "cmd_exists R r k \<Longrightarrow> 0 < d \<Longrightarrow> remaining C (cmd_expire C k d r) k = Some d"
    and ttl_some: "remaining C r k = Some d \<Longrightarrow> 0 < d \<Longrightarrow> 0 \<le> cmd_ttl C r k \<and> cmd_ttl C r k < d + second"
    and ttl_none: "remaining C r k = None \<Longrightarrow> cmd_ttl C r k < 0"
    and elapse_live: "remaining C r k = Some t \<Longrightarrow> d < t \<Longrightarrow> 0 \<le> d \<Longrightarrow>
      cmd_get R (elapse C d r) k = cmd_get R r k \<and> remaining C (elapse C d r) k = Some (t - d)"
    and elapse_dead: "remaining C r k = Some t \<Longrightarrow> t \<le> d \<Longrightarrow> \<not> cmd_exists R (elapse C d r) k"
    and elapse_forever: "remaining C r k = None \<Longrightarrow> 0 \<le> d \<Longrightarrow>
      cmd_get R (elapse C d r) k = cmd_get R r k \<and> remaining C (elapse C d r) k = None"

lemma redis_incr_Inr_iff:
  "redis_incr C k s = (Inr n, t) \<longleftrightarrow>
     outcomes s (calls s) = Done \<and> (\<exists>r'. cmd_incr C k (rstate s) = Some (n, r') \<and>
       t = s\<lparr>calls := Suc (calls s), rstate := r'\<rparr>)"
  by (auto simp: redis_incr_def next_call_def split: option.splits outcome.splits)

lemma retryAfter_rstate: "retryAfter R C k m s = (r, t) \<Longrightarrow> rstate t = rstate s \<and> tabs t = tabs s"
proof -
  have "rstate (snd (retryAfter R C k m s)) = rstate s \<and> tabs (snd (retryAfter R C k m s)) = tabs s"
    by (auto simp: retryAfter_def tryE_run bindE_snd ret_def raise_def split: sum.splits option.splits)
  then show "retryAfter R C k m s = (r, t) \<Longrightarrow> rstate t = rstate s \<and> tabs t = tabs s" by simp
qed

section \<open>Histories of failures\<close>

text \<open>\<open>later C d s\<close> is the environment when the server clock has advanced by \<open>d\<close>.\<close>

definition later :: "'r counter_client \<Rightarrow> duration \<Rightarrow> ('r, 'z) renv_scheme \<Rightarrow> ('r, 'z) renv_scheme" where
  "later C d s = s\<lparr>rstate := elapse C d (rstate s)\<rparr>"

text \<open>One failure after each of the given pauses.\<close>

fun failures ::
  "'r counter_client \<Rightarrow> string \<Rightarrow> duration \<Rightarrow> duration list \<Rightarrow> ('r, 'z) renv_scheme \<Rightarrow> ('r, 'z) renv_scheme" where
  "failures C key window [] s = s"
| "failures C key window (d # ds) s =
     failures C key window ds (snd (incrementFailure C key window (later C d s)))"

abbreviation all_done :: "'z env_scheme \<Rightarrow> bool" where
  "all_done s \<equiv> outcomes s = (\<lambda>_. Done)"

lemma incrementFailure_outcomes [simp]:
  "outcomes (snd (incrementFailure C key window s)) = outcomes s"
  by (auto simp: incrementFailure_def bindE_def redis_incr_def redis_write_def next_call_def ret_def
      split: option.splits outcome.splits)

lemma failures_outcomes [simp]: "outcomes (failures C key window ds s) = outcomes s"
  by (induction ds arbitrary: s) (simp_all add: later_def)

text \<open>The key \<open>k\<close> holds the count \<open>n\<close> and has the lifetime \<open>w\<close> left.\<close>

definition counts ::
  "'r redis_client \<Rightarrow> 'r counter_client \<Rightarrow> 'r \<Rightarrow> string \<Rightarrow> int \<Rightarrow> duration option \<Rightarrow> bool" where
  "counts R C r k n w \<longleftrightarrow> cmd_get R r k = Some (itoa n) \<and> remaining C r k = w"

context redis_counters
begin

lemma first_failure:
  assumes "all_done s" "\<not> cmd_exists R (rstate s) k" "0 < window"
  shows "counts R C (rstate (snd (incrementFailure C k window s))) k 1 (Some window)"
proof -
  obtain r' where r': "cmd_incr C k (rstate s) = Some (1, r')" using incr_absent [OF assms(2)] by blast
  have "cmd_exists R r' k" using incr_get [OF r', of k] by (auto intro: get_exists)
  then show ?thesis
    using assms r' incr_get [OF r', of k]
    by (simp add: incrementFailure_def bindE_run redis_incr_def redis_write_def next_call_def
        counts_def expire_get expire_remaining)
qed

lemma next_failure:
  assumes "all_done s" "counts R C (rstate s) k n w" "1 \<le> n" "n < max_int64"
  shows "counts R C (rstate (snd (incrementFailure C k window s))) k (n + 1) w"
proof -
  have "min_int64 \<le> n" using assms(3) by (simp add: min_int64_def)
  then obtain r' where r': "cmd_incr C k (rstate s) = Some (n + 1, r')" "remaining C r' k = w"
    using incr_present [of "rstate s" k n] assms by (auto simp: counts_def)
  then show ?thesis
    using assms incr_get [OF r'(1), of k]
    by (simp add: incrementFailure_def bindE_run redis_incr_def next_call_def ret_def counts_def)
qed

lemma counts_later:
  "counts R C (rstate s) k n None \<Longrightarrow> 0 \<le> d \<Longrightarrow> counts R C (rstate (later C d s)) k n None"
  "counts R C (rstate s) k n (Some w) \<Longrightarrow> 0 \<le> d \<Longrightarrow> d < w \<Longrightarrow>
     counts R C (rstate (later C d s)) k n (Some (w - d))"
  using elapse_forever [of "rstate s" k d] elapse_live [of "rstate s" k w d]
  by (auto simp: counts_def later_def)

lemma failures_live:
  assumes "all_done s" "counts R C (rstate s) k n (Some w)" "1 \<le> n" "n + int (length ds) \<le> max_int64"
    "list_all (\<lambda>d. 0 \<le> d) ds" "sum_list ds < w"
  shows "counts R C (rstate (failures C k window ds s)) k (n + int (length ds)) (Some (w - sum_list ds))"
  using assms
proof (induction ds arbitrary: s n w)
  case (Cons d ds)
  have nonneg: "0 \<le> sum_list ds" using Cons.prems(5) by (induction ds) auto
  let ?s = "snd (incrementFailure C k window (later C d s))"
  have "counts R C (rstate (later C d s)) k n (Some (w - d))"
    using Cons.prems nonneg by (intro counts_later) auto
  then have "counts R C (rstate ?s) k (n + 1) (Some (w - d))"
    using Cons.prems by (intro next_failure) (auto simp: later_def)
  then have "counts R C (rstate (failures C k window ds ?s)) k (n + 1 + int (length ds)) (Some (w - d - sum_list ds))"
    using Cons.prems by (intro Cons.IH) (auto simp: later_def)
  then show ?case by (simp add: algebra_simps)
qed simp

lemma failures_forever:
  assumes "all_done s" "counts R C (rstate s) k n None" "1 \<le> n" "n + int (length ds) \<le> max_int64"
    "list_all (\<lambda>d. 0 \<le> d) ds"
  shows "counts R C (rstate (failures C k window ds s)) k (n + int (length ds)) None"
  using assms
proof (induction ds arbitrary: s n)
  case (Cons d ds)
  let ?s = "snd (incrementFailure C k window (later C d s))"
  have "counts R C (rstate (later C d s)) k n None"
    using Cons.prems by (intro counts_later) auto
  then have "counts R C (rstate ?s) k (n + 1) None"
    using Cons.prems by (intro next_failure) (auto simp: later_def)
  then have "counts R C (rstate (failures C k window ds ?s)) k (n + 1 + int (length ds)) None"
    using Cons.prems by (intro Cons.IH) (auto simp: later_def)
  then show ?case by (simp add: algebra_simps)
qed simp

lemma retryAfter_counts:
  assumes "all_done s" "counts R C (rstate s) k n w" "1 \<le> n" "n \<le> max_int64"
  shows "fst (retryAfter R C k m s) = Inr (if n < m then 0 else
    if cmd_ttl C (rstate s) k \<le> 0 then second else cmd_ttl C (rstate s) k)"
proof -
  have "parse_int64 (itoa n) = Some n"
    using assms(3,4) by (intro parse_int64_itoa) (auto simp: min_int64_def)
  with assms show ?thesis
    by (simp add: retryAfter_def tryE_run redis_get_def bindE_run redis_read_def next_call_def ret_def
        counts_def)
qed

lemma retryAfter_absent:
  assumes "all_done s" "\<not> cmd_exists R (rstate s) k"
  shows "fst (retryAfter R C k m s) = Inr 0"
proof -
  have "cmd_get R (rstate s) k = None" using assms(2) get_exists by (cases "cmd_get R (rstate s) k") auto
  with assms(1) show ?thesis
    by (simp add: retryAfter_def tryE_run redis_get_def bindE_run redis_read_def next_call_def ret_def raise_def)
qed

text \<open>
  \<open>n\<close> failures, the first on a fresh key and all within the window: the key locks exactly when
  \<open>n\<close> reaches the maximum, the reported wait is positive and at most a second more than the
  window has left, and when the window is over the key no longer counts.
\<close>

lemma lockout:
  assumes "all_done s" "\<not> cmd_exists R (rstate (later C d s)) k" "list_all (\<lambda>e. 0 \<le> e) ds"
    "sum_list ds < window" "1 + int (length ds) \<le> max_int64" "1 \<le> m"
  defines "t \<equiv> failures C k window (d # ds) s"
  shows "\<exists>wait. fst (retryAfter R C k m t) = Inr wait \<and>
      (0 < wait \<longleftrightarrow> m \<le> 1 + int (length ds)) \<and> 0 \<le> wait \<and> wait \<le> window - sum_list ds + second"
    "window - sum_list ds \<le> e \<Longrightarrow> fst (retryAfter R C k m (later C e t)) = Inr 0"
proof -
  have nonneg: "0 \<le> sum_list ds" using assms(3) by (induction ds) auto
  have first: "counts R C (rstate (snd (incrementFailure C k window (later C d s)))) k 1 (Some window)"
    using assms nonneg by (intro first_failure) (auto simp: later_def)
  have t: "counts R C (rstate t) k (1 + int (length ds)) (Some (window - sum_list ds))"
    unfolding t_def failures.simps using assms first by (intro failures_live) (auto simp: later_def)
  have ok: "all_done t" using assms(1) by (simp add: t_def later_def)
  show "\<exists>wait. fst (retryAfter R C k m t) = Inr wait \<and>
      (0 < wait \<longleftrightarrow> m \<le> 1 + int (length ds)) \<and> 0 \<le> wait \<and> wait \<le> window - sum_list ds + second"
    using retryAfter_counts [OF ok t, of m] ttl_some [of "rstate t" k "window - sum_list ds"] t assms
    by (auto simp: counts_def)
  show "fst (retryAfter R C k m (later C e t)) = Inr 0" if "window - sum_list ds \<le> e"
    using that t ok elapse_dead [of "rstate t" k "window - sum_list ds" e]
    by (intro retryAfter_absent) (auto simp: counts_def later_def)
qed

text \<open>A counter that was created but never given a lifetime locks for good.\<close>

lemma locked_for_good:
  assumes "all_done s" "counts R C (rstate s) k n None" "1 \<le> n" "n + int (length ds) \<le> max_int64"
    "list_all (\<lambda>d. 0 \<le> d) ds" "m \<le> n + int (length ds)" "0 \<le> e"
  shows "fst (retryAfter R C k m (later C e (failures C k window ds s))) = Inr second"
proof -
  let ?t = "later C e (failures C k window ds s)"
  have "counts R C (rstate ?t) k (n + int (length ds)) None"
    using assms by (intro counts_later failures_forever)
  then show ?thesis
    using assms retryAfter_counts [of ?t k "n + int (length ds)" None m] ttl_none [of "rstate ?t" k]
    by (auto simp: counts_def later_def)
qed

end

section \<open>The counters of the keyspace in memory\<close>

definition expired :: "duration \<Rightarrow> mem \<Rightarrow> string \<Rightarrow> bool" where
  "expired d r k = (case map_of (ttls r) k of None \<Rightarrow> False | Some t \<Rightarrow> t \<le> d)"

definition mem_incr :: "string \<Rightarrow> mem \<Rightarrow> (int \<times> mem) option" where
  "mem_incr k r =
     (case map_of (strs r) k of
        None \<Rightarrow> if has_key (sets r) k then None
          else Some (1, r\<lparr>strs := AList.update k (itoa 1) (strs r), ttls := AList.delete k (ttls r)\<rparr>)
      | Some v \<Rightarrow>
          (case parse_int64 v of
             None \<Rightarrow> None
           | Some n \<Rightarrow> if n = max_int64 then None
               else Some (n + 1, r\<lparr>strs := AList.update k (itoa (n + 1)) (strs r)\<rparr>)))"

definition mem_counters :: "mem counter_client" where
  "mem_counters = \<lparr>
     cmd_incr = mem_incr,
     cmd_expire = (\<lambda>k d r. if has_key (strs r) k \<or> has_key (sets r) k
       then r\<lparr>ttls := AList.update k d (ttls r)\<rparr> else r),
     cmd_ttl = (\<lambda>r k. case map_of (ttls r) k of None \<Rightarrow> - 1 | Some d \<Rightarrow> d div second * second),
     remaining = (\<lambda>r k. map_of (ttls r) k),
     elapse = (\<lambda>d r. r\<lparr>strs := delete_where (\<lambda>k _. expired d r k) (strs r),
       sets := delete_where (\<lambda>k _. expired d r k) (sets r),
       ttls := map (\<lambda>(k, t). (k, t - d)) (delete_where (\<lambda>k _. expired d r k) (ttls r))\<rparr>)\<rparr>"

lemma map_of_delete_where_key:
  "map_of (delete_where (\<lambda>k _. p k) t) k = (if p k then None else map_of t k)"
  by (induction t) (auto split: if_splits)

lemma map_of_shift: "map_of (map (\<lambda>(k, t). (k, t - d)) xs) k = map_option (\<lambda>t. t - d) (map_of xs k)"
  by (induction xs) auto

lemma mem_incr_get:
  "mem_incr k r = Some (n, r') \<Longrightarrow> map_of (strs r') k' = (if k' = k then Some (itoa n) else map_of (strs r) k')"
  by (auto simp: mem_incr_def split: option.splits if_splits)

interpretation mem: redis_counters mem_redis mem_counters
proof
  fix r k k' n r' d t
  note defs = mem_redis_def mem_counters_def
  show "\<exists>r'. cmd_incr mem_counters k r = Some (1, r') \<and> remaining mem_counters r' k = None"
    if "\<not> cmd_exists mem_redis r k"
    using that by (auto simp: defs mem_incr_def not_has_key)
  show "\<exists>r'. cmd_incr mem_counters k r = Some (n + 1, r') \<and> remaining mem_counters r' k = remaining mem_counters r k"
    if "cmd_get mem_redis r k = Some (itoa n)" "min_int64 \<le> n" "n < max_int64"
    using that by (auto simp: defs mem_incr_def parse_int64_itoa)
  show "cmd_get mem_redis r' k' = (if k' = k then Some (itoa n) else cmd_get mem_redis r k')"
    if "cmd_incr mem_counters k r = Some (n, r')"
    using mem_incr_get [of k r n r'] that by (simp add: defs)
  show "cmd_get mem_redis (cmd_expire mem_counters k d r) k' = cmd_get mem_redis r k'"
    by (simp add: defs)
  show "remaining mem_counters (cmd_expire mem_counters k d r) k = Some d"
    if "cmd_exists mem_redis r k" "0 < d"
    using that by (simp add: defs)
  show "0 \<le> cmd_ttl mem_counters r k \<and> cmd_ttl mem_counters r k < d + second"
    if "remaining mem_counters r k = Some d" "0 < d"
    using that by (simp add: defs)
  show "cmd_ttl mem_counters r k < 0" if "remaining mem_counters r k = None"
    using that by (simp add: defs)
  show "cmd_get mem_redis (elapse mem_counters d r) k = cmd_get mem_redis r k \<and>
      remaining mem_counters (elapse mem_counters d r) k = Some (t - d)"
    if "remaining mem_counters r k = Some t" "d < t" "0 \<le> d"
    using that by (simp add: defs map_of_delete_where_key map_of_shift expired_def)
  show "\<not> cmd_exists mem_redis (elapse mem_counters d r) k"
    if "remaining mem_counters r k = Some t" "t \<le> d"
    using that by (simp add: defs has_key_def map_of_delete_where_key expired_def)
  show "cmd_get mem_redis (elapse mem_counters d r) k = cmd_get mem_redis r k \<and>
      remaining mem_counters (elapse mem_counters d r) k = None"
    if "remaining mem_counters r k = None" "0 \<le> d"
    using that by (simp add: defs map_of_delete_where_key map_of_shift expired_def)
qed

section \<open>Properties\<close>

text \<open>
  Failures recorded within one window on a key that did not exist lock exactly when their
  number reaches the maximum: from then on the check reports a positive wait, which is at most
  a second more than what the window has left, and before that it reports zero. Once the window
  that began with the first failure is over, the check reports zero again.
\<close>

theorem rate_limit_lockout:
  assumes "redis_counters R C" "all_done s" "\<not> cmd_exists R (rstate (later C d s)) key"
    "list_all (\<lambda>e. 0 \<le> e) ds" "sum_list ds < window" "1 + int (length ds) \<le> max_int64"
    "1 \<le> maxFailures"
  shows "(\<exists>wait. fst (retryAfter R C key maxFailures (failures C key window (d # ds) s)) = Inr wait \<and>
      (0 < wait \<longleftrightarrow> maxFailures \<le> 1 + int (length ds)) \<and>
      0 \<le> wait \<and> wait \<le> window - sum_list ds + second) \<and>
    (\<forall>e \<ge> window - sum_list ds.
      fst (retryAfter R C key maxFailures (later C e (failures C key window (d # ds) s))) = Inr 0)"
  using redis_counters.lockout [OF assms] by blast

theorem rate_limit_lockout_witness:
  "\<exists>wait > 0. fst (retryAfter mem_redis mem_counters ''k'' loginMaxFailures
     (failures mem_counters ''k'' loginFailureWindow [0, second, second, second, second] sample_renv)) = Inr wait"
proof -
  have ex: "\<not> cmd_exists mem_redis (rstate (later mem_counters 0 sample_renv)) ''k''" by code_simp
  show ?thesis
    using rate_limit_lockout [OF mem.redis_counters_axioms _ ex,
        of "[second, second, second, second]" loginFailureWindow loginMaxFailures]
    by (auto simp: sample_renv_def loginFailureWindow_def loginMaxFailures_def max_int64_def)
qed

text \<open>
  \<open>INCR\<close> and \<open>EXPIRE\<close> are separate commands. When the second one fails on the first
  failure of a key, the counter has no lifetime: after enough further failures every later
  check reports a wait, however much time passes, until the key is deleted.
\<close>

theorem rate_limit_without_expiry:
  assumes "redis_counters R C" "\<not> cmd_exists R (rstate s) key"
    "outcomes s (calls s) = Done" "outcomes s (Suc (calls s)) = Failed"
    "incrementFailure C key window s = (r, t)" "list_all (\<lambda>e. 0 \<le> e) ds"
    "1 + int (length ds) \<le> max_int64" "maxFailures \<le> 1 + int (length ds)" "0 \<le> e"
  shows "r = Inl ErrRedis \<and>
    fst (retryAfter R C key maxFailures
      (later C e (failures C key window ds (t\<lparr>outcomes := (\<lambda>_. Done)\<rparr>)))) = Inr second"
proof -
  obtain r' where r': "cmd_incr C key (rstate s) = Some (1, r')" "remaining C r' key = None"
    using redis_counters.incr_absent [OF assms(1,2)] by blast
  have "cmd_get R r' key = Some (itoa 1)"
    using redis_counters.incr_get [OF assms(1) r'(1), of key] by simp
  moreover have run: "r = Inl ErrRedis" "rstate t = r'"
    using assms(3-5) r' by (auto simp: incrementFailure_def bindE_run redis_incr_def redis_write_def next_call_def)
  ultimately have "counts R C (rstate (t\<lparr>outcomes := (\<lambda>_. Done)\<rparr>)) key 1 None"
    using r'(2) by (simp add: counts_def)
  then show ?thesis
    using run assms redis_counters.locked_for_good [OF assms(1), of "t\<lparr>outcomes := (\<lambda>_. Done)\<rparr>"]
    by simp
qed

theorem rate_limit_without_expiry_witness:
  "fst (retryAfter mem_redis mem_counters ''k'' 5 (later mem_counters (1000 * hour)
     (failures mem_counters ''k'' loginFailureWindow [0, 0, 0, 0]
       (snd (incrementFailure mem_counters ''k'' loginFailureWindow
          (sample_renv\<lparr>outcomes := (\<lambda>n. if n = 1 then Failed else Done)\<rparr>))\<lparr>outcomes := (\<lambda>_. Done)\<rparr>))))
   = Inr second"
proof -
  let ?s = "sample_renv\<lparr>outcomes := (\<lambda>n. if n = 1 then Failed else Done)\<rparr>"
  have ex: "\<not> cmd_exists mem_redis (rstate ?s) ''k''" by code_simp
  have oc: "outcomes ?s (calls ?s) = Done" "outcomes ?s (Suc (calls ?s)) = Failed"
    by (simp_all add: sample_renv_def)
  show ?thesis
    by (rule rate_limit_without_expiry [OF mem.redis_counters_axioms ex oc prod.collapse [symmetric], THEN conjunct2])
      (simp_all add: max_int64_def)
qed

end
