(* ===== verification/Go_Strings.thy ===== *)
theory Go_Strings
  imports Prelude
begin

text \<open>
  The functions of Go's standard library on strings that the components use. A Go string is a
  sequence of bytes, here a list of characters: \<open>strings.Split\<close>, \<open>SplitN\<close>, \<open>HasPrefix\<close>,
  \<open>TrimPrefix\<close>, \<open>TrimSpace\<close>, \<open>ToLower\<close>, \<open>EqualFold\<close> (on ASCII), \<open>strconv.ParseUint\<close>, and the
  hexadecimal and base64 codecs.
\<close>

section \<open>Splitting and trimming\<close>

fun split_on :: "char \<Rightarrow> string \<Rightarrow> string list" where
  "split_on c [] = [[]]"
| "split_on c (x # xs) =
     (if x = c then [] # split_on c xs
      else case split_on c xs of [] \<Rightarrow> [[x]] | y # ys \<Rightarrow> (x # y) # ys)"

lemma split_on_nonempty [simp]: "split_on c s \<noteq> []"
  by (cases s) (auto split: list.splits)

lemma split_on_none [simp]: "c \<notin> set s \<Longrightarrow> split_on c s = [s]"
  by (induction s) auto

lemma split_on_append [simp]: "c \<notin> set s \<Longrightarrow> split_on c (s @ c # t) = s # split_on c t"
  by (induction s) auto

text \<open>\<open>strings.SplitN(s, c, 2)\<close>.\<close>

definition split2 :: "char \<Rightarrow> string \<Rightarrow> string list" where
  "split2 c s = (if c \<in> set s then [takeWhile (\<lambda>x. x \<noteq> c) s, tl (dropWhile (\<lambda>x. x \<noteq> c) s)] else [s])"

lemma split2_append [simp]: "c \<notin> set s \<Longrightarrow> split2 c (s @ c # t) = [s, t]"
proof -
  assume "c \<notin> set s"
  then have "takeWhile (\<lambda>x. x \<noteq> c) (s @ c # t) = s" "dropWhile (\<lambda>x. x \<noteq> c) (s @ c # t) = c # t"
    by (auto simp: takeWhile_append dropWhile_append)
  then show ?thesis by (simp add: split2_def)
qed

definition has_prefix :: "string \<Rightarrow> string \<Rightarrow> bool" where
  "has_prefix p s \<longleftrightarrow> take (length p) s = p"

definition trim_prefix :: "string \<Rightarrow> string \<Rightarrow> string" where
  "trim_prefix p s = (if has_prefix p s then drop (length p) s else s)"

lemma has_prefix_append [simp]: "has_prefix p (p @ s)"
  by (simp add: has_prefix_def)

lemma has_prefixE: "has_prefix p s \<Longrightarrow> (\<And>t. s = p @ t \<Longrightarrow> P) \<Longrightarrow> P"
  unfolding has_prefix_def by (metis append_take_drop_id)

lemma trim_prefix_append [simp]: "trim_prefix p (p @ s) = s"
  by (simp add: trim_prefix_def)

definition is_space :: "char \<Rightarrow> bool" where
  "is_space c \<longleftrightarrow> c \<in> set [CHR 0x09, CHR 0x0A, CHR 0x0B, CHR 0x0C, CHR 0x0D, CHR 0x20]"

definition trim_space :: "string \<Rightarrow> string" where
  "trim_space s = rev (dropWhile is_space (rev (dropWhile is_space s)))"

lemma dropWhile_prefix_end: "dropWhile P (rev (dropWhile P (rev (dropWhile P s)))) = rev (dropWhile P (rev (dropWhile P s)))"
proof -
  define d where "d = dropWhile P s"
  define e where "e = rev (dropWhile P (rev d))"
  have "rev d = takeWhile P (rev d) @ dropWhile P (rev d)" by (simp only: takeWhile_dropWhile_id)
  from arg_cong [OF this, of rev] have "d = e @ rev (takeWhile P (rev d))" by (simp only: e_def rev_append rev_rev_ident)
  moreover have "d \<noteq> [] \<Longrightarrow> \<not> P (hd d)" unfolding d_def by (rule hd_dropWhile)
  ultimately have "e \<noteq> [] \<Longrightarrow> \<not> P (hd e)" by (metis append_is_Nil_conv hd_append2)
  then have "dropWhile P e = e" by (cases e) auto
  then show ?thesis by (simp add: d_def e_def)
qed

lemma trim_space_idem [simp]: "trim_space (trim_space s) = trim_space s"
  unfolding trim_space_def by (simp add: dropWhile_prefix_end)

definition lower :: "char \<Rightarrow> char" where
  "lower c = (let n = (of_char c :: nat) in if 65 \<le> n \<and> n \<le> 90 then char_of (n + 32) else c)"

definition to_lower :: "string \<Rightarrow> string" where
  "to_lower s = map lower s"

definition equal_fold :: "string \<Rightarrow> string \<Rightarrow> bool" where
  "equal_fold s t \<longleftrightarrow> to_lower s = to_lower t"

section \<open>Unsigned decimal numbers\<close>

text \<open>\<open>strconv.ParseUint(s, 10, bits)\<close>.\<close>

definition parse_uint :: "nat \<Rightarrow> string \<Rightarrow> nat option" where
  "parse_uint bits s =
     (if s = [] \<or> \<not> list_all is_digit s \<or> 2 ^ bits \<le> undec s then None else Some (undec s))"

lemma parse_uint_dec: "n < 2 ^ bits \<Longrightarrow> parse_uint bits (dec n) = Some n"
  by (simp add: parse_uint_def)

lemma parse_uint_bound: "parse_uint bits s = Some n \<Longrightarrow> n < 2 ^ bits"
  by (auto simp: parse_uint_def split: if_splits)

lemma dec_no_sep: "c \<notin> set (dec n)" if "\<not> is_digit c"
  using that dec_digits by (auto simp: is_digit_def)

section \<open>Hexadecimal\<close>

definition hex_value :: "char \<Rightarrow> nat option" where
  "hex_value c =
     (let n = (of_char c :: nat) in
      if 48 \<le> n \<and> n < 58 then Some (n - 48)
      else if 97 \<le> n \<and> n < 103 then Some (n - 87)
      else if 65 \<le> n \<and> n < 71 then Some (n - 55) else None)"

fun hex_decode :: "string \<Rightarrow> string option" where
  "hex_decode [] = Some []"
| "hex_decode [x] = None"
| "hex_decode (x # y # r) =
     (case (hex_value x, hex_value y) of
        (Some a, Some b) \<Rightarrow> map_option (\<lambda>t. char_of (16 * a + b) # t) (hex_decode r)
      | _ \<Rightarrow> None)"

definition hex_digit :: "nat \<Rightarrow> char" where
  "hex_digit n = (if n < 10 then char_of (48 + n) else char_of (87 + n))"

fun hex_encode :: "string \<Rightarrow> string" where
  "hex_encode [] = []"
| "hex_encode (c # s) =
     (let n = (of_char c :: nat) in hex_digit (n div 16) # hex_digit (n mod 16) # hex_encode s)"

lemma hex_value_digit: "n < 16 \<Longrightarrow> hex_value (hex_digit n) = Some n"
  by (auto simp: hex_value_def hex_digit_def of_char_of Let_def)

lemma byte_less: "(of_char (c :: char) :: nat) < 256"
  using nat_of_char_less_256 [of c] by simp

lemma hex_decode_encode [simp]: "hex_decode (hex_encode s) = Some s"
proof (induction s)
  case (Cons c s)
  have "(of_char c :: nat) div 16 < 16" using byte_less [of c] by (simp add: less_mult_imp_div_less)
  with Cons show ?case
    by (simp add: hex_value_digit Let_def mult.commute [of 16] div_mult_mod_eq)
qed simp

lemma length_hex_encode [simp]: "length (hex_encode s) = 2 * length s"
  by (induction s) (simp_all add: Let_def)

section \<open>Base64 without padding\<close>

text \<open>
  \<open>base64.RawStdEncoding\<close>: the decoder skips carriage returns and newlines, rejects characters
  outside the alphabet and a lone last character, and ignores the unused bits of the last one.
\<close>

definition b64_char :: "nat \<Rightarrow> char" where
  "b64_char n =
     (if n < 26 then char_of (65 + n) else if n < 52 then char_of (71 + n)
      else if n < 62 then char_of (n - 4) else if n = 62 then CHR ''+'' else CHR ''/'')"

definition b64_value :: "char \<Rightarrow> nat option" where
  "b64_value c =
     (let n = (of_char c :: nat) in
      if 65 \<le> n \<and> n \<le> 90 then Some (n - 65)
      else if 97 \<le> n \<and> n \<le> 122 then Some (n - 71)
      else if 48 \<le> n \<and> n \<le> 57 then Some (n + 4)
      else if n = 43 then Some 62 else if n = 47 then Some 63 else None)"

fun b64_sextets :: "nat list \<Rightarrow> nat list" where
  "b64_sextets [] = []"
| "b64_sextets [a] = [a div 4, a mod 4 * 16]"
| "b64_sextets [a, b] = [a div 4, a mod 4 * 16 + b div 16, b mod 16 * 4]"
| "b64_sextets (a # b # c # r) =
     [a div 4, a mod 4 * 16 + b div 16, b mod 16 * 4 + c div 64, c mod 64] @ b64_sextets r"

definition b64_encode :: "string \<Rightarrow> string" where
  "b64_encode s = map b64_char (b64_sextets (map of_char s))"

fun b64_octets :: "nat list \<Rightarrow> nat list option" where
  "b64_octets [] = Some []"
| "b64_octets [w] = None"
| "b64_octets [w, x] = Some [w * 4 + x div 16]"
| "b64_octets [w, x, y] = Some [w * 4 + x div 16, x mod 16 * 16 + y div 4]"
| "b64_octets (w # x # y # z # r) =
     map_option (\<lambda>t. [w * 4 + x div 16, x mod 16 * 16 + y div 4, y mod 4 * 64 + z] @ t) (b64_octets r)"

definition b64_decode :: "string \<Rightarrow> string option" where
  "b64_decode s =
     (let vs = map b64_value (filter (\<lambda>c. c \<noteq> CHR 0x0A \<and> c \<noteq> CHR 0x0D) s) in
      if None \<in> set vs then None else map_option (map char_of) (b64_octets (map the vs)))"

lemma b64_value_char: "n < 64 \<Longrightarrow> b64_value (b64_char n) = Some n"
  by (auto simp: b64_value_def b64_char_def of_char_of Let_def)

lemma b64_char_not_newline: "n < 64 \<Longrightarrow> b64_char n \<noteq> CHR 0x0A \<and> b64_char n \<noteq> CHR 0x0D \<and> b64_char n \<noteq> CHR ''$''"
proof -
  assume "n < 64"
  then have "b64_value (b64_char n) \<noteq> None" by (simp add: b64_value_char)
  moreover have "b64_value (CHR 0x0A) = None" "b64_value (CHR 0x0D) = None" "b64_value (CHR ''$'') = None"
    by code_simp+
  ultimately show ?thesis by metis
qed

lemma b64_sextets_less: "list_all (\<lambda>a. a < 256) xs \<Longrightarrow> list_all (\<lambda>n. n < 64) (b64_sextets xs)"
  by (induction xs rule: b64_sextets.induct) auto

lemma b64_octets_sextets: "list_all (\<lambda>a. a < 256) xs \<Longrightarrow> b64_octets (b64_sextets xs) = Some xs"
proof (induction xs rule: b64_sextets.induct)
  case (2 a)
  then show ?case by simp
next
  case (3 a b)
  have "a mod 4 * 16 + b div 16 < 64" "(a mod 4 * 16 + b div 16) div 16 = a mod 4"
    "(a mod 4 * 16 + b div 16) mod 16 = b div 16"
    using 3 by auto
  then show ?case by simp
next
  case (4 a b c r)
  have "(a mod 4 * 16 + b div 16) div 16 = a mod 4" "(a mod 4 * 16 + b div 16) mod 16 = b div 16"
    "(b mod 16 * 4 + c div 64) div 4 = b mod 16" "(b mod 16 * 4 + c div 64) mod 4 = c div 64"
    using 4 by auto
  with 4 show ?case by simp
qed simp

lemma b64_decode_encode [simp]: "b64_decode (b64_encode s) = Some s"
proof -
  let ?ns = "b64_sextets (map of_char s)"
  have bytes: "list_all (\<lambda>a. a < (256 :: nat)) (map of_char s)" by (simp add: list_all_iff)
  note small = b64_sextets_less [OF bytes, unfolded list_all_iff]
  have "filter (\<lambda>c. c \<noteq> CHR 0x0A \<and> c \<noteq> CHR 0x0D) (map b64_char ?ns) = map b64_char ?ns"
    using small b64_char_not_newline by (auto intro!: filter_True)
  moreover have "map b64_value (map b64_char ?ns) = map Some ?ns"
    using small by (auto simp: b64_value_char)
  ultimately show ?thesis
    using b64_octets_sextets [OF bytes]
    by (simp add: b64_decode_def b64_encode_def Let_def o_def del: map_map)
      (simp add: o_def)
qed

lemma b64_encode_no_dollar: "CHR ''$'' \<notin> set (b64_encode s)"
  using b64_sextets_less [of "map of_char s"] b64_char_not_newline
  by (fastforce simp: b64_encode_def list_all_iff)

section \<open>Base64 with padding\<close>

text \<open>
  Standard base64 with padding: a multiple of four characters, at most two of them padding at
  the end; newlines are skipped, and the unused bits of the last character are ignored.
\<close>

definition b64_std_decode :: "string \<Rightarrow> string option" where
  "b64_std_decode s =
     (let t = filter (\<lambda>c. c \<noteq> CHR 0x0A \<and> c \<noteq> CHR 0x0D) s;
          body = rev (dropWhile (\<lambda>c. c = CHR ''='') (rev t)) in
      if length t mod 4 \<noteq> 0 \<or> length t - length body > 2 then None else b64_decode body)"

definition b64_padding :: "string \<Rightarrow> nat" where
  "b64_padding b = (3 - length b mod 3) mod 3"

definition b64_std_encode :: "string \<Rightarrow> string" where
  "b64_std_encode b = b64_encode b @ replicate (b64_padding b) (CHR ''='')"

lemma length_b64_sextets: "length (b64_sextets xs) = (4 * length xs + 2) div 3"
  by (induction xs rule: b64_sextets.induct) auto

lemma b64_encode_chars: "c \<in> set (b64_encode s) \<Longrightarrow> c \<noteq> CHR 0x0A \<and> c \<noteq> CHR 0x0D \<and> c \<noteq> CHR ''=''"
proof -
  assume "c \<in> set (b64_encode s)"
  then obtain n where n: "n < 64" "c = b64_char n"
    using b64_sextets_less [of "map of_char s"] by (auto simp: b64_encode_def list_all_iff)
  then have "b64_value c \<noteq> None" by (simp add: b64_value_char)
  moreover have "b64_value (CHR ''='') = None" by code_simp
  ultimately show ?thesis using b64_char_not_newline [OF n(1)] n(2) by metis
qed

lemma b64_std_encode_length: "length (b64_std_encode b) = (length b + 2) div 3 * 4"
proof -
  have "(4 * n + 2) div 3 + (3 - n mod 3) mod 3 = (n + 2) div 3 * 4" for n :: nat
  proof -
    obtain q r where n: "n = 3 * q + r" "r < 3" by (metis mod_less_divisor mult_div_mod_eq zero_less_numeral)
    have "4 * n + 2 = (4 * r + 2) + 3 * (4 * q)" "n + 2 = (r + 2) + 3 * q" using n by simp_all
    then have "(4 * n + 2) div 3 = 4 * q + (4 * r + 2) div 3" "(n + 2) div 3 = q + (r + 2) div 3"
      by (simp_all only: div_mult_self2)
    moreover from n have "r = 0 \<or> r = 1 \<or> r = 2" by linarith
    ultimately show ?thesis using n by auto
  qed
  then show ?thesis by (simp add: b64_std_encode_def b64_encode_def length_b64_sextets b64_padding_def)
qed

lemma dropWhile_replicate_append: "P c \<Longrightarrow> dropWhile P (replicate k c @ ys) = dropWhile P ys"
  by (induction k) auto

lemma b64_std_strip:
  "filter (\<lambda>c. c \<noteq> CHR 0x0A \<and> c \<noteq> CHR 0x0D) (b64_std_encode b) = b64_std_encode b"
  "rev (dropWhile (\<lambda>c. c = CHR ''='') (rev (b64_std_encode b))) = b64_encode b"
proof -
  show "filter (\<lambda>c. c \<noteq> CHR 0x0A \<and> c \<noteq> CHR 0x0D) (b64_std_encode b) = b64_std_encode b"
    using b64_encode_chars [of _ b] by (intro filter_True) (auto simp: b64_std_encode_def)
  have "dropWhile (\<lambda>c. c = CHR ''='') (rev (b64_encode b)) = rev (b64_encode b)"
    using b64_encode_chars [of _ b] by (intro dropWhile_eq_self_iff [THEN iffD2]) (metis hd_in_set set_rev)
  then show "rev (dropWhile (\<lambda>c. c = CHR ''='') (rev (b64_std_encode b))) = b64_encode b"
    by (simp add: b64_std_encode_def dropWhile_replicate_append)
qed

lemma b64_std_decode_encode [simp]: "b64_std_decode (b64_std_encode b) = Some b"
proof -
  have "length (b64_std_encode b) mod 4 = 0" by (simp add: b64_std_encode_length)
  moreover have "length (b64_std_encode b) - length (b64_encode b) \<le> 2"
    using mod_less_divisor [of 3 "3 - length b mod 3"] by (simp add: b64_std_encode_def b64_padding_def)
  ultimately show ?thesis unfolding b64_std_decode_def b64_std_strip Let_def by simp
qed

end
