(* ===== verification/Web.thy ===== *)
theory Web
  imports Rate_Limit Go_Strings
begin

text \<open>
  The request path of the hub: \<open>internal/app/middleware\<close> (who may reach a handler) and the
  process-wide stores of \<open>internal/utils/store\<close> the authentication handlers share. A handler
  answers with the status and the code of its JSON body; returning early is the error branch,
  so a middleware is the computation that runs before \<open>next\<close> and yields what it stores in the
  request context.
\<close>

type_synonym response = "nat \<times> string"

type_synonym ('s, 'a) handler = "('s, response, 'a) io"

definition error500 :: response where "error500 = (500, ''error'')"

text \<open>\<open>if err != nil { return <response> }\<close>\<close>

definition orElse :: "('s, err, 'a) io \<Rightarrow> response \<Rightarrow> ('s, 'a) handler" where
  "orElse m resp = tryE m (\<lambda>r. case r of Inl _ \<Rightarrow> raise resp | Inr x \<Rightarrow> ret x)"

text \<open>\<open>_ = f()\<close>: the error is dropped.\<close>

definition ignoring :: "('s, err, 'a) io \<Rightarrow> ('s, unit) handler" where
  "ignoring m = tryE m (\<lambda>_. ret ())"

lemma orElse_Inr_iff: "orElse m resp s = (Inr x, t) \<longleftrightarrow> m s = (Inr x, t)"
  by (auto simp: orElse_def tryE_case_iff raise_def ret_def)

lemma ignoring_Inr_iff: "ignoring m s = (r, t) \<longleftrightarrow> r = Inr () \<and> t = snd (m s)"
  by (auto simp: ignoring_def tryE_run ret_def)

lemmas handler_Inr_iffs = orElse_Inr_iff ignoring_Inr_iff bindE_Inr_iff

section \<open>Process-wide stores: internal/utils/store\<close>

record TwoFACodeState =
  code_uid :: int
  code_expire :: int

record authSessionState =
  createdAt :: go_time
  providerID :: int
  configRevision :: int

record 'r wenv = "'r renv" +
  twofa :: "(string, TwoFACodeState) table"
  cooling :: "(int, int) table"
  auth_states :: "(string, authSessionState) table"

definition GetTwoFACodeState :: "string \<Rightarrow> (('r, 'z) wenv_scheme, 'e, TwoFACodeState option) io" where
  "GetTwoFACodeState state = gets (\<lambda>s. map_of (twofa s) state)"

definition SetTwoFACodeState :: "string \<Rightarrow> int \<Rightarrow> int \<Rightarrow> (('r, 'z) wenv_scheme, 'e, unit) io" where
  "SetTwoFACodeState state uid expire = modify (\<lambda>s.
     s\<lparr>twofa := AList.update state \<lparr>code_uid = uid, code_expire = expire\<rparr> (twofa s)\<rparr>)"

definition DeleteTwoFACodeState :: "string \<Rightarrow> (('r, 'z) wenv_scheme, 'e, unit) io" where
  "DeleteTwoFACodeState state = modify (\<lambda>s. s\<lparr>twofa := AList.delete state (twofa s)\<rparr>)"

definition DeleteTwoFACodeByUID :: "int \<Rightarrow> (('r, 'z) wenv_scheme, 'e, unit) io" where
  "DeleteTwoFACodeByUID uid = modify (\<lambda>s. s\<lparr>twofa := delete_where (\<lambda>_ v. code_uid v = uid) (twofa s)\<rparr>)"

text \<open>One tick of the clean-up goroutine, at \<open>now\<close>.\<close>

definition cleanupExpired2FAData :: "int \<Rightarrow> (('r, 'z) wenv_scheme, 'e, unit) io" where
  "cleanupExpired2FAData now = modify (\<lambda>s. s\<lparr>twofa := delete_where (\<lambda>_ v. now > code_expire v) (twofa s)\<rparr>)"

definition GetCooling :: "int \<Rightarrow> (('r, 'z) wenv_scheme, 'e, int option) io" where
  "GetCooling uid = gets (\<lambda>s. map_of (cooling s) uid)"

definition SetCooling :: "int \<Rightarrow> int \<Rightarrow> (('r, 'z) wenv_scheme, 'e, unit) io" where
  "SetCooling uid expire = modify (\<lambda>s. s\<lparr>cooling := AList.update uid expire (cooling s)\<rparr>)"

definition cleanupExpiredCoolingLock :: "int \<Rightarrow> (('r, 'z) wenv_scheme, 'e, unit) io" where
  "cleanupExpiredCoolingLock now = modify (\<lambda>s. s\<lparr>cooling := delete_where (\<lambda>_ e. now > e) (cooling s)\<rparr>)"

text \<open>The states of pending OAuth logins.\<close>

definition stateTTL :: duration where "stateTTL = 10 * minute"

definition GetAuthSessionState :: "string \<Rightarrow> (('r, 'z) wenv_scheme, 'e, go_time option) io" where
  "GetAuthSessionState state = gets (\<lambda>s. map_option createdAt (map_of (auth_states s) state))"

definition SetAuthSessionState :: "string \<Rightarrow> int \<Rightarrow> int \<Rightarrow> (('r, 'z) wenv_scheme, err, unit) io" where
  "SetAuthSessionState state provider revision = bindE time_now (\<lambda>now. modify (\<lambda>s.
     s\<lparr>auth_states := AList.update state
        \<lparr>createdAt = now, providerID = provider, configRevision = revision\<rparr> (auth_states s)\<rparr>))"

definition ConsumeAuthSessionState ::
  "string \<Rightarrow> int \<Rightarrow> int \<Rightarrow> go_time \<Rightarrow> (('r, 'z) wenv_scheme, 'e, bool) io" where
  "ConsumeAuthSessionState state provider revision now =
     bindE (gets (\<lambda>s. map_of (auth_states s) state)) (\<lambda>entry.
     case entry of
       None \<Rightarrow> ret False
     | Some e \<Rightarrow>
         bindE (modify (\<lambda>s. s\<lparr>auth_states := AList.delete state (auth_states s)\<rparr>)) (\<lambda>_.
         ret (providerID e = provider \<and> configRevision e = revision \<and>
              time_sub now (createdAt e) \<le> stateTTL)))"

definition DeleteAuthSessionState :: "string \<Rightarrow> (('r, 'z) wenv_scheme, 'e, unit) io" where
  "DeleteAuthSessionState state = modify (\<lambda>s. s\<lparr>auth_states := AList.delete state (auth_states s)\<rparr>)"

definition RevokeAuthSessionStates :: "int \<Rightarrow> int \<Rightarrow> (('r, 'z) wenv_scheme, 'e, unit) io" where
  "RevokeAuthSessionStates provider throughRevision = modify (\<lambda>s.
     s\<lparr>auth_states := delete_where
        (\<lambda>_ e. providerID e = provider \<and> configRevision e \<le> throughRevision) (auth_states s)\<rparr>)"

definition cleanupExpiredData :: "go_time \<Rightarrow> (('r, 'z) wenv_scheme, 'e, unit) io" where
  "cleanupExpiredData now = modify (\<lambda>s.
     s\<lparr>auth_states := delete_where (\<lambda>_ e. time_sub now (createdAt e) > stateTTL) (auth_states s)\<rparr>)"

section \<open>Saving a session\<close>

text \<open>
  The store of the framework, three ways \<open>sess.Save\<close> ends: a session without an id gets one, a
  session with an id is written under it, and one with a negative age is dropped.
\<close>

record 'r session_backend =
  b_new :: "'r save_fn"
  b_put :: "string \<Rightarrow> session_values \<Rightarrow> 'r \<Rightarrow> 'r"
  b_drop :: "string \<Rightarrow> 'r \<Rightarrow> 'r"

definition store_write :: "('r \<Rightarrow> 'r) \<Rightarrow> (('r, 'z) renv_scheme, err, unit) io" where
  "store_write f = tryE (redis_write f) (\<lambda>r. case r of Inl _ \<Rightarrow> raise ErrSession | Inr _ \<Rightarrow> ret ())"

definition save_session :: "'r session_backend \<Rightarrow> session \<Rightarrow> (('r, 'z) renv_scheme, err, session) io" where
  "save_session B sess =
     (if sess_id sess = ''''
      then bindE (sess_save (b_new B) (sess_values sess)) (\<lambda>newID. ret (sess\<lparr>sess_id := newID\<rparr>))
      else bindE (store_write (b_put B (sess_id sess) (sess_values sess))) (\<lambda>_. ret sess))"

definition set_value :: "string \<Rightarrow> sval \<Rightarrow> session \<Rightarrow> session" where
  "set_value k v sess = sess\<lparr>sess_values := AList.update k v (sess_values sess)\<rparr>"

section \<open>Middlewares\<close>

text \<open>The settings the request path reads from \<open>config.ReadDynamicConf()\<close>.\<close>

record dynamic_conf =
  Init :: bool
  SessionBindIP :: bool
  EmailVerifyLogin :: bool
  RegistrationEnabled :: bool
  RegistrationVerifyEmail :: bool
  SiteToken :: string
  CaptchaSecret :: string
  CaptchaSiteKey :: string

text \<open>A request: its session as the store decodes it, user agent and address.\<close>

record request =
  rq_session :: "err + session"
  rq_user_agent :: string
  rq_ip :: string

text \<open>What the middlewares leave in the context.\<close>

record echo_context =
  c_uid :: "sval option"
  c_tid :: "sval option"
  c_sid :: string
  c_role :: "int option"
  c_session :: session

definition SessionBindingOK :: "dynamic_conf \<Rightarrow> request \<Rightarrow> session \<Rightarrow> bool" where
  "SessionBindingOK dc rq sess =
     (if map_of (sess_values sess) ''user_agent'' \<noteq> Some (VStr (rq_user_agent rq)) then False
      else if \<not> SessionBindIP dc then True
      else case as_string (map_of (sess_values sess) ''client_ip'') of
        None \<Rightarrow> True
      | Some storedIP \<Rightarrow> if storedIP = '''' then True else storedIP = rq_ip rq)"

text \<open>
  \<open>uid == nil || uid == 0\<close> on an interface value: the untyped constant is an \<open>int\<close>, so a stored
  \<open>int64\<close> zero is not equal to it.
\<close>

definition nil_or_int_zero :: "sval option \<Rightarrow> bool" where
  "nil_or_int_zero v \<longleftrightarrow> v = None \<or> v = Some (VInt 0)"

text \<open>A failed type assertion \<open>uid.(int64)\<close> panics; the framework answers 500.\<close>

definition must_int64 :: "sval option \<Rightarrow> (('r, 'z) renv_scheme, int) handler" where
  "must_int64 v = (case as_int64 v of None \<Rightarrow> raise (500, ''panic'') | Some i \<Rightarrow> ret i)"

definition int64_or_zero :: "sval option \<Rightarrow> int" where
  "int64_or_zero v = (case as_int64 v of None \<Rightarrow> 0 | Some i \<Rightarrow> i)"

definition UserAuth ::
  "'r session_backend \<Rightarrow> dynamic_conf \<Rightarrow> request \<Rightarrow> (('r, 'z) renv_scheme, echo_context) handler" where
  "UserAuth B dc rq =
     (if \<not> Init dc then raise (200, ''init_required'')
      else case rq_session rq of
        Inl _ \<Rightarrow> raise error500
      | Inr sess \<Rightarrow>
        let uid = map_of (sess_values sess) ''uid''; tid = map_of (sess_values sess) ''tid'' in
        if map_of (sess_values sess) ''pre_2fa_uid'' \<noteq> None then raise error500
        else if nil_or_int_zero uid then raise (401, ''login'')
        else if \<not> SessionBindingOK dc rq sess then raise (400, ''login'')
        else if nil_or_int_zero tid then
          bindE (must_int64 uid) (\<lambda>u.
          bindE (orElse (GetUserActiveTeam u) error500) (\<lambda>activeTid.
          bindE (orElse (save_session B (set_value ''tid'' (VInt64 activeTid) sess)) error500) (\<lambda>sess'.
          ret \<lparr>c_uid = uid, c_tid = Some (VInt64 activeTid), c_sid = sess_id sess', c_role = None,
               c_session = sess'\<rparr>)))
        else ret \<lparr>c_uid = uid, c_tid = tid, c_sid = sess_id sess, c_role = None, c_session = sess\<rparr>)"

definition AdminAuth :: "dynamic_conf \<Rightarrow> request \<Rightarrow> (('r, 'z) renv_scheme, int) handler" where
  "AdminAuth dc rq =
     (if \<not> Init dc then raise (200, ''init_required'')
      else case rq_session rq of
        Inl _ \<Rightarrow> raise error500
      | Inr sess \<Rightarrow>
        let uid = map_of (sess_values sess) ''uid'' in
        if map_of (sess_values sess) ''pre_2fa_uid'' \<noteq> None then raise (200, ''2fa_required'')
        else if nil_or_int_zero uid then raise (400, ''login'')
        else if \<not> SessionBindingOK dc rq sess then raise (400, ''login'')
        else
          bindE (must_int64 uid) (\<lambda>u.
          bindE (orElse (GetUserById u) (400, ''login'')) (\<lambda>userInfo.
          if u = 0 then raise (400, ''login'')
          else if \<not> is_admin userInfo then raise (400, ''no_admin'')
          else ret u)))"

definition InitAuth :: "dynamic_conf \<Rightarrow> (('r, 'z) renv_scheme, unit) handler" where
  "InitAuth dc = (if Init dc then raise (409, ''already_initialized'') else ret ())"

definition clearRevokedTeamContext ::
  "'r session_backend \<Rightarrow> session \<Rightarrow> int \<Rightarrow> int \<Rightarrow> (('r, 'z) renv_scheme, err, session) io" where
  "clearRevokedTeamContext B sess uid tid =
     bindE (if tid > 0 then ClearUserActiveTeam uid tid else ret ()) (\<lambda>_.
     save_session B (set_value ''tid'' (VInt64 0) sess))"

definition TeamAccess ::
  "'r session_backend \<Rightarrow> echo_context \<Rightarrow> (('r, 'z) renv_scheme, echo_context) handler" where
  "TeamAccess B c =
     (let uid = int64_or_zero (c_uid c); tid = int64_or_zero (c_tid c) in
      if tid = 0 then raise (409, ''team_required'')
      else tryE (GetTeamRole uid tid) (\<lambda>res.
        case res of
          Inl e \<Rightarrow>
            if e = ErrNoRows then
              bindE (orElse (clearRevokedTeamContext B (c_session c) uid tid) error500) (\<lambda>_.
              raise (403, ''team_access_revoked''))
            else raise error500
        | Inr role \<Rightarrow> ret (c\<lparr>c_role := Some role\<rparr>)))"

definition WriteAuth :: "echo_context \<Rightarrow> (('r, 'z) renv_scheme, echo_context) handler" where
  "WriteAuth c = (if c_role c \<noteq> Some 0 then raise (403, ''forbidden'') else ret c)"

definition TerminalAuth :: "echo_context \<Rightarrow> (('r, 'z) renv_scheme, echo_context) handler" where
  "TerminalAuth c =
     (if c_role c \<noteq> Some 0 \<and> c_role c \<noteq> Some 1 then raise (403, ''forbidden'') else ret c)"

text \<open>
  \<open>httporigin.SameOriginHeader\<close>; \<open>url_host\<close> is \<open>url.Parse\<close> followed by \<open>.Host\<close>, \<open>None\<close> an error.
\<close>

definition SameOriginHeader :: "(string \<Rightarrow> string option) \<Rightarrow> string \<Rightarrow> string \<Rightarrow> bool" where
  "SameOriginHeader url_host host header =
     (let v = trim_space header in
      if v = '''' then True
      else case url_host v of None \<Rightarrow> False | Some h \<Rightarrow> if h = '''' then False else equal_fold h host)"

definition SameOriginWrite ::
  "(string \<Rightarrow> string option) \<Rightarrow> string \<Rightarrow> string \<Rightarrow> string \<Rightarrow> string \<Rightarrow> (('r, 'z) renv_scheme, unit) handler" where
  "SameOriginWrite url_host method host origin referer =
     (if method \<in> {''GET'', ''HEAD'', ''OPTIONS''} then ret ()
      else if \<not> SameOriginHeader url_host host origin then raise (403, ''forbidden'')
      else if origin = '''' \<and> referer \<noteq> '''' \<and> \<not> SameOriginHeader url_host host referer
      then raise (403, ''forbidden'')
      else ret ())"

text \<open>
  The second factor before sensitive changes; \<open>no_mail\<close> says that no mail provider is set up,
  \<open>totp_ok\<close> is the TOTP validation at the current time.
\<close>

definition TwoFA ::
  "bool \<Rightarrow> (go_time \<Rightarrow> string \<Rightarrow> string \<Rightarrow> bool) \<Rightarrow> string \<Rightarrow> int \<Rightarrow> (('r, 'z) wenv_scheme, unit) handler" where
  "TwoFA no_mail totp_ok code uid =
     bindE (orElse (GetUserAuthById uid) error500) (\<lambda>(_, user).
     let secret = (case totp user of None \<Rightarrow> '''' | Some x \<Rightarrow> x) in
     if secret = '''' then
       (if no_mail then ret ()
        else if code = '''' then raise (401, ''verify'')
        else bindE (GetTwoFACodeState code) (\<lambda>data.
          if (case data of None \<Rightarrow> True | Some d \<Rightarrow> code_uid d \<noteq> uid)
          then bindE (DeleteTwoFACodeByUID uid) (\<lambda>_. raise (400, ''error''))
          else ret ()))
     else if code = '''' then raise (401, ''verify'')
     else bindE (orElse time_now error500) (\<lambda>now.
       if \<not> totp_ok now code secret then raise (400, ''error'') else ret ()))"

section \<open>What the middlewares guarantee\<close>

lemma store_write_tabs [simp]: "tabs (snd (store_write f s)) = tabs s"
  by (auto simp: store_write_def tryE_run redis_write_def next_call_def ret_def raise_def
      split: sum.splits outcome.splits)

lemma sess_save_tabs [simp]: "tabs (snd (sess_save save vals s)) = tabs s"
  by (auto simp: sess_save_def next_call_def split: prod.splits outcome.splits)

lemma save_session_tabs [simp]: "tabs (snd (save_session B sess s)) = tabs s"
  by (auto simp: save_session_def bindE_snd ret_def split: sum.splits)

lemma save_session_run: "save_session B sess s = (r, t) \<Longrightarrow> tabs t = tabs s"
  by (metis save_session_tabs snd_conv)

lemma GetUserActiveTeam_tabs: "GetUserActiveTeam u s = (r, t) \<Longrightarrow> tabs t = tabs s"
  by (auto simp: GetUserActiveTeam_def tryE_run ret_def raise_def split: sum.splits if_splits)

lemma save_session_Inr_values: "save_session B sess s = (Inr sess', t) \<Longrightarrow> sess_values sess' = sess_values sess"
  by (auto simp: save_session_def bindE_Inr_iff ret_def split: if_splits)

definition session_admitted :: "dynamic_conf \<Rightarrow> request \<Rightarrow> session \<Rightarrow> bool" where
  "session_admitted dc rq sess \<longleftrightarrow>
     Init dc \<and> rq_session rq = Inr sess \<and> map_of (sess_values sess) ''pre_2fa_uid'' = None \<and>
     \<not> nil_or_int_zero (map_of (sess_values sess) ''uid'') \<and> SessionBindingOK dc rq sess"

lemma UserAuth_Inr:
  assumes "UserAuth B dc rq s = (Inr c, t)"
  shows "\<exists>sess. session_admitted dc rq sess \<and> c_uid c = map_of (sess_values sess) ''uid'' \<and> tabs t = tabs s \<and>
    c_role c = None \<and>
    (c_tid c = map_of (sess_values sess) ''tid'' \<or>
     (\<exists>u. c_uid c = Some (VInt64 u) \<and> c_tid c = Some (VInt64 (active_team (tabs s) u))))"
proof -
  from assms obtain sess where adm: "session_admitted dc rq sess"
    by (auto simp: UserAuth_def session_admitted_def raise_def Let_def split: if_splits sum.splits)
  then have run: "(if nil_or_int_zero (map_of (sess_values sess) ''tid'') then
          bindE (must_int64 (map_of (sess_values sess) ''uid'')) (\<lambda>u.
          bindE (orElse (GetUserActiveTeam u) error500) (\<lambda>activeTid.
          bindE (orElse (save_session B (set_value ''tid'' (VInt64 activeTid) sess)) error500) (\<lambda>sess'.
          ret \<lparr>c_uid = map_of (sess_values sess) ''uid'', c_tid = Some (VInt64 activeTid),
               c_sid = sess_id sess', c_role = None, c_session = sess'\<rparr>)))
        else ret \<lparr>c_uid = map_of (sess_values sess) ''uid'', c_tid = map_of (sess_values sess) ''tid'',
               c_sid = sess_id sess, c_role = None, c_session = sess\<rparr>) s = (Inr c, t)"
    using assms by (simp add: UserAuth_def session_admitted_def Let_def)
  show ?thesis
  proof (cases "nil_or_int_zero (map_of (sess_values sess) ''tid'')")
    case False
    with run adm show ?thesis by (auto simp: ret_def)
  next
    case True
    with run obtain u tid s1 s2 where "as_int64 (map_of (sess_values sess) ''uid'') = Some u"
      and act: "GetUserActiveTeam u s = (Inr tid, s1)"
      and sv: "save_session B (set_value ''tid'' (VInt64 tid) sess) s1 = (Inr s2, t)"
      and c: "c_uid c = map_of (sess_values sess) ''uid''" "c_tid c = Some (VInt64 tid)" "c_role c = None"
      by (auto simp: handler_Inr_iffs must_int64_def raise_def ret_def split: option.splits)
    then have "map_of (sess_values sess) ''uid'' = Some (VInt64 u)"
      by (auto simp: as_int64_def split: option.splits sval.splits)
    with adm c GetUserActiveTeam_Inr [OF act] GetUserActiveTeam_tabs [OF act] save_session_run [OF sv]
    show ?thesis by auto
  qed
qed

lemma TeamAccess_Inr:
  assumes "TeamAccess B c s = (Inr c', t)"
  shows "tabs t = tabs s \<and> (\<exists>role. c' = c\<lparr>c_role := Some role\<rparr> \<and>
    role_of (tabs s) (int64_or_zero (c_tid c)) (int64_or_zero (c_uid c)) = Some role)"
  using assms
  by (auto simp: TeamAccess_def Let_def tryE_case_iff raise_def ret_def bindE_Inr_iff GetTeamRole_def
      query_row_Inr_iff split: if_splits)

text \<open>The method, the host and the two headers of a request that tell where it comes from.\<close>

record origin_headers =
  rh_method :: string
  rh_host :: string
  rh_origin :: string
  rh_referer :: string

text \<open>
  The chain of the middlewares: the group of \<open>/api/v1\<close>, the groups of the pages of a team, and the
  routes of those groups that write or open a terminal.
\<close>

definition v1_group ::
  "(string \<Rightarrow> string option) \<Rightarrow> origin_headers \<Rightarrow> 'r session_backend \<Rightarrow> dynamic_conf \<Rightarrow> request \<Rightarrow>
   (('r, 'z) renv_scheme, echo_context) handler" where
  "v1_group url_host oh B dc rq =
     bindE (SameOriginWrite url_host (rh_method oh) (rh_host oh) (rh_origin oh) (rh_referer oh)) (\<lambda>_. UserAuth B dc rq)"

definition team_group ::
  "(string \<Rightarrow> string option) \<Rightarrow> origin_headers \<Rightarrow> 'r session_backend \<Rightarrow> dynamic_conf \<Rightarrow> request \<Rightarrow>
   (('r, 'z) renv_scheme, echo_context) handler" where
  "team_group url_host oh B dc rq = bindE (v1_group url_host oh B dc rq) (TeamAccess B)"

definition write_route ::
  "(string \<Rightarrow> string option) \<Rightarrow> origin_headers \<Rightarrow> 'r session_backend \<Rightarrow> dynamic_conf \<Rightarrow> request \<Rightarrow>
   (('r, 'z) renv_scheme, echo_context) handler" where
  "write_route url_host oh B dc rq = bindE (team_group url_host oh B dc rq) WriteAuth"

definition terminal_route ::
  "(string \<Rightarrow> string option) \<Rightarrow> origin_headers \<Rightarrow> 'r session_backend \<Rightarrow> dynamic_conf \<Rightarrow> request \<Rightarrow>
   (('r, 'z) renv_scheme, echo_context) handler" where
  "terminal_route url_host oh B dc rq = bindE (team_group url_host oh B dc rq) TerminalAuth"

lemma WriteAuth_Inr: "WriteAuth c s = (Inr c', t) \<longleftrightarrow> c' = c \<and> t = s \<and> c_role c = Some 0"
  by (auto simp: WriteAuth_def raise_def ret_def)

lemma TerminalAuth_Inr:
  "TerminalAuth c s = (Inr c', t) \<longleftrightarrow> c' = c \<and> t = s \<and> (c_role c = Some 0 \<or> c_role c = Some 1)"
  by (auto simp: TerminalAuth_def raise_def ret_def)

section \<open>Properties\<close>

definition mem_backend :: "mem session_backend" where
  "mem_backend = \<lparr>b_new = mem_save,
     b_put = (\<lambda>sid vals. cmd_set mem_redis (session_key sid) (mem_enc vals)),
     b_drop = (\<lambda>sid. cmd_del mem_redis (session_key sid))\<rparr>"

definition sample_conf :: dynamic_conf where
  "sample_conf = \<lparr>Init = True, SessionBindIP = True, EmailVerifyLogin = False, RegistrationEnabled = True,
     RegistrationVerifyEmail = False, SiteToken = ''token'', CaptchaSecret = '''', CaptchaSiteKey = ''''\<rparr>"

definition sample_request :: "int \<Rightarrow> int \<Rightarrow> request" where
  "sample_request uid tid = \<lparr>rq_session = Inr \<lparr>sess_id = ''a'',
     sess_values = auth_values [] uid tid ''ua'' ''ip'' 0\<rparr>, rq_user_agent = ''ua'', rq_ip = ''ip''\<rparr>"

lemma SameOriginWrite_Inr:
  "SameOriginWrite url_host method host origin referer s = (Inr x, t) \<longleftrightarrow> t = s \<and>
     (method \<in> {''GET'', ''HEAD'', ''OPTIONS''} \<or>
      SameOriginHeader url_host host origin \<and> (origin = [] \<and> referer \<noteq> [] \<longrightarrow> SameOriginHeader url_host host referer))"
  by (auto simp: SameOriginWrite_def raise_def ret_def)

lemma SameOriginHeader_iff:
  "SameOriginHeader url_host host v \<longleftrightarrow> trim_space v = [] \<or> (\<exists>h. url_host (trim_space v) = Some h \<and> h \<noteq> [] \<and> equal_fold h host)"
  by (auto simp: SameOriginHeader_def Let_def split: option.splits)

lemma SessionBindingOK_iff:
  "SessionBindingOK dc rq sess \<longleftrightarrow> map_of (sess_values sess) ''user_agent'' = Some (VStr (rq_user_agent rq)) \<and>
     (SessionBindIP dc \<longrightarrow> (\<forall>ip. map_of (sess_values sess) ''client_ip'' = Some (VStr ip) \<longrightarrow> ip = [] \<or> ip = rq_ip rq))"
  by (auto simp: SessionBindingOK_def as_string_def split: option.splits sval.splits)

text \<open>
  (C34) A handler behind the middlewares of a team route that writes runs only for a request that either
  uses a method that does not write or whose \<open>Origin\<close> header, or without one whose \<open>Referer\<close>, is absent, blank or names the host of
  the request; whose session has a user, no pending second factor, and the user agent of the request (and,
  when binding is on and the session holds an address, the address of the request); and only when, at that moment, that user has the
  administrator role in the team of the context. A terminal route requires role 0 or 1. The
  middlewares change no table on the way.
\<close>

theorem team_route_authorised:
  assumes "write_route url_host oh B dc rq s = (Inr c, t) \<or> terminal_route url_host oh B dc rq s = (Inr c, t)"
  shows "tabs t = tabs s \<and>
    (rh_method oh \<in> {''GET'', ''HEAD'', ''OPTIONS''} \<or>
     (let names_host = (\<lambda>v. trim_space v = [] \<or> (\<exists>h. url_host (trim_space v) = Some h \<and> h \<noteq> [] \<and> equal_fold h (rh_host oh))) in
      names_host (rh_origin oh) \<and> (rh_origin oh = [] \<longrightarrow> names_host (rh_referer oh)))) \<and>
    (\<exists>sess. rq_session rq = Inr sess \<and> Init dc \<and> map_of (sess_values sess) ''pre_2fa_uid'' = None \<and>
      map_of (sess_values sess) ''uid'' \<notin> {None, Some (VInt 0)} \<and>
      map_of (sess_values sess) ''user_agent'' = Some (VStr (rq_user_agent rq)) \<and>
      (SessionBindIP dc \<longrightarrow> (\<forall>ip. map_of (sess_values sess) ''client_ip'' = Some (VStr ip) \<longrightarrow> ip = [] \<or> ip = rq_ip rq)) \<and>
      c_uid c = map_of (sess_values sess) ''uid'' \<and>
      (c_tid c = map_of (sess_values sess) ''tid'' \<or>
       (\<exists>u. c_uid c = Some (VInt64 u) \<and> c_tid c = Some (VInt64 (active_team (tabs s) u))))) \<and>
    (\<exists>role. role_of (tabs s) (int64_or_zero (c_tid c)) (int64_or_zero (c_uid c)) = Some role \<and>
      (write_route url_host oh B dc rq s = (Inr c, t) \<longrightarrow> role = 0) \<and> (role = 0 \<or> role = 1))"
proof -
  from assms obtain x c1 s1 c2 where same: "SameOriginWrite url_host (rh_method oh) (rh_host oh) (rh_origin oh) (rh_referer oh) s = (Inr x, s)"
    and u: "UserAuth B dc rq s = (Inr c1, s1)"
    and a: "TeamAccess B c1 s1 = (Inr c2, t)" and c: "c = c2"
    and r: "c_role c = Some 0 \<or> c_role c = Some 1" "write_route url_host oh B dc rq s = (Inr c, t) \<longrightarrow> c_role c = Some 0"
    unfolding write_route_def terminal_route_def team_group_def v1_group_def
    by (auto simp: bindE_Inr_iff WriteAuth_Inr TerminalAuth_Inr SameOriginWrite_Inr)
  have blank: "trim_space [] = []" by (simp add: trim_space_def)
  from same have origin: "rh_method oh \<in> {''GET'', ''HEAD'', ''OPTIONS''} \<or>
      SameOriginHeader url_host (rh_host oh) (rh_origin oh) \<and> (rh_origin oh = [] \<longrightarrow> SameOriginHeader url_host (rh_host oh) (rh_referer oh))"
    by (cases "rh_referer oh = []") (auto simp: SameOriginWrite_Inr SameOriginHeader_iff blank)
  from UserAuth_Inr [OF u] obtain sess where sess: "session_admitted dc rq sess" "c_uid c1 = map_of (sess_values sess) ''uid''" "tabs s1 = tabs s"
    "c_tid c1 = map_of (sess_values sess) ''tid'' \<or> (\<exists>u. c_uid c1 = Some (VInt64 u) \<and> c_tid c1 = Some (VInt64 (active_team (tabs s) u)))"
    by blast
  from TeamAccess_Inr [OF a] obtain role where a': "tabs t = tabs s1" "c2 = c1\<lparr>c_role := Some role\<rparr>"
    "role_of (tabs s1) (int64_or_zero (c_tid c1)) (int64_or_zero (c_uid c1)) = Some role" by blast
  show ?thesis unfolding Let_def SameOriginHeader_iff [symmetric]
    using origin sess a' c r by (auto simp: session_admitted_def SessionBindingOK_iff nil_or_int_zero_def)
qed

definition sample_headers :: origin_headers where
  "sample_headers = \<lparr>rh_method = ''PUT'', rh_host = ''hub.io'', rh_origin = ''https://hub.io'', rh_referer = []\<rparr>"

theorem team_route_authorised_witness:
  "\<exists>c. fst (write_route (\<lambda>v. Some (drop 8 v)) sample_headers mem_backend sample_conf (sample_request 1 7) sample_sessions) = Inr c \<and>
     role_of (tabs sample_sessions) (int64_or_zero (c_tid c)) (int64_or_zero (c_uid c)) = Some 0"
proof -
  let ?run = "write_route (\<lambda>v. Some (drop 8 v)) sample_headers mem_backend sample_conf (sample_request 1 7) sample_sessions"
  have "\<not> isl (fst ?run)" by code_simp
  then obtain c where c: "fst ?run = Inr c" by (metis sum.collapse(2))
  then have "?run = (Inr c, snd ?run)" by (metis prod.collapse)
  with team_route_authorised [OF disjI1, OF this] c show ?thesis by auto
qed

text \<open>
  The state of an OAuth login can be used once: a successful use finds it stored for the
  same provider and configuration revision and at most ten minutes old, and every use, good or
  bad, removes it, so that no later use of the same state succeeds until it is issued again.
\<close>

theorem ConsumeAuthSessionState_once:
  assumes "ConsumeAuthSessionState state provider revision now s = (Inr ok, t)"
  shows "(ok \<longleftrightarrow> (\<exists>e. map_of (auth_states s) state = Some e \<and> providerID e = provider \<and>
      configRevision e = revision \<and> now - createdAt e \<le> 10 * minute)) \<and>
    map_of (auth_states t) = (map_of (auth_states s))(state := None) \<and>
    fst (ConsumeAuthSessionState state provider' revision' now' t) = (Inr False :: err + bool)"
proof (cases "map_of (auth_states s) state")
  case None
  with assms have "ok = False" "t = s"
    by (auto simp: ConsumeAuthSessionState_def bindE_run gets_def ret_def)
  with None show ?thesis
    by (auto simp: ConsumeAuthSessionState_def bindE_run gets_def ret_def fun_upd_idem)
next
  case (Some e)
  have ttl: "time_sub now (createdAt e) \<le> stateTTL \<longleftrightarrow> now - createdAt e \<le> 10 * minute"
    unfolding stateTTL_def by (rule time_sub_le_iff) (simp_all add: min_int64_def max_int64_def)
  from assms Some have "ok \<longleftrightarrow> providerID e = provider \<and> configRevision e = revision \<and> time_sub now (createdAt e) \<le> stateTTL"
    and t: "auth_states t = AList.delete state (auth_states s)"
    by (auto simp: ConsumeAuthSessionState_def bindE_run gets_def ret_def modify_def)
  with Some ttl show ?thesis
    by (simp add: ConsumeAuthSessionState_def bindE_run gets_def ret_def t)
qed

definition sample_wenv :: "mem wenv" where
  "sample_wenv = \<lparr>calls = 0, outcomes = (\<lambda>_. Done), reads = 0, clock = (\<lambda>n. int n * second),
     team_seq = 8, tabs = sample_tables, rstate = rstate sample_sessions, twofa = [], cooling = [],
     auth_states = [(''st'', \<lparr>createdAt = 0, providerID = 3, configRevision = 1\<rparr>)]\<rparr>"

theorem ConsumeAuthSessionState_once_witness:
  "fst (ConsumeAuthSessionState ''st'' 3 1 second sample_wenv) = (Inr True :: err + bool) \<and>
   fst (ConsumeAuthSessionState ''st'' 3 1 second
     (snd (ConsumeAuthSessionState ''st'' 3 1 second sample_wenv :: (err + bool) \<times> mem wenv))) = (Inr False :: err + bool)"
proof -
  let ?run = "ConsumeAuthSessionState ''st'' 3 1 second sample_wenv :: (err + bool) \<times> mem wenv"
  have ok: "fst ?run = Inr True" by code_simp
  then have "?run = (Inr True, snd ?run)" by (simp add: prod_eq_iff)
  from ConsumeAuthSessionState_once [OF this, of 3 1 second] ok show ?thesis by blast
qed

end
