(* ===== verification/Password.thy ===== *)
theory Password
  imports Go_Strings
begin

text \<open>
  Password hashes: \<open>internal/security/passwordhash/password.go\<close>. The key derivation function
  \<open>idkey\<close> (Argon2id), the digest \<open>sha\<close> (SHA-256) and the random salt come from outside the
  repository and are arguments. The contract: what \<open>Hash\<close> prints, \<open>Verify\<close> parses back and
  accepts for the same password, and no stored hash makes the derivation run with parameters
  above the limits.
\<close>

definition argon2Prefix :: string where "argon2Prefix = ''$argon2id$''"
definition argon2Version :: nat where "argon2Version = 19"
definition argon2MemoryKiB :: nat where "argon2MemoryKiB = 64 * 1024"
definition argon2Iterations :: nat where "argon2Iterations = 3"
definition argon2Parallel :: nat where "argon2Parallel = 2"
definition argon2SaltLen :: nat where "argon2SaltLen = 16"
definition argon2KeyLen :: nat where "argon2KeyLen = 32"
definition legacyHexLen :: nat where "legacyHexLen = 64"
definition maxArgon2MemoryKiB :: nat where "maxArgon2MemoryKiB = 256 * 1024"
definition maxArgon2Iterations :: nat where "maxArgon2Iterations = 10"
definition maxArgon2Parallel :: nat where "maxArgon2Parallel = 8"
definition maxArgon2SaltLen :: nat where "maxArgon2SaltLen = 64"
definition maxArgon2HashLen :: nat where "maxArgon2HashLen = 64"

lemmas argon2_consts = argon2Prefix_def argon2Version_def argon2MemoryKiB_def argon2Iterations_def
  argon2Parallel_def argon2SaltLen_def argon2KeyLen_def legacyHexLen_def maxArgon2MemoryKiB_def
  maxArgon2Iterations_def maxArgon2Parallel_def maxArgon2SaltLen_def maxArgon2HashLen_def

record phcParams =
  memory :: nat
  iterations :: nat
  parallelism :: nat

text \<open>\<open>argon2.IDKey(password, salt, time, memory, threads, keyLen)\<close>.\<close>

type_synonym idkey = "string \<Rightarrow> string \<Rightarrow> nat \<Rightarrow> nat \<Rightarrow> nat \<Rightarrow> nat \<Rightarrow> string"

definition encodePHC :: "string \<Rightarrow> string \<Rightarrow> string" where
  "encodePHC salt hash =
     ''$argon2id$v='' @ dec argon2Version @ ''$m='' @ dec argon2MemoryKiB @ '',t='' @ dec argon2Iterations
     @ '',p='' @ dec argon2Parallel @ ''$'' @ b64_encode salt @ ''$'' @ b64_encode hash"

text \<open>\<open>rand\<close> is the result of reading the random salt, \<open>None\<close> an error.\<close>

definition Hash :: "idkey \<Rightarrow> string option \<Rightarrow> string \<Rightarrow> string option" where
  "Hash idkey rand pw = map_option (\<lambda>salt.
     encodePHC salt (idkey pw salt argon2Iterations argon2MemoryKiB argon2Parallel argon2KeyLen)) rand"

definition set_param :: "string \<Rightarrow> phcParams \<Rightarrow> phcParams option" where
  "set_param kv p =
     (case split2 CHR ''='' kv of
        [k, v] \<Rightarrow>
          (if k = ''m'' then map_option (\<lambda>n. p\<lparr>memory := n\<rparr>) (parse_uint 32 v)
           else if k = ''t'' then map_option (\<lambda>n. p\<lparr>iterations := n\<rparr>) (parse_uint 32 v)
           else if k = ''p'' then map_option (\<lambda>n. p\<lparr>parallelism := n\<rparr>) (parse_uint 8 v)
           else None)
      | _ \<Rightarrow> None)"

fun param_loop :: "string list \<Rightarrow> phcParams \<Rightarrow> phcParams option" where
  "param_loop [] p = Some p"
| "param_loop (kv # kvs) p = Option.bind (set_param kv p) (param_loop kvs)"

definition parseParams :: "string \<Rightarrow> phcParams option" where
  "parseParams segment =
     Option.bind (param_loop (split_on CHR '','' segment) \<lparr>memory = 0, iterations = 0, parallelism = 0\<rparr>) (\<lambda>p.
     if memory p = 0 \<or> iterations p = 0 \<or> parallelism p = 0 then None else Some p)"

definition validateArgon2Params :: "phcParams \<Rightarrow> bool" where
  "validateArgon2Params p \<longleftrightarrow>
     \<not> memory p > maxArgon2MemoryKiB \<and> \<not> iterations p > maxArgon2Iterations \<and>
     \<not> parallelism p > maxArgon2Parallel"

definition checked_b64 :: "nat \<Rightarrow> string \<Rightarrow> string option" where
  "checked_b64 limit s =
     Option.bind (b64_decode s) (\<lambda>b. if b = [] \<or> length b > limit then None else Some b)"

definition parsePHC :: "string \<Rightarrow> (string \<times> phcParams \<times> string) option" where
  "parsePHC storedHash =
     (if \<not> has_prefix argon2Prefix storedHash then None
      else case split_on CHR ''$'' (trim_prefix argon2Prefix storedHash) of
        [v, ps, s, h] \<Rightarrow>
          (if v \<noteq> ''v='' @ dec argon2Version then None
           else Option.bind (parseParams ps) (\<lambda>params.
             if \<not> validateArgon2Params params then None
             else Option.bind (checked_b64 maxArgon2SaltLen s) (\<lambda>salt.
               map_option (\<lambda>hash. (salt, params, hash)) (checked_b64 maxArgon2HashLen h))))
      | _ \<Rightarrow> None)"

text \<open>\<open>Inl ()\<close> is a non-nil error.\<close>

definition verifyArgon2id :: "idkey \<Rightarrow> string \<Rightarrow> string \<Rightarrow> unit + bool" where
  "verifyArgon2id idkey pw storedHash =
     (case parsePHC storedHash of
        None \<Rightarrow> Inl ()
      | Some (salt, params, expected) \<Rightarrow>
          Inr (idkey pw salt (iterations params) (memory params) (parallelism params) (length expected) = expected))"

definition IsArgon2idHash :: "string \<Rightarrow> bool" where
  "IsArgon2idHash storedHash = has_prefix argon2Prefix storedHash"

definition IsLegacySHA256Hash :: "string \<Rightarrow> bool" where
  "IsLegacySHA256Hash storedHash \<longleftrightarrow> length storedHash = legacyHexLen \<and> hex_decode storedHash \<noteq> None"

definition legacySHA256Hex :: "(string \<Rightarrow> string) \<Rightarrow> string \<Rightarrow> string" where
  "legacySHA256Hex sha s = hex_encode (sha s)"

definition Verify ::
  "idkey \<Rightarrow> (string \<Rightarrow> string) \<Rightarrow> string \<Rightarrow> string \<Rightarrow> string \<Rightarrow> string \<Rightarrow> unit + (bool \<times> bool)" where
  "Verify idkey sha pw storedHash legacySalt siteToken =
     (if IsArgon2idHash storedHash then
        (case verifyArgon2id idkey pw storedHash of Inl e \<Rightarrow> Inl e | Inr ok \<Rightarrow> Inr (ok, False))
      else if IsLegacySHA256Hash storedHash then
        (let ok = (legacySHA256Hex sha (pw @ legacySalt @ siteToken) = storedHash) in Inr (ok, ok))
      else Inr (False, False))"

section \<open>Round trip\<close>

lemma dec_no_specials [simp]:
  "CHR ''$'' \<notin> set (dec n)" "CHR '','' \<notin> set (dec n)" "CHR ''='' \<notin> set (dec n)"
  by (rule dec_no_sep, code_simp)+

lemma parseParams_print:
  assumes "0 < m" "m < 2 ^ 32" "0 < t" "t < 2 ^ 32" "0 < p" "p < 2 ^ 8"
  shows "parseParams (''m='' @ dec m @ '',t='' @ dec t @ '',p='' @ dec p) =
    Some \<lparr>memory = m, iterations = t, parallelism = p\<rparr>"
proof -
  have "split_on CHR '','' ((''m='' @ dec m) @ CHR '','' # (''t='' @ dec t) @ CHR '','' # (''p='' @ dec p)) =
      [''m='' @ dec m, ''t='' @ dec t, ''p='' @ dec p]"
    by (subst split_on_append, simp)+ simp
  moreover have "split2 CHR ''='' (k # ''='' @ v) = [[k], v]" if "k \<noteq> CHR ''=''" for k v
    using that split2_append [of "CHR ''=''" "[k]" v] by simp
  ultimately show ?thesis
    using assms by (simp add: parseParams_def set_param_def parse_uint_dec)
qed

lemma checked_b64_encode: "b \<noteq> [] \<Longrightarrow> length b \<le> limit \<Longrightarrow> checked_b64 limit (b64_encode b) = Some b"
  by (simp add: checked_b64_def)

definition default_params :: phcParams where
  "default_params = \<lparr>memory = argon2MemoryKiB, iterations = argon2Iterations, parallelism = argon2Parallel\<rparr>"

lemma parsePHC_encodePHC:
  assumes "salt \<noteq> []" "length salt \<le> maxArgon2SaltLen" "hash \<noteq> []" "length hash \<le> maxArgon2HashLen"
  shows "parsePHC (encodePHC salt hash) = Some (salt, default_params, hash)"
proof -
  let ?ps = "''m='' @ dec argon2MemoryKiB @ '',t='' @ dec argon2Iterations @ '',p='' @ dec argon2Parallel"
  have eq: "encodePHC salt hash = argon2Prefix @ (''v='' @ dec argon2Version) @ CHR ''$'' # ?ps @
      CHR ''$'' # b64_encode salt @ CHR ''$'' # b64_encode hash"
    by (simp add: encodePHC_def argon2Prefix_def)
  have "split_on CHR ''$'' ((''v='' @ dec argon2Version) @ CHR ''$'' # ?ps @
      CHR ''$'' # b64_encode salt @ CHR ''$'' # b64_encode hash) =
      [''v='' @ dec argon2Version, ?ps, b64_encode salt, b64_encode hash]"
    by (subst split_on_append, simp add: b64_encode_no_dollar)+ (simp add: b64_encode_no_dollar)
  moreover have "parseParams ?ps = Some default_params"
    unfolding default_params_def by (rule parseParams_print) (simp_all add: argon2_consts)
  moreover have "validateArgon2Params default_params"
    by (simp add: validateArgon2Params_def default_params_def argon2_consts)
  ultimately show ?thesis
    using assms by (simp add: parsePHC_def eq checked_b64_encode)
qed

lemma IsArgon2idHash_encodePHC: "IsArgon2idHash (encodePHC salt hash)"
  by (simp add: IsArgon2idHash_def encodePHC_def argon2Prefix_def has_prefix_def)

section \<open>Properties\<close>

text \<open>
  A password hashed with any random salt of the right length verifies: \<open>Verify\<close> accepts
  the same password without asking for a new hash, whatever legacy salt and site token it is
  given, and accepts another password exactly when the key derivation gives the same key.
\<close>

theorem Verify_Hash:
  assumes "\<And>pw salt t m p n. length (idkey pw salt t m p n) = n"
    "length salt = argon2SaltLen" "Hash idkey (Some salt) pw = Some stored"
  shows "Verify idkey sha pw stored legacySalt siteToken = Inr (True, False) \<and>
    Verify idkey sha pw' stored legacySalt siteToken =
      Inr (idkey pw' salt argon2Iterations argon2MemoryKiB argon2Parallel argon2KeyLen =
           idkey pw salt argon2Iterations argon2MemoryKiB argon2Parallel argon2KeyLen, False)"
proof -
  let ?key = "idkey pw salt argon2Iterations argon2MemoryKiB argon2Parallel argon2KeyLen"
  have len: "length ?key = argon2KeyLen" by (rule assms(1))
  then have "?key \<noteq> []" "salt \<noteq> []" using assms(2) by (auto simp: argon2_consts)
  then have "parsePHC stored = Some (salt, default_params, ?key)"
    using assms(2,3) len parsePHC_encodePHC [of salt ?key]
    by (simp add: Hash_def argon2_consts)
  moreover have "IsArgon2idHash stored" using assms(3) IsArgon2idHash_encodePHC by (auto simp: Hash_def)
  ultimately show ?thesis
    using len by (simp add: Verify_def verifyArgon2id_def default_params_def)
qed

definition sample_idkey :: idkey where
  "sample_idkey pw salt t m p n = take n (pw @ salt @ replicate n CHR ''x'')"

theorem Verify_Hash_witness:
  "Verify sample_idkey (\<lambda>s. s) ''secret''
     (encodePHC ''0123456789abcdef'' (sample_idkey ''secret'' ''0123456789abcdef'' 3 65536 2 32)) ''a'' ''b'' = Inr (True, False)"
  using Verify_Hash [of sample_idkey "''0123456789abcdef''" "''secret''"
      "encodePHC ''0123456789abcdef'' (sample_idkey ''secret'' ''0123456789abcdef'' 3 65536 2 32)"
      "\<lambda>s. s" "''a''" "''b''" "''other''"]
  by (simp add: sample_idkey_def Hash_def argon2_consts)

text \<open>
  Whatever string is stored as a hash, the key derivation is only ever reached with a
  memory of at most 256 MiB, at most 10 iterations, at most 8 lanes, and a salt and key of 1
  to 64 bytes; none of the parameters is zero.
\<close>

theorem parsePHC_bounds:
  assumes "parsePHC storedHash = Some (salt, params, hash)"
  shows "0 < memory params \<and> memory params \<le> 256 * 1024 \<and>
    0 < iterations params \<and> iterations params \<le> 10 \<and>
    0 < parallelism params \<and> parallelism params \<le> 8 \<and>
    0 < length salt \<and> length salt \<le> 64 \<and> 0 < length hash \<and> length hash \<le> 64"
  using assms
  by (auto simp: parsePHC_def checked_b64_def validateArgon2Params_def parseParams_def argon2_consts
      split: if_splits list.splits bind_splits)

theorem parsePHC_bounds_witness:
  "parsePHC (encodePHC ''salt'' ''hash'') = Some (''salt'', default_params, ''hash'') \<and>
   memory default_params \<le> 256 * 1024"
proof -
  have "parsePHC (encodePHC ''salt'' ''hash'') = Some (''salt'', default_params, ''hash'')"
    by (rule parsePHC_encodePHC) (simp_all add: argon2_consts)
  with parsePHC_bounds [OF this] show ?thesis by simp
qed

end
