(* ===== verification/Login.thy ===== *)
theory Login
  imports Web Password
begin

text \<open>
  The authentication handlers: \<open>internal/app/auth\<close> (\<open>login.go\<close>, \<open>2fa.go\<close>, \<open>logout.go\<close>,
  \<open>register.go\<close>, \<open>session.go\<close>) and the session handlers of \<open>internal/app/api/user/sessions.go\<close>.
  The log lines and the notification goroutine of \<open>loginEvent\<close> have no influence on the
  answer and are left out.
\<close>

text \<open>The services a handler uses, bundled: Redis, its counters, the session store, the digests.\<close>

record 'r services =
  redis :: "'r redis_client"
  counters :: "'r counter_client"
  backend :: "'r session_backend"
  sha_hex :: "string \<Rightarrow> string"   \<comment> \<open>utils.SHA256\<close>
  sha_raw :: "string \<Rightarrow> string"   \<comment> \<open>sha256.Sum256\<close>
  argon2 :: idkey
  totp_valid :: "go_time \<Rightarrow> string \<Rightarrow> string \<Rightarrow> bool"

section \<open>Login with a password\<close>

definition login_failed :: "'r services \<Rightarrow> string \<Rightarrow> string \<Rightarrow> (('r, 'z) renv_scheme, 'a) handler" where
  "login_failed S emailKey ip =
     bindE (ignoring (recordLoginFailure (counters S) (sha_hex S) emailKey ip)) (\<lambda>_. raise error500)"

text \<open>The password check of a user who was found; \<open>rand\<close> is the salt of a new hash.\<close>

definition login_verify ::
  "'r services \<Rightarrow> dynamic_conf \<Rightarrow> string option \<Rightarrow> string \<Rightarrow> string \<Rightarrow> string \<Rightarrow> int \<Rightarrow> user_row \<Rightarrow>
   (('r, 'z) renv_scheme, int \<times> user_row) handler" where
  "login_verify S dc rand emailKey ip pw uid user =
     (case Verify (argon2 S) (sha_raw S) pw (password user) (salt user) (SiteToken dc) of
        Inl _ \<Rightarrow> login_failed S emailKey ip
      | Inr (ok, needsRehash) \<Rightarrow>
          if \<not> ok then login_failed S emailKey ip
          else
            bindE (if needsRehash then
                (case Hash (argon2 S) rand pw of
                   None \<Rightarrow> ret ()
                 | Some newHash \<Rightarrow> ignoring (migrate_password uid (password user) newHash))
              else ret ()) (\<lambda>_.
            bindE (ignoring (clearLoginFailures (redis S) (sha_hex S) emailKey ip)) (\<lambda>_.
            ret (uid, user))))"

text \<open>From the start of the handler to the verified user.\<close>

definition login_credentials ::
  "'r services \<Rightarrow> dynamic_conf \<Rightarrow> string option \<Rightarrow> request \<Rightarrow> string \<Rightarrow> string \<Rightarrow>
   (('r, 'z) renv_scheme, int \<times> user_row) handler" where
  "login_credentials S dc rand rq mail pw =
     (let emailKey = to_lower (trim_space mail); ip = rq_ip rq in
      if mail = '''' \<or> pw = '''' then raise (400, ''warning'')
      else
        bindE (orElse (checkLoginRateLimit (redis S) (counters S) (sha_hex S) emailKey ip) error500) (\<lambda>retryIn.
        if retryIn > 0 then raise (429, ''rate_limited'')
        else tryE (GetUserAuthByEmail mail) (\<lambda>res.
          case res of
            Inl e \<Rightarrow> if e = ErrNoRows then login_failed S emailKey ip else raise error500
          | Inr (uid, user) \<Rightarrow> login_verify S dc rand emailKey ip pw uid user)))"

definition second_factor_needed :: "dynamic_conf \<Rightarrow> user_row \<Rightarrow> bool" where
  "second_factor_needed dc user \<longleftrightarrow>
     (case totp user of None \<Rightarrow> False | Some x \<Rightarrow> x \<noteq> '''') \<or> EmailVerifyLogin dc \<or> \<not> verified user"

definition already_logged_in :: "dynamic_conf \<Rightarrow> request \<Rightarrow> session \<Rightarrow> bool" where
  "already_logged_in dc rq sess \<longleftrightarrow>
     (case as_int64 (map_of (sess_values sess) ''uid'') of
        None \<Rightarrow> False | Some currentUID \<Rightarrow> currentUID > 0 \<and> SessionBindingOK dc rq sess)"

definition login_session ::
  "'r services \<Rightarrow> dynamic_conf \<Rightarrow> request \<Rightarrow> int \<Rightarrow> user_row \<Rightarrow> (('r, 'z) renv_scheme, response) handler" where
  "login_session S dc rq uid user =
     (case rq_session rq of
        Inl _ \<Rightarrow> raise error500
      | Inr sess \<Rightarrow>
          if already_logged_in dc rq sess then raise error500
          else if second_factor_needed dc user then
            bindE (orElse (save_session (backend S) (set_value ''pre_2fa_uid'' (VInt64 uid) sess)) error500) (\<lambda>_.
            ret (200, ''2fa_required''))
          else
            bindE (orElse (finalizeAuthenticatedSession (redis S) (b_new (backend S)) (Inr sess)
              (rq_user_agent rq) (rq_ip rq) uid) error500) (\<lambda>_.
            ret (200, ''ok'')))"

definition login ::
  "'r services \<Rightarrow> dynamic_conf \<Rightarrow> string option \<Rightarrow> request \<Rightarrow> string \<Rightarrow> string \<Rightarrow>
   (('r, 'z) renv_scheme, response) handler" where
  "login S dc rand rq mail pw =
     bindE (login_credentials S dc rand rq mail pw) (\<lambda>(uid, user). login_session S dc rq uid user)"

section \<open>The second factor\<close>

definition middlewareFA :: "request \<Rightarrow> (('r, 'z) renv_scheme, sval) handler" where
  "middlewareFA rq =
     (case rq_session rq of
        Inl _ \<Rightarrow> raise error500
      | Inr sess \<Rightarrow>
          (case map_of (sess_values sess) ''pre_2fa_uid'' of None \<Rightarrow> raise (400, ''error'') | Some v \<Rightarrow> ret v))"

definition getTwoFAStatus ::
  "sval \<Rightarrow> (('r, 'z) wenv_scheme, bool \<times> int) handler" where
  "getTwoFAStatus preUID =
     (let uid = int64_or_zero (Some preUID) in
      if uid \<le> 0 then raise (400, ''unauthorized'')
      else
        bindE (orElse (GetUserById uid) error500) (\<lambda>user.
        bindE (GetCooling uid) (\<lambda>cool.
        bindE (orElse time_now error500) (\<lambda>now.
        ret (verified user, (case cool of None \<Rightarrow> 0 | Some c \<Rightarrow> c) - unix now)))))"

text \<open>\<open>send\<close> is the delivery of the mail with the code; \<open>code\<close> the random six digits.\<close>

definition sendMFACode ::
  "(user_row \<Rightarrow> string \<Rightarrow> (('r, 'z) wenv_scheme, err, unit) io) \<Rightarrow> string \<Rightarrow> sval \<Rightarrow> string \<Rightarrow>
   (('r, 'z) wenv_scheme, response) handler" where
  "sendMFACode send code preUID mode =
     (let uid = int64_or_zero (Some preUID) in
      if uid \<le> 0 then raise (400, ''unauthorized'')
      else
        bindE (orElse (GetUserById uid) error500) (\<lambda>user.
        bindE (GetCooling uid) (\<lambda>cool.
        bindE (case cool of
                 None \<Rightarrow> ret False
               | Some c \<Rightarrow> bindE (orElse time_now error500) (\<lambda>now. ret (c > unix now))) (\<lambda>coolingDown.
        if coolingDown then raise (429, ''cooling'')
        else if mode \<noteq> ''activation'' \<and> mode \<noteq> ''2fa'' then raise (400, ''error'')
        else
          bindE (orElse (send user code) error500) (\<lambda>_.
          bindE (orElse time_now error500) (\<lambda>now2.
          bindE (SetTwoFACodeState code uid (unix now2 + 60 * 60)) (\<lambda>_.
          bindE (orElse time_now error500) (\<lambda>now3.
          bindE (SetCooling uid (unix now3 + 60)) (\<lambda>_.
          ret (200, ''ok''))))))))))"

definition loginSession ::
  "'r services \<Rightarrow> request \<Rightarrow> int \<Rightarrow> (('r, 'z) renv_scheme, response) handler" where
  "loginSession S rq uid =
     bindE (orElse (finalizeAuthenticatedSession (redis S) (b_new (backend S)) (rq_session rq)
       (rq_user_agent rq) (rq_ip rq) uid) error500) (\<lambda>_. ret (200, ''ok''))"

definition ensure_verified :: "int \<Rightarrow> user_row \<Rightarrow> (('r, 'z) renv_scheme, unit) handler" where
  "ensure_verified uid user = (if \<not> verified user then orElse (set_verified uid) error500 else ret ())"

definition verifyMFACode ::
  "'r services \<Rightarrow> request \<Rightarrow> sval \<Rightarrow> string \<Rightarrow> (('r, 'z) wenv_scheme, response) handler" where
  "verifyMFACode S rq preUID code =
     (let uid = int64_or_zero (Some preUID); ip = rq_ip rq in
      if code = '''' then raise (400, ''error'')
      else
        bindE (orElse (CheckMFARateLimit (redis S) (counters S) (sha_hex S) uid ip) error500) (\<lambda>retryIn.
        if retryIn > 0 then raise (429, ''rate_limited'')
        else bindE (GetTwoFACodeState code) (\<lambda>stored.
          if (case stored of None \<Rightarrow> True | Some d \<Rightarrow> code_uid d \<noteq> uid) then
            bindE (DeleteTwoFACodeByUID uid) (\<lambda>_.
            bindE (ignoring (RecordMFAFailure (counters S) (sha_hex S) uid ip)) (\<lambda>_.
            raise (400, ''error'')))
          else
            bindE (ignoring (ClearMFAFailures (redis S) (sha_hex S) uid ip)) (\<lambda>_.
            bindE (DeleteTwoFACodeState code) (\<lambda>_.
            bindE (orElse (GetUserById uid) error500) (\<lambda>user.
            bindE (ensure_verified uid user) (\<lambda>_.
            loginSession S rq uid)))))))"

definition verifyTOTP ::
  "'r services \<Rightarrow> request \<Rightarrow> sval \<Rightarrow> string \<Rightarrow> (('r, 'z) renv_scheme, response) handler" where
  "verifyTOTP S rq preUID code =
     (let uid = int64_or_zero (Some preUID); ip = rq_ip rq in
      if code = '''' then raise (400, ''error'')
      else
        bindE (orElse (checkTOTPRateLimit (redis S) (counters S) (sha_hex S) uid ip) error500) (\<lambda>retryIn.
        if retryIn > 0 then raise (429, ''rate_limited'')
        else
          bindE (orElse (GetUserAuthById uid) error500) (\<lambda>(_, user).
          let secret = (case totp user of None \<Rightarrow> '''' | Some x \<Rightarrow> x) in
          if secret = '''' then raise (400, ''error'')
          else
            bindE (orElse time_now error500) (\<lambda>now.
            if \<not> totp_valid S now code secret then
              bindE (ignoring (recordTOTPFailure (counters S) (sha_hex S) uid ip)) (\<lambda>_. raise (400, ''error''))
            else
              bindE (ignoring (clearTOTPFailures (redis S) (sha_hex S) uid ip)) (\<lambda>_.
              loginSession S rq uid)))))"

section \<open>Registration, logout and the sessions of a user\<close>

definition register ::
  "'r services \<Rightarrow> dynamic_conf \<Rightarrow> bool \<Rightarrow> int \<Rightarrow> string \<Rightarrow> string option \<Rightarrow> string \<Rightarrow> string \<Rightarrow> string \<Rightarrow> string \<Rightarrow>
   (('r, 'z) renv_scheme, response) handler" where
  "register S dc captchaOK newID signature rand uname mail pw token =
     (if \<not> RegistrationEnabled dc then raise (403, ''forbidden'')
      else if uname = '''' \<or> mail = '''' \<or> pw = '''' \<or> token = '''' then raise (400, ''warning'')
      else if CaptchaSecret dc \<noteq> '''' \<and> CaptchaSiteKey dc \<noteq> '''' \<and> \<not> captchaOK then raise (400, ''warning'')
      else
        bindE (orElse (CheckEmailExists mail) error500) (\<lambda>isExist.
        if isExist then raise (400, ''warning'')
        else case Hash (argon2 S) rand pw of
          None \<Rightarrow> raise error500
        | Some hashed \<Rightarrow>
            bindE (orElse (exec_sql ErrConstraint (insert_user_row newID
              \<lparr>username = uname, email = mail, password = hashed, salt = signature, is_admin = False,
               verified = \<not> RegistrationVerifyEmail dc, totp = None\<rparr>)) (400, ''error'')) (\<lambda>_.
            ret (200, ''ok''))))"

definition logout :: "'r services \<Rightarrow> request \<Rightarrow> (('r, 'z) renv_scheme, response) handler" where
  "logout S rq =
     (case rq_session rq of
        Inl _ \<Rightarrow> raise error500
      | Inr sess \<Rightarrow>
          bindE (case as_int64 (map_of (sess_values sess) ''uid'') of
                   None \<Rightarrow> ret ()
                 | Some uid \<Rightarrow>
                     if uid \<noteq> 0 \<and> sess_id sess \<noteq> ''''
                     then orElse (RemoveUserSessionIDs (redis S) uid [sess_id sess]) error500 else ret ()) (\<lambda>_.
          bindE (orElse (store_write (b_drop (backend S) (sess_id sess))) (500, ''warning'')) (\<lambda>_.
          ret (200, ''ok''))))"

definition sessionRevoke :: "'r services \<Rightarrow> int \<Rightarrow> string \<Rightarrow> (('r, 'z) renv_scheme, response) handler" where
  "sessionRevoke S uid sid =
     bindE (orElse (CheckSessionOwnership (redis S) uid sid) error500) (\<lambda>yes.
     if \<not> yes then raise (400, ''error'')
     else
       bindE (orElse (RemoveUserSessionIDs (redis S) uid [sid]) error500) (\<lambda>_. ret (200, ''ok'')))"

definition sessionRevokeAll ::
  "'r services \<Rightarrow> (string \<Rightarrow> session_values option) \<Rightarrow> int \<Rightarrow> (('r, 'z) renv_scheme, response) handler" where
  "sessionRevokeAll S gob uid =
     bindE (orElse (GetUserSessions (redis S) gob uid) error500) (\<lambda>sids.
     bindE (orElse (RemoveUserSessionIDs (redis S) uid (map sd_id sids)) error500) (\<lambda>_.
     ret (200, ''ok'')))"

section \<open>What a successful login has checked\<close>

lemma login_failed_Inr [simp]: "login_failed S k ip s \<noteq> (Inr x, t)"
  by (auto simp: login_failed_def bindE_Inr_iff raise_def)

lemma login_verify_Inr:
  assumes "login_verify S dc rand k ip pw uid user s = (Inr (uid', user'), t)"
  shows "uid' = uid \<and> user' = user \<and>
    (\<exists>nr. Verify (argon2 S) (sha_raw S) pw (password user) (salt user) (SiteToken dc) = Inr (True, nr))"
  using assms unfolding login_verify_def
  by (auto simp: bindE_Inr_iff ret_def split: if_splits sum.splits prod.splits)

lemma checkLoginRateLimit_state:
  "checkLoginRateLimit R C sha k ip s = (r, t) \<Longrightarrow> rstate t = rstate s \<and> tabs t = tabs s"
proof -
  assume run: "checkLoginRateLimit R C sha k ip s = (r, t)"
  have "keeps (\<lambda>x. rstate x = rstate s \<and> tabs x = tabs s) (retryAfter R C key m)" for key m
  proof (rule keepsI)
    fix x
    assume "rstate x = rstate s \<and> tabs x = tabs s"
    then show "rstate (snd (retryAfter R C key m x)) = rstate s \<and> tabs (snd (retryAfter R C key m x)) = tabs s"
      using retryAfter_rstate [of R C key m x, OF prod.collapse [symmetric]] by simp
  qed
  then have "keeps (\<lambda>x. rstate x = rstate s \<and> tabs x = tabs s) (checkLoginRateLimit R C sha k ip)"
    unfolding checkLoginRateLimit_def by (intro keeps_intros)
  from keeps_run [OF this _ run] show ?thesis by simp
qed

lemma login_credentials_Inr:
  assumes "login_credentials S dc rand rq mail pw s = (Inr (uid, user), t)"
  shows "user_by_email mail (tabs s) = Some (uid, user) \<and> pw \<noteq> '''' \<and>
    (\<exists>nr. Verify (argon2 S) (sha_raw S) pw (password user) (salt user) (SiteToken dc) = Inr (True, nr))"
proof -
  let ?k = "to_lower (trim_space mail)"
  from assms have ne: "\<not> (mail = '''' \<or> pw = '''')"
    by (auto simp: login_credentials_def raise_def)
  with assms obtain wait u v uid' user' where
    rl: "checkLoginRateLimit (redis S) (counters S) (sha_hex S) ?k (rq_ip rq) s = (Inr wait, u)"
    and q: "GetUserAuthByEmail mail u = (Inr (uid', user'), v)"
    and ver: "login_verify S dc rand ?k (rq_ip rq) pw uid' user' v = (Inr (uid, user), t)"
    unfolding login_credentials_def Let_def if_not_P [OF ne]
    by (auto simp: handler_Inr_iffs tryE_case_iff raise_def split: if_splits prod.splits)
  show ?thesis
    using q ne login_verify_Inr [OF ver] checkLoginRateLimit_state [OF rl]
    by (auto simp: GetUserAuthByEmail_def query_row_Inr_iff)
qed

lemma login_session_ok:
  assumes "login_session S dc rq uid user s = (Inr (200, ''ok''), t)"
  shows "\<exists>sess new. rq_session rq = Inr sess \<and> \<not> second_factor_needed dc user \<and>
    finalizeAuthenticatedSession (redis S) (b_new (backend S)) (Inr sess) (rq_user_agent rq) (rq_ip rq) uid s = (Inr new, t)"
  using assms unfolding login_session_def
  by (auto simp: handler_Inr_iffs raise_def ret_def split: sum.splits if_splits)

text \<open>A session of the user, stored and indexed, as a completed login leaves it.\<close>

definition logged_in ::
  "'r redis_client \<Rightarrow> (string \<Rightarrow> session_values option) \<Rightarrow> request \<Rightarrow> int \<Rightarrow> 'r \<Rightarrow> bool" where
  "logged_in R gob rq uid r \<longleftrightarrow> (\<exists>sid sd data. sid \<in> set (cmd_smembers R r (user_sessions_key uid)) \<and>
     cmd_get R r (session_key sid) = Some data \<and> ParseSessionData gob sid data = Some sd \<and>
     sd_uid sd = uid \<and> sd_user_agent sd = rq_user_agent rq \<and> sd_client_ip sd = rq_ip rq)"

lemma finalize_logged_in:
  assumes "session_store R save enc gob"
    "finalizeAuthenticatedSession R save (Inr sess) (rq_user_agent rq) (rq_ip rq) uid s = (Inr new, t)"
  shows "logged_in R gob rq uid (rstate t)"
  using session_store.finalize_effect(2,3) [OF assms] unfolding logged_in_def by blast

subsection \<open>Calls of services leave the process stores alone\<close>

named_theorems twofa_intros \<open>computations that keep the store of codes\<close>

lemma twofa_primitives [twofa_intros]:
  "keeps (\<lambda>s. twofa s = X) (redis_write f)" "keeps (\<lambda>s. twofa s = X) (redis_read g)"
  "keeps (\<lambda>s. twofa s = X) (query_sql q)" "keeps (\<lambda>s. twofa s = X) (exec_sql e h)"
  "keeps (\<lambda>s. twofa s = X) time_now" "keeps (\<lambda>s. twofa s = X) (sess_save save vals)"
  by (auto simp: keeps_def redis_write_def redis_read_def query_sql_def exec_sql_def time_now_def
      sess_save_def next_call_def split: outcome.splits option.splits prod.splits)

lemma twofa_query_row [twofa_intros]: "keeps (\<lambda>s. twofa s = X) (query_row q)"
  unfolding query_row_def by (intro keeps_intros twofa_intros)

lemma twofa_finalize [twofa_intros]:
  "keeps (\<lambda>s. twofa s = X) (finalizeAuthenticatedSession R save got ua ip uid)"
  unfolding finalizeAuthenticatedSession_def RemoveSessionIDs_def active_team_or_zero_def GetUserActiveTeam_def
    register_session_def AddSessionID_def RemoveUserSessionIDRefs_def
  by (intro keeps_intros twofa_intros)

lemma twofa_handlers [twofa_intros]:
  "keeps (\<lambda>s. twofa s = X) m \<Longrightarrow> keeps (\<lambda>s. twofa s = X) (orElse m resp)"
  "keeps (\<lambda>s. twofa s = X) m \<Longrightarrow> keeps (\<lambda>s. twofa s = X) (ignoring m)"
  unfolding orElse_def ignoring_def by (intro keeps_intros; assumption)+

lemma twofa_retryAfter [twofa_intros]: "keeps (\<lambda>s. twofa s = X) (retryAfter R C k m)"
  unfolding retryAfter_def redis_get_def by (intro keeps_intros twofa_intros)

lemma twofa_clear [twofa_intros]: "keeps (\<lambda>s. twofa s = X) (clear_key R k)"
  unfolding clear_key_def by (intro keeps_intros twofa_intros)

lemma loginSession_Inr:
  assumes "session_store (redis S) (b_new (backend S)) enc gob" "loginSession S rq uid s = (Inr resp, t)"
  shows "resp = (200, ''ok'') \<and> logged_in (redis S) gob rq uid (rstate t)"
proof -
  from assms(2) obtain new where resp: "resp = (200, ''ok'')"
    and fin: "finalizeAuthenticatedSession (redis S) (b_new (backend S)) (rq_session rq) (rq_user_agent rq) (rq_ip rq) uid s = (Inr new, t)"
    by (auto simp: loginSession_def handler_Inr_iffs ret_def)
  then obtain sess where "rq_session rq = Inr sess"
    by (cases "rq_session rq") (auto simp: finalizeAuthenticatedSession_def raise_def)
  with fin resp finalize_logged_in [OF assms(1)] show ?thesis by simp
qed

lemma loginSession_twofa: "loginSession S rq uid s = (r, t) \<Longrightarrow> twofa t = twofa s"
proof -
  have "keeps (\<lambda>x. twofa x = twofa s) (loginSession S rq uid)"
    unfolding loginSession_def by (intro keeps_intros twofa_intros)
  then show "loginSession S rq uid s = (r, t) \<Longrightarrow> twofa t = twofa s" by (rule keeps_run) simp_all
qed

lemma twofa_run: "(\<And>X. keeps (\<lambda>s. twofa s = X) m) \<Longrightarrow> m s = (r, t) \<Longrightarrow> twofa t = twofa s"
  using keeps_run [of "\<lambda>x. twofa x = twofa s" m s r t] by simp

lemma verifyMFACode_Inr:
  assumes "session_store (redis S) (b_new (backend S)) enc gob" "verifyMFACode S rq preUID code s = (Inr resp, t)"
  defines "uid \<equiv> int64_or_zero (Some preUID)"
  shows "(\<exists>d. map_of (twofa s) code = Some d \<and> code_uid d = uid) \<and>
    twofa t = AList.delete code (twofa s) \<and> resp = (200, ''ok'') \<and> logged_in (redis S) gob rq uid (rstate t)"
proof -
  from assms(2) have ne: "code \<noteq> ''''" by (auto simp: verifyMFACode_def Let_def raise_def)
  from assms(2) obtain wait s1 u s2 s3 x y where
    rl: "CheckMFARateLimit (redis S) (counters S) (sha_hex S) uid (rq_ip rq) s = (Inr wait, s1)"
    and st: "case map_of (twofa s1) code of None \<Rightarrow> False | Some d \<Rightarrow> code_uid d = uid"
    and s2: "s2 = snd (ClearMFAFailures (redis S) (sha_hex S) uid (rq_ip rq) s1)"
    and us: "GetUserById uid (s2\<lparr>twofa := AList.delete code (twofa s2)\<rparr>) = (Inr u, s3)"
    and ve: "ensure_verified uid u s3 = (Inr x, y)"
    and fin: "loginSession S rq uid y = (Inr resp, t)"
    unfolding verifyMFACode_def Let_def if_not_P [OF ne] uid_def [symmetric]
    by (auto simp: handler_Inr_iffs raise_def GetTwoFACodeState_def gets_def DeleteTwoFACodeState_def
        modify_def split: if_splits option.splits)
  have "twofa s1 = twofa s"
    using rl unfolding CheckMFARateLimit_def by (rule twofa_run [rotated]) (rule twofa_intros)
  moreover have "twofa s2 = twofa s1"
    unfolding s2 ClearMFAFailures_def by (rule twofa_run [OF _ prod.collapse [symmetric]]) (rule twofa_intros)
  moreover have "twofa s3 = AList.delete code (twofa s2)"
    using us unfolding GetUserById_def by (auto dest!: twofa_run [rotated, OF _ twofa_query_row])
  moreover have "twofa y = twofa s3"
    using ve unfolding ensure_verified_def set_verified_def by (rule twofa_run [rotated]) (intro keeps_intros twofa_intros)
  ultimately show ?thesis
    using st loginSession_Inr [OF assms(1) fin] loginSession_twofa [OF fin] by (auto split: option.splits)
qed

lemma verifyTOTP_Inr:
  assumes "session_store (redis S) (b_new (backend S)) enc gob" "verifyTOTP S rq preUID code s = (Inr resp, t)"
  defines "uid \<equiv> int64_or_zero (Some preUID)"
  shows "(\<exists>user secret now. map_of (users (tabs s)) uid = Some user \<and> totp user = Some secret \<and>
      secret \<noteq> '''' \<and> totp_valid S now code secret) \<and>
    resp = (200, ''ok'') \<and> logged_in (redis S) gob rq uid (rstate t)"
proof -
  from assms(2) have ne: "code \<noteq> ''''" by (auto simp: verifyTOTP_def Let_def raise_def)
  from assms(2) obtain wait s1 u s2 now s3 where
    rl: "checkTOTPRateLimit (redis S) (counters S) (sha_hex S) uid (rq_ip rq) s = (Inr wait, s1)"
    and us: "GetUserAuthById uid s1 = (Inr u, s2)"
    and sec: "(case totp (snd u) of None \<Rightarrow> '''' | Some x \<Rightarrow> x) \<noteq> ''''"
      "totp_valid S now code (case totp (snd u) of None \<Rightarrow> '''' | Some x \<Rightarrow> x)"
    and fin: "loginSession S rq uid s3 = (Inr resp, t)"
    unfolding verifyTOTP_def Let_def if_not_P [OF ne] uid_def [symmetric]
    by (auto simp: handler_Inr_iffs raise_def split: if_splits prod.splits)
  have "tabs s1 = tabs s" using rl retryAfter_rstate unfolding checkTOTPRateLimit_def by blast
  with us sec loginSession_Inr [OF assms(1) fin] show ?thesis
    by (auto simp: GetUserAuthById_def query_row_Inr_iff split: option.splits)
qed

context redis_counters
begin

text \<open>A key that has reached its maximum is refused, and checking it changes nothing.\<close>

lemma checkLoginRateLimit_locked:
  assumes "all_done s" "counts R C (rstate s) (loginEmailIPKey sha k ip) n w"
    "loginMaxFailures \<le> n" "n \<le> max_int64"
    "\<not> cmd_exists R (rstate s) (loginIPKey sha ip) \<or>
     (\<exists>n' w'. counts R C (rstate s) (loginIPKey sha ip) n' w' \<and> 1 \<le> n' \<and> n' \<le> max_int64)"
  shows "\<exists>wait > 0. fst (checkLoginRateLimit R C sha k ip s) = Inr wait"
proof -
  obtain e s1 where 1: "retryAfter R C (loginEmailIPKey sha k ip) loginMaxFailures s = (Inr e, s1)" "e > 0"
    using assms(1-4) retryAfter_counts [of s "loginEmailIPKey sha k ip" n w loginMaxFailures]
    by (cases "retryAfter R C (loginEmailIPKey sha k ip) loginMaxFailures s")
      (auto simp: loginMaxFailures_def split: if_splits)
  have keep: "keeps (\<lambda>x. outcomes x = outcomes s) (retryAfter R C key m)" for key m
    unfolding retryAfter_def redis_get_def
    by (intro keeps_intros; simp add: keeps_def redis_read_def next_call_def)
  have s1: "all_done s1" "rstate s1 = rstate s"
    using keeps_run [OF keep _ 1(1)] assms(1) retryAfter_rstate [OF 1(1)] by auto
  obtain i s2 where 2: "retryAfter R C (loginIPKey sha ip) ipLoginMaxFailures s1 = (Inr i, s2)"
    using assms(5) s1 retryAfter_absent [of s1 "loginIPKey sha ip" ipLoginMaxFailures]
      retryAfter_counts [of s1 "loginIPKey sha ip" _ _ ipLoginMaxFailures]
    by (cases "retryAfter R C (loginIPKey sha ip) ipLoginMaxFailures s1") (auto split: if_splits)
  show ?thesis using 1 2 by (auto simp: checkLoginRateLimit_def bindE_run ret_def)
qed

end

section \<open>Properties\<close>

definition mem_services :: "mem services" where
  "mem_services = \<lparr>redis = mem_redis, counters = mem_counters, backend = mem_backend,
     sha_hex = (\<lambda>s. s), sha_raw = (\<lambda>s. take 32 (s @ replicate 32 CHR ''x'')), argon2 = sample_idkey,
     totp_valid = (\<lambda>_ code secret. code = secret)\<rparr>"

lemma mem_services_store: "session_store (redis mem_services) (b_new (backend mem_services)) mem_enc mem_gob"
  using mem.session_store_axioms by (simp add: mem_services_def mem_backend_def)

lemma mem_services_counters: "redis_counters (redis mem_services) (counters mem_services)"
  using mem.redis_counters_axioms by (simp add: mem_services_def)

text \<open>The second user of the sample environment, with a stored hash in the legacy format.\<close>

definition sample_login :: "mem renv" where
  "sample_login = sample_sessions\<lparr>tabs := sample_tables\<lparr>users := AList.map_entry 2
     (\<lambda>r. r\<lparr>password := legacySHA256Hex (sha_raw mem_services) (''pw'' @ ''salt'' @ ''token'')\<rparr>)
     (users sample_tables)\<rparr>\<rparr>"

definition anonymous_request :: request where
  "anonymous_request = \<lparr>rq_session = Inr \<lparr>sess_id = '''', sess_values = []\<rparr>, rq_user_agent = ''ua'', rq_ip = ''ip''\<rparr>"

text \<open>
  (C11) A password login that answers success has found the user of the given address, verified
  the password against the stored hash, and found that neither TOTP nor a mail code nor an
  unverified address asks for a second step; and it leaves a stored and indexed session of
  exactly that user, bound to the user agent and address of the request.
\<close>

theorem login_correct:
  assumes "session_store (redis S) (b_new (backend S)) enc gob"
    "login S dc rand rq mail pw s = (Inr (200, ''ok''), t)"
  shows "\<exists>uid user. user_by_email mail (tabs s) = Some (uid, user) \<and>
    (\<exists>rehash. Verify (argon2 S) (sha_raw S) pw (password user) (salt user) (SiteToken dc) = Inr (True, rehash)) \<and>
    (totp user = None \<or> totp user = Some '''') \<and> \<not> EmailVerifyLogin dc \<and> verified user \<and>
    logged_in (redis S) gob rq uid (rstate t)"
proof -
  from assms(2) obtain uid user s1 where c: "login_credentials S dc rand rq mail pw s = (Inr (uid, user), s1)"
    and f: "login_session S dc rq uid user s1 = (Inr (200, ''ok''), t)"
    by (auto simp: login_def bindE_Inr_iff)
  from login_session_ok [OF f] obtain sess new where "\<not> second_factor_needed dc user"
    and "finalizeAuthenticatedSession (redis S) (b_new (backend S)) (Inr sess) (rq_user_agent rq) (rq_ip rq) uid s1 = (Inr new, t)"
    by blast
  with login_credentials_Inr [OF c] finalize_logged_in [OF assms(1)] show ?thesis
    by (auto simp: second_factor_needed_def split: option.splits)
qed

theorem login_correct_witness:
  "fst (login mem_services sample_conf None anonymous_request ''bob@example.org'' ''pw'' sample_login) = Inr (200, ''ok'') \<and>
   (\<exists>uid. logged_in mem_redis mem_gob anonymous_request uid
     (rstate (snd (login mem_services sample_conf None anonymous_request ''bob@example.org'' ''pw'' sample_login))))"
proof -
  let ?run = "login mem_services sample_conf None anonymous_request ''bob@example.org'' ''pw'' sample_login"
  have ok: "fst ?run = Inr (200, ''ok'')" by code_simp
  then have "?run = (Inr (200, ''ok''), snd ?run)" by (simp add: prod_eq_iff)
  from login_correct [OF mem_services_store this] ok show ?thesis by (auto simp: mem_services_def)
qed

text \<open>
  When the failures of an address from one client have reached the maximum, the next
  attempts are refused with 429 whatever the password is, and neither a table nor the
  keyspace changes: no credential is looked at and no session is created.
\<close>

theorem login_locked:
  assumes "redis_counters (redis S) (counters S)" "all_done s" "mail \<noteq> ''''" "pw \<noteq> ''''"
    "counts (redis S) (counters S) (rstate s)
       (loginEmailIPKey (sha_hex S) (to_lower (trim_space mail)) (rq_ip rq)) n w"
    "5 \<le> n" "n \<le> max_int64"
    "\<not> cmd_exists (redis S) (rstate s) (loginIPKey (sha_hex S) (rq_ip rq)) \<or>
     (\<exists>n' w'. counts (redis S) (counters S) (rstate s) (loginIPKey (sha_hex S) (rq_ip rq)) n' w' \<and>
        1 \<le> n' \<and> n' \<le> max_int64)"
  shows "fst (login S dc rand rq mail pw s) = Inl (429, ''rate_limited'') \<and>
    rstate (snd (login S dc rand rq mail pw s)) = rstate s \<and> tabs (snd (login S dc rand rq mail pw s)) = tabs s"
proof -
  let ?rl = "checkLoginRateLimit (redis S) (counters S) (sha_hex S) (to_lower (trim_space mail)) (rq_ip rq)"
  obtain wait u where rl: "?rl s = (Inr wait, u)" "wait > 0"
    using redis_counters.checkLoginRateLimit_locked [OF assms(1,2,5) _ assms(7,8)] assms(6)
    by (cases "?rl s") (auto simp: loginMaxFailures_def)
  then show ?thesis
    using assms(3,4) checkLoginRateLimit_state [OF rl(1)]
    by (simp add: login_def login_credentials_def Let_def bindE_run orElse_def tryE_run raise_def ret_def)
qed

definition sample_locked :: "mem renv" where
  "sample_locked = sample_login\<lparr>rstate := \<lparr>
     strs = [(loginEmailIPKey (\<lambda>s. s) ''bob@example.org'' ''ip'', ''5'')], sets = [],
     ttls = [(loginEmailIPKey (\<lambda>s. s) ''bob@example.org'' ''ip'', 60 * second)]\<rparr>\<rparr>"

theorem login_locked_witness:
  "fst (login mem_services sample_conf None anonymous_request '' Bob@example.org'' ''pw'' sample_locked) =
     Inl (429, ''rate_limited'')"
proof -
  let ?S = mem_services
  have c: "counts (redis ?S) (counters ?S) (rstate sample_locked)
      (loginEmailIPKey (sha_hex ?S) (to_lower (trim_space '' Bob@example.org'')) (rq_ip anonymous_request)) 5
      (Some (60 * second))"
    by code_simp
  have e: "\<not> cmd_exists (redis ?S) (rstate sample_locked) (loginIPKey (sha_hex ?S) (rq_ip anonymous_request))"
    by code_simp
  have o: "all_done sample_locked"
    by (simp add: sample_locked_def sample_login_def sample_sessions_def sample_renv_def)
  show ?thesis
    using login_locked [OF mem_services_counters o _ _ c _ _ disjI1, OF _ _ _ _ e, of "''pw''" sample_conf None]
    by (simp add: max_int64_def)
qed

text \<open>
  A mail code is accepted only when it is stored for the user of the pending login; it is
  deleted by its use, so it cannot be used again, and the answer comes with a stored and
  indexed session of that user.
\<close>

theorem verifyMFACode_correct:
  assumes "session_store (redis S) (b_new (backend S)) enc gob"
    "verifyMFACode S rq preUID code s = (Inr resp, t)"
  shows "resp = (200, ''ok'') \<and> (\<exists>d. map_of (twofa s) code = Some d \<and> code_uid d = int64_or_zero (Some preUID)) \<and>
    map_of (twofa t) = (map_of (twofa s))(code := None) \<and>
    logged_in (redis S) gob rq (int64_or_zero (Some preUID)) (rstate t) \<and>
    (\<forall>u resp' t'. twofa u = twofa t \<longrightarrow> verifyMFACode S rq preUID code u \<noteq> (Inr resp', t'))"
proof -
  note first = verifyMFACode_Inr [OF assms]
  show ?thesis
    using first verifyMFACode_Inr [OF assms(1), of rq preUID code] by fastforce
qed

definition sample_codes :: "mem wenv" where
  "sample_codes = \<lparr>calls = 0, outcomes = (\<lambda>_. Done), reads = 0, clock = (\<lambda>n. int n * second),
     team_seq = 8, tabs = sample_tables, rstate = rstate sample_sessions,
     twofa = [(''123456'', \<lparr>code_uid = 2, code_expire = 3600\<rparr>)], cooling = [], auth_states = []\<rparr>"

theorem verifyMFACode_correct_witness:
  "fst (verifyMFACode mem_services anonymous_request (VInt64 2) ''123456'' sample_codes) = Inr (200, ''ok'') \<and>
   map_of (twofa (snd (verifyMFACode mem_services anonymous_request (VInt64 2) ''123456'' sample_codes))) ''123456'' = None"
proof -
  let ?run = "verifyMFACode mem_services anonymous_request (VInt64 2) ''123456'' sample_codes"
  have ok: "fst ?run = Inr (200, ''ok'')" by code_simp
  then have "?run = (Inr (200, ''ok''), snd ?run)" by (simp add: prod_eq_iff)
  from verifyMFACode_correct [OF mem_services_store this] ok show ?thesis by auto
qed

text \<open>
  A TOTP login answers success only when the user of the pending login has a TOTP secret
  and the code is valid for it at the time of the request, and it comes with a stored and
  indexed session of that user.
\<close>

theorem verifyTOTP_correct:
  assumes "session_store (redis S) (b_new (backend S)) enc gob"
    "verifyTOTP S rq preUID code s = (Inr resp, t)"
  shows "resp = (200, ''ok'') \<and>
    (\<exists>user secret now. map_of (users (tabs s)) (int64_or_zero (Some preUID)) = Some user \<and>
      totp user = Some secret \<and> secret \<noteq> '''' \<and> totp_valid S now code secret) \<and>
    logged_in (redis S) gob rq (int64_or_zero (Some preUID)) (rstate t)"
  using verifyTOTP_Inr [OF assms] by blast

definition sample_totp :: "mem renv" where
  "sample_totp = sample_sessions\<lparr>tabs := sample_tables\<lparr>users := AList.map_entry 2
     (\<lambda>r. r\<lparr>totp := Some ''777''\<rparr>) (users sample_tables)\<rparr>\<rparr>"

theorem verifyTOTP_correct_witness:
  "fst (verifyTOTP mem_services anonymous_request (VInt64 2) ''777'' sample_totp) = Inr (200, ''ok'') \<and>
   logged_in mem_redis mem_gob anonymous_request 2
     (rstate (snd (verifyTOTP mem_services anonymous_request (VInt64 2) ''777'' sample_totp)))"
proof -
  let ?run = "verifyTOTP mem_services anonymous_request (VInt64 2) ''777'' sample_totp"
  have ok: "fst ?run = Inr (200, ''ok'')" by code_simp
  then have "?run = (Inr (200, ''ok''), snd ?run)" by (simp add: prod_eq_iff)
  from verifyTOTP_correct [OF mem_services_store this] ok show ?thesis
    by (auto simp: mem_services_def int64_or_zero_def as_int64_def)
qed

end
