(* ===== verification/Governance.thy ===== *)
theory Governance
  imports Accounts
begin

text \<open>
  The hub as a transition system over its user and team tables: one step per operation that
  the handlers of \<open>internal/app/api\<close> run, with the checks the handlers make before the call.
  Every reachable state keeps the schema constraints, an owner who administers each team, and
  at least one administrator, whatever calls of the database fail.
\<close>

section \<open>Operations on teams leave the users alone\<close>

lemma statement_users:
  "insert_team_row i row d = Some d' \<Longrightarrow> users d' = users d"
  "insert_member t u r d = Some d' \<Longrightarrow> users d' = users d"
  "upsert_member t u r d = Some d' \<Longrightarrow> users d' = users d"
  "set_role t u r d = Some d' \<Longrightarrow> users d' = users d"
  "set_owner t u d = Some d' \<Longrightarrow> users d' = users d"
  "delete_member t u d = Some d' \<Longrightarrow> users d' = users d"
  "clear_active u t d = Some d' \<Longrightarrow> users d' = users d"
  "delete_team_row t d = Some d' \<Longrightarrow> users d' = users d"
  "insert_category t nm d = Some d' \<Longrightarrow> users d' = users d"
  "update_team_row t nm de co im d = Some d' \<Longrightarrow> users d' = users d"
  "set_active_row u t d = Some d' \<Longrightarrow> users d' = users d"
  by (auto simp: member_statements team_statements set_active_row_def split: if_splits)

lemma keeps_users_exec [keeps_intros]:
  assumes "\<And>d d'. f d = Some d' \<Longrightarrow> users d' = users d"
  shows "keeps (\<lambda>s. users (tabs s) = U) (exec_sql e f)"
  by (rule keeps_exec_sql [where J = "\<lambda>d. users d = U"]) (simp add: assms)

lemma keeps_users_transaction [keeps_intros]:
  "keeps (\<lambda>s. users (tabs s) = U) m \<Longrightarrow> keeps (\<lambda>s. users (tabs s) = U) (transaction m)"
  by (rule keeps_transaction_body [where J = "\<lambda>d. users d = U"])

lemma keeps_users_query [keeps_intros]:
  "keeps (\<lambda>s. users (tabs s) = U) (query_sql q)" "keeps (\<lambda>s. users (tabs s) = U) (query_row q')"
  by (simp_all add: keeps_def)

lemma insert_team_users [keeps_intros]: "keeps (\<lambda>s. users (tabs s) = U) (insert_team row)"
proof (rule keepsI)
  fix s :: "'a env_scheme"
  assume U: "users (tabs s) = U"
  have "keeps (\<lambda>s. users (tabs s) = U) (bindE (exec_sql ErrConstraint (insert_team_row i row)) (\<lambda>_. ret j))"
    for i and j :: int
    by (intro keeps_intros statement_users(1))
  from keepsD [OF this, of "s\<lparr>team_seq := team_seq s + 1\<rparr>"] U
  show "users (tabs (snd (insert_team row s))) = U" by (simp add: insert_team_def)
qed

lemma team_operations_users:
  "keeps (\<lambda>s. users (tabs s) = U) (LeaveTeam u t)"
  "keeps (\<lambda>s. users (tabs s) = U) (CreateTeam nm de co im ms ow)"
  "keeps (\<lambda>s. users (tabs s) = U) (edit_team ord t u nm de co av ms)"
  "keeps (\<lambda>s. users (tabs s) = U) (TransferTeamOwnership t u)"
  "keeps (\<lambda>s. users (tabs s) = U) (RemoveTeam t)"
  "keeps (\<lambda>s. users (tabs s) = U) (SetUserActiveTeam u t)"
  "keeps (\<lambda>s. users (tabs s) = U) (ClearUserActiveTeam u t)"
  unfolding LeaveTeam_def leave_members_def CreateTeam_def edit_team_def updateTeam_def publish_avatar_def
    TransferTeamOwnership_def RemoveTeam_def SetUserActiveTeam_def ClearUserActiveTeam_def Let_def
  by (intro keeps_intros; (erule statement_users | auto))+

section \<open>The transition system\<close>

text \<open>
  \<open>hub_step\<close> relates the environment before and after one operation. A team is created with
  the member list the handler has checked; the other operations check their arguments
  themselves. The results are not part of the relation: it contains every failed run as well.
\<close>

inductive hub_step :: "'z env_scheme \<Rightarrow> 'z env_scheme \<Rightarrow> bool" where
  create: "create_members uid members = Some ms \<Longrightarrow>
    hub_step s (snd (CreateTeam nm de co im ms uid s))"
| edit: "map_order ord \<Longrightarrow> hub_step s (snd (edit_team ord tid uid nm de co av members s))"
| leave: "hub_step s (snd (LeaveTeam uid tid s))"
| transfer: "hub_step s (snd (TransferTeamOwnership tid uid s))"
| remove: "hub_step s (snd (RemoveTeam tid s))"
| activate: "hub_step s (snd (SetUserActiveTeam uid tid s))"
| deactivate: "hub_step s (snd (ClearUserActiveTeam uid tid s))"
| delete_user: "hub_step s (snd (DeleteUser actor uid conf hash s))"
| update_user: "hub_step s (snd (UpdateAdminUser actor uid upd hash s))"
| add: "hub_step s (snd (add_user uid nm mail pw sa ve ad s))"
| set_totp: "hub_step s (snd (SetUserTOTP uid secret s))"
| rename: "hub_step s (snd (UpdateUsername uid nm s))"
| verify: "hub_step s (snd (set_verified uid s))"
| rehash: "hub_step s (snd (migrate_password uid old new s))"

inductive hub_steps :: "'z env_scheme \<Rightarrow> 'z env_scheme \<Rightarrow> bool" where
  start: "hub_steps s s"
| later: "hub_steps s t \<Longrightarrow> hub_step t u \<Longrightarrow> hub_steps s u"

lemma account_inv_team_op:
  assumes "account_inv (tabs s)" "team_inv (tabs t)" "users (tabs t) = users (tabs s)"
  shows "account_inv (tabs t)"
  using assms by (simp add: account_inv_def has_admin_def)

lemma team_op_keeps_account_inv:
  fixes m :: "('z env_scheme, err, 'a) io"
  assumes "\<And>U. keeps (\<lambda>s. users (tabs s) = U) m"
    "team_inv (tabs s) \<Longrightarrow> team_inv (tabs (snd (m s)))" "account_inv (tabs s)"
  shows "account_inv (tabs (snd (m s)))"
proof (rule account_inv_team_op [OF assms(3)])
  show "team_inv (tabs (snd (m s)))" using assms(2,3) by (simp add: account_inv_def)
  show "users (tabs (snd (m s))) = users (tabs s)"
    using keepsD [OF assms(1) [of "users (tabs s)"]] by simp
qed

lemma team_operations_inv:
  assumes inv: "team_inv (tabs s)"
  shows "team_inv (tabs (snd (LeaveTeam u t s)))"
    "valid_members ow ow ms \<Longrightarrow> team_inv (tabs (snd (CreateTeam nm de co im ms ow s)))"
    "map_order ord \<Longrightarrow> team_inv (tabs (snd (edit_team ord t u nm de co av ms s)))"
    "team_inv (tabs (snd (TransferTeamOwnership t u s)))"
proof -
  show "team_inv (tabs (snd (LeaveTeam u t s)))"
    using inv LeaveTeam_tables [OF inv prod.collapse [symmetric], of u t] by (auto simp: leave_spec_def)
  show "team_inv (tabs (snd (CreateTeam nm de co im ms ow s)))" if "valid_members ow ow ms"
    using inv CreateTeam_tables [OF inv that prod.collapse [symmetric], of nm de co im]
    by (auto simp: create_spec_def)
  show "team_inv (tabs (snd (edit_team ord t u nm de co av ms s)))" if "map_order ord"
    using inv edit_team_tables [OF inv that prod.collapse [symmetric], of t u nm de co av ms]
    by (auto simp: edit_spec_def)
  show "team_inv (tabs (snd (TransferTeamOwnership t u s)))"
    using inv TransferTeamOwnership_tables [OF inv prod.collapse [symmetric], of t u] by auto
qed

lemma user_operations_inv:
  assumes inv: "account_inv (tabs s)"
  shows "account_inv (tabs (snd (DeleteUser actor uid conf hash s)))"
    "account_inv (tabs (snd (UpdateAdminUser actor uid upd hash s)))"
  using inv DeleteUser_tables [OF inv prod.collapse [symmetric], of actor uid conf hash]
    UpdateAdminUser_tables [OF inv prod.collapse [symmetric], of actor uid upd hash]
  by auto

lemma hub_step_inv: "hub_step s t \<Longrightarrow> account_inv (tabs s) \<Longrightarrow> account_inv (tabs t)"
proof (induction rule: hub_step.induct)
  case (create uid members ms s nm de co im)
  then show ?case
    by (intro team_op_keeps_account_inv team_operations_users team_operations_inv create_members_Some)
next
  case (edit ord s tid uid nm de co av members)
  then show ?case by (intro team_op_keeps_account_inv team_operations_users team_operations_inv)
next
  case (leave s uid tid)
  then show ?case by (intro team_op_keeps_account_inv team_operations_users team_operations_inv)
next
  case (transfer s tid uid)
  then show ?case by (intro team_op_keeps_account_inv team_operations_users team_operations_inv)
next
  case (remove s tid)
  then show ?case
    by (intro team_op_keeps_account_inv team_operations_users keepsD [OF RemoveTeam_keeps])
next
  case (activate s uid tid)
  then show ?case
    by (intro team_op_keeps_account_inv team_operations_users keepsD [OF SetUserActiveTeam_keeps])
next
  case (deactivate s uid tid)
  then show ?case
    by (intro team_op_keeps_account_inv team_operations_users keepsD [OF ClearUserActiveTeam_keeps])
qed (auto intro: user_operations_inv user_statements_keep [THEN keepsD] add_user_keeps [THEN keepsD])

lemma hub_steps_inv: "hub_steps s t \<Longrightarrow> account_inv (tabs s) \<Longrightarrow> account_inv (tabs t)"
  by (induction rule: hub_steps.induct) (auto intro: hub_step_inv)

section \<open>Properties\<close>

text \<open>
  (C1) In every state the hub reaches by any sequence of its operations, with any pattern of
  failing database calls, the tables satisfy the schema, every role is 0, 1 or 2, every team
  has an owner who is a member with the administrator role, every active team is a team the
  user belongs to, and at least one user is an administrator.
\<close>

theorem hub_reachable_invariant:
  assumes "hub_steps s t" "account_inv (tabs s)"
  shows "wf_tables (tabs t) \<and> roles_ok (tabs t) \<and>
    (\<forall>tid row. map_of (teams (tabs t)) tid = Some row \<longrightarrow> role_of (tabs t) tid (owner_id row) = Some 0) \<and>
    (\<forall>u tid. map_of (users_config (tabs t)) u = Some tid \<longrightarrow> role_of (tabs t) tid u \<noteq> None) \<and>
    (\<exists>u row. map_of (users (tabs t)) u = Some row \<and> is_admin row)"
proof -
  have inv: "account_inv (tabs t)" using hub_steps_inv [OF assms] .
  then have wf: "wf_tables (tabs t)" by (simp add: account_inv_def team_inv_def)
  have "\<forall>u tid. map_of (users_config (tabs t)) u = Some tid \<longrightarrow> role_of (tabs t) tid u \<noteq> None"
    using wf by (auto simp: wf_tables_def role_of_def has_key_def)
  moreover have "has_admin (tabs t)" using inv by (simp add: account_inv_def)
  then obtain u row where "(u, row) \<in> set (users (tabs t))" "is_admin row"
    unfolding has_admin_def list_ex_iff by blast
  then have "\<exists>u row. map_of (users (tabs t)) u = Some row \<and> is_admin row"
    unfolding keyed_in_set_map_of [OF account_inv_keyed [OF inv]] by blast
  ultimately show ?thesis
    using inv wf by (simp add: account_inv_def team_inv_def owner_admin_def)
qed

theorem hub_reachable_invariant_witness:
  "\<exists>u row. map_of (users (tabs (snd (DeleteUser 1 2 ''bob'' ''hash-ann''
     (snd (LeaveTeam 1 7 sample_env)))))) u = Some row \<and> is_admin row"
  using hub_reachable_invariant [OF hub_steps.later [OF hub_steps.later [OF hub_steps.start hub_step.leave]
        hub_step.delete_user], of sample_env 1 2 "''bob''" "''hash-ann''" 1 7]
  by (simp add: sample_account_inv)

end
