(* ===== verification/Team_Handlers.thy ===== *)
theory Team_Handlers
  imports Login Governance
begin

text \<open>
  Handlers that change a membership and what becomes of the sessions: \<open>leave\<close> and the
  transaction of \<open>edit\<close> with its revocations (\<open>internal/app/api/team\<close>), \<open>setActiveTeam\<close> and
  \<open>me\<close> (\<open>internal/app/api/user\<close>). The point of the component is that a lost membership
  ends the access to the team at once, even when the revocation in Redis fails.
\<close>

section \<open>Handlers\<close>

definition revoke ::
  "'r services \<Rightarrow> (string \<Rightarrow> session_values option) \<Rightarrow> int \<Rightarrow> int \<Rightarrow> (('r, 'z) renv_scheme, unit) handler" where
  "revoke S gob uid tid = ignoring (RemoveUserTeamSessions (redis S) gob uid tid)"

text \<open>The session of a member who left their active team is moved to no team.\<close>

definition leave_active ::
  "'r services \<Rightarrow> (string \<Rightarrow> session_values option) \<Rightarrow> request \<Rightarrow> int \<Rightarrow> int \<Rightarrow> (('r, 'z) renv_scheme, unit) handler" where
  "leave_active S gob rq uid targetTeamID =
     (case rq_session rq of
        Inl _ \<Rightarrow> bindE (revoke S gob uid targetTeamID) (\<lambda>_. raise error500)
      | Inr sess \<Rightarrow>
          tryE (save_session (backend S) (set_value ''tid'' (VInt64 0) sess)) (\<lambda>res.
          case res of
            Inl _ \<Rightarrow> bindE (revoke S gob uid targetTeamID) (\<lambda>_. raise error500)
          | Inr _ \<Rightarrow> ret ()))"

definition leave ::
  "'r services \<Rightarrow> (string \<Rightarrow> session_values option) \<Rightarrow> request \<Rightarrow> echo_context \<Rightarrow> string \<Rightarrow>
   (('r, 'z) renv_scheme, response) handler" where
  "leave S gob rq c idParam =
     (let uid = int64_or_zero (c_uid c); activeTeamID = int64_or_zero (c_tid c);
          targetTeamID = parse_int64_value idParam in
      if targetTeamID \<le> 0 then raise (400, ''error'')
      else tryE (LeaveTeam uid targetTeamID) (\<lambda>res.
        case res of
          Inl e \<Rightarrow> if e = ErrNoRows then raise (403, ''forbidden'') else raise error500
        | Inr _ \<Rightarrow>
            bindE (if targetTeamID = activeTeamID then leave_active S gob rq uid targetTeamID else ret ()) (\<lambda>_.
            bindE (revoke S gob uid targetTeamID) (\<lambda>_.
            ret (200, ''ok'')))))"

text \<open>
  \<open>edit\<close> with its parameter checks, its transaction and its revocations; the form has been read,
  the members are parsed, and an uploaded avatar has been converted under its staged name, which
  \<open>avatarURL\<close> gives.
\<close>

definition edit ::
  "'r services \<Rightarrow> (string \<Rightarrow> session_values option) \<Rightarrow> (int list \<Rightarrow> int list) \<Rightarrow> echo_context \<Rightarrow> string \<Rightarrow>
   string \<Rightarrow> string \<Rightarrow> string \<Rightarrow> string option \<Rightarrow> member list \<Rightarrow> (('r, 'z) renv_scheme, response) handler" where
  "edit S gob ord c idParam nm descr avatarColor avatarURL members =
     (let tid = int64_or_zero (c_tid c); uid = int64_or_zero (c_uid c);
          requestedTID = parse_int64_value idParam in
      if requestedTID \<le> 0 \<or> requestedTID \<noteq> tid then raise (400, ''error'')
      else if nm = '''' \<or> avatarColor = '''' then raise (400, ''error'')
      else tryE (edit_team ord tid uid nm descr avatarColor avatarURL members) (\<lambda>res.
        case res of
          Inl e \<Rightarrow>
            if e = ErrInvalidTeamMembers then raise (400, ''error'')
            else if e = ErrTeamEditForbidden then raise (403, ''forbidden'')
            else raise error500
        | Inr (removedUserIDs, _) \<Rightarrow>
            bindE (forE removedUserIDs (\<lambda>removedUserID. revoke S gob removedUserID tid)) (\<lambda>_.
            ret (200, ''ok''))))"

definition setActiveTeam ::
  "'r services \<Rightarrow> request \<Rightarrow> echo_context \<Rightarrow> string \<Rightarrow> (('r, 'z) renv_scheme, response) handler" where
  "setActiveTeam S rq c idParam =
     (let uid = int64_or_zero (c_uid c); teamID = parse_int64_value idParam in
      if teamID = 0 then raise (400, ''error'')
      else tryE (SetUserActiveTeam uid teamID) (\<lambda>res.
        case res of
          Inl e \<Rightarrow> if e = ErrNoRows then raise (400, ''error'') else raise error500
        | Inr _ \<Rightarrow>
            (case rq_session rq of
               Inl _ \<Rightarrow> raise error500
             | Inr sess \<Rightarrow>
                 bindE (orElse (save_session (backend S) (set_value ''tid'' (VInt64 teamID) sess)) error500) (\<lambda>_.
                 ret (200, ''ok'')))))"

text \<open>\<open>me\<close> answers with the user, the team the session is in (if any) and the teams of the user.\<close>

definition me_team ::
  "'r services \<Rightarrow> request \<Rightarrow> int \<Rightarrow> int \<Rightarrow> (('r, 'z) renv_scheme, int) handler" where
  "me_team S rq uid tid =
     tryE (GetTeamRole uid tid) (\<lambda>res.
     case res of
       Inr _ \<Rightarrow> ret tid
     | Inl e \<Rightarrow>
         if e \<noteq> ErrNoRows then raise error500
         else
           bindE (orElse (ClearUserActiveTeam uid tid) error500) (\<lambda>_.
           case rq_session rq of
             Inl _ \<Rightarrow> raise error500
           | Inr sess \<Rightarrow>
               bindE (orElse (save_session (backend S) (set_value ''tid'' (VInt64 0) sess)) error500) (\<lambda>_. ret 0)))"

definition me ::
  "'r services \<Rightarrow> request \<Rightarrow> echo_context \<Rightarrow>
   (('r, 'z) renv_scheme, user_row \<times> team_row option \<times> (int \<times> team_row) list) handler" where
  "me S rq c =
     (let uid = int64_or_zero (c_uid c); tid0 = int64_or_zero (c_tid c) in
      bindE (orElse (GetUserById uid) error500) (\<lambda>userInfo.
      bindE (if tid0 = 0 then orElse (active_team_or_zero uid) error500 else ret tid0) (\<lambda>tid1.
      bindE (if tid1 \<noteq> 0 then me_team S rq uid tid1 else ret 0) (\<lambda>tid.
      bindE (orElse (GetTeamsByUserId uid) error500) (\<lambda>teams.
      if tid = 0 then ret (userInfo, None, teams)
      else tryE (GetTeamById tid) (\<lambda>res.
        case res of
          Inr team \<Rightarrow> ret (userInfo, Some team, teams)
        | Inl e \<Rightarrow>
            if e \<noteq> ErrNoRows then raise error500
            else (case rq_session rq of
               Inl _ \<Rightarrow> raise error500
             | Inr sess \<Rightarrow>
                 bindE (orElse (save_session (backend S) (set_value ''tid'' (VInt 0) sess)) error500) (\<lambda>_.
                 ret (userInfo, None, teams)))))))))"

section \<open>Only the database step changes tables\<close>

lemma keeps_tabs_writes [keeps_intros]:
  "keeps (\<lambda>s. tabs s = d) (redis_write f)" "keeps (\<lambda>s. tabs s = d) (redis_read g)"
  "keeps (\<lambda>s. tabs s = d) (query_sql q)" "keeps (\<lambda>s. tabs s = d) (query_row q')"
  "keeps (\<lambda>s. tabs s = d) time_now"
  by (auto simp: keeps_def redis_write_def redis_read_def time_now_def next_call_def split: outcome.splits)

lemma keeps_tabs_save [keeps_intros]: "keeps (\<lambda>s. tabs s = d) (save_session B sess)"
  by (simp add: keeps_def)

lemma keeps_tabs_handlers [keeps_intros]:
  "keeps (\<lambda>s. tabs s = d) m \<Longrightarrow> keeps (\<lambda>s. tabs s = d) (orElse m resp)"
  "keeps (\<lambda>s. tabs s = d) m \<Longrightarrow> keeps (\<lambda>s. tabs s = d) (ignoring m)"
  unfolding orElse_def ignoring_def by (intro keeps_intros; assumption)+

lemma matching_sessions_keeps [keeps_intros]: "keeps (\<lambda>s. tabs s = d) (matching_sessions R gob u t ids)"
  by (simp add: keeps_def)

lemma revoke_keeps [keeps_intros]: "keeps (\<lambda>s. tabs s = d) (revoke S gob uid tid)"
  unfolding revoke_def RemoveUserTeamSessions_def removeUserTeamSessions_def listUserSessionIDs_def
    removeUserSessionIDsAtomic_def
  by (intro keeps_intros)

lemma leave_active_keeps [keeps_intros]: "keeps (\<lambda>s. tabs s = d) (leave_active S gob rq uid tid)"
  unfolding leave_active_def by (intro keeps_intros)

lemma leave_tabs:
  assumes "leave S gob rq c idParam s = (r, t)"
  defines "uid \<equiv> int64_or_zero (c_uid c)" and "tid \<equiv> parse_int64_value idParam"
  shows "(tid \<le> 0 \<and> t = s \<and> r = Inl (400, ''error'')) \<or>
    (\<exists>res u. LeaveTeam uid tid s = (res, u) \<and> tabs t = tabs u \<and> (r = Inr (200, ''ok'') \<longrightarrow> res = Inr ()))"
proof (cases "tid \<le> 0")
  case True
  then show ?thesis using assms(1) by (simp add: leave_def Let_def raise_def tid_def)
next
  case False
  obtain res u where res: "LeaveTeam uid tid s = (res, u)" by fastforce
  let ?rest = "bindE (if tid = int64_or_zero (c_tid c) then leave_active S gob rq uid tid else ret ()) (\<lambda>_.
            bindE (revoke S gob uid tid) (\<lambda>_. ret (200 :: nat, ''ok'')))"
  have run: "(case res of Inl e \<Rightarrow> if e = ErrNoRows then raise (403, ''forbidden'') else raise error500
      | Inr _ \<Rightarrow> ?rest) u = (r, t)"
    using assms(1) res False unfolding leave_def Let_def uid_def [symmetric] tid_def [symmetric]
    by (simp add: tryE_run)
  have "tabs t = tabs u"
  proof (cases res)
    case (Inl e)
    with run show ?thesis by (cases "e = ErrNoRows") (simp_all add: raise_def)
  next
    case (Inr x)
    have "keeps (\<lambda>x. tabs x = tabs u) ?rest" by (intro keeps_intros)
    from keeps_run [OF this _ run [unfolded Inr sum.case]] show ?thesis by simp
  qed
  moreover have "res = Inr ()" if "r = Inr (200, ''ok'')"
    using run that by (cases res) (auto simp: raise_def split: if_splits)
  ultimately show ?thesis using res by blast
qed

section \<open>Properties\<close>

text \<open>
  (C35) A membership that a user gives up ends their access to the team at once. After a
  \<open>leave\<close> that answers success, whatever the revocation in Redis did, no session of the user
  passes the access check for the team, and no route of the team admits a context of the user,
  as long as the memberships are not changed again.
\<close>

theorem leave_revokes_access:
  assumes "team_inv (tabs s)" "leave S gob rq c idParam s = (Inr (200, ''ok''), t)" "tabs v = tabs t"
  defines "uid \<equiv> int64_or_zero (c_uid c)" and "tid \<equiv> parse_int64_value idParam"
  shows "role_of (tabs s) tid uid \<noteq> None \<and> role_of (tabs t) tid uid = None \<and> team_inv (tabs t) \<and>
    fst (ValidateTeamSession R uid tid sid roles v) \<noteq> Inr () \<and>
    (int64_or_zero (c_uid c') = uid \<and> int64_or_zero (c_tid c') = tid \<longrightarrow>
       (\<forall>c'' w. TeamAccess B c' v \<noteq> (Inr c'', w)))"
proof -
  obtain u where run: "LeaveTeam uid tid s = (Inr (), u)" and t: "tabs t = tabs u"
    using leave_tabs [OF assms(2)] unfolding uid_def tid_def by auto
  have spec: "leave_spec uid tid (tabs s) (tabs u)"
    using LeaveTeam_tables [OF assms(1) run] by auto
  then have gone: "role_of (tabs v) tid uid = None" using assms(3) t by (simp add: leave_spec_def)
  have "fst (ValidateTeamSession R uid tid sid roles v) \<noteq> Inr ()"
  proof
    assume "fst (ValidateTeamSession R uid tid sid roles v) = Inr ()"
    then have "ValidateTeamSession R uid tid sid roles v = (Inr (), snd (ValidateTeamSession R uid tid sid roles v))"
      by (simp add: prod_eq_iff)
    from ValidateTeamSession_Inr [OF this] gone show False by simp
  qed
  moreover have "TeamAccess B c' v \<noteq> (Inr c'', w)"
    if "int64_or_zero (c_uid c') = uid \<and> int64_or_zero (c_tid c') = tid" for c'' w
    using TeamAccess_Inr [of B c' v c'' w] gone that by auto
  ultimately show ?thesis using spec t by (auto simp: leave_spec_def)
qed

definition sample_context :: "int \<Rightarrow> int \<Rightarrow> echo_context" where
  "sample_context uid tid = \<lparr>c_uid = Some (VInt64 uid), c_tid = Some (VInt64 tid), c_sid = ''a'', c_role = None,
     c_session = \<lparr>sess_id = ''a'', sess_values = []\<rparr>\<rparr>"

theorem leave_revokes_access_witness:
  "fst (leave mem_services mem_gob (sample_request 2 7) (sample_context 2 7) ''7'' sample_sessions) = Inr (200, ''ok'') \<and>
   fst (ValidateTeamSession mem_redis 2 7 ''b'' [0, 1, 2]
     (snd (leave mem_services mem_gob (sample_request 2 7) (sample_context 2 7) ''7'' sample_sessions))) \<noteq> Inr ()"
proof -
  let ?run = "leave mem_services mem_gob (sample_request 2 7) (sample_context 2 7) ''7'' sample_sessions"
  have ok: "fst ?run = Inr (200, ''ok'')" by code_simp
  then have run: "?run = (Inr (200, ''ok''), snd ?run)" by (simp add: prod_eq_iff)
  have ids: "int64_or_zero (c_uid (sample_context 2 7)) = 2" "parse_int64_value ''7'' = 7" by code_simp+
  have "team_inv (tabs sample_sessions)"
    by (simp add: sample_sessions_def sample_renv_def sample_team_inv)
  from leave_revokes_access [OF this run refl, of mem_redis "''b''" "[0, 1, 2]", unfolded ids] ok
  show ?thesis by blast
qed

end
