(* ===== verification/Status_Writer.thy ===== *)
theory Status_Writer
  imports Prelude
begin

text \<open>
  The delivery of status samples to the time series database:
  \<open>internal/influx/status_writer.go\<close>. A ring buffer that evicts its oldest point when full,
  a worker that assembles batches and retries writes, and counters that are read without the
  lock. The ring is proved to implement a bounded queue; the worker, the producers and the
  shutdown are a step relation with one step per critical section, atomic addition, channel
  operation or write, for which no point is lost from the books; and a stopped processor is
  proved to drain its queue in a bounded number of steps.
\<close>

section \<open>State\<close>

text \<open>A point is a pointer, \<open>None\<close> is nil; the counters are \<open>uint64\<close> and wrap.\<close>

record 'p processor =
  queue :: "'p option list"
  head :: nat
  size :: nat
  inFlight :: nat
  batchSize :: nat
  writeAttempts :: nat
  accepting :: bool
  m_enqueued :: "64 word"
  m_written :: "64 word"
  m_retried :: "64 word"
  m_failed :: "64 word"
  m_dropped :: "64 word"
  m_dropEvents :: "64 word"
  m_failureEvents :: "64 word"

text \<open>\<open>None\<close> is the panic on an invalid configuration.\<close>

definition newServerStatusProcessor :: "nat \<Rightarrow> nat \<Rightarrow> nat \<Rightarrow> 'p processor option" where
  "newServerStatusProcessor queueSize batchSz attempts =
     (if queueSize = 0 \<or> batchSz = 0 \<or> attempts = 0 then None
      else Some \<lparr>queue = replicate queueSize None, head = 0, size = 0, inFlight = 0, batchSize = batchSz,
        writeAttempts = attempts, accepting = True, m_enqueued = 0, m_written = 0, m_retried = 0,
        m_failed = 0, m_dropped = 0, m_dropEvents = 0, m_failureEvents = 0\<rparr>)"

section \<open>The ring buffer\<close>

text \<open>The three statements that remove the oldest point.\<close>

definition advance :: "('p, 'z) processor_scheme \<Rightarrow> ('p, 'z) processor_scheme" where
  "advance p = p\<lparr>queue := (queue p)[head p := None],
     head := (head p + 1) mod length (queue p), size := size p - 1\<rparr>"

definition append_point :: "'p \<Rightarrow> ('p, 'z) processor_scheme \<Rightarrow> ('p, 'z) processor_scheme" where
  "append_point x p = p\<lparr>queue := (queue p)[(head p + size p) mod length (queue p) := Some x],
     size := size p + 1\<rparr>"

definition pushLocked :: "'p \<Rightarrow> ('p, 'z) processor_scheme \<Rightarrow> bool \<times> ('p, 'z) processor_scheme" where
  "pushLocked x p =
     (let dropped = (size p = length (queue p)) in
      (dropped, append_point x (if dropped then advance p else p)))"

fun take_loop :: "nat \<Rightarrow> ('p, 'z) processor_scheme \<Rightarrow> 'p option list \<times> ('p, 'z) processor_scheme" where
  "take_loop 0 p = ([], p)"
| "take_loop (Suc n) p =
     (case take_loop n (advance p) of (points, p') \<Rightarrow> (queue p ! head p # points, p'))"

definition take_points ::
  "nat \<Rightarrow> ('p, 'z) processor_scheme \<Rightarrow> ('p option list \<times> bool) \<times> ('p, 'z) processor_scheme" where
  "take_points mx p =
     (let count = min mx (size p) in
      case take_loop count p of (points, p') \<Rightarrow>
        ((points, accepting p'), p'\<lparr>inFlight := inFlight p' + count\<rparr>))"

fun drop_loop :: "nat \<Rightarrow> ('p, 'z) processor_scheme \<Rightarrow> ('p, 'z) processor_scheme" where
  "drop_loop 0 p = p"
| "drop_loop (Suc n) p = drop_loop n (advance p)"

definition recordDrop :: "nat \<Rightarrow> ('p, 'z) processor_scheme \<Rightarrow> ('p, 'z) processor_scheme" where
  "recordDrop points p =
     (if points = 0 then p
      else p\<lparr>m_dropped := m_dropped p + of_nat points, m_dropEvents := m_dropEvents p + 1\<rparr>)"

text \<open>The critical section of \<open>enqueue\<close>; \<open>None\<close> is \<open>ErrServerStatusWriterStopped\<close>.\<close>

definition enqueue_locked :: "'p \<Rightarrow> ('p, 'z) processor_scheme \<Rightarrow> (bool \<times> ('p, 'z) processor_scheme) option" where
  "enqueue_locked x p =
     (if \<not> accepting p then None
      else case pushLocked x p of (dropped, p') \<Rightarrow> Some (dropped, p'\<lparr>m_enqueued := m_enqueued p' + 1\<rparr>))"

definition completeBatch :: "nat \<Rightarrow> ('p, 'z) processor_scheme \<Rightarrow> ('p, 'z) processor_scheme" where
  "completeBatch points p = p\<lparr>inFlight := inFlight p - points\<rparr>"

text \<open>The critical section of \<open>dropRemaining\<close> and the number of points it reports afterwards.\<close>

definition dropRemaining_locked :: "('p, 'z) processor_scheme \<Rightarrow> nat \<times> ('p, 'z) processor_scheme" where
  "dropRemaining_locked p = (inFlight p + size p, drop_loop (size p) (p\<lparr>inFlight := 0\<rparr>))"

record ServerStatusQueueStats =
  Enqueued :: "64 word"
  Written :: "64 word"
  Retried :: "64 word"
  Failed :: "64 word"
  Dropped :: "64 word"
  Pending :: "64 word"

definition stats :: "('p, 'z) processor_scheme \<Rightarrow> ServerStatusQueueStats" where
  "stats p = \<lparr>Enqueued = m_enqueued p, Written = m_written p, Retried = m_retried p, Failed = m_failed p,
     Dropped = m_dropped p, Pending = of_nat (size p + inFlight p)\<rparr>"

section \<open>The ring implements a bounded queue\<close>

text \<open>The queued points, oldest first.\<close>

definition contents :: "('p, 'z) processor_scheme \<Rightarrow> 'p option list" where
  "contents p = map (\<lambda>i. queue p ! ((head p + i) mod length (queue p))) [0..<size p]"

definition ring_ok :: "('p, 'z) processor_scheme \<Rightarrow> bool" where
  "ring_ok p \<longleftrightarrow> head p < length (queue p) \<and> size p \<le> length (queue p)"

lemma mod_window_inj:
  fixes i j n h :: nat
  assumes "i < n" "j < n" "(h + i) mod n = (h + j) mod n"
  shows "i = j"
proof -
  have *: "a = b" if "a \<le> b" "b < n" "(h + b) mod n = (h + a) mod n" for a b
  proof -
    have "n dvd b - a" using that mod_eq_dvd_iff_nat [of "h + a" "h + b" n] by simp
    with that show ?thesis by (metis dvd_imp_le diff_less_mono2 le_less_trans less_imp_diff_less not_le zero_less_diff le_antisym)
  qed
  show ?thesis using * [of i j] * [of j i] assms by (cases "i \<le> j") auto
qed

lemma mod_in_range [simp]: "(h :: nat) < n \<Longrightarrow> m mod n < n"
  by (rule mod_less_divisor) simp

lemma length_contents [simp]: "length (contents p) = size p"
  by (simp add: contents_def)

lemma contents_nth: "i < size p \<Longrightarrow> contents p ! i = queue p ! ((head p + i) mod length (queue p))"
  by (simp add: contents_def)

lemma advance_ok: "ring_ok p \<Longrightarrow> ring_ok (advance p)"
  by (auto simp: ring_ok_def advance_def)

lemma contents_advance:
  assumes "ring_ok p" "0 < size p"
  shows "contents (advance p) = tl (contents p)"
proof (rule nth_equalityI)
  show "length (contents (advance p)) = length (tl (contents p))" by (simp add: advance_def)
  fix i
  let ?n = "length (queue p)"
  assume i: "i < length (contents (advance p))"
  then have lt: "Suc i < size p" by (simp add: advance_def)
  have idx: "(Suc (head p) mod ?n + i) mod ?n = Suc (head p + i) mod ?n" by (simp add: mod_simps)
  have ne: "head p \<noteq> (head p + Suc i) mod ?n"
    using mod_window_inj [of 0 ?n "Suc i" "head p"] assms lt by (force simp: ring_ok_def)
  have "contents (advance p) ! i = queue p ! ((head p + Suc i) mod ?n)"
    using i ne by (simp add: contents_nth advance_def idx)
  also have "\<dots> = tl (contents p) ! i" using lt by (simp add: nth_tl contents_nth)
  finally show "contents (advance p) ! i = tl (contents p) ! i" .
qed

lemma append_point_ok: "ring_ok p \<Longrightarrow> size p < length (queue p) \<Longrightarrow> ring_ok (append_point x p)"
  by (simp add: ring_ok_def append_point_def)

lemma contents_append_point:
  assumes "ring_ok p" "size p < length (queue p)"
  shows "contents (append_point x p) = contents p @ [Some x]"
proof (rule nth_equalityI)
  show "length (contents (append_point x p)) = length (contents p @ [Some x])"
    by (simp add: append_point_def)
  fix i
  let ?n = "length (queue p)"
  assume "i < length (contents (append_point x p))"
  then have i: "i < size p + 1" by (simp add: append_point_def)
  have n: "0 < ?n" using assms(2) by linarith
  show "contents (append_point x p) ! i = (contents p @ [Some x]) ! i"
  proof (cases "i = size p")
    case True
    then show ?thesis using i n by (simp add: contents_nth append_point_def nth_append)
  next
    case False
    then have "(head p + i) mod ?n \<noteq> (head p + size p) mod ?n"
      using mod_window_inj [of i ?n "size p" "head p"] assms i by auto
    with False i show ?thesis by (simp add: contents_nth append_point_def nth_append)
  qed
qed

lemma advance_simps [simp]:
  "length (queue (advance p)) = length (queue p)" "size (advance p) = size p - 1"
  by (simp_all add: advance_def)

lemma pushLocked_ok: "ring_ok p \<Longrightarrow> ring_ok (snd (pushLocked x p))"
  by (auto simp: pushLocked_def Let_def ring_ok_def append_point_def advance_def)

lemma contents_pushLocked:
  assumes "ring_ok p"
  shows "contents (snd (pushLocked x p)) =
    (if size p = length (queue p) then tl (contents p) else contents p) @ [Some x]"
proof (cases "size p = length (queue p)")
  case True
  have "0 < size p" using assms True by (auto simp: ring_ok_def)
  with assms True show ?thesis
    by (simp add: pushLocked_def contents_append_point contents_advance advance_ok)
next
  case False
  with assms show ?thesis
    by (simp add: pushLocked_def contents_append_point ring_ok_def)
qed

lemma take_loop_spec:
  assumes "ring_ok p" "n \<le> size p"
  shows "ring_ok (snd (take_loop n p)) \<and> fst (take_loop n p) = take n (contents p) \<and>
    contents (snd (take_loop n p)) = drop n (contents p)"
  using assms
proof (induction n arbitrary: p)
  case (Suc n)
  then have pos: "0 < size p" by simp
  have IH: "ring_ok (snd (take_loop n (advance p)))" "fst (take_loop n (advance p)) = take n (tl (contents p))"
    "contents (snd (take_loop n (advance p))) = drop n (tl (contents p))"
    using Suc.IH [of "advance p"] Suc.prems pos by (auto simp: advance_ok contents_advance)
  have "contents p \<noteq> []" using pos by (metis length_contents less_numeral_extra(3) list.size(3))
  moreover have "hd (contents p) = queue p ! head p"
    using pos Suc.prems contents_nth [of 0 p] \<open>contents p \<noteq> []\<close> by (simp add: hd_conv_nth ring_ok_def)
  ultimately show ?case
    using IH by (simp add: case_prod_beta take_Suc drop_Suc)
qed simp

lemma contents_inFlight [simp]: "contents (p\<lparr>inFlight := k\<rparr>) = contents p" "ring_ok (p\<lparr>inFlight := k\<rparr>) = ring_ok p"
  by (simp_all add: contents_def ring_ok_def)

lemma take_points_spec:
  assumes "ring_ok p"
  shows "ring_ok (snd (take_points n p)) \<and> fst (fst (take_points n p)) = take n (contents p) \<and>
    contents (snd (take_points n p)) = drop n (contents p)"
  using take_loop_spec [OF assms, of "min n (size p)"]
  by (simp add: take_points_def Let_def case_prod_beta min_def)

subsection \<open>The interface\<close>

text \<open>
  A queue of bounded capacity that makes room by giving up its oldest element; \<open>get n\<close> removes
  up to \<open>n\<close> elements from the front.
\<close>

locale bounded_queue =
  fixes inv :: "'q \<Rightarrow> bool" and cap :: "'q \<Rightarrow> nat" and items :: "'q \<Rightarrow> 'a list"
    and put :: "'a \<Rightarrow> 'q \<Rightarrow> 'q" and get :: "nat \<Rightarrow> 'q \<Rightarrow> 'a list \<times> 'q"
  assumes items_cap: "inv q \<Longrightarrow> length (items q) \<le> cap q \<and> 0 < cap q"
    and put_inv: "inv q \<Longrightarrow> inv (put x q) \<and> cap (put x q) = cap q"
    and put_items: "inv q \<Longrightarrow>
      items (put x q) = (if length (items q) = cap q then tl (items q) else items q) @ [x]"
    and get_inv: "inv q \<Longrightarrow> inv (snd (get n q)) \<and> cap (snd (get n q)) = cap q"
    and get_items: "inv q \<Longrightarrow> fst (get n q) = take n (items q) \<and> items (snd (get n q)) = drop n (items q)"
begin

lemma put_all_inv: "inv q \<Longrightarrow> inv (fold put xs q) \<and> cap (fold put xs q) = cap q"
  by (induction xs arbitrary: q) (auto simp: put_inv)

lemma drop_snoc: "length ys = c \<Longrightarrow> 0 < c \<Longrightarrow> tl ys @ [x] = drop (Suc (length ys) - c) (ys @ [x])"
  by (cases ys) auto

text \<open>After any number of insertions the queue holds the newest elements, in order.\<close>

lemma put_all_items:
  "inv q \<Longrightarrow> items (fold put xs q) = drop (length (items q) + length xs - cap q) (items q @ xs)"
proof (induction xs arbitrary: q)
  case Nil
  then show ?case using items_cap [of q] by simp
next
  case (Cons x xs)
  note c = items_cap [OF Cons.prems]
  show ?case
  proof (cases "length (items q) = cap q")
    case True
    have "items (put x q) = tl (items q) @ [x]" using put_items [OF Cons.prems] True by simp
    moreover have "length (tl (items q) @ [x]) = cap q" using True c by simp
    ultimately have "items (fold put (x # xs) q) = drop (length xs) (tl (items q) @ x # xs)"
      using Cons.IH [of "put x q"] put_inv [OF Cons.prems] by (simp del: drop_append)
    also have "\<dots> = drop (Suc (length xs)) (items q @ x # xs)"
      using True c by (cases "items q") auto
    finally show ?thesis using True by simp
  next
    case False
    have "items (put x q) = items q @ [x]" using put_items [OF Cons.prems] False by simp
    then show ?thesis using Cons.IH [of "put x q"] put_inv [OF Cons.prems] by (simp del: drop_append)
  qed
qed

text \<open>What comes out is a prefix of what is inside, and nothing is duplicated.\<close>

lemma get_append: "inv q \<Longrightarrow> fst (get n q) @ items (snd (get n q)) = items q"
  by (simp add: get_items)

end

definition ring_put :: "'p \<Rightarrow> 'p processor \<Rightarrow> 'p processor" where
  "ring_put x p = snd (pushLocked x p)"

definition ring_get :: "nat \<Rightarrow> 'p processor \<Rightarrow> 'p option list \<times> 'p processor" where
  "ring_get n p = (fst (fst (take_points n p)), snd (take_points n p))"

lemma length_queue_take_loop [simp]: "length (queue (snd (take_loop n p))) = length (queue p)"
  by (induction n arbitrary: p) (auto simp: case_prod_beta)

lemma length_queue [simp]:
  "length (queue (snd (pushLocked x p))) = length (queue p)"
  "length (queue (snd (take_points n p))) = length (queue p)"
  by (simp_all add: pushLocked_def Let_def append_point_def take_points_def case_prod_beta)

text \<open>Every queued pointer is non-nil, so the points themselves are the elements.\<close>

definition points :: "('p, 'z) processor_scheme \<Rightarrow> 'p list" where
  "points p = map the (contents p)"

definition ring_inv :: "('p, 'z) processor_scheme \<Rightarrow> bool" where
  "ring_inv p \<longleftrightarrow> ring_ok p \<and> None \<notin> set (contents p)"

lemma map_Some_the: "None \<notin> set xs \<Longrightarrow> map Some (map the xs) = xs"
  by (induction xs) auto

lemma contents_points: "ring_inv p \<Longrightarrow> contents p = map Some (points p)"
  unfolding ring_inv_def points_def using map_Some_the [of "contents p"] by simp

lemma in_set_tlD: "x \<in> set (tl xs) \<Longrightarrow> x \<in> set xs"
  by (cases xs) auto

interpretation ring: bounded_queue ring_inv "\<lambda>p. length (queue p)" points ring_put
  "\<lambda>n p. (map the (fst (ring_get n p)), snd (ring_get n p))"
proof
  fix q :: "'p processor" and x :: 'p and n
  assume inv: "ring_inv q"
  then have ok: "ring_ok q" by (simp add: ring_inv_def)
  show "length (points q) \<le> length (queue q) \<and> 0 < length (queue q)"
    using ok by (auto simp: points_def ring_ok_def)
  show "ring_inv (ring_put x q) \<and> length (queue (ring_put x q)) = length (queue q)"
    using inv by (auto simp: ring_inv_def ring_put_def pushLocked_ok contents_pushLocked dest: in_set_tlD)
  show "points (ring_put x q) = (if length (points q) = length (queue q) then tl (points q) else points q) @ [x]"
    using ok by (simp add: points_def ring_put_def contents_pushLocked map_tl)
  note t = take_points_spec [OF ok, of n]
  have "None \<notin> set (drop n (contents q))" using inv in_set_dropD by (fastforce simp: ring_inv_def)
  then show "ring_inv (snd (map the (fst (ring_get n q)), snd (ring_get n q))) \<and>
      length (queue (snd (map the (fst (ring_get n q)), snd (ring_get n q)))) = length (queue q)"
    using t by (simp add: ring_inv_def ring_get_def)
  show "fst (map the (fst (ring_get n q)), snd (ring_get n q)) = take n (points q) \<and>
      points (snd (map the (fst (ring_get n q)), snd (ring_get n q))) = drop n (points q)"
    using t by (simp add: points_def ring_get_def take_map drop_map)
qed

section \<open>The worker, the producers and the shutdown\<close>

text \<open>
  The position of the worker in \<open>run\<close>, with the batch it holds: before \<open>take\<close>, blocked on an
  empty queue, in \<open>fillBatch\<close> before \<open>take\<close> and before its \<open>select\<close>, at a write attempt, in the
  pause before a retry, before \<open>completeBatch\<close>, in \<open>dropRemaining\<close> before and after its critical
  section, and returned.
\<close>

datatype 'p worker =
    Taking
  | Waiting
  | Filling "'p option list"
  | FillWaiting "'p option list"
  | Writing "'p option list" nat
  | Retrying "'p option list" nat
  | Completing nat
  | Dropping
  | Reporting nat
  | Stopped

text \<open>
  \<open>wake\<close> is the channel of capacity one, \<open>canceled\<close> the context. \<open>owing\<close> counts the producers
  that have left the critical section of \<open>enqueue\<close> and still have to report a drop,
  \<open>notifying\<close> the goroutines that still have to call \<open>notify\<close>.
\<close>

record 'p system =
  proc :: "'p processor"
  worker :: "'p worker"
  wake :: bool
  canceled :: bool
  owing :: nat
  notifying :: nat

definition after_take :: "'p option list \<times> bool \<Rightarrow> nat \<Rightarrow> 'p worker" where
  "after_take r batchSz = (case r of (batch, acc) \<Rightarrow>
     if batch = [] then (if \<not> acc then Stopped else Waiting)
     else if length batch < batchSz \<and> acc then Filling batch else Writing batch 1)"

definition after_fill :: "'p option list \<Rightarrow> 'p option list \<times> bool \<Rightarrow> nat \<Rightarrow> 'p worker" where
  "after_fill batch r batchSz = (case r of (extra, acc) \<Rightarrow>
     let batch' = batch @ extra in
     if length batch' = batchSz \<or> \<not> acc then Writing batch' 1 else FillWaiting batch')"

definition write_failed :: "'p option list \<Rightarrow> nat \<Rightarrow> 'p processor \<Rightarrow> 'p worker \<times> 'p processor" where
  "write_failed batch attempt p =
     (if attempt < writeAttempts p
      then (Retrying batch (attempt + 1), p\<lparr>m_retried := m_retried p + 1\<rparr>)
      else (Completing (length batch), p\<lparr>m_failed := m_failed p + of_nat (length batch),
              m_failureEvents := m_failureEvents p + 1\<rparr>))"

inductive step :: "'p system \<Rightarrow> 'p system \<Rightarrow> bool" where
  enqueue: "enqueue_locked x (proc s) = Some (dropped, p) \<Longrightarrow>
    step s (s\<lparr>proc := p, owing := owing s + (if dropped then 1 else 0),
      notifying := notifying s + (if dropped then 0 else 1)\<rparr>)"
| report_drop: "0 < owing s \<Longrightarrow>
    step s (s\<lparr>proc := recordDrop 1 (proc s), owing := owing s - 1, notifying := notifying s + 1\<rparr>)"
| notify: "0 < notifying s \<Longrightarrow> step s (s\<lparr>wake := True, notifying := notifying s - 1\<rparr>)"
| stopAccepting: "step s (s\<lparr>proc := (proc s)\<lparr>accepting := False\<rparr>, notifying := notifying s + 1\<rparr>)"
| cancel: "\<not> accepting (proc s) \<Longrightarrow> step s (s\<lparr>canceled := True, notifying := notifying s + 1\<rparr>)"
| take: "worker s = Taking \<Longrightarrow> take_points (batchSize (proc s)) (proc s) = (r, p) \<Longrightarrow>
    step s (s\<lparr>proc := p, worker := after_take r (batchSize (proc s))\<rparr>)"
| wake_up: "worker s = Waiting \<Longrightarrow> wake s \<Longrightarrow> step s (s\<lparr>worker := Taking, wake := False\<rparr>)"
| wait_canceled: "worker s = Waiting \<Longrightarrow> canceled s \<Longrightarrow> step s (s\<lparr>worker := Dropping\<rparr>)"
| fill: "worker s = Filling b \<Longrightarrow> take_points (batchSize (proc s) - length b) (proc s) = (r, p) \<Longrightarrow>
    step s (s\<lparr>proc := p, worker := after_fill b r (batchSize (proc s))\<rparr>)"
| fill_wake: "worker s = FillWaiting b \<Longrightarrow> wake s \<Longrightarrow> step s (s\<lparr>worker := Filling b, wake := False\<rparr>)"
| fill_timeout: "worker s = FillWaiting b \<Longrightarrow> step s (s\<lparr>worker := Writing b 1\<rparr>)"
| fill_canceled: "worker s = FillWaiting b \<Longrightarrow> canceled s \<Longrightarrow> step s (s\<lparr>worker := Dropping\<rparr>)"
| write_ok: "worker s = Writing b k \<Longrightarrow>
    step s (s\<lparr>proc := (proc s)\<lparr>m_written := m_written (proc s) + of_nat (length b)\<rparr>,
      worker := Completing (length b)\<rparr>)"
| write_error: "worker s = Writing b k \<Longrightarrow> \<not> canceled s \<Longrightarrow> write_failed b k (proc s) = (w, p) \<Longrightarrow>
    step s (s\<lparr>proc := p, worker := w\<rparr>)"
| write_canceled: "worker s = Writing b k \<Longrightarrow> canceled s \<Longrightarrow> step s (s\<lparr>worker := Dropping\<rparr>)"
| retry: "worker s = Retrying b k \<Longrightarrow> step s (s\<lparr>worker := Writing b k\<rparr>)"
| retry_canceled: "worker s = Retrying b k \<Longrightarrow> canceled s \<Longrightarrow> step s (s\<lparr>worker := Dropping\<rparr>)"
| complete: "worker s = Completing n \<Longrightarrow>
    step s (s\<lparr>proc := completeBatch n (proc s), worker := Taking\<rparr>)"
| drop: "worker s = Dropping \<Longrightarrow> dropRemaining_locked (proc s) = (n, p) \<Longrightarrow>
    step s (s\<lparr>proc := p, worker := Reporting n\<rparr>)"
| report: "worker s = Reporting n \<Longrightarrow>
    step s (s\<lparr>proc := recordDrop n (proc s), worker := Stopped\<rparr>)"

inductive reachable :: "'p system \<Rightarrow> bool" where
  start: "newServerStatusProcessor n b a = Some p \<Longrightarrow>
    reachable \<lparr>proc = p, worker = Taking, wake = False, canceled = False, owing = 0, notifying = 0\<rparr>"
| next_step: "reachable s \<Longrightarrow> step s t \<Longrightarrow> reachable t"

section \<open>The books balance\<close>

text \<open>The points the worker holds and has not accounted for yet.\<close>

definition held :: "'p worker \<Rightarrow> nat \<Rightarrow> nat" where
  "held w flight = (case w of Completing n \<Rightarrow> 0 | Reporting n \<Rightarrow> n | _ \<Rightarrow> flight)"

definition batch_matches :: "'p worker \<Rightarrow> nat \<Rightarrow> bool" where
  "batch_matches w flight =
     (case w of
        Taking \<Rightarrow> flight = 0 | Waiting \<Rightarrow> flight = 0 | Filling b \<Rightarrow> flight = length b
      | FillWaiting b \<Rightarrow> flight = length b | Writing b _ \<Rightarrow> flight = length b
      | Retrying b _ \<Rightarrow> flight = length b | Completing n \<Rightarrow> flight = n | Dropping \<Rightarrow> True
      | Reporting _ \<Rightarrow> flight = 0 | Stopped \<Rightarrow> flight = 0)"

definition balanced :: "'p system \<Rightarrow> bool" where
  "balanced s \<longleftrightarrow>
     (let p = proc s in
      m_enqueued p = m_written p + m_failed p + m_dropped p
        + of_nat (size p + held (worker s) (inFlight p) + owing s))"

definition sys_inv :: "'p system \<Rightarrow> bool" where
  "sys_inv s \<longleftrightarrow> ring_inv (proc s) \<and> batch_matches (worker s) (inFlight (proc s)) \<and> balanced s \<and>
     (canceled s \<longrightarrow> \<not> accepting (proc s)) \<and>
     (worker s \<in> {Dropping, Stopped} \<union> range Reporting \<longrightarrow> \<not> accepting (proc s)) \<and>
     (worker s \<in> {Stopped} \<union> range Reporting \<longrightarrow> size (proc s) = 0) \<and>
     0 < batchSize (proc s)"

lemma advance_fields [simp]:
  "inFlight (advance p) = inFlight p" "batchSize (advance p) = batchSize p" "accepting (advance p) = accepting p"
  "m_enqueued (advance p) = m_enqueued p" "m_written (advance p) = m_written p"
  "m_failed (advance p) = m_failed p" "m_dropped (advance p) = m_dropped p"
  by (simp_all add: advance_def)

lemma take_loop_fields [simp]:
  "inFlight (snd (take_loop n p)) = inFlight p" "batchSize (snd (take_loop n p)) = batchSize p"
  "accepting (snd (take_loop n p)) = accepting p" "m_enqueued (snd (take_loop n p)) = m_enqueued p"
  "m_written (snd (take_loop n p)) = m_written p" "m_failed (snd (take_loop n p)) = m_failed p"
  "m_dropped (snd (take_loop n p)) = m_dropped p" "size (snd (take_loop n p)) = size p - n"
  by (induction n arbitrary: p) (simp_all add: case_prod_beta)

lemma drop_loop_snd: "drop_loop n p = snd (take_loop n p)"
  by (induction n arbitrary: p) (simp_all add: case_prod_beta)

lemma length_take_loop [simp]: "length (fst (take_loop n p)) = n"
  by (induction n arbitrary: p) (simp_all add: case_prod_beta)

text \<open>What a \<open>take\<close> does to the fields the invariant speaks of.\<close>

lemma take_points_fields:
  assumes "take_points n p = ((b, acc), p')"
  shows "length b = min n (size p)" "size p' = size p - length b" "inFlight p' = inFlight p + length b"
    "acc = accepting p" "batchSize p' = batchSize p" "accepting p' = accepting p"
    "m_enqueued p' = m_enqueued p" "m_written p' = m_written p" "m_failed p' = m_failed p"
    "m_dropped p' = m_dropped p"
  using assms by (auto simp: take_points_def Let_def case_prod_beta)

lemma take_points_ring_inv: "ring_inv p \<Longrightarrow> take_points n p = (r, p') \<Longrightarrow> ring_inv p'"
  using take_points_spec [of p n] in_set_dropD by (fastforce simp: ring_inv_def)

lemma pushLocked_fields:
  assumes "pushLocked x p = (dropped, p')" "ring_ok p"
  shows "dropped \<longleftrightarrow> size p = length (queue p)" "size p' = (if dropped then size p else size p + 1)"
    "inFlight p' = inFlight p" "batchSize p' = batchSize p" "accepting p' = accepting p"
    "m_enqueued p' = m_enqueued p" "m_written p' = m_written p" "m_failed p' = m_failed p"
    "m_dropped p' = m_dropped p"
  using assms by (auto simp: pushLocked_def Let_def append_point_def advance_def ring_ok_def)

lemma pushLocked_ring_inv: "ring_inv p \<Longrightarrow> pushLocked x p = (dr, p') \<Longrightarrow> ring_inv p'"
  using pushLocked_ok [of p x] contents_pushLocked [of p x]
  by (auto simp: ring_inv_def dest: in_set_tlD split: if_splits)

lemma ring_inv_update [simp]:
  "ring_inv (p\<lparr>m_enqueued := a\<rparr>) = ring_inv p" "ring_inv (p\<lparr>m_written := a\<rparr>) = ring_inv p"
  "ring_inv (p\<lparr>m_failed := a\<rparr>) = ring_inv p" "ring_inv (p\<lparr>m_dropped := a\<rparr>) = ring_inv p"
  "ring_inv (p\<lparr>m_retried := a\<rparr>) = ring_inv p" "ring_inv (p\<lparr>m_failureEvents := a\<rparr>) = ring_inv p"
  "ring_inv (p\<lparr>m_dropEvents := a\<rparr>) = ring_inv p" "ring_inv (p\<lparr>accepting := c\<rparr>) = ring_inv p"
  "ring_inv (p\<lparr>inFlight := k\<rparr>) = ring_inv p"
  by (simp_all add: ring_inv_def ring_ok_def contents_def)

lemmas sys_inv_defs = sys_inv_def balanced_def Let_def batch_matches_def held_def

lemma enqueue_inv:
  assumes "sys_inv s" "enqueue_locked x (proc s) = Some (dropped, p)"
  shows "sys_inv (s\<lparr>proc := p, owing := owing s + (if dropped then 1 else 0),
      notifying := notifying s + (if dropped then 0 else 1)\<rparr>)"
proof -
  obtain p' where push: "pushLocked x (proc s) = (dropped, p')" and p: "p = p'\<lparr>m_enqueued := m_enqueued p' + 1\<rparr>"
    and acc: "accepting (proc s)"
    using assms(2) by (auto simp: enqueue_locked_def split: if_splits prod.splits)
  have inv: "ring_inv (proc s)" "balanced s" using assms(1) by (simp_all add: sys_inv_def)
  note f = pushLocked_fields [OF push inv(1) [unfolded ring_inv_def, THEN conjunct1]]
  have w: "worker s \<notin> {Dropping, Stopped} \<union> range Reporting" using assms(1) acc by (auto simp: sys_inv_def)
  have "m_enqueued p = m_written p + m_failed p + m_dropped p +
      of_nat (size p + held (worker s) (inFlight p) + (owing s + (if dropped then 1 else 0)))"
    using inv(2) by (cases dropped) (simp_all add: balanced_def Let_def p f)
  moreover have "ring_inv p" using pushLocked_ring_inv [OF inv(1) push] by (simp add: p)
  ultimately show ?thesis
    using assms(1) acc w f unfolding sys_inv_def balanced_def Let_def by (simp add: p)
qed

lemma take_inv:
  assumes "sys_inv s" "worker s = Taking" "take_points (batchSize (proc s)) (proc s) = (r, p)"
  shows "sys_inv (s\<lparr>proc := p, worker := after_take r (batchSize (proc s))\<rparr>)"
proof -
  obtain b acc where r: "r = (b, acc)" by fastforce
  note f = take_points_fields [OF assms(3) [unfolded r]]
  have "ring_inv p" using take_points_ring_inv [OF _ assms(3)] assms(1) by (simp add: sys_inv_def)
  with assms(1,2) f show ?thesis
    by (auto simp: sys_inv_defs after_take_def r add_ac)
qed

lemma fill_inv:
  assumes "sys_inv s" "worker s = Filling b" "take_points (batchSize (proc s) - length b) (proc s) = (r, p)"
  shows "sys_inv (s\<lparr>proc := p, worker := after_fill b r (batchSize (proc s))\<rparr>)"
proof -
  obtain b' acc where r: "r = (b', acc)" by fastforce
  note f = take_points_fields [OF assms(3) [unfolded r]]
  have "ring_inv p" using take_points_ring_inv [OF _ assms(3)] assms(1) by (simp add: sys_inv_def)
  with assms(1,2) f show ?thesis
    by (auto simp: sys_inv_defs after_fill_def r add_ac)
qed

lemma drop_inv:
  assumes "sys_inv s" "worker s = Dropping" "dropRemaining_locked (proc s) = (n, p)"
  shows "sys_inv (s\<lparr>proc := p, worker := Reporting n\<rparr>)"
proof -
  let ?q = "(proc s)\<lparr>inFlight := 0\<rparr>"
  have p: "p = snd (take_loop (size (proc s)) ?q)" and n: "n = inFlight (proc s) + size (proc s)"
    using assms(3) by (auto simp: dropRemaining_locked_def drop_loop_snd)
  have inv: "ring_inv (proc s)" using assms(1) by (simp add: sys_inv_def)
  then have "ring_ok ?q" by (simp add: ring_inv_def)
  with take_loop_spec [of ?q "size (proc s)"] have "ring_inv p" by (simp add: ring_inv_def p)
  then show ?thesis
    using assms(1,2) by (auto simp: sys_inv_defs p n add_ac)
qed

lemma recordDrop_fields [simp]:
  "ring_inv (recordDrop n p) = ring_inv p" "size (recordDrop n p) = size p" "inFlight (recordDrop n p) = inFlight p"
  "accepting (recordDrop n p) = accepting p" "batchSize (recordDrop n p) = batchSize p"
  "m_enqueued (recordDrop n p) = m_enqueued p" "m_written (recordDrop n p) = m_written p"
  "m_failed (recordDrop n p) = m_failed p" "m_dropped (recordDrop n p) = m_dropped p + of_nat n"
  by (simp_all add: recordDrop_def)

lemma write_error_inv:
  assumes "sys_inv s" "worker s = Writing b k" "write_failed b k (proc s) = (w, p)"
  shows "sys_inv (s\<lparr>proc := p, worker := w\<rparr>)"
  using assms by (auto simp: write_failed_def sys_inv_defs add_ac split: if_splits)

lemma report_drop_inv:
  assumes "sys_inv s" "0 < owing s"
  shows "sys_inv (s\<lparr>proc := recordDrop 1 (proc s), owing := owing s - 1, notifying := notifying s + 1\<rparr>)"
proof -
  obtain k where k: "owing s = Suc k" using assms(2) gr0_implies_Suc by blast
  have "m_enqueued (proc s) = m_written (proc s) + m_failed (proc s) + (m_dropped (proc s) + 1) +
      of_nat (size (proc s) + held (worker s) (inFlight (proc s)) + k)"
    using assms(1) k by (simp add: sys_inv_def balanced_def Let_def add_ac)
  with assms(1) k show ?thesis unfolding sys_inv_def balanced_def Let_def by simp
qed

lemma worker_only_inv:
  assumes "sys_inv s" "batch_matches w (inFlight (proc s))"
    "held w (inFlight (proc s)) = held (worker s) (inFlight (proc s))"
    "w \<in> {Dropping, Stopped} \<union> range Reporting \<Longrightarrow> \<not> accepting (proc s)"
    "w \<notin> {Stopped} \<union> range Reporting"
  shows "sys_inv (s\<lparr>worker := w\<rparr>)"
  using assms by (auto simp: sys_inv_def balanced_def Let_def)

lemma step_inv: "step s t \<Longrightarrow> sys_inv s \<Longrightarrow> sys_inv t"
proof (induction rule: step.induct)
  case (enqueue x s dropped p)
  then show ?case by (rule enqueue_inv [rotated])
next
  case (report_drop s)
  then show ?case by (intro report_drop_inv)
next
  case (take s r p)
  then show ?case by (intro take_inv)
next
  case (fill s b r p)
  then show ?case by (intro fill_inv)
next
  case (write_error s b k w p)
  then show ?case by (intro write_error_inv)
next
  case (drop s n p)
  then show ?case by (intro drop_inv)
next
  case (wait_canceled s)
  then show ?case by (intro worker_only_inv) (auto simp: sys_inv_def batch_matches_def held_def)
next
  case (fill_canceled s b)
  then show ?case by (intro worker_only_inv) (auto simp: sys_inv_def batch_matches_def held_def)
next
  case (write_canceled s b k)
  then show ?case by (intro worker_only_inv) (auto simp: sys_inv_def batch_matches_def held_def)
next
  case (retry_canceled s b k)
  then show ?case by (intro worker_only_inv) (auto simp: sys_inv_def batch_matches_def held_def)
next
  case (complete s n)
  then show ?case by (auto simp: sys_inv_defs completeBatch_def)
next
  case (report s n)
  then show ?case by (auto simp: sys_inv_defs add_ac)
next
  case (write_ok s b k)
  then show ?case by (auto simp: sys_inv_defs add_ac)
next
  case (stopAccepting s)
  then show ?case by (simp add: sys_inv_def balanced_def Let_def)
next
  case (notify s)
  then show ?case by (simp add: sys_inv_def balanced_def Let_def)
next
  case (cancel s)
  then show ?case by (simp add: sys_inv_def balanced_def Let_def)
qed (auto simp: sys_inv_defs)

lemma new_processor_inv:
  assumes "newServerStatusProcessor n b a = Some p"
  shows "sys_inv \<lparr>proc = p, worker = Taking, wake = False, canceled = False, owing = 0, notifying = 0\<rparr>"
proof -
  have "p = \<lparr>queue = replicate n None, head = 0, size = 0, inFlight = 0, batchSize = b,
        writeAttempts = a, accepting = True, m_enqueued = 0, m_written = 0, m_retried = 0,
        m_failed = 0, m_dropped = 0, m_dropEvents = 0, m_failureEvents = 0\<rparr>" "0 < n" "0 < b"
    using assms by (auto simp: newServerStatusProcessor_def split: if_splits)
  then show ?thesis by (auto simp: sys_inv_defs ring_inv_def ring_ok_def contents_def)
qed

lemma reachable_inv: "reachable s \<Longrightarrow> sys_inv s"
  by (induction rule: reachable.induct) (auto intro: new_processor_inv step_inv)

section \<open>A stopped processor drains its queue\<close>

text \<open>
  The steps of calls under way and of the worker. A new call of \<open>enqueue\<close>, \<open>stopAccepting\<close> or \<open>cancel\<close> brings one more
  goroutine that still has to report or to notify; every other step brings none.
\<close>

definition inner_step :: "'p system \<Rightarrow> 'p system \<Rightarrow> bool" where
  "inner_step s t \<longleftrightarrow> step s t \<and> notifying t + owing t \<le> notifying s + owing s"

text \<open>
  How far the worker is from its end: each batch takes at most two steps per attempt and a few around them.
\<close>

definition position :: "nat \<Rightarrow> 'p worker \<Rightarrow> nat" where
  "position attempts w =
     (case w of
        Taking \<Rightarrow> 1 | Waiting \<Rightarrow> 3 | Filling _ \<Rightarrow> 2 * attempts + 4 | FillWaiting _ \<Rightarrow> 2 * attempts + 5
      | Writing _ k \<Rightarrow> 2 * (attempts - k) + 3 | Retrying _ k \<Rightarrow> 2 * (attempts - k) + 4 | Completing _ \<Rightarrow> 2
      | Dropping \<Rightarrow> 2 | Reporting _ \<Rightarrow> 1 | Stopped \<Rightarrow> 0)"

definition drain_measure :: "'p system \<Rightarrow> nat" where
  "drain_measure s = size (proc s) * (2 * writeAttempts (proc s) + 4) + position (writeAttempts (proc s)) (worker s) + notifying s + 2 * owing s"

text \<open>A worker that waits on an empty queue after the end of accepting will be woken; it gives up points only when it is canceled.\<close>

definition wakes :: "'p system \<Rightarrow> bool" where
  "wakes s \<longleftrightarrow> (worker s = Waiting \<and> \<not> accepting (proc s) \<longrightarrow> wake s \<or> 0 < notifying s) \<and>
     (worker s \<in> {Dropping} \<union> range Reporting \<longrightarrow> canceled s)"

lemma take_loop_attempts [simp]: "writeAttempts (snd (take_loop n p)) = writeAttempts p"
  by (induction n arbitrary: p) (simp_all add: case_prod_beta advance_def)

lemma take_points_attempts: "take_points n p = (r, p') \<Longrightarrow> writeAttempts p' = writeAttempts p"
  by (auto simp: take_points_def Let_def case_prod_beta)

lemma enqueue_accepts: "enqueue_locked x p = Some (dr, p') \<Longrightarrow> accepting p \<and> accepting p' = accepting p"
  by (auto simp: enqueue_locked_def pushLocked_def append_point_def Let_def split: if_splits)

lemma step_wakes: "step s t \<Longrightarrow> wakes s \<Longrightarrow> wakes t"
proof (induction rule: step.induct)
  case (enqueue x s dropped p)
  then show ?case using enqueue_accepts [OF enqueue(1)] by (auto simp: wakes_def)
next
  case (take s r p)
  obtain b acc where r: "r = (b, acc)" by fastforce
  from take_points_fields(4,6) [OF take(2) [unfolded r]] show ?case by (auto simp: wakes_def after_take_def r)
next
  case (fill s b r p)
  then show ?case by (auto simp: wakes_def after_fill_def Let_def split: prod.splits)
next
  case (write_error s b k w p)
  then show ?case by (auto simp: wakes_def write_failed_def split: if_splits)
qed (auto simp: wakes_def)

lemma reachable_wakes: "reachable s \<Longrightarrow> wakes s"
proof (induction rule: reachable.induct)
  case (next_step s t)
  from step_wakes [OF next_step(2,3)] show ?case .
qed (auto simp: wakes_def)

lemma step_stopped: "step s t \<Longrightarrow> \<not> accepting (proc s) \<Longrightarrow> \<not> accepting (proc t)"
proof (induction rule: step.induct)
  case (take s r p)
  then show ?case using take_points_fields(6) [of _ "proc s" _ _ p] by (cases r) auto
next
  case (fill s b r p)
  then show ?case using take_points_fields(6) [of _ "proc s" _ _ p] by (cases r) auto
next
  case (drop s n p)
  then show ?case by (auto simp: dropRemaining_locked_def drop_loop_snd)
qed (auto simp: write_failed_def completeBatch_def dest: enqueue_accepts split: if_splits)

text \<open>Every inner step of a stopped processor brings its end nearer.\<close>

lemma inner_step_decreases:
  assumes "\<not> accepting (proc s)" "inner_step s t"
  shows "drain_measure t < drain_measure s"
proof -
  from assms(2) have "step s t" "notifying t + owing t \<le> notifying s + owing s" by (simp_all add: inner_step_def)
  then show ?thesis using assms(1)
  proof (induction rule: step.induct)
    case (enqueue x s dropped p)
    from enqueue_accepts [OF enqueue(1)] enqueue(3) show ?case by simp
  next
    case (take s r p)
    obtain b acc where r: "r = (b, acc)" by fastforce
    note f = take_points_fields [OF take(2) [unfolded r]] take_points_attempts [OF take(2)]
    show ?case
    proof (cases "b = []")
      case True
      with take(1,4) f(1,2,4,6,11) show ?thesis by (simp add: drain_measure_def position_def after_take_def r)
    next
      case False
      then have "0 < length b" by blast
      moreover have "length b \<le> size (proc s)" unfolding f(1) by (rule min.cobounded2)
      ultimately have l: "0 < length b" "length b \<le> size (proc s)" by blast+
      let ?c = "2 * writeAttempts (proc s) + 4"
      have "Suc (size p) \<le> size (proc s)" using l f(2) by linarith
      from mult_le_mono1 [OF this, of ?c] have "size p * ?c + ?c \<le> size (proc s) * ?c" by simp
      with False take(1,4) f(4,6,11) show ?thesis by (simp add: drain_measure_def position_def after_take_def r)
    qed
  next
    case (fill s b r p)
    obtain b' acc where r: "r = (b', acc)" by fastforce
    note f = take_points_fields [OF fill(2) [unfolded r]] take_points_attempts [OF fill(2)]
    have "size p \<le> size (proc s)" using f(2) by simp
    with fill(1,4) f(4,11) show ?case
      by (simp add: drain_measure_def position_def after_fill_def r less_Suc_eq_le) (intro add_mono mult_le_mono1 | simp)+
  next
    case (write_error s b k w p)
    show ?case
    proof (cases "k < writeAttempts (proc s)")
      case True
      with write_error(3) have w: "w = Retrying b (k + 1)" "p = (proc s)\<lparr>m_retried := m_retried (proc s) + 1\<rparr>"
        by (simp_all add: write_failed_def)
      have "2 * (writeAttempts (proc s) - (k + 1)) + 4 < 2 * (writeAttempts (proc s) - k) + 3" using True by linarith
      with write_error(1) show ?thesis by (simp add: drain_measure_def position_def w)
    next
      case False
      with write_error(3) have "w = Completing (length b)" "size p = size (proc s)" "writeAttempts p = writeAttempts (proc s)"
        by (auto simp: write_failed_def)
      with write_error(1) show ?thesis by (simp add: drain_measure_def position_def)
    qed
  next
    case (drop s n p)
    then show ?case by (auto simp: drain_measure_def position_def dropRemaining_locked_def drop_loop_snd)
  next
    case (report_drop s)
    then show ?case by (simp add: drain_measure_def recordDrop_def)
  next
    case (report s n)
    then show ?case by (simp add: drain_measure_def position_def recordDrop_def)
  qed (simp_all add: drain_measure_def position_def completeBatch_def)
qed

text \<open>And as long as something is left to do, there is one.\<close>

lemma inner_step_exists:
  assumes "wakes s" "\<not> accepting (proc s)" "worker s \<noteq> Stopped \<or> 0 < owing s \<or> 0 < notifying s"
  shows "\<exists>t. inner_step s t"
proof (cases "0 < owing s \<or> 0 < notifying s")
  case True
  then show ?thesis
  proof
    assume "0 < owing s"
    with step.report_drop [OF this] show ?thesis by (auto simp: inner_step_def)
  next
    assume "0 < notifying s"
    with step.notify [OF this] show ?thesis by (auto simp: inner_step_def)
  qed
next
  case False
  with assms have w: "worker s \<noteq> Stopped" "worker s = Waiting \<Longrightarrow> wake s" by (auto simp: wakes_def)
  have inner: "\<exists>t. inner_step s t" if "step s t" "notifying t = notifying s" "owing t = owing s" for t
    using that by (auto simp: inner_step_def)
  show ?thesis
  proof (cases "worker s")
    case Taking
    obtain r p where "take_points (batchSize (proc s)) (proc s) = (r, p)" by fastforce
    from inner [OF step.take [OF Taking this]] show ?thesis by simp
  next
    case (Filling b)
    obtain r p where "take_points (batchSize (proc s) - length b) (proc s) = (r, p)" by fastforce
    from inner [OF step.fill [OF Filling this]] show ?thesis by simp
  next
    case Dropping
    obtain n p where "dropRemaining_locked (proc s) = (n, p)" by fastforce
    from inner [OF step.drop [OF Dropping this]] show ?thesis by simp
  qed (use w inner [OF step.wake_up] inner [OF step.fill_timeout] inner [OF step.write_ok] inner [OF step.retry] inner [OF step.complete]
      inner [OF step.report] in auto)
qed

text \<open>Without a cancellation only evictions that are still to be reported are dropped.\<close>

lemma inner_step_drops:
  assumes "wakes s" "\<not> accepting (proc s)" "\<not> canceled s" "inner_step s t"
  shows "m_dropped (proc t) + of_nat (owing t) = m_dropped (proc s) + of_nat (owing s) \<and> \<not> canceled t"
proof -
  from assms(4) have "step s t" "notifying t + owing t \<le> notifying s + owing s" by (simp_all add: inner_step_def)
  then show ?thesis using assms(1-3)
  proof (induction rule: step.induct)
    case (enqueue x s dropped p)
    from enqueue_accepts [OF enqueue(1)] enqueue(4) show ?case by simp
  next
    case (report_drop s)
    then obtain k where "owing s = Suc k" using gr0_implies_Suc by blast
    then show ?case using report_drop by simp
  next
    case (take s r p)
    obtain b acc where r: "r = (b, acc)" by fastforce
    from take_points_fields(10) [OF take(2) [unfolded r]] take(6) show ?case by simp
  next
    case (fill s b r p)
    obtain b' acc where r: "r = (b', acc)" by fastforce
    from take_points_fields(10) [OF fill(2) [unfolded r]] fill(6) show ?case by simp
  next
    case (write_error s b k w p)
    then have "m_dropped p = m_dropped (proc s)" by (auto simp: write_failed_def split: if_splits)
    with write_error(7) show ?case by simp
  next
    case (drop s n p)
    then show ?case by (auto simp: wakes_def)
  next
    case (report s n)
    then show ?case by (auto simp: wakes_def)
  qed (simp_all add: completeBatch_def)
qed

lemma inner_run:
  assumes "reachable s" "\<not> accepting (proc s)" "(inner_step ^^ n) s t"
  shows "reachable t \<and> \<not> accepting (proc t) \<and> n + drain_measure t \<le> drain_measure s \<and>
    (\<not> canceled s \<longrightarrow> m_dropped (proc t) + of_nat (owing t) = m_dropped (proc s) + of_nat (owing s) \<and> \<not> canceled t)"
  using assms(3)
proof (induction n arbitrary: t)
  case 0
  then show ?case using assms(1,2) by simp
next
  case (Suc n)
  then obtain u where u: "(inner_step ^^ n) s u" "inner_step u t" by auto
  note IH = Suc.IH [OF u(1)]
  then have i: "reachable u" "\<not> accepting (proc u)" by simp_all
  have st: "step u t" using u(2) by (simp add: inner_step_def)
  from IH inner_step_decreases [OF i(2) u(2)] step_stopped [OF st i(2)] reachable.next_step [OF i(1) st]
    inner_step_drops [OF reachable_wakes [OF i(1)] i(2) _ u(2)]
  show ?case by auto
qed

section \<open>Properties\<close>

text \<open>
  (C10) The ring buffer is a bounded queue of its capacity: after any sequence of insertions it
  holds exactly the newest points that fit, oldest first, and taking \<open>n\<close> points removes the
  first \<open>n\<close> in order and leaves the others.
\<close>

theorem ring_refines_bounded_queue:
  assumes "ring_inv p"
  shows "points (fold ring_put xs p) = drop (size p + length xs - length (queue p)) (points p @ xs) \<and>
    map the (fst (ring_get n (fold ring_put xs p))) = take n (points (fold ring_put xs p)) \<and>
    points (snd (ring_get n (fold ring_put xs p))) = drop n (points (fold ring_put xs p)) \<and>
    ring_inv (snd (ring_get n (fold ring_put xs p)))"
  using ring.put_all_items [OF assms, of xs] ring.put_all_inv [OF assms, of xs]
    ring.get_items [of "fold ring_put xs p" n] ring.get_inv [of "fold ring_put xs p" n]
  by (simp add: points_def)

definition sample_processor :: "nat processor" where
  "sample_processor = the (newServerStatusProcessor 3 2 2)"

theorem ring_refines_bounded_queue_witness:
  "ring_inv sample_processor \<and> points (fold ring_put [1, 2, 3, 4] sample_processor) = [2, 3, 4]"
proof -
  have "ring_inv sample_processor"
    by (simp add: sample_processor_def newServerStatusProcessor_def ring_inv_def ring_ok_def contents_def)
  with ring_refines_bounded_queue [OF this, of "[1, 2, 3, 4]"] show ?thesis
    by (simp add: sample_processor_def newServerStatusProcessor_def points_def contents_def)
qed

text \<open>
  (C32) The books balance in every reachable state, under every interleaving of producers, worker
  and shutdown: the accepted points are those written, failed, dropped, still queued, still held
  by the worker, or evicted by a producer that has not reported the eviction yet; the counters
  are compared as they are, modulo two to the 64. The ring is intact, and when the worker has
  returned and every producer has reported, nothing is pending and nothing is missing.
\<close>

theorem status_points_conserved:
  assumes "reachable s"
  defines "st \<equiv> stats (proc s)"
  shows "Enqueued st = Written st + Failed st + Dropped st +
      of_nat (size (proc s) + held (worker s) (inFlight (proc s)) + owing s) \<and>
    ring_inv (proc s) \<and>
    (worker s = Stopped \<and> owing s = 0 \<longrightarrow>
       Pending st = 0 \<and> Enqueued st = Written st + Failed st + Dropped st)"
  using reachable_inv [OF assms(1)] by (auto simp: sys_inv_defs st_def stats_def)

theorem status_points_conserved_witness:
  "\<exists>s :: nat system. reachable s \<and> m_enqueued (proc s) = 1 \<and>
     m_enqueued (proc s) = m_written (proc s) + m_failed (proc s) + m_dropped (proc s) + of_nat (size (proc s))"
proof -
  let ?s0 = "\<lparr>proc = sample_processor, worker = Taking, wake = False, canceled = False, owing = 0, notifying = 0\<rparr>"
  let ?p = "snd (the (enqueue_locked 5 sample_processor))"
  have "newServerStatusProcessor 3 2 2 = Some sample_processor"
    by (simp add: sample_processor_def newServerStatusProcessor_def)
  then have "reachable ?s0" by (rule reachable.start)
  moreover have "enqueue_locked 5 (proc ?s0) = Some (False, ?p)" by code_simp
  from step.enqueue [OF this] have "step ?s0 (?s0\<lparr>proc := ?p, notifying := 1\<rparr>)" by simp
  ultimately have r: "reachable (?s0\<lparr>proc := ?p, notifying := 1\<rparr>)" by (rule reachable.next_step)
  moreover have "m_enqueued ?p = 1" "inFlight ?p = 0" by code_simp+
  ultimately show ?thesis
    using status_points_conserved [OF r] by (intro exI [of _ "?s0\<lparr>proc := ?p, notifying := 1\<rparr>"])
      (simp add: stats_def held_def)
qed

text \<open>
  (C33) Once the processor no longer accepts points, its worker comes to its end. From every reachable state
  after \<open>stopAccepting\<close>, as long as no new call is made, no run of the worker and of the calls under way is longer than a bound that the
  state gives, and a run stops only when the worker has returned and every notification and report is made. Then
  nothing is pending and every accepted point is counted as written, failed or dropped; and unless the processor was
  canceled, no point that was queued or held by the worker is dropped: all of them were written, or failed after the last attempt.
\<close>

theorem shutdown_drains_queue:
  assumes "reachable s" "\<not> accepting (proc s)" "(inner_step ^^ n) s t"
  shows "n \<le> drain_measure s \<and>
    ((\<exists>u. inner_step t u) \<or>
     worker t = Stopped \<and> owing t = 0 \<and> notifying t = 0 \<and> size (proc t) = 0 \<and> inFlight (proc t) = 0 \<and>
     m_enqueued (proc t) = m_written (proc t) + m_failed (proc t) + m_dropped (proc t) \<and>
     (\<not> canceled s \<longrightarrow> m_dropped (proc t) = m_dropped (proc s) + of_nat (owing s)))"
proof -
  note r = inner_run [OF assms]
  then have t: "reachable t" "\<not> accepting (proc t)" by simp_all
  show ?thesis
  proof (cases "\<exists>u. inner_step t u")
    case True
    with r show ?thesis by simp
  next
    case False
    with inner_step_exists [OF reachable_wakes [OF t(1)] t(2)] have "\<not> (worker t \<noteq> Stopped \<or> 0 < owing t \<or> 0 < notifying t)" by metis
    then have e: "worker t = Stopped" "owing t = 0" "notifying t = 0" by simp_all
    with reachable_inv [OF t(1)] r show ?thesis by (auto simp: sys_inv_defs)
  qed
qed

lemma sample_start:
  "reachable \<lparr>proc = sample_processor, worker = Taking, wake = False, canceled = False, owing = 0, notifying = 0\<rparr>"
  by (rule reachable.start [of 3 2 2]) (simp add: sample_processor_def newServerStatusProcessor_def)

text \<open>The worker waits on the empty queue, and the processor is shut down.\<close>

theorem shutdown_drains_queue_witness:
  "\<exists>s t :: nat system. reachable s \<and> worker s = Waiting \<and> \<not> accepting (proc s) \<and>
     (inner_step ^^ 3) s t \<and> worker t = Stopped \<and> 3 \<le> drain_measure s"
proof -
  let ?p = "sample_processor\<lparr>accepting := False\<rparr>"
  let ?start = "\<lparr>proc = sample_processor, worker = Taking, wake = False, canceled = False, owing = 0, notifying = 0\<rparr>"
  let ?s1 = "\<lparr>proc = ?p, worker = Waiting, wake = False, canceled = False, owing = 0, notifying = 1\<rparr>"
  let ?t = "\<lambda>w. \<lparr>proc = ?p, worker = w, wake = False, canceled = False, owing = 0, notifying = 0\<rparr>"
  have take: "take_points (batchSize sample_processor) sample_processor = (([], True), sample_processor)"
    "take_points (batchSize sample_processor) ?p = (([], False), ?p)" by code_simp+
  have "step ?start (?start\<lparr>worker := Waiting\<rparr>)" using step.take [of ?start "([], True)" sample_processor] take(1) by (simp add: after_take_def)
  moreover have "step (?start\<lparr>worker := Waiting\<rparr>) ?s1" using step.stopAccepting [of "?start\<lparr>worker := Waiting\<rparr>"] by simp
  ultimately have r: "reachable ?s1" using sample_start reachable.next_step by blast
  have "inner_step ?s1 ((?t Waiting)\<lparr>wake := True\<rparr>)" using step.notify [of ?s1] by (simp add: inner_step_def)
  moreover have "inner_step ((?t Waiting)\<lparr>wake := True\<rparr>) (?t Taking)"
    using step.wake_up [of "(?t Waiting)\<lparr>wake := True\<rparr>"] by (simp add: inner_step_def)
  moreover have "inner_step (?t Taking) (?t Stopped)"
    using step.take [of "?t Taking" "([], False)" ?p] take(2) by (simp add: inner_step_def after_take_def)
  ultimately have run: "(inner_step ^^ 3) ?s1 (?t Stopped)" by (auto simp: numeral_3_eq_3 relcompp_apply)
  with shutdown_drains_queue [OF r _ run] r show ?thesis by (intro exI [of _ ?s1] exI [of _ "?t Stopped"]) simp
qed

end
