(* ===== verification/Signed_Headers.thy ===== *)
theory Signed_Headers
  imports Go_Strings
begin

text \<open>
  Authentication of agent requests by signed headers: \<open>pkg/identity/auth.go\<close>. The Ed25519
  verification is an argument. The table of seen nonces is process-wide state; every call
  first forgets the entries that have expired. An instant is its number of nanoseconds.
\<close>

definition SignedHeaderMaxSkew :: duration where "SignedHeaderMaxSkew = 120 * second"

definition ed25519_PublicKeySize :: nat where "ed25519_PublicKeySize = 32"
definition ed25519_SignatureSize :: nat where "ed25519_SignatureSize = 64"

type_synonym seen = "(string, go_time) table"

definition replay_key :: "string \<Rightarrow> string \<Rightarrow> string \<Rightarrow> string" where
  "replay_key uid ts nonce = uid @ [CHR 0x00] @ ts @ [CHR 0x00] @ nonce"

definition isReplay :: "string \<Rightarrow> string \<Rightarrow> string \<Rightarrow> go_time \<Rightarrow> seen \<Rightarrow> bool \<times> seen" where
  "isReplay uid ts nonce now seen =
     (let key = replay_key uid ts nonce; expiresAt = now + SignedHeaderMaxSkew;
          live = delete_where (\<lambda>_ expiry. \<not> expiry > now) seen in
      if has_key live key then (True, live)
      else (False, AList.update key expiresAt live))"

datatype header_error =
    InvalidKeyLength
  | InvalidTimestamp
  | TimestampOutOfRange
  | InvalidSignatureEncoding
  | InvalidSignatureLength
  | SignatureFailed
  | ReplayedNonce

definition VerifySignedHeaders ::
  "(string \<Rightarrow> string \<Rightarrow> string \<Rightarrow> bool) \<Rightarrow> string \<Rightarrow> string \<Rightarrow> string \<Rightarrow> string \<Rightarrow> string \<Rightarrow> go_time \<Rightarrow>
   (seen, header_error, unit) io" where
  "VerifySignedHeaders verify publicKey uid ts nonce signature now =
     (if length publicKey \<noteq> ed25519_PublicKeySize then raise InvalidKeyLength
      else case parse_int64 ts of
        None \<Rightarrow> raise InvalidTimestamp
      | Some tsUnix \<Rightarrow>
        let t = tsUnix * second in
        if t > now + SignedHeaderMaxSkew \<or> t < now + - SignedHeaderMaxSkew then raise TimestampOutOfRange
        else case b64_std_decode signature of
          None \<Rightarrow> raise InvalidSignatureEncoding
        | Some sig \<Rightarrow>
          if length sig \<noteq> ed25519_SignatureSize then raise InvalidSignatureLength
          else if \<not> verify publicKey (uid @ [CHR 0x0A] @ ts @ [CHR 0x0A] @ nonce) sig then raise SignatureFailed
          else (\<lambda>seen. case isReplay uid ts nonce now seen of (replayed, seen') \<Rightarrow>
            (if replayed then (Inl ReplayedNonce, seen') else (Inr (), seen'))))"

section \<open>Replays\<close>

text \<open>A request as the table sees it.\<close>

record header_request =
  h_key :: string
  h_uid :: string
  h_ts :: string
  h_nonce :: string
  h_sig :: string
  h_now :: go_time

definition verify_request ::
  "(string \<Rightarrow> string \<Rightarrow> string \<Rightarrow> bool) \<Rightarrow> header_request \<Rightarrow> (seen, header_error, unit) io" where
  "verify_request verify q = VerifySignedHeaders verify (h_key q) (h_uid q) (h_ts q) (h_nonce q) (h_sig q) (h_now q)"

fun verify_all ::
  "(string \<Rightarrow> string \<Rightarrow> string \<Rightarrow> bool) \<Rightarrow> header_request list \<Rightarrow> seen \<Rightarrow> seen" where
  "verify_all verify [] seen = seen"
| "verify_all verify (q # qs) seen = verify_all verify qs (snd (verify_request verify q seen))"

lemma isReplay_keeps:
  assumes "keyed seen" "map_of seen k = Some e" "now < e"
  shows "keyed (snd (isReplay uid ts nonce now seen)) \<and>
    (map_of (snd (isReplay uid ts nonce now seen)) k = Some e) \<and>
    (k = replay_key uid ts nonce \<longrightarrow> fst (isReplay uid ts nonce now seen))"
  using assms by (auto simp: isReplay_def Let_def map_of_delete_where_Some has_key_def)

lemma isReplay_keyed: "keyed seen \<Longrightarrow> keyed (snd (isReplay uid ts nonce now seen))"
  by (simp add: isReplay_def Let_def)

lemma verify_state:
  "snd (verify_request verify q seen) = seen \<or>
   snd (verify_request verify q seen) = snd (isReplay (h_uid q) (h_ts q) (h_nonce q) (h_now q) seen)"
  by (auto simp: verify_request_def VerifySignedHeaders_def Let_def raise_def split: option.splits prod.splits)

lemma verify_Inr:
  assumes "verify_request verify q seen = (Inr x, seen')"
  shows "\<exists>tsUnix. parse_int64 (h_ts q) = Some tsUnix \<and>
    h_now q - SignedHeaderMaxSkew \<le> tsUnix * second \<and> tsUnix * second \<le> h_now q + SignedHeaderMaxSkew \<and>
    isReplay (h_uid q) (h_ts q) (h_nonce q) (h_now q) seen = (False, seen')"
  using assms
  by (auto simp: verify_request_def VerifySignedHeaders_def Let_def raise_def split: option.splits prod.splits if_splits)

lemma verify_all_keeps:
  assumes "keyed seen" "map_of seen k = Some e" "\<forall>q \<in> set qs. h_now q < e"
  shows "keyed (verify_all verify qs seen) \<and> map_of (verify_all verify qs seen) k = Some e"
  using assms
proof (induction qs arbitrary: seen)
  case (Cons q qs)
  have "keyed (snd (verify_request verify q seen)) \<and> map_of (snd (verify_request verify q seen)) k = Some e"
    using Cons.prems verify_state [of verify q seen] isReplay_keeps [of seen k e "h_now q" "h_uid q" "h_ts q" "h_nonce q"]
    by auto
  with Cons show ?case by simp
qed simp

lemma accepted_is_remembered:
  assumes "keyed seen" "verify_request verify q seen = (Inr x, seen')"
  shows "keyed seen' \<and> map_of seen' (replay_key (h_uid q) (h_ts q) (h_nonce q)) = Some (h_now q + SignedHeaderMaxSkew)"
  using verify_Inr [OF assms(2)] assms(1) by (auto simp: isReplay_def Let_def split: if_splits)

section \<open>Properties\<close>

text \<open>
  A signed header is accepted only while its timestamp is within two minutes of the clock,
  and a header whose timestamp lies before the moment of its first acceptance is never accepted
  a second time, whatever other requests are processed in between, as long as the clock does
  not run backwards.
\<close>

theorem signed_header_no_replay:
  assumes "keyed seen" "verify_request verify q seen = (Inr x, seen1)"
    "parse_int64 (h_ts q) = Some tsUnix" "tsUnix * second < h_now q"
    "list_all (\<lambda>p. h_now p \<le> h_now q') mid" "h_now q \<le> h_now q'"
    "h_uid q' = h_uid q" "h_ts q' = h_ts q" "h_nonce q' = h_nonce q"
  shows "\<bar>tsUnix * second - h_now q\<bar> \<le> 120 * second \<and>
    fst (verify_request verify q' (verify_all verify mid seen1)) \<noteq> Inr ()"
proof -
  have skew: "\<bar>tsUnix * second - h_now q\<bar> \<le> 120 * second"
    using verify_Inr [OF assms(2)] assms(3) by (auto simp: SignedHeaderMaxSkew_def)
  let ?k = "replay_key (h_uid q) (h_ts q) (h_nonce q)" and ?seen2 = "verify_all verify mid seen1"
  note r = accepted_is_remembered [OF assms(1,2)]
  have "verify_request verify q' ?seen2 \<noteq> (Inr y, seen3)" for y seen3
  proof
    assume acc: "verify_request verify q' ?seen2 = (Inr y, seen3)"
    from verify_Inr [OF acc] assms(3,8) have t: "h_now q' - SignedHeaderMaxSkew \<le> tsUnix * second"
      and no: "isReplay (h_uid q) (h_ts q) (h_nonce q) (h_now q') ?seen2 = (False, seen3)"
      using assms(7,9) by auto
    from t assms(4) have lt: "h_now q' < h_now q + SignedHeaderMaxSkew" by linarith
    then have "\<forall>p \<in> set mid. h_now p < h_now q + SignedHeaderMaxSkew"
      using assms(5) by (force simp: list_all_iff)
    with r verify_all_keeps [of seen1 ?k "h_now q + SignedHeaderMaxSkew" mid verify]
    have "keyed ?seen2 \<and> map_of ?seen2 ?k = Some (h_now q + SignedHeaderMaxSkew)" by blast
    with isReplay_keeps [of ?seen2 ?k "h_now q + SignedHeaderMaxSkew" "h_now q'" "h_uid q" "h_ts q" "h_nonce q"] lt no
    show False by simp
  qed
  then show ?thesis using skew by (metis prod.collapse)
qed

definition sample_header :: "go_time \<Rightarrow> header_request" where
  "sample_header now = \<lparr>h_key = replicate 32 CHR ''k'', h_uid = ''agent'', h_ts = ''1000'', h_nonce = ''n'',
     h_sig = replicate 86 CHR ''A'' @ ''=='', h_now = now\<rparr>"

theorem signed_header_no_replay_witness:
  "fst (verify_request (\<lambda>_ _ _. True) (sample_header (1010 * second)) []) = Inr () \<and>
   fst (verify_request (\<lambda>_ _ _. True) (sample_header (1100 * second))
     (verify_all (\<lambda>_ _ _. True) [sample_header (1050 * second)]
       (snd (verify_request (\<lambda>_ _ _. True) (sample_header (1010 * second)) [])))) \<noteq> Inr ()"
proof -
  let ?v = "\<lambda>_ _ _. True" and ?q = "sample_header (1010 * second)"
  have ok: "fst (verify_request ?v ?q []) = Inr ()" by code_simp
  then have run: "verify_request ?v ?q [] = (Inr (), snd (verify_request ?v ?q []))" by (simp add: prod_eq_iff)
  have ts: "parse_int64 (h_ts ?q) = Some 1000" by code_simp
  show ?thesis
    using signed_header_no_replay [OF _ run ts, of "sample_header (1100 * second)" "[sample_header (1050 * second)]"] ok
    by (simp add: sample_header_def)
qed

text \<open>The moment a nonce is forgotten does not move while requests with other nonces come in.\<close>

lemma isReplay_expiry:
  assumes "keyed seen" "\<And>e. map_of seen k = Some e \<Longrightarrow> e \<le> limit" "k \<noteq> replay_key uid ts nonce"
  shows "keyed (snd (isReplay uid ts nonce now seen)) \<and> (\<forall>e. map_of (snd (isReplay uid ts nonce now seen)) k = Some e \<longrightarrow> e \<le> limit)"
  using assms by (auto simp: isReplay_def Let_def map_of_delete_where_Some)

lemma verify_all_expiry:
  assumes "keyed seen" "\<And>e. map_of seen k = Some e \<Longrightarrow> e \<le> limit"
    "\<forall>p \<in> set qs. k \<noteq> replay_key (h_uid p) (h_ts p) (h_nonce p)"
  shows "keyed (verify_all verify qs seen) \<and> (\<forall>e. map_of (verify_all verify qs seen) k = Some e \<longrightarrow> e \<le> limit)"
  using assms
proof (induction qs arbitrary: seen)
  case (Cons q qs)
  have "keyed (snd (verify_request verify q seen)) \<and> (\<forall>e. map_of (snd (verify_request verify q seen)) k = Some e \<longrightarrow> e \<le> limit)"
    using verify_state [of verify q seen] isReplay_expiry [of seen k limit "h_uid q" "h_ts q" "h_nonce q" "h_now q"] Cons.prems by auto
  with Cons.IH [of "snd (verify_request verify q seen)"] Cons.prems(3) show ?case by simp
qed simp

text \<open>
  (C39) The nonce of a header is remembered for two minutes from its first use, but a header with
  a timestamp in the future stays within the accepted skew for longer than that: every header that was accepted is accepted a second time, at any
  moment from two minutes after its first use to two minutes after its timestamp, whatever requests with other nonces come in between.
\<close>

theorem signed_header_future_replay:
  assumes "keyed seen" "verify_request verify q seen = (Inr x, seen1)" "parse_int64 (h_ts q) = Some tsUnix"
    "\<forall>p \<in> set mid. replay_key (h_uid p) (h_ts p) (h_nonce p) \<noteq> replay_key (h_uid q) (h_ts q) (h_nonce q)"
    "h_now q + 120 * second \<le> now'" "now' \<le> tsUnix * second + 120 * second"
  shows "fst (verify_request verify (q\<lparr>h_now := now'\<rparr>) (verify_all verify mid seen1)) = Inr ()"
proof -
  let ?k = "replay_key (h_uid q) (h_ts q) (h_nonce q)" and ?seen2 = "verify_all verify mid seen1"
  note r = accepted_is_remembered [OF assms(1,2)]
  have s2: "keyed ?seen2" "map_of ?seen2 ?k = Some e \<Longrightarrow> e \<le> now'" for e
    using verify_all_expiry [of seen1 ?k "h_now q + SignedHeaderMaxSkew" mid verify] r assms(4,5) by (force simp: SignedHeaderMaxSkew_def)+
  have fresh: "fst (isReplay (h_uid q) (h_ts q) (h_nonce q) now' ?seen2) = False"
    using s2 by (auto simp: isReplay_def Let_def has_key_def map_of_delete_where_Some)
  have "tsUnix * second \<le> h_now q + SignedHeaderMaxSkew" "0 \<le> SignedHeaderMaxSkew"
    using verify_Inr [OF assms(2)] assms(3) by (auto simp: SignedHeaderMaxSkew_def)
  then have "\<not> (tsUnix * second > now' + SignedHeaderMaxSkew \<or> tsUnix * second < now' + - SignedHeaderMaxSkew)"
    using assms(5,6) by (simp add: SignedHeaderMaxSkew_def)
  with assms(2,3) fresh show ?thesis
    by (auto simp: verify_request_def VerifySignedHeaders_def Let_def raise_def split: option.splits prod.splits if_splits)
qed

theorem signed_header_future_replay_witness:
  "fst (verify_request (\<lambda>_ _ _. True) (sample_header (940 * second)) []) = Inr () \<and>
   fst (verify_request (\<lambda>_ _ _. True) ((sample_header (940 * second))\<lparr>h_now := 1100 * second\<rparr>)
     (verify_all (\<lambda>_ _ _. True) [] (snd (verify_request (\<lambda>_ _ _. True) (sample_header (940 * second)) [])))) = Inr ()"
proof -
  let ?v = "\<lambda>_ _ _. True" and ?q = "sample_header (940 * second)"
  have ok: "fst (verify_request ?v ?q []) = Inr ()" by code_simp
  then have run: "verify_request ?v ?q [] = (Inr (), snd (verify_request ?v ?q []))" by (simp add: prod_eq_iff)
  have ts: "parse_int64 (h_ts ?q) = Some 1000" by code_simp
  have now: "h_now ?q + 120 * second \<le> 1100 * second" "1100 * second \<le> 1000 * second + 120 * second"
    by (simp_all add: sample_header_def)
  from signed_header_future_replay [OF _ run ts _ now, of "[]"] ok show ?thesis by simp
qed

end
