(* ===== verification/Secure_Channel.thy ===== *)
theory Secure_Channel
  imports Prelude Go_Strings
begin

text \<open>
  The encrypted channel between hub and agent (\<open>pkg/securews\<close>): the digests the two sides sign
  in the handshake, the derivation of the session keys, and the ordered frames. SHA-256, HKDF,
  X25519, ChaCha20-Poly1305 and msgpack are parameters.
\<close>

unbundle bit_operations_syntax

section \<open>Byte encodings\<close>

fun be_bytes :: "nat \<Rightarrow> nat \<Rightarrow> string" where
  "be_bytes 0 n = []"
| "be_bytes (Suc k) n = be_bytes k (n div 256) @ [char_of n]"

definition PutUint64 :: "64 word \<Rightarrow> string" where
  "PutUint64 w = be_bytes 8 (unat w)"

text \<open>\<open>uint64(value)\<close> of an \<open>int64\<close> keeps the bits.\<close>

definition int64Bytes :: "64 word \<Rightarrow> string" where
  "int64Bytes value = PutUint64 value"

lemma length_be_bytes [simp]: "length (be_bytes k n) = k"
  by (induction k arbitrary: n) simp_all

lemma length_PutUint64 [simp]: "length (PutUint64 w) = 8"
  by (simp add: PutUint64_def)

lemma byte_eq_iff: "(char_of (m :: nat) = char_of n) \<longleftrightarrow> m mod 256 = n mod 256"
  by (simp add: char_of_eq_iff take_bit_eq_mod)

lemma be_bytes_inject: "be_bytes k m = be_bytes k n \<Longrightarrow> m < 256 ^ k \<Longrightarrow> n < 256 ^ k \<Longrightarrow> m = n"
proof (induction k arbitrary: m n)
  case (Suc k)
  have "m div 256 < 256 ^ k" "n div 256 < 256 ^ k" using Suc.prems by (simp_all add: less_mult_imp_div_less mult.commute)
  with Suc have "m div 256 = n div 256" "m mod 256 = n mod 256" by (auto simp: byte_eq_iff)
  then show ?case by (metis mult_div_mod_eq)
qed simp

lemma uint64_less: "unat (w :: 64 word) < 256 ^ 8"
proof -
  have "unat w < 2 ^ LENGTH(64)" by (rule unsigned_less)
  then show ?thesis by simp
qed

lemma PutUint64_inject [simp]: "PutUint64 v = PutUint64 w \<longleftrightarrow> v = w"
proof
  assume "PutUint64 v = PutUint64 w"
  then have "unat v = unat w" unfolding PutUint64_def by (rule be_bytes_inject) (rule uint64_less)+
  then show "v = w" by (rule unsigned_word_eqI)
qed simp

section \<open>The handshake\<close>

text \<open>\<open>hashFields\<close> writes every field after its length into the digest.\<close>

definition framed :: "string list \<Rightarrow> string" where
  "framed fields = concat (map (\<lambda>field. PutUint64 (of_nat (length field)) @ field) fields)"

definition hashFields :: "(string \<Rightarrow> string) \<Rightarrow> string list \<Rightarrow> string" where
  "hashFields sha256 fields = sha256 (framed fields)"

definition ProtocolVersion :: nat where "ProtocolVersion = 2"

definition HubFinished :: string where "HubFinished = ''mosona-secure-ws-v2 hub finished''"
definition AgentFinished :: string where "AgentFinished = ''mosona-secure-ws-v2 agent finished''"

record HandshakeContext =
  AgentUID :: string
  Path :: string
  HTTPNonce :: string
  HTTPTimestamp :: string

record HandshakeTranscript =
  Context :: HandshakeContext
  HubX25519Pub :: string
  HubNonce :: string
  HubTimestamp :: "64 word"
  AgentEd25519Pub :: string
  AgentX25519Pub :: string
  AgentNonce :: string

definition hub_fields :: "HandshakeContext \<Rightarrow> string \<Rightarrow> string \<Rightarrow> 64 word \<Rightarrow> string list" where
  "hub_fields ctx hubX25519Pub hubNonce timestamp =
     [[char_of ProtocolVersion], AgentUID ctx, Path ctx, HTTPNonce ctx, HTTPTimestamp ctx,
      hubX25519Pub, hubNonce, int64Bytes timestamp]"

definition HubSignatureMessage ::
  "(string \<Rightarrow> string) \<Rightarrow> HandshakeContext \<Rightarrow> string \<Rightarrow> string \<Rightarrow> 64 word \<Rightarrow> string" where
  "HubSignatureMessage sha256 ctx hubX25519Pub hubNonce timestamp =
     hashFields sha256 (''mosona-secure-ws-v2 hub signature'' # hub_fields ctx hubX25519Pub hubNonce timestamp)"

definition transcript_fields :: "HandshakeTranscript \<Rightarrow> string list" where
  "transcript_fields t =
     ''mosona-secure-ws-v2 transcript'' # hub_fields (Context t) (HubX25519Pub t) (HubNonce t) (HubTimestamp t) @
     [AgentEd25519Pub t, AgentX25519Pub t, AgentNonce t]"

definition TranscriptHash :: "(string \<Rightarrow> string) \<Rightarrow> HandshakeTranscript \<Rightarrow> string" where
  "TranscriptHash sha256 t = hashFields sha256 (transcript_fields t)"

definition AgentSignatureMessage :: "(string \<Rightarrow> string) \<Rightarrow> string \<Rightarrow> string" where
  "AgentSignatureMessage sha256 transcriptHash =
     hashFields sha256 [''mosona-secure-ws-v2 agent signature'', transcriptHash]"

text \<open>
  The strict decoder of the standard library also rejects an encoding whose unused bits are not
  zero, which is one that differs from the encoding of its own result.
\<close>

definition b64_strict_decode :: "string \<Rightarrow> string option" where
  "b64_strict_decode s = (case b64_std_decode s of
     None \<Rightarrow> None
   | Some b \<Rightarrow> if filter (\<lambda>c. c \<noteq> CHR 0x0A \<and> c \<noteq> CHR 0x0D) s = b64_std_encode b then Some b else None)"

definition DecodeExactBase64 :: "string \<Rightarrow> nat \<Rightarrow> string option" where
  "DecodeExactBase64 val sz = (case b64_strict_decode val of
     None \<Rightarrow> None
   | Some b \<Rightarrow> if length b \<noteq> sz \<or> b64_std_encode b \<noteq> val then None else Some b)"

lemma DecodeExactBase64_Some_iff:
  "DecodeExactBase64 val sz = Some b \<longleftrightarrow> val = b64_std_encode b \<and> length b = sz"
proof
  show "val = b64_std_encode b \<and> length b = sz" if "DecodeExactBase64 val sz = Some b"
    using that unfolding DecodeExactBase64_def by (simp split: option.splits if_splits)
  show "DecodeExactBase64 val sz = Some b" if "val = b64_std_encode b \<and> length b = sz"
  proof -
    have "b64_strict_decode (b64_std_encode b) = Some b"
      unfolding b64_strict_decode_def b64_std_decode_encode b64_std_strip by simp
    with that show ?thesis unfolding DecodeExactBase64_def by simp
  qed
qed

text \<open>A field that fits into memory has a length below \<open>2 ^ 64\<close>.\<close>

definition small :: "string \<Rightarrow> bool" where
  "small s \<longleftrightarrow> length s < 2 ^ 64"

lemma length_code_inject:
  "small x \<Longrightarrow> small y \<Longrightarrow> (of_nat (length x) :: 64 word) = of_nat (length y) \<Longrightarrow> length x = length y"
  by (drule arg_cong [of _ _ unat]) (simp add: small_def unat_of_nat)

lemma framed_inject:
  "framed xs = framed ys \<Longrightarrow> list_all small xs \<Longrightarrow> list_all small ys \<Longrightarrow> xs = ys"
proof (induction xs arbitrary: ys)
  case Nil
  then show ?case by (cases ys) (auto simp: framed_def dest: arg_cong [of _ _ length])
next
  case (Cons x xs)
  show ?case
  proof (cases ys)
    case Nil
    with Cons.prems(1) show ?thesis by (auto simp: framed_def dest: arg_cong [of _ _ length])
  next
    case (Cons y zs)
    have eq: "PutUint64 (of_nat (length x)) @ x @ framed xs = PutUint64 (of_nat (length y)) @ y @ framed zs"
      using Cons.prems(1) Cons by (simp add: framed_def)
    then have "PutUint64 (of_nat (length x)) = PutUint64 (of_nat (length y))" and rest: "x @ framed xs = y @ framed zs"
      by (simp_all add: append_eq_append_conv)
    then have "length x = length y"
      using Cons.prems Cons by (intro length_code_inject) auto
    with rest have "x = y" "framed xs = framed zs" by (simp_all add: append_eq_append_conv)
    with Cons.IH Cons.prems Cons show ?thesis by simp
  qed
qed

section \<open>Sessions\<close>

datatype Role = RoleHub | RoleAgent

definition oppositeRole :: "Role \<Rightarrow> Role" where
  "oppositeRole r = (if r = RoleHub then RoleAgent else RoleHub)"

record SecureFrame =
  Seq :: "64 word"
  Ciphertext :: string

text \<open>
  The primitives: \<open>ecdh\<close> of a private and a public key, \<open>hkdf\<close> reading 64 bytes for a secret, a
  salt and an info string, the two directions of the cipher by key, nonce, text and additional
  data, and the msgpack coding of a frame.
\<close>

record ('priv, 'pub) primitives =
  sha256 :: "string \<Rightarrow> string"
  hkdf :: "string \<Rightarrow> string \<Rightarrow> string \<Rightarrow> string option"
  ecdh :: "'priv \<Rightarrow> 'pub \<Rightarrow> string option"
  seal :: "string \<Rightarrow> string \<Rightarrow> string \<Rightarrow> string \<Rightarrow> string"
  unseal :: "string \<Rightarrow> string \<Rightarrow> string \<Rightarrow> string \<Rightarrow> string option"
  marshal :: "SecureFrame \<Rightarrow> string option"
  unmarshal :: "string \<Rightarrow> SecureFrame option"

datatype channel_error = EcdhFailed | HkdfFailed | BadKeyLength | MarshalFailed | UnmarshalFailed | BadSeq | OpenFailed

text \<open>The two \<open>cipherAead\<close> values of a session are its keys.\<close>

record SessionCrypto =
  role :: Role
  aeadTX :: string
  aeadRX :: string
  txSeq :: "64 word"
  rxSeq :: "64 word"

definition deriveSessionKeys ::
  "('priv, 'pub) primitives \<Rightarrow> Role \<Rightarrow> 'pub \<Rightarrow> 'priv \<Rightarrow> string \<Rightarrow> string \<Rightarrow> channel_error + string \<times> string" where
  "deriveSessionKeys C r xPeerPub xLocalPriv hubNonce agentNonce =
     (case ecdh C xLocalPriv xPeerPub of
        None \<Rightarrow> Inl EcdhFailed
      | Some shared \<Rightarrow>
          let slt = sha256 C (hubNonce @ ''|'' @ agentNonce) in
          (case hkdf C shared slt ''mosona-secure-ws-v1'' of
             None \<Rightarrow> Inl HkdfFailed
           | Some okm \<Rightarrow>
               let hubToAgent = take 32 okm; agentToHub = take 32 (drop 32 okm) in
               if r = RoleHub then Inr (hubToAgent, agentToHub) else Inr (agentToHub, hubToAgent)))"

text \<open>\<open>chacha20poly1305.New\<close> refuses a key that is not 32 bytes long.\<close>

definition newSessionCrypto :: "Role \<Rightarrow> string \<Rightarrow> string \<Rightarrow> channel_error + SessionCrypto" where
  "newSessionCrypto r txKey rxKey =
     (if length txKey \<noteq> 32 then Inl BadKeyLength
      else if length rxKey \<noteq> 32 then Inl BadKeyLength
      else Inr \<lparr>role = r, aeadTX = txKey, aeadRX = rxKey, txSeq = 0, rxSeq = 0\<rparr>)"

definition NewSessionCrypto ::
  "('priv, 'pub) primitives \<Rightarrow> Role \<Rightarrow> 'pub \<Rightarrow> 'priv \<Rightarrow> string \<Rightarrow> string \<Rightarrow> channel_error + SessionCrypto" where
  "NewSessionCrypto C r xPeerPub xLocalPriv hubNonce agentNonce =
     (case deriveSessionKeys C r xPeerPub xLocalPriv hubNonce agentNonce of
        Inl e \<Rightarrow> Inl e
      | Inr (txKey, rxKey) \<Rightarrow> newSessionCrypto r txKey rxKey)"

definition NewSessionCryptoV2 ::
  "('priv, 'pub) primitives \<Rightarrow> Role \<Rightarrow> 'pub \<Rightarrow> 'priv \<Rightarrow> string \<Rightarrow> channel_error + SessionCrypto" where
  "NewSessionCryptoV2 C r xPeerPub xLocalPriv transcriptHash =
     (case ecdh C xLocalPriv xPeerPub of
        None \<Rightarrow> Inl EcdhFailed
      | Some shared \<Rightarrow>
          let slt = sha256 C ((''mosona-secure-ws-v2 salt'' @ [CHR 0x00]) @ transcriptHash) in
          (case hkdf C shared slt ''mosona-secure-ws-v2 session keys'' of
             None \<Rightarrow> Inl HkdfFailed
           | Some okm \<Rightarrow>
               let hubToAgent = take 32 okm; agentToHub = drop 32 okm in
               if r = RoleAgent then newSessionCrypto r agentToHub hubToAgent
               else newSessionCrypto r hubToAgent agentToHub))"

definition makeNonce :: "Role \<Rightarrow> 64 word \<Rightarrow> string" where
  "makeNonce r seq =
     (let tag = (if r = RoleHub then CHR 0xA1 else CHR 0xB2) in
      [tag, CHR 0x00, CHR 0x00, CHR 0x00] @ PutUint64 seq)"

definition Encrypt :: "('priv, 'pub) primitives \<Rightarrow> string \<Rightarrow> (SessionCrypto, channel_error, string) io" where
  "Encrypt C plain = (\<lambda>sc.
     let seq = txSeq sc;
         sc' = sc\<lparr>txSeq := txSeq sc + 1\<rparr>;
         nonce = makeNonce (role sc) seq;
         aad = PutUint64 seq;
         ct = seal C (aeadTX sc) nonce plain aad in
     case marshal C \<lparr>Seq = seq, Ciphertext = ct\<rparr> of
       None \<Rightarrow> (Inl MarshalFailed, sc')
     | Some frame \<Rightarrow> (Inr frame, sc'))"

definition Decrypt :: "('priv, 'pub) primitives \<Rightarrow> string \<Rightarrow> (SessionCrypto, channel_error, string) io" where
  "Decrypt C bf = (\<lambda>sc.
     case unmarshal C bf of
       None \<Rightarrow> (Inl UnmarshalFailed, sc)
     | Some f \<Rightarrow>
         if Seq f \<noteq> rxSeq sc then (Inl BadSeq, sc)
         else
           let sc' = sc\<lparr>rxSeq := rxSeq sc + 1\<rparr>;
               nonce = makeNonce (oppositeRole (role sc)) (Seq f);
               aad = PutUint64 (Seq f) in
           case unseal C (aeadRX sc) nonce (Ciphertext f) aad of
             None \<Rightarrow> (Inl OpenFailed, sc')
           | Some pt \<Rightarrow> (Inr pt, sc'))"

text \<open>
  What the code relies on: both sides of a key exchange compute the same secret, opening
  recovers exactly the sealed text and accepts nothing else, and decoding inverts encoding.
\<close>

definition primitives_ok :: "('priv, 'pub) primitives \<Rightarrow> ('priv \<Rightarrow> 'pub) \<Rightarrow> bool" where
  "primitives_ok C pub \<longleftrightarrow>
     (\<forall>a b. ecdh C a (pub b) = ecdh C b (pub a)) \<and>
     (\<forall>k n c a p. unseal C k n c a = Some p \<longleftrightarrow> c = seal C k n p a) \<and>
     (\<forall>f. \<exists>bs. marshal C f = Some bs \<and> unmarshal C bs = Some f)"

lemma oppositeRole_simps [simp]:
  "oppositeRole RoleHub = RoleAgent" "oppositeRole RoleAgent = RoleHub" "oppositeRole (oppositeRole r) = r"
  "oppositeRole r \<noteq> r" "r \<noteq> oppositeRole r"
  by (cases r; simp add: oppositeRole_def)+

lemma makeNonce_inject [simp]: "makeNonce r v = makeNonce r' w \<longleftrightarrow> r = r' \<and> v = w"
  by (cases r; cases r') (auto simp: makeNonce_def Let_def)

lemma length_makeNonce: "length (makeNonce r v) = 12"
  by (simp add: makeNonce_def Let_def)

text \<open>The end \<open>y\<close> hears what the end \<open>x\<close> writes.\<close>

definition hears :: "SessionCrypto \<Rightarrow> SessionCrypto \<Rightarrow> bool" where
  "hears y x \<longleftrightarrow> aeadRX y = aeadTX x \<and> oppositeRole (role y) = role x"

lemma NewSessionCryptoV2_hears:
  assumes "primitives_ok C pub" "NewSessionCryptoV2 C r (pub b) a th = Inr x"
    "NewSessionCryptoV2 C (oppositeRole r) (pub a) b th = Inr y"
  shows "hears y x \<and> hears x y \<and> role x = r \<and> role y = oppositeRole r \<and>
    txSeq x = 0 \<and> rxSeq x = 0 \<and> txSeq y = 0 \<and> rxSeq y = 0"
proof -
  have "ecdh C a (pub b) = ecdh C b (pub a)" using assms(1) by (simp add: primitives_ok_def)
  then show ?thesis
    using assms(2,3)
    by (cases r) (auto simp: NewSessionCryptoV2_def newSessionCrypto_def hears_def Let_def
        split: option.splits if_splits)
qed

lemma Encrypt_run:
  assumes "primitives_ok C pub"
  shows "\<exists>bs. Encrypt C p x = (Inr bs, x\<lparr>txSeq := txSeq x + 1\<rparr>) \<and>
    unmarshal C bs = Some \<lparr>Seq = txSeq x, Ciphertext = seal C (aeadTX x) (makeNonce (role x) (txSeq x)) p (PutUint64 (txSeq x))\<rparr>"
proof -
  from assms obtain bs where
    "marshal C \<lparr>Seq = txSeq x, Ciphertext = seal C (aeadTX x) (makeNonce (role x) (txSeq x)) p (PutUint64 (txSeq x))\<rparr> = Some bs"
    "unmarshal C bs = Some \<lparr>Seq = txSeq x, Ciphertext = seal C (aeadTX x) (makeNonce (role x) (txSeq x)) p (PutUint64 (txSeq x))\<rparr>"
    unfolding primitives_ok_def by metis
  then show ?thesis by (simp add: Encrypt_def Let_def)
qed

lemma Decrypt_Inr_iff:
  assumes "primitives_ok C pub"
  shows "Decrypt C bs y = (Inr p, y') \<longleftrightarrow>
    y' = y\<lparr>rxSeq := rxSeq y + 1\<rparr> \<and>
    unmarshal C bs = Some \<lparr>Seq = rxSeq y, Ciphertext =
      seal C (aeadRX y) (makeNonce (oppositeRole (role y)) (rxSeq y)) p (PutUint64 (rxSeq y))\<rparr>"
proof -
  have opens: "c = seal C k n q a \<longleftrightarrow> unseal C k n c a = Some q" for k n c a q
    using assms by (simp add: primitives_ok_def)
  show ?thesis
  proof (cases "unmarshal C bs")
    case (Some f)
    obtain q c where "f = \<lparr>Seq = q, Ciphertext = c\<rparr>" by (cases f)
    with Some show ?thesis
      by (auto simp: Decrypt_def Let_def opens split: option.splits)
  qed (simp add: Decrypt_def)
qed

section \<open>Frames in order\<close>

definition sealed :: "('priv, 'pub) primitives \<Rightarrow> string \<Rightarrow> Role \<Rightarrow> 64 word \<Rightarrow> string \<Rightarrow> SecureFrame" where
  "sealed C k r n p = \<lparr>Seq = n, Ciphertext = seal C k (makeNonce r n) p (PutUint64 n)\<rparr>"

lemmas channel_runs = Encrypt_run [folded sealed_def] Decrypt_Inr_iff [folded sealed_def]

fun encrypt_all :: "('priv, 'pub) primitives \<Rightarrow> string list \<Rightarrow> SessionCrypto \<Rightarrow> string list" where
  "encrypt_all C [] x = []"
| "encrypt_all C (p # ps) x =
     (case Encrypt C p x of (Inr bs, x') \<Rightarrow> bs # encrypt_all C ps x' | (Inl _, x') \<Rightarrow> [])"

text \<open>
  A reader decrypts frame after frame and gives up at the first error, as the loops of
  \<open>internal/connect/active/connect.go\<close> do; it returns the texts it read and whether it failed.
\<close>

fun read_frames :: "('priv, 'pub) primitives \<Rightarrow> string list \<Rightarrow> SessionCrypto \<Rightarrow> string list \<times> bool" where
  "read_frames C [] y = ([], False)"
| "read_frames C (bs # bss) y =
     (case Decrypt C bs y of
        (Inr p, y') \<Rightarrow> (case read_frames C bss y' of (ps, failed) \<Rightarrow> (p # ps, failed))
      | (Inl _, y') \<Rightarrow> ([], True))"

lemma Decrypt_Encrypt:
  assumes "primitives_ok C pub" "hears y x" "rxSeq y = txSeq x"
  obtains bs where "Encrypt C p x = (Inr bs, x\<lparr>txSeq := txSeq x + 1\<rparr>)"
    "Decrypt C bs y = (Inr p, y\<lparr>rxSeq := rxSeq y + 1\<rparr>)"
proof -
  obtain bs where bs: "Encrypt C p x = (Inr bs, x\<lparr>txSeq := txSeq x + 1\<rparr>)"
    "unmarshal C bs = Some (sealed C (aeadTX x) (role x) (txSeq x) p)"
    using channel_runs(1) [OF assms(1)] by metis
  then have "Decrypt C bs y = (Inr p, y\<lparr>rxSeq := rxSeq y + 1\<rparr>)"
    using assms(2,3) by (simp add: channel_runs(2) [OF assms(1)] hears_def)
  with bs(1) that show thesis by blast
qed

lemma read_frames_encrypt_all:
  assumes "primitives_ok C pub" "hears y x" "rxSeq y = txSeq x"
  shows "read_frames C (encrypt_all C msgs x) y = (msgs, False)"
  using assms(2,3)
proof (induction msgs arbitrary: x y)
  case (Cons p ps)
  obtain bs where bs: "Encrypt C p x = (Inr bs, x\<lparr>txSeq := txSeq x + 1\<rparr>)"
    "Decrypt C bs y = (Inr p, y\<lparr>rxSeq := rxSeq y + 1\<rparr>)"
    using Decrypt_Encrypt [OF assms(1) Cons.prems] by blast
  have "read_frames C (encrypt_all C ps (x\<lparr>txSeq := txSeq x + 1\<rparr>)) (y\<lparr>rxSeq := rxSeq y + 1\<rparr>) = (ps, False)"
    using Cons.prems by (intro Cons.IH) (simp_all add: hears_def)
  with bs show ?case by simp
qed simp

section \<open>An attacker on the wire\<close>

text \<open>
  One direction of a session: \<open>wr\<close> sends, \<open>rd\<close> hears until its first error. The wire is in the
  hands of an attacker who delivers whatever frame he likes, except that he cannot forge: a
  frame the cipher accepts for a number and a text was sealed by the sender for them.
\<close>

record tunnel =
  wr :: SessionCrypto
  rd :: SessionCrypto
  sent :: "string list"
  got :: "string list"
  closed :: bool

definition unforged :: "('priv, 'pub) primitives \<Rightarrow> tunnel \<Rightarrow> string \<Rightarrow> bool" where
  "unforged C s bs \<longleftrightarrow>
     (\<forall>n p. unmarshal C bs = Some (sealed C (aeadTX (wr s)) (role (wr s)) n p) \<longrightarrow>
        (\<exists>i < length (sent s). n = of_nat i \<and> p = sent s ! i))"

inductive tunnel_step :: "('priv, 'pub) primitives \<Rightarrow> tunnel \<Rightarrow> tunnel \<Rightarrow> bool" for C where
  send: "Encrypt C p (wr s) = (Inr bs, x) \<Longrightarrow> tunnel_step C s (s\<lparr>wr := x, sent := sent s @ [p]\<rparr>)"
| deliver: "\<not> closed s \<Longrightarrow> unforged C s bs \<Longrightarrow> Decrypt C bs (rd s) = (Inr p, y) \<Longrightarrow>
    tunnel_step C s (s\<lparr>rd := y, got := got s @ [p]\<rparr>)"
| reject: "\<not> closed s \<Longrightarrow> Decrypt C bs (rd s) = (Inl e, y) \<Longrightarrow>
    tunnel_step C s (s\<lparr>rd := y, closed := True\<rparr>)"

definition tunnel_inv :: "tunnel \<Rightarrow> bool" where
  "tunnel_inv s \<longleftrightarrow>
     hears (rd s) (wr s) \<and> (\<exists>rest. sent s = got s @ rest) \<and>
     (\<not> closed s \<longrightarrow> rxSeq (rd s) = of_nat (length (got s)))"

lemma word_index_inject: "i < 2 ^ 64 \<Longrightarrow> j < 2 ^ 64 \<Longrightarrow> (of_nat i :: 64 word) = of_nat j \<Longrightarrow> i = j"
  by (drule arg_cong [of _ _ unat]) (simp add: unat_of_nat)

lemma tunnel_step_inv:
  assumes ok: "primitives_ok C pub" and "tunnel_step C s t" "tunnel_inv s" "length (sent t) < 2 ^ 64"
  shows "tunnel_inv t"
  using assms(2-4)
proof cases
  case (send p bs x)
  then have "x = (wr s)\<lparr>txSeq := txSeq (wr s) + 1\<rparr>" using channel_runs(1) [OF ok] by (metis prod.inject)
  with send assms(3) show ?thesis by (auto simp: tunnel_inv_def hears_def)
next
  case (deliver bs p y)
  from deliver(4) have bs: "unmarshal C bs =
      Some (sealed C (aeadRX (rd s)) (oppositeRole (role (rd s))) (rxSeq (rd s)) p)" "y = (rd s)\<lparr>rxSeq := rxSeq (rd s) + 1\<rparr>"
    by (simp_all add: channel_runs(2) [OF ok])
  have keys: "aeadRX (rd s) = aeadTX (wr s)" "oppositeRole (role (rd s)) = role (wr s)"
    using assms(3) by (simp_all add: tunnel_inv_def hears_def)
  obtain i where i: "i < length (sent s)" "rxSeq (rd s) = of_nat i" "p = sent s ! i"
    using deliver(3) bs(1) unfolding unforged_def keys by blast
  obtain rest where rest: "sent s = got s @ rest" using assms(3) by (auto simp: tunnel_inv_def)
  have "length (sent s) < 2 ^ 64" using assms(4) deliver(1) by simp
  then have "i = length (got s)"
    using i(1,2) rest assms(3) deliver(2) by (intro word_index_inject) (auto simp: tunnel_inv_def)
  then have "sent s = (got s @ [p]) @ tl rest" using i rest by (cases rest) auto
  with deliver bs assms(3) show ?thesis by (auto simp: tunnel_inv_def hears_def)
next
  case (reject bs e y)
  have "aeadRX y = aeadRX (rd s)" "role y = role (rd s)"
    using reject(3) by (auto simp: Decrypt_def Let_def split: option.splits if_splits)
  with reject assms(3) show ?thesis by (auto simp: tunnel_inv_def hears_def)
qed

lemma tunnel_sent_grows: "tunnel_step C s t \<Longrightarrow> length (sent s) \<le> length (sent t)"
  by (cases rule: tunnel_step.cases) auto

lemma tunnel_reachable_inv:
  assumes ok: "primitives_ok C pub" and "(tunnel_step C)\<^sup>*\<^sup>* s t" "tunnel_inv s" "length (sent t) < 2 ^ 64"
  shows "tunnel_inv t"
  using assms(2,4)
proof (induction rule: rtranclp_induct)
  case (step u v)
  then show ?case using tunnel_sent_grows [of C u v] tunnel_step_inv [OF ok] by force
qed (use assms(3) in simp)

lemma hub_fields_inject:
  "hub_fields c k n ts = hub_fields c' k' n' ts' \<Longrightarrow> c = c' \<and> k = k' \<and> n = n' \<and> ts = ts'"
  by (cases c; cases c') (simp add: hub_fields_def int64Bytes_def)

lemma transcript_fields_inject: "transcript_fields t = transcript_fields u \<Longrightarrow> t = u"
proof -
  assume "transcript_fields t = transcript_fields u"
  then have "hub_fields (Context t) (HubX25519Pub t) (HubNonce t) (HubTimestamp t) @
       [AgentEd25519Pub t, AgentX25519Pub t, AgentNonce t] =
     hub_fields (Context u) (HubX25519Pub u) (HubNonce u) (HubTimestamp u) @
       [AgentEd25519Pub u, AgentX25519Pub u, AgentNonce u]"
    by (simp only: transcript_fields_def list.inject)
  then have "hub_fields (Context t) (HubX25519Pub t) (HubNonce t) (HubTimestamp t) =
      hub_fields (Context u) (HubX25519Pub u) (HubNonce u) (HubTimestamp u)"
    and rest: "AgentEd25519Pub t = AgentEd25519Pub u" "AgentX25519Pub t = AgentX25519Pub u" "AgentNonce t = AgentNonce u"
    by (simp_all add: append_eq_append_conv)
  with hub_fields_inject [OF this(1)] show "t = u" by (cases t; cases u) simp
qed

lemma TranscriptHash_inject:
  assumes "list_all small (transcript_fields t)" "list_all small (transcript_fields u)"
    "inj_on sha {framed (transcript_fields t), framed (transcript_fields u)}"
    "TranscriptHash sha t = TranscriptHash sha u"
  shows "t = u"
proof -
  have "sha (framed (transcript_fields t)) = sha (framed (transcript_fields u))"
    using assms(4) by (simp only: TranscriptHash_def hashFields_def)
  then have "framed (transcript_fields t) = framed (transcript_fields u)"
    by (rule inj_onD [OF assms(3)]) simp_all
  then have "transcript_fields t = transcript_fields u" using assms(1,2) by (rule framed_inject)
  then show "t = u" by (rule transcript_fields_inject)
qed

section \<open>Properties\<close>

text \<open>
  The handshake digest binds the whole transcript: unless SHA-256 collides on the two
  encodings, two handshakes have the same digest exactly when they agree in every field, so no
  byte can be moved from one field into another.
\<close>

theorem transcript_hash_binding:
  assumes "list_all small (transcript_fields t)" "list_all small (transcript_fields u)"
    "inj_on sha {framed (transcript_fields t), framed (transcript_fields u)}"
  shows "TranscriptHash sha t = TranscriptHash sha u \<longleftrightarrow> t = u"
  using TranscriptHash_inject [OF assms] by blast

definition sample_transcript :: "string \<Rightarrow> HandshakeTranscript" where
  "sample_transcript nonce =
     \<lparr>Context = \<lparr>AgentUID = ''a1'', Path = ''/api/ws/state'', HTTPNonce = ''n'', HTTPTimestamp = ''1''\<rparr>,
      HubX25519Pub = ''hub'', HubNonce = nonce, HubTimestamp = - 1, AgentEd25519Pub = ''id'',
      AgentX25519Pub = ''agent'', AgentNonce = ''m''\<rparr>"

theorem transcript_hash_binding_witness:
  "TranscriptHash (\<lambda>x. x) (sample_transcript ''ab'') \<noteq> TranscriptHash (\<lambda>x. x) (sample_transcript ''abc'')"
proof -
  have "list_all small (transcript_fields (sample_transcript ''ab''))"
    "list_all small (transcript_fields (sample_transcript ''abc''))"
    by (simp_all add: small_def transcript_fields_def hub_fields_def sample_transcript_def int64Bytes_def)
  moreover have "sample_transcript ''ab'' \<noteq> sample_transcript ''abc''" by (simp add: sample_transcript_def)
  ultimately show ?thesis using transcript_hash_binding [of "sample_transcript ''ab''" "sample_transcript ''abc''" "\<lambda>x. x"]
    by simp
qed

text \<open>
  Two ends of one key exchange, on the same transcript, understand each other in both
  directions: every sequence of messages is read back unchanged and in order, without an error,
  however long it is.
\<close>

theorem channel_roundtrip:
  assumes "primitives_ok C pub" "NewSessionCryptoV2 C r (pub b) a th = Inr x"
    "NewSessionCryptoV2 C (oppositeRole r) (pub a) b th = Inr y"
  shows "read_frames C (encrypt_all C msgs x) y = (msgs, False) \<and>
    read_frames C (encrypt_all C msgs y) x = (msgs, False)"
  using NewSessionCryptoV2_hears [OF assms] read_frames_encrypt_all [OF assms(1)] by simp

text \<open>Primitives without any secrecy that satisfy the laws.\<close>

definition from_bytes :: "string \<Rightarrow> nat" where
  "from_bytes s = foldl (\<lambda>n c. 256 * n + of_char c) 0 s"

lemma from_be_bytes: "n < 256 ^ k \<Longrightarrow> from_bytes (be_bytes k n) = n"
proof (induction k arbitrary: n)
  case (Suc k)
  have "n div 256 < 256 ^ k" using Suc.prems by (simp add: less_mult_imp_div_less mult.commute)
  with Suc.IH show ?case by (simp add: from_bytes_def of_char_of)
qed (simp add: from_bytes_def)

definition sample_primitives :: "(64 word, 64 word) primitives" where
  "sample_primitives =
     \<lparr>sha256 = (\<lambda>x. x), hkdf = (\<lambda>k s i. Some (replicate 32 (CHR ''h'') @ replicate 32 (CHR ''a''))),
      ecdh = (\<lambda>a b. Some (PutUint64 (a * b))), seal = (\<lambda>k n p a. p), unseal = (\<lambda>k n c a. Some c),
      marshal = (\<lambda>f. Some (PutUint64 (Seq f) @ Ciphertext f)),
      unmarshal = (\<lambda>bs. Some \<lparr>Seq = of_nat (from_bytes (take 8 bs)), Ciphertext = drop 8 bs\<rparr>)\<rparr>"

lemma sample_primitives_ok: "primitives_ok sample_primitives (\<lambda>a. a)"
proof -
  have "from_bytes (PutUint64 w) = unat w" for w :: "64 word"
    unfolding PutUint64_def by (rule from_be_bytes [OF uint64_less])
  then show ?thesis by (auto simp: primitives_ok_def sample_primitives_def mult.commute)
qed

definition sample_ends :: "SessionCrypto \<times> SessionCrypto" where
  "sample_ends =
     (let h = replicate 32 (CHR ''h''); a = replicate 32 (CHR ''a'') in
      (\<lparr>role = RoleHub, aeadTX = h, aeadRX = a, txSeq = 0, rxSeq = 0\<rparr>,
       \<lparr>role = RoleAgent, aeadTX = a, aeadRX = h, txSeq = 0, rxSeq = 0\<rparr>))"

lemma sample_session:
  "NewSessionCryptoV2 sample_primitives RoleHub 5 3 ''t'' = Inr (fst sample_ends)"
  "NewSessionCryptoV2 sample_primitives (oppositeRole RoleHub) 3 5 ''t'' = Inr (snd sample_ends)"
  by (simp_all add: NewSessionCryptoV2_def newSessionCrypto_def sample_primitives_def sample_ends_def Let_def)

theorem channel_roundtrip_witness:
  "read_frames sample_primitives (encrypt_all sample_primitives [''up'', ''down''] (fst sample_ends)) (snd sample_ends) =
     ([''up'', ''down''], False)"
  using channel_roundtrip [OF sample_primitives_ok sample_session, of "[''up'', ''down'']"] by simp

text \<open>
  (C4) With an attacker on the wire who can drop, repeat, reorder and invent frames but not
  forge the cipher, the texts a reader has accepted are at every moment an initial part of those
  the peer sent: nothing is altered, repeated, reordered or skipped, for fewer than \<open>2 ^ 64\<close>
  messages.
\<close>

theorem channel_integrity:
  assumes "primitives_ok C pub" "NewSessionCryptoV2 C r (pub b) a th = Inr x"
    "NewSessionCryptoV2 C (oppositeRole r) (pub a) b th = Inr y"
    "(tunnel_step C)\<^sup>*\<^sup>* \<lparr>wr = x, rd = y, sent = [], got = [], closed = False\<rparr> s"
    "length (sent s) < 2 ^ 64"
  shows "\<exists>rest. sent s = got s @ rest"
proof -
  have "tunnel_inv \<lparr>wr = x, rd = y, sent = [], got = [], closed = False\<rparr>"
    using NewSessionCryptoV2_hears [OF assms(1-3)] by (simp add: tunnel_inv_def)
  from tunnel_reachable_inv [OF assms(1,4) this assms(5)] show ?thesis by (simp add: tunnel_inv_def)
qed

definition sample_tunnel :: "string list \<Rightarrow> tunnel" where
  "sample_tunnel msgs = \<lparr>wr = (fst sample_ends)\<lparr>txSeq := of_nat (length msgs)\<rparr>, rd = snd sample_ends,
     sent = msgs, got = [], closed = False\<rparr>"

lemma sample_tunnel_run:
  "(tunnel_step sample_primitives)\<^sup>*\<^sup>* (sample_tunnel []) ((sample_tunnel [''up''])\<lparr>rd := (snd sample_ends)\<lparr>rxSeq := 1\<rparr>, got := [''up'']\<rparr>)"
proof -
  have sent: "tunnel_step sample_primitives (sample_tunnel []) (sample_tunnel [''up''])"
    using tunnel_step.send [of sample_primitives "''up''" "sample_tunnel []" "PutUint64 0 @ ''up''" "(fst sample_ends)\<lparr>txSeq := 1\<rparr>"]
    by (simp add: sample_tunnel_def Encrypt_def sample_primitives_def Let_def sample_ends_def)
  have zero: "from_bytes (PutUint64 0) = 0" by code_simp
  have "unforged sample_primitives (sample_tunnel [''up'']) (PutUint64 0 @ ''up'')"
    by (simp add: unforged_def sample_primitives_def sealed_def sample_tunnel_def zero)
  then have "tunnel_step sample_primitives (sample_tunnel [''up''])
      ((sample_tunnel [''up''])\<lparr>rd := (snd sample_ends)\<lparr>rxSeq := 1\<rparr>, got := [''up'']\<rparr>)"
    using tunnel_step.deliver [of "sample_tunnel [''up'']" sample_primitives "PutUint64 0 @ ''up''" "''up''" "(snd sample_ends)\<lparr>rxSeq := 1\<rparr>"]
    by (simp add: sample_tunnel_def Decrypt_def sample_primitives_def Let_def sample_ends_def zero)
  with sent show ?thesis by simp
qed

theorem channel_integrity_witness:
  "\<exists>rest. sent ((sample_tunnel [''up''])\<lparr>rd := (snd sample_ends)\<lparr>rxSeq := 1\<rparr>, got := [''up'']\<rparr>) = [''up''] @ rest"
  using channel_integrity [OF sample_primitives_ok sample_session,
      of "(sample_tunnel [''up''])\<lparr>rd := (snd sample_ends)\<lparr>rxSeq := 1\<rparr>, got := [''up'']\<rparr>"] sample_tunnel_run
  by (simp add: sample_tunnel_def sample_ends_def)

text \<open>
  No nonce is used twice under a key: up to \<open>2 ^ 64\<close> frames of one end have pairwise
  different nonces of twelve bytes, and the nonces of the two ends never meet.
\<close>

theorem nonces_unique:
  assumes "k \<le> 2 ^ 64"
  shows "distinct (map (\<lambda>i. makeNonce r (n + of_nat i)) [0..<k]) \<and>
    makeNonce r v \<noteq> makeNonce (oppositeRole r) w \<and> length (makeNonce r v) = 12"
proof -
  have "inj_on (\<lambda>i. makeNonce r (n + of_nat i)) (set [0..<k])"
    using assms by (auto intro!: inj_onI word_index_inject)
  then show ?thesis by (simp add: distinct_map length_makeNonce)
qed

theorem nonces_unique_witness:
  "makeNonce RoleHub (- 1) \<noteq> makeNonce RoleHub (- 1 + 1) \<and> makeNonce RoleHub 7 \<noteq> makeNonce RoleAgent 7"
  using nonces_unique [of 2 RoleHub "- 1" 7 7] by (simp add: numeral_2_eq_2 upt_rec)

end
