(* ===== verification/Handshake.thy ===== *)
theory Handshake
  imports Secure_Channel World
begin

text \<open>
  The authenticated handshake on the websocket between the hub (\<open>internal/connect/active\<close>,
  \<open>ws.go\<close> and \<open>identity.go\<close>) and an agent (\<open>agent/active/middleware/ws.go\<close>). A connection is two
  exchanges: the hub's opening message and the agent's answer, then a finished frame each way.
  The peer is a function from the message sent to the message read back, \<open>None\<close> for a network or
  decoding error. Security log entries have no influence and are left out.
\<close>

section \<open>Messages and state\<close>

record KTHub =
  hVersion :: nat
  hX25519Pub :: string
  hNonce :: string
  hTimestamp :: "64 word"
  hSign :: string

record KTAgent =
  aVersion :: nat
  aX25519Pub :: string
  aNonce :: string
  aEd25519Pub :: string
  aSign :: string

text \<open>
  The primitives of the handshake: X25519 keys as bytes, Ed25519 by signing key and by the bytes
  of a public key, and the PEM form of an Ed25519 public key.
\<close>

record ('priv, 'pub, 'sk) suite =
  prims :: "('priv, 'pub) primitives"
  x_public :: "'priv \<Rightarrow> string"
  x_new_public :: "string \<Rightarrow> 'pub option"
  sign :: "'sk \<Rightarrow> string \<Rightarrow> string"
  verify :: "string \<Rightarrow> string \<Rightarrow> string \<Rightarrow> bool"
  ed_public :: "'sk \<Rightarrow> string"
  pem_encode :: "string \<Rightarrow> string"
  pem_parse :: "string \<Rightarrow> string option"

record 'sk auth =
  serverID :: int
  agentUID :: string
  privKey :: 'sk
  agentPubKey :: string   \<comment> \<open>empty when no identity is pinned\<close>
  protocolVersion :: int

record agent_row =
  public_key :: string
  protocol_version :: int
  agent_status :: int

text \<open>The hub's state: the tables of agents and of server types, and the connection's \<open>auth\<close>.\<close>

record 'sk aenv = env +
  agents :: "(int, agent_row) table"
  server_type :: "(int, int) table"
  conn_auth :: "'sk auth"

datatype hs_error =
    NetworkError
  | WrongVersion
  | InvalidField
  | IdentityProofFailed
  | AgentIdentityUnpaired
  | AgentIdentityMismatch
  | HubKeyLength
  | TimestampRange
  | HubSignatureFailed
  | PublicKeyInvalid
  | Channel channel_error
  | InvalidFinished
  | LegacyNotAllowed
  | DbError

section \<open>The pinned identity\<close>

definition pin_row :: "string \<Rightarrow> int \<Rightarrow> ('sk, 'z) aenv_scheme \<Rightarrow> (int, agent_row) table" where
  "pin_row candidate sid s =
     AList.map_entry sid (\<lambda>row. row\<lparr>public_key := candidate, protocol_version := 2\<rparr>) (agents s)"

definition pinnable :: "int \<Rightarrow> ('sk, 'z) aenv_scheme \<Rightarrow> bool" where
  "pinnable sid s \<longleftrightarrow>
     (case map_of (agents s) sid of None \<Rightarrow> False | Some row \<Rightarrow> public_key row = '''') \<and>
     map_of (server_type s) sid = Some 1"

definition pinActiveAgentPublicKey :: "int \<Rightarrow> string \<Rightarrow> (('sk, 'z) aenv_scheme, hs_error, string) io" where
  "pinActiveAgentPublicKey sid candidate = (\<lambda>s.
     case next_call s of (oc, t) \<Rightarrow>
       (case oc of
          Failed \<Rightarrow> (Inl DbError, t)
        | Lost \<Rightarrow> (Inl DbError, if pinnable sid t then t\<lparr>agents := pin_row candidate sid t\<rparr> else t)
        | Done \<Rightarrow>
            if pinnable sid t then (Inr candidate, t\<lparr>agents := pin_row candidate sid t\<rparr>)
            else (case next_call t of (oc', u) \<Rightarrow>
              (if oc' \<noteq> Done then (Inl DbError, u)
               else case map_of (agents u) sid of
                 None \<Rightarrow> (Inl DbError, u)
               | Some row \<Rightarrow>
                   if public_key row \<noteq> candidate then (Inl AgentIdentityMismatch, u)
                   else (Inr (public_key row), u)))))"

definition markActiveAgentPaired :: "int \<Rightarrow> (('sk, 'z) aenv_scheme, hs_error, unit) io" where
  "markActiveAgentPaired sid = (\<lambda>s.
     case next_call s of (oc, t) \<Rightarrow>
       let t' = t\<lparr>agents := AList.map_entry sid (\<lambda>row. row\<lparr>agent_status := 1\<rparr>) (agents t)\<rparr> in
       (case oc of Done \<Rightarrow> (Inr (), t') | Failed \<Rightarrow> (Inl DbError, t) | Lost \<Rightarrow> (Inl DbError, t')))"

section \<open>The hub\<close>

abbreviation hs_sha :: "('priv, 'pub, 'sk) suite \<Rightarrow> string \<Rightarrow> string" where
  "hs_sha S \<equiv> sha256 (prims S)"

definition hub_init ::
  "('priv, 'pub, 'sk) suite \<Rightarrow> 'sk \<Rightarrow> HandshakeContext \<Rightarrow> 'priv \<Rightarrow> string \<Rightarrow> 64 word \<Rightarrow> KTHub" where
  "hub_init S sk hctx hubPriv hubNonce ts =
     (let hubPub = x_public S hubPriv in
      \<lparr>hVersion = ProtocolVersion, hX25519Pub = b64_std_encode hubPub, hNonce = b64_std_encode hubNonce,
       hTimestamp = ts,
       hSign = b64_std_encode (sign S sk (HubSignatureMessage (hs_sha S) hctx hubPub hubNonce ts))\<rparr>)"

definition decode_response :: "KTAgent \<Rightarrow> (string \<times> string \<times> string \<times> string) option" where
  "decode_response response =
     (case DecodeExactBase64 (aX25519Pub response) 32 of None \<Rightarrow> None
      | Some agentXPub \<Rightarrow>
     (case DecodeExactBase64 (aNonce response) 16 of None \<Rightarrow> None
      | Some agentNonce \<Rightarrow>
     (case DecodeExactBase64 (aEd25519Pub response) 32 of None \<Rightarrow> None
      | Some agentIdentity \<Rightarrow>
     (case DecodeExactBase64 (aSign response) 64 of None \<Rightarrow> None
      | Some agentSignature \<Rightarrow> Some (agentXPub, agentNonce, agentIdentity, agentSignature)))))"

text \<open>The identity is pinned on first use where that is allowed, and must be the pinned one.\<close>

definition pin_identity ::
  "('priv, 'pub, 'sk) suite \<Rightarrow> bool \<Rightarrow> string \<Rightarrow> (('sk, 'z) aenv_scheme, hs_error, unit) io" where
  "pin_identity S allowTOFU candidate =
     bindE (gets conn_auth) (\<lambda>a.
     if agentPubKey a \<noteq> [] then ret ()
     else if \<not> allowTOFU then raise AgentIdentityUnpaired
     else
       bindE (pinActiveAgentPublicKey (serverID a) (pem_encode S candidate)) (\<lambda>pinnedPEM.
       case pem_parse S pinnedPEM of
         None \<Rightarrow> raise PublicKeyInvalid
       | Some key \<Rightarrow> modify (\<lambda>s. s\<lparr>conn_auth := a\<lparr>agentPubKey := key, protocolVersion := 2\<rparr>\<rparr>)))"

definition check_identity :: "string \<Rightarrow> (('sk, 'z) aenv_scheme, hs_error, unit) io" where
  "check_identity candidate =
     bindE (gets conn_auth) (\<lambda>a. if agentPubKey a \<noteq> candidate then raise AgentIdentityMismatch else ret ())"

definition sendFinished ::
  "('priv, 'pub, 'sk) suite \<Rightarrow> string \<Rightarrow> SessionCrypto \<Rightarrow> (hs_error + string) \<times> SessionCrypto" where
  "sendFinished S val sc =
     (case Encrypt (prims S) val sc of (Inl e, sc') \<Rightarrow> (Inl (Channel e), sc') | (Inr bs, sc') \<Rightarrow> (Inr bs, sc'))"

definition receiveFinished ::
  "('priv, 'pub, 'sk) suite \<Rightarrow> string \<Rightarrow> string \<Rightarrow> SessionCrypto \<Rightarrow> (hs_error + unit) \<times> SessionCrypto" where
  "receiveFinished S bs want sc =
     (case Decrypt (prims S) bs sc of
        (Inl e, sc') \<Rightarrow> (Inl InvalidFinished, sc')
      | (Inr plain, sc') \<Rightarrow> if plain \<noteq> want then (Inl InvalidFinished, sc') else (Inr (), sc'))"

definition hub_finish ::
  "('priv, 'pub, 'sk) suite \<Rightarrow> (string \<Rightarrow> string option) \<Rightarrow> SessionCrypto \<Rightarrow> hs_error + SessionCrypto" where
  "hub_finish S peer sc =
     (case sendFinished S HubFinished sc of
        (Inl e, _) \<Rightarrow> Inl e
      | (Inr bs, sc1) \<Rightarrow>
          (case peer bs of
             None \<Rightarrow> Inl NetworkError
           | Some reply \<Rightarrow>
               (case receiveFinished S reply AgentFinished sc1 of
                  (Inl e, _) \<Rightarrow> Inl e
                | (Inr _, sc2) \<Rightarrow> Inr sc2)))"

definition lift_sum :: "'e + 'a \<Rightarrow> ('s, 'e, 'a) io" where
  "lift_sum r = (case r of Inl e \<Rightarrow> raise e | Inr x \<Rightarrow> ret x)"

definition hub_transcript ::
  "('priv, 'pub, 'sk) suite \<Rightarrow> HandshakeContext \<Rightarrow> 'priv \<Rightarrow> string \<Rightarrow> 64 word \<Rightarrow> string \<Rightarrow> string \<Rightarrow> string \<Rightarrow> HandshakeTranscript" where
  "hub_transcript S hctx hubPriv hubNonce ts agentIdentity agentXPub agentNonce =
     \<lparr>Context = hctx, HubX25519Pub = x_public S hubPriv, HubNonce = hubNonce, HubTimestamp = ts,
      AgentEd25519Pub = agentIdentity, AgentX25519Pub = agentXPub, AgentNonce = agentNonce\<rparr>"

definition encryptConnection ::
  "('priv, 'pub, 'sk) suite \<Rightarrow> HandshakeContext \<Rightarrow> bool \<Rightarrow> 'priv \<Rightarrow> string \<Rightarrow> 64 word \<Rightarrow>
   (KTHub \<Rightarrow> KTAgent option) \<Rightarrow> (string \<Rightarrow> string option) \<Rightarrow> (('sk, 'z) aenv_scheme, hs_error, SessionCrypto) io" where
  "encryptConnection S hctx allowTOFU hubPriv hubNonce ts peer peerFinished =
     bindE (gets conn_auth) (\<lambda>a.
     case peer (hub_init S (privKey a) hctx hubPriv hubNonce ts) of
       None \<Rightarrow> raise NetworkError
     | Some response \<Rightarrow>
       if aVersion response \<noteq> ProtocolVersion then raise WrongVersion
       else case decode_response response of
         None \<Rightarrow> raise InvalidField
       | Some (agentXPub, agentNonce, agentIdentity, agentSignature) \<Rightarrow>
         let th = TranscriptHash (hs_sha S) (hub_transcript S hctx hubPriv hubNonce ts agentIdentity agentXPub agentNonce) in
         if \<not> verify S agentIdentity (AgentSignatureMessage (hs_sha S) th) agentSignature
         then raise IdentityProofFailed
         else
           bindE (pin_identity S allowTOFU agentIdentity) (\<lambda>_.
           bindE (check_identity agentIdentity) (\<lambda>_.
           case x_new_public S agentXPub of
             None \<Rightarrow> raise PublicKeyInvalid
           | Some agentPub \<Rightarrow>
             (case NewSessionCryptoV2 (prims S) RoleHub agentPub hubPriv th of
                Inl e \<Rightarrow> raise (Channel e)
              | Inr sc \<Rightarrow> lift_sum (hub_finish S peerFinished sc)))))"

text \<open>The first version of the protocol, which does not identify the agent.\<close>

definition legacy_message :: "string \<Rightarrow> 64 word \<Rightarrow> string \<Rightarrow> string" where
  "legacy_message hubPublic ts hubNonce = hubPublic @ [CHR 0x0A] @ itoa (sint ts) @ [CHR 0x0A] @ hubNonce"

definition encryptConnectionLegacy ::
  "('priv, 'pub, 'sk) suite \<Rightarrow> 'priv \<Rightarrow> string \<Rightarrow> 64 word \<Rightarrow> (KTHub \<Rightarrow> KTAgent option) \<Rightarrow>
   (('sk, 'z) aenv_scheme, hs_error, SessionCrypto) io" where
  "encryptConnectionLegacy S hubPriv hubNonceBytes ts peer =
     (let hubPublic = b64_std_encode (x_public S hubPriv); hubNonce = b64_std_encode hubNonceBytes in
      bindE (gets conn_auth) (\<lambda>a.
      case peer \<lparr>hVersion = 0, hX25519Pub = hubPublic, hNonce = hubNonce, hTimestamp = ts,
          hSign = b64_std_encode (sign S (privKey a) (legacy_message hubPublic ts hubNonce))\<rparr> of
        None \<Rightarrow> raise NetworkError
      | Some response \<Rightarrow>
        if aVersion response \<noteq> 0 then raise WrongVersion
        else case DecodeExactBase64 (aX25519Pub response) 32 of
          None \<Rightarrow> raise InvalidField
        | Some agentPublicBytes \<Rightarrow>
          (case DecodeExactBase64 (aNonce response) 16 of
             None \<Rightarrow> raise InvalidField
           | Some _ \<Rightarrow>
             (case x_new_public S agentPublicBytes of
                None \<Rightarrow> raise PublicKeyInvalid
              | Some agentPublic \<Rightarrow>
                (case NewSessionCrypto (prims S) RoleHub agentPublic hubPriv hubNonce (aNonce response) of
                   Inl e \<Rightarrow> raise (Channel e)
                 | Inr sc \<Rightarrow> ret sc)))))"

definition connectAgentLegacy ::
  "('priv, 'pub, 'sk) suite \<Rightarrow> 'priv \<Rightarrow> string \<Rightarrow> 64 word \<Rightarrow> (KTHub \<Rightarrow> KTAgent option) \<Rightarrow>
   (('sk, 'z) aenv_scheme, hs_error, SessionCrypto) io" where
  "connectAgentLegacy S hubPriv hubNonceBytes ts peer =
     bindE (gets conn_auth) (\<lambda>a.
     if protocolVersion a \<noteq> 1 \<or> agentPubKey a \<noteq> [] then raise LegacyNotAllowed
     else encryptConnectionLegacy S hubPriv hubNonceBytes ts peer)"

section \<open>The agent\<close>

text \<open>\<open>time.Unix(ts, 0)\<close> within two minutes of now.\<close>

definition timestamp_ok :: "64 word \<Rightarrow> go_time \<Rightarrow> bool" where
  "timestamp_ok ts now \<longleftrightarrow> \<not> (sint ts * second > now + 2 * minute \<or> sint ts * second < now + - (2 * minute))"

definition verifyHandshakeInit ::
  "('priv, 'pub, 'sk) suite \<Rightarrow> string \<Rightarrow> KTHub \<Rightarrow> HandshakeContext \<Rightarrow> go_time \<Rightarrow> hs_error + unit" where
  "verifyHandshakeInit S hubKey initHub hctx now =
     (if hVersion initHub \<noteq> ProtocolVersion then Inl WrongVersion
      else if length hubKey \<noteq> 32 then Inl HubKeyLength
      else case DecodeExactBase64 (hX25519Pub initHub) 32 of
        None \<Rightarrow> Inl InvalidField
      | Some hubPub \<Rightarrow>
        (case DecodeExactBase64 (hNonce initHub) 16 of
           None \<Rightarrow> Inl InvalidField
         | Some hubNonce \<Rightarrow>
           (case DecodeExactBase64 (hSign initHub) 64 of
              None \<Rightarrow> Inl InvalidField
            | Some sig \<Rightarrow>
              if \<not> timestamp_ok (hTimestamp initHub) now then Inl TimestampRange
              else if \<not> verify S hubKey (HubSignatureMessage (hs_sha S) hctx hubPub hubNonce (hTimestamp initHub)) sig
              then Inl HubSignatureFailed else Inr ())))"

definition verifyLegacyHandshakeInit ::
  "('priv, 'pub, 'sk) suite \<Rightarrow> string \<Rightarrow> KTHub \<Rightarrow> go_time \<Rightarrow> hs_error + unit" where
  "verifyLegacyHandshakeInit S hubKey initHub now =
     (if length hubKey \<noteq> 32 then Inl HubKeyLength
      else if DecodeExactBase64 (hX25519Pub initHub) 32 = None then Inl InvalidField
      else if DecodeExactBase64 (hNonce initHub) 16 = None then Inl InvalidField
      else case DecodeExactBase64 (hSign initHub) 64 of
        None \<Rightarrow> Inl InvalidField
      | Some sig \<Rightarrow>
        if \<not> timestamp_ok (hTimestamp initHub) now then Inl TimestampRange
        else if \<not> verify S hubKey (legacy_message (hX25519Pub initHub) (hTimestamp initHub) (hNonce initHub)) sig
        then Inl HubSignatureFailed else Inr ())"

definition agent_transcript ::
  "('priv, 'pub, 'sk) suite \<Rightarrow> 'sk \<Rightarrow> HandshakeContext \<Rightarrow> 'priv \<Rightarrow> string \<Rightarrow> KTHub \<Rightarrow> HandshakeTranscript" where
  "agent_transcript S sk hctx xPriv agentNonce initHub =
     \<lparr>Context = hctx,
      HubX25519Pub = (case DecodeExactBase64 (hX25519Pub initHub) 32 of None \<Rightarrow> [] | Some b \<Rightarrow> b),
      HubNonce = (case DecodeExactBase64 (hNonce initHub) 16 of None \<Rightarrow> [] | Some b \<Rightarrow> b),
      HubTimestamp = hTimestamp initHub, AgentEd25519Pub = ed_public S sk,
      AgentX25519Pub = x_public S xPriv, AgentNonce = agentNonce\<rparr>"

definition agent_respond ::
  "('priv, 'pub, 'sk) suite \<Rightarrow> 'sk \<Rightarrow> string \<Rightarrow> HandshakeContext \<Rightarrow> go_time \<Rightarrow> 'priv \<Rightarrow> string \<Rightarrow> KTHub \<Rightarrow>
   hs_error + KTAgent \<times> SessionCrypto" where
  "agent_respond S sk hubKey hctx now xPriv agentNonce initHub =
     (case verifyHandshakeInit S hubKey initHub hctx now of
        Inl e \<Rightarrow> Inl e
      | Inr _ \<Rightarrow>
        let transcript = agent_transcript S sk hctx xPriv agentNonce initHub;
            th = TranscriptHash (hs_sha S) transcript;
            resp = \<lparr>aVersion = ProtocolVersion, aX25519Pub = b64_std_encode (x_public S xPriv),
              aNonce = b64_std_encode agentNonce, aEd25519Pub = b64_std_encode (ed_public S sk),
              aSign = b64_std_encode (sign S sk (AgentSignatureMessage (hs_sha S) th))\<rparr> in
        case x_new_public S (HubX25519Pub transcript) of
          None \<Rightarrow> Inl PublicKeyInvalid
        | Some hubPub \<Rightarrow>
          (case NewSessionCryptoV2 (prims S) RoleAgent hubPub xPriv th of
             Inl e \<Rightarrow> Inl (Channel e)
           | Inr sc \<Rightarrow> Inr (resp, sc)))"

definition agent_finish ::
  "('priv, 'pub, 'sk) suite \<Rightarrow> SessionCrypto \<Rightarrow> string \<Rightarrow> hs_error + string \<times> SessionCrypto" where
  "agent_finish S sc bs =
     (case receiveFinished S bs HubFinished sc of
        (Inl e, _) \<Rightarrow> Inl e
      | (Inr _, sc1) \<Rightarrow>
          (case sendFinished S AgentFinished sc1 of
             (Inl e, _) \<Rightarrow> Inl e
           | (Inr reply, sc2) \<Rightarrow> Inr (reply, sc2)))"

definition legacyHandshake ::
  "('priv, 'pub, 'sk) suite \<Rightarrow> string \<Rightarrow> go_time \<Rightarrow> 'priv \<Rightarrow> string \<Rightarrow> KTHub \<Rightarrow> hs_error + KTAgent \<times> SessionCrypto" where
  "legacyHandshake S hubKey now priv nonce initHub =
     (case verifyLegacyHandshakeInit S hubKey initHub now of
        Inl e \<Rightarrow> Inl e
      | Inr _ \<Rightarrow>
        let resp = \<lparr>aVersion = 0, aX25519Pub = b64_std_encode (x_public S priv), aNonce = b64_std_encode nonce,
              aEd25519Pub = [], aSign = []\<rparr>;
            hubBytes = (case b64_std_decode (hX25519Pub initHub) of None \<Rightarrow> [] | Some b \<Rightarrow> b) in
        case x_new_public S hubBytes of
          None \<Rightarrow> Inl PublicKeyInvalid
        | Some hubPub \<Rightarrow>
          (case NewSessionCrypto (prims S) RoleAgent hubPub priv (hNonce initHub) (aNonce resp) of
             Inl e \<Rightarrow> Inl (Channel e)
           | Inr sc \<Rightarrow> Inr (resp, sc)))"

text \<open>The agent's side of a connection: its answer to the opening message, and to the finished frame.\<close>

definition WsMiddleware ::
  "('priv, 'pub, 'sk) suite \<Rightarrow> 'sk \<Rightarrow> string \<Rightarrow> HandshakeContext \<Rightarrow> go_time \<Rightarrow> 'priv \<Rightarrow> string \<Rightarrow> KTHub \<Rightarrow>
   hs_error + KTAgent \<times> (string \<Rightarrow> hs_error + string \<times> SessionCrypto) + KTAgent \<times> SessionCrypto" where
  "WsMiddleware S sk hubKey hctx now xPriv agentNonce initHub =
     (if hVersion initHub = 0
      then (case legacyHandshake S hubKey now xPriv agentNonce initHub of
              Inl e \<Rightarrow> Inl e
            | Inr (resp, sc) \<Rightarrow> Inr (Inr (resp, sc)))
      else (case agent_respond S sk hubKey hctx now xPriv agentNonce initHub of
              Inl e \<Rightarrow> Inl e
            | Inr (resp, sc) \<Rightarrow> Inr (Inl (resp, agent_finish S sc))))"

section \<open>Laws of the primitives\<close>

definition suite_ok :: "('priv, 'pub, 'sk) suite \<Rightarrow> ('priv \<Rightarrow> 'pub) \<Rightarrow> bool" where
  "suite_ok S pub \<longleftrightarrow>
     primitives_ok (prims S) pub \<and>
     (\<forall>k s i okm. hkdf (prims S) k s i = Some okm \<longrightarrow> length okm = 64) \<and>
     (\<forall>p. length (x_public S p) = 32 \<and> x_new_public S (x_public S p) = Some (pub p)) \<and>
     (\<forall>sk m. length (ed_public S sk) = 32 \<and> length (sign S sk m) = 64 \<and> verify S (ed_public S sk) m (sign S sk m)) \<and>
     (\<forall>k. length k = 32 \<longrightarrow> pem_parse S (pem_encode S k) = Some k)"

lemma suite_okD:
  assumes "suite_ok S pub"
  shows "primitives_ok (prims S) pub" "length (x_public S p) = 32" "x_new_public S (x_public S p) = Some (pub p)"
    "length (ed_public S sk) = 32" "length (sign S sk m) = 64" "verify S (ed_public S sk) m (sign S sk m)"
    "length k = 32 \<Longrightarrow> pem_parse S (pem_encode S k) = Some k"
    "hkdf (prims S) sh sl i = Some okm \<Longrightarrow> length okm = 64"
  using assms unfolding suite_ok_def by blast+

lemma DecodeExactBase64_encode [simp]: "length b = sz \<Longrightarrow> DecodeExactBase64 (b64_std_encode b) sz = Some b"
  by (simp add: DecodeExactBase64_Some_iff)

section \<open>The pinned key\<close>

text \<open>A key that is set stays as it is.\<close>

definition keys_kept :: "('sk, 'z) aenv_scheme \<Rightarrow> ('sk, 'z) aenv_scheme \<Rightarrow> bool" where
  "keys_kept s t \<longleftrightarrow>
     (\<forall>sid row. map_of (agents s) sid = Some row \<longrightarrow> public_key row \<noteq> [] \<longrightarrow> map_of (agents t) sid = Some row)"

lemma next_call_aenv [simp]:
  "agents (snd (next_call s)) = agents s" "server_type (snd (next_call s)) = server_type s"
  "conn_auth (snd (next_call s)) = conn_auth s"
  by (simp_all add: next_call_def)

lemma next_call_run: "next_call s = (oc, u) \<Longrightarrow> agents u = agents s \<and> conn_auth u = conn_auth s"
  by (metis next_call_aenv(1,3) snd_conv)

lemma keys_kept_pin: "pinnable sid s \<Longrightarrow> keys_kept s (t\<lparr>agents := pin_row k sid s\<rparr>)"
  by (auto simp: keys_kept_def pin_row_def pinnable_def map_of_map_entry split: option.splits)

lemma pin_row_key:
  "pinnable sid s \<Longrightarrow> \<exists>row. map_of (pin_row k sid s) sid = Some row \<and> public_key row = k"
  by (auto simp: pin_row_def pinnable_def map_of_map_entry split: option.splits)

lemma pinActiveAgentPublicKey_run:
  assumes "pinActiveAgentPublicKey sid k s = (r, t)"
  shows "keys_kept s t \<and> conn_auth t = conn_auth s \<and>
    (\<forall>x. r = Inr x \<longrightarrow> x = k \<and> (\<exists>row. map_of (agents t) sid = Some row \<and> public_key row = k))"
proof -
  obtain oc u where u: "next_call s = (oc, u)" by fastforce
  then have same: "agents u = agents s" "conn_auth u = conn_auth s" "pinnable sid u = pinnable sid s"
    using next_call_aenv [of s] by (simp_all add: pinnable_def)
  have id: "keys_kept s v" if "agents v = agents s" for v :: "('a, 'b) aenv_scheme"
    using that by (simp add: keys_kept_def)
  show ?thesis
  proof (cases "oc = Failed \<or> \<not> pinnable sid s")
    case True
    then show ?thesis
      using assms u same id [of t]
      by (auto simp: pinActiveAgentPublicKey_def dest!: next_call_run split: outcome.splits prod.splits if_splits option.splits)
  next
    case False
    then have "t = u\<lparr>agents := pin_row k sid u\<rparr> \<and> (r = Inr k \<or> r = Inl DbError)"
      using assms u same by (auto simp: pinActiveAgentPublicKey_def split: outcome.splits)
    moreover have "pin_row k sid u = pin_row k sid s" using same by (simp add: pin_row_def)
    ultimately show ?thesis
      using False keys_kept_pin [of sid s k u] pin_row_key [of sid s k] same by auto
  qed
qed

lemma pin_identity_run:
  assumes "pin_identity S tofu candidate s = (r, t)"
  shows "keys_kept s t \<and> privKey (conn_auth t) = privKey (conn_auth s) \<and>
    (agentPubKey (conn_auth s) \<noteq> [] \<longrightarrow> t = s \<and> r = Inr ()) \<and>
    (agents t \<noteq> agents s \<longrightarrow> tofu) \<and>
    (agentPubKey (conn_auth s) = [] \<longrightarrow> r = Inr () \<longrightarrow> tofu \<and> protocolVersion (conn_auth t) = 2 \<and>
       (\<exists>row. map_of (agents t) (serverID (conn_auth s)) = Some row \<and> public_key row = pem_encode S candidate))"
proof (cases "agentPubKey (conn_auth s) = [] \<and> tofu")
  case False
  then show ?thesis
    using assms by (auto simp: pin_identity_def io_simps keys_kept_def split: if_splits)
next
  case True
  obtain p u where p: "pinActiveAgentPublicKey (serverID (conn_auth s)) (pem_encode S candidate) s = (p, u)"
    by fastforce
  show ?thesis
    using assms True pinActiveAgentPublicKey_run [OF p] p
    by (auto simp: pin_identity_def io_simps keys_kept_def split: sum.splits option.splits)
qed

lemma hub_finish_keys:
  assumes "hub_finish S peer sc = Inr sc'"
  shows "role sc' = role sc \<and> aeadTX sc' = aeadTX sc \<and> aeadRX sc' = aeadRX sc"
  using assms
  by (auto simp: hub_finish_def sendFinished_def receiveFinished_def Encrypt_def Decrypt_def Let_def
      split: option.splits sum.splits prod.splits if_splits)

lemma encryptConnection_keys_kept:
  assumes "encryptConnection S hctx tofu hubPriv hubNonce ts peer peerFin s = (r, s')"
  shows "keys_kept s s' \<and> (agents s' \<noteq> agents s \<longrightarrow> tofu \<and> agentPubKey (conn_auth s) = [])"
proof -
  have "s' = s \<or> (\<exists>id q. pin_identity S tofu id s = (q, s'))"
    using assms
    by (auto simp: encryptConnection_def check_identity_def lift_sum_def io_simps Let_def
        split: option.splits if_splits prod.splits sum.splits)
  then show ?thesis
    by (auto simp: keys_kept_def dest!: pin_identity_run)
qed

lemma encryptConnection_Inr:
  assumes "encryptConnection S hctx tofu hubPriv hubNonce ts peer peerFin s = (Inr sc, s')"
  obtains response xpub nonce id sig agentPub sc0 where
    "peer (hub_init S (privKey (conn_auth s)) hctx hubPriv hubNonce ts) = Some response"
    "aVersion response = ProtocolVersion" "decode_response response = Some (xpub, nonce, id, sig)"
    "verify S id (AgentSignatureMessage (hs_sha S)
       (TranscriptHash (hs_sha S) (hub_transcript S hctx hubPriv hubNonce ts id xpub nonce))) sig"
    "pin_identity S tofu id s = (Inr (), s')" "agentPubKey (conn_auth s') = id"
    "x_new_public S xpub = Some agentPub"
    "NewSessionCryptoV2 (prims S) RoleHub agentPub hubPriv
       (TranscriptHash (hs_sha S) (hub_transcript S hctx hubPriv hubNonce ts id xpub nonce)) = Inr sc0"
    "hub_finish S peerFin sc0 = Inr sc"
  using assms
  by (auto simp: encryptConnection_def check_identity_def lift_sum_def io_simps Let_def
      split: option.splits if_splits prod.splits sum.splits)

section \<open>Properties\<close>

text \<open>
  (C17) The hub opens a channel only to the identity it has pinned. Whatever the peer answers and
  whatever the database does, a key that is recorded for an agent never changes, and a key is
  recorded only on a connection that may pin and had none. A connection that succeeds has seen
  a signature of that identity over the transcript with the hub's own values: the pinned identity
  if there was one, else the one it pinned, which the table then records.
\<close>

theorem hub_handshake_authentic:
  assumes "encryptConnection S hctx tofu hubPriv hubNonce ts peer peerFin s = (r, s')"
  shows "keys_kept s s' \<and> (agents s' \<noteq> agents s \<longrightarrow> tofu \<and> agentPubKey (conn_auth s) = []) \<and>
    (\<forall>sc. r = Inr sc \<longrightarrow> (\<exists>response xpub nonce sig.
       peer (hub_init S (privKey (conn_auth s)) hctx hubPriv hubNonce ts) = Some response \<and>
       decode_response response = Some (xpub, nonce, agentPubKey (conn_auth s'), sig) \<and>
       verify S (agentPubKey (conn_auth s')) (AgentSignatureMessage (hs_sha S) (TranscriptHash (hs_sha S)
         (hub_transcript S hctx hubPriv hubNonce ts (agentPubKey (conn_auth s')) xpub nonce))) sig \<and>
       (if agentPubKey (conn_auth s) \<noteq> [] then agentPubKey (conn_auth s') = agentPubKey (conn_auth s)
        else tofu \<and> (\<exists>row. map_of (agents s') (serverID (conn_auth s)) = Some row \<and>
               public_key row = pem_encode S (agentPubKey (conn_auth s'))))))"
proof (intro conjI allI impI)
  show "keys_kept s s'" "agents s' \<noteq> agents s \<Longrightarrow> tofu" "agents s' \<noteq> agents s \<Longrightarrow> agentPubKey (conn_auth s) = []"
    using encryptConnection_keys_kept [OF assms] by auto
next
  fix sc assume "r = Inr sc"
  with assms have run: "encryptConnection S hctx tofu hubPriv hubNonce ts peer peerFin s = (Inr sc, s')" by simp
  from encryptConnection_Inr [OF run] obtain response xpub nonce id sig where
    c: "peer (hub_init S (privKey (conn_auth s)) hctx hubPriv hubNonce ts) = Some response"
      "decode_response response = Some (xpub, nonce, id, sig)"
      "verify S id (AgentSignatureMessage (hs_sha S)
         (TranscriptHash (hs_sha S) (hub_transcript S hctx hubPriv hubNonce ts id xpub nonce))) sig"
      "pin_identity S tofu id s = (Inr (), s')" "agentPubKey (conn_auth s') = id" by metis
  show "\<exists>response xpub nonce sig.
       peer (hub_init S (privKey (conn_auth s)) hctx hubPriv hubNonce ts) = Some response \<and>
       decode_response response = Some (xpub, nonce, agentPubKey (conn_auth s'), sig) \<and>
       verify S (agentPubKey (conn_auth s')) (AgentSignatureMessage (hs_sha S) (TranscriptHash (hs_sha S)
         (hub_transcript S hctx hubPriv hubNonce ts (agentPubKey (conn_auth s')) xpub nonce))) sig \<and>
       (if agentPubKey (conn_auth s) \<noteq> [] then agentPubKey (conn_auth s') = agentPubKey (conn_auth s)
        else tofu \<and> (\<exists>row. map_of (agents s') (serverID (conn_auth s)) = Some row \<and>
               public_key row = pem_encode S (agentPubKey (conn_auth s'))))"
    using c pin_identity_run [OF c(4)] by auto
qed

text \<open>A signature authenticates at most one message.\<close>

definition signed_only :: "('priv, 'pub, 'sk) suite \<Rightarrow> 'sk \<Rightarrow> string \<Rightarrow> string \<Rightarrow> bool" where
  "signed_only S sk M sig \<longleftrightarrow> (\<forall>msg. verify S (ed_public S sk) msg sig \<longrightarrow> msg = M)"

lemma AgentSignatureMessage_inject:
  assumes "inj_on sha {framed [''mosona-secure-ws-v2 agent signature'', a], framed [''mosona-secure-ws-v2 agent signature'', b]}"
    "small a" "small b" "AgentSignatureMessage sha a = AgentSignatureMessage sha b"
  shows "a = b"
proof -
  have "framed [''mosona-secure-ws-v2 agent signature'', a] = framed [''mosona-secure-ws-v2 agent signature'', b]"
    using assms(4) unfolding AgentSignatureMessage_def hashFields_def by (rule inj_onD [OF assms(1)]) simp_all
  moreover have "small ''mosona-secure-ws-v2 agent signature''" by code_simp
  ultimately show ?thesis using framed_inject assms(2,3) by fastforce
qed

text \<open>
  The transcripts of the two sides collide in neither of the two digests, and their fields and
  digests fit into memory.
\<close>

definition no_collision :: "(string \<Rightarrow> string) \<Rightarrow> HandshakeTranscript \<Rightarrow> HandshakeTranscript \<Rightarrow> bool" where
  "no_collision sha t u \<longleftrightarrow>
     list_all small (transcript_fields t) \<and> list_all small (transcript_fields u) \<and>
     small (TranscriptHash sha t) \<and> small (TranscriptHash sha u) \<and>
     inj_on sha {framed (transcript_fields t), framed (transcript_fields u)} \<and>
     inj_on sha {framed [''mosona-secure-ws-v2 agent signature'', TranscriptHash sha t],
       framed [''mosona-secure-ws-v2 agent signature'', TranscriptHash sha u]}"

lemma no_collision_inject:
  assumes "no_collision sha t u"
    "AgentSignatureMessage sha (TranscriptHash sha t) = AgentSignatureMessage sha (TranscriptHash sha u)"
  shows "t = u"
proof -
  note nc = assms(1) [unfolded no_collision_def]
  have "TranscriptHash sha t = TranscriptHash sha u"
    by (rule AgentSignatureMessage_inject [of sha]) (use nc assms(2) in blast)+
  then show ?thesis by (rule TranscriptHash_inject [rotated 3]) (use nc in blast)+
qed

lemma agent_respond_Inr:
  assumes "agent_respond S sk hubKey hctx now xPriv agentNonce m = Inr (resp, sa)"
  obtains hubPub where "x_new_public S (HubX25519Pub (agent_transcript S sk hctx xPriv agentNonce m)) = Some hubPub"
    "NewSessionCryptoV2 (prims S) RoleAgent hubPub xPriv
       (TranscriptHash (hs_sha S) (agent_transcript S sk hctx xPriv agentNonce m)) = Inr sa"
  using assms by (auto simp: agent_respond_def Let_def split: option.splits sum.splits)

text \<open>
  (C3) Mutual agreement with the network in the hands of an attacker. If a hub that has pinned the
  agent's identity completes a handshake, and the signature it was shown authenticates nothing
  but what the agent signed in answer to some opening message, then the two sides hold the same
  transcript - the same request, keys, nonces and time - and each end of the channel decrypts
  what the other encrypts.
\<close>

theorem handshake_agreement:
  assumes "suite_ok S pub"
    "encryptConnection S hctx tofu hubPriv hubNonce ts peer peerFin s = (Inr sc, s')"
    "agentPubKey (conn_auth s) = ed_public S sk"
    "agent_respond S sk hubKey hctx' now xPriv agentNonce m = Inr (resp, sa)"
    "\<And>response x n i sig. peer (hub_init S (privKey (conn_auth s)) hctx hubPriv hubNonce ts) = Some response \<Longrightarrow>
       decode_response response = Some (x, n, i, sig) \<Longrightarrow>
       no_collision (hs_sha S) (hub_transcript S hctx hubPriv hubNonce ts i x n) (agent_transcript S sk hctx' xPriv agentNonce m) \<and>
       signed_only S sk (AgentSignatureMessage (hs_sha S) (TranscriptHash (hs_sha S) (agent_transcript S sk hctx' xPriv agentNonce m))) sig"
  shows "agent_transcript S sk hctx' xPriv agentNonce m =
      hub_transcript S hctx hubPriv hubNonce ts (ed_public S sk) (x_public S xPriv) agentNonce \<and>
    hctx' = hctx \<and> hears sa sc \<and> hears sc sa"
proof -
  let ?tA = "agent_transcript S sk hctx' xPriv agentNonce m"
  from encryptConnection_Inr [OF assms(2)] obtain response x n i sig agentPub sc0 where
    c: "peer (hub_init S (privKey (conn_auth s)) hctx hubPriv hubNonce ts) = Some response"
      "decode_response response = Some (x, n, i, sig)"
      "verify S i (AgentSignatureMessage (hs_sha S)
         (TranscriptHash (hs_sha S) (hub_transcript S hctx hubPriv hubNonce ts i x n))) sig"
      "pin_identity S tofu i s = (Inr (), s')" "agentPubKey (conn_auth s') = i"
      "x_new_public S x = Some agentPub"
      "NewSessionCryptoV2 (prims S) RoleHub agentPub hubPriv
         (TranscriptHash (hs_sha S) (hub_transcript S hctx hubPriv hubNonce ts i x n)) = Inr sc0"
      "hub_finish S peerFin sc0 = Inr sc" by metis
  have "ed_public S sk \<noteq> []" using suite_okD(4) [OF assms(1), of sk] by auto
  then have i: "i = ed_public S sk" using pin_identity_run [OF c(4)] assms(3) c(5) by simp
  note u = assms(5) [OF c(1,2)]
  have "AgentSignatureMessage (hs_sha S) (TranscriptHash (hs_sha S) (hub_transcript S hctx hubPriv hubNonce ts i x n)) =
      AgentSignatureMessage (hs_sha S) (TranscriptHash (hs_sha S) ?tA)"
    using u c(3) unfolding signed_only_def i by blast
  then have tr: "hub_transcript S hctx hubPriv hubNonce ts i x n = ?tA"
    using no_collision_inject [OF conjunct1 [OF u]] by blast
  then have f: "x = x_public S xPriv" "n = agentNonce" "hctx' = hctx" "HubX25519Pub ?tA = x_public S hubPriv"
    by (auto simp: hub_transcript_def agent_transcript_def)
  from agent_respond_Inr [OF assms(4)] obtain hubPub where
    a: "x_new_public S (HubX25519Pub ?tA) = Some hubPub"
      "NewSessionCryptoV2 (prims S) RoleAgent hubPub xPriv (TranscriptHash (hs_sha S) ?tA) = Inr sa" by blast
  have "hubPub = pub hubPriv" "agentPub = pub xPriv"
    using a(1) c(6) f suite_okD(3) [OF assms(1)] by auto
  then have "hears sa sc0 \<and> hears sc0 sa"
    using NewSessionCryptoV2_hears [OF suite_okD(1) [OF assms(1)], of RoleHub xPriv hubPriv _ sc0 sa] c(7) a(2) tr by simp
  with hub_finish_keys [OF c(8)] have "hears sa sc \<and> hears sc sa" by (simp add: hears_def)
  with tr f i show ?thesis by simp
qed

subsection \<open>A concrete suite\<close>

definition key32 :: "64 word \<Rightarrow> string" where
  "key32 w = replicate 24 (CHR 0x00) @ PutUint64 w"

definition sample_hctx :: HandshakeContext where
  "sample_hctx = \<lparr>AgentUID = ''a1'', Path = ''/api/ws/state'', HTTPNonce = ''n'', HTTPTimestamp = ''0''\<rparr>"

definition sample_run :: HandshakeTranscript where
  "sample_run =
     \<lparr>Context = sample_hctx, HubX25519Pub = key32 3, HubNonce = replicate 16 (CHR ''h''), HubTimestamp = 0,
      AgentEd25519Pub = key32 9, AgentX25519Pub = key32 5, AgentNonce = replicate 16 (CHR ''a'')\<rparr>"

definition sample_message :: string where
  "sample_message = AgentSignatureMessage (\<lambda>x. x) (TranscriptHash (\<lambda>x. x) sample_run)"

definition sample_sign :: "string \<Rightarrow> string" where
  "sample_sign msg = replicate 64 (if msg = sample_message then CHR ''y'' else CHR ''n'')"

definition sample_suite :: "(64 word, 64 word, 64 word) suite" where
  "sample_suite =
     \<lparr>prims = sample_primitives, x_public = key32,
      x_new_public = (\<lambda>bs. Some (of_nat (from_bytes (drop 24 bs)))),
      sign = (\<lambda>sk msg. sample_sign msg), verify = (\<lambda>pk msg sig. sig = sample_sign msg),
      ed_public = key32, pem_encode = (\<lambda>k. k), pem_parse = Some\<rparr>"

lemma key32_simps [simp]: "length (key32 w) = 32" "(of_nat (from_bytes (drop 24 (key32 w))) :: 64 word) = w"
proof -
  have "from_bytes (PutUint64 w) = unat w" unfolding PutUint64_def by (rule from_be_bytes [OF uint64_less])
  then show "length (key32 w) = 32" "(of_nat (from_bytes (drop 24 (key32 w))) :: 64 word) = w"
    by (simp_all add: key32_def)
qed

lemma key32_inject [simp]: "key32 v = key32 w \<longleftrightarrow> v = w"
  by (simp add: key32_def)

lemma sample_suite_ok: "suite_ok sample_suite (\<lambda>a. a)"
proof -
  have "hkdf sample_primitives k s i = Some okm \<Longrightarrow> length okm = 64" for k s i okm
    by (auto simp: sample_primitives_def)
  then show ?thesis
    using sample_primitives_ok by (auto simp: suite_ok_def sample_suite_def sample_sign_def)
qed

lemma sample_suite_fields [simp]:
  "prims sample_suite = sample_primitives" "x_public sample_suite = key32"
  "x_new_public sample_suite bs = Some (of_nat (from_bytes (drop 24 bs)))"
  "sign sample_suite sk msg = sample_sign msg" "verify sample_suite pk msg sig = (sig = sample_sign msg)"
  "ed_public sample_suite = key32" "pem_encode sample_suite k = k" "pem_parse sample_suite k = Some k"
  "sha256 sample_primitives = (\<lambda>x. x)"
  by (simp_all add: sample_suite_def sample_primitives_def)

subsection \<open>Honest runs\<close>

definition answer :: "'e + 'a \<times> 'b \<Rightarrow> 'a option" where
  "answer r = (case r of Inl _ \<Rightarrow> None | Inr (x, _) \<Rightarrow> Some x)"

lemma finish_completes:
  assumes ok: "primitives_ok (prims S) pub" and xy: "hears y x" "hears x y" "rxSeq y = txSeq x" "rxSeq x = txSeq y"
  shows "\<exists>x'. hub_finish S (\<lambda>bs. answer (agent_finish S y bs)) x = Inr x'"
proof -
  obtain bs where bs: "Encrypt (prims S) HubFinished x = (Inr bs, x\<lparr>txSeq := txSeq x + 1\<rparr>)"
    "Decrypt (prims S) bs y = (Inr HubFinished, y\<lparr>rxSeq := rxSeq y + 1\<rparr>)"
    using Decrypt_Encrypt [OF ok xy(1,3)] by blast
  have "hears (x\<lparr>txSeq := txSeq x + 1\<rparr>) (y\<lparr>rxSeq := rxSeq y + 1\<rparr>)"
    "rxSeq (x\<lparr>txSeq := txSeq x + 1\<rparr>) = txSeq (y\<lparr>rxSeq := rxSeq y + 1\<rparr>)"
    using xy by (simp_all add: hears_def)
  from Decrypt_Encrypt [OF ok this] obtain reply y' x' where
    "Encrypt (prims S) AgentFinished (y\<lparr>rxSeq := rxSeq y + 1\<rparr>) = (Inr reply, y')"
    "Decrypt (prims S) reply (x\<lparr>txSeq := txSeq x + 1\<rparr>) = (Inr AgentFinished, x')" by metis
  with bs show ?thesis
    by (simp add: hub_finish_def agent_finish_def sendFinished_def receiveFinished_def answer_def)
qed

lemma NewSessionCryptoV2_Inr:
  assumes "suite_ok S pub" "ecdh (prims S) a b = Some shared" "\<And>k s i. hkdf (prims S) k s i \<noteq> None"
  shows "\<exists>sc. NewSessionCryptoV2 (prims S) r b a th = Inr sc"
proof -
  obtain okm where okm: "hkdf (prims S) shared (sha256 (prims S) ((''mosona-secure-ws-v2 salt'' @ [CHR 0x00]) @ th))
      ''mosona-secure-ws-v2 session keys'' = Some okm" using assms(3) by blast
  then have "length okm = 64" by (rule suite_okD(8) [OF assms(1)])
  with okm assms(2) show ?thesis by (simp add: NewSessionCryptoV2_def newSessionCrypto_def Let_def)
qed

lemma agent_respond_hub_init:
  assumes ok: "suite_ok S pub" and n: "length hubNonce = 16" and t: "timestamp_ok ts now"
    and key: "hubKey = ed_public S hubSk" and sa: "NewSessionCryptoV2 (prims S) RoleAgent (pub hubPriv) xPriv
      (TranscriptHash (hs_sha S) (hub_transcript S hctx hubPriv hubNonce ts (ed_public S sk) (x_public S xPriv) agentNonce)) = Inr sa"
  shows "agent_respond S sk hubKey hctx now xPriv agentNonce (hub_init S hubSk hctx hubPriv hubNonce ts) =
    Inr (\<lparr>aVersion = ProtocolVersion, aX25519Pub = b64_std_encode (x_public S xPriv), aNonce = b64_std_encode agentNonce,
          aEd25519Pub = b64_std_encode (ed_public S sk),
          aSign = b64_std_encode (sign S sk (AgentSignatureMessage (hs_sha S) (TranscriptHash (hs_sha S)
            (hub_transcript S hctx hubPriv hubNonce ts (ed_public S sk) (x_public S xPriv) agentNonce))))\<rparr>, sa)"
proof -
  let ?m = "hub_init S hubSk hctx hubPriv hubNonce ts"
  note laws = suite_okD [OF ok]
  have tr: "agent_transcript S sk hctx xPriv agentNonce ?m =
      hub_transcript S hctx hubPriv hubNonce ts (ed_public S sk) (x_public S xPriv) agentNonce"
    using n laws by (simp add: agent_transcript_def hub_transcript_def hub_init_def Let_def)
  have "verifyHandshakeInit S hubKey ?m hctx now = Inr ()"
    using n t laws by (simp add: verifyHandshakeInit_def hub_init_def key Let_def)
  moreover have "x_new_public S (HubX25519Pub (agent_transcript S sk hctx xPriv agentNonce ?m)) = Some (pub hubPriv)"
    using laws(3) by (simp add: tr hub_transcript_def)
  ultimately show ?thesis using sa by (simp add: agent_respond_def tr Let_def)
qed

lemma honest_handshake:
  assumes ok: "suite_ok S pub" and nonces: "length hubNonce = 16" "length agentNonce = 16"
    and time: "timestamp_ok ts now" and pinned: "agentPubKey (conn_auth s) = ed_public S sk"
    and hub: "hubKey = ed_public S (privKey (conn_auth s))"
    and dh: "ecdh (prims S) hubPriv (pub xPriv) = Some shared" and kdf: "\<And>k s i. hkdf (prims S) k s i \<noteq> None"
  shows "\<exists>resp sa sc. agent_respond S sk hubKey hctx now xPriv agentNonce
      (hub_init S (privKey (conn_auth s)) hctx hubPriv hubNonce ts) = Inr (resp, sa) \<and>
    encryptConnection S hctx tofu hubPriv hubNonce ts
      (\<lambda>m. answer (agent_respond S sk hubKey hctx now xPriv agentNonce m)) (\<lambda>bs. answer (agent_finish S sa bs)) s =
      (Inr sc, s) \<and> hears sa sc \<and> hears sc sa"
proof -
  note laws = suite_okD [OF ok]
  let ?th = "TranscriptHash (hs_sha S) (hub_transcript S hctx hubPriv hubNonce ts (ed_public S sk) (x_public S xPriv) agentNonce)"
  have dh': "ecdh (prims S) xPriv (pub hubPriv) = Some shared"
    using dh laws(1) unfolding primitives_ok_def by metis
  obtain sa where sa: "NewSessionCryptoV2 (prims S) RoleAgent (pub hubPriv) xPriv ?th = Inr sa"
    using NewSessionCryptoV2_Inr [OF ok dh' kdf] by blast
  obtain sh where sh: "NewSessionCryptoV2 (prims S) RoleHub (pub xPriv) hubPriv ?th = Inr sh"
    using NewSessionCryptoV2_Inr [OF ok dh kdf] by blast
  have m: "hears sa sh" "hears sh sa" "rxSeq sa = txSeq sh" "rxSeq sh = txSeq sa"
    using NewSessionCryptoV2_hears [OF laws(1) sh] sa by simp_all
  obtain sc where sc: "hub_finish S (\<lambda>bs. answer (agent_finish S sa bs)) sh = Inr sc"
    using finish_completes [OF laws(1) m] by blast
  note resp = agent_respond_hub_init [OF ok nonces(1) time hub sa]
  have ne: "ed_public S sk \<noteq> []" using laws(4) [of sk] by auto
  have "encryptConnection S hctx tofu hubPriv hubNonce ts
      (\<lambda>m. answer (agent_respond S sk hubKey hctx now xPriv agentNonce m)) (\<lambda>bs. answer (agent_finish S sa bs)) s = (Inr sc, s)"
    using nonces pinned laws ne sh sc
    by (simp add: encryptConnection_def resp answer_def decode_response_def pin_identity_def check_identity_def
        lift_sum_def io_simps Let_def)
  moreover have "hears sa sc \<and> hears sc sa" using m hub_finish_keys [OF sc] by (simp add: hears_def)
  ultimately show ?thesis using resp by blast
qed

text \<open>
  (C18) An honest handshake succeeds: a hub that has pinned the agent and an agent configured with
  the hub's key, whose clocks agree within two minutes, complete both exchanges over a network
  that delivers, and the hub ends with a session that the agent's session understands.
\<close>

theorem handshake_completes:
  assumes ok: "suite_ok S pub" and nonces: "length hubNonce = 16" "length agentNonce = 16"
    and time: "timestamp_ok ts now" and pinned: "agentPubKey (conn_auth s) = ed_public S sk"
    and hub: "hubKey = ed_public S (privKey (conn_auth s))"
    and dh: "ecdh (prims S) hubPriv (pub xPriv) = Some shared" and kdf: "\<And>k s i. hkdf (prims S) k s i \<noteq> None"
  shows "\<exists>resp sa sc. agent_respond S sk hubKey hctx now xPriv agentNonce
      (hub_init S (privKey (conn_auth s)) hctx hubPriv hubNonce ts) = Inr (resp, sa) \<and>
    encryptConnection S hctx tofu hubPriv hubNonce ts
      (\<lambda>m. answer (agent_respond S sk hubKey hctx now xPriv agentNonce m)) (\<lambda>bs. answer (agent_finish S sa bs)) s =
      (Inr sc, s) \<and> hears sa sc \<and> hears sc sa"
  by (rule honest_handshake [OF assms])

definition sample_auth :: "64 word auth" where
  "sample_auth = \<lparr>serverID = 7, agentUID = ''a1'', privKey = 1, agentPubKey = key32 9, protocolVersion = 2\<rparr>"

definition sample_aenv :: "64 word aenv" where
  "sample_aenv =
     \<lparr>calls = 0, outcomes = (\<lambda>_. Done), reads = 0, clock = (\<lambda>_. 0), team_seq = 1, tabs = sample_tables,
      agents = [(7, \<lparr>public_key = [], protocol_version = 1, agent_status = 0\<rparr>)], server_type = [(7, 1)],
      conn_auth = sample_auth\<rparr>"

lemma sample_handshake:
  "\<exists>resp sa sc. agent_respond sample_suite 9 (key32 1) sample_hctx 0 5 (replicate 16 (CHR ''a''))
      (hub_init sample_suite 1 sample_hctx 3 (replicate 16 (CHR ''h'')) 0) = Inr (resp, sa) \<and>
    encryptConnection sample_suite sample_hctx False 3 (replicate 16 (CHR ''h'')) 0
      (\<lambda>m. answer (agent_respond sample_suite 9 (key32 1) sample_hctx 0 5 (replicate 16 (CHR ''a'')) m))
      (\<lambda>bs. answer (agent_finish sample_suite sa bs)) sample_aenv = (Inr sc, sample_aenv) \<and> hears sa sc \<and> hears sc sa"
  using honest_handshake [OF sample_suite_ok, of "replicate 16 (CHR ''h'')" "replicate 16 (CHR ''a'')" 0 0 sample_aenv 9 "key32 1" 3 5
      "PutUint64 15" sample_hctx False]
  by (simp add: sample_aenv_def sample_auth_def timestamp_ok_def sample_primitives_def)

theorem handshake_completes_witness:
  "\<exists>resp sa sc. agent_respond sample_suite 9 (key32 1) sample_hctx 0 5 (replicate 16 (CHR ''a''))
      (hub_init sample_suite 1 sample_hctx 3 (replicate 16 (CHR ''h'')) 0) = Inr (resp, sa) \<and>
    encryptConnection sample_suite sample_hctx False 3 (replicate 16 (CHR ''h'')) 0
      (\<lambda>m. answer (agent_respond sample_suite 9 (key32 1) sample_hctx 0 5 (replicate 16 (CHR ''a'')) m))
      (\<lambda>bs. answer (agent_finish sample_suite sa bs)) sample_aenv = (Inr sc, sample_aenv)"
  using handshake_completes [OF sample_suite_ok, of "replicate 16 (CHR ''h'')" "replicate 16 (CHR ''a'')" 0 0 sample_aenv 9 "key32 1" 3 5
      "PutUint64 15" sample_hctx False]
  by (auto simp: sample_aenv_def sample_auth_def timestamp_ok_def sample_primitives_def)

lemma sample_transcripts:
  "hub_transcript sample_suite sample_hctx 3 (replicate 16 (CHR ''h'')) 0 (key32 9) (key32 5) (replicate 16 (CHR ''a'')) = sample_run"
  "agent_transcript sample_suite 9 sample_hctx 5 (replicate 16 (CHR ''a''))
     (hub_init sample_suite 1 sample_hctx 3 (replicate 16 (CHR ''h'')) 0) = sample_run"
  by (simp_all add: hub_transcript_def agent_transcript_def sample_run_def hub_init_def Let_def)

lemma sample_no_collision: "no_collision (\<lambda>x. x) sample_run sample_run"
proof -
  have "list_all small (transcript_fields sample_run)"
    by (simp add: small_def transcript_fields_def hub_fields_def sample_run_def sample_hctx_def int64Bytes_def)
  moreover have "small (TranscriptHash (\<lambda>x. x) sample_run)"
    by (simp add: small_def TranscriptHash_def hashFields_def framed_def transcript_fields_def hub_fields_def sample_run_def
        sample_hctx_def int64Bytes_def)
  ultimately show ?thesis by (simp add: no_collision_def)
qed

lemma sample_response:
  assumes "answer (agent_respond sample_suite 9 (key32 1) sample_hctx 0 5 (replicate 16 (CHR ''a''))
      (hub_init sample_suite 1 sample_hctx 3 (replicate 16 (CHR ''h'')) 0)) = Some response"
    "decode_response response = Some (x, n, i, sig)"
  shows "x = key32 5" "n = replicate 16 (CHR ''a'')" "i = key32 9" "sig = sample_sign sample_message"
proof -
  let ?resp = "\<lparr>aVersion = ProtocolVersion, aX25519Pub = b64_std_encode (key32 5), aNonce = b64_std_encode (replicate 16 (CHR ''a'')),
     aEd25519Pub = b64_std_encode (key32 9), aSign = b64_std_encode (sample_sign sample_message)\<rparr>"
  have "response = ?resp"
    using assms(1) by (auto simp: answer_def agent_respond_def Let_def sample_transcripts sample_message_def split: sum.splits)
  moreover have "length (sample_sign sample_message) = 64" by (simp add: sample_sign_def)
  ultimately have "decode_response response = Some (key32 5, replicate 16 (CHR ''a''), key32 9, sample_sign sample_message)"
    by (simp add: decode_response_def)
  with assms(2) show "x = key32 5" "n = replicate 16 (CHR ''a'')" "i = key32 9" "sig = sample_sign sample_message" by simp_all
qed

theorem handshake_agreement_witness:
  "\<exists>sa sc. encryptConnection sample_suite sample_hctx False 3 (replicate 16 (CHR ''h'')) 0
      (\<lambda>m. answer (agent_respond sample_suite 9 (key32 1) sample_hctx 0 5 (replicate 16 (CHR ''a'')) m))
      (\<lambda>bs. answer (agent_finish sample_suite sa bs)) sample_aenv = (Inr sc, sample_aenv) \<and> hears sa sc \<and> hears sc sa"
proof -
  obtain resp sa sc where r: "agent_respond sample_suite 9 (key32 1) sample_hctx 0 5 (replicate 16 (CHR ''a''))
      (hub_init sample_suite 1 sample_hctx 3 (replicate 16 (CHR ''h'')) 0) = Inr (resp, sa)"
    and h: "encryptConnection sample_suite sample_hctx False 3 (replicate 16 (CHR ''h'')) 0
      (\<lambda>m. answer (agent_respond sample_suite 9 (key32 1) sample_hctx 0 5 (replicate 16 (CHR ''a'')) m))
      (\<lambda>bs. answer (agent_finish sample_suite sa bs)) sample_aenv = (Inr sc, sample_aenv)"
    using sample_handshake by blast
  have y: "signed_only sample_suite 9 sample_message (sample_sign sample_message)"
    by (auto simp: signed_only_def sample_sign_def split: if_splits)
  have p: "privKey (conn_auth sample_aenv) = 1" "agentPubKey (conn_auth sample_aenv) = ed_public sample_suite 9"
    by (simp_all add: sample_aenv_def sample_auth_def)
  have c: "no_collision (hs_sha sample_suite)
      (hub_transcript sample_suite sample_hctx 3 (replicate 16 (CHR ''h'')) 0 i x n)
      (agent_transcript sample_suite 9 sample_hctx 5 (replicate 16 (CHR ''a''))
        (hub_init sample_suite 1 sample_hctx 3 (replicate 16 (CHR ''h'')) 0)) \<and>
    signed_only sample_suite 9 (AgentSignatureMessage (hs_sha sample_suite) (TranscriptHash (hs_sha sample_suite)
      (agent_transcript sample_suite 9 sample_hctx 5 (replicate 16 (CHR ''a''))
        (hub_init sample_suite 1 sample_hctx 3 (replicate 16 (CHR ''h'')) 0)))) sig"
    if "answer (agent_respond sample_suite 9 (key32 1) sample_hctx 0 5 (replicate 16 (CHR ''a''))
        (hub_init sample_suite 1 sample_hctx 3 (replicate 16 (CHR ''h'')) 0)) = Some response"
      "decode_response response = Some (x, n, i, sig)" for response x n i sig
    unfolding sample_response [OF that] sample_transcripts sample_suite_fields sample_message_def [symmetric]
    using sample_no_collision y by blast
  note agreed = handshake_agreement [OF sample_suite_ok h p(2) r, unfolded p(1)]
  have "hears sa sc" by (rule agreed [THEN conjunct2, THEN conjunct2, THEN conjunct1]) (erule (1) c)
  moreover have "hears sc sa" by (rule agreed [THEN conjunct2, THEN conjunct2, THEN conjunct2]) (erule (1) c)
  ultimately show ?thesis using h by blast
qed

theorem hub_handshake_authentic_witness:
  "\<exists>sa response xpub nonce sig.
     answer (agent_respond sample_suite 9 (key32 1) sample_hctx 0 5 (replicate 16 (CHR ''a''))
       (hub_init sample_suite 1 sample_hctx 3 (replicate 16 (CHR ''h'')) 0)) = Some response \<and>
     decode_response response = Some (xpub, nonce, key32 9, sig) \<and>
     isl (fst (encryptConnection sample_suite sample_hctx False 3 (replicate 16 (CHR ''h'')) 0
       (\<lambda>m. answer (agent_respond sample_suite 9 (key32 1) sample_hctx 0 5 (replicate 16 (CHR ''a'')) m))
       (\<lambda>bs. answer (agent_finish sample_suite sa bs)) sample_aenv)) = False"
proof -
  obtain sa sc where h: "encryptConnection sample_suite sample_hctx False 3 (replicate 16 (CHR ''h'')) 0
      (\<lambda>m. answer (agent_respond sample_suite 9 (key32 1) sample_hctx 0 5 (replicate 16 (CHR ''a'')) m))
      (\<lambda>bs. answer (agent_finish sample_suite sa bs)) sample_aenv = (Inr sc, sample_aenv)"
    using sample_handshake by blast
  have p: "privKey (conn_auth sample_aenv) = 1" "agentPubKey (conn_auth sample_aenv) = key32 9"
    by (simp_all add: sample_aenv_def sample_auth_def)
  have "isl (fst (encryptConnection sample_suite sample_hctx False 3 (replicate 16 (CHR ''h'')) 0
       (\<lambda>m. answer (agent_respond sample_suite 9 (key32 1) sample_hctx 0 5 (replicate 16 (CHR ''a'')) m))
       (\<lambda>bs. answer (agent_finish sample_suite sa bs)) sample_aenv)) = False"
    unfolding h by simp
  then show ?thesis
    using hub_handshake_authentic [OF h, unfolded p, THEN conjunct2, THEN conjunct2, rule_format, OF refl] by blast
qed

end
