(* ===== verification/Database.thy ===== *)
theory Database
  imports World
begin

text \<open>
  SQL statements and transactions over the tables of one component: the same conventions as for
  the user and team tables, with the tables a parameter of the state.
\<close>

record 'd dbenv = env +
  db :: 'd

definition exec_db :: "('d \<Rightarrow> 'd option) \<Rightarrow> (('d, 'z) dbenv_scheme, err, unit) io" where
  "exec_db f = (\<lambda>s. case next_call s of (oc, t) \<Rightarrow>
     (case (oc, f (db t)) of
        (Done, Some d) \<Rightarrow> (Inr (), t\<lparr>db := d\<rparr>)
      | (Done, None) \<Rightarrow> (Inl ErrConstraint, t)
      | (Lost, Some d) \<Rightarrow> (Inl ErrDb, t\<lparr>db := d\<rparr>)
      | (_, _) \<Rightarrow> (Inl ErrDb, t)))"

text \<open>A statement whose effect also yields a value: the rows it affected or returned.\<close>

definition exec_db_val :: "('d \<Rightarrow> ('d \<times> 'a) option) \<Rightarrow> (('d, 'z) dbenv_scheme, err, 'a) io" where
  "exec_db_val f = (\<lambda>s. case next_call s of (oc, t) \<Rightarrow>
     (case (oc, f (db t)) of
        (Done, Some (d, x)) \<Rightarrow> (Inr x, t\<lparr>db := d\<rparr>)
      | (Done, None) \<Rightarrow> (Inl ErrConstraint, t)
      | (Lost, Some (d, x)) \<Rightarrow> (Inl ErrDb, t\<lparr>db := d\<rparr>)
      | (_, _) \<Rightarrow> (Inl ErrDb, t)))"

definition query_db :: "('d \<Rightarrow> 'a) \<Rightarrow> (('d, 'z) dbenv_scheme, err, 'a) io" where
  "query_db q = (\<lambda>s. case next_call s of (oc, t) \<Rightarrow>
     (if oc = Done then (Inr (q (db t)), t) else (Inl ErrDb, t)))"

definition query_db_row :: "('d \<Rightarrow> 'a option) \<Rightarrow> (('d, 'z) dbenv_scheme, err, 'a) io" where
  "query_db_row q = bindE (query_db q) (\<lambda>r. case r of None \<Rightarrow> raise ErrNoRows | Some x \<Rightarrow> ret x)"

definition transaction_db :: "(('d, 'z) dbenv_scheme, err, 'a) io \<Rightarrow> (('d, 'z) dbenv_scheme, err, 'a) io" where
  "transaction_db body = (\<lambda>s. case next_call s of (oc, t) \<Rightarrow>
     (if oc \<noteq> Done then (Inl ErrDb, t)
      else case body t of
        (Inl e, u) \<Rightarrow> (Inl e, u\<lparr>db := db t\<rparr>)
      | (Inr x, u) \<Rightarrow> (case next_call u of (oc', v) \<Rightarrow>
          (case oc' of
             Done \<Rightarrow> (Inr x, v)
           | Failed \<Rightarrow> (Inl ErrDb, v\<lparr>db := db t\<rparr>)
           | Lost \<Rightarrow> (Inl ErrDb, v)))))"

lemma query_db_Inr_iff:
  "query_db q s = (Inr x, t) \<longleftrightarrow>
     outcomes s (calls s) = Done \<and> x = q (db s) \<and> t = s\<lparr>calls := Suc (calls s)\<rparr>"
  by (auto simp: query_db_def next_call_def)

lemma query_db_row_Inr_iff:
  "query_db_row q s = (Inr x, t) \<longleftrightarrow>
     outcomes s (calls s) = Done \<and> q (db s) = Some x \<and> t = s\<lparr>calls := Suc (calls s)\<rparr>"
  by (auto simp: query_db_row_def bindE_Inr_iff query_db_Inr_iff raise_def ret_def split: option.splits)

lemma exec_db_Inr_iff:
  "exec_db f s = (Inr x, t) \<longleftrightarrow>
     outcomes s (calls s) = Done \<and> (\<exists>d. f (db s) = Some d \<and> t = s\<lparr>calls := Suc (calls s), db := d\<rparr>)"
  by (auto simp: exec_db_def next_call_def split: outcome.splits option.splits)

lemma exec_db_val_Inr_iff:
  "exec_db_val f s = (Inr x, t) \<longleftrightarrow>
     outcomes s (calls s) = Done \<and> (\<exists>d. f (db s) = Some (d, x) \<and> t = s\<lparr>calls := Suc (calls s), db := d\<rparr>)"
  by (auto simp: exec_db_val_def next_call_def split: outcome.splits option.splits)

lemma exec_db_val_cases:
  "db (snd (exec_db_val f s)) = db s \<or> (\<exists>x. f (db s) = Some (db (snd (exec_db_val f s)), x))"
  by (auto simp: exec_db_val_def next_call_def split: outcome.splits option.splits)

lemma query_db_db [simp]: "db (snd (query_db q s)) = db s"
  by (simp add: query_db_def next_call_def)

lemma query_db_row_db [simp]: "db (snd (query_db_row q s)) = db s"
  by (auto simp: query_db_row_def bindE_snd raise_def ret_def split: sum.splits option.splits)

lemma exec_db_cases: "db (snd (exec_db f s)) = db s \<or> f (db s) = Some (db (snd (exec_db f s)))"
  by (auto simp: exec_db_def next_call_def split: outcome.splits option.splits)

text \<open>Invariants of the tables through statements and transactions.\<close>

lemma time_now_db [simp]: "db (snd (time_now s)) = db s"
  by (simp add: time_now_def)

lemma keeps_db_time_now [keeps_intros]: "keeps (\<lambda>s. P (db s)) time_now"
  by (rule keepsI) simp

lemma keeps_query_db [keeps_intros]: "keeps (\<lambda>s. P (db s)) (query_db q)"
  by (rule keepsI) simp

lemma keeps_exec_db: "(\<And>d d'. P d \<Longrightarrow> f d = Some d' \<Longrightarrow> P d') \<Longrightarrow> keeps (\<lambda>s. P (db s)) (exec_db f)"
  by (rule keepsI) (metis exec_db_cases)

lemma keeps_exec_db_val:
  "(\<And>d d' x. P d \<Longrightarrow> f d = Some (d', x) \<Longrightarrow> P d') \<Longrightarrow> keeps (\<lambda>s. P (db s)) (exec_db_val f)"
  by (rule keepsI) (metis exec_db_val_cases)

lemmas db_Inr_iffs = exec_db_val_Inr_iff query_db_Inr_iff query_db_row_Inr_iff exec_db_Inr_iff bindE_Inr_iff

lemma transaction_db_atomic:
  assumes "transaction_db body s = (r, u)"
  shows "(db u = db s \<and> (\<exists>e. r = Inl e)) \<or>
    (\<exists>x v. body (s\<lparr>calls := Suc (calls s)\<rparr>) = (Inr x, v) \<and> db u = db v \<and> (r = Inr x \<or> r = Inl ErrDb))"
  using assms
  by (auto simp: transaction_db_def next_call_def split: if_splits prod.splits sum.splits outcome.splits)

lemma keeps_query_db_row [keeps_intros]: "keeps (\<lambda>s. P (db s)) (query_db_row q)"
  by (rule keepsI) simp

lemma keeps_transaction_db [keeps_intros]:
  assumes "keeps (\<lambda>s. P (db s)) body"
  shows "keeps (\<lambda>s. P (db s)) (transaction_db body)"
proof (rule keepsI)
  fix s :: "('a, 'b) dbenv_scheme"
  assume P: "P (db s)"
  obtain r u where run: "transaction_db body s = (r, u)" by fastforce
  from transaction_db_atomic [OF run] have "P (db u)"
  proof
    assume "\<exists>x v. body (s\<lparr>calls := Suc (calls s)\<rparr>) = (Inr x, v) \<and> db u = db v \<and> (r = Inr x \<or> r = Inl ErrDb)"
    then obtain x v where v: "body (s\<lparr>calls := Suc (calls s)\<rparr>) = (Inr x, v)" "db u = db v" by blast
    have "P (db v)" by (rule keeps_run [OF assms _ v(1)]) (simp add: P)
    with v show ?thesis by simp
  qed (use P in simp)
  then show "P (db (snd (transaction_db body s)))" using run by simp
qed

text \<open>What a query returned is known of the tables it was asked of.\<close>

lemma keeps_bind_query_db:
  assumes "\<And>d. P d \<Longrightarrow> keeps (\<lambda>s. P (db s)) (f (q d))"
  shows "keeps (\<lambda>s. P (db s)) (bindE (query_db q) f)"
proof (rule keepsI)
  fix s :: "('a, 'b) dbenv_scheme"
  assume P: "P (db s)"
  have "P (db (snd (f (q (db s)) (s\<lparr>calls := Suc (calls s)\<rparr>))))"
    by (rule keepsD [OF assms [OF P]]) (simp add: P)
  with P show "P (db (snd (bindE (query_db q) f s)))"
    by (simp add: bindE_run query_db_def next_call_def)
qed

text \<open>A loop of statements that cannot violate a constraint is a fold over the tables.\<close>

lemma forE_exec_db_Inr:
  "forE xs (\<lambda>x. exec_db (\<lambda>d. Some (f x d))) s = (Inr y, t) \<Longrightarrow> db t = fold f xs (db s)"
  by (induction xs arbitrary: s) (fastforce simp: ret_def bindE_Inr_iff exec_db_Inr_iff)+

section \<open>Tables with a sequence, a unique index and checked rows\<close>

definition indexed :: "('v \<Rightarrow> 'k) \<Rightarrow> int \<Rightarrow> (int, 'v) table \<Rightarrow> bool" where
  "indexed key seq t \<longleftrightarrow> keyed t \<and> (\<forall>i r. map_of t i = Some r \<longrightarrow> i \<le> seq) \<and>
     (\<forall>i j r q. map_of t i = Some r \<longrightarrow> map_of t j = Some q \<longrightarrow> key r = key q \<longrightarrow> i = j)"

definition rows_ok :: "('v \<Rightarrow> bool) \<Rightarrow> ('k, 'v) table \<Rightarrow> bool" where
  "rows_ok P t \<longleftrightarrow> (\<forall>i r. map_of t i = Some r \<longrightarrow> P r)"

text \<open>The id of the row a unique index finds.\<close>

definition id_where :: "('v \<Rightarrow> bool) \<Rightarrow> (int, 'v) table \<Rightarrow> int option" where
  "id_where p t = map_option fst (find (\<lambda>(_, r). p r) t)"

lemma find_in_set: "find p xs = Some x \<Longrightarrow> x \<in> set xs \<and> p x"
  by (induction xs) (auto split: if_splits)

lemma id_where_Some: "keyed t \<Longrightarrow> id_where p t = Some i \<Longrightarrow> \<exists>r. map_of t i = Some r \<and> p r"
  using find_in_set by (fastforce simp: id_where_def keyed_in_set_map_of [symmetric])

lemma id_where_None: "id_where p t = None \<Longrightarrow> map_of t i = Some r \<Longrightarrow> \<not> p r"
  by (auto simp: id_where_def find_None_iff dest!: map_of_SomeD)

lemma indexed_keyed: "indexed key seq t \<Longrightarrow> keyed t"
  by (simp add: indexed_def)

lemma indexed_fresh: "indexed key seq t \<Longrightarrow> map_of t (seq + 1) = None"
  by (cases "map_of t (seq + 1)") (auto simp: indexed_def dest!: spec [of _ "seq + 1"])

lemma indexed_insert:
  assumes "indexed key seq t" "\<And>i q. map_of t i = Some q \<Longrightarrow> key q \<noteq> key r"
  shows "indexed key (seq + 1) ((seq + 1, r) # t)"
proof -
  have "i \<le> seq + 1" if "map_of t i = Some q" for i q using assms(1) that by (fastforce simp: indexed_def)
  moreover have "i = j" if "map_of t i = Some q" "map_of t j = Some q'" "key q = key q'" for i j q q'
    using assms(1) that by (auto simp: indexed_def)
  moreover have "keyed ((seq + 1, r) # t)"
    using indexed_fresh [OF assms(1)] indexed_keyed [OF assms(1)] by (simp add: map_of_eq_None_iff)
  ultimately show ?thesis using assms(2) unfolding indexed_def by (auto split: if_splits) metis+
qed

lemma indexed_map_entry:
  "indexed key seq t \<Longrightarrow> (\<And>r. key (f r) = key r) \<Longrightarrow> indexed key seq (AList.map_entry i f t)"
  by (auto simp: indexed_def distinct_map_entry map_of_map_entry split: if_splits option.splits)

lemma indexed_delete_where: "indexed key seq t \<Longrightarrow> indexed key seq (delete_where p t)"
  by (auto simp: indexed_def map_of_delete_where_Some)

lemma rows_ok_insert: "rows_ok P t \<Longrightarrow> P r \<Longrightarrow> rows_ok P ((i, r) # t)"
  by (simp add: rows_ok_def)

lemma rows_ok_map_entry: "rows_ok P t \<Longrightarrow> (\<And>r. map_of t i = Some r \<Longrightarrow> P r \<Longrightarrow> P (f r)) \<Longrightarrow> rows_ok P (AList.map_entry i f t)"
  by (auto simp: rows_ok_def map_of_map_entry split: if_splits option.splits)

lemma rows_ok_delete_where: "keyed t \<Longrightarrow> rows_ok P t \<Longrightarrow> rows_ok P (delete_where p t)"
  by (auto simp: rows_ok_def map_of_delete_where_Some)

lemma filter_map_entry_other:
  assumes "map_of t i = Some r" "\<not> p r" "\<And>x. p (f x) = p x" "keyed t"
  shows "filter (\<lambda>(_, r). p r) (AList.map_entry i f t) = filter (\<lambda>(_, r). p r) t"
  using assms(1,4)
proof (induction t)
  case (Cons kv t)
  have idle: "AList.map_entry i f t = t" if "i \<notin> fst ` set t" for t
    using that by (induction t) auto
  from Cons show ?case using assms(2,3) by (cases kv) (auto simp: idle split: if_splits)
qed simp

end
