(* ===== verification/Auto_Renew.thy ===== *)
theory Auto_Renew
  imports Database "HOL-Library.Signed_Division"
begin

text \<open>
  Automatic renewal of expired servers (\<open>internal/task/auto_renew.go\<close>): the calendar arithmetic
  that finds the next end of a billing period, and the task that moves all expired servers in one
  transaction. A \<open>time.Time\<close> is its wall clock in a location with a fixed offset from UTC, in
  which comparing wall clocks compares instants; PostgreSQL's \<open>timestamptz\<close> is read in one.
\<close>

section \<open>Calendar\<close>

record civil =
  year :: int
  month :: int
  day :: int
  since_midnight :: int   \<comment> \<open>nanoseconds\<close>

definition leap :: "int \<Rightarrow> bool" where
  "leap y \<longleftrightarrow> y mod 4 = 0 \<and> (y mod 100 \<noteq> 0 \<or> y mod 400 = 0)"

text \<open>\<open>time.Date(year, month+1, 0, ...)\<close> is the last day of the month.\<close>

definition daysInMonth :: "int \<Rightarrow> int \<Rightarrow> int" where
  "daysInMonth y m =
     (if m = 2 then (if leap y then 29 else 28) else if m \<in> {4, 6, 9, 11} then 30 else 31)"

definition valid_civil :: "civil \<Rightarrow> bool" where
  "valid_civil t \<longleftrightarrow> 1 \<le> year t \<and> 1 \<le> month t \<and> month t \<le> 12 \<and> 1 \<le> day t \<and>
     day t \<le> daysInMonth (year t) (month t) \<and> 0 \<le> since_midnight t \<and> since_midnight t < 24 * hour"

definition month_index :: "civil \<Rightarrow> int" where
  "month_index t = year t * 12 + month t - 1"

definition before :: "civil \<Rightarrow> civil \<Rightarrow> bool" where
  "before s t \<longleftrightarrow>
     year s < year t \<or> year s = year t \<and> (month s < month t \<or> month s = month t \<and>
       (day s < day t \<or> day s = day t \<and> since_midnight s < since_midnight t))"

definition addAnchoredMonths :: "civil \<Rightarrow> int \<Rightarrow> civil" where
  "addAnchoredMonths t months =
     (let monthIndex = year t * 12 + month t - 1 + months;
          y = monthIndex sdiv 12;
          m = monthIndex smod 12 + 1;
          lastDay = daysInMonth y m;
          d = (if day t = daysInMonth (year t) (month t) \<or> day t > lastDay then lastDay else day t) in
      \<lparr>year = y, month = m, day = d, since_midnight = since_midnight t\<rparr>)"

definition monthsPerCycle :: "int \<Rightarrow> int option" where
  "monthsPerCycle cycle =
     (if cycle = 1 then Some 1 else if cycle = 2 then Some 3 else if cycle = 3 then Some 6
      else if cycle = 4 then Some 12 else None)"

definition nextRenewalEndTime :: "civil \<Rightarrow> civil \<Rightarrow> int \<Rightarrow> civil option" where
  "nextRenewalEndTime endTime now cycle =
     (case monthsPerCycle cycle of
        None \<Rightarrow> None
      | Some m \<Rightarrow>
          let elapsedMonths = (year now - year endTime) * 12 + (month now - month endTime);
              cycles0 = elapsedMonths sdiv m;
              cycles = (if cycles0 < 1 then 1 else cycles0);
              newEndTime = addAnchoredMonths endTime (cycles * m) in
          Some (if before newEndTime now then addAnchoredMonths endTime ((cycles + 1) * m) else newEndTime))"

section \<open>The task\<close>

record info_row =
  end_time :: "civil option"
  cycle :: int
  auto_renew :: bool

type_synonym server_info = "(int, info_row) table"

definition expired :: "civil \<Rightarrow> info_row \<Rightarrow> bool" where
  "expired now r \<longleftrightarrow>
     (case end_time r of None \<Rightarrow> False | Some e \<Rightarrow> before e now) \<and> auto_renew r \<and> 1 \<le> cycle r \<and> cycle r \<le> 4"

definition select_expired :: "civil \<Rightarrow> server_info \<Rightarrow> (int \<times> civil \<times> int) list" where
  "select_expired now t =
     map (\<lambda>(sid, r). (sid, the (end_time r), cycle r)) (filter (\<lambda>(sid, r). expired now r) t)"

definition set_end_time :: "int \<Rightarrow> civil \<Rightarrow> server_info \<Rightarrow> server_info" where
  "set_end_time sid e t = AList.map_entry sid (\<lambda>r. r\<lparr>end_time := Some e\<rparr>) t"

definition autoRenewAt :: "civil \<Rightarrow> ((server_info, 'z) dbenv_scheme, err, unit) io" where
  "autoRenewAt now = transaction_db (
     bindE (query_db (select_expired now)) (\<lambda>rows.
     forE rows (\<lambda>(sid, endTime, c).
       case nextRenewalEndTime endTime now c of
         None \<Rightarrow> raise ErrConstraint
       | Some newEndTime \<Rightarrow> exec_db (\<lambda>d. Some (set_end_time sid newEndTime d)))))"

section \<open>Calendar lemmas\<close>

lemma sdiv_smod_12: "0 \<le> n \<Longrightarrow> n sdiv 12 = n div 12 \<and> n smod 12 = n mod (12 :: int)"
  by (cases "n = 0") (auto simp: signed_divide_int_def signed_modulo_int_def minus_mult_div_eq_mod)

lemma daysInMonth_bounds: "28 \<le> daysInMonth y m \<and> daysInMonth y m \<le> 31"
  by (simp add: daysInMonth_def)

lemma month_index_decomp:
  assumes "valid_civil t"
  shows "month_index t div 12 = year t \<and> month_index t mod 12 + 1 = month t \<and> 12 \<le> month_index t"
  using assms by (auto simp: valid_civil_def month_index_def) presburger+

lemma addAnchoredMonths_valid:
  assumes "valid_civil t" "0 \<le> k"
  shows "valid_civil (addAnchoredMonths t k) \<and> month_index (addAnchoredMonths t k) = month_index t + k"
proof -
  let ?i = "year t * 12 + month t - 1 + k"
  have i: "12 \<le> ?i" using assms by (auto simp: valid_civil_def)
  then have d: "?i sdiv 12 = ?i div 12" "?i smod 12 = ?i mod 12" using sdiv_smod_12 [of ?i] by simp_all
  have "1 \<le> ?i div 12" "0 \<le> ?i mod 12" "?i mod 12 < 12" "?i div 12 * 12 + ?i mod 12 = ?i"
    using i by (auto simp: pos_imp_zdiv_neg_iff zdiv_mono1 [of 12 ?i 12, simplified])
  then show ?thesis
    using assms daysInMonth_bounds [of "?i div 12" "?i mod 12 + 1"]
    by (auto simp: addAnchoredMonths_def Let_def d valid_civil_def month_index_def)
qed

lemma before_month:
  assumes "valid_civil s" "valid_civil t" "month_index s < month_index t"
  shows "before s t"
  using assms by (auto simp: valid_civil_def month_index_def before_def)

lemma before_asym: "before s t \<Longrightarrow> \<not> before t s"
  by (auto simp: before_def)

lemma before_month_le: "before s t \<Longrightarrow> valid_civil s \<Longrightarrow> valid_civil t \<Longrightarrow> month_index s \<le> month_index t"
  by (auto simp: before_def valid_civil_def month_index_def)

lemma monthsPerCycle_pos: "monthsPerCycle c = Some m \<Longrightarrow> 1 \<le> m"
  by (auto simp: monthsPerCycle_def split: if_splits)

lemma monthsPerCycle_Some_iff: "(\<exists>m. monthsPerCycle c = Some m) \<longleftrightarrow> 1 \<le> c \<and> c \<le> 4"
  by (auto simp: monthsPerCycle_def)

lemma sdiv_nonneg: "0 \<le> n \<Longrightarrow> 1 \<le> m \<Longrightarrow> n sdiv m = n div (m :: int)"
  by (cases "n = 0") (auto simp: signed_divide_int_def)

text \<open>The chosen renewal is the first one, counted in whole cycles, that is not in the past.\<close>

definition first_renewal :: "civil \<Rightarrow> civil \<Rightarrow> int \<Rightarrow> int \<Rightarrow> bool" where
  "first_renewal endTime now m k \<longleftrightarrow>
     1 \<le> k \<and> \<not> before (addAnchoredMonths endTime (k * m)) now \<and>
     (\<forall>j. 1 \<le> j \<and> j < k \<longrightarrow> before (addAnchoredMonths endTime (j * m)) now)"

lemma nextRenewalEndTime_first:
  assumes v: "valid_civil endTime" "valid_civil now" and b: "before endTime now" and m: "monthsPerCycle c = Some m"
  shows "\<exists>k. nextRenewalEndTime endTime now c = Some (addAnchoredMonths endTime (k * m)) \<and> first_renewal endTime now m k"
proof -
  let ?E = "month_index now - month_index endTime"
  let ?q = "?E div m"
  let ?c = "if ?q < 1 then 1 else ?q"
  have m1: "1 \<le> m" using m by (rule monthsPerCycle_pos)
  have E: "0 \<le> ?E" using before_month_le [OF b v] by simp
  have elapsed: "(year now - year endTime) * 12 + (month now - month endTime) = ?E"
    by (simp add: month_index_def algebra_simps)
  have div: "?q * m \<le> ?E" "?E < (?q + 1) * m"
    using m1 by (auto simp: algebra_simps minus_mod_eq_mult_div [symmetric] pos_mod_bound add_strict_left_mono)
  have later: "\<not> before (addAnchoredMonths endTime (k * m)) now" if "?q < k" for k
  proof -
    have "?E < k * m" using div(2) that m1 by (smt (verit) mult_right_mono)
    moreover have "0 \<le> k * m" using calculation E by linarith
    ultimately show ?thesis
      using addAnchoredMonths_valid [OF v(1)] before_month [OF v(2)] before_asym by fastforce
  qed
  have earlier: "before (addAnchoredMonths endTime (j * m)) now" if "1 \<le> j" "j < ?q" for j
  proof -
    have "(j + 1) * m \<le> ?q * m" using that m1 by (intro mult_right_mono) auto
    then have "j * m < ?E" using div(1) m1 by (simp add: algebra_simps)
    moreover have "0 \<le> j * m" using that m1 by simp
    ultimately show ?thesis using addAnchoredMonths_valid [OF v(1)] before_month [OF _ v(2)] by fastforce
  qed
  have run: "nextRenewalEndTime endTime now c = Some (if before (addAnchoredMonths endTime (?c * m)) now
      then addAnchoredMonths endTime ((?c + 1) * m) else addAnchoredMonths endTime (?c * m))"
    unfolding nextRenewalEndTime_def m option.case Let_def elapsed sdiv_nonneg [OF E m1] by (rule refl)
  show ?thesis
  proof (cases "before (addAnchoredMonths endTime (?c * m)) now")
    case True
    then have q: "\<not> ?q < 1" using later [of 1] by auto
    have "before (addAnchoredMonths endTime (j * m)) now" if "1 \<le> j" "j < ?q + 1" for j
      using that earlier [of j] True q by (cases "j = ?q") auto
    then have "first_renewal endTime now m (?q + 1)"
      using later [of "?q + 1"] q by (auto simp: first_renewal_def)
    with run True q show ?thesis by (intro exI [of _ "?q + 1"]) simp
  next
    case False
    then have "first_renewal endTime now m ?c" using earlier by (auto simp: first_renewal_def)
    with run False show ?thesis by (intro exI [of _ ?c]) simp
  qed
qed

section \<open>The task\<close>

lemma renew_loop_Inr:
  "forE rows (\<lambda>(sid, e, c). case nextRenewalEndTime e now c of None \<Rightarrow> raise ErrConstraint
     | Some n \<Rightarrow> exec_db (\<lambda>d. Some (set_end_time sid n d))) s = (Inr y, t) \<Longrightarrow>
   db t = fold (\<lambda>(sid, e, c). set_end_time sid (the (nextRenewalEndTime e now c))) rows (db s)"
proof (induction rows arbitrary: s)
  case Nil
  then show ?case by (simp add: ret_def)
next
  case (Cons row rows)
  obtain sid e c where "row = (sid, e, c)" by (cases row)
  with Cons show ?case by (fastforce simp: bindE_Inr_iff exec_db_Inr_iff raise_def split: option.splits)
qed

lemma map_of_set_end_time:
  "distinct (map fst rows) \<Longrightarrow>
   map_of (fold (\<lambda>(sid, e, c). set_end_time sid (g e c)) rows d) k =
     (case map_of rows k of None \<Rightarrow> map_of d k
      | Some (e, c) \<Rightarrow> map_option (\<lambda>r. r\<lparr>end_time := Some (g e c)\<rparr>) (map_of d k))"
proof (induction rows arbitrary: d)
  case (Cons row rows)
  obtain sid e c where row: "row = (sid, e, c)" by (cases row)
  have "map_of rows sid = None" using Cons.prems row by (simp add: map_of_eq_None_iff)
  with Cons row show ?case
    by (cases "k = sid") (auto simp: set_end_time_def map_of_map_entry split: option.splits)
qed simp

lemma select_expired_keys: "keyed t \<Longrightarrow> distinct (map fst (select_expired now t))"
  by (induction t) (force simp: select_expired_def)+

lemma map_of_select_expired:
  "keyed t \<Longrightarrow> map_of (select_expired now t) k =
     (case map_of t k of None \<Rightarrow> None | Some r \<Rightarrow> if expired now r then Some (the (end_time r), cycle r) else None)"
proof (induction t)
  case (Cons kv t)
  obtain sid r where kv: "kv = (sid, r)" by (cases kv)
  have "map_of t sid = None" using Cons.prems kv by (simp add: map_of_eq_None_iff)
  with Cons kv show ?case
    by (cases "k = sid") (auto simp: select_expired_def split: option.splits)
qed (simp add: select_expired_def)

definition renewed :: "civil \<Rightarrow> info_row \<Rightarrow> info_row" where
  "renewed now r = (if expired now r then r\<lparr>end_time := nextRenewalEndTime (the (end_time r)) now (cycle r)\<rparr> else r)"

lemma expired_next:
  assumes "expired now r" "\<forall>e. end_time r = Some e \<longrightarrow> valid_civil e" "valid_civil now"
  obtains e n where "end_time r = Some e" "nextRenewalEndTime e now (cycle r) = Some n" "\<not> before n now"
proof -
  obtain e where e: "end_time r = Some e" "before e now" "1 \<le> cycle r" "cycle r \<le> 4"
    using assms(1) by (auto simp: expired_def split: option.splits)
  then obtain m where "monthsPerCycle (cycle r) = Some m" using monthsPerCycle_Some_iff by blast
  with nextRenewalEndTime_first [OF _ assms(3) e(2)] assms(2) e(1) that show thesis
    unfolding first_renewal_def by blast
qed

lemma autoRenewAt_tables:
  assumes "keyed (db s)" "autoRenewAt now s = (r, s')"
  shows "(db s' = db s \<and> r \<noteq> Inr ()) \<or> 
    (\<forall>sid. map_of (db s') sid = map_option (renewed now) (map_of (db s) sid))" 
proof (rule disjE [OF transaction_db_atomic [OF assms(2) [unfolded autoRenewAt_def]]])
  assume "\<exists>x v. bindE (query_db (select_expired now)) (\<lambda>rows. forE rows (\<lambda>(sid, endTime, c).
       case nextRenewalEndTime endTime now c of None \<Rightarrow> raise ErrConstraint
       | Some newEndTime \<Rightarrow> exec_db (\<lambda>d. Some (set_end_time sid newEndTime d))))
     (s\<lparr>calls := Suc (calls s)\<rparr>) = (Inr x, v) \<and> db s' = db v \<and> (r = Inr x \<or> r = Inl ErrDb)"
  then have d: "db s' = fold (\<lambda>(sid, e, c). set_end_time sid (the (nextRenewalEndTime e now c))) (select_expired now (db s)) (db s)"
    by (auto simp: bindE_Inr_iff query_db_Inr_iff dest!: renew_loop_Inr)
  have "map_of (db s') sid = map_option (renewed now) (map_of (db s) sid)" for sid
  proof (cases "map_of (db s) sid")
    case (Some row)
    have "nextRenewalEndTime (the (end_time row)) now (cycle row) =
        Some (the (nextRenewalEndTime (the (end_time row)) now (cycle row)))" if "expired now row"
      using that monthsPerCycle_Some_iff [of "cycle row"] by (auto simp: expired_def nextRenewalEndTime_def Let_def)
    with Some show ?thesis
      by (simp add: d map_of_set_end_time select_expired_keys assms(1) map_of_select_expired renewed_def)
  qed (simp add: d map_of_set_end_time select_expired_keys assms(1) map_of_select_expired)
  then show ?thesis by blast
qed auto

section \<open>Properties\<close>

text \<open>
  Renewal of one server. For an end that has passed and each of the four billing cycles the
  new end is a valid date a whole number of cycles after the old one; it is not in the past, and
  every earlier multiple of the cycle is. The anchor day is kept: a month end stays a month end,
  another day is kept or cut to the length of a shorter month.
\<close>

theorem nextRenewalEndTime_correct:
  assumes "valid_civil endTime" "valid_civil now" "before endTime now" "monthsPerCycle c = Some m"
  shows "\<exists>k n. nextRenewalEndTime endTime now c = Some n \<and> first_renewal endTime now m k \<and>
    valid_civil n \<and> month_index n = month_index endTime + k * m \<and> since_midnight n = since_midnight endTime \<and>
    day n = (if day endTime = daysInMonth (year endTime) (month endTime) then daysInMonth (year n) (month n)
             else min (day endTime) (daysInMonth (year n) (month n)))"
proof -
  obtain k where k: "nextRenewalEndTime endTime now c = Some (addAnchoredMonths endTime (k * m))"
    "first_renewal endTime now m k"
    using nextRenewalEndTime_first [OF assms] by blast
  have "0 \<le> k * m" using k(2) monthsPerCycle_pos [OF assms(4)] by (simp add: first_renewal_def)
  from addAnchoredMonths_valid [OF assms(1) this] k show ?thesis
    by (auto simp: addAnchoredMonths_def Let_def)
qed

definition sample_date :: "int \<Rightarrow> int \<Rightarrow> int \<Rightarrow> civil" where
  "sample_date y m d = \<lparr>year = y, month = m, day = d, since_midnight = 12 * hour\<rparr>"

theorem nextRenewalEndTime_correct_witness:
  "nextRenewalEndTime (sample_date 2024 8 31) (sample_date 2025 9 1) 3 = Some (sample_date 2026 2 28) \<and>
   valid_civil (sample_date 2026 2 28)"
proof -
  have "valid_civil (sample_date 2024 8 31)" "valid_civil (sample_date 2025 9 1)"
    "before (sample_date 2024 8 31) (sample_date 2025 9 1)" "monthsPerCycle 3 = Some 6"
    by code_simp+
  note first = nextRenewalEndTime_correct [OF this]
  moreover have "nextRenewalEndTime (sample_date 2024 8 31) (sample_date 2025 9 1) 3 = Some (sample_date 2026 2 28)"
    by code_simp
  ultimately show ?thesis by auto
qed

text \<open>
  The renewal task is atomic and complete: either nothing changes and the task reports an
  error, or every expired server that renews automatically has its next end, no other row and no
  other column changed, and no server is left expired.
\<close>

theorem autoRenewAt_correct:
  assumes "keyed (db s)" "valid_civil now"
    "\<forall>sid row e. map_of (db s) sid = Some row \<longrightarrow> end_time row = Some e \<longrightarrow> valid_civil e"
    "autoRenewAt now s = (r, s')"
  shows "(db s' = db s \<and> r \<noteq> Inr ()) \<or>
    (\<forall>sid. map_of (db s') sid = map_option (renewed now) (map_of (db s) sid)) \<and>
    (\<forall>sid row. map_of (db s') sid = Some row \<longrightarrow> \<not> expired now row)"
proof -
  have fresh: "\<not> expired now (renewed now row)" if "map_of (db s) sid = Some row" for sid row
  proof (cases "expired now row")
    case True
    with assms that show ?thesis
      by (auto simp: renewed_def elim!: expired_next [of now row]) (auto simp: expired_def)
  qed (simp add: renewed_def)
  have "\<not> expired now row" if "\<forall>sid. map_of (db s') sid = map_option (renewed now) (map_of (db s) sid)"
      "map_of (db s') sid = Some row" for sid row
    using that fresh by (auto simp: map_option_eq_Some)
  with autoRenewAt_tables [OF assms(1,4)] show ?thesis by blast
qed

definition sample_info :: "server_info dbenv" where
  "sample_info =
     \<lparr>calls = 0, outcomes = (\<lambda>_. Done), reads = 0, clock = (\<lambda>_. 0), team_seq = 1, tabs = sample_tables,
      db = [(1, \<lparr>end_time = Some (sample_date 2024 1 31), cycle = 1, auto_renew = True\<rparr>),
            (2, \<lparr>end_time = Some (sample_date 2024 1 31), cycle = 1, auto_renew = False\<rparr>)]\<rparr>"

theorem autoRenewAt_correct_witness:
  "map_option end_time (map_of (db (snd (autoRenewAt (sample_date 2024 2 10) sample_info))) 1) =
     Some (Some (sample_date 2024 2 29)) \<and>
   \<not> expired (sample_date 2024 2 10)
       (the (map_of (db (snd (autoRenewAt (sample_date 2024 2 10) sample_info))) 1))"
proof -
  have k: "keyed (db sample_info)" and v: "valid_civil (sample_date 2024 2 10)" by code_simp+
  have e: "\<forall>sid row e. map_of (db sample_info) sid = Some row \<longrightarrow> end_time row = Some e \<longrightarrow> valid_civil e"
  proof -
    have "valid_civil (sample_date 2024 1 31)" by code_simp
    then show ?thesis by (auto simp: sample_info_def split: if_splits)
  qed
  have fin: "fst (autoRenewAt (sample_date 2024 2 10) sample_info) = Inr ()"
    and row: "map_option end_time (map_of (db (snd (autoRenewAt (sample_date 2024 2 10) sample_info))) 1) =
      Some (Some (sample_date 2024 2 29))" by code_simp+
  obtain info where "map_of (db (snd (autoRenewAt (sample_date 2024 2 10) sample_info))) 1 = Some info"
    using row by (cases "map_of (db (snd (autoRenewAt (sample_date 2024 2 10) sample_info))) 1") simp_all
  with autoRenewAt_correct [OF k v e prod.collapse [symmetric]] fin row show ?thesis by (metis option.sel)
qed

end
