(* ===== verification/Notifications.thy ===== *)
theory Notifications
  imports World Go_Strings
begin

text \<open>
  Delivery of notifications: \<open>internal/servernotify/notify.go\<close> (one event to all channels of a
  team), the rate limits of \<open>internal/notification/send.go\<close>, and the checks of targets in
  \<open>validate.go\<close> and \<open>generic.go\<close>. The transports, the URL parser, the mail address parser and
  Shoutrrr are parameters.
\<close>

section \<open>Delivering an event\<close>

record TeamNotification =
  Module :: string
  Target :: string

record Delivery =
  Attempted :: bool
  Delivered :: bool

text \<open>\<open>strings.Contains\<close>.\<close>

fun contains :: "string \<Rightarrow> string \<Rightarrow> bool" where
  "contains [] sub = (sub = [])"
| "contains (c # s) sub = (has_prefix sub (c # s) \<or> contains s sub)"

definition shout_target :: "string \<Rightarrow> string" where
  "shout_target target =
     (if contains target ''telegram://'' \<and> \<not> contains target ''parsemode=''
      then if contains target ''?'' then target @ ''&parsemode=HTML'' else target @ ''?parsemode=HTML''
      else target)"

text \<open>
  The transports: \<open>canceled\<close> reads the context, \<open>mail\<close> and \<open>shout\<close> send, and the two content
  parameters are the rendered mail (empty when the template failed) and the text of the message.
\<close>

record 's transports =
  canceled :: "'s \<Rightarrow> bool"
  mail :: "string \<Rightarrow> string \<Rightarrow> ('s, err, unit) io"
  shout :: "string \<Rightarrow> string \<Rightarrow> ('s, err, unit) io"

definition try_send :: "('s, err, unit) io \<Rightarrow> Delivery \<Rightarrow> ('s, err, Delivery) io" where
  "try_send send d = tryE send (\<lambda>r. case r of Inl _ \<Rightarrow> ret d | Inr _ \<Rightarrow> ret (d\<lparr>Delivered := True\<rparr>))"

definition deliver_one ::
  "'s transports \<Rightarrow> string \<Rightarrow> string \<Rightarrow> TeamNotification \<Rightarrow> Delivery \<Rightarrow> ('s, err, Delivery) io" where
  "deliver_one T emailContent text n d =
     (if Module n = ''email'' then
        let d1 = d\<lparr>Attempted := True\<rparr> in
        if emailContent \<noteq> '''' then try_send (mail T (Target n) emailContent) d1 else ret d1
      else if Module n = ''shoutrrr'' then
        try_send (shout T (shout_target (Target n)) text) (d\<lparr>Attempted := True\<rparr>)
      else ret d)"

fun deliver_loop ::
  "'s transports \<Rightarrow> string \<Rightarrow> string \<Rightarrow> TeamNotification list \<Rightarrow> Delivery \<Rightarrow> ('s, err, Delivery) io" where
  "deliver_loop T emailContent text [] d = ret d"
| "deliver_loop T emailContent text (n # ns) d =
     bindE (gets (canceled T)) (\<lambda>stop.
     if stop then ret d
     else bindE (deliver_one T emailContent text n d) (\<lambda>d'. deliver_loop T emailContent text ns d'))"

definition Deliver ::
  "'s transports \<Rightarrow> string \<Rightarrow> string \<Rightarrow> TeamNotification list \<Rightarrow> ('s, err, Delivery) io" where
  "Deliver T emailContent text notifications =
     bindE (gets (canceled T)) (\<lambda>stop.
     if notifications = [] \<or> stop then ret \<lparr>Attempted = False, Delivered = False\<rparr>
     else deliver_loop T emailContent text notifications \<lparr>Attempted = False, Delivered = False\<rparr>)"

text \<open>A delivery that reached somebody was attempted, and a transport reported success for it.\<close>

lemma deliver_loop_delivered:
  assumes "deliver_loop T e text ns d s = (r, t)" "Delivered d \<longrightarrow> Attempted d"
  shows "\<exists>d'. r = Inr d' \<and> (Delivered d' \<longrightarrow> Attempted d') \<and> (Attempted d \<longrightarrow> Attempted d') \<and>
    (Attempted d' \<longrightarrow> Attempted d \<or> (\<exists>n \<in> set ns. Module n = ''email'' \<or> Module n = ''shoutrrr''))"
  using assms
proof (induction ns arbitrary: d s)
  case (Cons n ns)
  show ?case
  proof (cases "canceled T s")
    case True
    with Cons.prems show ?thesis by (auto simp: io_simps)
  next
    case False
    have "\<exists>d1. fst (deliver_one T e text n d s) = Inr d1 \<and> (Delivered d1 \<longrightarrow> Attempted d1) \<and> (Attempted d \<longrightarrow> Attempted d1) \<and>
        (Attempted d1 \<longrightarrow> Attempted d \<or> Module n = ''email'' \<or> Module n = ''shoutrrr'')"
      using Cons.prems(2) by (auto simp: deliver_one_def try_send_def io_simps Let_def split: sum.splits)
    then obtain d1 u where b: "deliver_one T e text n d s = (Inr d1, u)"
      and d1: "Delivered d1 \<longrightarrow> Attempted d1" "Attempted d \<longrightarrow> Attempted d1"
        "Attempted d1 \<longrightarrow> Attempted d \<or> Module n = ''email'' \<or> Module n = ''shoutrrr''"
      by (metis prod.collapse)
    have "deliver_loop T e text ns d1 u = (r, t)"
      using Cons.prems(1) False by (simp add: bindE_run gets_def b)
    from Cons.IH [OF this d1(1)] d1 show ?thesis by auto
  qed
qed (auto simp: ret_def)

section \<open>Rate limits\<close>

record targetCounter =
  started :: go_time
  count :: nat

record targetRateLimiter =
  limit :: nat
  window :: duration
  counters :: "(string, targetCounter) table"
  limiter_calls :: "64 word"

definition newTargetRateLimiter :: "nat \<Rightarrow> duration \<Rightarrow> targetRateLimiter" where
  "newTargetRateLimiter n w = \<lparr>limit = n, window = w, counters = [], limiter_calls = 0\<rparr>"

definition sweep :: "go_time \<Rightarrow> targetRateLimiter \<Rightarrow> targetRateLimiter" where
  "sweep now l =
     (let l1 = l\<lparr>limiter_calls := limiter_calls l + 1\<rparr> in
      if unat (limiter_calls l1) mod 256 = 0
      then l1\<lparr>counters := delete_where (\<lambda>_ c. time_sub now (started c) \<ge> 2 * window l) (counters l1)\<rparr>
      else l1)"

definition admit :: "string \<Rightarrow> go_time \<Rightarrow> targetRateLimiter \<Rightarrow> bool \<times> targetRateLimiter" where
  "admit key now l =
     (case map_of (counters l) key of
        None \<Rightarrow> (True, l\<lparr>counters := AList.update key \<lparr>started = now, count = 1\<rparr> (counters l)\<rparr>)
      | Some c \<Rightarrow>
          if time_sub now (started c) \<ge> window l
          then (True, l\<lparr>counters := AList.update key \<lparr>started = now, count = 1\<rparr> (counters l)\<rparr>)
          else if count c \<ge> limit l then (False, l)
          else (True, l\<lparr>counters := AList.update key (c\<lparr>count := count c + 1\<rparr>) (counters l)\<rparr>))"

definition Allow :: "(string \<Rightarrow> string) \<Rightarrow> string \<Rightarrow> go_time \<Rightarrow> targetRateLimiter \<Rightarrow> bool \<times> targetRateLimiter" where
  "Allow sha target now l = admit (sha target) now (sweep now l)"

fun allow_all ::
  "(string \<Rightarrow> string) \<Rightarrow> (string \<times> go_time) list \<Rightarrow> targetRateLimiter \<Rightarrow> bool list \<times> targetRateLimiter" where
  "allow_all sha [] l = ([], l)"
| "allow_all sha ((target, now) # cs) l =
     (case Allow sha target now l of (ok, l1) \<Rightarrow>
        (case allow_all sha cs l1 of (oks, l2) \<Rightarrow> (ok # oks, l2)))"

text \<open>How many of the calls for the targets with a given digest were admitted.\<close>

definition admitted :: "(string \<Rightarrow> string) \<Rightarrow> string \<Rightarrow> (string \<times> go_time) list \<Rightarrow> bool list \<Rightarrow> nat" where
  "admitted sha key cs oks = length (filter (\<lambda>((target, _), ok). sha target = key \<and> ok) (zip cs oks))"

definition limiter_ok :: "targetRateLimiter \<Rightarrow> bool" where
  "limiter_ok l \<longleftrightarrow> keyed (counters l) \<and> 1 \<le> limit l \<and> 0 < window l \<and>
     (\<forall>k c. map_of (counters l) k = Some c \<longrightarrow> 1 \<le> count c \<and> count c \<le> limit l)"

lemma sweep_fields [simp]: "limit (sweep now l) = limit l" "window (sweep now l) = window l"
  by (simp_all add: sweep_def Let_def)

text \<open>What a sweep removes would have been replaced anyway.\<close>

lemma sweep_counter:
  assumes "limiter_ok l"
  shows "map_of (counters (sweep now l)) k = map_of (counters l) k \<or>
    map_of (counters (sweep now l)) k = None \<and>
      (\<exists>c. map_of (counters l) k = Some c \<and> time_sub now (started c) \<ge> window l)"
proof -
  have "0 < window l" "keyed (counters l)" using assms by (auto simp: limiter_ok_def)
  then show ?thesis
    by (auto simp: sweep_def Let_def map_of_delete_where split: option.splits)
qed

lemma sweep_ok: "limiter_ok l \<Longrightarrow> limiter_ok (sweep now l)"
  by (auto simp: limiter_ok_def sweep_def Let_def map_of_delete_where_Some)

lemma admit_ok: "limiter_ok l \<Longrightarrow> admit key now l = (ok, l') \<Longrightarrow> limiter_ok l' \<and> limit l' = limit l \<and> window l' = window l"
  by (auto simp: limiter_ok_def admit_def split: option.splits if_splits)

lemma Allow_ok:
  "limiter_ok l \<Longrightarrow> Allow sha target now l = (ok, l') \<Longrightarrow> limiter_ok l' \<and> limit l' = limit l \<and> window l' = window l"
  unfolding Allow_def using admit_ok [OF sweep_ok] by fastforce

text \<open>
  The state of one key within an interval that starts at \<open>t0\<close>: either its counter is older than
  the interval and has counted all admissions so far, or it was started inside, at most once.
\<close>

definition within :: "go_time \<Rightarrow> nat \<Rightarrow> string \<Rightarrow> targetRateLimiter \<Rightarrow> bool" where
  "within t0 a key l \<longleftrightarrow>
     (case map_of (counters l) key of
        None \<Rightarrow> a \<le> limit l
      | Some c \<Rightarrow> if started c < t0 then a \<le> count c else a \<le> limit l + count c)"

lemma sweep_within:
  assumes l: "limiter_ok l" and w: "within t0 a key l" and t: "t0 \<le> now" "now < t0 + window l" and m: "window l \<le> max_int64"
  shows "within t0 a key (sweep now l)"
proof (rule disjE [OF sweep_counter [OF l, of now key]])
  assume "map_of (counters (sweep now l)) key = None \<and>
      (\<exists>c. map_of (counters l) key = Some c \<and> time_sub now (started c) \<ge> window l)"
  then obtain c where c: "map_of (counters l) key = Some c" "map_of (counters (sweep now l)) key = None"
    "\<not> time_sub now (started c) < window l" by auto
  have "min_int64 < window l" using l by (simp add: limiter_ok_def min_int64_def)
  with c(3) t(2) m have "started c < t0" by (simp add: time_sub_less_iff)
  with c w l show ?thesis by (force simp: within_def limiter_ok_def)
qed (use w in \<open>auto simp: within_def split: option.splits\<close>)

lemma admit_within:
  assumes l: "limiter_ok l" and w: "within t0 a key l" and t: "t0 \<le> now" "now < t0 + window l" and m: "window l \<le> max_int64"
    and run: "admit k now l = (ok, l')"
  shows "within t0 (if k = key \<and> ok then a + 1 else a) key l'"
proof (cases "k = key")
  case True
  have pos: "min_int64 < window l" using l by (simp add: limiter_ok_def min_int64_def)
  have old: "started c < t0" if "\<not> time_sub now (started c) < window l" for c
    using that t(2) m pos by (simp add: time_sub_less_iff)
  have bnd: "count c \<le> limit l" if "map_of (counters l) key = Some c" for c
    using that l by (auto simp: limiter_ok_def)
  from run True w t(1) old bnd show ?thesis
    by (force simp: within_def admit_def not_less split: option.splits if_splits)
next
  case False
  with run w show ?thesis by (auto simp: within_def admit_def split: option.splits if_splits)
qed

lemma allow_all_within:
  assumes "limiter_ok l" "within t0 a key l" "window l \<le> max_int64"
    "list_all (\<lambda>(_, now). t0 \<le> now \<and> now < t0 + window l) cs" "allow_all sha cs l = (oks, l')"
  shows "limiter_ok l' \<and> limit l' = limit l \<and> within t0 (a + admitted sha key cs oks) key l'"
  using assms
proof (induction cs arbitrary: l a oks)
  case (Cons c cs)
  obtain target now where c: "c = (target, now)" by (cases c)
  obtain ok l1 where r: "Allow sha target now l = (ok, l1)" by fastforce
  obtain oks' where r': "allow_all sha cs l1 = (oks', l')" "oks = ok # oks'"
    using Cons.prems(5) c r by (auto split: prod.splits)
  note ok1 = Allow_ok [OF Cons.prems(1) r]
  have t: "t0 \<le> now" "now < t0 + window l" using Cons.prems(4) c by auto
  have "within t0 (if sha target = key \<and> ok then a + 1 else a) key l1"
    using admit_within [OF sweep_ok [OF Cons.prems(1)] sweep_within [OF Cons.prems(1,2) t Cons.prems(3)], of now "sha target" ok l1]
      t Cons.prems(3) r by (simp add: Allow_def)
  from Cons.IH [OF _ this _ _ r'(1)] ok1 Cons.prems(3,4) c r' show ?case
    by (auto simp: admitted_def split: if_splits)
qed (simp add: admitted_def)

section \<open>Configuration of targets\<close>

definition maxTargetLength :: nat where "maxTargetLength = 8192"
definition maxNotificationCount :: nat where "maxNotificationCount = 100"

text \<open>
  The parsers: of an absolute URI into scheme and opaque part, of a mail address, of a generic
  webhook URL, and Shoutrrr's own check of a target.
\<close>

record parsers =
  parse_uri :: "string \<Rightarrow> (string \<times> string) option"
  parse_address :: "string \<Rightarrow> string option"
  generic_target_ok :: "string \<Rightarrow> bool"
  create_sender_ok :: "string \<Rightarrow> bool"

definition isGenericScheme :: "string \<Rightarrow> bool" where
  "isGenericScheme scheme \<longleftrightarrow>
     equal_fold scheme ''generic'' \<or> equal_fold scheme ''generic+http'' \<or> equal_fold scheme ''generic+https''"

definition ValidateTarget :: "parsers \<Rightarrow> string \<Rightarrow> bool" where
  "ValidateTarget P target0 =
     (let target = trim_space target0 in
      if target = '''' \<or> length target > maxTargetLength then False
      else case parse_uri P target of
        None \<Rightarrow> False
      | Some (scheme0, opaque) \<Rightarrow>
          if scheme0 = '''' \<or> opaque \<noteq> '''' then False
          else let scheme = to_lower scheme0 in
            if scheme = ''generic'' \<or> scheme = ''generic+http'' \<or> scheme = ''generic+https'' then generic_target_ok P target
            else if has_prefix ''generic+'' scheme then False
            else create_sender_ok P target)"

definition NormalizeEntry :: "parsers \<Rightarrow> TeamNotification \<Rightarrow> TeamNotification option" where
  "NormalizeEntry P entry =
     (let m = to_lower (trim_space (Module entry)); t = trim_space (Target entry) in
      if t = '''' \<or> length t > maxTargetLength then None
      else if m = ''email'' then
        (case parse_address P t of
           None \<Rightarrow> None
         | Some address \<Rightarrow> if address \<noteq> t then None else Some \<lparr>Module = m, Target = t\<rparr>)
      else if m = ''shoutrrr'' then
        (if ValidateTarget P t then Some \<lparr>Module = m, Target = t\<rparr> else None)
      else None)"

fun normalize_loop :: "parsers \<Rightarrow> TeamNotification list \<Rightarrow> TeamNotification list option" where
  "normalize_loop P [] = Some []"
| "normalize_loop P (entry # entries) =
     (if trim_space (Module entry) = '''' \<and> trim_space (Target entry) = '''' then normalize_loop P entries
      else case NormalizeEntry P entry of
        None \<Rightarrow> None
      | Some item \<Rightarrow> map_option ((#) item) (normalize_loop P entries))"

definition NormalizeEntries :: "parsers \<Rightarrow> TeamNotification list \<Rightarrow> TeamNotification list option" where
  "NormalizeEntries P entries =
     (if length entries > maxNotificationCount then None else normalize_loop P entries)"

definition valid_entry :: "parsers \<Rightarrow> TeamNotification \<Rightarrow> bool" where
  "valid_entry P n \<longleftrightarrow>
     Target n \<noteq> [] \<and> length (Target n) \<le> maxTargetLength \<and> trim_space (Target n) = Target n \<and>
     (Module n = ''email'' \<and> parse_address P (Target n) = Some (Target n) \<or>
      Module n = ''shoutrrr'' \<and> ValidateTarget P (Target n))"

lemma normalize_switch:
  assumes "(if bad then None
      else if m = e then (case pa of None \<Rightarrow> None | Some ad \<Rightarrow> if ad \<noteq> t then None else Some (f m))
      else if m = sh then (if v then Some (f m) else None) else None) = Some n"
  shows "\<not> bad \<and> (n = f e \<and> pa = Some t \<or> n = f sh \<and> v)"
  using assms by (auto split: if_splits option.splits)

lemma NormalizeEntry_Some:
  assumes "NormalizeEntry P e = Some n"
  shows "valid_entry P n \<and> NormalizeEntry P n = Some n"
proof -
  have lc: "to_lower (trim_space ''email'') = ''email''" "to_lower (trim_space ''shoutrrr'') = ''shoutrrr''"
    by code_simp+
  let ?t = "trim_space (Target e)"
  from normalize_switch [where f = "\<lambda>m. \<lparr>Module = m, Target = ?t\<rparr>", OF assms [unfolded NormalizeEntry_def Let_def]]
  have "\<not> (?t = [] \<or> length ?t > maxTargetLength)"
    and "n = \<lparr>Module = ''email'', Target = ?t\<rparr> \<and> parse_address P ?t = Some ?t \<or>
      n = \<lparr>Module = ''shoutrrr'', Target = ?t\<rparr> \<and> ValidateTarget P ?t" by blast+
  from this(2,1) show ?thesis
    by (elim disjE conjE) (simp_all add: valid_entry_def NormalizeEntry_def lc Let_def)
qed

lemma normalize_loop_Some:
  "normalize_loop P es = Some ns \<Longrightarrow> list_all (valid_entry P) ns \<and> length ns \<le> length es \<and> normalize_loop P ns = Some ns"
proof (induction es arbitrary: ns)
  case (Cons e es)
  show ?case
  proof (cases "trim_space (Module e) = '''' \<and> trim_space (Target e) = ''''")
    case True
    with Cons show ?thesis by fastforce
  next
    case False
    then obtain n ms where n: "NormalizeEntry P e = Some n" "normalize_loop P es = Some ms" "ns = n # ms"
      using Cons.prems by (auto split: option.splits)
    have "trim_space (Target n) \<noteq> []" using NormalizeEntry_Some [OF n(1)] by (simp add: valid_entry_def)
    with Cons.IH [OF n(2)] NormalizeEntry_Some [OF n(1)] n(3) show ?thesis by simp
  qed
qed simp

section \<open>Headers and redirects of webhooks\<close>

definition forbidden_headers :: "string list" where
  "forbidden_headers =
     [''Host'', ''Content-Length'', ''Transfer-Encoding'', ''Connection'', ''Proxy-Authorization'', ''Trailer'', ''Upgrade'']"

definition has_newline :: "string \<Rightarrow> bool" where
  "has_newline s \<longleftrightarrow> CHR 0x0D \<in> set s \<or> CHR 0x0A \<in> set s"

text \<open>
  The query is an association list in the order the map is iterated in; \<open>canon\<close> is
  \<open>textproto.CanonicalMIMEHeaderKey\<close>.
\<close>

fun header_loop ::
  "(string \<Rightarrow> string) \<Rightarrow> (string \<times> string list) list \<Rightarrow> nat \<Rightarrow> (string, string) table \<Rightarrow> (string, string) table option" where
  "header_loop canon [] tot headers = Some headers"
| "header_loop canon ((key, values) # q) tot headers =
     (if \<not> has_prefix ''@'' key \<or> length key = 1 \<or> values = [] then header_loop canon q tot headers
      else let nm = canon (tl key); val = hd values in
        if nm = '''' \<or> has_newline (nm @ val) then None
        else if nm \<in> set forbidden_headers then None
        else let tot' = tot + length nm + length val in
          if tot' > 8192 then None
          else header_loop canon q tot' (AList.update nm val headers))"

definition genericHeaders :: "(string \<Rightarrow> string) \<Rightarrow> (string \<times> string list) list \<Rightarrow> (string, string) table option" where
  "genericHeaders canon query = header_loop canon query 0 []"

record redirect_request =
  rq_scheme :: string
  rq_host :: string
  rq_method :: string

definition check_redirect :: "redirect_request \<Rightarrow> redirect_request list \<Rightarrow> bool" where
  "check_redirect req via =
     (if length via \<ge> 3 then False
      else if (rq_scheme req \<noteq> ''http'' \<and> rq_scheme req \<noteq> ''https'') \<or> rq_host req = '''' then False
      else if rq_method req \<noteq> ''POST'' then False
      else if via \<noteq> [] \<and> (\<not> equal_fold (rq_host req) (rq_host (hd via)) \<or> \<not> equal_fold (rq_scheme req) (rq_scheme (hd via)))
      then False else True)"

definition safe_headers :: "(string, string) table \<Rightarrow> bool" where
  "safe_headers hs \<longleftrightarrow> (\<forall>(n, v) \<in> set hs. n \<noteq> [] \<and> n \<notin> set forbidden_headers \<and> \<not> has_newline n \<and> \<not> has_newline v)"

definition header_size :: "(string, string) table \<Rightarrow> nat" where
  "header_size hs = sum_list (map (\<lambda>(n, v). length n + length v) hs)"

lemma header_size_update: "header_size (AList.update n v hs) \<le> header_size hs + length n + length v"
  by (induction hs) (auto simp: header_size_def)

lemma header_loop_safe:
  assumes "header_loop canon q tot hs = Some hs'" "safe_headers hs" "header_size hs \<le> tot" "tot \<le> 8192"
  shows "safe_headers hs' \<and> header_size hs' \<le> 8192"
  using assms
proof (induction canon q tot hs rule: header_loop.induct)
  case (2 canon key vs q tot hs)
  show ?case
  proof (cases "\<not> has_prefix ''@'' key \<or> length key = 1 \<or> vs = []")
    case False
    let ?n = "canon (tl key)" and ?v = "hd vs"
    from 2(3) False have c: "?n \<noteq> []" "\<not> has_newline (?n @ ?v)" "?n \<notin> set forbidden_headers" "tot + length ?n + length ?v \<le> 8192"
      "header_loop canon q (tot + length ?n + length ?v) (AList.update ?n ?v hs) = Some hs'"
      by (auto simp: Let_def split: if_splits)
    have "set (AList.update ?n ?v hs) \<subseteq> insert (?n, ?v) (set hs)" by (induction hs) auto
    then have "safe_headers (AList.update ?n ?v hs)"
      using 2(4) c(1-3) by (fastforce simp: safe_headers_def has_newline_def)
    moreover have "header_size (AList.update ?n ?v hs) \<le> tot + length ?n + length ?v"
      using header_size_update [of ?n ?v hs] 2(5) by linarith
    ultimately show ?thesis using 2(2) [OF False refl refl _ _ refl] c by (auto simp: has_newline_def)
  qed (use 2 in simp)
qed auto

section \<open>Properties\<close>

lemma newTargetRateLimiter_ok: "1 \<le> n \<Longrightarrow> 0 < w \<Longrightarrow> limiter_ok (newTargetRateLimiter n w)"
  by (simp add: limiter_ok_def newTargetRateLimiter_def)

lemma allow_all_ok:
  "limiter_ok l \<Longrightarrow> allow_all sha cs l = (oks, l') \<Longrightarrow> limiter_ok l' \<and> limit l' = limit l \<and> window l' = window l"
proof (induction cs arbitrary: l oks)
  case (Cons c cs)
  obtain target now where c: "c = (target, now)" by (cases c)
  obtain ok l1 where r: "Allow sha target now l = (ok, l1)" by fastforce
  with Cons c Allow_ok [OF Cons.prems(1) r] show ?case by (fastforce split: prod.splits)
qed simp

text \<open>
  (C40) The limiter keeps its promise over every interval, not only over its own windows: after any
  history of calls, the calls for one target that fall into an interval as long as the window are
  admitted at most twice the limit. The periodic sweep of old counters cannot be used to get
  around it.
\<close>

theorem Allow_bounded:
  assumes "1 \<le> n" "0 < w" "w \<le> max_int64"
    "allow_all sha history (newTargetRateLimiter n w) = (past, l)"
    "list_all (\<lambda>(_, now). t0 \<le> now \<and> now < t0 + w) cs" "allow_all sha cs l = (oks, l')"
  shows "admitted sha key cs oks \<le> 2 * n"
proof -
  note l = allow_all_ok [OF newTargetRateLimiter_ok [OF assms(1,2)] assms(4)]
  have w: "window l = w" "limit l = n" using l by (simp_all add: newTargetRateLimiter_def)
  have "within t0 0 key l" by (simp add: within_def split: option.splits)
  from allow_all_within [OF conjunct1 [OF l] this _ _ assms(6)] assms(3,5) w
  have b: "limiter_ok l'" "limit l' = n" "within t0 (admitted sha key cs oks) key l'" by simp_all
  show ?thesis
  proof (cases "map_of (counters l') key")
    case None
    with b show ?thesis by (simp add: within_def)
  next
    case (Some c)
    then have "count c \<le> n" using b(1,2) by (auto simp: limiter_ok_def)
    with b(2,3) Some show ?thesis by (simp add: within_def split: if_splits)
  qed
qed

theorem Allow_bounded_witness:
  "admitted (\<lambda>x. x) ''t'' [(''t'', 5), (''t'', 6), (''t'', 7), (''u'', 8)]
     (fst (allow_all (\<lambda>x. x) [(''t'', 5), (''t'', 6), (''t'', 7), (''u'', 8)] (newTargetRateLimiter 1 10))) \<le> 2 \<and>
   fst (allow_all (\<lambda>x. x) [(''t'', 5), (''t'', 6), (''t'', 7), (''u'', 8)] (newTargetRateLimiter 1 10)) = [True, False, False, True]"
proof -
  have "fst (allow_all (\<lambda>x. x) [(''t'', 5), (''t'', 6), (''t'', 7), (''u'', 8)] (newTargetRateLimiter 1 10)) = [True, False, False, True]"
    by (simp add: newTargetRateLimiter_def Allow_def sweep_def admit_def Let_def time_sub_def min_int64_def max_int64_def)
  moreover have "10 \<le> max_int64" by (simp add: max_int64_def)
  ultimately show ?thesis
    using Allow_bounded [of 1 10 "\<lambda>x. x" "[]" "[]" "newTargetRateLimiter 1 10" 5
        "[(''t'', 5), (''t'', 6), (''t'', 7), (''u'', 8)]", OF _ _ _ _ _ prod.collapse [symmetric]] by simp
qed

text \<open>
  Accepted notification targets are in normal form: at most a hundred, each with a known
  module and a target that is trimmed, not empty, at most 8192 bytes long and valid for its
  module; normalising them again changes nothing.
\<close>

theorem NormalizeEntries_correct:
  assumes "NormalizeEntries P entries = Some ns"
  shows "list_all (valid_entry P) ns \<and> length ns \<le> maxNotificationCount \<and> NormalizeEntries P ns = Some ns"
  using assms normalize_loop_Some [of P entries ns] by (auto simp: NormalizeEntries_def split: if_splits)

definition sample_parsers :: parsers where
  "sample_parsers =
     \<lparr>parse_uri = (\<lambda>s. None), parse_address = Some, generic_target_ok = (\<lambda>_. False), create_sender_ok = (\<lambda>_. False)\<rparr>"

theorem NormalizeEntries_correct_witness:
  "list_all (valid_entry sample_parsers) [\<lparr>Module = ''email'', Target = ''a@b.c''\<rparr>] \<and>
   NormalizeEntries sample_parsers [\<lparr>Module = '' EMail'', Target = ''a@b.c ''\<rparr>, \<lparr>Module = '' '', Target = ''''\<rparr>] =
     Some [\<lparr>Module = ''email'', Target = ''a@b.c''\<rparr>]"
proof -
  have n: "NormalizeEntries sample_parsers [\<lparr>Module = '' EMail'', Target = ''a@b.c ''\<rparr>, \<lparr>Module = '' '', Target = ''''\<rparr>] =
      Some [\<lparr>Module = ''email'', Target = ''a@b.c''\<rparr>]" by code_simp
  from NormalizeEntries_correct [OF n] n show ?thesis by blast
qed

text \<open>
  The extra headers of a webhook cannot break the request: none is a hop-by-hop or framing
  header, no name or value carries a line break, and together they have at most 8192 bytes.
\<close>

theorem genericHeaders_safe:
  assumes "genericHeaders canon query = Some hs"
  shows "(\<forall>(n, v) \<in> set hs. n \<noteq> [] \<and> n \<notin> set forbidden_headers \<and> \<not> has_newline n \<and> \<not> has_newline v) \<and>
    header_size hs \<le> 8192"
  using header_loop_safe [OF assms [unfolded genericHeaders_def]]
  by (simp add: safe_headers_def header_size_def)

theorem genericHeaders_safe_witness:
  "\<not> has_newline ''secret'' \<and> genericHeaders (\<lambda>x. x) [(''@X-Key'', [''secret'']), (''title'', [''x''])] = Some [(''X-Key'', ''secret'')]"
proof -
  have h: "genericHeaders (\<lambda>x. x) [(''@X-Key'', [''secret'']), (''title'', [''x''])] = Some [(''X-Key'', ''secret'')]"
    by code_simp
  from genericHeaders_safe [OF h] h show ?thesis by simp
qed

end
