(* ===== verification/Alert_Rules.thy ===== *)
theory Alert_Rules
  imports Complex_Main Database Notifications
begin

text \<open>
  The evaluation of alert rules (\<open>internal/task/alerts\<close>: \<open>check.go\<close>, \<open>notification.go\<close>, \<open>run.go\<close>):
  when a rule notifies, what it remembers, and how a run stores the outcome. Measured values are
  reals; the two number formats of the messages are parameters.
\<close>

declare map_of_eq_Some_iff [simp del]

section \<open>Rules and observations\<close>

record alertRule =
  rule_id :: int
  threshold :: int
  forDuration :: int
  lastStatus :: "bool option"
  lastNotifyAt :: "go_time option"

record alertObservation =
  present :: bool
  obs_value :: real
  mountPoint :: string

definition no_observation :: alertObservation where
  "no_observation = \<lparr>present = False, obs_value = 0, mountPoint = []\<rparr>"

record serverExpiryInfo =
  EndTime :: "go_time option"
  AutoRenew :: bool

record alertInstance =
  serverMap :: "(int, string) table"
  expiryMap :: "(int, serverExpiryInfo) table"
  notifications :: "TeamNotification list"
  observation :: alertObservation

datatype statusNotification = NotifyNone | NotifyDown | NotifyUp

definition statusNotificationFor :: "bool option \<Rightarrow> bool \<Rightarrow> statusNotification" where
  "statusNotificationFor prior current =
     (case prior of
        None \<Rightarrow> if \<not> current then NotifyDown else NotifyNone
      | Some l \<Rightarrow> if l = current then NotifyNone else if current then NotifyUp else NotifyDown)"

type_synonym ('d, 'z, 'a) alert_io = "(('d, 'z) dbenv_scheme, err, 'a) io"

definition shouldNotify :: "bool \<Rightarrow> alertRule \<Rightarrow> ('d, 'z, bool) alert_io" where
  "shouldNotify current r =
     (if \<not> current then ret False
      else case lastStatus r of
        None \<Rightarrow> ret True
      | Some l \<Rightarrow>
          if l \<noteq> current then ret True
          else case lastNotifyAt r of
            None \<Rightarrow> ret True
          | Some t \<Rightarrow> bindE time_now (\<lambda>now. ret (time_sub now t > hour)))"

text \<open>
  The outside world of an evaluation: the transports, the rendering of a server name, a title and
  a message into the two contents of a delivery, and the formats \<open>%.2f\<close>, \<open>%.1f\<close> and of a date.
\<close>

record ('d, 'z) alert_world =
  channels :: "('d, 'z) dbenv_scheme transports"
  render :: "string \<Rightarrow> string \<Rightarrow> string \<Rightarrow> string \<times> string"
  f2 :: "real \<Rightarrow> string"
  f1 :: "real \<Rightarrow> string"
  format_date :: "go_time \<Rightarrow> string"

definition notifyAll ::
  "('d, 'z) alert_world \<Rightarrow> alertInstance \<Rightarrow> int \<Rightarrow> string \<Rightarrow> string \<Rightarrow> ('d, 'z, Delivery) alert_io" where
  "notifyAll W a serverId item message =
     (if notifications a = [] then ret \<lparr>Attempted = False, Delivered = False\<rparr>
      else
        let serverName = (case map_of (serverMap a) serverId of
              None \<Rightarrow> ''Server '' @ itoa serverId | Some n \<Rightarrow> n);
            (emailContent, text) = render W serverName item message in
        Deliver (channels W) emailContent text (notifications a))"

text \<open>What a rule remembers after a notification for the status \<open>current\<close> was due.\<close>

definition settle ::
  "alertRule \<Rightarrow> bool \<Rightarrow> Delivery \<Rightarrow> ('d, 'z, bool option \<times> go_time option) alert_io" where
  "settle r current d =
     (if Delivered d then bindE time_now (\<lambda>now. ret (Some current, Some now))
      else if Attempted d then ret (lastStatus r, lastNotifyAt r)
      else ret (Some current, lastNotifyAt r))"

definition checkMetricAlert ::
  "('d, 'z) alert_world \<Rightarrow> alertInstance \<Rightarrow> int \<Rightarrow> alertRule \<Rightarrow> string \<Rightarrow> (real \<Rightarrow> int \<Rightarrow> int \<Rightarrow> string) \<Rightarrow>
   ('d, 'z, bool option \<times> go_time option) alert_io" where
  "checkMetricAlert W a serverId r title fmt =
     (if \<not> present (observation a) then ret (Some False, lastNotifyAt r)
      else
        let avgValue = obs_value (observation a); current = (avgValue \<ge> of_int (threshold r)) in
        bindE (shouldNotify current r) (\<lambda>due.
        if due then
          bindE (notifyAll W a serverId title (fmt avgValue (forDuration r) (threshold r))) (settle r current)
        else ret (Some current, lastNotifyAt r)))"

definition checkStatusAlert ::
  "('d, 'z) alert_world \<Rightarrow> alertInstance \<Rightarrow> int \<Rightarrow> alertRule \<Rightarrow> ('d, 'z, bool option \<times> go_time option) alert_io" where
  "checkStatusAlert W a serverId r =
     (let current = present (observation a) in
      case statusNotificationFor (lastStatus r) current of
        NotifyNone \<Rightarrow> ret (Some current, lastNotifyAt r)
      | NotifyUp \<Rightarrow> bindE (notifyAll W a serverId ''Server Up'' ''The server is now UP.'') (settle r current)
      | NotifyDown \<Rightarrow>
          bindE (notifyAll W a serverId ''Server Down'' (''No response for '' @ itoa (forDuration r) @ '' minutes.''))
            (settle r current))"

definition usage_message :: "string \<Rightarrow> (real \<Rightarrow> string) \<Rightarrow> string \<Rightarrow> real \<Rightarrow> int \<Rightarrow> int \<Rightarrow> string" where
  "usage_message what fmt unit val dur thr =
     ''The '' @ itoa dur @ ''-minutes average '' @ what @ '' reached '' @ fmt val @ unit @
     '', exceeding the configured threshold of '' @ itoa thr @ unit"

definition checkCPUUsageAlert ::
  "('d, 'z) alert_world \<Rightarrow> alertInstance \<Rightarrow> int \<Rightarrow> alertRule \<Rightarrow> ('d, 'z, bool option \<times> go_time option) alert_io" where
  "checkCPUUsageAlert W a serverId r =
     checkMetricAlert W a serverId r ''CPU usage exceeded threshold'' (usage_message ''CPU usage'' (f2 W) ''%'')"

definition checkMemoryUsageAlert ::
  "('d, 'z) alert_world \<Rightarrow> alertInstance \<Rightarrow> int \<Rightarrow> alertRule \<Rightarrow> ('d, 'z, bool option \<times> go_time option) alert_io" where
  "checkMemoryUsageAlert W a serverId r =
     checkMetricAlert W a serverId r ''Memory usage exceeded threshold'' (usage_message ''Memory usage'' (f2 W) ''%'')"

definition iops_message :: "string \<Rightarrow> (real \<Rightarrow> string) \<Rightarrow> real \<Rightarrow> int \<Rightarrow> int \<Rightarrow> string" where
  "iops_message what fmt val dur thr =
     ''The '' @ itoa dur @ ''-minutes average '' @ what @ '' reached '' @ fmt val @
     '', exceeding the configured threshold of '' @ itoa thr @ '' IOPS''"

definition checkReadIOPSAlert ::
  "('d, 'z) alert_world \<Rightarrow> alertInstance \<Rightarrow> int \<Rightarrow> alertRule \<Rightarrow> ('d, 'z, bool option \<times> go_time option) alert_io" where
  "checkReadIOPSAlert W a serverId r =
     checkMetricAlert W a serverId r ''Read IOPS exceeded threshold'' (iops_message ''Read IOPS'' (f1 W))"

definition checkWriteIOPSAlert ::
  "('d, 'z) alert_world \<Rightarrow> alertInstance \<Rightarrow> int \<Rightarrow> alertRule \<Rightarrow> ('d, 'z, bool option \<times> go_time option) alert_io" where
  "checkWriteIOPSAlert W a serverId r =
     checkMetricAlert W a serverId r ''Write IOPS exceeded threshold'' (iops_message ''Write IOPS'' (f1 W))"

definition checkBandwidthAlert ::
  "('d, 'z) alert_world \<Rightarrow> alertInstance \<Rightarrow> int \<Rightarrow> alertRule \<Rightarrow> ('d, 'z, bool option \<times> go_time option) alert_io" where
  "checkBandwidthAlert W a serverId r =
     checkMetricAlert W a serverId r ''Bandwidth usage exceeded threshold''
       (usage_message ''Bandwidth usage'' (f2 W) '' Mbps'')"

definition checkDiskUsageAlert ::
  "('d, 'z) alert_world \<Rightarrow> alertInstance \<Rightarrow> int \<Rightarrow> alertRule \<Rightarrow> ('d, 'z, bool option \<times> go_time option) alert_io" where
  "checkDiskUsageAlert W a serverId r =
     (if \<not> present (observation a) then ret (Some False, lastNotifyAt r)
      else
        let avgValue = obs_value (observation a); current = (avgValue \<ge> of_int (threshold r)) in
        bindE (shouldNotify current r) (\<lambda>due.
        if due then
          bindE (notifyAll W a serverId ''Disk usage exceeded threshold''
            (''The '' @ itoa (forDuration r) @ ''-minutes average disk usage for '' @ mountPoint (observation a) @
             '' reached '' @ f2 W avgValue @ ''%, exceeding the configured threshold of '' @ itoa (threshold r) @ ''%''))
            (settle r current)
        else ret (Some current, lastNotifyAt r)))"

definition days_left :: "duration \<Rightarrow> int" where
  "days_left remaining =
     (let d = go_div (wrap64 (remaining + 24 * hour - 1)) (24 * hour) in if d < 1 then 1 else d)"

definition checkExpiryReminderAlert ::
  "('d, 'z) alert_world \<Rightarrow> alertInstance \<Rightarrow> int \<Rightarrow> alertRule \<Rightarrow> ('d, 'z, bool option \<times> go_time option) alert_io" where
  "checkExpiryReminderAlert W a serverId r =
     (case map_of (expiryMap a) serverId of
        None \<Rightarrow> ret (Some False, lastNotifyAt r)
      | Some info \<Rightarrow>
        (case EndTime info of
           None \<Rightarrow> ret (Some False, lastNotifyAt r)
         | Some endTime \<Rightarrow>
             if AutoRenew info then ret (Some False, lastNotifyAt r)
             else bindE time_now (\<lambda>now.
               let remaining = time_sub endTime now;
                   current = (remaining > 0 \<and> remaining \<le> wrap64 (threshold r * 24 * hour)) in
               if \<not> current then ret (Some False, lastNotifyAt r)
               else if lastStatus r = Some True then ret (Some True, lastNotifyAt r)
               else
                 bindE (notifyAll W a serverId ''Server expiry reminder''
                   (''This server is not set to auto-renew and will expire in '' @ itoa (days_left remaining) @
                    '' day(s) on '' @ format_date W endTime @ ''.'')) (settle r True))))"

end
