(* ===== verification/Alert_Queries.thy ===== *)
theory Alert_Queries
  imports Alert_Rules "HOL-Library.Char_ord" "HOL-Library.List_Lexorder" "HOL-Library.Multiset"
begin

text \<open>
  The observations of alert rules (\<open>internal/task/alerts/influx.go\<close>, \<open>types.go\<close>): how the rules of
  all servers are grouped into Flux queries, what the queries say, and how their records become
  observations. Query execution and the JSON of the disk field are parameters. Strings compare
  byte by byte, which is the order of Go.
\<close>

declare map_of_eq_Some_iff [simp del]

section \<open>Items and rules\<close>

record ServerAlert =
  ID :: int
  Item :: string
  Threshold :: int
  ForDuration :: int
  LastStatus :: "bool option"
  LastNotifyAt :: "go_time option"

abbreviation "alertItemStatus \<equiv> ''status''"
abbreviation "alertItemCPU \<equiv> ''cpu_usage''"
abbreviation "alertItemMemory \<equiv> ''memory_usage''"
abbreviation "alertItemDisk \<equiv> ''disk_usage''"
abbreviation "alertItemReadIOPS \<equiv> ''read_iops''"
abbreviation "alertItemWriteIOPS \<equiv> ''write_iops''"
abbreviation "alertItemBandwidth \<equiv> ''bandwidth''"
abbreviation "alertItemExpiry \<equiv> ''expiry_reminder''"
abbreviation "AlertItemSSHLogin \<equiv> ''ssh_login''"

definition influxAlertItems :: "string list" where
  "influxAlertItems =
     [alertItemStatus, alertItemCPU, alertItemMemory, alertItemDisk, alertItemReadIOPS, alertItemWriteIOPS,
      alertItemBandwidth]"

definition alertServerBatchSize :: nat where "alertServerBatchSize = 64"
definition alertMaxQueryBranches :: nat where "alertMaxQueryBranches = 8"
definition alertRawWindowMinutes :: int where "alertRawWindowMinutes = 15"
definition alertRawTailDuration :: duration where "alertRawTailDuration = 2 * minute"

type_synonym rules = "(string, ServerAlert) table"
type_synonym server_rules = "(int, rules) table"

definition rule_of :: "server_rules \<Rightarrow> int \<Rightarrow> string \<Rightarrow> ServerAlert option" where
  "rule_of serverRules sid item = (case map_of serverRules sid of None \<Rightarrow> None | Some rs \<Rightarrow> map_of rs item)"

definition alertItemFields :: "string \<Rightarrow> string list option" where
  "alertItemFields item =
     (if item = alertItemStatus \<or> item = alertItemCPU then Some [''cpu'']
      else if item = alertItemMemory then Some [''mem_total_mb'', ''mem_used_mb'']
      else if item = alertItemDisk then Some [''disks'', ''disk_total_gb'', ''disk_used_gb'']
      else if item = alertItemReadIOPS then Some [''disk_read_iops'']
      else if item = alertItemWriteIOPS then Some [''disk_write_iops'']
      else if item = alertItemBandwidth then Some [''rx_kib_s'', ''tx_kib_s'']
      else None)"

section \<open>Duration groups\<close>

type_synonym groups = "(int, int list) table"

definition group_of :: "groups \<Rightarrow> int \<Rightarrow> int list" where
  "group_of g d = (case map_of g d of None \<Rightarrow> [] | Some ids \<Rightarrow> ids)"

fun duration_loop ::
  "server_rules \<Rightarrow> string \<Rightarrow> int list \<Rightarrow> groups \<times> int list \<times> int \<Rightarrow> groups \<times> int list \<times> int" where
  "duration_loop rs item [] acc = acc"
| "duration_loop rs item (sid # sids) (g, requested, invalid) =
     (case rule_of rs sid item of
        None \<Rightarrow> duration_loop rs item sids (g, requested, invalid)
      | Some rule \<Rightarrow>
          if ForDuration rule \<le> 0 then duration_loop rs item sids (g, requested, invalid + 1)
          else duration_loop rs item sids
            (AList.update (ForDuration rule) (group_of g (ForDuration rule) @ [sid]) g, requested @ [sid], invalid))"

definition alertDurationGroups :: "int list \<Rightarrow> server_rules \<Rightarrow> string \<Rightarrow> groups \<times> int list \<times> int" where
  "alertDurationGroups serverIDs serverRules item = duration_loop serverRules item serverIDs ([], [], 0)"

definition sortedValidAlertDurations :: "groups \<Rightarrow> int list" where
  "sortedValidAlertDurations g = sort (filter (\<lambda>d. d > 0) (map fst g))"

section \<open>The text of a query\<close>

definition nl :: string where "nl = [CHR 0x0A]"
definition quoted :: "string \<Rightarrow> string" where "quoted s = CHR 0x22 # s @ [CHR 0x22]"

text \<open>\<open>strings.Join\<close>.\<close>

fun join :: "string \<Rightarrow> string list \<Rightarrow> string" where
  "join sep [] = []"
| "join sep [s] = s"
| "join sep (s # t # ss) = s @ sep @ join sep (t # ss)"

text \<open>The format of an instant, \<open>formatAlertFluxTime\<close>, is a parameter \<open>ft\<close>.\<close>

definition buildAlertFluxSource ::
  "(go_time \<Rightarrow> string) \<Rightarrow> string \<Rightarrow> go_time \<Rightarrow> go_time \<Rightarrow> int list \<Rightarrow> string list \<Rightarrow> bool \<Rightarrow> string" where
  "buildAlertFluxSource ft bucket start end_time serverIDs flds strictStart =
     (let serverFilters = map (\<lambda>sid. ''r.server_id == '' @ quoted (itoa sid)) serverIDs;
          fieldFilters = map (\<lambda>f. ''r._field == '' @ quoted f) flds;
          query = ''from(bucket: '' @ quoted bucket @ '')'' @ nl @
            ''  |> range(start: '' @ ft start @ '', stop: '' @ ft end_time @ '')'' @ nl @
            ''  |> filter(fn: (r) => r._measurement == '' @ quoted ''server_status'' @ '' and ('' @
            join '' or '' serverFilters @ '') and ('' @ join '' or '' fieldFilters @ ''))'' in
      if strictStart then query @ nl @ ''  |> filter(fn: (r) => r._time > '' @ ft start @ '')'' else query)"

definition pipe :: "string \<Rightarrow> string" where "pipe s = nl @ ''  |> '' @ s"

definition mean_by_field :: string where
  "mean_by_field =
     pipe (''group(columns: ['' @ quoted ''server_id'' @ '', '' @ quoted ''_field'' @ ''])'') @
     pipe (''mean(column: '' @ quoted ''_value'' @ '')'')"

definition pivoted :: string where
  "pivoted =
     pipe (''group(columns: ['' @ quoted ''server_id'' @ ''])'') @
     pipe (''pivot(rowKey: ['' @ quoted ''_time'' @ ''], columnKey: ['' @ quoted ''_field'' @ ''], valueColumn: '' @
       quoted ''_value'' @ '')'')"

text \<open>The default branch panics; the callers have checked the item with \<open>alertItemFields\<close>.\<close>

definition aggregateAlertFlux :: "string \<Rightarrow> string \<Rightarrow> string option" where
  "aggregateAlertFlux item source =
     (if item = alertItemStatus then
        Some (source @ pipe (''group(columns: ['' @ quoted ''server_id'' @ ''])'') @ pipe ''last()'')
      else if item = alertItemCPU \<or> item = alertItemReadIOPS \<or> item = alertItemWriteIOPS then Some (source @ mean_by_field)
      else if item = alertItemMemory then
        Some (source @ pivoted @
          pipe ''filter(fn: (r) => exists r.mem_used_mb and exists r.mem_total_mb and r.mem_total_mb > 0.0)'' @
          pipe (''map(fn: (r) => ({r with _field: '' @ quoted ''memory_usage'' @
            '', _value: r.mem_used_mb / r.mem_total_mb * 100.0}))'') @
          mean_by_field)
      else if item = alertItemBandwidth then
        Some (source @ pivoted @
          pipe ''filter(fn: (r) => exists r.rx_kib_s and exists r.tx_kib_s)'' @
          pipe (''map(fn: (r) => ({r with _field: '' @ quoted ''bandwidth'' @
            '', _value: (r.rx_kib_s + r.tx_kib_s) * 8.0 / 1024.0}))'') @
          mean_by_field)
      else if item = alertItemDisk then Some source
      else None)"

definition truncate_minute :: "go_time \<Rightarrow> go_time" where
  "truncate_minute t = t - t mod minute"

definition buildAlertItemBranch ::
  "(go_time \<Rightarrow> string) \<Rightarrow> nat \<Rightarrow> string \<Rightarrow> string list \<Rightarrow> int list \<Rightarrow> int \<Rightarrow> go_time \<Rightarrow> (string list \<times> string) option" where
  "buildAlertItemBranch ft index item flds serverIDs dur end_time =
     (let start = end_time + wrap64 (- dur * minute) in
      if item = alertItemStatus \<or> dur \<le> alertRawWindowMinutes then
        map_option (Pair [])
          (aggregateAlertFlux item (buildAlertFluxSource ft ''server_status_raw'' start end_time serverIDs flds True))
      else
        let rawStart = truncate_minute end_time - alertRawTailDuration;
            minuteName = ''minute'' @ dec index;
            rawName = ''raw'' @ dec index;
            minuteSource = buildAlertFluxSource ft ''server_status_minute'' start end_time serverIDs flds True @
              pipe (''filter(fn: (r) => r._time <= '' @ ft rawStart @ '')'');
            rawSource = buildAlertFluxSource ft ''server_status_raw'' rawStart end_time serverIDs flds False @
              (if item = alertItemDisk then pipe ''aggregateWindow(every: 1m, fn: last, createEmpty: false)''
               else pipe ''aggregateWindow(every: 1m, fn: mean, createEmpty: false)'');
            combined = ''union(tables: ['' @ minuteName @ '', '' @ rawName @ ''])'' in
        map_option (Pair [minuteName @ '' = '' @ minuteSource, rawName @ '' = '' @ rawSource])
          (aggregateAlertFlux item combined))"

text \<open>The loop over the durations of one query: the definitions and the names of the branches.\<close>

fun branch_loop ::
  "(go_time \<Rightarrow> string) \<Rightarrow> string \<Rightarrow> string list \<Rightarrow> groups \<Rightarrow> go_time \<Rightarrow> bool \<Rightarrow> nat \<Rightarrow> int list \<Rightarrow> (string list \<times> string list) option" where
  "branch_loop ft item flds g end_time single index [] = Some ([], [])"
| "branch_loop ft item flds g end_time single index (d # ds) =
     (case buildAlertItemBranch ft index item flds (sort (group_of g d)) d end_time of
        None \<Rightarrow> None
      | Some (prelude, pipeline) \<Rightarrow>
          if single then Some (prelude @ [pipeline], [])
          else
            let branchName = ''branch'' @ dec index in
            map_option (\<lambda>(defs, names). (prelude @ [branchName @ '' = '' @ pipeline] @ defs, branchName # names))
              (branch_loop ft item flds g end_time single (Suc index) ds))"

definition buildAlertItemQuery :: "(go_time \<Rightarrow> string) \<Rightarrow> string \<Rightarrow> groups \<Rightarrow> go_time \<Rightarrow> string option" where
  "buildAlertItemQuery ft item g end_time =
     (case alertItemFields item of
        None \<Rightarrow> None
      | Some flds \<Rightarrow>
          let durations = sortedValidAlertDurations g in
          if durations = [] then None
          else if length durations > alertMaxQueryBranches then None
          else map_option (\<lambda>(defs, names).
              join (nl @ nl) (if names \<noteq> [] then defs @ [''union(tables: ['' @ join '', '' names @ ''])''] else defs))
            (branch_loop ft item flds g end_time (length durations = 1) 0 durations))"

record alertItemQueryPlan =
  plan_query :: string
  plan_serverIDs :: "int list"

definition query_plan :: "(go_time \<Rightarrow> string) \<Rightarrow> string \<Rightarrow> groups \<Rightarrow> go_time \<Rightarrow> int list \<Rightarrow> alertItemQueryPlan option" where
  "query_plan ft item g end_time durations =
     (let queryGroups = map (\<lambda>d. (d, group_of g d)) durations;
          serverIDs = sort (concat (map (group_of g) durations)) in
      map_option (\<lambda>q. \<lparr>plan_query = q, plan_serverIDs = serverIDs\<rparr>) (buildAlertItemQuery ft item queryGroups end_time))"

fun plans_loop :: "(int list \<Rightarrow> alertItemQueryPlan option) \<Rightarrow> int list list \<Rightarrow> alertItemQueryPlan list option" where
  "plans_loop build [] = Some []"
| "plans_loop build (c # cs) =
     (case build c of None \<Rightarrow> None | Some p \<Rightarrow> map_option ((#) p) (plans_loop build cs))"

definition buildAlertItemQueries ::
  "(go_time \<Rightarrow> string) \<Rightarrow> string \<Rightarrow> groups \<Rightarrow> go_time \<Rightarrow> alertItemQueryPlan list option" where
  "buildAlertItemQueries ft item g end_time =
     (case alertItemFields item of
        None \<Rightarrow> None
      | Some _ \<Rightarrow>
          let durations = sortedValidAlertDurations g in
          if durations = [] then Some []
          else plans_loop (query_plan ft item g end_time) (chunks alertMaxQueryBranches durations))"


subsection \<open>Every requested server is in exactly one query\<close>

definition requested_for :: "server_rules \<Rightarrow> string \<Rightarrow> int \<Rightarrow> int \<Rightarrow> bool" where
  "requested_for rs item d sid \<longleftrightarrow> 0 < d \<and> (\<exists>rule. rule_of rs sid item = Some rule \<and> ForDuration rule = d)"

definition requested :: "server_rules \<Rightarrow> string \<Rightarrow> int \<Rightarrow> bool" where
  "requested rs item sid \<longleftrightarrow> (case rule_of rs sid item of None \<Rightarrow> False | Some rule \<Rightarrow> 0 < ForDuration rule)"

lemma requested_iff: "requested rs item sid \<longleftrightarrow> (\<exists>d. requested_for rs item d sid)"
  by (auto simp: requested_def requested_for_def split: option.splits)

lemma requested_for_unique: "requested_for rs item d sid \<Longrightarrow> requested_for rs item d' sid \<Longrightarrow> d = d'"
  by (auto simp: requested_for_def)

lemma group_of_update [simp]: "group_of (AList.update d ids g) e = (if e = d then ids else group_of g e)"
  by (simp add: group_of_def)

lemma duration_loop_spec:
  assumes "duration_loop rs item sids (g, req, bad) = (g', req', bad')"
  shows "req' = req @ filter (requested rs item) sids \<and> (keyed g \<longrightarrow> keyed g') \<and>
    set (map fst g') = set (map fst g) \<union> {d. \<exists>sid \<in> set sids. requested_for rs item d sid} \<and>
    (\<forall>d. group_of g' d = group_of g d @ filter (requested_for rs item d) sids)"
  using assms
proof (induction sids arbitrary: g req bad)
  case (Cons sid sids)
  show ?case
  proof (cases "requested rs item sid")
    case True
    then obtain rule where r: "rule_of rs sid item = Some rule" "0 < ForDuration rule"
      by (auto simp: requested_def split: option.splits)
    have rf: "requested_for rs item d sid \<longleftrightarrow> d = ForDuration rule" for d
      using r by (auto simp: requested_for_def)
    have "duration_loop rs item sids
        (AList.update (ForDuration rule) (group_of g (ForDuration rule) @ [sid]) g, req @ [sid], bad) = (g', req', bad')"
      using Cons.prems r by simp
    note IH = Cons.IH [OF this]
    have keys: "fst ` set (AList.update d v g) = insert d (fst ` set g)" for d v
      by (simp add: dom_update)
    have sel: "{d. \<exists>x \<in> set (sid # sids). requested_for rs item d x} =
        insert (ForDuration rule) {d. \<exists>x \<in> set sids. requested_for rs item d x}" by (auto simp: rf)
    show ?thesis unfolding sel using IH True by (simp add: rf keys)
  next
    case False
    then have no: "\<not> requested_for rs item d sid" for d by (auto simp: requested_iff)
    obtain bad1 where "duration_loop rs item sids (g, req, bad1) = (g', req', bad')"
      using Cons.prems False by (auto simp: requested_def split: option.splits if_splits)
    from Cons.IH [OF this] False no show ?thesis by auto
  qed
qed simp

lemma alertDurationGroups_spec:
  assumes "alertDurationGroups sids rs item = (g, req, bad)"
  shows "req = filter (requested rs item) sids" "keyed g"
    "set (map fst g) = {d. \<exists>sid \<in> set sids. requested_for rs item d sid}"
    "group_of g d = filter (requested_for rs item d) sids"
  using duration_loop_spec [OF assms [unfolded alertDurationGroups_def]] by (auto simp: group_of_def)

lemma mset_filter_classes:
  assumes "distinct ds" "\<And>d d' x. P d x \<Longrightarrow> P d' x \<Longrightarrow> d = d'"
  shows "mset (concat (map (\<lambda>d. filter (P d) xs) ds)) = mset (filter (\<lambda>x. \<exists>d \<in> set ds. P d x) xs)"
  using assms(1)
proof (induction ds)
  case (Cons d ds)
  have "filter (\<lambda>x. \<exists>d \<in> set (d # ds). P d x) xs = filter (\<lambda>x. P d x \<or> (\<exists>d \<in> set ds. P d x)) xs" by simp
  moreover have "mset (filter (\<lambda>x. P d x \<or> (\<exists>d \<in> set ds. P d x)) xs) =
      mset (filter (P d) xs) + mset (filter (\<lambda>x. \<exists>d \<in> set ds. P d x) xs)"
  proof (induction xs)
    case (Cons x xs)
    have "\<not> (P d x \<and> (\<exists>d \<in> set ds. P d x))" using assms(2) \<open>distinct (d # ds)\<close> by force
    with Cons show ?case by auto
  qed simp
  ultimately show ?case using Cons by (simp only: list.map concat.simps mset_append distinct.simps)
qed simp

lemma distinct_keys_of_groups:
  assumes "distinct c" "\<forall>d \<in> set c. 0 < d"
  shows "sortedValidAlertDurations (map (\<lambda>d. (d, group_of g d)) c) = sort c"
  using assms by (simp add: sortedValidAlertDurations_def comp_def)

lemma if_chain_None:
  assumes "(if i = a then Some x1 else if i = b \<or> i = r \<or> i = w then Some x2 else if i = m then Some x3
    else if i = n then Some x4 else if i = d then Some x5 else None) = None"
  shows "(if i = a \<or> i = b then Some y1 else if i = m then Some y2 else if i = d then Some y3
    else if i = r then Some y4 else if i = w then Some y5 else if i = n then Some y6 else None) = None"
  using assms by (auto split: if_splits)

lemma aggregateAlertFlux_None: "aggregateAlertFlux item src = None \<Longrightarrow> alertItemFields item = None"
  unfolding alertItemFields_def aggregateAlertFlux_def by (rule if_chain_None)

lemma aggregateAlertFlux_total: "alertItemFields item = Some flds \<Longrightarrow> aggregateAlertFlux item src \<noteq> None"
  using aggregateAlertFlux_None by fastforce

lemma buildAlertItemBranch_total:
  "alertItemFields item = Some flds \<Longrightarrow> buildAlertItemBranch ft i item flds ids d e \<noteq> None"
  using aggregateAlertFlux_total [of item flds]
  by (simp only: buildAlertItemBranch_def Let_def option.map_disc_iff split: if_splits) simp

lemma branch_loop_total:
  assumes "alertItemFields item = Some flds"
  shows "branch_loop ft item flds g e single i ds \<noteq> None"
proof (induction ds arbitrary: i)
  case (Cons d ds)
  obtain pre p where "buildAlertItemBranch ft i item flds (sort (group_of g d)) d e = Some (pre, p)"
    using buildAlertItemBranch_total [OF assms] by (metis option.exhaust prod.exhaust)
  with Cons [of "Suc i"] show ?case by (cases single) (simp_all add: Let_def)
qed simp

lemma query_plan_total:
  assumes "alertItemFields item = Some flds" "distinct c" "\<forall>d \<in> set c. 0 < d" "c \<noteq> []" "length c \<le> alertMaxQueryBranches"
  shows "\<exists>q. query_plan ft item g e c =
    Some \<lparr>plan_query = q, plan_serverIDs = sort (concat (map (group_of g) c))\<rparr>"
proof -
  have "sort c \<noteq> []" using assms(4) by (metis length_0_conv length_sort)
  then show ?thesis
    using assms branch_loop_total [OF assms(1), of ft "map (\<lambda>d. (d, group_of g d)) c" e "length (sort c) = 1" 0 "sort c"]
    by (auto simp: query_plan_def buildAlertItemQuery_def Let_def distinct_keys_of_groups [OF assms(2,3)])
qed

lemma plans_loop_total:
  assumes "\<And>c. c \<in> set cs \<Longrightarrow> \<exists>q. build c = Some \<lparr>plan_query = q, plan_serverIDs = f c\<rparr>"
  shows "\<exists>ps. plans_loop build cs = Some ps \<and> map plan_serverIDs ps = map f cs"
  using assms by (induction cs) (auto, fastforce)

lemma chunks_subset: "c \<in> set (chunks n xs) \<Longrightarrow> set c \<subseteq> set xs \<and> (distinct xs \<longrightarrow> distinct c)"
proof (induction n xs rule: chunks.induct)
  case (1 n xs)
  show ?case
  proof (cases "xs = [] \<or> n = 0")
    case False
    then have "c = take n xs \<or> c \<in> set (chunks n (drop n xs))" using "1.prems" by (simp add: chunks.simps [of n xs])
    then show ?thesis
    proof
      assume "c \<in> set (chunks n (drop n xs))"
      then have "set c \<subseteq> set (drop n xs) \<and> (distinct (drop n xs) \<longrightarrow> distinct c)" using "1.IH" False by simp
      then show ?thesis using set_drop_subset [of n xs] distinct_drop [of xs n] by blast
    qed (simp add: set_take_subset)
  qed (use "1.prems" in \<open>simp add: chunks.simps [of n xs]\<close>)
qed

lemma buildAlertItemQueries_partition:
  assumes fl: "alertItemFields item = Some flds" and g: "alertDurationGroups sids rs item = (g, req, bad)"
  shows "\<exists>ps. buildAlertItemQueries ft item g e = Some ps \<and>
    mset (concat (map plan_serverIDs ps)) = mset req \<and> list_all (\<lambda>p. sorted (plan_serverIDs p)) ps \<and>
    length ps = length (chunks alertMaxQueryBranches (sortedValidAlertDurations g))"
proof -
  let ?ds = "sortedValidAlertDurations g"
  note spec = alertDurationGroups_spec [OF g]
  have pos: "\<forall>d \<in> set (map fst g). 0 < d" using spec(3) by (auto simp: requested_for_def)
  have ds: "distinct ?ds" "set ?ds = set (map fst g)" "\<forall>d \<in> set ?ds. 0 < d"
    using spec(2) pos by (auto simp: sortedValidAlertDurations_def distinct_map)
  have mx: "0 < alertMaxQueryBranches" by (simp add: alertMaxQueryBranches_def)
  let ?f = "\<lambda>c. sort (concat (map (group_of g) c))"
  have "\<exists>q. query_plan ft item g e c = Some \<lparr>plan_query = q, plan_serverIDs = ?f c\<rparr>"
    if "c \<in> set (chunks alertMaxQueryBranches ?ds)" for c
    using query_plan_total [OF fl] chunks_subset [OF that] chunks_length [OF that] ds by blast
  from plans_loop_total [of _ _ ?f, OF this] obtain ps where
    ps: "plans_loop (query_plan ft item g e) (chunks alertMaxQueryBranches ?ds) = Some ps"
      "map plan_serverIDs ps = map ?f (chunks alertMaxQueryBranches ?ds)" by blast
  have "mset (concat (map ?f cs)) = mset (concat (map (group_of g) (concat cs)))" for cs
    by (induction cs) simp_all
  then have "mset (concat (map plan_serverIDs ps)) = mset (concat (map (group_of g) ?ds))"
    by (simp add: ps(2) concat_chunks [OF mx])
  also have "\<dots> = mset (concat (map (\<lambda>d. filter (requested_for rs item d) sids) ?ds))"
    by (rule arg_cong [where f = "\<lambda>f. mset (concat (map f ?ds))"], rule ext, rule spec(4))
  also have "\<dots> = mset (filter (\<lambda>x. \<exists>d \<in> set ?ds. requested_for rs item d x) sids)"
    by (rule mset_filter_classes [OF ds(1) requested_for_unique])
  also have "filter (\<lambda>x. \<exists>d \<in> set ?ds. requested_for rs item d x) sids = req"
    unfolding spec(1) using ds(2) spec(3) by (intro filter_cong) (auto simp: requested_iff)
  finally have m: "mset (concat (map plan_serverIDs ps)) = mset req" .
  have "list_all sorted (map plan_serverIDs ps)" unfolding ps(2) by (simp add: list_all_iff)
  then have so: "list_all (\<lambda>p. sorted (plan_serverIDs p)) ps" by (simp add: list.pred_map comp_def)
  have "buildAlertItemQueries ft item g e = Some ps"
    using ps(1) fl by (cases "?ds = []") (simp_all add: buildAlertItemQueries_def Let_def)
  moreover have "length ps = length (chunks alertMaxQueryBranches ?ds)" using ps(2) by (rule map_eq_imp_length_eq)
  ultimately show ?thesis using m so by blast
qed


section \<open>Records and observations\<close>

text \<open>
  The dynamic value of a record: \<open>float64\<close>, \<open>int64\<close>, \<open>uint64\<close>, \<open>string\<close>, anything else; a
  missing column is nil. Numbers are taken without rounding.
\<close>

datatype influx_value = VFloat real | VInt int | VUint int | VString string | VOther

record influx_record =
  rec_server_id :: influx_value
  rec_time :: go_time
  rec_field :: string
  rec_value :: influx_value

definition alertRecordServerID :: "influx_value \<Rightarrow> int option" where
  "alertRecordServerID v = (case v of VString s \<Rightarrow> parse_int64 s | _ \<Rightarrow> None)"

definition alertFloat :: "influx_value \<Rightarrow> real option" where
  "alertFloat v = (case v of VFloat x \<Rightarrow> Some x | VInt i \<Rightarrow> Some (of_int i) | VUint i \<Rightarrow> Some (of_int i) | _ \<Rightarrow> None)"

record DiskInfo =
  MountPoint :: string
  TotalGB :: real
  UsedGB :: real

text \<open>\<open>ParseDisksField\<close> of \<open>internal/influx/status_record.go\<close>, on the disks of the status.\<close>

definition first_disk :: "DiskInfo list \<Rightarrow> DiskInfo \<times> DiskInfo list" where
  "first_disk ds = (case ds of [] \<Rightarrow> (\<lparr>MountPoint = ''/'', TotalGB = 0, UsedGB = 0\<rparr>, []) | d # ds' \<Rightarrow> (d, ds'))"

definition ParseDisksField ::
  "(string \<Rightarrow> DiskInfo list option) \<Rightarrow> DiskInfo list \<Rightarrow> string \<Rightarrow> influx_value \<Rightarrow> DiskInfo list" where
  "ParseDisksField unmarshal disks field v =
     (if field = ''disks'' then
        (case v of
           VString s \<Rightarrow> if s \<noteq> [] then (case unmarshal s of None \<Rightarrow> disks | Some ds \<Rightarrow> ds) else disks
         | _ \<Rightarrow> disks)
      else if field = ''disk_total_gb'' then
        (case v of
           VFloat x \<Rightarrow> (case first_disk disks of (d, ds) \<Rightarrow> d\<lparr>TotalGB := x\<rparr> # ds)
         | _ \<Rightarrow> disks)
      else if field = ''disk_used_gb'' then
        (case v of
           VFloat x \<Rightarrow> (case first_disk disks of (d, ds) \<Rightarrow> d\<lparr>UsedGB := x\<rparr> # ds)
         | _ \<Rightarrow> disks)
      else disks)"

record alertDiskSnapshot =
  snapshot_disks :: "DiskInfo list"
  modern :: bool

type_synonym snapshots = "(int, (go_time, alertDiskSnapshot) table) table"

definition snapshot_field ::
  "(string \<Rightarrow> DiskInfo list option) \<Rightarrow> string \<Rightarrow> influx_value \<Rightarrow> alertDiskSnapshot \<Rightarrow> alertDiskSnapshot" where
  "snapshot_field unmarshal field v snap =
     (if field = ''disks'' then
        (case v of
           VString s \<Rightarrow>
             if s = [] then snap
             else (case unmarshal s of
                None \<Rightarrow> snap
              | Some disks \<Rightarrow> snap\<lparr>snapshot_disks := disks, modern := True\<rparr>)
         | _ \<Rightarrow> snap)
      else if (field = ''disk_total_gb'' \<or> field = ''disk_used_gb'') \<and> \<not> modern snap
      then snap\<lparr>snapshot_disks := ParseDisksField unmarshal (snapshot_disks snap) field v\<rparr>
      else snap)"

fun snapshot_loop :: "(string \<Rightarrow> DiskInfo list option) \<Rightarrow> influx_record list \<Rightarrow> snapshots \<Rightarrow> snapshots" where
  "snapshot_loop unmarshal [] snaps = snaps"
| "snapshot_loop unmarshal (r # rs) snaps =
     (case alertRecordServerID (rec_server_id r) of
        None \<Rightarrow> snapshot_loop unmarshal rs snaps
      | Some sid \<Rightarrow>
          let server = (case map_of snaps sid of None \<Rightarrow> [] | Some m \<Rightarrow> m);
              snap = (case map_of server (rec_time r) of None \<Rightarrow> \<lparr>snapshot_disks = [], modern = False\<rparr> | Some x \<Rightarrow> x) in
          snapshot_loop unmarshal rs
            (AList.update sid (AList.update (rec_time r) (snapshot_field unmarshal (rec_field r) (rec_value r) snap) server) snaps))"

record alertDiskStat =
  stat_sum :: real
  stat_count :: nat

definition disk_stat :: "DiskInfo \<Rightarrow> (string, alertDiskStat) table \<Rightarrow> (string, alertDiskStat) table" where
  "disk_stat disk perDisk =
     (if TotalGB disk \<le> 0 then perDisk
      else
        let mp = (if MountPoint disk = [] then ''/'' else MountPoint disk);
            st = (case map_of perDisk mp of None \<Rightarrow> \<lparr>stat_sum = 0, stat_count = 0\<rparr> | Some x \<Rightarrow> x) in
        AList.update mp \<lparr>stat_sum = stat_sum st + UsedGB disk / TotalGB disk * 100, stat_count = stat_count st + 1\<rparr> perDisk)"

definition better :: "real \<Rightarrow> string \<Rightarrow> alertObservation \<Rightarrow> bool" where
  "better average mp ob \<longleftrightarrow>
     \<not> present ob \<or> average > obs_value ob \<or> average = obs_value ob \<and> mp < mountPoint ob"

fun pick_disk :: "(string, alertDiskStat) table \<Rightarrow> alertObservation \<Rightarrow> alertObservation" where
  "pick_disk [] ob = ob"
| "pick_disk ((mp, st) # sts) ob =
     (if stat_count st = 0 then pick_disk sts ob
      else
        let average = stat_sum st / real (stat_count st) in
        if better average mp ob then pick_disk sts \<lparr>present = True, obs_value = average, mountPoint = mp\<rparr>
        else pick_disk sts ob)"

text \<open>
  The maps are iterated in an order of their own: \<open>ord_time\<close> permutes the snapshots of a server,
  \<open>ord_disk\<close> the mount points.
\<close>

definition server_observation ::
  "((go_time \<times> alertDiskSnapshot) list \<Rightarrow> (go_time \<times> alertDiskSnapshot) list) \<Rightarrow>
   ((string \<times> alertDiskStat) list \<Rightarrow> (string \<times> alertDiskStat) list) \<Rightarrow>
   (go_time, alertDiskSnapshot) table \<Rightarrow> alertObservation" where
  "server_observation ord_time ord_disk serverSnapshots =
     pick_disk (ord_disk (fold disk_stat (concat (map (snapshot_disks \<circ> snd) (ord_time serverSnapshots))) [])) no_observation"

definition parseDiskObservations ::
  "((go_time \<times> alertDiskSnapshot) list \<Rightarrow> (go_time \<times> alertDiskSnapshot) list) \<Rightarrow>
   ((string \<times> alertDiskStat) list \<Rightarrow> (string \<times> alertDiskStat) list) \<Rightarrow>
   (string \<Rightarrow> DiskInfo list option) \<Rightarrow> influx_record list \<Rightarrow> (int, alertObservation) table" where
  "parseDiskObservations ord_time ord_disk unmarshal records =
     filter (\<lambda>(sid, ob). present ob)
       (map (\<lambda>(sid, snaps). (sid, server_observation ord_time ord_disk snaps)) (snapshot_loop unmarshal records []))"

fun record_loop :: "string \<Rightarrow> influx_record list \<Rightarrow> (int, alertObservation) table \<Rightarrow> (int, alertObservation) table" where
  "record_loop item [] obs = obs"
| "record_loop item (r # rs) obs =
     (case alertRecordServerID (rec_server_id r) of
        None \<Rightarrow> record_loop item rs obs
      | Some sid \<Rightarrow>
          if item = alertItemStatus then record_loop item rs (AList.update sid (no_observation\<lparr>present := True\<rparr>) obs)
          else case alertFloat (rec_value r) of
            None \<Rightarrow> record_loop item rs obs
          | Some x \<Rightarrow> record_loop item rs (AList.update sid (no_observation\<lparr>present := True, obs_value := x\<rparr>) obs))"


subsection \<open>The fullest disk, whatever the order of the maps\<close>

definition mount_name :: "DiskInfo \<Rightarrow> string" where
  "mount_name d = (if MountPoint d = [] then ''/'' else MountPoint d)"

definition usage :: "DiskInfo \<Rightarrow> real" where
  "usage d = UsedGB d / TotalGB d * 100"

definition usable :: "(go_time, alertDiskSnapshot) table \<Rightarrow> DiskInfo list" where
  "usable snaps = filter (\<lambda>d. 0 < TotalGB d) (concat (map (snapshot_disks \<circ> snd) snaps))"

definition mean_usage :: "DiskInfo list \<Rightarrow> string \<Rightarrow> real" where
  "mean_usage ds mp =
     (let sel = filter (\<lambda>d. mount_name d = mp) ds in sum_list (map usage sel) / real (length sel))"

lemma mean_usage_mset: "mset ds = mset ds' \<Longrightarrow> mean_usage ds = mean_usage ds'"
proof (rule ext)
  fix mp
  assume "mset ds = mset ds'"
  then have m: "mset (filter (\<lambda>d. mount_name d = mp) ds) = mset (filter (\<lambda>d. mount_name d = mp) ds')"
    by (simp add: mset_filter)
  from mset_eq_length [OF m] have "length (filter (\<lambda>d. mount_name d = mp) ds) = length (filter (\<lambda>d. mount_name d = mp) ds')" .
  moreover have "sum_list (map usage xs) = sum_mset (image_mset usage (mset xs))" for xs
    by (induction xs) auto
  ultimately show "mean_usage ds mp = mean_usage ds' mp" using m by (simp add: mean_usage_def Let_def)
qed

definition add_stat :: "DiskInfo list \<Rightarrow> alertDiskStat option \<Rightarrow> alertDiskStat option" where
  "add_stat sel old =
     (if sel = [] then old
      else case old of
        None \<Rightarrow> Some \<lparr>stat_sum = sum_list (map usage sel), stat_count = length sel\<rparr>
      | Some st \<Rightarrow> Some \<lparr>stat_sum = stat_sum st + sum_list (map usage sel), stat_count = stat_count st + length sel\<rparr>)"

lemma map_of_disk_stat:
  "map_of (disk_stat d tab) mp = (if 0 < TotalGB d \<and> mount_name d = mp then add_stat [d] (map_of tab mp) else map_of tab mp)"
  by (auto simp: disk_stat_def add_stat_def mount_name_def usage_def Let_def split: option.splits)

lemma map_of_disk_stats:
  "map_of (fold disk_stat ds tab) mp = add_stat (filter (\<lambda>d. 0 < TotalGB d \<and> mount_name d = mp) ds) (map_of tab mp)"
proof (induction ds arbitrary: tab)
  case (Cons d ds)
  have step: "add_stat sel (add_stat [d] old) = add_stat (d # sel) old" for sel old
    by (cases old) (simp_all add: add_stat_def)
  show ?case by (simp add: Cons map_of_disk_stat step)
qed (simp add: add_stat_def)

lemma keyed_disk_stats: "keyed tab \<Longrightarrow> keyed (fold disk_stat ds tab)"
  by (induction ds arbitrary: tab) (simp_all add: disk_stat_def Let_def)

definition average_of :: "alertDiskStat \<Rightarrow> real" where
  "average_of st = stat_sum st / real (stat_count st)"

text \<open>\<open>ob\<close> is at least as good as the entry \<open>(mp, st)\<close>.\<close>

definition at_least :: "alertObservation \<Rightarrow> string \<times> alertDiskStat \<Rightarrow> bool" where
  "at_least ob e \<longleftrightarrow>
     average_of (snd e) < obs_value ob \<or> average_of (snd e) = obs_value ob \<and> mountPoint ob \<le> fst e"

lemma at_least_better:
  assumes "at_least ob e" "better a mp ob" "present ob"
  shows "at_least \<lparr>present = True, obs_value = a, mountPoint = mp\<rparr> e"
  using assms by (auto simp: at_least_def better_def)

lemma pick_disk_max:
  assumes "present ob" "list_all (\<lambda>(_, st). 0 < stat_count st) sts"
  shows "present (pick_disk sts ob) \<and>
    (pick_disk sts ob = ob \<or>
     (\<exists>st. (mountPoint (pick_disk sts ob), st) \<in> set sts \<and> obs_value (pick_disk sts ob) = average_of st)) \<and>
    (\<forall>e \<in> set sts. at_least (pick_disk sts ob) e) \<and> (\<forall>e. at_least ob e \<longrightarrow> at_least (pick_disk sts ob) e)"
  using assms
proof (induction sts arbitrary: ob)
  case (Cons e sts)
  obtain mp st where e: "e = (mp, st)" by (cases e)
  have c: "stat_count st \<noteq> 0" "list_all (\<lambda>(_, st). 0 < stat_count st) sts" using Cons.prems(2) e by auto
  let ?n = "\<lparr>present = True, obs_value = average_of st, mountPoint = mp\<rparr>"
  show ?case
  proof (cases "better (average_of st) mp ob")
    case True
    then have p: "pick_disk (e # sts) ob = pick_disk sts ?n" using e c(1) by (simp add: average_of_def)
    have "at_least ?n e" by (simp add: at_least_def e)
    with Cons.IH [of ?n] c(2) show ?thesis
      unfolding p using at_least_better [OF _ True Cons.prems(1)] e by fastforce
  next
    case False
    then have p: "pick_disk (e # sts) ob = pick_disk sts ob" using e c(1) by (simp add: average_of_def)
    have "at_least ob e" using False by (auto simp: better_def at_least_def e)
    with Cons.IH [OF Cons.prems(1) c(2)] show ?thesis unfolding p by fastforce
  qed
qed simp

lemma pick_disk_no_observation:
  assumes "list_all (\<lambda>(_, st). 0 < stat_count st) sts" "sts \<noteq> []"
  shows "present (pick_disk sts no_observation) \<and>
    (\<exists>st. (mountPoint (pick_disk sts no_observation), st) \<in> set sts \<and>
      obs_value (pick_disk sts no_observation) = average_of st) \<and>
    (\<forall>e \<in> set sts. at_least (pick_disk sts no_observation) e)"
proof (cases sts)
  case (Cons e sts')
  obtain mp st where e: "e = (mp, st)" by (cases e)
  let ?n = "\<lparr>present = True, obs_value = average_of st, mountPoint = mp\<rparr>"
  have p: "pick_disk sts no_observation = pick_disk sts' ?n"
    using assms(1) by (simp add: Cons e better_def no_observation_def average_of_def)
  have "at_least ?n e" by (simp add: at_least_def e)
  with pick_disk_max [of ?n sts'] assms(1) show ?thesis unfolding p by (fastforce simp: Cons e)
qed (use assms in simp)

text \<open>The table of a server: one entry per mount point in use, holding the sum and the number of its usages.\<close>

definition disk_table :: "DiskInfo list \<Rightarrow> (string, alertDiskStat) table" where
  "disk_table ds = fold disk_stat ds []"

lemma disk_table_iff:
  "(mp, st) \<in> set (disk_table ds) \<longleftrightarrow>
     (let sel = filter (\<lambda>d. mount_name d = mp) (filter (\<lambda>d. 0 < TotalGB d) ds) in
      sel \<noteq> [] \<and> st = \<lparr>stat_sum = sum_list (map usage sel), stat_count = length sel\<rparr>)"
proof -
  have key: "keyed (disk_table ds)" unfolding disk_table_def by (rule keyed_disk_stats) simp
  have sel: "filter (\<lambda>d. 0 < TotalGB d \<and> mount_name d = mp) ds =
      filter (\<lambda>d. mount_name d = mp) (filter (\<lambda>d. 0 < TotalGB d) ds)"
    by (simp add: conj_commute)
  show ?thesis
    unfolding keyed_in_set_map_of [OF key] unfolding disk_table_def map_of_disk_stats sel
    by (auto simp: add_stat_def Let_def)
qed

lemma disk_table_entry:
  assumes "(mp, st) \<in> set (disk_table ds)" "mset (filter (\<lambda>d. 0 < TotalGB d) ds) = mset us"
  shows "0 < stat_count st \<and> average_of st = mean_usage us mp \<and> mp \<in> mount_name ` set us"
proof -
  have "average_of st = mean_usage (filter (\<lambda>d. 0 < TotalGB d) ds) mp" "0 < stat_count st"
    using assms(1) unfolding disk_table_iff by (auto simp: average_of_def mean_usage_def Let_def)
  moreover have "mp \<in> mount_name ` set (filter (\<lambda>d. 0 < TotalGB d) ds)"
    using assms(1) unfolding disk_table_iff by (auto simp: Let_def filter_empty_conv)
  ultimately show ?thesis using mean_usage_mset [OF assms(2)] mset_eq_setD [OF assms(2)] by simp
qed

lemma disk_table_has:
  assumes "d \<in> set us" "mset (filter (\<lambda>d. 0 < TotalGB d) ds) = mset us"
  shows "\<exists>st. (mount_name d, st) \<in> set (disk_table ds)"
  using assms(1) mset_eq_setD [OF assms(2)] unfolding disk_table_iff by (fastforce simp: Let_def filter_empty_conv)

lemma usable_mset:
  assumes "mset snaps' = mset snaps"
  shows "mset (filter (\<lambda>d. 0 < TotalGB d) (concat (map (snapshot_disks \<circ> snd) snaps'))) = mset (usable snaps)"
proof -
  have "mset (concat (map f xs)) = \<Sum>\<^sub># (image_mset (mset \<circ> f) (mset xs))" for f :: "go_time \<times> alertDiskSnapshot \<Rightarrow> DiskInfo list" and xs
    by (induction xs) simp_all
  then show ?thesis by (simp add: usable_def mset_filter assms)
qed

definition fullest :: "DiskInfo list \<Rightarrow> alertObservation \<Rightarrow> bool" where
  "fullest us ob \<longleftrightarrow>
     present ob \<and> mountPoint ob \<in> mount_name ` set us \<and> obs_value ob = mean_usage us (mountPoint ob) \<and>
     (\<forall>mp \<in> mount_name ` set us.
        mean_usage us mp < obs_value ob \<or> mean_usage us mp = obs_value ob \<and> mountPoint ob \<le> mp)"

lemma server_observation_fullest:
  assumes ot: "mset (ot snaps) = mset snaps" and od: "\<And>xs. mset (od xs) = mset xs"
  shows "if usable snaps = [] then server_observation ot od snaps = no_observation
    else fullest (usable snaps) (server_observation ot od snaps)"
proof -
  let ?tab = "disk_table (concat (map (snapshot_disks \<circ> snd) (ot snaps)))"
  note us = usable_mset [OF ot]
  note entry = disk_table_entry [OF _ us] and has = disk_table_has [OF _ us]
  have so: "server_observation ot od snaps = pick_disk (od ?tab) no_observation"
    by (simp add: server_observation_def disk_table_def)
  have sod: "set (od ?tab) = set ?tab" by (rule mset_eq_setD [OF od])
  show ?thesis
  proof (cases "usable snaps = []")
    case True
    have "set ?tab = {}"
    proof (rule equals0I)
      fix e
      assume "e \<in> set ?tab"
      then show False using entry [of "fst e" "snd e"] True by simp
    qed
    then show ?thesis using True so sod by simp
  next
    case False
    then obtain d where "d \<in> set (usable snaps)" by (cases "usable snaps") auto
    then have ne: "od ?tab \<noteq> []" using has sod by fastforce
    have "list_all (\<lambda>(_, st). 0 < stat_count st) (od ?tab)" using entry sod by (auto simp: list_all_iff)
    note r = pick_disk_no_observation [OF this ne, folded so, unfolded sod]
    let ?ob = "server_observation ot od snaps"
    obtain st where st: "(mountPoint ?ob, st) \<in> set ?tab" "obs_value ?ob = average_of st" using r by blast
    have "mean_usage (usable snaps) mp < obs_value ?ob \<or> mean_usage (usable snaps) mp = obs_value ?ob \<and> mountPoint ?ob \<le> mp"
      if mp: "mp \<in> mount_name ` set (usable snaps)" for mp
    proof -
      obtain st' where st': "(mp, st') \<in> set ?tab" using mp has by blast
      then have "at_least ?ob (mp, st')" using r by blast
      then show ?thesis using entry [OF st'] by (simp add: at_least_def)
    qed
    then have "fullest (usable snaps) ?ob" using r st entry [OF st(1)] by (simp add: fullest_def)
    then show ?thesis using False by simp
  qed
qed

lemma fullest_unique:
  assumes "fullest us ob" "fullest us ob'"
  shows "ob = ob'"
proof -
  have "mountPoint ob \<in> mount_name ` set us" "mountPoint ob' \<in> mount_name ` set us"
    "obs_value ob = mean_usage us (mountPoint ob)" "obs_value ob' = mean_usage us (mountPoint ob')"
    using assms by (auto simp: fullest_def)
  moreover from this assms have "obs_value ob \<le> obs_value ob'" "obs_value ob' \<le> obs_value ob"
    unfolding fullest_def by (metis less_imp_le order_refl)+
  ultimately have "mountPoint ob = mountPoint ob'" "obs_value ob = obs_value ob'" "present ob" "present ob'"
    using assms unfolding fullest_def by (metis order.antisym less_irrefl)+
  then show ?thesis by (cases ob, cases ob') simp
qed


section \<open>Loading the observations\<close>

text \<open>
  What a load depends on: the context, the execution of a query (its error covers the error of
  the result), the JSON decoder of the disks, the format of instants and the orders of two maps.
\<close>

record 's alert_source =
  ctx_done :: "'s \<Rightarrow> bool"
  exec_query :: "string \<Rightarrow> ('s, err, influx_record list) io"
  unmarshal_disks :: "string \<Rightarrow> DiskInfo list option"
  flux_time :: "go_time \<Rightarrow> string"
  ord_time :: "(go_time \<times> alertDiskSnapshot) list \<Rightarrow> (go_time \<times> alertDiskSnapshot) list"
  ord_disk :: "(string \<times> alertDiskStat) list \<Rightarrow> (string \<times> alertDiskStat) list"

type_synonym alertObservationKey = "int \<times> string"

record alertObservationSet =
  obs_values :: "(alertObservationKey, alertObservation) table"
  loaded :: "alertObservationKey list"
  queryFailures :: int
  invalidDurations :: int
  loadStopped :: bool

definition newAlertObservationSet :: alertObservationSet where
  "newAlertObservationSet =
     \<lparr>obs_values = [], loaded = [], queryFailures = 0, invalidDurations = 0, loadStopped = False\<rparr>"

definition observation_or_zero :: "('k, alertObservation) table \<Rightarrow> 'k \<Rightarrow> alertObservation" where
  "observation_or_zero t k = (case map_of t k of None \<Rightarrow> no_observation | Some ob \<Rightarrow> ob)"

definition get_observation :: "alertObservationSet \<Rightarrow> int \<Rightarrow> string \<Rightarrow> alertObservation \<times> bool" where
  "get_observation os sid item = (observation_or_zero (obs_values os) (sid, item), (sid, item) \<in> set (loaded os))"

definition observations_of :: "'s alert_source \<Rightarrow> string \<Rightarrow> influx_record list \<Rightarrow> (int, alertObservation) table" where
  "observations_of A item records =
     (if item = alertItemDisk then parseDiskObservations (ord_time A) (ord_disk A) (unmarshal_disks A) records
      else record_loop item records [])"

definition queryAlertItem :: "'s alert_source \<Rightarrow> string \<Rightarrow> string \<Rightarrow> ('s, err, (int, alertObservation) table) io" where
  "queryAlertItem A item query = bindE (exec_query A query) (\<lambda>records. ret (observations_of A item records))"

definition mark_loaded ::
  "string \<Rightarrow> (int, alertObservation) table \<Rightarrow> int \<Rightarrow> alertObservationSet \<Rightarrow> alertObservationSet" where
  "mark_loaded item vals sid os =
     (let os1 = os\<lparr>loaded := List.insert (sid, item) (loaded os)\<rparr> in
      case map_of vals sid of
        None \<Rightarrow> os1
      | Some ob \<Rightarrow> os1\<lparr>obs_values := AList.update (sid, item) ob (obs_values os1)\<rparr>)"

text \<open>The loops return early, with the observations so far, once the context is done.\<close>

type_synonym 's loading = "('s, alertObservationSet, alertObservationSet) io"

definition stop_if_done :: "'s alert_source \<Rightarrow> alertObservationSet \<Rightarrow> 's loading" where
  "stop_if_done A os = bindE (gets (ctx_done A)) (\<lambda>stop. if stop then raise (os\<lparr>loadStopped := True\<rparr>) else ret os)"

fun load_plans :: "'s alert_source \<Rightarrow> string \<Rightarrow> alertItemQueryPlan list \<Rightarrow> alertObservationSet \<Rightarrow> 's loading" where
  "load_plans A item [] os = ret os"
| "load_plans A item (p # ps) os =
     bindE (stop_if_done A os) (\<lambda>os.
     tryE (queryAlertItem A item (plan_query p)) (\<lambda>r. case r of
        Inl _ \<Rightarrow> load_plans A item ps (os\<lparr>queryFailures := queryFailures os + 1\<rparr>)
      | Inr vals \<Rightarrow> load_plans A item ps (fold (mark_loaded item vals) (plan_serverIDs p) os)))"

definition load_item ::
  "'s alert_source \<Rightarrow> server_rules \<Rightarrow> go_time \<Rightarrow> int list \<Rightarrow> string \<Rightarrow> alertObservationSet \<Rightarrow> 's loading" where
  "load_item A serverRules end_time batch item os =
     bindE (stop_if_done A os) (\<lambda>os.
     case alertDurationGroups batch serverRules item of (durationGroups, requestedIDs, bad) \<Rightarrow>
       let os1 = (if bad > 0 then os\<lparr>invalidDurations := invalidDurations os + bad\<rparr> else os) in
       if requestedIDs = [] then ret os1
       else case buildAlertItemQueries (flux_time A) item durationGroups end_time of
         None \<Rightarrow> ret os1
       | Some plans \<Rightarrow> load_plans A item plans os1)"

fun load_items ::
  "'s alert_source \<Rightarrow> server_rules \<Rightarrow> go_time \<Rightarrow> int list \<Rightarrow> string list \<Rightarrow> alertObservationSet \<Rightarrow> 's loading" where
  "load_items A rs end_time batch [] os = ret os"
| "load_items A rs end_time batch (item # items) os =
     bindE (load_item A rs end_time batch item os) (\<lambda>os. load_items A rs end_time batch items os)"

fun load_batches ::
  "'s alert_source \<Rightarrow> server_rules \<Rightarrow> go_time \<Rightarrow> int list list \<Rightarrow> alertObservationSet \<Rightarrow> 's loading" where
  "load_batches A rs end_time [] os = ret os"
| "load_batches A rs end_time (batch # batches) os =
     bindE (stop_if_done A os) (\<lambda>os.
     bindE (load_items A rs end_time batch influxAlertItems os) (\<lambda>os. load_batches A rs end_time batches os))"

type_synonym team_rules = "(int, server_rules) table"

definition merge_rules :: "team_rules \<Rightarrow> server_rules" where
  "merge_rules rulesByTeam = fold (\<lambda>(_, teamRules). fold (\<lambda>(sid, rules). AList.update sid rules) teamRules) rulesByTeam []"

definition loadAlertObservations ::
  "'s alert_source \<Rightarrow> team_rules \<Rightarrow> go_time \<Rightarrow> 's \<Rightarrow> alertObservationSet \<times> 's" where
  "loadAlertObservations A rulesByTeam end_time s =
     (let serverRules = merge_rules rulesByTeam;
          serverIDs = sort (map fst serverRules) in
      case load_batches A serverRules end_time (chunks alertServerBatchSize serverIDs) newAlertObservationSet s of
        (Inl os, t) \<Rightarrow> (os, t)
      | (Inr os, t) \<Rightarrow> (os, t))"


subsection \<open>What is loaded was answered\<close>

text \<open>\<open>yields J m\<close>: the observations \<open>m\<close> ends with, early or not, satisfy \<open>J\<close>.\<close>

definition yields :: "(alertObservationSet \<Rightarrow> bool) \<Rightarrow> 's loading \<Rightarrow> bool" where
  "yields J m \<longleftrightarrow> (\<forall>s. case_sum J J (fst (m s)))"

lemma yieldsD: "yields J m \<Longrightarrow> case_sum J J (fst (m s))"
  by (simp add: yields_def)

lemma yields_ret: "J os \<Longrightarrow> yields J (ret os)"
  by (simp add: yields_def ret_def)

lemma yields_bindE:
  assumes "yields J m" "\<And>os. J os \<Longrightarrow> yields J (f os)"
  shows "yields J (bindE m f)"
  unfolding yields_def
proof
  fix s
  obtain r t where m: "m s = (r, t)" by fastforce
  show "case_sum J J (fst (bindE m f s))"
    using yieldsD [OF assms(1), of s] yieldsD [OF assms(2), of _ t] m
    by (cases r) (simp_all add: bindE_run)
qed

lemma yields_stop:
  "J os \<Longrightarrow> (\<And>os b. J (os\<lparr>loadStopped := b\<rparr>) = J os) \<Longrightarrow> yields J (stop_if_done A os)"
  by (simp add: yields_def stop_if_done_def io_simps)

text \<open>
  An observation is \<open>answered\<close> when a query planned for its rule, with the server among its
  servers, was executed without error and its records give exactly this observation.
\<close>

definition answered ::
  "'s alert_source \<Rightarrow> server_rules \<Rightarrow> go_time \<Rightarrow> int \<Rightarrow> string \<Rightarrow> alertObservation \<Rightarrow> bool" where
  "answered A rs end_time sid item ob \<longleftrightarrow>
     (\<exists>batch g req bad plans p s records t.
        alertDurationGroups batch rs item = (g, req, bad) \<and>
        buildAlertItemQueries (flux_time A) item g end_time = Some plans \<and> p \<in> set plans \<and> sid \<in> set (plan_serverIDs p) \<and>
        exec_query A (plan_query p) s = (Inr records, t) \<and> ob = observation_or_zero (observations_of A item records) sid)"

definition sourced :: "'s alert_source \<Rightarrow> server_rules \<Rightarrow> go_time \<Rightarrow> alertObservationSet \<Rightarrow> bool" where
  "sourced A rs end_time os \<longleftrightarrow>
     (\<forall>k. has_key (obs_values os) k \<longrightarrow> k \<in> set (loaded os)) \<and>
     (\<forall>sid item. (sid, item) \<in> set (loaded os) \<longrightarrow>
        item \<in> set influxAlertItems \<and> answered A rs end_time sid item (observation_or_zero (obs_values os) (sid, item)))"

lemma sourced_fields [simp]:
  "sourced A rs e (os\<lparr>loadStopped := b\<rparr>) = sourced A rs e os"
  "sourced A rs e (os\<lparr>queryFailures := n\<rparr>) = sourced A rs e os"
  "sourced A rs e (os\<lparr>invalidDurations := n\<rparr>) = sourced A rs e os"
  by (simp_all add: sourced_def)

lemma mark_loaded_sourced:
  assumes "sourced A rs e os" "item \<in> set influxAlertItems" "answered A rs e sid item (observation_or_zero vals sid)"
  shows "sourced A rs e (mark_loaded item vals sid os)"
proof -
  have fresh: "(sid, item) \<notin> set (loaded os) \<Longrightarrow> observation_or_zero (obs_values os) (sid, item) = no_observation"
    using assms(1) by (auto simp: sourced_def observation_or_zero_def has_key_def split: option.splits)
  show ?thesis
  proof (cases "map_of vals sid")
    case None
    then have "answered A rs e sid item no_observation" using assms(3) by (simp add: observation_or_zero_def)
    with assms(1,2) fresh None show ?thesis
      by (cases "(sid, item) \<in> set (loaded os)") (auto simp: sourced_def mark_loaded_def Let_def)
  next
    case (Some ob)
    then have "answered A rs e sid item ob" using assms(3) by (simp add: observation_or_zero_def)
    with assms(1,2) Some show ?thesis
      by (auto simp: sourced_def mark_loaded_def Let_def observation_or_zero_def)
  qed
qed

lemma marks_sourced:
  assumes "sourced A rs e os" "item \<in> set influxAlertItems"
    "\<And>sid. sid \<in> set sids \<Longrightarrow> answered A rs e sid item (observation_or_zero vals sid)"
  shows "sourced A rs e (fold (mark_loaded item vals) sids os)"
  using assms by (induction sids arbitrary: os) (simp_all add: mark_loaded_sourced)

lemma load_plans_sourced:
  assumes "sourced A rs e os" "item \<in> set influxAlertItems" "alertDurationGroups batch rs item = (g, req, bad)"
    "buildAlertItemQueries (flux_time A) item g e = Some plans" "set ps \<subseteq> set plans"
  shows "yields (sourced A rs e) (load_plans A item ps os)"
  using assms(1,5)
proof (induction ps arbitrary: os)
  case (Cons p ps)
  have "yields (sourced A rs e) (tryE (queryAlertItem A item (plan_query p)) (\<lambda>r. case r of
        Inl _ \<Rightarrow> load_plans A item ps (os'\<lparr>queryFailures := queryFailures os' + 1\<rparr>)
      | Inr vals \<Rightarrow> load_plans A item ps (fold (mark_loaded item vals) (plan_serverIDs p) os')))"
    if os': "sourced A rs e os'" for os'
  proof -
    have "case_sum (sourced A rs e) (sourced A rs e) (fst ((case r of
        Inl _ \<Rightarrow> load_plans A item ps (os'\<lparr>queryFailures := queryFailures os' + 1\<rparr>)
      | Inr vals \<Rightarrow> load_plans A item ps (fold (mark_loaded item vals) (plan_serverIDs p) os')) t))"
      if q: "queryAlertItem A item (plan_query p) s = (r, t)" for s r t
    proof (cases r)
      case (Inl err)
      then show ?thesis using Cons.IH os' Cons.prems(2) by (simp add: yields_def)
    next
      case (Inr vals)
      then obtain records where "exec_query A (plan_query p) s = (Inr records, t)" "vals = observations_of A item records"
        using q by (auto simp: queryAlertItem_def bindE_Inr_iff ret_def)
      then have "answered A rs e sid item (observation_or_zero vals sid)" if "sid \<in> set (plan_serverIDs p)" for sid
        using assms(3,4) Cons.prems(2) that unfolding answered_def by fastforce
      from Cons.IH [OF marks_sourced [OF os' assms(2) this]] Cons.prems(2) Inr show ?thesis by (simp add: yields_def)
    qed
    then show ?thesis unfolding yields_def tryE_run by (metis prod.collapse)
  qed
  then show ?case using Cons.prems(1) by (auto intro!: yields_bindE yields_stop)
qed (simp add: yields_ret)

lemma load_item_sourced:
  assumes "sourced A rs e os" "item \<in> set influxAlertItems"
  shows "yields (sourced A rs e) (load_item A rs e batch item os)"
  unfolding load_item_def
proof (rule yields_bindE [OF yields_stop [where J = "sourced A rs e", OF assms(1)]])
  fix os assume os: "sourced A rs e os"
  obtain g req bad where g: "alertDurationGroups batch rs item = (g, req, bad)" by (metis prod.exhaust)
  show "yields (sourced A rs e) (case alertDurationGroups batch rs item of (durationGroups, requestedIDs, bad) \<Rightarrow>
       let os1 = (if bad > 0 then os\<lparr>invalidDurations := invalidDurations os + bad\<rparr> else os) in
       if requestedIDs = [] then ret os1
       else case buildAlertItemQueries (flux_time A) item durationGroups e of
         None \<Rightarrow> ret os1
       | Some plans \<Rightarrow> load_plans A item plans os1)"
    using os assms(2) by (auto simp: g Let_def intro!: yields_ret load_plans_sourced [OF _ _ g] split: option.splits)
qed simp

lemma load_items_sourced:
  "sourced A rs e os \<Longrightarrow> set items \<subseteq> set influxAlertItems \<Longrightarrow> yields (sourced A rs e) (load_items A rs e batch items os)"
  by (induction items arbitrary: os) (auto intro!: yields_ret yields_bindE load_item_sourced)

lemma load_batches_sourced:
  "sourced A rs e os \<Longrightarrow> yields (sourced A rs e) (load_batches A rs e batches os)"
  by (induction batches arbitrary: os) (auto intro!: yields_ret yields_bindE yields_stop load_items_sourced)

lemma loadAlertObservations_sourced:
  assumes "loadAlertObservations A rulesByTeam e s = (os, t)"
  shows "sourced A (merge_rules rulesByTeam) e os"
proof -
  have "sourced A (merge_rules rulesByTeam) e newAlertObservationSet"
    by (simp add: sourced_def newAlertObservationSet_def has_key_def)
  from yieldsD [OF load_batches_sourced [OF this],
      of "chunks alertServerBatchSize (sort (map fst (merge_rules rulesByTeam)))" s] assms
  show ?thesis by (auto simp: loadAlertObservations_def Let_def split: prod.splits sum.splits)
qed


subsection \<open>Without failures everything is loaded\<close>

definition reliable :: "'s alert_source \<Rightarrow> bool" where
  "reliable A \<longleftrightarrow> (\<forall>s. \<not> ctx_done A s) \<and> (\<forall>q s. \<exists>records t. exec_query A q s = (Inr records, t))"

text \<open>\<open>adds K os m\<close>: from the observations \<open>os\<close>, \<open>m\<close> goes on with at least the keys \<open>K\<close> added.\<close>

definition adds :: "alertObservationKey set \<Rightarrow> alertObservationSet \<Rightarrow> 's loading \<Rightarrow> bool" where
  "adds K os m \<longleftrightarrow> (\<forall>s. \<exists>os' t. m s = (Inr os', t) \<and> K \<union> set (loaded os) \<subseteq> set (loaded os'))"

lemma adds_ret: "K \<subseteq> set (loaded os') \<Longrightarrow> set (loaded os) \<subseteq> set (loaded os') \<Longrightarrow> adds K os (ret os')"
  by (simp add: adds_def ret_def)

lemma adds_bindE:
  assumes "adds K os m" "\<And>os'. K \<subseteq> set (loaded os') \<Longrightarrow> set (loaded os) \<subseteq> set (loaded os') \<Longrightarrow> adds L os' (f os')"
  shows "adds (K \<union> L) os (bindE m f)"
  unfolding adds_def
proof
  fix s
  obtain os' t where m: "m s = (Inr os', t)" "K \<union> set (loaded os) \<subseteq> set (loaded os')"
    using assms(1) unfolding adds_def by blast
  then obtain os'' u where "f os' t = (Inr os'', u)" "L \<union> set (loaded os') \<subseteq> set (loaded os'')"
    using assms(2) [of os'] unfolding adds_def by blast
  with m show "\<exists>os'' u. bindE m f s = (Inr os'', u) \<and> K \<union> L \<union> set (loaded os) \<subseteq> set (loaded os'')"
    by (auto simp: bindE_run)
qed

lemma stop_if_done_reliable: "reliable A \<Longrightarrow> stop_if_done A os = ret os"
  by (rule ext) (simp add: reliable_def stop_if_done_def io_simps)

lemma loaded_marks:
  "set (loaded (fold (mark_loaded item vals) sids os)) = (\<lambda>sid. (sid, item)) ` set sids \<union> set (loaded os)"
proof (induction sids arbitrary: os)
  case (Cons sid sids)
  have "set (loaded (mark_loaded item vals sid os)) = insert (sid, item) (set (loaded os))"
    by (simp add: mark_loaded_def Let_def split: option.splits)
  then show ?case by (simp add: Cons)
qed simp

lemma load_plans_adds:
  assumes "reliable A"
  shows "adds ((\<lambda>sid. (sid, item)) ` set (concat (map plan_serverIDs ps))) os (load_plans A item ps os)"
proof (induction ps arbitrary: os)
  case (Cons p ps)
  show ?case
    unfolding adds_def
  proof
    fix s
    obtain records t where q: "exec_query A (plan_query p) s = (Inr records, t)"
      using assms unfolding reliable_def by blast
    let ?os = "fold (mark_loaded item (observations_of A item records)) (plan_serverIDs p) os"
    have "load_plans A item (p # ps) os s = load_plans A item ps ?os t"
      by (simp add: stop_if_done_reliable [OF assms] tryE_run queryAlertItem_def bindE_run q ret_def)
    moreover obtain os' u where "load_plans A item ps ?os t = (Inr os', u)"
      "(\<lambda>sid. (sid, item)) ` set (concat (map plan_serverIDs ps)) \<union> set (loaded ?os) \<subseteq> set (loaded os')"
      using Cons [of ?os] unfolding adds_def by blast
    ultimately show "\<exists>os' t. load_plans A item (p # ps) os s = (Inr os', t) \<and>
        (\<lambda>sid. (sid, item)) ` set (concat (map plan_serverIDs (p # ps))) \<union> set (loaded os) \<subseteq> set (loaded os')"
      unfolding loaded_marks by (simp add: image_Un)
  qed
qed (simp add: adds_ret)

lemma load_item_adds:
  assumes "reliable A" "alertItemFields item = Some flds"
  shows "adds ((\<lambda>sid. (sid, item)) ` set (filter (requested rs item) batch)) os (load_item A rs e batch item os)"
proof -
  obtain g req bad where g: "alertDurationGroups batch rs item = (g, req, bad)" by (metis prod.exhaust)
  obtain ps where ps: "buildAlertItemQueries (flux_time A) item g e = Some ps"
    "mset (concat (map plan_serverIDs ps)) = mset req"
    using buildAlertItemQueries_partition [OF assms(2) g] by blast
  define os1 where "os1 = (if bad > 0 then os\<lparr>invalidDurations := invalidDurations os + bad\<rparr> else os)"
  have lo: "set (loaded os1) = set (loaded os)" by (simp add: os1_def)
  have run: "load_item A rs e batch item os = (if req = [] then ret os1 else load_plans A item ps os1)"
    by (simp add: load_item_def stop_if_done_reliable [OF assms(1)] g ps(1) Let_def os1_def)
  have "adds ((\<lambda>sid. (sid, item)) ` set req) os1 (load_plans A item ps os1)"
    using load_plans_adds [OF assms(1), of item ps os1] mset_eq_setD [OF ps(2)] by simp
  then show ?thesis
    unfolding run alertDurationGroups_spec(1) [OF g, symmetric]
    by (cases "req = []") (simp_all add: adds_def lo ret_def)
qed

lemma load_items_adds:
  assumes "reliable A" "\<forall>item \<in> set items. alertItemFields item \<noteq> None"
  shows "adds {(sid, item). item \<in> set items \<and> sid \<in> set batch \<and> requested rs item sid} os
    (load_items A rs e batch items os)"
  using assms(2)
proof (induction items arbitrary: os)
  case (Cons item items)
  then obtain flds where f: "alertItemFields item = Some flds" by auto
  have "adds ((\<lambda>sid. (sid, item)) ` set (filter (requested rs item) batch) \<union>
      {(sid, item). item \<in> set items \<and> sid \<in> set batch \<and> requested rs item sid}) os (load_items A rs e batch (item # items) os)"
    using Cons adds_bindE [OF load_item_adds [OF assms(1) f]] by simp
  moreover have "(\<lambda>sid. (sid, item)) ` set (filter (requested rs item) batch) \<union>
      {(sid, item). item \<in> set items \<and> sid \<in> set batch \<and> requested rs item sid} =
      {(sid, i). i \<in> set (item # items) \<and> sid \<in> set batch \<and> requested rs i sid}" by auto
  ultimately show ?case by simp
qed (simp add: adds_ret)

lemma influx_items_known: "\<forall>item \<in> set influxAlertItems. alertItemFields item \<noteq> None"
  by code_simp

lemma load_batches_adds:
  assumes "reliable A"
  shows "adds {(sid, item). item \<in> set influxAlertItems \<and> sid \<in> set (concat batches) \<and> requested rs item sid} os
    (load_batches A rs e batches os)"
proof (induction batches arbitrary: os)
  case (Cons b bs)
  have "adds ({(sid, item). item \<in> set influxAlertItems \<and> sid \<in> set b \<and> requested rs item sid} \<union>
      {(sid, item). item \<in> set influxAlertItems \<and> sid \<in> set (concat bs) \<and> requested rs item sid}) os
      (load_batches A rs e (b # bs) os)"
    using adds_bindE [OF load_items_adds [OF assms influx_items_known] Cons]
    by (simp add: stop_if_done_reliable [OF assms])
  moreover have "{(sid, item). item \<in> set influxAlertItems \<and> sid \<in> set b \<and> requested rs item sid} \<union>
      {(sid, item). item \<in> set influxAlertItems \<and> sid \<in> set (concat bs) \<and> requested rs item sid} =
      {(sid, item). item \<in> set influxAlertItems \<and> sid \<in> set (concat (b # bs)) \<and> requested rs item sid}" by auto
  ultimately show ?case by (simp only:)
qed (simp add: adds_ret)

lemma requested_server: "requested rs item sid \<Longrightarrow> sid \<in> set (map fst rs)"
  by (auto simp: requested_def rule_of_def split: option.splits) (metis domI dom_map_of_conv_image_fst)

lemma loadAlertObservations_complete:
  assumes "reliable A" "loadAlertObservations A rulesByTeam e s = (os, t)"
    "item \<in> set influxAlertItems" "requested (merge_rules rulesByTeam) item sid"
  shows "(sid, item) \<in> set (loaded os)"
proof -
  let ?rs = "merge_rules rulesByTeam"
  let ?bs = "chunks alertServerBatchSize (sort (map fst ?rs))"
  have c: "concat ?bs = sort (map fst ?rs)" by (rule concat_chunks) (simp add: alertServerBatchSize_def)
  obtain os' t' where r: "load_batches A ?rs e ?bs newAlertObservationSet s = (Inr os', t')"
    "{(sid, item). item \<in> set influxAlertItems \<and> sid \<in> set (concat ?bs) \<and> requested ?rs item sid} \<subseteq> set (loaded os')"
    using load_batches_adds [OF assms(1), of ?bs ?rs newAlertObservationSet e] unfolding adds_def by blast
  have "os = os'" using assms(2) r(1) by (simp add: loadAlertObservations_def Let_def)
  moreover have "sid \<in> set (concat ?bs)" unfolding c using requested_server [OF assms(4)] by simp
  ultimately show ?thesis using r(2) assms(3,4) by blast
qed


lemma answered_requested:
  assumes "answered A rs e sid item ob" "item \<in> set influxAlertItems"
  shows "requested rs item sid"
proof -
  from assms(1) obtain batch g req bad plans p where
    *: "alertDurationGroups batch rs item = (g, req, bad)" "buildAlertItemQueries (flux_time A) item g e = Some plans"
      "p \<in> set plans" "sid \<in> set (plan_serverIDs p)" unfolding answered_def by blast
  obtain flds where "alertItemFields item = Some flds" using influx_items_known assms(2) by blast
  from buildAlertItemQueries_partition [OF this *(1), of "flux_time A" e] *(2)
  have "mset (concat (map plan_serverIDs plans)) = mset req" by auto
  then have "sid \<in> set req" using *(3,4) mset_eq_setD by fastforce
  then show ?thesis using alertDurationGroups_spec(1) [OF *(1)] by simp
qed

lemma map_of_filter_present:
  "map_of (filter (\<lambda>(sid, ob). present ob) (map (\<lambda>(sid, x). (sid, f x)) t)) sid =
     (case map_of t sid of None \<Rightarrow> None | Some x \<Rightarrow> if present (f x) then Some (f x) else None)"
  if "keyed t"
  using that
proof (induction t)
  case (Cons e t)
  have "map_of (filter (\<lambda>(sid, ob). present ob) (map (\<lambda>(sid, x). (sid, f x)) t)) (fst e) = None"
    using Cons.prems by (auto simp: map_of_eq_None_iff image_iff)
  moreover have "map_of t (fst e) = None" using Cons.prems by (simp add: map_of_eq_None_iff)
  ultimately show ?case using Cons by (cases "sid = fst e") (auto simp: split_beta)
qed simp

lemma keyed_snapshot_loop: "keyed snaps \<Longrightarrow> keyed (snapshot_loop u rs snaps)"
  by (induction u rs snaps rule: snapshot_loop.induct) (simp_all add: Let_def split: option.splits)

section \<open>Properties\<close>

text \<open>
  Planning of alert queries. For an item that is measured, planning the queries of a batch
  of servers never fails; the servers that have a rule for the item with a positive duration are
  exactly the servers of the planned queries, and each of them is in one query only, once.
\<close>

theorem buildAlertItemQueries_correct:
  assumes "item \<in> set influxAlertItems" "distinct sids" "alertDurationGroups sids rs item = (g, req, bad)"
  shows "\<exists>ps. buildAlertItemQueries ft item g e = Some ps \<and>
    set (concat (map plan_serverIDs ps)) = {sid \<in> set sids. requested rs item sid} \<and>
    distinct (concat (map plan_serverIDs ps)) \<and> list_all (\<lambda>p. sorted (plan_serverIDs p)) ps"
proof -
  obtain flds where "alertItemFields item = Some flds" using influx_items_known assms(1) by blast
  from buildAlertItemQueries_partition [OF this assms(3), of ft e] obtain ps where
    ps: "buildAlertItemQueries ft item g e = Some ps" "mset (concat (map plan_serverIDs ps)) = mset req"
      "list_all (\<lambda>p. sorted (plan_serverIDs p)) ps" by blast
  have "distinct req" "set req = {sid \<in> set sids. requested rs item sid}"
    using assms(2) alertDurationGroups_spec(1) [OF assms(3)] by auto
  then show ?thesis using ps mset_eq_setD [OF ps(2)] mset_eq_imp_distinct_iff [OF ps(2)] by simp
qed

definition sample_rule :: "int \<Rightarrow> int \<Rightarrow> ServerAlert" where
  "sample_rule i d =
     \<lparr>ID = i, Item = ''cpu_usage'', Threshold = 80, ForDuration = d, LastStatus = None, LastNotifyAt = None\<rparr>"

definition sample_rules :: server_rules where
  "sample_rules = [(1, [(''cpu_usage'', sample_rule 11 10)]), (2, [(''cpu_usage'', sample_rule 12 30)]),
     (3, [(''cpu_usage'', sample_rule 13 0)]), (4, [])]"

theorem buildAlertItemQueries_correct_witness:
  "\<exists>ps. buildAlertItemQueries itoa ''cpu_usage'' [(10, [1]), (30, [2])] 0 = Some ps \<and>
     set (concat (map plan_serverIDs ps)) = {1, 2} \<and> distinct (concat (map plan_serverIDs ps))"
proof -
  have "''cpu_usage'' \<in> set influxAlertItems" by code_simp
  moreover have "alertDurationGroups [1, 2, 3, 4] sample_rules ''cpu_usage'' = ([(10, [1]), (30, [2])], [1, 2], 1)"
    by code_simp
  moreover have "{sid \<in> set [1, 2, 3, 4]. requested sample_rules ''cpu_usage'' sid} = {1, 2}"
  proof -
    have "filter (requested sample_rules ''cpu_usage'') [1, 2, 3, 4] = [1, 2]" by code_simp
    then show ?thesis by (metis list.set(1) list.set(2) set_filter)
  qed
  ultimately show ?thesis
    using buildAlertItemQueries_correct [of "''cpu_usage''" "[1, 2, 3, 4]" sample_rules "[(10, [1]), (30, [2])]" "[1, 2]" 1 itoa 0]
    by auto
qed

text \<open>
  Disk observations. Whatever the orders the maps are iterated in, a server is observed
  exactly when one of its snapshots has a disk with a size; the observation is the greatest mean
  usage over the mount points, and among equal means the first mount point by name.
\<close>

theorem parseDiskObservations_correct:
  assumes "\<And>xs. mset (ot xs) = mset xs" "\<And>xs. mset (od xs) = mset xs"
  shows "case map_of (snapshot_loop unmarshal records []) sid of
      None \<Rightarrow> map_of (parseDiskObservations ot od unmarshal records) sid = None
    | Some snaps \<Rightarrow>
        if usable snaps = [] then map_of (parseDiskObservations ot od unmarshal records) sid = None
        else \<exists>ob. map_of (parseDiskObservations ot od unmarshal records) sid = Some ob \<and> fullest (usable snaps) ob \<and>
          (\<forall>ob'. fullest (usable snaps) ob' \<longrightarrow> ob' = ob)"
proof -
  have k: "keyed (snapshot_loop unmarshal records [])" by (rule keyed_snapshot_loop) simp
  show ?thesis
  proof (cases "map_of (snapshot_loop unmarshal records []) sid")
    case None
    then show ?thesis by (simp add: parseDiskObservations_def map_of_filter_present [OF k])
  next
    case (Some snaps)
    have "server_observation ot od snaps = no_observation \<and> usable snaps = [] \<or>
        fullest (usable snaps) (server_observation ot od snaps) \<and> usable snaps \<noteq> []"
      using server_observation_fullest [of ot snaps od] assms by (auto split: if_splits)
    then show ?thesis
      using Some fullest_unique
      by (auto simp: parseDiskObservations_def map_of_filter_present [OF k] no_observation_def fullest_def [of _ "server_observation ot od snaps"])
  qed
qed


definition sample_disks :: "DiskInfo list" where
  "sample_disks = [\<lparr>MountPoint = ''/data'', TotalGB = 10, UsedGB = 4\<rparr>, \<lparr>MountPoint = '''', TotalGB = 100, UsedGB = 90\<rparr>]"

definition sample_record :: influx_record where
  "sample_record = \<lparr>rec_server_id = VString ''5'', rec_time = 0, rec_field = ''disks'', rec_value = VString ''j''\<rparr>"

theorem parseDiskObservations_correct_witness:
  "\<exists>ob. map_of (parseDiskObservations rev rev (\<lambda>_. Some sample_disks) [sample_record]) 5 = Some ob \<and> fullest sample_disks ob"
proof -
  have id: "alertRecordServerID (rec_server_id sample_record) = Some 5" by code_simp
  have snaps: "map_of (snapshot_loop (\<lambda>_. Some sample_disks) [sample_record] []) 5 =
      Some [(0, \<lparr>snapshot_disks = sample_disks, modern = True\<rparr>)]"
    by (simp add: id Let_def) (simp add: sample_record_def snapshot_field_def)
  have "usable [(0, \<lparr>snapshot_disks = sample_disks, modern = True\<rparr>)] = sample_disks"
    by (simp add: usable_def sample_disks_def)
  moreover have "sample_disks \<noteq> []" by (simp add: sample_disks_def)
  ultimately show ?thesis
    using parseDiskObservations_correct [of rev rev "\<lambda>_. Some sample_disks" "[sample_record]" 5, unfolded snaps option.case]
    by auto
qed

text \<open>
  (C37) Loading of observations. An observation is marked as loaded only for a rule of the server
  with a positive duration and only if a query planned for the rule was executed without error,
  and it is what the records of that query say; a failed query leaves its rules unloaded. If the
  context stays alive and no query fails, the observation of every such rule is loaded.
\<close>

theorem loadAlertObservations_correct:
  assumes "loadAlertObservations A rules e s = (os, t)"
  shows "(\<forall>sid item. snd (get_observation os sid item) \<longrightarrow>
      item \<in> set influxAlertItems \<and> requested (merge_rules rules) item sid \<and>
      answered A (merge_rules rules) e sid item (fst (get_observation os sid item))) \<and>
    (reliable A \<longrightarrow> (\<forall>sid item. item \<in> set influxAlertItems \<and> requested (merge_rules rules) item sid \<longrightarrow>
      snd (get_observation os sid item)))"
proof -
  have "sourced A (merge_rules rules) e os" by (rule loadAlertObservations_sourced [OF assms])
  then show ?thesis
    using loadAlertObservations_complete [OF _ assms] answered_requested
    unfolding sourced_def get_observation_def fst_conv snd_conv by blast
qed

definition sample_source :: "nat alert_source" where
  "sample_source = \<lparr>ctx_done = \<lambda>_. False,
     exec_query = \<lambda>q n. (Inr [\<lparr>rec_server_id = VString ''1'', rec_time = 0, rec_field = ''cpu'', rec_value = VFloat 99\<rparr>], n + 1),
     unmarshal_disks = \<lambda>_. None, flux_time = itoa, ord_time = id, ord_disk = id\<rparr>"

theorem loadAlertObservations_correct_witness:
  "snd (get_observation (fst (loadAlertObservations sample_source [(7, sample_rules)] 0 0)) 1 ''cpu_usage'')"
proof -
  have "reliable sample_source" by (simp add: reliable_def sample_source_def)
  moreover have "''cpu_usage'' \<in> set influxAlertItems" "requested (merge_rules [(7, sample_rules)]) ''cpu_usage'' 1"
    by code_simp+
  ultimately show ?thesis
    using loadAlertObservations_correct [OF prod.collapse [symmetric], of sample_source "[(7, sample_rules)]" 0 0] by blast
qed

end
