(* ===== verification/Alert_Config.thy ===== *)
theory Alert_Config
  imports Database Alert_Queries
begin

text \<open>
  The configuration of alert rules (\<open>internal/db/alert.go\<close>) and its handlers
  (\<open>internal/app/api/server/alert\<close>), over the tables \<open>servers\<close>, \<open>server_alerts\<close> and \<open>team_alerts\<close>
  (and the two tables the evaluation reads) with the unique, check and foreign-key constraints of the schema.
\<close>

declare map_of_eq_Some_iff [simp del]

section \<open>Items\<close>

record AlertFieldConfig =
  Enabled :: bool
  Min :: int
  Max :: int
  Default :: int
  Unit :: string

record alertItemRule =
  label :: string
  item_description :: string
  rule_threshold :: AlertFieldConfig
  rule_forDuration :: AlertFieldConfig
  notifyOnce :: bool

definition disabled :: AlertFieldConfig where
  "disabled = \<lparr>Enabled = False, Min = 0, Max = 0, Default = 0, Unit = ''''\<rparr>"

definition field :: "int \<Rightarrow> int \<Rightarrow> int \<Rightarrow> string \<Rightarrow> AlertFieldConfig" where
  "field lo hi dflt u = \<lparr>Enabled = True, Min = lo, Max = hi, Default = dflt, Unit = u\<rparr>"

definition alertItemRules :: "(string, alertItemRule) table" where
  "alertItemRules =
    [(alertItemStatus,
       \<lparr>label = ''Status'',
        item_description = ''Trigger when the server has no status data during the configured lookback window.'',
        rule_threshold = disabled, rule_forDuration = field 1 1440 10 ''minute'', notifyOnce = False\<rparr>),
     (alertItemCPU,
       \<lparr>label = ''CPU Usage'',
        item_description = ''Trigger when average CPU usage across the window exceeds the threshold.'',
        rule_threshold = field 1 100 80 ''percent'', rule_forDuration = field 1 1440 10 ''minute'', notifyOnce = False\<rparr>),
     (alertItemMemory,
       \<lparr>label = ''Memory Usage'',
        item_description = ''Trigger when average memory usage across the window exceeds the threshold.'',
        rule_threshold = field 1 100 80 ''percent'', rule_forDuration = field 1 1440 10 ''minute'', notifyOnce = False\<rparr>),
     (alertItemDisk,
       \<lparr>label = ''Disk Usage'',
        item_description = ''Trigger when any partition average usage across the window exceeds the threshold.'',
        rule_threshold = field 1 100 80 ''percent'', rule_forDuration = field 1 1440 10 ''minute'', notifyOnce = False\<rparr>),
     (alertItemReadIOPS,
       \<lparr>label = ''Read IOPS'',
        item_description = ''Trigger when average read IOPS across the window exceeds the threshold.'',
        rule_threshold = field 1 1000000 1000 ''iops'', rule_forDuration = field 1 1440 10 ''minute'', notifyOnce = False\<rparr>),
     (alertItemWriteIOPS,
       \<lparr>label = ''Write IOPS'',
        item_description = ''Trigger when average write IOPS across the window exceeds the threshold.'',
        rule_threshold = field 1 1000000 1000 ''iops'', rule_forDuration = field 1 1440 10 ''minute'', notifyOnce = False\<rparr>),
     (alertItemBandwidth,
       \<lparr>label = ''Bandwidth'',
        item_description = ''Trigger when average bandwidth usage across the window exceeds the threshold.'',
        rule_threshold = field 1 1000000 100 ''mbps'', rule_forDuration = field 1 1440 10 ''minute'', notifyOnce = False\<rparr>),
     (alertItemExpiry,
       \<lparr>label = ''Expiry Reminder'',
        item_description = ''Trigger once when a non-auto-renew server enters the configured number of days before expiration.'',
        rule_threshold = field 1 7 3 ''day'', rule_forDuration = disabled, notifyOnce = True\<rparr>),
     (AlertItemSSHLogin,
       \<lparr>label = ''SSH Login'',
        item_description = ''Notify when a user logs into this server via SSH (Mosona's own monitoring connections are excluded). Works for SSH, active-agent, and passive-agent mode servers.'',
        rule_threshold = disabled, rule_forDuration = disabled, notifyOnce = False\<rparr>)]"

definition normalizeAlertField :: "int \<Rightarrow> AlertFieldConfig \<Rightarrow> err + int" where
  "normalizeAlertField val config =
     (if \<not> Enabled config then Inr 0
      else if val < Min config \<or> val > Max config then Inl ErrAlertInvalidConfig
      else Inr val)"

definition normalizeAlertConfig :: "string \<Rightarrow> int \<Rightarrow> int \<Rightarrow> err + int \<times> int" where
  "normalizeAlertConfig item thr dur =
     (case map_of alertItemRules item of
        None \<Rightarrow> Inl ErrAlertNotFound
      | Some rule \<Rightarrow>
          (case normalizeAlertField thr (rule_threshold rule) of
             Inl e \<Rightarrow> Inl e
           | Inr thr' \<Rightarrow>
               (case normalizeAlertField dur (rule_forDuration rule) of
                  Inl e \<Rightarrow> Inl e
                | Inr dur' \<Rightarrow> Inr (thr', dur'))))"

record AlertItemConfig =
  cfg_item :: string
  cfg_rule :: alertItemRule

definition AlertItemConfigs :: "AlertItemConfig list" where
  "AlertItemConfigs =
     map (\<lambda>item. \<lparr>cfg_item = item, cfg_rule = the (map_of alertItemRules item)\<rparr>)
       [alertItemStatus, alertItemCPU, alertItemMemory, alertItemDisk, alertItemReadIOPS, alertItemWriteIOPS,
        alertItemBandwidth, alertItemExpiry, AlertItemSSHLogin]"

section \<open>Tables\<close>

record server_row =
  sv_team :: int
  sv_name :: string

record alert_row =
  al_server :: int
  al_item :: string
  al_threshold :: int
  al_for :: int
  al_status :: "bool option"
  al_notify :: go_time

record team_alert_row =
  ta_team :: int
  ta_item :: string
  ta_threshold :: int
  ta_for :: int

record alert_db =
  team_ids :: "int list"
  servers :: "(int, server_row) table"
  server_alerts :: "(int, alert_row) table"
  team_alerts :: "(int, team_alert_row) table"
  alert_seq :: int
  team_alert_seq :: int
  server_infos :: "(int, serverExpiryInfo) table"
  teams_notifications :: "(int \<times> TeamNotification) list"

text \<open>The check constraint \<open>server_alerts_config_bounds\<close>, which \<open>team_alerts\<close> has as well.\<close>

definition config_bounds :: "string \<Rightarrow> int \<Rightarrow> int \<Rightarrow> bool" where
  "config_bounds item thr dur \<longleftrightarrow>
     (if item = alertItemStatus then thr = 0 \<and> 1 \<le> dur \<and> dur \<le> 1440
      else if item = alertItemCPU \<or> item = alertItemMemory \<or> item = alertItemDisk
      then 1 \<le> thr \<and> thr \<le> 100 \<and> 1 \<le> dur \<and> dur \<le> 1440
      else if item = alertItemReadIOPS \<or> item = alertItemWriteIOPS \<or> item = alertItemBandwidth
      then 1 \<le> thr \<and> thr \<le> 1000000 \<and> 1 \<le> dur \<and> dur \<le> 1440
      else if item = alertItemExpiry then 1 \<le> thr \<and> thr \<le> 7 \<and> dur = 0
      else True)"

definition in_team :: "alert_db \<Rightarrow> int \<Rightarrow> int \<Rightarrow> bool" where
  "in_team d team sid \<longleftrightarrow> (case map_of (servers d) sid of None \<Rightarrow> False | Some r \<Rightarrow> sv_team r = team)"

definition team_servers :: "int \<Rightarrow> alert_db \<Rightarrow> int list" where
  "team_servers team d = map fst (filter (\<lambda>(_, r). sv_team r = team) (servers d))"

definition is_alert :: "int \<Rightarrow> string \<Rightarrow> alert_row \<Rightarrow> bool" where
  "is_alert sid item r \<longleftrightarrow> al_server r = sid \<and> al_item r = item"

definition is_team_alert :: "int \<Rightarrow> string \<Rightarrow> team_alert_row \<Rightarrow> bool" where
  "is_team_alert team item r \<longleftrightarrow> ta_team r = team \<and> ta_item r = item"

section \<open>Statements\<close>

text \<open>
  \<open>INSERT INTO server_alerts ... ON CONFLICT (server_id, item)\<close>, either \<open>DO UPDATE\<close> of the two
  configured columns or \<open>DO NOTHING\<close>, with the number of affected rows. A new row has no status
  and the current time as its last notification.
\<close>

definition upsert_alert ::
  "bool \<Rightarrow> go_time \<Rightarrow> int \<Rightarrow> string \<Rightarrow> int \<Rightarrow> int \<Rightarrow> alert_db \<Rightarrow> (alert_db \<times> int) option" where
  "upsert_alert upd now sid item thr dur d =
     (if \<not> config_bounds item thr dur then None
      else case id_where (is_alert sid item) (server_alerts d) of
        Some i \<Rightarrow>
          if upd then Some (d\<lparr>server_alerts := AList.map_entry i (\<lambda>r. r\<lparr>al_threshold := thr, al_for := dur\<rparr>) (server_alerts d)\<rparr>, 1)
          else Some (d, 0)
      | None \<Rightarrow>
          if \<not> has_key (servers d) sid then None
          else Some (d\<lparr>server_alerts := (alert_seq d + 1,
                 \<lparr>al_server = sid, al_item = item, al_threshold = thr, al_for = dur, al_status = None, al_notify = now\<rparr>) # server_alerts d,
               alert_seq := alert_seq d + 1\<rparr>, 1))"

definition upsert_selected ::
  "go_time \<Rightarrow> int \<Rightarrow> int \<Rightarrow> string \<Rightarrow> int \<Rightarrow> int \<Rightarrow> alert_db \<Rightarrow> (alert_db \<times> int) option" where
  "upsert_selected now teamId serverId item thr dur d =
     (if in_team d teamId serverId then upsert_alert True now serverId item thr dur d else Some (d, 0))"

definition upsert_team_alert :: "int \<Rightarrow> string \<Rightarrow> int \<Rightarrow> int \<Rightarrow> alert_db \<Rightarrow> alert_db option" where
  "upsert_team_alert team item thr dur d =
     (if \<not> config_bounds item thr dur then None
      else case id_where (is_team_alert team item) (team_alerts d) of
        Some i \<Rightarrow> Some (d\<lparr>team_alerts := AList.map_entry i (\<lambda>r. r\<lparr>ta_threshold := thr, ta_for := dur\<rparr>) (team_alerts d)\<rparr>)
      | None \<Rightarrow>
          if team \<notin> set (team_ids d) then None
          else Some (d\<lparr>team_alerts := (team_alert_seq d + 1,
                 \<lparr>ta_team = team, ta_item = item, ta_threshold = thr, ta_for = dur\<rparr>) # team_alerts d,
               team_alert_seq := team_alert_seq d + 1\<rparr>))"

text \<open>\<open>DELETE FROM server_alerts WHERE ...\<close> with the number of deleted rows.\<close>

definition delete_alerts :: "(alert_db \<Rightarrow> alert_row \<Rightarrow> bool) \<Rightarrow> alert_db \<Rightarrow> (alert_db \<times> int) option" where
  "delete_alerts p d =
     (let kept = delete_where (\<lambda>_ r. p d r) (server_alerts d) in
      Some (d\<lparr>server_alerts := kept\<rparr>, int (length (server_alerts d)) - int (length kept)))"

section \<open>Operations\<close>

type_synonym ('z, 'a) alerts_io = "((alert_db, 'z) dbenv_scheme, err, 'a) io"

definition ofE :: "err + 'a \<Rightarrow> ('z, 'a) alerts_io" where
  "ofE r = (case r of Inl e \<Rightarrow> raise e | Inr x \<Rightarrow> ret x)"

definition UpsertServerAlert :: "int \<Rightarrow> int \<Rightarrow> string \<Rightarrow> int \<Rightarrow> int \<Rightarrow> ('z, unit) alerts_io" where
  "UpsertServerAlert teamId serverId item thr0 dur0 =
     bindE (ofE (normalizeAlertConfig item thr0 dur0)) (\<lambda>(thr, dur).
     bindE time_now (\<lambda>now.
     bindE (exec_db_val (upsert_selected now teamId serverId item thr dur)) (\<lambda>affected.
     if affected \<noteq> 1 then raise ErrAlertServerNotFound else ret ())))"

fun upsert_servers :: "bool \<Rightarrow> go_time \<Rightarrow> string \<Rightarrow> int \<Rightarrow> int \<Rightarrow> int list \<Rightarrow> ('z, int) alerts_io" where
  "upsert_servers override now item thr dur [] = ret 0"
| "upsert_servers override now item thr dur (sid # sids) =
     bindE (exec_db_val (upsert_alert override now sid item thr dur)) (\<lambda>affected.
     bindE (upsert_servers override now item thr dur sids) (\<lambda>n. ret (affected + n)))"

definition UpsertTeamAlert :: "int \<Rightarrow> string \<Rightarrow> int \<Rightarrow> int \<Rightarrow> bool \<Rightarrow> ('z, int) alerts_io" where
  "UpsertTeamAlert teamId item thr0 dur0 override =
     bindE (ofE (normalizeAlertConfig item thr0 dur0)) (\<lambda>(thr, dur).
     bindE time_now (\<lambda>now.
     transaction_db (
       bindE (exec_db (upsert_team_alert teamId item thr dur)) (\<lambda>_.
       bindE (query_db (team_servers teamId)) (\<lambda>serverIds.
       upsert_servers override now item thr dur serverIds)))))"

definition DeleteServerAlert :: "int \<Rightarrow> int \<Rightarrow> string \<Rightarrow> ('z, unit) alerts_io" where
  "DeleteServerAlert teamId serverId item =
     (if \<not> has_key alertItemRules item then raise ErrAlertNotFound
      else bindE (exec_db_val (delete_alerts (\<lambda>d r. is_alert serverId item r \<and> in_team d teamId serverId))) (\<lambda>_. ret ()))"

definition team_alert_config :: "int \<Rightarrow> string \<Rightarrow> alert_db \<Rightarrow> (int \<times> int) option" where
  "team_alert_config team item d =
     (case find (\<lambda>(_, r). is_team_alert team item r) (team_alerts d) of
        None \<Rightarrow> None | Some (_, r) \<Rightarrow> Some (ta_threshold r, ta_for r))"

definition delete_team_alert :: "int \<Rightarrow> string \<Rightarrow> alert_db \<Rightarrow> alert_db option" where
  "delete_team_alert team item d = Some (d\<lparr>team_alerts := delete_where (\<lambda>_ r. is_team_alert team item r) (team_alerts d)\<rparr>)"

definition DeleteTeamAlert :: "int \<Rightarrow> string \<Rightarrow> bool \<Rightarrow> ('z, int) alerts_io" where
  "DeleteTeamAlert teamId item override =
     (if \<not> has_key alertItemRules item then raise ErrAlertNotFound
      else transaction_db (
        bindE (if override then ret (0, 0) else query_db_row (team_alert_config teamId item)) (\<lambda>(thr, dur).
        bindE (exec_db (delete_team_alert teamId item)) (\<lambda>_.
        if override then exec_db_val (delete_alerts (\<lambda>d r. al_item r = item \<and> in_team d teamId (al_server r)))
        else exec_db_val (delete_alerts (\<lambda>d r. al_item r = item \<and> al_threshold r = thr \<and> al_for r = dur \<and>
               in_team d teamId (al_server r)))))))"

definition alert_of_row :: "int \<Rightarrow> alert_row \<Rightarrow> ServerAlert" where
  "alert_of_row i r = \<lparr>ID = i, Item = al_item r, Threshold = al_threshold r, ForDuration = al_for r,
     LastStatus = None, LastNotifyAt = None\<rparr>"

definition put_rule :: "int \<Rightarrow> string \<Rightarrow> ServerAlert \<Rightarrow> server_rules \<Rightarrow> server_rules" where
  "put_rule sid item a rs =
     AList.update sid (AList.update item a (case map_of rs sid of None \<Rightarrow> [] | Some m \<Rightarrow> m)) rs"

definition GetServerAlertsByTeamId :: "int \<Rightarrow> ('z, server_rules) alerts_io" where
  "GetServerAlertsByTeamId teamId =
     bindE (query_db (\<lambda>d. filter (\<lambda>(_, r). in_team d teamId (al_server r)) (server_alerts d))) (\<lambda>rows.
     ret (fold (\<lambda>(i, r). put_rule (al_server r) (al_item r) (alert_of_row i r)) rows []))"

definition GetTeamAlertsByTeamId :: "int \<Rightarrow> ('z, rules) alerts_io" where
  "GetTeamAlertsByTeamId teamId =
     bindE (query_db (\<lambda>d. filter (\<lambda>(_, r). ta_team r = teamId) (team_alerts d))) (\<lambda>rows.
     ret (fold (\<lambda>(i, r). AList.update (ta_item r)
       \<lparr>ID = i, Item = ta_item r, Threshold = ta_threshold r, ForDuration = ta_for r, LastStatus = None, LastNotifyAt = None\<rparr>) rows []))"

text \<open>The same query inside a transaction of the caller.\<close>

definition GetTeamAlertsByTeamIdTx :: "int \<Rightarrow> ('z, rules) alerts_io" where
  "GetTeamAlertsByTeamIdTx teamId =
     bindE (query_db (\<lambda>d. filter (\<lambda>(_, r). ta_team r = teamId) (team_alerts d))) (\<lambda>rows.
     ret (fold (\<lambda>(i, r). AList.update (ta_item r)
       \<lparr>ID = i, Item = ta_item r, Threshold = ta_threshold r, ForDuration = ta_for r, LastStatus = None, LastNotifyAt = None\<rparr>) rows []))"

section \<open>Handlers\<close>

text \<open>An answer is its status, its code and its number; an early answer ends the handler.\<close>

type_synonym alert_answer = "int \<times> string \<times> int"

definition set_alert :: "int \<Rightarrow> string \<Rightarrow> string \<Rightarrow> string \<Rightarrow> string \<Rightarrow> string \<Rightarrow> ('z, alert_answer) alerts_io" where
  "set_alert tid id_param item thr_form dur_form override_form =
     (let i = parse_int64_value id_param;
          thr = parse_int64_value thr_form;
          dur = parse_int64_value dur_form;
          override = (override_form = ''true'') in
      if i = 0 then ret (400, ''invalid'', 0)
      else
        tryE (if i > 0 then bindE (UpsertServerAlert tid i item thr dur) (\<lambda>_. ret 1)
              else UpsertTeamAlert tid item thr dur override) (\<lambda>r. case r of
          Inl e \<Rightarrow>
            if e = ErrAlertServerNotFound then ret (404, ''server_not_found'', 0)
            else if e = ErrAlertNotFound then ret (400, ''invalid'', 0)
            else if e = ErrAlertInvalidConfig then ret (400, ''invalid'', 0)
            else ret (500, ''error'', 0)
        | Inr affected \<Rightarrow> ret (200, ''ok'', affected)))"

definition del_alert :: "int \<Rightarrow> string \<Rightarrow> string \<Rightarrow> string \<Rightarrow> ('z, alert_answer) alerts_io" where
  "del_alert tid id_param item override_param =
     (let i = parse_int64_value id_param; override = (override_param = ''true'') in
      if i = 0 then ret (400, ''invalid'', 0)
      else
        tryE (if i > 0 then bindE (DeleteServerAlert tid i item) (\<lambda>_. ret 1)
              else DeleteTeamAlert tid item override) (\<lambda>r. case r of
          Inl e \<Rightarrow> if e = ErrAlertNotFound then ret (400, ''invalid'', 0) else ret (500, ''error'', 0)
        | Inr affected \<Rightarrow> ret (200, ''ok'', affected)))"


definition list_alerts :: "int \<Rightarrow> ('z, int \<times> string \<times> (server_rules \<times> rules \<times> AlertItemConfig list) option) alerts_io" where
  "list_alerts tid =
     tryE (GetServerAlertsByTeamId tid) (\<lambda>r. case r of
       Inl _ \<Rightarrow> ret (500, ''error'', None)
     | Inr alerts \<Rightarrow> tryE (GetTeamAlertsByTeamId tid) (\<lambda>r. case r of
         Inl _ \<Rightarrow> ret (500, ''error'', None)
       | Inr teamAlerts \<Rightarrow> ret (200, ''ok'', Some (alerts, teamAlerts, AlertItemConfigs))))"

section \<open>The schema is kept\<close>

text \<open>A value a field of the configuration accepts after normalisation.\<close>

definition accepted :: "AlertFieldConfig \<Rightarrow> int \<Rightarrow> bool" where
  "accepted c v \<longleftrightarrow> (if Enabled c then Min c \<le> v \<and> v \<le> Max c else v = 0)"

lemma normalizeAlertField_accepted: "normalizeAlertField v c = Inr w \<Longrightarrow> accepted c w"
  by (auto simp: normalizeAlertField_def accepted_def split: if_splits)

lemma normalizeAlertConfig_Inr:
  assumes "normalizeAlertConfig item t d = Inr (t', d')"
  shows "\<exists>rule. (item, rule) \<in> set alertItemRules \<and> accepted (rule_threshold rule) t' \<and> accepted (rule_forDuration rule) d'"
  using assms normalizeAlertField_accepted
  by (fastforce simp: normalizeAlertConfig_def dest!: map_of_SomeD split: option.splits sum.splits)

lemma accepted_simps [simp]:
  "accepted disabled v \<longleftrightarrow> v = 0" "accepted (field lo hi df u) v \<longleftrightarrow> lo \<le> v \<and> v \<le> hi"
  by (simp_all add: accepted_def disabled_def field_def)

lemma accepted_bounds:
  "list_all (\<lambda>(item, rule). \<forall>t d. accepted (rule_threshold rule) t \<and> accepted (rule_forDuration rule) d \<longrightarrow> config_bounds item t d) alertItemRules"
  unfolding alertItemRules_def list.pred_inject split_conv alertItemRule.simps accepted_simps
  by (intro conjI allI impI TrueI) (simp_all add: config_bounds_def)

lemma normalizeAlertConfig_bounds: "normalizeAlertConfig item t d = Inr (t', d') \<Longrightarrow> config_bounds item t' d'"
  using normalizeAlertConfig_Inr accepted_bounds unfolding list_all_iff by fastforce

definition alert_key :: "alert_row \<Rightarrow> int \<times> string" where
  "alert_key r = (al_server r, al_item r)"

definition team_alert_key :: "team_alert_row \<Rightarrow> int \<times> string" where
  "team_alert_key r = (ta_team r, ta_item r)"

lemma is_alert_iff: "is_alert sid item r \<longleftrightarrow> alert_key r = (sid, item)"
  by (simp add: is_alert_def alert_key_def)

lemma is_team_alert_iff: "is_team_alert team item r \<longleftrightarrow> team_alert_key r = (team, item)"
  by (simp add: is_team_alert_def team_alert_key_def)

definition alert_row_ok :: "alert_db \<Rightarrow> alert_row \<Rightarrow> bool" where
  "alert_row_ok d r \<longleftrightarrow> has_key (servers d) (al_server r) \<and> config_bounds (al_item r) (al_threshold r) (al_for r)"

definition team_alert_row_ok :: "alert_db \<Rightarrow> team_alert_row \<Rightarrow> bool" where
  "team_alert_row_ok d r \<longleftrightarrow> ta_team r \<in> set (team_ids d) \<and> config_bounds (ta_item r) (ta_threshold r) (ta_for r)"

definition alert_schema :: "alert_db \<Rightarrow> bool" where
  "alert_schema d \<longleftrightarrow>
     keyed (servers d) \<and>
     indexed alert_key (alert_seq d) (server_alerts d) \<and> rows_ok (alert_row_ok d) (server_alerts d) \<and>
     indexed team_alert_key (team_alert_seq d) (team_alerts d) \<and> rows_ok (team_alert_row_ok d) (team_alerts d)"

lemma row_ok_cong:
  "servers d' = servers d \<Longrightarrow> alert_row_ok d' = alert_row_ok d"
  "team_ids d' = team_ids d \<Longrightarrow> team_alert_row_ok d' = team_alert_row_ok d"
  by (intro ext; simp add: alert_row_ok_def team_alert_row_ok_def)+

text \<open>
  What the operations for one team leave alone: the servers, the rules of other teams, and the
  rows of the servers of other teams.
\<close>

definition foreign_alerts :: "int \<Rightarrow> alert_db \<Rightarrow> (int, alert_row) table" where
  "foreign_alerts team d = filter (\<lambda>(_, r). \<not> in_team d team (al_server r)) (server_alerts d)"

definition foreign_team_alerts :: "int \<Rightarrow> alert_db \<Rightarrow> (int, team_alert_row) table" where
  "foreign_team_alerts team d = filter (\<lambda>(_, r). ta_team r \<noteq> team) (team_alerts d)"

definition confined :: "int \<Rightarrow> alert_db \<Rightarrow> alert_db \<Rightarrow> bool" where
  "confined team d d' \<longleftrightarrow>
     servers d' = servers d \<and> team_ids d' = team_ids d \<and> foreign_alerts team d' = foreign_alerts team d \<and>
     foreign_team_alerts team d' = foreign_team_alerts team d \<and> alert_schema d'"

lemma in_team_servers: "servers d' = servers d \<Longrightarrow> in_team d' = in_team d"
  by (intro ext) (simp add: in_team_def)

lemma confined_alertsI:
  assumes "alert_schema d" "indexed alert_key q t" "rows_ok (alert_row_ok d) t"
    "filter (\<lambda>(_, r). \<not> in_team d team (al_server r)) t = foreign_alerts team d"
  shows "confined team d (d\<lparr>server_alerts := t, alert_seq := q\<rparr>)"
  using assms
  by (simp add: confined_def alert_schema_def foreign_alerts_def foreign_team_alerts_def in_team_servers [of "d\<lparr>server_alerts := t, alert_seq := q\<rparr>" d]
      row_ok_cong [of "d\<lparr>server_alerts := t, alert_seq := q\<rparr>" d])

lemma confined_team_alertsI:
  assumes "alert_schema d" "indexed team_alert_key q t" "rows_ok (team_alert_row_ok d) t"
    "filter (\<lambda>(_, r). ta_team r \<noteq> team) t = foreign_team_alerts team d"
  shows "confined team d (d\<lparr>team_alerts := t, team_alert_seq := q\<rparr>)"
  using assms
  by (simp add: confined_def alert_schema_def foreign_alerts_def foreign_team_alerts_def in_team_servers [of "d\<lparr>team_alerts := t, team_alert_seq := q\<rparr>" d]
      row_ok_cong [of "d\<lparr>team_alerts := t, team_alert_seq := q\<rparr>" d])

lemma confined_refl: "alert_schema d \<Longrightarrow> confined team d d"
  by (simp add: confined_def)

lemma confined_trans: "confined team d d' \<Longrightarrow> confined team d' d'' \<Longrightarrow> confined team d d''"
  by (simp add: confined_def)

lemma upsert_alert_confined:
  assumes d: "alert_schema d" and sid: "in_team d team sid" and up: "upsert_alert upd now sid item thr dur d = Some (d', n)"
  shows "confined team d d'"
proof -
  have b: "config_bounds item thr dur" using up by (auto simp: upsert_alert_def split: if_splits)
  have s: "has_key (servers d) sid" using sid by (auto simp: in_team_def has_key_def split: option.splits)
  have ix: "indexed alert_key (alert_seq d) (server_alerts d)" and ok: "rows_ok (alert_row_ok d) (server_alerts d)"
    using d by (simp_all add: alert_schema_def)
  show ?thesis
  proof (cases "id_where (is_alert sid item) (server_alerts d)")
    case None
    let ?r = "\<lparr>al_server = sid, al_item = item, al_threshold = thr, al_for = dur, al_status = None, al_notify = now\<rparr>"
    have "alert_key q \<noteq> alert_key ?r" if "map_of (server_alerts d) i = Some q" for i q
      using id_where_None [OF None that] by (simp add: is_alert_iff alert_key_def [of ?r])
    then have "confined team d (d\<lparr>server_alerts := (alert_seq d + 1, ?r) # server_alerts d, alert_seq := alert_seq d + 1\<rparr>)"
      by (intro confined_alertsI d indexed_insert ix rows_ok_insert ok) (simp_all add: alert_row_ok_def b s foreign_alerts_def sid)
    then show ?thesis using up b s None by (simp add: upsert_alert_def)
  next
    case (Some i)
    note key = indexed_keyed [OF ix]
    obtain r where r: "map_of (server_alerts d) i = Some r" "is_alert sid item r" using id_where_Some [OF key Some] by blast
    let ?f = "\<lambda>r. r\<lparr>al_threshold := thr, al_for := dur\<rparr>"
    have "confined team d (d\<lparr>server_alerts := AList.map_entry i ?f (server_alerts d), alert_seq := alert_seq d\<rparr>)"
    proof (intro confined_alertsI d indexed_map_entry ix rows_ok_map_entry ok)
      show "filter (\<lambda>(_, r). \<not> in_team d team (al_server r)) (AList.map_entry i ?f (server_alerts d)) = foreign_alerts team d"
        unfolding foreign_alerts_def by (rule filter_map_entry_other [OF r(1)]) (use r(2) sid key in \<open>auto simp: is_alert_def\<close>)
    qed (use r b in \<open>auto simp: alert_key_def alert_row_ok_def is_alert_def\<close>)
    then show ?thesis using up b Some confined_refl [OF d] by (auto simp: upsert_alert_def split: if_splits)
  qed
qed


lemma confined_schema: "confined team d d' \<Longrightarrow> alert_schema d'"
  by (simp add: confined_def)

lemma confined_in_team: "confined team d d' \<Longrightarrow> in_team d' = in_team d"
  unfolding confined_def by (blast intro: in_team_servers)

lemma upsert_team_alert_confined:
  assumes d: "alert_schema d" and up: "upsert_team_alert team item thr dur d = Some d'"
  shows "confined team d d'"
proof -
  have b: "config_bounds item thr dur" using up by (auto simp: upsert_team_alert_def split: if_splits)
  have ix: "indexed team_alert_key (team_alert_seq d) (team_alerts d)" and ok: "rows_ok (team_alert_row_ok d) (team_alerts d)"
    using d by (simp_all add: alert_schema_def)
  show ?thesis
  proof (cases "id_where (is_team_alert team item) (team_alerts d)")
    case None
    let ?r = "\<lparr>ta_team = team, ta_item = item, ta_threshold = thr, ta_for = dur\<rparr>"
    have t: "team \<in> set (team_ids d)" using up b None by (auto simp: upsert_team_alert_def split: if_splits)
    have "team_alert_key q \<noteq> team_alert_key ?r" if "map_of (team_alerts d) i = Some q" for i q
      using id_where_None [OF None that] by (simp add: is_team_alert_iff team_alert_key_def [of ?r])
    then have "confined team d (d\<lparr>team_alerts := (team_alert_seq d + 1, ?r) # team_alerts d, team_alert_seq := team_alert_seq d + 1\<rparr>)"
      by (intro confined_team_alertsI d indexed_insert ix rows_ok_insert ok)
        (simp_all add: team_alert_row_ok_def b t foreign_team_alerts_def)
    then show ?thesis using up b t None by (simp add: upsert_team_alert_def)
  next
    case (Some i)
    note key = indexed_keyed [OF ix]
    obtain r where r: "map_of (team_alerts d) i = Some r" "is_team_alert team item r" using id_where_Some [OF key Some] by blast
    let ?f = "\<lambda>r. r\<lparr>ta_threshold := thr, ta_for := dur\<rparr>"
    have "confined team d (d\<lparr>team_alerts := AList.map_entry i ?f (team_alerts d), team_alert_seq := team_alert_seq d\<rparr>)"
    proof (intro confined_team_alertsI d indexed_map_entry ix rows_ok_map_entry ok)
      show "filter (\<lambda>(_, r). ta_team r \<noteq> team) (AList.map_entry i ?f (team_alerts d)) = foreign_team_alerts team d"
        unfolding foreign_team_alerts_def by (rule filter_map_entry_other [OF r(1)]) (use r(2) key in \<open>auto simp: is_team_alert_def\<close>)
    qed (use r b in \<open>auto simp: team_alert_key_def team_alert_row_ok_def is_team_alert_def\<close>)
    then show ?thesis using up b Some by (simp add: upsert_team_alert_def)
  qed
qed

lemma filter_delete_where:
  "(\<And>k v. p k v \<Longrightarrow> \<not> q v) \<Longrightarrow> filter (\<lambda>(_, r). q r) (delete_where p t) = filter (\<lambda>(_, r). q r) t"
  by (induction t) auto

lemma delete_alerts_confined:
  assumes "alert_schema d" "delete_alerts p d = Some (d', n)" "\<And>r. p d r \<Longrightarrow> in_team d team (al_server r)"
  shows "confined team d d'"
proof -
  have "confined team d (d\<lparr>server_alerts := delete_where (\<lambda>_ r. p d r) (server_alerts d), alert_seq := alert_seq d\<rparr>)"
    using assms(1) by (intro confined_alertsI indexed_delete_where rows_ok_delete_where indexed_keyed)
      (auto simp: alert_schema_def foreign_alerts_def intro!: filter_delete_where assms(3))
  then show ?thesis using assms(2) by (auto simp: delete_alerts_def Let_def)
qed

lemma delete_team_alert_confined:
  assumes "alert_schema d" "delete_team_alert team item d = Some d'"
  shows "confined team d d'"
proof -
  have "confined team d (d\<lparr>team_alerts := delete_where (\<lambda>_ r. is_team_alert team item r) (team_alerts d), team_alert_seq := team_alert_seq d\<rparr>)"
    using assms(1) by (intro confined_team_alertsI indexed_delete_where rows_ok_delete_where indexed_keyed)
      (auto simp: alert_schema_def foreign_team_alerts_def is_team_alert_def intro!: filter_delete_where)
  then show ?thesis using assms(2) by (auto simp: delete_team_alert_def)
qed

text \<open>Every statement is confined to the team, hence every operation is, on every path.\<close>

lemma keeps_confined_exec_val:
  "(\<And>d d' n. confined team d0 d \<Longrightarrow> f d = Some (d', n) \<Longrightarrow> confined team d d') \<Longrightarrow>
     keeps (\<lambda>s. confined team d0 (db s)) (exec_db_val f)"
  by (rule keeps_exec_db_val) (blast intro: confined_trans)

lemma keeps_confined_exec:
  "(\<And>d d'. confined team d0 d \<Longrightarrow> f d = Some d' \<Longrightarrow> confined team d d') \<Longrightarrow> keeps (\<lambda>s. confined team d0 (db s)) (exec_db f)"
  by (rule keeps_exec_db) (blast intro: confined_trans)

lemma keeps_ofE [keeps_intros]: "keeps I (ofE r)"
  by (cases r) (simp_all add: ofE_def keeps_intros)

lemma UpsertServerAlert_confined: "keeps (\<lambda>s. confined team d0 (db s)) (UpsertServerAlert team sid item t d)"
  unfolding UpsertServerAlert_def
  by (intro keeps_intros keeps_confined_exec_val)
    (auto simp: upsert_selected_def split: if_splits intro: upsert_alert_confined confined_refl confined_schema)

lemma upsert_servers_confined:
  assumes "\<forall>sid \<in> set sids. in_team d0 team sid"
  shows "keeps (\<lambda>s. confined team d0 (db s)) (upsert_servers ow now item t d sids)"
  using assms
proof (induction sids)
  case (Cons sid sids)
  have "confined team e e'" if "confined team d0 e" "upsert_alert ow now sid item t d e = Some (e', n)" for e e' n
    using upsert_alert_confined [OF confined_schema [OF that(1)] _ that(2)] confined_in_team [OF that(1)] Cons.prems by simp
  then show ?case using Cons by (auto intro!: keeps_intros keeps_confined_exec_val)
qed (simp add: keeps_ret)

lemma team_servers_in_team:
  assumes "keyed (servers d)"
  shows "sid \<in> set (team_servers team d) \<longleftrightarrow> in_team d team sid"
proof -
  have "sid \<in> set (team_servers team d) \<longleftrightarrow> (\<exists>r. (sid, r) \<in> set (servers d) \<and> sv_team r = team)"
    by (force simp: team_servers_def)
  then show ?thesis by (auto simp: keyed_in_set_map_of [OF assms] in_team_def split: option.splits)
qed

lemma upsert_all_confined:
  "keeps (\<lambda>s. confined team d0 (db s)) (bindE (query_db (team_servers team)) (upsert_servers ow now item t d))"
proof (rule keeps_bind_query_db, rule upsert_servers_confined)
  fix e
  assume c: "confined team d0 e"
  then have "keyed (servers e)" using confined_schema by (simp add: alert_schema_def)
  then show "\<forall>sid \<in> set (team_servers team e). in_team d0 team sid"
    using confined_in_team [OF c] by (simp add: team_servers_in_team)
qed

lemma UpsertTeamAlert_confined: "keeps (\<lambda>s. confined team d0 (db s)) (UpsertTeamAlert team item t d ow)"
proof -
  have "keeps (\<lambda>s. confined team d0 (db s)) (bindE (exec_db (upsert_team_alert team item thr dur)) (\<lambda>_.
      bindE (query_db (team_servers team)) (upsert_servers ow now item thr dur)))" for thr dur now
    using upsert_team_alert_confined confined_schema
    by (blast intro: keeps_bindE keeps_confined_exec upsert_all_confined)
  note body = keeps_transaction_db [OF this]
  show ?thesis
    unfolding UpsertTeamAlert_def
    by (rule keeps_bindE [OF keeps_ofE], rule keeps_case_prod, rule keeps_bindE [OF keeps_db_time_now], rule body)
qed

lemma DeleteServerAlert_confined: "keeps (\<lambda>s. confined team d0 (db s)) (DeleteServerAlert team sid item)"
  unfolding DeleteServerAlert_def
  by (intro keeps_intros keeps_confined_exec_val) (auto simp: is_alert_def intro: delete_alerts_confined confined_schema)

lemma DeleteTeamAlert_confined: "keeps (\<lambda>s. confined team d0 (db s)) (DeleteTeamAlert team item ow)"
  unfolding DeleteTeamAlert_def
  by (intro keeps_intros keeps_confined_exec_val keeps_confined_exec)
    (auto intro: delete_alerts_confined delete_team_alert_confined confined_schema)


section \<open>What an upsert does\<close>

definition alert_at :: "alert_db \<Rightarrow> int \<Rightarrow> string \<Rightarrow> alert_row option" where
  "alert_at d sid item = map_option snd (find (\<lambda>(_, r). is_alert sid item r) (server_alerts d))"

lemma alert_at_iff:
  assumes "alert_schema d"
  shows "alert_at d sid item = Some r \<longleftrightarrow> (\<exists>i. map_of (server_alerts d) i = Some r \<and> alert_key r = (sid, item))"
proof -
  have ix: "indexed alert_key (alert_seq d) (server_alerts d)" using assms by (simp add: alert_schema_def)
  note key = indexed_keyed [OF ix]
  show ?thesis
  proof
    assume "alert_at d sid item = Some r"
    then obtain i where "find (\<lambda>(_, r). is_alert sid item r) (server_alerts d) = Some (i, r)" by (auto simp: alert_at_def)
    from find_in_set [OF this] show "\<exists>i. map_of (server_alerts d) i = Some r \<and> alert_key r = (sid, item)"
      by (auto simp: keyed_in_set_map_of [OF key] is_alert_iff)
  next
    assume "\<exists>i. map_of (server_alerts d) i = Some r \<and> alert_key r = (sid, item)"
    then obtain i where i: "map_of (server_alerts d) i = Some r" "alert_key r = (sid, item)" by blast
    then have "find (\<lambda>(_, r). is_alert sid item r) (server_alerts d) \<noteq> None"
      by (auto simp: find_None_iff is_alert_iff dest!: map_of_SomeD)
    then obtain j q where f: "find (\<lambda>(_, r). is_alert sid item r) (server_alerts d) = Some (j, q)" by auto
    from find_in_set [OF f] have "map_of (server_alerts d) j = Some q" "alert_key q = (sid, item)"
      by (auto simp: keyed_in_set_map_of [OF key] is_alert_iff)
    then have "j = i" using ix i unfolding indexed_def by metis
    then show "alert_at d sid item = Some r" using f i \<open>map_of (server_alerts d) j = Some q\<close> by (simp add: alert_at_def)
  qed
qed

text \<open>The row an upsert leaves: a new one, or the old one with or without the new configuration.\<close>

definition configured :: "bool \<Rightarrow> go_time \<Rightarrow> int \<Rightarrow> string \<Rightarrow> int \<Rightarrow> int \<Rightarrow> alert_row option \<Rightarrow> alert_row" where
  "configured upd now sid item thr dur old =
     (case old of
        None \<Rightarrow> \<lparr>al_server = sid, al_item = item, al_threshold = thr, al_for = dur, al_status = None, al_notify = now\<rparr>
      | Some r \<Rightarrow> if upd then r\<lparr>al_threshold := thr, al_for := dur\<rparr> else r)"

lemma find_map_entry:
  assumes "keyed t" "\<And>r. p (f r) = p r"
  shows "map_option snd (find (\<lambda>(_, r). p r) (AList.map_entry i f t)) =
    map_option (\<lambda>(j, r). if j = i then f r else r) (find (\<lambda>(_, r). p r) t)"
  using assms(1)
proof (induction t)
  case (Cons kv t)
  obtain k v where kv: "kv = (k, v)" by (cases kv)
  show ?case
  proof (cases "k = i \<and> \<not> p v")
    case True
    have "j \<noteq> i" if "find (\<lambda>(_, r). p r) t = Some (j, r)" for j r
      using Cons.prems True find_in_set [OF that] by (force simp: kv)
    with True assms(2) show ?thesis by (auto simp: kv option.map_comp intro!: option.map_cong)
  qed (use Cons assms(2) in \<open>auto simp: kv\<close>)
qed simp

lemma alert_at_map_entry:
  assumes d: "alert_schema d" and r: "map_of (server_alerts d) i = Some r" and f: "\<And>r. alert_key (f r) = alert_key r"
    and d': "server_alerts d' = AList.map_entry i f (server_alerts d)"
  shows "alert_at d' sid item = (if alert_key r = (sid, item) then Some (f r) else alert_at d sid item)"
proof -
  have ix: "indexed alert_key (alert_seq d) (server_alerts d)" using d by (simp add: alert_schema_def)
  note key = indexed_keyed [OF ix]
  have at: "alert_at d' sid item = map_option (\<lambda>(j, q). if j = i then f q else q) (find (\<lambda>(_, r). is_alert sid item r) (server_alerts d))"
    unfolding alert_at_def d' by (rule find_map_entry [OF key]) (simp add: is_alert_iff f)
  show ?thesis
  proof (cases "find (\<lambda>(_, r). is_alert sid item r) (server_alerts d)")
    case None
    moreover have "(i, r) \<in> set (server_alerts d)" using r by (rule map_of_SomeD)
    ultimately have "alert_key r \<noteq> (sid, item)" by (auto simp: find_None_iff is_alert_iff)
    with None show ?thesis unfolding at by (simp add: alert_at_def)
  next
    case (Some jq)
    obtain j q where jq: "jq = (j, q)" by (cases jq)
    have q: "map_of (server_alerts d) j = Some q" "alert_key q = (sid, item)"
      using find_in_set [OF Some] by (auto simp: jq keyed_in_set_map_of [OF key] is_alert_iff)
    have "j = i \<longleftrightarrow> alert_key r = (sid, item)"
    proof
      assume "j = i" then show "alert_key r = (sid, item)" using q r by simp
    next
      assume "alert_key r = (sid, item)" then show "j = i" using ix q r unfolding indexed_def by metis
    qed
    with q r show ?thesis unfolding at by (auto simp: alert_at_def Some jq)
  qed
qed

lemma upsert_alert_effect:
  assumes d: "alert_schema d" and up: "upsert_alert upd now sid item thr dur d = Some (d', n)"
  shows "alert_at d' sid' item' =
      (if sid' = sid \<and> item' = item then Some (configured upd now sid item thr dur (alert_at d sid item)) else alert_at d sid' item')"
    "n = (if upd \<or> alert_at d sid item = None then 1 else 0)"
proof -
  have b: "config_bounds item thr dur" using up by (auto simp: upsert_alert_def split: if_splits)
  have "alert_at d' sid' item' =
      (if sid' = sid \<and> item' = item then Some (configured upd now sid item thr dur (alert_at d sid item)) else alert_at d sid' item') \<and>
    n = (if upd \<or> alert_at d sid item = None then 1 else 0)"
  proof (cases "id_where (is_alert sid item) (server_alerts d)")
    case None
    have none: "alert_at d sid item = None" using None by (simp add: id_where_def alert_at_def)
    have d': "server_alerts d' = (alert_seq d + 1, configured upd now sid item thr dur None) # server_alerts d" "n = 1"
      using up b None by (auto simp: upsert_alert_def configured_def split: if_splits)
    then show ?thesis unfolding none by (auto simp: alert_at_def is_alert_def configured_def)
  next
    case (Some i)
    have key: "keyed (server_alerts d)" using d by (simp add: alert_schema_def indexed_def)
    obtain r where r: "map_of (server_alerts d) i = Some r" "is_alert sid item r" using id_where_Some [OF key Some] by blast
    have at: "alert_at d sid item = Some r" using r by (auto simp: alert_at_iff [OF d] is_alert_iff)
    show ?thesis
    proof (cases upd)
      case True
      then have d': "server_alerts d' = AList.map_entry i (\<lambda>r. r\<lparr>al_threshold := thr, al_for := dur\<rparr>) (server_alerts d)" "n = 1"
        using up b Some by (auto simp: upsert_alert_def)
      from alert_at_map_entry [OF d r(1) _ d'(1), of sid' item'] r(2) True d'(2) show ?thesis
        by (auto simp: alert_key_def is_alert_def configured_def at)
    next
      case False
      then have "d' = d" "n = 0" using up b Some by (auto simp: upsert_alert_def)
      then show ?thesis using False at by (auto simp: configured_def)
    qed
  qed
  then show "alert_at d' sid' item' =
      (if sid' = sid \<and> item' = item then Some (configured upd now sid item thr dur (alert_at d sid item)) else alert_at d sid' item')"
    "n = (if upd \<or> alert_at d sid item = None then 1 else 0)" by blast+
qed

lemma upsert_alert_team_alerts: "upsert_alert upd now sid item thr dur d = Some (d', n) \<Longrightarrow> team_alerts d' = team_alerts d"
  by (auto simp: upsert_alert_def split: if_splits option.splits)

lemma upsert_servers_effect:
  assumes "alert_schema (db s)" "distinct sids" "\<forall>sid \<in> set sids. in_team (db s) team sid"
    "upsert_servers ow now item thr dur sids s = (Inr n, u)"
  shows "(\<forall>sid' item'. alert_at (db u) sid' item' =
      (if item' = item \<and> sid' \<in> set sids then Some (configured ow now sid' item thr dur (alert_at (db s) sid' item))
       else alert_at (db s) sid' item')) \<and>
    n = int (length (filter (\<lambda>sid. ow \<or> alert_at (db s) sid item = None) sids)) \<and> team_alerts (db u) = team_alerts (db s)"
  using assms
proof (induction sids arbitrary: s n)
  case (Cons sid sids)
  from Cons.prems(4) obtain a t m where
    1: "exec_db_val (upsert_alert ow now sid item thr dur) s = (Inr a, t)" and
    2: "upsert_servers ow now item thr dur sids t = (Inr m, u)" and n: "n = a + m"
    by (auto simp: bindE_Inr_iff ret_def)
  from 1 have up: "upsert_alert ow now sid item thr dur (db s) = Some (db t, a)"
    by (auto simp: exec_db_val_Inr_iff)
  have c: "confined team (db s) (db t)"
    using upsert_alert_confined [OF Cons.prems(1) _ up] Cons.prems(3) by simp
  note ta = upsert_alert_team_alerts [OF up]
  note eff = upsert_alert_effect [OF Cons.prems(1) up]
  have same: "filter (\<lambda>x. ow \<or> alert_at (db t) x item = None) sids = filter (\<lambda>x. ow \<or> alert_at (db s) x item = None) sids"
    using Cons.prems(2) by (intro filter_cong) (auto simp: eff(1))
  from Cons.IH [OF confined_schema [OF c] _ _ 2] Cons.prems(2,3) confined_in_team [OF c]
  have IH: "\<forall>sid' item'. alert_at (db u) sid' item' =
      (if item' = item \<and> sid' \<in> set sids then Some (configured ow now sid' item thr dur (alert_at (db t) sid' item))
       else alert_at (db t) sid' item')"
    "m = int (length (filter (\<lambda>sid. ow \<or> alert_at (db t) sid item = None) sids))" "team_alerts (db u) = team_alerts (db t)" by auto
  have "m = int (length (filter (\<lambda>sid. ow \<or> alert_at (db s) sid item = None) sids))" using IH(2) unfolding same .
  then show ?case using IH(1,3) ta eff(2) Cons.prems(2) by (auto simp: eff(1) n)
qed (simp add: ret_def)


lemma upsert_team_alert_config:
  assumes "alert_schema d" "upsert_team_alert team item thr dur d = Some d'"
  shows "team_alert_config team item d' = Some (thr, dur)"
proof (cases "id_where (is_team_alert team item) (team_alerts d)")
  case None
  with assms(2) show ?thesis
    by (auto simp: upsert_team_alert_def team_alert_config_def is_team_alert_def split: if_splits)
next
  case (Some i)
  then obtain r where f: "find (\<lambda>(_, r). is_team_alert team item r) (team_alerts d) = Some (i, r)"
    by (auto simp: id_where_def)
  let ?f = "\<lambda>r. r\<lparr>ta_threshold := thr, ta_for := dur\<rparr>"
  have "map_option snd (find (\<lambda>(_, r). is_team_alert team item r) (AList.map_entry i ?f (team_alerts d))) = Some (?f r)"
    using find_map_entry [of "team_alerts d" "is_team_alert team item" ?f i] assms(1) f
    by (simp add: alert_schema_def indexed_def is_team_alert_def)
  moreover have "team_alerts d' = AList.map_entry i ?f (team_alerts d)"
    using assms(2) Some by (auto simp: upsert_team_alert_def split: if_splits)
  ultimately show ?thesis by (auto simp: team_alert_config_def)
qed

lemma UpsertTeamAlert_run:
  fixes s :: "(alert_db, 'z) dbenv_scheme"
  assumes "UpsertTeamAlert team item thr0 dur0 override s = (Inr n, u)"
  shows "\<exists>thr dur now d (w :: (alert_db, 'z) dbenv_scheme) v. normalizeAlertConfig item thr0 dur0 = Inr (thr, dur) \<and>
    upsert_team_alert team item thr dur (db s) = Some d \<and> db w = d \<and>
    upsert_servers override now item thr dur (team_servers team d) w = (Inr n, v) \<and> db u = db v"
proof -
  obtain thr dur where nc: "normalizeAlertConfig item thr0 dur0 = Inr (thr, dur)"
    using assms by (cases "normalizeAlertConfig item thr0 dur0") (auto simp: UpsertTeamAlert_def ofE_def bindE_run raise_def)
  let ?now = "clock s (reads s)" and ?s = "s\<lparr>reads := Suc (reads s)\<rparr>"
  have "transaction_db (bindE (exec_db (upsert_team_alert team item thr dur)) (\<lambda>_.
      bindE (query_db (team_servers team)) (upsert_servers override ?now item thr dur))) ?s = (Inr n, u)"
    using assms by (simp add: UpsertTeamAlert_def ofE_def nc bindE_run time_now_def ret_def)
  from transaction_db_atomic [OF this] obtain v where
    v: "bindE (exec_db (upsert_team_alert team item thr dur)) (\<lambda>_.
      bindE (query_db (team_servers team)) (upsert_servers override ?now item thr dur)) (?s\<lparr>calls := Suc (calls s)\<rparr>) = (Inr n, v)"
      "db u = db v" by auto
  from v(1) obtain d where d: "upsert_team_alert team item thr dur (db s) = Some d"
    "upsert_servers override ?now item thr dur (team_servers team d)
      (s\<lparr>reads := Suc (reads s), db := d, calls := Suc (Suc (Suc (calls s)))\<rparr>) = (Inr n, v)"
    by (auto simp: db_Inr_iffs)
  have "db (s\<lparr>reads := Suc (reads s), db := d, calls := Suc (Suc (Suc (calls s)))\<rparr>) = d" by simp
  with nc d v(2) show ?thesis by blast
qed

section \<open>Properties\<close>

text \<open>
  (C36) Tenant isolation of alert configuration. Whatever a member of a team sends to the two
  alert handlers and whichever database calls fail, the requests touch only the rules of that
  team and of its servers: the servers, the rules of other teams and of their servers are
  unchanged, and the tables keep their unique indexes, foreign keys and configuration bounds.
\<close>

theorem alert_requests_confined:
  fixes s :: "(alert_db, 'z) dbenv_scheme"
  assumes "alert_schema (db s)"
  shows "confined tid (db s) (db (snd (set_alert tid id_param item thr dur override s))) \<and>
    confined tid (db s) (db (snd (del_alert tid id_param item override s)))"
proof -
  let ?I = "\<lambda>t :: (alert_db, 'z) dbenv_scheme. confined tid (db s) (db t)"
  note ops = UpsertServerAlert_confined UpsertTeamAlert_confined DeleteServerAlert_confined DeleteTeamAlert_confined
  have "keeps ?I (set_alert tid id_param item thr dur override)" "keeps ?I (del_alert tid id_param item override)"
    unfolding set_alert_def del_alert_def Let_def by (intro keeps_intros ops)+
  then show ?thesis using confined_refl [OF assms] by (simp add: keeps_def)
qed

definition sample_alerts :: "alert_db dbenv" where
  "sample_alerts = \<lparr>calls = 0, outcomes = \<lambda>_. Done, reads = 0, clock = \<lambda>n. int n, team_seq = 0, tabs = sample_tables,
     db = \<lparr>team_ids = [7, 8],
       servers = [(1, \<lparr>sv_team = 7, sv_name = ''a''\<rparr>), (2, \<lparr>sv_team = 8, sv_name = ''b''\<rparr>), (3, \<lparr>sv_team = 7, sv_name = ''c''\<rparr>)],
       server_alerts =
         [(5, \<lparr>al_server = 2, al_item = ''cpu_usage'', al_threshold = 50, al_for = 5, al_status = None, al_notify = 0\<rparr>),
          (4, \<lparr>al_server = 1, al_item = ''cpu_usage'', al_threshold = 60, al_for = 5, al_status = Some True, al_notify = 0\<rparr>)],
       team_alerts = [], alert_seq = 5, team_alert_seq = 0, server_infos = [], teams_notifications = []\<rparr>\<rparr>"

lemma sample_alerts_schema: "alert_schema (db sample_alerts)"
  by (auto simp: alert_schema_def sample_alerts_def indexed_def rows_ok_def alert_key_def alert_row_ok_def has_key_def
      config_bounds_def split: if_splits)

theorem alert_requests_confined_witness:
  "fst (del_alert 7 ''2'' ''cpu_usage'' '''' sample_alerts) = Inr (200, ''ok'', 1) \<and>
   foreign_alerts 7 (db (snd (del_alert 7 ''2'' ''cpu_usage'' '''' sample_alerts))) = foreign_alerts 7 (db sample_alerts) \<and>
   alert_schema (db (snd (set_alert 7 ''1'' ''cpu_usage'' ''80'' ''10'' '''' sample_alerts)))"
proof -
  have "fst (del_alert 7 ''2'' ''cpu_usage'' '''' sample_alerts) = Inr (200, ''ok'', 1)" by code_simp
  with alert_requests_confined [OF sample_alerts_schema, of 7 "''2''" "''cpu_usage''" "''80''" "''10''" "''''"]
    alert_requests_confined [OF sample_alerts_schema, of 7 "''1''" "''cpu_usage''" "''80''" "''10''" "''''"]
  show ?thesis by (simp add: confined_def)
qed

text \<open>
  Alert rules of a team. A successful update of a team rule stores the configuration for the
  team and for exactly the servers of the team: a server without the rule gets it, with no status
  yet; a server that has it takes over the new configuration only when the update overrides, and
  keeps its status. All other rules are unchanged, and the answer counts the servers affected.
\<close>

theorem UpsertTeamAlert_correct:
  fixes s :: "(alert_db, 'z) dbenv_scheme"
  assumes "alert_schema (db s)" "UpsertTeamAlert team item thr0 dur0 override s = (Inr n, u)"
  shows "\<exists>thr dur now. normalizeAlertConfig item thr0 dur0 = Inr (thr, dur) \<and>
    team_alert_config team item (db u) = Some (thr, dur) \<and>
    (\<forall>sid' item'. alert_at (db u) sid' item' =
       (if item' = item \<and> in_team (db s) team sid'
        then Some (configured override now sid' item thr dur (alert_at (db s) sid' item)) else alert_at (db s) sid' item')) \<and>
    n = int (length (filter (\<lambda>sid. override \<or> alert_at (db s) sid item = None) (team_servers team (db s))))"
proof -
  from UpsertTeamAlert_run [OF assms(2)] obtain thr dur now d and w v :: "(alert_db, 'z) dbenv_scheme" where
    nc: "normalizeAlertConfig item thr0 dur0 = Inr (thr, dur)" and d: "upsert_team_alert team item thr dur (db s) = Some d" and
    w: "db w = d" and up: "upsert_servers override now item thr dur (team_servers team d) w = (Inr n, v)" and v: "db u = db v"
    by blast
  note c = upsert_team_alert_confined [OF assms(1) d]
  have keyd: "keyed (servers d)" using confined_schema [OF c] by (simp add: alert_schema_def)
  have ts: "team_servers team d = team_servers team (db s)" using c by (simp add: team_servers_def confined_def)
  have dist: "distinct (team_servers team d)" using keyd by (simp add: team_servers_def)
  have at: "alert_at d = alert_at (db s)"
    using d by (intro ext) (auto simp: upsert_team_alert_def alert_at_def split: if_splits option.splits)
  have eff: "(\<forall>sid' item'. alert_at (db v) sid' item' =
      (if item' = item \<and> sid' \<in> set (team_servers team d) then Some (configured override now sid' item thr dur (alert_at d sid' item))
       else alert_at d sid' item')) \<and>
    n = int (length (filter (\<lambda>sid. override \<or> alert_at d sid item = None) (team_servers team d))) \<and> team_alerts (db v) = team_alerts d"
    using upsert_servers_effect [of w "team_servers team d" team, OF _ dist _ up] confined_schema [OF c]
    by (simp add: w team_servers_in_team [OF keyd])
  have "team_alert_config team item d = Some (thr, dur)" by (rule upsert_team_alert_config [OF assms(1) d])
  then have "team_alert_config team item (db u) = Some (thr, dur)" using eff v by (simp add: team_alert_config_def)
  moreover have "sid' \<in> set (team_servers team d) \<longleftrightarrow> in_team (db s) team sid'" for sid'
    using team_servers_in_team [OF keyd] confined_in_team [OF c] by simp
  ultimately show ?thesis using nc eff v unfolding at [symmetric] ts [symmetric] by (intro exI conjI) auto
qed


theorem UpsertTeamAlert_correct_witness:
  "alert_at (db (snd (UpsertTeamAlert 7 ''cpu_usage'' 80 10 False sample_alerts))) 1 ''cpu_usage'' =
     alert_at (db sample_alerts) 1 ''cpu_usage'' \<and>
   map_option al_threshold (alert_at (db (snd (UpsertTeamAlert 7 ''cpu_usage'' 80 10 False sample_alerts))) 3 ''cpu_usage'') = Some 80 \<and>
   alert_at (db (snd (UpsertTeamAlert 7 ''cpu_usage'' 80 10 False sample_alerts))) 2 ''cpu_usage'' =
     alert_at (db sample_alerts) 2 ''cpu_usage''"
proof -
  have run: "UpsertTeamAlert 7 ''cpu_usage'' 80 10 False sample_alerts =
      (Inr 1, snd (UpsertTeamAlert 7 ''cpu_usage'' 80 10 False sample_alerts))"
  proof -
    have "fst (UpsertTeamAlert 7 ''cpu_usage'' 80 10 False sample_alerts) = Inr 1" by code_simp
    then show ?thesis by (metis prod.collapse)
  qed
  have in_t: "in_team (db sample_alerts) 7 1" "in_team (db sample_alerts) 7 3" "\<not> in_team (db sample_alerts) 7 2"
    and at: "alert_at (db sample_alerts) 3 ''cpu_usage'' = None" "alert_at (db sample_alerts) 1 ''cpu_usage'' \<noteq> None"
    and nc: "normalizeAlertConfig ''cpu_usage'' 80 10 = Inr (80, 10)" by code_simp+
  from UpsertTeamAlert_correct [OF sample_alerts_schema run] nc in_t at show ?thesis
    by (auto simp: configured_def)
qed

end
