(* ===== verification/Alert_Run.thy ===== *)
theory Alert_Run
  imports Alert_Config
begin

text \<open>
  A run of the alert evaluation (\<open>internal/task/alerts/run.go\<close> and \<open>server.go\<close>): the rules of all
  teams are read, their observations loaded, every rule is evaluated, and the outcome is stored
  team by team. The orders in which Go iterates the maps are parameters.
\<close>

declare map_of_eq_Some_iff [simp del]

section \<open>Reading the rules\<close>

record alertRow =
  row_team :: int
  row_id :: int
  row_alert :: alert_row
  row_name :: string
  row_info :: "serverExpiryInfo option"

text \<open>The join of \<open>server_alerts\<close> with \<open>servers\<close> and, where there is one, the row of \<open>server_info\<close>.\<close>

definition alert_rows :: "alert_db \<Rightarrow> alertRow list" where
  "alert_rows d =
     concat (map (\<lambda>(i, r). case map_of (servers d) (al_server r) of
         None \<Rightarrow> []
       | Some sv \<Rightarrow> [\<lparr>row_team = sv_team sv, row_id = i, row_alert = r, row_name = sv_name sv,
                     row_info = map_of (server_infos d) (al_server r)\<rparr>]) (server_alerts d))"

definition rule_of_row :: "alertRow \<Rightarrow> ServerAlert" where
  "rule_of_row w = (let r = row_alert w in
     \<lparr>ID = row_id w, Item = al_item r, Threshold = al_threshold r, ForDuration = al_for r,
      LastStatus = al_status r, LastNotifyAt = Some (al_notify r)\<rparr>)"

definition expiry_of_row :: "alertRow \<Rightarrow> serverExpiryInfo" where
  "expiry_of_row w = (case row_info w of None \<Rightarrow> \<lparr>EndTime = None, AutoRenew = False\<rparr> | Some i \<Rightarrow> i)"

definition add_row ::
  "alertRow \<Rightarrow> team_rules \<times> (int, string) table \<times> (int, serverExpiryInfo) table \<Rightarrow>
   team_rules \<times> (int, string) table \<times> (int, serverExpiryInfo) table" where
  "add_row w = (\<lambda>(alerts, serverMap, expiryMap).
     let r = row_alert w; rs = (case map_of alerts (row_team w) of None \<Rightarrow> [] | Some x \<Rightarrow> x) in
     (AList.update (row_team w) (put_rule (al_server r) (al_item r) (rule_of_row w) rs) alerts,
      AList.update (al_server r) (row_name w) serverMap,
      AList.update (al_server r) (expiry_of_row w) expiryMap))"

definition allServerAlerts ::
  "('z, team_rules \<times> (int, string) table \<times> (int, serverExpiryInfo) table) alerts_io" where
  "allServerAlerts = bindE (query_db alert_rows) (\<lambda>rows. ret (fold add_row rows ([], [], [])))"

definition teamNotificationsByIds :: "int list \<Rightarrow> ('z, (int, TeamNotification list) table) alerts_io" where
  "teamNotificationsByIds teamIds =
     (if teamIds = [] then ret []
      else bindE (query_db (\<lambda>d. filter (\<lambda>(t, _). t \<in> set teamIds) (teams_notifications d))) (\<lambda>rows.
        ret (fold (\<lambda>(t, n) m. AList.update t ((case map_of m t of None \<Rightarrow> [] | Some ns \<Rightarrow> ns) @ [n]) m) rows [])))"

section \<open>Evaluating a rule\<close>

definition setObservationForRule :: "alertObservationSet \<Rightarrow> int \<Rightarrow> string \<Rightarrow> alertInstance \<Rightarrow> alertInstance \<times> bool" where
  "setObservationForRule os sid item a =
     (let a0 = a\<lparr>observation := no_observation\<rparr> in
      if item = alertItemExpiry \<or> item = AlertItemSSHLogin then (a0, True)
      else case get_observation os sid item of (ob, ok) \<Rightarrow> (if ok then (a0\<lparr>observation := ob\<rparr>, True) else (a0, False)))"

definition alertStateEqual :: "bool option \<Rightarrow> bool option \<Rightarrow> go_time option \<Rightarrow> go_time option \<Rightarrow> bool" where
  "alertStateEqual oldStatus newStatus oldNotifyAt newNotifyAt =
     (if (case (oldStatus, newStatus) of (Some x, Some y) \<Rightarrow> x \<noteq> y | (None, None) \<Rightarrow> False | _ \<Rightarrow> True) then False
      else case (oldNotifyAt, newNotifyAt) of (Some x, Some y) \<Rightarrow> x = y | (None, None) \<Rightarrow> True | _ \<Rightarrow> False)"

text \<open>The switch on the item; \<open>None\<close> is its default branch.\<close>

definition evaluate ::
  "(alert_db, 'z) alert_world \<Rightarrow> alertInstance \<Rightarrow> int \<Rightarrow> string \<Rightarrow> alertRule \<Rightarrow>
   ('z, (bool option \<times> go_time option) option) alerts_io" where
  "evaluate W a sid item r =
     (if item = alertItemStatus then bindE (checkStatusAlert W a sid r) (\<lambda>x. ret (Some x))
      else if item = alertItemCPU then bindE (checkCPUUsageAlert W a sid r) (\<lambda>x. ret (Some x))
      else if item = alertItemMemory then bindE (checkMemoryUsageAlert W a sid r) (\<lambda>x. ret (Some x))
      else if item = alertItemDisk then bindE (checkDiskUsageAlert W a sid r) (\<lambda>x. ret (Some x))
      else if item = alertItemReadIOPS then bindE (checkReadIOPSAlert W a sid r) (\<lambda>x. ret (Some x))
      else if item = alertItemWriteIOPS then bindE (checkWriteIOPSAlert W a sid r) (\<lambda>x. ret (Some x))
      else if item = alertItemBandwidth then bindE (checkBandwidthAlert W a sid r) (\<lambda>x. ret (Some x))
      else if item = alertItemExpiry then bindE (checkExpiryReminderAlert W a sid r) (\<lambda>x. ret (Some x))
      else ret None)"

record alertRuleUpdate =
  upd_id :: int
  upd_lastStatus :: "bool option"
  upd_lastNotifyAt :: "go_time option"

definition rule_of_alert :: "ServerAlert \<Rightarrow> alertRule" where
  "rule_of_alert sa = \<lparr>rule_id = ID sa, threshold = Threshold sa, forDuration = ForDuration sa,
     lastStatus = LastStatus sa, lastNotifyAt = LastNotifyAt sa\<rparr>"

text \<open>
  The state of the loops: the queue of updates of the team, and the rules skipped so far by item.
\<close>

definition evaluate_rule ::
  "(alert_db, 'z) alert_world \<Rightarrow> alertObservationSet \<Rightarrow> alertInstance \<Rightarrow> int \<Rightarrow> string \<Rightarrow> ServerAlert \<Rightarrow>
   alertRuleUpdate list \<times> (string, int) table \<Rightarrow> ('z, alertRuleUpdate list \<times> (string, int) table) alerts_io" where
  "evaluate_rule W os a sid item sa = (\<lambda>(queue, skipped).
     case setObservationForRule os sid item a of (a', ok) \<Rightarrow>
       if \<not> ok then ret (queue, AList.update item ((case map_of skipped item of None \<Rightarrow> 0 | Some n \<Rightarrow> n) + 1) skipped)
       else bindE (evaluate W a' sid item (rule_of_alert sa)) (\<lambda>res. case res of
           None \<Rightarrow> ret (queue, skipped)
         | Some (ls, lt) \<Rightarrow>
             if alertStateEqual (LastStatus sa) ls (LastNotifyAt sa) lt then ret (queue, skipped)
             else ret (queue @ [\<lparr>upd_id = ID sa, upd_lastStatus = ls, upd_lastNotifyAt = lt\<rparr>], skipped)))"

text \<open>A loop over the keys of a map, in the order given.\<close>

fun over_keys :: "'k list \<Rightarrow> ('k, 'v) table \<Rightarrow> ('k \<Rightarrow> 'v \<Rightarrow> 'a \<Rightarrow> ('s, 'e, 'a) io) \<Rightarrow> 'a \<Rightarrow> ('s, 'e, 'a) io" where
  "over_keys [] m f acc = ret acc"
| "over_keys (k # ks) m f acc =
     (case map_of m k of
        None \<Rightarrow> over_keys ks m f acc
      | Some v \<Rightarrow> bindE (f k v acc) (\<lambda>acc. over_keys ks m f acc))"

record run_orders =
  team_order :: "int list \<Rightarrow> int list"
  server_order :: "int list \<Rightarrow> int list"
  item_order :: "string list \<Rightarrow> string list"

definition evaluate_server ::
  "(alert_db, 'z) alert_world \<Rightarrow> run_orders \<Rightarrow> alertObservationSet \<Rightarrow> alertInstance \<Rightarrow> int \<Rightarrow> rules \<Rightarrow>
   alertRuleUpdate list \<times> (string, int) table \<Rightarrow> ('z, alertRuleUpdate list \<times> (string, int) table) alerts_io" where
  "evaluate_server W RO os a sid serverRules =
     over_keys (item_order RO (map fst serverRules)) serverRules (evaluate_rule W os a sid)"

section \<open>Storing the outcome\<close>

definition set_alert_status :: "alertRuleUpdate \<Rightarrow> alert_db \<Rightarrow> alert_db option" where
  "set_alert_status u d =
     (case map_of (server_alerts d) (upd_id u) of
        None \<Rightarrow> Some d
      | Some r \<Rightarrow>
          if al_status r = upd_lastStatus u \<and> Some (al_notify r) = upd_lastNotifyAt u then Some d
          else case upd_lastNotifyAt u of
            None \<Rightarrow> None
          | Some t \<Rightarrow>
              Some (d\<lparr>server_alerts :=
                AList.map_entry (upd_id u) (\<lambda>r. r\<lparr>al_status := upd_lastStatus u, al_notify := t\<rparr>) (server_alerts d)\<rparr>))"

definition updateRuleStatus :: "alertRuleUpdate list \<Rightarrow> ('z, unit) alerts_io" where
  "updateRuleStatus queue =
     (if queue = [] then ret ()
      else transaction_db (forE queue (\<lambda>u. exec_db (set_alert_status u))))"

definition run_team ::
  "(alert_db, 'z) alert_world \<Rightarrow> run_orders \<Rightarrow> alertObservationSet \<Rightarrow> (int, string) table \<Rightarrow> (int, serverExpiryInfo) table \<Rightarrow>
   (int, TeamNotification list) table \<Rightarrow> int \<Rightarrow> server_rules \<Rightarrow> (string, int) table \<Rightarrow> ('z, (string, int) table) alerts_io" where
  "run_team W RO os sm em nm teamId rules skipped =
     (if rules = [] then ret skipped
      else
        let a = \<lparr>serverMap = sm, expiryMap = em,
                 notifications = (case map_of nm teamId of None \<Rightarrow> [] | Some ns \<Rightarrow> ns), observation = no_observation\<rparr> in
        bindE (over_keys (server_order RO (map fst rules)) rules (evaluate_server W RO os a) ([], skipped)) (\<lambda>(queue, skipped).
        tryE (updateRuleStatus queue) (\<lambda>_. ret skipped)))"

definition skippedAlertRulesMessage :: "(string, int) table \<Rightarrow> alertObservationSet \<Rightarrow> string" where
  "skippedAlertRulesMessage skipped os =
     (let items = sort (map fst skipped);
          counts = map (\<lambda>item. item @ ''='' @ itoa (the (map_of skipped item))) items in
      ''alert evaluation skipped '' @ itoa (sum_list (map snd skipped)) @ '' rules with unavailable observations ('' @
      join '', '' counts @ ''; query_failures='' @ itoa (queryFailures os) @ '' invalid_durations='' @
      itoa (invalidDurations os) @ '' load_stopped='' @ (if loadStopped os then ''true'' else ''false'') @ '')'')"

text \<open>The run; what it returns is the line it logs about skipped rules, if any.\<close>

definition Run ::
  "(alert_db, 'z) alert_world \<Rightarrow> (alert_db, 'z) dbenv_scheme alert_source \<Rightarrow> run_orders \<Rightarrow> ('z, string option) alerts_io" where
  "Run W A RO =
     tryE allServerAlerts (\<lambda>r. case r of
       Inl _ \<Rightarrow> ret None
     | Inr (rulesMap, sm, em) \<Rightarrow>
         if rulesMap = [] then ret None
         else
           let teamIds = team_order RO (map fst rulesMap) in
           tryE (teamNotificationsByIds teamIds) (\<lambda>r. case r of
             Inl _ \<Rightarrow> ret None
           | Inr nm \<Rightarrow>
               bindE time_now (\<lambda>now.
               bindE (\<lambda>s. case loadAlertObservations A rulesMap now s of (os, t) \<Rightarrow> (Inr os, t)) (\<lambda>os.
               bindE (over_keys teamIds rulesMap (run_team W RO os sm em nm) []) (\<lambda>skipped.
               if skipped \<noteq> [] then ret (Some (skippedAlertRulesMessage skipped os)) else ret None)))))"


section \<open>One rule for all items\<close>

lemma bindE_time_now: "bindE time_now f s = f (clock s (reads s)) (s\<lparr>reads := Suc (reads s)\<rparr>)"
  by (simp add: bindE_run time_now_def)

text \<open>
  Whether the condition of a rule holds, the status the rule is to remember (for the status item:
  that the server is up), and whether a notification is due.
\<close>

definition expiring :: "alertInstance \<Rightarrow> int \<Rightarrow> alertRule \<Rightarrow> go_time \<Rightarrow> bool" where
  "expiring a sid r now =
     (case map_of (expiryMap a) sid of
        None \<Rightarrow> False
      | Some info \<Rightarrow>
          (case EndTime info of
             None \<Rightarrow> False
           | Some e \<Rightarrow> \<not> AutoRenew info \<and> 0 < time_sub e now \<and> time_sub e now \<le> wrap64 (threshold r * 24 * hour)))"

definition new_status :: "alertInstance \<Rightarrow> int \<Rightarrow> string \<Rightarrow> alertRule \<Rightarrow> go_time \<Rightarrow> bool" where
  "new_status a sid item r now =
     (if item = alertItemStatus then present (observation a)
      else if item = alertItemExpiry then expiring a sid r now
      else present (observation a) \<and> obs_value (observation a) \<ge> of_int (threshold r))"

definition notification_due :: "alertInstance \<Rightarrow> int \<Rightarrow> string \<Rightarrow> alertRule \<Rightarrow> go_time \<Rightarrow> bool" where
  "notification_due a sid item r now =
     (if item = alertItemStatus then
        lastStatus r = Some (\<not> present (observation a)) \<or> lastStatus r = None \<and> \<not> present (observation a)
      else new_status a sid item r now \<and>
        (lastStatus r \<noteq> Some True \<or>
         item \<noteq> alertItemExpiry \<and> (case lastNotifyAt r of None \<Rightarrow> True | Some t \<Rightarrow> time_sub now t > hour)))"

text \<open>Only the clock was read.\<close>

definition only_clock :: "('z env_scheme) \<Rightarrow> 'z env_scheme \<Rightarrow> bool" where
  "only_clock s t \<longleftrightarrow> (\<exists>k. t = s\<lparr>reads := k\<rparr>)"

lemma only_clock_refl [simp]: "only_clock s s"
  by (simp add: only_clock_def) (metis env.surjective env.update_convs(3))

lemma only_clock_read [simp]: "only_clock s (s\<lparr>reads := k\<rparr>)"
  by (auto simp: only_clock_def)

definition remembered :: "alertRule \<Rightarrow> bool \<Rightarrow> Delivery \<Rightarrow> go_time \<Rightarrow> bool option \<times> go_time option" where
  "remembered r new d now =
     (if Delivered d then (Some new, Some now)
      else if Attempted d then (lastStatus r, lastNotifyAt r)
      else (Some new, lastNotifyAt r))"

definition settles ::
  "(alert_db, 'z) alert_world \<Rightarrow> alertInstance \<Rightarrow> int \<Rightarrow> alertRule \<Rightarrow> bool \<Rightarrow> bool \<Rightarrow> (alert_db, 'z) dbenv_scheme \<Rightarrow>
   err + (bool option \<times> go_time option) \<Rightarrow> (alert_db, 'z) dbenv_scheme \<Rightarrow> bool" where
  "settles W a sid r new due s res t \<longleftrightarrow>
     (if due then \<exists>title msg s' d u. only_clock s s' \<and> notifyAll W a sid title msg s' = (Inr d, u) \<and>
        res = Inr (remembered r new d (clock u (reads u))) \<and> only_clock u t
      else res = Inr (Some new, lastNotifyAt r) \<and> only_clock s t)"

lemma notifyAll_Inr: "\<exists>d. fst (notifyAll W a sid title msg s) = Inr d"
proof -
  have "\<exists>d. fst (deliver_loop T e tx ns d0 s) = Inr d" if "Delivered d0 \<longrightarrow> Attempted d0" for T e tx ns d0 and s :: "('a, 'b) dbenv_scheme"
    using deliver_loop_delivered [OF prod.collapse [symmetric] that, of T e tx ns s] by metis
  then show ?thesis
    by (simp add: notifyAll_def Deliver_def io_simps split_beta Let_def)
qed

lemma settle_settles:
  assumes "bindE (notifyAll W a sid title msg) (settle r new) s' = (res, t)" "only_clock s s'"
  shows "settles W a sid r new True s res t"
proof -
  obtain d u where n: "notifyAll W a sid title msg s' = (Inr d, u)"
    using notifyAll_Inr by (metis prod.collapse)
  have "res = Inr (remembered r new d (clock u (reads u))) \<and> only_clock u t"
    using assms(1) by (auto simp: bindE_run n settle_def remembered_def time_now_def io_simps split: if_splits)
  then show ?thesis using n assms(2) unfolding settles_def if_True by blast
qed

lemma quiet_settles: "ret (Some new, lastNotifyAt r) s' = (res, t) \<Longrightarrow> only_clock s s' \<Longrightarrow> settles W a sid r new False s res t"
  by (auto simp: settles_def ret_def)

text \<open>The common shape of the metric checks.\<close>

lemma shouldNotify_run:
  "shouldNotify current r s = (Inr due, t) \<Longrightarrow>
     only_clock s t \<and> (due \<longleftrightarrow> current \<and> (lastStatus r \<noteq> Some True \<or>
       (case lastNotifyAt r of None \<Rightarrow> True | Some n \<Rightarrow> time_sub (clock s (reads s)) n > hour)))"
  by (auto simp: shouldNotify_def time_now_def io_simps split: if_splits option.splits)

lemma shouldNotify_Inr: "\<exists>due. fst (shouldNotify current r s) = Inr due"
  by (auto simp: shouldNotify_def time_now_def io_simps split: option.splits)

definition metric_check ::
  "(alert_db, 'z) alert_world \<Rightarrow> alertInstance \<Rightarrow> int \<Rightarrow> string \<Rightarrow> string \<Rightarrow> alertRule \<Rightarrow>
   ('z, bool option \<times> go_time option) alerts_io" where
  "metric_check W a sid title msg r =
     (if \<not> present (observation a) then ret (Some False, lastNotifyAt r)
      else bindE (shouldNotify (obs_value (observation a) \<ge> of_int (threshold r)) r) (\<lambda>due.
        if due then bindE (notifyAll W a sid title msg) (settle r (obs_value (observation a) \<ge> of_int (threshold r)))
        else ret (Some (obs_value (observation a) \<ge> of_int (threshold r)), lastNotifyAt r)))"

lemma metric_settles:
  assumes run: "metric_check W a sid title msg r s = (res, t)"
    and item: "item \<noteq> alertItemStatus" "item \<noteq> alertItemExpiry"
  shows "settles W a sid r (new_status a sid item r (clock s (reads s))) (notification_due a sid item r (clock s (reads s))) s res t"
proof (cases "present (observation a)")
  case False
  with run item show ?thesis by (simp add: metric_check_def new_status_def notification_due_def quiet_settles)
next
  case True
  let ?c = "obs_value (observation a) \<ge> of_int (threshold r)"
  have new: "new_status a sid item r now = ?c" for now using True item by (simp add: new_status_def)
  obtain due s' where d: "shouldNotify ?c r s = (Inr due, s')" using shouldNotify_Inr by (metis prod.collapse)
  note sn = shouldNotify_run [OF d]
  have due: "notification_due a sid item r (clock s (reads s)) = due"
    using sn item by (simp add: notification_due_def new)
  have "(if due then bindE (notifyAll W a sid title msg) (settle r ?c) else ret (Some ?c, lastNotifyAt r)) s' = (res, t)"
    using run True by (simp add: metric_check_def bindE_run d)
  then show ?thesis unfolding new due using sn settle_settles quiet_settles by (cases due) auto
qed


lemma status_settles:
  assumes "checkStatusAlert W a sid r s = (res, t)"
  shows "settles W a sid r (new_status a sid alertItemStatus r now) (notification_due a sid alertItemStatus r now) s res t"
proof -
  let ?p = "present (observation a)"
  have new: "new_status a sid alertItemStatus r now = ?p" by (simp add: new_status_def)
  have due: "notification_due a sid alertItemStatus r now \<longleftrightarrow> statusNotificationFor (lastStatus r) ?p \<noteq> NotifyNone"
    by (auto simp: notification_due_def statusNotificationFor_def split: option.splits)
  show ?thesis
  proof (cases "statusNotificationFor (lastStatus r) ?p")
    case NotifyNone
    with assms show ?thesis unfolding new due by (simp add: checkStatusAlert_def Let_def quiet_settles)
  next
    case NotifyDown
    with assms show ?thesis
      unfolding new due by (simp add: checkStatusAlert_def Let_def settle_settles [OF _ only_clock_refl])
  next
    case NotifyUp
    with assms show ?thesis
      unfolding new due by (simp add: checkStatusAlert_def Let_def settle_settles [OF _ only_clock_refl])
  qed
qed

lemma expiry_settles:
  assumes run: "checkExpiryReminderAlert W a sid r s = (res, t)"
  shows "settles W a sid r (new_status a sid alertItemExpiry r (clock s (reads s)))
    (notification_due a sid alertItemExpiry r (clock s (reads s))) s res t"
proof -
  let ?now = "clock s (reads s)"
  have new: "new_status a sid alertItemExpiry r ?now = expiring a sid r ?now" by (simp add: new_status_def)
  have due: "notification_due a sid alertItemExpiry r ?now \<longleftrightarrow> expiring a sid r ?now \<and> lastStatus r \<noteq> Some True"
    by (simp add: notification_due_def new)
  show ?thesis
  proof (cases "\<exists>info e. map_of (expiryMap a) sid = Some info \<and> EndTime info = Some e \<and> \<not> AutoRenew info")
    case False
    then have "\<not> expiring a sid r ?now" "ret (Some False, lastNotifyAt r) s = (res, t)"
      using run by (auto simp: expiring_def checkExpiryReminderAlert_def split: option.splits if_splits)
    then show ?thesis unfolding new due by (simp add: quiet_settles)
  next
    case True
    then obtain info e where i: "map_of (expiryMap a) sid = Some info" "EndTime info = Some e" "\<not> AutoRenew info" by blast
    let ?s = "s\<lparr>reads := Suc (reads s)\<rparr>"
    have c: "expiring a sid r ?now \<longleftrightarrow> 0 < time_sub e ?now \<and> time_sub e ?now \<le> wrap64 (threshold r * 24 * hour)"
      using i by (simp add: expiring_def)
    let ?msg = "''This server is not set to auto-renew and will expire in '' @ itoa (days_left (time_sub e ?now)) @
      '' day(s) on '' @ format_date W e @ ''.''"
    have "(if \<not> expiring a sid r ?now then ret (Some False, lastNotifyAt r)
        else if lastStatus r = Some True then ret (Some True, lastNotifyAt r)
        else bindE (notifyAll W a sid ''Server expiry reminder'' ?msg) (settle r True)) ?s = (res, t)"
      using run i unfolding c checkExpiryReminderAlert_def by (simp add: bindE_time_now Let_def del: append_Cons)
    then show ?thesis
      unfolding new due
      by (auto simp: quiet_settles settle_settles split: if_splits)
  qed
qed

text \<open>The evaluation of a rule, whichever item it has.\<close>

lemma checks_metric:
  "\<exists>title msg. checkCPUUsageAlert W a sid r = metric_check W a sid title msg r"
  "\<exists>title msg. checkMemoryUsageAlert W a sid r = metric_check W a sid title msg r"
  "\<exists>title msg. checkDiskUsageAlert W a sid r = metric_check W a sid title msg r"
  "\<exists>title msg. checkReadIOPSAlert W a sid r = metric_check W a sid title msg r"
  "\<exists>title msg. checkWriteIOPSAlert W a sid r = metric_check W a sid title msg r"
  "\<exists>title msg. checkBandwidthAlert W a sid r = metric_check W a sid title msg r"
  unfolding checkCPUUsageAlert_def checkMemoryUsageAlert_def checkReadIOPSAlert_def checkWriteIOPSAlert_def
    checkBandwidthAlert_def checkMetricAlert_def checkDiskUsageAlert_def metric_check_def Let_def
  by (rule exI, rule exI, rule refl)+

lemma switch_cases:
  assumes "item \<in> {a, b, d, e, f, g, h}" "item \<noteq> a" "v = (if item = a then x0 else if item = b then x1 else if item = d then x2
    else if item = e then x3 else if item = f then x4 else if item = g then x5 else if item = h then x6 else y)"
  shows "v \<in> {x1, x2, x3, x4, x5, x6}"
  using assms by auto

lemma evaluate_metric:
  assumes "item \<in> set influxAlertItems" "item \<noteq> alertItemStatus"
  shows "\<exists>title msg. evaluate W a sid item r = bindE (metric_check W a sid title msg r) (\<lambda>x. ret (Some x))"
proof -
  have "item \<in> {alertItemStatus, alertItemCPU, alertItemMemory, alertItemDisk, alertItemReadIOPS, alertItemWriteIOPS,
      alertItemBandwidth}" using assms(1) unfolding influxAlertItems_def set_simps .
  from switch_cases [OF this assms(2) evaluate_def [of W a sid item r]] checks_metric [of W a sid r] show ?thesis
    unfolding insert_iff empty_iff by metis
qed

lemma evaluate_settles:
  fixes s :: "(alert_db, 'z) dbenv_scheme"
  assumes run: "evaluate W a sid item r s = (res, t)" and item: "item \<in> set (alertItemExpiry # influxAlertItems)"
  shows "\<exists>res'. settles W a sid r (new_status a sid item r (clock s (reads s)))
      (notification_due a sid item r (clock s (reads s))) s res' t \<and> res = map_sum id Some res'"
proof -
  have lift: "\<exists>res'. check s = (res', t) \<and> res = map_sum id Some res'"
    if "bindE check (\<lambda>x. ret (Some x)) s = (res, t)" for check :: "('z, bool option \<times> go_time option) alerts_io"
    using that by (auto simp: bindE_run ret_def split: prod.splits sum.splits)
  consider "item = alertItemStatus" | "item = alertItemExpiry" |
    "item \<noteq> alertItemStatus" "item \<noteq> alertItemExpiry" "item \<in> set influxAlertItems"
    using item by auto
  then show ?thesis
  proof cases
    case 1
    have "evaluate W a sid item r = bindE (checkStatusAlert W a sid r) (\<lambda>x. ret (Some x))"
      unfolding evaluate_def 1 by simp
    with lift run status_settles show ?thesis unfolding 1 by metis
  next
    case 2
    have "evaluate W a sid item r = bindE (checkExpiryReminderAlert W a sid r) (\<lambda>x. ret (Some x))"
      unfolding evaluate_def 2 by simp
    with lift run expiry_settles show ?thesis unfolding 2 by metis
  next
    case 3
    from evaluate_metric [OF 3(3,1)] lift run metric_settles [OF _ 3(1,2)] show ?thesis by metis
  qed
qed


section \<open>What a run may change\<close>

text \<open>The transports and the queries do not write the tables.\<close>

definition quiet_world :: "(alert_db, 'z) alert_world \<Rightarrow> bool" where
  "quiet_world W \<longleftrightarrow> (\<forall>to content s. db (snd (mail (channels W) to content s)) = db s) \<and>
     (\<forall>to content s. db (snd (shout (channels W) to content s)) = db s)"

definition quiet_source :: "(alert_db, 'z) dbenv_scheme alert_source \<Rightarrow> bool" where
  "quiet_source A \<longleftrightarrow> (\<forall>q s. db (snd (exec_query A q s)) = db s)"

lemma keeps_deliver_loop:
  assumes "quiet_world W"
  shows "keeps (\<lambda>s. P (db s)) (deliver_loop (channels W) e tx ns d)"
proof (induction ns arbitrary: d)
  case (Cons n ns)
  have "keeps (\<lambda>s. P (db s)) (mail (channels W) to c)" "keeps (\<lambda>s. P (db s)) (shout (channels W) to c)" for to c
    using assms by (simp_all add: keeps_def quiet_world_def)
  then show ?case using Cons by (auto simp: deliver_one_def try_send_def Let_def intro!: keeps_intros)
qed (simp add: keeps_ret)

lemma keeps_notifyAll:
  assumes "quiet_world W"
  shows "keeps (\<lambda>s. P (db s)) (notifyAll W a sid item msg)"
  unfolding notifyAll_def Deliver_def Let_def by (intro keeps_intros keeps_deliver_loop assms)

lemma keeps_settle: "keeps (\<lambda>s. P (db s)) (settle r b d)"
  unfolding settle_def by (intro keeps_intros)

lemma keeps_shouldNotify: "keeps (\<lambda>s. P (db s)) (shouldNotify b r)"
  unfolding shouldNotify_def by (intro keeps_intros)

lemma keeps_metric_check: "quiet_world W \<Longrightarrow> keeps (\<lambda>s. P (db s)) (metric_check W a sid title msg r)"
  unfolding metric_check_def by (intro keeps_intros keeps_notifyAll keeps_settle keeps_shouldNotify)

lemma keeps_checkStatusAlert: "quiet_world W \<Longrightarrow> keeps (\<lambda>s. P (db s)) (checkStatusAlert W a sid r)"
  unfolding checkStatusAlert_def Let_def
  by (cases "statusNotificationFor (lastStatus r) (present (observation a))"; simp only: statusNotification.case;
      intro keeps_intros keeps_notifyAll keeps_settle)

lemma keeps_checkExpiryReminderAlert: "quiet_world W \<Longrightarrow> keeps (\<lambda>s. P (db s)) (checkExpiryReminderAlert W a sid r)"
  unfolding checkExpiryReminderAlert_def Let_def by (intro keeps_intros keeps_notifyAll keeps_settle)

lemma keeps_metric:
  "quiet_world W \<Longrightarrow> \<exists>title msg. c = metric_check W a sid title msg r \<Longrightarrow> keeps (\<lambda>s. P (db s)) c"
  using keeps_metric_check by blast

lemma keeps_evaluate:
  assumes "quiet_world W"
  shows "keeps (\<lambda>s. P (db s)) (evaluate W a sid item r)"
  unfolding evaluate_def
  by (intro keeps_if keeps_bindE keeps_ret keeps_checkStatusAlert keeps_checkExpiryReminderAlert
      keeps_metric [OF assms checks_metric(1)] keeps_metric [OF assms checks_metric(2)] keeps_metric [OF assms checks_metric(3)]
      keeps_metric [OF assms checks_metric(4)] keeps_metric [OF assms checks_metric(5)] keeps_metric [OF assms checks_metric(6)] assms)

lemma keeps_load_plans:
  assumes "quiet_source A"
  shows "keeps (\<lambda>s. P (db s)) (load_plans A item ps os)"
proof (induction ps arbitrary: os)
  case (Cons p ps)
  have "keeps (\<lambda>s. P (db s)) (exec_query A q)" for q using assms by (simp add: keeps_def quiet_source_def)
  then show ?case
    using Cons by (auto simp: stop_if_done_def queryAlertItem_def intro!: keeps_intros)
qed (simp add: keeps_ret)

lemma keeps_load_items:
  assumes "quiet_source A"
  shows "keeps (\<lambda>s. P (db s)) (load_items A rs e batch items os)"
proof (induction items arbitrary: os)
  case (Cons item items)
  have "keeps (\<lambda>s. P (db s)) (load_item A rs e batch item os)"
    unfolding load_item_def stop_if_done_def Let_def by (intro keeps_intros keeps_load_plans assms)
  then show ?case using Cons by (auto intro!: keeps_bindE)
qed (simp add: keeps_ret)

lemma keeps_load_batches:
  assumes "quiet_source A"
  shows "keeps (\<lambda>s. P (db s)) (load_batches A rs e batches os)"
proof (induction batches arbitrary: os)
  case (Cons b bs)
  have "keeps (\<lambda>s. P (db s)) (stop_if_done A os)" for os unfolding stop_if_done_def by (intro keeps_intros)
  then show ?case using Cons keeps_load_items [OF assms] by (auto intro!: keeps_bindE)
qed (simp add: keeps_ret)

lemma loadAlertObservations_db:
  assumes "quiet_source A" "loadAlertObservations A rules now s = (os, t)"
  shows "db t = db s"
proof -
  have "db (snd (load_batches A rs e batches os0 s)) = db s" for rs e batches os0
    using keeps_load_batches [OF assms(1), of "\<lambda>d. d = db s"] by (simp add: keeps_def)
  from this [of "merge_rules rules" now _ newAlertObservationSet] assms(2) show ?thesis
    by (auto simp: loadAlertObservations_def Let_def split: prod.splits sum.splits) (metis snd_conv)+
qed


subsection \<open>Rules come from rows\<close>

text \<open>Every rule of the nested maps is the row of the table with its id, server and item.\<close>

definition rules_from :: "alert_db \<Rightarrow> team_rules \<Rightarrow> bool" where
  "rules_from d rulesMap \<longleftrightarrow>
     (\<forall>team rs sid item sa. map_of rulesMap team = Some rs \<longrightarrow> rule_of rs sid item = Some sa \<longrightarrow>
        (\<exists>r. map_of (server_alerts d) (ID sa) = Some r \<and> al_server r = sid \<and> al_item r = item \<and>
             Threshold sa = al_threshold r \<and> ForDuration sa = al_for r \<and>
             LastStatus sa = al_status r \<and> LastNotifyAt sa = Some (al_notify r)))"

lemma rule_of_put_rule:
  "rule_of (put_rule sid item a rs) sid' item' = (if sid' = sid \<and> item' = item then Some a else rule_of rs sid' item')"
  by (auto simp: rule_of_def put_rule_def split: option.splits)

lemma alert_rows_source:
  "keyed (server_alerts d) \<Longrightarrow> w \<in> set (alert_rows d) \<Longrightarrow> map_of (server_alerts d) (row_id w) = Some (row_alert w)"
proof -
  assume k: "keyed (server_alerts d)" and "w \<in> set (alert_rows d)"
  then obtain i r where "(i, r) \<in> set (server_alerts d)" "row_id w = i" "row_alert w = r"
    by (force simp: alert_rows_def split: option.splits)
  then show ?thesis using keyed_in_set_map_of [OF k] by simp
qed

lemma add_row_rules_from:
  assumes "rules_from d m" "map_of (server_alerts d) (row_id w) = Some (row_alert w)" "add_row w (m, sm, em) = (m', sm', em')"
  shows "rules_from d m'"
proof -
  let ?rs = "case map_of m (row_team w) of None \<Rightarrow> [] | Some x \<Rightarrow> x"
  have m': "m' = AList.update (row_team w) (put_rule (al_server (row_alert w)) (al_item (row_alert w)) (rule_of_row w) ?rs) m"
    using assms(3) by (simp add: add_row_def Let_def)
  have old: "rule_of ?rs sid item = Some sa \<Longrightarrow> \<exists>rs. map_of m (row_team w) = Some rs \<and> rule_of rs sid item = Some sa" for sid item sa
    by (auto simp: rule_of_def split: option.splits)
  show ?thesis
    unfolding rules_from_def
  proof (intro allI impI)
    fix team rs sid item sa
    assume "map_of m' team = Some rs" "rule_of rs sid item = Some sa"
    then consider "sa = rule_of_row w" "sid = al_server (row_alert w)" "item = al_item (row_alert w)"
      | rs' where "map_of m (row_team w) = Some rs'" "rule_of rs' sid item = Some sa"
      | "map_of m team = Some rs" "rule_of rs sid item = Some sa"
      using old [of sid item sa] by (auto simp: m' rule_of_put_rule split: if_splits)
    then show "\<exists>r. map_of (server_alerts d) (ID sa) = Some r \<and> al_server r = sid \<and> al_item r = item \<and>
        Threshold sa = al_threshold r \<and> ForDuration sa = al_for r \<and> LastStatus sa = al_status r \<and> LastNotifyAt sa = Some (al_notify r)"
    proof cases
      case 1
      then show ?thesis using assms(2) by (simp add: rule_of_row_def Let_def)
    qed (use assms(1) in \<open>auto simp: rules_from_def\<close>)
  qed
qed

lemma fold_rules_from:
  assumes "rules_from d (fst acc)" "\<forall>w \<in> set rows. map_of (server_alerts d) (row_id w) = Some (row_alert w)"
  shows "rules_from d (fst (fold add_row rows acc))"
  using assms
proof (induction rows arbitrary: acc)
  case (Cons w rows)
  obtain m sm em where "acc = (m, sm, em)" by (metis prod.exhaust)
  then have "rules_from d (fst (add_row w acc))"
    using add_row_rules_from [of d m w sm em] Cons.prems by (metis fst_conv list.set_intros(1) prod.exhaust)
  with Cons show ?case by simp
qed simp

lemma allServerAlerts_rules_from:
  assumes "allServerAlerts s = (Inr (m, sm, em), t)" "keyed (server_alerts (db s))"
  shows "rules_from (db s) m \<and> db t = db s"
proof -
  have "fold add_row (alert_rows (db s)) ([], [], []) = (m, sm, em)" "db t = db s"
    using assms(1) by (auto simp: allServerAlerts_def db_Inr_iffs ret_def)
  moreover have "rules_from (db s) (fst (fold add_row (alert_rows (db s)) ([], [], [])))"
    using alert_rows_source [OF assms(2)] by (intro fold_rules_from) (auto simp: rules_from_def)
  ultimately show ?thesis by simp
qed

subsection \<open>Only evaluated rules are updated\<close>

text \<open>The rules a run may update: reminders of expiry, and rules whose observation was loaded.\<close>

definition evaluated :: "team_rules \<Rightarrow> alertObservationSet \<Rightarrow> int \<Rightarrow> bool" where
  "evaluated rulesMap os i \<longleftrightarrow>
     (\<exists>team rs sid item sa. map_of rulesMap team = Some rs \<and> rule_of rs sid item = Some sa \<and> ID sa = i \<and>
        (item = alertItemExpiry \<or> snd (get_observation os sid item)))"

definition updates_ok :: "team_rules \<Rightarrow> alertObservationSet \<Rightarrow> alertRuleUpdate list \<times> (string, int) table \<Rightarrow> bool" where
  "updates_ok rulesMap os q \<longleftrightarrow> (\<forall>u \<in> set (fst q). evaluated rulesMap os (upd_id u))"

lemma ensures_over_keys:
  assumes "Q acc" "\<And>k v acc. map_of m k = Some v \<Longrightarrow> Q acc \<Longrightarrow> ensures I Q (f k v acc)"
  shows "ensures I Q (over_keys ks m f acc)"
  using assms(1)
  by (induction ks arbitrary: acc) (auto intro: ensures_ret ensures_bindE assms(2) split: option.splits)

lemma evaluate_ssh: "evaluate W a sid AlertItemSSHLogin r = ret None"
  by (simp add: evaluate_def)

lemma setObservationForRule_ok:
  "setObservationForRule os sid item a = (a', ok) \<Longrightarrow> ok \<Longrightarrow>
     item = alertItemExpiry \<or> item = AlertItemSSHLogin \<or> snd (get_observation os sid item)"
  by (simp only: setObservationForRule_def Let_def split: if_splits prod.splits) auto

lemma evaluate_rule_ensures:
  assumes "quiet_world W" "map_of rulesMap team = Some rs" "rule_of rs sid item = Some sa" "updates_ok rulesMap os q"
  shows "ensures (\<lambda>s. P (db s)) (updates_ok rulesMap os) (evaluate_rule W os a sid item sa q)"
proof -
  obtain queue skipped where q: "q = (queue, skipped)" by fastforce
  obtain a' ok where o: "setObservationForRule os sid item a = (a', ok)" by fastforce
  have skip: "updates_ok rulesMap os (queue, x)" for x using assms(4) by (simp add: q updates_ok_def)
  show ?thesis
  proof (cases "ok \<and> item \<noteq> AlertItemSSHLogin")
    case True
    then have "item = alertItemExpiry \<or> snd (get_observation os sid item)"
      using setObservationForRule_ok [OF o] by blast
    then have "evaluated rulesMap os (ID sa)" using assms(2,3) unfolding evaluated_def by blast
    then have "updates_ok rulesMap os (queue @ [\<lparr>upd_id = ID sa, upd_lastStatus = ls, upd_lastNotifyAt = lt\<rparr>], skipped)" for ls lt
      using skip [of skipped] by (simp add: updates_ok_def)
    then show ?thesis
      using True skip [of skipped] unfolding evaluate_rule_def q o prod.case
      by (auto intro!: ensures_bindE [OF keeps_ensures [OF keeps_evaluate [OF assms(1)]]] ensures_ret split: option.splits)
  next
    case False
    then show ?thesis
      using skip unfolding evaluate_rule_def q o prod.case
      by (cases ok) (auto simp: evaluate_ssh intro!: ensures_ret)
  qed
qed


subsection \<open>The tables after a run\<close>

text \<open>
  Two states of the tables that differ at most in the status and the notification time of alert
  rows whose id satisfies \<open>P\<close>.
\<close>

definition same_alert :: "(int \<Rightarrow> bool) \<Rightarrow> int \<times> alert_row \<Rightarrow> int \<times> alert_row \<Rightarrow> bool" where
  "same_alert P x y \<longleftrightarrow> fst x = fst y \<and>
     (snd x)\<lparr>al_status := None, al_notify := 0\<rparr> = (snd y)\<lparr>al_status := None, al_notify := 0\<rparr> \<and> (P (fst x) \<or> snd x = snd y)"

definition evolves :: "(int \<Rightarrow> bool) \<Rightarrow> alert_db \<Rightarrow> alert_db \<Rightarrow> bool" where
  "evolves P d d' \<longleftrightarrow> d'\<lparr>server_alerts := []\<rparr> = d\<lparr>server_alerts := []\<rparr> \<and>
     list_all2 (same_alert P) (server_alerts d) (server_alerts d')"

lemma evolves_refl: "evolves P d d"
  by (simp add: evolves_def same_alert_def list_all2_refl)

lemma same_alert_map_entry:
  assumes "list_all2 (same_alert P) t t'" "P i"
  shows "list_all2 (same_alert P) t (AList.map_entry i (\<lambda>r. r\<lparr>al_status := st, al_notify := n\<rparr>) t')"
  using assms(1)
proof (induction rule: list_all2_induct)
  case (Cons x xs y ys)
  have "same_alert P x (k, v\<lparr>al_status := st, al_notify := n\<rparr>)" if "same_alert P x (k, v)" "P k" for k v
    using that by (auto simp: same_alert_def)
  with Cons show ?case using assms(2) by (cases y) auto
qed simp

lemma set_alert_status_evolves:
  assumes "evolves P d0 d" "P (upd_id u)" "set_alert_status u d = Some d'"
  shows "evolves P d0 d'"
  using assms same_alert_map_entry [of P "server_alerts d0" "server_alerts d" "upd_id u"]
  by (auto simp: set_alert_status_def evolves_def split: option.splits if_splits)

lemma keeps_updateRuleStatus:
  assumes "\<forall>u \<in> set queue. P (upd_id u)"
  shows "keeps (\<lambda>s. evolves P d0 (db s)) (updateRuleStatus queue)"
  unfolding updateRuleStatus_def using assms
  by (intro keeps_if keeps_ret keeps_transaction_db keeps_forE keeps_exec_db) (blast intro: set_alert_status_evolves)

lemma keeps_run_team:
  assumes W: "quiet_world W" and m: "map_of rulesMap team = Some rs" and P: "\<And>i. evaluated rulesMap os i \<Longrightarrow> P i"
  shows "keeps (\<lambda>s. evolves P d0 (db s)) (run_team W RO os sm em nm team rs skipped)"
proof -
  let ?I = "\<lambda>s. evolves P d0 (db s)"
  have "ensures ?I (updates_ok rulesMap os) (evaluate_server W RO os a sid serverRules q)"
    if "map_of rs sid = Some serverRules" "updates_ok rulesMap os q" for a sid serverRules q
    unfolding evaluate_server_def
    by (rule ensures_over_keys [where Q = "updates_ok rulesMap os", OF that(2)])
      (use that(1) in \<open>auto simp: rule_of_def intro!: evaluate_rule_ensures [OF W m]\<close>)
  then have "ensures ?I (updates_ok rulesMap os) (over_keys (server_order RO (map fst rs)) rs (evaluate_server W RO os a) ([], skipped))" for a
    by (intro ensures_over_keys) (simp_all add: updates_ok_def [of _ _ "([], skipped)"])
  moreover have "ensures ?I (\<lambda>_. True) (case q of (queue, skipped) \<Rightarrow> tryE (updateRuleStatus queue) (\<lambda>_. ret skipped))"
    if "updates_ok rulesMap os q" for q :: "alertRuleUpdate list \<times> (string, int) table"
    using that P by (auto simp: updates_ok_def intro!: keeps_ensures keeps_tryE keeps_updateRuleStatus keeps_ret split: prod.splits)
  ultimately show ?thesis
    unfolding run_team_def Let_def
    by (intro keeps_if keeps_ret ensures_keeps [OF ensures_bindE [where Q = "updates_ok rulesMap os" and R = "\<lambda>_. True"]])
qed

lemma keeps_over_keys:
  "(\<And>k v acc. map_of m k = Some v \<Longrightarrow> keeps I (f k v acc)) \<Longrightarrow> keeps I (over_keys ks m f acc)"
  by (induction ks arbitrary: acc) (auto intro!: keeps_intros split: option.splits)


lemma evolves_mono: "evolves P d d' \<Longrightarrow> (\<And>i. P i \<Longrightarrow> Q i) \<Longrightarrow> evolves Q d d'"
  by (auto simp: evolves_def same_alert_def elim!: list_all2_mono)

text \<open>
  The rows a run at \<open>now\<close> may touch: reminders of expiry, and rows for which a query over the
  rules of the tables was answered.
\<close>

definition may_change :: "(alert_db, 'z) dbenv_scheme alert_source \<Rightarrow> alert_db \<Rightarrow> go_time \<Rightarrow> int \<Rightarrow> bool" where
  "may_change A d now i \<longleftrightarrow>
     (\<exists>r. map_of (server_alerts d) i = Some r \<and>
        (al_item r = alertItemExpiry \<or>
         al_item r \<in> set influxAlertItems \<and>
         (\<exists>rules ob. rules_from d rules \<and> answered A (merge_rules rules) now (al_server r) (al_item r) ob)))"

lemma evaluated_may_change:
  assumes "rules_from d rules" "loadAlertObservations A rules now s = (os, t)" "evaluated rules os i"
  shows "may_change A d now i"
proof -
  from assms(3) obtain team rs sid item sa where
    m: "map_of rules team = Some rs" "rule_of rs sid item = Some sa" "ID sa = i" and
    c: "item = alertItemExpiry \<or> snd (get_observation os sid item)" unfolding evaluated_def by blast
  obtain r where r: "map_of (server_alerts d) i = Some r" "al_server r = sid" "al_item r = item"
    using assms(1) m unfolding rules_from_def by blast
  have "item \<in> set influxAlertItems \<and> answered A (merge_rules rules) now sid item (fst (get_observation os sid item))"
    if "snd (get_observation os sid item)"
    using loadAlertObservations_sourced [OF assms(2)] that unfolding sourced_def get_observation_def by simp
  then show ?thesis unfolding may_change_def using assms(1) c r by blast
qed

lemma run_teams_evolves:
  assumes W: "quiet_world W" and A: "quiet_source A" and rules: "rules_from d rules"
    and run: "bindE (\<lambda>s. case loadAlertObservations A rules now s of (os, t) \<Rightarrow> (Inr os, t)) (\<lambda>os.
      bindE (over_keys teamIds rules (run_team W RO os sm em nm) []) (\<lambda>skipped.
      if skipped \<noteq> [] then ret (Some (skippedAlertRulesMessage skipped os)) else ret None)) s = (res, t)" and d: "db s = d"
  shows "evolves (may_change A d now) d (db t)"
proof -
  obtain os u where l: "loadAlertObservations A rules now s = (os, u)" by fastforce
  have u: "db u = d" using loadAlertObservations_db [OF A l] d by simp
  have "keeps (\<lambda>s. evolves (may_change A d now) d (db s))
      (bindE (over_keys teamIds rules (run_team W RO os sm em nm) []) (\<lambda>skipped.
       if skipped \<noteq> [] then ret (Some (skippedAlertRulesMessage skipped os)) else ret None))"
    by (intro keeps_bindE keeps_over_keys keeps_if keeps_ret keeps_run_team [OF W] evaluated_may_change [OF rules l])
  from keeps_run [OF this, of u] run show ?thesis by (simp add: bindE_run l u evolves_refl)
qed

lemma Run_evolves:
  assumes W: "quiet_world W" and A: "quiet_source A" and k: "keyed (server_alerts (db s))" and run: "Run W A RO s = (res, t)"
  shows "\<exists>now. evolves (may_change A (db s) now) (db s) (db t)"
proof -
  obtain r1 s1 where a: "allServerAlerts s = (r1, s1)" by fastforce
  have s1: "db s1 = db s" using a by (auto simp: allServerAlerts_def bindE_run query_db_def next_call_def ret_def split: if_splits)
  show ?thesis
  proof (cases r1)
    case (Inl e)
    then have "db t = db s" using run a s1 by (simp add: Run_def tryE_run ret_def)
    then show ?thesis using evolves_refl by simp
  next
    case (Inr x)
    obtain rules sm em where x: "x = (rules, sm, em)" by (metis prod.exhaust)
    have rules: "rules_from (db s) rules" using allServerAlerts_rules_from a k Inr x by blast
    define ids where "ids = team_order RO (map fst rules)"
    obtain r2 s2 where n: "teamNotificationsByIds ids s1 = (r2, s2)" by fastforce
    have s2: "db s2 = db s"
      using n s1 by (auto simp: teamNotificationsByIds_def bindE_run query_db_def next_call_def ret_def split: if_splits)
    show ?thesis
    proof (cases "rules = [] \<or> (\<exists>e. r2 = Inl e)")
      case True
      then have "db t = db s"
        using run s1 s2 by (cases "rules = []") (auto simp: Run_def tryE_run a Inr x n ids_def [symmetric] ret_def Let_def)
      then show ?thesis using evolves_refl by simp
    next
      case False
      then obtain nm where "r2 = Inr nm" by (cases r2) auto
      with False run have "bindE (\<lambda>s. case loadAlertObservations A rules (clock s2 (reads s2)) s of (os, t) \<Rightarrow> (Inr os, t)) (\<lambda>os.
          bindE (over_keys ids rules (run_team W RO os sm em nm) []) (\<lambda>skipped.
          if skipped \<noteq> [] then ret (Some (skippedAlertRulesMessage skipped os)) else ret None)) (s2\<lparr>reads := Suc (reads s2)\<rparr>) = (res, t)"
        by (simp add: Run_def tryE_run a Inr x n ids_def [symmetric] bindE_time_now Let_def)
      from run_teams_evolves [OF W A rules this] s2 show ?thesis by auto
    qed
  qed
qed


section \<open>Properties\<close>

text \<open>
  (C13) Evaluation of an alert rule. For each of the eight items the evaluation follows one rule.
  If no notification is due, none is sent and the new status is stored. If one is due, it is sent
  to the channels of the team: when somebody received it the status and the time are stored; when
  it was tried and nobody received it the rule is left as it was, so that it is tried again; when
  there is no channel only the status is stored. A notification is due when a server went down or
  came up, or when a limit is exceeded for the first time or again after more than an hour, or
  once when an expiry comes near.
\<close>

theorem evaluate_correct:
  fixes s :: "(alert_db, 'z) dbenv_scheme"
  assumes "evaluate W a sid item r s = (res, t)" "item \<in> set (alertItemExpiry # influxAlertItems)"
  shows "if notification_due a sid item r (clock s (reads s))
    then \<exists>title msg s' d u. only_clock s s' \<and> notifyAll W a sid title msg s' = (Inr d, u) \<and> only_clock u t \<and>
      res = Inr (Some
        (if Delivered d then (Some (new_status a sid item r (clock s (reads s))), Some (clock u (reads u)))
         else if Attempted d then (lastStatus r, lastNotifyAt r)
         else (Some (new_status a sid item r (clock s (reads s))), lastNotifyAt r)))
    else res = Inr (Some (Some (new_status a sid item r (clock s (reads s))), lastNotifyAt r)) \<and> only_clock s t"
proof -
  obtain res' where s: "settles W a sid r (new_status a sid item r (clock s (reads s)))
      (notification_due a sid item r (clock s (reads s))) s res' t" and res: "res = map_sum id Some res'"
    using evaluate_settles [OF assms] by blast
  show ?thesis
  proof (cases "notification_due a sid item r (clock s (reads s))")
    case True
    with s obtain title msg s' d u where "only_clock s s'" "notifyAll W a sid title msg s' = (Inr d, u)" "only_clock u t"
      "res' = Inr (remembered r (new_status a sid item r (clock s (reads s))) d (clock u (reads u)))"
      unfolding settles_def by auto
    then have "res = Inr (Some (remembered r (new_status a sid item r (clock s (reads s))) d (clock u (reads u))))"
      by (simp add: res)
    then show ?thesis
      unfolding if_P [OF True] remembered_def
      using \<open>only_clock s s'\<close> \<open>notifyAll W a sid title msg s' = (Inr d, u)\<close> \<open>only_clock u t\<close> by blast
  next
    case False
    with s show ?thesis unfolding res settles_def by simp
  qed
qed


text \<open>A team with one channel that always accepts, and a server whose processor is too busy.\<close>

definition sample_world :: "(alert_db, unit) alert_world" where
  "sample_world = \<lparr>channels = \<lparr>canceled = \<lambda>_. False, mail = \<lambda>_ _. ret (), shout = \<lambda>_ _. ret ()\<rparr>,
     render = \<lambda>_ title msg. (title, msg), f2 = \<lambda>_. ''99.00'', f1 = \<lambda>_. ''99.0'', format_date = itoa\<rparr>"

definition sample_instance :: alertInstance where
  "sample_instance = \<lparr>serverMap = [(1, ''a'')], expiryMap = [], notifications = [\<lparr>Module = ''email'', Target = ''x@y''\<rparr>],
     observation = \<lparr>present = True, obs_value = 99, mountPoint = []\<rparr>\<rparr>"

theorem evaluate_correct_witness:
  "fst (evaluate sample_world sample_instance 1 ''cpu_usage'' (rule_of_alert (sample_rule 11 10)) sample_alerts) =
     Inr (Some (Some True, Some 0)) \<and>
   (\<exists>title msg s' d u. only_clock sample_alerts s' \<and> notifyAll sample_world sample_instance 1 title msg s' = (Inr d, u))"
proof -
  let ?r = "rule_of_alert (sample_rule 11 10)"
  have item: "''cpu_usage'' \<in> set (alertItemExpiry # influxAlertItems)" by code_simp
  have due: "notification_due sample_instance 1 ''cpu_usage'' ?r (clock sample_alerts (reads sample_alerts))"
    by (simp add: notification_due_def new_status_def sample_instance_def rule_of_alert_def sample_rule_def)
  have res: "fst (evaluate sample_world sample_instance 1 ''cpu_usage'' ?r sample_alerts) = Inr (Some (Some True, Some 0))"
    by (simp add: evaluate_def checkCPUUsageAlert_def checkMetricAlert_def sample_instance_def rule_of_alert_def sample_rule_def
        shouldNotify_def notifyAll_def sample_world_def Deliver_def deliver_one_def try_send_def settle_def usage_message_def
        time_now_def sample_alerts_def io_simps Let_def)
  from evaluate_correct [where W = sample_world and a = sample_instance and sid = 1 and r = ?r and s = sample_alerts,
      OF prod.collapse [symmetric] item, unfolded if_P [OF due]] res
  show ?thesis by blast
qed

text \<open>
  (C6) What an alert run may change. If neither the transports nor the queries write the tables,
  then a run, whichever of its calls fail, changes nothing but the status and the notification
  time of alert rules: of expiry reminders, and of rules for which a query over the stored rules
  was answered without error. A failed query never changes the state of a rule; if no query is
  answered, only expiry reminders change.
\<close>

theorem Run_correct:
  fixes s :: "(alert_db, 'z) dbenv_scheme"
  assumes "quiet_world W" "quiet_source A" "alert_schema (db s)" "Run W A RO s = (res, t)"
  shows "(\<exists>now. evolves (may_change A (db s) now) (db s) (db t)) \<and>
    ((\<forall>q s'. \<exists>e t'. exec_query A q s' = (Inl e, t')) \<longrightarrow>
       evolves (\<lambda>i. \<exists>r. map_of (server_alerts (db s)) i = Some r \<and> al_item r = alertItemExpiry) (db s) (db t))"
proof -
  have "keyed (server_alerts (db s))" using assms(3) by (simp add: alert_schema_def indexed_def)
  from Run_evolves [OF assms(1,2) this assms(4)] obtain now where e: "evolves (may_change A (db s) now) (db s) (db t)" by blast
  have "\<not> answered A rs now sid item ob" if "\<forall>q s'. \<exists>e t'. exec_query A q s' = (Inl e, t')" for rs sid item ob
    using that unfolding answered_def by (metis Inl_Inr_False prod.inject)
  then have "evolves (\<lambda>i. \<exists>r. map_of (server_alerts (db s)) i = Some r \<and> al_item r = alertItemExpiry) (db s) (db t)"
    if "\<forall>q s'. \<exists>e t'. exec_query A q s' = (Inl e, t')"
    using that unfolding may_change_def by (intro evolves_mono [OF e [unfolded may_change_def]]) blast
  with e show ?thesis by blast
qed


definition failing_source :: "(alert_db dbenv) alert_source" where
  "failing_source = \<lparr>ctx_done = \<lambda>_. False, exec_query = \<lambda>_ s. (Inl ErrDb, s), unmarshal_disks = \<lambda>_. None,
     flux_time = itoa, ord_time = id, ord_disk = id\<rparr>"

definition sample_orders :: run_orders where
  "sample_orders = \<lparr>team_order = id, server_order = id, item_order = id\<rparr>"

theorem Run_correct_witness:
  "evolves (\<lambda>i. \<exists>r. map_of (server_alerts (db sample_alerts)) i = Some r \<and> al_item r = alertItemExpiry) (db sample_alerts)
     (db (snd (Run sample_world failing_source sample_orders sample_alerts)))"
proof -
  have "quiet_world sample_world" by (simp add: quiet_world_def sample_world_def ret_def)
  moreover have "quiet_source failing_source" "\<forall>q s'. \<exists>e t'. exec_query failing_source q s' = (Inl e, t')"
    by (simp_all add: quiet_source_def failing_source_def)
  ultimately show ?thesis
    using Run_correct [OF _ _ sample_alerts_schema prod.collapse [symmetric]] by blast
qed

end
