(* ===== verification/Encryption.thy ===== *)
theory Encryption
  imports World Go_Strings
begin

text \<open>
  Encryption of stored credentials (\<open>internal/utils/encrypt\<close>): the versioned AES-GCM envelope bound
  to its record and field, the legacy format of the migration, and the life of the master key
  file (\<open>init.go\<close>). AES, GCM and the random source are parameters; the file system is a table of
  nodes whose calls may fail.
\<close>

section \<open>Envelopes\<close>

text \<open>
  \<open>gcm_seal k n p a\<close> is the sealed plaintext and \<open>gcm_open k n c a\<close> opens it, with the key, the
  nonce and the associated data; \<open>cbc_decrypt k iv c\<close> decrypts whole blocks.
\<close>

record ciphers =
  gcm_seal :: "string \<Rightarrow> string \<Rightarrow> string \<Rightarrow> string \<Rightarrow> string"
  gcm_open :: "string \<Rightarrow> string \<Rightarrow> string \<Rightarrow> string \<Rightarrow> string option"
  cbc_decrypt :: "string \<Rightarrow> string \<Rightarrow> string \<Rightarrow> string"

datatype crypt_error =
    InvalidKeyLength
  | NoRandom
  | UnsupportedLegacy
  | EnvelopeTruncated
  | UnsupportedVersion
  | NotAuthentic
  | CiphertextTooShort
  | InvalidLegacyLength
  | InvalidPadding

definition envelopeMagic :: string where "envelopeMagic = ''MSNENC01''"
definition envelopeVersion :: char where "envelopeVersion = CHR 0x01"
definition nonce_size :: nat where "nonce_size = 12"
definition gcm_overhead :: nat where "gcm_overhead = 16"
definition aes_block :: nat where "aes_block = 16"

definition KeyContentContext :: "int \<Rightarrow> string" where
  "KeyContentContext keyID = ''keys/'' @ itoa keyID @ ''/content''"

definition KeyPasswordContext :: "int \<Rightarrow> string" where
  "KeyPasswordContext keyID = ''keys/'' @ itoa keyID @ ''/password''"

definition SSHPasswordContext :: "int \<Rightarrow> string" where
  "SSHPasswordContext serverID = ''ssh/'' @ itoa serverID @ ''/password''"

definition AgentPrivateKeyContext :: "int \<Rightarrow> string" where
  "AgentPrivateKeyContext serverID = ''agents/'' @ itoa serverID @ ''/private_key''"

definition valid_key_length :: "string \<Rightarrow> bool" where
  "valid_key_length key \<longleftrightarrow> length key = 16 \<or> length key = 24 \<or> length key = 32"

text \<open>The random source answers with as many bytes as asked for, or not at all.\<close>

definition GenerateKey :: "(nat \<Rightarrow> string option) \<Rightarrow> nat \<Rightarrow> crypt_error + string" where
  "GenerateKey rand len =
     (if len \<noteq> 16 \<and> len \<noteq> 24 \<and> len \<noteq> 32 then Inl InvalidKeyLength
      else case rand len of None \<Rightarrow> Inl NoRandom | Some key \<Rightarrow> Inr key)"

definition associatedData :: "string \<Rightarrow> string \<Rightarrow> string" where
  "associatedData header ctx = header @ [CHR 0x00] @ ctx"

text \<open>\<open>newGCM\<close> fails exactly on a key length AES does not have.\<close>

definition newGCM :: "string \<Rightarrow> crypt_error + unit" where
  "newGCM key = (if valid_key_length key then Inr () else Inl InvalidKeyLength)"

definition encrypt_Encrypt ::
  "ciphers \<Rightarrow> (nat \<Rightarrow> string option) \<Rightarrow> string \<Rightarrow> string \<Rightarrow> string \<Rightarrow> crypt_error + string" where
  "encrypt_Encrypt C rand plaintext key ctx =
     (case newGCM key of
        Inl e \<Rightarrow> Inl e
      | Inr _ \<Rightarrow>
          let header = envelopeMagic @ [envelopeVersion] in
          case rand nonce_size of
            None \<Rightarrow> Inl NoRandom
          | Some nonce \<Rightarrow> Inr (header @ nonce @ gcm_seal C key nonce plaintext (associatedData header ctx)))"

definition IsVersionedCiphertext :: "string \<Rightarrow> bool" where
  "IsVersionedCiphertext c \<longleftrightarrow> has_prefix envelopeMagic c"

definition IsCurrentCiphertext :: "string \<Rightarrow> bool" where
  "IsCurrentCiphertext c \<longleftrightarrow>
     length c > length envelopeMagic \<and> take (length envelopeMagic) c = envelopeMagic \<and>
     c ! length envelopeMagic = envelopeVersion"

definition decryptEnvelope :: "ciphers \<Rightarrow> string \<Rightarrow> string \<Rightarrow> string \<Rightarrow> crypt_error + string" where
  "decryptEnvelope C envelope key ctx =
     (let headerLen = length envelopeMagic + 1 in
      if \<not> IsVersionedCiphertext envelope \<or> length envelope < headerLen then Inl EnvelopeTruncated
      else if envelope ! length envelopeMagic \<noteq> envelopeVersion then Inl UnsupportedVersion
      else case newGCM key of
        Inl e \<Rightarrow> Inl e
      | Inr _ \<Rightarrow>
          if length envelope < headerLen + nonce_size + gcm_overhead then Inl EnvelopeTruncated
          else
            let header = take headerLen envelope;
                nonce = take nonce_size (drop headerLen envelope);
                sealed = drop (headerLen + nonce_size) envelope in
            case gcm_open C key nonce sealed (associatedData header ctx) of
              None \<Rightarrow> Inl NotAuthentic
            | Some plaintext \<Rightarrow> Inr plaintext)"

definition encrypt_Decrypt :: "ciphers \<Rightarrow> string \<Rightarrow> string \<Rightarrow> string \<Rightarrow> crypt_error + string" where
  "encrypt_Decrypt C ciphertext key ctx =
     (if \<not> IsVersionedCiphertext ciphertext then Inl UnsupportedLegacy
      else decryptEnvelope C ciphertext key ctx)"

section \<open>The legacy format\<close>

definition pkcs7UnPad :: "string \<Rightarrow> nat \<Rightarrow> crypt_error + string" where
  "pkcs7UnPad data blockSize =
     (if data = [] then Inl InvalidPadding
      else
        let padding = (of_char (last data) :: nat) in
        if padding > blockSize \<or> padding = 0 \<or> padding > length data then Inl InvalidPadding
        else if list_all (\<lambda>c. c = last data) (drop (length data - padding) data)
        then Inr (take (length data - padding) data)
        else Inl InvalidPadding)"

definition decryptLegacyCBC :: "ciphers \<Rightarrow> string \<Rightarrow> string \<Rightarrow> crypt_error + string" where
  "decryptLegacyCBC C ciphertext key =
     (if \<not> valid_key_length key then Inl InvalidKeyLength
      else if length ciphertext < aes_block then Inl CiphertextTooShort
      else
        let body = drop aes_block ciphertext in
        if body = [] \<or> length body mod aes_block \<noteq> 0 then Inl InvalidLegacyLength
        else pkcs7UnPad (cbc_decrypt C key (take aes_block ciphertext) body) aes_block)"

definition DecryptLegacy :: "ciphers \<Rightarrow> string \<Rightarrow> string \<Rightarrow> crypt_error + string" where
  "DecryptLegacy C ciphertext key = decryptLegacyCBC C ciphertext key"

section \<open>What the envelope guarantees\<close>

text \<open>
  The documented behaviour of an authenticated cipher: what was sealed opens again under the same
  key, nonce and associated data, and only there; the tag has sixteen bytes.
\<close>

definition ciphers_ok :: "ciphers \<Rightarrow> bool" where
  "ciphers_ok C \<longleftrightarrow>
     (\<forall>k n p a n' a'. gcm_open C k n' (gcm_seal C k n p a) a' = (if n' = n \<and> a' = a then Some p else None)) \<and>
     (\<forall>k n p a. gcm_overhead \<le> length (gcm_seal C k n p a))"

definition rand_ok :: "(nat \<Rightarrow> string option) \<Rightarrow> bool" where
  "rand_ok rand \<longleftrightarrow> (\<forall>n bs. rand n = Some bs \<longrightarrow> length bs = n)"

lemma magic_length [simp]: "length envelopeMagic = 8"
  by (simp add: envelopeMagic_def)

lemma associatedData_inject [simp]: "associatedData h c = associatedData h c' \<longleftrightarrow> c = c'"
  by (simp add: associatedData_def)

lemma decrypt_of_envelope:
  assumes C: "ciphers_ok C" and n: "length n = nonce_size" and k: "valid_key_length key"
    and h: "h = envelopeMagic @ [envelopeVersion]"
  shows "encrypt_Decrypt C (h @ n @ gcm_seal C key n p (associatedData h ctx)) key ctx' =
    (if ctx' = ctx then Inr p else Inl NotAuthentic)"
proof -
  let ?s = "gcm_seal C key n p (associatedData h ctx)"
  have len: "gcm_overhead \<le> length ?s" using C by (simp add: ciphers_ok_def)
  have parts: "take 9 (h @ n @ ?s) = h" "take nonce_size (drop 9 (h @ n @ ?s)) = n" "drop (9 + nonce_size) (h @ n @ ?s) = ?s"
    "(h @ n @ ?s) ! 8 = envelopeVersion" using n h by (simp_all add: nth_append)
  have v: "IsVersionedCiphertext (h @ n @ ?s)" by (simp add: h IsVersionedCiphertext_def)
  have "gcm_open C key n ?s (associatedData h ctx') = (if ctx' = ctx then Some p else None)"
    using C by (simp add: ciphers_ok_def)
  with v parts len k n h show ?thesis
    by (simp add: encrypt_Decrypt_def decryptEnvelope_def newGCM_def)
qed

lemma encrypt_Encrypt_Inr:
  assumes "encrypt_Encrypt C rand p key ctx = Inr c" "rand_ok rand"
  shows "\<exists>n. length n = nonce_size \<and> valid_key_length key \<and>
    c = (envelopeMagic @ [envelopeVersion]) @ n @ gcm_seal C key n p (associatedData (envelopeMagic @ [envelopeVersion]) ctx)"
  using assms by (auto simp: encrypt_Encrypt_def newGCM_def rand_ok_def Let_def split: if_splits option.splits)

subsection \<open>Contexts name one field of one record\<close>

datatype credential = KeyContent int | KeyPassword int | SSHPassword int | AgentPrivateKey int

fun credential_context :: "credential \<Rightarrow> string" where
  "credential_context (KeyContent i) = KeyContentContext i"
| "credential_context (KeyPassword i) = KeyPasswordContext i"
| "credential_context (SSHPassword i) = SSHPasswordContext i"
| "credential_context (AgentPrivateKey i) = AgentPrivateKeyContext i"

lemma itoa_no_slash: "CHR ''/'' \<notin> set (itoa i)"
proof -
  have "CHR ''/'' \<notin> set (dec n)" for n using dec_digits by fastforce
  then show ?thesis by (simp add: itoa_def)
qed

lemma itoa_slash_inject:
  assumes "itoa i @ CHR ''/'' # s = itoa j @ CHR ''/'' # t"
  shows "i = j \<and> s = t"
proof -
  have "takeWhile (\<lambda>c. c \<noteq> CHR ''/'') (itoa k @ CHR ''/'' # u) = itoa k" for k u
    using itoa_no_slash [of k] by (subst takeWhile_append2) auto
  then have "itoa i = itoa j" using assms by metis
  with assms show ?thesis by simp
qed

lemma credential_context_inject: "credential_context a = credential_context b \<Longrightarrow> a = b"
  by (cases a; cases b)
    (auto simp: KeyContentContext_def KeyPasswordContext_def SSHPasswordContext_def AgentPrivateKeyContext_def dest: itoa_slash_inject)


section \<open>The master key file\<close>

datatype node = FileNode string int int | DirNode int int | LinkNode | OtherNode

text \<open>
  The process sees the file system, its user, the configured path, the legacy path and the
  configuration directory resolved to absolute paths (\<open>None\<close> when that fails), the cleaning of a
  path, its parent, and the name the next temporary file gets; \<open>master_key\<close> is the package variable \<open>Key\<close>.
\<close>

record fsenv = env +
  nodes :: "(string, node) table"
  euid :: int
  env_key_path :: string
  legacy_path :: "string option"
  config_dir :: "string option"
  clean_path :: "string \<Rightarrow> string"
  dir_of :: "string \<Rightarrow> string"
  temp_path :: string
  random :: "nat \<Rightarrow> string option"
  master_key :: "string option"

datatype key_error =
    KeyPathNotAbsolute
  | FsError
  | ErrKeyMissing
  | KeyNotRegular
  | KeyDirInvalid
  | WrongOwner
  | KeyLengthInvalid
  | Crypt crypt_error

type_synonym ('z, 'a) key_io = "('z fsenv_scheme, key_error, 'a) io"

text \<open>A system call that reads, and one that writes the nodes or refuses.\<close>

definition fs_read :: "('z fsenv_scheme \<Rightarrow> 'a) \<Rightarrow> ('z, 'a) key_io" where
  "fs_read f = (\<lambda>s. case next_call s of (oc, t) \<Rightarrow> (if oc = Done then (Inr (f t), t) else (Inl FsError, t)))"

definition fs_write :: "('z fsenv_scheme \<Rightarrow> (string, node) table option) \<Rightarrow> ('z, unit) key_io" where
  "fs_write f = (\<lambda>s. case next_call s of (oc, t) \<Rightarrow>
     (case (oc, f t) of
        (Done, Some ns) \<Rightarrow> (Inr (), t\<lparr>nodes := ns\<rparr>)
      | (Lost, Some ns) \<Rightarrow> (Inl FsError, t\<lparr>nodes := ns\<rparr>)
      | (_, _) \<Rightarrow> (Inl FsError, t)))"

definition lstat :: "string \<Rightarrow> ('z, node option) key_io" where
  "lstat path = fs_read (\<lambda>s. map_of (nodes s) path)"

definition set_perm :: "int \<Rightarrow> node \<Rightarrow> node" where
  "set_perm p n = (case n of FileNode c _ u \<Rightarrow> FileNode c p u | DirNode _ u \<Rightarrow> DirNode p u | LinkNode \<Rightarrow> LinkNode | OtherNode \<Rightarrow> OtherNode)"

definition chmod :: "string \<Rightarrow> int \<Rightarrow> ('z, unit) key_io" where
  "chmod path p = fs_write (\<lambda>s. Some (AList.map_entry path (set_perm p) (nodes s)))"

definition owner_of :: "node \<Rightarrow> int option" where
  "owner_of n = (case n of FileNode _ _ u \<Rightarrow> Some u | DirNode _ u \<Rightarrow> Some u | _ \<Rightarrow> None)"

definition validateOwner :: "node \<Rightarrow> ('z, unit) key_io" where
  "validateOwner n = bindE (gets euid) (\<lambda>u. if owner_of n \<noteq> Some u then raise WrongOwner else ret ())"

definition resolveKeyPath :: "bool \<Rightarrow> ('z, string) key_io" where
  "resolveKeyPath encryptedCredentialsExist =
     bindE (gets (\<lambda>s. trim_space (env_key_path s))) (\<lambda>configured.
     if configured \<noteq> [] then
       if \<not> has_prefix ''/'' configured then raise KeyPathNotAbsolute
       else gets (\<lambda>s. clean_path s configured)
     else
       bindE (gets legacy_path) (\<lambda>lp. case lp of
         None \<Rightarrow> raise FsError
       | Some legacyPath \<Rightarrow>
           bindE (lstat legacyPath) (\<lambda>info.
           if info \<noteq> None then ret legacyPath
           else
             bindE (gets config_dir) (\<lambda>cd. case cd of
               None \<Rightarrow> raise FsError
             | Some configDir \<Rightarrow>
                 let stablePath = configDir @ ''/mosona-manager/key'' in
                 bindE (lstat stablePath) (\<lambda>info.
                 if info \<noteq> None then ret stablePath
                 else if \<not> encryptedCredentialsExist then ret stablePath
                 else ret legacyPath)))))"

text \<open>The modes \<open>0700\<close> and \<open>0600\<close>.\<close>

definition dir_mode :: int where "dir_mode = 448"
definition key_mode :: int where "key_mode = 384"

definition check_directory :: "string \<Rightarrow> node option \<Rightarrow> ('z, unit) key_io" where
  "check_directory dir info =
     (case info of
        Some (DirNode p u) \<Rightarrow>
          bindE (validateOwner (DirNode p u)) (\<lambda>_.
          if p \<noteq> dir_mode then chmod dir dir_mode else ret ())
      | None \<Rightarrow> raise FsError
      | Some _ \<Rightarrow> raise KeyDirInvalid)"

text \<open>\<open>os.MkdirAll\<close> leaves what exists; the ancestors of the directory are not part of the model.\<close>

definition mkdir :: "string \<Rightarrow> int \<Rightarrow> ('z, unit) key_io" where
  "mkdir dir p = fs_write (\<lambda>s. Some (if has_key (nodes s) dir then nodes s else (dir, DirNode p (euid s)) # nodes s))"

definition secureDirectory :: "string \<Rightarrow> ('z, unit) key_io" where
  "secureDirectory dir =
     bindE (lstat dir) (\<lambda>info.
     if info = None then
       bindE (mkdir dir dir_mode) (\<lambda>_. bindE (lstat dir) (check_directory dir))
     else check_directory dir info)"


definition validateKeyLength :: "string \<Rightarrow> ('z, unit) key_io" where
  "validateKeyLength key = (if valid_key_length key then ret () else raise KeyLengthInvalid)"

text \<open>The file is opened without following a link.\<close>

definition openKeyFile :: "string \<Rightarrow> ('z, node) key_io" where
  "openKeyFile path = bindE (fs_read (\<lambda>s. map_of (nodes s) path)) (\<lambda>n. case n of
      None \<Rightarrow> raise FsError
    | Some LinkNode \<Rightarrow> raise FsError
    | Some x \<Rightarrow> ret x)"

definition loadExistingKey :: "string \<Rightarrow> ('z, string) key_io" where
  "loadExistingKey keyPath =
     bindE (openKeyFile keyPath) (\<lambda>info. case info of
       FileNode content p u \<Rightarrow>
         bindE (validateOwner (FileNode content p u)) (\<lambda>_.
         bindE (if p \<noteq> key_mode then chmod keyPath key_mode else ret ()) (\<lambda>_.
         bindE (fs_read (\<lambda>_. take 33 content)) (\<lambda>key.
         bindE (validateKeyLength key) (\<lambda>_. ret key))))
     | _ \<Rightarrow> raise KeyNotRegular)"

definition write_temp :: "string \<Rightarrow> string \<Rightarrow> ('z, unit) key_io" where
  "write_temp tmp key =
     bindE (chmod tmp key_mode) (\<lambda>_.
     bindE (fs_write (\<lambda>s. Some (AList.map_entry tmp (\<lambda>n. case n of FileNode c p u \<Rightarrow> FileNode (c @ key) p u | _ \<Rightarrow> n) (nodes s)))) (\<lambda>_.
     bindE (fs_write (\<lambda>s. Some (nodes s))) (\<lambda>_.
     fs_write (\<lambda>s. Some (nodes s)))))"

text \<open>\<open>os.Link\<close> gives the file a second name, unless that name exists already.\<close>

definition link_file :: "string \<Rightarrow> string \<Rightarrow> ('z, unit) key_io" where
  "link_file tmp path = fs_write (\<lambda>s.
     if has_key (nodes s) path then None
     else map_option (\<lambda>n. (path, n) # nodes s) (map_of (nodes s) tmp))"

text \<open>A directory is opened and synced; a file system that cannot sync a directory counts as done.\<close>

definition syncDirectory :: "('z, unit) key_io" where
  "syncDirectory = bindE (fs_read (\<lambda>_. ())) (\<lambda>_. fs_write (\<lambda>s. Some (nodes s)))"

text \<open>Another process may have published its key since the path was looked up: its key is used then.\<close>

definition publish_key :: "string \<Rightarrow> string \<Rightarrow> string \<Rightarrow> ('z, string) key_io" where
  "publish_key tmp keyPath key =
     bindE (gets (\<lambda>s. has_key (nodes s) keyPath)) (\<lambda>exists.
     if exists then bindE (fs_read (\<lambda>_. ())) (\<lambda>_. loadExistingKey keyPath)
     else
       bindE (link_file tmp keyPath) (\<lambda>_.
       bindE syncDirectory (\<lambda>_. ret key)))"

text \<open>The temporary file is removed on every path; its removal may fail silently.\<close>

definition removing :: "string \<Rightarrow> ('z, 'a) key_io \<Rightarrow> ('z, 'a) key_io" where
  "removing tmp m = tryE m (\<lambda>r.
     tryE (fs_write (\<lambda>s. Some (AList.delete tmp (nodes s)))) (\<lambda>_. case r of Inl e \<Rightarrow> raise e | Inr x \<Rightarrow> ret x))"

definition createKey :: "string \<Rightarrow> ('z, string) key_io" where
  "createKey keyPath =
     bindE (gets (\<lambda>s. GenerateKey (random s) 32)) (\<lambda>k. case k of
       Inl e \<Rightarrow> raise (Crypt e)
     | Inr key \<Rightarrow>
         bindE (gets temp_path) (\<lambda>tmp.
         bindE (fs_write (\<lambda>s. if has_key (nodes s) tmp then None else Some ((tmp, FileNode [] key_mode (euid s)) # nodes s))) (\<lambda>_.
         removing tmp (bindE (write_temp tmp key) (\<lambda>_. publish_key tmp keyPath key)))))"

definition initializeKey :: "string \<Rightarrow> bool \<Rightarrow> ('z, string) key_io" where
  "initializeKey keyPath encryptedCredentialsExist =
     bindE (lstat keyPath) (\<lambda>info. case info of
       Some (FileNode _ _ _) \<Rightarrow>
         bindE (gets (\<lambda>s. dir_of s keyPath)) (\<lambda>dir.
         bindE (secureDirectory dir) (\<lambda>_. loadExistingKey keyPath))
     | Some _ \<Rightarrow> raise KeyNotRegular
     | None \<Rightarrow>
         if encryptedCredentialsExist then raise ErrKeyMissing
         else
           bindE (gets (\<lambda>s. dir_of s keyPath)) (\<lambda>dir.
           bindE (secureDirectory dir) (\<lambda>_. createKey keyPath)))"

definition Initialize :: "bool \<Rightarrow> ('z, string) key_io" where
  "Initialize encryptedCredentialsExist =
     bindE (modify (master_key_update (\<lambda>_. None))) (\<lambda>_.
     bindE (resolveKeyPath encryptedCredentialsExist) (\<lambda>keyPath.
     bindE (initializeKey keyPath encryptedCredentialsExist) (\<lambda>key.
     bindE (modify (master_key_update (\<lambda>_. Some key))) (\<lambda>_. ret keyPath))))"

subsection \<open>No key is lost\<close>

text \<open>Files keep their contents and owners; only permissions may change.\<close>

definition kept_by :: "(string, node) table \<Rightarrow> (string, node) table \<Rightarrow> bool" where
  "kept_by ns ns' \<longleftrightarrow>
     (\<forall>path c p u. map_of ns path = Some (FileNode c p u) \<longrightarrow> (\<exists>p'. map_of ns' path = Some (FileNode c p' u)))"

lemma kept_by_refl [simp]: "kept_by ns ns"
  by (simp add: kept_by_def)

lemma kept_by_trans: "kept_by a b \<Longrightarrow> kept_by b c \<Longrightarrow> kept_by a c"
  unfolding kept_by_def by meson

lemma kept_by_set_perm: "kept_by ns (AList.map_entry path (set_perm p) ns)"
  by (auto simp: kept_by_def map_of_map_entry set_perm_def)

lemma set_perm_kept_by: "kept_by (AList.map_entry path (set_perm p) ns) ns"
  by (auto simp: kept_by_def map_of_map_entry set_perm_def split: if_splits option.splits node.splits)

lemma kept_by_new: "map_of ns path = None \<Longrightarrow> kept_by ns ((path, n) # ns)"
  by (auto simp: kept_by_def)

lemma new_kept_by: "map_of ns path = None \<Longrightarrow> kept_by ((path, DirNode p u) # ns) ns"
  by (auto simp: kept_by_def)

text \<open>
  The state of the process apart from its calls and nodes does not change; \<open>old\<close> holds for the
  nodes on every path.
\<close>

definition same_process :: "'z fsenv_scheme \<Rightarrow> 'z fsenv_scheme \<Rightarrow> bool" where
  "same_process s t \<longleftrightarrow> euid t = euid s \<and> temp_path t = temp_path s \<and> random t = random s \<and> dir_of t = dir_of s \<and> master_key t = master_key s"

definition key_inv :: "('z fsenv_scheme) \<Rightarrow> ((string, node) table \<Rightarrow> bool) \<Rightarrow> 'z fsenv_scheme \<Rightarrow> bool" where
  "key_inv s0 J s \<longleftrightarrow> same_process s0 s \<and> J (nodes s)"

lemma keeps_fs_read [keeps_intros]: "keeps (key_inv s0 J) (fs_read f)"
  by (rule keepsI) (simp add: key_inv_def same_process_def fs_read_def next_call_def)

lemma keeps_fs_write:
  assumes "\<And>s ns. key_inv s0 J s \<Longrightarrow> f s = Some ns \<Longrightarrow> J ns"
    "\<And>s k. f (s\<lparr>calls := k\<rparr>) = f s"
  shows "keeps (key_inv s0 J) (fs_write f)"
proof (rule keepsI)
  fix s
  assume s: "key_inv s0 J s"
  show "key_inv s0 J (snd (fs_write f s))"
  proof (cases "f s")
    case None
    then show ?thesis using s assms(2) by (auto simp: key_inv_def same_process_def fs_write_def next_call_def split: outcome.splits)
  next
    case (Some ns)
    with s assms(1) have "J ns" by blast
    with Some s show ?thesis
      using assms(2) by (auto simp: key_inv_def same_process_def fs_write_def next_call_def split: outcome.splits)
  qed
qed

lemma keeps_lstat [keeps_intros]: "keeps (key_inv s0 J) (lstat path)"
  unfolding lstat_def by (rule keeps_fs_read)

lemma keeps_validateOwner [keeps_intros]: "keeps (key_inv s0 J) (validateOwner n)"
  unfolding validateOwner_def by (intro keeps_intros)

text \<open>Invariants that permissions do not touch.\<close>

definition perm_stable :: "((string, node) table \<Rightarrow> bool) \<Rightarrow> bool" where
  "perm_stable J \<longleftrightarrow> (\<forall>ns path p. J ns \<longrightarrow> J (AList.map_entry path (set_perm p) ns)) \<and>
     (\<forall>ns path p u. J ns \<longrightarrow> map_of ns path = None \<longrightarrow> J ((path, DirNode p u) # ns))"

lemma keeps_chmod: "perm_stable J \<Longrightarrow> keeps (key_inv s0 J) (chmod path p)"
  unfolding chmod_def by (rule keeps_fs_write) (auto simp: key_inv_def perm_stable_def)

lemma keeps_check_directory: "perm_stable J \<Longrightarrow> keeps (key_inv s0 J) (check_directory dir info)"
  unfolding check_directory_def
  by (auto intro!: keeps_intros keeps_chmod split: option.splits node.splits)

lemma keeps_mkdir: "perm_stable J \<Longrightarrow> keeps (key_inv s0 J) (mkdir dir p)"
  unfolding mkdir_def by (rule keeps_fs_write) (auto simp: key_inv_def perm_stable_def has_key_def)

lemma keeps_secureDirectory: "perm_stable J \<Longrightarrow> keeps (key_inv s0 J) (secureDirectory dir)"
  unfolding secureDirectory_def
  by (intro keeps_bindE keeps_if keeps_lstat keeps_check_directory keeps_mkdir)

lemma keeps_loadExistingKey:
  assumes "perm_stable J"
  shows "keeps (key_inv s0 J) (loadExistingKey path)"
proof -
  have "keeps (key_inv s0 J) (case n of None \<Rightarrow> raise FsError | Some LinkNode \<Rightarrow> raise FsError | Some x \<Rightarrow> ret x)" for n
    by (cases n; simp add: keeps_intros; rename_tac x, case_tac x; simp add: keeps_intros)
  moreover have "keeps (key_inv s0 J) (case info of
       FileNode content p u \<Rightarrow>
         bindE (validateOwner (FileNode content p u)) (\<lambda>_.
         bindE (if p \<noteq> key_mode then chmod path key_mode else ret ()) (\<lambda>_.
         bindE (fs_read (\<lambda>_. take 33 content)) (\<lambda>key.
         bindE (validateKeyLength key) (\<lambda>_. ret key))))
     | _ \<Rightarrow> raise KeyNotRegular)" for info
    by (cases info; simp only: node.case validateKeyLength_def; intro keeps_intros keeps_chmod assms)
  ultimately show ?thesis
    unfolding loadExistingKey_def openKeyFile_def by (intro keeps_bindE keeps_fs_read) auto
qed

lemma keeps_link_file:
  assumes "\<And>ns path n. J ns \<Longrightarrow> map_of ns path = None \<Longrightarrow> J ((path, n) # ns)"
  shows "keeps (key_inv s0 J) (link_file tmp path)"
  unfolding link_file_def
  by (rule keeps_fs_write) (auto simp: key_inv_def assms has_key_def split: if_splits)

lemma keeps_syncDirectory: "keeps (key_inv s0 J) syncDirectory"
  unfolding syncDirectory_def
  by (intro keeps_bindE keeps_fs_read keeps_fs_write) (auto simp: key_inv_def)

lemma keeps_resolveKeyPath: "keeps (key_inv s0 J) (resolveKeyPath e)"
  unfolding resolveKeyPath_def Let_def
  by (intro keeps_bindE keeps_if keeps_case_option keeps_gets keeps_raise keeps_ret keeps_lstat)

text \<open>
  The nodes a fresh key may pass through: the old files are kept, and the temporary name was free
  before.
\<close>

definition old_kept :: "string \<Rightarrow> (string, node) table \<Rightarrow> (string, node) table \<Rightarrow> bool" where
  "old_kept tmp old ns \<longleftrightarrow> map_of old tmp = None \<and> kept_by old ns"

lemma perm_stable_old_kept: "perm_stable (old_kept tmp old)"
  by (auto simp: perm_stable_def old_kept_def intro: kept_by_trans kept_by_set_perm kept_by_new)

lemma perm_stable_no_new: "perm_stable (\<lambda>ns. kept_by old ns \<and> kept_by ns old)"
  unfolding perm_stable_def
  by (intro conjI allI impI; meson kept_by_trans kept_by_set_perm set_perm_kept_by kept_by_new new_kept_by)

lemma old_kept_touch:
  "old_kept tmp old ns \<Longrightarrow> old_kept tmp old (AList.map_entry tmp f ns)"
  "old_kept tmp old ns \<Longrightarrow> old_kept tmp old (AList.delete tmp ns)"
  "old_kept tmp old ns \<Longrightarrow> map_of ns path = None \<Longrightarrow> old_kept tmp old ((path, n) # ns)"
  by (auto simp: old_kept_def kept_by_def map_of_map_entry AList.delete_conv')
    (metis option.distinct(1))

lemma keeps_publish_key: "keeps (key_inv s0 (old_kept tmp old)) (publish_key tmp path key)"
  unfolding publish_key_def
  by (intro keeps_bindE keeps_if keeps_gets keeps_ret keeps_fs_read keeps_syncDirectory keeps_link_file
      keeps_loadExistingKey perm_stable_old_kept old_kept_touch)

lemma keeps_write_temp: "keeps (key_inv s0 (old_kept tmp old)) (write_temp tmp key)"
  unfolding write_temp_def
  by (intro keeps_bindE keeps_chmod perm_stable_old_kept keeps_fs_write) (auto simp: key_inv_def old_kept_touch)

lemma keeps_removing:
  "keeps (key_inv s0 (old_kept tmp old)) m \<Longrightarrow> keeps (key_inv s0 (old_kept tmp old)) (removing tmp m)"
  unfolding removing_def
  by (intro keeps_tryE keeps_case_sum keeps_raise keeps_ret keeps_fs_write) (auto simp: key_inv_def old_kept_touch)

lemma run_gets: "bindE (gets f) g s = g (f s) s"
  by (simp add: bindE_run gets_def)

lemma run_modify: "bindE (modify f) g s = g () (f s)"
  by (simp add: bindE_run modify_def)

lemma keeps_createKey:
  assumes "tmp = temp_path s0"
  shows "keeps (key_inv s0 (old_kept tmp old)) (createKey path)"
proof -
  let ?I = "key_inv s0 (old_kept tmp old)"
  have rest: "keeps ?I (bindE (fs_write (\<lambda>s. if has_key (nodes s) tmp then None else Some ((tmp, FileNode [] key_mode (euid s)) # nodes s))) (\<lambda>_.
         removing tmp (bindE (write_temp tmp key) (\<lambda>_. publish_key tmp path key))))" for key
    by (intro keeps_bindE keeps_removing keeps_write_temp keeps_publish_key keeps_fs_write)
      (auto simp: key_inv_def has_key_def old_kept_touch split: if_splits)
  show ?thesis
  proof (rule keepsI)
    fix s
    assume s: "?I s"
    then have "temp_path s = tmp" using assms by (simp add: key_inv_def same_process_def)
    with s rest show "?I (snd (createKey path s))"
      by (cases "GenerateKey (random s) 32") (simp_all add: createKey_def run_gets raise_def keeps_def cong: if_cong)
  qed
qed

subsection \<open>The key in use is the key on disk\<close>

lemma fs_read_Inr: "fs_read f s = (Inr x, t) \<Longrightarrow> t = s\<lparr>calls := Suc (calls s)\<rparr> \<and> x = f t"
  by (auto simp: fs_read_def next_call_def split: if_splits)

lemma fs_write_Inr:
  "fs_write f s = (Inr x, t) \<Longrightarrow> \<exists>ns. f (s\<lparr>calls := Suc (calls s)\<rparr>) = Some ns \<and> t = s\<lparr>calls := Suc (calls s), nodes := ns\<rparr>"
  by (auto simp: fs_write_def next_call_def split: outcome.splits option.splits)

definition on_disk :: "'z fsenv_scheme \<Rightarrow> string \<Rightarrow> string \<Rightarrow> bool" where
  "on_disk s path key \<longleftrightarrow> valid_key_length key \<and> map_of (nodes s) path = Some (FileNode key key_mode (euid s))"

lemma openKeyFile_Inr:
  assumes "openKeyFile path s = (Inr n, t)"
  shows "map_of (nodes t) path = Some n"
proof -
  from assms obtain m u where r: "fs_read (\<lambda>s. map_of (nodes s) path) s = (Inr m, u)"
    and rest: "(case m of None \<Rightarrow> raise FsError | Some LinkNode \<Rightarrow> raise FsError | Some x \<Rightarrow> ret x) u = (Inr n, t)"
    unfolding openKeyFile_def bindE_Inr_iff by blast
  from rest have "m = Some n \<and> t = u"
    by (cases m; simp add: raise_def ret_def; rename_tac x, case_tac x) (auto simp: raise_def ret_def)
  with fs_read_Inr [OF r] show ?thesis by simp
qed

lemma loadExistingKey_Inr:
  assumes "loadExistingKey path s = (Inr key, t)"
  shows "on_disk t path key"
proof -
  from assms obtain n s1 where o: "openKeyFile path s = (Inr n, s1)"
    and rest: "(case n of FileNode content p u \<Rightarrow>
         bindE (validateOwner (FileNode content p u)) (\<lambda>_.
         bindE (if p \<noteq> key_mode then chmod path key_mode else ret ()) (\<lambda>_.
         bindE (fs_read (\<lambda>_. take 33 content)) (\<lambda>key.
         bindE (validateKeyLength key) (\<lambda>_. ret key))))
     | _ \<Rightarrow> raise KeyNotRegular) s1 = (Inr key, t)"
    by (auto simp: loadExistingKey_def bindE_Inr_iff)
  then obtain c p u where n: "n = FileNode c p u" by (cases n) (auto simp: raise_def)
  have s1: "map_of (nodes s1) path = Some (FileNode c p u)" using openKeyFile_Inr [OF o] n by simp
  from rest n obtain s2 where u: "u = euid s1" and ch: "(if p \<noteq> key_mode then chmod path key_mode else ret ()) s1 = (Inr (), s2)"
    and rd: "bindE (fs_read (\<lambda>_. take 33 c)) (\<lambda>key. bindE (validateKeyLength key) (\<lambda>_. ret key)) s2 = (Inr key, t)"
    by (auto simp: bindE_Inr_iff validateOwner_def gets_def raise_def ret_def owner_of_def split: if_splits)
  have s2: "map_of (nodes s2) path = Some (FileNode c key_mode (euid s2))"
    using ch s1 u by (auto simp: chmod_def ret_def map_of_map_entry set_perm_def dest!: fs_write_Inr split: if_splits)
  have t: "key = take 33 c" "valid_key_length key" "nodes t = nodes s2" "euid t = euid s2"
    using rd by (auto simp: bindE_Inr_iff validateKeyLength_def raise_def ret_def dest!: fs_read_Inr split: if_splits)
  then have "key = c" by (auto simp: valid_key_length_def)
  with s2 t show ?thesis by (simp add: on_disk_def)
qed

lemma write_temp_Inr:
  assumes "write_temp tmp key s = (Inr (), t)" "map_of (nodes s) tmp = Some (FileNode [] p u)"
  shows "map_of (nodes t) tmp = Some (FileNode key key_mode u)" "euid t = euid s"
  using assms by (auto simp: write_temp_def chmod_def bindE_Inr_iff map_of_map_entry set_perm_def dest!: fs_write_Inr)

lemma link_file_Inr:
  assumes "link_file tmp path s = (Inr (), t)"
  shows "map_of (nodes t) path = map_of (nodes s) tmp \<and> map_of (nodes s) tmp \<noteq> None \<and> euid t = euid s"
  using assms by (auto simp: link_file_def dest!: fs_write_Inr split: if_splits)

text \<open>Whoever published the key, the key returned is the one under the path.\<close>

lemma publish_key_Inr:
  assumes run: "publish_key tmp path key s = (Inr k, t)"
    and tmp: "map_of (nodes s) tmp = Some (FileNode key key_mode (euid s))" and key: "valid_key_length key"
  shows "on_disk t path k"
proof (cases "has_key (nodes s) path")
  case True
  with run show ?thesis by (auto simp: publish_key_def run_gets bindE_Inr_iff intro: loadExistingKey_Inr)
next
  case False
  with run obtain s1 where l: "link_file tmp path s = (Inr (), s1)" and y: "syncDirectory s1 = (Inr (), t)" "k = key"
    by (auto simp: publish_key_def run_gets bindE_Inr_iff ret_def)
  from y have "nodes t = nodes s1 \<and> euid t = euid s1"
    by (auto simp: syncDirectory_def bindE_Inr_iff dest!: fs_read_Inr fs_write_Inr)
  with link_file_Inr [OF l] tmp key y show ?thesis by (simp add: on_disk_def)
qed

lemma removing_Inr:
  assumes "removing tmp m s = (Inr k, t)" "tmp \<noteq> path" "\<And>u. m s = (Inr k, u) \<Longrightarrow> on_disk u path k"
  shows "on_disk t path k"
proof -
  let ?rm = "fs_write (\<lambda>s. Some (AList.delete tmp (nodes s)))"
  obtain r u where m: "m s = (r, u)" by fastforce
  with assms(1) have r: "r = Inr k" and t: "t = snd (?rm u)"
    by (auto simp: removing_def tryE_run raise_def ret_def split: sum.splits)
  have "map_of (nodes t) path = map_of (nodes u) path \<and> euid t = euid u" unfolding t
    using assms(2) by (auto simp: fs_write_def next_call_def AList.delete_conv' split: outcome.splits)
  with assms(3) m r show ?thesis by (simp add: on_disk_def)
qed

lemma createKey_Inr:
  assumes run: "createKey path s = (Inr k, t)" and ne: "temp_path s \<noteq> path" and rand: "rand_ok (random s)"
  shows "on_disk t path k"
proof -
  let ?tmp = "temp_path s"
  from run obtain key s1 where key: "GenerateKey (random s) 32 = Inr key"
    and c: "fs_write (\<lambda>s. if has_key (nodes s) ?tmp then None else Some ((?tmp, FileNode [] key_mode (euid s)) # nodes s)) s = (Inr (), s1)"
    and r: "removing ?tmp (bindE (write_temp ?tmp key) (\<lambda>_. publish_key ?tmp path key)) s1 = (Inr k, t)"
    by (auto simp: createKey_def run_gets bindE_Inr_iff raise_def split: sum.splits)
  from key rand have len: "valid_key_length key" by (auto simp: GenerateKey_def rand_ok_def valid_key_length_def split: option.splits)
  from c have s1: "map_of (nodes s1) ?tmp = Some (FileNode [] key_mode (euid s1))"
    by (auto dest!: fs_write_Inr split: if_splits)
  show ?thesis
  proof (rule removing_Inr [OF r ne])
    fix u
    assume "bindE (write_temp ?tmp key) (\<lambda>_. publish_key ?tmp path key) s1 = (Inr k, u)"
    then obtain s2 where w: "write_temp ?tmp key s1 = (Inr (), s2)" and p: "publish_key ?tmp path key s2 = (Inr k, u)"
      by (auto simp: bindE_Inr_iff)
    from publish_key_Inr [OF p _ len] write_temp_Inr [OF w s1] show "on_disk u path k" by simp
  qed
qed

lemma initializeKey_Inr:
  assumes run: "initializeKey path e s = (Inr k, t)" and ne: "temp_path s \<noteq> path" and rand: "rand_ok (random s)"
  shows "on_disk t path k"
proof -
  have ps: "perm_stable (\<lambda>_. True)" by (simp add: perm_stable_def)
  from run obtain info s1 where l: "lstat path s = (Inr info, s1)"
    and c: "(case info of Some (FileNode _ _ _) \<Rightarrow> bindE (gets (\<lambda>s. dir_of s path)) (\<lambda>dir. bindE (secureDirectory dir) (\<lambda>_. loadExistingKey path))
     | Some _ \<Rightarrow> raise KeyNotRegular
     | None \<Rightarrow> if e then raise ErrKeyMissing else bindE (gets (\<lambda>s. dir_of s path)) (\<lambda>dir. bindE (secureDirectory dir) (\<lambda>_. createKey path))) s1 = (Inr k, t)"
    unfolding initializeKey_def bindE_Inr_iff by blast
  consider c p u where "info = Some (FileNode c p u)" | "info = None" "\<not> e"
    using c by (cases info; simp add: raise_def split: if_splits; rename_tac x, case_tac x) (auto simp: raise_def split: if_splits)
  then show ?thesis
  proof cases
    case 1
    with c show ?thesis by (auto simp: run_gets bindE_Inr_iff intro: loadExistingKey_Inr)
  next
    case 2
    with c obtain s2 where d: "secureDirectory (dir_of s1 path) s1 = (Inr (), s2)" and k: "createKey path s2 = (Inr k, t)"
      by (auto simp: run_gets bindE_Inr_iff)
    have "bindE (lstat path) (\<lambda>_. secureDirectory (dir_of s1 path)) s = (Inr (), s2)" using l d by (simp add: bindE_run)
    moreover have "keeps (key_inv s (\<lambda>_. True)) (bindE (lstat path) (\<lambda>_. secureDirectory (dir_of s1 path)))"
      by (intro keeps_bindE keeps_lstat keeps_secureDirectory ps)
    ultimately have "temp_path s2 = temp_path s \<and> random s2 = random s"
      using keeps_run [of "key_inv s (\<lambda>_. True)" "bindE (lstat path) (\<lambda>_. secureDirectory (dir_of s1 path))" s]
      by (simp add: key_inv_def same_process_def)
    with createKey_Inr [OF k] ne rand show ?thesis by simp
  qed
qed

lemma keeps_initializeKey:
  assumes "perm_stable J" "\<And>path. \<not> e \<Longrightarrow> keeps (key_inv s0 J) (createKey path)"
  shows "keeps (key_inv s0 J) (initializeKey path e)"
proof -
  have old: "keeps (key_inv s0 J) (bindE (gets (\<lambda>s. dir_of s path)) (\<lambda>dir. bindE (secureDirectory dir) (\<lambda>_. loadExistingKey path)))"
    by (intro keeps_bindE keeps_gets keeps_secureDirectory keeps_loadExistingKey assms)
  have new: "keeps (key_inv s0 J) (if e then raise ErrKeyMissing else bindE (gets (\<lambda>s. dir_of s path)) (\<lambda>dir. bindE (secureDirectory dir) (\<lambda>_. createKey path)))"
    by (intro keeps_if keeps_raise keeps_bindE keeps_gets keeps_secureDirectory assms)
  have "keeps (key_inv s0 J) (case info of
       Some (FileNode _ _ _) \<Rightarrow> bindE (gets (\<lambda>s. dir_of s path)) (\<lambda>dir. bindE (secureDirectory dir) (\<lambda>_. loadExistingKey path))
     | Some _ \<Rightarrow> raise KeyNotRegular
     | None \<Rightarrow> if e then raise ErrKeyMissing else bindE (gets (\<lambda>s. dir_of s path)) (\<lambda>dir. bindE (secureDirectory dir) (\<lambda>_. createKey path)))" for info
    using new old by (cases info; simp; rename_tac x, case_tac x) (simp_all add: keeps_raise)
  then show ?thesis unfolding initializeKey_def by (intro keeps_bindE keeps_lstat)
qed

text \<open>The run of \<open>Initialize\<close>, its first step done.\<close>

lemma Initialize_run:
  obtains (path) e' t' where "resolveKeyPath e (s\<lparr>master_key := None\<rparr>) = (Inl e', t')" "Initialize e s = (Inl e', t')"
  | (key) path u e' t' where "resolveKeyPath e (s\<lparr>master_key := None\<rparr>) = (Inr path, u)" "initializeKey path e u = (Inl e', t')" "Initialize e s = (Inl e', t')"
  | (found) path u k t' where "resolveKeyPath e (s\<lparr>master_key := None\<rparr>) = (Inr path, u)" "initializeKey path e u = (Inr k, t')"
      "Initialize e s = (Inr path, t'\<lparr>master_key := Some k\<rparr>)"
proof -
  let ?s = "s\<lparr>master_key := None\<rparr>"
  have I: "Initialize e s = bindE (resolveKeyPath e) (\<lambda>keyPath. bindE (initializeKey keyPath e) (\<lambda>key.
     bindE (modify (master_key_update (\<lambda>_. Some key))) (\<lambda>_. ret keyPath))) ?s"
    by (simp add: Initialize_def run_modify)
  obtain r u where r: "resolveKeyPath e ?s = (r, u)" by fastforce
  show thesis
  proof (cases r)
    case (Inl e')
    with r I that(1) show thesis by (simp add: bindE_run)
  next
    case (Inr path)
    obtain k v where k: "initializeKey path e u = (k, v)" by fastforce
    with r I Inr that(2,3) show thesis by (cases k) (simp_all add: bindE_run modify_def ret_def)
  qed
qed

text \<open>
  Initialising the master key loses no key and uses the key on disk, whichever system calls
  fail on the way: every file keeps its contents and owner; while encrypted credentials exist no
  file is created; on success the key in memory has a legal length and is the content of the
  file at the returned path, which belongs to the process and is readable by it alone; on an
  error no key is in use. The temporary name is fresh, as \<open>os.CreateTemp\<close> documents, and is
  not the key's own.
\<close>

theorem Initialize_correct:
  assumes tmp: "map_of (nodes s) (temp_path s) = None" and rand: "rand_ok (random s)"
    and ne: "fst (resolveKeyPath e (s\<lparr>master_key := None\<rparr>)) \<noteq> Inr (temp_path s)"
    and run: "Initialize e s = (r, t)"
  shows "kept_by (nodes s) (nodes t) \<and> (e \<longrightarrow> kept_by (nodes t) (nodes s)) \<and>
    (case r of
       Inl _ \<Rightarrow> master_key t = None
     | Inr path \<Rightarrow> \<exists>key. master_key t = Some key \<and> valid_key_length key \<and>
         map_of (nodes t) path = Some (FileNode key key_mode (euid s)))"
proof -
  let ?s = "s\<lparr>master_key := None\<rparr>"
  let ?J = "\<lambda>ns. if e then kept_by (nodes s) ns \<and> kept_by ns (nodes s) else old_kept (temp_path s) (nodes s) ns"
  have stable: "perm_stable ?J" using perm_stable_no_new perm_stable_old_kept by (cases e) simp_all
  have "keeps (key_inv ?s ?J) (createKey path)" if "\<not> e" for path
    using keeps_createKey [of "temp_path s" ?s "nodes s"] that by simp
  then have keys: "keeps (key_inv ?s ?J) (initializeKey path e)" for path
    by (intro keeps_initializeKey [OF stable]) auto
  have I: "key_inv ?s ?J ?s" using tmp by (simp add: key_inv_def same_process_def old_kept_def)
  have J: "kept_by (nodes s) (nodes u) \<and> (e \<longrightarrow> kept_by (nodes u) (nodes s)) \<and> euid u = euid s \<and>
      temp_path u = temp_path s \<and> random u = random s \<and> master_key u = None" if "key_inv ?s ?J u" for u
    using that unfolding key_inv_def same_process_def old_kept_def by (cases e) simp_all
  note path_inv = keeps_run [OF keeps_resolveKeyPath I]
  show ?thesis
  proof (cases rule: Initialize_run [of e s])
    case (path e' t')
    with J [OF path_inv [OF path(1)]] run show ?thesis by auto
  next
    case (key path u e' t')
    with J [OF keeps_run [OF keys path_inv [OF key(1)] key(2)]] run show ?thesis by auto
  next
    case (found path u k t')
    note u = J [OF path_inv [OF found(1)]]
    note t' = J [OF keeps_run [OF keys path_inv [OF found(1)] found(2)]]
    have "on_disk t' path k" using initializeKey_Inr [OF found(2)] u ne found(1) rand by auto
    with t' found(3) run show ?thesis by (auto simp: on_disk_def)
  qed
qed

definition sample_process :: "bool \<Rightarrow> fsenv" where
  "sample_process taken =
     \<lparr>calls = 0, outcomes = (\<lambda>_. Done), reads = 0, clock = (\<lambda>_. 0), team_seq = 0,
      tabs = \<lparr>users = [], teams = [], m_team_user = [], users_config = [], categories = []\<rparr>,
      nodes = (if taken then [(''/k'', FileNode (replicate 32 CHR ''a'') 420 7), (''/'', DirNode 493 7)] else [(''/'', DirNode 448 7)]),
      euid = 7, env_key_path = '' /k'', legacy_path = None, config_dir = None,
      clean_path = (\<lambda>p. p), dir_of = (\<lambda>_. ''/''), temp_path = ''/.key-1'',
      random = (\<lambda>n. Some (replicate n CHR ''b'')), master_key = None\<rparr>"

lemma sample_process_runs:
  "fst (Initialize False (sample_process False)) = Inr ''/k''"
  "fst (Initialize True (sample_process True)) = Inr ''/k''"
  by code_simp+

theorem Initialize_correct_witness:
  "kept_by (nodes (sample_process True)) (nodes (snd (Initialize True (sample_process True)))) \<and>
   kept_by (nodes (snd (Initialize True (sample_process True)))) (nodes (sample_process True)) \<and>
   (\<exists>key. master_key (snd (Initialize True (sample_process True))) = Some key \<and> valid_key_length key \<and>
     map_of (nodes (snd (Initialize True (sample_process True)))) ''/k'' = Some (FileNode key key_mode 7))"
proof -
  let ?s = "sample_process True"
  have s: "euid ?s = 7" "map_of (nodes ?s) (temp_path ?s) = None" "rand_ok (random ?s)"
    by (simp_all add: sample_process_def rand_ok_def)
  have "fst (resolveKeyPath True (?s\<lparr>master_key := None\<rparr>)) \<noteq> Inr (temp_path ?s)" by code_simp
  from Initialize_correct [OF s(2,3) this prod.collapse [symmetric]] s(1) sample_process_runs(2) show ?thesis by simp
qed

section \<open>A stored credential opens only in its own place\<close>

text \<open>
  (C14) A credential encrypted for a field of a record decrypts to itself there and nowhere else: under
  the context of any other record or field the envelope is not authentic. What \<open>Encrypt\<close> writes
  carries the current magic and version, and \<open>Decrypt\<close> refuses everything else. The cipher is
  authenticated and the random source answers with the bytes asked for.
\<close>

theorem credentials_bound:
  assumes C: "ciphers_ok C" and rand: "rand_ok rand" and enc: "encrypt_Encrypt C rand p key (credential_context a) = Inr c"
  shows "encrypt_Decrypt C c key (credential_context b) = (if b = a then Inr p else Inl NotAuthentic) \<and>
    IsCurrentCiphertext c \<and>
    (encrypt_Decrypt C c' key ctx = Inr p' \<longrightarrow> IsCurrentCiphertext c')"
proof -
  let ?h = "envelopeMagic @ [envelopeVersion]"
  from encrypt_Encrypt_Inr [OF enc rand] obtain n where n: "length n = nonce_size" "valid_key_length key"
    and c: "c = ?h @ n @ gcm_seal C key n p (associatedData ?h (credential_context a))" by blast
  have "encrypt_Decrypt C c key (credential_context b) = (if credential_context b = credential_context a then Inr p else Inl NotAuthentic)"
    unfolding c by (rule decrypt_of_envelope [OF C n refl])
  moreover have "IsCurrentCiphertext c" by (simp add: c IsCurrentCiphertext_def nth_append)
  moreover have "IsCurrentCiphertext c'" if "encrypt_Decrypt C c' key ctx = Inr p'"
    using that
    by (auto simp: encrypt_Decrypt_def decryptEnvelope_def IsVersionedCiphertext_def IsCurrentCiphertext_def Let_def has_prefix_def split: if_splits)
  ultimately show ?thesis using credential_context_inject [of b a] by auto
qed

text \<open>A cipher that writes its nonce and associated data in front of the plaintext satisfies the laws.\<close>

definition sample_frame :: "string \<Rightarrow> string" where
  "sample_frame x = replicate (length x) CHR ''1'' @ CHR ''0'' # x"

definition sample_ciphers :: ciphers where
  "sample_ciphers = \<lparr>
     gcm_seal = (\<lambda>k n p a. replicate 16 CHR ''t'' @ sample_frame n @ sample_frame a @ p),
     gcm_open = (\<lambda>k n c a. let h = replicate 16 CHR ''t'' @ sample_frame n @ sample_frame a in
        if has_prefix h c then Some (drop (length h) c) else None),
     cbc_decrypt = (\<lambda>k iv c. c)\<rparr>"

lemma sample_frame_inject: "sample_frame x @ r = sample_frame y @ r' \<Longrightarrow> x = y \<and> r = r'"
proof -
  assume eq: "sample_frame x @ r = sample_frame y @ r'"
  have "takeWhile (\<lambda>c. c = CHR ''1'') (sample_frame z @ u) = replicate (length z) CHR ''1''" for z u
    by (simp add: sample_frame_def) (subst takeWhile_append2; simp)
  with eq have "replicate (length x) CHR ''1'' = replicate (length y) CHR ''1''" by metis
  then have "length x = length y" by (metis length_replicate)
  with eq show ?thesis by (simp add: sample_frame_def)
qed

lemma sample_ciphers_ok: "ciphers_ok sample_ciphers"
proof -
  have "n' = n \<and> a' = a" if "has_prefix (replicate 16 CHR ''t'' @ sample_frame n' @ sample_frame a') (replicate 16 CHR ''t'' @ sample_frame n @ sample_frame a @ p)" for n n' a a' p
  proof -
    from that obtain r where "sample_frame n @ sample_frame a @ p = sample_frame n' @ sample_frame a' @ r" by (elim has_prefixE) simp
    with sample_frame_inject show ?thesis by metis
  qed
  moreover have "has_prefix (replicate 16 CHR ''t'' @ sample_frame n @ sample_frame a) (replicate 16 CHR ''t'' @ sample_frame n @ sample_frame a @ p)" for n a p
    using has_prefix_append [of "replicate 16 CHR ''t'' @ sample_frame n @ sample_frame a" p] by simp
  ultimately show ?thesis
    unfolding ciphers_ok_def sample_ciphers_def by (auto simp: Let_def gcm_overhead_def)
qed

theorem credentials_bound_witness:
  "\<exists>c. encrypt_Encrypt sample_ciphers (\<lambda>n. Some (replicate n CHR ''n'')) ''secret'' (replicate 32 CHR ''k'') (credential_context (SSHPassword 9)) = Inr c \<and>
    encrypt_Decrypt sample_ciphers c (replicate 32 CHR ''k'') (credential_context (SSHPassword 9)) = Inr ''secret'' \<and>
    encrypt_Decrypt sample_ciphers c (replicate 32 CHR ''k'') (credential_context (SSHPassword 10)) = Inl NotAuthentic \<and>
    IsCurrentCiphertext c"
proof -
  let ?k = "replicate 32 CHR ''k''" and ?r = "\<lambda>n. Some (replicate n CHR ''n'')"
  have r: "rand_ok ?r" by (simp add: rand_ok_def)
  have "valid_key_length ?k" by (simp add: valid_key_length_def)
  then obtain c where c: "encrypt_Encrypt sample_ciphers ?r ''secret'' ?k (credential_context (SSHPassword 9)) = Inr c"
    unfolding encrypt_Encrypt_def newGCM_def Let_def by simp
  note ok = credentials_bound [OF sample_ciphers_ok r c]
  from c ok [of "SSHPassword 9" "[]" "[]" "[]"] ok [of "SSHPassword 10" "[]" "[]" "[]"] show ?thesis by auto
qed

end
