(* ===== verification/Servers.thy ===== *)
theory Servers
  imports Encryption Database
begin

text \<open>
  Servers and their credentials in the database: \<open>internal/db/server.go\<close>, \<open>key.go\<close>,
  \<open>category.go\<close>, \<open>agent.go\<close> and \<open>encryption.go\<close>, over the tables of servers, their
  details, SSH accounts, agents, enrolment tokens, keys, categories and alert rules with the
  constraints of the schema. Credentials are stored in envelopes of the encryption component.
\<close>

declare map_of_eq_Some_iff [simp del]

section \<open>Tables\<close>

record srv_row =
  srv_team :: int
  srv_name :: string
  srv_type :: int
  srv_category :: int
  srv_monitor :: bool
  srv_terminal :: bool
  srv_public :: bool
  srv_weight :: int

record server_details =
  sd_note :: "string option"
  sd_provider :: "string option"
  sd_cycle :: "int option"
  sd_start_time :: "go_time option"
  sd_end_time :: "go_time option"
  sd_amount :: "string option"
  sd_auto_renew :: "bool option"
  sd_bandwidth :: "string option"
  sd_traffic :: "string option"
  sd_traffic_type :: "int option"
  sd_note_public :: "string option"

text \<open>The columns of \<open>server_info\<close> an agent reports.\<close>

record server_runtime =
  rt_os :: "string option"
  rt_county :: "string option"
  rt_area :: "string option"
  rt_open_time :: "go_time option"
  rt_online :: bool

record server_adv =
  av_hostname :: "string option"
  av_cpu_name :: "string option"
  av_core_c :: "int option"
  av_core_t :: "int option"
  av_kernel :: "string option"
  av_ip :: "string option"
  av_arch :: "string option"

definition no_runtime :: server_runtime where
  "no_runtime = \<lparr>rt_os = None, rt_county = None, rt_area = None, rt_open_time = None, rt_online = False\<rparr>"

definition no_adv :: server_adv where
  "no_adv = \<lparr>av_hostname = None, av_cpu_name = None, av_core_c = None, av_core_t = None, av_kernel = None, av_ip = None, av_arch = None\<rparr>"

record public_page =
  pp_enabled :: bool
  pp_name :: "string option"
  pp_domain :: "string option"
  pp_title :: "string option"
  pp_description :: "string option"
  pp_css :: "string option"

record ssh_row =
  ssh_address :: string
  ssh_port :: int
  ssh_username :: string
  ssh_key_id :: int
  ssh_password :: string
  ssh_host_key :: "string option"
  ssh_trust_legacy :: bool

record agent_row =
  ag_uid :: string
  ag_status :: int
  ag_ip :: string
  ag_version :: string
  ag_public_key :: string
  ag_private_key :: string
  ag_protocol :: int
  ag_host :: string
  ag_port :: int

record key_row =
  k_team :: int
  k_name :: string
  k_content :: string
  k_password :: "string option"

record category_row =
  cat_team :: int
  cat_name :: string
  cat_sort :: int

record enroll_row =
  en_hash :: string
  en_revoked :: bool

text \<open>
  The alert rules appear with the columns this component writes: threshold and duration. The rows of
  \<open>server_info\<close> are \<open>details\<close> and \<open>runtime\<close> together. Notifications are in the order of their identifiers.
  Columns that only record when a row was written are left out.
\<close>

record server_db =
  known_teams :: "int list"
  srvs :: "(int, srv_row) table"
  details :: "(int, server_details) table"
  runtime :: "(int, server_runtime) table"
  advanced :: "(int, server_adv) table"
  sshs :: "(int, ssh_row) table"
  agents :: "(int, agent_row) table"
  enrolls :: "(int, enroll_row) table"
  cred_keys :: "(int, key_row) table"
  cats :: "(int, category_row) table"
  rules :: "(int \<times> string, int \<times> int) table"
  team_rules :: "(int \<times> string, int \<times> int) table"
  notifs :: "(int \<times> string \<times> string) list"
  public_pages :: "(int, public_page) table"
  srv_seq :: int
  key_seq :: int
  cat_seq :: int

text \<open>The process holds the master key; \<open>entropy n\<close> is the \<open>n\<close>-th draw from the random source.\<close>

record srvenv = "server_db dbenv" +
  draws :: nat
  entropy :: "nat \<Rightarrow> nat \<Rightarrow> string option"
  hub_key :: string
  hub_ciphers :: ciphers

type_synonym ('z, 'a) srv_io = "('z srvenv_scheme, err, 'a) io"

definition hub_encrypt :: "string \<Rightarrow> string \<Rightarrow> ('z, string) srv_io" where
  "hub_encrypt plaintext ctx = (\<lambda>s.
     (case encrypt_Encrypt (hub_ciphers s) (entropy s (draws s)) plaintext (hub_key s) ctx of
        Inl _ \<Rightarrow> Inl ErrCrypt | Inr c \<Rightarrow> Inr c, s\<lparr>draws := Suc (draws s)\<rparr>))"

definition hub_decrypt :: "string \<Rightarrow> string \<Rightarrow> ('z, string) srv_io" where
  "hub_decrypt c ctx = (\<lambda>s.
     (case encrypt_Decrypt (hub_ciphers s) c (hub_key s) ctx of Inl _ \<Rightarrow> Inl ErrCrypt | Inr p \<Rightarrow> Inr p, s))"

text \<open>An optional column is decrypted when it is not empty.\<close>

definition decrypt_nonempty :: "string \<Rightarrow> string \<Rightarrow> ('z, string) srv_io" where
  "decrypt_nonempty c ctx = (if c \<noteq> [] then hub_decrypt c ctx else ret [])"

section \<open>Keys: internal/db/key.go\<close>

definition nullableCiphertext :: "string \<Rightarrow> string option" where
  "nullableCiphertext c = (if c = [] then None else Some c)"

definition GetKeysByTeamID :: "int \<Rightarrow> ('z, (int \<times> string) list) srv_io" where
  "GetKeysByTeamID tid = query_db (\<lambda>d.
     map (\<lambda>(i, r). (i, k_name r)) (rev (sort_key fst (filter (\<lambda>(_, r). k_team r = tid) (cred_keys d)))))"

definition insert_key :: "int \<Rightarrow> string \<Rightarrow> server_db \<Rightarrow> (server_db \<times> int) option" where
  "insert_key tid nm d =
     (if tid \<notin> set (known_teams d) then None
      else Some (d\<lparr>cred_keys := (key_seq d + 1, \<lparr>k_team = tid, k_name = nm, k_content = [], k_password = None\<rparr>) # cred_keys d,
             key_seq := key_seq d + 1\<rparr>, key_seq d + 1))"

definition set_key :: "int \<Rightarrow> string \<Rightarrow> string option \<Rightarrow> server_db \<Rightarrow> server_db" where
  "set_key i content pwd d =
     d\<lparr>cred_keys := AList.map_entry i (\<lambda>r. r\<lparr>k_content := content, k_password := pwd\<rparr>) (cred_keys d)\<rparr>"

definition AddKey :: "int \<Rightarrow> string \<Rightarrow> string \<Rightarrow> string \<Rightarrow> ('z, int) srv_io" where
  "AddKey tid nm content pwd = transaction_db (
     bindE (exec_db_val (insert_key tid nm)) (\<lambda>i.
     bindE (hub_encrypt content (KeyContentContext i)) (\<lambda>k.
     bindE (if pwd \<noteq> [] then hub_encrypt pwd (KeyPasswordContext i) else ret []) (\<lambda>p.
     bindE (exec_db (\<lambda>d. Some (set_key i k (nullableCiphertext p) d))) (\<lambda>_. ret i)))))"

text \<open>What becomes of the password column: cleared, replaced or left.\<close>

datatype password_change = ClearPassword | SetPassword string | KeepPassword

definition change_key :: "int \<Rightarrow> int \<Rightarrow> string \<Rightarrow> password_change \<Rightarrow> server_db \<Rightarrow> server_db" where
  "change_key tid i nm ch d =
     d\<lparr>cred_keys := AList.map_entry i (\<lambda>r. if k_team r = tid
         then r\<lparr>k_name := nm, k_password := (case ch of ClearPassword \<Rightarrow> None | SetPassword p \<Rightarrow> Some p | KeepPassword \<Rightarrow> k_password r)\<rparr>
         else r) (cred_keys d)\<rparr>"

definition UpdateKey :: "int \<Rightarrow> int \<Rightarrow> string \<Rightarrow> string \<Rightarrow> ('z, unit) srv_io" where
  "UpdateKey tid i nm pwd =
     bindE (if pwd = ''!msn!empty!'' then ret ClearPassword
            else if pwd \<noteq> [] then bindE (hub_encrypt pwd (KeyPasswordContext i)) (\<lambda>p. ret (SetPassword p))
            else ret KeepPassword) (\<lambda>ch.
     exec_db (\<lambda>d. Some (change_key tid i nm ch d)))"

definition DeleteKey :: "int \<Rightarrow> int \<Rightarrow> ('z, unit) srv_io" where
  "DeleteKey tid i = exec_db (\<lambda>d. Some (d\<lparr>cred_keys := delete_where (\<lambda>j r. j = i \<and> k_team r = tid) (cred_keys d)\<rparr>))"

section \<open>Categories: internal/db/category.go\<close>

definition GetCategoryById :: "int \<Rightarrow> int \<Rightarrow> ('z, int \<times> string \<times> int) srv_io" where
  "GetCategoryById teamId categoryId = query_db_row (\<lambda>d.
     case map_of (cats d) categoryId of
       Some r \<Rightarrow> if cat_team r = teamId then Some (categoryId, cat_name r, cat_sort r) else None
     | None \<Rightarrow> None)"

definition cat_named :: "int \<Rightarrow> string \<Rightarrow> category_row \<Rightarrow> bool" where
  "cat_named team nm r \<longleftrightarrow> cat_team r = team \<and> cat_name r = nm"

definition insert_category_row :: "int \<Rightarrow> string \<Rightarrow> server_db \<Rightarrow> server_db option" where
  "insert_category_row team nm d =
     (if team \<notin> set (known_teams d) \<or> list_ex (\<lambda>(_, r). cat_named team nm r) (cats d) then None
      else Some (d\<lparr>cats := (cat_seq d + 1, \<lparr>cat_team = team, cat_name = nm, cat_sort = 0\<rparr>) # cats d, cat_seq := cat_seq d + 1\<rparr>))"

definition CreateCategory :: "int \<Rightarrow> string \<Rightarrow> ('z, unit) srv_io" where
  "CreateCategory teamId nm =
     bindE (query_db (\<lambda>d. length (filter (\<lambda>(_, r). cat_named teamId nm r) (cats d)))) (\<lambda>exist.
     if exist > 0 then raise ErrSameCategoryName else exec_db (insert_category_row teamId nm))"

text \<open>\<open>ORDER BY id LIMIT 1\<close>\<close>

definition default_category :: "int \<Rightarrow> server_db \<Rightarrow> int option" where
  "default_category team d =
     (case sort (map fst (filter (\<lambda>(_, r). cat_team r = team) (cats d))) of [] \<Rightarrow> None | i # _ \<Rightarrow> Some i)"

definition reassign_category :: "int \<Rightarrow> int \<Rightarrow> int \<Rightarrow> server_db \<Rightarrow> server_db" where
  "reassign_category new old team d =
     d\<lparr>srvs := map (\<lambda>(i, r). (i, if srv_category r = old \<and> srv_team r = team then r\<lparr>srv_category := new\<rparr> else r)) (srvs d)\<rparr>"

text \<open>A category that servers still refer to cannot be deleted.\<close>

definition delete_category :: "int \<Rightarrow> int \<Rightarrow> server_db \<Rightarrow> (server_db \<times> int) option" where
  "delete_category categoryId team d =
     (case map_of (cats d) categoryId of
        None \<Rightarrow> Some (d, 0)
      | Some r \<Rightarrow>
          if cat_team r \<noteq> team then Some (d, 0)
          else if list_ex (\<lambda>(_, sr). srv_team sr = team \<and> srv_category sr = categoryId) (srvs d) then None
          else Some (d\<lparr>cats := AList.delete categoryId (cats d)\<rparr>, 1))"

definition DeleteCategory :: "int \<Rightarrow> int \<Rightarrow> ('z, unit) srv_io" where
  "DeleteCategory teamId categoryId = transaction_db (
     bindE (query_db_row (default_category teamId)) (\<lambda>defaultCategoryId.
     if defaultCategoryId = categoryId then raise ErrCanNotDeleteDefaultCategory
     else
       bindE (exec_db (\<lambda>d. Some (reassign_category defaultCategoryId categoryId teamId d))) (\<lambda>_.
       bindE (exec_db_val (delete_category categoryId teamId)) (\<lambda>affected.
       if affected \<noteq> 1 then raise ErrNoRows else ret ()))))"

definition rename_category :: "int \<Rightarrow> int \<Rightarrow> string \<Rightarrow> server_db \<Rightarrow> server_db option" where
  "rename_category team categoryId nm d =
     (case map_of (cats d) categoryId of
        None \<Rightarrow> Some d
      | Some r \<Rightarrow>
          if cat_team r \<noteq> team then Some d
          else if list_ex (\<lambda>(i, q). i \<noteq> categoryId \<and> cat_named team nm q) (cats d) then None
          else Some (d\<lparr>cats := AList.map_entry categoryId (\<lambda>r. r\<lparr>cat_name := nm\<rparr>) (cats d)\<rparr>))"

definition EditCategory :: "int \<Rightarrow> int \<Rightarrow> string \<Rightarrow> ('z, unit) srv_io" where
  "EditCategory teamId categoryId nm =
     bindE (query_db (\<lambda>d. length (filter (\<lambda>(i, r). cat_named teamId nm r \<and> i \<noteq> categoryId) (cats d)))) (\<lambda>exist.
     if exist > 0 then raise ErrSameCategoryName else exec_db (rename_category teamId categoryId nm))"

definition sort_category :: "int \<Rightarrow> int \<Rightarrow> int \<Rightarrow> server_db \<Rightarrow> server_db" where
  "sort_category team index categoryId d =
     d\<lparr>cats := AList.map_entry categoryId (\<lambda>r. if cat_team r = team then r\<lparr>cat_sort := index\<rparr> else r) (cats d)\<rparr>"

definition SortCategories :: "int \<Rightarrow> int list \<Rightarrow> ('z, unit) srv_io" where
  "SortCategories teamId categoryIds = transaction_db (
     forE (enumerate 0 categoryIds) (\<lambda>(index, categoryId).
       exec_db (\<lambda>d. Some (sort_category teamId (int index) categoryId d))))"

definition GetCategoriesByTeam :: "int \<Rightarrow> ('z, (int \<times> string \<times> int) list) srv_io" where
  "GetCategoriesByTeam teamId = query_db (\<lambda>d.
     map (\<lambda>(i, r). (i, cat_name r, cat_sort r))
       (sort_key (\<lambda>(i, r). cat_sort r) (sort_key fst (filter (\<lambda>(_, r). cat_team r = teamId) (cats d)))))"

text \<open>The foreign key of a server's category: a category of the same team.\<close>

definition category_of_team :: "server_db \<Rightarrow> int \<Rightarrow> int \<Rightarrow> bool" where
  "category_of_team d team c \<longleftrightarrow> (case map_of (cats d) c of None \<Rightarrow> False | Some r \<Rightarrow> cat_team r = team)"

definition server_in_team :: "server_db \<Rightarrow> int \<Rightarrow> int \<Rightarrow> bool" where
  "server_in_team d team sid \<longleftrightarrow> (case map_of (srvs d) sid of None \<Rightarrow> False | Some r \<Rightarrow> srv_team r = team)"

definition set_server_category :: "int \<Rightarrow> int \<Rightarrow> int \<Rightarrow> server_db \<Rightarrow> server_db option" where
  "set_server_category team sid c d =
     (if \<not> server_in_team d team sid then Some d
      else if \<not> category_of_team d team c then None
      else Some (d\<lparr>srvs := AList.map_entry sid (\<lambda>r. r\<lparr>srv_category := c\<rparr>) (srvs d)\<rparr>))"

definition SetServerCategory :: "int \<Rightarrow> int \<Rightarrow> int \<Rightarrow> ('z, unit) srv_io" where
  "SetServerCategory teamId serverId categoryId = exec_db (set_server_category teamId serverId categoryId)"

section \<open>Servers: internal/db/server.go\<close>

text \<open>The body of an edit; \<open>PublicVisible\<close> and the details are optional.\<close>

record ServerFullType =
  sf_category :: int
  sf_name :: string
  sf_monitor :: bool
  sf_terminal :: bool
  sf_public :: "bool option"
  sf_weight :: int
  sf_details :: server_details
  sf_address :: string
  sf_port :: int
  sf_username :: string
  sf_password :: string
  sf_key_id :: int
  sf_host_key :: string
  sf_previous :: "string option"

record connection_info =
  ci_address :: string
  ci_port :: int
  ci_username :: string
  ci_key_id :: int
  ci_uid :: "string option"
  ci_status :: int
  ci_version :: "string option"

definition no_connection :: connection_info where
  "no_connection = \<lparr>ci_address = [], ci_port = 0, ci_username = [], ci_key_id = 0, ci_uid = None, ci_status = 0, ci_version = None\<rparr>"

definition connection_row :: "int \<Rightarrow> int \<Rightarrow> server_db \<Rightarrow> connection_info option" where
  "connection_row typ sid d =
     (if typ = 0 then map_option (\<lambda>r. no_connection\<lparr>ci_address := ssh_address r, ci_port := ssh_port r,
            ci_username := ssh_username r, ci_key_id := ssh_key_id r\<rparr>) (map_of (sshs d) sid)
      else if typ = 1 then map_option (\<lambda>r. no_connection\<lparr>ci_address := ag_host r, ci_port := ag_port r,
            ci_uid := Some (ag_uid r), ci_status := ag_status r, ci_version := Some (ag_version r)\<rparr>) (map_of (agents d) sid)
      else map_option (\<lambda>r. no_connection\<lparr>ci_status := ag_status r, ci_version := Some (ag_version r)\<rparr>) (map_of (agents d) sid))"

definition server_and_details :: "int \<Rightarrow> int \<Rightarrow> server_db \<Rightarrow> (srv_row \<times> server_details option) option" where
  "server_and_details team sid d =
     (case map_of (srvs d) sid of
        Some r \<Rightarrow> if srv_team r = team then Some (r, map_of (details d) sid) else None
      | None \<Rightarrow> None)"

definition GetServerInfo :: "int \<Rightarrow> int \<Rightarrow> ('z, srv_row \<times> server_details option \<times> connection_info) srv_io" where
  "GetServerInfo teamId serverId =
     bindE (query_db_row (server_and_details teamId serverId)) (\<lambda>(r, i).
     if srv_type r = 0 \<or> srv_type r = 1 \<or> srv_type r = 2 then
       tryE (query_db_row (connection_row (srv_type r) serverId)) (\<lambda>res.
       case res of
         Inr ci \<Rightarrow> ret (r, i, ci)
       | Inl e \<Rightarrow> if e = ErrNoRows \<and> (srv_type r = 1 \<or> srv_type r = 2) then ret (r, i, no_connection) else raise e)
     else ret (r, i, no_connection))"

text \<open>Integer columns refuse a number that is out of their range.\<close>

definition fits :: "nat \<Rightarrow> int \<Rightarrow> bool" where
  "fits bits i \<longleftrightarrow> - (2 ^ (bits - 1)) \<le> i \<and> i < 2 ^ (bits - 1)"

definition update_server :: "int \<Rightarrow> int \<Rightarrow> ServerFullType \<Rightarrow> server_db \<Rightarrow> server_db option" where
  "update_server team sid data d =
     (if \<not> fits 32 (sf_weight data) then None
      else if \<not> server_in_team d team sid then Some d
      else if \<not> category_of_team d team (sf_category data) then None
      else Some (d\<lparr>srvs := AList.map_entry sid (\<lambda>r. r\<lparr>srv_name := sf_name data, srv_monitor := sf_monitor data,
             srv_terminal := sf_terminal data, srv_weight := sf_weight data, srv_category := sf_category data,
             srv_public := (case sf_public data of None \<Rightarrow> srv_public r | Some b \<Rightarrow> b)\<rparr>) (srvs d)\<rparr>))"

definition update_details :: "int \<Rightarrow> ServerFullType \<Rightarrow> server_db \<Rightarrow> server_db" where
  "update_details sid data d = d\<lparr>details := AList.map_entry sid (\<lambda>_. sf_details data) (details d)\<rparr>"

definition blank :: "string \<Rightarrow> bool" where
  "blank x \<longleftrightarrow> list_all (\<lambda>c. c = CHR '' '') x"

text \<open>
  The account is updated only while its pinned host key is the one the caller validated against;
  the schema allows no blank host key.
\<close>

definition update_ssh :: "int \<Rightarrow> ServerFullType \<Rightarrow> string option \<Rightarrow> server_db \<Rightarrow> (server_db \<times> int) option" where
  "update_ssh sid data pwd d =
     (if \<not> fits 32 (sf_port data) then None
      else case map_of (sshs d) sid of
        None \<Rightarrow> Some (d, 0)
      | Some r \<Rightarrow>
          if ssh_host_key r \<noteq> sf_previous data then Some (d, 0)
          else if blank (sf_host_key data) then None
          else Some (d\<lparr>sshs := AList.map_entry sid (\<lambda>r. r\<lparr>ssh_address := sf_address data, ssh_port := sf_port data,
                 ssh_username := sf_username data, ssh_host_key := Some (sf_host_key data), ssh_trust_legacy := False,
                 ssh_key_id := (if sf_key_id data \<noteq> 0 then sf_key_id data else ssh_key_id r),
                 ssh_password := (case pwd of None \<Rightarrow> ssh_password r | Some p \<Rightarrow> p)\<rparr>) (sshs d)\<rparr>, 1))"

text \<open>Servers that are not reached over SSH have their details written twice.\<close>

definition edit_connection :: "int \<Rightarrow> int \<Rightarrow> ServerFullType \<Rightarrow> ('z, unit) srv_io" where
  "edit_connection serverId typ data =
     (if typ = 0 then
        bindE (if sf_password data \<noteq> [] then bindE (hub_encrypt (sf_password data) (SSHPasswordContext serverId)) (\<lambda>p. ret (Some p))
               else ret None) (\<lambda>pwd.
        bindE (exec_db_val (update_ssh serverId data pwd)) (\<lambda>rowsAffected.
        if rowsAffected = 0 then raise ErrSSHHostKeyStateChanged else ret ()))
      else exec_db (\<lambda>d. Some (update_details serverId data d)))"

definition EditServer :: "int \<Rightarrow> int \<Rightarrow> int \<Rightarrow> ServerFullType \<Rightarrow> ('z, unit) srv_io" where
  "EditServer teamId serverId typ data = transaction_db (
     bindE (query_db (\<lambda>d. category_of_team d teamId (sf_category data))) (\<lambda>found.
     if \<not> found then raise ErrServerCategoryNotFound
     else
       bindE (exec_db (update_server teamId serverId data)) (\<lambda>_.
       bindE (exec_db (\<lambda>d. Some (update_details serverId data d))) (\<lambda>_.
       edit_connection serverId typ data))))"

text \<open>Everything that refers to a server goes with it.\<close>

definition delete_server :: "int \<Rightarrow> int \<Rightarrow> server_db \<Rightarrow> server_db" where
  "delete_server team sid d =
     (if \<not> server_in_team d team sid then d
      else d\<lparr>srvs := AList.delete sid (srvs d), details := AList.delete sid (details d),
             runtime := AList.delete sid (runtime d), advanced := AList.delete sid (advanced d), sshs := AList.delete sid (sshs d),
             agents := AList.delete sid (agents d), enrolls := AList.delete sid (enrolls d),
             rules := delete_where (\<lambda>(i, _) _. i = sid) (rules d)\<rparr>)"

definition DeleteServer :: "int \<Rightarrow> int \<Rightarrow> ('z, unit) srv_io" where
  "DeleteServer teamId serverId = exec_db (\<lambda>d. Some (delete_server teamId serverId d))"

definition IsServerExists :: "int \<Rightarrow> int \<Rightarrow> ('z, bool) srv_io" where
  "IsServerExists teamId serverId = query_db (\<lambda>d. server_in_team d teamId serverId)"

definition IsPassiveServerMonitoringEnabled :: "int \<Rightarrow> ('z, bool) srv_io" where
  "IsPassiveServerMonitoringEnabled serverID =
     query_db_row (\<lambda>d. map_option (\<lambda>r. srv_type r = 2 \<and> srv_monitor r) (map_of (srvs d) serverID))"

definition GetServerTeamId :: "int \<Rightarrow> ('z, int) srv_io" where
  "GetServerTeamId serverID = query_db_row (\<lambda>d. map_option srv_team (map_of (srvs d) serverID))"

section \<open>Agents: internal/db/agent.go\<close>

datatype passiveAgentAccess = passiveAgentAccessGeneral | passiveAgentAccessMonitoring | passiveAgentAccessTerminal

definition GetEnrollToken :: "string \<Rightarrow> ('z, int) srv_io" where
  "GetEnrollToken hash =
     query_db_row (\<lambda>d. map_option fst (find (\<lambda>(_, r). en_hash r = hash \<and> \<not> en_revoked r) (enrolls d)))"

definition agent_access :: "passiveAgentAccess \<Rightarrow> srv_row \<Rightarrow> agent_row \<Rightarrow> bool" where
  "agent_access acc r a \<longleftrightarrow> srv_type r = 2 \<and>
     (case acc of
        passiveAgentAccessGeneral \<Rightarrow> True
      | passiveAgentAccessMonitoring \<Rightarrow> srv_monitor r
      | passiveAgentAccessTerminal \<Rightarrow> srv_terminal r \<and> ag_status a = 1)"

definition getPassiveAgentPublicKey :: "string \<Rightarrow> passiveAgentAccess \<Rightarrow> ('z, int \<times> string) srv_io" where
  "getPassiveAgentPublicKey agentUID acc = query_db_row (\<lambda>d.
     map_option (\<lambda>(i, a). (i, ag_public_key a))
       (find (\<lambda>(i, a). ag_uid a = agentUID \<and>
          (case map_of (srvs d) i of None \<Rightarrow> False | Some r \<Rightarrow> agent_access acc r a)) (agents d)))"

definition GetPassiveAgentPublicKey :: "string \<Rightarrow> ('z, int \<times> string) srv_io" where
  "GetPassiveAgentPublicKey agentUID = getPassiveAgentPublicKey agentUID passiveAgentAccessGeneral"

definition GetPassiveMonitoringAgentPublicKey :: "string \<Rightarrow> ('z, int \<times> string) srv_io" where
  "GetPassiveMonitoringAgentPublicKey agentUID = getPassiveAgentPublicKey agentUID passiveAgentAccessMonitoring"

definition GetPassiveTerminalAgentPublicKey :: "string \<Rightarrow> ('z, int \<times> string) srv_io" where
  "GetPassiveTerminalAgentPublicKey agentUID = getPassiveAgentPublicKey agentUID passiveAgentAccessTerminal"

section \<open>Whether credentials exist: internal/db/encryption.go\<close>

definition HasEncryptedCredentials :: "('z, bool) srv_io" where
  "HasEncryptedCredentials = query_db (\<lambda>d.
     cred_keys d \<noteq> [] \<or> sshs d \<noteq> [] \<or> list_ex (\<lambda>(_, a). take (length envelopeMagic) (ag_private_key a) = envelopeMagic) (agents d))"

section \<open>Sample data\<close>

definition no_servers :: server_db where
  "no_servers = \<lparr>known_teams = [], srvs = [], details = [], runtime = [], advanced = [], sshs = [], agents = [], enrolls = [],
     cred_keys = [], cats = [], rules = [], team_rules = [], notifs = [], public_pages = [], srv_seq = 0, key_seq = 0, cat_seq = 0\<rparr>"

definition sample_hub :: "server_db \<Rightarrow> srvenv" where
  "sample_hub d =
     \<lparr>calls = 0, outcomes = (\<lambda>_. Done), reads = 0, clock = (\<lambda>_. 0), team_seq = 0,
      tabs = \<lparr>users = [], teams = [], m_team_user = [], users_config = [], categories = []\<rparr>,
      db = d, draws = 0, entropy = (\<lambda>_ n. Some (replicate n CHR ''n'')), hub_key = replicate 32 CHR ''k'',
      hub_ciphers = sample_ciphers\<rparr>"

end
