(* ===== verification/Credential_Migration.thy ===== *)
theory Credential_Migration
  imports Servers
begin

text \<open>
  The startup migration of stored credentials (\<open>internal/db/encryption_migration.go\<close>): legacy
  ciphertexts and plaintext agent keys become envelopes bound to their record and field, in one
  transaction; what cannot be read is reported and left alone.
\<close>

section \<open>The migration\<close>

text \<open>A credential that cannot be read is the \<open>ciphertextMigrationError\<close>; any other error aborts.\<close>

datatype migrate_error = Undecryptable | Aborted

definition legacy_decrypt :: "string \<Rightarrow> ('z, string) srv_io" where
  "legacy_decrypt c = (\<lambda>s. (case DecryptLegacy (hub_ciphers s) c (hub_key s) of Inl _ \<Rightarrow> Inl ErrCrypt | Inr p \<Rightarrow> Inr p, s))"

definition reencrypt :: "string \<Rightarrow> string \<Rightarrow> ('z srvenv_scheme, migrate_error, string \<times> bool) io" where
  "reencrypt plaintext ctx = tryE (hub_encrypt plaintext ctx) (\<lambda>r. case r of
     Inl _ \<Rightarrow> raise Aborted | Inr migrated \<Rightarrow> ret (migrated, True))"

definition check_current :: "string \<Rightarrow> string \<Rightarrow> ('z srvenv_scheme, migrate_error, string \<times> bool) io" where
  "check_current c ctx = tryE (hub_decrypt c ctx) (\<lambda>r. case r of
     Inl _ \<Rightarrow> raise Undecryptable | Inr _ \<Rightarrow> ret (c, False))"

definition migrateCiphertext :: "string \<Rightarrow> string \<Rightarrow> ('z srvenv_scheme, migrate_error, string \<times> bool) io" where
  "migrateCiphertext c ctx =
     (if c = [] then ret (c, False)
      else if IsVersionedCiphertext c then check_current c ctx
      else tryE (legacy_decrypt c) (\<lambda>r. case r of
        Inl _ \<Rightarrow> raise Undecryptable | Inr plaintext \<Rightarrow> reencrypt plaintext ctx))"

definition migrateAgentPrivateKey :: "string \<Rightarrow> int \<Rightarrow> ('z srvenv_scheme, migrate_error, string \<times> bool) io" where
  "migrateAgentPrivateKey privateKey serverID =
     (if privateKey = [] then ret (privateKey, False)
      else
        let ctx = AgentPrivateKeyContext serverID in
        if IsVersionedCiphertext privateKey then check_current privateKey ctx
        else reencrypt privateKey ctx)"

text \<open>
  A field that cannot be read keeps its value and is reported; the credential names the table,
  the record and the field of the report.
\<close>

definition reporting ::
  "credential \<Rightarrow> string \<Rightarrow> ('z srvenv_scheme, migrate_error, string \<times> bool) io \<Rightarrow> ('z, string \<times> bool \<times> credential list) srv_io" where
  "reporting a c m = tryE m (\<lambda>r. case r of
     Inr (c', changed) \<Rightarrow> ret (c', changed, [])
   | Inl Undecryptable \<Rightarrow> ret (c, False, [a])
   | Inl Aborted \<Rightarrow> raise ErrCrypt)"

definition column :: "string option \<Rightarrow> string" where
  "column c = (case c of None \<Rightarrow> [] | Some x \<Rightarrow> x)"

definition migrate_key :: "int \<times> key_row \<Rightarrow> ('z, credential list) srv_io" where
  "migrate_key = (\<lambda>(i, r).
     bindE (reporting (KeyContent i) (k_content r) (migrateCiphertext (k_content r) (KeyContentContext i))) (\<lambda>(content, changed, f).
     bindE (reporting (KeyPassword i) (column (k_password r)) (migrateCiphertext (column (k_password r)) (KeyPasswordContext i))) (\<lambda>(pwd, passwordChanged, g).
     if \<not> changed \<and> \<not> passwordChanged then ret (f @ g)
     else bindE (exec_db (\<lambda>d. Some (set_key i content (nullableCiphertext pwd) d))) (\<lambda>_. ret (f @ g)))))"

definition set_ssh_password :: "int \<Rightarrow> string \<Rightarrow> server_db \<Rightarrow> server_db" where
  "set_ssh_password i c d = d\<lparr>sshs := AList.map_entry i (\<lambda>r. r\<lparr>ssh_password := c\<rparr>) (sshs d)\<rparr>"

definition migrate_ssh :: "int \<times> ssh_row \<Rightarrow> ('z, credential list) srv_io" where
  "migrate_ssh = (\<lambda>(i, r).
     bindE (reporting (SSHPassword i) (ssh_password r) (migrateCiphertext (ssh_password r) (SSHPasswordContext i))) (\<lambda>(pwd, changed, f).
     if \<not> changed then ret f
     else bindE (exec_db (\<lambda>d. Some (set_ssh_password i pwd d))) (\<lambda>_. ret f)))"

definition set_agent_key :: "int \<Rightarrow> string \<Rightarrow> server_db \<Rightarrow> server_db" where
  "set_agent_key i c d = d\<lparr>agents := AList.map_entry i (\<lambda>r. r\<lparr>ag_private_key := c\<rparr>) (agents d)\<rparr>"

definition migrate_agent :: "int \<times> agent_row \<Rightarrow> ('z, credential list) srv_io" where
  "migrate_agent = (\<lambda>(i, r).
     bindE (reporting (AgentPrivateKey i) (ag_private_key r) (migrateAgentPrivateKey (ag_private_key r) i)) (\<lambda>(privateKey, changed, f).
     if \<not> changed then ret f
     else bindE (exec_db (\<lambda>d. Some (set_agent_key i privateKey d))) (\<lambda>_. ret f)))"

fun collectE :: "('a \<Rightarrow> ('s, 'e, 'b list) io) \<Rightarrow> 'a list \<Rightarrow> ('s, 'e, 'b list) io" where
  "collectE f [] = ret []"
| "collectE f (x # xs) = bindE (f x) (\<lambda>a. bindE (collectE f xs) (\<lambda>b. ret (a @ b)))"

definition migrate_tables :: "('z, credential list) srv_io" where
  "migrate_tables =
     bindE (query_db (\<lambda>d. sort_key fst (cred_keys d))) (\<lambda>ks.
     bindE (collectE migrate_key ks) (\<lambda>f.
     bindE (query_db (\<lambda>d. sort_key fst (sshs d))) (\<lambda>ss.
     bindE (collectE migrate_ssh ss) (\<lambda>g.
     bindE (query_db (\<lambda>d. sort_key fst (agents d))) (\<lambda>as.
     bindE (collectE migrate_agent as) (\<lambda>h.
     ret (f @ g @ h)))))))"

definition MigrateEncryptedCredentials :: "('z, credential list) srv_io" where
  "MigrateEncryptedCredentials = transaction_db migrate_tables"

section \<open>What a stored credential stands for\<close>

definition cred_of :: "server_db \<Rightarrow> credential \<Rightarrow> string option" where
  "cred_of d a = (case a of
     KeyContent i \<Rightarrow> map_option k_content (map_of (cred_keys d) i)
   | KeyPassword i \<Rightarrow> map_option (\<lambda>r. column (k_password r)) (map_of (cred_keys d) i)
   | SSHPassword i \<Rightarrow> map_option ssh_password (map_of (sshs d) i)
   | AgentPrivateKey i \<Rightarrow> map_option ag_private_key (map_of (agents d) i))"

text \<open>
  The plaintext of a stored value before the migration: an envelope opens under its context, an
  agent key may be stored in plain, everything else is the legacy format; \<open>None\<close> is unreadable.
\<close>

definition stored_plain :: "ciphers \<Rightarrow> string \<Rightarrow> credential \<Rightarrow> string \<Rightarrow> string option" where
  "stored_plain C key a c =
     (if c = [] then Some []
      else if IsVersionedCiphertext c then
        (case encrypt_Decrypt C c key (credential_context a) of Inl _ \<Rightarrow> None | Inr p \<Rightarrow> Some p)
      else case a of
        AgentPrivateKey _ \<Rightarrow> Some c
      | _ \<Rightarrow> (case DecryptLegacy C c key of Inl _ \<Rightarrow> None | Inr p \<Rightarrow> Some p))"

text \<open>The stored value afterwards: an envelope of the same plaintext, or untouched.\<close>

definition migrated :: "ciphers \<Rightarrow> string \<Rightarrow> credential \<Rightarrow> string \<Rightarrow> string \<Rightarrow> bool" where
  "migrated C key a c c' \<longleftrightarrow>
     (case stored_plain C key a c of
        None \<Rightarrow> c' = c
      | Some p \<Rightarrow> if c = [] then c' = [] else encrypt_Decrypt C c' key (credential_context a) = Inr p)"

definition unreadable :: "ciphers \<Rightarrow> string \<Rightarrow> credential \<Rightarrow> string \<Rightarrow> credential list" where
  "unreadable C key a c = (if stored_plain C key a c = None then [a] else [])"

text \<open>The process: its ciphers, its key and a random source that answers with what is asked for.\<close>

definition vault :: "ciphers \<Rightarrow> string \<Rightarrow> 'z srvenv_scheme \<Rightarrow> bool" where
  "vault C key s \<longleftrightarrow> hub_ciphers s = C \<and> hub_key s = key \<and> ciphers_ok C \<and> (\<forall>n. rand_ok (entropy s n))"

lemma vault_updates [simp]:
  "vault C key (s\<lparr>calls := k\<rparr>) = vault C key s"
  "vault C key (s\<lparr>draws := n\<rparr>) = vault C key s"
  "vault C key (s\<lparr>db := d\<rparr>) = vault C key s"
  by (simp_all add: vault_def)

lemma hub_encrypt_Inr:
  assumes "hub_encrypt p (credential_context a) s = (Inr c, t)" "vault C key s"
  shows "encrypt_Decrypt C c key (credential_context a) = Inr p \<and> t = s\<lparr>draws := Suc (draws s)\<rparr> \<and> c \<noteq> []"
proof -
  let ?h = "envelopeMagic @ [envelopeVersion]"
  from assms have e: "encrypt_Encrypt C (entropy s (draws s)) p key (credential_context a) = Inr c"
    and t: "t = s\<lparr>draws := Suc (draws s)\<rparr>"
    by (auto simp: hub_encrypt_def vault_def split: sum.splits)
  from assms have C: "ciphers_ok C" "rand_ok (entropy s (draws s))" by (simp_all add: vault_def)
  from encrypt_Encrypt_Inr [OF e C(2)] obtain n where n: "length n = nonce_size" "valid_key_length key"
    and c: "c = ?h @ n @ gcm_seal C key n p (associatedData ?h (credential_context a))" by blast
  from decrypt_of_envelope [OF C(1) n refl] t show ?thesis by (simp add: c)
qed

definition migrates :: "ciphers \<Rightarrow> string \<Rightarrow> credential \<Rightarrow> string \<Rightarrow> string \<times> bool \<times> credential list \<Rightarrow> bool" where
  "migrates C key a c = (\<lambda>(c', changed, f).
     migrated C key a c c' \<and> f = unreadable C key a c \<and> (\<not> changed \<longrightarrow> c' = c))"

lemma reporting_Inr:
  assumes "reporting a c m s = (Inr (c', ch, f), t)"
  shows "(m s = (Inr (c', ch), t) \<and> f = []) \<or> (m s = (Inl Undecryptable, t) \<and> c' = c \<and> \<not> ch \<and> f = [a])"
proof -
  obtain r u where m: "m s = (r, u)" by fastforce
  with assms show ?thesis
    by (cases r) (auto simp: reporting_def tryE_run raise_def ret_def split: migrate_error.splits prod.splits)
qed

lemma reencrypt_cases:
  assumes "vault C key s"
  shows "fst (reencrypt p (credential_context a) s) \<noteq> Inl Undecryptable"
    and "reencrypt p (credential_context a) s = (Inr (c', ch), t) \<Longrightarrow>
      encrypt_Decrypt C c' key (credential_context a) = Inr p \<and> ch \<and> (\<exists>n. t = s\<lparr>draws := n\<rparr>)"
proof -
  show "fst (reencrypt p (credential_context a) s) \<noteq> Inl Undecryptable"
    by (auto simp: reencrypt_def tryE_run raise_def ret_def split: sum.splits)
  show "encrypt_Decrypt C c' key (credential_context a) = Inr p \<and> ch \<and> (\<exists>n. t = s\<lparr>draws := n\<rparr>)"
    if run: "reencrypt p (credential_context a) s = (Inr (c', ch), t)"
  proof -
    from run have h: "hub_encrypt p (credential_context a) s = (Inr c', t)" and ch
      by (cases "hub_encrypt p (credential_context a) s"; auto simp: reencrypt_def tryE_run raise_def ret_def split: sum.splits)+
    then show ?thesis using hub_encrypt_Inr [OF h assms] by blast
  qed
qed

lemma check_current_run:
  "vault C key s \<Longrightarrow> check_current c ctx s =
     (case encrypt_Decrypt C c key ctx of Inl _ \<Rightarrow> Inl Undecryptable | Inr _ \<Rightarrow> Inr (c, False), s)"
  by (auto simp: check_current_def tryE_run hub_decrypt_def vault_def raise_def ret_def split: sum.splits)

lemma migrateCiphertext_run:
  assumes "vault C key s" "\<And>i. a \<noteq> AgentPrivateKey i"
  shows "migrateCiphertext c (credential_context a) s =
    (case stored_plain C key a c of
       None \<Rightarrow> (Inl Undecryptable, s)
     | Some p \<Rightarrow> if c = [] \<or> IsVersionedCiphertext c then (Inr (c, False), s) else reencrypt p (credential_context a) s)"
proof -
  have legacy: "legacy_decrypt c s = (case DecryptLegacy C c key of Inl _ \<Rightarrow> Inl ErrCrypt | Inr p \<Rightarrow> Inr p, s)"
    using assms(1) by (simp add: legacy_decrypt_def vault_def)
  show ?thesis
    using assms(2)
    by (cases a)
      (auto simp: migrateCiphertext_def stored_plain_def ret_def check_current_run [OF assms(1)] tryE_run legacy raise_def split: sum.splits)
qed

lemma migrateAgentPrivateKey_run:
  assumes "vault C key s"
  shows "migrateAgentPrivateKey c i s =
    (case stored_plain C key (AgentPrivateKey i) c of
       None \<Rightarrow> (Inl Undecryptable, s)
     | Some p \<Rightarrow> if c = [] \<or> IsVersionedCiphertext c then (Inr (c, False), s) else reencrypt p (credential_context (AgentPrivateKey i)) s)"
  by (auto simp: migrateAgentPrivateKey_def stored_plain_def Let_def ret_def check_current_run [OF assms] split: sum.splits)

text \<open>One field, whichever table it is in.\<close>

lemma reporting_migrates:
  assumes run: "reporting a c m s = (Inr x, t)" and v: "vault C key s"
    and m: "m s = (case stored_plain C key a c of
       None \<Rightarrow> (Inl Undecryptable, s)
     | Some p \<Rightarrow> if c = [] \<or> IsVersionedCiphertext c then (Inr (c, False), s) else reencrypt p (credential_context a) s)"
  shows "migrates C key a c x \<and> (\<exists>n. t = s\<lparr>draws := n\<rparr>)"
proof -
  obtain c' ch f where x: "x = (c', ch, f)" by (cases x)
  note cases = reporting_Inr [OF run [unfolded x]]
  have self: "\<exists>n. s = s\<lparr>draws := n\<rparr>" by (rule exI [of _ "draws s"]) simp
  show ?thesis
  proof (cases "stored_plain C key a c")
    case None
    with cases m self show ?thesis by (auto simp: x migrates_def migrated_def unreadable_def)
  next
    case (Some p)
    show ?thesis
    proof (cases "c = [] \<or> IsVersionedCiphertext c")
      case True
      with cases m Some self have "c' = c \<and> \<not> ch \<and> f = [] \<and> t = s" by auto
      moreover have "migrated C key a c c"
        using Some True by (auto simp: migrated_def stored_plain_def split: if_splits sum.splits)
      ultimately show ?thesis using Some self by (simp add: x migrates_def unreadable_def)
    next
      case False
      with m Some have m: "m s = reencrypt p (credential_context a) s" by simp
      with cases reencrypt_cases(1) [OF v, of p a] have r: "reencrypt p (credential_context a) s = (Inr (c', ch), t)" and "f = []"
        by (metis fst_conv)+
      with reencrypt_cases(2) [OF v r] Some False show ?thesis by (auto simp: x migrates_def migrated_def unreadable_def)
    qed
  qed
qed

lemma ciphertext_migrates:
  assumes "reporting a c (migrateCiphertext c (credential_context a)) s = (Inr x, t)" "vault C key s" "\<And>i. a \<noteq> AgentPrivateKey i"
  shows "migrates C key a c x \<and> (\<exists>n. t = s\<lparr>draws := n\<rparr>)"
  by (rule reporting_migrates [OF assms(1,2) migrateCiphertext_run [OF assms(2,3)]])

lemma agent_key_migrates:
  assumes "reporting (AgentPrivateKey i) c (migrateAgentPrivateKey c i) s = (Inr x, t)" "vault C key s"
  shows "migrates C key (AgentPrivateKey i) c x \<and> (\<exists>n. t = s\<lparr>draws := n\<rparr>)"
  by (rule reporting_migrates [OF assms migrateAgentPrivateKey_run [OF assms(2)]])

section \<open>The loops\<close>

text \<open>A loop over the rows of a table, each of which is replaced by its image.\<close>

lemma collectE_rows:
  assumes step: "\<And>i r s t fs. I s \<Longrightarrow> T s i = Some r \<Longrightarrow> f (i, r) s = (Inr fs, t) \<Longrightarrow>
      I t \<and> fs = F i r \<and> (\<exists>r'. T t = (T s)(i \<mapsto> r') \<and> R i r r')"
    and run: "collectE f rows s = (Inr fs, t)" and "I s" "distinct (map fst rows)"
    and "\<And>i r. (i, r) \<in> set rows \<Longrightarrow> T s i = Some r"
  shows "I t \<and> fs = concat (map (\<lambda>(i, r). F i r) rows) \<and>
    (\<forall>i. case map_of rows i of None \<Rightarrow> T t i = T s i | Some r \<Rightarrow> \<exists>r'. T t i = Some r' \<and> R i r r')"
  using assms(2-)
proof (induction rows arbitrary: s fs)
  case (Cons kr rows)
  obtain i r where kr: "kr = (i, r)" by (cases kr)
  from Cons.prems(1) kr obtain fs1 fs2 u where f: "f (i, r) s = (Inr fs1, u)"
    and rest: "collectE f rows u = (Inr fs2, t)" and fs: "fs = fs1 @ fs2"
    by (auto simp: bindE_Inr_iff ret_def)
  from step [OF Cons.prems(2) _ f] Cons.prems(4) kr obtain r' where u: "I u" "fs1 = F i r"
    and T: "T u = (T s)(i \<mapsto> r')" and R: "R i r r'" by auto
  have i: "i \<notin> fst ` set rows" using Cons.prems(3) kr by simp
  have "T u j = Some q" if "(j, q) \<in> set rows" for j q
    using Cons.prems(4) [of j q] that i by (force simp: T kr)
  from Cons.IH [OF rest u(1) _ this] Cons.prems(3)
  have IH: "I t" "fs2 = concat (map (\<lambda>(i, r). F i r) rows)"
    "\<forall>j. case map_of rows j of None \<Rightarrow> T t j = T u j | Some r \<Rightarrow> \<exists>r'. T t j = Some r' \<and> R j r r'"
    by (simp_all add: kr)
  have "map_of rows i = None" using i by (simp add: map_of_eq_None_iff)
  with IH(3) [THEN spec, of i] T R have "\<exists>r'. T t i = Some r' \<and> R i r r'" by simp
  moreover have "case map_of rows j of None \<Rightarrow> T t j = T s j | Some r \<Rightarrow> \<exists>r'. T t j = Some r' \<and> R j r r'" if "j \<noteq> i" for j
    using IH(3) [THEN spec, of j] T that by (simp split: option.splits)
  ultimately show ?case using IH(1,2) u(2) fs by (simp add: kr)
qed (simp add: ret_def)

text \<open>The rows a query returned in the order of their ids.\<close>

lemma sorted_rows:
  assumes "keyed t"
  shows "distinct (map fst (sort_key fst t))" "set (sort_key fst t) = set t" "map_of (sort_key fst t) = map_of t"
proof -
  show d: "distinct (map fst (sort_key fst t))" using assms by (simp add: distinct_map)
  show "set (sort_key fst t) = set t" by simp
  with d assms show "map_of (sort_key fst t) = map_of t" by (metis map_of_inject_set)
qed

text \<open>The rest of the tables and the process do not change during a loop.\<close>

definition during :: "ciphers \<Rightarrow> string \<Rightarrow> (server_db \<Rightarrow> 'v) \<Rightarrow> 'v \<Rightarrow> 'z srvenv_scheme \<Rightarrow> bool" where
  "during C key f v s \<longleftrightarrow> vault C key s \<and> f (db s) = v"

definition key_migrated :: "ciphers \<Rightarrow> string \<Rightarrow> int \<Rightarrow> key_row \<Rightarrow> key_row \<Rightarrow> bool" where
  "key_migrated C key i r r' \<longleftrightarrow> k_team r' = k_team r \<and> k_name r' = k_name r \<and>
     migrated C key (KeyContent i) (k_content r) (k_content r') \<and>
     migrated C key (KeyPassword i) (column (k_password r)) (column (k_password r'))"

definition key_unreadable :: "ciphers \<Rightarrow> string \<Rightarrow> int \<Rightarrow> key_row \<Rightarrow> credential list" where
  "key_unreadable C key i r = unreadable C key (KeyContent i) (k_content r) @ unreadable C key (KeyPassword i) (column (k_password r))"

lemma column_nullable [simp]: "column (nullableCiphertext c) = c"
  by (simp add: column_def nullableCiphertext_def)

lemma map_entry_upd: "map_of t i = Some r \<Longrightarrow> map_of (AList.map_entry i f t) = (map_of t)(i \<mapsto> f r)"
  by (auto simp: map_of_map_entry)

lemma migrate_key_Inr:
  assumes I: "during C key (cred_keys_update (\<lambda>_. [])) d0 s" and r: "map_of (cred_keys (db s)) i = Some r"
    and run: "migrate_key (i, r) s = (Inr fs, t)"
  shows "during C key (cred_keys_update (\<lambda>_. [])) d0 t \<and> fs = key_unreadable C key i r \<and>
    (\<exists>r'. map_of (cred_keys (db t)) = (map_of (cred_keys (db s)))(i \<mapsto> r') \<and> key_migrated C key i r r')"
proof -
  from I have v: "vault C key s" by (simp add: during_def)
  from run obtain c ch f p pch g s1 s2 where
    m1: "reporting (KeyContent i) (k_content r) (migrateCiphertext (k_content r) (credential_context (KeyContent i))) s = (Inr (c, ch, f), s1)"
    and m2: "reporting (KeyPassword i) (column (k_password r)) (migrateCiphertext (column (k_password r)) (credential_context (KeyPassword i))) s1 = (Inr (p, pch, g), s2)"
    and m3: "(if \<not> ch \<and> \<not> pch then ret (f @ g) else bindE (exec_db (\<lambda>d. Some (set_key i c (nullableCiphertext p) d))) (\<lambda>_. ret (f @ g))) s2 = (Inr fs, t)"
    by (auto simp: migrate_key_def bindE_Inr_iff)
  from ciphertext_migrates [OF m1 v] obtain n where 1: "migrates C key (KeyContent i) (k_content r) (c, ch, f)" and s1: "s1 = s\<lparr>draws := n\<rparr>" by auto
  have v1: "vault C key s1" using v by (simp add: s1)
  from ciphertext_migrates [OF m2 v1] obtain n' where 2: "migrates C key (KeyPassword i) (column (k_password r)) (p, pch, g)" and s2: "s2 = s1\<lparr>draws := n'\<rparr>" by auto
  have fs: "fs = key_unreadable C key i r" using m3 1 2
    by (auto simp: migrates_def key_unreadable_def ret_def bindE_Inr_iff split: if_splits)
  show ?thesis
  proof (cases "\<not> ch \<and> \<not> pch")
    case True
    with m3 have t: "db t = db s" "vault C key t" using v1 by (auto simp: ret_def s1 s2)
    have "key_migrated C key i r r" using 1 2 True by (auto simp: migrates_def key_migrated_def)
    with t r fs I show ?thesis by (auto simp: during_def fun_upd_idem intro!: exI [of _ r])
  next
    case False
    with m3 have t: "db t = set_key i c (nullableCiphertext p) (db s)" "vault C key t"
      using v by (auto simp: ret_def s1 s2 bindE_Inr_iff exec_db_Inr_iff)
    have "key_migrated C key i r (r\<lparr>k_content := c, k_password := nullableCiphertext p\<rparr>)"
      using 1 2 by (simp add: migrates_def key_migrated_def)
    with t r fs I show ?thesis by (auto simp: during_def set_key_def map_entry_upd)
  qed
qed

text \<open>The two tables with one credential each.\<close>

lemma one_field_row:
  assumes field: "\<And>x u. m s = (Inr x, u) \<Longrightarrow> migrates C key a c x \<and> (\<exists>n. u = s\<lparr>draws := n\<rparr>)"
    and run: "bindE m (\<lambda>(c', changed, f). if \<not> changed then ret f else bindE (exec_db (\<lambda>d. Some (upd c' d))) (\<lambda>_. ret f)) s = (Inr fs, t)"
    and v: "vault C key s"
  shows "fs = unreadable C key a c \<and> vault C key t \<and>
    (db t = db s \<and> migrated C key a c c \<or> (\<exists>c'. db t = upd c' (db s) \<and> migrated C key a c c'))"
proof -
  from run obtain c' ch f u where m: "m s = (Inr (c', ch, f), u)"
    and rest: "(if \<not> ch then ret f else bindE (exec_db (\<lambda>d. Some (upd c' d))) (\<lambda>_. ret f)) u = (Inr fs, t)"
    by (auto simp: bindE_Inr_iff)
  from field [OF m] obtain n where mg: "migrates C key a c (c', ch, f)" and u: "u = s\<lparr>draws := n\<rparr>" by blast
  from rest mg have fs: "fs = unreadable C key a c" by (auto simp: migrates_def ret_def bindE_Inr_iff split: if_splits)
  show ?thesis
  proof (cases ch)
    case True
    with rest v fs mg show ?thesis by (auto simp: migrates_def ret_def bindE_Inr_iff exec_db_Inr_iff u)
  next
    case False
    with rest v fs mg show ?thesis by (auto simp: migrates_def ret_def u)
  qed
qed

definition ssh_migrated :: "ciphers \<Rightarrow> string \<Rightarrow> int \<Rightarrow> ssh_row \<Rightarrow> ssh_row \<Rightarrow> bool" where
  "ssh_migrated C key i r r' \<longleftrightarrow> r' = r\<lparr>ssh_password := ssh_password r'\<rparr> \<and>
     migrated C key (SSHPassword i) (ssh_password r) (ssh_password r')"

definition agent_migrated :: "ciphers \<Rightarrow> string \<Rightarrow> int \<Rightarrow> agent_row \<Rightarrow> agent_row \<Rightarrow> bool" where
  "agent_migrated C key i r r' \<longleftrightarrow> r' = r\<lparr>ag_private_key := ag_private_key r'\<rparr> \<and>
     migrated C key (AgentPrivateKey i) (ag_private_key r) (ag_private_key r')"

lemma migrate_ssh_Inr:
  assumes I: "during C key (sshs_update (\<lambda>_. [])) d0 s" and r: "map_of (sshs (db s)) i = Some r"
    and run: "migrate_ssh (i, r) s = (Inr fs, t)"
  shows "during C key (sshs_update (\<lambda>_. [])) d0 t \<and> fs = unreadable C key (SSHPassword i) (ssh_password r) \<and>
    (\<exists>r'. map_of (sshs (db t)) = (map_of (sshs (db s)))(i \<mapsto> r') \<and> ssh_migrated C key i r r')"
proof -
  from I have v: "vault C key s" by (simp add: during_def)
  from one_field_row [OF ciphertext_migrates [OF _ v, of "SSHPassword i"] run [unfolded migrate_ssh_def split, folded credential_context.simps] v]
  have fs: "fs = unreadable C key (SSHPassword i) (ssh_password r)" "vault C key t" and
    cs: "db t = db s \<and> migrated C key (SSHPassword i) (ssh_password r) (ssh_password r) \<or>
      (\<exists>c'. db t = set_ssh_password i c' (db s) \<and> migrated C key (SSHPassword i) (ssh_password r) c')" by auto
  from cs show ?thesis
  proof
    assume "db t = db s \<and> migrated C key (SSHPassword i) (ssh_password r) (ssh_password r)"
    with fs I r show ?thesis by (auto simp: during_def ssh_migrated_def fun_upd_idem intro!: exI [of _ r])
  next
    assume "\<exists>c'. db t = set_ssh_password i c' (db s) \<and> migrated C key (SSHPassword i) (ssh_password r) c'"
    then obtain c' where c: "db t = set_ssh_password i c' (db s)" "migrated C key (SSHPassword i) (ssh_password r) c'" by blast
    with fs I r show ?thesis
      by (auto simp: during_def ssh_migrated_def set_ssh_password_def map_entry_upd intro!: exI [of _ "r\<lparr>ssh_password := c'\<rparr>"])
  qed
qed

lemma migrate_agent_Inr:
  assumes I: "during C key (agents_update (\<lambda>_. [])) d0 s" and r: "map_of (agents (db s)) i = Some r"
    and run: "migrate_agent (i, r) s = (Inr fs, t)"
  shows "during C key (agents_update (\<lambda>_. [])) d0 t \<and> fs = unreadable C key (AgentPrivateKey i) (ag_private_key r) \<and>
    (\<exists>r'. map_of (agents (db t)) = (map_of (agents (db s)))(i \<mapsto> r') \<and> agent_migrated C key i r r')"
proof -
  from I have v: "vault C key s" by (simp add: during_def)
  from one_field_row [OF agent_key_migrates [OF _ v, of i] run [unfolded migrate_agent_def split] v]
  have fs: "fs = unreadable C key (AgentPrivateKey i) (ag_private_key r)" "vault C key t" and
    cs: "db t = db s \<and> migrated C key (AgentPrivateKey i) (ag_private_key r) (ag_private_key r) \<or>
      (\<exists>c'. db t = set_agent_key i c' (db s) \<and> migrated C key (AgentPrivateKey i) (ag_private_key r) c')" by auto
  from cs show ?thesis
  proof
    assume "db t = db s \<and> migrated C key (AgentPrivateKey i) (ag_private_key r) (ag_private_key r)"
    with fs I r show ?thesis by (auto simp: during_def agent_migrated_def fun_upd_idem intro!: exI [of _ r])
  next
    assume "\<exists>c'. db t = set_agent_key i c' (db s) \<and> migrated C key (AgentPrivateKey i) (ag_private_key r) c'"
    then obtain c' where c: "db t = set_agent_key i c' (db s)" "migrated C key (AgentPrivateKey i) (ag_private_key r) c'" by blast
    with fs I r show ?thesis
      by (auto simp: during_def agent_migrated_def set_agent_key_def map_entry_upd intro!: exI [of _ "r\<lparr>ag_private_key := c'\<rparr>"])
  qed
qed

section \<open>The whole migration\<close>

definition rows_migrated :: "(int \<Rightarrow> 'r \<Rightarrow> 'r \<Rightarrow> bool) \<Rightarrow> (int, 'r) table \<Rightarrow> (int, 'r) table \<Rightarrow> bool" where
  "rows_migrated R t t' \<longleftrightarrow> (\<forall>i. rel_option (R i) (map_of t i) (map_of t' i))"

definition migration_done :: "ciphers \<Rightarrow> string \<Rightarrow> server_db \<Rightarrow> server_db \<Rightarrow> bool" where
  "migration_done C key d d' \<longleftrightarrow>
     rows_migrated (key_migrated C key) (cred_keys d) (cred_keys d') \<and>
     rows_migrated (ssh_migrated C key) (sshs d) (sshs d') \<and>
     rows_migrated (agent_migrated C key) (agents d) (agents d') \<and>
     d'\<lparr>cred_keys := [], sshs := [], agents := []\<rparr> = d\<lparr>cred_keys := [], sshs := [], agents := []\<rparr>"

definition unreadable_credentials :: "ciphers \<Rightarrow> string \<Rightarrow> server_db \<Rightarrow> credential set" where
  "unreadable_credentials C key d = {a. \<exists>c. cred_of d a = Some c \<and> stored_plain C key a c = None}"

lemma loop_rows:
  fixes f :: "int \<times> 'r \<Rightarrow> ('z, credential list) srv_io"
  assumes step: "\<And>i r s t fs. during C key g v s \<Longrightarrow> map_of (T (db s)) i = Some r \<Longrightarrow> f (i, r) s = (Inr fs, t) \<Longrightarrow>
      during C key g v t \<and> fs = F i r \<and> (\<exists>r'. map_of (T (db t)) = (map_of (T (db s)))(i \<mapsto> r') \<and> R i r r')"
    and run: "bindE (query_db (\<lambda>d. sort_key fst (T d))) (collectE f) s = (Inr fs, t)"
    and v: "vault C key s" "v = g (db s)" and k: "keyed (T (db s))"
  shows "vault C key t \<and> g (db t) = g (db s) \<and> set fs = (\<Union>(i, r)\<in>set (T (db s)). set (F i r)) \<and>
    rows_migrated R (T (db s)) (T (db t))"
proof -
  let ?rows = "sort_key fst (T (db s))" and ?u = "s\<lparr>calls := Suc (calls s)\<rparr>"
  from run have c: "collectE f ?rows ?u = (Inr fs, t)" by (auto simp: bindE_Inr_iff query_db_Inr_iff)
  have I: "during C key g v ?u" using v by (simp add: during_def)
  have rows: "map_of (T (db ?u)) i = Some r" if "(i, r) \<in> set ?rows" for i r using that k by simp
  note d = sorted_rows [OF k]
  from collectE_rows [where T = "\<lambda>s. map_of (T (db s))" and I = "during C key g v" and R = R, OF step c I d(1) rows]
  have res: "during C key g v t" "fs = concat (map (\<lambda>(i, r). F i r) ?rows)"
    "\<And>i. case map_of ?rows i of None \<Rightarrow> map_of (T (db t)) i = map_of (T (db ?u)) i | Some r \<Rightarrow> \<exists>r'. map_of (T (db t)) i = Some r' \<and> R i r r'"
    by blast+
  have "rel_option (R i) (map_of (T (db s)) i) (map_of (T (db t)) i)" for i
    using res(3) [of i] d(3) by (auto split: option.splits)
  with res(1,2) v show ?thesis by (auto simp: during_def rows_migrated_def)
qed

lemma UN_rows: "keyed t \<Longrightarrow> (\<Union>(i, r)\<in>set t. F i r) = {a. \<exists>i r. map_of t i = Some r \<and> a \<in> F i r}"
  by (fastforce simp: keyed_in_set_map_of [symmetric])

lemma unreadable_iff: "a \<in> set (unreadable C key b c) \<longleftrightarrow> a = b \<and> stored_plain C key b c = None"
  by (simp add: unreadable_def)

lemma unreadable_sets:
  assumes "keyed (cred_keys d)" "keyed (sshs d)" "keyed (agents d)"
  shows "(\<Union>(i, r)\<in>set (cred_keys d). set (key_unreadable C key i r)) \<union>
    (\<Union>(i, r)\<in>set (sshs d). set (unreadable C key (SSHPassword i) (ssh_password r))) \<union>
    (\<Union>(i, r)\<in>set (agents d). set (unreadable C key (AgentPrivateKey i) (ag_private_key r))) =
    unreadable_credentials C key d"
  unfolding assms [THEN UN_rows] set_eq_iff
proof
  fix a
  show "(a \<in> {a. \<exists>i r. map_of (cred_keys d) i = Some r \<and> a \<in> set (key_unreadable C key i r)} \<union>
      {a. \<exists>i r. map_of (sshs d) i = Some r \<and> a \<in> set (unreadable C key (SSHPassword i) (ssh_password r))} \<union>
      {a. \<exists>i r. map_of (agents d) i = Some r \<and> a \<in> set (unreadable C key (AgentPrivateKey i) (ag_private_key r))}) =
    (a \<in> unreadable_credentials C key d)"
    by (cases a) (simp_all add: key_unreadable_def unreadable_iff unreadable_credentials_def cred_of_def, blast+)
qed

lemma migrate_tables_Inr:
  assumes run: "migrate_tables s = (Inr fs, t)" and v: "vault C key s"
    and k: "keyed (cred_keys (db s))" "keyed (sshs (db s))" "keyed (agents (db s))"
  shows "migration_done C key (db s) (db t) \<and> set fs = unreadable_credentials C key (db s)"
proof -
  from run obtain f g h s1 s2 where
    f: "bindE (query_db (\<lambda>d. sort_key fst (cred_keys d))) (collectE migrate_key) s = (Inr f, s1)" and
    g: "bindE (query_db (\<lambda>d. sort_key fst (sshs d))) (collectE migrate_ssh) s1 = (Inr g, s2)" and
    h: "bindE (query_db (\<lambda>d. sort_key fst (agents d))) (collectE migrate_agent) s2 = (Inr h, t)" and
    fs: "fs = f @ g @ h"
    by (auto simp: migrate_tables_def bindE_Inr_iff ret_def)
  have 1: "vault C key s1 \<and> (db s1)\<lparr>cred_keys := []\<rparr> = (db s)\<lparr>cred_keys := []\<rparr> \<and>
      set f = (\<Union>(i, r)\<in>set (cred_keys (db s)). set (key_unreadable C key i r)) \<and>
      rows_migrated (key_migrated C key) (cred_keys (db s)) (cred_keys (db s1))"
    by (rule loop_rows [OF _ f v refl k(1)]) (erule (2) migrate_key_Inr)
  then have d1: "(db s1)\<lparr>cred_keys := []\<rparr> = (db s)\<lparr>cred_keys := []\<rparr>" by blast
  from d1 have e1: "sshs (db s1) = sshs (db s)" "agents (db s1) = agents (db s)"
    by (auto dest: arg_cong [of _ _ sshs] arg_cong [of _ _ agents])
  have 2: "vault C key s2 \<and> (db s2)\<lparr>sshs := []\<rparr> = (db s1)\<lparr>sshs := []\<rparr> \<and>
      set g = (\<Union>(i, r)\<in>set (sshs (db s1)). set (unreadable C key (SSHPassword i) (ssh_password r))) \<and>
      rows_migrated (ssh_migrated C key) (sshs (db s1)) (sshs (db s2))"
    by (rule loop_rows [OF _ g conjunct1 [OF 1] refl]) (erule (2) migrate_ssh_Inr, simp add: e1 k)
  then have d2: "(db s2)\<lparr>sshs := []\<rparr> = (db s1)\<lparr>sshs := []\<rparr>" by blast
  from d2 e1 have e2: "cred_keys (db s2) = cred_keys (db s1)" "agents (db s2) = agents (db s)"
    by (auto dest: arg_cong [of _ _ cred_keys] arg_cong [of _ _ agents])
  have 3: "vault C key t \<and> (db t)\<lparr>agents := []\<rparr> = (db s2)\<lparr>agents := []\<rparr> \<and>
      set h = (\<Union>(i, r)\<in>set (agents (db s2)). set (unreadable C key (AgentPrivateKey i) (ag_private_key r))) \<and>
      rows_migrated (agent_migrated C key) (agents (db s2)) (agents (db t))"
    by (rule loop_rows [OF _ h conjunct1 [OF 2] refl]) (erule (2) migrate_agent_Inr, simp add: e2 k)
  then have d3: "(db t)\<lparr>agents := []\<rparr> = (db s2)\<lparr>agents := []\<rparr>" by blast
  from d3 e2 have e3: "cred_keys (db t) = cred_keys (db s1)" "sshs (db t) = sshs (db s2)"
    by (auto dest: arg_cong [of _ _ cred_keys] arg_cong [of _ _ sshs])
  have "(db t)\<lparr>cred_keys := [], sshs := [], agents := []\<rparr> = (db s)\<lparr>cred_keys := [], sshs := [], agents := []\<rparr>"
    using d1 d2 d3 by (cases "db t"; cases "db s2"; cases "db s1"; cases "db s") simp
  with 1 2 3 e1 e2 e3 have "migration_done C key (db s) (db t)" by (simp add: migration_done_def)
  moreover have "set fs = unreadable_credentials C key (db s)"
    using 1 2 3 unreadable_sets [OF k] by (simp add: fs Un_assoc e1 e2)
  ultimately show ?thesis by blast
qed

text \<open>
  (C9) The migration is atomic and keeps the meaning of every credential: on success each one that
  could be read is an envelope bound to its own record and field that opens to the same plaintext
  (an empty column stays empty), every other column is untouched, and the report lists exactly the
  credentials that cannot be read, which keep their stored value; on an error the tables are as
  before, or migrated when only the acknowledgement of the commit was lost.
\<close>

theorem MigrateEncryptedCredentials_correct:
  assumes v: "vault C key s" and run: "MigrateEncryptedCredentials s = (r, t)"
    and k: "keyed (cred_keys (db s))" "keyed (sshs (db s))" "keyed (agents (db s))"
  shows "case r of
      Inr fs \<Rightarrow> migration_done C key (db s) (db t) \<and> set fs = unreadable_credentials C key (db s)
    | Inl _ \<Rightarrow> db t = db s \<or> migration_done C key (db s) (db t)"
proof -
  let ?s = "s\<lparr>calls := Suc (calls s)\<rparr>"
  from transaction_db_atomic [OF run [unfolded MigrateEncryptedCredentials_def]] show ?thesis
  proof
    assume "\<exists>x u. migrate_tables ?s = (Inr x, u) \<and> db t = db u \<and> (r = Inr x \<or> r = Inl ErrDb)"
    then obtain x u where u: "migrate_tables ?s = (Inr x, u)" "db t = db u" "r = Inr x \<or> r = Inl ErrDb" by blast
    from migrate_tables_Inr [OF u(1)] v k u(2,3) show ?thesis by auto
  qed auto
qed

lemma sample_hub_vault: "vault sample_ciphers (replicate 32 CHR ''k'') (sample_hub d)"
  by (simp add: vault_def sample_hub_def sample_ciphers_ok rand_ok_def)

text \<open>A legacy key, an SSH password that is not a ciphertext, and an agent key in plain.\<close>

definition sample_legacy :: server_db where
  "sample_legacy = no_servers\<lparr>
     cred_keys := [(1, \<lparr>k_team = 7, k_name = ''k'', k_content = replicate 16 CHR ''i'' @ ''pem'' @ replicate 13 (CHR 0x0D), k_password = None\<rparr>)],
     sshs := [(2, \<lparr>ssh_address = ''h'', ssh_port = 22, ssh_username = ''u'', ssh_key_id = 0, ssh_password = ''plain'', ssh_host_key = None, ssh_trust_legacy = True\<rparr>)],
     agents := [(3, \<lparr>ag_uid = ''a'', ag_status = 0, ag_ip = [], ag_version = [], ag_public_key = [], ag_private_key = ''priv'', ag_protocol = 2, ag_host = [], ag_port = 0\<rparr>)]\<rparr>"

lemma sample_migration: "fst (MigrateEncryptedCredentials (sample_hub sample_legacy)) = Inr [SSHPassword 2]"
  by code_simp

theorem MigrateEncryptedCredentials_correct_witness:
  "migration_done sample_ciphers (replicate 32 CHR ''k'') sample_legacy (db (snd (MigrateEncryptedCredentials (sample_hub sample_legacy)))) \<and>
   unreadable_credentials sample_ciphers (replicate 32 CHR ''k'') sample_legacy = {SSHPassword 2}"
proof -
  let ?s = "sample_hub sample_legacy"
  have d: "db ?s = sample_legacy" by (simp add: sample_hub_def)
  have k: "keyed (cred_keys (db ?s))" "keyed (sshs (db ?s))" "keyed (agents (db ?s))"
    by code_simp+
  from MigrateEncryptedCredentials_correct [OF sample_hub_vault prod.collapse [symmetric] k] sample_migration
  show ?thesis by (simp add: d)
qed

end
