(* ===== verification/Connections.thy ===== *)
theory Connections
  imports Servers Complex_Main
begin

text \<open>
  The connection supervisor: \<open>internal/connect/conn\<close> (which worker runs for a server, and the
  retries of a reconciliation that failed), \<open>internal/connect/init.go\<close>, and the registry of the
  connections passive agents opened (\<open>internal/app/agent/connection/main.go\<close>). Goroutines are objects behind pointers; a pointer is an index into the
  list of all objects made so far.
\<close>

declare map_of_eq_Some_iff [simp del]

section \<open>State\<close>

datatype work =
    SSHWork string int string string string string string bool int int
      \<comment> \<open>host, port, user, password, key, key password, host key, trust legacy, server, team\<close>
  | ActiveWork string int string string string int int bool
      \<comment> \<open>host, port, private key, agent uid, public key, protocol version, server, monitoring\<close>

fun work_server :: "work \<Rightarrow> int" where
  "work_server (SSHWork _ _ _ _ _ _ _ _ sid _) = sid"
| "work_server (ActiveWork _ _ _ _ _ _ sid _) = sid"

record ServerEntry =
  se_work :: work
  se_canceled :: bool
  se_done :: bool

record reconcileRetry =
  rr_server :: int
  rr_canceled :: bool
  rr_done :: bool
  rr_failures :: nat

record ManagedConn =
  mc_server :: int
  mc_closed :: bool

record connenv = srvenv +
  entries :: "ServerEntry list"
  connectPool :: "(int, nat) table"
  retries :: "reconcileRetry list"
  reconcileRetries :: "(int, nat) table"
  managed :: "ManagedConn list"
  mainConnections :: "(int, nat) table"

type_synonym ('z, 'a) conn_io = "('z connenv_scheme, err, 'a) io"

definition lifecycleLock :: "int \<Rightarrow> nat" where
  "lifecycleLock serverID = nat (serverID mod 2 ^ 64) mod 64"

section \<open>Connections of passive agents: internal/app/agent/connection/main.go\<close>

text \<open>Closing is idempotent; it returns once no function runs under \<open>WhileOpen\<close>.\<close>

definition managed_Close :: "nat \<Rightarrow> 'z connenv_scheme \<Rightarrow> 'z connenv_scheme" where
  "managed_Close p s = s\<lparr>managed := (managed s)[p := (managed s ! p)\<lparr>mc_closed := True\<rparr>]\<rparr>"

definition close_taken :: "nat option \<Rightarrow> ('z, unit) conn_io" where
  "close_taken taken = (case taken of None \<Rightarrow> ret () | Some p \<Rightarrow> modify (managed_Close p))"

text \<open>The section of \<open>mainSetManaged\<close> under the lock: the new connection, and the one it replaced.\<close>

definition main_swap :: "int \<Rightarrow> ('z, nat \<times> nat option) conn_io" where
  "main_swap serverId = (\<lambda>s.
     let p = length (managed s) in
     (Inr (p, map_of (mainConnections s) serverId),
      s\<lparr>managed := managed s @ [\<lparr>mc_server = serverId, mc_closed = False\<rparr>],
        mainConnections := AList.update serverId p (mainConnections s)\<rparr>))"

text \<open>The replaced connection is closed after the lock is released.\<close>

definition MainSet :: "int \<Rightarrow> ('z, nat) conn_io" where
  "MainSet serverId = bindE (main_swap serverId) (\<lambda>(p, old). bindE (close_taken old) (\<lambda>_. ret p))"

definition MainGet :: "int \<Rightarrow> ('z, nat option) conn_io" where
  "MainGet serverId = gets (\<lambda>s. map_of (mainConnections s) serverId)"

definition MainRemove :: "int \<Rightarrow> nat \<Rightarrow> ('z, unit) conn_io" where
  "MainRemove serverId p = modify (\<lambda>s.
     if map_of (mainConnections s) serverId = Some p
     then s\<lparr>mainConnections := AList.delete serverId (mainConnections s)\<rparr> else s)"

text \<open>The section of \<open>MainClose\<close> under the lock; the connection is closed after it.\<close>

definition main_take :: "int \<Rightarrow> ('z, nat option) conn_io" where
  "main_take serverId = (\<lambda>s.
     (Inr (map_of (mainConnections s) serverId),
      if map_of (mainConnections s) serverId = None then s
      else s\<lparr>mainConnections := AList.delete serverId (mainConnections s)\<rparr>))"

definition MainClose :: "int \<Rightarrow> ('z, unit) conn_io" where
  "MainClose serverId = bindE (main_take serverId) close_taken"

text \<open>\<open>WhileOpen\<close> runs its function exactly while the connection is not closed.\<close>

definition WhileOpen :: "nat \<Rightarrow> ('z, unit) conn_io \<Rightarrow> ('z, bool) conn_io" where
  "WhileOpen p m = bindE (gets (\<lambda>s. mc_closed (managed s ! p))) (\<lambda>closed.
     if closed then ret False else tryE m (\<lambda>_. ret True))"

text \<open>What a passive agent's handler does when its connection ends.\<close>

definition passive_end :: "nat \<Rightarrow> ('z, unit) conn_io" where
  "passive_end p = bindE (gets (\<lambda>s. mc_server (managed s ! p))) (\<lambda>serverId.
     bindE (MainRemove serverId p) (\<lambda>_. modify (managed_Close p)))"

section \<open>Stopping: internal/connect/conn/stop.go\<close>

definition finish_entry :: "nat \<Rightarrow> 'z connenv_scheme \<Rightarrow> 'z connenv_scheme" where
  "finish_entry p s = s\<lparr>entries := (entries s)[p := (entries s ! p)\<lparr>se_done := True\<rparr>]\<rparr>"

definition cancel_entry :: "nat \<Rightarrow> 'z connenv_scheme \<Rightarrow> 'z connenv_scheme" where
  "cancel_entry p s = s\<lparr>entries := (entries s)[p := (entries s ! p)\<lparr>se_canceled := True\<rparr>]\<rparr>"

definition finishOutboundServer :: "int \<Rightarrow> nat \<Rightarrow> ('z, unit) conn_io" where
  "finishOutboundServer serverID p = modify (\<lambda>s. finish_entry p
     (if map_of (connectPool s) serverID = Some p
      then s\<lparr>connectPool := AList.delete serverID (connectPool s)\<rparr> else s))"

text \<open>
  The caller takes the entry out of the pool, cancels it and waits for \<open>done\<close>: the worker has
  run \<open>finishOutboundServer\<close> when the operation returns.
\<close>

definition stopOutboundServer :: "int \<Rightarrow> ('z, unit) conn_io" where
  "stopOutboundServer serverId =
     bindE (gets (\<lambda>s. map_of (connectPool s) serverId)) (\<lambda>entry. case entry of
       None \<Rightarrow> ret ()
     | Some p \<Rightarrow>
         bindE (modify (\<lambda>s. cancel_entry p (s\<lparr>connectPool := AList.delete serverId (connectPool s)\<rparr>))) (\<lambda>_.
         finishOutboundServer serverId p))"

definition stopInboundServer :: "int \<Rightarrow> ('z, unit) conn_io" where
  "stopInboundServer serverId = MainClose serverId"

definition stopServer :: "int \<Rightarrow> ('z, unit) conn_io" where
  "stopServer serverId = bindE (stopOutboundServer serverId) (\<lambda>_. stopInboundServer serverId)"

definition cancel_retry :: "nat \<Rightarrow> 'z connenv_scheme \<Rightarrow> 'z connenv_scheme" where
  "cancel_retry p s = s\<lparr>retries := (retries s)[p := (retries s ! p)\<lparr>rr_canceled := True\<rparr>]\<rparr>"

definition cancelReconcileRetry :: "int \<Rightarrow> ('z, unit) conn_io" where
  "cancelReconcileRetry serverID = modify (\<lambda>s.
     case map_of (reconcileRetries s) serverID of
       None \<Rightarrow> s
     | Some p \<Rightarrow> cancel_retry p (s\<lparr>reconcileRetries := AList.delete serverID (reconcileRetries s)\<rparr>))"

definition StopServer :: "int \<Rightarrow> ('z, unit) conn_io" where
  "StopServer serverId = bindE (cancelReconcileRetry serverId) (\<lambda>_. stopServer serverId)"

section \<open>Starting: internal/connect/conn/start.go\<close>

record ssh_target =
  st_host :: string
  st_port :: int
  st_user :: string
  st_password :: string
  st_key_id :: int
  st_key_password :: string
  st_key :: string
  st_host_key :: string
  st_trust_legacy :: bool
  st_team :: int

text \<open>A missing key reads as empty columns.\<close>

definition ssh_row_of :: "int \<Rightarrow> server_db \<Rightarrow> ssh_target option" where
  "ssh_row_of sid d =
     (case (map_of (srvs d) sid, map_of (sshs d) sid) of
        (Some sv, Some r) \<Rightarrow>
          let k = map_of (cred_keys d) (ssh_key_id r) in
          Some \<lparr>st_host = ssh_address r, st_port = ssh_port r, st_user = ssh_username r, st_password = ssh_password r,
                st_key_id = ssh_key_id r,
                st_key_password = (case k of Some kr \<Rightarrow> (case k_password kr of Some c \<Rightarrow> c | None \<Rightarrow> []) | None \<Rightarrow> []),
                st_key = (case k of Some kr \<Rightarrow> k_content kr | None \<Rightarrow> []),
                st_host_key = (case ssh_host_key r of Some h \<Rightarrow> h | None \<Rightarrow> []),
                st_trust_legacy = ssh_trust_legacy r, st_team = srv_team sv\<rparr>
      | _ \<Rightarrow> None)"

definition agent_row_of :: "int \<Rightarrow> server_db \<Rightarrow> agent_row option" where
  "agent_row_of sid d = (if has_key (srvs d) sid then map_of (agents d) sid else None)"

definition register_worker :: "int \<Rightarrow> work \<Rightarrow> ('z, unit) conn_io" where
  "register_worker serverId w =
     bindE (stopOutboundServer serverId) (\<lambda>_.
     modify (\<lambda>s. s\<lparr>entries := entries s @ [\<lparr>se_work = w, se_canceled = False, se_done = False\<rparr>],
                   connectPool := AList.update serverId (length (entries s)) (connectPool s)\<rparr>))"

definition start_ssh :: "int \<Rightarrow> ('z, unit) conn_io" where
  "start_ssh serverId =
     bindE (query_db_row (ssh_row_of serverId)) (\<lambda>r.
     bindE (decrypt_nonempty (st_password r) (SSHPasswordContext serverId)) (\<lambda>pwdStr.
     bindE (decrypt_nonempty (st_key r) (KeyContentContext (st_key_id r))) (\<lambda>keyStr.
     bindE (decrypt_nonempty (st_key_password r) (KeyPasswordContext (st_key_id r))) (\<lambda>keyPwdStr.
     register_worker serverId (SSHWork (st_host r) (st_port r) (st_user r) pwdStr keyStr keyPwdStr
       (st_host_key r) (st_trust_legacy r) serverId (st_team r))))))"

definition start_active :: "int \<Rightarrow> bool \<Rightarrow> ('z, unit) conn_io" where
  "start_active serverId allowMonitor =
     bindE (query_db_row (agent_row_of serverId)) (\<lambda>a.
     bindE (hub_decrypt (ag_private_key a) (AgentPrivateKeyContext serverId)) (\<lambda>privKeyPEM.
     register_worker serverId (ActiveWork (ag_host a) (ag_port a) privKeyPEM (ag_uid a) (ag_public_key a)
       (ag_protocol a) serverId allowMonitor)))"

definition startServer :: "int \<Rightarrow> int \<Rightarrow> bool \<Rightarrow> ('z, unit) conn_io" where
  "startServer serverId mode allowMonitor =
     (if mode = 0 then start_ssh serverId
      else if mode = 1 then start_active serverId allowMonitor
      else ret ())"

text \<open>The second half of a reconciliation, once the server is known to want a connection.\<close>

definition connect_by_mode :: "int \<Rightarrow> int \<Rightarrow> bool \<Rightarrow> ('z, unit) conn_io" where
  "connect_by_mode serverId mode allowMonitor =
     (if mode = 0 \<or> mode = 1 then
        bindE (stopInboundServer serverId) (\<lambda>_.
        bindE (stopOutboundServer serverId) (\<lambda>_.
        tryE (startServer serverId mode allowMonitor) (\<lambda>res. case res of
          Inl e \<Rightarrow> if e = ErrNoRows then ret () else raise e
        | Inr _ \<Rightarrow> ret ())))
      else if mode = 2 then stopOutboundServer serverId
      else bindE (stopServer serverId) (\<lambda>_. raise ErrUnsupportedConnectionType))"

text \<open>A server without monitoring is connected only to pair an active agent without a pinned key.\<close>

definition reconcile_unmonitored :: "int \<Rightarrow> int \<Rightarrow> ('z, unit) conn_io" where
  "reconcile_unmonitored serverId mode =
     (if mode \<noteq> 1 then stopServer serverId
      else tryE (query_db_row (\<lambda>d. map_option ag_public_key (map_of (agents d) serverId))) (\<lambda>res. case res of
        Inl e \<Rightarrow> bindE (stopServer serverId) (\<lambda>_. if e = ErrNoRows then ret () else raise e)
      | Inr publicKey \<Rightarrow>
          if publicKey \<noteq> [] then stopServer serverId
          else connect_by_mode serverId mode False))"

definition reconcileServer :: "int \<Rightarrow> ('z, unit) conn_io" where
  "reconcileServer serverId =
     tryE (query_db_row (\<lambda>d. map_option (\<lambda>r. (srv_type r, srv_monitor r)) (map_of (srvs d) serverId))) (\<lambda>res.
     case res of
       Inl e \<Rightarrow> bindE (stopServer serverId) (\<lambda>_. if e = ErrNoRows then ret () else raise e)
     | Inr (mode, allowMonitor) \<Rightarrow>
         if \<not> allowMonitor then reconcile_unmonitored serverId mode
         else connect_by_mode serverId mode True)"

definition startReconcileRetry :: "int \<Rightarrow> ('z, unit) conn_io" where
  "startReconcileRetry serverID = modify (\<lambda>s.
     s\<lparr>retries := retries s @ [\<lparr>rr_server = serverID, rr_canceled = False, rr_done = False, rr_failures = 0\<rparr>],
       reconcileRetries := AList.update serverID (length (retries s)) (reconcileRetries s)\<rparr>)"

definition ReconcileServer :: "int \<Rightarrow> ('z, unit) conn_io" where
  "ReconcileServer serverId =
     bindE (cancelReconcileRetry serverId) (\<lambda>_.
     tryE (reconcileServer serverId) (\<lambda>res. case res of
       Inl e \<Rightarrow> bindE (startReconcileRetry serverId) (\<lambda>_. raise e)
     | Inr _ \<Rightarrow> ret ()))"

text \<open>One round of the goroutine of a retry, after its timer fired.\<close>

definition end_retry :: "nat \<Rightarrow> 'z connenv_scheme \<Rightarrow> 'z connenv_scheme" where
  "end_retry p s = s\<lparr>retries := (retries s)[p := (retries s ! p)\<lparr>rr_done := True\<rparr>]\<rparr>"

definition count_failure :: "nat \<Rightarrow> 'z connenv_scheme \<Rightarrow> 'z connenv_scheme" where
  "count_failure p s = s\<lparr>retries := (retries s)[p := (retries s ! p)\<lparr>rr_failures := Suc (rr_failures (retries s ! p))\<rparr>]\<rparr>"

definition retry_round :: "nat \<Rightarrow> ('z, unit) conn_io" where
  "retry_round p =
     bindE (gets (\<lambda>s. (rr_server (retries s ! p), rr_canceled (retries s ! p)))) (\<lambda>(serverID, canceled).
     bindE (gets (\<lambda>s. map_of (reconcileRetries s) serverID)) (\<lambda>current.
     if canceled \<or> current \<noteq> Some p then modify (end_retry p)
     else
       tryE (reconcileServer serverID) (\<lambda>res. case res of
         Inr _ \<Rightarrow>
           modify (\<lambda>s. end_retry p
             (if map_of (reconcileRetries s) serverID = Some p
              then s\<lparr>reconcileRetries := AList.delete serverID (reconcileRetries s)\<rparr> else s))
       | Inl _ \<Rightarrow> modify (count_failure p))))"

text \<open>The other branch of its \<open>select\<close>: the context is canceled.\<close>

definition retry_canceled :: "nat \<Rightarrow> ('z, unit) conn_io" where
  "retry_canceled p = modify (end_retry p)"

subsection \<open>Delays\<close>

definition conn_second :: int where "conn_second = 1000000000"

function delay_loop :: "nat \<Rightarrow> nat \<Rightarrow> int \<Rightarrow> int" where
  "delay_loop i failures delay =
     (if i < failures \<and> delay < 60 * conn_second then
        let d = delay * 2 in
        delay_loop (Suc i) failures (if d > 60 * conn_second then 60 * conn_second else d)
      else delay)"
  by pat_completeness auto
termination by (relation "measure (\<lambda>(i, failures, _). failures - i)") auto

definition retryDelay :: "nat \<Rightarrow> real \<Rightarrow> int" where
  "retryDelay failures jitter =
     (let delay = delay_loop 0 failures conn_second;
          j = (if jitter < 0 then 0 else if jitter > 1 then 1 else jitter) in
      delay + \<lfloor>real_of_int delay * (1 / 4) * j\<rfloor>)"

subsection \<open>The worker of an active agent\<close>

text \<open>What one attempt to connect came to, and what the reload of the identity returned.\<close>

datatype connect_result = ConnectOk | IdentityMismatch | LegacyRequiresUpgrade | ConnectFailed

record active_state =
  as_failures :: nat
  as_noticed :: bool
  as_public_key :: string
  as_protocol :: int

datatype active_next = WorkerReturns | WorkerRetries active_state

definition active_attempt ::
  "bool \<Rightarrow> bool \<Rightarrow> connect_result \<Rightarrow> (string \<times> int) option \<Rightarrow> int \<Rightarrow> active_state \<Rightarrow> active_next \<times> bool" where
  "active_attempt allowMonitor canceled res reloaded elapsed st =
     (if canceled then (WorkerReturns, False)
      else if res = IdentityMismatch then (WorkerReturns, False)
      else
        let notice = (res = LegacyRequiresUpgrade \<and> \<not> as_noticed st);
            st1 = st\<lparr>as_noticed := as_noticed st \<or> notice\<rparr>;
            st2 = (case reloaded of None \<Rightarrow> st1 | Some (k, v) \<Rightarrow> st1\<lparr>as_public_key := k, as_protocol := v\<rparr>) in
        if res = ConnectOk \<and> \<not> allowMonitor then (WorkerReturns, notice)
        else if res \<noteq> ConnectOk then
          (WorkerRetries (st2\<lparr>as_failures := (if elapsed \<ge> 60 * conn_second then 0 else Suc (as_failures st))\<rparr>), notice)
        else (WorkerRetries st2, notice))"

section \<open>Startup: internal/connect/init.go\<close>

definition monitored_servers :: "server_db \<Rightarrow> int list" where
  "monitored_servers d = map fst (filter (\<lambda>(_, r). srv_type r \<noteq> 2 \<and> srv_monitor r \<or> srv_type r = 1) (srvs d))"

definition connect_Init :: "('z, unit) conn_io" where
  "connect_Init = bindE (query_db monitored_servers) (\<lambda>ids.
     forE ids (\<lambda>i. tryE (ReconcileServer i) (\<lambda>_. ret ())))"

declare delay_loop.simps [simp del]

section \<open>Registries\<close>

text \<open>The two operations on the connections of agents, when nothing comes between their sections.\<close>

lemma MainSet_eq:
  "MainSet serverId = (\<lambda>s.
     let p = length (managed s);
         t = s\<lparr>managed := managed s @ [\<lparr>mc_server = serverId, mc_closed = False\<rparr>],
               mainConnections := AList.update serverId p (mainConnections s)\<rparr> in
     (Inr p, case map_of (mainConnections s) serverId of None \<Rightarrow> t | Some old \<Rightarrow> managed_Close old t))"
  by (rule ext) (simp add: MainSet_def main_swap_def close_taken_def bindE_run modify_def ret_def Let_def split: option.split)

lemma MainClose_eq:
  "MainClose serverId = modify (\<lambda>s.
     case map_of (mainConnections s) serverId of
       None \<Rightarrow> s
     | Some p \<Rightarrow> managed_Close p (s\<lparr>mainConnections := AList.delete serverId (mainConnections s)\<rparr>))"
  by (rule ext) (simp add: MainClose_def main_take_def close_taken_def bindE_run modify_def ret_def split: option.split)

text \<open>
  A registry maps servers to the one live object each of them has: every live object is registered
  under its server, and everything registered is live.
\<close>

definition reg_ok :: "('o \<Rightarrow> int) \<Rightarrow> ('o \<Rightarrow> bool) \<Rightarrow> 'o list \<Rightarrow> (int \<rightharpoonup> nat) \<Rightarrow> bool" where
  "reg_ok owner live xs m \<longleftrightarrow>
     (\<forall>p < length xs. live (xs ! p) \<longrightarrow> m (owner (xs ! p)) = Some p) \<and>
     (\<forall>k p. m k = Some p \<longrightarrow> p < length xs \<and> owner (xs ! p) = k \<and> live (xs ! p))"

lemma reg_okD:
  assumes "reg_ok owner live xs m" "m k = Some p"
  shows "p < length xs" "owner (xs ! p) = k" "live (xs ! p)"
  using assms by (auto simp: reg_ok_def)

lemma reg_ok_live: "reg_ok owner live xs m \<Longrightarrow> p < length xs \<Longrightarrow> live (xs ! p) \<Longrightarrow> m (owner (xs ! p)) = Some p"
  by (simp add: reg_ok_def)

lemma reg_ok_unique:
  assumes "reg_ok owner live xs m" "p < length xs" "q < length xs" "live (xs ! p)" "live (xs ! q)" "owner (xs ! p) = owner (xs ! q)"
  shows "p = q"
  using assms by (metis option.inject reg_ok_live)

lemma reg_ok_none: "reg_ok owner live xs m \<Longrightarrow> m k = None \<Longrightarrow> p < length xs \<Longrightarrow> owner (xs ! p) = k \<Longrightarrow> \<not> live (xs ! p)"
  by (auto dest: reg_ok_live)

lemma reg_ok_drop:
  assumes r: "reg_ok owner live xs m" and k: "m k = Some p" and x: "\<not> live x" "owner x = k"
  shows "reg_ok owner live (xs[p := x]) (m(k := None))"
proof -
  note p = reg_okD [OF r k]
  have "m (owner (xs ! q)) = Some q \<and> owner (xs ! q) \<noteq> k" if "q < length xs" "q \<noteq> p" "live (xs ! q)" for q
    using reg_ok_live [OF r that(1,3)] that(2) k by auto
  moreover have "q < length xs \<and> q \<noteq> p \<and> owner (xs ! q) = j \<and> live (xs ! q)" if "m j = Some q" "j \<noteq> k" for j q
    using reg_okD [OF r that(1)] that(2) p by auto
  ultimately show ?thesis using x unfolding reg_ok_def by (auto simp: nth_upd)
qed

lemma reg_ok_add:
  assumes r: "reg_ok owner live xs m" and k: "m k = None" and x: "live x" "owner x = k"
  shows "reg_ok owner live (xs @ [x]) (m(k \<mapsto> length xs))"
proof -
  have "m (owner (xs ! q)) = Some q \<and> owner (xs ! q) \<noteq> k" if "q < length xs" "live (xs ! q)" for q
    using reg_ok_live [OF r that] k by auto
  moreover have "q < length xs \<and> owner (xs ! q) = j \<and> live (xs ! q)" if "m j = Some q" for j q
    using reg_okD [OF r that] by auto
  ultimately show ?thesis using x unfolding reg_ok_def by (auto simp: nth_append less_Suc_eq)
qed

lemma reg_ok_same:
  assumes r: "reg_ok owner live xs m" and x: "owner x = owner (xs ! p)" "live x = live (xs ! p)"
  shows "reg_ok owner live (xs[p := x]) m"
  using r x unfolding reg_ok_def by (simp add: nth_upd)

text \<open>What happens to one server leaves the objects of the others alone.\<close>

definition others :: "('o \<Rightarrow> int) \<Rightarrow> int \<Rightarrow> 'o list \<Rightarrow> (int \<rightharpoonup> nat) \<Rightarrow> 'o list \<Rightarrow> (int \<rightharpoonup> nat) \<Rightarrow> bool" where
  "others owner sid xs m ys m' \<longleftrightarrow> length xs \<le> length ys \<and>
     (\<forall>p < length xs. owner (xs ! p) \<noteq> sid \<longrightarrow> ys ! p = xs ! p) \<and> (\<forall>k. k \<noteq> sid \<longrightarrow> m' k = m k)"

lemma others_refl [simp]: "others owner sid xs m xs m"
  by (simp add: others_def)

lemma others_trans: "others owner sid xs m ys m' \<Longrightarrow> others owner sid ys m' zs m'' \<Longrightarrow> others owner sid xs m zs m''"
  by (auto simp: others_def)

lemma others_drop: "owner (xs ! p) = sid \<Longrightarrow> others owner sid xs m (xs[p := x]) (m(sid := None))"
  by (auto simp: others_def nth_upd)

lemma others_add: "others owner sid xs m (xs @ [x]) (m(sid \<mapsto> p))"
  by (auto simp: others_def nth_append)

subsection \<open>The three registries of the supervisor\<close>

definition retry_live :: "reconcileRetry \<Rightarrow> bool" where
  "retry_live r \<longleftrightarrow> \<not> rr_canceled r \<and> \<not> rr_done r"

abbreviation entry_server :: "ServerEntry \<Rightarrow> int" where
  "entry_server e \<equiv> work_server (se_work e)"

definition conn_ok :: "'z connenv_scheme \<Rightarrow> bool" where
  "conn_ok s \<longleftrightarrow>
     reg_ok entry_server (\<lambda>e. \<not> se_done e) (entries s) (map_of (connectPool s)) \<and>
     reg_ok rr_server retry_live (retries s) (map_of (reconcileRetries s)) \<and>
     reg_ok mc_server (\<lambda>c. \<not> mc_closed c) (managed s) (map_of (mainConnections s))"

text \<open>What runs for a server, and the connection its agent opened.\<close>

definition running :: "'z connenv_scheme \<Rightarrow> int \<Rightarrow> work option" where
  "running s sid = map_option (\<lambda>p. se_work (entries s ! p)) (map_of (connectPool s) sid)"

abbreviation inbound :: "'z connenv_scheme \<Rightarrow> int \<Rightarrow> nat option" where
  "inbound s sid \<equiv> map_of (mainConnections s) sid"

abbreviation pending_retry :: "'z connenv_scheme \<Rightarrow> int \<Rightarrow> nat option" where
  "pending_retry s sid \<equiv> map_of (reconcileRetries s) sid"

definition frame :: "int \<Rightarrow> 'z connenv_scheme \<Rightarrow> 'z connenv_scheme \<Rightarrow> bool" where
  "frame sid s t \<longleftrightarrow> db t = db s \<and> hub_key t = hub_key s \<and> hub_ciphers t = hub_ciphers s \<and>
     others entry_server sid (entries s) (map_of (connectPool s)) (entries t) (map_of (connectPool t)) \<and>
     others rr_server sid (retries s) (map_of (reconcileRetries s)) (retries t) (map_of (reconcileRetries t)) \<and>
     others mc_server sid (managed s) (map_of (mainConnections s)) (managed t) (map_of (mainConnections t))"

lemma frame_refl [simp]: "frame sid s s"
  by (simp add: frame_def)

lemma frame_trans: "frame sid s t \<Longrightarrow> frame sid t u \<Longrightarrow> frame sid s u"
  unfolding frame_def by (metis others_trans)

lemma calls_irrelevant [simp]:
  "conn_ok (s\<lparr>calls := k\<rparr>) = conn_ok s" "frame sid (s\<lparr>calls := k\<rparr>) t = frame sid s t" "frame sid s (t\<lparr>calls := k\<rparr>) = frame sid s t"
  "running (s\<lparr>calls := k\<rparr>) = running s"
  by (simp_all add: conn_ok_def frame_def running_def fun_eq_iff)

text \<open>
  One step concerning a server: the registries stay consistent, other servers are not touched, and
  the three slots of the server are as given.
\<close>

definition slots :: "int \<Rightarrow> 'z connenv_scheme \<Rightarrow> work option \<Rightarrow> nat option \<Rightarrow> nat option \<Rightarrow> 'z connenv_scheme \<Rightarrow> bool" where
  "slots sid s w i r t \<longleftrightarrow> conn_ok t \<and> frame sid s t \<and> running t sid = w \<and> inbound t sid = i \<and> pending_retry t sid = r"

lemma slots_trans: "slots sid s w i r t \<Longrightarrow> slots sid t w' i' r' u \<Longrightarrow> slots sid s w' i' r' u"
  unfolding slots_def using frame_trans by blast

lemma slots_self: "conn_ok s \<Longrightarrow> slots sid s (running s sid) (inbound s sid) (pending_retry s sid) s"
  by (simp add: slots_def)

lemma slots_calls [simp]:
  "slots sid (s\<lparr>calls := k\<rparr>) w i r t = slots sid s w i r t" "slots sid s w i r (t\<lparr>calls := k\<rparr>) = slots sid s w i r t"
  by (simp_all add: slots_def)

lemma stopOutboundServer_slots:
  assumes "conn_ok s"
  shows "\<exists>t. stopOutboundServer sid s = (Inr (), t) \<and> slots sid s None (inbound s sid) (pending_retry s sid) t"
proof (cases "map_of (connectPool s) sid")
  case None
  with assms show ?thesis
    by (simp add: stopOutboundServer_def bindE_run gets_def ret_def slots_def running_def)
next
  case (Some p)
  let ?t = "s\<lparr>entries := (entries s)[p := (entries s ! p)\<lparr>se_canceled := True, se_done := True\<rparr>], connectPool := AList.delete sid (connectPool s)\<rparr>"
  from assms have r: "reg_ok entry_server (\<lambda>e. \<not> se_done e) (entries s) (map_of (connectPool s))" by (simp add: conn_ok_def)
  note p = reg_okD [OF r Some]
  have "stopOutboundServer sid s = (Inr (), ?t)"
    using Some p(1) by (simp add: stopOutboundServer_def bindE_run gets_def modify_def cancel_entry_def finishOutboundServer_def finish_entry_def AList.delete_conv')
  moreover have "reg_ok entry_server (\<lambda>e. \<not> se_done e) (entries ?t) (map_of (connectPool ?t))"
    using reg_ok_drop [OF r Some, of "(entries s ! p)\<lparr>se_canceled := True, se_done := True\<rparr>"] p by (simp add: AList.delete_conv')
  moreover have "others entry_server sid (entries s) (map_of (connectPool s)) (entries ?t) (map_of (connectPool ?t))"
    using others_drop [of entry_server "entries s" p sid] p by (simp add: AList.delete_conv')
  ultimately show ?thesis using assms by (auto simp: slots_def conn_ok_def frame_def running_def AList.delete_conv')
qed

lemma stopInboundServer_slots:
  assumes "conn_ok s"
  shows "\<exists>t. stopInboundServer sid s = (Inr (), t) \<and> slots sid s (running s sid) None (pending_retry s sid) t"
proof (cases "map_of (mainConnections s) sid")
  case None
  with assms show ?thesis by (simp add: stopInboundServer_def MainClose_eq modify_def slots_def)
next
  case (Some p)
  let ?t = "s\<lparr>managed := (managed s)[p := (managed s ! p)\<lparr>mc_closed := True\<rparr>], mainConnections := AList.delete sid (mainConnections s)\<rparr>"
  from assms have r: "reg_ok mc_server (\<lambda>c. \<not> mc_closed c) (managed s) (map_of (mainConnections s))" by (simp add: conn_ok_def)
  note p = reg_okD [OF r Some]
  have "stopInboundServer sid s = (Inr (), ?t)"
    using Some by (simp add: stopInboundServer_def MainClose_eq modify_def managed_Close_def)
  moreover have "reg_ok mc_server (\<lambda>c. \<not> mc_closed c) (managed ?t) (map_of (mainConnections ?t))"
    using reg_ok_drop [OF r Some, of "(managed s ! p)\<lparr>mc_closed := True\<rparr>"] p by (simp add: AList.delete_conv')
  moreover have "others mc_server sid (managed s) (map_of (mainConnections s)) (managed ?t) (map_of (mainConnections ?t))"
    using others_drop [of mc_server "managed s" p sid] p by (simp add: AList.delete_conv')
  ultimately show ?thesis using assms by (auto simp: slots_def conn_ok_def frame_def running_def AList.delete_conv')
qed

lemma stopServer_slots:
  assumes "conn_ok s"
  shows "\<exists>t. stopServer sid s = (Inr (), t) \<and> slots sid s None None (pending_retry s sid) t"
proof -
  obtain t where t: "stopOutboundServer sid s = (Inr (), t)" "slots sid s None (inbound s sid) (pending_retry s sid) t"
    using stopOutboundServer_slots [OF assms] by blast
  then have "conn_ok t" by (simp add: slots_def)
  from stopInboundServer_slots [OF this, of sid] obtain u where u: "stopInboundServer sid t = (Inr (), u)"
    "slots sid t (running t sid) None (pending_retry t sid) u" by blast
  from slots_trans [OF t(2) u(2)] t u show ?thesis by (simp add: stopServer_def bindE_run slots_def)
qed

lemma register_worker_slots:
  assumes "conn_ok s" "work_server w = sid"
  shows "\<exists>t. register_worker sid w s = (Inr (), t) \<and> slots sid s (Some w) (inbound s sid) (pending_retry s sid) t"
proof -
  obtain t where t: "stopOutboundServer sid s = (Inr (), t)" "slots sid s None (inbound s sid) (pending_retry s sid) t"
    using stopOutboundServer_slots [OF assms(1)] by blast
  then have ok: "conn_ok t" and none: "map_of (connectPool t) sid = None" by (simp_all add: slots_def running_def)
  let ?e = "\<lparr>se_work = w, se_canceled = False, se_done = False\<rparr>"
  let ?u = "t\<lparr>entries := entries t @ [?e], connectPool := AList.update sid (length (entries t)) (connectPool t)\<rparr>"
  from ok have r: "reg_ok entry_server (\<lambda>e. \<not> se_done e) (entries t) (map_of (connectPool t))" by (simp add: conn_ok_def)
  have "reg_ok entry_server (\<lambda>e. \<not> se_done e) (entries ?u) (map_of (connectPool ?u))"
    using reg_ok_add [OF r none, of ?e] assms(2) by (simp add: AList.update_conv')
  moreover have "others entry_server sid (entries t) (map_of (connectPool t)) (entries ?u) (map_of (connectPool ?u))"
    using others_add [of entry_server sid "entries t" _ ?e] by (simp add: AList.update_conv')
  ultimately have "slots sid t (Some w) (inbound t sid) (pending_retry t sid) ?u"
    using ok by (auto simp: slots_def conn_ok_def frame_def running_def AList.update_conv')
  from slots_trans [OF t(2) this] t show ?thesis by (simp add: register_worker_def bindE_run modify_def slots_def)
qed

lemma cancelReconcileRetry_slots:
  assumes "conn_ok s"
  shows "\<exists>t. cancelReconcileRetry sid s = (Inr (), t) \<and> slots sid s (running s sid) (inbound s sid) None t"
proof (cases "map_of (reconcileRetries s) sid")
  case None
  with assms show ?thesis by (simp add: cancelReconcileRetry_def modify_def slots_def)
next
  case (Some p)
  let ?t = "s\<lparr>retries := (retries s)[p := (retries s ! p)\<lparr>rr_canceled := True\<rparr>], reconcileRetries := AList.delete sid (reconcileRetries s)\<rparr>"
  from assms have r: "reg_ok rr_server retry_live (retries s) (map_of (reconcileRetries s))" by (simp add: conn_ok_def)
  note p = reg_okD [OF r Some]
  have "cancelReconcileRetry sid s = (Inr (), ?t)"
    using Some by (simp add: cancelReconcileRetry_def modify_def cancel_retry_def)
  moreover have "reg_ok rr_server retry_live (retries ?t) (map_of (reconcileRetries ?t))"
    using reg_ok_drop [OF r Some, of "(retries s ! p)\<lparr>rr_canceled := True\<rparr>"] p by (simp add: AList.delete_conv' retry_live_def)
  moreover have "others rr_server sid (retries s) (map_of (reconcileRetries s)) (retries ?t) (map_of (reconcileRetries ?t))"
    using others_drop [of rr_server "retries s" p sid] p by (simp add: AList.delete_conv')
  ultimately show ?thesis using assms by (auto simp: slots_def conn_ok_def frame_def running_def AList.delete_conv')
qed

lemma startReconcileRetry_slots:
  assumes "conn_ok s" "pending_retry s sid = None"
  shows "\<exists>t. startReconcileRetry sid s = (Inr (), t) \<and> slots sid s (running s sid) (inbound s sid) (Some (length (retries s))) t"
proof -
  let ?r = "\<lparr>rr_server = sid, rr_canceled = False, rr_done = False, rr_failures = 0\<rparr>"
  let ?t = "s\<lparr>retries := retries s @ [?r], reconcileRetries := AList.update sid (length (retries s)) (reconcileRetries s)\<rparr>"
  from assms have r: "reg_ok rr_server retry_live (retries s) (map_of (reconcileRetries s))" by (simp add: conn_ok_def)
  have "reg_ok rr_server retry_live (retries ?t) (map_of (reconcileRetries ?t))"
    using reg_ok_add [OF r assms(2), of ?r] by (simp add: AList.update_conv' retry_live_def)
  moreover have "others rr_server sid (retries s) (map_of (reconcileRetries s)) (retries ?t) (map_of (reconcileRetries ?t))"
    using others_add [of rr_server sid "retries s" _ ?r] by (simp add: AList.update_conv')
  ultimately show ?thesis
    using assms by (auto simp: startReconcileRetry_def modify_def slots_def conn_ok_def frame_def running_def AList.update_conv')
qed

section \<open>What the database wants\<close>

text \<open>
  The worker a server is meant to have, or the error that prevents it: a monitored SSH server or
  active agent with its own decrypted credentials, or an active agent that is still to be paired.
\<close>

definition opens :: "ciphers \<Rightarrow> string \<Rightarrow> string \<Rightarrow> string \<Rightarrow> err + string" where
  "opens C key c ctx =
     (if c = [] then Inr [] else case encrypt_Decrypt C c key ctx of Inl _ \<Rightarrow> Inl ErrCrypt | Inr p \<Rightarrow> Inr p)"

definition wanted_ssh :: "ciphers \<Rightarrow> string \<Rightarrow> server_db \<Rightarrow> int \<Rightarrow> err + work option" where
  "wanted_ssh C key d sid =
     (case ssh_row_of sid d of
        None \<Rightarrow> Inr None
      | Some r \<Rightarrow>
          (case (opens C key (st_password r) (SSHPasswordContext sid), opens C key (st_key r) (KeyContentContext (st_key_id r)),
                 opens C key (st_key_password r) (KeyPasswordContext (st_key_id r))) of
             (Inr pwd, Inr k, Inr kp) \<Rightarrow> Inr (Some (SSHWork (st_host r) (st_port r) (st_user r) pwd k kp
               (st_host_key r) (st_trust_legacy r) sid (st_team r)))
           | _ \<Rightarrow> Inl ErrCrypt))"

definition wanted_active :: "ciphers \<Rightarrow> string \<Rightarrow> server_db \<Rightarrow> int \<Rightarrow> bool \<Rightarrow> err + work option" where
  "wanted_active C key d sid allowMonitor =
     (case agent_row_of sid d of
        None \<Rightarrow> Inr None
      | Some a \<Rightarrow>
          (case encrypt_Decrypt C (ag_private_key a) key (AgentPrivateKeyContext sid) of
             Inl _ \<Rightarrow> Inl ErrCrypt
           | Inr k \<Rightarrow> Inr (Some (ActiveWork (ag_host a) (ag_port a) k (ag_uid a) (ag_public_key a) (ag_protocol a) sid allowMonitor))))"

definition wanted :: "ciphers \<Rightarrow> string \<Rightarrow> server_db \<Rightarrow> int \<Rightarrow> err + work option" where
  "wanted C key d sid =
     (case map_of (srvs d) sid of
        None \<Rightarrow> Inr None
      | Some r \<Rightarrow>
          if srv_monitor r then
            (if srv_type r = 0 then wanted_ssh C key d sid
             else if srv_type r = 1 then wanted_active C key d sid True
             else if srv_type r = 2 then Inr None
             else Inl ErrUnsupportedConnectionType)
          else if srv_type r = 1 \<and> map_option ag_public_key (map_of (agents d) sid) = Some []
          then wanted_active C key d sid False
          else Inr None)"

text \<open>A passive agent keeps its own connection while it is monitored.\<close>

definition keeps_inbound :: "server_db \<Rightarrow> int \<Rightarrow> bool" where
  "keeps_inbound d sid \<longleftrightarrow> (case map_of (srvs d) sid of None \<Rightarrow> False | Some r \<Rightarrow> srv_type r = 2 \<and> srv_monitor r)"

lemma decrypt_nonempty_run: "decrypt_nonempty c ctx s = (opens (hub_ciphers s) (hub_key s) c ctx, s)"
  by (simp add: decrypt_nonempty_def hub_decrypt_def opens_def ret_def split: sum.splits)

lemma query_db_row_run:
  "query_db_row q s =
     (if outcomes s (calls s) = Done then (case q (db s) of None \<Rightarrow> Inl ErrNoRows | Some x \<Rightarrow> Inr x) else Inl ErrDb,
      s\<lparr>calls := Suc (calls s)\<rparr>)"
  by (simp add: query_db_row_def bindE_run query_db_def next_call_def raise_def ret_def split: option.splits)

lemma hub_decrypt_run:
  "hub_decrypt c ctx s = (case encrypt_Decrypt (hub_ciphers s) c (hub_key s) ctx of Inl _ \<Rightarrow> Inl ErrCrypt | Inr p \<Rightarrow> Inr p, s)"
  by (simp add: hub_decrypt_def)

definition started :: "int \<Rightarrow> 'z connenv_scheme \<Rightarrow> err + work option \<Rightarrow> err + unit \<Rightarrow> 'z connenv_scheme \<Rightarrow> bool" where
  "started sid s W r t \<longleftrightarrow>
     (case r of
        Inr _ \<Rightarrow> \<exists>w. W = Inr (Some w) \<and> slots sid s (Some w) (inbound s sid) (pending_retry s sid) t
      | Inl e \<Rightarrow> slots sid s (running s sid) (inbound s sid) (pending_retry s sid) t \<and>
          (e = ErrDb \<or> e = ErrNoRows \<and> W = Inr None \<or> W = Inl e \<and> e \<noteq> ErrNoRows))"

lemma started_register:
  assumes "conn_ok s" "work_server w = sid" "register_worker sid w (s\<lparr>calls := k\<rparr>) = (r, t)"
  shows "started sid s (Inr (Some w)) r t"
proof -
  have "conn_ok (s\<lparr>calls := k\<rparr>)" using assms(1) by simp
  from register_worker_slots [OF this assms(2)] assms(3) show ?thesis by (auto simp: started_def)
qed

lemma start_ssh_started:
  assumes "conn_ok s" "start_ssh sid s = (r, t)"
  shows "started sid s (wanted_ssh (hub_ciphers s) (hub_key s) (db s) sid) r t"
proof -
  let ?C = "hub_ciphers s" and ?k = "hub_key s" and ?s = "s\<lparr>calls := Suc (calls s)\<rparr>"
  have self: "slots sid s (running s sid) (inbound s sid) (pending_retry s sid) ?s" using slots_self [OF assms(1)] by simp
  show ?thesis
  proof (cases "outcomes s (calls s) = Done")
    case False
    with assms(2) self show ?thesis by (auto simp: start_ssh_def bindE_run [of "query_db_row _"] query_db_row_run started_def)
  next
    case True
    show ?thesis
    proof (cases "ssh_row_of sid (db s)")
      case None
      with True assms(2) self show ?thesis
        by (auto simp: start_ssh_def bindE_run [of "query_db_row _"] query_db_row_run started_def wanted_ssh_def)
    next
      case (Some row)
      let ?p = "opens ?C ?k (st_password row) (SSHPasswordContext sid)"
        and ?c = "opens ?C ?k (st_key row) (KeyContentContext (st_key_id row))"
        and ?q = "opens ?C ?k (st_key_password row) (KeyPasswordContext (st_key_id row))"
      let ?w = "\<lambda>p c q. SSHWork (st_host row) (st_port row) (st_user row) p c q (st_host_key row) (st_trust_legacy row) sid (st_team row)"
      have run: "start_ssh sid s =
          (case ?p of Inl e \<Rightarrow> (Inl e, ?s) | Inr p \<Rightarrow> (case ?c of Inl e \<Rightarrow> (Inl e, ?s) | Inr c \<Rightarrow>
            (case ?q of Inl e \<Rightarrow> (Inl e, ?s) | Inr q \<Rightarrow> register_worker sid (?w p c q) ?s)))"
        using True Some
        by (simp add: start_ssh_def bindE_run [of "query_db_row _"] bindE_run [of "decrypt_nonempty _ _"] query_db_row_run decrypt_nonempty_run split: sum.splits)
      have crypt: "e = ErrCrypt" if "opens ?C ?k x y = Inl e" for x y e
        using that by (auto simp: opens_def split: if_splits sum.splits)
      show ?thesis
      proof (cases "\<exists>p c q. ?p = Inr p \<and> ?c = Inr c \<and> ?q = Inr q")
        case True
        then obtain p c q where pcq: "?p = Inr p" "?c = Inr c" "?q = Inr q" by blast
        with run assms(2) have "register_worker sid (?w p c q) ?s = (r, t)" by simp
        from started_register [OF assms(1) _ this] show ?thesis by (simp add: wanted_ssh_def Some pcq)
      next
        case False
        then have "wanted_ssh ?C ?k (db s) sid = Inl ErrCrypt"
          using Some by (auto simp: wanted_ssh_def split: sum.splits)
        moreover have "(r, t) = (Inl ErrCrypt, ?s)"
          using run assms(2) False crypt by (auto split: sum.splits)
        ultimately show ?thesis using self by (simp add: started_def)
      qed
    qed
  qed
qed

lemma start_active_started:
  assumes "conn_ok s" "start_active sid allow s = (r, t)"
  shows "started sid s (wanted_active (hub_ciphers s) (hub_key s) (db s) sid allow) r t"
proof -
  let ?s = "s\<lparr>calls := Suc (calls s)\<rparr>"
  have self: "slots sid s (running s sid) (inbound s sid) (pending_retry s sid) ?s" using slots_self [OF assms(1)] by simp
  show ?thesis
  proof (cases "outcomes s (calls s) = Done \<and> agent_row_of sid (db s) \<noteq> None")
    case False
    with assms(2) self show ?thesis
      by (auto simp: start_active_def bindE_run [of "query_db_row _"] query_db_row_run started_def wanted_active_def split: if_splits)
  next
    case True
    then obtain a where a: "agent_row_of sid (db s) = Some a" by blast
    let ?d = "encrypt_Decrypt (hub_ciphers s) (ag_private_key a) (hub_key s) (AgentPrivateKeyContext sid)"
    let ?w = "\<lambda>k. ActiveWork (ag_host a) (ag_port a) k (ag_uid a) (ag_public_key a) (ag_protocol a) sid allow"
    have run: "start_active sid allow s = (case ?d of Inl _ \<Rightarrow> (Inl ErrCrypt, ?s) | Inr k \<Rightarrow> register_worker sid (?w k) ?s)"
      using True a by (simp add: start_active_def bindE_run [of "query_db_row _"] bindE_run [of "hub_decrypt _ _"] query_db_row_run hub_decrypt_run split: sum.splits)
    show ?thesis
    proof (cases ?d)
      case (Inl e)
      with run assms(2) self show ?thesis by (auto simp: started_def wanted_active_def a)
    next
      case (Inr k)
      with run assms(2) have "register_worker sid (?w k) ?s = (r, t)" by simp
      from started_register [OF assms(1) _ this] show ?thesis by (simp add: wanted_active_def a Inr)
    qed
  qed
qed

definition reconciled ::
  "int \<Rightarrow> 'z connenv_scheme \<Rightarrow> err + work option \<Rightarrow> bool \<Rightarrow> err + unit \<Rightarrow> 'z connenv_scheme \<Rightarrow> bool" where
  "reconciled sid s W keep r t \<longleftrightarrow>
     (case r of
        Inr _ \<Rightarrow> \<exists>w. W = Inr w \<and> slots sid s w (if keep then inbound s sid else None) (pending_retry s sid) t
      | Inl e \<Rightarrow> slots sid s None None (pending_retry s sid) t \<and> (e = ErrDb \<or> W = Inl e))"

lemma reconciled_calls [simp]: "reconciled sid (s\<lparr>calls := k\<rparr>) W keep r t = reconciled sid s W keep r t"
  by (cases r) (simp_all add: reconciled_def)

text \<open>Both connections are stopped before a worker is started.\<close>

lemma stop_both:
  assumes "conn_ok s"
  obtains t where "bindE (stopInboundServer sid) (\<lambda>_. bindE (stopOutboundServer sid) f) s = f () t"
    "slots sid s None None (pending_retry s sid) t"
proof -
  obtain t where t: "stopInboundServer sid s = (Inr (), t)" "slots sid s (running s sid) None (pending_retry s sid) t"
    using stopInboundServer_slots [OF assms] by blast
  then have "conn_ok t" by (simp add: slots_def)
  from stopOutboundServer_slots [OF this, of sid] obtain u where u: "stopOutboundServer sid t = (Inr (), u)"
    "slots sid t None (inbound t sid) (pending_retry t sid) u" by blast
  show thesis
    by (rule that [of u]) (use slots_trans [OF t(2) u(2)] t u in \<open>simp_all add: bindE_run slots_def\<close>)
qed

lemma start_reconciled:
  assumes ok: "conn_ok s" and mode: "mode = 0 \<or> mode = 1" and run: "connect_by_mode sid mode allow s = (r, t)"
  shows "reconciled sid s (if mode = 0 then wanted_ssh (hub_ciphers s) (hub_key s) (db s) sid
      else wanted_active (hub_ciphers s) (hub_key s) (db s) sid allow) False r t"
proof -
  let ?f = "\<lambda>_. tryE (startServer sid mode allow) (\<lambda>res. case res of Inl e \<Rightarrow> if e = ErrNoRows then ret () else raise e | Inr _ \<Rightarrow> ret ())"
  let ?W = "if mode = 0 then wanted_ssh (hub_ciphers s) (hub_key s) (db s) sid
      else wanted_active (hub_ciphers s) (hub_key s) (db s) sid allow"
  obtain u where u: "bindE (stopInboundServer sid) (\<lambda>_. bindE (stopOutboundServer sid) ?f) s = ?f () u"
    "slots sid s None None (pending_retry s sid) u" by (rule stop_both [OF ok])
  then have u_ok: "conn_ok u" "db u = db s" "hub_ciphers u = hub_ciphers s" "hub_key u = hub_key s"
    and slots_u: "running u sid = None" "inbound u sid = None" "pending_retry u sid = pending_retry s sid"
    by (simp_all add: slots_def frame_def)
  obtain q v where q: "startServer sid mode allow u = (q, v)" by fastforce
  have st: "started sid u ?W q v"
    using start_ssh_started [OF u_ok(1), of sid q v] start_active_started [OF u_ok(1), of sid allow q v] q mode u_ok
    by (auto simp: startServer_def)
  have "connect_by_mode sid mode allow = bindE (stopInboundServer sid) (\<lambda>_. bindE (stopOutboundServer sid) ?f)"
    unfolding connect_by_mode_def by (rule if_P [OF mode])
  with run u(1) have "?f () u = (r, t)" by metis
  then have rt: "(case q of Inl e \<Rightarrow> if e = ErrNoRows then ret () else raise e | Inr _ \<Rightarrow> ret ()) v = (r, t)"
    by (simp add: tryE_run q)
  show ?thesis
  proof (cases q)
    case (Inr x)
    with rt have "r = Inr ()" "t = v" by (simp_all add: ret_def)
    with st Inr slots_trans [OF u(2)] slots_u show ?thesis by (auto simp: started_def reconciled_def)
  next
    case (Inl e)
    with st have v: "slots sid s None None (pending_retry s sid) v" and e: "e = ErrDb \<or> e = ErrNoRows \<and> ?W = Inr None \<or> ?W = Inl e \<and> e \<noteq> ErrNoRows"
      using slots_trans [OF u(2)] slots_u by (auto simp: started_def)
    from e show ?thesis using rt Inl v by (auto simp: reconciled_def ret_def raise_def split: if_splits)
  qed
qed

lemma connect_by_mode_reconciled:
  assumes ok: "conn_ok s" and run: "connect_by_mode sid mode allow s = (r, t)"
  shows "reconciled sid s
      (if mode = 0 then wanted_ssh (hub_ciphers s) (hub_key s) (db s) sid
       else if mode = 1 then wanted_active (hub_ciphers s) (hub_key s) (db s) sid allow
       else if mode = 2 then Inr None else Inl ErrUnsupportedConnectionType) (mode = 2) r t"
proof -
  consider "mode = 0 \<or> mode = 1" | "mode = 2" | "mode \<noteq> 0" "mode \<noteq> 1" "mode \<noteq> 2" by blast
  then show ?thesis
  proof cases
    case 1
    from start_reconciled [OF ok 1 run] 1 show ?thesis by auto
  next
    case 2
    with run stopOutboundServer_slots [OF ok, of sid] show ?thesis by (auto simp: connect_by_mode_def reconciled_def)
  next
    case 3
    obtain u where u: "stopServer sid s = (Inr (), u)" "slots sid s None None (pending_retry s sid) u"
      using stopServer_slots [OF ok] by blast
    have "connect_by_mode sid mode allow s = (Inl ErrUnsupportedConnectionType, u)"
      using 3 u(1) by (simp add: connect_by_mode_def bindE_run raise_def)
    with run u(2) 3 show ?thesis by (auto simp: reconciled_def)
  qed
qed

lemma reconcileServer_reconciled:
  assumes ok: "conn_ok s" and run: "reconcileServer sid s = (r, t)"
  shows "reconciled sid s (wanted (hub_ciphers s) (hub_key s) (db s) sid) (keeps_inbound (db s) sid) r t"
proof -
  let ?s = "s\<lparr>calls := Suc (calls s)\<rparr>" and ?s2 = "s\<lparr>calls := Suc (Suc (calls s))\<rparr>"
  have stop: "\<exists>u. stopServer sid (s\<lparr>calls := k\<rparr>) = (Inr (), u) \<and> slots sid s None None (pending_retry s sid) u" for k
    using stopServer_slots [of "s\<lparr>calls := k\<rparr>" sid] ok by simp
  have ok': "conn_ok (s\<lparr>calls := k\<rparr>)" for k using ok by simp
  show ?thesis
  proof (cases "outcomes s (calls s) = Done \<and> map_of (srvs (db s)) sid \<noteq> None")
    case False
    obtain u where u: "stopServer sid ?s = (Inr (), u)" "slots sid s None None (pending_retry s sid) u" using stop by blast
    have "reconcileServer sid s = (if outcomes s (calls s) = Done then Inr () else Inl ErrDb, u)"
      using False u(1) by (auto simp: reconcileServer_def tryE_run query_db_row_run bindE_run ret_def raise_def)
    with run u(2) False show ?thesis by (auto simp: reconciled_def wanted_def keeps_inbound_def)
  next
    case True
    then obtain row where row: "map_of (srvs (db s)) sid = Some row" by blast
    have run1: "reconcileServer sid s = (if \<not> srv_monitor row then reconcile_unmonitored sid (srv_type row) else connect_by_mode sid (srv_type row) True) ?s"
      using True row by (simp add: reconcileServer_def tryE_run query_db_row_run)
    show ?thesis
    proof (cases "srv_monitor row")
      case True
      with run run1 have "connect_by_mode sid (srv_type row) True ?s = (r, t)" by simp
      from connect_by_mode_reconciled [OF ok' this] True row show ?thesis by (simp add: wanted_def keeps_inbound_def cong: if_cong)
    next
      case False
      with run run1 have run2: "reconcile_unmonitored sid (srv_type row) ?s = (r, t)" by simp
      obtain u where u: "stopServer sid ?s = (Inr (), u)" "slots sid s None None (pending_retry s sid) u" using stop by blast
      obtain u2 where u2: "stopServer sid ?s2 = (Inr (), u2)" "slots sid s None None (pending_retry s sid) u2" using stop by blast
      show ?thesis
      proof (cases "srv_type row = 1 \<and> outcomes s (Suc (calls s)) = Done \<and> map_option ag_public_key (map_of (agents (db s)) sid) = Some []")
        case True
        with run2 have "connect_by_mode sid 1 False ?s2 = (r, t)"
          by (auto simp: reconcile_unmonitored_def tryE_run query_db_row_run)
        from connect_by_mode_reconciled [OF ok' this] False row True show ?thesis by (simp add: wanted_def keeps_inbound_def)
      next
        case other: False
        have "(r = Inr () \<or> r = Inl ErrDb) \<and> (t = u \<or> t = u2) \<and> (r = Inr () \<longrightarrow> wanted (hub_ciphers s) (hub_key s) (db s) sid = Inr None)"
          using run2 other u(1) u2(1) False row
          by (auto simp: reconcile_unmonitored_def tryE_run query_db_row_run bindE_run ret_def raise_def wanted_def split: if_splits option.splits)
        with u(2) u2(2) False row show ?thesis by (auto simp: reconciled_def keeps_inbound_def)
      qed
    qed
  qed
qed

section \<open>The supervisor is correct\<close>

definition reconcile_post :: "int \<Rightarrow> 'z connenv_scheme \<Rightarrow> err + unit \<Rightarrow> 'z connenv_scheme \<Rightarrow> bool" where
  "reconcile_post sid s r t \<longleftrightarrow> conn_ok t \<and> frame sid s t \<and>
    (case r of
       Inr _ \<Rightarrow> wanted (hub_ciphers s) (hub_key s) (db s) sid = Inr (running t sid) \<and> pending_retry t sid = None \<and>
         inbound t sid = (if keeps_inbound (db s) sid then inbound s sid else None)
     | Inl e \<Rightarrow> running t sid = None \<and> inbound t sid = None \<and> pending_retry t sid \<noteq> None \<and>
         (e = ErrDb \<or> wanted (hub_ciphers s) (hub_key s) (db s) sid = Inl e))"

lemma ReconcileServer_post:
  assumes ok: "conn_ok s" and run: "ReconcileServer sid s = (r, t)"
  shows "reconcile_post sid s r t"
proof -
  obtain s1 where c: "cancelReconcileRetry sid s = (Inr (), s1)" "slots sid s (running s sid) (inbound s sid) None s1"
    using cancelReconcileRetry_slots [OF ok] by blast
  then have s1: "conn_ok s1" "db s1 = db s" "hub_ciphers s1 = hub_ciphers s" "hub_key s1 = hub_key s"
    "inbound s1 sid = inbound s sid" "pending_retry s1 sid = None" by (simp_all add: slots_def frame_def)
  obtain q u where q: "reconcileServer sid s1 = (q, u)" by fastforce
  note rec = reconcileServer_reconciled [OF s1(1) q, unfolded s1]
  show ?thesis
  proof (cases q)
    case (Inr x)
    with rec obtain w where w: "wanted (hub_ciphers s) (hub_key s) (db s) sid = Inr w"
      and u: "slots sid s1 w (if keeps_inbound (db s) sid then inbound s sid else None) None u"
      by (auto simp: reconciled_def s1 cong: if_cong)
    have "(r, t) = (Inr (), u)" using run Inr q c(1) by (simp add: ReconcileServer_def bindE_run tryE_run ret_def)
    with slots_trans [OF c(2) u] w show ?thesis by (simp add: slots_def reconcile_post_def)
  next
    case (Inl e)
    with rec have u: "slots sid s1 None None None u" and e: "e = ErrDb \<or> wanted (hub_ciphers s) (hub_key s) (db s) sid = Inl e"
      by (simp_all add: reconciled_def s1)
    from u have "conn_ok u" "pending_retry u sid = None" by (simp_all add: slots_def)
    from startReconcileRetry_slots [OF this] obtain v where v: "startReconcileRetry sid u = (Inr (), v)"
      "slots sid u (running u sid) (inbound u sid) (Some (length (retries u))) v" by blast
    have "(r, t) = (Inl e, v)" using run Inl q c(1) v(1) by (simp add: ReconcileServer_def bindE_run tryE_run raise_def)
    with slots_trans [OF slots_trans [OF c(2) u] v(2)] u e show ?thesis by (simp add: slots_def reconcile_post_def)
  qed
qed

text \<open>
  (C5) Reconciling a server: on success exactly the worker the database wants runs for it, with the
  server's own decrypted credentials, no retry is pending, and the agent's own connection survives
  only where a monitored passive agent keeps it; on an error nothing runs for it, no connection of
  it is left, one new retry is pending, and the cause is a failed query or the error the database's
  contents imply. The tables and the other servers are not touched.
\<close>

theorem ReconcileServer_correct:
  assumes "conn_ok s" "ReconcileServer sid s = (r, t)"
  shows "conn_ok t \<and> frame sid s t \<and>
    (case r of
       Inr _ \<Rightarrow> wanted (hub_ciphers s) (hub_key s) (db s) sid = Inr (running t sid) \<and> pending_retry t sid = None \<and>
         inbound t sid = (if keeps_inbound (db s) sid then inbound s sid else None)
     | Inl e \<Rightarrow> running t sid = None \<and> inbound t sid = None \<and> pending_retry t sid \<noteq> None \<and>
         (e = ErrDb \<or> wanted (hub_ciphers s) (hub_key s) (db s) sid = Inl e))"
  by (rule ReconcileServer_post [OF assms, unfolded reconcile_post_def])

lemma retry_round_idle:
  assumes "conn_ok s" "p < length (retries s)" "pending_retry s (rr_server (retries s ! p)) \<noteq> Some p"
  shows "retry_round p s = (Inr (), end_retry p s)"
  using assms by (simp add: retry_round_def bindE_run gets_def modify_def)

definition stop_post :: "int \<Rightarrow> 'z connenv_scheme \<Rightarrow> err + unit \<Rightarrow> 'z connenv_scheme \<Rightarrow> bool" where
  "stop_post sid s r t \<longleftrightarrow> r = Inr () \<and> conn_ok t \<and> frame sid s t \<and>
    (\<forall>p < length (entries t). entry_server (entries t ! p) = sid \<longrightarrow> se_done (entries t ! p)) \<and>
    (\<forall>p < length (managed t). mc_server (managed t ! p) = sid \<longrightarrow> mc_closed (managed t ! p)) \<and>
    (\<forall>p < length (retries t). rr_server (retries t ! p) = sid \<longrightarrow>
       \<not> retry_live (retries t ! p) \<and> retry_round p t = (Inr (), end_retry p t))"

lemma StopServer_post:
  assumes ok: "conn_ok s" and run: "StopServer sid s = (r, t)"
  shows "stop_post sid s r t"
proof -
  obtain s1 where c: "cancelReconcileRetry sid s = (Inr (), s1)" "slots sid s (running s sid) (inbound s sid) None s1"
    using cancelReconcileRetry_slots [OF ok] by blast
  then have "conn_ok s1" "pending_retry s1 sid = None" by (simp_all add: slots_def)
  from stopServer_slots [OF this(1), of sid] this(2) obtain u where u: "stopServer sid s1 = (Inr (), u)" "slots sid s1 None None None u"
    by auto
  have rt: "r = Inr ()" "t = u" using run c(1) u(1) by (simp_all add: StopServer_def bindE_run)
  from slots_trans [OF c(2) u(2)] have t: "conn_ok t" "frame sid s t" "map_of (connectPool t) sid = None" "inbound t sid = None" "pending_retry t sid = None"
    by (simp_all add: rt slots_def running_def)
  from t(1) have regs: "reg_ok entry_server (\<lambda>e. \<not> se_done e) (entries t) (map_of (connectPool t))"
    "reg_ok rr_server retry_live (retries t) (map_of (reconcileRetries t))"
    "reg_ok mc_server (\<lambda>c. \<not> mc_closed c) (managed t) (map_of (mainConnections t))" by (simp_all add: conn_ok_def)
  from reg_ok_none [OF regs(1) t(3)] reg_ok_none [OF regs(2) t(5)] reg_ok_none [OF regs(3) t(4)]
    retry_round_idle [OF t(1)] rt(1) t show ?thesis by (auto simp: stop_post_def)
qed

text \<open>
  (C16) Stopping a server: afterwards none of its workers is running, none of its retries is live and a
  late round of one starts nothing, every connection its agent opened is closed; the tables and the
  other servers are not touched.
\<close>

theorem StopServer_correct:
  assumes "conn_ok s" "StopServer sid s = (r, t)"
  shows "r = Inr () \<and> conn_ok t \<and> frame sid s t \<and>
    (\<forall>p < length (entries t). entry_server (entries t ! p) = sid \<longrightarrow> se_done (entries t ! p)) \<and>
    (\<forall>p < length (managed t). mc_server (managed t ! p) = sid \<longrightarrow> mc_closed (managed t ! p)) \<and>
    (\<forall>p < length (retries t). rr_server (retries t ! p) = sid \<longrightarrow>
       \<not> retry_live (retries t ! p) \<and> retry_round p t = (Inr (), end_retry p t))"
  by (rule StopServer_post [OF assms, unfolded stop_post_def])

section \<open>Interleavings\<close>

text \<open>
  Whole operations, in any order: handlers reconcile and stop servers, workers end,
  retries fire or notice their cancellation, passive agents connect and leave, and the tables change. What
  comes between the sections of one operation is in theory \<open>Supervisor_Races\<close>.
\<close>

inductive conn_step :: "'z connenv_scheme \<Rightarrow> 'z connenv_scheme \<Rightarrow> bool" where
  reconcile: "conn_step s (snd (ReconcileServer sid s))"
| stop: "conn_step s (snd (StopServer sid s))"
| worker_ends: "p < length (entries s) \<Longrightarrow> \<not> se_done (entries s ! p) \<Longrightarrow>
    conn_step s (snd (finishOutboundServer (entry_server (entries s ! p)) p s))"
| retry_fires: "p < length (retries s) \<Longrightarrow> \<not> rr_done (retries s ! p) \<Longrightarrow> conn_step s (snd (retry_round p s))"
| retry_stops: "p < length (retries s) \<Longrightarrow> rr_canceled (retries s ! p) \<Longrightarrow> conn_step s (snd (retry_canceled p s))"
| agent_connects: "conn_step s (snd (MainSet sid s))"
| agent_leaves: "p < length (managed s) \<Longrightarrow> conn_step s (snd (passive_end p s))"
| tables_change: "conn_step s (s\<lparr>db := d\<rparr>)"

inductive_cases conn_stepE: "conn_step s t"

lemma end_retry_ok:
  assumes "conn_ok s" "\<not> retry_live (retries s ! p)"
  shows "conn_ok (end_retry p s)"
  using assms reg_ok_same [of rr_server retry_live "retries s" _ "(retries s ! p)\<lparr>rr_done := True\<rparr>" p]
  by (simp add: conn_ok_def end_retry_def retry_live_def)

lemma worker_ends_ok:
  assumes ok: "conn_ok s" and p: "p < length (entries s)" "\<not> se_done (entries s ! p)"
  shows "conn_ok (snd (finishOutboundServer (entry_server (entries s ! p)) p s))"
proof -
  let ?e = "(entries s ! p)\<lparr>se_done := True\<rparr>" and ?k = "entry_server (entries s ! p)"
  from ok have r: "reg_ok entry_server (\<lambda>e. \<not> se_done e) (entries s) (map_of (connectPool s))" by (simp add: conn_ok_def)
  from reg_ok_live [OF r p(1)] p(2) have m: "map_of (connectPool s) ?k = Some p" by simp
  from reg_ok_drop [OF r m, of ?e] ok m show ?thesis
    by (simp add: conn_ok_def finishOutboundServer_def modify_def finish_entry_def AList.delete_conv')
qed

lemma retry_fires_ok:
  assumes ok: "conn_ok s" and p: "p < length (retries s)" "\<not> rr_done (retries s ! p)"
  shows "conn_ok (snd (retry_round p s))"
proof (cases "pending_retry s (rr_server (retries s ! p)) = Some p")
  case False
  from ok have "reg_ok rr_server retry_live (retries s) (map_of (reconcileRetries s))" by (simp add: conn_ok_def)
  with False p(1) have "\<not> retry_live (retries s ! p)" using reg_ok_live by fastforce
  with retry_round_idle [OF ok p(1) False] end_retry_ok [OF ok] show ?thesis by simp
next
  case True
  let ?k = "rr_server (retries s ! p)"
  from ok have "reg_ok rr_server retry_live (retries s) (map_of (reconcileRetries s))" by (simp add: conn_ok_def)
  from reg_okD(3) [OF this True] have "retry_live (retries s ! p)" .
  then have nc: "\<not> rr_canceled (retries s ! p)" by (simp add: retry_live_def)
  obtain q u where q: "reconcileServer ?k s = (q, u)" by fastforce
  from reconcileServer_reconciled [OF ok q] have u: "conn_ok u" "pending_retry u ?k = Some p"
    using True by (auto simp: reconciled_def slots_def split: sum.splits)
  from u have r: "reg_ok rr_server retry_live (retries u) (map_of (reconcileRetries u))" by (simp add: conn_ok_def)
  note pu = reg_okD [OF r u(2)]
  show ?thesis
  proof (cases q)
    case (Inr x)
    with True nc q u(2) have "snd (retry_round p s) = end_retry p (u\<lparr>reconcileRetries := AList.delete ?k (reconcileRetries u)\<rparr>)"
      by (simp add: retry_round_def bindE_run gets_def modify_def tryE_run)
    with reg_ok_drop [OF r u(2), of "(retries u ! p)\<lparr>rr_done := True\<rparr>"] u(1) pu show ?thesis
      by (simp add: conn_ok_def end_retry_def retry_live_def AList.delete_conv')
  next
    case (Inl e)
    with True nc q have "snd (retry_round p s) = count_failure p u"
      by (simp add: retry_round_def bindE_run gets_def modify_def tryE_run)
    with reg_ok_same [OF r, of "(retries u ! p)\<lparr>rr_failures := Suc (rr_failures (retries u ! p))\<rparr>" p] u(1) show ?thesis
      by (simp add: conn_ok_def count_failure_def retry_live_def)
  qed
qed

lemma agent_connects_ok:
  assumes ok: "conn_ok s"
  shows "conn_ok (snd (MainSet sid s))"
proof -
  let ?c = "\<lparr>mc_server = sid, mc_closed = False\<rparr>"
  from ok have r: "reg_ok mc_server (\<lambda>c. \<not> mc_closed c) (managed s) (map_of (mainConnections s))" by (simp add: conn_ok_def)
  show ?thesis
  proof (cases "map_of (mainConnections s) sid")
    case None
    with reg_ok_add [OF r None, of ?c] ok show ?thesis by (simp add: conn_ok_def MainSet_eq Let_def AList.update_conv')
  next
    case (Some p)
    note p = reg_okD [OF r Some]
    let ?x = "(managed s ! p)\<lparr>mc_closed := True\<rparr>"
    have "reg_ok mc_server (\<lambda>c. \<not> mc_closed c) ((managed s)[p := ?x]) ((map_of (mainConnections s))(sid := None))"
      by (rule reg_ok_drop [OF r Some]) (simp_all add: p)
    from reg_ok_add [OF this, of sid ?c]
    have "reg_ok mc_server (\<lambda>c. \<not> mc_closed c) ((managed s)[p := ?x] @ [?c]) ((map_of (mainConnections s))(sid \<mapsto> length (managed s)))"
      by simp
    with Some p(1) ok show ?thesis
      by (simp add: conn_ok_def MainSet_eq Let_def managed_Close_def AList.update_conv' list_update_append1 nth_append)
  qed
qed

lemma agent_leaves_ok:
  assumes ok: "conn_ok s" and p: "p < length (managed s)"
  shows "conn_ok (snd (passive_end p s))"
proof -
  let ?x = "(managed s ! p)\<lparr>mc_closed := True\<rparr>" and ?k = "mc_server (managed s ! p)"
  from ok have r: "reg_ok mc_server (\<lambda>c. \<not> mc_closed c) (managed s) (map_of (mainConnections s))" by (simp add: conn_ok_def)
  show ?thesis
  proof (cases "map_of (mainConnections s) ?k = Some p")
    case True
    from reg_ok_drop [OF r True, of ?x] ok True show ?thesis
      by (simp add: conn_ok_def passive_end_def bindE_run gets_def modify_def MainRemove_def managed_Close_def AList.delete_conv')
  next
    case False
    with reg_ok_live [OF r p] have "mc_closed (managed s ! p)" by auto
    then have "reg_ok mc_server (\<lambda>c. \<not> mc_closed c) ((managed s)[p := ?x]) (map_of (mainConnections s))"
      by (intro reg_ok_same [OF r]) simp_all
    with ok False show ?thesis
      by (simp add: conn_ok_def passive_end_def bindE_run gets_def modify_def MainRemove_def managed_Close_def)
  qed
qed

lemma conn_step_ok: "conn_step s t \<Longrightarrow> conn_ok s \<Longrightarrow> conn_ok t"
proof (induction rule: conn_step.induct)
  case (reconcile s sid)
  obtain r t where run: "ReconcileServer sid s = (r, t)" by fastforce
  from ReconcileServer_post [OF reconcile run] run show ?case by (simp add: reconcile_post_def)
next
  case (stop s sid)
  obtain r t where run: "StopServer sid s = (r, t)" by fastforce
  from StopServer_post [OF stop run] run show ?case by (simp add: stop_post_def)
next
  case (retry_stops p s)
  then show ?case by (simp add: retry_canceled_def modify_def end_retry_ok retry_live_def)
next
  case (tables_change s d)
  then show ?case by (simp add: conn_ok_def)
qed (simp_all add: worker_ends_ok retry_fires_ok agent_connects_ok agent_leaves_ok)

definition fresh_supervisor :: "'z connenv_scheme \<Rightarrow> bool" where
  "fresh_supervisor s \<longleftrightarrow> entries s = [] \<and> connectPool s = [] \<and> retries s = [] \<and> reconcileRetries s = [] \<and>
     managed s = [] \<and> mainConnections s = []"

lemma fresh_supervisor_ok: "fresh_supervisor s \<Longrightarrow> conn_ok s"
  by (simp add: fresh_supervisor_def conn_ok_def reg_ok_def)

lemma reachable_ok: "conn_step\<^sup>*\<^sup>* s t \<Longrightarrow> fresh_supervisor s \<Longrightarrow> conn_ok t"
  by (induction rule: rtranclp_induct) (auto intro: conn_step_ok fresh_supervisor_ok)

section \<open>Backing off\<close>

lemma delay_loop_step:
  assumes "i < failures" "delay < 60 * conn_second"
  shows "delay_loop i failures delay = delay_loop (Suc i) failures (min (delay * 2) (60 * conn_second))"
  using assms by (subst delay_loop.simps) (simp add: Let_def min_def)

lemma delay_loop_end: "\<not> (i < failures \<and> delay < 60 * conn_second) \<Longrightarrow> delay_loop i failures delay = delay"
  by (subst delay_loop.simps) auto

lemma delay_loop_eq:
  assumes "0 < delay" "delay \<le> 60 * conn_second"
  shows "delay_loop i failures delay = min (delay * 2 ^ (failures - i)) (60 * conn_second)"
  using assms
proof (induction "failures - i" arbitrary: i delay)
  case 0
  then show ?case using delay_loop_end [of i failures delay] by simp
next
  case (Suc n)
  have c: "0 < conn_second" by (simp add: conn_second_def)
  show ?case
  proof (cases "delay < 60 * conn_second")
    case True
    let ?d = "min (delay * 2) (60 * conn_second)"
    have n: "n = failures - Suc i" "failures - i = Suc n" using Suc.hyps(2) by auto
    have "delay_loop i failures delay = delay_loop (Suc i) failures ?d"
      by (rule delay_loop_step) (use Suc.hyps(2) True in auto)
    also have "\<dots> = min (?d * 2 ^ (failures - Suc i)) (60 * conn_second)"
      by (rule Suc.hyps(1) [OF n(1)]) (use Suc.prems c in auto)
    also have "\<dots> = min (delay * 2 ^ (failures - i)) (60 * conn_second)"
    proof -
      have p: "(1::int) \<le> 2 ^ n" by simp
      have big: "60 * conn_second \<le> x * 2 ^ n" if "60 * conn_second \<le> x" for x :: int
        using mult_mono [OF that p] that c by simp
      show ?thesis
      proof (cases "delay * 2 \<le> 60 * conn_second")
        case True
        then show ?thesis by (simp add: n(1) [symmetric] n(2) min_def mult.assoc)
      next
        case False
        with big [of "delay * 2"] big [of "60 * conn_second"] show ?thesis
          by (simp add: n(1) [symmetric] n(2) min_def mult.assoc)
      qed
    qed
    finally show ?thesis .
  next
    case False
    then have "delay = 60 * conn_second" using Suc.prems by simp
    moreover have "60 * conn_second * 1 \<le> 60 * conn_second * 2 ^ (failures - i)" using c by (intro mult_left_mono) auto
    ultimately show ?thesis using delay_loop_end [of i failures delay] by (simp add: min_def)
  qed
qed

text \<open>
  The delay before the next attempt doubles with every failure from one second up to a minute, and
  the jitter adds at most a quarter, whatever the random number.
\<close>

theorem retryDelay_bounds:
  "(let base = min (2 ^ failures) 60 * conn_second in
    base \<le> retryDelay failures jitter \<and> retryDelay failures jitter \<le> base + base div 4)"
proof -
  define base where "base = min (2 ^ failures) 60 * conn_second"
  have d: "delay_loop 0 failures conn_second = base"
    using delay_loop_eq [of conn_second 0 failures] by (simp add: base_def conn_second_def min_def)
  define j :: real where "j = (if jitter < 0 then 0 else if jitter > 1 then 1 else jitter)"
  have j: "0 \<le> j" "j \<le> 1" by (simp_all add: j_def)
  have b: "0 \<le> base" by (simp add: base_def conn_second_def)
  have "0 \<le> real_of_int base * (1 / 4) * j" using j b by simp
  moreover have "real_of_int base * (1 / 4) * j \<le> real_of_int base / 4" using j b by (simp add: mult_left_le)
  then have "\<lfloor>real_of_int base * (1 / 4) * j\<rfloor> \<le> \<lfloor>real_of_int base / 4\<rfloor>" by (rule floor_mono)
  then have "\<lfloor>real_of_int base * (1 / 4) * j\<rfloor> \<le> base div 4" by (simp add: floor_divide_of_int_eq [of base 4, simplified])
  ultimately have "base \<le> retryDelay failures jitter \<and> retryDelay failures jitter \<le> base + base div 4"
    by (simp add: retryDelay_def d Let_def j_def [symmetric])
  then show ?thesis by (simp add: base_def Let_def)
qed

text \<open>The worker of an active agent logs the notice of an old agent once.\<close>

fun active_run :: "bool \<Rightarrow> (bool \<times> connect_result \<times> (string \<times> int) option \<times> int) list \<Rightarrow> active_state \<Rightarrow> nat" where
  "active_run allow [] st = 0"
| "active_run allow ((canceled, res, reloaded, elapsed) # as) st =
     (case active_attempt allow canceled res reloaded elapsed st of
        (WorkerReturns, notice) \<Rightarrow> (if notice then 1 else 0)
      | (WorkerRetries st', notice) \<Rightarrow> (if notice then 1 else 0) + active_run allow as st')"

lemma active_notice_once: "active_run allow as st \<le> (if as_noticed st then 0 else 1)"
proof (induction as arbitrary: st)
  case (Cons a as)
  obtain canceled res reloaded elapsed where a: "a = (canceled, res, reloaded, elapsed)" by (cases a)
  obtain nx notice where n: "active_attempt allow canceled res reloaded elapsed st = (nx, notice)" by fastforce
  have once: "notice \<Longrightarrow> \<not> as_noticed st"
    using n by (auto simp: active_attempt_def Let_def split: if_splits)
  have kept: "as_noticed st' = (as_noticed st \<or> notice)" if "nx = WorkerRetries st'" for st'
    using n that by (auto simp: active_attempt_def Let_def split: if_splits option.splits)
  show ?case
  proof (cases nx)
    case WorkerReturns
    with n once show ?thesis by (simp add: a)
  next
    case (WorkerRetries st')
    with n once kept Cons [of st'] show ?thesis by (auto simp: a split: if_splits)
  qed
qed simp

section \<open>Samples\<close>

definition sample_agent_db :: server_db where
  "sample_agent_db = no_servers\<lparr>
     srvs := [(5, \<lparr>srv_team = 7, srv_name = ''web'', srv_type = 1, srv_category = 1, srv_monitor = True, srv_terminal = False, srv_public = True, srv_weight = 0\<rparr>)],
     agents := [(5, \<lparr>ag_uid = ''a'', ag_status = 0, ag_ip = [], ag_version = [], ag_public_key = ''pk'',
       ag_private_key = (case encrypt_Encrypt sample_ciphers (\<lambda>n. Some (replicate n CHR ''n'')) ''priv'' (replicate 32 CHR ''k'') (AgentPrivateKeyContext 5) of
          Inr c \<Rightarrow> c | Inl _ \<Rightarrow> []), ag_protocol = 2, ag_host = ''h'', ag_port = 10000\<rparr>)]\<rparr>"

definition sample_supervisor :: "server_db \<Rightarrow> connenv" where
  "sample_supervisor d =
     \<lparr>calls = 0, outcomes = (\<lambda>_. Done), reads = 0, clock = (\<lambda>_. 0), team_seq = 0,
      tabs = \<lparr>users = [], teams = [], m_team_user = [], users_config = [], categories = []\<rparr>,
      db = d, draws = 0, entropy = (\<lambda>_ n. Some (replicate n CHR ''n'')), hub_key = replicate 32 CHR ''k'',
      hub_ciphers = sample_ciphers, entries = [], connectPool = [], retries = [], reconcileRetries = [],
      managed = [], mainConnections = []\<rparr>"

abbreviation sample_start :: connenv where
  "sample_start \<equiv> sample_supervisor sample_agent_db"

lemma sample_start_fresh: "fresh_supervisor sample_start"
  by (simp add: fresh_supervisor_def sample_supervisor_def)

lemma sample_start_reconciles: "fst (ReconcileServer 5 sample_start) = Inr ()"
  by code_simp

theorem ReconcileServer_correct_witness:
  "wanted sample_ciphers (replicate 32 CHR ''k'') sample_agent_db 5 = Inr (running (snd (ReconcileServer 5 sample_start)) 5) \<and>
   running (snd (ReconcileServer 5 sample_start)) 5 = Some (ActiveWork ''h'' 10000 ''priv'' ''a'' ''pk'' 2 5 True)"
proof -
  have w: "wanted sample_ciphers (replicate 32 CHR ''k'') sample_agent_db 5 = Inr (Some (ActiveWork ''h'' 10000 ''priv'' ''a'' ''pk'' 2 5 True))"
    by code_simp
  have eqs: "hub_ciphers sample_start = sample_ciphers" "hub_key sample_start = replicate 32 CHR ''k''" "db sample_start = sample_agent_db"
    by (simp_all add: sample_supervisor_def)
  have "wanted (hub_ciphers sample_start) (hub_key sample_start) (db sample_start) 5 = Inr (running (snd (ReconcileServer 5 sample_start)) 5)"
    using ReconcileServer_correct [OF fresh_supervisor_ok [OF sample_start_fresh] prod.collapse [symmetric], of 5,
        unfolded sample_start_reconciles sum.case]
    by blast
  then have r: "wanted sample_ciphers (replicate 32 CHR ''k'') sample_agent_db 5 = Inr (running (snd (ReconcileServer 5 sample_start)) 5)"
    by (simp only: eqs)
  with w have "running (snd (ReconcileServer 5 sample_start)) 5 = Some (ActiveWork ''h'' 10000 ''priv'' ''a'' ''pk'' 2 5 True)"
    by (simp only: sum.inject)
  with r show ?thesis by (rule conjI)
qed

theorem StopServer_correct_witness:
  "length (entries (snd (StopServer 5 (snd (ReconcileServer 5 sample_start))))) = 1 \<and>
   se_done (entries (snd (StopServer 5 (snd (ReconcileServer 5 sample_start)))) ! 0)"
proof -
  have "conn_ok (snd (ReconcileServer 5 sample_start))"
    by (rule conn_step_ok [OF conn_step.reconcile fresh_supervisor_ok [OF sample_start_fresh]])
  note stopped = conjunct1 [OF conjunct2 [OF conjunct2 [OF conjunct2
    [OF StopServer_correct [OF this prod.collapse [symmetric], of 5]]]]]
  have one: "length (entries (snd (StopServer 5 (snd (ReconcileServer 5 sample_start))))) = 1" by code_simp
  have srv: "entry_server (entries (snd (StopServer 5 (snd (ReconcileServer 5 sample_start)))) ! 0) = 5" by code_simp
  from stopped [rule_format, of 0, unfolded one, OF zero_less_one srv] one show ?thesis by (intro conjI)
qed

end
