(* ===== verification/Supervisor_Races.thy ===== *)
theory Supervisor_Races
  imports Connections
begin

text \<open>
  The connection supervisor at the grain of its locks. Theory \<open>Connections\<close> runs each operation as a whole; here an operation
  is a sequence of sections, each of them what the code does under one of the mutexes \<open>mu\<close> and \<open>retryMu\<close> of package \<open>conn\<close>, or
  \<open>mu\<close> of package \<open>connection\<close>, and sections of all goroutines interleave. Only the lifecycle lock of a server, one of 64,
  keeps the operations on it apart. A goroutine that holds one may run the sections of the operations in any order
  that the locks and the waiting allow, which includes the orders of the code: the operations of \<open>Connections\<close> are
  shown to be runs of sections.
\<close>

section \<open>State\<close>

text \<open>
  The goroutine that holds a lifecycle lock: the server it works on; whether it has canceled the server's retry and not
  started a new one; whether \<open>stopOutboundServer\<close> has returned and nothing was registered since; and the worker it waits for.
\<close>

record holder =
  h_server :: int
  h_cancelled :: bool
  h_clear :: bool
  h_waits :: "nat option"

text \<open>
  Beside the state of the supervisor: who holds each lock, and the connections that were taken out of the registry by a
  goroutine that has not closed them yet.
\<close>

record 's race =
  base :: 's
  holders :: "nat \<Rightarrow> holder option"
  closing :: "nat list"

definition idle :: "'s \<Rightarrow> 's race" where
  "idle s = \<lparr>base = s, holders = (\<lambda>_. None), closing = []\<rparr>"

abbreviation holds :: "'s race \<Rightarrow> holder \<Rightarrow> bool" where
  "holds R h \<equiv> holders R (lifecycleLock (h_server h)) = Some h"

definition with_holder :: "holder \<Rightarrow> 's race \<Rightarrow> 's race" where
  "with_holder h R = R\<lparr>holders := (holders R)(lifecycleLock (h_server h) \<mapsto> h)\<rparr>"

definition unlocked :: "holder \<Rightarrow> 's race \<Rightarrow> 's race" where
  "unlocked h R = R\<lparr>holders := (holders R)(lifecycleLock (h_server h) := None)\<rparr>"

definition on_base :: "('s \<Rightarrow> 's) \<Rightarrow> 's race \<Rightarrow> 's race" where
  "on_base f R = R\<lparr>base := f (base R)\<rparr>"

definition new_holder :: "int \<Rightarrow> holder" where
  "new_holder sid = \<lparr>h_server = sid, h_cancelled = False, h_clear = False, h_waits = None\<rparr>"

section \<open>Sections\<close>

definition take_outbound :: "int \<Rightarrow> 'z connenv_scheme \<Rightarrow> 'z connenv_scheme" where
  "take_outbound sid s = s\<lparr>connectPool := AList.delete sid (connectPool s)\<rparr>"

definition add_worker :: "int \<Rightarrow> work \<Rightarrow> 'z connenv_scheme \<Rightarrow> 'z connenv_scheme" where
  "add_worker sid w s = s\<lparr>entries := entries s @ [\<lparr>se_work = w, se_canceled = False, se_done = False\<rparr>],
     connectPool := AList.update sid (length (entries s)) (connectPool s)\<rparr>"

text \<open>How the goroutine of a retry ends after a reconciliation that succeeded.\<close>

definition retry_over :: "nat \<Rightarrow> 'z connenv_scheme \<Rightarrow> 'z connenv_scheme" where
  "retry_over p s = end_retry p
     (if pending_retry s (rr_server (retries s ! p)) = Some p
      then s\<lparr>reconcileRetries := AList.delete (rr_server (retries s ! p)) (reconcileRetries s)\<rparr> else s)"

inductive race_step :: "'z connenv_scheme race \<Rightarrow> 'z connenv_scheme race \<Rightarrow> bool" where
  locks: "holders R (lifecycleLock sid) = None \<Longrightarrow> race_step R (with_holder (new_holder sid) R)"
| unlocks: "holds R h \<Longrightarrow> h_waits h = None \<Longrightarrow> race_step R (unlocked h R)"
| cancels_retry: "holds R h \<Longrightarrow> h_waits h = None \<Longrightarrow>
    race_step R (with_holder (h\<lparr>h_cancelled := True\<rparr>) (on_base (snd \<circ> cancelReconcileRetry (h_server h)) R))"
| takes_outbound: "holds R h \<Longrightarrow> h_waits h = None \<Longrightarrow> map_of (connectPool (base R)) (h_server h) = Some p \<Longrightarrow>
    race_step R (with_holder (h\<lparr>h_clear := False, h_waits := Some p\<rparr>) (on_base (take_outbound (h_server h)) R))"
| finds_none: "holds R h \<Longrightarrow> h_waits h = None \<Longrightarrow> map_of (connectPool (base R)) (h_server h) = None \<Longrightarrow>
    race_step R (with_holder (h\<lparr>h_clear := True\<rparr>) R)"
| cancels_worker: "holds R h \<Longrightarrow> h_waits h = Some p \<Longrightarrow> race_step R (on_base (cancel_entry p) R)"
| waited: "holds R h \<Longrightarrow> h_waits h = Some p \<Longrightarrow> se_done (entries (base R) ! p) \<Longrightarrow>
    race_step R (with_holder (h\<lparr>h_clear := True, h_waits := None\<rparr>) R)"
| registers: "holds R h \<Longrightarrow> h_waits h = None \<Longrightarrow> h_clear h \<Longrightarrow> work_server w = h_server h \<Longrightarrow>
    race_step R (with_holder (h\<lparr>h_clear := False\<rparr>) (on_base (add_worker (h_server h) w) R))"
| starts_retry: "holds R h \<Longrightarrow> h_waits h = None \<Longrightarrow> h_cancelled h \<Longrightarrow>
    race_step R (with_holder (h\<lparr>h_cancelled := False\<rparr>) (on_base (snd \<circ> startReconcileRetry (h_server h)) R))"
| retry_gives_up: "holds R h \<Longrightarrow> p < length (retries (base R)) \<Longrightarrow> rr_server (retries (base R) ! p) = h_server h \<Longrightarrow>
    rr_canceled (retries (base R) ! p) \<or> pending_retry (base R) (h_server h) \<noteq> Some p \<Longrightarrow> race_step R (on_base (end_retry p) R)"
| retry_succeeds: "holds R h \<Longrightarrow> p < length (retries (base R)) \<Longrightarrow> rr_server (retries (base R) ! p) = h_server h \<Longrightarrow>
    race_step R (on_base (retry_over p) R)"
| retry_fails: "holds R h \<Longrightarrow> p < length (retries (base R)) \<Longrightarrow> rr_server (retries (base R) ! p) = h_server h \<Longrightarrow>
    race_step R (on_base (count_failure p) R)"
| retry_stopped: "p < length (retries (base R)) \<Longrightarrow> rr_canceled (retries (base R) ! p) \<Longrightarrow> race_step R (on_base (end_retry p) R)"
| worker_over: "p < length (entries (base R)) \<Longrightarrow> \<not> se_done (entries (base R) ! p) \<Longrightarrow>
    race_step R (on_base (snd \<circ> finishOutboundServer (entry_server (entries (base R) ! p)) p) R)"
| agent_swaps: "main_swap sid (base R) = (Inr (q, old), s) \<Longrightarrow>
    race_step R (R\<lparr>base := s, closing := (case old of None \<Rightarrow> closing R | Some p \<Rightarrow> p # closing R)\<rparr>)"
| inbound_taken: "main_take sid (base R) = (Inr old, s) \<Longrightarrow>
    race_step R (R\<lparr>base := s, closing := (case old of None \<Rightarrow> closing R | Some p \<Rightarrow> p # closing R)\<rparr>)"
| agent_ends: "p < length (managed (base R)) \<Longrightarrow>
    race_step R (R\<lparr>base := snd (MainRemove (mc_server (managed (base R) ! p)) p (base R)), closing := p # closing R\<rparr>)"
| closes: "p \<in> set (closing R) \<Longrightarrow> race_step R (R\<lparr>base := managed_Close p (base R), closing := remove1 p (closing R)\<rparr>)"
| other_changes: "race_step R (on_base (\<lambda>s. s\<lparr>db := d, calls := n\<rparr>) R)"

inductive_cases race_stepE: "race_step R T"

section \<open>The invariant\<close>

text \<open>What the holder of the lock of a server is at.\<close>

definition at_server :: "(nat \<Rightarrow> holder option) \<Rightarrow> int \<Rightarrow> holder option" where
  "at_server hs k = (case hs (lifecycleLock k) of None \<Rightarrow> None | Some h \<Rightarrow> if h_server h = k then Some h else None)"

abbreviation awaited :: "'s race \<Rightarrow> int \<Rightarrow> nat option" where
  "awaited R k \<equiv> Option.bind (at_server (holders R) k) h_waits"

definition workers_ok :: "(int \<Rightarrow> holder option) \<Rightarrow> ServerEntry list \<Rightarrow> (int \<rightharpoonup> nat) \<Rightarrow> bool" where
  "workers_ok who xs m \<longleftrightarrow>
     (\<forall>p < length xs. \<not> se_done (xs ! p) \<longrightarrow> m (entry_server (xs ! p)) = Some p \<or> Option.bind (who (entry_server (xs ! p))) h_waits = Some p) \<and>
     (\<forall>k p. m k = Some p \<longrightarrow> p < length xs \<and> entry_server (xs ! p) = k \<and> \<not> se_done (xs ! p)) \<and>
     (\<forall>k h p. who k = Some h \<longrightarrow> h_waits h = Some p \<longrightarrow> m k = None \<and> \<not> h_clear h \<and> p < length xs \<and> entry_server (xs ! p) = k) \<and>
     (\<forall>k h. who k = Some h \<longrightarrow> h_clear h \<longrightarrow> m k = None)"

definition retries_ok :: "(int \<Rightarrow> holder option) \<Rightarrow> reconcileRetry list \<Rightarrow> (int \<rightharpoonup> nat) \<Rightarrow> bool" where
  "retries_ok who xs m \<longleftrightarrow> reg_ok rr_server retry_live xs m \<and> (\<forall>k h. who k = Some h \<longrightarrow> h_cancelled h \<longrightarrow> m k = None)"

definition agents_ok :: "nat list \<Rightarrow> ManagedConn list \<Rightarrow> (int \<rightharpoonup> nat) \<Rightarrow> bool" where
  "agents_ok C xs m \<longleftrightarrow>
     (\<forall>p < length xs. \<not> mc_closed (xs ! p) \<longrightarrow> m (mc_server (xs ! p)) = Some p \<or> p \<in> set C) \<and>
     (\<forall>k p. m k = Some p \<longrightarrow> p < length xs \<and> mc_server (xs ! p) = k \<and> \<not> mc_closed (xs ! p) \<and> p \<notin> set C) \<and>
     (\<forall>p \<in> set C. p < length xs)"

definition race_ok :: "'z connenv_scheme race \<Rightarrow> bool" where
  "race_ok R \<longleftrightarrow>
     workers_ok (at_server (holders R)) (entries (base R)) (map_of (connectPool (base R))) \<and>
     retries_ok (at_server (holders R)) (retries (base R)) (map_of (reconcileRetries (base R))) \<and>
     agents_ok (closing R) (managed (base R)) (map_of (mainConnections (base R)))"

lemma at_server_with:
  assumes "holds R h" "h_server h' = h_server h"
  shows "at_server (holders (with_holder h' R)) = (at_server (holders R))(h_server h \<mapsto> h')"
  using assms by (auto simp: at_server_def with_holder_def fun_eq_iff)

lemma at_server_holds: "holds R h \<Longrightarrow> at_server (holders R) (h_server h) = Some h"
  by (simp add: at_server_def)

lemma at_server_locks:
  "holders R (lifecycleLock sid) = None \<Longrightarrow> at_server (holders (with_holder (new_holder sid) R)) = (at_server (holders R))(sid \<mapsto> new_holder sid)"
  by (auto simp: at_server_def with_holder_def new_holder_def fun_eq_iff)

lemma at_server_unlocks: "holds R h \<Longrightarrow> at_server (holders (unlocked h R)) = (at_server (holders R))(h_server h := None)"
  by (auto simp: at_server_def unlocked_def fun_eq_iff)

lemma race_parts [simp]:
  "base (with_holder h R) = base R" "closing (with_holder h R) = closing R" "base (unlocked h R) = base R" "closing (unlocked h R) = closing R"
  "base (on_base f R) = f (base R)" "closing (on_base f R) = closing R" "holders (on_base f R) = holders R"
  by (simp_all add: with_holder_def unlocked_def on_base_def)

lemma with_on_base: "with_holder h (on_base f R) = on_base f (with_holder h R)"
  by (simp add: with_holder_def on_base_def)

lemma holders_with_on_base [simp]: "holders (with_holder h (on_base f R)) = holders (with_holder h R)"
  by (simp add: with_holder_def on_base_def)


subsection \<open>Workers\<close>

lemma workers_okD:
  assumes "workers_ok who xs m"
  shows "p < length xs \<Longrightarrow> \<not> se_done (xs ! p) \<Longrightarrow> m (entry_server (xs ! p)) = Some p \<or> Option.bind (who (entry_server (xs ! p))) h_waits = Some p"
    and "m k = Some p \<Longrightarrow> p < length xs \<and> entry_server (xs ! p) = k \<and> \<not> se_done (xs ! p)"
    and "who k = Some h \<Longrightarrow> h_waits h = Some p \<Longrightarrow> m k = None \<and> \<not> h_clear h \<and> p < length xs \<and> entry_server (xs ! p) = k"
    and "who k = Some h \<Longrightarrow> h_clear h \<Longrightarrow> m k = None"
  using assms unfolding workers_ok_def by blast+

lemma workers_okI:
  assumes "\<And>p. p < length xs \<Longrightarrow> \<not> se_done (xs ! p) \<Longrightarrow> m (entry_server (xs ! p)) = Some p \<or> Option.bind (who (entry_server (xs ! p))) h_waits = Some p"
    and "\<And>k p. m k = Some p \<Longrightarrow> p < length xs \<and> entry_server (xs ! p) = k \<and> \<not> se_done (xs ! p)"
    and "\<And>k h p. who k = Some h \<Longrightarrow> h_waits h = Some p \<Longrightarrow> m k = None \<and> \<not> h_clear h \<and> p < length xs \<and> entry_server (xs ! p) = k"
    and "\<And>k h. who k = Some h \<Longrightarrow> h_clear h \<Longrightarrow> m k = None"
  shows "workers_ok who xs m"
  using assms unfolding workers_ok_def by blast

lemma workers_holder:
  assumes w: "workers_ok who xs m" and old: "\<And>p. Option.bind (who sid) h_waits = Some p \<Longrightarrow> se_done (xs ! p)"
    and new: "\<And>h. o' = Some h \<Longrightarrow> h_waits h = None \<and> (h_clear h \<longrightarrow> m sid = None)"
  shows "workers_ok (who(sid := o')) xs m"
proof (rule workers_okI)
  fix p assume p: "p < length xs" "\<not> se_done (xs ! p)"
  with workers_okD(1) [OF w p] old show "m (entry_server (xs ! p)) = Some p \<or> Option.bind ((who(sid := o')) (entry_server (xs ! p))) h_waits = Some p"
    by (cases "entry_server (xs ! p) = sid") auto
qed (use workers_okD(2-4) [OF w] new in \<open>fastforce split: if_splits\<close>)+

lemma workers_taken:
  assumes w: "workers_ok who xs m" and sid: "who sid = Some h" "h_waits h = None" "m sid = Some p"
  shows "workers_ok (who(sid \<mapsto> h\<lparr>h_clear := False, h_waits := Some p\<rparr>)) xs (m(sid := None))"
proof (rule workers_okI)
  let ?who = "who(sid \<mapsto> h\<lparr>h_clear := False, h_waits := Some p\<rparr>)"
  fix q assume q: "q < length xs" "\<not> se_done (xs ! q)"
  from workers_okD(1) [OF w q] sid show "(m(sid := None)) (entry_server (xs ! q)) = Some q \<or> Option.bind (?who (entry_server (xs ! q))) h_waits = Some q"
    by (cases "entry_server (xs ! q) = sid") auto
next
  fix k q assume "(m(sid := None)) k = Some q"
  then have "m k = Some q" by (simp split: if_splits)
  then show "q < length xs \<and> entry_server (xs ! q) = k \<and> \<not> se_done (xs ! q)" by (rule workers_okD(2) [OF w])
next
  fix k h' q assume "(who(sid \<mapsto> h\<lparr>h_clear := False, h_waits := Some p\<rparr>)) k = Some h'" "h_waits h' = Some q"
  with workers_okD(3) [OF w, of k h' q] workers_okD(2) [OF w sid(3)]
  show "(m(sid := None)) k = None \<and> \<not> h_clear h' \<and> q < length xs \<and> entry_server (xs ! q) = k" by (cases "k = sid") auto
next
  fix k h' assume "(who(sid \<mapsto> h\<lparr>h_clear := False, h_waits := Some p\<rparr>)) k = Some h'" "h_clear h'"
  with workers_okD(4) [OF w, of k h'] show "(m(sid := None)) k = None" by (cases "k = sid") auto
qed

lemma workers_same:
  assumes w: "workers_ok who xs m" and x: "se_done x = se_done (xs ! p)" "se_work x = se_work (xs ! p)"
  shows "workers_ok who (xs[p := x]) m"
  using workers_okD [OF w] x unfolding workers_ok_def by (auto simp: nth_upd)

lemma workers_registered:
  assumes w: "workers_ok who xs m" and sid: "who sid = Some h" "h_clear h" "work_server (se_work x) = sid" "\<not> se_done x"
  shows "workers_ok (who(sid \<mapsto> h\<lparr>h_clear := False\<rparr>)) (xs @ [x]) (m(sid \<mapsto> length xs))"
proof -
  have m: "m sid = None" using workers_okD(4) [OF w sid(1,2)] .
  have wait: "h_waits h = None" using workers_okD(3) [OF w sid(1)] sid(2) by (cases "h_waits h") auto
  have "\<not> se_done (xs ! p) \<Longrightarrow> p < length xs \<Longrightarrow> entry_server (xs ! p) \<noteq> sid" for p
    using workers_okD(1) [OF w, of p] m sid(1) wait by auto
  with workers_okD [OF w] m wait sid show ?thesis unfolding workers_ok_def
    by (auto simp: nth_append less_Suc_eq split: if_splits)
qed

lemma workers_over:
  assumes w: "workers_ok who xs m" and p: "p < length xs" "\<not> se_done (xs ! p)"
  shows "workers_ok who (xs[p := (xs ! p)\<lparr>se_done := True\<rparr>])
    (if m (entry_server (xs ! p)) = Some p then m(entry_server (xs ! p) := None) else m)"
proof -
  let ?k = "entry_server (xs ! p)" and ?ys = "xs[p := (xs ! p)\<lparr>se_done := True\<rparr>]"
  let ?m = "if m ?k = Some p then m(?k := None) else m"
  have ys: "length ?ys = length xs" "entry_server (?ys ! q) = entry_server (xs ! q)" "se_done (?ys ! q) \<longleftrightarrow> se_done (xs ! q) \<or> q = p" for q
    using p(1) by (auto simp: nth_upd)
  show "workers_ok who ?ys ?m"
  proof (rule workers_okI, unfold ys)
    fix q assume q: "q < length xs" "\<not> (se_done (xs ! q) \<or> q = p)"
    then have q': "q < length xs" "\<not> se_done (xs ! q)" "q \<noteq> p" by simp_all
    from workers_okD(1) [OF w q'(1,2)] q'(3)
    show "?m (entry_server (xs ! q)) = Some q \<or> Option.bind (who (entry_server (xs ! q))) h_waits = Some q" by auto
  next
    fix k q assume "?m k = Some q"
    then have "m k = Some q" "q \<noteq> p" using workers_okD(2) [OF w, of k q] by (auto split: if_splits)
    then show "q < length xs \<and> entry_server (xs ! q) = k \<and> \<not> (se_done (xs ! q) \<or> q = p)" using workers_okD(2) [OF w] by blast
  qed (use workers_okD(3,4) [OF w] in \<open>auto split: if_splits\<close>)
qed

subsection \<open>Retries\<close>

lemma retries_holder:
  assumes "retries_ok who xs m" "\<And>h. o' = Some h \<Longrightarrow> h_cancelled h \<Longrightarrow> m sid = None"
  shows "retries_ok (who(sid := o')) xs m"
  using assms by (auto simp: retries_ok_def split: if_splits)

lemma retries_cancelled:
  assumes "retries_ok who xs m"
  shows "retries_ok (who(sid := o')) (case m sid of None \<Rightarrow> xs | Some p \<Rightarrow> xs[p := (xs ! p)\<lparr>rr_canceled := True\<rparr>]) (m(sid := None))"
proof -
  from assms have r: "reg_ok rr_server retry_live xs m" by (simp add: retries_ok_def)
  have "reg_ok rr_server retry_live (case m sid of None \<Rightarrow> xs | Some p \<Rightarrow> xs[p := (xs ! p)\<lparr>rr_canceled := True\<rparr>]) (m(sid := None))"
  proof (cases "m sid")
    case None
    then have "m(sid := None) = m" by auto
    with r None show ?thesis by simp
  next
    case (Some p)
    from reg_ok_drop [OF r Some, of "(xs ! p)\<lparr>rr_canceled := True\<rparr>"] reg_okD [OF r Some] Some show ?thesis by (simp add: retry_live_def)
  qed
  with assms show ?thesis by (auto simp: retries_ok_def)
qed

lemma retries_started:
  assumes r: "retries_ok who xs m" and sid: "who sid = Some h" "h_cancelled h" "rr_server x = sid" "retry_live x"
  shows "retries_ok (who(sid \<mapsto> h\<lparr>h_cancelled := False\<rparr>)) (xs @ [x]) (m(sid \<mapsto> length xs))"
proof -
  have "m sid = None" using r sid(1,2) unfolding retries_ok_def by simp
  with reg_ok_add [of rr_server retry_live xs m sid x] r sid show ?thesis by (auto simp: retries_ok_def)
qed

lemma retries_ended:
  assumes r: "retries_ok who xs m" and p: "rr_canceled (xs ! p) \<or> m (rr_server (xs ! p)) \<noteq> Some p" "p < length xs"
  shows "retries_ok who (xs[p := (xs ! p)\<lparr>rr_done := True\<rparr>]) m"
proof -
  from r have reg: "reg_ok rr_server retry_live xs m" by (simp add: retries_ok_def)
  have "\<not> retry_live (xs ! p)" using reg_ok_live [OF reg p(2)] p(1) by (auto simp: retry_live_def)
  then have "reg_ok rr_server retry_live (xs[p := (xs ! p)\<lparr>rr_done := True\<rparr>]) m"
    by (intro reg_ok_same [OF reg]) (simp_all add: retry_live_def)
  with r show ?thesis by (simp add: retries_ok_def)
qed

lemma retries_over:
  assumes r: "retries_ok who xs m" and p: "m (rr_server (xs ! p)) = Some p"
  shows "retries_ok who (xs[p := (xs ! p)\<lparr>rr_done := True\<rparr>]) (m(rr_server (xs ! p) := None))"
proof -
  from r have reg: "reg_ok rr_server retry_live xs m" by (simp add: retries_ok_def)
  from reg_ok_drop [OF reg p, of "(xs ! p)\<lparr>rr_done := True\<rparr>"] r show ?thesis by (auto simp: retries_ok_def retry_live_def)
qed

lemma retries_counted:
  assumes r: "retries_ok who xs m"
  shows "retries_ok who (xs[p := (xs ! p)\<lparr>rr_failures := n\<rparr>]) m"
  using reg_ok_same [of rr_server retry_live xs m "(xs ! p)\<lparr>rr_failures := n\<rparr>" p] r by (simp add: retries_ok_def retry_live_def)

subsection \<open>Connections of agents\<close>

lemma agents_okD:
  assumes "agents_ok C xs m"
  shows "p < length xs \<Longrightarrow> \<not> mc_closed (xs ! p) \<Longrightarrow> m (mc_server (xs ! p)) = Some p \<or> p \<in> set C"
    and "m k = Some p \<Longrightarrow> p < length xs \<and> mc_server (xs ! p) = k \<and> \<not> mc_closed (xs ! p) \<and> p \<notin> set C"
    and "p \<in> set C \<Longrightarrow> p < length xs"
  using assms unfolding agents_ok_def by blast+

lemma agents_okI:
  assumes "\<And>p. p < length xs \<Longrightarrow> \<not> mc_closed (xs ! p) \<Longrightarrow> m (mc_server (xs ! p)) = Some p \<or> p \<in> set C"
    and "\<And>k p. m k = Some p \<Longrightarrow> p < length xs \<and> mc_server (xs ! p) = k \<and> \<not> mc_closed (xs ! p) \<and> p \<notin> set C"
    and "\<And>p. p \<in> set C \<Longrightarrow> p < length xs"
  shows "agents_ok C xs m"
  using assms unfolding agents_ok_def by blast

abbreviation taken_of :: "nat option \<Rightarrow> nat list \<Rightarrow> nat list" where
  "taken_of old C \<equiv> (case old of None \<Rightarrow> C | Some p \<Rightarrow> p # C)"

lemma agents_taken:
  assumes a: "agents_ok C xs m"
  shows "agents_ok (taken_of (m sid) C) xs (m(sid := None))"
proof (cases "m sid")
  case None
  then have "m(sid := None) = m" by auto
  with a None show ?thesis by simp
next
  case (Some q)
  note q = agents_okD(2) [OF a Some]
  show ?thesis
  proof (rule agents_okI)
    fix p assume "p < length xs" "\<not> mc_closed (xs ! p)"
    from agents_okD(1) [OF a this] Some show "(m(sid := None)) (mc_server (xs ! p)) = Some p \<or> p \<in> set (taken_of (m sid) C)" by auto
  next
    fix k p assume "(m(sid := None)) k = Some p"
    then have k: "k \<noteq> sid" "m k = Some p" by (auto split: if_splits)
    from agents_okD(2) [OF a k(2)] k q Some
    show "p < length xs \<and> mc_server (xs ! p) = k \<and> \<not> mc_closed (xs ! p) \<and> p \<notin> set (taken_of (m sid) C)" by auto
  qed (use agents_okD(3) [OF a] q Some in auto)
qed

lemma agents_added:
  assumes a: "agents_ok C xs m" and x: "m sid = None" "mc_server x = sid" "\<not> mc_closed x"
  shows "agents_ok C (xs @ [x]) (m(sid \<mapsto> length xs))"
proof (rule agents_okI)
  fix p assume p: "p < length (xs @ [x])" "\<not> mc_closed ((xs @ [x]) ! p)"
  show "(m(sid \<mapsto> length xs)) (mc_server ((xs @ [x]) ! p)) = Some p \<or> p \<in> set C"
  proof (cases "p < length xs")
    case True
    with p agents_okD(1) [OF a, of p] x(1) show ?thesis by (auto simp: nth_append)
  next
    case False
    with p x show ?thesis by (simp add: nth_append less_Suc_eq)
  qed
next
  fix k p assume "(m(sid \<mapsto> length xs)) k = Some p"
  with agents_okD(2) [OF a, of k p] agents_okD(3) [OF a, of "length xs"] x
  show "p < length (xs @ [x]) \<and> mc_server ((xs @ [x]) ! p) = k \<and> \<not> mc_closed ((xs @ [x]) ! p) \<and> p \<notin> set C"
    by (auto simp: nth_append split: if_splits)
qed (use agents_okD(3) [OF a] in fastforce)

lemma agents_more:
  assumes a: "agents_ok C xs m" and p: "p < length xs" "m (mc_server (xs ! p)) \<noteq> Some p"
  shows "agents_ok (p # C) xs m"
proof (rule agents_okI)
  fix k q assume q: "m k = Some q"
  from agents_okD(2) [OF a q] p(2) q show "q < length xs \<and> mc_server (xs ! q) = k \<and> \<not> mc_closed (xs ! q) \<and> q \<notin> set (p # C)" by auto
qed (use agents_okD(1,3) [OF a] p in auto)

lemma agents_closed:
  assumes a: "agents_ok C xs m" and p: "p \<in> set C"
  shows "agents_ok (remove1 p C) (xs[p := (xs ! p)\<lparr>mc_closed := True\<rparr>]) m"
proof (rule agents_okI)
  let ?ys = "xs[p := (xs ! p)\<lparr>mc_closed := True\<rparr>]"
  fix q assume "q < length ?ys" "\<not> mc_closed (?ys ! q)"
  then have q: "q < length xs" "\<not> mc_closed (xs ! q)" "q \<noteq> p" by (auto simp: nth_upd split: if_splits)
  from agents_okD(1) [OF a q(1,2)] q(3) show "m (mc_server (?ys ! q)) = Some q \<or> q \<in> set (remove1 p C)" by (auto simp: nth_upd)
next
  fix k q assume k: "m k = Some q"
  from agents_okD(2) [OF a k] p
  show "q < length (xs[p := (xs ! p)\<lparr>mc_closed := True\<rparr>]) \<and> mc_server (xs[p := (xs ! p)\<lparr>mc_closed := True\<rparr>] ! q) = k \<and>
      \<not> mc_closed (xs[p := (xs ! p)\<lparr>mc_closed := True\<rparr>] ! q) \<and> q \<notin> set (remove1 p C)"
    by (auto simp: nth_upd dest: notin_set_remove1)
qed (use agents_okD(3) [OF a] notin_set_remove1 in \<open>fastforce\<close>)

subsection \<open>Every section keeps it\<close>

lemma race_okI:
  assumes "workers_ok (at_server (holders R)) (entries (base R)) (map_of (connectPool (base R)))"
    "retries_ok (at_server (holders R)) (retries (base R)) (map_of (reconcileRetries (base R)))"
    "agents_ok (closing R) (managed (base R)) (map_of (mainConnections (base R)))"
  shows "race_ok R"
  using assms by (simp add: race_ok_def)

lemma race_okD:
  assumes "race_ok R"
  shows "workers_ok (at_server (holders R)) (entries (base R)) (map_of (connectPool (base R)))"
    "retries_ok (at_server (holders R)) (retries (base R)) (map_of (reconcileRetries (base R)))"
    "agents_ok (closing R) (managed (base R)) (map_of (mainConnections (base R)))"
  using assms by (simp_all add: race_ok_def)

lemma race_ok_with:
  assumes "holds R h" "h_server h' = h_server h"
    and "workers_ok ((at_server (holders R))(h_server h \<mapsto> h')) (entries (base R)) (map_of (connectPool (base R)))"
    "retries_ok ((at_server (holders R))(h_server h \<mapsto> h')) (retries (base R)) (map_of (reconcileRetries (base R)))"
    "agents_ok (closing R) (managed (base R)) (map_of (mainConnections (base R)))"
  shows "race_ok (with_holder h' R)"
  using assms(3-5) by (simp add: race_ok_def at_server_with [OF assms(1,2)])

lemma race_ok_with_on:
  assumes "holds R h" "h_server h' = h_server h"
    and "workers_ok ((at_server (holders R))(h_server h \<mapsto> h')) (entries (f (base R))) (map_of (connectPool (f (base R))))"
    "retries_ok ((at_server (holders R))(h_server h \<mapsto> h')) (retries (f (base R))) (map_of (reconcileRetries (f (base R))))"
    "agents_ok (closing R) (managed (f (base R))) (map_of (mainConnections (f (base R))))"
  shows "race_ok (with_holder h' (on_base f R))"
  using assms(3-5) by (simp add: race_ok_def at_server_with [OF assms(1,2)])

lemma race_step_ok: "race_step R T \<Longrightarrow> race_ok R \<Longrightarrow> race_ok T"
proof (induction rule: race_step.induct)
  case (locks R sid)
  note ok = race_okD [OF locks(2)]
  have none: "at_server (holders R) sid = None" using locks(1) by (simp add: at_server_def)
  show ?case
    by (rule race_okI, simp_all only: at_server_locks [OF locks(1)] race_parts)
      (use workers_holder [OF ok(1), of sid "Some (new_holder sid)"] retries_holder [OF ok(2), of "Some (new_holder sid)" sid] ok(3) none
        in \<open>simp_all add: new_holder_def\<close>)
next
  case (unlocks R h)
  note ok = race_okD [OF unlocks(3)]
  show ?case
    by (rule race_okI, simp_all only: at_server_unlocks [OF unlocks(1)] race_parts)
      (use workers_holder [OF ok(1), of "h_server h" None] retries_holder [OF ok(2), of None "h_server h"] ok(3) at_server_holds [OF unlocks(1)] unlocks(2)
        in simp_all)
next
  case (cancels_retry R h)
  note ok = race_okD [OF cancels_retry(3)]
  note at = at_server_holds [OF cancels_retry(1)]
  let ?h = "h\<lparr>h_cancelled := True\<rparr>"
  have srv: "h_server ?h = h_server h" by simp
  have "workers_ok ((at_server (holders R))(h_server h \<mapsto> ?h)) (entries (base R)) (map_of (connectPool (base R)))"
    by (rule workers_holder [OF ok(1)]) (use at cancels_retry(2) workers_okD(4) [OF ok(1) at] in auto)
  with retries_cancelled [OF ok(2), of "h_server h" "Some ?h"] ok(3) show ?case
    by (intro race_ok_with_on [OF cancels_retry(1) srv]) (simp_all add: cancelReconcileRetry_def modify_def cancel_retry_def AList.delete_conv' fun_upd_idem split: option.splits)
next
  case (takes_outbound R h p)
  note ok = race_okD [OF takes_outbound(4)]
  note at = at_server_holds [OF takes_outbound(1)]
  let ?h = "h\<lparr>h_clear := False, h_waits := Some p\<rparr>"
  have srv: "h_server ?h = h_server h" by simp
  from ok(2) at have c: "h_cancelled h \<Longrightarrow> pending_retry (base R) (h_server h) = None" by (auto simp: retries_ok_def)
  show ?case
    by (rule race_ok_with_on [OF takes_outbound(1) srv])
      (use workers_taken [OF ok(1) at takes_outbound(2,3)] retries_holder [OF ok(2), of "Some ?h" "h_server h"] c ok(3)
        in \<open>simp_all add: take_outbound_def AList.delete_conv'\<close>)
next
  case (finds_none R h)
  note ok = race_okD [OF finds_none(4)]
  note at = at_server_holds [OF finds_none(1)]
  let ?h = "h\<lparr>h_clear := True\<rparr>"
  have srv: "h_server ?h = h_server h" by simp
  from ok(2) at have c: "h_cancelled h \<Longrightarrow> pending_retry (base R) (h_server h) = None" by (auto simp: retries_ok_def)
  show ?case
    by (rule race_ok_with [OF finds_none(1) srv])
      (use workers_holder [OF ok(1), of "h_server h" "Some ?h"] retries_holder [OF ok(2), of "Some ?h" "h_server h"] at finds_none(2,3) c ok(3) in simp_all)
next
  case (cancels_worker R h p)
  note ok = race_okD [OF cancels_worker(3)]
  show ?case
    by (rule race_okI) (use workers_same [OF ok(1), of "(entries (base R) ! p)\<lparr>se_canceled := True\<rparr>" p] ok in \<open>simp_all add: cancel_entry_def\<close>)
next
  case (waited R h p)
  note ok = race_okD [OF waited(4)]
  note at = at_server_holds [OF waited(1)]
  let ?h = "h\<lparr>h_clear := True, h_waits := None\<rparr>"
  have srv: "h_server ?h = h_server h" by simp
  from ok(2) at have c: "h_cancelled h \<Longrightarrow> pending_retry (base R) (h_server h) = None" by (auto simp: retries_ok_def)
  show ?case
    by (rule race_ok_with [OF waited(1) srv])
      (use workers_holder [OF ok(1), of "h_server h" "Some ?h"] workers_okD(3) [OF ok(1) at waited(2)]
        retries_holder [OF ok(2), of "Some ?h" "h_server h"] at waited(2,3) c ok(3) in simp_all)
next
  case (registers R h w)
  note ok = race_okD [OF registers(5)]
  note at = at_server_holds [OF registers(1)]
  let ?h = "h\<lparr>h_clear := False\<rparr>"
  have srv: "h_server ?h = h_server h" by simp
  from ok(2) at have c: "h_cancelled h \<Longrightarrow> pending_retry (base R) (h_server h) = None" by (auto simp: retries_ok_def)
  show ?case
    by (rule race_ok_with_on [OF registers(1) srv])
      (use workers_registered [OF ok(1) at registers(3), of "\<lparr>se_work = w, se_canceled = False, se_done = False\<rparr>"] registers(4)
        retries_holder [OF ok(2), of "Some ?h" "h_server h"] c ok(3) in \<open>simp_all add: add_worker_def AList.update_conv'\<close>)
next
  case (starts_retry R h)
  note ok = race_okD [OF starts_retry(4)]
  note at = at_server_holds [OF starts_retry(1)]
  let ?h = "h\<lparr>h_cancelled := False\<rparr>" and ?r = "\<lparr>rr_server = h_server h, rr_canceled = False, rr_done = False, rr_failures = 0\<rparr>"
  have srv: "h_server ?h = h_server h" by simp
  have "workers_ok ((at_server (holders R))(h_server h \<mapsto> ?h)) (entries (base R)) (map_of (connectPool (base R)))"
    by (rule workers_holder [OF ok(1)]) (use at starts_retry(2) workers_okD(4) [OF ok(1) at] in auto)
  then show ?case
    by (intro race_ok_with_on [OF starts_retry(1) srv])
      (use retries_started [OF ok(2) at starts_retry(3), of ?r] ok(3)
        in \<open>simp_all add: startReconcileRetry_def modify_def retry_live_def AList.update_conv'\<close>)
next
  case (retry_gives_up R h p)
  note ok = race_okD [OF retry_gives_up(5)]
  show ?case by (rule race_okI) (use retries_ended [OF ok(2), of p] retry_gives_up(2-4) ok in \<open>simp_all add: end_retry_def\<close>)
next
  case (retry_succeeds R h p)
  note ok = race_okD [OF retry_succeeds(4)]
  show ?case by (rule race_okI)
      (use retries_over [OF ok(2), of p] retries_ended [OF ok(2), of p] retry_succeeds(2,3) ok
        in \<open>auto simp: retry_over_def end_retry_def AList.delete_conv'\<close>)
next
  case (retry_fails R h p)
  note ok = race_okD [OF retry_fails(4)]
  show ?case by (rule race_okI) (use retries_counted [OF ok(2)] ok in \<open>simp_all add: count_failure_def\<close>)
next
  case (retry_stopped p R)
  note ok = race_okD [OF retry_stopped(3)]
  show ?case by (rule race_okI) (use retries_ended [OF ok(2), of p] retry_stopped(1,2) ok in \<open>simp_all add: end_retry_def\<close>)
next
  case (worker_over p R)
  note ok = race_okD [OF worker_over(3)]
  show ?case by (rule race_okI)
      (use workers_over [OF ok(1) worker_over(1,2)] ok(2,3)
        in \<open>simp_all add: finishOutboundServer_def modify_def finish_entry_def AList.delete_conv' split: if_splits\<close>)
next
  case (agent_swaps sid R q old s)
  note ok = race_okD [OF agent_swaps(2)]
  let ?m = "map_of (mainConnections (base R))" and ?c = "\<lparr>mc_server = sid, mc_closed = False\<rparr>"
  have "agents_ok (taken_of (?m sid) (closing R)) (managed (base R) @ [?c]) (?m(sid \<mapsto> length (managed (base R))))"
    using agents_added [OF agents_taken [OF ok(3), of sid], of sid ?c] by simp
  with agent_swaps(1) ok(1,2) show ?case by (intro race_okI) (auto simp: main_swap_def Let_def AList.update_conv')
next
  case (inbound_taken sid R old s)
  note ok = race_okD [OF inbound_taken(2)]
  from agents_taken [OF ok(3), of sid] inbound_taken(1) ok show ?case
    by (intro race_okI) (auto simp: main_take_def AList.delete_conv' fun_upd_idem split: if_splits option.splits)
next
  case (agent_ends p R)
  note ok = race_okD [OF agent_ends(2)]
  let ?k = "mc_server (managed (base R) ! p)"
  have "agents_ok (p # closing R) (managed (base R)) (map_of (mainConnections (snd (MainRemove ?k p (base R)))))"
    using agents_taken [OF ok(3), of ?k] agents_more [OF ok(3) agent_ends(1)]
    by (auto simp: MainRemove_def modify_def AList.delete_conv')
  with ok(1,2) show ?case by (intro race_okI) (auto simp: MainRemove_def modify_def AList.delete_conv' split: if_splits)
next
  case (closes p R)
  note ok = race_okD [OF closes(2)]
  show ?case by (rule race_okI) (use agents_closed [OF ok(3) closes(1)] ok in \<open>simp_all add: managed_Close_def\<close>)
next
  case (other_changes R d n)
  then show ?case by (simp add: race_ok_def)
qed

lemma race_reachable: "race_step\<^sup>*\<^sup>* (idle s0) R \<Longrightarrow> fresh_supervisor s0 \<Longrightarrow> race_ok R"
proof (induction rule: rtranclp_induct)
  case base
  then show ?case by (simp add: race_ok_def idle_def fresh_supervisor_def at_server_def workers_ok_def retries_ok_def agents_ok_def reg_ok_def)
qed (rule race_step_ok)

section \<open>The operations are runs of sections\<close>

text \<open>The holder of the lock of a server that waits for nothing.\<close>

definition holding :: "int \<Rightarrow> bool \<Rightarrow> bool \<Rightarrow> 's \<Rightarrow> 's race" where
  "holding sid b c s = \<lparr>base = s, holders = [lifecycleLock sid \<mapsto> \<lparr>h_server = sid, h_cancelled = b, h_clear = c, h_waits = None\<rparr>], closing = []\<rparr>"

abbreviation runs :: "'z connenv_scheme race \<Rightarrow> 'z connenv_scheme race \<Rightarrow> bool" where
  "runs \<equiv> race_step\<^sup>*\<^sup>*"

lemma runs_step: "race_step R S \<Longrightarrow> runs S T \<Longrightarrow> runs R T"
  by (rule converse_rtranclp_into_rtranclp)

text \<open>A part of an operation under the lock of its server, which leaves the retries of the server to others.\<close>

definition sections :: "int \<Rightarrow> ('z connenv_scheme, 'e, 'a) io \<Rightarrow> bool" where
  "sections sid m \<longleftrightarrow> (\<forall>b c s r t. conn_ok s \<longrightarrow> m s = (r, t) \<longrightarrow> conn_ok t \<and> (\<exists>c'. runs (holding sid b c s) (holding sid b c' t)))"

lemma sectionsI:
  assumes "\<And>b c s r t. conn_ok s \<Longrightarrow> m s = (r, t) \<Longrightarrow> conn_ok t \<and> (\<exists>c'. runs (holding sid b c s) (holding sid b c' t))"
  shows "sections sid m"
  using assms unfolding sections_def by blast

lemma sectionsD: "sections sid m \<Longrightarrow> conn_ok s \<Longrightarrow> m s = (r, t) \<Longrightarrow> conn_ok t \<and> (\<exists>c'. runs (holding sid b c s) (holding sid b c' t))"
  unfolding sections_def by blast

lemma sections_try:
  assumes m: "sections sid m" and f: "\<And>x. sections sid (f x)"
  shows "sections sid (tryE m f)"
proof (rule sectionsI)
  fix b c s r t
  assume s: "conn_ok s" and run: "tryE m f s = (r, t)"
  obtain q u where q: "m s = (q, u)" by fastforce
  from sectionsD [OF m s q] obtain c' where u: "conn_ok u" "runs (holding sid b c s) (holding sid b c' u)" by blast
  from run q have "f q u = (r, t)" by (simp add: tryE_run)
  from sectionsD [OF f u(1) this] u(2) show "conn_ok t \<and> (\<exists>c'. runs (holding sid b c s) (holding sid b c' t))"
    by (meson rtranclp_trans)
qed

lemma sections_ret: "sections sid (ret x)" "sections sid (raise e)" "sections sid (gets g)"
  by (auto simp: sections_def ret_def raise_def gets_def)

lemma sections_bind:
  assumes m: "sections sid m" and f: "\<And>x. sections sid (f x)"
  shows "sections sid (bindE m f)"
proof -
  have "bindE m f = tryE m (\<lambda>r. case r of Inl e \<Rightarrow> raise e | Inr x \<Rightarrow> f x)"
    by (auto simp: fun_eq_iff bindE_run tryE_run raise_def split: prod.split sum.split)
  then show ?thesis by (simp only:, intro sections_try [OF m]) (simp add: f sections_ret split: sum.split)
qed

lemma sections_if: "sections sid a \<Longrightarrow> sections sid b \<Longrightarrow> sections sid (if g then a else b)"
  by simp

lemma sections_case:
  "(\<And>e. sections sid (f e)) \<Longrightarrow> (\<And>x. sections sid (g x)) \<Longrightarrow> sections sid (case r of Inl e \<Rightarrow> f e | Inr x \<Rightarrow> g x)"
  "(\<And>x y. sections sid (k x y)) \<Longrightarrow> sections sid (case z of (x, y) \<Rightarrow> k x y)"
  by (simp_all split: sum.split prod.split)

lemma sections_query: "sections sid (query_db_row q)"
proof (rule sectionsI)
  fix b c r t and s :: "'z connenv_scheme"
  assume "conn_ok s" "query_db_row q s = (r, t)"
  moreover have "race_step (holding sid b c s) (on_base (\<lambda>u. u\<lparr>db := db s, calls := Suc (calls s)\<rparr>) (holding sid b c s))"
    by (rule other_changes)
  moreover have "on_base (\<lambda>u. u\<lparr>db := db s, calls := Suc (calls s)\<rparr>) (holding sid b c s) = holding sid b c (s\<lparr>calls := Suc (calls s)\<rparr>)"
    by (simp add: on_base_def holding_def)
  ultimately show "conn_ok t \<and> (\<exists>c'. runs (holding sid b c s) (holding sid b c' t))"
    by (auto simp: query_db_row_run)
qed

lemma sections_decrypt: "sections sid (hub_decrypt x y)" "sections sid (decrypt_nonempty x y)"
  by (auto simp: sections_def hub_decrypt_run decrypt_nonempty_run)

lemma holding_holds: "holds (holding sid b c s) \<lparr>h_server = sid, h_cancelled = b, h_clear = c, h_waits = None\<rparr>"
  by (simp add: holding_def)

lemma outbound_runs:
  assumes ok: "conn_ok s" and run: "stopOutboundServer sid s = (r, t)"
  shows "runs (holding sid b c s) (holding sid b True t)"
proof (cases "map_of (connectPool s) sid")
  case None
  with run have "t = s" by (simp add: stopOutboundServer_def bindE_run gets_def ret_def)
  with finds_none [OF holding_holds [of sid b c s]] None show ?thesis by (auto simp: holding_def with_holder_def)
next
  case (Some p)
  from ok have reg: "reg_ok entry_server (\<lambda>e. \<not> se_done e) (entries s) (map_of (connectPool s))" by (simp add: conn_ok_def)
  note p = reg_okD [OF reg Some]
  let ?R = "\<lambda>u. \<lparr>base = u, holders = [lifecycleLock sid \<mapsto> \<lparr>h_server = sid, h_cancelled = b, h_clear = False, h_waits = Some p\<rparr>], closing = []\<rparr>"
  let ?s1 = "take_outbound sid s" and ?h = "\<lparr>h_server = sid, h_cancelled = b, h_clear = False, h_waits = Some p\<rparr>"
  have h: "holds (?R u) ?h" for u :: "'a connenv_scheme" by simp
  have 1: "race_step (holding sid b c s) (?R ?s1)"
    using takes_outbound [OF holding_holds [of sid b c s], of p] Some by (simp add: holding_def with_holder_def on_base_def)
  have 2: "race_step (?R ?s1) (?R (cancel_entry p ?s1))" using cancels_worker [of "?R ?s1" ?h p] h by (simp add: on_base_def)
  have t: "t = snd (finishOutboundServer sid p (cancel_entry p ?s1))"
    using run Some by (simp add: stopOutboundServer_def bindE_run gets_def modify_def take_outbound_def finishOutboundServer_def)
  have "entry_server (entries (cancel_entry p ?s1) ! p) = sid" "\<not> se_done (entries (cancel_entry p ?s1) ! p)" "p < length (entries (cancel_entry p ?s1))"
    using p by (simp_all add: cancel_entry_def take_outbound_def)
  with worker_over [of p "?R (cancel_entry p ?s1)"] have 3: "race_step (?R (cancel_entry p ?s1)) (?R t)" by (simp add: on_base_def t)
  have "se_done (entries t ! p)" using p by (simp add: t finishOutboundServer_def modify_def finish_entry_def cancel_entry_def take_outbound_def)
  with waited [of "?R t" ?h p] h have 4: "race_step (?R t) (holding sid b True t)" by (simp add: holding_def with_holder_def)
  from 1 2 3 4 show ?thesis by (meson runs_step rtranclp.rtrancl_refl)
qed

lemma sections_outbound: "sections sid (stopOutboundServer sid)"
proof (rule sectionsI)
  fix b c r t and s :: "'z connenv_scheme"
  assume s: "conn_ok s" "stopOutboundServer sid s = (r, t)"
  from stopOutboundServer_slots [OF s(1), of sid] s(2) have "conn_ok t" by (auto simp: slots_def)
  with outbound_runs [OF s] show "conn_ok t \<and> (\<exists>c'. runs (holding sid b c s) (holding sid b c' t))" by blast
qed

lemma inbound_runs:
  assumes "MainClose k s = (r, t)"
  shows "runs (R\<lparr>base := s, closing := []\<rparr>) (R\<lparr>base := t, closing := []\<rparr>)"
proof (cases "map_of (mainConnections s) k")
  case None
  with assms show ?thesis by (simp add: MainClose_eq modify_def)
next
  case (Some p)
  let ?s = "s\<lparr>mainConnections := AList.delete k (mainConnections s)\<rparr>"
  have "race_step (R\<lparr>base := s, closing := []\<rparr>) (R\<lparr>base := ?s, closing := [p]\<rparr>)"
    using inbound_taken [of k "R\<lparr>base := s, closing := []\<rparr>" "Some p" ?s] Some by (simp add: main_take_def)
  moreover have "race_step (R\<lparr>base := ?s, closing := [p]\<rparr>) (R\<lparr>base := t, closing := []\<rparr>)"
    using closes [of p "R\<lparr>base := ?s, closing := [p]\<rparr>"] assms Some by (simp add: MainClose_eq modify_def)
  ultimately show ?thesis by (meson runs_step rtranclp.rtrancl_refl)
qed

lemma sections_inbound: "sections sid (stopInboundServer sid)"
proof (rule sectionsI)
  fix b c r t and s :: "'z connenv_scheme"
  assume s: "conn_ok s" "stopInboundServer sid s = (r, t)"
  from stopInboundServer_slots [OF s(1), of sid] s(2) have "conn_ok t" by (auto simp: slots_def)
  moreover have "MainClose sid s = (r, t)" using s(2) by (simp add: stopInboundServer_def)
  from inbound_runs [OF this, of "holding sid b c s"] have "runs (holding sid b c s) (holding sid b c t)" by (simp add: holding_def)
  ultimately show "conn_ok t \<and> (\<exists>c'. runs (holding sid b c s) (holding sid b c' t))" by blast
qed

lemma sections_register:
  assumes w: "work_server w = sid"
  shows "sections sid (register_worker sid w)"
proof (rule sectionsI)
  fix b c r t and s :: "'z connenv_scheme"
  assume s: "conn_ok s" "register_worker sid w s = (r, t)"
  obtain q u where u: "stopOutboundServer sid s = (q, u)" by fastforce
  from stopOutboundServer_slots [OF s(1), of sid] u have q: "q = Inr ()" by auto
  from s(2) u q have t: "t = add_worker sid w u" by (simp add: register_worker_def bindE_run modify_def add_worker_def)
  have "race_step (holding sid b True u) (holding sid b False t)"
    using registers [OF holding_holds [of sid b True u], of w] w by (simp add: holding_def with_holder_def on_base_def t)
  with outbound_runs [OF s(1) u, of b c] have "runs (holding sid b c s) (holding sid b False t)" by simp
  moreover from register_worker_slots [OF s(1) w] s(2) have "conn_ok t" by (auto simp: slots_def)
  ultimately show "conn_ok t \<and> (\<exists>c'. runs (holding sid b c s) (holding sid b c' t))" by blast
qed

lemmas sections_rules = sections_bind sections_try sections_if sections_case sections_ret sections_query sections_decrypt
  sections_outbound sections_inbound sections_register

lemma sections_reconcile: "sections sid (reconcileServer sid)"
proof -
  have start: "sections sid (startServer sid mode allow)" for mode allow
    unfolding startServer_def start_ssh_def start_active_def by (intro sections_rules) simp_all
  have stop: "sections sid (stopServer sid)" unfolding stopServer_def by (intro sections_rules)
  have connect: "sections sid (connect_by_mode sid mode allow)" for mode allow
    unfolding connect_by_mode_def by (intro sections_rules start stop)
  have "sections sid (reconcile_unmonitored sid mode)" for mode
    unfolding reconcile_unmonitored_def by (intro sections_rules stop connect)
  then show ?thesis unfolding reconcileServer_def by (intro sections_rules stop connect)
qed

lemma lock_runs: "race_step (idle s) (holding sid False False s)"
  using locks [of "idle s" sid] by (simp add: idle_def holding_def with_holder_def new_holder_def)

lemma unlock_runs: "race_step (holding sid b c s) (idle s)"
  using unlocks [OF holding_holds [of sid b c s]] by (simp add: idle_def holding_def unlocked_def)

lemma under_lock: "runs (holding sid False False s) (holding sid b c t) \<Longrightarrow> runs (idle s) (idle t)"
  by (meson lock_runs unlock_runs runs_step rtranclp.rtrancl_into_rtrancl)

lemma cancel_runs:
  "cancelReconcileRetry sid s = (r, t) \<Longrightarrow> race_step (holding sid b c s) (holding sid True c t)"
  using cancels_retry [OF holding_holds [of sid b c s]] by (auto simp: holding_def with_holder_def on_base_def)

lemma start_retry_runs: "startReconcileRetry sid s = (r, t) \<Longrightarrow> race_step (holding sid True c s) (holding sid False c t)"
  using starts_retry [OF holding_holds [of sid True c s]] by (auto simp: holding_def with_holder_def on_base_def)

lemma ReconcileServer_runs:
  assumes ok: "conn_ok s"
  shows "runs (idle s) (idle (snd (ReconcileServer sid s)))"
proof -
  obtain s1 where s1: "cancelReconcileRetry sid s = (Inr (), s1)" "conn_ok s1"
    using cancelReconcileRetry_slots [OF ok, of sid] by (auto simp: slots_def)
  obtain q u where q: "reconcileServer sid s1 = (q, u)" by fastforce
  from sectionsD [OF sections_reconcile s1(2) q, of True False] obtain c where "runs (holding sid True False s1) (holding sid True c u)" by blast
  with cancel_runs [OF s1(1), of False False] have u: "runs (holding sid False False s) (holding sid True c u)" by (rule runs_step)
  show ?thesis
  proof (cases q)
    case (Inr x)
    with q s1(1) under_lock [OF u] show ?thesis by (simp add: ReconcileServer_def bindE_run tryE_run ret_def)
  next
    case (Inl e)
    obtain r v where v: "startReconcileRetry sid u = (r, v)" by fastforce
    have "snd (ReconcileServer sid s) = v"
      using Inl q s1(1) v by (auto simp: ReconcileServer_def bindE_run tryE_run raise_def startReconcileRetry_def modify_def)
    moreover have "runs (holding sid False False s) (holding sid False c v)" by (rule rtranclp.rtrancl_into_rtrancl [OF u start_retry_runs [OF v]])
    ultimately show ?thesis using under_lock by metis
  qed
qed

lemma StopServer_runs:
  assumes ok: "conn_ok s"
  shows "runs (idle s) (idle (snd (StopServer sid s)))"
proof -
  obtain s1 where s1: "cancelReconcileRetry sid s = (Inr (), s1)" "conn_ok s1"
    using cancelReconcileRetry_slots [OF ok, of sid] by (auto simp: slots_def)
  obtain q u where q: "stopServer sid s1 = (q, u)" by fastforce
  have "sections sid (stopServer sid :: ('a, unit) conn_io)" unfolding stopServer_def by (intro sections_rules)
  from sectionsD [OF this s1(2) q, of True False] obtain c where "runs (holding sid True False s1) (holding sid True c u)" by blast
  with cancel_runs [OF s1(1), of False False] have "runs (holding sid False False s) (holding sid True c u)" by (rule runs_step)
  from under_lock [OF this] q s1(1) show ?thesis by (simp add: StopServer_def bindE_run)
qed

lemma retry_round_runs:
  assumes ok: "conn_ok s" and p: "p < length (retries s)"
  shows "runs (idle s) (idle (snd (retry_round p s)))"
proof -
  let ?k = "rr_server (retries s ! p)"
  show ?thesis
  proof (cases "rr_canceled (retries s ! p) \<or> pending_retry s ?k \<noteq> Some p")
    case True
    then have "snd (retry_round p s) = end_retry p s" by (auto simp: retry_round_def bindE_run gets_def modify_def)
    moreover have "race_step (holding ?k False False s) (holding ?k False False (end_retry p s))"
      using retry_gives_up [OF holding_holds [of ?k False False s], of p] p True by (simp add: holding_def on_base_def)
    ultimately show ?thesis using under_lock [OF r_into_rtranclp] by metis
  next
    case False
    then have reg: "pending_retry s ?k = Some p" by simp
    obtain q u where q: "reconcileServer ?k s = (q, u)" by fastforce
    from sectionsD [OF sections_reconcile ok q, of False False] obtain c where u: "conn_ok u" "runs (holding ?k False False s) (holding ?k False c u)" by blast
    from reconcileServer_reconciled [OF ok q] reg have pu: "pending_retry u ?k = Some p" by (auto simp: reconciled_def slots_def split: sum.splits)
    have "reg_ok rr_server retry_live (retries u) (map_of (reconcileRetries u))" using u(1) by (simp add: conn_ok_def)
    note p' = reg_okD [OF this pu]
    have "race_step (holding ?k False c u) (holding ?k False c (snd (retry_round p s)))"
    proof (cases q)
      case (Inr x)
      have "snd (retry_round p s) = retry_over p u"
        using False q Inr p'(2) by (auto simp: retry_round_def bindE_run gets_def modify_def tryE_run retry_over_def)
      with retry_succeeds [OF holding_holds [of ?k False c u], of p] p' show ?thesis by (simp add: holding_def on_base_def)
    next
      case (Inl e)
      have "snd (retry_round p s) = count_failure p u"
        using False q Inl by (auto simp: retry_round_def bindE_run gets_def modify_def tryE_run)
      with retry_fails [OF holding_holds [of ?k False c u], of p] p' show ?thesis by (simp add: holding_def on_base_def)
    qed
    with u(2) have "runs (holding ?k False False s) (holding ?k False c (snd (retry_round p s)))" by simp
    then show ?thesis by (rule under_lock)
  qed
qed

lemma MainSet_runs: "runs (idle s) (idle (snd (MainSet sid s)))"
proof -
  obtain q old t where swap: "main_swap sid s = (Inr (q, old), t)" by (auto simp: main_swap_def Let_def)
  have 1: "race_step (idle s) ((idle t)\<lparr>closing := taken_of old []\<rparr>)"
    using agent_swaps [of sid "idle s" q old t] swap by (simp add: idle_def cong: option.case_cong)
  show ?thesis
  proof (cases old)
    case None
    with 1 swap show ?thesis by (auto simp: MainSet_def bindE_run close_taken_def ret_def idle_def)
  next
    case (Some p)
    then have "race_step ((idle t)\<lparr>closing := taken_of old []\<rparr>) (idle (snd (MainSet sid s)))"
      using closes [of p "(idle t)\<lparr>closing := taken_of old []\<rparr>"] swap
      by (simp add: MainSet_def bindE_run close_taken_def ret_def modify_def idle_def)
    with 1 show ?thesis by (meson runs_step rtranclp.rtrancl_refl)
  qed
qed

lemma passive_end_runs:
  assumes "p < length (managed s)"
  shows "runs (idle s) (idle (snd (passive_end p s)))"
proof -
  let ?t = "snd (MainRemove (mc_server (managed s ! p)) p s)"
  have "race_step (idle s) ((idle ?t)\<lparr>closing := [p]\<rparr>)" using agent_ends [of p "idle s"] assms by (simp add: idle_def)
  moreover have "race_step ((idle ?t)\<lparr>closing := [p]\<rparr>) (idle (snd (passive_end p s)))"
    using closes [of p "(idle ?t)\<lparr>closing := [p]\<rparr>"] by (simp add: passive_end_def bindE_run gets_def modify_def MainRemove_def idle_def)
  ultimately show ?thesis by (meson runs_step rtranclp.rtrancl_refl)
qed

text \<open>
  The interleavings of sections include every operation of the supervisor: from a consistent state with nobody in an
  operation, each operation that runs as a whole is a run of sections that ends with nobody in one, all locks released and
  nothing left to close.
\<close>

theorem operations_are_sections:
  assumes "conn_ok s" "conn_step s t"
  shows "race_step\<^sup>*\<^sup>* (idle s) (idle t)"
  using assms(2,1)
proof (induction rule: conn_step.induct)
  case (worker_ends p s)
  with worker_over [of p "idle s"] show ?case by (auto simp: idle_def on_base_def)
next
  case (retry_stops p s)
  with retry_stopped [of p "idle s"] show ?case by (auto simp: idle_def on_base_def retry_canceled_def modify_def)
next
  case (tables_change s d)
  have "on_base (\<lambda>u. u\<lparr>db := d, calls := calls s\<rparr>) (idle s) = idle (s\<lparr>db := d\<rparr>)" by (simp add: idle_def on_base_def)
  with other_changes [of "idle s" "calls s" d] show ?case by auto
qed (simp_all add: ReconcileServer_runs StopServer_runs retry_round_runs MainSet_runs passive_end_runs)

text \<open>
  (C15) In every state the supervisor reaches, under every interleaving of the sections of its goroutines: a server has at
  most one worker that is not done, and it is the registered one or one the holder of the server's lifecycle lock has taken
  out and waits for; every retry that can still fire is the registered one; and an open connection of an agent is the registered one
  or was taken out of the registry by a goroutine that is about to close it. What is registered is running, able to
  fire, or open and not about to be closed.
\<close>

theorem at_most_one_connection:
  assumes "fresh_supervisor s0" "race_step\<^sup>*\<^sup>* (idle s0) R"
  shows "(\<forall>p < length (entries (base R)). \<not> se_done (entries (base R) ! p) \<longrightarrow>
       (let k = entry_server (entries (base R) ! p) in
        (map_of (connectPool (base R)) k = Some p \<or> awaited R k = Some p) \<and>
        (\<forall>q < length (entries (base R)). entry_server (entries (base R) ! q) = k \<longrightarrow> \<not> se_done (entries (base R) ! q) \<longrightarrow> q = p))) \<and>
    (\<forall>p < length (retries (base R)). retry_live (retries (base R) ! p) \<longrightarrow> pending_retry (base R) (rr_server (retries (base R) ! p)) = Some p) \<and>
    (\<forall>p < length (managed (base R)). \<not> mc_closed (managed (base R) ! p) \<longrightarrow>
       inbound (base R) (mc_server (managed (base R) ! p)) = Some p \<or> p \<in> set (closing R)) \<and>
    (\<forall>k p. map_of (connectPool (base R)) k = Some p \<longrightarrow> \<not> se_done (entries (base R) ! p)) \<and>
    (\<forall>k p. pending_retry (base R) k = Some p \<longrightarrow> retry_live (retries (base R) ! p)) \<and>
    (\<forall>k p. inbound (base R) k = Some p \<longrightarrow> \<not> mc_closed (managed (base R) ! p) \<and> p \<notin> set (closing R))"
proof -
  note ok = race_okD [OF race_reachable [OF assms(2,1)]]
  from ok(2) have r: "reg_ok rr_server retry_live (retries (base R)) (map_of (reconcileRetries (base R)))" by (simp add: retries_ok_def)
  have one: "q = p" if "p < length (entries (base R))" "\<not> se_done (entries (base R) ! p)" "q < length (entries (base R))" "\<not> se_done (entries (base R) ! q)"
    "entry_server (entries (base R) ! q) = entry_server (entries (base R) ! p)" for p q
  proof -
    let ?k = "entry_server (entries (base R) ! p)"
    have "map_of (connectPool (base R)) ?k = None" if "awaited R ?k = Some x" for x
      using that workers_okD(3) [OF ok(1)] by (auto split: Option.bind_splits)
    with workers_okD(1) [OF ok(1) that(1,2)] workers_okD(1) [OF ok(1) that(3,4)] that(5) show ?thesis by auto
  qed
  show ?thesis unfolding Let_def
    by (intro conjI allI impI)
      (use workers_okD(1,2) [OF ok(1)] one reg_ok_live [OF r] reg_okD(3) [OF r] agents_okD(1,2) [OF ok(3)] in blast)+
qed

section \<open>A sample race\<close>

text \<open>The agent of a server connects a second time; the first connection is replaced and still open.\<close>

definition sample_race :: "connenv race" where
  "sample_race = \<lparr>base = snd (main_swap 5 (snd (main_swap 5 sample_start))), holders = (\<lambda>_. None), closing = [0]\<rparr>"

lemma sample_race_runs: "race_step\<^sup>*\<^sup>* (idle sample_start) sample_race"
proof -
  let ?s = "snd (main_swap 5 sample_start)"
  have "race_step (idle sample_start) (idle ?s)"
    using agent_swaps [of 5 "idle sample_start" 0 None ?s] by (simp add: idle_def main_swap_def Let_def sample_supervisor_def)
  moreover have "race_step (idle ?s) sample_race"
    using agent_swaps [of 5 "idle ?s" 1 "Some 0" "snd (main_swap 5 ?s)"]
    by (simp add: idle_def main_swap_def Let_def sample_supervisor_def sample_race_def)
  ultimately show ?thesis by (meson runs_step rtranclp.rtrancl_refl)
qed

theorem at_most_one_connection_witness:
  "\<not> mc_closed (managed (base sample_race) ! 0) \<and> \<not> mc_closed (managed (base sample_race) ! 1) \<and>
   inbound (base sample_race) 5 = Some 1 \<and> 1 \<notin> set (closing sample_race) \<and>
   (inbound (base sample_race) (mc_server (managed (base sample_race) ! 0)) = Some 0 \<or> 0 \<in> set (closing sample_race))"
proof -
  note inv = at_most_one_connection [OF sample_start_fresh sample_race_runs]
  have i: "inbound (base sample_race) 5 = Some 1" "\<not> mc_closed (managed (base sample_race) ! 0)" "0 < length (managed (base sample_race))" by code_simp+
  from inv i(1) have "\<not> mc_closed (managed (base sample_race) ! 1) \<and> 1 \<notin> set (closing sample_race)" by blast
  moreover from inv i(2,3) have "inbound (base sample_race) (mc_server (managed (base sample_race) ! 0)) = Some 0 \<or> 0 \<in> set (closing sample_race)" by blast
  ultimately show ?thesis using i by blast
qed

theorem operations_are_sections_witness:
  "race_step\<^sup>*\<^sup>* (idle sample_start) (idle (snd (ReconcileServer 5 sample_start))) \<and>
   length (entries (snd (ReconcileServer 5 sample_start))) = 1"
proof
  show "race_step\<^sup>*\<^sup>* (idle sample_start) (idle (snd (ReconcileServer 5 sample_start)))"
    by (rule operations_are_sections [OF fresh_supervisor_ok [OF sample_start_fresh] conn_step.reconcile])
  show "length (entries (snd (ReconcileServer 5 sample_start))) = 1" by code_simp
qed

end
