(* ===== verification/Terminal_Sessions.thy ===== *)
theory Terminal_Sessions
  imports Prelude
begin

text \<open>
  The rendezvous of a user's terminal with the agent that serves it
  (\<open>internal/app/agent/connection/user.go\<close>): a session waits under its id, is taken by an agent of its
  server, or is removed when its timer fires or its user leaves.
\<close>

declare map_of_eq_Some_iff [simp del]

section \<open>Terminal sessions: internal/app/agent/connection/user.go\<close>

record sessionInfo =
  si_session :: string
  si_server :: int
  si_timer_stopped :: bool
  si_done :: bool

record sessions =
  infos :: "sessionInfo list"
  sessionConnections :: "(string, nat) table"

text \<open>The body of \<open>once.Do\<close> runs at the first call only; it closes the connection.\<close>

definition closeUserSession :: "nat \<Rightarrow> sessions \<Rightarrow> sessions" where
  "closeUserSession p s = s\<lparr>infos := (infos s)[p := (infos s ! p)\<lparr>si_timer_stopped := True, si_done := True\<rparr>]\<rparr>"

definition userSet :: "string \<Rightarrow> int \<Rightarrow> sessions \<Rightarrow> nat \<times> sessions" where
  "userSet sessionID serverID s =
     (let p = length (infos s);
          t = s\<lparr>infos := infos s @ [\<lparr>si_session = sessionID, si_server = serverID, si_timer_stopped = False, si_done = False\<rparr>],
                sessionConnections := AList.update sessionID p (sessionConnections s)\<rparr> in
      (p, case map_of (sessionConnections s) sessionID of None \<Rightarrow> t | Some old \<Rightarrow> closeUserSession old t))"

definition UserTake :: "string \<Rightarrow> int \<Rightarrow> sessions \<Rightarrow> nat option \<times> sessions" where
  "UserTake sessionID serverID s =
     (case map_of (sessionConnections s) sessionID of
        None \<Rightarrow> (None, s)
      | Some p \<Rightarrow>
          if si_server (infos s ! p) \<noteq> serverID then (None, s)
          else (Some p, s\<lparr>sessionConnections := AList.delete sessionID (sessionConnections s),
                          infos := (infos s)[p := (infos s ! p)\<lparr>si_timer_stopped := True\<rparr>]\<rparr>))"

definition removeUserSession :: "string \<Rightarrow> nat \<Rightarrow> sessions \<Rightarrow> sessions" where
  "removeUserSession sessionID expected s =
     (if map_of (sessionConnections s) sessionID \<noteq> Some expected then s
      else closeUserSession expected (s\<lparr>sessionConnections := AList.delete sessionID (sessionConnections s)\<rparr>))"

text \<open>
  A session waits; an agent takes it; its timer fires or its user's handler ends (both remove
  it); whoever took it closes it.
\<close>

inductive session_step :: "sessions \<Rightarrow> sessions \<Rightarrow> bool" where
  waits: "session_step s (snd (userSet sid srv s))"
| taken: "session_step s (snd (UserTake sid srv s))"
| removed: "p < length (infos s) \<Longrightarrow> session_step s (removeUserSession (si_session (infos s ! p)) p s)"
| closed: "p < length (infos s) \<Longrightarrow> p \<notin> ran (map_of (sessionConnections s)) \<Longrightarrow> session_step s (closeUserSession p s)"

definition sessions_ok :: "sessions \<Rightarrow> bool" where
  "sessions_ok s \<longleftrightarrow> (\<forall>sid p. map_of (sessionConnections s) sid = Some p \<longrightarrow>
     p < length (infos s) \<and> si_session (infos s ! p) = sid \<and> \<not> si_done (infos s ! p))"

definition empty_sessions :: sessions where
  "empty_sessions = \<lparr>infos = [], sessionConnections = []\<rparr>"

lemma close_unregistered:
  "sessions_ok s \<Longrightarrow> p \<notin> ran (map_of (sessionConnections s)) \<Longrightarrow> sessions_ok (closeUserSession p s)"
  by (auto simp: closeUserSession_def sessions_ok_def nth_upd ran_def)

lemma delete_session:
  assumes ok: "sessions_ok s" and m: "map_of (sessionConnections s) sid = Some p"
  shows "sessions_ok (s\<lparr>sessionConnections := AList.delete sid (sessionConnections s)\<rparr>)"
    "p \<notin> ran (map_of (AList.delete sid (sessionConnections s)))"
proof -
  show "sessions_ok (s\<lparr>sessionConnections := AList.delete sid (sessionConnections s)\<rparr>)"
    using ok by (simp add: sessions_ok_def AList.delete_conv')
  have "k = sid" if "map_of (sessionConnections s) k = Some p" for k
    using ok m that unfolding sessions_ok_def by metis
  then show "p \<notin> ran (map_of (AList.delete sid (sessionConnections s)))"
    by (auto simp: ran_def AList.delete_conv' split: if_splits)
qed

lemma userSet_ok:
  assumes ok: "sessions_ok s"
  shows "sessions_ok (snd (userSet sid srv s))"
proof -
  let ?x = "\<lparr>si_session = sid, si_server = srv, si_timer_stopped = False, si_done = False\<rparr>"
  let ?t = "s\<lparr>infos := infos s @ [?x], sessionConnections := AList.update sid (length (infos s)) (sessionConnections s)\<rparr>"
  have reg: "p < length (infos s) \<and> si_session (infos s ! p) = k \<and> \<not> si_done (infos s ! p)" if "map_of (sessionConnections s) k = Some p" for k p
    using ok that by (simp add: sessions_ok_def)
  have t: "sessions_ok ?t"
    unfolding sessions_ok_def
  proof (intro allI impI)
    fix k p
    assume "map_of (sessionConnections ?t) k = Some p"
    then show "p < length (infos ?t) \<and> si_session (infos ?t ! p) = k \<and> \<not> si_done (infos ?t ! p)"
      using reg [of k p] by (auto simp: AList.update_conv' nth_append split: if_splits)
  qed
  show ?thesis
  proof (cases "map_of (sessionConnections s) sid")
    case None
    with t show ?thesis by (simp add: userSet_def Let_def)
  next
    case (Some old)
    have "old \<notin> ran (map_of (sessionConnections ?t))"
      using reg [OF Some] reg by (auto simp: ran_def AList.update_conv' split: if_splits)
    from close_unregistered [OF t this] Some show ?thesis by (simp add: userSet_def Let_def)
  qed
qed

lemma session_step_ok: "session_step s t \<Longrightarrow> sessions_ok s \<Longrightarrow> sessions_ok t"
proof (induction rule: session_step.induct)
  case (waits s sid srv)
  then show ?case by (rule userSet_ok)
next
  case (taken s sid srv)
  then show ?case
    by (auto simp: UserTake_def sessions_ok_def nth_upd AList.delete_conv' split: option.splits if_splits)
next
  case (removed p s)
  then show ?case
    using delete_session [OF removed(2), of _ p] by (simp add: removeUserSession_def close_unregistered)
next
  case (closed p s)
  then show ?case by (simp add: close_unregistered)
qed

lemma session_step_gone:
  "session_step s t \<Longrightarrow> p < length (infos s) \<Longrightarrow> p \<notin> ran (map_of (sessionConnections s)) \<Longrightarrow>
     p < length (infos t) \<and> p \<notin> ran (map_of (sessionConnections t))"
proof (induction rule: session_step.induct)
  case (waits s sid srv)
  then show ?case
    by (auto simp: userSet_def Let_def closeUserSession_def AList.update_conv' ran_def split: option.splits if_splits)
next
  case (taken s sid srv)
  then show ?case by (auto simp: UserTake_def AList.delete_conv' ran_def split: option.splits if_splits)
next
  case (removed q s)
  then show ?case by (auto simp: removeUserSession_def closeUserSession_def AList.delete_conv' ran_def split: if_splits)
next
  case (closed q s)
  then show ?case by (simp add: closeUserSession_def)
qed

lemma sessions_reachable: "session_step\<^sup>*\<^sup>* empty_sessions s \<Longrightarrow> sessions_ok s"
proof (induction rule: rtranclp_induct)
  case base
  show ?case by (simp add: sessions_ok_def empty_sessions_def)
qed (rule session_step_ok)

lemma session_gone_stays:
  "session_step\<^sup>*\<^sup>* s t \<Longrightarrow> p < length (infos s) \<Longrightarrow> p \<notin> ran (map_of (sessionConnections s)) \<Longrightarrow>
     p < length (infos t) \<and> p \<notin> ran (map_of (sessionConnections t))"
  by (induction rule: rtranclp_induct) (use session_step_gone in blast)+

text \<open>
  (C38) A waiting terminal is handed to at most one agent, and only to one of its own server: what
  \<open>UserTake\<close> returns is the open session of that name for that server, and no later call, after
  whatever else happens, returns the same session again.
\<close>

theorem session_handed_once:
  assumes reach: "session_step\<^sup>*\<^sup>* empty_sessions s" and take: "UserTake sid srv s = (Some p, t)"
    and later: "session_step\<^sup>*\<^sup>* t u"
  shows "si_session (infos s ! p) = sid \<and> si_server (infos s ! p) = srv \<and> \<not> si_done (infos s ! p) \<and>
    fst (UserTake sid' srv' u) \<noteq> Some p"
proof -
  note ok = sessions_reachable [OF reach]
  from take have m: "map_of (sessionConnections s) sid = Some p" and srv: "si_server (infos s ! p) = srv"
    and t: "t = s\<lparr>sessionConnections := AList.delete sid (sessionConnections s), infos := (infos s)[p := (infos s ! p)\<lparr>si_timer_stopped := True\<rparr>]\<rparr>"
    by (auto simp: UserTake_def split: option.splits if_splits)
  from ok m have p: "p < length (infos s)" "si_session (infos s ! p) = sid" "\<not> si_done (infos s ! p)"
    by (auto simp: sessions_ok_def)
  have "p \<notin> ran (map_of (sessionConnections t))"
    using ok p(2) by (auto simp: t ran_def AList.delete_conv' sessions_ok_def split: if_splits)
  with session_gone_stays [OF later, of p] p(1) t have "p \<notin> ran (map_of (sessionConnections u))" by simp
  then have "fst (UserTake sid' srv' u) \<noteq> Some p" by (auto simp: UserTake_def ran_def split: option.splits if_splits)
  with p srv show ?thesis by simp
qed

theorem session_handed_once_witness:
  "UserTake ''s'' 5 (snd (userSet ''s'' 5 empty_sessions)) =
     (Some 0, snd (UserTake ''s'' 5 (snd (userSet ''s'' 5 empty_sessions)))) \<and>
   fst (UserTake ''s'' 5 (snd (UserTake ''s'' 5 (snd (userSet ''s'' 5 empty_sessions))))) \<noteq> Some 0"
proof -
  let ?s = "snd (userSet ''s'' 5 empty_sessions)"
  have reach: "session_step\<^sup>*\<^sup>* empty_sessions ?s" by (meson session_step.waits r_into_rtranclp)
  have "fst (UserTake ''s'' 5 ?s) = Some 0" by code_simp
  then have t: "UserTake ''s'' 5 ?s = (Some 0, snd (UserTake ''s'' 5 ?s))" by (metis prod.collapse)
  from session_handed_once [OF reach t rtranclp.rtrancl_refl, of "''s''" 5] t show ?thesis by blast
qed

end
