(* ===== verification/Audit_Log.thy ===== *)
theory Audit_Log
  imports Prelude World "HOL-Library.Word" "HOL-Library.Sublist"
begin

text \<open>
  The audit log: \<open>internal/influx/log_add.go\<close>. Handlers put events into a bounded queue, a
  goroutine writes them to the \<open>logs\<close> bucket with retries, and a shutdown lets it finish. The
  counters are the 64-bit atomics of the code. What the bucket holds is kept beside the processor.
\<close>

unbundle bit_operations_syntax

section \<open>Events and the processor\<close>

record auditLogEvent =
  ae_team :: int
  ae_user :: int
  ae_category :: string
  ae_message :: string
  ae_ip :: string
  ae_ua :: string
  ae_level :: string
  ae_occurred :: go_time

record AuditLogQueueStats =
  Enqueued :: "64 word"
  Written :: "64 word"
  Retried :: "64 word"
  StatFailed :: "64 word"
  Dropped :: "64 word"

text \<open>
  \<open>ap_current\<close> is the event \<open>writeWithRetry\<close> works on; \<open>ap_draining\<close> holds from the moment the
  worker empties the queue after its context was canceled.
\<close>

record auditLogProcessor =
  ap_queue :: "auditLogEvent list"
  ap_size :: nat
  ap_attempts :: nat
  ap_high_timeout :: duration
  ap_canceled :: bool
  ap_done :: bool
  ap_accepting :: bool
  ap_current :: "auditLogEvent option"
  ap_draining :: bool
  ap_stats :: AuditLogQueueStats
  ap_bucket :: "auditLogEvent list"

definition no_stats :: AuditLogQueueStats where
  "no_stats = \<lparr>Enqueued = 0, Written = 0, Retried = 0, StatFailed = 0, Dropped = 0\<rparr>"

definition newAuditLogProcessor :: "nat \<Rightarrow> nat \<Rightarrow> duration \<Rightarrow> auditLogProcessor" where
  "newAuditLogProcessor queueSize writeAttempts highEnqueueTimeout =
     \<lparr>ap_queue = [], ap_size = queueSize, ap_attempts = writeAttempts, ap_high_timeout = highEnqueueTimeout,
      ap_canceled = False, ap_done = False, ap_accepting = True, ap_current = None, ap_draining = False,
      ap_stats = no_stats, ap_bucket = []\<rparr>"

definition startAuditLogProcessor :: auditLogProcessor where
  "startAuditLogProcessor = newAuditLogProcessor 1024 3 250000000"

definition shouldReportCount :: "64 word \<Rightarrow> bool" where
  "shouldReportCount count \<longleftrightarrow> count = 1 \<or> count AND (count - 1) = 0"

definition recordDrop :: "auditLogProcessor \<Rightarrow> auditLogProcessor" where
  "recordDrop p = p\<lparr>ap_stats := (ap_stats p)\<lparr>Dropped := Dropped (ap_stats p) + 1\<rparr>\<rparr>"

definition send :: "auditLogEvent \<Rightarrow> auditLogProcessor \<Rightarrow> auditLogProcessor" where
  "send e p = p\<lparr>ap_queue := ap_queue p @ [e], ap_stats := (ap_stats p)\<lparr>Enqueued := Enqueued (ap_stats p) + 1\<rparr>\<rparr>"

text \<open>
  The branch the \<open>select\<close> of an event of level high takes. It may take the first only when the
  queue has room and the last only when the context is canceled.
\<close>

datatype select_branch = SelectSend | SelectTimer | SelectStopped

fun branch_ready :: "select_branch \<Rightarrow> auditLogProcessor \<Rightarrow> bool" where
  "branch_ready SelectSend p \<longleftrightarrow> length (ap_queue p) < ap_size p"
| "branch_ready SelectTimer p \<longleftrightarrow> True"
| "branch_ready SelectStopped p \<longleftrightarrow> ap_canceled p"

definition enqueue :: "select_branch \<Rightarrow> auditLogEvent \<Rightarrow> auditLogProcessor \<Rightarrow> bool \<times> auditLogProcessor" where
  "enqueue br e p =
     (if \<not> ap_accepting p then (False, recordDrop p)
      else if ae_level e = ''high'' \<and> ap_high_timeout p > 0 then
        (if br = SelectSend then (True, send e p) else (False, recordDrop p))
      else if length (ap_queue p) < ap_size p then (True, send e p)
      else (False, recordDrop p))"

text \<open>An attempt to write: the context ends during the delay before it, its outcome, the context has ended after it.\<close>

record attempt =
  at_delay_canceled :: bool
  at_outcome :: outcome
  at_canceled :: bool

datatype write_result = WriteOk | WriteCanceled | WriteFailed

text \<open>The result with the number of retries and the number of points that reached the bucket.\<close>

fun write_attempts :: "(nat \<Rightarrow> attempt) \<Rightarrow> nat \<Rightarrow> nat \<Rightarrow> write_result \<Rightarrow> write_result \<times> nat \<times> nat" where
  "write_attempts tr k 0 lastErr = (lastErr, 0, 0)"
| "write_attempts tr k (Suc n) lastErr =
     (let retried = (if k > 1 then 1 else 0) in
      if k > 1 \<and> at_delay_canceled (tr k) then (WriteCanceled, retried, 0)
      else if at_outcome (tr k) = Done then (WriteOk, retried, 1)
      else
        let stored = (if at_outcome (tr k) = Lost then 1 else 0) in
        if at_canceled (tr k) then (WriteCanceled, retried, stored)
        else case write_attempts tr (Suc k) n WriteFailed of
          (res, r, c) \<Rightarrow> (res, retried + r, stored + c))"

definition writeWithRetry :: "(nat \<Rightarrow> attempt) \<Rightarrow> auditLogProcessor \<Rightarrow> write_result \<times> nat \<times> nat" where
  "writeWithRetry tr p = write_attempts tr 1 (ap_attempts p) WriteOk"

text \<open>\<open>retryDelay * 1<<(attempt-2)\<close> before the attempt\<close>

definition retry_wait :: "duration \<Rightarrow> nat \<Rightarrow> duration" where
  "retry_wait retryDelay attempt = retryDelay * 2 ^ (attempt - 2)"

definition finish_write :: "(nat \<Rightarrow> attempt) \<Rightarrow> auditLogEvent \<Rightarrow> auditLogProcessor \<Rightarrow> auditLogProcessor" where
  "finish_write tr e p =
     (case writeWithRetry tr p of (res, r, c) \<Rightarrow>
      let st = (ap_stats p)\<lparr>Retried := Retried (ap_stats p) + of_nat r\<rparr>;
          q = p\<lparr>ap_current := None, ap_bucket := ap_bucket p @ replicate c e\<rparr> in
      if res = WriteOk then q\<lparr>ap_stats := st\<lparr>Written := Written st + 1\<rparr>\<rparr>
      else q\<lparr>ap_stats := st\<lparr>StatFailed := StatFailed st + 1\<rparr>, ap_draining := ap_canceled p\<rparr>)"

text \<open>One step of the goroutine; it blocks while the queue is empty and open.\<close>

definition run_step :: "(nat \<Rightarrow> attempt) \<Rightarrow> auditLogProcessor \<Rightarrow> auditLogProcessor option" where
  "run_step tr p =
     (if ap_done p then None
      else case ap_current p of
        Some e \<Rightarrow> Some (finish_write tr e p)
      | None \<Rightarrow> (case ap_queue p of
          e # q \<Rightarrow> if ap_draining p then Some (p\<lparr>ap_queue := q, ap_stats := (ap_stats p)\<lparr>Dropped := Dropped (ap_stats p) + 1\<rparr>\<rparr>)
                   else Some (p\<lparr>ap_queue := q, ap_current := Some e\<rparr>)
        | [] \<Rightarrow> if ap_accepting p then None else Some (p\<lparr>ap_done := True\<rparr>)))"

definition stopAccepting :: "auditLogProcessor \<Rightarrow> auditLogProcessor" where
  "stopAccepting p = p\<lparr>ap_accepting := False\<rparr>"

definition cancel :: "auditLogProcessor \<Rightarrow> auditLogProcessor" where
  "cancel p = p\<lparr>ap_canceled := True\<rparr>"

text \<open>The worker runs on its own once the queue is closed.\<close>

definition work_left :: "auditLogProcessor \<Rightarrow> nat" where
  "work_left p = 2 * length (ap_queue p) + (if ap_current p = None then 0 else 1) + (if ap_done p then 0 else 1)"

lemma run_step_decreases: "run_step tr p = Some q \<Longrightarrow> work_left q < work_left p"
  by (auto simp: run_step_def work_left_def finish_write_def Let_def split: if_splits option.splits list.splits prod.splits)

function run_out :: "(nat \<Rightarrow> nat \<Rightarrow> attempt) \<Rightarrow> nat \<Rightarrow> auditLogProcessor \<Rightarrow> auditLogProcessor" where
  "run_out tr i p = (case run_step (tr i) p of None \<Rightarrow> p | Some q \<Rightarrow> run_out tr (Suc i) q)"
  by pat_completeness auto
termination by (relation "measure (\<lambda>(_, _, p). work_left p)") (auto dest: run_step_decreases)

fun run_steps :: "(nat \<Rightarrow> nat \<Rightarrow> attempt) \<Rightarrow> nat \<Rightarrow> nat \<Rightarrow> auditLogProcessor \<Rightarrow> auditLogProcessor" where
  "run_steps tr i 0 p = p"
| "run_steps tr i (Suc n) p = (case run_step (tr i) p of None \<Rightarrow> p | Some q \<Rightarrow> run_steps tr (Suc i) n q)"

text \<open>
  \<open>shutdown\<close> closes the queue and waits for the worker, or for its own context to end after the
  worker made \<open>n\<close> steps; then it cancels and waits for the worker all the same.
\<close>

definition shutdown :: "nat option \<Rightarrow> (nat \<Rightarrow> nat \<Rightarrow> attempt) \<Rightarrow> auditLogProcessor \<Rightarrow> bool \<times> auditLogProcessor" where
  "shutdown expiry tr p =
     (case expiry of
        None \<Rightarrow> (True, cancel (run_out tr 0 (stopAccepting p)))
      | Some n \<Rightarrow> (False, run_out tr n (cancel (run_steps tr 0 n (stopAccepting p)))))"

definition stats :: "auditLogProcessor option \<Rightarrow> AuditLogQueueStats" where
  "stats auditLogs = (case auditLogs of None \<Rightarrow> no_stats | Some p \<Rightarrow> ap_stats p)"

section \<open>Every event is accounted for\<close>

text \<open>
  A run of the processor with the events offered to it, in any interleaving of the handlers, the
  worker, a shutdown and a cancellation.
\<close>

inductive audit_run :: "auditLogProcessor \<Rightarrow> auditLogEvent list \<Rightarrow> auditLogProcessor \<Rightarrow> bool" where
  start: "audit_run p [] p"
| offer: "audit_run p es q \<Longrightarrow> branch_ready br q \<Longrightarrow> audit_run p (es @ [e]) (snd (enqueue br e q))"
| work: "audit_run p es q \<Longrightarrow> run_step tr q = Some r \<Longrightarrow> audit_run p es r"
| stop: "audit_run p es q \<Longrightarrow> audit_run p es (stopAccepting q)"
| cancels: "audit_run p es q \<Longrightarrow> audit_run p es (cancel q)"

definition in_hand :: "auditLogProcessor \<Rightarrow> auditLogEvent list" where
  "in_hand p = (case ap_current p of None \<Rightarrow> [] | Some e \<Rightarrow> [e])"

definition settled :: "auditLogProcessor \<Rightarrow> 64 word" where
  "settled p = Written (ap_stats p) + StatFailed (ap_stats p) + Dropped (ap_stats p)"

text \<open>The bucket holds, in order, some number of copies of each event the worker is through with.\<close>

definition copies :: "auditLogEvent list \<Rightarrow> auditLogEvent list \<Rightarrow> bool" where
  "copies xs ys \<longleftrightarrow> (\<exists>ns. length ns = length xs \<and> ys = concat (map2 replicate ns xs))"

lemma copies_Nil: "copies [] []"
  by (simp add: copies_def)

lemma copies_snoc: "copies xs ys \<Longrightarrow> copies (xs @ [x]) (ys @ replicate n x)"
  unfolding copies_def by (metis (no_types, lifting) concat.simps concat_append length_append_singleton list.simps(8,9)
      self_append_conv zip_append zip_Cons_Cons zip_Nil case_prod_conv map_append append_Nil2 zip.simps)

definition audit_ok :: "nat \<Rightarrow> auditLogEvent list \<Rightarrow> auditLogProcessor \<Rightarrow> bool" where
  "audit_ok cap es p \<longleftrightarrow>
     ap_size p = cap \<and> length (ap_queue p) \<le> cap \<and>
     of_nat (length es) = settled p + of_nat (length (in_hand p @ ap_queue p)) \<and>
     (\<exists>xs. subseq (xs @ in_hand p @ ap_queue p) es \<and> copies xs (ap_bucket p)) \<and>
     (ap_done p \<longrightarrow> in_hand p = [] \<and> ap_queue p = [] \<and> \<not> ap_accepting p)"

lemma finish_write_ok:
  assumes "ap_current p = Some e" "audit_ok cap es p" "\<not> ap_done p"
  shows "audit_ok cap es (finish_write tr e p)"
proof -
  obtain res r c where w: "writeWithRetry tr p = (res, r, c)" by (metis prod_cases3)
  from assms obtain xs where xs: "subseq (xs @ e # ap_queue p) es" "copies xs (ap_bucket p)"
    by (auto simp: audit_ok_def in_hand_def)
  from copies_snoc [OF xs(2), of e c] have "copies (xs @ [e]) (ap_bucket p @ replicate c e)" .
  with assms xs(1) show ?thesis
    by (auto simp: audit_ok_def finish_write_def w in_hand_def settled_def Let_def algebra_simps intro!: exI [of _ "xs @ [e]"])
qed

lemma copies_done: "copies xs ys \<Longrightarrow> subseq (xs @ zs) es \<Longrightarrow> \<exists>xs. subseq (xs @ zs) es \<and> copies xs ys"
  by blast

lemma run_step_ok: "run_step tr p = Some q \<Longrightarrow> audit_ok cap es p \<Longrightarrow> audit_ok cap es q"
proof (cases "ap_current p")
  case (Some e)
  then show "run_step tr p = Some q \<Longrightarrow> audit_ok cap es p \<Longrightarrow> audit_ok cap es q"
    by (auto simp: run_step_def finish_write_ok split: if_splits)
next
  case None
  assume step: "run_step tr p = Some q" and ok: "audit_ok cap es p"
  show "audit_ok cap es q"
  proof (cases "ap_queue p")
    case Nil
    with None step ok show ?thesis
      by (auto simp: run_step_def audit_ok_def in_hand_def settled_def split: if_splits)
  next
    case (Cons e rest)
    from ok None Cons obtain xs where xs: "subseq (xs @ e # rest) es" "copies xs (ap_bucket p)"
      by (auto simp: audit_ok_def in_hand_def)
    then have "subseq (xs @ rest) es"
      by (meson subseq_order.trans list_emb_append2 list_emb_Cons subseq_order.refl subseq_append_iff)
    with xs None Cons step ok show ?thesis
      by (auto simp: run_step_def audit_ok_def in_hand_def settled_def algebra_simps split: if_splits intro!: exI [of _ xs])
  qed
qed

lemma subseq_snoc: "subseq xs ys \<Longrightarrow> subseq xs (ys @ [y])" "subseq xs ys \<Longrightarrow> subseq (xs @ [y]) (ys @ [y])"
  by (auto intro: list_emb_append_mono)

lemma recordDrop_ok: "audit_ok cap es p \<Longrightarrow> audit_ok cap (es @ [e]) (recordDrop p)"
  by (auto simp: audit_ok_def recordDrop_def in_hand_def settled_def algebra_simps dest: subseq_snoc(1))

lemma send_ok:
  assumes "audit_ok cap es p" "length (ap_queue p) < ap_size p" "ap_accepting p"
  shows "audit_ok cap (es @ [e]) (send e p)"
proof -
  from assms obtain xs where "subseq (xs @ in_hand p @ ap_queue p) es" "copies xs (ap_bucket p)"
    by (auto simp: audit_ok_def)
  from subseq_snoc(2) [OF this(1), of e] this(2) assms show ?thesis
    by (auto simp: audit_ok_def send_def in_hand_def settled_def algebra_simps)
qed

lemma enqueue_ok: "audit_ok cap es p \<Longrightarrow> branch_ready br p \<Longrightarrow> audit_ok cap (es @ [e]) (snd (enqueue br e p))"
  by (auto simp: enqueue_def recordDrop_ok send_ok)

lemma audit_run_ok: "audit_run p es q \<Longrightarrow> audit_ok cap [] p \<Longrightarrow> audit_ok cap es q"
  by (induction rule: audit_run.induct)
    (auto simp: enqueue_ok run_step_ok, auto simp: audit_ok_def stopAccepting_def cancel_def in_hand_def settled_def)

lemma new_ok: "audit_ok n [] (newAuditLogProcessor n w h)"
  by (auto simp: audit_ok_def newAuditLogProcessor_def in_hand_def settled_def no_stats_def copies_Nil intro!: exI [of _ "[]"])

section \<open>Shutting down\<close>

declare run_out.simps [simp del]

lemma run_step_keeps: "run_step tr p = Some q \<Longrightarrow> ap_accepting q = ap_accepting p \<and> ap_canceled q = ap_canceled p"
  by (auto simp: run_step_def finish_write_def Let_def split: if_splits option.splits list.splits prod.splits)

lemma run_step_stuck: "run_step tr p = None \<Longrightarrow> \<not> ap_accepting p \<Longrightarrow> ap_done p"
  by (auto simp: run_step_def split: if_splits option.splits list.splits)

lemma run_out_done: "\<not> ap_accepting p \<Longrightarrow> ap_done (run_out tr i p)"
proof (induction tr i p rule: run_out.induct)
  case (1 tr i p)
  then show ?case
    by (subst run_out.simps) (auto split: option.splits dest: run_step_stuck run_step_keeps)
qed

lemma run_out_ok: "audit_ok cap es p \<Longrightarrow> audit_ok cap es (run_out tr i p)"
proof (induction tr i p rule: run_out.induct)
  case (1 tr i p)
  then show ?case
    by (subst run_out.simps) (auto split: option.splits dest: run_step_ok)
qed

lemma run_steps_ok: "audit_ok cap es p \<Longrightarrow> audit_ok cap es (run_steps tr i n p)"
  by (induction tr i n p rule: run_steps.induct) (auto split: option.splits dest: run_step_ok)

lemma run_steps_accepting: "ap_accepting (run_steps tr i n p) = ap_accepting p"
  by (induction tr i n p rule: run_steps.induct) (auto split: option.splits dest: run_step_keeps)

lemma stop_ok: "audit_ok cap es p \<Longrightarrow> audit_ok cap es (stopAccepting p)"
  and cancel_ok: "audit_ok cap es p \<Longrightarrow> audit_ok cap es (cancel p)"
  by (auto simp: audit_ok_def stopAccepting_def cancel_def in_hand_def settled_def)

lemma shutdown_ok: "audit_ok cap es p \<Longrightarrow> audit_ok cap es (snd (shutdown expiry tr p)) \<and> ap_done (snd (shutdown expiry tr p))"
  by (auto simp: shutdown_def run_out_ok run_steps_ok stop_ok cancel_ok split: option.splits)
    (auto simp: cancel_def stopAccepting_def run_steps_accepting intro!: run_out_done)

text \<open>While its context lives, the worker writes every event of the queue.\<close>

lemma run_step_live:
  assumes "run_step tr p = Some q" "\<not> ap_canceled p" "\<not> ap_draining p"
  shows "\<not> ap_draining q \<and> Dropped (ap_stats q) = Dropped (ap_stats p)"
  using assms by (auto simp: run_step_def finish_write_def Let_def split: if_splits option.splits list.splits prod.splits)

lemma run_out_live:
  "\<not> ap_canceled p \<Longrightarrow> \<not> ap_draining p \<Longrightarrow> Dropped (ap_stats (run_out tr i p)) = Dropped (ap_stats p)"
proof (induction tr i p rule: run_out.induct)
  case (1 tr i p)
  then show ?case
  proof (cases "run_step (tr i) p")
    case (Some q)
    from run_step_live [OF Some 1(2,3)] run_step_keeps [OF Some] 1(1) [OF Some] 1(2) show ?thesis
      by (subst run_out.simps) (simp add: Some)
  qed (subst run_out.simps, simp)
qed

text \<open>When every event has an attempt that succeeds, each of them reaches the bucket.\<close>

definition succeeds :: "nat \<Rightarrow> (nat \<Rightarrow> attempt) \<Rightarrow> bool" where
  "succeeds n tr \<longleftrightarrow> (\<exists>k. 1 \<le> k \<and> k \<le> n \<and> at_outcome (tr k) = Done) \<and>
     (\<forall>k. \<not> at_delay_canceled (tr k) \<and> \<not> at_canceled (tr k))"

lemma write_attempts_succeed:
  assumes "k \<le> j" "j < k + n" "at_outcome (tr j) = Done" "\<And>k. \<not> at_delay_canceled (tr k) \<and> \<not> at_canceled (tr k)"
  shows "fst (write_attempts tr k n e) = WriteOk \<and> 0 < snd (snd (write_attempts tr k n e))"
  using assms
proof (induction n arbitrary: k e)
  case (Suc n)
  show ?case
  proof (cases "at_outcome (tr k) = Done")
    case False
    with Suc.prems have "k \<noteq> j" by auto
    with Suc.prems Suc.IH [of "Suc k" WriteFailed] False show ?thesis
      by (auto simp: Let_def split: prod.splits)
  qed (use Suc.prems in \<open>auto simp: Let_def\<close>)
qed simp

lemma writeWithRetry_succeeds:
  assumes "succeeds (ap_attempts p) tr"
  obtains r c where "writeWithRetry tr p = (WriteOk, r, Suc c)"
proof -
  from assms obtain j where "1 \<le> j" "j \<le> ap_attempts p" "at_outcome (tr j) = Done"
    and never: "\<And>k. \<not> at_delay_canceled (tr k) \<and> \<not> at_canceled (tr k)" unfolding succeeds_def by blast
  then have "fst (writeWithRetry tr p) = WriteOk \<and> 0 < snd (snd (writeWithRetry tr p))"
    unfolding writeWithRetry_def by (intro write_attempts_succeed [of 1 j]) auto
  with that show thesis by (metis gr0_implies_Suc prod.collapse)
qed

lemma run_step_delivers:
  assumes "run_step tr p = Some q" "succeeds (ap_attempts p) tr" "\<not> ap_draining p"
  shows "ap_attempts q = ap_attempts p \<and> \<not> ap_draining q \<and>
    set (in_hand p @ ap_queue p) \<union> set (ap_bucket p) \<subseteq> set (in_hand q @ ap_queue q) \<union> set (ap_bucket q)"
  using assms
  by (auto simp: run_step_def finish_write_def Let_def in_hand_def
      elim: writeWithRetry_succeeds split: if_splits option.splits list.splits)

lemma run_out_delivers:
  assumes "\<And>i. succeeds (ap_attempts p) (tr i)" "\<not> ap_draining p" "audit_ok cap es p" "\<not> ap_accepting p"
  shows "set (in_hand p @ ap_queue p) \<union> set (ap_bucket p) \<subseteq> set (ap_bucket (run_out tr i p))"
  using assms
proof (induction tr i p rule: run_out.induct)
  case (1 tr i p)
  show ?case
  proof (cases "run_step (tr i) p")
    case None
    with run_step_stuck [OF None] 1(4,5) show ?thesis
      by (subst run_out.simps) (auto simp: audit_ok_def)
  next
    case (Some q)
    note next_state = run_step_delivers [OF Some 1(2,3)]
    have "set (in_hand q @ ap_queue q) \<union> set (ap_bucket q) \<subseteq> set (ap_bucket (run_out tr (Suc i) q))"
      using 1(1) [OF Some] 1(2,4,5) next_state run_step_ok [OF Some] run_step_keeps [OF Some] by simp
    with next_state have "set (in_hand p @ ap_queue p) \<union> set (ap_bucket p) \<subseteq> set (ap_bucket (run_out tr (Suc i) q))"
      by blast
    then show ?thesis by (subst run_out.simps) (simp add: Some)
  qed
qed

lemma audit_run_draining: "audit_run p es q \<Longrightarrow> \<not> ap_draining p \<Longrightarrow> ap_draining q \<Longrightarrow> ap_canceled q"
  by (induction rule: audit_run.induct)
    (auto simp: enqueue_def recordDrop_def send_def stopAccepting_def cancel_def run_step_def finish_write_def Let_def
      split: if_splits option.splits list.splits prod.splits)

lemma start_not_draining: "\<not> ap_draining startAuditLogProcessor"
  by (simp add: startAuditLogProcessor_def newAuditLogProcessor_def)

section \<open>Properties\<close>

text \<open>
  (C29) Whatever the handlers, the worker, cancellations and a shutdown do, in any order: the queue
  never exceeds its size; every event that was offered is written, counted as failed, counted as
  dropped, in the worker's hands or still queued, and in no two of these places; and the bucket
  holds the events in the order they were offered.
\<close>

theorem audit_accounting:
  assumes "audit_run startAuditLogProcessor es p"
  shows "length (ap_queue p) \<le> 1024 \<and>
    of_nat (length es) = Written (ap_stats p) + StatFailed (ap_stats p) + Dropped (ap_stats p) +
      of_nat (length (in_hand p) + length (ap_queue p)) \<and>
    (\<exists>xs. subseq (xs @ in_hand p @ ap_queue p) es \<and> copies xs (ap_bucket p))"
  using audit_run_ok [OF assms, of 1024] new_ok [of 1024 3 250000000]
  by (auto simp: startAuditLogProcessor_def audit_ok_def settled_def)

text \<open>
  A shutdown always ends with the worker stopped and every event settled. When its context
  does not expire and nothing was canceled before, no queued event is dropped, and if each event has
  an attempt that succeeds, all of them are in the bucket.
\<close>

theorem shutdown_correct:
  assumes "audit_run startAuditLogProcessor es p" "shutdown expiry tr p = (clean, q)"
  shows "ap_done q \<and> in_hand q = [] \<and> ap_queue q = [] \<and>
    of_nat (length es) = Written (ap_stats q) + StatFailed (ap_stats q) + Dropped (ap_stats q) \<and>
    (expiry = None \<and> \<not> ap_canceled p \<longrightarrow> Dropped (ap_stats q) = Dropped (ap_stats p) \<and>
      ((\<forall>i. succeeds (ap_attempts p) (tr i)) \<longrightarrow> set (in_hand p @ ap_queue p) \<subseteq> set (ap_bucket q)))"
proof -
  have ok: "audit_ok 1024 es p"
    using audit_run_ok [OF assms(1), of 1024] new_ok [of 1024 3 250000000] by (simp add: startAuditLogProcessor_def)
  from shutdown_ok [OF this, of expiry tr] assms(2) have q: "audit_ok 1024 es q" "ap_done q" by auto
  {
    assume e: "expiry = None" "\<not> ap_canceled p"
    with audit_run_draining [OF assms(1) start_not_draining] have d: "\<not> ap_draining p" by blast
    from e assms(2) have qq: "q = cancel (run_out tr 0 (stopAccepting p))" by (simp add: shutdown_def)
    have "Dropped (ap_stats q) = Dropped (ap_stats p)"
      using run_out_live [of "stopAccepting p" tr 0] e d by (simp add: qq cancel_def stopAccepting_def)
    moreover have "set (in_hand p @ ap_queue p) \<subseteq> set (ap_bucket q)" if "\<forall>i. succeeds (ap_attempts p) (tr i)"
      using run_out_delivers [OF _ _ stop_ok [OF ok], of tr 0] that d
      by (simp add: qq cancel_def stopAccepting_def in_hand_def)
    ultimately have "Dropped (ap_stats q) = Dropped (ap_stats p) \<and>
      ((\<forall>i. succeeds (ap_attempts p) (tr i)) \<longrightarrow> set (in_hand p @ ap_queue p) \<subseteq> set (ap_bucket q))" by blast
  }
  with q show ?thesis by (auto simp: audit_ok_def settled_def)
qed

section \<open>Samples\<close>

definition sample_event :: auditLogEvent where
  "sample_event = \<lparr>ae_team = 7, ae_user = 1, ae_category = ''server'', ae_message = ''Create Server: web'', ae_ip = ''10.0.0.1'',
     ae_ua = ''test'', ae_level = ''high'', ae_occurred = 0\<rparr>"

definition sample_trace :: "nat \<Rightarrow> nat \<Rightarrow> attempt" where
  "sample_trace i k = \<lparr>at_delay_canceled = False, at_outcome = (if k = 2 then Done else Failed), at_canceled = False\<rparr>"

definition sample_queue :: auditLogProcessor where
  "sample_queue = snd (enqueue SelectSend sample_event startAuditLogProcessor)"

lemma sample_queue_run: "audit_run startAuditLogProcessor [sample_event] sample_queue"
  unfolding sample_queue_def
  by (rule audit_run.offer [OF audit_run.start, of SelectSend startAuditLogProcessor sample_event, simplified append_Nil])
    (simp add: startAuditLogProcessor_def newAuditLogProcessor_def)

lemma sample_queue_simps:
  "ap_queue sample_queue = [sample_event]" "in_hand sample_queue = []" "ap_attempts sample_queue = 3" "ap_canceled sample_queue = False"
  by (simp_all add: sample_queue_def enqueue_def send_def recordDrop_def startAuditLogProcessor_def newAuditLogProcessor_def in_hand_def)

theorem audit_accounting_witness:
  "audit_run startAuditLogProcessor [sample_event] sample_queue \<and>
   (1 :: 64 word) = Written (ap_stats sample_queue) + StatFailed (ap_stats sample_queue) + Dropped (ap_stats sample_queue) + 1"
  using audit_accounting [OF sample_queue_run] sample_queue_run by (simp add: sample_queue_simps)

theorem shutdown_correct_witness:
  "ap_bucket (snd (shutdown None sample_trace sample_queue)) = [sample_event] \<and>
   Written (ap_stats (snd (shutdown None sample_trace sample_queue))) = 1 \<and>
   set (ap_queue sample_queue) \<subseteq> set (ap_bucket (snd (shutdown None sample_trace sample_queue)))"
proof -
  have s: "\<forall>i. succeeds (ap_attempts sample_queue) (sample_trace i)"
    by (auto simp: succeeds_def sample_trace_def sample_queue_simps intro: exI [of _ 2])
  have "ap_bucket (snd (shutdown None sample_trace sample_queue)) = [sample_event]"
    "Written (ap_stats (snd (shutdown None sample_trace sample_queue))) = 1" by code_simp+
  moreover from shutdown_correct [OF sample_queue_run prod.collapse [symmetric], of None sample_trace] s
  have "set (in_hand sample_queue @ ap_queue sample_queue) \<subseteq> set (ap_bucket (snd (shutdown None sample_trace sample_queue)))"
    by (simp only: sample_queue_simps) blast
  ultimately show ?thesis by (simp add: sample_queue_simps)
qed

end
