(* ===== verification/Hub.thy ===== *)
theory Hub
  imports Connections Audit_Log Login
begin

text \<open>
  The environment of the handlers of servers, keys and categories: the database of servers and
  the connection supervisor, Redis, the audit log, the status buckets of the time series database
  and the sources of randomness; \<open>internal/influx/status_remove.go\<close>, \<open>LogAdd\<close> of
  \<open>log_add.go\<close> and \<open>internal/utils\<close> over it. A handler answers as in the request path.
\<close>

declare map_of_eq_Some_iff [simp del]

section \<open>State\<close>

text \<open>
  The \<open>n\<close>-th use of a random source: the indices \<open>rand.Int\<close> draws, an identifier of the package
  \<open>uuid\<close>, and a key pair (seed and public key) of \<open>ed25519.GenerateKey\<close>; \<open>None\<close> is a failure.
\<close>

record 'r hubenv = connenv +
  hub_redis :: 'r
  auditLogs :: "auditLogProcessor option"
  log_count :: nat
  log_branches :: "nat \<Rightarrow> select_branch"
  status_data :: "(string \<times> int) list"  \<comment> \<open>bucket and server of the status points\<close>
  rand_ints :: "nat \<Rightarrow> nat \<Rightarrow> nat option"
  uuids :: "nat \<Rightarrow> string option"
  keypairs :: "nat \<Rightarrow> (string \<times> string) option"
  pem_encode :: "string \<Rightarrow> string \<Rightarrow> string"
  sha256_hex :: "string \<Rightarrow> string"
  conf_token :: string
  conf_domain :: string

section \<open>The audit log\<close>

definition ready_branch :: "select_branch \<Rightarrow> auditLogProcessor \<Rightarrow> select_branch" where
  "ready_branch br p = (if branch_ready br p then br else SelectTimer)"

definition log_event ::
  "int \<Rightarrow> int \<Rightarrow> string \<Rightarrow> string \<Rightarrow> string \<Rightarrow> string \<Rightarrow> string \<Rightarrow> ('r, 'z) hubenv_scheme \<Rightarrow> ('r, 'z) hubenv_scheme" where
  "log_event teamID userID category message ip ua level s =
     (let event = \<lparr>ae_team = teamID, ae_user = userID, ae_category = category, ae_message = message, ae_ip = ip,
            ae_ua = ua, ae_level = level, ae_occurred = clock s (reads s)\<rparr>;
          t = s\<lparr>reads := Suc (reads s), log_count := Suc (log_count s)\<rparr> in
      t\<lparr>auditLogs := map_option (\<lambda>p. snd (enqueue (ready_branch (log_branches s (log_count s)) p) event p)) (auditLogs s)\<rparr>)"

definition LogAdd ::
  "int \<Rightarrow> int \<Rightarrow> string \<Rightarrow> string \<Rightarrow> string \<Rightarrow> string \<Rightarrow> string \<Rightarrow> (('r, 'z) hubenv_scheme, 'e, unit) io" where
  "LogAdd teamID userID category message ip ua level = modify (log_event teamID userID category message ip ua level)"

lemma LogAdd_bind [simp]: "bindE (LogAdd a b c d e f g) h s = h () (log_event a b c d e f g s)"
  by (simp add: LogAdd_def modify_def bindE_run)

lemma log_event_frame:
  fixes s :: "('r, 'z) hubenv_scheme"
  obtains p where "log_event a b c d e f g s = s\<lparr>reads := Suc (reads s), log_count := Suc (log_count s), auditLogs := p\<rparr>"
  by (simp add: log_event_def Let_def)

section \<open>Status points\<close>

definition status_buckets :: "string list" where
  "status_buckets = [''server_status_raw'', ''server_status_minute'', ''server_status_hourly'', ''server_status_daily'']"

definition delete_points :: "string \<Rightarrow> int \<Rightarrow> (string \<times> int) list \<Rightarrow> (string \<times> int) list" where
  "delete_points bucket sid = filter (\<lambda>(b, i). \<not> (b = bucket \<and> i = sid))"

text \<open>\<open>DeleteWithName\<close> for one bucket: whether it reported an error.\<close>

definition delete_bucket :: "int \<Rightarrow> string \<Rightarrow> ('r, 'z) hubenv_scheme \<Rightarrow> bool \<times> ('r, 'z) hubenv_scheme" where
  "delete_bucket sid bucket s = (case next_call s of (oc, t) \<Rightarrow>
     (oc \<noteq> Done, if oc = Failed then t else t\<lparr>status_data := delete_points bucket sid (status_data t)\<rparr>))"

fun delete_buckets :: "int \<Rightarrow> string list \<Rightarrow> ('r, 'z) hubenv_scheme \<Rightarrow> nat \<times> ('r, 'z) hubenv_scheme" where
  "delete_buckets sid [] s = (0, s)"
| "delete_buckets sid (b # bs) s =
     (case delete_bucket sid b s of (failed, t) \<Rightarrow>
      case delete_buckets sid bs t of (n, u) \<Rightarrow> ((if failed then Suc n else n), u))"

definition RemoveServerStatus :: "int \<Rightarrow> (('r, 'z) hubenv_scheme, err, unit) io" where
  "RemoveServerStatus serverId = (\<lambda>s. case delete_buckets serverId status_buckets s of (n, t) \<Rightarrow>
     (if n > 0 then Inl ErrDb else Inr (), t))"

section \<open>Random values\<close>

definition letterRunes :: string where
  "letterRunes = ''abcdefghijklmnopqrstuvwxyzABCDEFGHIJKLMNOPQRSTUVWXYZ''"

fun random_letters :: "(nat \<Rightarrow> nat option) \<Rightarrow> nat \<Rightarrow> nat \<Rightarrow> string option" where
  "random_letters rnd i 0 = Some []"
| "random_letters rnd i (Suc n) =
     (case rnd i of None \<Rightarrow> None | Some idx \<Rightarrow> map_option (Cons (letterRunes ! idx)) (random_letters rnd (Suc i) n))"

definition RandomString :: "(nat \<Rightarrow> nat option) \<Rightarrow> nat \<Rightarrow> string" where
  "RandomString rnd n = (case random_letters rnd 0 n of None \<Rightarrow> [] | Some s \<Rightarrow> s)"

text \<open>Each use takes the next draw.\<close>

definition draw :: "(('r, 'z) hubenv_scheme \<Rightarrow> nat \<Rightarrow> 'a) \<Rightarrow> (('r, 'z) hubenv_scheme, 'e, 'a) io" where
  "draw f = (\<lambda>s. (Inr (f s (draws s)), s\<lparr>draws := Suc (draws s)\<rparr>))"

definition hub_RandomString :: "nat \<Rightarrow> (('r, 'z) hubenv_scheme, 'e, string) io" where
  "hub_RandomString n = draw (\<lambda>s i. RandomString (rand_ints s i) n)"

definition uuid_NewRandom :: "(('r, 'z) hubenv_scheme, err, string) io" where
  "uuid_NewRandom = bindE (draw uuids) (\<lambda>u. case u of None \<Rightarrow> raise ErrCrypt | Some x \<Rightarrow> ret x)"

definition GenerateEd25519KeyPair :: "(('r, 'z) hubenv_scheme, err, string \<times> string) io" where
  "GenerateEd25519KeyPair = bindE (draw keypairs) (\<lambda>k. case k of
     None \<Rightarrow> raise ErrCrypt
   | Some (seed, pub) \<Rightarrow> gets (\<lambda>s. (pem_encode s ''PRIVATE KEY'' seed, pem_encode s ''PUBLIC KEY'' pub)))"

section \<open>Redis\<close>

text \<open>The operations of the counters run on the part of the environment they know.\<close>

definition redis_view :: "('r, 'z) hubenv_scheme \<Rightarrow> 'r renv" where
  "redis_view s = \<lparr>calls = calls s, outcomes = outcomes s, reads = reads s, clock = clock s, team_seq = team_seq s, tabs = tabs s,
     rstate = hub_redis s\<rparr>"

definition on_redis :: "('r renv, 'e, 'a) io \<Rightarrow> (('r, 'z) hubenv_scheme, 'e, 'a) io" where
  "on_redis m = (\<lambda>s. case m (redis_view s) of (r, t) \<Rightarrow>
     (r, s\<lparr>calls := calls t, reads := reads t, team_seq := team_seq t, tabs := tabs t, hub_redis := rstate t\<rparr>))"

section \<open>Answers\<close>

text \<open>\<open>ErrorHandler\<close> answers 500 whatever the error.\<close>

definition ErrorHandler :: response where "ErrorHandler = (500, ''error'')"

end
