(* ===== verification/SSH_Trust.thy ===== *)
theory SSH_Trust
  imports Hub
begin

text \<open>
  SSH connections: \<open>internal/connect/ssh/auth.go\<close> (which host keys are accepted, and what is
  sent to a host) and the loop of \<open>connect.go\<close>. The package \<open>golang.org/x/crypto/ssh\<close> and
  \<open>encoding/pem\<close> are the argument \<open>G\<close>. The outcome of dialling is part of the environment,
  which records what was offered to whom for authentication.
\<close>

declare map_of_eq_Some_iff [simp del]

section \<open>Keys, errors and the SSH package\<close>

text \<open>A public key is known by its wire format; a certificate is a public key too.\<close>

record PublicKey =
  pk_wire :: string
  pk_certificate :: bool

text \<open>A signer is opaque: it is made by the SSH package and handed back to it.\<close>

datatype Signer = Signer string

datatype AuthMethod = Password string | PublicKeys Signer

datatype sentinel = ErrHostKeyMissing | ErrHostKeyMismatch | ErrHostKeyInvalid | ErrHostKeyChangedDuringValidation

datatype ssh_err =
    HostKeyTrustError sentinel string string  \<comment> \<open>kind, expected and actual fingerprint\<close>
  | InvalidKey              \<comment> \<open>wraps \<open>ErrHostKeyInvalid\<close>\<close>
  | ChangedDuringValidation \<comment> \<open>wraps \<open>ErrHostKeyChangedDuringValidation\<close>\<close>
  | Wrapped ssh_err         \<comment> \<open>\<open>fmt.Errorf("... %w", err)\<close>\<close>
  | HostKeyCaptured | NoHostKey | CtxErr | NetErr | HandshakeErr
  | CertificateRequiresPrivateKey | NoPrivateKey | PrivateKeyErr | CertificateErr
  | IncompleteConnection | KeyNotFound int | OtherErr err

fun errors_Is :: "ssh_err \<Rightarrow> sentinel \<Rightarrow> bool" where
  "errors_Is (HostKeyTrustError k _ _) x \<longleftrightarrow> k = x"
| "errors_Is InvalidKey x \<longleftrightarrow> x = ErrHostKeyInvalid"
| "errors_Is ChangedDuringValidation x \<longleftrightarrow> x = ErrHostKeyChangedDuringValidation"
| "errors_Is (Wrapped e) x \<longleftrightarrow> errors_Is e x"
| "errors_Is _ x \<longleftrightarrow> False"

fun is_captured :: "ssh_err \<Rightarrow> bool" where
  "is_captured (Wrapped e) = is_captured e"
| "is_captured e = (e = HostKeyCaptured)"

definition IsHostKeyTrustError :: "ssh_err \<Rightarrow> bool" where
  "IsHostKeyTrustError e \<longleftrightarrow> errors_Is e ErrHostKeyMissing \<or> errors_Is e ErrHostKeyMismatch"

definition IsPermanentHostKeyError :: "ssh_err \<Rightarrow> bool" where
  "IsPermanentHostKeyError e \<longleftrightarrow>
     IsHostKeyTrustError e \<or> errors_Is e ErrHostKeyInvalid \<or> errors_Is e ErrHostKeyChangedDuringValidation"

type_synonym host_key_callback = "PublicKey \<Rightarrow> ssh_err option"

text \<open>
  What became of a handshake: its error, the key the callback was called with, and the methods
  that were tried.
\<close>

record handshake =
  hs_error :: "ssh_err option"
  hs_seen :: "PublicKey option"
  hs_offered :: "AuthMethod list"

record pem_block =
  pb_type :: string
  pb_bytes :: string

text \<open>
  \<open>NewClientConn\<close> runs the handshake on the \<open>n\<close>-th connection, opened to an address;
  \<open>presented\<close> is the host key of the peer there.
\<close>

record gossh =
  ParseAuthorizedKey :: "string \<Rightarrow> (PublicKey \<times> string) option"
  MarshalAuthorizedKey :: "PublicKey \<Rightarrow> string"
  FingerprintSHA256 :: "PublicKey \<Rightarrow> string"
  ParsePrivateKey :: "string \<Rightarrow> string option \<Rightarrow> Signer option"
  NewCertSigner :: "PublicKey \<Rightarrow> Signer \<Rightarrow> Signer option"
  pem_Decode :: "string \<Rightarrow> (pem_block \<times> string) option"
  pem_EncodeToMemory :: "pem_block \<Rightarrow> string"
  presented :: "nat \<Rightarrow> string \<Rightarrow> PublicKey option"
  NewClientConn :: "nat \<Rightarrow> string \<Rightarrow> string \<Rightarrow> AuthMethod list \<Rightarrow> host_key_callback \<Rightarrow> handshake"

text \<open>How dialling went, as far as the operating system and the clock decide it.\<close>

record dial_outcome =
  do_expired :: bool         \<comment> \<open>the context had ended before\<close>
  do_connected :: bool       \<comment> \<open>the TCP connection was made\<close>
  do_has_deadline :: bool    \<comment> \<open>the caller's context has a deadline\<close>
  do_deadline_set :: bool    \<comment> \<open>\<open>SetDeadline\<close> succeeded\<close>
  do_expired_after :: bool   \<comment> \<open>the context ended during the handshake\<close>
  do_deadline_cleared :: bool

record 'r netenv = "'r hubenv" +
  dialled :: nat
  dials :: "nat \<Rightarrow> dial_outcome"
  offers :: "(nat \<times> string \<times> AuthMethod list) list"

definition lift_sum :: "'e + 'a \<Rightarrow> ('s, 'e, 'a) io" where
  "lift_sum r = (\<lambda>s. (r, s))"

definition next_dial :: "(('r, 'z) netenv_scheme, 'e, nat \<times> dial_outcome) io" where
  "next_dial = (\<lambda>s. (Inr (dialled s, dials s (dialled s)), s\<lparr>dialled := Suc (dialled s)\<rparr>))"

definition run_handshake ::
  "gossh \<Rightarrow> nat \<Rightarrow> string \<Rightarrow> string \<Rightarrow> AuthMethod list \<Rightarrow> host_key_callback \<Rightarrow> (('r, 'z) netenv_scheme, 'e, handshake) io" where
  "run_handshake G n address user auth cb =
     (let h = NewClientConn G n address user auth cb in
      (\<lambda>s. (Inr h, s\<lparr>offers := (n, address, hs_offered h) # offers s\<rparr>)))"

section \<open>Signers: parseSigner\<close>

definition contains_str :: "string \<Rightarrow> string \<Rightarrow> bool" where
  "contains_str t m \<longleftrightarrow> list_ex (\<lambda>i. take (length m) (drop i t) = m) [0..<Suc (length t)]"

fun certificate_lines :: "gossh \<Rightarrow> string list \<Rightarrow> ssh_err + PublicKey option" where
  "certificate_lines G [] = Inr None"
| "certificate_lines G (l # ls) =
     (let line = trim_space l in
      if line = [] then certificate_lines G ls
      else case ParseAuthorizedKey G line of
        None \<Rightarrow> if contains_str line ''-cert-v01@openssh.com'' then Inl CertificateErr else certificate_lines G ls
      | Some (pubKey, _) \<Rightarrow> if pk_certificate pubKey then Inr (Some pubKey) else certificate_lines G ls)"

definition findOpenSSHCertificate :: "gossh \<Rightarrow> string \<Rightarrow> ssh_err + PublicKey option" where
  "findOpenSSHCertificate G content = certificate_lines G (split_on (CHR 0x0A) content)"

definition private_key_types :: "string list" where
  "private_key_types = [''RSA PRIVATE KEY'', ''PRIVATE KEY'', ''EC PRIVATE KEY'', ''DSA PRIVATE KEY'', ''OPENSSH PRIVATE KEY'']"

text \<open>The outer option is the end of the loop, the inner one a key that was found.\<close>

partial_function (option) findPrivateKeyPEM :: "gossh \<Rightarrow> string \<Rightarrow> string option option" where
  "findPrivateKeyPEM G rest =
     (if rest = [] then Some None
      else case pem_Decode G rest of
        None \<Rightarrow> Some None
      | Some (block, next_part) \<Rightarrow>
          if pb_type block \<in> set private_key_types then Some (Some (pem_EncodeToMemory G block))
          else findPrivateKeyPEM G next_part)"

definition decode_shrinks :: "gossh \<Rightarrow> bool" where
  "decode_shrinks G \<longleftrightarrow> (\<forall>s b t. pem_Decode G s = Some (b, t) \<longrightarrow> length t < length s)"

lemma findPrivateKeyPEM_terminates: "decode_shrinks G \<Longrightarrow> \<exists>r. findPrivateKeyPEM G s = Some r"
proof (induction "length s" arbitrary: s rule: less_induct)
  case less
  show ?case
  proof (cases "pem_Decode G s")
    case None
    then show ?thesis by (subst findPrivateKeyPEM.simps) simp
  next
    case (Some p)
    obtain b t where p: "p = (b, t)" by (cases p)
    with Some less.prems have "length t < length s" by (auto simp: decode_shrinks_def)
    with less obtain r where "findPrivateKeyPEM G t = Some r" by blast
    with Some p show ?thesis by (subst findPrivateKeyPEM.simps) simp
  qed
qed

definition parse_key :: "gossh \<Rightarrow> string \<Rightarrow> string \<Rightarrow> PublicKey option \<Rightarrow> ssh_err + Signer" where
  "parse_key G privateKeyPEM keyPwd cert =
     (case ParsePrivateKey G privateKeyPEM (if keyPwd \<noteq> [] then Some keyPwd else None) of
        None \<Rightarrow> Inl PrivateKeyErr
      | Some signer \<Rightarrow>
          (case cert of
             None \<Rightarrow> Inr signer
           | Some c \<Rightarrow> (case NewCertSigner G c signer of None \<Rightarrow> Inl CertificateErr | Some cs \<Rightarrow> Inr cs)))"

text \<open>\<open>None\<close> when the search for a private key does not end; the laws of \<open>pem.Decode\<close> rule that out.\<close>

definition parseSigner :: "gossh \<Rightarrow> string \<Rightarrow> string \<Rightarrow> (ssh_err + Signer) option" where
  "parseSigner G key keyPwd =
     (case findOpenSSHCertificate G key of
        Inl e \<Rightarrow> Some (Inl e)
      | Inr cert \<Rightarrow>
          map_option (\<lambda>found. case (case found of None \<Rightarrow> [] | Some p \<Rightarrow> p) of
              [] \<Rightarrow> Inl (if cert \<noteq> None then CertificateRequiresPrivateKey else NoPrivateKey)
            | c # cs \<Rightarrow> parse_key G (c # cs) keyPwd cert) (findPrivateKeyPEM G key))"

definition BuildAuthMethods :: "gossh \<Rightarrow> string \<Rightarrow> string \<Rightarrow> string \<Rightarrow> (ssh_err + AuthMethod list) option" where
  "BuildAuthMethods G pw key keyPwd =
     (if key = [] then Some (Inr [Password pw])
      else map_option (map_sum id (\<lambda>signer. PublicKeys signer # (if pw \<noteq> [] then [Password pw] else [])))
        (parseSigner G key keyPwd))"

lemma BuildAuthMethods_total: "decode_shrinks G \<Longrightarrow> \<exists>r. BuildAuthMethods G pw key keyPwd = Some r"
  using findPrivateKeyPEM_terminates [of G key]
  by (auto simp: BuildAuthMethods_def parseSigner_def split: sum.splits)

section \<open>Host keys\<close>

record ObservedHostKey =
  AuthorizedKey :: string
  Fingerprint :: string

definition parseTrustedHostKey :: "gossh \<Rightarrow> string \<Rightarrow> ssh_err + PublicKey" where
  "parseTrustedHostKey G val =
     (if trim_space val = [] then Inl (HostKeyTrustError ErrHostKeyMissing [] [])
      else case ParseAuthorizedKey G val of
        None \<Rightarrow> Inl InvalidKey
      | Some (key, rest) \<Rightarrow> if trim_space rest \<noteq> [] then Inl InvalidKey else Inr key)"

definition strictHostKeyCallback :: "gossh \<Rightarrow> string \<Rightarrow> ssh_err + host_key_callback" where
  "strictHostKeyCallback G trustedHostKey =
     (case parseTrustedHostKey G trustedHostKey of
        Inl e \<Rightarrow> Inl e
      | Inr trusted \<Rightarrow> Inr (\<lambda>actual.
          if pk_wire trusted = pk_wire actual then None
          else Some (HostKeyTrustError ErrHostKeyMismatch (FingerprintSHA256 G trusted) (FingerprintSHA256 G actual))))"

definition hostKeyCallback :: "gossh \<Rightarrow> string \<Rightarrow> bool \<Rightarrow> ssh_err + host_key_callback" where
  "hostKeyCallback G trustedHostKey trustLegacyHostKey =
     (if trim_space trustedHostKey = [] \<and> trustLegacyHostKey then Inr (\<lambda>_. None)
      else strictHostKeyCallback G trustedHostKey)"

definition observedHostKey :: "gossh \<Rightarrow> PublicKey \<Rightarrow> ObservedHostKey" where
  "observedHostKey G key = \<lparr>AuthorizedKey = trim_space (MarshalAuthorizedKey G key), Fingerprint = FingerprintSHA256 G key\<rparr>"

definition HostKeysEqual :: "gossh \<Rightarrow> string \<Rightarrow> string \<Rightarrow> bool" where
  "HostKeysEqual G first second_key =
     (case parseTrustedHostKey G first of
        Inl _ \<Rightarrow> False
      | Inr firstKey \<Rightarrow> (case parseTrustedHostKey G second_key of Inl _ \<Rightarrow> False | Inr secondKey \<Rightarrow> pk_wire firstKey = pk_wire secondKey))"

definition NormalizeHostKey :: "gossh \<Rightarrow> string \<Rightarrow> ssh_err + string" where
  "NormalizeHostKey G val =
     (case parseTrustedHostKey G val of Inl e \<Rightarrow> Inl e | Inr key \<Rightarrow> Inr (AuthorizedKey (observedHostKey G key)))"

text \<open>The accepted key comes from the trusted one, or from the one the user confirmed.\<close>

definition matches_trusted :: "gossh \<Rightarrow> string \<Rightarrow> ObservedHostKey \<Rightarrow> ssh_err + bool" where
  "matches_trusted G trustedHostKey observed =
     (case parseTrustedHostKey G trustedHostKey of
        Inl e \<Rightarrow> if \<not> errors_Is e ErrHostKeyInvalid then Inl e else Inr False
      | Inr trusted \<Rightarrow>
          (case parseTrustedHostKey G (AuthorizedKey observed) of
             Inl e \<Rightarrow> Inl e
           | Inr actual \<Rightarrow> Inr (pk_wire trusted = pk_wire actual)))"

definition confirmation_needed :: "gossh \<Rightarrow> string \<Rightarrow> ObservedHostKey \<Rightarrow> ssh_err" where
  "confirmation_needed G trustedHostKey observed =
     (if trustedHostKey = [] then HostKeyTrustError ErrHostKeyMissing [] (Fingerprint observed)
      else case parseTrustedHostKey G trustedHostKey of
        Inl e \<Rightarrow> if \<not> errors_Is e ErrHostKeyInvalid then e else HostKeyTrustError ErrHostKeyMismatch [] (Fingerprint observed)
      | Inr trusted \<Rightarrow> HostKeyTrustError ErrHostKeyMismatch (FingerprintSHA256 G trusted) (Fingerprint observed))"

definition check_confirmed :: "gossh \<Rightarrow> string \<Rightarrow> ObservedHostKey \<Rightarrow> ssh_err + string" where
  "check_confirmed G confirmedHostKey observed =
     (case parseTrustedHostKey G confirmedHostKey of
        Inl e \<Rightarrow> Inl e
      | Inr confirmed \<Rightarrow>
          (case parseTrustedHostKey G (AuthorizedKey observed) of
             Inl e \<Rightarrow> Inl e
           | Inr actual \<Rightarrow>
               if pk_wire confirmed \<noteq> pk_wire actual
               then Inl (HostKeyTrustError ErrHostKeyMismatch (FingerprintSHA256 G confirmed) (Fingerprint observed))
               else Inr (AuthorizedKey observed)))"

definition verifyObservedHostKey :: "gossh \<Rightarrow> string \<Rightarrow> string \<Rightarrow> ObservedHostKey \<Rightarrow> ssh_err + string" where
  "verifyObservedHostKey G trustedHostKey confirmedHostKey observed =
     (case (if trustedHostKey \<noteq> [] then matches_trusted G trustedHostKey observed else Inr False) of
        Inl e \<Rightarrow> Inl e
      | Inr True \<Rightarrow> Inr (AuthorizedKey observed)
      | Inr False \<Rightarrow>
          if confirmedHostKey = [] then Inl (confirmation_needed G trustedHostKey observed)
          else check_confirmed G confirmedHostKey observed)"

section \<open>Dialling\<close>

definition sshAddress :: "string \<Rightarrow> int \<Rightarrow> string" where
  "sshAddress host port =
     (if CHR '':'' \<in> set host then ''['' @ host @ '']:'' @ itoa port else host @ '':'' @ itoa port)"

text \<open>A search for a private key that never ends appears as the end of the context; see \<open>BuildAuthMethods_total\<close>.\<close>

record dial_target =
  dt_host :: string
  dt_port :: int
  dt_user :: string
  dt_password :: string
  dt_key :: string
  dt_key_password :: string

definition DialContext :: "gossh \<Rightarrow> dial_target \<Rightarrow> string \<Rightarrow> bool \<Rightarrow> duration \<Rightarrow> (('r, 'z) netenv_scheme, ssh_err, nat) io" where
  "DialContext G d trustedHostKey trustLegacyHostKey timeout =
     bindE next_dial (\<lambda>(n, oc).
     if do_expired oc then raise CtxErr
     else
       bindE (lift_sum (hostKeyCallback G trustedHostKey trustLegacyHostKey)) (\<lambda>cb.
       case BuildAuthMethods G (dt_password d) (dt_key d) (dt_key_password d) of
         None \<Rightarrow> raise CtxErr
       | Some methods \<Rightarrow>
           bindE (lift_sum methods) (\<lambda>authMethods.
           if \<not> do_connected oc then raise NetErr
           else if (timeout > 0 \<or> do_has_deadline oc) \<and> \<not> do_deadline_set oc then raise NetErr
           else
             bindE (run_handshake G n (sshAddress (dt_host d) (dt_port d)) (dt_user d) authMethods cb) (\<lambda>h.
             if do_expired_after oc then raise CtxErr
             else case hs_error h of
               Some e \<Rightarrow> raise e
             | None \<Rightarrow> if \<not> do_deadline_cleared oc then raise NetErr else ret n))))"

text \<open>The probe has no credentials and stops at the host key.\<close>

definition ProbeHostKey :: "gossh \<Rightarrow> string \<Rightarrow> int \<Rightarrow> (('r, 'z) netenv_scheme, ssh_err, ObservedHostKey) io" where
  "ProbeHostKey G host port =
     bindE next_dial (\<lambda>(n, oc).
     if \<not> do_connected oc then raise NetErr
     else
       bindE (run_handshake G n (sshAddress host port) ''host-key-probe'' [] (\<lambda>_. Some HostKeyCaptured)) (\<lambda>h.
       let observed = (case hs_seen h of None \<Rightarrow> \<lparr>AuthorizedKey = [], Fingerprint = []\<rparr> | Some k \<Rightarrow> observedHostKey G k) in
       case hs_error h of
         None \<Rightarrow> raise NoHostKey
       | Some e \<Rightarrow> if AuthorizedKey observed \<noteq> [] \<and> is_captured e then ret observed else raise e))"

definition DefaultDialTimeout :: duration where "DefaultDialTimeout = 10 * second"

text \<open>The result is the key that was observed, also when the validation fails later.\<close>

definition ValidateConnection ::
  "gossh \<Rightarrow> dial_target \<Rightarrow> string \<Rightarrow> string \<Rightarrow> (('r, 'z) netenv_scheme, 'e, ObservedHostKey \<times> ssh_err option) io" where
  "ValidateConnection G d trustedHostKey confirmedHostKey =
     tryE (ProbeHostKey G (dt_host d) (dt_port d)) (\<lambda>probed. case probed of
       Inl e \<Rightarrow> ret (\<lparr>AuthorizedKey = [], Fingerprint = []\<rparr>, Some (Wrapped e))
     | Inr observed \<Rightarrow>
         (case verifyObservedHostKey G trustedHostKey confirmedHostKey observed of
            Inl e \<Rightarrow> ret (observed, Some e)
          | Inr acceptedHostKey \<Rightarrow>
              tryE (DialContext G d acceptedHostKey False DefaultDialTimeout) (\<lambda>res. case res of
                Inl e \<Rightarrow> ret (observed, Some (if IsHostKeyTrustError e then ChangedDuringValidation else Wrapped e))
              | Inr _ \<Rightarrow> ret (observed, None))))"

section \<open>The loop of a connection: connect.go\<close>

text \<open>The texts of the errors that are written to the audit log; \<open>text_of\<close> gives the others.\<close>

fun sentinel_text :: "sentinel \<Rightarrow> string" where
  "sentinel_text ErrHostKeyMissing = ''ssh host key is not trusted''"
| "sentinel_text ErrHostKeyMismatch = ''ssh host key does not match the trusted key''"
| "sentinel_text ErrHostKeyInvalid = ''trusted ssh host key is invalid''"
| "sentinel_text ErrHostKeyChangedDuringValidation = ''ssh host key changed during connection validation''"

fun ssh_Error :: "(ssh_err \<Rightarrow> string) \<Rightarrow> ssh_err \<Rightarrow> string" where
  "ssh_Error text_of (HostKeyTrustError kind expected actual) =
     (if kind = ErrHostKeyMismatch then sentinel_text kind @ '' (expected '' @ expected @ '', received '' @ actual @ '')''
      else if actual \<noteq> [] then sentinel_text kind @ '' (received '' @ actual @ '')''
      else sentinel_text kind)"
| "ssh_Error text_of e = text_of e"

definition initialBackoff :: duration where "initialBackoff = second"
definition maxBackoff :: duration where "maxBackoff = 30 * second"

definition next_backoff :: "duration \<Rightarrow> duration" where
  "next_backoff b = (let d = b * 2 in if d > maxBackoff then maxBackoff else d)"

subsection \<open>The monitor of logins: login.go\<close>

record ssh_login =
  ls_user :: string
  ls_tty :: string
  ls_ip :: string
  ls_date :: string

text \<open>The clock and the number of records that a probe also returns are for the command of the next probe.\<close>

record loginProbe =
  lp_self_ip :: string
  lp_unavailable :: bool
  lp_sessions :: "ssh_login list"

text \<open>
  Package \<open>time\<close>: the instant of a full time stamp in the format of RFC 3339 and cut to the minute, and whether a
  stamp is in the short format.
\<close>

record login_stamps =
  full_stamp :: "string \<Rightarrow> string option"
  minute_stamp :: "string \<Rightarrow> string"
  is_short_stamp :: "string \<Rightarrow> bool"

definition session_key_of :: "login_stamps \<Rightarrow> ssh_login \<Rightarrow> string" where
  "session_key_of L x = ls_user x @ ''|'' @ ls_tty x @ ''|'' @ ls_ip x @ ''|'' @
     (case full_stamp L (ls_date x) of None \<Rightarrow> ls_date x | Some stamp \<Rightarrow> stamp)"

text \<open>The key with its stamp cut to the minute, and whether it was more precise; the stamp follows the last bar.\<close>

definition loginMinuteKey :: "login_stamps \<Rightarrow> string \<Rightarrow> string \<times> bool" where
  "loginMinuteKey L key =
     (let stamp = rev (takeWhile (\<lambda>c. c \<noteq> CHR ''|'') (rev key)) in
      if CHR ''|'' \<notin> set key then ([], False)
      else case full_stamp L stamp of
        Some _ \<Rightarrow> (take (length key - length stamp) key @ minute_stamp L stamp, True)
      | None \<Rightarrow> if is_short_stamp L stamp then (key, False) else ([], False))"

definition isMonitorSelf :: "string \<Rightarrow> string \<Rightarrow> ssh_login \<Rightarrow> bool" where
  "isMonitorSelf monitorUser selfIP x \<longleftrightarrow> selfIP \<noteq> [] \<and> ls_ip x = selfIP \<and> ls_user x = monitorUser"

text \<open>Whether a key was in the previous snapshot, up to the precision of the two stamps.\<close>

definition login_seen :: "login_stamps \<Rightarrow> string list \<Rightarrow> string \<Rightarrow> bool" where
  "login_seen L prev key \<longleftrightarrow> key \<in> set prev \<or>
     (case loginMinuteKey L key of (coarse, precise) \<Rightarrow>
        coarse \<noteq> [] \<and> (if precise then coarse \<in> set prev else coarse \<in> set (map (fst \<circ> loginMinuteKey L) prev)))"

definition diffLoginSessions ::
  "login_stamps \<Rightarrow> string list option \<Rightarrow> ssh_login list \<Rightarrow> string \<Rightarrow> string \<Rightarrow> ssh_login list \<times> string list" where
  "diffLoginSessions L prev current monitorUser selfIP =
     ((case prev of
         None \<Rightarrow> []
       | Some ks \<Rightarrow> filter (\<lambda>x. \<not> login_seen L ks (session_key_of L x) \<and> \<not> isMonitorSelf monitorUser selfIP x) current),
      map (session_key_of L) current)"

definition loginProbeInterval :: duration where "loginProbeInterval = 30 * second"
definition loginRetryMaxDelay :: duration where "loginRetryMaxDelay = 5 * minute"

record login_state =
  lm_connected :: bool
  lm_snapshot :: "string list option"
  lm_seeded :: bool
  lm_failures :: nat
  lm_backoff :: duration

definition login_start :: login_state where
  "login_start = \<lparr>lm_connected = False, lm_snapshot = None, lm_seeded = False, lm_failures = 0, lm_backoff = loginProbeInterval\<rparr>"

text \<open>
  What decides a round of the monitor beside the dial: what the probe over the connection came to, and whether the
  context has ended at the start, after the round, and during the wait.
\<close>

record login_round =
  lr_stopped :: bool
  lr_probe :: "ssh_err + loginProbe"
  lr_after_stopped :: bool
  lr_wait_stopped :: bool

text \<open>The next state and what is reported; \<open>None\<close> when the monitor ends.\<close>

definition login_probed :: "login_stamps \<Rightarrow> string \<Rightarrow> loginProbe \<Rightarrow> login_state \<Rightarrow> login_state option \<times> ssh_login list" where
  "login_probed L user probe st =
     (if lp_unavailable probe then (None, [])
      else case diffLoginSessions L (lm_snapshot st) (lp_sessions probe) user (lp_self_ip probe) of (fresh, current) \<Rightarrow>
        (Some \<lparr>lm_connected = True, lm_snapshot = Some current, lm_seeded = True, lm_failures = 0, lm_backoff = loginProbeInterval\<rparr>,
         if lm_seeded st then fresh else []))"

definition login_failed_round :: "ssh_err \<Rightarrow> bool \<Rightarrow> login_state \<Rightarrow> login_state option" where
  "login_failed_round e stopped st =
     (if stopped \<or> IsPermanentHostKeyError e then None
      else Some (st\<lparr>lm_connected := False, lm_failures := Suc (lm_failures st), lm_backoff := min (lm_backoff st * 2) loginRetryMaxDelay\<rparr>))"

text \<open>The sessions that were reported; the monitor dials as the loop does.\<close>

fun loginMonitor_run ::
  "gossh \<Rightarrow> login_stamps \<Rightarrow> dial_target \<Rightarrow> string \<Rightarrow> bool \<Rightarrow> login_round list \<Rightarrow> login_state \<Rightarrow>
   (('r, 'z) netenv_scheme, 'e, ssh_login list) io" where
  "loginMonitor_run G L d trustedHostKey trustLegacyHostKey [] st = ret []"
| "loginMonitor_run G L d trustedHostKey trustLegacyHostKey (lr # lrs) st =
     (if lr_stopped lr then ret []
      else tryE (if lm_connected st then ret () else bindE (DialContext G d trustedHostKey trustLegacyHostKey DefaultDialTimeout) (\<lambda>_. ret ())) (\<lambda>dialed.
        let (next_state, fresh) = (case dialed of
              Inl e \<Rightarrow> (login_failed_round e (lr_after_stopped lr) st, [])
            | Inr _ \<Rightarrow> (case lr_probe lr of
                  Inl e \<Rightarrow> (login_failed_round e (lr_after_stopped lr) st, [])
                | Inr probe \<Rightarrow> login_probed L (dt_user d) probe st)) in
        case next_state of
          None \<Rightarrow> ret fresh
        | Some st' \<Rightarrow>
            if lr_wait_stopped lr then ret fresh
            else bindE (loginMonitor_run G L d trustedHostKey trustLegacyHostKey lrs st') (\<lambda>rest. ret (fresh @ rest))))"

subsection \<open>The rounds\<close>

text \<open>
  What decides a round beside the dials: whether the context has ended at its start, during the
  wait, or after the work; the operating system the host reported; the rounds of the login monitor that runs beside the
  collection on Linux, and which has ended when the round does; and whether the collection ended without an error.
\<close>

record round =
  rd_stopped :: bool
  rd_wait_stopped :: bool
  rd_os :: "string option"
  rd_logins :: "login_round list"
  rd_collected :: bool
  rd_after_stopped :: bool

text \<open>The work on a connection: whether it ended without an error.\<close>

definition ssh_work ::
  "gossh \<Rightarrow> login_stamps \<Rightarrow> dial_target \<Rightarrow> string \<Rightarrow> bool \<Rightarrow> round \<Rightarrow> (('r, 'z) netenv_scheme, 'e, bool) io" where
  "ssh_work G L d trustedHostKey trustLegacyHostKey rd =
     (case rd_os rd of
        None \<Rightarrow> ret False
      | Some osName \<Rightarrow>
          if osName = ''Linux'' then
            bindE (loginMonitor_run G L d trustedHostKey trustLegacyHostKey (rd_logins rd) login_start) (\<lambda>_. ret (rd_collected rd))
          else ret True)"

text \<open>\<open>None\<close> is a loop that still runs after the given rounds.\<close>

fun SSH ::
  "gossh \<Rightarrow> login_stamps \<Rightarrow> (ssh_err \<Rightarrow> string) \<Rightarrow> dial_target \<Rightarrow> string \<Rightarrow> bool \<Rightarrow> int \<Rightarrow> int \<Rightarrow> round list \<Rightarrow> duration \<Rightarrow>
   (('r, 'z) netenv_scheme, ssh_err, unit option) io" where
  "SSH G L text_of d trustedHostKey trustLegacyHostKey serverId teamID [] backoff = ret None"
| "SSH G L text_of d trustedHostKey trustLegacyHostKey serverId teamID (rd # rds) backoff =
     (if rd_stopped rd then raise CtxErr
      else tryE (DialContext G d trustedHostKey trustLegacyHostKey DefaultDialTimeout) (\<lambda>res. case res of
        Inl e \<Rightarrow>
          if IsPermanentHostKeyError e then
            bindE (LogAdd teamID 0 ''security''
              (''Blocked SSH connection due to untrusted host key (server ID '' @ itoa serverId @ ''): '' @ ssh_Error text_of e)
              [] ''monitoring service'' ''high'') (\<lambda>_. raise e)
          else if rd_wait_stopped rd then raise CtxErr
          else SSH G L text_of d trustedHostKey trustLegacyHostKey serverId teamID rds (next_backoff backoff)
      | Inr _ \<Rightarrow>
          bindE (ssh_work G L d trustedHostKey trustLegacyHostKey rd) (\<lambda>work_ok.
          if work_ok then ret (Some ())
          else if rd_after_stopped rd then raise CtxErr
          else SSH G L text_of d trustedHostKey trustLegacyHostKey serverId teamID rds initialBackoff)))"

section \<open>What is documented of the SSH package\<close>

text \<open>
  The callback decides on the key the peer proved to hold; its error ends the handshake and is
  wrapped in the error of the handshake; nothing is sent for authentication before it accepted.
\<close>

definition no_key_error :: "ssh_err \<Rightarrow> bool" where
  "no_key_error e \<longleftrightarrow> \<not> IsPermanentHostKeyError e \<and> \<not> is_captured e"

definition handshake_law :: "gossh \<Rightarrow> nat \<Rightarrow> string \<Rightarrow> AuthMethod list \<Rightarrow> host_key_callback \<Rightarrow> handshake \<Rightarrow> bool" where
  "handshake_law G n address auth cb h \<longleftrightarrow>
     (case hs_seen h of
        None \<Rightarrow> hs_offered h = [] \<and> (\<exists>e. hs_error h = Some e \<and> no_key_error e)
      | Some k \<Rightarrow> presented G n address = Some k \<and>
          (case cb k of
             Some e \<Rightarrow> hs_error h = Some (Wrapped e) \<and> hs_offered h = []
           | None \<Rightarrow> set (hs_offered h) \<subseteq> set auth \<and> (\<forall>e. hs_error h = Some e \<longrightarrow> no_key_error e)))"

definition handshake_ok :: "gossh \<Rightarrow> bool" where
  "handshake_ok G \<longleftrightarrow> (\<forall>n address user auth cb. handshake_law G n address auth cb (NewClientConn G n address user auth cb))"

text \<open>A key in the format of \<open>authorized_keys\<close> reads back as the same key.\<close>

definition keys_ok :: "gossh \<Rightarrow> bool" where
  "keys_ok G \<longleftrightarrow> (\<forall>k. trim_space (MarshalAuthorizedKey G k) \<noteq> [] \<and>
     (\<exists>k' rest. ParseAuthorizedKey G (trim_space (MarshalAuthorizedKey G k)) = Some (k', rest) \<and>
        trim_space rest = [] \<and> pk_wire k' = pk_wire k))"

section \<open>Credentials go to trusted hosts only\<close>

definition same_key :: "gossh \<Rightarrow> string \<Rightarrow> PublicKey \<Rightarrow> bool" where
  "same_key G h k \<longleftrightarrow> (\<exists>p. parseTrustedHostKey G h = Inr p \<and> pk_wire p = pk_wire k)"

definition trusts :: "gossh \<Rightarrow> string \<Rightarrow> bool \<Rightarrow> PublicKey \<Rightarrow> bool" where
  "trusts G h legacy k \<longleftrightarrow> legacy \<and> trim_space h = [] \<or> same_key G h k"

lemma hostKeyCallback_accepts: "hostKeyCallback G h legacy = Inr cb \<Longrightarrow> cb k = None \<Longrightarrow> trusts G h legacy k"
  by (auto simp: hostKeyCallback_def strictHostKeyCallback_def trusts_def same_key_def split: if_splits sum.splits)

text \<open>What was newly offered satisfies a predicate of the peer's key, at the given address.\<close>

definition offered_to :: "gossh \<Rightarrow> (PublicKey \<Rightarrow> bool) \<Rightarrow> ('r, 'z) netenv_scheme \<Rightarrow> ('r, 'z) netenv_scheme \<Rightarrow> bool" where
  "offered_to G P s t \<longleftrightarrow> (\<exists>new. offers t = new @ offers s \<and>
     (\<forall>(n, a, ms) \<in> set new. ms \<noteq> [] \<longrightarrow> (\<exists>k. presented G n a = Some k \<and> P k)))"

lemma offered_to_same: "offers t = offers s \<Longrightarrow> offered_to G P s t"
  by (simp add: offered_to_def)

lemma offered_to_refl [simp]: "offered_to G P s s"
  by (simp add: offered_to_same)

lemma offered_to_trans: "offered_to G P s t \<Longrightarrow> offered_to G P t u \<Longrightarrow> offered_to G P s u"
  unfolding offered_to_def by (elim exE conjE) (rule_tac x = "newa @ new" in exI, auto)

lemma offered_to_mono: "offered_to G P s t \<Longrightarrow> (\<And>k. P k \<Longrightarrow> Q k) \<Longrightarrow> offered_to G Q s t"
  unfolding offered_to_def by (elim exE conjE) (rule_tac x = new in exI, fastforce)

lemma offered_to_snoc:
  assumes "offered_to G P s t" "offers u = (n, a, ms) # offers t" "ms \<noteq> [] \<Longrightarrow> \<exists>k. presented G n a = Some k \<and> P k"
  shows "offered_to G P s u"
  using assms unfolding offered_to_def by (elim exE conjE) (rule_tac x = "(n, a, ms) # new" in exI, auto)

lemma run_handshake_run:
  "run_handshake G n a u auth cb s = (Inr (NewClientConn G n a u auth cb), s\<lparr>offers := (n, a, hs_offered (NewClientConn G n a u auth cb)) # offers s\<rparr>)"
  by (simp add: run_handshake_def Let_def)

lemma handshake_okD: "handshake_ok G \<Longrightarrow> handshake_law G n a auth cb (NewClientConn G n a u auth cb)"
  by (simp add: handshake_ok_def)

lemma handshake_lawD:
  assumes "handshake_law G n a auth cb h"
  shows "hs_offered h \<noteq> [] \<Longrightarrow> \<exists>k. presented G n a = Some k \<and> cb k = None"
    and "hs_error h = None \<Longrightarrow> \<exists>k. presented G n a = Some k \<and> cb k = None"
  using assms by (auto simp: handshake_law_def split: option.splits)

lemmas dial_simps = bindE_run tryE_run next_dial_def lift_sum_def raise_def ret_def run_handshake_run

lemma DialContext_offers:
  assumes law: "handshake_ok G" and run: "DialContext G d h legacy timeout s = (r, t)"
  shows "offered_to G (trusts G h legacy) s t \<and>
    (\<forall>n. r = Inr n \<longrightarrow> (\<exists>k. presented G n (sshAddress (dt_host d) (dt_port d)) = Some k \<and> trusts G h legacy k))"
proof (cases "hostKeyCallback G h legacy")
  case (Inl e)
  with run show ?thesis by (auto simp: DialContext_def dial_simps offered_to_same split: if_splits)
next
  case (Inr cb)
  let ?n = "dialled s" and ?a = "sshAddress (dt_host d) (dt_port d)"
  consider (early) e where "r = Inl e" "offers t = offers s"
    | (late) auth where "offers t = (?n, ?a, hs_offered (NewClientConn G ?n ?a (dt_user d) auth cb)) # offers s"
        "\<And>n. r = Inr n \<Longrightarrow> n = ?n \<and> hs_error (NewClientConn G ?n ?a (dt_user d) auth cb) = None"
    using run Inr by (auto simp: DialContext_def dial_simps split: if_splits option.splits sum.splits)
  then show ?thesis
  proof cases
    case early
    then show ?thesis by (simp add: offered_to_same)
  next
    case late
    note law = handshake_lawD [OF handshake_okD [OF law, of ?n ?a auth cb "dt_user d"]]
    note accepts = hostKeyCallback_accepts [OF Inr]
    have "offered_to G (trusts G h legacy) s t"
      using law(1) accepts by (intro offered_to_snoc [OF offered_to_refl late(1)]) blast
    moreover have "\<exists>k. presented G n ?a = Some k \<and> trusts G h legacy k" if "r = Inr n" for n
      using law(2) accepts late(2) [OF that] by (elim conjE) (simp only:, blast)
    ultimately show ?thesis by blast
  qed
qed

lemma ProbeHostKey_offers:
  assumes law: "handshake_ok G" and run: "ProbeHostKey G host port s = (r, t)"
  shows "offered_to G P s t"
proof -
  let ?n = "dialled s" and ?a = "sshAddress host port"
  let ?h = "NewClientConn G ?n ?a ''host-key-probe'' [] (\<lambda>_. Some HostKeyCaptured)"
  have none: "hs_offered ?h = []" using handshake_lawD(1) [OF handshake_okD [OF law, of ?n ?a]] by blast
  consider "offers t = offers s" | "offers t = (?n, ?a, hs_offered ?h) # offers s"
    using run by (auto simp: ProbeHostKey_def dial_simps Let_def split: if_splits option.splits)
  then show ?thesis
    by cases (auto simp: none intro: offered_to_same offered_to_snoc [OF offered_to_refl])
qed

lemma verifyObservedHostKey_accepts:
  assumes "verifyObservedHostKey G trusted confirmed observed = Inr accepted"
  shows "accepted = AuthorizedKey observed \<and>
    (\<exists>k. parseTrustedHostKey G accepted = Inr k \<and> (trusted \<noteq> [] \<and> same_key G trusted k \<or> confirmed \<noteq> [] \<and> same_key G confirmed k))"
  using assms
  by (auto simp: verifyObservedHostKey_def matches_trusted_def check_confirmed_def same_key_def
      split: if_splits sum.splits bool.splits)

lemma trusts_accepted:
  assumes "parseTrustedHostKey G accepted = Inr k" "trusts G accepted False j"
  shows "pk_wire j = pk_wire k"
  using assms by (auto simp: trusts_def same_key_def)

lemma same_key_wire: "same_key G h k \<Longrightarrow> pk_wire j = pk_wire k \<Longrightarrow> same_key G h j"
  by (simp add: same_key_def)

section \<open>Properties\<close>

text \<open>The keys the user or the database vouch for.\<close>

definition vouched :: "gossh \<Rightarrow> string \<Rightarrow> string \<Rightarrow> PublicKey \<Rightarrow> bool" where
  "vouched G trusted confirmed k \<longleftrightarrow> trusted \<noteq> [] \<and> same_key G trusted k \<or> confirmed \<noteq> [] \<and> same_key G confirmed k"

lemma vouched_wire: "vouched G a b k \<Longrightarrow> pk_wire j = pk_wire k \<Longrightarrow> vouched G a b j"
  unfolding vouched_def using same_key_wire by blast

lemma ValidateConnection_offers:
  fixes s :: "('r, 'z) netenv_scheme"
  assumes law: "handshake_ok G" and run: "ValidateConnection G d trusted confirmed s = (Inr (obs, err), t)"
  shows "offered_to G (vouched G trusted confirmed) s t \<and>
    (err = None \<longrightarrow> (\<exists>k. parseTrustedHostKey G (AuthorizedKey obs) = Inr k \<and> vouched G trusted confirmed k)) \<and>
    ((\<exists>e. err = Some e \<and> IsHostKeyTrustError e) \<longrightarrow> offered_to G (\<lambda>_. False) s t)"
proof -
  obtain p u where probe: "ProbeHostKey G (dt_host d) (dt_port d) s = (p, u :: ('r, 'z) netenv_scheme)" by fastforce
  note probed = ProbeHostKey_offers [OF law probe]
  show ?thesis
  proof (cases p)
    case (Inl e)
    with run probe probed show ?thesis by (auto simp: ValidateConnection_def dial_simps)
  next
    case (Inr observed)
    show ?thesis
    proof (cases "verifyObservedHostKey G trusted confirmed observed")
      case Inl': (Inl e)
      with run probe probed Inr show ?thesis by (auto simp: ValidateConnection_def dial_simps)
    next
      case Inr': (Inr accepted)
      note acc = verifyObservedHostKey_accepts [OF Inr']
      then obtain k where k: "parseTrustedHostKey G accepted = Inr k" "vouched G trusted confirmed k"
        unfolding vouched_def by blast
      obtain q v where dial: "DialContext G d accepted False DefaultDialTimeout u = (q, v :: ('r, 'z) netenv_scheme)" by fastforce
      have "offered_to G (vouched G trusted confirmed) u v"
        using DialContext_offers [OF law dial] trusts_accepted [OF k(1)] vouched_wire [OF k(2)] offered_to_mono by blast
      with probed have "offered_to G (vouched G trusted confirmed) s v" by (rule offered_to_trans)
      moreover have "t = v \<and> obs = observed \<and> err = (case q of Inl e \<Rightarrow> Some (if IsHostKeyTrustError e then ChangedDuringValidation else Wrapped e) | Inr _ \<Rightarrow> None)"
        using run probe Inr Inr' dial by (auto simp: ValidateConnection_def dial_simps split: sum.splits)
      ultimately show ?thesis using acc k by (auto simp: IsHostKeyTrustError_def split: sum.splits if_splits)
    qed
  qed
qed

text \<open>
  (C7) Validating a connection sends credentials only to a host that proves to hold the pinned host
  key or the one the user confirmed; the validation succeeds only for such a key; and when the user
  is asked to confirm a key, nothing was sent before.
\<close>

theorem ValidateConnection_correct:
  assumes "handshake_ok G" "ValidateConnection G d trusted confirmed s = (Inr (obs, err), t)"
  shows "(\<exists>new. offers t = new @ offers s \<and>
      (\<forall>(n, a, ms) \<in> set new. ms \<noteq> [] \<longrightarrow> (\<exists>k. presented G n a = Some k \<and> vouched G trusted confirmed k)) \<and>
      ((\<exists>e. err = Some e \<and> IsHostKeyTrustError e) \<longrightarrow> (\<forall>(n, a, ms) \<in> set new. ms = []))) \<and>
    (err = None \<longrightarrow> (\<exists>k. parseTrustedHostKey G (AuthorizedKey obs) = Inr k \<and> vouched G trusted confirmed k))"
proof -
  note post = ValidateConnection_offers [OF assms]
  then obtain new where new: "offers t = new @ offers s"
    "\<forall>(n, a, ms) \<in> set new. ms \<noteq> [] \<longrightarrow> (\<exists>k. presented G n a = Some k \<and> vouched G trusted confirmed k)"
    unfolding offered_to_def by blast
  moreover have "\<forall>(n, a, ms) \<in> set new. ms = []" if "\<exists>e. err = Some e \<and> IsHostKeyTrustError e"
  proof -
    from that post have "offered_to G (\<lambda>_. False) s t" by blast
    then obtain new' where "offers t = new' @ offers s" "\<forall>(n, a, ms) \<in> set new'. ms = []"
      unfolding offered_to_def by fastforce
    with new(1) show ?thesis by simp
  qed
  ultimately show ?thesis using post by blast
qed

lemma LogAdd_offers [simp]: "offers (log_event a b c d e f g s) = offers s"
  by (simp add: log_event_def Let_def)

lemma loginMonitor_offers:
  assumes law: "handshake_ok G"
  shows "loginMonitor_run G L d h legacy lrs st s = (r, t) \<Longrightarrow> offered_to G (trusts G h legacy) s t"
proof (induction lrs arbitrary: st s r)
  case (Cons lr lrs)
  let ?dial = "if lm_connected st then ret () else bindE (DialContext G d h legacy DefaultDialTimeout) (\<lambda>_. ret ())"
  obtain q u where dial: "?dial s = (q, u)" by fastforce
  have u: "offered_to G (trusts G h legacy) s u"
    using dial DialContext_offers [OF law, of d h legacy DefaultDialTimeout s]
    by (cases "DialContext G d h legacy DefaultDialTimeout s") (auto simp: bindE_run ret_def split: if_splits sum.splits)
  from Cons dial show ?case
    by (auto simp: tryE_run bindE_run ret_def Let_def split: if_splits prod.splits option.splits sum.splits
        intro: u offered_to_trans [OF u])
qed (simp add: ret_def)

lemma ssh_work_offers: "handshake_ok G \<Longrightarrow> ssh_work G L d h legacy rd s = (r, t) \<Longrightarrow> offered_to G (trusts G h legacy) s t"
  by (auto simp: ssh_work_def bindE_run ret_def split: option.splits if_splits prod.splits sum.splits dest: loginMonitor_offers)

lemma SSH_offers:
  assumes law: "handshake_ok G"
  shows "SSH G L text_of d h legacy sid tid rds backoff s = (r, t) \<Longrightarrow> offered_to G (trusts G h legacy) s t"
proof (induction rds arbitrary: backoff s)
  case (Cons rd rds)
  obtain q u where dial: "DialContext G d h legacy DefaultDialTimeout s = (q, u)" by fastforce
  note dialled = conjunct1 [OF DialContext_offers [OF law dial]]
  show ?case
  proof (cases q)
    case (Inl e)
    with Cons dial dialled show ?thesis
      by (auto simp: tryE_run raise_def split: if_splits
          intro: offered_to_trans offered_to_trans [OF dialled offered_to_same])
  next
    case (Inr n)
    obtain w v where work: "ssh_work G L d h legacy rd u = (w :: ssh_err + bool, v)" by fastforce
    note worked = offered_to_trans [OF dialled ssh_work_offers [OF law work]]
    from Inr Cons dial worked work show ?thesis
      by (cases w) (auto simp: dial_simps work split: if_splits intro: offered_to_trans [OF worked])
  qed
qed (simp add: ret_def)

text \<open>
  (C19) For as long as the loop of a connection runs, the credentials it and the login monitor it starts dial with go only to
  hosts that prove to hold the pinned key; only a server that was explicitly left to trust any host, and has no
  pinned key, is an exception.
\<close>

theorem SSH_sends_to_trusted:
  assumes "handshake_ok G" "SSH G L text_of d h legacy sid tid rds initialBackoff s = (r, t)" "\<not> legacy \<or> trim_space h \<noteq> []"
  shows "\<exists>new. offers t = new @ offers s \<and>
    (\<forall>(n, a, ms) \<in> set new. ms \<noteq> [] \<longrightarrow> (\<exists>k. presented G n a = Some k \<and> same_key G h k))"
proof -
  have "trusts G h legacy k \<Longrightarrow> same_key G h k" for k using assms(3) by (auto simp: trusts_def)
  then have "offered_to G (same_key G h) s t" by (rule offered_to_mono [OF SSH_offers [OF assms(1,2)]])
  then show ?thesis by (simp add: offered_to_def)
qed

lemma backoff_bounds: "second \<le> b \<Longrightarrow> b \<le> maxBackoff \<Longrightarrow> second \<le> next_backoff b \<and> next_backoff b \<le> maxBackoff \<and> b \<le> next_backoff b"
  by (simp add: next_backoff_def maxBackoff_def Let_def)

lemma parse_marshal:
  assumes "keys_ok G"
  obtains k' where "parseTrustedHostKey G (AuthorizedKey (observedHostKey G k)) = Inr k'" "pk_wire k' = pk_wire k"
proof -
  from assms obtain k' rest where "ParseAuthorizedKey G (trim_space (MarshalAuthorizedKey G k)) = Some (k', rest)"
    "trim_space rest = []" "pk_wire k' = pk_wire k" "trim_space (MarshalAuthorizedKey G k) \<noteq> []"
    unfolding keys_ok_def by blast
  then have "parseTrustedHostKey G (AuthorizedKey (observedHostKey G k)) = Inr k'"
    by (simp add: parseTrustedHostKey_def observedHostKey_def)
  with \<open>pk_wire k' = pk_wire k\<close> that show thesis by blast
qed

lemma NormalizeHostKey_Inr_iff:
  "NormalizeHostKey G a = Inr x \<longleftrightarrow> (\<exists>k. parseTrustedHostKey G a = Inr k \<and> x = AuthorizedKey (observedHostKey G k))"
  by (auto simp: NormalizeHostKey_def split: sum.splits)

text \<open>
  Comparing two host keys agrees with comparing what they normalise to up to the comparison of
  keys: a key equals its normal form, and two spellings are equal exactly when their normal forms are.
\<close>

theorem HostKeysEqual_normal:
  assumes "keys_ok G" "NormalizeHostKey G a = Inr x" "NormalizeHostKey G b = Inr y"
  shows "HostKeysEqual G a x \<and> HostKeysEqual G a b = HostKeysEqual G x y"
proof -
  from assms(2,3) obtain k l where k: "parseTrustedHostKey G a = Inr k" "x = AuthorizedKey (observedHostKey G k)"
    and l: "parseTrustedHostKey G b = Inr l" "y = AuthorizedKey (observedHostKey G l)"
    by (auto simp: NormalizeHostKey_Inr_iff)
  from parse_marshal [OF assms(1), of k] obtain k' where k': "parseTrustedHostKey G x = Inr k'" "pk_wire k' = pk_wire k" using k(2) by metis
  from parse_marshal [OF assms(1), of l] obtain l' where l': "parseTrustedHostKey G y = Inr l'" "pk_wire l' = pk_wire l" using l(2) by metis
  from k k' l l' show ?thesis by (simp add: HostKeysEqual_def)
qed

section \<open>A sample host\<close>

text \<open>
  Keys are written as their wire format in hexadecimal after a prefix; every address presents one
  key, and a handshake that passes the callback offers the first method.
\<close>

definition sample_parse :: "string \<Rightarrow> (PublicKey \<times> string) option" where
  "sample_parse s =
     (if has_prefix ''k-'' s then map_option (\<lambda>w. (\<lparr>pk_wire = w, pk_certificate = False\<rparr>, [])) (hex_decode (drop 2 s)) else None)"

definition sample_handshake :: "AuthMethod list \<Rightarrow> host_key_callback \<Rightarrow> PublicKey \<Rightarrow> handshake" where
  "sample_handshake auth cb k =
     (case cb k of
        Some e \<Rightarrow> \<lparr>hs_error = Some (Wrapped e), hs_seen = Some k, hs_offered = []\<rparr>
      | None \<Rightarrow> \<lparr>hs_error = None, hs_seen = Some k, hs_offered = take 1 auth\<rparr>)"

definition host_key :: PublicKey where "host_key = \<lparr>pk_wire = ''h1'', pk_certificate = False\<rparr>"

definition sample_ssh :: gossh where
  "sample_ssh = \<lparr>ParseAuthorizedKey = sample_parse, MarshalAuthorizedKey = (\<lambda>k. ''k-'' @ hex_encode (pk_wire k)),
     FingerprintSHA256 = pk_wire, ParsePrivateKey = (\<lambda>_ _. None), NewCertSigner = (\<lambda>_ _. None), pem_Decode = (\<lambda>_. None),
     pem_EncodeToMemory = pb_bytes, presented = (\<lambda>_ _. Some host_key),
     NewClientConn = (\<lambda>n a u auth cb. sample_handshake auth cb host_key)\<rparr>"

lemma sample_ssh_handshake: "handshake_ok sample_ssh"
  by (auto simp: handshake_ok_def handshake_law_def sample_ssh_def sample_handshake_def split: option.splits dest: in_set_takeD)

lemma hex_digit_not_space: "n < 16 \<Longrightarrow> \<not> is_space (hex_digit n)"
proof
  assume n: "n < 16" and "is_space (hex_digit n)"
  then have "hex_digit n \<in> set [CHR 0x09, CHR 0x0A, CHR 0x0B, CHR 0x0C, CHR 0x0D, CHR 0x20]" by (simp only: is_space_def)
  moreover have "list_all (\<lambda>c. hex_value c = None) [CHR 0x09, CHR 0x0A, CHR 0x0B, CHR 0x0C, CHR 0x0D, CHR 0x20]" by code_simp
  ultimately have "hex_value (hex_digit n) = None" unfolding list_all_iff by blast
  with hex_value_digit [OF n] show False by simp
qed

lemma hex_encode_no_space: "c \<in> set (hex_encode s) \<Longrightarrow> \<not> is_space c"
  by (induction s rule: hex_encode.induct) (auto simp: Let_def hex_digit_not_space byte_less div_less_iff_less_mult)

lemma trim_space_none: "(\<And>c. c \<in> set s \<Longrightarrow> \<not> is_space c) \<Longrightarrow> trim_space s = s"
proof -
  assume none: "\<And>c. c \<in> set s \<Longrightarrow> \<not> is_space c"
  have "dropWhile is_space t = t" if "set t = set s" for t using none that by (cases t) auto
  then show ?thesis by (simp add: trim_space_def)
qed

lemma sample_ssh_keys: "keys_ok sample_ssh"
proof -
  have "\<not> is_space (CHR ''k'')" "\<not> is_space (CHR ''-'')" by code_simp+
  then have "trim_space (''k-'' @ hex_encode w) = ''k-'' @ hex_encode w" for w
    by (intro trim_space_none) (auto dest: hex_encode_no_space)
  moreover have "trim_space [] = []" by code_simp
  ultimately show ?thesis
    by (simp add: keys_ok_def sample_ssh_def sample_parse_def has_prefix_def)
qed

definition sample_net :: "dial_outcome \<Rightarrow> unit netenv" where
  "sample_net oc =
     \<lparr>calls = 0, outcomes = (\<lambda>_. Done), reads = 0, clock = (\<lambda>_. 0), team_seq = 0,
      tabs = \<lparr>users = [], teams = [], m_team_user = [], users_config = [], categories = []\<rparr>,
      db = no_servers, draws = 0, entropy = (\<lambda>_ n. Some (replicate n CHR ''n'')), hub_key = replicate 32 CHR ''k'',
      hub_ciphers = sample_ciphers, entries = [], connectPool = [], retries = [], reconcileRetries = [],
      managed = [], mainConnections = [], hub_redis = (), auditLogs = None, log_count = 0, log_branches = (\<lambda>_. SelectSend),
      status_data = [], rand_ints = (\<lambda>_ _. Some 0), uuids = (\<lambda>_. Some ''u''), keypairs = (\<lambda>_. Some (''seed'', ''pub'')),
      pem_encode = (\<lambda>t b. t @ b), sha256_hex = (\<lambda>x. x), conf_token = ''t'', conf_domain = ''hub'',
      dialled = 0, dials = (\<lambda>_. oc), offers = []\<rparr>"

definition dial_ok :: dial_outcome where
  "dial_ok = \<lparr>do_expired = False, do_connected = True, do_has_deadline = False, do_deadline_set = True,
     do_expired_after = False, do_deadline_cleared = True\<rparr>"

definition sample_target :: dial_target where
  "sample_target = \<lparr>dt_host = ''h'', dt_port = 22, dt_user = ''root'', dt_password = ''pw'', dt_key = [], dt_key_password = []\<rparr>"

definition sample_round :: round where
  "sample_round = \<lparr>rd_stopped = False, rd_wait_stopped = False, rd_os = Some ''Linux'',
     rd_logins = [\<lparr>lr_stopped = False, lr_probe = Inl NetErr, lr_after_stopped = True, lr_wait_stopped = True\<rparr>], rd_collected = True, rd_after_stopped = False\<rparr>"

definition sample_stamps :: login_stamps where
  "sample_stamps = \<lparr>full_stamp = (\<lambda>_. None), minute_stamp = (\<lambda>x. x), is_short_stamp = (\<lambda>_. False)\<rparr>"

text \<open>The user confirmed the key of the host; then the password was sent, once.\<close>

theorem ValidateConnection_correct_witness:
  "offers (snd (ValidateConnection sample_ssh sample_target [] ''k-6831'' (sample_net dial_ok) :: (unit + _) \<times> _)) =
     [(1, ''h:22'', [Password ''pw'']), (0, ''h:22'', [])] \<and>
   (\<exists>k. parseTrustedHostKey sample_ssh ''k-6831'' = Inr k \<and> vouched sample_ssh [] ''k-6831'' k)"
proof -
  let ?run = "ValidateConnection sample_ssh sample_target [] ''k-6831'' (sample_net dial_ok) :: (unit + _) \<times> _"
  have offers: "offers (snd ?run) = [(1, ''h:22'', [Password ''pw'']), (0, ''h:22'', [])]" by code_simp
  have "fst ?run = Inr (\<lparr>AuthorizedKey = ''k-6831'', Fingerprint = ''h1''\<rparr>, None)" by code_simp
  then have "?run = (Inr (\<lparr>AuthorizedKey = ''k-6831'', Fingerprint = ''h1''\<rparr>, None), snd ?run)" by (simp only: prod_eq_iff fst_conv snd_conv)
  from conjunct2 [OF ValidateConnection_correct [OF sample_ssh_handshake this], rule_format, OF refl] offers
  show ?thesis by (simp only: ObservedHostKey.select_convs)
qed

theorem SSH_sends_to_trusted_witness:
  "offers (snd (SSH sample_ssh sample_stamps (\<lambda>_. []) sample_target ''k-6831'' False 5 7 [sample_round] initialBackoff (sample_net dial_ok))) =
     [(1, ''h:22'', [Password ''pw'']), (0, ''h:22'', [Password ''pw''])] \<and> presented sample_ssh 1 ''h:22'' = Some host_key \<and> same_key sample_ssh ''k-6831'' host_key"
proof -
  let ?run = "SSH sample_ssh sample_stamps (\<lambda>_. []) sample_target ''k-6831'' False 5 7 [sample_round] initialBackoff (sample_net dial_ok)"
  have offers: "offers (snd ?run) = [(1, ''h:22'', [Password ''pw'']), (0, ''h:22'', [Password ''pw''])]" by code_simp
  have none: "offers (sample_net dial_ok) = []" by (simp add: sample_net_def)
  from SSH_sends_to_trusted [where L = sample_stamps and text_of = "\<lambda>_. []" and d = sample_target and h = "''k-6831''" and legacy = False and sid = 5 and tid = 7
      and rds = "[sample_round]" and s = "sample_net dial_ok", OF sample_ssh_handshake prod.collapse [symmetric]]
  have "\<exists>k. presented sample_ssh 1 ''h:22'' = Some k \<and> same_key sample_ssh ''k-6831'' k"
    unfolding offers none append_Nil2 by fastforce
  moreover have "presented sample_ssh 1 ''h:22'' = Some host_key" by (simp add: sample_ssh_def)
  ultimately show ?thesis using offers by simp
qed

theorem HostKeysEqual_normal_witness:
  "NormalizeHostKey sample_ssh '' k-6831'' = Inl InvalidKey \<and> NormalizeHostKey sample_ssh ''k-6831'' = Inr ''k-6831'' \<and>
   HostKeysEqual sample_ssh ''k-6831'' ''k-6831''"
proof -
  have "NormalizeHostKey sample_ssh ''k-6831'' = Inr ''k-6831''" "NormalizeHostKey sample_ssh '' k-6831'' = Inl InvalidKey"
    by code_simp+
  with HostKeysEqual_normal [OF sample_ssh_keys this(1) this(1)] show ?thesis by blast
qed

end
