(* ===== verification/Log_Query.thy ===== *)
theory Log_Query
  imports Prelude Go_Strings
begin

text \<open>
  Reading the audit log: \<open>internal/influx/log_record.go\<close>. Filters are checked, a Flux query is
  rendered with its values as string literals, and the answer is cut into pages that a cursor
  continues. The text that reaches the query is a sequence of code points, as ranging over a Go
  string yields them. The database and the formatting of instants are parameters.
\<close>

section \<open>Flux string literals\<close>

type_synonym runes = "nat list"

definition ascii :: "string \<Rightarrow> runes" where
  "ascii s = map of_char s"

definition flux_escape :: "nat \<Rightarrow> runes" where
  "flux_escape r =
     (if r = 92 then [92, 92] else if r = 34 then [92, 34] else if r = 36 then [92, 36]
      else if r = 10 then [92, 110] else if r = 13 then [92, 114] else if r = 9 then [92, 116] else [r])"

definition fluxStringLiteral :: "runes \<Rightarrow> runes" where
  "fluxStringLiteral s = 34 # concat (map flux_escape s) @ [34]"

section \<open>Filters\<close>

datatype log_err = ErrInvalidLogFilter | ErrLogQuery

definition validLogCategories :: "runes list" where
  "validLogCategories = map ascii [''category'', ''login'', ''oauth'', ''security'', ''server'', ''settings'', ''team'', ''terminal'', ''user'']"

definition validLogLevels :: "runes list" where
  "validLogLevels = map ascii [''low'', ''medium'', ''high'']"

definition maxLogMessageFilterLength :: nat where "maxLogMessageFilterLength = 256"

definition maxLogPageSize :: int where "maxLogPageSize = 1000"

definition defaultLogRange :: duration where "defaultLogRange = 30 * 24 * hour"

definition maxLogRange :: duration where "maxLogRange = 365 * 24 * hour"

definition maxLogMessageSearchRange :: duration where "maxLogMessageSearchRange = 30 * 24 * hour"

text \<open>A filter is set unless it is empty or \<open>all\<close>.\<close>

definition filter_set :: "runes \<Rightarrow> bool" where
  "filter_set f \<longleftrightarrow> f \<noteq> [] \<and> f \<noteq> ascii ''all''"

definition ValidateLogFilters :: "runes \<Rightarrow> runes \<Rightarrow> runes \<Rightarrow> log_err + unit" where
  "ValidateLogFilters category level message =
     (if filter_set category \<and> category \<notin> set validLogCategories then Inl ErrInvalidLogFilter
      else if filter_set level \<and> level \<notin> set validLogLevels then Inl ErrInvalidLogFilter
      else if length message > maxLogMessageFilterLength then Inl ErrInvalidLogFilter
      else Inr ())"

definition ValidateLogPageSize :: "int \<Rightarrow> log_err + unit" where
  "ValidateLogPageSize pageSize =
     (if pageSize < 1 \<or> pageSize > maxLogPageSize then Inl ErrInvalidLogFilter else Inr ())"

text \<open>The package \<open>time\<close>: \<open>time.Parse\<close> of RFC 3339 text, with or without a fraction, and \<open>Format(time.RFC3339Nano)\<close>.\<close>

record time_codec =
  rfc3339 :: "string \<Rightarrow> go_time option"
  rfc3339nano :: "go_time \<Rightarrow> string"

definition ParseLogTimeRange :: "time_codec \<Rightarrow> string \<Rightarrow> string \<Rightarrow> runes \<Rightarrow> go_time \<Rightarrow> log_err + (go_time \<times> go_time)" where
  "ParseLogTimeRange T startValue endValue message now =
     (case (if endValue \<noteq> [] then rfc3339 T endValue else Some now) of
        None \<Rightarrow> Inl ErrInvalidLogFilter
      | Some stop \<Rightarrow>
          (case (if startValue \<noteq> [] then rfc3339 T startValue else Some (stop - defaultLogRange)) of
             None \<Rightarrow> Inl ErrInvalidLogFilter
           | Some start \<Rightarrow>
               let duration = time_sub stop start in
               if duration \<le> 0 then Inl ErrInvalidLogFilter
               else if duration > maxLogRange then Inl ErrInvalidLogFilter
               else if message \<noteq> [] \<and> duration > maxLogMessageSearchRange then Inl ErrInvalidLogFilter
               else Inr (start, stop)))"

section \<open>Cursors\<close>

text \<open>\<open>base64.RawURLEncoding\<close>: the URL alphabet without padding.\<close>

definition to_url :: "char \<Rightarrow> char" where
  "to_url c = (if c = CHR ''+'' then CHR ''-'' else if c = CHR ''/'' then CHR ''_'' else c)"

definition from_url :: "char \<Rightarrow> char" where
  "from_url c = (if c = CHR ''-'' then CHR ''+'' else if c = CHR ''_'' then CHR ''/''
     else if c = CHR ''+'' \<or> c = CHR ''/'' then CHR ''='' else c)"

definition b64_url_encode :: "string \<Rightarrow> string" where
  "b64_url_encode s = map to_url (b64_encode s)"

definition b64_url_decode :: "string \<Rightarrow> string option" where
  "b64_url_decode s = b64_decode (map from_url s)"

definition encodeLogCursor :: "time_codec \<Rightarrow> go_time \<Rightarrow> string" where
  "encodeLogCursor T t = b64_url_encode (rfc3339nano T t)"

definition decodeLogCursor :: "time_codec \<Rightarrow> string \<Rightarrow> log_err + go_time" where
  "decodeLogCursor T cursor =
     (case b64_url_decode cursor of
        None \<Rightarrow> Inl ErrInvalidLogFilter
      | Some v \<Rightarrow> (case rfc3339 T v of None \<Rightarrow> Inl ErrInvalidLogFilter | Some t \<Rightarrow> Inr t))"

section \<open>The query\<close>

definition nl_tab :: runes where "nl_tab = [10, 9]"

definition dquote :: string where "dquote = [CHR 0x22]"

text \<open>The filters on a tag, before and after the pivot.\<close>

definition before_tag :: "string \<Rightarrow> runes \<Rightarrow> runes" where
  "before_tag tag val =
     (if filter_set val then
        nl_tab @ ascii (''|> filter(fn: (r) => if exists r.'' @ tag @ '' then r.'' @ tag @ '' == '') @
          fluxStringLiteral val @ ascii '' else true)''
      else [])"

definition after_tag :: "string \<Rightarrow> runes \<Rightarrow> runes" where
  "after_tag tag val =
     (if filter_set val then
        nl_tab @ ascii (''|> filter(fn: (r) => r['' @ dquote @ tag @ dquote @ ''] == '') @ fluxStringLiteral val @ ascii '')''
      else [])"

definition join_or :: "runes list \<Rightarrow> runes" where
  "join_or xs = concat (map (\<lambda>(i, x). (if i > 0 then ascii '' or '' else []) @ x) (enumerate 0 xs))"

definition user_filter :: "int list \<Rightarrow> runes" where
  "user_filter userIDs =
     (if userIDs \<noteq> [] then
        nl_tab @ ascii ''|> filter(fn: (r) => ('' @
          join_or (map (\<lambda>uid. ascii (''r['' @ dquote @ ''user_id'' @ dquote @ ''] == '' @ itoa uid)) userIDs) @ ascii ''))''
      else [])"

definition message_filter :: "runes \<Rightarrow> runes" where
  "message_filter message =
     (if message \<noteq> [] then
        nl_tab @ ascii (''|> filter(fn: (r) => strings.containsStr(v: r['' @ dquote @ ''message'' @ dquote @ ''], substr: '') @
          fluxStringLiteral message @ ascii ''))''
      else [])"

definition buildLogQuery ::
  "time_codec \<Rightarrow> int \<Rightarrow> int \<Rightarrow> runes \<Rightarrow> runes \<Rightarrow> int list \<Rightarrow> runes \<Rightarrow> go_time \<Rightarrow> go_time \<Rightarrow> runes" where
  "buildLogQuery T teamID limit category level userIDs message start stop =
     (if message \<noteq> [] then ascii (''import '' @ dquote @ ''strings'' @ dquote) @ [10] else []) @
     ascii (''from(bucket: '' @ dquote @ ''logs'' @ dquote @ '')'') @
     nl_tab @ ascii ''|> range(start: time(v: '' @ fluxStringLiteral (ascii (rfc3339nano T start)) @
       ascii ''), stop: time(v: '' @ fluxStringLiteral (ascii (rfc3339nano T stop)) @ ascii ''))'' @
     nl_tab @ ascii (''|> filter(fn: (r) => r._measurement == '' @ dquote @ ''logs'' @ dquote @ '')'') @
     nl_tab @ ascii (''|> filter(fn: (r) => r['' @ dquote @ ''team_id'' @ dquote @ ''] == '') @ fluxStringLiteral (ascii (itoa teamID)) @ ascii '')'' @
     before_tag ''category'' category @ before_tag ''level'' level @
     nl_tab @ ascii (''|> pivot(rowKey: ['' @ dquote @ ''_time'' @ dquote @ ''], columnKey: ['' @ dquote @ ''_field'' @ dquote @
       ''], valueColumn: '' @ dquote @ ''_value'' @ dquote @ '')'') @
     after_tag ''category'' category @ after_tag ''level'' level @ user_filter userIDs @ message_filter message @
     nl_tab @ ascii ''|> group()'' @
     nl_tab @ ascii (''|> sort(columns: ['' @ dquote @ ''_time'' @ dquote @ ''], desc: true)'') @
     nl_tab @ ascii (''|> limit(n: '' @ itoa limit @ '')'')"

section \<open>Pages\<close>

datatype log_value = LInt int | LStr runes | LOther

text \<open>A record of the answer: its time and the values of its columns.\<close>

record log_row =
  lr_time :: go_time
  lr_values :: "string \<Rightarrow> log_value option"

record Log =
  lg_time :: go_time
  lg_user :: int
  lg_category :: runes
  lg_message :: runes
  lg_ip :: runes
  lg_country :: runes
  lg_country_code :: runes
  lg_user_agent :: runes
  lg_level :: runes

record LogPage =
  Logs :: "Log list"
  NextCursor :: string
  HasMore :: bool

definition int_value :: "log_value option \<Rightarrow> int" where
  "int_value v = (case v of Some (LInt i) \<Rightarrow> i | _ \<Rightarrow> 0)"

definition str_value :: "log_value option \<Rightarrow> runes" where
  "str_value v = (case v of Some (LStr s) \<Rightarrow> s | _ \<Rightarrow> [])"

definition logRecord :: "log_row \<Rightarrow> Log" where
  "logRecord r = \<lparr>lg_time = lr_time r, lg_user = int_value (lr_values r ''user_id''),
     lg_category = str_value (lr_values r ''category''), lg_message = str_value (lr_values r ''message''),
     lg_ip = str_value (lr_values r ''ip''), lg_country = str_value (lr_values r ''ip_country''),
     lg_country_code = str_value (lr_values r ''ip_country_code''), lg_user_agent = str_value (lr_values r ''user_agent''),
     lg_level = str_value (lr_values r ''level'')\<rparr>"

definition empty_page :: LogPage where
  "empty_page = \<lparr>Logs = [], NextCursor = [], HasMore = False\<rparr>"

definition page_of :: "time_codec \<Rightarrow> nat \<Rightarrow> Log list \<Rightarrow> LogPage" where
  "page_of T pageSize logs =
     (if length logs > pageSize then
        \<lparr>Logs = take pageSize logs, NextCursor = encodeLogCursor T (lg_time (logs ! (pageSize - 1))), HasMore = True\<rparr>
      else \<lparr>Logs = logs, NextCursor = [], HasMore = False\<rparr>)"

text \<open>The end of the range a cursor leaves to be read; \<open>None\<close> when nothing is left.\<close>

definition cursor_end :: "time_codec \<Rightarrow> go_time \<Rightarrow> go_time \<Rightarrow> string \<Rightarrow> log_err + go_time option" where
  "cursor_end T start stop cursor =
     (if cursor = [] then Inr (Some stop)
      else case decodeLogCursor T cursor of
        Inl e \<Rightarrow> Inl e
      | Inr cursorTime \<Rightarrow>
          if cursorTime < start \<or> cursorTime > stop then Inl ErrInvalidLogFilter
          else if cursorTime = start then Inr None
          else Inr (Some cursorTime))"

text \<open>\<open>query\<close> is the query API of the database: \<open>None\<close> when it fails, at once or while the records are read.\<close>

definition GetLogs ::
  "time_codec \<Rightarrow> (runes \<Rightarrow> log_row list option) \<Rightarrow> int \<Rightarrow> int \<Rightarrow> runes \<Rightarrow> runes \<Rightarrow> int list \<Rightarrow> runes \<Rightarrow>
   go_time \<Rightarrow> go_time \<Rightarrow> string \<Rightarrow> log_err + LogPage" where
  "GetLogs T query teamID pageSize category level userIDs message start stop cursor =
     (case ValidateLogFilters category level message of Inl e \<Rightarrow> Inl e | Inr _ \<Rightarrow>
      case ValidateLogPageSize pageSize of Inl e \<Rightarrow> Inl e | Inr _ \<Rightarrow>
      if \<not> start < stop \<or> time_sub stop start > maxLogRange \<or>
         message \<noteq> [] \<and> time_sub stop start > maxLogMessageSearchRange then Inl ErrInvalidLogFilter
      else case cursor_end T start stop cursor of
        Inl e \<Rightarrow> Inl e
      | Inr None \<Rightarrow> Inr empty_page
      | Inr (Some queryEnd) \<Rightarrow>
          (case query (buildLogQuery T teamID (pageSize + 1) category level userIDs message start queryEnd) of
             None \<Rightarrow> Inl ErrLogQuery
           | Some rows \<Rightarrow> Inr (page_of T (nat pageSize) (map logRecord rows))))"

section \<open>Reading all pages\<close>

text \<open>A point of the bucket: its measurement, its tags and its fields.\<close>

record log_point =
  pt_time :: go_time
  pt_measurement :: runes
  pt_tags :: "string \<Rightarrow> runes option"
  pt_fields :: "string \<Rightarrow> log_value option"

text \<open>
  The stages of a Flux pipeline as the language documents them. Until the pivot a record holds the tags of a point and one of its fields, after it
  all its columns. Records are in one table only after \<open>group()\<close>, so only then sorting and limiting concern all of them. A text between
  double quotes stands for itself when it has no quote, backslash, dollar sign or control character.
\<close>

datatype flux_stage =
    FxRange go_time go_time
  | FxMeasurement runes
  | FxTagIs string runes
  | FxIfTag string runes
  | FxPivot
  | FxUsers "int list"
  | FxContains string runes
  | FxGroup
  | FxNewest
  | FxLimit int

definition plain :: "runes \<Rightarrow> bool" where
  "plain s \<longleftrightarrow> list_all (\<lambda>r. r \<ge> 32 \<and> r \<noteq> 34 \<and> r \<noteq> 36 \<and> r \<noteq> 92) s"

definition quoted :: "runes \<Rightarrow> runes" where
  "quoted s = 34 # s @ [34]"

fun stage_text :: "time_codec \<Rightarrow> flux_stage \<Rightarrow> runes" where
  "stage_text T (FxRange a b) = ascii ''|> range(start: time(v: '' @ quoted (ascii (rfc3339nano T a)) @
     ascii ''), stop: time(v: '' @ quoted (ascii (rfc3339nano T b)) @ ascii ''))''"
| "stage_text T (FxMeasurement m) = ascii ''|> filter(fn: (r) => r._measurement == '' @ quoted m @ ascii '')''"
| "stage_text T (FxTagIs tag v) = ascii (''|> filter(fn: (r) => r['' @ dquote @ tag @ dquote @ ''] == '') @ quoted v @ ascii '')''"
| "stage_text T (FxIfTag tag v) = ascii (''|> filter(fn: (r) => if exists r.'' @ tag @ '' then r.'' @ tag @ '' == '') @ quoted v @ ascii '' else true)''"
| "stage_text T FxPivot = ascii (''|> pivot(rowKey: ['' @ dquote @ ''_time'' @ dquote @ ''], columnKey: ['' @ dquote @ ''_field'' @ dquote @
     ''], valueColumn: '' @ dquote @ ''_value'' @ dquote @ '')'')"
| "stage_text T (FxUsers us) = ascii ''|> filter(fn: (r) => ('' @
     join_or (map (\<lambda>u. ascii (''r['' @ dquote @ ''user_id'' @ dquote @ ''] == '' @ itoa u)) us) @ ascii ''))''"
| "stage_text T (FxContains col m) = ascii (''|> filter(fn: (r) => strings.containsStr(v: r['' @ dquote @ col @ dquote @ ''], substr: '') @ quoted m @ ascii ''))''"
| "stage_text T FxGroup = ascii ''|> group()''"
| "stage_text T FxNewest = ascii (''|> sort(columns: ['' @ dquote @ ''_time'' @ dquote @ ''], desc: true)'')"
| "stage_text T (FxLimit n) = ascii (''|> limit(n: '' @ itoa n @ '')'')"

definition flux_text :: "time_codec \<Rightarrow> flux_stage list \<Rightarrow> runes" where
  "flux_text T ps =
     (if list_ex (\<lambda>p. case p of FxContains _ _ \<Rightarrow> True | _ \<Rightarrow> False) ps then ascii (''import '' @ dquote @ ''strings'' @ dquote) @ [10] else []) @
     ascii (''from(bucket: '' @ dquote @ ''logs'' @ dquote @ '')'') @ concat (map (\<lambda>p. nl_tab @ stage_text T p) ps)"

definition column :: "bool \<Rightarrow> log_point \<Rightarrow> string \<Rightarrow> log_value option" where
  "column pivoted p c = (case pt_tags p c of Some v \<Rightarrow> Some (LStr v) | None \<Rightarrow> if pivoted then pt_fields p c else None)"

definition point_row :: "log_point \<Rightarrow> log_row" where
  "point_row p = \<lparr>lr_time = pt_time p, lr_values = column True p\<rparr>"

definition is_sublist :: "runes \<Rightarrow> runes \<Rightarrow> bool" where
  "is_sublist m t \<longleftrightarrow> list_ex (\<lambda>i. take (length m) (drop i t) = m) [0..<Suc (length t)]"

definition newest_first :: "log_point list \<Rightarrow> log_point list" where
  "newest_first ps = rev (sort_key pt_time ps)"

record flux_stream =
  fs_pivoted :: bool
  fs_grouped :: bool
  fs_points :: "log_point list"

text \<open>\<open>None\<close> where the stage would act on each of several tables, or on unpivoted records.\<close>

fun run_stage :: "flux_stage \<Rightarrow> flux_stream \<Rightarrow> flux_stream option" where
  "run_stage (FxRange a b) x = Some (x\<lparr>fs_points := filter (\<lambda>p. a \<le> pt_time p \<and> pt_time p < b) (fs_points x)\<rparr>)"
| "run_stage (FxMeasurement m) x = Some (x\<lparr>fs_points := filter (\<lambda>p. pt_measurement p = m) (fs_points x)\<rparr>)"
| "run_stage (FxTagIs tag v) x = Some (x\<lparr>fs_points := filter (\<lambda>p. column (fs_pivoted x) p tag = Some (LStr v)) (fs_points x)\<rparr>)"
| "run_stage (FxIfTag tag v) x = Some (x\<lparr>fs_points := filter (\<lambda>p. case column (fs_pivoted x) p tag of None \<Rightarrow> True | Some c \<Rightarrow> c = LStr v) (fs_points x)\<rparr>)"
| "run_stage FxPivot x = (if fs_pivoted x then None else Some (x\<lparr>fs_pivoted := True\<rparr>))"
| "run_stage (FxUsers us) x =
     Some (x\<lparr>fs_points := filter (\<lambda>p. list_ex (\<lambda>u. column (fs_pivoted x) p ''user_id'' = Some (LInt u)) us) (fs_points x)\<rparr>)"
| "run_stage (FxContains col m) x =
     Some (x\<lparr>fs_points := filter (\<lambda>p. case column (fs_pivoted x) p col of Some (LStr t) \<Rightarrow> is_sublist m t | _ \<Rightarrow> False) (fs_points x)\<rparr>)"
| "run_stage FxGroup x = Some (x\<lparr>fs_grouped := True\<rparr>)"
| "run_stage FxNewest x = (if fs_grouped x then Some (x\<lparr>fs_points := newest_first (fs_points x)\<rparr>) else None)"
| "run_stage (FxLimit n) x = (if fs_grouped x then Some (x\<lparr>fs_points := take (nat n) (fs_points x)\<rparr>) else None)"

fun run_stages :: "flux_stage list \<Rightarrow> flux_stream \<Rightarrow> flux_stream option" where
  "run_stages [] x = Some x"
| "run_stages (p # ps) x = Option.bind (run_stage p x) (run_stages ps)"

text \<open>The pipeline of a request.\<close>

definition log_stages :: "int \<Rightarrow> int \<Rightarrow> runes \<Rightarrow> runes \<Rightarrow> int list \<Rightarrow> runes \<Rightarrow> go_time \<Rightarrow> go_time \<Rightarrow> flux_stage list" where
  "log_stages teamID limit category level userIDs message start stop =
     [FxRange start stop, FxMeasurement (ascii ''logs''), FxTagIs ''team_id'' (ascii (itoa teamID))] @
     (if filter_set category then [FxIfTag ''category'' category] else []) @ (if filter_set level then [FxIfTag ''level'' level] else []) @
     [FxPivot] @
     (if filter_set category then [FxTagIs ''category'' category] else []) @ (if filter_set level then [FxTagIs ''level'' level] else []) @
     (if userIDs \<noteq> [] then [FxUsers userIDs] else []) @ (if message \<noteq> [] then [FxContains ''message'' message] else []) @
     [FxGroup, FxNewest, FxLimit limit]"

text \<open>
  What is documented of the query API: it answers the text of a pipeline with the records that the stages leave of the points of the bucket,
  in their order.
\<close>

definition answers_flux :: "time_codec \<Rightarrow> log_point list \<Rightarrow> (runes \<Rightarrow> log_row list option) \<Rightarrow> flux_stage list \<Rightarrow> bool" where
  "answers_flux T pts query ps \<longleftrightarrow>
     (case run_stages ps \<lparr>fs_pivoted = False, fs_grouped = False, fs_points = pts\<rparr> of
        None \<Rightarrow> True
      | Some x \<Rightarrow> fs_pivoted x \<longrightarrow> query (flux_text T ps) = Some (map point_row (fs_points x)))"

text \<open>The points a request is about.\<close>

definition selects :: "int \<Rightarrow> runes \<Rightarrow> runes \<Rightarrow> int list \<Rightarrow> runes \<Rightarrow> log_point \<Rightarrow> bool" where
  "selects teamID category level userIDs message p \<longleftrightarrow>
     pt_measurement p = ascii ''logs'' \<and> pt_tags p ''team_id'' = Some (ascii (itoa teamID)) \<and>
     (filter_set category \<longrightarrow> column True p ''category'' = Some (LStr category)) \<and>
     (filter_set level \<longrightarrow> column True p ''level'' = Some (LStr level)) \<and>
     (userIDs \<noteq> [] \<longrightarrow> list_ex (\<lambda>u. column True p ''user_id'' = Some (LInt u)) userIDs) \<and>
     (message \<noteq> [] \<longrightarrow> is_sublist message (str_value (column True p ''message'')))"

definition answer :: "(log_point \<Rightarrow> bool) \<Rightarrow> log_point list \<Rightarrow> go_time \<Rightarrow> go_time \<Rightarrow> log_row list" where
  "answer P pts start stop = map point_row (filter (\<lambda>p. P p \<and> start \<le> pt_time p \<and> pt_time p < stop) (newest_first pts))"

definition codec_ok :: "time_codec \<Rightarrow> go_time set \<Rightarrow> bool" where
  "codec_ok T ts \<longleftrightarrow> (\<forall>t \<in> ts. rfc3339 T (rfc3339nano T t) = Some t \<and> rfc3339nano T t \<noteq> [])"

definition point_times :: "log_point list \<Rightarrow> go_time set" where
  "point_times pts = set (map pt_time pts)"

text \<open>A reader that follows the cursor of every page, at most \<open>n\<close> pages.\<close>

fun read_pages :: "nat \<Rightarrow> (string \<Rightarrow> log_err + LogPage) \<Rightarrow> string \<Rightarrow> log_err + Log list" where
  "read_pages 0 get cursor = Inl ErrLogQuery"
| "read_pages (Suc n) get cursor =
     (case get cursor of
        Inl e \<Rightarrow> Inl e
      | Inr page \<Rightarrow>
          if HasMore page then map_sum id (append (Logs page)) (read_pages n get (NextCursor page))
          else Inr (Logs page))"

subsection \<open>Cursors survive the round trip\<close>

lemma b64_encode_alphabet: "c \<in> set (b64_encode s) \<Longrightarrow> b64_value c \<noteq> None"
  by (auto simp: b64_encode_def b64_value_char dest!: b64_sextets_less [unfolded list_all_iff, rule_format, rotated])

lemma from_to_url: "b64_value c \<noteq> None \<Longrightarrow> from_url (to_url c) = c"
proof -
  assume "b64_value c \<noteq> None"
  moreover have "b64_value (CHR ''-'') = None" "b64_value (CHR ''_'') = None" by code_simp+
  ultimately have "c \<noteq> CHR ''-''" "c \<noteq> CHR ''_''" by auto
  then show ?thesis by (simp add: to_url_def from_url_def)
qed

lemma b64_url_decode_encode: "b64_url_decode (b64_url_encode s) = Some s"
proof -
  have "map from_url (map to_url (b64_encode s)) = b64_encode s"
    unfolding map_map by (rule map_idI) (simp add: from_to_url b64_encode_alphabet)
  then show ?thesis by (simp add: b64_url_decode_def b64_url_encode_def)
qed

lemma decode_encode_cursor: "codec_ok T ts \<Longrightarrow> t \<in> ts \<Longrightarrow> decodeLogCursor T (encodeLogCursor T t) = Inr t"
  by (simp add: decodeLogCursor_def encodeLogCursor_def b64_url_decode_encode codec_ok_def)

lemma encode_cursor_nonempty: "codec_ok T ts \<Longrightarrow> t \<in> ts \<Longrightarrow> encodeLogCursor T t \<noteq> []"
proof
  assume ok: "codec_ok T ts" "t \<in> ts" "encodeLogCursor T t = []"
  then have "b64_url_decode [] = Some (rfc3339nano T t)" using b64_url_decode_encode by (metis encodeLogCursor_def)
  moreover have "b64_url_decode [] = Some []" by code_simp
  ultimately have "rfc3339nano T t = []" by simp
  with ok show False by (simp add: codec_ok_def)
qed

subsection \<open>Pages fit together\<close>

abbreviation falling :: "log_row list \<Rightarrow> bool" where
  "falling xs \<equiv> sorted_wrt (\<lambda>a b. lr_time b < lr_time a) xs"

lemma falling_rest:
  assumes "falling xs" "0 < k" "k \<le> length xs"
  shows "filter (\<lambda>r. lr_time r < lr_time (xs ! (k - 1))) xs = drop k xs"
  using assms
proof (induction xs arbitrary: k)
  case (Cons x xs)
  show ?case
  proof (cases "k = 1")
    case True
    with Cons.prems show ?thesis by (auto simp: filter_id_conv)
  next
    case False
    then obtain j where j: "k = Suc j" "0 < j" using Cons.prems by (cases k) auto
    with Cons.prems have "xs ! (j - 1) \<in> set xs" by (intro nth_mem) auto
    with Cons.prems have "lr_time (xs ! (j - 1)) < lr_time x" by auto
    then have "\<not> lr_time x < lr_time (xs ! (j - 1))" by simp
    with Cons.IH [of j] Cons.prems j show ?thesis by (simp add: nth_Cons')
  qed
qed simp

lemma lr_time_point [simp]: "lr_time (point_row p) = pt_time p"
  by (simp add: point_row_def)

lemma falling_answer:
  assumes "distinct (map pt_time (filter P pts))"
  shows "falling (answer P pts start stop)"
proof -
  have "distinct (map pt_time (filter P (sort_key pt_time pts)))"
    using assms by (simp only: filter_sort distinct_map distinct_sort set_sort)
  moreover have "sorted (map pt_time (filter P (sort_key pt_time pts)))" by (simp add: sorted_filter)
  ultimately have "sorted_wrt (<) (map pt_time (filter P (sort_key pt_time pts)))" by (simp add: strict_sorted_iff)
  then have "sorted_wrt (\<lambda>a b. pt_time b < pt_time a) (filter P (newest_first pts))"
    by (simp add: newest_first_def rev_filter [symmetric] sorted_wrt_rev sorted_wrt_map)
  then have "sorted_wrt (\<lambda>a b. pt_time b < pt_time a) (filter (\<lambda>p. start \<le> pt_time p \<and> pt_time p < stop) (filter P (newest_first pts)))"
    by (rule sorted_wrt_filter)
  then show ?thesis by (simp add: answer_def sorted_wrt_map conj_ac cong: filter_cong)
qed

lemma answer_earlier: "stop' \<le> stop \<Longrightarrow> filter (\<lambda>r. lr_time r < stop') (answer P pts start stop) = answer P pts start stop'"
  by (auto simp: answer_def filter_map o_def intro!: arg_cong [of _ _ "map point_row"] filter_cong)

lemma page_of_rows:
  assumes "0 < n"
  shows "page_of T n (map logRecord (take (Suc n) xs)) =
    (if length xs > n then \<lparr>Logs = map logRecord (take n xs), NextCursor = encodeLogCursor T (lr_time (xs ! (n - 1))), HasMore = True\<rparr>
     else \<lparr>Logs = map logRecord xs, NextCursor = [], HasMore = False\<rparr>)"
  using assms by (auto simp: page_of_def take_map [symmetric] logRecord_def min_def)

text \<open>The parameters of a request that passes the checks.\<close>

definition request_ok :: "int \<Rightarrow> runes \<Rightarrow> runes \<Rightarrow> runes \<Rightarrow> go_time \<Rightarrow> go_time \<Rightarrow> bool" where
  "request_ok pageSize category level message start stop \<longleftrightarrow>
     ValidateLogFilters category level message = Inr () \<and> ValidateLogPageSize pageSize = Inr () \<and>
     start < stop \<and> time_sub stop start \<le> (if message = [] then maxLogRange else maxLogMessageSearchRange)"

lemma request_ok_ranges: "request_ok n c l m a b \<Longrightarrow> \<not> (\<not> a < b \<or> time_sub b a > maxLogRange \<or> m \<noteq> [] \<and> time_sub b a > maxLogMessageSearchRange)"
  by (auto simp: request_ok_def maxLogRange_def maxLogMessageSearchRange_def split: if_splits)

subsection \<open>The text of the query is the text of the pipeline\<close>

lemma ascii_append: "ascii (a @ b) = ascii a @ ascii b"
  by (simp add: ascii_def)

lemma fluxStringLiteral_plain: "plain s \<Longrightarrow> fluxStringLiteral s = quoted s"
proof -
  have "plain s \<Longrightarrow> concat (map flux_escape s) = s"
    by (induction s) (auto simp: plain_def flux_escape_def)
  then show "plain s \<Longrightarrow> fluxStringLiteral s = quoted s" by (simp add: fluxStringLiteral_def quoted_def)
qed

lemma plain_dec: "plain (ascii (dec n))"
proof -
  have "of_char c \<ge> (32 :: nat) \<and> of_char c \<noteq> (34 :: nat) \<and> of_char c \<noteq> (36 :: nat) \<and> of_char c \<noteq> (92 :: nat)" if "c \<in> set (dec n)" for c
    using dec_digits [OF that] by linarith
  then show ?thesis by (simp add: plain_def ascii_def list_all_iff)
qed

lemma plain_itoa: "plain (ascii (itoa i))"
proof -
  have "plain (ascii ''-'')" by code_simp
  with plain_dec show ?thesis by (auto simp: itoa_def plain_def ascii_def)
qed

lemma valid_plain: "ValidateLogFilters category level message = Inr () \<Longrightarrow> (filter_set category \<longrightarrow> plain category) \<and> (filter_set level \<longrightarrow> plain level)"
proof -
  have "list_all plain (validLogCategories @ validLogLevels)" by code_simp
  then show "ValidateLogFilters category level message = Inr () \<Longrightarrow> (filter_set category \<longrightarrow> plain category) \<and> (filter_set level \<longrightarrow> plain level)"
    by (auto simp: ValidateLogFilters_def list_all_iff split: if_splits)
qed

text \<open>Times are written with digits, letters and a few signs.\<close>

definition plain_times :: "time_codec \<Rightarrow> go_time set \<Rightarrow> bool" where
  "plain_times T ts \<longleftrightarrow> (\<forall>t \<in> ts. plain (ascii (rfc3339nano T t)))"

definition stages_text :: "time_codec \<Rightarrow> flux_stage list \<Rightarrow> runes" where
  "stages_text T ps = concat (map (\<lambda>p. nl_tab @ stage_text T p) ps)"

lemma stages_text_append: "stages_text T (a @ b) = stages_text T a @ stages_text T b"
  by (simp add: stages_text_def)

lemma stages_text_Cons: "stages_text T (p # ps) = stages_text T [p] @ stages_text T ps"
  by (simp add: stages_text_def)

lemma measurement_text:
  "ascii ''|> filter(fn: (r) => r._measurement == '' @ quoted (ascii ''logs'') @ ascii '')'' =
   ascii (''|> filter(fn: (r) => r._measurement == '' @ dquote @ ''logs'' @ dquote @ '')'')"
  by code_simp

lemma buildLogQuery_text:
  assumes "ValidateLogFilters category level message = Inr ()" "plain message" "plain_times T ts" "start \<in> ts" "stop \<in> ts"
  shows "buildLogQuery T teamID limit category level userIDs message start stop =
    flux_text T (log_stages teamID limit category level userIDs message start stop)"
proof -
  have lit: "fluxStringLiteral (ascii (rfc3339nano T start)) = quoted (ascii (rfc3339nano T start))"
    "fluxStringLiteral (ascii (rfc3339nano T stop)) = quoted (ascii (rfc3339nano T stop))"
    "fluxStringLiteral (ascii (itoa teamID)) = quoted (ascii (itoa teamID))" "fluxStringLiteral message = quoted message"
    using assms(2-5) by (auto simp: plain_times_def fluxStringLiteral_plain plain_itoa)
  have tags: "filter_set category \<longrightarrow> fluxStringLiteral category = quoted category" "filter_set level \<longrightarrow> fluxStringLiteral level = quoted level"
    using valid_plain [OF assms(1)] by (auto simp: fluxStringLiteral_plain)
  let ?x = "stages_text T"
  have parts: "?x [FxRange start stop] = nl_tab @ ascii ''|> range(start: time(v: '' @ fluxStringLiteral (ascii (rfc3339nano T start)) @
       ascii ''), stop: time(v: '' @ fluxStringLiteral (ascii (rfc3339nano T stop)) @ ascii ''))''"
    "?x [FxMeasurement (ascii ''logs'')] = nl_tab @ ascii (''|> filter(fn: (r) => r._measurement == '' @ dquote @ ''logs'' @ dquote @ '')'')"
    "?x [FxTagIs ''team_id'' (ascii (itoa teamID))] =
       nl_tab @ ascii (''|> filter(fn: (r) => r['' @ dquote @ ''team_id'' @ dquote @ ''] == '') @ fluxStringLiteral (ascii (itoa teamID)) @ ascii '')''"
    by (simp_all only: stages_text_def stage_text.simps lit list.map concat.simps append_Nil2 measurement_text)
  have tag: "?x (if filter_set v then [FxIfTag tag v] else []) = before_tag tag v" "?x (if filter_set v then [FxTagIs tag v] else []) = after_tag tag v"
    if "filter_set v \<longrightarrow> fluxStringLiteral v = quoted v" for tag v
    using that by (simp_all add: stages_text_def before_tag_def after_tag_def)
  have rest: "?x (if userIDs \<noteq> [] then [FxUsers userIDs] else []) = user_filter userIDs"
    "?x (if message \<noteq> [] then [FxContains ''message'' message] else []) = message_filter message"
    by (simp_all add: stages_text_def user_filter_def message_filter_def lit)
  have import_text: "list_ex (\<lambda>p. case p of FxContains _ _ \<Rightarrow> True | _ \<Rightarrow> False)
      (log_stages teamID limit category level userIDs message start stop) = (message \<noteq> [])"
    by (simp add: log_stages_def)
  have stages: "?x (log_stages teamID limit category level userIDs message start stop) =
      ?x [FxRange start stop] @ ?x [FxMeasurement (ascii ''logs'')] @ ?x [FxTagIs ''team_id'' (ascii (itoa teamID))] @
      before_tag ''category'' category @ before_tag ''level'' level @ ?x [FxPivot] @ after_tag ''category'' category @ after_tag ''level'' level @
      user_filter userIDs @ message_filter message @ ?x [FxGroup] @ ?x [FxNewest] @ ?x [FxLimit limit]"
    unfolding log_stages_def stages_text_append tag [OF tags(1)] tag [OF tags(2)] rest
    by (simp only: stages_text_Cons [of T _ "_ # _"] append_assoc)
  show ?thesis unfolding flux_text_def import_text stages_text_def [symmetric] stages parts buildLogQuery_def
    by (simp only: stages_text_def stage_text.simps list.map concat.simps append_Nil2 append_assoc)
qed

lemma run_stages_append: "run_stages (a @ b) x = Option.bind (run_stages a x) (run_stages b)"
  by (induction a arbitrary: x) (simp_all split: bind_splits)

lemma run_optional:
  "run_stages (if filter_set v then [FxIfTag tag v] else []) x =
     Some (x\<lparr>fs_points := filter (\<lambda>p. filter_set v \<longrightarrow> (case column (fs_pivoted x) p tag of None \<Rightarrow> True | Some c \<Rightarrow> c = LStr v)) (fs_points x)\<rparr>)"
  "run_stages (if filter_set v then [FxTagIs tag v] else []) x =
     Some (x\<lparr>fs_points := filter (\<lambda>p. filter_set v \<longrightarrow> column (fs_pivoted x) p tag = Some (LStr v)) (fs_points x)\<rparr>)"
  "run_stages (if us \<noteq> [] then [FxUsers us] else []) x =
     Some (x\<lparr>fs_points := filter (\<lambda>p. us \<noteq> [] \<longrightarrow> list_ex (\<lambda>u. column (fs_pivoted x) p ''user_id'' = Some (LInt u)) us) (fs_points x)\<rparr>)"
  "run_stages (if m \<noteq> [] then [FxContains col m] else []) x =
     Some (x\<lparr>fs_points := filter (\<lambda>p. m \<noteq> [] \<longrightarrow> (case column (fs_pivoted x) p col of Some (LStr t) \<Rightarrow> is_sublist m t | _ \<Rightarrow> False)) (fs_points x)\<rparr>)"
  by simp_all

lemma newest_first_filter: "newest_first (filter P pts) = filter P (newest_first pts)"
  by (simp add: newest_first_def filter_sort [symmetric] rev_filter)

text \<open>What the filters before the pivot let through and the ones after it do not let through again.\<close>

lemma pivot_filters:
  "(case column False p c of None \<Rightarrow> True | Some x \<Rightarrow> x = LStr v) \<and> column True p c = Some (LStr v) \<longleftrightarrow> column True p c = Some (LStr v)"
  "column False p c = Some (LStr v) \<longleftrightarrow> pt_tags p c = Some v"
  by (auto simp: column_def split: option.splits)

lemma contains_filter:
  "m \<noteq> [] \<Longrightarrow> (case column True p c of Some (LStr t) \<Rightarrow> is_sublist m t | _ \<Rightarrow> False) \<longleftrightarrow> is_sublist m (str_value (column True p c))"
  by (auto simp: str_value_def is_sublist_def split: option.splits log_value.splits)

lemma run_log_stages:
  "run_stages (log_stages teamID limit category level userIDs message start stop) \<lparr>fs_pivoted = False, fs_grouped = False, fs_points = pts\<rparr> =
    Some \<lparr>fs_pivoted = True, fs_grouped = True,
      fs_points = take (nat limit) (filter (\<lambda>p. selects teamID category level userIDs message p \<and> start \<le> pt_time p \<and> pt_time p < stop) (newest_first pts))\<rparr>"
proof -
  let ?before = "\<lambda>c v p. filter_set v \<longrightarrow> (case column False p c of None \<Rightarrow> True | Some x \<Rightarrow> x = LStr v)"
  let ?tag = "\<lambda>c v p. filter_set v \<longrightarrow> column True p c = Some (LStr v)"
  let ?P = "\<lambda>p. (((((((start \<le> pt_time p \<and> pt_time p < stop) \<and> pt_measurement p = ascii ''logs'') \<and>
      column False p ''team_id'' = Some (LStr (ascii (itoa teamID)))) \<and> ?before ''category'' category p) \<and> ?before ''level'' level p) \<and>
      ?tag ''category'' category p) \<and> ?tag ''level'' level p) \<and>
      (userIDs \<noteq> [] \<longrightarrow> list_ex (\<lambda>u. column True p ''user_id'' = Some (LInt u)) userIDs) \<and>
      (message \<noteq> [] \<longrightarrow> (case column True p ''message'' of Some (LStr t) \<Rightarrow> is_sublist message t | _ \<Rightarrow> False))"
  have same: "?P p \<longleftrightarrow> selects teamID category level userIDs message p \<and> start \<le> pt_time p \<and> pt_time p < stop" for p
    using pivot_filters(1) [where p = p and c = "''category''" and v = category] pivot_filters(1) [where p = p and c = "''level''" and v = level] pivot_filters(2) [where p = p and c = "''team_id''" and v = "ascii (itoa teamID)"]
      contains_filter [where m = message and p = p and c = "''message''"]
    unfolding selects_def by blast
  have "run_stages (log_stages teamID limit category level userIDs message start stop) \<lparr>fs_pivoted = False, fs_grouped = False, fs_points = pts\<rparr> =
      Some \<lparr>fs_pivoted = True, fs_grouped = True, fs_points = take (nat limit) (filter ?P (newest_first pts))\<rparr>"
    unfolding log_stages_def by (simp add: run_stages_append run_optional newest_first_filter conj_assoc del: ex_simps)
  then show ?thesis unfolding same .
qed

lemma GetLogs_page:
  assumes "request_ok pageSize category level message start stop" "plain message" "plain_times T (insert start stops)"
    "\<forall>e \<in> stops. answers_flux T pts query (log_stages teamID (pageSize + 1) category level userIDs message start e)" "queryEnd \<in> stops"
    "cursor_end T start stop cursor = Inr (Some queryEnd)"
  shows "GetLogs T query teamID pageSize category level userIDs message start stop cursor =
    Inr (page_of T (nat pageSize) (map logRecord (take (Suc (nat pageSize))
      (answer (selects teamID category level userIDs message) pts start queryEnd))))"
proof -
  have n: "0 \<le> pageSize + 1" "nat (pageSize + 1) = Suc (nat pageSize)"
    using assms(1) by (auto simp: request_ok_def ValidateLogPageSize_def split: if_splits)
  have valid: "ValidateLogFilters category level message = Inr ()" using assms(1) by (simp add: request_ok_def)
  from assms(4,5) n(2) have "query (flux_text T (log_stages teamID (pageSize + 1) category level userIDs message start queryEnd)) =
      Some (take (Suc (nat pageSize)) (answer (selects teamID category level userIDs message) pts start queryEnd))"
    by (simp add: answers_flux_def run_log_stages answer_def take_map)
  then have "query (buildLogQuery T teamID (pageSize + 1) category level userIDs message start queryEnd) =
      Some (take (Suc (nat pageSize)) (answer (selects teamID category level userIDs message) pts start queryEnd))"
    using buildLogQuery_text [OF valid assms(2,3), of start queryEnd] assms(5) by simp
  moreover note request_ok_ranges [OF assms(1)]
  ultimately show ?thesis using assms(1,6) unfolding GetLogs_def request_ok_def by simp
qed

lemma GetLogs_nothing_left:
  assumes "request_ok pageSize category level message start stop" "cursor_end T start stop cursor = Inr None"
  shows "GetLogs T query teamID pageSize category level userIDs message start stop cursor = Inr empty_page"
  using assms request_ok_ranges [OF assms(1)] unfolding GetLogs_def request_ok_def by simp

lemma cursor_end_of_row:
  assumes "codec_ok T ts" "t \<in> ts" "start \<le> t" "t \<le> stop"
  shows "cursor_end T start stop (encodeLogCursor T t) = Inr (if t = start then None else Some t)"
  using assms by (simp add: cursor_end_def encode_cursor_nonempty [OF assms(1)] decode_encode_cursor [OF assms(1)])

lemma answer_rows: "r \<in> set (answer P pts start stop) \<Longrightarrow> start \<le> lr_time r \<and> lr_time r < stop \<and> lr_time r \<in> point_times pts"
  by (auto simp: answer_def newest_first_def point_times_def)

lemma answer_nothing: "answer P pts start start = []"
  by (auto simp: answer_def)

text \<open>Reading on from any cursor yields what is left of the range.\<close>

lemma read_pages_left:
  assumes ok: "request_ok pageSize category level message start stop"
    and served: "\<forall>e \<in> insert stop (point_times pts). answers_flux T pts query (log_stages teamID (pageSize + 1) category level userIDs message start e)"
    and texts: "plain message" "plain_times T (insert start (insert stop (point_times pts)))"
    and codec: "codec_ok T (point_times pts)"
    and P: "P = selects teamID category level userIDs message" and times: "distinct (map pt_time (filter P pts))"
    and cursor: "cursor_end T start stop cursor = Inr (if t = start then None else Some t)" and t: "start \<le> t" "t \<le> stop" "t \<in> insert stop (point_times pts)"
    and fuel: "length (answer P pts start t) < n"
  shows "read_pages n (GetLogs T query teamID pageSize category level userIDs message start stop) cursor =
    Inr (map logRecord (answer P pts start t))"
  using cursor t fuel
proof (induction n arbitrary: cursor t)
  case (Suc n)
  let ?get = "GetLogs T query teamID pageSize category level userIDs message start stop"
  let ?k = "nat pageSize" and ?left = "answer P pts start t"
  have k: "0 < ?k" using ok by (auto simp: request_ok_def ValidateLogPageSize_def split: if_splits)
  consider "t = start" | "t \<noteq> start" "length ?left \<le> ?k" | "t \<noteq> start" "?k < length ?left" by linarith
  then show ?case
  proof cases
    case 1
    with GetLogs_nothing_left [OF ok] Suc.prems(1) show ?thesis by (simp add: empty_page_def answer_nothing)
  next
    case 2
    with GetLogs_page [OF ok texts served Suc.prems(4)] Suc.prems(1) k show ?thesis by (simp add: page_of_rows P)
  next
    case 3
    let ?u = "lr_time (?left ! (?k - 1))"
    have mem: "?left ! (?k - 1) \<in> set ?left" using 3 k by (intro nth_mem) auto
    have u: "start \<le> ?u" "?u \<le> stop" "?u \<in> point_times pts" using answer_rows [OF mem] Suc.prems(3) by auto
    have rest: "answer P pts start ?u = drop ?k ?left"
      using falling_rest [OF falling_answer [OF times] k] 3 answer_earlier [of ?u t P pts start] answer_rows [OF mem] by simp
    have short: "length (answer P pts start ?u) < n" unfolding rest length_drop using Suc.prems(5) 3 k by linarith
    have "read_pages n ?get (encodeLogCursor T ?u) = Inr (map logRecord (answer P pts start ?u))"
      using u short by (intro Suc.IH cursor_end_of_row [OF codec]) auto
    with GetLogs_page [OF ok texts served Suc.prems(4)] Suc.prems(1) k 3 rest show ?thesis
      by (simp add: page_of_rows P flip: map_append)
  qed
qed simp

subsection \<open>What a reader of the text sees outside of string literals\<close>

text \<open>
  A reader of Flux text that knows no more than this: a double quote opens a string literal, in a literal a backslash
  takes the next character with it and the next double quote closes the literal. The text it sees outside
  of literals, with the quotes; and whether it meets a dollar sign in a literal without a backslash, which could start an interpolation.
  The position is 0 outside, 1 in a literal, 2 after a backslash.
\<close>

definition scan_step :: "nat \<Rightarrow> nat \<Rightarrow> nat" where
  "scan_step st c = (if st = 0 then (if c = 34 then 1 else 0) else if st = 1 then (if c = 34 then 0 else if c = 92 then 2 else 1) else 1)"

fun code_seen :: "nat \<Rightarrow> runes \<Rightarrow> runes" where
  "code_seen st [] = []"
| "code_seen st (c # s) = (if st = 0 \<or> st = 1 \<and> c = 34 then Cons c else id) (code_seen (scan_step st c) s)"

fun interpolates :: "nat \<Rightarrow> runes \<Rightarrow> bool" where
  "interpolates st [] = False"
| "interpolates st (c # s) \<longleftrightarrow> st = 1 \<and> c = 36 \<or> interpolates (scan_step st c) s"

lemma code_seen_append: "code_seen st (a @ b) = code_seen st a @ code_seen (foldl scan_step st a) b"
  by (induction a arbitrary: st) simp_all

lemma interpolates_append: "interpolates st (a @ b) \<longleftrightarrow> interpolates st a \<or> interpolates (foldl scan_step st a) b"
  by (induction a arbitrary: st) simp_all

text \<open>Two texts that are the same to this reader, and leave it outside of literals.\<close>

definition same_code :: "runes \<Rightarrow> runes \<Rightarrow> bool" where
  "same_code a b \<longleftrightarrow> foldl scan_step 0 a = 0 \<and> foldl scan_step 0 b = 0 \<and> code_seen 0 a = code_seen 0 b \<and> \<not> interpolates 0 a \<and> \<not> interpolates 0 b"

lemma same_code_append: "same_code a b \<Longrightarrow> same_code c d \<Longrightarrow> same_code (a @ c) (b @ d)"
  by (simp add: same_code_def code_seen_append interpolates_append)

lemma same_code_self: "foldl scan_step 0 a = 0 \<Longrightarrow> \<not> interpolates 0 a \<Longrightarrow> same_code a a"
  by (simp add: same_code_def)

lemma escape_stays: "foldl scan_step 1 (flux_escape r) = 1 \<and> code_seen 1 (flux_escape r) = [] \<and> \<not> interpolates 1 (flux_escape r)"
  by (simp add: flux_escape_def scan_step_def)

lemma escapes_stay:
  "foldl scan_step 1 (concat (map flux_escape s)) = 1 \<and> code_seen 1 (concat (map flux_escape s)) = [] \<and> \<not> interpolates 1 (concat (map flux_escape s))"
  using escape_stays by (induction s) (simp_all add: code_seen_append interpolates_append)

lemma same_code_literal: "same_code (fluxStringLiteral s) (fluxStringLiteral t)"
  using escapes_stay [of s] escapes_stay [of t]
  by (simp add: same_code_def fluxStringLiteral_def code_seen_append interpolates_append scan_step_def)

lemma same_code_no_quote: "34 \<notin> set a \<Longrightarrow> same_code a a"
proof -
  assume a: "34 \<notin> set a"
  then have "foldl scan_step 0 a = 0 \<and> \<not> interpolates 0 a" by (induction a) (simp_all add: scan_step_def)
  then show ?thesis by (intro same_code_self) simp_all
qed

lemma same_code_itoa: "same_code (ascii (itoa i)) (ascii (itoa i))"
  using plain_itoa [of i] by (intro same_code_no_quote) (auto simp: plain_def list_all_iff)

text \<open>The fixed parts of the query.\<close>

lemma same_code_fixed:
  "same_code nl_tab nl_tab" "same_code (ascii (''import '' @ dquote @ ''strings'' @ dquote) @ [10]) (ascii (''import '' @ dquote @ ''strings'' @ dquote) @ [10])"
  "same_code (ascii (''from(bucket: '' @ dquote @ ''logs'' @ dquote @ '')'')) (ascii (''from(bucket: '' @ dquote @ ''logs'' @ dquote @ '')''))"
  "same_code (ascii ''|> range(start: time(v: '') (ascii ''|> range(start: time(v: '')" "same_code (ascii ''), stop: time(v: '') (ascii ''), stop: time(v: '')"
  "same_code (ascii ''))'') (ascii ''))'')" "same_code (ascii '')'') (ascii '')'')" "same_code (ascii '' else true)'') (ascii '' else true)'')"
  "same_code (ascii (''|> filter(fn: (r) => r._measurement == '' @ dquote @ ''logs'' @ dquote @ '')'')) (ascii (''|> filter(fn: (r) => r._measurement == '' @ dquote @ ''logs'' @ dquote @ '')''))"
  "same_code (ascii (''|> filter(fn: (r) => r['' @ dquote @ ''team_id'' @ dquote @ ''] == '')) (ascii (''|> filter(fn: (r) => r['' @ dquote @ ''team_id'' @ dquote @ ''] == ''))"
  "same_code (ascii (''|> filter(fn: (r) => r['' @ dquote @ ''category'' @ dquote @ ''] == '')) (ascii (''|> filter(fn: (r) => r['' @ dquote @ ''category'' @ dquote @ ''] == ''))"
  "same_code (ascii (''|> filter(fn: (r) => r['' @ dquote @ ''level'' @ dquote @ ''] == '')) (ascii (''|> filter(fn: (r) => r['' @ dquote @ ''level'' @ dquote @ ''] == ''))"
  "same_code (ascii (''|> filter(fn: (r) => if exists r.'' @ ''category'' @ '' then r.'' @ ''category'' @ '' == '')) (ascii (''|> filter(fn: (r) => if exists r.'' @ ''category'' @ '' then r.'' @ ''category'' @ '' == ''))"
  "same_code (ascii (''|> filter(fn: (r) => if exists r.'' @ ''level'' @ '' then r.'' @ ''level'' @ '' == '')) (ascii (''|> filter(fn: (r) => if exists r.'' @ ''level'' @ '' then r.'' @ ''level'' @ '' == ''))"
  "same_code (ascii (''|> pivot(rowKey: ['' @ dquote @ ''_time'' @ dquote @ ''], columnKey: ['' @ dquote @ ''_field'' @ dquote @ ''], valueColumn: '' @ dquote @ ''_value'' @ dquote @ '')''))
    (ascii (''|> pivot(rowKey: ['' @ dquote @ ''_time'' @ dquote @ ''], columnKey: ['' @ dquote @ ''_field'' @ dquote @ ''], valueColumn: '' @ dquote @ ''_value'' @ dquote @ '')''))"
  "same_code (ascii (''|> filter(fn: (r) => strings.containsStr(v: r['' @ dquote @ ''message'' @ dquote @ ''], substr: ''))
    (ascii (''|> filter(fn: (r) => strings.containsStr(v: r['' @ dquote @ ''message'' @ dquote @ ''], substr: ''))"
  "same_code (ascii ''|> filter(fn: (r) => ('') (ascii ''|> filter(fn: (r) => ('')" "same_code (ascii '' or '') (ascii '' or '')"
  "same_code (ascii (''r['' @ dquote @ ''user_id'' @ dquote @ ''] == '')) (ascii (''r['' @ dquote @ ''user_id'' @ dquote @ ''] == ''))"
  "same_code (ascii ''|> group()'') (ascii ''|> group()'')"
  "same_code (ascii (''|> sort(columns: ['' @ dquote @ ''_time'' @ dquote @ ''], desc: true)'')) (ascii (''|> sort(columns: ['' @ dquote @ ''_time'' @ dquote @ ''], desc: true)''))"
  "same_code (ascii ''|> limit(n: '') (ascii ''|> limit(n: '')"
  by code_simp+

lemma same_code_nil: "same_code [] []"
  by (simp add: same_code_def)

lemma same_code_if: "p = q \<Longrightarrow> same_code a b \<Longrightarrow> same_code c d \<Longrightarrow> same_code (if p then a else c) (if q then b else d)"
  by simp

lemma same_code_users: "same_code (user_filter us) (user_filter us)"
proof -
  have one: "same_code (ascii (''r['' @ dquote @ ''user_id'' @ dquote @ ''] == '' @ itoa u)) (ascii (''r['' @ dquote @ ''user_id'' @ dquote @ ''] == '' @ itoa u))" for u
    using same_code_append [OF same_code_fixed(19) same_code_itoa [of u]] by (simp only: ascii_append append_assoc)
  have "same_code (concat (map (\<lambda>(i, x). (if i > 0 then ascii '' or '' else []) @ x) (enumerate n (map (\<lambda>u. ascii (''r['' @ dquote @ ''user_id'' @ dquote @ ''] == '' @ itoa u)) us))))
      (concat (map (\<lambda>(i, x). (if i > 0 then ascii '' or '' else []) @ x) (enumerate n (map (\<lambda>u. ascii (''r['' @ dquote @ ''user_id'' @ dquote @ ''] == '' @ itoa u)) us))))" for n
  proof (induction us arbitrary: n)
    case (Cons u us)
    have "same_code (if n > 0 then ascii '' or '' else []) (if n > 0 then ascii '' or '' else [])" by (simp add: same_code_fixed same_code_nil)
    from same_code_append [OF same_code_append [OF this one] Cons.IH [of "Suc n"]] show ?case by simp
  qed (simp add: same_code_nil)
  then have "same_code (join_or (map (\<lambda>u. ascii (''r['' @ dquote @ ''user_id'' @ dquote @ ''] == '' @ itoa u)) us))
      (join_or (map (\<lambda>u. ascii (''r['' @ dquote @ ''user_id'' @ dquote @ ''] == '' @ itoa u)) us))" by (simp only: join_or_def)
  then show ?thesis unfolding user_filter_def
    by (cases "us = []") (simp_all only: if_True if_False simp_thms same_code_nil, intro same_code_append same_code_fixed)
qed

section \<open>Properties\<close>

text \<open>
  (C31) No filter leaves its string literal: to a reader of the query, the text outside of string literals is the same whatever the
  texts of the filters are, as long as the same ones are set, so they add nothing to the pipeline and take nothing from it; and no dollar sign
  stands in a literal without a backslash before it, so none of them starts an interpolation.
\<close>

theorem buildLogQuery_contained:
  assumes "filter_set category = filter_set category'" "filter_set level = filter_set level'" "message = [] \<longleftrightarrow> message' = []"
  shows "code_seen 0 (buildLogQuery T teamID limit category level userIDs message start stop) =
      code_seen 0 (buildLogQuery T teamID limit category' level' userIDs message' start stop) \<and>
    \<not> interpolates 0 (buildLogQuery T teamID limit category level userIDs message start stop)"
proof -
  note rules = same_code_if same_code_append same_code_fixed same_code_literal same_code_nil
  have before: "same_code (before_tag ''category'' category) (before_tag ''category'' category')" "same_code (before_tag ''level'' level) (before_tag ''level'' level')"
    unfolding before_tag_def by (intro rules assms(1,2))+
  have after: "same_code (after_tag ''category'' category) (after_tag ''category'' category')" "same_code (after_tag ''level'' level) (after_tag ''level'' level')"
    unfolding after_tag_def by (intro rules assms(1,2))+
  have set: "message \<noteq> [] \<longleftrightarrow> message' \<noteq> []" using assms(3) by simp
  have msg: "same_code (message_filter message) (message_filter message')"
    unfolding message_filter_def by (intro rules set)
  have imp: "same_code (if message \<noteq> [] then ascii (''import '' @ dquote @ ''strings'' @ dquote) @ [10] else [])
      (if message' \<noteq> [] then ascii (''import '' @ dquote @ ''strings'' @ dquote) @ [10] else [])"
    by (intro same_code_if set same_code_fixed same_code_nil)
  have lim: "same_code (ascii (''|> limit(n: '' @ itoa limit @ '')'')) (ascii (''|> limit(n: '' @ itoa limit @ '')''))"
    using same_code_append [OF same_code_fixed(22) same_code_append [OF same_code_itoa [of limit] same_code_fixed(7)]] by (simp only: ascii_append append_assoc)
  have "same_code (buildLogQuery T teamID limit category level userIDs message start stop) (buildLogQuery T teamID limit category' level' userIDs message' start stop)"
    unfolding buildLogQuery_def
    by (intro rules imp lim before after msg same_code_users)
  then show ?thesis by (simp add: same_code_def)
qed

text \<open>
  (C30) Following the cursors from the first page to the last reads exactly the records of the team
  that pass the filters in the requested range, newest first, each once, when no two of them have
  the same time and the searched text needs no escape: the reader needs at most one page more than there are points. The
  database is assumed to run the stages of a pipeline as documented, and nothing else.
\<close>

theorem read_pages_correct:
  assumes "request_ok pageSize category level message start stop"
    "\<forall>e \<in> insert stop (point_times pts). answers_flux T pts query (log_stages teamID (pageSize + 1) category level userIDs message start e)"
    "plain message" "plain_times T (insert start (insert stop (point_times pts)))" "codec_ok T (point_times pts)"
    "distinct (map pt_time (filter (selects teamID category level userIDs message) pts))"
    "length pts < n"
  shows "read_pages n (GetLogs T query teamID pageSize category level userIDs message start stop) [] =
    Inr (map (logRecord \<circ> point_row) (filter (\<lambda>p. selects teamID category level userIDs message p \<and>
      start \<le> pt_time p \<and> pt_time p < stop) (newest_first pts)))"
proof -
  have "start < stop" using assms(1) by (simp add: request_ok_def)
  moreover have "length (answer (selects teamID category level userIDs message) pts start stop) < n"
    using assms(7) by (auto simp: answer_def newest_first_def intro: le_less_trans [OF length_filter_le])
  ultimately show ?thesis
    using read_pages_left [OF assms(1-5) refl assms(6), of "[]" stop n] by (simp add: cursor_end_def answer_def)
qed

section \<open>Samples\<close>

definition sample_point :: "go_time \<Rightarrow> int \<Rightarrow> string \<Rightarrow> log_point" where
  "sample_point t team msg = \<lparr>pt_time = t, pt_measurement = ascii ''logs'', pt_tags = [''team_id'' \<mapsto> ascii (itoa team), ''level'' \<mapsto> ascii ''low''],
     pt_fields = [''user_id'' \<mapsto> LInt 1, ''message'' \<mapsto> LStr (ascii msg)]\<rparr>"

definition sample_points :: "log_point list" where
  "sample_points = [sample_point 10 7 ''one'', sample_point 15 8 ''other team'', sample_point 20 7 ''two'']"

definition sample_codec :: time_codec where
  "sample_codec = \<lparr>rfc3339 = parse_int64, rfc3339nano = itoa\<rparr>"

text \<open>A database that knows the pipelines of this range.\<close>

definition sample_query :: "runes \<Rightarrow> log_row list option" where
  "sample_query s = Option.bind (find (\<lambda>ps. s = flux_text sample_codec ps) (map (log_stages 7 2 [] (ascii ''low'') [] [] 0) [30, 20, 15, 10]))
     (\<lambda>ps. map_option (map point_row \<circ> fs_points) (run_stages ps \<lparr>fs_pivoted = False, fs_grouped = False, fs_points = sample_points\<rparr>))"

lemma sample_serves:
  "\<forall>e \<in> insert 30 (point_times sample_points). answers_flux sample_codec sample_points sample_query (log_stages 7 (1 + 1) [] (ascii ''low'') [] [] 0 e)"
proof -
  have times: "insert 30 (point_times sample_points) = set [30, 20, 15, 10]"
    by (auto simp: point_times_def sample_points_def sample_point_def)
  have "list_all (\<lambda>e. find (\<lambda>ps. flux_text sample_codec (log_stages 7 2 [] (ascii ''low'') [] [] 0 e) = flux_text sample_codec ps)
      (map (log_stages 7 2 [] (ascii ''low'') [] [] 0) [30, 20, 15, 10]) = Some (log_stages 7 2 [] (ascii ''low'') [] [] 0 e)) [30, 20, 15, 10]"
    by code_simp
  then show ?thesis unfolding times by (simp add: sample_query_def answers_flux_def run_log_stages)
qed

theorem read_pages_correct_witness:
  "read_pages 4 (GetLogs sample_codec sample_query 7 1 [] (ascii ''low'') [] [] 0 30) [] =
     Inr [logRecord (point_row (sample_point 20 7 ''two'')), logRecord (point_row (sample_point 10 7 ''one''))]"
proof -
  have c: "request_ok 1 [] (ascii ''low'') [] 0 30" "plain []" "codec_ok sample_codec (point_times sample_points)"
    "plain_times sample_codec (insert 0 (insert 30 (point_times sample_points)))"
    "distinct (map pt_time (filter (selects 7 [] (ascii ''low'') [] []) sample_points))" "length sample_points < 4"
    by code_simp+
  from read_pages_correct [OF c(1) sample_serves c(2,4,3,5,6)]
  have "read_pages 4 (GetLogs sample_codec sample_query 7 1 [] (ascii ''low'') [] [] 0 30) [] =
    Inr (map (logRecord \<circ> point_row) (filter (\<lambda>p. selects 7 [] (ascii ''low'') [] [] p \<and>
      0 \<le> pt_time p \<and> pt_time p < 30) (newest_first sample_points)))" .
  moreover have "ascii (itoa 7) \<noteq> ascii (itoa 8)" by code_simp
  then have "filter (\<lambda>p. selects 7 [] (ascii ''low'') [] [] p \<and>
      0 \<le> pt_time p \<and> pt_time p < 30) (newest_first sample_points) = [sample_point 20 7 ''two'', sample_point 10 7 ''one'']"
    by (simp add: newest_first_def sample_points_def selects_def sample_point_def column_def filter_set_def insort_key_def)
  ultimately show ?thesis by simp
qed

theorem buildLogQuery_contained_witness:
  "code_seen 0 (buildLogQuery sample_codec 7 2 [] (ascii ''low'') [] (ascii (''x'' @ dquote @ '') |> drop()'')) 0 30) =
     code_seen 0 (buildLogQuery sample_codec 7 2 [] (ascii ''low'') [] (ascii ''x'') 0 30) \<and>
   \<not> interpolates 0 (buildLogQuery sample_codec 7 2 [] (ascii ''low'') [] (ascii (''x'' @ dquote @ '') |> drop()'')) 0 30)"
  by (rule buildLogQuery_contained) (code_simp | simp)+

end
