(* ===== verification/Server_Handlers.thy ===== *)
theory Server_Handlers
  imports SSH_Trust Log_Query
begin

text \<open>
  The pages of servers, keys and categories: \<open>internal/app/api/server\<close>, \<open>keys\<close> and
  \<open>category\<close>, with the enrolment of passive agents (\<open>internal/app/agent/enroll.go\<close>). Each
  handler is whole: its checks, its statements, what it does to the connections of the server and
  what it writes to the audit log. Forms map the names of fields to their values.
\<close>

declare map_of_eq_Some_iff [simp del]

section \<open>Requests and answers\<close>

record hub_request =
  hr_uid :: int
  hr_tid :: int
  hr_id :: string              \<comment> \<open>the path parameter\<close>
  hr_form :: "string \<Rightarrow> string"
  hr_ip :: string
  hr_ua :: string

datatype answer_data =
    NoData
  | ServerId int
  | ActiveAgent "int option" string int string string   \<comment> \<open>server, host, port, agent uid, public key in base64\<close>
  | PassiveAgent "int option" string string             \<comment> \<open>server, hub and enrolment token\<close>
  | ConfirmHostKey string string bool                   \<comment> \<open>fingerprint, host key, changed\<close>
  | ServerInfo "srv_row \<times> server_details option \<times> connection_info"
  | KeyList "(int \<times> string) list"
  | CategoryList "(int \<times> string \<times> int) list"
  | AgentUID string

type_synonym answer = "response \<times> answer_data"

type_synonym ('r, 'z, 'a) page = "(('r, 'z) netenv_scheme, answer, 'a) io"

definition fails :: "nat \<Rightarrow> string \<Rightarrow> ('r, 'z, 'a) page" where
  "fails status code = raise ((status, code), NoData)"

text \<open>\<open>if err != nil { return utils.ErrorHandler(c, err, msg) }\<close>\<close>

definition orError :: "(('r, 'z) netenv_scheme, err, 'a) io \<Rightarrow> ('r, 'z, 'a) page" where
  "orError m = tryE m (\<lambda>r. case r of Inl _ \<Rightarrow> raise (ErrorHandler, NoData) | Inr x \<Rightarrow> ret x)"

text \<open>\<open>log.Println\<close> of an error that does not end the handler.\<close>

definition logged :: "(('r, 'z) netenv_scheme, err, unit) io \<Rightarrow> ('r, 'z, unit) page" where
  "logged m = tryE m (\<lambda>_. ret ())"

definition ok :: "answer_data \<Rightarrow> ('r, 'z, answer) page" where
  "ok d = ret ((200, ''ok''), d)"

definition audit :: "hub_request \<Rightarrow> string \<Rightarrow> string \<Rightarrow> string \<Rightarrow> ('r, 'z, unit) page" where
  "audit rq category message level = LogAdd (hr_tid rq) (hr_uid rq) category message (hr_ip rq) (hr_ua rq) level"

text \<open>
  A transaction whose statements answer the request when they fail. The sequences of the
  identifiers are not rolled back.
\<close>

definition roll_back :: "server_db \<Rightarrow> server_db \<Rightarrow> server_db" where
  "roll_back old new = old\<lparr>srv_seq := srv_seq new, key_seq := key_seq new, cat_seq := cat_seq new\<rparr>"

definition page_transaction :: "('r, 'z, 'a) page \<Rightarrow> ('r, 'z, 'a) page" where
  "page_transaction body = (\<lambda>s. case next_call s of (oc, t) \<Rightarrow>
     (if oc \<noteq> Done then (Inl (ErrorHandler, NoData), t)
      else case body t of
        (Inl e, u) \<Rightarrow> (Inl e, u\<lparr>db := roll_back (db t) (db u)\<rparr>)
      | (Inr x, u) \<Rightarrow> (case next_call u of (oc', v) \<Rightarrow>
          (case oc' of
             Done \<Rightarrow> (Inr x, v)
           | Failed \<Rightarrow> (Inl (ErrorHandler, NoData), v\<lparr>db := roll_back (db t) (db u)\<rparr>)
           | Lost \<Rightarrow> (Inl (ErrorHandler, NoData), v)))))"

section \<open>Validating SSH connections: ssh_validate.go\<close>

record sshValidationResult =
  vr_HostKey :: string
  vr_Fingerprint :: string
  vr_Changed :: bool
  vr_Previous :: "string option"

definition no_validation :: sshValidationResult where
  "no_validation = \<lparr>vr_HostKey = [], vr_Fingerprint = [], vr_Changed = False, vr_Previous = None\<rparr>"

definition wrap_err :: "('e \<Rightarrow> 'f) \<Rightarrow> ('s, 'e, 'a) io \<Rightarrow> ('s, 'f, 'a) io" where
  "wrap_err f m = tryE m (\<lambda>r. case r of Inl e \<Rightarrow> raise (f e) | Inr x \<Rightarrow> ret x)"

definition key_material :: "int \<Rightarrow> int \<Rightarrow> server_db \<Rightarrow> (string \<times> string) option" where
  "key_material teamID keyID d =
     (case map_of (cred_keys d) keyID of
        Some r \<Rightarrow> if k_team r = teamID then Some (k_content r, case k_password r of Some p \<Rightarrow> p | None \<Rightarrow> []) else None
      | None \<Rightarrow> None)"

definition loadSSHKeyMaterial :: "int \<Rightarrow> int \<Rightarrow> (('r, 'z) netenv_scheme, ssh_err, string \<times> string) io" where
  "loadSSHKeyMaterial teamID keyID =
     (if keyID = 0 then ret ([], [])
      else
        bindE (wrap_err (\<lambda>e. if e = ErrNoRows then KeyNotFound keyID else OtherErr e) (query_db_row (key_material teamID keyID)))
          (\<lambda>(contentEncrypted, passwordEncrypted).
        wrap_err OtherErr (
          bindE (decrypt_nonempty contentEncrypted (KeyContentContext keyID)) (\<lambda>key.
          bindE (decrypt_nonempty passwordEncrypted (KeyPasswordContext keyID)) (\<lambda>keyPwd.
          ret (key, keyPwd))))))"

definition validateSSHConnectionForAdd ::
  "gossh \<Rightarrow> int \<Rightarrow> string \<Rightarrow> int \<Rightarrow> string \<Rightarrow> string \<Rightarrow> int \<Rightarrow> string \<Rightarrow> ('r, 'z, sshValidationResult \<times> ssh_err option) page" where
  "validateSSHConnectionForAdd G teamID address port uname pwd keyID confirmedHostKey =
     (if address = [] \<or> port = 0 \<or> uname = [] then ret (no_validation, Some IncompleteConnection)
      else tryE (loadSSHKeyMaterial teamID keyID) (\<lambda>res. case res of
        Inl e \<Rightarrow> ret (no_validation, Some e)
      | Inr (key, keyPwd) \<Rightarrow>
          bindE (ValidateConnection G \<lparr>dt_host = address, dt_port = port, dt_user = uname, dt_password = pwd,
              dt_key = key, dt_key_password = keyPwd\<rparr> [] confirmedHostKey) (\<lambda>(observed, err).
          ret (no_validation\<lparr>vr_HostKey := AuthorizedKey observed, vr_Fingerprint := Fingerprint observed\<rparr>, err))))"

definition ssh_account :: "int \<Rightarrow> server_db \<Rightarrow> (string \<times> int \<times> string option) option" where
  "ssh_account serverID d = map_option (\<lambda>r. (ssh_password r, ssh_key_id r, ssh_host_key r)) (map_of (sshs d) serverID)"

text \<open>The account and the credentials an edit is validated with.\<close>

definition edit_credentials ::
  "int \<Rightarrow> int \<Rightarrow> ServerFullType \<Rightarrow> (('r, 'z) netenv_scheme, ssh_err, dial_target \<times> string option) io" where
  "edit_credentials teamID serverID data =
     bindE (wrap_err OtherErr (query_db_row (ssh_account serverID))) (\<lambda>(passwordEncrypted, currentKeyID, currentHostKey).
     bindE (if sf_password data = [] \<and> passwordEncrypted \<noteq> []
            then wrap_err OtherErr (hub_decrypt passwordEncrypted (SSHPasswordContext serverID))
            else ret (sf_password data)) (\<lambda>pwd.
     bindE (loadSSHKeyMaterial teamID (if sf_key_id data = 0 then currentKeyID else sf_key_id data)) (\<lambda>(key, keyPwd).
     ret (\<lparr>dt_host = sf_address data, dt_port = sf_port data, dt_user = sf_username data, dt_password = pwd,
            dt_key = key, dt_key_password = keyPwd\<rparr>, currentHostKey))))"

definition validateSSHConnectionForEdit ::
  "gossh \<Rightarrow> int \<Rightarrow> int \<Rightarrow> ServerFullType \<Rightarrow> ('r, 'z, sshValidationResult \<times> ssh_err option) page" where
  "validateSSHConnectionForEdit G teamID serverID data =
     (if sf_address data = [] \<or> sf_port data = 0 \<or> sf_username data = [] then ret (no_validation, Some IncompleteConnection)
      else tryE (edit_credentials teamID serverID data) (\<lambda>res. case res of
        Inl e \<Rightarrow> ret (no_validation, Some e)
      | Inr (target, currentHostKey) \<Rightarrow>
          let current = (case currentHostKey of None \<Rightarrow> [] | Some h \<Rightarrow> h) in
          bindE (ValidateConnection G target current (sf_host_key data)) (\<lambda>(observed, err).
          ret (\<lparr>vr_HostKey = AuthorizedKey observed, vr_Fingerprint = Fingerprint observed,
                vr_Changed = (current \<noteq> [] \<and> \<not> HostKeysEqual G current (AuthorizedKey observed)),
                vr_Previous = currentHostKey\<rparr>, err))))"

definition sshHostKeyConfirmationRequired :: "sshValidationResult \<Rightarrow> ('r, 'z, 'a) page" where
  "sshHostKeyConfirmationRequired v =
     raise ((409, ''ssh_host_key_confirmation_required''), ConfirmHostKey (vr_Fingerprint v) (vr_HostKey v) (vr_Changed v))"

section \<open>Adding a server: add.go\<close>

text \<open>The row of a new server as the form gives it.\<close>

definition new_server :: "hub_request \<Rightarrow> srv_row" where
  "new_server rq =
     \<lparr>srv_team = hr_tid rq, srv_name = hr_form rq ''name'', srv_type = parse_int64_value (hr_form rq ''mode''),
      srv_category = parse_int64_value (hr_form rq ''category_id''), srv_monitor = (hr_form rq ''allow_monitor'' = ''true''),
      srv_terminal = (hr_form rq ''allow_terminal'' = ''true''), srv_public = (hr_form rq ''public_visible'' \<noteq> ''false''),
      srv_weight = parse_int64_value (hr_form rq ''weight'')\<rparr>"

text \<open>\<open>INSERT INTO servers\<close>: the category is one of the team, and the columns hold 16 and 32 bits.\<close>

definition insert_server :: "srv_row \<Rightarrow> server_db \<Rightarrow> (server_db \<times> int) option" where
  "insert_server r d =
     (if srv_team r \<notin> set (known_teams d) \<or> \<not> category_of_team d (srv_team r) (srv_category r) \<or>
         \<not> fits 16 (srv_type r) \<or> \<not> fits 32 (srv_weight r) then None
      else Some (d\<lparr>srvs := (srv_seq d + 1, r) # srvs d, srv_seq := srv_seq d + 1\<rparr>, srv_seq d + 1))"

definition new_details :: "hub_request \<Rightarrow> go_time option \<Rightarrow> go_time option \<Rightarrow> server_details" where
  "new_details rq startTime endTime =
     \<lparr>sd_note = Some (hr_form rq ''note''), sd_provider = Some (hr_form rq ''provider''),
      sd_cycle = Some (parse_int64_value (hr_form rq ''cycle'')), sd_start_time = startTime, sd_end_time = endTime,
      sd_amount = Some (hr_form rq ''amount''), sd_auto_renew = Some (hr_form rq ''auto_renew'' = ''true''),
      sd_bandwidth = Some (hr_form rq ''bandwidth''), sd_traffic = Some (hr_form rq ''traffic''),
      sd_traffic_type = Some (parse_int64_value (hr_form rq ''traffic_type'')), sd_note_public = Some (hr_form rq ''note_public'')\<rparr>"

definition insert_details :: "int \<Rightarrow> server_details \<Rightarrow> server_runtime \<Rightarrow> server_db \<Rightarrow> server_db option" where
  "insert_details sid i r d =
     (if has_key (details d) sid \<or> has_key (runtime d) sid then None
      else Some (d\<lparr>details := (sid, i) # details d, runtime := (sid, r) # runtime d\<rparr>))"

definition insert_advanced :: "int \<Rightarrow> server_adv \<Rightarrow> server_db \<Rightarrow> server_db option" where
  "insert_advanced sid i d = (if has_key (advanced d) sid then None else Some (d\<lparr>advanced := (sid, i) # advanced d\<rparr>))"

definition insert_ssh :: "int \<Rightarrow> ssh_row \<Rightarrow> server_db \<Rightarrow> server_db option" where
  "insert_ssh sid r d =
     (if has_key (sshs d) sid \<or> \<not> has_key (srvs d) sid \<or> \<not> fits 32 (ssh_port r) \<or>
         (case ssh_host_key r of None \<Rightarrow> \<not> ssh_trust_legacy r | Some h \<Rightarrow> blank h \<or> ssh_trust_legacy r) then None
      else Some (d\<lparr>sshs := (sid, r) # sshs d\<rparr>))"

definition uid_taken :: "string \<Rightarrow> server_db \<Rightarrow> bool" where
  "uid_taken uid d \<longleftrightarrow> list_ex (\<lambda>(_, a). ag_uid a = uid) (agents d)"

definition insert_agent :: "int \<Rightarrow> agent_row \<Rightarrow> server_db \<Rightarrow> server_db option" where
  "insert_agent sid a d =
     (if has_key (agents d) sid \<or> \<not> has_key (srvs d) sid \<or> uid_taken (ag_uid a) d \<or> \<not> fits 32 (ag_port a) then None
      else Some (d\<lparr>agents := (sid, a) # agents d\<rparr>))"

text \<open>A new agent of an active server, not installed yet.\<close>

definition active_agent :: "string \<Rightarrow> string \<Rightarrow> int \<Rightarrow> string \<Rightarrow> agent_row" where
  "active_agent uid host port private_key =
     \<lparr>ag_uid = uid, ag_status = 0, ag_ip = [], ag_version = [], ag_public_key = [], ag_private_key = private_key,
      ag_protocol = 2, ag_host = host, ag_port = port\<rparr>"

definition insert_enroll :: "int \<Rightarrow> string \<Rightarrow> server_db \<Rightarrow> server_db option" where
  "insert_enroll sid hash d =
     (if has_key (enrolls d) sid \<or> \<not> has_key (srvs d) sid then None
      else Some (d\<lparr>enrolls := (sid, \<lparr>en_hash = hash, en_revoked = False\<rparr>) # enrolls d\<rparr>))"

definition GetTeamAlertsByTeamIdTx :: "int \<Rightarrow> (('r, 'z) netenv_scheme, err, (string \<times> int \<times> int) list) io" where
  "GetTeamAlertsByTeamIdTx tid = query_db (\<lambda>d. map (\<lambda>((_, item), c). (item, c)) (filter (\<lambda>((t, _), _). t = tid) (team_rules d)))"

definition upsert_rule :: "int \<Rightarrow> string \<times> int \<times> int \<Rightarrow> server_db \<Rightarrow> server_db" where
  "upsert_rule sid = (\<lambda>(item, c) d. d\<lparr>rules := AList.update (sid, item) c (rules d)\<rparr>)"

text \<open>The three kinds of connection.\<close>

definition add_ssh :: "hub_request \<Rightarrow> string \<Rightarrow> int \<Rightarrow> ('r, 'z, answer_data) page" where
  "add_ssh rq validatedHostKey serverId =
     (let address = hr_form rq ''address''; port = parse_int64_value (hr_form rq ''port''); uname = hr_form rq ''username'' in
      if address = [] \<or> port = 0 \<or> uname = [] then fails 400 ''error''
      else
        bindE (orError (hub_encrypt (hr_form rq ''password'') (SSHPasswordContext serverId))) (\<lambda>passwordEncrypt.
        bindE (orError (exec_db (insert_ssh serverId
          \<lparr>ssh_address = address, ssh_port = port, ssh_username = uname, ssh_key_id = parse_int64_value (hr_form rq ''key_id''),
           ssh_password = passwordEncrypt, ssh_host_key = Some validatedHostKey, ssh_trust_legacy = False\<rparr>))) (\<lambda>_.
        ret (ServerId serverId))))"

text \<open>The new identity of an active agent; the answer carries the public key of the hub.\<close>

definition create_active :: "int \<Rightarrow> string \<Rightarrow> int \<Rightarrow> ('r, 'z, string \<times> string) page" where
  "create_active serverId address port =
     bindE (orError uuid_NewRandom) (\<lambda>agentUUID.
     bindE (orError GenerateEd25519KeyPair) (\<lambda>(privateKey, publicKey).
     bindE (orError (hub_encrypt privateKey (AgentPrivateKeyContext serverId))) (\<lambda>privateKeyEncrypted.
     bindE (orError (exec_db (insert_agent serverId (active_agent agentUUID address port privateKeyEncrypted)))) (\<lambda>_.
     ret (agentUUID, b64_std_encode publicKey)))))"

definition add_active :: "hub_request \<Rightarrow> int \<Rightarrow> ('r, 'z, answer_data) page" where
  "add_active rq serverId =
     (let address = hr_form rq ''address''; port = parse_int64_value (hr_form rq ''port'') in
      bindE (create_active serverId address port) (\<lambda>(agentUUID, publicKey).
      ret (ActiveAgent (Some serverId) address port agentUUID publicKey)))"

definition token_hash :: "string \<Rightarrow> ('r, 'z) netenv_scheme \<Rightarrow> string" where
  "token_hash enrollToken s = sha256_hex s (enrollToken @ conf_token s)"

definition add_passive :: "int \<Rightarrow> ('r, 'z, answer_data) page" where
  "add_passive serverId =
     bindE (hub_RandomString 32) (\<lambda>enrollToken.
     bindE (gets (token_hash enrollToken)) (\<lambda>tokenHash.
     bindE (orError (exec_db (insert_enroll serverId tokenHash))) (\<lambda>_.
     bindE (gets conf_domain) (\<lambda>domain.
     ret (PassiveAgent (Some serverId) domain enrollToken)))))"

definition add_connection :: "hub_request \<Rightarrow> string \<Rightarrow> int \<Rightarrow> ('r, 'z, answer_data) page" where
  "add_connection rq validatedHostKey serverId =
     (let mode = parse_int64_value (hr_form rq ''mode'') in
      if mode = 0 then add_ssh rq validatedHostKey serverId
      else if mode = 1 then add_active rq serverId
      else if mode = 2 then add_passive serverId
      else ret NoData)"

definition add_transaction ::
  "hub_request \<Rightarrow> go_time option \<Rightarrow> go_time option \<Rightarrow> string \<Rightarrow> ('r, 'z, int \<times> answer_data) page" where
  "add_transaction rq startTime endTime validatedHostKey = page_transaction (
     bindE (orError (exec_db_val (insert_server (new_server rq)))) (\<lambda>serverId.
     bindE (orError (exec_db (insert_details serverId (new_details rq startTime endTime) no_runtime))) (\<lambda>_.
     bindE (orError (exec_db (insert_advanced serverId no_adv))) (\<lambda>_.
     bindE (add_connection rq validatedHostKey serverId) (\<lambda>response.
     bindE (orError (GetTeamAlertsByTeamIdTx (hr_tid rq))) (\<lambda>teamAlerts.
     bindE (forE teamAlerts (\<lambda>alert. orError (exec_db (\<lambda>d. Some (upsert_rule serverId alert d))))) (\<lambda>_.
     ret (serverId, response))))))))"

text \<open>An optional instant of the form: empty, valid or malformed.\<close>

definition form_time :: "time_codec \<Rightarrow> string \<Rightarrow> go_time option option" where
  "form_time T v = (if v = [] then Some None else map_option Some (rfc3339 T v))"

definition add_validated :: "gossh \<Rightarrow> hub_request \<Rightarrow> ('r, 'z, string) page" where
  "add_validated G rq =
     bindE (validateSSHConnectionForAdd G (hr_tid rq) (hr_form rq ''address'') (parse_int64_value (hr_form rq ''port''))
       (hr_form rq ''username'') (hr_form rq ''password'') (parse_int64_value (hr_form rq ''key_id'')) (hr_form rq ''host_key''))
       (\<lambda>(validation, err). case err of
         None \<Rightarrow> ret (vr_HostKey validation)
       | Some e \<Rightarrow>
           bindE (if errors_Is e ErrHostKeyChangedDuringValidation
                  then audit rq ''security'' (''Blocked SSH host key change while validating new Server: '' @ hr_form rq ''name'') ''high''
                  else ret ()) (\<lambda>_.
           if IsHostKeyTrustError e then sshHostKeyConfirmationRequired validation else fails 400 ''error''))"

definition server_add :: "gossh \<Rightarrow> time_codec \<Rightarrow> hub_request \<Rightarrow> ('r, 'z, answer) page" where
  "server_add G T rq =
     (let tid = hr_tid rq; nm = hr_form rq ''name''; categoryId = parse_int64_value (hr_form rq ''category_id'') in
      if tid = 0 \<or> nm = [] \<or> categoryId = 0 then fails 400 ''error''
      else tryE (GetCategoryById tid categoryId) (\<lambda>res. case res of
        Inl e \<Rightarrow> if e = ErrNoRows then fails 400 ''error'' else raise (ErrorHandler, NoData)
      | Inr _ \<Rightarrow>
          (case (form_time T (hr_form rq ''start_time''), form_time T (hr_form rq ''end_time'')) of
             (Some startTime, Some endTime) \<Rightarrow>
               bindE (if parse_int64_value (hr_form rq ''mode'') = 0 then add_validated G rq else ret []) (\<lambda>validatedHostKey.
               bindE (add_transaction rq startTime endTime validatedHostKey) (\<lambda>(serverId, response).
               tryE (RemoveServerStatus serverId) (\<lambda>removed.
               bindE (logged (ReconcileServer serverId)) (\<lambda>_.
               case removed of
                 Inl _ \<Rightarrow> raise (ErrorHandler, NoData)
               | Inr _ \<Rightarrow>
                   bindE (audit rq ''server'' (''Create Server: '' @ nm @ '' (ID'' @ itoa serverId @ '')'') ''medium'') (\<lambda>_.
                   ret ((200, []), response))))))
           | _ \<Rightarrow> fails 400 ''error'')))"

section \<open>Editing a server: edit.go\<close>

definition edit_validated :: "gossh \<Rightarrow> hub_request \<Rightarrow> int \<Rightarrow> ServerFullType \<Rightarrow> ('r, 'z, ServerFullType \<times> bool) page" where
  "edit_validated G rq serverId data =
     bindE (validateSSHConnectionForEdit G (hr_tid rq) serverId data) (\<lambda>(validation, err). case err of
       None \<Rightarrow> ret (data\<lparr>sf_host_key := vr_HostKey validation, sf_previous := vr_Previous validation\<rparr>, vr_Changed validation)
     | Some e \<Rightarrow>
         bindE (if vr_Changed validation \<or> errors_Is e ErrHostKeyChangedDuringValidation
                then audit rq ''security'' (''Blocked changed SSH host key for Server: '' @ sf_name data @ '' (ID'' @ itoa serverId @ '')'') ''high''
                else ret ()) (\<lambda>_.
         if IsHostKeyTrustError e then sshHostKeyConfirmationRequired validation else fails 400 ''error''))"

text \<open>The answer to a failed edit, with the connection restored that was stopped for it.\<close>

definition edit_failed :: "int \<Rightarrow> bool \<Rightarrow> err \<Rightarrow> ('r, 'z, 'a) page" where
  "edit_failed serverId restore e =
     bindE (if restore then logged (ReconcileServer serverId) else ret ()) (\<lambda>_.
     if e = ErrServerCategoryNotFound then fails 400 ''invalid_category''
     else if e = ErrSSHHostKeyStateChanged then fails 409 ''ssh_host_key_state_changed''
     else raise (ErrorHandler, NoData))"

definition edit_store :: "hub_request \<Rightarrow> int \<Rightarrow> int \<Rightarrow> bool \<Rightarrow> ServerFullType \<Rightarrow> bool \<Rightarrow> ('r, 'z, answer) page" where
  "edit_store rq serverId typ lastAllowMonitor data hostKeyChanged =
     bindE (if \<not> sf_monitor data then logged (StopServer serverId) else ret ()) (\<lambda>_.
     tryE (EditServer (hr_tid rq) serverId typ data) (\<lambda>res. case res of
       Inl e \<Rightarrow> edit_failed serverId (\<not> sf_monitor data \<and> lastAllowMonitor) e
     | Inr _ \<Rightarrow>
         bindE (logged (ReconcileServer serverId)) (\<lambda>_.
         bindE (audit rq ''server'' (''Edit Server: '' @ sf_name data @ '' (ID'' @ itoa serverId @ '')'') ''medium'') (\<lambda>_.
         bindE (if hostKeyChanged
                then audit rq ''security'' (''Confirmed changed SSH host key for Server: '' @ sf_name data @ '' (ID'' @ itoa serverId @ '')'') ''high''
                else ret ()) (\<lambda>_.
         ok NoData)))))"

text \<open>\<open>bound\<close> is the body of the request after \<open>c.Bind\<close>; \<open>None\<close> when it is malformed.\<close>

definition server_edit :: "gossh \<Rightarrow> hub_request \<Rightarrow> ServerFullType option \<Rightarrow> ('r, 'z, answer) page" where
  "server_edit G rq bound =
     (let tid = hr_tid rq; serverId = parse_int64_value (hr_id rq) in
      if tid = 0 \<or> serverId = 0 then fails 400 ''error''
      else case bound of
        None \<Rightarrow> fails 400 ''error''
      | Some data \<Rightarrow>
          bindE (orError (query_db_row (\<lambda>d. if server_in_team d tid serverId
                   then map_option (\<lambda>r. (srv_type r, srv_monitor r)) (map_of (srvs d) serverId) else None))) (\<lambda>(typ, lastAllowMonitor).
          bindE (if typ = 0 then edit_validated G rq serverId data else ret (data, False)) (\<lambda>(data', hostKeyChanged).
          edit_store rq serverId typ lastAllowMonitor data' hostKeyChanged)))"

section \<open>Deleting, showing and moving a server: del.go, info.go, category.go\<close>

definition server_del :: "hub_request \<Rightarrow> ('r, 'z, answer) page" where
  "server_del rq =
     (let tid = hr_tid rq; serverId = parse_int64_value (hr_id rq) in
      if tid = 0 \<or> serverId = 0 then fails 400 ''error''
      else tryE (query_db_row (\<lambda>d. if server_in_team d tid serverId then map_option srv_name (map_of (srvs d) serverId) else None)) (\<lambda>res.
        case res of
          Inl _ \<Rightarrow> fails 400 ''error''
        | Inr nm \<Rightarrow>
            if nm = [] then fails 400 ''error''
            else
              bindE (logged (StopServer serverId)) (\<lambda>_.
              tryE (DeleteServer tid serverId) (\<lambda>deleted. case deleted of
                Inl _ \<Rightarrow> bindE (logged (ReconcileServer serverId)) (\<lambda>_. raise (ErrorHandler, NoData))
              | Inr _ \<Rightarrow>
                  bindE (logged (StopServer serverId)) (\<lambda>_.
                  bindE (logged (RemoveServerStatus serverId)) (\<lambda>_.
                  bindE (audit rq ''server'' (''Delete Server: '' @ nm @ '' (ID: '' @ itoa serverId @ '')'') ''high'') (\<lambda>_.
                  ok NoData)))))))"

definition server_info :: "hub_request \<Rightarrow> ('r, 'z, answer) page" where
  "server_info rq =
     (let tid = hr_tid rq; serverId = parse_int64_value (hr_id rq) in
      if tid = 0 \<or> serverId = 0 then fails 400 ''error''
      else bindE (orError (GetServerInfo tid serverId)) (\<lambda>data. ok (ServerInfo data)))"

definition server_category :: "hub_request \<Rightarrow> ('r, 'z, answer) page" where
  "server_category rq =
     (let tid = hr_tid rq; sid = parse_int64_value (hr_id rq); categoryId = parse_int64_value (hr_form rq ''category_id'') in
      if tid = 0 \<or> sid = 0 \<or> categoryId = 0 then fails 400 ''error''
      else
        bindE (orError (GetCategoryById tid categoryId)) (\<lambda>(i, nm, _).
        if i = 0 then fails 400 ''error''
        else
          bindE (orError (SetServerCategory tid sid categoryId)) (\<lambda>_.
          bindE (audit rq ''server'' (''Set Server (ID'' @ itoa sid @ '') Category to '' @ nm) ''low'') (\<lambda>_.
          ok NoData))))"

section \<open>Reinstalling an agent: reinstall.go\<close>

definition delete_enroll :: "int \<Rightarrow> server_db \<Rightarrow> server_db" where
  "delete_enroll sid d = d\<lparr>enrolls := AList.delete sid (enrolls d)\<rparr>"

definition delete_agent :: "int \<Rightarrow> server_db \<Rightarrow> server_db" where
  "delete_agent sid d = d\<lparr>agents := AList.delete sid (agents d)\<rparr>"

definition set_type :: "int \<Rightarrow> int \<Rightarrow> int \<Rightarrow> server_db \<Rightarrow> server_db" where
  "set_type mode sid tid d =
     d\<lparr>srvs := AList.map_entry sid (\<lambda>r. if srv_team r = tid then r\<lparr>srv_type := mode\<rparr> else r) (srvs d)\<rparr>"

text \<open>\<open>ON CONFLICT (server_id) DO UPDATE\<close>: the new token replaces the old one and is valid.\<close>

definition upsert_enroll :: "int \<Rightarrow> string \<Rightarrow> server_db \<Rightarrow> server_db option" where
  "upsert_enroll sid hash d =
     (if \<not> has_key (srvs d) sid then None
      else Some (d\<lparr>enrolls := AList.update sid \<lparr>en_hash = hash, en_revoked = False\<rparr> (enrolls d)\<rparr>))"

definition reinstall_active :: "int \<Rightarrow> string \<Rightarrow> int \<Rightarrow> ('r, 'z, answer_data) page" where
  "reinstall_active sid address port =
     bindE (orError (exec_db (\<lambda>d. Some (delete_enroll sid d)))) (\<lambda>_.
     bindE (orError (exec_db (\<lambda>d. Some (delete_agent sid d)))) (\<lambda>_.
     bindE (create_active sid address port) (\<lambda>(agentUUID, publicKey).
     ret (ActiveAgent None address port agentUUID publicKey))))"

definition reinstall_passive :: "int \<Rightarrow> ('r, 'z, answer_data) page" where
  "reinstall_passive sid =
     bindE (orError (exec_db (\<lambda>d. Some (delete_agent sid d)))) (\<lambda>_.
     bindE (hub_RandomString 32) (\<lambda>enrollToken.
     if enrollToken = [] then raise (ErrorHandler, NoData)
     else
       bindE (gets (token_hash enrollToken)) (\<lambda>tokenHash.
       bindE (orError (exec_db (upsert_enroll sid tokenHash))) (\<lambda>_.
       bindE (gets conf_domain) (\<lambda>domain.
       ret (PassiveAgent None domain enrollToken))))))"

definition reinstall_transaction :: "int \<Rightarrow> int \<Rightarrow> int \<Rightarrow> string \<Rightarrow> int \<Rightarrow> ('r, 'z, answer_data) page" where
  "reinstall_transaction tid sid mode address port = page_transaction (
     tryE (query_db_row (\<lambda>d. if server_in_team d tid sid then map_option srv_type (map_of (srvs d) sid) else None)) (\<lambda>res. case res of
       Inl e \<Rightarrow> if e = ErrNoRows then fails 400 ''error'' else raise (ErrorHandler, NoData)
     | Inr currentType \<Rightarrow>
         if currentType = 0 then fails 400 ''invalid_server_type''
         else if currentType \<noteq> mode then fails 400 ''mode_mismatch''
         else
           bindE (orError (exec_db (\<lambda>d. Some (set_type mode sid tid d)))) (\<lambda>_.
           if mode = 1 then reinstall_active sid address port else reinstall_passive sid)))"

definition server_reinstall :: "hub_request \<Rightarrow> ('r, 'z, answer) page" where
  "server_reinstall rq =
     (let tid = hr_tid rq; sid = parse_int64_value (hr_id rq); address = trim_space (hr_form rq ''address'') in
      if sid \<le> 0 then fails 400 ''error''
      else case parse_int64 (hr_form rq ''mode'') of
        None \<Rightarrow> fails 400 ''invalid_mode''
      | Some mode \<Rightarrow>
          let port = parse_int64 (hr_form rq ''port'') in
          if mode \<noteq> 1 \<and> mode \<noteq> 2 then fails 400 ''invalid_mode''
          else if mode = 1 \<and> (address = [] \<or> (case port of None \<Rightarrow> True | Some p \<Rightarrow> p < 1 \<or> p > 65535))
          then fails 400 ''invalid_agent_address''
          else
            bindE (reinstall_transaction tid sid mode address (parse_int64_value (hr_form rq ''port''))) (\<lambda>response.
            bindE (logged (StopServer sid)) (\<lambda>_.
            bindE (logged (ReconcileServer sid)) (\<lambda>_.
            bindE (audit rq ''server'' (''Reinstall Agent (ID'' @ itoa sid @ '')'') ''medium'') (\<lambda>_.
            ok response)))))"

section \<open>Keys: internal/app/api/keys\<close>

definition keys_list :: "hub_request \<Rightarrow> ('r, 'z, answer) page" where
  "keys_list rq =
     (if hr_tid rq = 0 then fails 400 ''team''
      else bindE (orError (GetKeysByTeamID (hr_tid rq))) (\<lambda>data. ok (KeyList data)))"

definition keys_add :: "hub_request \<Rightarrow> ('r, 'z, answer) page" where
  "keys_add rq =
     (let nm = hr_form rq ''name''; content = hr_form rq ''content'' in
      if hr_tid rq = 0 then fails 400 ''error''
      else if nm = [] \<or> content = [] then fails 400 ''input''
      else bindE (orError (AddKey (hr_tid rq) nm content (hr_form rq ''password''))) (\<lambda>_. ok NoData))"

definition servers_of_key :: "int \<Rightarrow> int \<Rightarrow> server_db \<Rightarrow> int list" where
  "servers_of_key tid i d = map fst (filter (\<lambda>(sid, r). srv_type r = 0 \<and> srv_monitor r \<and> srv_team r = tid \<and>
     (case map_of (sshs d) sid of None \<Rightarrow> False | Some a \<Rightarrow> ssh_key_id a = i)) (srvs d))"

text \<open>The goroutine an edit leaves behind: the connections with the key are made anew.\<close>

definition reconnect_key :: "int \<Rightarrow> int \<Rightarrow> ('r, 'z, unit) page" where
  "reconnect_key tid i = tryE (query_db (servers_of_key tid i)) (\<lambda>res. case res of
     Inl _ \<Rightarrow> ret ()
   | Inr sids \<Rightarrow> forE sids (\<lambda>sid. logged (ReconcileServer sid)))"

definition keys_edit :: "hub_request \<Rightarrow> ('r, 'z, answer) page" where
  "keys_edit rq =
     (let i = parse_int64_value (hr_id rq); nm = hr_form rq ''name'' in
      if hr_tid rq = 0 \<or> i \<le> 0 \<or> nm = [] then fails 400 ''error''
      else
        bindE (orError (UpdateKey (hr_tid rq) i nm (hr_form rq ''password''))) (\<lambda>_.
        bindE (reconnect_key (hr_tid rq) i) (\<lambda>_. ok NoData)))"

definition keys_del :: "hub_request \<Rightarrow> ('r, 'z, answer) page" where
  "keys_del rq =
     (let i = parse_int64_value (hr_id rq) in
      if hr_tid rq = 0 \<or> i \<le> 0 then fails 400 ''error''
      else bindE (orError (DeleteKey (hr_tid rq) i)) (\<lambda>_. ok NoData))"

section \<open>Categories: internal/app/api/category\<close>

definition named_failure :: "(('r, 'z) netenv_scheme, err, unit) io \<Rightarrow> ('r, 'z, unit) page" where
  "named_failure m = tryE m (\<lambda>res. case res of
     Inl e \<Rightarrow> if e = ErrSameCategoryName then fails 400 ''error'' else raise (ErrorHandler, NoData)
   | Inr _ \<Rightarrow> ret ())"

definition category_create :: "hub_request \<Rightarrow> ('r, 'z, answer) page" where
  "category_create rq =
     (let nm = hr_form rq ''name'' in
      if hr_tid rq = 0 \<or> nm = [] then fails 400 ''error''
      else
        bindE (named_failure (CreateCategory (hr_tid rq) nm)) (\<lambda>_.
        bindE (audit rq ''category'' (''Create Category: '' @ nm) ''low'') (\<lambda>_. ok NoData)))"

definition category_del :: "hub_request \<Rightarrow> ('r, 'z, answer) page" where
  "category_del rq =
     (let i = parse_int64_value (hr_id rq) in
      if hr_tid rq = 0 \<or> i = 0 then fails 400 ''error''
      else
        bindE (orError (GetCategoryById (hr_tid rq) i)) (\<lambda>(j, nm, _).
        bindE (orError (DeleteCategory (hr_tid rq) i)) (\<lambda>_.
        bindE (audit rq ''category'' (''Delete Category: '' @ nm @ '' (ID'' @ itoa j @ '')'') ''low'') (\<lambda>_. ok NoData))))"

definition category_edit :: "hub_request \<Rightarrow> ('r, 'z, answer) page" where
  "category_edit rq =
     (let i = parse_int64_value (hr_id rq); nm = hr_form rq ''name'' in
      if hr_tid rq = 0 \<or> i = 0 \<or> nm = [] then fails 400 ''error''
      else
        bindE (named_failure (EditCategory (hr_tid rq) i nm)) (\<lambda>_.
        bindE (audit rq ''category'' (''Edit Category: '' @ nm @ '' (ID'' @ itoa i @ '')'') ''low'') (\<lambda>_. ok NoData)))"

definition category_list :: "hub_request \<Rightarrow> ('r, 'z, answer) page" where
  "category_list rq =
     (if hr_tid rq = 0 then fails 400 ''team''
      else bindE (orError (GetCategoriesByTeam (hr_tid rq))) (\<lambda>data. ok (CategoryList data)))"

definition category_sort :: "hub_request \<Rightarrow> int list option \<Rightarrow> ('r, 'z, answer) page" where
  "category_sort rq bound =
     (case bound of
        None \<Rightarrow> fails 400 ''error''
      | Some ids \<Rightarrow>
          if hr_tid rq = 0 \<or> ids = [] then fails 400 ''error''
          else
            bindE (orError (SortCategories (hr_tid rq) ids)) (\<lambda>_.
            bindE (audit rq ''category'' ''Sort Categories'' ''low'') (\<lambda>_. ok NoData)))"

section \<open>Enrolment: internal/app/agent/enroll.go\<close>

text \<open>An agent that enrolled is installed; the key is the one it sent.\<close>

definition enrolled_agent :: "string \<Rightarrow> string \<Rightarrow> string \<Rightarrow> string \<Rightarrow> agent_row" where
  "enrolled_agent uid ip version publicKey =
     \<lparr>ag_uid = uid, ag_status = 1, ag_ip = ip, ag_version = version, ag_public_key = publicKey, ag_private_key = [],
      ag_protocol = 2, ag_host = [], ag_port = 0\<rparr>"

definition revoke_token :: "string \<Rightarrow> server_db \<Rightarrow> server_db" where
  "revoke_token hash d = d\<lparr>enrolls := map (\<lambda>(i, r). (i, if en_hash r = hash then r\<lparr>en_revoked := True\<rparr> else r)) (enrolls d)\<rparr>"

definition enroll_transaction :: "int \<Rightarrow> string \<Rightarrow> agent_row \<Rightarrow> ('r, 'z, unit) page" where
  "enroll_transaction serverId tokenHash a = page_transaction (
     bindE (orError (exec_db (insert_agent serverId a))) (\<lambda>_.
     orError (exec_db (\<lambda>d. Some (revoke_token tokenHash d)))))"

definition enroll_failure :: "'r services \<Rightarrow> hub_request \<Rightarrow> ('r, 'z, 'a) page" where
  "enroll_failure S rq =
     tryE (on_redis (RecordEnrollFailure (counters S) (sha_hex S) (hr_ip rq))) (\<lambda>_. fails 400 ''error'')"

text \<open>\<open>key_ok\<close> is \<open>utils.ParseAgentEd25519PublicKeyPEM\<close> without an error.\<close>

definition enroll :: "'r services \<Rightarrow> (string \<Rightarrow> bool) \<Rightarrow> hub_request \<Rightarrow> ('r, 'z, answer) page" where
  "enroll S key_ok rq =
     tryE (on_redis (CheckEnrollRateLimit (redis S) (counters S) (sha_hex S) (hr_ip rq))) (\<lambda>limit. case limit of
       Inl _ \<Rightarrow> fails 500 ''error''
     | Inr retryIn \<Rightarrow>
         if retryIn > 0 then fails 429 ''rate_limited''
         else
           let token = hr_form rq ''token''; publicKey = hr_form rq ''public_key''; version = hr_form rq ''version'' in
           if token = [] \<or> publicKey = [] then fails 400 ''error''
           else if \<not> key_ok publicKey then enroll_failure S rq
           else
             bindE (gets (token_hash token)) (\<lambda>tokenHash.
             tryE (GetEnrollToken tokenHash) (\<lambda>res. case res of
               Inl e \<Rightarrow> if e = ErrNoRows then enroll_failure S rq else fails 500 ''error''
             | Inr serverId \<Rightarrow>
                 if serverId = 0 then enroll_failure S rq
                 else
                   bindE (orError uuid_NewRandom) (\<lambda>agentUID.
                   bindE (enroll_transaction serverId tokenHash (enrolled_agent agentUID (hr_ip rq) version publicKey)) (\<lambda>_.
                   ok (AgentUID agentUID))))))"

end
