(* ===== verification/Page_Rules.thy ===== *)
theory Page_Rules
  imports Server_Handlers
begin

text \<open>
  Rules for the pages of servers, keys and categories: what a page may rely on of the connection
  supervisor, computations that touch neither tables nor connections, and statements, transactions
  and database operations that stay within the rows of one team.
\<close>

declare map_of_eq_Some_iff [simp del]

named_theorems page_rules

section \<open>What the pages rely on: the supervisor\<close>

text \<open>
  Stopping always succeeds and leaves nothing running for the server; neither operation touches the
  tables, and both keep the registries of the supervisor consistent.
\<close>

locale supervisor =
  fixes good :: "'s \<Rightarrow> bool" and tables :: "'s \<Rightarrow> 'd" and idle :: "int \<Rightarrow> 's \<Rightarrow> bool"
    and stop :: "int \<Rightarrow> ('s, err, unit) io" and reconcile :: "int \<Rightarrow> ('s, err, unit) io"
  assumes stop_law: "good s \<Longrightarrow> stop sid s = (r, t) \<Longrightarrow> r = Inr () \<and> good t \<and> tables t = tables s \<and> idle sid t"
    and reconcile_law: "good s \<Longrightarrow> reconcile sid s = (r, t) \<Longrightarrow> good t \<and> tables t = tables s"
begin

lemma after_stop:
  assumes "good s"
  obtains t where "tryE (stop sid) k s = k (Inr ()) t" "good t" "tables t = tables s" "idle sid t"
  using stop_law [OF assms, of sid] by (cases "stop sid s") (auto simp: tryE_run)

lemma after_reconcile:
  assumes "good s"
  obtains r t where "tryE (reconcile sid) k s = k r t" "good t" "tables t = tables s"
  using reconcile_law [OF assms, of sid] by (cases "reconcile sid s") (auto simp: tryE_run)

end

text \<open>Nothing runs for the server, and no late retry will start anything.\<close>

definition stopped :: "int \<Rightarrow> 'z connenv_scheme \<Rightarrow> bool" where
  "stopped sid t \<longleftrightarrow>
     (\<forall>p < length (entries t). entry_server (entries t ! p) = sid \<longrightarrow> se_done (entries t ! p)) \<and>
     (\<forall>p < length (managed t). mc_server (managed t ! p) = sid \<longrightarrow> mc_closed (managed t ! p)) \<and>
     (\<forall>p < length (retries t). rr_server (retries t ! p) = sid \<longrightarrow> \<not> retry_live (retries t ! p))"

interpretation sup: supervisor conn_ok db stopped StopServer ReconcileServer
proof
  fix s :: "'z connenv_scheme" and sid r t
  assume ok: "conn_ok s"
  show "r = Inr () \<and> conn_ok t \<and> db t = db s \<and> stopped sid t" if "StopServer sid s = (r, t)"
    using StopServer_post [OF ok that] by (simp add: stop_post_def stopped_def frame_def)
  show "conn_ok t \<and> db t = db s" if "ReconcileServer sid s = (r, t)"
    using ReconcileServer_post [OF ok that] by (simp add: reconcile_post_def frame_def)
qed

section \<open>The rows of other teams\<close>

text \<open>A server of another team with everything that refers to it.\<close>

definition foreign_server where
  "foreign_server tid d i =
     (case map_of (srvs d) i of
        Some r \<Rightarrow> if srv_team r \<noteq> tid
          then Some (r, map_of (details d) i, map_of (runtime d) i, map_of (advanced d) i, map_of (sshs d) i, map_of (agents d) i, map_of (enrolls d) i,
                 \<lambda>item. map_of (rules d) (i, item))
          else None
      | None \<Rightarrow> None)"

definition foreign_key :: "int \<Rightarrow> server_db \<Rightarrow> int \<Rightarrow> key_row option" where
  "foreign_key tid d i = (case map_of (cred_keys d) i of Some r \<Rightarrow> if k_team r \<noteq> tid then Some r else None | None \<Rightarrow> None)"

definition foreign_category :: "int \<Rightarrow> server_db \<Rightarrow> int \<Rightarrow> category_row option" where
  "foreign_category tid d i = (case map_of (cats d) i of Some r \<Rightarrow> if cat_team r \<noteq> tid then Some r else None | None \<Rightarrow> None)"

text \<open>The alert rules, notifications and public pages of other teams.\<close>

definition foreign_rest where
  "foreign_rest tid rs ns ps =
     (\<lambda>t item. if t \<noteq> tid then map_of rs (t, item) else None, filter (\<lambda>(t, _). t \<noteq> tid) ns, \<lambda>t. if t \<noteq> tid then map_of ps t else None)"

definition leaves :: "int \<Rightarrow> server_db \<Rightarrow> server_db \<Rightarrow> bool" where
  "leaves tid d e \<longleftrightarrow> foreign_server tid e = foreign_server tid d \<and> foreign_key tid e = foreign_key tid d \<and>
     foreign_category tid e = foreign_category tid d \<and>
     foreign_rest tid (team_rules e) (notifs e) (public_pages e) = foreign_rest tid (team_rules d) (notifs d) (public_pages d) \<and> known_teams e = known_teams d \<and>
     srv_seq d \<le> srv_seq e \<and> key_seq d \<le> key_seq e \<and> cat_seq d \<le> cat_seq e"

lemma leaves_refl [simp]: "leaves tid d d"
  by (simp add: leaves_def)

lemma leaves_trans: "leaves tid d e \<Longrightarrow> leaves tid e f \<Longrightarrow> leaves tid d f"
  by (auto simp: leaves_def)

text \<open>Identifiers in use are at most the last one their sequence gave out; keys have theirs as primary key.\<close>

definition tidy :: "server_db \<Rightarrow> bool" where
  "tidy d \<longleftrightarrow> (\<forall>i. has_key (srvs d) i \<longrightarrow> i \<le> srv_seq d) \<and> (\<forall>i. has_key (cred_keys d) i \<longrightarrow> i \<le> key_seq d) \<and>
     (\<forall>i. has_key (cats d) i \<longrightarrow> i \<le> cat_seq d) \<and> keyed (cred_keys d)"

text \<open>A server of the team, or none at all.\<close>

definition mine :: "int \<Rightarrow> int \<Rightarrow> server_db \<Rightarrow> bool" where
  "mine tid sid d \<longleftrightarrow> (\<forall>r. map_of (srvs d) sid = Some r \<longrightarrow> srv_team r = tid)"

lemma server_in_team_mine: "server_in_team d tid sid \<Longrightarrow> mine tid sid d"
  by (auto simp: server_in_team_def mine_def split: option.splits)

section \<open>Rules\<close>

text \<open>
  A computation that keeps the supervisor and the identifiers in order and leaves the rows of other
  teams alone when it starts where \<open>P\<close> holds; a result satisfies \<open>Q\<close>.
\<close>

definition scoped ::
  "int \<Rightarrow> (server_db \<Rightarrow> bool) \<Rightarrow> (('r, 'z) netenv_scheme, 'e, 'a) io \<Rightarrow> ('a \<Rightarrow> server_db \<Rightarrow> bool) \<Rightarrow> bool" where
  "scoped tid P m Q \<longleftrightarrow> (\<forall>s. conn_ok s \<and> tidy (db s) \<and> P (db s) \<longrightarrow>
     (case m s of (r, t) \<Rightarrow> conn_ok t \<and> tidy (db t) \<and> leaves tid (db s) (db t) \<and> (\<forall>x. r = Inr x \<longrightarrow> Q x (db t))))"

lemma scopedI:
  assumes "\<And>s r t. conn_ok s \<Longrightarrow> tidy (db s) \<Longrightarrow> P (db s) \<Longrightarrow> m s = (r, t) \<Longrightarrow>
    conn_ok t \<and> tidy (db t) \<and> leaves tid (db s) (db t) \<and> (\<forall>x. r = Inr x \<longrightarrow> Q x (db t))"
  shows "scoped tid P m Q"
  unfolding scoped_def using assms by (auto split: prod.splits)

lemma scopedD:
  assumes "scoped tid P m Q" "m s = (r, t)" "conn_ok s" "tidy (db s)" "P (db s)"
  shows "conn_ok t" "tidy (db t)" "leaves tid (db s) (db t)" "\<And>x. r = Inr x \<Longrightarrow> Q x (db t)"
  using assms unfolding scoped_def by (auto split: prod.splits)

lemma scoped_weaken: "scoped tid P m Q \<Longrightarrow> (\<And>d. P' d \<Longrightarrow> P d) \<Longrightarrow> (\<And>x d. Q x d \<Longrightarrow> Q' x d) \<Longrightarrow> scoped tid P' m Q'"
  unfolding scoped_def by (fastforce split: prod.splits)

lemma scoped_ret: "(\<And>d. P d \<Longrightarrow> Q x d) \<Longrightarrow> scoped tid P (ret x) Q"
  by (auto simp: scoped_def ret_def)

lemma scoped_raise [page_rules]: "scoped tid P (raise e) Q"
  by (auto simp: scoped_def raise_def)

lemma scoped_fails [page_rules]: "scoped tid P (fails a b) Q"
  unfolding fails_def by (rule scoped_raise)

lemma scoped_gets: "scoped tid P (gets f) (\<lambda>_. P)"
  by (auto simp: scoped_def gets_def)

lemma scoped_bind:
  assumes "scoped tid P m Q" "\<And>x. scoped tid (Q x) (f x) Q'"
  shows "scoped tid P (bindE m f) Q'"
proof (rule scopedI)
  fix s r t assume s: "conn_ok s" "tidy (db s)" "P (db s)" and run: "bindE m f s = (r, t)"
  obtain q u where m: "m s = (q, u)" by fastforce
  note u = scopedD [OF assms(1) m s]
  show "conn_ok t \<and> tidy (db t) \<and> leaves tid (db s) (db t) \<and> (\<forall>x. r = Inr x \<longrightarrow> Q' x (db t))"
  proof (cases q)
    case (Inl e)
    with run m u show ?thesis by (auto simp: bindE_run)
  next
    case (Inr x)
    with run m have "f x u = (r, t)" by (simp add: bindE_run)
    from scopedD [OF assms(2) this u(1,2) u(4) [OF Inr]] u(3) leaves_trans show ?thesis by blast
  qed
qed

lemma scoped_try:
  assumes "scoped tid P m Q" "\<And>x. scoped tid (Q x) (f (Inr x)) Q'" "\<And>e. scoped tid (\<lambda>_. True) (f (Inl e)) Q'"
  shows "scoped tid P (tryE m f) Q'"
proof (rule scopedI)
  fix s r t assume s: "conn_ok s" "tidy (db s)" "P (db s)" and run: "tryE m f s = (r, t)"
  obtain q u where m: "m s = (q, u)" by fastforce
  note u = scopedD [OF assms(1) m s]
  have f: "f q u = (r, t)" using run m by (simp add: tryE_run)
  show "conn_ok t \<and> tidy (db t) \<and> leaves tid (db s) (db t) \<and> (\<forall>x. r = Inr x \<longrightarrow> Q' x (db t))"
  proof (cases q)
    case (Inl e)
    from scopedD [OF assms(3) f [unfolded Inl] u(1,2)] u(3) leaves_trans show ?thesis by blast
  next
    case (Inr x)
    from scopedD [OF assms(2) f [unfolded Inr] u(1,2) u(4) [OF Inr]] u(3) leaves_trans show ?thesis by blast
  qed
qed

lemma scoped_orError [page_rules]: "scoped tid P m Q \<Longrightarrow> scoped tid P (orError m) Q"
  unfolding orError_def by (rule scoped_try) (auto intro: scoped_ret scoped_raise)

lemma scoped_wrap [page_rules]: "scoped tid P m Q \<Longrightarrow> scoped tid P (wrap_err g m) Q"
  unfolding wrap_err_def by (rule scoped_try) (auto intro: scoped_ret scoped_raise)

lemma scoped_if: "(c \<Longrightarrow> scoped tid P a Q) \<Longrightarrow> (\<not> c \<Longrightarrow> scoped tid P b Q) \<Longrightarrow> scoped tid P (if c then a else b) Q"
  by simp

subsection \<open>Computations that touch neither the tables nor the supervisor\<close>

named_theorems quiet_rules

definition quiet :: "(('r, 'z) netenv_scheme, 'e, 'a) io \<Rightarrow> bool" where
  "quiet m \<longleftrightarrow> (\<forall>s. db (snd (m s)) = db s \<and> conn_ok (snd (m s)) = conn_ok s)"

lemma scoped_quiet: "quiet m \<Longrightarrow> scoped tid P m (\<lambda>_. P)"
  by (rule scopedI) (metis leaves_refl quiet_def snd_conv)

lemma quiet_ret [quiet_rules]: "quiet (ret x)"
  and quiet_raise [quiet_rules]: "quiet (raise e)"
  and quiet_gets [quiet_rules]: "quiet (gets f)"
  and quiet_lift [quiet_rules]: "quiet (lift_sum r)"
  by (simp_all add: quiet_def ret_def raise_def gets_def lift_sum_def)

lemma quiet_bind [quiet_rules]: "quiet m \<Longrightarrow> (\<And>x. quiet (f x)) \<Longrightarrow> quiet (bindE m f)"
  unfolding quiet_def by (simp add: bindE_run split: prod.splits sum.splits) (metis snd_conv)

lemma quiet_try [quiet_rules]: "quiet m \<Longrightarrow> (\<And>x. quiet (f x)) \<Longrightarrow> quiet (tryE m f)"
  unfolding quiet_def by (simp add: tryE_run)

lemma quiet_if [quiet_rules]: "quiet a \<Longrightarrow> quiet b \<Longrightarrow> quiet (if c then a else b)"
  by simp

lemma quiet_let [quiet_rules]: "(\<And>x. quiet (f x)) \<Longrightarrow> quiet (let x = e in f x)"
  by (simp add: Let_def)

lemma quiet_case_sum [quiet_rules]: "(\<And>e. quiet (f e)) \<Longrightarrow> (\<And>x. quiet (g x)) \<Longrightarrow> quiet (case r of Inl e \<Rightarrow> f e | Inr x \<Rightarrow> g x)"
  by (simp split: sum.split)

lemma quiet_case_option [quiet_rules]: "quiet a \<Longrightarrow> (\<And>x. quiet (g x)) \<Longrightarrow> quiet (case r of None \<Rightarrow> a | Some x \<Rightarrow> g x)"
  by (simp split: option.split)

lemma quiet_case_prod [quiet_rules]: "(\<And>x y. quiet (g x y)) \<Longrightarrow> quiet (case r of (x, y) \<Rightarrow> g x y)"
  by (simp split: prod.split)

lemma conn_ok_updates [simp]:
  "conn_ok (s\<lparr>reads := n\<rparr>) = conn_ok s" "conn_ok (s\<lparr>draws := n\<rparr>) = conn_ok s" "conn_ok (s\<lparr>db := d\<rparr>) = conn_ok s"
  "conn_ok (s\<lparr>team_seq := i\<rparr>) = conn_ok s" "conn_ok (s\<lparr>tabs := tb\<rparr>) = conn_ok s"
  by (simp_all add: conn_ok_def)

lemma conn_ok_hub_updates [simp]:
  fixes s :: "('r, 'z) hubenv_scheme"
  shows "conn_ok (s\<lparr>log_count := n\<rparr>) = conn_ok s" "conn_ok (s\<lparr>auditLogs := p\<rparr>) = conn_ok s"
    "conn_ok (s\<lparr>status_data := x\<rparr>) = conn_ok s" "conn_ok (s\<lparr>hub_redis := r\<rparr>) = conn_ok s"
  by (simp_all add: conn_ok_def)

lemma conn_ok_net_updates [simp]:
  fixes s :: "('r, 'z) netenv_scheme"
  shows "conn_ok (s\<lparr>dialled := n\<rparr>) = conn_ok s" "conn_ok (s\<lparr>offers := p\<rparr>) = conn_ok s"
  by (simp_all add: conn_ok_def)

lemma quiet_query [quiet_rules]: "quiet (query_db f)"
  by (simp add: quiet_def query_db_def next_call_def)

lemma quiet_query_row [quiet_rules]: "quiet (query_db_row f)"
  unfolding query_db_row_def by (intro quiet_rules)

lemma quiet_encrypt [quiet_rules]: "quiet (hub_encrypt p c)"
  by (simp add: quiet_def hub_encrypt_def split: sum.splits)

lemma quiet_decrypt [quiet_rules]: "quiet (hub_decrypt p c)"
  by (simp add: quiet_def hub_decrypt_def split: sum.splits)

lemma quiet_decrypt_nonempty [quiet_rules]: "quiet (decrypt_nonempty p c)"
  unfolding decrypt_nonempty_def by (intro quiet_rules)

lemma quiet_LogAdd [quiet_rules]: "quiet (LogAdd a b c d e f g)"
  by (simp add: quiet_def LogAdd_def modify_def log_event_def Let_def)

lemma quiet_audit [quiet_rules]: "quiet (audit rq a b c)"
  unfolding audit_def by (rule quiet_LogAdd)

lemma quiet_draw [quiet_rules]: "quiet (draw f)"
  by (simp add: quiet_def draw_def)

lemma quiet_random [quiet_rules]: "quiet (hub_RandomString n)" "quiet uuid_NewRandom" "quiet GenerateEd25519KeyPair"
  unfolding hub_RandomString_def uuid_NewRandom_def GenerateEd25519KeyPair_def by (intro quiet_rules)+

lemma quiet_on_redis [quiet_rules]: "quiet (on_redis m)"
  by (auto simp: quiet_def on_redis_def conn_ok_def split: prod.splits)

lemma delete_buckets_quiet:
  fixes s :: "('r, 'z) netenv_scheme"
  shows "db (snd (delete_buckets sid bs s)) = db s \<and> conn_ok (snd (delete_buckets sid bs s)) = conn_ok s"
proof (induction bs arbitrary: s)
  case (Cons b bs)
  have "db (snd (delete_bucket sid b s)) = db s \<and> conn_ok (snd (delete_bucket sid b s)) = conn_ok s"
    by (simp add: delete_bucket_def next_call_def)
  with Cons [of "snd (delete_bucket sid b s)"] show ?case by (simp add: prod.case_eq_if)
qed simp

lemma quiet_remove_status [quiet_rules]: "quiet (RemoveServerStatus sid)"
  unfolding quiet_def RemoveServerStatus_def
  by (metis (mono_tags, lifting) delete_buckets_quiet prod.case_eq_if snd_conv)

lemma quiet_dial [quiet_rules]: "quiet next_dial" "quiet (run_handshake G n a u auth cb)"
  by (simp_all add: quiet_def next_dial_def run_handshake_run)

lemma quiet_validate [quiet_rules]: "quiet (DialContext G d h l t)" "quiet (ProbeHostKey G host port)" "quiet (ValidateConnection G d x y)"
proof -
  show 1: "quiet (DialContext G d h l t)" unfolding DialContext_def by (intro quiet_rules)
  show 2: "quiet (ProbeHostKey G host port)" for host port unfolding ProbeHostKey_def by (intro quiet_rules)
  show "quiet (ValidateConnection G d x y)" unfolding ValidateConnection_def
    by (intro quiet_rules 2) (simp_all add: DialContext_def, (intro quiet_rules)+)
qed

lemma quiet_wrap [quiet_rules]: "quiet m \<Longrightarrow> quiet (wrap_err g m)"
  unfolding wrap_err_def by (intro quiet_rules)

lemma quiet_orError [quiet_rules]: "quiet m \<Longrightarrow> quiet (orError m)"
  unfolding orError_def by (intro quiet_rules)

lemma quiet_fails [quiet_rules]: "quiet (fails a b)" "quiet (sshHostKeyConfirmationRequired v)"
  unfolding fails_def sshHostKeyConfirmationRequired_def by (rule quiet_raise)+

lemma quiet_ssh_validation [quiet_rules]:
  "quiet (loadSSHKeyMaterial tid i)" "quiet (validateSSHConnectionForAdd G tid a p u w k h)"
  "quiet (edit_credentials tid sid data)" "quiet (validateSSHConnectionForEdit G tid sid data)"
proof -
  show load: "quiet (loadSSHKeyMaterial tid i)" for i unfolding loadSSHKeyMaterial_def by (intro quiet_rules)
  show "quiet (validateSSHConnectionForAdd G tid a p u w k h)" unfolding validateSSHConnectionForAdd_def by (intro quiet_rules load)
  show creds: "quiet (edit_credentials tid sid data)" unfolding edit_credentials_def by (intro quiet_rules load)
  show "quiet (validateSSHConnectionForEdit G tid sid data)" unfolding validateSSHConnectionForEdit_def by (intro quiet_rules creds)
qed

lemma quiet_validated [quiet_rules]: "quiet (add_validated G rq)" "quiet (edit_validated G rq sid data)"
  unfolding add_validated_def edit_validated_def by (intro quiet_rules)+

subsection \<open>Statements\<close>

text \<open>A statement of a page: it keeps the identifiers in order and other teams alone.\<close>

definition stmt :: "int \<Rightarrow> (server_db \<Rightarrow> bool) \<Rightarrow> (server_db \<Rightarrow> server_db option) \<Rightarrow> bool" where
  "stmt tid P f \<longleftrightarrow> (\<forall>d e. tidy d \<longrightarrow> P d \<longrightarrow> f d = Some e \<longrightarrow> tidy e \<and> leaves tid d e \<and> P e)"

lemma exec_db_conn:
  fixes s :: "'z connenv_scheme"
  shows "conn_ok (snd (exec_db f s)) = conn_ok s" "conn_ok (snd (exec_db_val g s)) = conn_ok s"
  by (simp_all add: exec_db_def exec_db_val_def next_call_def split: outcome.split option.split)

lemma scoped_exec: "stmt tid P f \<Longrightarrow> scoped tid P (exec_db f) (\<lambda>_. P)"
proof (rule scopedI)
  fix s r t
  assume f: "stmt tid P f" and s: "conn_ok s" "tidy (db s)" "P (db s)" and run: "exec_db f s = (r, t)"
  have "conn_ok t" using exec_db_conn(1) [of f s] run s(1) by simp
  moreover have "db t = db s \<or> f (db s) = Some (db t)" using exec_db_cases [of f s] by (simp add: run)
  then have "tidy (db t) \<and> leaves tid (db s) (db t) \<and> P (db t)" using f s by (metis leaves_refl stmt_def)
  ultimately show "conn_ok t \<and> tidy (db t) \<and> leaves tid (db s) (db t) \<and> (\<forall>x. r = Inr x \<longrightarrow> P (db t))" by blast
qed

lemma scoped_exec_val:
  assumes "\<And>d e x. tidy d \<Longrightarrow> P d \<Longrightarrow> f d = Some (e, x) \<Longrightarrow> tidy e \<and> leaves tid d e \<and> Q x e"
  shows "scoped tid P (exec_db_val f) Q"
proof (rule scopedI)
  fix s r t
  assume s: "conn_ok s" "tidy (db s)" "P (db s)" and run: "exec_db_val f s = (r, t)"
  have "conn_ok t" using exec_db_conn(2) [of f s] run s(1) by simp
  moreover have "db t = db s \<or> (\<exists>x. f (db s) = Some (db t, x))" using exec_db_val_cases [of f s] by (simp add: run)
  then have "tidy (db t) \<and> leaves tid (db s) (db t)" using assms s by (metis leaves_refl)
  moreover have "Q x (db t)" if "r = Inr x" for x
    using exec_db_val_Inr_iff [of f s x t] run that assms s(2,3) by (auto simp: that)
  ultimately show "conn_ok t \<and> tidy (db t) \<and> leaves tid (db s) (db t) \<and> (\<forall>x. r = Inr x \<longrightarrow> Q x (db t))" by blast
qed

text \<open>A change of what refers to a server of the team.\<close>

definition about :: "int \<Rightarrow> server_db \<Rightarrow> server_db \<Rightarrow> bool" where
  "about sid d e \<longleftrightarrow> srvs e = srvs d \<and> cred_keys e = cred_keys d \<and> cats e = cats d \<and> team_rules e = team_rules d \<and> notifs e = notifs d \<and> public_pages e = public_pages d \<and>
     known_teams e = known_teams d \<and> srv_seq e = srv_seq d \<and> key_seq e = key_seq d \<and> cat_seq e = cat_seq d \<and>
     (\<forall>i. i \<noteq> sid \<longrightarrow> map_of (details e) i = map_of (details d) i \<and> map_of (runtime e) i = map_of (runtime d) i \<and> map_of (advanced e) i = map_of (advanced d) i \<and>
        map_of (sshs e) i = map_of (sshs d) i \<and> map_of (agents e) i = map_of (agents d) i \<and>
        map_of (enrolls e) i = map_of (enrolls d) i \<and> (\<forall>item. map_of (rules e) (i, item) = map_of (rules d) (i, item)))"

lemma about_leaves: "about sid d e \<Longrightarrow> mine tid sid d \<Longrightarrow> tidy d \<Longrightarrow> tidy e \<and> leaves tid d e \<and> mine tid sid e"
  by (auto simp: about_def mine_def tidy_def leaves_def foreign_server_def foreign_key_def foreign_category_def fun_eq_iff
      split: option.splits)

lemma stmt_about: "(\<And>d e. f d = Some e \<Longrightarrow> about sid d e) \<Longrightarrow> stmt tid (mine tid sid) f"
  unfolding stmt_def using about_leaves by blast

lemma stmt_details [page_rules]: "stmt tid (mine tid sid) (insert_details sid i r)"
  by (rule stmt_about) (auto simp: insert_details_def about_def split: if_splits)

lemma stmt_advanced [page_rules]: "stmt tid (mine tid sid) (insert_advanced sid i)"
  by (rule stmt_about) (auto simp: insert_advanced_def about_def split: if_splits)

lemma stmt_ssh [page_rules]: "stmt tid (mine tid sid) (insert_ssh sid r)"
  by (rule stmt_about) (auto simp: insert_ssh_def about_def split: if_splits)

lemma stmt_agent [page_rules]: "stmt tid (mine tid sid) (insert_agent sid a)"
  by (rule stmt_about) (auto simp: insert_agent_def about_def split: if_splits)

lemma stmt_enroll [page_rules]: "stmt tid (mine tid sid) (insert_enroll sid h)"
  by (rule stmt_about) (auto simp: insert_enroll_def about_def split: if_splits)

lemma stmt_upsert_enroll [page_rules]: "stmt tid (mine tid sid) (upsert_enroll sid h)"
  by (rule stmt_about) (auto simp: upsert_enroll_def about_def split: if_splits)

lemma stmt_rule [page_rules]: "stmt tid (mine tid sid) (\<lambda>d. Some (upsert_rule sid a d))"
  by (rule stmt_about) (auto simp: upsert_rule_def about_def split: prod.splits)

lemma stmt_delete_enroll [page_rules]: "stmt tid (mine tid sid) (\<lambda>d. Some (delete_enroll sid d))"
  by (rule stmt_about) (auto simp: delete_enroll_def about_def)

lemma stmt_delete_agent [page_rules]: "stmt tid (mine tid sid) (\<lambda>d. Some (delete_agent sid d))"
  by (rule stmt_about) (auto simp: delete_agent_def about_def)

lemma stmt_update_details [page_rules]: "stmt tid (mine tid sid) (\<lambda>d. Some (update_details sid data d))"
  by (rule stmt_about) (auto simp: update_details_def about_def map_of_map_entry)

lemma update_ssh_about: "update_ssh sid data pwd d = Some (e, n) \<Longrightarrow> about sid d e"
  by (auto simp: update_ssh_def about_def map_of_map_entry split: option.splits if_splits)

text \<open>A change of the row of a server of the team.\<close>

definition on_row :: "int \<Rightarrow> int \<Rightarrow> server_db \<Rightarrow> server_db \<Rightarrow> bool" where
  "on_row tid sid d e \<longleftrightarrow> (\<exists>t. e = d\<lparr>srvs := t\<rparr> \<and> (\<forall>i. i \<noteq> sid \<longrightarrow> map_of t i = map_of (srvs d) i) \<and>
     (case map_of t sid of None \<Rightarrow> True | Some r \<Rightarrow> srv_team r = tid \<and> has_key (srvs d) sid) )"

lemma on_row_leaves:
  assumes "on_row tid sid d e" "mine tid sid d" "tidy d"
  shows "tidy e \<and> leaves tid d e \<and> mine tid sid e"
proof -
  from assms(1) obtain t where e: "e = d\<lparr>srvs := t\<rparr>" and other: "\<And>i. i \<noteq> sid \<Longrightarrow> map_of t i = map_of (srvs d) i"
    and own: "case map_of t sid of None \<Rightarrow> True | Some r \<Rightarrow> srv_team r = tid \<and> has_key (srvs d) sid"
    unfolding on_row_def by blast
  have m: "mine tid sid e" using own by (auto simp: mine_def e split: option.splits)
  have "has_key t i \<Longrightarrow> has_key (srvs d) i" for i
    using other [of i] own by (cases "i = sid") (auto simp: has_key_def split: option.splits)
  then have "tidy e" using assms(3) by (auto simp: tidy_def e)
  moreover have "foreign_server tid e i = foreign_server tid d i" for i
    using other [of i] own assms(2) by (cases "i = sid") (auto simp: foreign_server_def mine_def e split: option.splits)
  ultimately show ?thesis using m by (auto simp: leaves_def foreign_key_def foreign_category_def e fun_eq_iff)
qed

lemma on_row_map_entry:
  assumes "mine tid sid d" "\<And>r. srv_team (f r) = srv_team r"
  shows "on_row tid sid d (d\<lparr>srvs := AList.map_entry sid f (srvs d)\<rparr>)"
  unfolding on_row_def
  by (rule exI [of _ "AList.map_entry sid f (srvs d)"]) (use assms in \<open>auto simp: mine_def map_of_map_entry has_key_def split: option.splits\<close>)

lemma on_row_refl: "mine tid sid d \<Longrightarrow> on_row tid sid d d"
  unfolding on_row_def by (rule exI [of _ "srvs d"]) (auto simp: mine_def has_key_def split: option.splits)

lemma stmt_on_row: "(\<And>d e. mine tid sid d \<Longrightarrow> f d = Some e \<Longrightarrow> on_row tid sid d e) \<Longrightarrow> stmt tid (mine tid sid) f"
  unfolding stmt_def using on_row_leaves by blast

lemma stmt_update_server [page_rules]: "stmt tid (mine tid sid) (update_server tid sid data)"
  by (rule stmt_on_row) (auto simp: update_server_def split: if_splits intro: on_row_refl intro!: on_row_map_entry)

lemma stmt_set_type [page_rules]: "stmt tid (mine tid sid) (\<lambda>d. Some (set_type mode sid tid d))"
  by (rule stmt_on_row) (auto simp: set_type_def intro!: on_row_map_entry)

subsection \<open>Transactions\<close>

lemma roll_back_leaves:
  assumes "tidy d" "leaves tid d e"
  shows "tidy (roll_back d e) \<and> leaves tid d (roll_back d e)"
proof -
  have "srv_seq d \<le> srv_seq e" "key_seq d \<le> key_seq e" "cat_seq d \<le> cat_seq e" using assms(2) by (simp_all add: leaves_def)
  moreover have "foreign_server tid (roll_back d e) = foreign_server tid d" "foreign_key tid (roll_back d e) = foreign_key tid d"
    "foreign_category tid (roll_back d e) = foreign_category tid d"
    by (simp_all add: roll_back_def foreign_server_def foreign_key_def foreign_category_def fun_eq_iff split: option.split)
  ultimately show ?thesis using assms(1) by (fastforce simp: tidy_def leaves_def roll_back_def)
qed

lemma scoped_page_transaction:
  assumes body: "scoped tid P m Q"
  shows "scoped tid P (page_transaction m) Q"
proof (rule scopedI)
  fix s r t
  assume s: "conn_ok s" "tidy (db s)" "P (db s)" and run: "page_transaction m s = (r, t)"
  let ?s = "s\<lparr>calls := Suc (calls s)\<rparr>"
  obtain q u where m: "m ?s = (q, u)" by fastforce
  have u: "conn_ok u" "tidy (db u)" "leaves tid (db s) (db u)" "\<And>x. q = Inr x \<Longrightarrow> Q x (db u)"
    using scopedD [OF body m] s by auto
  note rolled = roll_back_leaves [OF s(2) u(3)]
  show "conn_ok t \<and> tidy (db t) \<and> leaves tid (db s) (db t) \<and> (\<forall>x. r = Inr x \<longrightarrow> Q x (db t))"
  proof (cases "outcomes s (calls s) = Done")
    case False
    with run s show ?thesis by (auto simp: page_transaction_def next_call_def)
  next
    case True
    with run m u rolled show ?thesis
      by (auto simp: page_transaction_def next_call_def split: sum.splits outcome.splits)
  qed
qed

lemma scoped_transaction_db:
  assumes body: "scoped tid P m Q"
  shows "scoped tid P (transaction_db m) Q"
proof (rule scopedI)
  fix s r t
  assume s: "conn_ok s" "tidy (db s)" "P (db s)" and run: "transaction_db m s = (r, t)"
  let ?s = "s\<lparr>calls := Suc (calls s)\<rparr>"
  obtain q u where m: "m ?s = (q, u)" by fastforce
  have u: "conn_ok u" "tidy (db u)" "leaves tid (db s) (db u)" "\<And>x. q = Inr x \<Longrightarrow> Q x (db u)"
    using scopedD [OF body m] s by auto
  show "conn_ok t \<and> tidy (db t) \<and> leaves tid (db s) (db t) \<and> (\<forall>x. r = Inr x \<longrightarrow> Q x (db t))"
  proof (cases "outcomes s (calls s) = Done")
    case False
    with run s show ?thesis by (auto simp: transaction_db_def next_call_def)
  next
    case True
    with run m u s show ?thesis
      by (auto simp: transaction_db_def next_call_def split: sum.splits outcome.splits)
  qed
qed

lemma scoped_for: "(\<And>x. scoped tid P (f x) (\<lambda>_. P)) \<Longrightarrow> scoped tid P (forE xs f) (\<lambda>_. P)"
  by (induction xs) (auto intro: scoped_ret scoped_bind)

lemma scoped_stop [page_rules]: "scoped tid P (logged (StopServer sid)) (\<lambda>_. P)"
  unfolding logged_def by (rule scopedI) (metis sup.after_stop leaves_refl ret_def prod.inject)

lemma scoped_reconcile [page_rules]: "scoped tid P (logged (ReconcileServer sid)) (\<lambda>_. P)"
  unfolding logged_def by (rule scopedI) (metis sup.after_reconcile leaves_refl ret_def prod.inject)

lemma scoped_logged [page_rules]: "quiet m \<Longrightarrow> scoped tid P (logged m) (\<lambda>_. P)"
  unfolding logged_def by (intro scoped_quiet quiet_rules)

subsection \<open>The database operations of a page\<close>

lemma insert_server_scoped:
  assumes "tidy d" "insert_server r d = Some (e, sid)"
  shows "tidy e \<and> leaves (srv_team r) d e \<and> mine (srv_team r) sid e"
proof -
  from assms(2) have e: "e = d\<lparr>srvs := (srv_seq d + 1, r) # srvs d, srv_seq := srv_seq d + 1\<rparr>" "sid = srv_seq d + 1"
    by (auto simp: insert_server_def split: if_splits)
  have "\<not> has_key (srvs d) (srv_seq d + 1)" using assms(1) by (auto simp: tidy_def)
  then have fresh: "map_of (srvs d) (srv_seq d + 1) = None" by (simp add: not_has_key)
  have "tidy e" using assms(1) by (auto simp: tidy_def e has_key_def split: if_splits)
  moreover have "foreign_server (srv_team r) e i = foreign_server (srv_team r) d i" for i
    using fresh by (auto simp: foreign_server_def e split: option.splits)
  ultimately show ?thesis by (auto simp: leaves_def foreign_key_def foreign_category_def e fun_eq_iff mine_def)
qed

lemma map_of_delete_rules: "map_of (delete_where (\<lambda>(i, _) _. i = sid) t) (j, item) = (if j = sid then None else map_of t (j, item))"
  by (induction t) auto

lemma stmt_delete_server [page_rules]: "stmt tid (mine tid sid) (\<lambda>d. Some (delete_server tid sid d))"
proof -
  have "foreign_server tid (delete_server tid sid d) i = foreign_server tid d i" if "mine tid sid d" for d i
    using that by (auto simp: foreign_server_def delete_server_def server_in_team_def mine_def AList.delete_conv' map_of_delete_rules
        split: option.splits if_splits)
  moreover have "tidy (delete_server tid sid d)" if "tidy d" for d
    using that by (auto simp: tidy_def delete_server_def)
  moreover have "mine tid sid (delete_server tid sid d)" if "mine tid sid d" for d
    using that by (auto simp: mine_def delete_server_def AList.delete_conv' split: if_splits)
  moreover have "foreign_key tid (delete_server tid sid d) = foreign_key tid d" "foreign_category tid (delete_server tid sid d) = foreign_category tid d"
    "team_rules (delete_server tid sid d) = team_rules d" "notifs (delete_server tid sid d) = notifs d"
    "public_pages (delete_server tid sid d) = public_pages d" "known_teams (delete_server tid sid d) = known_teams d"
    "srv_seq (delete_server tid sid d) = srv_seq d" "key_seq (delete_server tid sid d) = key_seq d" "cat_seq (delete_server tid sid d) = cat_seq d" for d
    by (auto simp: delete_server_def foreign_key_def foreign_category_def fun_eq_iff split: option.splits)
  ultimately show ?thesis by (auto simp: stmt_def leaves_def fun_eq_iff)
qed

lemma scoped_DeleteServer: "scoped tid (mine tid sid) (DeleteServer tid sid) (\<lambda>_. mine tid sid)"
  unfolding DeleteServer_def by (intro scoped_exec page_rules)

text \<open>Statements on the keys and the categories of the team.\<close>

lemma keys_leaves:
  assumes "tidy d" "key_seq d \<le> n" "keyed t" "\<And>i. has_key t i \<Longrightarrow> i \<le> n"
    "\<And>i. foreign_key tid (d\<lparr>cred_keys := t\<rparr>) i = foreign_key tid d i"
  shows "tidy (d\<lparr>cred_keys := t, key_seq := n\<rparr>) \<and> leaves tid d (d\<lparr>cred_keys := t, key_seq := n\<rparr>)"
proof -
  let ?e = "d\<lparr>cred_keys := t, key_seq := n\<rparr>"
  have "foreign_server tid ?e = foreign_server tid d" "foreign_category tid ?e = foreign_category tid d"
    by (auto simp: foreign_server_def foreign_category_def fun_eq_iff split: option.split)
  moreover have "foreign_key tid ?e = foreign_key tid d" using assms(5) by (auto simp: foreign_key_def fun_eq_iff)
  ultimately show ?thesis using assms(1-4) by (auto simp: tidy_def leaves_def)
qed

lemma keys_same_seq: "d\<lparr>cred_keys := t, key_seq := key_seq d\<rparr> = d\<lparr>cred_keys := t\<rparr>" for d :: server_db
  by simp

lemma cats_leaves:
  assumes "tidy d" "cat_seq d \<le> n" "\<And>i. has_key t i \<Longrightarrow> i \<le> n"
    "\<And>i. foreign_category tid (d\<lparr>cats := t\<rparr>) i = foreign_category tid d i"
  shows "tidy (d\<lparr>cats := t, cat_seq := n\<rparr>) \<and> leaves tid d (d\<lparr>cats := t, cat_seq := n\<rparr>)"
proof -
  let ?e = "d\<lparr>cats := t, cat_seq := n\<rparr>"
  have "foreign_server tid ?e = foreign_server tid d" "foreign_key tid ?e = foreign_key tid d"
    by (auto simp: foreign_server_def foreign_key_def fun_eq_iff split: option.split)
  moreover have "foreign_category tid ?e = foreign_category tid d" using assms(4) by (auto simp: foreign_category_def fun_eq_iff)
  ultimately show ?thesis using assms(1-3) by (auto simp: tidy_def leaves_def)
qed

lemma cats_same_seq: "d\<lparr>cats := t, cat_seq := cat_seq d\<rparr> = d\<lparr>cats := t\<rparr>" for d :: server_db
  by simp

lemma insert_key_leaves:
  assumes "tidy d" "insert_key tid nm d = Some (e, i)"
  shows "tidy e \<and> leaves tid d e \<and> (\<exists>r. map_of (cred_keys e) i = Some r \<and> k_team r = tid)"
proof -
  let ?r = "\<lparr>k_team = tid, k_name = nm, k_content = [], k_password = None\<rparr>"
  have bound: "has_key (cred_keys d) j \<Longrightarrow> j \<le> key_seq d" for j using assms(1) by (simp add: tidy_def)
  have k: "keyed (cred_keys d)" using assms(1) by (simp add: tidy_def)
  have fresh: "map_of (cred_keys d) (key_seq d + 1) = None" using bound by (fastforce simp: not_has_key [symmetric])
  from assms(2) have e: "e = d\<lparr>cred_keys := (key_seq d + 1, ?r) # cred_keys d, key_seq := key_seq d + 1\<rparr>" "i = key_seq d + 1"
    by (auto simp: insert_key_def split: if_splits)
  have "tidy e \<and> leaves tid d e" unfolding e(1)
  proof (rule keys_leaves [OF assms(1)])
    show "keyed ((key_seq d + 1, ?r) # cred_keys d)" using k fresh by (simp add: map_of_eq_None_iff)
    show "j \<le> key_seq d + 1" if "has_key ((key_seq d + 1, ?r) # cred_keys d) j" for j
      using that bound [of j] by (cases "j = key_seq d + 1") (auto simp: has_key_def)
    show "foreign_key tid (d\<lparr>cred_keys := (key_seq d + 1, ?r) # cred_keys d\<rparr>) j = foreign_key tid d j" for j
      using fresh by (simp add: foreign_key_def)
  qed simp
  then show ?thesis by (simp add: e)
qed

lemma set_key_leaves:
  assumes "tidy d" "\<exists>r. map_of (cred_keys d) i = Some r \<and> k_team r = tid"
  shows "tidy (set_key i c p d) \<and> leaves tid d (set_key i c p d)"
  using keys_leaves [OF assms(1) order_refl, of "AList.map_entry i (\<lambda>r. r\<lparr>k_content := c, k_password := p\<rparr>) (cred_keys d)" tid] assms
  by (auto simp: set_key_def tidy_def foreign_key_def map_of_map_entry distinct_map_entry split: option.splits)

lemma change_key_leaves: "tidy d \<Longrightarrow> tidy (change_key tid i nm ch d) \<and> leaves tid d (change_key tid i nm ch d)"
  using keys_leaves [OF _ order_refl, of d "AList.map_entry i (\<lambda>r. if k_team r = tid
         then r\<lparr>k_name := nm, k_password := (case ch of ClearPassword \<Rightarrow> None | SetPassword p \<Rightarrow> Some p | KeepPassword \<Rightarrow> k_password r)\<rparr>
         else r) (cred_keys d)" tid]
  by (auto simp: change_key_def tidy_def foreign_key_def map_of_map_entry distinct_map_entry split: option.splits if_splits)

lemma delete_key_leaves:
  assumes "tidy d"
  shows "tidy (d\<lparr>cred_keys := delete_where (\<lambda>j r. j = i \<and> k_team r = tid) (cred_keys d)\<rparr>) \<and>
    leaves tid d (d\<lparr>cred_keys := delete_where (\<lambda>j r. j = i \<and> k_team r = tid) (cred_keys d)\<rparr>)"
proof -
  have k: "keyed (cred_keys d)" using assms by (simp add: tidy_def)
  let ?t = "delete_where (\<lambda>j r. j = i \<and> k_team r = tid) (cred_keys d)"
  have "has_key ?t j \<Longrightarrow> j \<le> key_seq d" for j using assms by (auto simp: tidy_def has_key_delete_where [OF k] dest: has_keyI)
  moreover have "foreign_key tid (d\<lparr>cred_keys := ?t\<rparr>) j = foreign_key tid d j" for j
    by (auto simp: foreign_key_def map_of_delete_where [OF k] split: option.split)
  ultimately show ?thesis using keys_leaves [OF assms order_refl, of ?t tid] k by simp
qed

lemma stmtI: "(\<And>d e. tidy d \<Longrightarrow> f d = Some e \<Longrightarrow> tidy e \<and> leaves tid d e) \<Longrightarrow> stmt tid (\<lambda>_. True) f"
  by (simp add: stmt_def)

lemma scoped_stmt: "(\<And>d e. tidy d \<Longrightarrow> f d = Some e \<Longrightarrow> tidy e \<and> leaves tid d e) \<Longrightarrow> scoped tid P (exec_db f) (\<lambda>_ _. True)"
  by (rule scoped_weaken [OF scoped_exec [OF stmtI]]) auto

lemma scoped_AddKey: "scoped tid (\<lambda>_. True) (AddKey tid nm c p) (\<lambda>_ _. True)"
proof -
  let ?own = "\<lambda>i d. \<exists>r. map_of (cred_keys d) i = Some r \<and> k_team r = tid"
  have set: "scoped tid (?own i) (exec_db (\<lambda>d. Some (set_key i k q d))) (\<lambda>_ _. True)" for i k q
    by (rule scoped_weaken [OF scoped_exec, of _ "?own i"])
      (auto simp: stmt_def set_key_leaves, auto simp: set_key_def map_of_map_entry)
  show ?thesis unfolding AddKey_def
    by (rule scoped_transaction_db, rule scoped_bind [OF scoped_exec_val [where Q = ?own]])
      (auto simp: insert_key_leaves intro!: scoped_bind [OF scoped_quiet] scoped_bind [OF set] scoped_ret quiet_rules)
qed

lemma scoped_UpdateKey: "scoped tid (\<lambda>_. True) (UpdateKey tid i nm p) (\<lambda>_ _. True)"
  unfolding UpdateKey_def by (rule scoped_bind [OF scoped_quiet], intro quiet_rules, rule scoped_exec, rule stmtI) (auto simp: change_key_leaves)

lemma scoped_DeleteKey: "scoped tid (\<lambda>_. True) (DeleteKey tid i) (\<lambda>_ _. True)"
  unfolding DeleteKey_def by (rule scoped_exec, rule stmtI) (auto simp: delete_key_leaves)

text \<open>Categories.\<close>

lemma foreign_category_map_entry:
  assumes "\<And>r. cat_team (f r) = cat_team r" "\<And>r. cat_team r \<noteq> tid \<Longrightarrow> f r = r"
  shows "foreign_category tid (d\<lparr>cats := AList.map_entry c f (cats d)\<rparr>) i = foreign_category tid d i"
  using assms by (auto simp: foreign_category_def map_of_map_entry split: option.split)

lemma insert_category_leaves: "tidy d \<Longrightarrow> insert_category_row tid nm d = Some e \<Longrightarrow> tidy e \<and> leaves tid d e"
proof -
  assume d: "tidy d" "insert_category_row tid nm d = Some e"
  let ?r = "\<lparr>cat_team = tid, cat_name = nm, cat_sort = 0\<rparr>"
  have bound: "has_key (cats d) j \<Longrightarrow> j \<le> cat_seq d" for j using d(1) by (simp add: tidy_def)
  have fresh: "map_of (cats d) (cat_seq d + 1) = None" using bound by (fastforce simp: not_has_key [symmetric])
  from d(2) have e: "e = d\<lparr>cats := (cat_seq d + 1, ?r) # cats d, cat_seq := cat_seq d + 1\<rparr>"
    by (auto simp: insert_category_row_def split: if_splits)
  show ?thesis unfolding e
  proof (rule cats_leaves [OF d(1)])
    show "j \<le> cat_seq d + 1" if "has_key ((cat_seq d + 1, ?r) # cats d) j" for j
      using that bound [of j] by (cases "j = cat_seq d + 1") (auto simp: has_key_def)
    show "foreign_category tid (d\<lparr>cats := (cat_seq d + 1, ?r) # cats d\<rparr>) j = foreign_category tid d j" for j
      using fresh by (simp add: foreign_category_def)
  qed simp
qed

lemma cats_entry_leaves:
  assumes "tidy d" "\<And>r. cat_team (f r) = cat_team r" "\<And>r. cat_team r \<noteq> tid \<Longrightarrow> f r = r"
  shows "tidy (d\<lparr>cats := AList.map_entry c f (cats d)\<rparr>) \<and> leaves tid d (d\<lparr>cats := AList.map_entry c f (cats d)\<rparr>)"
  using cats_leaves [OF assms(1) order_refl, of "AList.map_entry c f (cats d)" tid] foreign_category_map_entry [OF assms(2,3)] assms(1)
  by (simp add: tidy_def)

lemma rename_category_leaves: "tidy d \<Longrightarrow> rename_category tid c nm d = Some e \<Longrightarrow> tidy e \<and> leaves tid d e"
proof -
  assume d: "tidy d" "rename_category tid c nm d = Some e"
  let ?f = "\<lambda>r. if cat_team r = tid then r\<lparr>cat_name := nm\<rparr> else r"
  have eq: "map_of (AList.map_entry c (\<lambda>r. r\<lparr>cat_name := nm\<rparr>) (cats d)) = map_of (AList.map_entry c ?f (cats d))" if "map_of (cats d) c = Some r" "cat_team r = tid" for r
    using that by (simp add: map_of_map_entry)
  have "tidy (d\<lparr>cats := AList.map_entry c (\<lambda>r. r\<lparr>cat_name := nm\<rparr>) (cats d)\<rparr>) \<and> leaves tid d (d\<lparr>cats := AList.map_entry c (\<lambda>r. r\<lparr>cat_name := nm\<rparr>) (cats d)\<rparr>)"
    if r: "map_of (cats d) c = Some r" "cat_team r = tid" for r
    using cats_leaves [OF d(1) order_refl, of "AList.map_entry c (\<lambda>r. r\<lparr>cat_name := nm\<rparr>) (cats d)" tid]
      foreign_category_map_entry [where f = ?f and tid = tid and d = d and c = c] d(1) eq [OF r] by (simp add: tidy_def foreign_category_def)
  with d show ?thesis by (auto simp: rename_category_def split: option.splits if_splits)
qed

lemma sort_category_leaves: "tidy d \<Longrightarrow> tidy (sort_category tid n c d) \<and> leaves tid d (sort_category tid n c d)"
  unfolding sort_category_def by (rule cats_entry_leaves) auto

lemma delete_category_leaves: "tidy d \<Longrightarrow> delete_category c tid d = Some (e, n) \<Longrightarrow> tidy e \<and> leaves tid d e"
proof -
  assume d: "tidy d" "delete_category c tid d = Some (e, n)"
  have "tidy (d\<lparr>cats := AList.delete c (cats d)\<rparr>) \<and> leaves tid d (d\<lparr>cats := AList.delete c (cats d)\<rparr>)"
    if r: "map_of (cats d) c = Some r" "cat_team r = tid" for r
  proof -
    have "foreign_category tid (d\<lparr>cats := AList.delete c (cats d)\<rparr>) i = foreign_category tid d i" for i
      using r by (auto simp: foreign_category_def split: option.split)
    with cats_leaves [OF d(1) order_refl, of "AList.delete c (cats d)" tid] d(1) show ?thesis by (simp add: tidy_def)
  qed
  with d show ?thesis by (auto simp: delete_category_def split: option.splits if_splits)
qed

lemma map_of_reassign: "map_of (srvs (reassign_category new old tid d)) i =
    map_option (\<lambda>r. if srv_category r = old \<and> srv_team r = tid then r\<lparr>srv_category := new\<rparr> else r) (map_of (srvs d) i)"
  by (simp add: reassign_category_def map_of_map)

lemma reassign_leaves: "tidy d \<Longrightarrow> tidy (reassign_category new old tid d) \<and> leaves tid d (reassign_category new old tid d)"
proof -
  let ?e = "reassign_category new old tid d"
  assume d: "tidy d"
  have same: "details ?e = details d" "runtime ?e = runtime d" "advanced ?e = advanced d" "sshs ?e = sshs d" "agents ?e = agents d" "enrolls ?e = enrolls d"
    "rules ?e = rules d" "cred_keys ?e = cred_keys d" "cats ?e = cats d" "team_rules ?e = team_rules d" "notifs ?e = notifs d" "public_pages ?e = public_pages d" "known_teams ?e = known_teams d"
    "srv_seq ?e = srv_seq d" "key_seq ?e = key_seq d" "cat_seq ?e = cat_seq d" by (simp_all add: reassign_category_def)
  have "has_key (srvs ?e) i = has_key (srvs d) i" for i by (simp add: has_key_def map_of_reassign)
  with d same have "tidy ?e" by (simp add: tidy_def)
  moreover have "foreign_server tid ?e i = foreign_server tid d i" for i
    by (auto simp: foreign_server_def map_of_reassign same split: option.split)
  ultimately show ?thesis by (simp add: leaves_def same foreign_key_def foreign_category_def fun_eq_iff)
qed

lemma scoped_CreateCategory: "scoped tid (\<lambda>_. True) (CreateCategory tid nm) (\<lambda>_ _. True)"
  unfolding CreateCategory_def
  by (rule scoped_bind [OF scoped_quiet [OF quiet_query]]) (auto intro!: scoped_raise scoped_stmt dest: insert_category_leaves)

lemma scoped_EditCategory: "scoped tid (\<lambda>_. True) (EditCategory tid c nm) (\<lambda>_ _. True)"
  unfolding EditCategory_def
  by (rule scoped_bind [OF scoped_quiet [OF quiet_query]]) (auto intro!: scoped_raise scoped_stmt dest: rename_category_leaves)

lemma scoped_SortCategories: "scoped tid (\<lambda>_. True) (SortCategories tid ids) (\<lambda>_ _. True)"
  unfolding SortCategories_def
  by (intro scoped_transaction_db scoped_for) (auto intro!: scoped_exec stmtI simp: sort_category_leaves)

lemma scoped_DeleteCategory: "scoped tid (\<lambda>_. True) (DeleteCategory tid c) (\<lambda>_ _. True)"
  unfolding DeleteCategory_def
  by (rule scoped_transaction_db, rule scoped_bind [OF scoped_quiet [OF quiet_query_row]])
    (auto intro!: scoped_raise scoped_ret stmtI scoped_bind [OF scoped_exec] scoped_bind [OF scoped_exec_val] simp: reassign_leaves delete_category_leaves)

lemma scoped_SetServerCategory: "scoped tid (\<lambda>_. True) (SetServerCategory tid sid c) (\<lambda>_ _. True)"
proof -
  have "tidy e \<and> leaves tid d e" if "tidy d" "set_server_category tid sid c d = Some e" for d e
    using that on_row_leaves [OF on_row_map_entry [of tid sid d "\<lambda>r. r\<lparr>srv_category := c\<rparr>"], OF _ _ _ that(1)] server_in_team_mine
    by (auto simp: set_server_category_def split: if_splits)
  then show ?thesis unfolding SetServerCategory_def by (intro scoped_exec stmtI)
qed

lemma scoped_edit_connection: "scoped tid (mine tid sid) (edit_connection sid typ data) (\<lambda>_ _. True)"
proof -
  have ssh: "scoped tid (mine tid sid) (exec_db_val (update_ssh sid data pwd)) (\<lambda>_. mine tid sid)" for pwd
    by (rule scoped_exec_val) (use about_leaves update_ssh_about in blast)
  have pwd: "quiet (if sf_password data \<noteq> [] then bindE (hub_encrypt (sf_password data) (SSHPasswordContext sid)) (\<lambda>p. ret (Some p)) else ret None)"
    by (intro quiet_rules)
  have other: "scoped tid (mine tid sid) (exec_db (\<lambda>d. Some (update_details sid data d))) (\<lambda>_ _. True)"
    by (rule scoped_weaken [OF scoped_exec [OF stmt_update_details]]) auto
  show ?thesis unfolding edit_connection_def
    by (rule scoped_if, rule scoped_bind [OF scoped_quiet [OF pwd]], rule scoped_bind [OF ssh], rule scoped_if)
      (auto intro: scoped_raise scoped_ret other)
qed

lemma scoped_EditServer: "scoped tid (mine tid sid) (EditServer tid sid typ data) (\<lambda>_ _. True)"
  unfolding EditServer_def
  by (rule scoped_transaction_db, rule scoped_bind [OF scoped_quiet [OF quiet_query]])
    (auto intro!: scoped_raise scoped_bind [OF scoped_exec [OF stmt_update_server]] scoped_bind [OF scoped_exec [OF stmt_update_details]] scoped_edit_connection)

end
