(* ===== verification/Server_Pages.thy ===== *)
theory Server_Pages
  imports Page_Rules
begin

text \<open>
  What the pages of servers, keys and categories guarantee: a page works on the rows of its own
  team only and keeps the supervisor consistent, adding a server creates all of it or nothing,
  deleting one leaves nothing of it behind, reinstalling ends the old identity, and an enrolment
  token is good for one agent.
\<close>

declare map_of_eq_Some_iff [simp del]

section \<open>Pages stay within their team\<close>

lemma scoped_true: "scoped tid P m Q \<Longrightarrow> scoped tid P m (\<lambda>_ _. True)"
  by (erule scoped_weaken) auto

lemma scoped_quiet_bind: "quiet m \<Longrightarrow> (\<And>x. scoped tid P (f x) Q) \<Longrightarrow> scoped tid P (bindE m f) Q"
  using scoped_bind [OF scoped_quiet] by blast

lemma scoped_quiet_any: "quiet m \<Longrightarrow> scoped tid P m (\<lambda>_ _. True)"
  by (rule scoped_true [OF scoped_quiet])

lemma quiet_ok [quiet_rules]: "quiet (ok d)"
  unfolding ok_def by (rule quiet_ret)

lemma quiet_team_alerts [quiet_rules]: "quiet (GetTeamAlertsByTeamIdTx tid)"
  unfolding GetTeamAlertsByTeamIdTx_def by (rule quiet_query)

lemma scoped_query_row:
  assumes "\<And>d x. f d = Some x \<Longrightarrow> Q x d"
  shows "scoped tid P (query_db_row f) Q"
proof (rule scopedI)
  fix s t :: "('r, 'z) netenv_scheme" and r
  assume s: "conn_ok s" "tidy (db s)" "P (db s)" and run: "query_db_row f s = (r, t)"
  have "snd (query_db_row f s) = t" by (simp add: run)
  with quiet_query_row [of f, unfolded quiet_def, rule_format, of s] s(1) have "db t = db s" "conn_ok t" by auto
  moreover have "Q x (db s)" if "r = Inr x" for x using run that assms by (auto simp: query_db_row_Inr_iff)
  ultimately show "conn_ok t \<and> tidy (db t) \<and> leaves tid (db s) (db t) \<and> (\<forall>x. r = Inr x \<longrightarrow> Q x (db t))" using s by simp
qed

subsection \<open>Adding\<close>

lemma scoped_exec_or: "stmt tid P f \<Longrightarrow> scoped tid P (orError (exec_db f)) (\<lambda>_. P)"
  by (intro scoped_orError scoped_exec)

lemma scoped_create_active: "scoped tid (mine tid sid) (create_active sid a p) (\<lambda>_. mine tid sid)"
  unfolding create_active_def
  by (rule scoped_quiet_bind, intro quiet_rules, rule scoped_quiet_bind, intro quiet_rules, clarsimp,
      rule scoped_quiet_bind, intro quiet_rules, rule scoped_bind [OF scoped_exec_or [OF stmt_agent]], rule scoped_ret)

lemma scoped_add_connection: "scoped tid (mine tid sid) (add_connection rq h sid) (\<lambda>_. mine tid sid)"
proof -
  have ssh: "scoped tid (mine tid sid) (add_ssh rq h sid) (\<lambda>_. mine tid sid)"
    unfolding add_ssh_def Let_def
    by (rule scoped_if, rule scoped_fails, rule scoped_quiet_bind, intro quiet_rules,
        rule scoped_bind [OF scoped_exec_or [OF stmt_ssh]], rule scoped_ret)
  have active: "scoped tid (mine tid sid) (add_active rq sid) (\<lambda>_. mine tid sid)"
    unfolding add_active_def Let_def by (rule scoped_bind [OF scoped_create_active], clarsimp, rule scoped_ret)
  have psv: "scoped tid (mine tid sid) (add_passive sid) (\<lambda>_. mine tid sid)"
    unfolding add_passive_def
    by (rule scoped_quiet_bind, intro quiet_rules, rule scoped_quiet_bind, intro quiet_rules,
        rule scoped_bind [OF scoped_exec_or [OF stmt_enroll]], rule scoped_quiet_bind, intro quiet_rules, rule scoped_ret)
  show ?thesis unfolding add_connection_def Let_def
    by (intro scoped_if ssh active psv scoped_ret)
qed

lemma scoped_insert_server: "tid = srv_team r \<Longrightarrow> scoped tid (\<lambda>_. True) (orError (exec_db_val (insert_server r))) (\<lambda>sid. mine tid sid)"
  by (intro scoped_orError scoped_exec_val) (simp add: insert_server_scoped)

lemma scoped_add_transaction: "scoped (hr_tid rq) (\<lambda>_. True) (add_transaction rq st et h) (\<lambda>_ _. True)"
proof -
  let ?tid = "hr_tid rq"
  have rules: "scoped ?tid (mine ?tid sid) (forE xs (\<lambda>a. orError (exec_db (\<lambda>d. Some (upsert_rule sid a d))))) (\<lambda>_. mine ?tid sid)" for xs sid
    by (intro scoped_for scoped_exec_or page_rules)
  show ?thesis unfolding add_transaction_def
    by (rule scoped_page_transaction, rule scoped_bind [OF scoped_insert_server], simp add: new_server_def,
        rule scoped_bind [OF scoped_exec_or [OF stmt_details]], rule scoped_bind [OF scoped_exec_or [OF stmt_advanced]],
        rule scoped_bind [OF scoped_add_connection], rule scoped_quiet_bind, intro quiet_rules,
        rule scoped_bind [OF rules], rule scoped_ret, simp)
qed

lemma scoped_add: "scoped (hr_tid rq) (\<lambda>_. True) (server_add G T rq) (\<lambda>_ _. True)"
proof -
  let ?tid = "hr_tid rq"
  have finish: "scoped ?tid (\<lambda>_. True) (tryE (RemoveServerStatus sid) (\<lambda>removed. bindE (logged (ReconcileServer sid)) (\<lambda>_.
      case removed of Inl _ \<Rightarrow> raise (ErrorHandler, NoData) | Inr _ \<Rightarrow> bindE (audit rq c m l) (\<lambda>_. ret a)))) (\<lambda>_ _. True)" for sid c m l a
    by (rule scoped_try [OF scoped_quiet [OF quiet_remove_status]], rule scoped_bind [OF scoped_reconcile], simp,
        rule scoped_quiet_any, intro quiet_rules, rule scoped_bind [OF scoped_reconcile], simp, rule scoped_raise)
  show ?thesis unfolding server_add_def Let_def GetCategoryById_def
    by (rule scoped_if, rule scoped_fails, rule scoped_try [OF scoped_quiet [OF quiet_query_row]], simp only: sum.case)
      (auto split: option.split intro!: scoped_fails scoped_raise scoped_quiet_bind [OF quiet_validated(1)]
        scoped_bind [OF scoped_add_transaction] finish)
qed

subsection \<open>Editing\<close>

lemma scoped_edit_store: "scoped (hr_tid rq) (mine (hr_tid rq) sid) (edit_store rq sid typ last_monitor data changed) (\<lambda>_ _. True)"
proof -
  let ?tid = "hr_tid rq"
  have stop: "scoped ?tid (mine ?tid sid) (if \<not> sf_monitor data then logged (StopServer sid) else ret ()) (\<lambda>_. mine ?tid sid)"
    by (intro scoped_if scoped_stop scoped_ret)
  have failed: "scoped ?tid (\<lambda>_. True) (edit_failed sid restore e) (\<lambda>_ _. True)" for restore e
    unfolding edit_failed_def
    by (rule scoped_bind [where Q = "\<lambda>_ _. True"], rule scoped_if [OF scoped_reconcile scoped_ret])
      (auto intro: scoped_quiet_any quiet_rules)
  show ?thesis unfolding edit_store_def
    by (rule scoped_bind [OF stop], rule scoped_try [OF scoped_EditServer], simp only: sum.case, rule scoped_bind [OF scoped_reconcile],
        rule scoped_quiet_any, intro quiet_rules, simp only: sum.case, rule failed)
qed

lemma scoped_edit: "scoped (hr_tid rq) (\<lambda>_. True) (server_edit G rq bound) (\<lambda>_ _. True)"
proof -
  let ?tid = "hr_tid rq"
  have row: "scoped ?tid (\<lambda>_. True) (orError (query_db_row (\<lambda>d. if server_in_team d ?tid sid
      then map_option (\<lambda>r. (srv_type r, srv_monitor r)) (map_of (srvs d) sid) else None))) (\<lambda>_. mine ?tid sid)" for sid
    by (intro scoped_orError scoped_query_row) (auto dest: server_in_team_mine split: if_splits)
  have validated: "quiet (if ty = 0 then edit_validated G rq sid data else ret (data, False))" for ty :: int and sid data
    by (intro quiet_rules)
  show ?thesis unfolding server_edit_def Let_def
    by (rule scoped_if, rule scoped_fails) (auto split: option.split intro!: scoped_fails scoped_bind [OF row] scoped_quiet_bind [OF validated] scoped_edit_store)
qed

subsection \<open>The other pages\<close>

lemma scoped_del: "scoped (hr_tid rq) (\<lambda>_. True) (server_del rq) (\<lambda>_ _. True)"
proof -
  let ?tid = "hr_tid rq"
  have row: "scoped ?tid (\<lambda>_. True) (query_db_row (\<lambda>d. if server_in_team d ?tid sid
      then map_option srv_name (map_of (srvs d) sid) else None)) (\<lambda>_. mine ?tid sid)" for sid
    by (rule scoped_query_row) (auto dest: server_in_team_mine split: if_splits)
  have after: "scoped ?tid (mine ?tid sid) (bindE (logged (StopServer sid)) (\<lambda>_.
      bindE (logged (RemoveServerStatus sid)) (\<lambda>_. bindE (audit rq c m l) (\<lambda>_. ok NoData)))) (\<lambda>_ _. True)" for sid c m l
    by (rule scoped_bind [OF scoped_stop], rule scoped_bind [OF scoped_logged [OF quiet_remove_status]], rule scoped_quiet_any, intro quiet_rules)
  have failed: "scoped ?tid (\<lambda>_. True) (bindE (logged (ReconcileServer sid)) (\<lambda>_. raise (ErrorHandler, NoData))) (\<lambda>_ _. True)" for sid
    by (rule scoped_bind [OF scoped_reconcile], rule scoped_raise)
  show ?thesis unfolding server_del_def Let_def
    by (rule scoped_if, rule scoped_fails, rule scoped_try [OF row], simp only: sum.case, rule scoped_if, rule scoped_fails,
        rule scoped_bind [OF scoped_stop], rule scoped_try [OF scoped_DeleteServer], simp only: sum.case, rule after,
        simp only: sum.case, rule failed, simp only: sum.case, rule scoped_fails)
qed

lemma scoped_category: "scoped (hr_tid rq) (\<lambda>_. True) (server_category rq) (\<lambda>_ _. True)"
  unfolding server_category_def Let_def GetCategoryById_def
  by (rule scoped_if, rule scoped_fails, rule scoped_quiet_bind, intro quiet_rules, simp only: split_paired_all prod.case, rule scoped_if, rule scoped_fails,
      rule scoped_bind [OF scoped_orError [OF scoped_SetServerCategory]], rule scoped_quiet_any, intro quiet_rules)

lemma scoped_reinstall_transaction: "scoped tid (\<lambda>_. True) (reinstall_transaction tid sid mode a p) (\<lambda>_ _. True)"
proof -
  have row: "scoped tid (\<lambda>_. True) (query_db_row (\<lambda>d. if server_in_team d tid sid
      then map_option srv_type (map_of (srvs d) sid) else None)) (\<lambda>_. mine tid sid)"
    by (rule scoped_query_row) (auto dest: server_in_team_mine split: if_splits)
  have active: "scoped tid (mine tid sid) (reinstall_active sid a p) (\<lambda>_ _. True)"
    unfolding reinstall_active_def
    by (rule scoped_bind [OF scoped_exec_or [OF stmt_delete_enroll]], rule scoped_bind [OF scoped_exec_or [OF stmt_delete_agent]],
        rule scoped_bind [OF scoped_create_active], simp only: split_paired_all prod.case, rule scoped_ret, simp)
  have psv: "scoped tid (mine tid sid) (reinstall_passive sid) (\<lambda>_ _. True)"
    unfolding reinstall_passive_def
    by (rule scoped_bind [OF scoped_exec_or [OF stmt_delete_agent]], rule scoped_quiet_bind, intro quiet_rules, rule scoped_if, rule scoped_raise,
        rule scoped_quiet_bind, intro quiet_rules, rule scoped_bind [OF scoped_exec_or [OF stmt_upsert_enroll]], rule scoped_quiet_any, intro quiet_rules)
  show ?thesis unfolding reinstall_transaction_def
    by (rule scoped_page_transaction, rule scoped_try [OF row], simp only: sum.case, rule scoped_if, rule scoped_fails, rule scoped_if, rule scoped_fails,
        rule scoped_bind [OF scoped_exec_or [OF stmt_set_type]], rule scoped_if, rule active, rule psv, simp only: sum.case,
        rule scoped_if, rule scoped_fails, rule scoped_raise)
qed

lemma scoped_reinstall: "scoped (hr_tid rq) (\<lambda>_. True) (server_reinstall rq) (\<lambda>_ _. True)"
proof -
  have body: "scoped tid (\<lambda>_. True) (bindE (reinstall_transaction tid sid mode a p) (\<lambda>response. bindE (logged (StopServer sid)) (\<lambda>_.
      bindE (logged (ReconcileServer sid)) (\<lambda>_. bindE (audit rq c m l) (\<lambda>_. ok response))))) (\<lambda>_ _. True)" for tid sid mode a p c m l
    by (rule scoped_bind [OF scoped_reinstall_transaction], rule scoped_bind [OF scoped_stop], rule scoped_bind [OF scoped_reconcile],
        rule scoped_quiet_any, intro quiet_rules)
  show ?thesis unfolding server_reinstall_def Let_def
    by (rule scoped_if, rule scoped_fails) (auto split: option.split intro!: scoped_fails body)
qed

lemma scoped_keys:
  "scoped (hr_tid rq) (\<lambda>_. True) (keys_list rq) (\<lambda>_ _. True)" "scoped (hr_tid rq) (\<lambda>_. True) (keys_add rq) (\<lambda>_ _. True)"
  "scoped (hr_tid rq) (\<lambda>_. True) (keys_edit rq) (\<lambda>_ _. True)" "scoped (hr_tid rq) (\<lambda>_. True) (keys_del rq) (\<lambda>_ _. True)"
proof -
  show "scoped (hr_tid rq) (\<lambda>_. True) (keys_list rq) (\<lambda>_ _. True)" unfolding keys_list_def GetKeysByTeamID_def
    by (rule scoped_quiet_any, intro quiet_rules)
  show "scoped (hr_tid rq) (\<lambda>_. True) (keys_add rq) (\<lambda>_ _. True)" unfolding keys_add_def Let_def
    by (rule scoped_if, rule scoped_fails, rule scoped_if, rule scoped_fails, rule scoped_bind [OF scoped_orError [OF scoped_AddKey]],
        rule scoped_quiet_any, intro quiet_rules)
  have again: "scoped tid (\<lambda>_. True) (reconnect_key tid i) (\<lambda>_ _. True)" for tid i
    unfolding reconnect_key_def
    by (rule scoped_try [OF scoped_quiet [OF quiet_query]], simp only: sum.case, rule scoped_for, rule scoped_reconcile, simp only: sum.case,
        rule scoped_ret, simp)
  show "scoped (hr_tid rq) (\<lambda>_. True) (keys_edit rq) (\<lambda>_ _. True)" unfolding keys_edit_def Let_def
    by (rule scoped_if, rule scoped_fails, rule scoped_bind [OF scoped_orError [OF scoped_UpdateKey]], rule scoped_bind [OF again],
        rule scoped_quiet_any, intro quiet_rules)
  show "scoped (hr_tid rq) (\<lambda>_. True) (keys_del rq) (\<lambda>_ _. True)" unfolding keys_del_def Let_def
    by (rule scoped_if, rule scoped_fails, rule scoped_bind [OF scoped_orError [OF scoped_DeleteKey]], rule scoped_quiet_any, intro quiet_rules)
qed

lemma scoped_named: "scoped tid P m Q \<Longrightarrow> scoped tid P (named_failure m) (\<lambda>_ _. True)"
  unfolding named_failure_def
  by (erule scoped_try, simp only: sum.case, rule scoped_ret, simp, simp only: sum.case, rule scoped_if, rule scoped_fails, rule scoped_raise)

lemma scoped_categories:
  "scoped (hr_tid rq) (\<lambda>_. True) (category_create rq) (\<lambda>_ _. True)" "scoped (hr_tid rq) (\<lambda>_. True) (category_del rq) (\<lambda>_ _. True)"
  "scoped (hr_tid rq) (\<lambda>_. True) (category_edit rq) (\<lambda>_ _. True)" "scoped (hr_tid rq) (\<lambda>_. True) (category_list rq) (\<lambda>_ _. True)"
  "scoped (hr_tid rq) (\<lambda>_. True) (category_sort rq bound) (\<lambda>_ _. True)"
proof -
  show "scoped (hr_tid rq) (\<lambda>_. True) (category_create rq) (\<lambda>_ _. True)" unfolding category_create_def Let_def
    by (rule scoped_if, rule scoped_fails, rule scoped_bind [OF scoped_named [OF scoped_CreateCategory]], rule scoped_quiet_any, intro quiet_rules)
  show "scoped (hr_tid rq) (\<lambda>_. True) (category_del rq) (\<lambda>_ _. True)" unfolding category_del_def Let_def GetCategoryById_def
    by (rule scoped_if, rule scoped_fails, rule scoped_quiet_bind, intro quiet_rules, simp only: split_paired_all prod.case,
        rule scoped_bind [OF scoped_orError [OF scoped_DeleteCategory]], rule scoped_quiet_any, intro quiet_rules)
  show "scoped (hr_tid rq) (\<lambda>_. True) (category_edit rq) (\<lambda>_ _. True)" unfolding category_edit_def Let_def
    by (rule scoped_if, rule scoped_fails, rule scoped_bind [OF scoped_named [OF scoped_EditCategory]], rule scoped_quiet_any, intro quiet_rules)
  show "scoped (hr_tid rq) (\<lambda>_. True) (category_list rq) (\<lambda>_ _. True)" unfolding category_list_def GetCategoriesByTeam_def
    by (rule scoped_quiet_any, intro quiet_rules)
  have sort: "scoped tid (\<lambda>_. True) (bindE (orError (SortCategories tid ids)) (\<lambda>_. bindE (audit rq a b c) (\<lambda>_. ok NoData))) (\<lambda>_ _. True)" for tid ids a b c
    by (rule scoped_bind [OF scoped_orError [OF scoped_SortCategories]], rule scoped_quiet_any, intro quiet_rules)
  show "scoped (hr_tid rq) (\<lambda>_. True) (category_sort rq bound) (\<lambda>_ _. True)" unfolding category_sort_def
    by (auto split: option.split intro!: scoped_fails sort)
qed

lemma quiet_info [quiet_rules]: "quiet (server_info rq)"
  unfolding server_info_def GetServerInfo_def by (intro quiet_rules)

section \<open>Sequences of requests\<close>

datatype hub_page =
    AddServer | EditServerPage "ServerFullType option" | RemoveServer | ShowServer | MoveServer | ReinstallAgent
  | ListKeys | NewKey | EditKey | RemoveKey
  | NewCategory | RemoveCategory | RenameCategory | ListCategories | OrderCategories "int list option"

fun run_page :: "gossh \<Rightarrow> time_codec \<Rightarrow> hub_page \<Rightarrow> hub_request \<Rightarrow> ('r, 'z, answer) page" where
  "run_page G T AddServer rq = server_add G T rq"
| "run_page G T (EditServerPage bound) rq = server_edit G rq bound"
| "run_page G T RemoveServer rq = server_del rq"
| "run_page G T ShowServer rq = server_info rq"
| "run_page G T MoveServer rq = server_category rq"
| "run_page G T ReinstallAgent rq = server_reinstall rq"
| "run_page G T ListKeys rq = keys_list rq"
| "run_page G T NewKey rq = keys_add rq"
| "run_page G T EditKey rq = keys_edit rq"
| "run_page G T RemoveKey rq = keys_del rq"
| "run_page G T NewCategory rq = category_create rq"
| "run_page G T RemoveCategory rq = category_del rq"
| "run_page G T RenameCategory rq = category_edit rq"
| "run_page G T ListCategories rq = category_list rq"
| "run_page G T (OrderCategories bound) rq = category_sort rq bound"

lemma scoped_page: "scoped (hr_tid rq) (\<lambda>_. True) (run_page G T p rq) (\<lambda>_ _. True)"
  by (cases p) (simp_all add: scoped_add scoped_edit scoped_del scoped_category scoped_reinstall scoped_keys scoped_categories scoped_quiet_any quiet_info)

fun run_pages :: "gossh \<Rightarrow> time_codec \<Rightarrow> (hub_page \<times> hub_request) list \<Rightarrow> ('r, 'z) netenv_scheme \<Rightarrow> ('r, 'z) netenv_scheme" where
  "run_pages G T [] s = s"
| "run_pages G T ((p, rq) # rest) s = run_pages G T rest (snd (run_page G T p rq s))"

text \<open>The rows of a team: its servers with everything that refers to them, its keys and its categories.\<close>

definition team_server where
  "team_server tid d i =
     (case map_of (srvs d) i of
        Some r \<Rightarrow> if srv_team r = tid
          then Some (r, map_of (details d) i, map_of (runtime d) i, map_of (advanced d) i, map_of (sshs d) i, map_of (agents d) i, map_of (enrolls d) i,
                 \<lambda>item. map_of (rules d) (i, item))
          else None
      | None \<Rightarrow> None)"

definition team_key :: "int \<Rightarrow> server_db \<Rightarrow> int \<Rightarrow> key_row option" where
  "team_key tid d i = (case map_of (cred_keys d) i of Some r \<Rightarrow> if k_team r = tid then Some r else None | None \<Rightarrow> None)"

definition team_category :: "int \<Rightarrow> server_db \<Rightarrow> int \<Rightarrow> category_row option" where
  "team_category tid d i = (case map_of (cats d) i of Some r \<Rightarrow> if cat_team r = tid then Some r else None | None \<Rightarrow> None)"

definition team_rest where
  "team_rest tid d = (\<lambda>item. map_of (team_rules d) (tid, item), filter (\<lambda>(t, _). t = tid) (notifs d), map_of (public_pages d) tid)"

definition team_rows where
  "team_rows tid d = (team_server tid d, team_key tid d, team_category tid d, team_rest tid d)"

lemma team_server_foreign: "tid \<noteq> other \<Longrightarrow> team_server tid d i =
    (case foreign_server other d i of Some x \<Rightarrow> if srv_team (fst x) = tid then Some x else None | None \<Rightarrow> None)"
  by (auto simp: team_server_def foreign_server_def split: option.splits)

lemma team_key_foreign: "tid \<noteq> other \<Longrightarrow> team_key tid d i =
    (case foreign_key other d i of Some x \<Rightarrow> if k_team x = tid then Some x else None | None \<Rightarrow> None)"
  by (auto simp: team_key_def foreign_key_def split: option.splits)

lemma team_category_foreign: "tid \<noteq> other \<Longrightarrow> team_category tid d i =
    (case foreign_category other d i of Some x \<Rightarrow> if cat_team x = tid then Some x else None | None \<Rightarrow> None)"
  by (auto simp: team_category_def foreign_category_def split: option.splits)

lemma foreign_team_rest:
  assumes "foreign_rest other (team_rules e) (notifs e) (public_pages e) = foreign_rest other (team_rules d) (notifs d) (public_pages d)" "tid \<noteq> other"
  shows "team_rest tid e = team_rest tid d"
proof -
  have mine: "filter (\<lambda>(t, _). t = tid) ns = filter (\<lambda>(t, _). t = tid) (filter (\<lambda>(t, _). t \<noteq> other) ns)" for ns :: "(int \<times> string \<times> string) list"
    using assms(2) by (induction ns) auto
  from assms have "map_of (team_rules e) (tid, item) = map_of (team_rules d) (tid, item)" "map_of (public_pages e) tid = map_of (public_pages d) tid" for item
    by (simp_all add: foreign_rest_def fun_eq_iff) metis+
  with assms(1) show ?thesis unfolding team_rest_def by (subst (1 2) mine) (simp add: foreign_rest_def)
qed

lemma leaves_team_rows:
  assumes l: "leaves other d e" and ne: "tid \<noteq> other"
  shows "team_rows tid e = team_rows tid d"
proof -
  from l have "team_rest tid e = team_rest tid d" using foreign_team_rest [OF _ ne] unfolding leaves_def by blast
  moreover from l have "team_server tid e = team_server tid d" "team_key tid e = team_key tid d" "team_category tid e = team_category tid d"
    by (simp_all add: leaves_def fun_eq_iff team_server_foreign [OF ne] team_key_foreign [OF ne] team_category_foreign [OF ne])
  ultimately show ?thesis by (simp add: team_rows_def)
qed

lemma run_pages_keeps:
  assumes "conn_ok s" "tidy (db s)" "\<forall>(p, rq) \<in> set reqs. hr_tid rq \<noteq> tid"
  shows "conn_ok (run_pages G T reqs s) \<and> tidy (db (run_pages G T reqs s)) \<and> team_rows tid (db (run_pages G T reqs s)) = team_rows tid (db s)"
  using assms
proof (induction reqs arbitrary: s)
  case (Cons preq reqs)
  obtain p rq where preq: "preq = (p, rq)" by fastforce
  obtain r t where run: "run_page G T p rq s = (r, t)" by fastforce
  note t = scopedD [OF scoped_page run Cons.prems(1,2) TrueI]
  have "team_rows tid (db t) = team_rows tid (db s)" using leaves_team_rows [OF t(3)] Cons.prems(3) preq by auto
  with Cons.IH [OF t(1,2)] Cons.prems(3) preq run show ?case by simp
qed simp

text \<open>
  (C2) Whatever pages of servers, keys and categories the other teams request, in any order, and however the
  database, the random sources and the SSH hosts behave: the rows of a team stay exactly as they
  are (its servers with their details, accounts, agents, tokens and alert rules, its keys and its
  categories, its alert rules, notifications and public page), and the connection supervisor stays consistent.
\<close>

theorem pages_tenant_isolation:
  assumes "conn_ok s" "tidy (db s)" "\<forall>(p, rq) \<in> set reqs. hr_tid rq \<noteq> tid"
  shows "conn_ok (run_pages G T reqs s) \<and> team_rows tid (db (run_pages G T reqs s)) = team_rows tid (db s)"
  using run_pages_keeps [OF assms] by blast

section \<open>Deleting a server\<close>

lemma logged_Inr_iff: "logged m s = (Inr x, t) \<longleftrightarrow> t = snd (m s)"
  by (auto simp: logged_def tryE_run ret_def)

lemma delete_buckets_frame:
  fixes s :: "('r, 'z) netenv_scheme"
  obtains k x where "snd (delete_buckets sid bs s) = s\<lparr>calls := k, status_data := x\<rparr>"
proof -
  have "\<exists>k x. snd (delete_buckets sid bs s) = s\<lparr>calls := k, status_data := x\<rparr>"
  proof (induction bs arbitrary: s)
    case Nil
    show ?case by (rule exI [of _ "calls s"], rule exI [of _ "status_data s"]) simp
  next
    case (Cons b bs)
    have "\<exists>k x. snd (delete_bucket sid b s) = s\<lparr>calls := k, status_data := x\<rparr>"
    proof -
      have "\<exists>k x. s\<lparr>calls := Suc (calls s)\<rparr> = s\<lparr>calls := k, status_data := x\<rparr>"
        by (rule exI [of _ "Suc (calls s)"], rule exI [of _ "status_data s"]) simp
      then show ?thesis by (cases "outcomes s (calls s)") (auto simp: delete_bucket_def next_call_def)
    qed
    then obtain k x where b: "snd (delete_bucket sid b s) = s\<lparr>calls := k, status_data := x\<rparr>" by blast
    from Cons [of "s\<lparr>calls := k, status_data := x\<rparr>"] b show ?case by (auto simp: prod.case_eq_if)
  qed
  with that show thesis by blast
qed

lemma RemoveServerStatus_frame:
  fixes s :: "('r, 'z) netenv_scheme"
  obtains k x where "snd (RemoveServerStatus sid s) = s\<lparr>calls := k, status_data := x\<rparr>"
  using delete_buckets_frame [of sid status_buckets s] that by (auto simp: RemoveServerStatus_def prod.case_eq_if)

lemma stopped_cong: "entries t = entries s \<Longrightarrow> managed t = managed s \<Longrightarrow> retries t = retries s \<Longrightarrow> stopped sid t = stopped sid s"
  by (simp add: stopped_def)

lemma after_logged_stop:
  fixes s :: "('r, 'z) netenv_scheme"
  assumes "conn_ok s"
  obtains t where "logged (StopServer sid) s = (Inr (), t)" "conn_ok t" "db t = db s" "stopped sid t"
  using sup.after_stop [OF assms, of sid "\<lambda>_. ret () :: ('r, 'z, unit) page"] that by (auto simp: logged_def ret_def)

lemma after_logged_reconcile:
  fixes s :: "('r, 'z) netenv_scheme"
  assumes "conn_ok s"
  obtains t where "logged (ReconcileServer sid) s = (Inr (), t)" "conn_ok t" "db t = db s"
  using sup.after_reconcile [OF assms, of sid "\<lambda>_. ret () :: ('r, 'z, unit) page"] that by (auto simp: logged_def ret_def)

text \<open>After the row is gone, a second stop and the clean-up.\<close>

lemma del_tail:
  fixes s :: "('r, 'z) netenv_scheme"
  assumes ok: "conn_ok s" and run: "bindE (logged (StopServer sid)) (\<lambda>_. bindE (logged (RemoveServerStatus sid)) (\<lambda>_.
      bindE (audit rq c m l) (\<lambda>_. ok NoData))) s = (r, t)"
  shows "conn_ok t \<and> db t = db s \<and> stopped sid t"
proof -
  obtain u where u: "logged (StopServer sid) s = (Inr (), u)" "conn_ok u" "db u = db s" "stopped sid u"
    by (rule after_logged_stop [OF ok])
  obtain k x where v: "snd (RemoveServerStatus sid u) = u\<lparr>calls := k, status_data := x\<rparr>" by (rule RemoveServerStatus_frame)
  have "t = log_event (hr_tid rq) (hr_uid rq) c m (hr_ip rq) (hr_ua rq) l (u\<lparr>calls := k, status_data := x\<rparr>)"
    using run v by (simp add: bindE_run [of "logged (StopServer sid)"] u(1) bindE_run [of "logged (RemoveServerStatus sid)"] audit_def ok_def ret_def)
      (simp add: logged_def tryE_run ret_def)
  moreover obtain p where "log_event (hr_tid rq) (hr_uid rq) c m (hr_ip rq) (hr_ua rq) l (u\<lparr>calls := k, status_data := x\<rparr>) =
      (u\<lparr>calls := k, status_data := x\<rparr>)\<lparr>reads := Suc (reads u), log_count := Suc (log_count u), auditLogs := p\<rparr>"
    using log_event_frame [of "hr_tid rq" "hr_uid rq" c m "hr_ip rq" "hr_ua rq" l "u\<lparr>calls := k, status_data := x\<rparr>"] by auto
  ultimately show ?thesis using u by (simp add: stopped_def)
qed

text \<open>Nothing in the tables refers to the server.\<close>

definition gone :: "int \<Rightarrow> server_db \<Rightarrow> bool" where
  "gone sid d \<longleftrightarrow> map_of (srvs d) sid = None \<and> map_of (details d) sid = None \<and> map_of (runtime d) sid = None \<and> map_of (advanced d) sid = None \<and> map_of (sshs d) sid = None \<and>
     map_of (agents d) sid = None \<and> map_of (enrolls d) sid = None \<and> (\<forall>item. map_of (rules d) (sid, item) = None)"

lemma delete_server_gone: "server_in_team d tid sid \<Longrightarrow> gone sid (delete_server tid sid d)"
  by (simp add: gone_def delete_server_def AList.delete_conv' map_of_delete_rules)

text \<open>
  A request to delete a server that is answered with success was for a server of the
  requesting team; afterwards nothing in the tables refers to it, no worker, connection or retry of it
  is alive, and everything else in the tables is as before.
\<close>

theorem server_del_correct:
  assumes ok: "conn_ok s" and run: "server_del rq s = (Inr a, t)"
  shows "let sid = parse_int64_value (hr_id rq) in
    server_in_team (db s) (hr_tid rq) sid \<and> db t = delete_server (hr_tid rq) sid (db s) \<and> gone sid (db t) \<and> stopped sid t \<and> conn_ok t"
proof -
  let ?sid = "parse_int64_value (hr_id rq)" and ?tid = "hr_tid rq"
  let ?tail = "\<lambda>nm. bindE (logged (StopServer ?sid)) (\<lambda>_. bindE (logged (RemoveServerStatus ?sid)) (\<lambda>_.
      bindE (audit rq ''server'' (''Delete Server: '' @ nm @ '' (ID: '' @ itoa ?sid @ '')'') ''high'') (\<lambda>_. ok NoData)))"
  obtain q1 s1 where q1: "query_db_row (\<lambda>d. if server_in_team d ?tid ?sid then map_option srv_name (map_of (srvs d) ?sid) else None) s = (q1, s1)"
    by fastforce
  have guard: "\<not> (?tid = 0 \<or> ?sid = 0)"
    using run by (auto simp: server_del_def Let_def fails_def raise_def split: if_splits)
  from run q1 obtain nm where nm: "q1 = Inr nm" "nm \<noteq> []"
    by (cases q1) (auto simp: server_del_def Let_def tryE_run fails_def raise_def split: if_splits)
  from q1 nm have s1: "server_in_team (db s) ?tid ?sid" "s1 = s\<lparr>calls := Suc (calls s)\<rparr>"
    by (auto simp: query_db_row_Inr_iff split: if_splits)
  then have ok1: "conn_ok s1" "db s1 = db s" using ok by simp_all
  let ?rest = "\<lambda>deleted. case deleted of Inl _ \<Rightarrow> bindE (logged (ReconcileServer ?sid)) (\<lambda>_. raise (ErrorHandler, NoData)) | Inr _ \<Rightarrow> ?tail nm"
  have run2: "bindE (logged (StopServer ?sid)) (\<lambda>_. tryE (DeleteServer ?tid ?sid) ?rest) s1 = (Inr a, t)"
    using run unfolding server_del_def Let_def if_not_P [OF guard] tryE_run [of "query_db_row _"] q1 nm(1) fst_conv snd_conv sum.case if_not_P [OF nm(2)] .
  obtain u where u: "logged (StopServer ?sid) s1 = (Inr (), u)" "conn_ok u" "db u = db s1" by (rule after_logged_stop [OF ok1(1)])
  obtain q2 v where q2: "DeleteServer ?tid ?sid u = (q2, v)" by fastforce
  have run3: "?rest q2 v = (Inr a, t)" using run2 by (simp only: bindE_run [of "logged (StopServer ?sid)"] u(1) prod.case sum.case tryE_run [of "DeleteServer _ _"] q2 fst_conv snd_conv)
  have "q2 \<noteq> Inl e" for e
  proof
    assume "q2 = Inl e"
    with run3 show False by (auto simp: bindE_run raise_def split: sum.splits prod.splits)
  qed
  then have q2': "q2 = Inr ()" by (cases q2) auto
  with q2 u ok1(2) have v: "conn_ok v" "db v = delete_server ?tid ?sid (db s)" by (auto simp: DeleteServer_def exec_db_Inr_iff)
  from run3 q2' have "?tail nm v = (Inr a, t)" by simp
  from del_tail [OF v(1) this] v(2) s1(1) delete_server_gone [OF s1(1)] show ?thesis by (simp add: Let_def)
qed

section \<open>Enrolment\<close>

lemma orError_Inr_iff: "orError m s = (Inr x, t) \<longleftrightarrow> m s = (Inr x, t)"
  by (auto simp: orError_def tryE_run ret_def raise_def split: sum.splits) (metis prod.collapse)+

lemma page_transaction_InrD:
  assumes "page_transaction m s = (Inr x, t)"
  obtains u where "m (s\<lparr>calls := Suc (calls s)\<rparr>) = (Inr x, u)" "t = u\<lparr>calls := Suc (calls u)\<rparr>"
  using assms that by (auto simp: page_transaction_def next_call_def split: if_splits prod.splits sum.splits outcome.splits)

lemma quiet_run: "quiet m \<Longrightarrow> m s = (r, t) \<Longrightarrow> db t = db s \<and> conn_ok t = conn_ok s"
  unfolding quiet_def by (metis snd_conv)

declare run_gets [simp]

lemma on_redis_conf:
  assumes "on_redis m s = (r, t)"
  shows "db t = db s" "token_hash x t = token_hash x s"
  using assms by (auto simp: on_redis_def token_hash_def split: prod.splits)

lemma GetEnrollToken_Inr:
  assumes "GetEnrollToken hash s = (Inr sid, t)"
  shows "db t = db s \<and> (\<exists>r. (sid, r) \<in> set (enrolls (db s)) \<and> en_hash r = hash \<and> \<not> en_revoked r)"
proof -
  from assms obtain row where "find (\<lambda>(_, r). en_hash r = hash \<and> \<not> en_revoked r) (enrolls (db s)) = Some row" "fst row = sid" "db t = db s"
    by (auto simp: GetEnrollToken_def query_db_row_Inr_iff)
  with find_in_set [OF this(1)] show ?thesis by (cases row) auto
qed

lemma enroll_InrD:
  assumes "enroll S key_ok rq s = (Inr a, t)"
  obtains sid s1 s2 uid where "key_ok (hr_form rq ''public_key'')" "db s1 = db s"
    "GetEnrollToken (token_hash (hr_form rq ''token'') s) s1 = (Inr sid, s2)" "sid \<noteq> 0" "a = ((200, ''ok''), AgentUID uid)"
    "enroll_transaction sid (token_hash (hr_form rq ''token'') s)
       (enrolled_agent uid (hr_ip rq) (hr_form rq ''version'') (hr_form rq ''public_key'')) (snd (uuid_NewRandom s2)) = (Inr (), t)"
proof -
  obtain q1 s1 where q1: "on_redis (CheckEnrollRateLimit (redis S) (counters S) (sha_hex S) (hr_ip rq)) s = (q1, s1)" by fastforce
  let ?h = "token_hash (hr_form rq ''token'') s"
  note s1 = on_redis_conf [OF q1]
  obtain q2 s2 where q2: "GetEnrollToken ?h s1 = (q2, s2)" by fastforce
  let ?rest = "\<lambda>serverId. bindE (orError uuid_NewRandom) (\<lambda>agentUID. bindE (enroll_transaction serverId ?h
      (enrolled_agent agentUID (hr_ip rq) (hr_form rq ''version'') (hr_form rq ''public_key''))) (\<lambda>_. ok (AgentUID agentUID)))"
  have "key_ok (hr_form rq ''public_key'') \<and> (\<exists>sid. q2 = Inr sid \<and> sid \<noteq> 0 \<and> ?rest sid s2 = (Inr a, t))"
    using assms q1 q2 s1(2)
    by (auto simp: enroll_def Let_def tryE_run fails_def raise_def enroll_failure_def split: sum.splits if_splits)
  then obtain sid where sid: "key_ok (hr_form rq ''public_key'')" "q2 = Inr sid" "sid \<noteq> 0" "?rest sid s2 = (Inr a, t)" by blast
  from sid(4) obtain uid where "a = ((200, ''ok''), AgentUID uid)" "enroll_transaction sid ?h
      (enrolled_agent uid (hr_ip rq) (hr_form rq ''version'') (hr_form rq ''public_key'')) (snd (uuid_NewRandom s2)) = (Inr (), t)"
    by (auto simp: bindE_Inr_iff orError_Inr_iff ok_def ret_def)
  with that sid s1 q2 show thesis by blast
qed

lemma enroll_transaction_Inr:
  assumes "enroll_transaction sid hash a s = (Inr (), t)"
  shows "map_of (agents (db s)) sid = None \<and> has_key (srvs (db s)) sid \<and> \<not> uid_taken (ag_uid a) (db s) \<and>
    db t = revoke_token hash ((db s)\<lparr>agents := (sid, a) # agents (db s)\<rparr>)"
  using assms unfolding enroll_transaction_def
  by (elim page_transaction_InrD) (auto simp: bindE_Inr_iff orError_Inr_iff exec_db_Inr_iff insert_agent_def not_has_key split: if_splits dest: has_keyI)

lemma revoked_all: "(i, r) \<in> set (enrolls (revoke_token hash d)) \<Longrightarrow> en_hash r = hash \<Longrightarrow> en_revoked r"
proof -
  assume "(i, r) \<in> set (enrolls (revoke_token hash d))" and h: "en_hash r = hash"
  then obtain x where x: "r = (if en_hash x = hash then x\<lparr>en_revoked := True\<rparr> else x)" by (auto simp: revoke_token_def)
  with h show ?thesis by (cases "en_hash x = hash") simp_all
qed

lemma uuid_db [simp]: "db (snd (uuid_NewRandom s)) = db s" for s :: "('r, 'z) netenv_scheme"
  by (cases "uuid_NewRandom s") (simp add: quiet_run [OF quiet_random(2)])

text \<open>
  (C12) An enrolment succeeds only with a valid key and a token that is on record for a server and
  was not used before; it then creates exactly the agent of that server with the key that was sent, revokes the
  token, and changes nothing else. From then on, as long as the tokens on record stay the same, the token
  enrols nobody.
\<close>

theorem enroll_correct:
  fixes s u :: "('r, 'z) netenv_scheme"
  assumes run: "enroll S key_ok rq s = (Inr a, t)"
    and later: "enrolls (db u) = enrolls (db t)" "token_hash (hr_form rq ''token'') u = token_hash (hr_form rq ''token'') s"
      "hr_form rq' ''token'' = hr_form rq ''token''"
  shows "(\<exists>sid uid r. (sid, r) \<in> set (enrolls (db s)) \<and> en_hash r = token_hash (hr_form rq ''token'') s \<and> \<not> en_revoked r \<and>
      key_ok (hr_form rq ''public_key'') \<and> map_of (agents (db s)) sid = None \<and> \<not> uid_taken uid (db s) \<and> a = ((200, ''ok''), AgentUID uid) \<and>
      db t = revoke_token (token_hash (hr_form rq ''token'') s) ((db s)\<lparr>agents := (sid, enrolled_agent uid (hr_ip rq) (hr_form rq ''version'') (hr_form rq ''public_key'')) # agents (db s)\<rparr>)) \<and>
    (\<forall>b v. enroll S key_ok' rq' u \<noteq> (Inr b, v))"
proof -
  let ?h = "token_hash (hr_form rq ''token'') s"
  from run obtain sid s1 s2 uid where e: "key_ok (hr_form rq ''public_key'')" "db s1 = db s" "GetEnrollToken ?h s1 = (Inr sid, s2)"
    "a = ((200, ''ok''), AgentUID uid)" "enroll_transaction sid ?h
       (enrolled_agent uid (hr_ip rq) (hr_form rq ''version'') (hr_form rq ''public_key'')) (snd (uuid_NewRandom s2)) = (Inr (), t)"
    by (rule enroll_InrD)
  from GetEnrollToken_Inr [OF e(3)] e(2) obtain r where r: "db s2 = db s" "(sid, r) \<in> set (enrolls (db s))" "en_hash r = ?h" "\<not> en_revoked r" by auto
  from enroll_transaction_Inr [OF e(5)] r(1) have t: "map_of (agents (db s)) sid = None" "\<not> uid_taken uid (db s)"
    "db t = revoke_token ?h ((db s)\<lparr>agents := (sid, enrolled_agent uid (hr_ip rq) (hr_form rq ''version'') (hr_form rq ''public_key'')) # agents (db s)\<rparr>)"
    by (simp_all add: enrolled_agent_def)
  have "enroll S key_ok' rq' u \<noteq> (Inr b, v)" for b v
  proof
    assume "enroll S key_ok' rq' u = (Inr b, v)"
    then obtain sid' and u1 u2 :: "('r, 'z) netenv_scheme" where u: "db u1 = db u" "GetEnrollToken (token_hash (hr_form rq' ''token'') u) u1 = (Inr sid', u2)"
      by (rule enroll_InrD) blast
    from GetEnrollToken_Inr [OF u(2)] u(1) later obtain r' where "(sid', r') \<in> set (enrolls (db t))" "en_hash r' = ?h" "\<not> en_revoked r'" by auto
    with revoked_all t(3) show False by metis
  qed
  with e(1,4) r(2-4) t show ?thesis by blast
qed

section \<open>Reinstalling\<close>

lemma hub_encrypt_opens:
  fixes s :: "('r, 'z) netenv_scheme"
  assumes "hub_encrypt p ctx s = (Inr c, t)" "ciphers_ok (hub_ciphers s)" "\<forall>n. rand_ok (entropy s n)"
  shows "encrypt_Decrypt (hub_ciphers s) c (hub_key s) ctx = Inr p \<and> t = s\<lparr>draws := Suc (draws s)\<rparr>"
proof -
  from assms(1) have e: "encrypt_Encrypt (hub_ciphers s) (entropy s (draws s)) p (hub_key s) ctx = Inr c" "t = s\<lparr>draws := Suc (draws s)\<rparr>"
    by (auto simp: hub_encrypt_def split: sum.splits)
  from encrypt_Encrypt_Inr [OF e(1)] assms(3) obtain n where n: "length n = nonce_size" "valid_key_length (hub_key s)"
    "c = (envelopeMagic @ [envelopeVersion]) @ n @ gcm_seal (hub_ciphers s) (hub_key s) n p (associatedData (envelopeMagic @ [envelopeVersion]) ctx)"
    by blast
  from decrypt_of_envelope [OF assms(2) n(1,2) refl] e(2) show ?thesis unfolding n(3) by simp
qed

lemma uuid_Inr:
  fixes s :: "('r, 'z) netenv_scheme"
  assumes "uuid_NewRandom s = (Inr u, t)"
  shows "t = s\<lparr>draws := Suc (draws s)\<rparr>"
  using assms by (auto simp: uuid_NewRandom_def draw_def bindE_run raise_def ret_def split: option.splits)

lemma GenerateEd25519KeyPair_Inr:
  fixes s :: "('r, 'z) netenv_scheme"
  assumes "GenerateEd25519KeyPair s = (Inr (priv, pub), t)"
  shows "t = s\<lparr>draws := Suc (draws s)\<rparr> \<and> (\<exists>n seed pk. keypairs s n = Some (seed, pk) \<and>
    priv = pem_encode s ''PRIVATE KEY'' seed \<and> pub = pem_encode s ''PUBLIC KEY'' pk)"
  using assms by (auto simp: GenerateEd25519KeyPair_def draw_def bindE_run raise_def ret_def gets_def split: option.splits prod.splits)

text \<open>The stored private key opens under the context of its server, and belongs to the public key that is answered.\<close>

definition key_pair_of where
  "key_pair_of s sid c pub \<longleftrightarrow> (\<exists>n seed pk. keypairs s n = Some (seed, pk) \<and> pub = b64_std_encode (pem_encode s ''PUBLIC KEY'' pk) \<and>
     encrypt_Decrypt (hub_ciphers s) c (hub_key s) (AgentPrivateKeyContext sid) = Inr (pem_encode s ''PRIVATE KEY'' seed))"

lemma create_active_Inr:
  fixes s :: "('r, 'z) netenv_scheme"
  assumes run: "create_active sid host port s = (Inr (uid, pub), t)"
    and C: "ciphers_ok (hub_ciphers s)" "\<forall>n. rand_ok (entropy s n)"
  obtains c n k where "key_pair_of s sid c pub" "insert_agent sid (active_agent uid host port c) (db s) = Some (db t)"
    "t = s\<lparr>draws := n, calls := k, db := db t\<rparr>"
proof -
  from run obtain s1 and priv s2 c s3 pubkey where 1: "uuid_NewRandom s = (Inr uid, s1)" "GenerateEd25519KeyPair s1 = (Inr (priv, pubkey), s2)"
    "hub_encrypt priv (AgentPrivateKeyContext sid) s2 = (Inr c, s3)" "pub = b64_std_encode pubkey"
    "exec_db (insert_agent sid (active_agent uid host port c)) s3 = (Inr (), t)"
    by (auto simp: create_active_def bindE_Inr_iff orError_Inr_iff ret_def)
  note u = uuid_Inr [OF 1(1)]
  note g = GenerateEd25519KeyPair_Inr [OF 1(2)]
  have e: "encrypt_Decrypt (hub_ciphers s) c (hub_key s) (AgentPrivateKeyContext sid) = Inr priv \<and> s3 = s2\<lparr>draws := Suc (draws s2)\<rparr>"
    using hub_encrypt_opens [OF 1(3)] C u g by simp
  have "key_pair_of s sid c pub" unfolding key_pair_of_def using g e 1(4) u by auto
  moreover have "insert_agent sid (active_agent uid host port c) (db s) = Some (db t)"
    "t = s\<lparr>draws := draws s3, calls := Suc (calls s3), db := db t\<rparr>"
    using 1(5) u g e by (auto simp: exec_db_Inr_iff)
  ultimately show thesis by (rule that)
qed

text \<open>What a reinstallation leaves in the tables, for each kind of agent.\<close>

definition reinstalled where
  "reinstalled s sid response d \<longleftrightarrow>
     (case response of
        PassiveAgent i domain token \<Rightarrow> token \<noteq> [] \<and> map_of (agents d) sid = None \<and>
          map_of (enrolls d) sid = Some \<lparr>en_hash = token_hash token s, en_revoked = False\<rparr>
      | ActiveAgent i host port uid pub \<Rightarrow> map_of (enrolls d) sid = None \<and>
          (\<exists>c. key_pair_of s sid c pub \<and> map_of (agents d) sid = Some (active_agent uid host port c))
      | _ \<Rightarrow> False)"

lemma insert_agent_Some: "insert_agent sid a d = Some e \<Longrightarrow> e = d\<lparr>agents := (sid, a) # agents d\<rparr>"
  by (auto simp: insert_agent_def split: if_splits)

lemma reinstall_active_Inr:
  fixes s :: "('r, 'z) netenv_scheme"
  assumes run: "reinstall_active sid host port s = (Inr response, t)"
    and C: "ciphers_ok (hub_ciphers s)" "\<forall>n. rand_ok (entropy s n)"
  shows "reinstalled s sid response (db t) \<and> conn_ok t = conn_ok s"
proof -
  let ?d = "delete_agent sid (delete_enroll sid (db s))"
  let ?s = "s\<lparr>calls := Suc (Suc (calls s)), db := ?d\<rparr>"
  from run obtain uid pub where 1: "create_active sid host port ?s = (Inr (uid, pub), t)" "response = ActiveAgent None host port uid pub"
    by (auto simp: reinstall_active_def bindE_Inr_iff orError_Inr_iff exec_db_Inr_iff ret_def)
  obtain c n k where c: "key_pair_of ?s sid c pub" "insert_agent sid (active_agent uid host port c) (db ?s) = Some (db t)"
    "t = ?s\<lparr>draws := n, calls := k, db := db t\<rparr>" by (rule create_active_Inr [OF 1(1)]) (use C in simp_all)
  have "conn_ok t = conn_ok s" by (subst c(3)) simp
  moreover have "key_pair_of s sid c pub" using c(1) by (simp add: key_pair_of_def)
  ultimately show ?thesis using insert_agent_Some [OF c(2)] 1(2)
    by (auto simp: reinstalled_def delete_agent_def delete_enroll_def AList.delete_conv')
qed

lemma reinstall_passive_Inr:
  fixes s :: "('r, 'z) netenv_scheme"
  assumes run: "reinstall_passive sid s = (Inr response, t)"
  shows "reinstalled s sid response (db t) \<and> conn_ok t = conn_ok s"
  using assms
  by (auto simp: reinstall_passive_def bindE_Inr_iff orError_Inr_iff exec_db_Inr_iff ret_def raise_def hub_RandomString_def draw_def gets_def
      upsert_enroll_def reinstalled_def token_hash_def delete_agent_def AList.delete_conv' AList.update_conv' split: if_splits)

lemma reinstall_transaction_Inr:
  fixes s :: "('r, 'z) netenv_scheme"
  assumes run: "reinstall_transaction tid sid mode host port s = (Inr response, t)"
    and C: "ciphers_ok (hub_ciphers s)" "\<forall>n. rand_ok (entropy s n)"
  shows "server_in_team (db s) tid sid \<and> reinstalled s sid response (db t) \<and> conn_ok t = conn_ok s"
proof -
  let ?begun = "s\<lparr>calls := Suc (calls s)\<rparr>" and ?s = "s\<lparr>calls := Suc (Suc (Suc (calls s))), db := set_type mode sid tid (db s)\<rparr>"
  from run obtain u where u: "tryE (query_db_row (\<lambda>d. if server_in_team d tid sid then map_option srv_type (map_of (srvs d) sid) else None)) (\<lambda>res. case res of
       Inl e \<Rightarrow> if e = ErrNoRows then fails 400 ''error'' else raise (ErrorHandler, NoData)
     | Inr currentType \<Rightarrow>
         if currentType = 0 then fails 400 ''invalid_server_type''
         else if currentType \<noteq> mode then fails 400 ''mode_mismatch''
         else
           bindE (orError (exec_db (\<lambda>d. Some (set_type mode sid tid d)))) (\<lambda>_.
           if mode = 1 then reinstall_active sid host port else reinstall_passive sid)) ?begun = (Inr response, u)"
    "t = u\<lparr>calls := Suc (calls u)\<rparr>"
    unfolding reinstall_transaction_def by (rule page_transaction_InrD)
  obtain q1 s1 where q1: "query_db_row (\<lambda>d. if server_in_team d tid sid then map_option srv_type (map_of (srvs d) sid) else None) ?begun = (q1, s1)"
    by fastforce
  from u(1) q1 obtain ty where ty: "q1 = Inr ty"
    by (cases q1) (auto simp: tryE_run fails_def raise_def split: if_splits)
  from q1 ty have s1: "server_in_team (db s) tid sid" "s1 = s\<lparr>calls := Suc (Suc (calls s))\<rparr>"
    by (auto simp: query_db_row_Inr_iff split: if_splits)
  from u(1) q1 ty s1(2) have "(if mode = 1 then reinstall_active sid host port else reinstall_passive sid) ?s = (Inr response, u)"
    by (auto simp: tryE_run fails_def raise_def bindE_Inr_iff orError_Inr_iff exec_db_Inr_iff split: if_splits)
  then have "reinstalled ?s sid response (db u) \<and> conn_ok u = conn_ok ?s"
    using reinstall_active_Inr [of sid host port ?s response u] reinstall_passive_Inr [of sid ?s response u] C by (simp split: if_splits)
  moreover have "reinstalled ?s sid response (db u) = reinstalled s sid response (db u)"
    by (simp add: reinstalled_def key_pair_of_def token_hash_def cong: answer_data.case_cong)
  ultimately show ?thesis using s1(1) u(2) by simp
qed

text \<open>
  (C28) A request to reinstall an agent that is answered with success was for a server of the
  requesting team. The old identity of the agent is gone: a passive server has no agent and exactly the token
  that was answered, unrevoked and stored as its hash; an active one has no token and the agent
  with the identifier that was answered, whose stored private key opens for this server and belongs to the public key that was answered.
\<close>

theorem server_reinstall_correct:
  fixes s t :: "('r, 'z) netenv_scheme"
  assumes ok: "conn_ok s" and C: "ciphers_ok (hub_ciphers s)" "\<forall>n. rand_ok (entropy s n)"
    and run: "server_reinstall rq s = (Inr (code, response), t)"
  shows "let sid = parse_int64_value (hr_id rq) in
    code = (200, ''ok'') \<and> server_in_team (db s) (hr_tid rq) sid \<and> reinstalled s sid response (db t) \<and> conn_ok t"
proof -
  let ?sid = "parse_int64_value (hr_id rq)" and ?host = "trim_space (hr_form rq ''address'')" and ?port = "parse_int64_value (hr_form rq ''port'')"
  let ?tail = "\<lambda>response. bindE (logged (StopServer ?sid)) (\<lambda>_. bindE (logged (ReconcileServer ?sid)) (\<lambda>_.
            bindE (audit rq ''server'' (''Reinstall Agent (ID'' @ itoa ?sid @ '')'') ''medium'') (\<lambda>_. ok response)))"
  from run obtain mode where "bindE (reinstall_transaction (hr_tid rq) ?sid mode ?host ?port) ?tail s = (Inr (code, response), t)"
    unfolding server_reinstall_def Let_def fails_def raise_def by (auto split: if_splits option.splits)
  then obtain response' u where u: "reinstall_transaction (hr_tid rq) ?sid mode ?host ?port s = (Inr response', u)" "?tail response' u = (Inr (code, response), t)"
    unfolding bindE_Inr_iff [of "reinstall_transaction _ _ _ _ _"] by blast
  note tr = reinstall_transaction_Inr [OF u(1) C]
  obtain v where v: "logged (StopServer ?sid) u = (Inr (), v)" "conn_ok v" "db v = db u"
    by (rule after_logged_stop [of u ?sid]) (use tr ok in auto)
  obtain w where w: "logged (ReconcileServer ?sid) v = (Inr (), w)" "conn_ok w" "db w = db v" by (rule after_logged_reconcile [OF v(2)])
  have "t = log_event (hr_tid rq) (hr_uid rq) ''server'' (''Reinstall Agent (ID'' @ itoa ?sid @ '')'') (hr_ip rq) (hr_ua rq) ''medium'' w"
    "code = (200, ''ok'')" "response' = response"
    using u(2) unfolding bindE_run [of "logged (StopServer _)"] v(1) prod.case sum.case bindE_run [of "logged (ReconcileServer _)"] w(1) audit_def LogAdd_bind ok_def ret_def
    by simp_all
  moreover obtain p where "log_event (hr_tid rq) (hr_uid rq) ''server'' (''Reinstall Agent (ID'' @ itoa ?sid @ '')'') (hr_ip rq) (hr_ua rq) ''medium'' w =
      w\<lparr>reads := Suc (reads w), log_count := Suc (log_count w), auditLogs := p\<rparr>" by (rule log_event_frame)
  ultimately show ?thesis using tr v w by simp
qed

section \<open>A sample hub\<close>

text \<open>Team 7 with an active and a passive server, team 8 with a category of its own.\<close>

definition sample_pages_db :: server_db where
  "sample_pages_db = no_servers\<lparr>known_teams := [7, 8],
     srvs := [(5, \<lparr>srv_team = 7, srv_name = ''web'', srv_type = 1, srv_category = 1, srv_monitor = False, srv_terminal = False, srv_public = True, srv_weight = 0\<rparr>),
              (6, \<lparr>srv_team = 7, srv_name = ''nas'', srv_type = 2, srv_category = 1, srv_monitor = False, srv_terminal = False, srv_public = True, srv_weight = 0\<rparr>)],
     enrolls := [(6, \<lparr>en_hash = ''et'', en_revoked = False\<rparr>)],
     cats := [(1, \<lparr>cat_team = 7, cat_name = ''c'', cat_sort = 0\<rparr>), (2, \<lparr>cat_team = 8, cat_name = ''c'', cat_sort = 0\<rparr>)],
     srv_seq := 6, cat_seq := 2\<rparr>"

definition sample_pages :: "unit netenv" where
  "sample_pages = (sample_net dial_ok)\<lparr>db := sample_pages_db\<rparr>"

definition page_codec :: time_codec where
  "page_codec = \<lparr>rfc3339 = (\<lambda>_. None), rfc3339nano = (\<lambda>_. [])\<rparr>"

definition page_request :: "int \<Rightarrow> string \<Rightarrow> (string \<times> string) list \<Rightarrow> hub_request" where
  "page_request tid i form = \<lparr>hr_uid = 1, hr_tid = tid, hr_id = i,
     hr_form = (\<lambda>k. case map_of form k of None \<Rightarrow> [] | Some v \<Rightarrow> v), hr_ip = ''ip'', hr_ua = ''ua''\<rparr>"

lemma run_of_fst: "fst r = x \<Longrightarrow> r = (x, snd r)"
  by (cases r) simp

lemma sample_pages_ok: "conn_ok sample_pages"
  by (simp add: sample_pages_def sample_net_def conn_ok_def reg_ok_def)

lemma sample_pages_tidy: "tidy (db sample_pages)"
  by (auto simp: sample_pages_def sample_pages_db_def no_servers_def tidy_def has_key_def)

definition other_requests :: "(hub_page \<times> hub_request) list" where
  "other_requests = [(RemoveServer, page_request 8 ''5'' []), (NewCategory, page_request 8 [] [(''name'', ''d'')]), (RemoveCategory, page_request 8 ''1'' [])]"

theorem pages_tenant_isolation_witness:
  "team_rows 7 (db (run_pages sample_ssh page_codec other_requests sample_pages)) = team_rows 7 (db sample_pages) \<and>
   map_of (cats (db (run_pages sample_ssh page_codec other_requests sample_pages))) 3 = Some \<lparr>cat_team = 8, cat_name = ''d'', cat_sort = 0\<rparr>"
proof -
  have "\<forall>(p, rq) \<in> set other_requests. hr_tid rq \<noteq> 7" by (simp add: other_requests_def page_request_def)
  from conjunct2 [OF pages_tenant_isolation [OF sample_pages_ok sample_pages_tidy this]]
  have "team_rows 7 (db (run_pages sample_ssh page_codec other_requests sample_pages)) = team_rows 7 (db sample_pages)" .
  moreover have "map_of (cats (db (run_pages sample_ssh page_codec other_requests sample_pages))) 3 = Some \<lparr>cat_team = 8, cat_name = ''d'', cat_sort = 0\<rparr>"
    by code_simp
  ultimately show ?thesis by (rule conjI)
qed

theorem server_del_correct_witness:
  "stopped 5 (snd (server_del (page_request 7 ''5'' []) sample_pages)) \<and> gone 5 (db (snd (server_del (page_request 7 ''5'' []) sample_pages)))"
proof -
  let ?run = "server_del (page_request 7 ''5'' []) sample_pages"
  have "fst ?run = Inr ((200, ''ok''), NoData)" by code_simp
  then have "?run = (Inr ((200, ''ok''), NoData), snd ?run)" by (rule run_of_fst)
  note del = server_del_correct [OF sample_pages_ok this, unfolded Let_def]
  have "parse_int64_value (hr_id (page_request 7 ''5'' [])) = 5" by code_simp
  from del [unfolded this] show ?thesis by blast
qed

theorem server_reinstall_correct_witness:
  "\<exists>token. map_of (enrolls (db (snd (server_reinstall (page_request 7 ''6'' [(''mode'', ''2'')]) sample_pages)))) 6 =
     Some \<lparr>en_hash = token_hash token sample_pages, en_revoked = False\<rparr> \<and>
   fst (server_reinstall (page_request 7 ''6'' [(''mode'', ''2'')]) sample_pages) = Inr ((200, ''ok''), PassiveAgent None ''hub'' token)"
proof -
  let ?run = "server_reinstall (page_request 7 ''6'' [(''mode'', ''2'')]) sample_pages"
  have 1: "fst ?run = Inr ((200, ''ok''), PassiveAgent None ''hub'' (replicate 32 CHR ''a''))" by code_simp
  then have "?run = (Inr ((200, ''ok''), PassiveAgent None ''hub'' (replicate 32 CHR ''a'')), snd ?run)" by (rule run_of_fst)
  note re = server_reinstall_correct [OF sample_pages_ok _ _ this, unfolded Let_def]
  have "parse_int64_value (hr_id (page_request 7 ''6'' [(''mode'', ''2'')])) = 6" by code_simp
  moreover have "ciphers_ok (hub_ciphers sample_pages)" "\<forall>n. rand_ok (entropy sample_pages n)"
    by (simp_all add: sample_pages_def sample_net_def sample_ciphers_ok rand_ok_def)
  ultimately show ?thesis using re 1 by (auto simp: reinstalled_def)
qed

definition sample_enrol :: "mem netenv" where
  "sample_enrol =
     \<lparr>calls = 0, outcomes = (\<lambda>_. Done), reads = 0, clock = (\<lambda>_. 0), team_seq = 0,
      tabs = \<lparr>users = [], teams = [], m_team_user = [], users_config = [], categories = []\<rparr>,
      db = sample_pages_db, draws = 0, entropy = (\<lambda>_ n. Some (replicate n CHR ''n'')), hub_key = replicate 32 CHR ''k'',
      hub_ciphers = sample_ciphers, entries = [], connectPool = [], retries = [], reconcileRetries = [],
      managed = [], mainConnections = [], hub_redis = rstate sample_login, auditLogs = None, log_count = 0, log_branches = (\<lambda>_. SelectSend),
      status_data = [], rand_ints = (\<lambda>_ _. Some 0), uuids = (\<lambda>_. Some ''u''), keypairs = (\<lambda>_. Some (''seed'', ''pub'')),
      pem_encode = (\<lambda>t b. t @ b), sha256_hex = (\<lambda>x. x), conf_token = ''t'', conf_domain = ''hub'',
      dialled = 0, dials = (\<lambda>_. dial_ok), offers = []\<rparr>"

definition enrol_request :: hub_request where
  "enrol_request = page_request 0 [] [(''token'', ''e''), (''public_key'', ''pk''), (''version'', ''1'')]"

theorem enroll_correct_witness:
  "fst (enroll mem_services (\<lambda>k. k = ''pk'') enrol_request sample_enrol) = Inr ((200, ''ok''), AgentUID ''u'') \<and>
   map_of (agents (db (snd (enroll mem_services (\<lambda>k. k = ''pk'') enrol_request sample_enrol)))) 6 = Some (enrolled_agent ''u'' ''ip'' ''1'' ''pk'') \<and>
   (\<forall>b v. enroll mem_services (\<lambda>_. True) enrol_request (snd (enroll mem_services (\<lambda>k. k = ''pk'') enrol_request sample_enrol)) \<noteq> (Inr b, v))"
proof -
  let ?run = "enroll mem_services (\<lambda>k. k = ''pk'') enrol_request sample_enrol"
  have 1: "fst ?run = Inr ((200, ''ok''), AgentUID ''u'')" by code_simp
  then have run: "?run = (Inr ((200, ''ok''), AgentUID ''u''), snd ?run)" by (rule run_of_fst)
  have 2: "map_of (agents (db (snd ?run))) 6 = Some (enrolled_agent ''u'' ''ip'' ''1'' ''pk'')" by code_simp
  have 3: "token_hash (hr_form enrol_request ''token'') (snd ?run) = token_hash (hr_form enrol_request ''token'') sample_enrol" by code_simp
  from conjunct2 [OF enroll_correct [OF run refl 3 refl, of "\<lambda>_. True"]] 1 2 show ?thesis by (intro conjI)
qed

end
