(* ===== verification/Public_Pages.thy ===== *)
theory Public_Pages
  imports Server_Handlers
begin

text \<open>
  Public status pages: the hosts the hub answers for (\<open>internal/utils/sitehost.go\<close>,
  \<open>internal/siteaccess\<close>, \<open>internal/app/middleware/base_host.go\<close>), the settings of a team's page
  (\<open>internal/app/api/team/public_page.go\<close>, \<open>public_page_type.go\<close>, \<open>internal/db/public_page.go\<close>) and what
  such a page shows (\<open>internal/app/api/public\<close>, \<open>internal/db/public_monitor.go\<close>).
\<close>

declare map_of_eq_Some_iff [simp del]

section \<open>Hosts\<close>

fun contains_str :: "string \<Rightarrow> string \<Rightarrow> bool" where
  "contains_str p [] \<longleftrightarrow> p = []"
| "contains_str p (c # s) \<longleftrightarrow> has_prefix p (c # s) \<or> contains_str p s"

definition trim_suffix_dot :: "string \<Rightarrow> string" where
  "trim_suffix_dot s = (if s \<noteq> [] \<and> last s = CHR ''.'' then butlast s else s)"

text \<open>\<open>net.SplitHostPort\<close>, its host: what is before the last colon, or between brackets.\<close>

definition SplitHostPort :: "string \<Rightarrow> string option" where
  "SplitHostPort s =
     (if CHR '':'' \<notin> set s then None
      else
        let port = rev (takeWhile (\<lambda>c. c \<noteq> CHR '':'') (rev s)); before = take (length s - length port - 1) s in
        if hd s = CHR ''['' then
          (let inner = takeWhile (\<lambda>c. c \<noteq> CHR '']'') (tl s); rest = drop (length inner + 2) s in
           if CHR '']'' \<notin> set s \<or> before \<noteq> CHR ''['' # inner @ [CHR '']''] \<or> CHR ''['' \<in> set (tl s) \<or> CHR '']'' \<in> set rest
           then None else Some inner)
        else if CHR '':'' \<in> set before \<or> CHR ''['' \<in> set s \<or> CHR '']'' \<in> set s then None
        else Some before)"

definition host_part :: "string \<Rightarrow> string" where
  "host_part v = (case SplitHostPort v of None \<Rightarrow> v | Some h \<Rightarrow> h)"

text \<open>\<open>url_host\<close> is \<open>url.Parse\<close>: the host of an address, \<open>None\<close> when it is malformed.\<close>

definition SiteHostFromBaseURL :: "(string \<Rightarrow> string option) \<Rightarrow> string \<Rightarrow> string" where
  "SiteHostFromBaseURL url_host raw =
     (let v = trim_space (to_lower raw) in
      if v = [] then []
      else if contains_str ''://'' v then
        (case url_host v of
           None \<Rightarrow> []
         | Some h \<Rightarrow> if h = [] then [] else trim_space (trim_suffix_dot (host_part h)))
      else trim_space (trim_suffix_dot (host_part v)))"

definition NormalizeRequestHost :: "string \<Rightarrow> string" where
  "NormalizeRequestHost host =
     (let v = trim_space (to_lower host) in if v = [] then [] else trim_space (trim_suffix_dot (host_part v)))"

definition RequestHostMatchesBaseURL :: "(string \<Rightarrow> string option) \<Rightarrow> string \<Rightarrow> string \<Rightarrow> bool" where
  "RequestHostMatchesBaseURL url_host requestHost baseURL =
     (let base = SiteHostFromBaseURL url_host baseURL; req = NormalizeRequestHost requestHost in
      base = [] \<or> req \<noteq> [] \<and> equal_fold req base)"

section \<open>Site access: siteaccess/cache.go\<close>

record snapshot =
  baseHost :: string
  publicHosts :: "string list"

record 'r siteenv = "'r netenv" +
  snap :: snapshot
  url_host :: "string \<Rightarrow> string option"

definition ListEnabledPublicPageDomains :: "(('r, 'z) netenv_scheme, err, string list) io" where
  "ListEnabledPublicPageDomains = query_db (\<lambda>d.
     concat (map (\<lambda>(_, p). case pp_domain p of
       Some dmn \<Rightarrow> if pp_enabled p \<and> \<not> blank dmn then [to_lower dmn] else [] | None \<Rightarrow> []) (public_pages d)))"

definition public_hosts :: "string \<Rightarrow> string list \<Rightarrow> string list" where
  "public_hosts base domains =
     filter (\<lambda>h. h \<noteq> [] \<and> \<not> (base \<noteq> [] \<and> equal_fold h base)) (map NormalizeRequestHost domains)"

definition Refresh :: "(('r, 'z) siteenv_scheme, err, unit) io" where
  "Refresh =
     bindE (gets (\<lambda>s. SiteHostFromBaseURL (url_host s) (trim_space (conf_domain s)))) (\<lambda>base.
     bindE ListEnabledPublicPageDomains (\<lambda>domains.
     modify (\<lambda>s. s\<lparr>snap := \<lparr>baseHost = base, publicHosts = public_hosts base domains\<rparr>\<rparr>)))"

definition BaseHost :: "('r, 'z) siteenv_scheme \<Rightarrow> string" where
  "BaseHost s = baseHost (snap s)"

definition IsPublicPageHost :: "snapshot \<Rightarrow> string \<Rightarrow> bool" where
  "IsPublicPageHost sn host =
     (let h = NormalizeRequestHost host in
      h \<noteq> [] \<and> \<not> (baseHost sn \<noteq> [] \<and> equal_fold h (baseHost sn)) \<and> h \<in> set (publicHosts sn))"

definition HostAllowed :: "(string \<Rightarrow> string option) \<Rightarrow> snapshot \<Rightarrow> string \<Rightarrow> string \<Rightarrow> bool" where
  "HostAllowed U sn requestHost configuredBaseURL =
     (let base = SiteHostFromBaseURL U (trim_space configuredBaseURL); req = NormalizeRequestHost requestHost in
      if base = [] then True
      else if req = [] then False
      else if equal_fold req base then True
      else req \<in> set (publicHosts sn))"

definition PublicPagePathAllowed :: "string \<Rightarrow> bool" where
  "PublicPagePathAllowed path \<longleftrightarrow>
     path \<in> set [''/'', ''/health'', ''/health/live'', ''/health/ready''] \<or>
     list_ex (\<lambda>p. has_prefix p path) [''/api/public/'', ''/preview-assets/'', ''/flags/'', ''/icons/'', ''/avatars/'']"

subsection \<open>Middleware: base_host.go\<close>

definition isHealthPath :: "string \<Rightarrow> bool" where
  "isHealthPath path \<longleftrightarrow> path \<in> set [''/health'', ''/health/live'', ''/health/ready'']"

definition RequireUserBaseHost :: "string \<Rightarrow> string \<Rightarrow> ('r, 'z) siteenv_scheme \<Rightarrow> bool" where
  "RequireUserBaseHost host path s =
     (let baseURL = trim_space (conf_domain s) in
      isHealthPath path \<or> baseURL = [] \<or> HostAllowed (url_host s) (snap s) host baseURL)"

definition RestrictPublicPageHost :: "string \<Rightarrow> string \<Rightarrow> ('r, 'z) siteenv_scheme \<Rightarrow> bool" where
  "RestrictPublicPageHost host path s \<longleftrightarrow> \<not> IsPublicPageHost (snap s) host \<or> PublicPagePathAllowed path"

section \<open>Settings of a page: public_page_type.go\<close>

definition name_char :: "char \<Rightarrow> bool" where
  "name_char c \<longleftrightarrow> (let n = (of_char c :: nat) in 97 \<le> n \<and> n \<le> 122 \<or> 48 \<le> n \<and> n \<le> 57 \<or> n = 45)"

definition no_edge_hyphen :: "string \<Rightarrow> bool" where
  "no_edge_hyphen s \<longleftrightarrow> s \<noteq> [] \<and> hd s \<noteq> CHR ''-'' \<and> last s \<noteq> CHR ''-''"

text \<open>
  Texts are bytes and letters are lowered in ASCII; \<open>strings.ToLower\<close> also turns the Kelvin sign into a k, so Go accepts it where the model
  refuses the name.
\<close>

definition normalizePublicPageName :: "string \<Rightarrow> string option option" where
  "normalizePublicPageName raw =
     (let nm = to_lower (trim_space raw) in
      if nm = [] then Some None
      else if length nm < 3 \<or> length nm > 32 then None
      else if list_all name_char nm \<and> no_edge_hyphen nm then Some (Some nm) else None)"

definition normalizePublicPageDomain :: "string \<Rightarrow> string option option" where
  "normalizePublicPageDomain raw =
     (let dmn = to_lower (trim_space raw) in
      if dmn = [] then Some None
      else if contains_str ''://'' dmn \<or> list_ex (\<lambda>c. c \<in> set ''/?#@'') dmn then None
      else if length dmn > 255 then None
      else if list_all (\<lambda>label. no_edge_hyphen label \<and> list_all name_char label) (split_on CHR ''.'' dmn) then Some (Some dmn) else None)"

definition normalizePublicPageTitle :: "string \<Rightarrow> string option option" where
  "normalizePublicPageTitle raw =
     (let title = trim_space raw in
      if title = [] then Some None else if length title > 255 then None else Some (Some title))"

definition normalizePublicPageDescription :: "string \<Rightarrow> string option" where
  "normalizePublicPageDescription raw = (let descr = trim_space raw in if descr = [] then None else Some descr)"

definition normalizePublicPageCustomCSS :: "string \<Rightarrow> string option" where
  "normalizePublicPageCustomCSS raw = (if trim_space raw = [] then None else Some raw)"

definition normalizeConfiguredBaseDomain :: "(string \<Rightarrow> string option) \<Rightarrow> string \<Rightarrow> string" where
  "normalizeConfiguredBaseDomain U raw =
     (let v = trim_space (to_lower raw) in
      if v = [] then []
      else if contains_str ''://'' v then
        (case U v of None \<Rightarrow> [] | Some h \<Rightarrow> trim_space (trim_suffix_dot (host_part h)))
      else trim_space (trim_suffix_dot (host_part v)))"

record publicPageUpdateRequest =
  pu_enabled :: bool
  pu_name :: string
  pu_domain :: string
  pu_title :: string
  pu_description :: string
  pu_css :: string

text \<open>The checks of a page and its row; \<open>None\<close> when it is refused. The domain of the hub itself is no page.\<close>

definition normalize_page :: "(string \<Rightarrow> string option) \<Rightarrow> string \<Rightarrow> publicPageUpdateRequest \<Rightarrow> public_page option" where
  "normalize_page U conf req =
     (case normalizePublicPageName (pu_name req) of None \<Rightarrow> None
      | Some nm \<Rightarrow> (case normalizePublicPageDomain (pu_domain req) of None \<Rightarrow> None
      | Some dmn \<Rightarrow> (case normalizePublicPageTitle (pu_title req) of None \<Rightarrow> None
      | Some title \<Rightarrow>
          if pu_enabled req \<and> nm = None \<and> dmn = None then None
          else if (case dmn of None \<Rightarrow> False | Some dm \<Rightarrow>
              let base = normalizeConfiguredBaseDomain U conf in base \<noteq> [] \<and> dm = base) then None
          else Some \<lparr>pp_enabled = pu_enabled req, pp_name = nm, pp_domain = dmn, pp_title = title,
            pp_description = normalizePublicPageDescription (pu_description req),
            pp_css = normalizePublicPageCustomCSS (pu_css req)\<rparr>)))"

section \<open>Pages in the database: db/public_page.go\<close>

definition no_page :: public_page where
  "no_page = \<lparr>pp_enabled = False, pp_name = None, pp_domain = None, pp_title = None, pp_description = None, pp_css = None\<rparr>"

definition GetTeamPublicPage :: "int \<Rightarrow> (('r, 'z) netenv_scheme, err, public_page) io" where
  "GetTeamPublicPage teamID = tryE (query_db_row (\<lambda>d. map_of (public_pages d) teamID)) (\<lambda>r. case r of
     Inl e \<Rightarrow> if e = ErrNoRows then ret no_page else raise e
   | Inr p \<Rightarrow> ret p)"

text \<open>The unique indices compare in lower case and skip \<open>NULL\<close>.\<close>

definition page_conflict :: "(public_page \<Rightarrow> string option) \<Rightarrow> int \<Rightarrow> public_page \<Rightarrow> server_db \<Rightarrow> bool" where
  "page_conflict f teamID p d \<longleftrightarrow>
     (case f p of None \<Rightarrow> False
      | Some x \<Rightarrow> list_ex (\<lambda>(t, r). t \<noteq> teamID \<and> map_option to_lower (f r) = Some (to_lower x)) (public_pages d))"

datatype page_stored = Stored | Taken

definition upsert_page :: "int \<Rightarrow> public_page \<Rightarrow> server_db \<Rightarrow> (server_db \<times> page_stored) option" where
  "upsert_page teamID p d =
     (if teamID \<notin> set (known_teams d) then None
      else if page_conflict pp_name teamID p d \<or> page_conflict pp_domain teamID p d then Some (d, Taken)
      else Some (d\<lparr>public_pages := AList.update teamID p (public_pages d)\<rparr>, Stored))"

definition UpsertTeamPublicPage :: "int \<Rightarrow> public_page \<Rightarrow> (('r, 'z) netenv_scheme, err, page_stored) io" where
  "UpsertTeamPublicPage teamID p = exec_db_val (upsert_page teamID p)"

text \<open>A page found by the value of a column, with the name, color and image of its team.\<close>

definition enabled_page :: "(public_page \<Rightarrow> string option) \<Rightarrow> string \<Rightarrow> server_db \<Rightarrow> (int \<times> public_page) option" where
  "enabled_page f key d = find (\<lambda>(_, p). pp_enabled p \<and> map_option to_lower (f p) = Some (to_lower key)) (public_pages d)"

text \<open>One statement that reads the page and, by the foreign key, its team.\<close>

type_synonym ResolvedPublicPage = "int \<times> public_page \<times> team_row"

definition query_env_row :: "('z env_scheme \<Rightarrow> 'a option) \<Rightarrow> ('z env_scheme, err, 'a) io" where
  "query_env_row f = (\<lambda>s. case next_call s of (oc, t) \<Rightarrow>
     (if oc \<noteq> Done then Inl ErrDb else case f t of None \<Rightarrow> Inl ErrNoRows | Some x \<Rightarrow> Inr x, t))"

definition resolved :: "(public_page \<Rightarrow> string option) \<Rightarrow> string \<Rightarrow> ('r, 'z) netenv_scheme \<Rightarrow> ResolvedPublicPage option" where
  "resolved f key s =
     (case enabled_page f key (db s) of
        None \<Rightarrow> None
      | Some (tid, p) \<Rightarrow> map_option (\<lambda>t. (tid, p, t)) (map_of (teams (tabs s)) tid))"

definition GetEnabledTeamPublicPageByName :: "string \<Rightarrow> (('r, 'z) netenv_scheme, err, ResolvedPublicPage) io" where
  "GetEnabledTeamPublicPageByName nm = query_env_row (resolved pp_name nm)"

definition GetEnabledTeamPublicPageByDomain :: "string \<Rightarrow> (('r, 'z) netenv_scheme, err, ResolvedPublicPage) io" where
  "GetEnabledTeamPublicPageByDomain dmn = query_env_row (resolved pp_domain dmn)"

section \<open>The pages of a team's settings: team/public_page.go\<close>

record public_request = hub_request +
  pr_proto :: string         \<comment> \<open>\<open>X-Forwarded-Proto\<close>\<close>
  pr_forwarded :: string     \<comment> \<open>\<open>X-Forwarded-Scheme\<close>\<close>
  pr_scheme :: string        \<comment> \<open>\<open>c.Scheme()\<close>\<close>
  pr_host :: string

definition requestScheme :: "public_request \<Rightarrow> string" where
  "requestScheme rq =
     (if trim_space (pr_proto rq) \<noteq> [] then trim_space (hd (split_on CHR '','' (trim_space (pr_proto rq))))
      else if trim_space (pr_forwarded rq) \<noteq> [] then trim_space (hd (split_on CHR '','' (trim_space (pr_forwarded rq))))
      else if pr_scheme rq \<noteq> [] then pr_scheme rq else ''http'')"

definition trim_slashes :: "string \<Rightarrow> string" where
  "trim_slashes s = rev (dropWhile (\<lambda>c. c = CHR ''/'') (rev s))"

definition publicAppBaseURL :: "public_request \<Rightarrow> string \<Rightarrow> string" where
  "publicAppBaseURL rq conf =
     (let dmn = trim_space conf in
      if dmn \<noteq> [] then trim_slashes dmn else requestScheme rq @ ''://'' @ pr_host rq)"

record publicPageResponse =
  ps_page :: public_page
  ps_by_name :: "string option"
  ps_by_domain :: "string option"

definition buildPublicPageResponse :: "public_request \<Rightarrow> string \<Rightarrow> public_page \<Rightarrow> publicPageResponse" where
  "buildPublicPageResponse rq conf p =
     \<lparr>ps_page = p, ps_by_name = map_option (\<lambda>nm. publicAppBaseURL rq conf @ ''/preview/'' @ nm) (pp_name p),
      ps_by_domain = map_option (\<lambda>dmn. requestScheme rq @ ''://'' @ dmn) (pp_domain p)\<rparr>"

definition getPublicPage :: "public_request \<Rightarrow> ('r, 'z, publicPageResponse) page" where
  "getPublicPage rq =
     (if hr_tid rq = 0 then fails 400 ''error''
      else
        bindE (orError (GetTeamPublicPage (hr_tid rq))) (\<lambda>p.
        bindE (gets conf_domain) (\<lambda>conf.
        ret (buildPublicPageResponse rq conf p))))"

type_synonym ('r, 'z, 'a) site_page = "(('r, 'z) siteenv_scheme, answer, 'a) io"

text \<open>\<open>bound\<close> is the body after \<open>c.Bind\<close>, \<open>None\<close> when it is malformed.\<close>

definition setPublicPage :: "public_request \<Rightarrow> publicPageUpdateRequest option \<Rightarrow> ('r, 'z, publicPageResponse) site_page" where
  "setPublicPage rq bound =
     (if hr_tid rq = 0 then fails 400 ''error''
      else case bound of
        None \<Rightarrow> fails 400 ''invalid''
      | Some req \<Rightarrow>
          bindE (gets (\<lambda>s. normalize_page (url_host s) (conf_domain s) req)) (\<lambda>checked. case checked of
            None \<Rightarrow> fails 400 ''invalid''
          | Some p \<Rightarrow>
              bindE (orError (UpsertTeamPublicPage (hr_tid rq) p)) (\<lambda>stored.
              if stored = Taken then fails 409 ''conflict''
              else
                bindE (orError Refresh) (\<lambda>_.
                bindE (orError (GetTeamPublicPage (hr_tid rq))) (\<lambda>p'.
                bindE (gets conf_domain) (\<lambda>conf.
                ret (buildPublicPageResponse rq conf p')))))))"

section \<open>Finding a page: public/preview.go\<close>

definition trim_brackets :: "string \<Rightarrow> string" where
  "trim_brackets s = (let b = (\<lambda>c. c = CHR ''['' \<or> c = CHR '']'') in rev (dropWhile b (rev (dropWhile b s))))"

definition normalizeHost :: "string \<Rightarrow> string" where
  "normalizeHost host = (let h = trim_space (to_lower host) in if h = [] then [] else trim_brackets (host_part h))"

text \<open>\<open>busy\<close>: the eight slots of the resolver are taken.\<close>

definition resolvePublicPage :: "bool \<Rightarrow> (('r, 'z) netenv_scheme, err, ResolvedPublicPage) io \<Rightarrow> (('r, 'z) netenv_scheme, err, ResolvedPublicPage) io" where
  "resolvePublicPage busy load = (if busy then raise ErrDb else load)"

definition resolvePageByName :: "bool \<Rightarrow> string \<Rightarrow> (('r, 'z) netenv_scheme, err, ResolvedPublicPage) io" where
  "resolvePageByName busy raw =
     (let nm = trim_space (to_lower raw) in
      if nm = [] then raise ErrNoRows else resolvePublicPage busy (GetEnabledTeamPublicPageByName nm))"

definition resolvePageByDomainHost :: "bool \<Rightarrow> string \<Rightarrow> (('r, 'z) netenv_scheme, err, ResolvedPublicPage) io" where
  "resolvePageByDomainHost busy raw =
     (let host = normalizeHost raw in
      if host = [] then raise ErrNoRows else resolvePublicPage busy (GetEnabledTeamPublicPageByDomain host))"

definition publicResolveError :: "err \<Rightarrow> ('r, 'z, 'a) page" where
  "publicResolveError e = (if e = ErrNoRows then fails 404 ''not_found'' else raise (ErrorHandler, NoData))"

definition publicPageTitle :: "ResolvedPublicPage \<Rightarrow> string" where
  "publicPageTitle = (\<lambda>(_, p, t). case pp_title p of
     Some title \<Rightarrow> if trim_space title \<noteq> [] then trim_space title else name t @ '' Status''
   | None \<Rightarrow> name t @ '' Status'')"

text \<open>\<open>path.Base\<close> and \<open>url.PathEscape\<close>\<close>

definition path_Base :: "string \<Rightarrow> string" where
  "path_Base s =
     (let t = rev (dropWhile (\<lambda>c. c = CHR ''/'') (rev s)) in
      if s = [] then ''.'' else if t = [] then ''/'' else rev (takeWhile (\<lambda>c. c \<noteq> CHR ''/'') (rev t)))"

definition path_char :: "char \<Rightarrow> bool" where
  "path_char c \<longleftrightarrow> (let n = (of_char c :: nat) in 48 \<le> n \<and> n \<le> 57 \<or> 65 \<le> n \<and> n \<le> 90 \<or> 97 \<le> n \<and> n \<le> 122) \<or> c \<in> set ''-_.~$&+:=@''"

definition upper_hex :: "nat \<Rightarrow> char" where
  "upper_hex n = (if n < 10 then char_of (48 + n) else char_of (55 + n))"

definition PathEscape :: "string \<Rightarrow> string" where
  "PathEscape s = concat (map (\<lambda>c. if path_char c then [c]
     else let n = (of_char c :: nat) in [CHR ''%'', upper_hex (n div 16), upper_hex (n mod 16)]) s)"

definition publicAvatarURL :: "string \<Rightarrow> string" where
  "publicAvatarURL img =
     (let base = path_Base (trim_space img) in
      if base = [] \<or> base = ''.'' \<or> base = ''/'' then [] else ''/avatars/'' @ PathEscape base)"

record PublicPageSummary =
  sm_title :: string
  sm_name :: "string option"
  sm_domain :: "string option"
  sm_description :: "string option"
  sm_css :: "string option"
  sm_team :: string
  sm_color :: string
  sm_image :: string
  sm_avatar :: "string option"

definition buildPublicPageSummary :: "ResolvedPublicPage \<Rightarrow> PublicPageSummary" where
  "buildPublicPageSummary = (\<lambda>(i, p, t).
     \<lparr>sm_title = publicPageTitle (i, p, t), sm_name = pp_name p, sm_domain = pp_domain p, sm_description = pp_description p,
      sm_css = pp_css p, sm_team = name t, sm_color = color t, sm_image = image t,
      sm_avatar = (if image t \<noteq> [] \<and> publicAvatarURL (image t) \<noteq> [] then Some (publicAvatarURL (image t)) else None)\<rparr>)"

subsection \<open>The custom style\<close>

definition close_tag :: string where "close_tag = ''</style''"

text \<open>\<open>styleCloseTagPattern.ReplaceAllString\<close>: from the left, without overlaps, in any case of ASCII letters (Go folds the long s as well).\<close>

function sanitizeStyleContent :: "string \<Rightarrow> string" where
  "sanitizeStyleContent css =
     (case css of
        [] \<Rightarrow> []
      | c # rest \<Rightarrow>
          if has_prefix close_tag (to_lower css) then ''<'' @ [CHR 0x5C] @ ''/style'' @ sanitizeStyleContent (drop 7 css)
          else c # sanitizeStyleContent rest)"
  by auto
termination by (relation "measure length") auto

declare sanitizeStyleContent.simps [simp del]

fun replace_first :: "string \<Rightarrow> string \<Rightarrow> string \<Rightarrow> string" where
  "replace_first old new [] = (if old = [] then new else [])"
| "replace_first old new (c # s) =
     (if has_prefix old (c # s) then new @ drop (length old) (c # s) else c # replace_first old new s)"

definition style_open :: string where
  "style_open = ''<style id='' @ [CHR 0x22] @ ''mosona-public-page-custom-css'' @ [CHR 0x22] @ ''>'' @ [CHR 0x0A]"

definition style_element :: "string \<Rightarrow> string" where
  "style_element css = style_open @ sanitizeStyleContent css @ [CHR 0x0A] @ ''</style>'' @ [CHR 0x0A]"

text \<open>The document after the favicon was set; \<open>html\<close> is the front end's file.\<close>

definition servePreviewIndex :: "string \<Rightarrow> public_page \<Rightarrow> string" where
  "servePreviewIndex html p =
     (let css = (case pp_css p of None \<Rightarrow> [] | Some x \<Rightarrow> trim_space x) in
      if css = [] then html
      else
        let withStyle = replace_first ''</head>'' (style_element css @ ''</head>'') html in
        if withStyle = html then style_element css @ html else withStyle)"

section \<open>What a page shows: db/public_monitor.go and public/snapshot.go\<close>

record PublicMonitor =
  pm_id :: int
  pm_name :: string
  pm_category :: int
  pm_weight :: int
  pm_os :: "string option"
  pm_county :: "string option"
  pm_area :: "string option"
  pm_core_c :: "int option"
  pm_core_t :: "int option"
  pm_open_time :: "go_time option"
  pm_provider :: "string option"
  pm_cycle :: "int option"
  pm_start_time :: "go_time option"
  pm_end_time :: "go_time option"
  pm_amount :: "string option"
  pm_bandwidth :: "string option"
  pm_traffic :: "string option"
  pm_traffic_type :: "int option"
  pm_note_public :: "string option"

definition public_monitor :: "server_db \<Rightarrow> int \<times> srv_row \<Rightarrow> PublicMonitor" where
  "public_monitor d = (\<lambda>(i, r).
     let rt = map_of (runtime d) i; bi = map_of (details d) i; av = map_of (advanced d) i in
     \<lparr>pm_id = i, pm_name = srv_name r, pm_category = srv_category r, pm_weight = srv_weight r,
      pm_os = Option.bind rt rt_os, pm_county = Option.bind rt rt_county, pm_area = Option.bind rt rt_area,
      pm_core_c = Option.bind av av_core_c, pm_core_t = Option.bind av av_core_t, pm_open_time = Option.bind rt rt_open_time,
      pm_provider = Option.bind bi sd_provider, pm_cycle = Option.bind bi sd_cycle, pm_start_time = Option.bind bi sd_start_time,
      pm_end_time = Option.bind bi sd_end_time, pm_amount = Option.bind bi sd_amount, pm_bandwidth = Option.bind bi sd_bandwidth,
      pm_traffic = Option.bind bi sd_traffic, pm_traffic_type = Option.bind bi sd_traffic_type, pm_note_public = Option.bind bi sd_note_public\<rparr>)"

definition shown :: "int \<Rightarrow> int \<times> srv_row \<Rightarrow> bool" where
  "shown teamID = (\<lambda>(_, r). srv_team r = teamID \<and> srv_monitor r \<and> srv_public r)"

definition ListPublicMonitoredServers :: "int \<Rightarrow> (('r, 'z) netenv_scheme, err, PublicMonitor list) io" where
  "ListPublicMonitoredServers teamID = query_db (\<lambda>d.
     rev (sort_key pm_weight (sort_key pm_id (map (public_monitor d) (filter (shown teamID) (srvs d))))))"

record 'st publicSnapshot =
  sn_servers :: "PublicMonitor list"
  sn_categories :: "(int \<times> string \<times> int) list"
  sn_status :: 'st
  sn_now :: int

text \<open>\<open>latest\<close> is \<open>influx.GetLatestServerStatusBatchContext\<close> on the identifiers of the servers.\<close>

definition loadPublicSnapshot ::
  "(int list \<Rightarrow> 'st option) \<Rightarrow> bool \<Rightarrow> int \<Rightarrow> (('r, 'z) netenv_scheme, err, 'st publicSnapshot) io" where
  "loadPublicSnapshot latest busy teamID =
     (if busy then raise ErrDb
      else
        bindE (ListPublicMonitoredServers teamID) (\<lambda>servers.
        bindE (GetCategoriesByTeam teamID) (\<lambda>cs.
        case latest (map pm_id servers) of
          None \<Rightarrow> raise ErrDb
        | Some st \<Rightarrow>
            bindE time_now (\<lambda>now.
            ret \<lparr>sn_servers = servers, sn_categories = cs, sn_status = st, sn_now = unix now\<rparr>))))"

record 'st bootstrap_data =
  bd_page :: PublicPageSummary
  bd_snapshot :: "'st publicSnapshot"

text \<open>The page and its data, when the snapshot of its team is not cached.\<close>

definition bootstrap ::
  "(int list \<Rightarrow> 'st option) \<Rightarrow> bool \<Rightarrow> bool \<Rightarrow> string \<Rightarrow> ('r, 'z, 'st bootstrap_data) page" where
  "bootstrap latest busy busy' host =
     tryE (resolvePageByDomainHost busy host) (\<lambda>found. case found of
       Inl e \<Rightarrow> publicResolveError e
     | Inr p \<Rightarrow>
         bindE (orError (loadPublicSnapshot latest busy' (fst p))) (\<lambda>sn.
         ret \<lparr>bd_page = buildPublicPageSummary p, bd_snapshot = sn\<rparr>))"

subsection \<open>The cached snapshot of a team\<close>

text \<open>
  \<open>src_loading\<close> is a load in progress, \<open>src_channels\<close> the subscribers' channels of one element, \<open>src_running\<close> the flag
  \<open>loopRunning\<close>. A stop channel is an index into the list of all that were made, which says whether it was closed; \<open>src_stop\<close> is
  the field \<open>loopStop\<close>. \<open>src_loops\<close> are the goroutines in \<open>run\<close>, each named by the stop channel it was started with.
\<close>

record 'x publicSnapshotSource =
  src_cached :: 'x
  src_loadedAt :: "go_time option"
  src_loading :: bool
  src_channels :: "(nat \<times> 'x option) list"
  src_running :: bool
  src_stop :: "nat option"
  src_stops :: "bool list"
  src_loops :: "nat list"

datatype 'x get_outcome = Hit 'x | Join | Load

definition get_begin :: "go_time \<Rightarrow> int \<Rightarrow> 'x publicSnapshotSource \<Rightarrow> 'x get_outcome \<times> 'x publicSnapshotSource" where
  "get_begin now ttl s =
     (if (case src_loadedAt s of None \<Rightarrow> False | Some t \<Rightarrow> time_sub now t < ttl) then (Hit (src_cached s), s)
      else if src_loading s then (Join, s)
      else (Load, s\<lparr>src_loading := True\<rparr>))"

definition get_finish :: "go_time \<Rightarrow> 'x \<Rightarrow> 'x publicSnapshotSource \<Rightarrow> 'x publicSnapshotSource" where
  "get_finish now result s = s\<lparr>src_cached := result, src_loadedAt := Some now, src_loading := False\<rparr>"

text \<open>A new stop channel, and a goroutine that runs with it.\<close>

definition start_loop :: "'x publicSnapshotSource \<Rightarrow> 'x publicSnapshotSource" where
  "start_loop s =
     (let stop = length (src_stops s) in
      s\<lparr>src_stops := src_stops s @ [False], src_stop := Some stop, src_running := True, src_loops := src_loops s @ [stop]\<rparr>)"

definition source_subscribe :: "nat \<Rightarrow> 'x publicSnapshotSource \<Rightarrow> 'x publicSnapshotSource" where
  "source_subscribe ch s =
     (let t = s\<lparr>src_channels := (ch, None) # src_channels s\<rparr> in
      if \<not> src_running t then start_loop t else t)"

definition source_unsubscribe :: "nat \<Rightarrow> 'x publicSnapshotSource \<Rightarrow> 'x publicSnapshotSource" where
  "source_unsubscribe ch s =
     (let t = s\<lparr>src_channels := AList.delete ch (src_channels s)\<rparr> in
      case src_stop t of
        Some stop \<Rightarrow> if src_channels t = [] then t\<lparr>src_stops := (src_stops t)[stop := True], src_stop := None\<rparr> else t
      | None \<Rightarrow> t)"

text \<open>The loop of a closed stop channel returns; another one is started when someone subscribed meanwhile.\<close>

definition source_loop_ends :: "nat \<Rightarrow> 'x publicSnapshotSource \<Rightarrow> 'x publicSnapshotSource" where
  "source_loop_ends stop s =
     (let t = s\<lparr>src_running := False, src_loops := remove1 stop (src_loops s)\<rparr> in
      if src_channels t \<noteq> [] then start_loop t else t)"

text \<open>A full channel loses its old element.\<close>

definition source_broadcast :: "'x \<Rightarrow> 'x publicSnapshotSource \<Rightarrow> 'x publicSnapshotSource" where
  "source_broadcast result s = s\<lparr>src_channels := map (\<lambda>(ch, _). (ch, Some result)) (src_channels s)\<rparr>"

section \<open>Limits: public/sse.go\<close>

definition publicRequestGlobalLimit :: nat where "publicRequestGlobalLimit = 32"
definition publicRequestIPLimit :: nat where "publicRequestIPLimit = 8"
definition publicRequestWindow :: int where "publicRequestWindow = second"
definition publicSSEIPLimit :: nat where "publicSSEIPLimit = 64"

record publicRequestLimiter =
  rl_window :: "go_time option"
  rl_count :: nat
  rl_byIP :: "(string, nat) table"

definition client_ip :: "string \<Rightarrow> string" where
  "client_ip ip = (let i = trim_space ip in if i = [] then ''unknown'' else i)"

definition ip_count :: "(string, nat) table \<Rightarrow> string \<Rightarrow> nat" where
  "ip_count t ip = (case map_of t ip of None \<Rightarrow> 0 | Some n \<Rightarrow> n)"

definition rl_turn :: "go_time \<Rightarrow> publicRequestLimiter \<Rightarrow> publicRequestLimiter" where
  "rl_turn now l =
     (if (case rl_window l of None \<Rightarrow> True | Some w \<Rightarrow> time_sub now w \<ge> publicRequestWindow)
      then \<lparr>rl_window = Some now, rl_count = 0, rl_byIP = []\<rparr> else l)"

definition public_allow :: "go_time \<Rightarrow> string \<Rightarrow> publicRequestLimiter \<Rightarrow> bool \<times> publicRequestLimiter" where
  "public_allow now ip l =
     (let i = client_ip ip; m = rl_turn now l; n = ip_count (rl_byIP m) i in
      if rl_count m \<ge> publicRequestGlobalLimit \<or> n \<ge> publicRequestIPLimit then (False, m)
      else (True, m\<lparr>rl_count := Suc (rl_count m), rl_byIP := AList.update i (Suc n) (rl_byIP m)\<rparr>))"

definition sse_acquire :: "string \<Rightarrow> (string, nat) table \<Rightarrow> (string, nat) table option" where
  "sse_acquire ip t =
     (let i = client_ip ip in
      if ip_count t i \<ge> publicSSEIPLimit then None else Some (AList.update i (Suc (ip_count t i)) t))"

definition sse_release :: "string \<Rightarrow> (string, nat) table \<Rightarrow> (string, nat) table" where
  "sse_release ip t =
     (let i = client_ip ip; n = ip_count t i - 1 in
      if n = 0 then AList.delete i t else AList.update i n t)"

end
