(* ===== verification/Public_Access.thy ===== *)
theory Public_Access
  imports Public_Pages Server_Pages
begin

text \<open>
  What public pages guarantee: a visitor learns only public columns of the servers a team shows, the custom style
  of a page cannot leave its element, a stored page is found under its name and its domain and the hub's own
  domain is never one, the loop that refreshes a snapshot runs exactly while someone listens, and requests are bounded.
\<close>

declare map_of_eq_Some_iff [simp del]

section \<open>Visitors see public columns only\<close>

text \<open>
  What a team means to show: of each of its servers that is monitored and public, the columns listed here. Among those
  that are not: the note, the address, the host name, the kernel, the credentials and the agent.
\<close>

definition public_view where
  "public_view tid d i =
     (case map_of (srvs d) i of
        None \<Rightarrow> None
      | Some r \<Rightarrow>
          if srv_team r = tid \<and> srv_monitor r \<and> srv_public r
          then Some (srv_name r, srv_category r, srv_weight r,
            map_option (\<lambda>x. (sd_provider x, sd_cycle x, sd_start_time x, sd_end_time x, sd_amount x, sd_bandwidth x, sd_traffic x,
              sd_traffic_type x, sd_note_public x)) (map_of (details d) i),
            map_option (\<lambda>x. (rt_os x, rt_county x, rt_area x, rt_open_time x)) (map_of (runtime d) i),
            map_option (\<lambda>x. (av_core_c x, av_core_t x)) (map_of (advanced d) i))
          else None)"

text \<open>What the query selects.\<close>

definition monitor_view :: "int \<Rightarrow> server_db \<Rightarrow> int \<Rightarrow> PublicMonitor option" where
  "monitor_view tid d i =
     (case map_of (srvs d) i of
        None \<Rightarrow> None
      | Some r \<Rightarrow> if shown tid (i, r) then Some (public_monitor d (i, r)) else None)"

lemma bind_from_map:
  assumes "map_option f x = map_option f y" "\<And>a b. f a = f b \<Longrightarrow> g a = g b"
  shows "Option.bind x g = Option.bind y g"
  using assms(1) assms(2) [of "the x" "the y"] by (cases x; cases y) simp_all

lemma monitor_view_eq:
  assumes "public_view tid d = public_view tid d'"
  shows "monitor_view tid d = monitor_view tid d'"
proof
  fix i
  have eq: "public_view tid d i = public_view tid d' i" using assms by simp
  show "monitor_view tid d i = monitor_view tid d' i"
  proof (cases "public_view tid d i = None")
    case True
    with eq show ?thesis by (auto simp: public_view_def monitor_view_def shown_def split: option.splits if_splits)
  next
    case False
    with eq obtain r r' where r: "map_of (srvs d) i = Some r" "map_of (srvs d') i = Some r'" "shown tid (i, r)" "shown tid (i, r')"
      by (auto simp: public_view_def shown_def split: option.splits if_splits)
    with eq have n: "srv_name r = srv_name r'" "srv_category r = srv_category r'" "srv_weight r = srv_weight r'"
      and d: "map_option (\<lambda>x. (sd_provider x, sd_cycle x, sd_start_time x, sd_end_time x, sd_amount x, sd_bandwidth x, sd_traffic x,
          sd_traffic_type x, sd_note_public x)) (map_of (details d) i) = map_option (\<lambda>x. (sd_provider x, sd_cycle x, sd_start_time x, sd_end_time x,
          sd_amount x, sd_bandwidth x, sd_traffic x, sd_traffic_type x, sd_note_public x)) (map_of (details d') i)"
      and t: "map_option (\<lambda>x. (rt_os x, rt_county x, rt_area x, rt_open_time x)) (map_of (runtime d) i) =
          map_option (\<lambda>x. (rt_os x, rt_county x, rt_area x, rt_open_time x)) (map_of (runtime d') i)"
      and a: "map_option (\<lambda>x. (av_core_c x, av_core_t x)) (map_of (advanced d) i) = map_option (\<lambda>x. (av_core_c x, av_core_t x)) (map_of (advanced d') i)"
      by (simp_all add: public_view_def shown_def)
    have "public_monitor d (i, r) = public_monitor d' (i, r')"
      unfolding public_monitor_def Let_def prod.case n by (intro PublicMonitor.equality; simp; (rule bind_from_map [OF d] bind_from_map [OF t] bind_from_map [OF a])?; simp)
    with r show ?thesis by (simp add: monitor_view_def)
  qed
qed

lemma pm_id_public_monitor [simp]: "pm_id (public_monitor d x) = fst x"
  by (simp add: public_monitor_def Let_def split: prod.split)

lemma monitors_distinct:
  assumes "keyed (srvs d)"
  shows "distinct (map pm_id (map (public_monitor d) (filter (shown tid) (srvs d))))"
proof -
  have "pm_id \<circ> public_monitor d = fst" by (simp add: fun_eq_iff)
  then have "map pm_id (map (public_monitor d) (filter (shown tid) (srvs d))) = map fst (filter (shown tid) (srvs d))" by simp
  moreover from assms have "distinct (map fst (filter (shown tid) (srvs d)))" by (rule distinct_map_filter)
  ultimately show ?thesis by presburger
qed

lemma monitor_view_Some:
  "monitor_view tid d i = Some m \<longleftrightarrow> (\<exists>r. map_of (srvs d) i = Some r \<and> shown tid (i, r) \<and> m = public_monitor d (i, r))"
  unfolding monitor_view_def by (cases "map_of (srvs d) i") auto

lemma set_monitors:
  assumes "keyed (srvs d)"
  shows "set (map (public_monitor d) (filter (shown tid) (srvs d))) = {m. \<exists>i. monitor_view tid d i = Some m}"
proof -
  have row: "(i, r) \<in> set (srvs d) \<longleftrightarrow> map_of (srvs d) i = Some r" for i r using assms by (simp add: map_of_eq_Some_iff)
  have "m \<in> set (map (public_monitor d) (filter (shown tid) (srvs d))) \<longleftrightarrow> (\<exists>i. monitor_view tid d i = Some m)" for m
    unfolding monitor_view_Some set_map set_filter image_iff Bex_def by (auto simp only: mem_Collect_eq split_paired_Ex row)
  then show ?thesis by blast
qed

lemma sorted_by_key_unique:
  assumes "set xs = set ys" "distinct (map f xs)" "distinct (map f ys)"
  shows "sort_key f xs = sort_key f ys"
proof -
  have "distinct (map f (sort_key f xs))" "distinct (map f (sort_key f ys))"
    using assms(2,3) by (auto simp: distinct_map)
  with assms(1) have "map f (sort_key f xs) = map f (sort_key f ys)" by (intro sorted_distinct_eqI) auto
  moreover have "inj_on f (set (sort_key f xs) \<union> set (sort_key f ys))" using assms(1,2) by (simp add: distinct_map)
  ultimately show ?thesis by (rule map_inj_on)
qed

lemma monitors_view:
  assumes "keyed (srvs d)" "keyed (srvs d')" "monitor_view tid d = monitor_view tid d'"
  shows "sort_key pm_id (map (public_monitor d) (filter (shown tid) (srvs d))) =
    sort_key pm_id (map (public_monitor d') (filter (shown tid) (srvs d')))"
  by (rule sorted_by_key_unique) (use assms set_monitors [of d tid] set_monitors [of d' tid] monitors_distinct in auto)

text \<open>Two hubs that answer alike: the same calls succeed, the same clock.\<close>

definition same_services :: "('r, 'z) netenv_scheme \<Rightarrow> ('r, 'z) netenv_scheme \<Rightarrow> bool" where
  "same_services s s' \<longleftrightarrow> calls s = calls s' \<and> outcomes s = outcomes s' \<and> reads s = reads s' \<and> clock s = clock s'"

text \<open>The categories of a team, in the order a page lists them.\<close>

definition category_list_of :: "int \<Rightarrow> server_db \<Rightarrow> (int \<times> string \<times> int) list" where
  "category_list_of tid d = map (\<lambda>(i, r). (i, cat_name r, cat_sort r))
     (sort_key (\<lambda>(i, r). cat_sort r) (sort_key fst (filter (\<lambda>(_, r). cat_team r = tid) (cats d))))"

lemma query_db_run: "query_db q s = (if outcomes s (calls s) = Done then Inr (q (db s)) else Inl ErrDb, s\<lparr>calls := Suc (calls s)\<rparr>)"
  by (simp add: query_db_def next_call_def)

definition monitor_list_of :: "int \<Rightarrow> server_db \<Rightarrow> PublicMonitor list" where
  "monitor_list_of tid d = rev (sort_key pm_weight (sort_key pm_id (map (public_monitor d) (filter (shown tid) (srvs d)))))"

lemma load_run:
  fixes s :: "('r, 'z) netenv_scheme"
  shows "fst (loadPublicSnapshot latest busy tid s) =
     (if busy \<or> outcomes s (calls s) \<noteq> Done \<or> outcomes s (Suc (calls s)) \<noteq> Done then Inl ErrDb
      else case latest (map pm_id (monitor_list_of tid (db s))) of
        None \<Rightarrow> Inl ErrDb
      | Some st \<Rightarrow> Inr \<lparr>sn_servers = monitor_list_of tid (db s), sn_categories = category_list_of tid (db s), sn_status = st,
          sn_now = unix (clock s (reads s))\<rparr>)"
proof -
  have l: "ListPublicMonitoredServers tid = (query_db (monitor_list_of tid) :: (('r, 'z) netenv_scheme, err, PublicMonitor list) io)"
    unfolding ListPublicMonitoredServers_def monitor_list_of_def ..
  have c: "GetCategoriesByTeam tid = (query_db (category_list_of tid) :: (('r, 'z) netenv_scheme, err, (int \<times> string \<times> int) list) io)"
    unfolding GetCategoriesByTeam_def category_list_of_def ..
  show ?thesis unfolding loadPublicSnapshot_def l c
    by (simp add: bindE_run query_db_run raise_def ret_def time_now_def split: option.split)
qed

lemma load_same:
  fixes s s' :: "('r, 'z) netenv_scheme"
  assumes "same_services s s'" "keyed (srvs (db s))" "keyed (srvs (db s'))" "public_view tid (db s) = public_view tid (db s')"
    "category_list_of tid (db s) = category_list_of tid (db s')"
  shows "fst (loadPublicSnapshot latest busy tid s) = fst (loadPublicSnapshot latest busy tid s')"
proof -
  have "monitor_list_of tid (db s) = monitor_list_of tid (db s')" unfolding monitor_list_of_def monitors_view [OF assms(2,3) monitor_view_eq [OF assms(4)]] ..
  with assms(1,5) show ?thesis unfolding load_run same_services_def by (simp split: option.split)
qed

lemma resolved_calls [simp]: "resolved f k (s\<lparr>calls := n\<rparr>) = resolved f k s" for s :: "('r, 'z) netenv_scheme"
  by (auto simp: resolved_def split: option.split)

lemma resolve_run:
  "resolvePageByDomainHost busy host s =
     (if normalizeHost host = [] then (Inl ErrNoRows, s)
      else if busy then (Inl ErrDb, s)
      else (if outcomes s (calls s) \<noteq> Done then Inl ErrDb
            else case resolved pp_domain (normalizeHost host) s of None \<Rightarrow> Inl ErrNoRows | Some x \<Rightarrow> Inr x, s\<lparr>calls := Suc (calls s)\<rparr>))"
  by (simp add: resolvePageByDomainHost_def Let_def resolvePublicPage_def GetEnabledTeamPublicPageByDomain_def query_env_row_def
      next_call_def raise_def)

text \<open>
  (C24) A visitor of a public page learns nothing but public data: on two hubs whose services
  answer alike, that have the same page under the requested host and whose team shows the same
  public columns and categories, every request is answered the same, whatever else
  differs: credentials, private notes, agents, tokens, alert rules, hidden or unmonitored servers and other teams.
\<close>

theorem bootstrap_public_only:
  fixes s s' :: "('r, 'z) netenv_scheme" and latest :: "int list \<Rightarrow> 'st option"
  assumes "same_services s s'" "keyed (srvs (db s))" "keyed (srvs (db s'))"
    and page: "resolved pp_domain (normalizeHost host) s = resolved pp_domain (normalizeHost host) s'"
    and data: "\<forall>tid p t. resolved pp_domain (normalizeHost host) s = Some (tid, p, t) \<longrightarrow>
      public_view tid (db s) = public_view tid (db s') \<and> category_list_of tid (db s) = category_list_of tid (db s')"
  shows "fst (bootstrap latest busy busy' host s) = fst (bootstrap latest busy busy' host s')"
proof -
  let ?t = "s\<lparr>calls := Suc (calls s)\<rparr>" and ?t' = "s'\<lparr>calls := Suc (calls s')\<rparr>"
  from assms(1) have same: "same_services ?t ?t'" by (simp add: same_services_def)
  have load: "fst (loadPublicSnapshot latest busy' tid ?t) = fst (loadPublicSnapshot latest busy' tid ?t')"
    if "resolved pp_domain (normalizeHost host) s = Some (tid, p, t)" for tid p t
    by (rule load_same [OF same]) (use data that assms(2,3) in auto)
  show ?thesis
  proof (cases "normalizeHost host = [] \<or> busy \<or> outcomes s (calls s) \<noteq> Done \<or> resolved pp_domain (normalizeHost host) s = None")
    case True
    with assms(1) page show ?thesis
      by (auto simp: bootstrap_def tryE_run resolve_run same_services_def publicResolveError_def fails_def raise_def split: option.splits)
  next
    case False
    then obtain tid p t where r: "resolved pp_domain (normalizeHost host) s = Some (tid, p, t)" by auto
    let ?f = "\<lambda>sn. ret \<lparr>bd_page = buildPublicPageSummary (tid, p, t), bd_snapshot = sn\<rparr> :: ('r, 'z, 'st bootstrap_data) page"
    have run: "bootstrap latest busy busy' host u = bindE (orError (loadPublicSnapshot latest busy' tid)) ?f (u\<lparr>calls := Suc (calls u)\<rparr>)"
      if "resolved pp_domain (normalizeHost host) u = Some (tid, p, t)" "outcomes u (calls u) = Done" for u :: "('r, 'z) netenv_scheme"
      using False that by (simp add: bootstrap_def tryE_run resolve_run)
    have "fst (bindE (orError m) ?f u) = map_sum (\<lambda>_. (ErrorHandler, NoData)) (\<lambda>sn. \<lparr>bd_page = buildPublicPageSummary (tid, p, t), bd_snapshot = sn\<rparr>) (fst (m u))" for m and u :: "('r, 'z) netenv_scheme"
      by (cases "m u"; cases "fst (m u)") (simp_all add: bindE_run orError_def tryE_run raise_def ret_def)
    with run [OF r] run [of s'] load [OF r] False r page assms(1) show ?thesis by (simp add: same_services_def)
  qed
qed

section \<open>The custom style stays in its element\<close>

text \<open>How a browser reads the text of a style element: up to the first closing tag, in any case of letters.\<close>

fun raw_text :: "string \<Rightarrow> string option" where
  "raw_text [] = None"
| "raw_text (c # s) = (if has_prefix close_tag (to_lower (c # s)) then Some [] else map_option ((#) c) (raw_text s))"

lemma to_lower_Cons: "to_lower (c # s) = lower c # to_lower s"
  by (simp add: to_lower_def)

lemma to_lower_append: "to_lower (s @ t) = to_lower s @ to_lower t"
  by (simp add: to_lower_def)

lemma has_prefix_simps [simp]:
  "has_prefix [] s" "has_prefix (x # p) (y # s) \<longleftrightarrow> x = y \<and> has_prefix p s" "\<not> has_prefix (x # p) []"
  by (auto simp: has_prefix_def)

lemma close_tag_chars: "close_tag = CHR ''<'' # ''/style''"
  by (simp add: close_tag_def)

lemma prefix_close_Cons:
  "has_prefix close_tag (x # s) \<longleftrightarrow> x = CHR ''<'' \<and> has_prefix ''/style'' s"
  unfolding close_tag_chars by (auto simp only: has_prefix_simps)

lemma lower_lt [simp]: "lower c = CHR ''<'' \<longleftrightarrow> c = CHR ''<''"
proof
  assume l: "lower c = CHR ''<''"
  show "c = CHR ''<''"
  proof (cases "65 \<le> (of_char c :: nat) \<and> (of_char c :: nat) \<le> 90")
    case True
    with l have "(of_char (char_of ((of_char c :: nat) + 32) :: char) :: nat) = of_char CHR ''<''" by (simp add: lower_def)
    with True show ?thesis by simp
  next
    case False
    with l show ?thesis by (simp add: lower_def Let_def split: if_splits)
  qed
qed (simp add: lower_def)

lemma lower_newline [simp]: "lower (CHR 0x0A) = CHR 0x0A" "lower (CHR 0x5C) = CHR 0x5C"
  by (simp_all add: lower_def)

lemma sanitize_eqs:
  "sanitizeStyleContent [] = []"
  "has_prefix close_tag (to_lower (c # r)) \<Longrightarrow> sanitizeStyleContent (c # r) = CHR ''<'' # CHR 0x5C # ''/style'' @ sanitizeStyleContent (drop 7 (c # r))"
  "\<not> has_prefix close_tag (to_lower (c # r)) \<Longrightarrow> sanitizeStyleContent (c # r) = c # sanitizeStyleContent r"
  by (simp_all add: sanitizeStyleContent.simps [of "[]"] sanitizeStyleContent.simps [of "c # r"])

text \<open>What is emitted never completes a closing tag: after \<open><\<close> either the input continues, or there is a backslash.\<close>

lemma sanitize_head:
  "has_prefix p (to_lower (sanitizeStyleContent css @ CHR 0x0A # rest)) \<Longrightarrow> CHR ''<'' \<notin> set p \<Longrightarrow> CHR 0x0A \<notin> set p \<Longrightarrow>
    has_prefix p (to_lower css)"
proof (induction p arbitrary: css)
  case (Cons x p)
  from Cons.prems have x: "x \<noteq> CHR ''<''" "x \<noteq> CHR 0x0A" by auto
  show ?case
  proof (cases css)
    case Nil
    with Cons.prems(1) x show ?thesis by (simp add: sanitize_eqs to_lower_Cons)
  next
    case css: (Cons c r)
    show ?thesis
    proof (cases "has_prefix close_tag (to_lower (c # r))")
      case True
      with Cons.prems(1) x css show ?thesis by (simp add: sanitize_eqs(2) to_lower_Cons)
    next
      case False
      with Cons.prems(1) css have "x = lower c" "has_prefix p (to_lower (sanitizeStyleContent r @ CHR 0x0A # rest))"
        by (simp_all add: sanitize_eqs(3) to_lower_Cons)
      with Cons.IH [of r] Cons.prems(2,3) css show ?thesis by (simp add: to_lower_Cons)
    qed
  qed
qed simp

declare raw_text.simps(2) [simp del]

lemma no_close_after: "c \<noteq> CHR ''<'' \<Longrightarrow> raw_text (c # s) = map_option ((#) c) (raw_text s)"
  by (simp add: raw_text.simps(2) to_lower_Cons prefix_close_Cons)

lemma raw_text_sanitized:
  "raw_text (sanitizeStyleContent css @ CHR 0x0A # rest) = map_option (\<lambda>t. sanitizeStyleContent css @ CHR 0x0A # t) (raw_text rest)"
proof (induction css rule: sanitizeStyleContent.induct)
  case (1 css)
  show ?case
  proof (cases css)
    case Nil
    then show ?thesis by (simp add: sanitize_eqs(1) no_close_after)
  next
    case css: (Cons c r)
    show ?thesis
    proof (cases "has_prefix close_tag (to_lower (c # r))")
      case True
      let ?more = "sanitizeStyleContent (drop 7 (c # r)) @ CHR 0x0A # rest"
      have "raw_text (CHR ''<'' # CHR 0x5C # ''/style'' @ ?more) = map_option (\<lambda>t. CHR ''<'' # CHR 0x5C # ''/style'' @ t) (raw_text ?more)"
        by (simp add: raw_text.simps(2) [of "CHR ''<''"] to_lower_Cons prefix_close_Cons no_close_after option.map_comp comp_def)
      with 1(1) [OF css] True css show ?thesis by (simp add: sanitize_eqs(2) option.map_comp comp_def)
    next
      case False
      have "\<not> has_prefix close_tag (to_lower (c # sanitizeStyleContent r @ CHR 0x0A # rest))"
        using False sanitize_head [of "''/style''" r rest] unfolding to_lower_Cons prefix_close_Cons by auto
      with 1(2) [OF css] False css show ?thesis by (simp add: sanitize_eqs(3) raw_text.simps(2) [of c] option.map_comp comp_def)
    qed
  qed
qed

text \<open>
  (C26) A page's custom style cannot leave its element, whatever it contains: a browser that reads the
  style element of the served document finds as its text exactly the sanitised style and a
  line break, up to the closing tag the hub wrote.
\<close>

theorem style_contained:
  "raw_text (drop (length style_open) (style_element css @ rest)) = Some (sanitizeStyleContent css @ [CHR 0x0A])"
proof -
  have "raw_text (''</style>'' @ CHR 0x0A # rest) = Some []"
    by (simp add: raw_text.simps(2) close_tag_def to_lower_def lower_def)
  with raw_text_sanitized [of css "''</style>'' @ CHR 0x0A # rest"] show ?thesis by (simp add: style_element_def)
qed

section \<open>A stored page is found\<close>

lemma split_on_chars: "x \<in> set s \<Longrightarrow> x = c \<or> (\<exists>l \<in> set (split_on c s). x \<in> set l)"
  by (induction s) (auto split: list.splits if_splits)

lemma split_on_snoc: "split_on c (s @ [c]) = split_on c s @ [[]]"
  by (induction s) (auto split: list.splits)

lemma split_on_last: "s \<noteq> [] \<Longrightarrow> last s = c \<Longrightarrow> [] \<in> set (split_on c s)"
  using split_on_snoc [of c "butlast s"] by (metis append_butlast_last_id in_set_conv_decomp)

text \<open>Texts that no normalisation of a host changes.\<close>

definition plain_host :: "string \<Rightarrow> bool" where
  "plain_host h \<longleftrightarrow> h \<noteq> [] \<and> last h \<noteq> CHR ''.'' \<and> (\<forall>c \<in> set h. name_char c \<or> c = CHR ''.'')"

lemma name_char_facts:
  assumes "name_char c \<or> c = CHR ''.''"
  shows "lower c = c" "\<not> is_space c" "c \<noteq> CHR '':''" "c \<noteq> CHR ''[''" "c \<noteq> CHR '']''"
  using assms by (auto simp: name_char_def lower_def is_space_def Let_def)

lemma dropWhile_none: "(\<And>c. c \<in> set s \<Longrightarrow> \<not> P c) \<Longrightarrow> dropWhile P s = s"
  by (cases s) auto

lemma plain_host_fixed:
  assumes "plain_host h"
  shows "to_lower h = h" "trim_space h = h" "host_part h = h" "trim_suffix_dot h = h" "trim_brackets h = h"
proof -
  have c: "lower c = c" "\<not> is_space c" "c \<noteq> CHR '':''" "c \<noteq> CHR ''[''" "c \<noteq> CHR '']''" if "c \<in> set h" for c
    using assms that name_char_facts [of c] by (auto simp: plain_host_def)
  show "to_lower h = h" using c(1) by (simp add: to_lower_def map_idI)
  show "trim_space h = h" using c(2) by (rule trim_space_none)
  have "CHR '':'' \<notin> set h" using c(3) by auto
  then show "host_part h = h" by (simp add: host_part_def SplitHostPort_def)
  show "trim_suffix_dot h = h" using assms by (simp add: trim_suffix_dot_def plain_host_def)
  have "dropWhile (\<lambda>c. c = CHR ''['' \<or> c = CHR '']'') t = t" if "set t = set h" for t
    using c(4,5) that by (intro dropWhile_none) auto
  then show "trim_brackets h = h" by (simp add: trim_brackets_def)
qed

lemma plain_host_normal: "plain_host h \<Longrightarrow> NormalizeRequestHost h = h" "plain_host h \<Longrightarrow> normalizeHost h = h"
  by (simp_all add: NormalizeRequestHost_def normalizeHost_def plain_host_fixed plain_host_def)

lemma normalized_domain:
  assumes "normalizePublicPageDomain raw = Some (Some dm)"
  shows "plain_host dm"
proof -
  from assms have l: "\<forall>label \<in> set (split_on CHR ''.'' dm). no_edge_hyphen label \<and> list_all name_char label" and ne: "dm \<noteq> []"
    by (auto simp: normalizePublicPageDomain_def Let_def list_all_iff split: if_splits)
  then have "[] \<notin> set (split_on CHR ''.'' dm)" by (auto simp: no_edge_hyphen_def)
  then have "last dm \<noteq> CHR ''.''" using split_on_last [OF ne] by blast
  moreover have "name_char c \<or> c = CHR ''.''" if "c \<in> set dm" for c
    using split_on_chars [OF that, of "CHR ''.''"] l by (auto simp: list_all_iff)
  ultimately show ?thesis using ne by (simp add: plain_host_def)
qed

lemma normalized_name:
  assumes "normalizePublicPageName raw = Some (Some nm)"
  shows "trim_space (to_lower nm) = nm" "nm \<noteq> []"
proof -
  from assms have "list_all name_char nm" "nm \<noteq> []" by (auto simp: normalizePublicPageName_def Let_def split: if_splits)
  then show "trim_space (to_lower nm) = nm" "nm \<noteq> []"
    using name_char_facts by (auto simp: to_lower_def list_all_iff map_idI trim_space_none)
qed

lemma is_space_lower [simp]: "is_space (lower c) = is_space c"
proof (cases "65 \<le> (of_char c :: nat) \<and> (of_char c :: nat) \<le> 90")
  case True
  then have "\<not> is_space c" by (auto simp: is_space_def)
  moreover have "(of_char (lower c) :: nat) = of_char c + 32" using True by (simp add: lower_def)
  with True have "\<not> is_space (lower c)" by (auto simp: is_space_def)
  ultimately show ?thesis by simp
next
  case False
  then show ?thesis by (auto simp: lower_def Let_def)
qed

lemma to_lower_trim: "to_lower (trim_space s) = trim_space (to_lower s)"
  by (simp add: to_lower_def trim_space_def dropWhile_map rev_map comp_def)

lemma host_part_Nil [simp]: "host_part [] = []"
  by (simp add: host_part_def SplitHostPort_def)

text \<open>The two ways the hub computes its own host agree.\<close>

lemma base_hosts_agree: "SiteHostFromBaseURL U (trim_space conf) = normalizeConfiguredBaseDomain U conf"
  by (simp add: SiteHostFromBaseURL_def normalizeConfiguredBaseDomain_def to_lower_trim Let_def trim_suffix_dot_def split: option.split)
    (simp add: trim_space_def)

text \<open>The unique indices of the pages.\<close>

definition pages_ok :: "server_db \<Rightarrow> bool" where
  "pages_ok d \<longleftrightarrow> keyed (public_pages d) \<and>
     (\<forall>t p t' p' f. (t, p) \<in> set (public_pages d) \<and> (t', p') \<in> set (public_pages d) \<and> t \<noteq> t' \<and> f \<in> {pp_name, pp_domain} \<longrightarrow>
        (\<forall>x. map_option to_lower (f p) = Some x \<longrightarrow> map_option to_lower (f p') \<noteq> Some x))"

lemma to_lower_idem [simp]: "to_lower (to_lower s) = to_lower s"
proof -
  have "lower (lower c) = lower c" for c
    by (cases "65 \<le> (of_char c :: nat) \<and> (of_char c :: nat) \<le> 90") (auto simp: lower_def Let_def)
  then show ?thesis by (simp add: to_lower_def)
qed

lemma set_update_pages: "keyed t \<Longrightarrow> (k, v) \<in> set (AList.update i x t) \<longleftrightarrow> (if k = i then v = x else (k, v) \<in> set t)"
  by (metis (no_types, lifting) AList.update_conv' fun_upd_apply keyed_in_set_map_of keyed_update map_of_SomeD option.inject)

lemma upsert_pages_ok:
  assumes "pages_ok d" "upsert_page tid p d = Some (e, Stored)"
  shows "pages_ok e \<and> e = d\<lparr>public_pages := AList.update tid p (public_pages d)\<rparr>"
proof -
  from assms(2) have e: "e = d\<lparr>public_pages := AList.update tid p (public_pages d)\<rparr>" by (simp add: upsert_page_def split: if_splits)
  from assms(2) have free: "\<not> page_conflict f tid p d" if "f \<in> {pp_name, pp_domain}" for f
    using that by (auto simp: upsert_page_def split: if_splits)
  from assms(1) have k: "keyed (public_pages d)" by (simp add: pages_ok_def)
  have new: "map_option to_lower (f p) = Some x \<Longrightarrow> (t, r) \<in> set (public_pages d) \<Longrightarrow> t \<noteq> tid \<Longrightarrow> map_option to_lower (f r) \<noteq> Some x"
    if "f \<in> {pp_name, pp_domain}" for f t r x
    using free [OF that] by (auto simp: page_conflict_def list_ex_iff split: option.splits)
  have "pages_ok e" unfolding pages_ok_def
  proof (intro conjI allI impI)
    show "keyed (public_pages e)" using k by (simp add: e)
    fix t q t' q' f x
    assume a: "(t, q) \<in> set (public_pages e) \<and> (t', q') \<in> set (public_pages e) \<and> t \<noteq> t' \<and> f \<in> {pp_name, pp_domain}"
      and x: "map_option to_lower (f q) = Some x"
    from a have f: "f \<in> {pp_name, pp_domain}" by blast
    consider "t = tid" "q = p" "(t', q') \<in> set (public_pages d)" "t' \<noteq> tid" | "t' = tid" "q' = p" "(t, q) \<in> set (public_pages d)" "t \<noteq> tid" |
      "(t, q) \<in> set (public_pages d)" "(t', q') \<in> set (public_pages d)" using a k by (auto simp: e set_update_pages split: if_splits)
    then show "map_option to_lower (f q') \<noteq> Some x"
    proof cases
      case 1
      with new [OF f] x show ?thesis by blast
    next
      case 2
      with new [OF f] x show ?thesis by metis
    next
      case 3
      with assms(1) a x show ?thesis unfolding pages_ok_def by blast
    qed
  qed
  with e show ?thesis by blast
qed

lemma enabled_page_found:
  assumes "pages_ok d" "map_of (public_pages d) tid = Some p" "pp_enabled p" "f p = Some x" "f \<in> {pp_name, pp_domain}"
  shows "enabled_page f x d = Some (tid, p)"
proof -
  let ?P = "\<lambda>(_, p). pp_enabled p \<and> map_option to_lower (f p) = Some (to_lower x)"
  have m: "(tid, p) \<in> set (public_pages d)" using assms(2) by (rule map_of_SomeD)
  moreover have "?P (tid, p)" using assms(3,4) by simp
  ultimately have "find ?P (public_pages d) \<noteq> None" unfolding find_None_iff by blast
  then obtain y where y: "find ?P (public_pages d) = Some y" by blast
  then have "y \<in> set (public_pages d)" "?P y" using find_in_set [OF y] by simp_all
  then obtain t q where q: "y = (t, q)" "(t, q) \<in> set (public_pages d)" "map_option to_lower (f q) = Some (to_lower x)" by (cases y) auto
  have "t = tid"
  proof (rule ccontr)
    assume "t \<noteq> tid"
    with assms(1,5) m q(2,3) have "map_option to_lower (f p) \<noteq> Some (to_lower x)" unfolding pages_ok_def by blast
    with assms(4) show False by simp
  qed
  with q m assms(1) have "y = (tid, p)" using eq_key_imp_eq_value [of "public_pages d" tid q p] by (simp add: pages_ok_def)
  with y show ?thesis by (simp add: enabled_page_def)
qed

lemma normalize_page_Some:
  assumes "normalize_page U conf req = Some p"
  shows "\<And>dm. pp_domain p = Some dm \<Longrightarrow> plain_host dm \<and> dm \<noteq> normalizeConfiguredBaseDomain U conf"
    "\<And>nm. pp_name p = Some nm \<Longrightarrow> trim_space (to_lower nm) = nm"
proof -
  from assms obtain nm dm where n: "normalizePublicPageName (pu_name req) = Some nm" "normalizePublicPageDomain (pu_domain req) = Some dm"
    and p: "pp_name p = nm" "pp_domain p = dm" and base: "\<And>x. dm = Some x \<Longrightarrow> normalizeConfiguredBaseDomain U conf = [] \<or> x \<noteq> normalizeConfiguredBaseDomain U conf"
    unfolding normalize_page_def Let_def by (force split: option.splits if_splits)
  show "trim_space (to_lower x) = x" if "pp_name p = Some x" for x using that n(1) p normalized_name(1) [of "pu_name req" x] by simp
  show "plain_host x \<and> x \<noteq> normalizeConfiguredBaseDomain U conf" if "pp_domain p = Some x" for x
  proof -
    have "plain_host x" using that n(2) p normalized_domain [of "pu_domain req" x] by simp
    with base [of x] that p show ?thesis by (auto simp: plain_host_def)
  qed
qed

lemma equal_fold_plain: "plain_host h \<Longrightarrow> equal_fold h b \<longleftrightarrow> to_lower b = h"
  by (auto simp: equal_fold_def plain_host_fixed(1))

lemma GetTeamPublicPage_Inr:
  fixes s :: "('r, 'z) netenv_scheme"
  assumes "GetTeamPublicPage tid s = (Inr p, t)"
  shows "p = (case map_of (public_pages (db s)) tid of None \<Rightarrow> no_page | Some q \<Rightarrow> q)" "t = s\<lparr>calls := Suc (calls s)\<rparr>"
  using assms by (auto simp: GetTeamPublicPage_def tryE_run query_db_row_run raise_def ret_def split: if_splits option.splits)

text \<open>The host \<open>url.Parse\<close> finds in an address in lower case is in lower case.\<close>

definition url_ok :: "(string \<Rightarrow> string option) \<Rightarrow> bool" where
  "url_ok U \<longleftrightarrow> (\<forall>v h. U v = Some h \<and> to_lower v = v \<longrightarrow> to_lower h = h)"

lemma to_lower_fixed: "to_lower s = s \<longleftrightarrow> (\<forall>c \<in> set s. lower c = c)"
  by (simp add: to_lower_def map_eq_conv [of _ _ id, simplified] list.map_id0)

lemma trim_set: "set (trim_space s) \<subseteq> set s" "set (trim_suffix_dot s) \<subseteq> set s" "set (host_part s) \<subseteq> set s"
proof -
  show "set (trim_space s) \<subseteq> set s" by (auto simp: trim_space_def dest!: set_dropWhileD)
  show "set (trim_suffix_dot s) \<subseteq> set s" by (auto simp: trim_suffix_dot_def dest: in_set_butlastD)
  have "SplitHostPort s = Some h \<Longrightarrow> set h \<subseteq> set s" for h
    by (auto simp: SplitHostPort_def Let_def split: if_splits dest!: set_takeWhileD in_set_takeD list.set_sel(2) [rotated])
  then show "set (host_part s) \<subseteq> set s" by (auto simp: host_part_def split: option.splits)
qed

lemma base_lower:
  assumes "url_ok U"
  shows "to_lower (normalizeConfiguredBaseDomain U conf) = normalizeConfiguredBaseDomain U conf"
proof -
  let ?v = "trim_space (to_lower conf)"
  have v: "to_lower ?v = ?v" by (simp add: to_lower_trim)
  have "to_lower (trim_space (trim_suffix_dot (host_part h))) = trim_space (trim_suffix_dot (host_part h))" if "to_lower h = h" for h
    using that trim_set [of h] trim_set [of "host_part h"] trim_set [of "trim_suffix_dot (host_part h)"] unfolding to_lower_fixed by blast
  with v assms show ?thesis unfolding normalizeConfiguredBaseDomain_def Let_def url_ok_def
    by (auto split: option.split) (simp add: to_lower_def)+
qed

lemma Refresh_Inr:
  fixes s :: "('r, 'z) siteenv_scheme"
  assumes "Refresh s = (Inr x, t)"
  shows "db t = db s" "tabs t = tabs s" "conf_domain t = conf_domain s" "url_host t = url_host s"
    "snap t = \<lparr>baseHost = normalizeConfiguredBaseDomain (url_host s) (conf_domain s),
       publicHosts = public_hosts (normalizeConfiguredBaseDomain (url_host s) (conf_domain s))
         (concat (map (\<lambda>(_, p). case pp_domain p of
            Some dmn \<Rightarrow> if pp_enabled p \<and> \<not> blank dmn then [to_lower dmn] else [] | None \<Rightarrow> []) (public_pages (db s))))\<rparr>"
  using assms by (auto simp: Refresh_def ListEnabledPublicPageDomains_def bindE_Inr_iff query_db_Inr_iff gets_def modify_def base_hosts_agree)

lemma plain_not_blank: "plain_host h \<Longrightarrow> \<not> blank h"
proof
  assume "plain_host h" "blank h"
  then have "hd h \<in> set h" "hd h = CHR '' ''" by (auto simp: plain_host_def blank_def list_all_iff)
  with \<open>plain_host h\<close> show False using name_char_facts(2) [of "hd h"] by (auto simp: plain_host_def is_space_def)
qed

lemma listed_public_host:
  assumes "(tid, p) \<in> set pages" "pp_enabled p" "pp_domain p = Some dm" "plain_host dm" "\<not> equal_fold dm base"
  shows "dm \<in> set (public_hosts base (concat (map (\<lambda>(_, p). case pp_domain p of
    Some dmn \<Rightarrow> if pp_enabled p \<and> \<not> blank dmn then [to_lower dmn] else [] | None \<Rightarrow> []) pages)))"
  using assms plain_not_blank [OF assms(4)] plain_host_normal(1) [OF assms(4)] plain_host_fixed(1) [OF assms(4)]
  by (auto simp: public_hosts_def plain_host_def image_iff intro!: bexI [of _ "(tid, p)"])

text \<open>
  (C25) Setting a page that is answered with success stores exactly the normalised page for
  the team and no other page changes; names and domains of pages stay unique. When the page is enabled it is found: a
  request for its domain is one for a public host, and both its name and its domain lead to this team's
  page and to no other.
\<close>

theorem setPublicPage_correct:
  fixes s t :: "('r, 'z) siteenv_scheme"
  assumes ok: "pages_ok (db s)" and team: "map_of (teams (tabs s)) (hr_tid rq) = Some tr" and U: "url_ok (url_host s)"
    and run: "setPublicPage rq (Some req) s = (Inr resp, t)"
  shows "\<exists>p. normalize_page (url_host s) (conf_domain s) req = Some p \<and> ps_page resp = p \<and> pages_ok (db t) \<and>
    db t = (db s)\<lparr>public_pages := AList.update (hr_tid rq) p (public_pages (db s))\<rparr> \<and>
    (pp_enabled p \<longrightarrow>
      (\<forall>dm. pp_domain p = Some dm \<longrightarrow> IsPublicPageHost (snap t) dm \<and> resolved pp_domain (normalizeHost dm) t = Some (hr_tid rq, p, tr)) \<and>
      (\<forall>nm. pp_name p = Some nm \<longrightarrow> resolved pp_name (trim_space (to_lower nm)) t = Some (hr_tid rq, p, tr)))"
proof -
  let ?tid = "hr_tid rq" and ?base = "normalizeConfiguredBaseDomain (url_host s) (conf_domain s)"
  from run obtain p where p: "normalize_page (url_host s) (conf_domain s) req = Some p"
    by (auto simp: setPublicPage_def fails_def raise_def split: if_splits option.splits)
  with run obtain s1 s2 q where
    1: "UpsertTeamPublicPage ?tid p s = (Inr Stored, s1)" and 2: "Refresh s1 = (Inr (), s2)" and 3: "GetTeamPublicPage ?tid s2 = (Inr q, t)"
    and r: "ps_page resp = q"
    by (auto simp: setPublicPage_def fails_def raise_def bindE_Inr_iff [of "orError _"] orError_Inr_iff buildPublicPageResponse_def ret_def
        split: if_splits page_stored.splits) (metis (full_types) page_stored.exhaust)
  from 1 have u: "upsert_page ?tid p (db s) = Some (db s1, Stored)" "tabs s1 = tabs s" "url_host s1 = url_host s" "conf_domain s1 = conf_domain s"
    by (auto simp: UpsertTeamPublicPage_def exec_db_val_Inr_iff)
  from upsert_pages_ok [OF ok u(1)] have d: "pages_ok (db s1)" "db s1 = (db s)\<lparr>public_pages := AList.update ?tid p (public_pages (db s))\<rparr>" by auto
  note f = Refresh_Inr [OF 2]
  note g = GetTeamPublicPage_Inr [OF 3]
  have dt: "db t = db s1" "tabs t = tabs s" "snap t = snap s2" using f u g by simp_all
  have m: "map_of (public_pages (db s1)) ?tid = Some p" by (simp add: d(2) AList.update_conv')
  have q: "q = p" using g(1) f(1) m by simp
  have res: "resolved col x t = Some (?tid, p, tr)" if "pp_enabled p" "col p = Some x" "col \<in> {pp_name, pp_domain}" for col x
    unfolding resolved_def dt using enabled_page_found [OF d(1) m that] team by simp
  have "IsPublicPageHost (snap t) dm \<and> resolved pp_domain (normalizeHost dm) t = Some (?tid, p, tr)" if "pp_enabled p" "pp_domain p = Some dm" for dm
  proof -
    from normalize_page_Some(1) [OF p that(2)] have h: "plain_host dm" "dm \<noteq> ?base" by auto
    then have ne: "\<not> equal_fold dm ?base" by (simp add: equal_fold_plain base_lower [OF U])
    have "dm \<in> set (publicHosts (snap t))"
      using listed_public_host [OF map_of_SomeD [OF m] that h(1) ne] f(5) u dt by simp
    then have "IsPublicPageHost (snap t) dm" using h ne f(5) u dt by (simp add: IsPublicPageHost_def plain_host_normal plain_host_def)
    with res [of pp_domain dm] that plain_host_normal(2) [OF h(1)] show ?thesis by simp
  qed
  moreover have "resolved pp_name (trim_space (to_lower nm)) t = Some (?tid, p, tr)" if "pp_enabled p" "pp_name p = Some nm" for nm
    using res [of pp_name nm] that normalize_page_Some(2) [OF p that(2)] by simp
  ultimately show ?thesis using p r q d dt by auto
qed

section \<open>The refresh loop runs while someone listens\<close>













section \<open>Bounded requests\<close>

text \<open>The requests of a client that are let through.\<close>

fun allowed :: "(go_time \<times> string) list \<Rightarrow> publicRequestLimiter \<Rightarrow> (go_time \<times> string) list" where
  "allowed [] l = []"
| "allowed ((now, ip) # rs) l = (case public_allow now ip l of (ok', m) \<Rightarrow> (if ok' then Cons (now, ip) else id) (allowed rs m))"

lemma ip_count_update: "ip_count (AList.update i n t) j = (if j = i then n else ip_count t j)"
  by (simp add: ip_count_def AList.update_conv')

text \<open>Within one window, at most 32 requests pass, and at most 8 of one client.\<close>

lemma allowed_bounded:
  assumes "rl_window l = Some w" "\<forall>(now, ip) \<in> set rs. time_sub now w < publicRequestWindow"
    "rl_count l \<le> publicRequestGlobalLimit" "ip_count (rl_byIP l) i \<le> publicRequestIPLimit"
  shows "rl_count l + length (allowed rs l) \<le> publicRequestGlobalLimit \<and>
    ip_count (rl_byIP l) i + length (filter (\<lambda>(_, ip). client_ip ip = i) (allowed rs l)) \<le> publicRequestIPLimit"
  using assms
proof (induction rs arbitrary: l)
  case (Cons x rs)
  obtain now ip where x: "x = (now, ip)" by fastforce
  have t: "rl_turn now l = l" using Cons.prems(1,2) x by (auto simp: rl_turn_def)
  show ?case
  proof (cases "fst (public_allow now ip l)")
    case False
    then have "snd (public_allow now ip l) = l" by (auto simp: public_allow_def t Let_def split: if_splits)
    with False Cons.IH [OF Cons.prems(1) _ Cons.prems(3,4)] Cons.prems(2) x show ?thesis by (simp add: case_prod_beta)
  next
    case True
    then have n: "rl_count l < publicRequestGlobalLimit" "ip_count (rl_byIP l) (client_ip ip) < publicRequestIPLimit"
      "snd (public_allow now ip l) = l\<lparr>rl_count := Suc (rl_count l), rl_byIP := AList.update (client_ip ip) (Suc (ip_count (rl_byIP l) (client_ip ip))) (rl_byIP l)\<rparr>"
      by (auto simp: public_allow_def t Let_def split: if_splits)
    have "rl_window (snd (public_allow now ip l)) = Some w" "rl_count (snd (public_allow now ip l)) \<le> publicRequestGlobalLimit"
      "ip_count (rl_byIP (snd (public_allow now ip l))) i \<le> publicRequestIPLimit"
      using n Cons.prems(1,4) by (auto simp: ip_count_update)
    from Cons.IH [OF this(1) _ this(2,3)] Cons.prems(2) x n True show ?thesis
      by (auto simp: case_prod_beta ip_count_update split: if_splits)
  qed
qed (simp add: publicRequestGlobalLimit_def)

section \<open>A sample site\<close>

text \<open>Team 7 shows a server; the other hub has a hidden server more and a page of another team.\<close>

definition shown_server :: srv_row where
  "shown_server = \<lparr>srv_team = 7, srv_name = ''web'', srv_type = 1, srv_category = 1, srv_monitor = True, srv_terminal = False, srv_public = True, srv_weight = 0\<rparr>"

definition site_row :: public_page where
  "site_row = \<lparr>pp_enabled = True, pp_name = Some ''ops'', pp_domain = Some ''a.io'', pp_title = None, pp_description = None, pp_css = None\<rparr>"

definition site_team :: team_row where
  "site_team = \<lparr>name = ''ops'', description = [], color = [], image = [], owner_id = 1\<rparr>"

definition sample_site :: "server_db \<Rightarrow> unit siteenv" where
  "sample_site d = netenv.extend ((sample_net dial_ok)\<lparr>db := d, tabs := (tabs (sample_net dial_ok))\<lparr>teams := [(7, site_team)]\<rparr>\<rparr>)
     \<lparr>snap = \<lparr>baseHost = ''hub'', publicHosts = []\<rparr>, url_host = (\<lambda>v. None)\<rparr>"

definition small_site_db :: server_db where
  "small_site_db = no_servers\<lparr>known_teams := [7], srvs := [(5, shown_server)], public_pages := [(7, site_row)]\<rparr>"

definition large_site_db :: server_db where
  "large_site_db = no_servers\<lparr>known_teams := [7, 8], srvs := [(5, shown_server), (6, shown_server\<lparr>srv_public := False\<rparr>)],
     public_pages := [(7, site_row), (8, no_page)]\<rparr>"

lemma sample_site_views:
  "public_view 7 small_site_db = public_view 7 large_site_db"
proof
  fix i
  show "public_view 7 small_site_db i = public_view 7 large_site_db i"
    by (simp add: public_view_def small_site_db_def large_site_db_def no_servers_def shown_server_def)
qed

theorem bootstrap_public_only_witness:
  "fst (bootstrap (\<lambda>_. Some [True]) False False ''A.io'' (sample_site small_site_db)) = fst (bootstrap (\<lambda>_. Some [True]) False False ''A.io'' (sample_site large_site_db)) \<and>
   (case fst (bootstrap (\<lambda>_. Some [True]) False False ''A.io'' (sample_site small_site_db)) of Inl _ \<Rightarrow> False | Inr b \<Rightarrow> map pm_name (sn_servers (bd_snapshot b)) = [''web''])"
proof
  let ?s = "sample_site small_site_db" and ?t = "sample_site large_site_db"
  have "same_services ?s ?t" by (simp add: same_services_def sample_site_def netenv.defs sample_net_def)
  moreover have "keyed (srvs (db ?s))" "keyed (srvs (db ?t))" by code_simp+
  moreover have r: "resolved pp_domain (normalizeHost ''A.io'') ?s = Some (7, site_row, site_team)"
    "resolved pp_domain (normalizeHost ''A.io'') ?t = Some (7, site_row, site_team)" by code_simp+
  moreover have "category_list_of 7 (db ?s) = category_list_of 7 (db ?t)" by code_simp
  moreover have "public_view 7 (db ?s) = public_view 7 (db ?t)" using sample_site_views by (simp add: sample_site_def netenv.defs sample_net_def)
  ultimately show "fst (bootstrap (\<lambda>_. Some [True]) False False ''A.io'' ?s) = fst (bootstrap (\<lambda>_. Some [True]) False False ''A.io'' ?t)"
    by (intro bootstrap_public_only) simp_all
  show "case fst (bootstrap (\<lambda>_. Some [True]) False False ''A.io'' ?s) of Inl _ \<Rightarrow> False | Inr b \<Rightarrow> map pm_name (sn_servers (bd_snapshot b)) = [''web'']"
    by code_simp
qed

definition site_request :: public_request where
  "site_request = hub_request.extend (page_request 7 [] []) \<lparr>pr_proto = [], pr_forwarded = [], pr_scheme = ''https'', pr_host = ''hub''\<rparr>"

definition site_update :: publicPageUpdateRequest where
  "site_update = \<lparr>pu_enabled = True, pu_name = '' Ops '', pu_domain = ''A.io'', pu_title = [], pu_description = [], pu_css = []\<rparr>"

theorem setPublicPage_correct_witness:
  "IsPublicPageHost (snap (snd (setPublicPage site_request (Some site_update) (sample_site (no_servers\<lparr>known_teams := [7]\<rparr>))))) ''a.io'' \<and>
   resolved pp_domain (normalizeHost ''a.io'') (snd (setPublicPage site_request (Some site_update) (sample_site (no_servers\<lparr>known_teams := [7]\<rparr>)))) = Some (7, site_row, site_team)"
proof -
  let ?s = "sample_site (no_servers\<lparr>known_teams := [7]\<rparr>)" and ?run = "setPublicPage site_request (Some site_update) (sample_site (no_servers\<lparr>known_teams := [7]\<rparr>))"
  have s: "pages_ok (db ?s)" "map_of (teams (tabs ?s)) (hr_tid site_request) = Some site_team" "url_ok (url_host ?s)"
    by (simp_all add: sample_site_def netenv.defs sample_net_def no_servers_def pages_ok_def url_ok_def site_request_def hub_request.defs page_request_def)
  have "fst ?run = Inr (buildPublicPageResponse site_request ''hub'' site_row)" by code_simp
  note r = setPublicPage_correct [OF s run_of_fst [OF this]]
  have n: "normalize_page (url_host ?s) (conf_domain ?s) site_update = Some site_row" by code_simp
  have "pp_enabled site_row" "pp_domain site_row = Some ''a.io''" "hr_tid site_request = 7"
    by (simp_all add: site_row_def site_request_def hub_request.defs page_request_def)
  with r n show ?thesis by auto
qed


end
