(* ===== verification/Export_Crypto.thy ===== *)
theory Export_Crypto
  imports Encryption Password
begin

text \<open>
  The encrypted file of a team export: \<open>internal/security/exportcrypto/exportcrypto.go\<close>. A password is
  stretched to a key, the payload is sealed under it, and the parts are written in base64. The
  encoding of the payload (\<open>encoding/json\<close>), Argon2id and AES-GCM are parameters.
\<close>

section \<open>Runes of a string\<close>

text \<open>
  \<open>for range s\<close> decodes UTF-8: the width of the first rune, one byte when the bytes are not
  well-formed.
\<close>

definition continuation :: "nat \<Rightarrow> bool" where
  "continuation b \<longleftrightarrow> 128 \<le> b \<and> b \<le> 191"

text \<open>The number of bytes a first byte announces, and the range of the second one.\<close>

definition rune_head :: "nat \<Rightarrow> nat \<times> nat \<times> nat" where
  "rune_head b =
     (if 194 \<le> b \<and> b \<le> 223 then (2, 128, 191)
      else if b = 224 then (3, 160, 191)
      else if b = 237 then (3, 128, 159)
      else if 225 \<le> b \<and> b \<le> 239 then (3, 128, 191)
      else if b = 240 then (4, 144, 191)
      else if 241 \<le> b \<and> b \<le> 243 then (4, 128, 191)
      else if b = 244 then (4, 128, 143)
      else (1, 0, 0))"

definition rune_width :: "nat list \<Rightarrow> nat" where
  "rune_width bs =
     (case bs of
        [] \<Rightarrow> 1
      | b # rest \<Rightarrow>
          (case rune_head b of (n, lo, hi) \<Rightarrow>
             if n = 1 \<or> length bs < n \<or> rest ! 0 < lo \<or> hi < rest ! 0 \<or> \<not> list_all continuation (take (n - 2) (tl rest))
             then 1 else n))"

lemma rune_width_pos: "0 < rune_width bs"
  by (auto simp: rune_width_def rune_head_def split: list.split)

function count_runes :: "nat list \<Rightarrow> nat" where
  "count_runes bs = (if bs = [] then 0 else Suc (count_runes (drop (rune_width bs) bs)))"
  by auto
termination
  by (relation "measure length") (auto simp: rune_width_pos)

declare count_runes.simps [simp del]

definition runes_of :: "string \<Rightarrow> nat" where
  "runes_of s = count_runes (map of_char s)"

lemma count_runes_le: "count_runes bs \<le> length bs"
proof (induction bs rule: count_runes.induct)
  case (1 bs)
  then show ?case using rune_width_pos [of bs] by (subst count_runes.simps) (cases bs; auto)
qed

section \<open>exportcrypto.go\<close>

definition fileFormat :: string where "fileFormat = ''mosona-team-export-v1''"
definition kdfName :: string where "kdfName = ''argon2id''"
definition minPasswordRunes :: nat where "minPasswordRunes = 8"
definition maxPasswordBytes :: nat where "maxPasswordBytes = 1024"
definition saltLen :: nat where "saltLen = 16"
definition keyLen :: nat where "keyLen = 32"

record EncryptedFile =
  ef_format :: string
  ef_kdf :: string
  ef_salt :: string
  ef_nonce :: string
  ef_ciphertext :: string

datatype export_crypto_err =
    PasswordRequired | PasswordTooLong | PasswordTooShort
  | MarshalFailed | ExportNoRandom | ExportKeyLength
  | MissingPayload | UnsupportedFormat | InvalidSalt | InvalidNonce | InvalidCiphertext | InvalidNonceLength
  | WrongPasswordOrCorrupt | NotTeamData

definition validatePassword :: "string \<Rightarrow> export_crypto_err + unit" where
  "validatePassword pw =
     (if pw = [] then Inl PasswordRequired
      else if length pw > maxPasswordBytes then Inl PasswordTooLong
      else if runes_of pw < minPasswordRunes then Inl PasswordTooShort
      else Inr ())"

definition export_key :: "idkey \<Rightarrow> string \<Rightarrow> string \<Rightarrow> string" where
  "export_key A pw slt = A pw slt argon2Iterations argon2MemoryKiB argon2Parallel keyLen"

text \<open>
  \<open>marshal\<close> is \<open>json.Marshal\<close> of the payload; \<open>rand_salt\<close> and \<open>rand_nonce\<close> are the two reads of the random source.
\<close>

definition EncryptJSON ::
  "ciphers \<Rightarrow> idkey \<Rightarrow> (nat \<Rightarrow> string option) \<Rightarrow> (nat \<Rightarrow> string option) \<Rightarrow> ('p \<Rightarrow> string option) \<Rightarrow>
   string \<Rightarrow> 'p \<Rightarrow> export_crypto_err + EncryptedFile" where
  "EncryptJSON C A rand_salt rand_nonce marshal pw payload =
     (case validatePassword pw of
        Inl e \<Rightarrow> Inl e
      | Inr _ \<Rightarrow>
          (case marshal payload of
             None \<Rightarrow> Inl MarshalFailed
           | Some plain \<Rightarrow>
               (case rand_salt saltLen of
                  None \<Rightarrow> Inl ExportNoRandom
                | Some slt \<Rightarrow>
                    let key = export_key A pw slt in
                    if \<not> valid_key_length key then Inl ExportKeyLength
                    else (case rand_nonce nonce_size of
                      None \<Rightarrow> Inl ExportNoRandom
                    | Some nonce \<Rightarrow>
                        Inr \<lparr>ef_format = fileFormat, ef_kdf = kdfName, ef_salt = b64_std_encode slt,
                          ef_nonce = b64_std_encode nonce, ef_ciphertext = b64_std_encode (gcm_seal C key nonce plain [])\<rparr>))))"

text \<open>A field in base64 that must not be empty.\<close>

definition decode_part :: "export_crypto_err \<Rightarrow> string \<Rightarrow> export_crypto_err + string" where
  "decode_part e s = (case b64_std_decode s of None \<Rightarrow> Inl e | Some b \<Rightarrow> if b = [] then Inl e else Inr b)"

definition open_export :: "ciphers \<Rightarrow> string \<Rightarrow> string \<Rightarrow> string \<Rightarrow> export_crypto_err + string" where
  "open_export C key nonce ciphertext =
     (if \<not> valid_key_length key then Inl ExportKeyLength
      else if length nonce \<noteq> nonce_size then Inl InvalidNonceLength
      else case gcm_open C key nonce ciphertext [] of None \<Rightarrow> Inl WrongPasswordOrCorrupt | Some plain \<Rightarrow> Inr plain)"

definition DecryptJSON ::
  "ciphers \<Rightarrow> idkey \<Rightarrow> (string \<Rightarrow> 'p option) \<Rightarrow> string \<Rightarrow> EncryptedFile option \<Rightarrow> export_crypto_err + 'p" where
  "DecryptJSON C A unmarshal pw file =
     (case validatePassword pw of
        Inl e \<Rightarrow> Inl e
      | Inr _ \<Rightarrow>
          (case file of
             None \<Rightarrow> Inl MissingPayload
           | Some f \<Rightarrow>
               if ef_format f \<noteq> fileFormat \<or> ef_kdf f \<noteq> kdfName then Inl UnsupportedFormat
               else (case decode_part InvalidSalt (ef_salt f) of
                 Inl e \<Rightarrow> Inl e
               | Inr slt \<Rightarrow>
                   (case decode_part InvalidNonce (ef_nonce f) of
                      Inl e \<Rightarrow> Inl e
                    | Inr nonce \<Rightarrow>
                        (case decode_part InvalidCiphertext (ef_ciphertext f) of
                           Inl e \<Rightarrow> Inl e
                         | Inr ciphertext \<Rightarrow>
                             (case open_export C (export_key A pw slt) nonce ciphertext of
                                Inl e \<Rightarrow> Inl e
                              | Inr plain \<Rightarrow>
                                  (case unmarshal plain of None \<Rightarrow> Inl NotTeamData | Some x \<Rightarrow> Inr x)))))))"

section \<open>Round trip\<close>

lemma decode_part_encode [simp]: "decode_part e (b64_std_encode b) = (if b = [] then Inl e else Inr b)"
  by (simp add: decode_part_def)

lemma validatePassword_Inr: "validatePassword pw = Inr () \<longleftrightarrow> length pw \<le> 1024 \<and> 8 \<le> runes_of pw"
  using count_runes_le [of "[]"]
  by (auto simp: validatePassword_def maxPasswordBytes_def minPasswordRunes_def runes_of_def)

lemma EncryptJSON_Inr:
  assumes "EncryptJSON C A r1 r2 marshal pw x = Inr f"
  obtains plain slt nonce where "validatePassword pw = Inr ()" "marshal x = Some plain" "r1 saltLen = Some slt" "r2 nonce_size = Some nonce"
    "valid_key_length (export_key A pw slt)"
    "f = \<lparr>ef_format = fileFormat, ef_kdf = kdfName, ef_salt = b64_std_encode slt, ef_nonce = b64_std_encode nonce,
       ef_ciphertext = b64_std_encode (gcm_seal C (export_key A pw slt) nonce plain [])\<rparr>"
  using assms that by (auto simp: EncryptJSON_def Let_def split: sum.splits option.splits if_splits)

lemma DecryptJSON_EncryptJSON:
  assumes "ciphers_ok C" "rand_ok r1" "rand_ok r2" "EncryptJSON C A r1 r2 marshal pw x = Inr f"
    and json: "\<And>plain. marshal x = Some plain \<Longrightarrow> unmarshal plain = Some x"
  shows "DecryptJSON C A unmarshal pw (Some f) = Inr x"
proof -
  from assms(4) obtain plain slt nonce where e: "validatePassword pw = Inr ()" "marshal x = Some plain" "r1 saltLen = Some slt" "r2 nonce_size = Some nonce"
    "valid_key_length (export_key A pw slt)"
    "f = \<lparr>ef_format = fileFormat, ef_kdf = kdfName, ef_salt = b64_std_encode slt, ef_nonce = b64_std_encode nonce,
       ef_ciphertext = b64_std_encode (gcm_seal C (export_key A pw slt) nonce plain [])\<rparr>" by (rule EncryptJSON_Inr)
  let ?s = "gcm_seal C (export_key A pw slt) nonce plain []"
  from assms(2,3) e(3,4) have "length slt = saltLen" "length nonce = nonce_size" by (simp_all add: rand_ok_def)
  then have "slt \<noteq> []" "length nonce = nonce_size" by (auto simp: saltLen_def)
  moreover from this have "nonce \<noteq> []" by (auto simp: nonce_size_def)
  moreover from assms(1) have "gcm_overhead \<le> length ?s" by (simp add: ciphers_ok_def)
  then have "?s \<noteq> []" by (auto simp: gcm_overhead_def)
  moreover from assms(1) have "gcm_open C (export_key A pw slt) nonce ?s [] = Some plain" by (simp add: ciphers_ok_def)
  ultimately show ?thesis using e json by (simp add: DecryptJSON_def open_export_def)
qed

end
