(* ===== verification/Team_Export.thy ===== *)
theory Team_Export
  imports Public_Access Export_Crypto Accounts Teams
begin

text \<open>
  Exporting the configuration of a team: the first half of \<open>internal/app/api/team/export_import.go\<close>. The
  handlers write their answers with \<open>c.JSON\<close>, which returns the error of writing and not the
  status it wrote, so the model keeps the list of answers written and the errors apart.
  Columns that only record when a row was written or an agent was seen are left out.
\<close>

declare map_of_eq_Some_iff [simp del]

section \<open>The bundle\<close>

definition teamExportVersion :: int where "teamExportVersion = 1"

record teamExportSkippedServer =
  ss_id :: int
  ss_name :: string
  ss_credential :: string

record teamExportSkippedKey =
  sk_id :: int
  sk_name :: string
  sk_credential :: string

record teamExportTeam =
  et_name :: string
  et_description :: string
  et_color :: string
  et_image :: string

record teamExportCategory =
  ec_ref :: int
  ec_name :: string
  ec_sort :: int

record teamExportKey =
  ek_ref :: int
  ek_name :: string
  ek_content :: string
  ek_password :: "string option"

record teamExportAlert =
  ea_item :: string
  ea_threshold :: int
  ea_duration :: int

record teamExportSSH =
  eh_address :: string
  eh_port :: int
  eh_username :: string
  eh_key_ref :: int
  eh_password :: string
  eh_host_key :: string

record teamExportAgent =
  eg_uid :: string
  eg_status :: int
  eg_ip :: string
  eg_version :: string
  eg_public_key :: string
  eg_private_key :: string
  eg_protocol :: int
  eg_host :: string
  eg_port :: int

text \<open>\<open>teamExportServerInfo\<close> is the two groups of columns of \<open>server_info\<close>, \<open>teamExportServerInfoAdv\<close> a row of \<open>server_info_adv\<close>.\<close>

record teamExportServer =
  es_ref :: int
  es_category :: int
  es_type :: int
  es_name :: string
  es_monitor :: bool
  es_terminal :: bool
  es_public :: "bool option"
  es_weight :: int
  es_details :: server_details
  es_runtime :: server_runtime
  es_adv :: server_adv
  es_ssh :: "teamExportSSH option"
  es_agent :: "teamExportAgent option"
  es_enroll :: "enroll_row option"
  es_alerts :: "teamExportAlert list"

record teamExportBundle =
  eb_version :: int
  eb_exported_at :: go_time
  eb_skipped_servers :: "teamExportSkippedServer list"
  eb_skipped_keys :: "teamExportSkippedKey list"
  eb_team :: teamExportTeam
  eb_categories :: "teamExportCategory list"
  eb_keys :: "teamExportKey list"
  eb_alerts :: "teamExportAlert list"
  eb_notifications :: "(string \<times> string) list"
  eb_page :: "public_page option"
  eb_servers :: "teamExportServer list"

record teamImportAgentUIDConflict =
  uc_server :: string
  uc_uid :: string
  uc_source :: string
  uc_conflicting :: string

text \<open>
  What the package relies on: \<open>encoding/json\<close> for bundles, Argon2id, one-time passwords, the order of alert items
  in the collation of the database, and the entry that a \<open>range\<close> over a map meets first.
\<close>

record team_codec =
  marshal_bundle :: "teamExportBundle \<Rightarrow> string option"
  unmarshal_bundle :: "string \<Rightarrow> teamExportBundle option"
  argon :: idkey
  otp_valid :: "go_time \<Rightarrow> string \<Rightarrow> string \<Rightarrow> bool"
  by_item :: "teamExportAlert list \<Rightarrow> teamExportAlert list"
  range_first :: "int list \<Rightarrow> int"

section \<open>Errors and answers\<close>

datatype team_err =
    ServerCredential teamExportSkippedServer
  | KeyCredential teamExportSkippedKey
  | UIDConflict teamImportAgentUIDConflict
  | errInvalidTeamImport
  | ErrInvalidConfiguration
  | OtherTeamErr err

datatype team_data =
    NoTeamData
  | Exported EncryptedFile "teamExportSkippedServer list" "teamExportSkippedKey list"
  | UnreadableServer teamExportSkippedServer
  | UnreadableKey teamExportSkippedKey
  | ConflictingUID teamImportAgentUIDConflict
  | LegacyServers "string list"

text \<open>\<open>writes n\<close>: whether the \<open>n\<close>-th answer could be written.\<close>

record 'r teamenv = "'r siteenv" +
  sent :: "(response \<times> team_data) list"
  writes :: "nat \<Rightarrow> bool"

text \<open>A handler ends with the error it returns to echo, if any.\<close>

type_synonym ('r, 'z, 'a) team_handler = "(('r, 'z) teamenv_scheme, unit, 'a) io"
type_synonym ('r, 'z, 'a) team_io = "(('r, 'z) netenv_scheme, team_err, 'a) io"

definition cJSON :: "response \<Rightarrow> team_data \<Rightarrow> ('r, 'z, unit) team_handler" where
  "cJSON status data = (\<lambda>s. (if writes s (length (sent s)) then Inr () else Inl (), s\<lparr>sent := sent s @ [(status, data)]\<rparr>))"

definition team_ErrorHandler :: "('r, 'z, unit) team_handler" where
  "team_ErrorHandler = cJSON ErrorHandler NoTeamData"

definition orTeamErr :: "('s, err, 'a) io \<Rightarrow> ('s, team_err, 'a) io" where
  "orTeamErr m = tryE m (\<lambda>r. case r of Inl e \<Rightarrow> raise (OtherTeamErr e) | Inr x \<Rightarrow> ret x)"

text \<open>\<open>err != nil && !errors.Is(err, sql.ErrNoRows)\<close>\<close>

definition optional_row :: "(server_db \<Rightarrow> 'a option) \<Rightarrow> ('r, 'z, 'a option) team_io" where
  "optional_row q = tryE (query_db_row q) (\<lambda>r. case r of
     Inl e \<Rightarrow> if e = ErrNoRows then ret None else raise (OtherTeamErr e)
   | Inr x \<Rightarrow> ret (Some x))"

section \<open>Who may export and import\<close>

text \<open>
  The identifiers of the team and the user, and the secret kept in the context of the request. After
  a refusal the identifiers are zero and there is no secret.
\<close>

definition refuse :: "('r, 'z, unit) team_handler \<Rightarrow> ('r, 'z, int \<times> int \<times> string) team_handler" where
  "refuse reply = bindE reply (\<lambda>_. ret (0, 0, []))"

definition requireTeamOwnerAndTOTP :: "hub_request \<Rightarrow> ('r, 'z, int \<times> int \<times> string) team_handler" where
  "requireTeamOwnerAndTOTP rq =
     (let tid = hr_tid rq; uid = hr_uid rq in
      if tid = 0 \<or> uid = 0 then refuse (cJSON (400, ''error'') NoTeamData)
      else tryE (IsTeamOwner tid uid) (\<lambda>r. case r of
        Inl _ \<Rightarrow> refuse team_ErrorHandler
      | Inr isOwner \<Rightarrow>
          if \<not> isOwner then refuse (cJSON (403, ''forbidden'') NoTeamData)
          else tryE (GetUserAuthById uid) (\<lambda>r. case r of
            Inl _ \<Rightarrow> refuse team_ErrorHandler
          | Inr (_, user) \<Rightarrow>
              (case totp user of
                 None \<Rightarrow> refuse (cJSON (403, ''totp_required'') NoTeamData)
               | Some secret \<Rightarrow>
                   if secret = [] then refuse (cJSON (403, ''totp_required'') NoTeamData)
                   else ret (tid, uid, secret)))))"

definition requireTOTPCode :: "team_codec \<Rightarrow> string \<Rightarrow> string \<Rightarrow> ('r, 'z, unit) team_handler" where
  "requireTOTPCode T secret code =
     (if code = [] then cJSON (401, ''verify'') NoTeamData
      else if secret = [] then cJSON (400, ''error'') NoTeamData
      else tryE time_now (\<lambda>r. case r of
        Inl _ \<Rightarrow> cJSON (400, ''error'') NoTeamData
      | Inr now \<Rightarrow> if \<not> otp_valid T now code secret then cJSON (400, ''error'') NoTeamData else ret ()))"

section \<open>Reading the configuration\<close>

definition read_team :: "tables \<Rightarrow> int \<Rightarrow> teamExportTeam option" where
  "read_team d tid = map_option (\<lambda>r. \<lparr>et_name = name r, et_description = description r, et_color = color r, et_image = image r\<rparr>)
     (map_of (teams d) tid)"

text \<open>\<open>ORDER BY sort, id\<close>\<close>

definition read_categories :: "int \<Rightarrow> server_db \<Rightarrow> teamExportCategory list" where
  "read_categories tid d = map (\<lambda>(i, r). \<lparr>ec_ref = i, ec_name = cat_name r, ec_sort = cat_sort r\<rparr>)
     (sort_key (\<lambda>(i, r). cat_sort r) (sort_key fst (filter (\<lambda>(_, r). cat_team r = tid) (cats d))))"

text \<open>One key: the credential that cannot be read, or the key.\<close>

definition export_one_key :: "ciphers \<Rightarrow> string \<Rightarrow> int \<times> key_row \<Rightarrow> teamExportSkippedKey + teamExportKey" where
  "export_one_key C mk = (\<lambda>(i, r).
     (case encrypt_Decrypt C (k_content r) mk (KeyContentContext i) of
        Inl _ \<Rightarrow> Inl \<lparr>sk_id = i, sk_name = k_name r, sk_credential = ''ssh_key_content''\<rparr>
      | Inr content \<Rightarrow>
          let key = \<lparr>ek_ref = i, ek_name = k_name r, ek_content = content, ek_password = None\<rparr>;
              stored = (case k_password r of None \<Rightarrow> [] | Some p \<Rightarrow> p) in
          if stored = [] then Inr key
          else (case encrypt_Decrypt C stored mk (KeyPasswordContext i) of
             Inl _ \<Rightarrow> Inl \<lparr>sk_id = i, sk_name = k_name r, sk_credential = ''ssh_key_password''\<rparr>
           | Inr pw \<Rightarrow> Inr (key\<lparr>ek_password := Some pw\<rparr>))))"

fun export_keys_loop ::
  "ciphers \<Rightarrow> string \<Rightarrow> bool \<Rightarrow> (int \<times> key_row) list \<Rightarrow> team_err + teamExportKey list \<times> teamExportSkippedKey list" where
  "export_keys_loop C mk skip [] = Inr ([], [])"
| "export_keys_loop C mk skip (row # rows) =
     (case export_one_key C mk row of
        Inl bad \<Rightarrow>
          if \<not> skip then Inl (KeyCredential bad)
          else map_sum id (\<lambda>(ks, sk). (ks, bad # sk)) (export_keys_loop C mk skip rows)
      | Inr key \<Rightarrow> map_sum id (\<lambda>(ks, sk). (key # ks, sk)) (export_keys_loop C mk skip rows))"

definition team_keys :: "int \<Rightarrow> server_db \<Rightarrow> (int \<times> key_row) list" where
  "team_keys tid d = sort_key fst (filter (\<lambda>(_, r). k_team r = tid) (cred_keys d))"

definition exportKeys :: "int \<Rightarrow> bool \<Rightarrow> ('r, 'z, teamExportKey list \<times> teamExportSkippedKey list) team_io" where
  "exportKeys tid skip =
     bindE (orTeamErr (query_db (team_keys tid))) (\<lambda>rows.
     bindE (gets (\<lambda>s. export_keys_loop (hub_ciphers s) (hub_key s) skip rows)) lift_sum)"

definition exportPublicPage :: "int \<Rightarrow> ('r, 'z, public_page option) team_io" where
  "exportPublicPage tid = optional_row (\<lambda>d. map_of (public_pages d) tid)"

definition export_alert :: "string \<Rightarrow> int \<times> int \<Rightarrow> teamExportAlert" where
  "export_alert item = (\<lambda>(thr, dur). \<lparr>ea_item = item, ea_threshold = thr, ea_duration = dur\<rparr>)"

text \<open>The rules of a team or a server, keyed by it and the item.\<close>

definition read_alerts :: "team_codec \<Rightarrow> int \<Rightarrow> (int \<times> string, int \<times> int) table \<Rightarrow> teamExportAlert list" where
  "read_alerts T i rs = by_item T (map (\<lambda>((_, item), c). export_alert item c) (filter (\<lambda>((j, _), _). j = i) rs))"

definition no_details :: server_details where
  "no_details = \<lparr>sd_note = None, sd_provider = None, sd_cycle = None, sd_start_time = None, sd_end_time = None, sd_amount = None,
     sd_auto_renew = None, sd_bandwidth = None, sd_traffic = None, sd_traffic_type = None, sd_note_public = None\<rparr>"

definition export_server_row :: "int \<times> srv_row \<Rightarrow> teamExportServer" where
  "export_server_row = (\<lambda>(i, r).
     \<lparr>es_ref = i, es_category = srv_category r, es_type = srv_type r, es_name = srv_name r, es_monitor = srv_monitor r,
      es_terminal = srv_terminal r, es_public = Some (srv_public r), es_weight = srv_weight r,
      es_details = no_details, es_runtime = no_runtime, es_adv = no_adv, es_ssh = None, es_agent = None, es_enroll = None, es_alerts = []\<rparr>)"

text \<open>A row of \<open>server_info\<close> has both groups of columns.\<close>

definition read_info :: "int \<Rightarrow> server_db \<Rightarrow> (server_details \<times> server_runtime) option" where
  "read_info i d = (case (map_of (details d) i, map_of (runtime d) i) of (Some x, Some y) \<Rightarrow> Some (x, y) | _ \<Rightarrow> None)"

definition server_credential :: "teamExportServer \<Rightarrow> string \<Rightarrow> teamExportSkippedServer" where
  "server_credential server cred = \<lparr>ss_id = es_ref server, ss_name = es_name server, ss_credential = cred\<rparr>"

definition export_decrypt :: "teamExportServer \<Rightarrow> string \<Rightarrow> string \<Rightarrow> string \<Rightarrow> ('r, 'z, string) team_io" where
  "export_decrypt server cred c ctx =
     tryE (hub_decrypt c ctx) (\<lambda>r. case r of Inl _ \<Rightarrow> raise (ServerCredential (server_credential server cred)) | Inr p \<Rightarrow> ret p)"

definition export_ssh :: "ssh_row \<Rightarrow> string \<Rightarrow> teamExportSSH" where
  "export_ssh r pw = \<lparr>eh_address = ssh_address r, eh_port = ssh_port r, eh_username = ssh_username r, eh_key_ref = ssh_key_id r,
     eh_password = pw, eh_host_key = (case ssh_host_key r of None \<Rightarrow> [] | Some h \<Rightarrow> h)\<rparr>"

definition export_agent :: "agent_row \<Rightarrow> string \<Rightarrow> teamExportAgent" where
  "export_agent a privateKey = \<lparr>eg_uid = ag_uid a, eg_status = ag_status a, eg_ip = ag_ip a, eg_version = ag_version a,
     eg_public_key = ag_public_key a, eg_private_key = privateKey, eg_protocol = ag_protocol a, eg_host = ag_host a, eg_port = ag_port a\<rparr>"

definition exportServerConnection :: "teamExportServer \<Rightarrow> ('r, 'z, teamExportServer) team_io" where
  "exportServerConnection server =
     (let i = es_ref server in
      if es_type server = 0 then
        bindE (orTeamErr (query_db_row (\<lambda>d. map_of (sshs d) i))) (\<lambda>row.
        bindE (export_decrypt server ''ssh_password'' (ssh_password row) (SSHPasswordContext i)) (\<lambda>pw.
        ret (server\<lparr>es_ssh := Some (export_ssh row pw)\<rparr>)))
      else if es_type server = 1 \<or> es_type server = 2 then
        bindE (optional_row (\<lambda>d. map_of (agents d) i)) (\<lambda>found.
        bindE (case found of
             None \<Rightarrow> ret None
           | Some a \<Rightarrow>
               bindE (if es_type server = 1 then export_decrypt server ''active_agent_private_key'' (ag_private_key a) (AgentPrivateKeyContext i)
                      else ret []) (\<lambda>privateKey.
               ret (Some (export_agent a privateKey)))) (\<lambda>agent.
        bindE (optional_row (\<lambda>d. map_of (enrolls d) i)) (\<lambda>token.
        ret (server\<lparr>es_agent := agent, es_enroll := token\<rparr>))))
      else ret server)"

text \<open>One round of the loop: the server that is skipped, or the one that is exported.\<close>

definition export_one_server ::
  "team_codec \<Rightarrow> bool \<Rightarrow> int list \<Rightarrow> teamExportServer \<Rightarrow> ('r, 'z, teamExportSkippedServer + teamExportServer) team_io" where
  "export_one_server T skip unreadable server =
     (let i = es_ref server in
      bindE (optional_row (read_info i)) (\<lambda>info.
      bindE (optional_row (\<lambda>d. map_of (advanced d) i)) (\<lambda>adv.
      let server = server\<lparr>es_details := (case info of None \<Rightarrow> no_details | Some (x, _) \<Rightarrow> x),
            es_runtime := (case info of None \<Rightarrow> no_runtime | Some (_, y) \<Rightarrow> y),
            es_adv := (case adv of None \<Rightarrow> no_adv | Some x \<Rightarrow> x)\<rparr> in
      tryE (exportServerConnection server) (\<lambda>r. case r of
        Inl e \<Rightarrow> (case e of ServerCredential bad \<Rightarrow> if skip then ret (Inl bad) else raise e | _ \<Rightarrow> raise e)
      | Inr server \<Rightarrow>
          if (case es_ssh server of None \<Rightarrow> False | Some h \<Rightarrow> eh_key_ref h \<in> set unreadable)
          then ret (Inl (server_credential server ''ssh_key''))
          else bindE (orTeamErr (query_db (\<lambda>d. read_alerts T i (rules d)))) (\<lambda>alerts.
            ret (Inr (server\<lparr>es_alerts := alerts\<rparr>)))))))"

fun export_servers_loop ::
  "team_codec \<Rightarrow> bool \<Rightarrow> int list \<Rightarrow> teamExportServer list \<Rightarrow> ('r, 'z, teamExportServer list \<times> teamExportSkippedServer list) team_io" where
  "export_servers_loop T skip unreadable [] = ret ([], [])"
| "export_servers_loop T skip unreadable (server # servers) =
     bindE (export_one_server T skip unreadable server) (\<lambda>one.
     bindE (export_servers_loop T skip unreadable servers) (\<lambda>(ss, sk).
     ret (case one of Inl bad \<Rightarrow> (ss, bad # sk) | Inr x \<Rightarrow> (x # ss, sk))))"

definition team_srvs :: "int \<Rightarrow> server_db \<Rightarrow> (int \<times> srv_row) list" where
  "team_srvs tid d = sort_key fst (filter (\<lambda>(_, r). srv_team r = tid) (srvs d))"

definition exportServers ::
  "team_codec \<Rightarrow> int \<Rightarrow> bool \<Rightarrow> int list \<Rightarrow> ('r, 'z, teamExportServer list \<times> teamExportSkippedServer list) team_io" where
  "exportServers T tid skip unreadable =
     bindE (orTeamErr (query_db (\<lambda>d. map export_server_row (team_srvs tid d)))) (\<lambda>servers.
     export_servers_loop T skip unreadable servers)"

definition buildTeamExport :: "team_codec \<Rightarrow> int \<Rightarrow> bool \<Rightarrow> ('r, 'z, teamExportBundle) team_io" where
  "buildTeamExport T tid skip =
     bindE (orTeamErr time_now) (\<lambda>now.
     bindE (orTeamErr (query_row (\<lambda>d. read_team d tid))) (\<lambda>team.
     bindE (orTeamErr (query_db (read_categories tid))) (\<lambda>cs.
     bindE (exportKeys tid skip) (\<lambda>(ks, badKeys).
     bindE (orTeamErr (query_db (\<lambda>d. read_alerts T tid (team_rules d)))) (\<lambda>alerts.
     bindE (orTeamErr (query_db (\<lambda>d. map snd (filter (\<lambda>(t, _). t = tid) (notifs d))))) (\<lambda>ns.
     bindE (exportPublicPage tid) (\<lambda>page.
     bindE (exportServers T tid skip (map sk_id badKeys)) (\<lambda>(ss, badServers).
     ret \<lparr>eb_version = teamExportVersion, eb_exported_at = now, eb_skipped_servers = badServers, eb_skipped_keys = badKeys,
          eb_team = team, eb_categories = cs, eb_keys = ks, eb_alerts = alerts, eb_notifications = ns, eb_page = page,
          eb_servers = ss\<rparr>))))))))"

section \<open>The handler of an export\<close>

record teamExportAuthRequest =
  xr_code :: string
  xr_password :: string
  xr_skip :: "bool option"

definition shouldSkipUnreadableServers :: "teamExportAuthRequest \<Rightarrow> bool" where
  "shouldSkipUnreadableServers req = (case xr_skip req of None \<Rightarrow> True | Some b \<Rightarrow> b)"

text \<open>Two reads of the random source: the salt and the nonce.\<close>

definition hub_EncryptJSON :: "team_codec \<Rightarrow> string \<Rightarrow> teamExportBundle \<Rightarrow> (('r, 'z) netenv_scheme, export_crypto_err, EncryptedFile) io" where
  "hub_EncryptJSON T pw data = (\<lambda>s.
     (EncryptJSON (hub_ciphers s) (argon T) (entropy s (draws s)) (entropy s (Suc (draws s))) (marshal_bundle T) pw data,
      s\<lparr>draws := Suc (Suc (draws s))\<rparr>))"

definition export_audit :: "teamExportBundle \<Rightarrow> string" where
  "export_audit data =
     (if eb_skipped_servers data \<noteq> [] \<or> eb_skipped_keys data \<noteq> []
      then ''Export Team Configuration (encrypted; skipped '' @ itoa (int (length (eb_skipped_servers data))) @
        '' unreadable Servers and '' @ itoa (int (length (eb_skipped_keys data))) @ '' unreadable Keys)''
      else ''Export Team Configuration (encrypted)'')"

text \<open>What follows the checks of the request.\<close>

definition export_checked :: "team_codec \<Rightarrow> hub_request \<Rightarrow> int \<Rightarrow> int \<Rightarrow> teamExportAuthRequest \<Rightarrow> ('r, 'z, unit) team_handler" where
  "export_checked T rq tid uid req =
     tryE (buildTeamExport T tid (shouldSkipUnreadableServers req)) (\<lambda>r. case r of
       Inl e \<Rightarrow>
         (case e of
            ServerCredential bad \<Rightarrow> cJSON (409, ''unreadable_server_credential'') (UnreadableServer bad)
          | KeyCredential bad \<Rightarrow> cJSON (409, ''unreadable_key_credential'') (UnreadableKey bad)
          | _ \<Rightarrow> team_ErrorHandler)
     | Inr data \<Rightarrow>
         tryE (hub_EncryptJSON T (xr_password req) data) (\<lambda>r. case r of
           Inl _ \<Rightarrow> cJSON (400, ''invalid'') NoTeamData
         | Inr encrypted \<Rightarrow>
             bindE (LogAdd tid uid ''team'' (export_audit data) (hr_ip rq) (hr_ua rq) ''high'') (\<lambda>_.
             cJSON (200, ''ok'') (Exported encrypted (eb_skipped_servers data) (eb_skipped_keys data)))))"

definition exportTeam :: "team_codec \<Rightarrow> hub_request \<Rightarrow> teamExportAuthRequest option \<Rightarrow> ('r, 'z, unit) team_handler" where
  "exportTeam T rq bound =
     bindE (requireTeamOwnerAndTOTP rq) (\<lambda>(tid, uid, secret). case bound of
       None \<Rightarrow> cJSON (400, ''invalid'') NoTeamData
     | Some req \<Rightarrow>
         bindE (requireTOTPCode T secret (xr_code req)) (\<lambda>_.
         export_checked T rq tid uid req))"

end
