(* ===== verification/Team_Import.thy ===== *)
theory Team_Import
  imports Team_Export Alert_Config Notifications
begin

text \<open>
  Importing the configuration of a team: the second half of \<open>internal/app/api/team/export_import.go\<close>. The
  bundle is checked, then one transaction deletes what the team had and inserts what the bundle
  has under new identifiers, with credentials encrypted for the new rows.
\<close>

declare map_of_eq_Some_iff [simp del]

section \<open>Ed25519 keys in PEM: pkg/identity/keys.go\<close>

definition pem_key :: "string \<Rightarrow> gossh \<Rightarrow> string \<Rightarrow> string option" where
  "pem_key kind G data =
     (case pem_Decode G data of
        None \<Rightarrow> None
      | Some (block, rest) \<Rightarrow>
          if pb_type block \<noteq> kind then None
          else if length (pb_bytes block) \<noteq> 32 then None
          else if trim_space rest \<noteq> [] then None
          else Some (pb_bytes block))"

definition ParseEd25519PrivateKeyPEM :: "gossh \<Rightarrow> string \<Rightarrow> string option" where
  "ParseEd25519PrivateKeyPEM = pem_key ''PRIVATE KEY''"

definition ParseEd25519PublicKeyPEM :: "gossh \<Rightarrow> string \<Rightarrow> string option" where
  "ParseEd25519PublicKeyPEM = pem_key ''PUBLIC KEY''"

definition EncodeEd25519PublicKeyPEM :: "gossh \<Rightarrow> string \<Rightarrow> string option" where
  "EncodeEd25519PublicKeyPEM G key =
     (if length key \<noteq> 32 then None else Some (pem_EncodeToMemory G \<lparr>pb_type = ''PUBLIC KEY'', pb_bytes = key\<rparr>))"

section \<open>Checks of the bundle\<close>

text \<open>The names of SSH servers without a pinned host key.\<close>

fun inspectImportedSSHHostKeys :: "gossh \<Rightarrow> teamExportServer list \<Rightarrow> team_err + string list" where
  "inspectImportedSSHHostKeys G [] = Inr []"
| "inspectImportedSSHHostKeys G (server # xs) =
     (if es_type server \<noteq> 0 then inspectImportedSSHHostKeys G xs
      else case es_ssh server of
        None \<Rightarrow> Inl errInvalidTeamImport
      | Some ssh \<Rightarrow>
          if eh_host_key ssh = [] then map_sum id (Cons (es_name server)) (inspectImportedSSHHostKeys G xs)
          else (case NormalizeHostKey G (eh_host_key ssh) of
             Inl _ \<Rightarrow> Inl errInvalidTeamImport
           | Inr _ \<Rightarrow> inspectImportedSSHHostKeys G xs))"

definition normalize_agent :: "gossh \<Rightarrow> int \<Rightarrow> teamExportAgent \<Rightarrow> teamExportAgent option" where
  "normalize_agent G typ a =
     (let privateKey = trim_space (eg_private_key a) @ [CHR 0x0A];
          a = a\<lparr>eg_uid := trim_space (eg_uid a),
                eg_private_key := (if typ = 1 then privateKey else if typ = 2 then [] else eg_private_key a)\<rparr>;
          raw = trim_space (eg_public_key a) in
      if typ = 1 \<and> ParseEd25519PrivateKeyPEM G privateKey = None then None
      else if raw = [] then Some (a\<lparr>eg_public_key := []\<rparr>)
      else case ParseEd25519PublicKeyPEM G raw of
        None \<Rightarrow> None
      | Some key \<Rightarrow> map_option (\<lambda>pem. a\<lparr>eg_public_key := pem\<rparr>) (EncodeEd25519PublicKeyPEM G key))"

definition normalize_server_agent :: "gossh \<Rightarrow> teamExportServer \<Rightarrow> teamExportServer option" where
  "normalize_server_agent G server =
     (case es_agent server of
        None \<Rightarrow> Some server
      | Some a \<Rightarrow> map_option (\<lambda>b. server\<lparr>es_agent := Some b\<rparr>) (normalize_agent G (es_type server) a))"

definition normalizeImportedAgentKeys :: "gossh \<Rightarrow> teamExportServer list \<Rightarrow> team_err + teamExportServer list" where
  "normalizeImportedAgentKeys G xs =
     (let ns = map (normalize_server_agent G) xs in
      if None \<in> set ns then Inl errInvalidTeamImport else Inr (map the ns))"

text \<open>The identifiers of agents, each with the name of its server; or the first that appears twice.\<close>

fun bundle_uids :: "teamExportServer list \<Rightarrow> (string, string) table \<Rightarrow> teamImportAgentUIDConflict + (string, string) table" where
  "bundle_uids [] seen = Inr seen"
| "bundle_uids (server # xs) seen =
     (case es_agent server of
        None \<Rightarrow> bundle_uids xs seen
      | Some a \<Rightarrow>
          if eg_uid a = [] then bundle_uids xs seen
          else (case map_of seen (eg_uid a) of
             Some first \<Rightarrow> Inl \<lparr>uc_server = es_name server, uc_uid = eg_uid a, uc_source = ''bundle'', uc_conflicting = first\<rparr>
           | None \<Rightarrow> bundle_uids xs ((eg_uid a, es_name server) # seen)))"

definition btrim :: "string \<Rightarrow> string" where
  "btrim s = (let b = (\<lambda>c. c = CHR '' '') in rev (dropWhile b (rev (dropWhile b s))))"

definition foreign_uid :: "int \<Rightarrow> string list \<Rightarrow> server_db \<Rightarrow> string option" where
  "foreign_uid tid uids d =
     (case sort_key fst (filter (\<lambda>(i, a). btrim (ag_uid a) \<in> set uids \<and>
          (case map_of (srvs d) i of None \<Rightarrow> False | Some r \<Rightarrow> srv_team r \<noteq> tid)) (agents d)) of
        [] \<Rightarrow> None
      | (_, a) # _ \<Rightarrow> Some (btrim (ag_uid a)))"

definition preflightImportedAgentUIDs :: "int \<Rightarrow> teamExportServer list \<Rightarrow> ('r, 'z, unit) team_io" where
  "preflightImportedAgentUIDs tid xs =
     (case bundle_uids xs [] of
        Inl c \<Rightarrow> raise (UIDConflict c)
      | Inr seen \<Rightarrow>
          if seen = [] then ret ()
          else bindE (optional_row (foreign_uid tid (map fst seen))) (\<lambda>found. case found of
            None \<Rightarrow> ret ()
          | Some uid \<Rightarrow> raise (UIDConflict \<lparr>uc_server = (case map_of seen uid of None \<Rightarrow> [] | Some n \<Rightarrow> n), uc_uid = uid,
              uc_source = ''database'', uc_conflicting = []\<rparr>)))"

section \<open>Statements\<close>

definition team_server_ids :: "int \<Rightarrow> server_db \<Rightarrow> int list" where
  "team_server_ids tid d = map fst (filter (\<lambda>(_, r). srv_team r = tid) (srvs d))"

text \<open>Servers go with everything that refers to them.\<close>

definition delete_team_servers :: "int \<Rightarrow> server_db \<Rightarrow> server_db" where
  "delete_team_servers tid d = fold (delete_server tid) (team_server_ids tid d) d"

definition delete_team_categories :: "int \<Rightarrow> server_db \<Rightarrow> server_db option" where
  "delete_team_categories tid d =
     (if list_ex (\<lambda>(_, r). srv_team r = tid) (srvs d) then None
      else Some (d\<lparr>cats := delete_where (\<lambda>_ r. cat_team r = tid) (cats d)\<rparr>))"

definition clear_statements :: "int \<Rightarrow> (server_db \<Rightarrow> server_db option) list" where
  "clear_statements tid =
     [\<lambda>d. Some (delete_team_servers tid d),
      \<lambda>d. Some (d\<lparr>cred_keys := delete_where (\<lambda>_ r. k_team r = tid) (cred_keys d)\<rparr>),
      delete_team_categories tid,
      \<lambda>d. Some (d\<lparr>team_rules := delete_where (\<lambda>(t, _) _. t = tid) (team_rules d)\<rparr>),
      \<lambda>d. Some (d\<lparr>notifs := filter (\<lambda>(t, _). t \<noteq> tid) (notifs d)\<rparr>),
      \<lambda>d. Some (d\<lparr>public_pages := AList.delete tid (public_pages d)\<rparr>)]"

definition clearTeamConfig :: "int \<Rightarrow> ('r, 'z, unit) team_io" where
  "clearTeamConfig tid = forE (clear_statements tid) (\<lambda>st. orTeamErr (exec_db st))"

text \<open>A loop that builds the map from old to new identifiers; later entries win.\<close>

fun map_refs :: "'a list \<Rightarrow> ('a \<Rightarrow> int) \<Rightarrow> ('a \<Rightarrow> ('s, 'e, int) io) \<Rightarrow> (int, int) table \<Rightarrow> ('s, 'e, (int, int) table) io" where
  "map_refs [] ref f m = ret m"
| "map_refs (x # xs) ref f m = bindE (f x) (\<lambda>i. map_refs xs ref f (AList.update (ref x) i m))"

definition import_key :: "int \<Rightarrow> teamExportKey \<Rightarrow> ('r, 'z, int) team_io" where
  "import_key tid key =
     bindE (orTeamErr (exec_db_val (insert_key tid (ek_name key)))) (\<lambda>newID.
     bindE (orTeamErr (hub_encrypt (ek_content key) (KeyContentContext newID))) (\<lambda>content.
     bindE (case ek_password key of None \<Rightarrow> ret [] | Some p \<Rightarrow> orTeamErr (hub_encrypt p (KeyPasswordContext newID))) (\<lambda>pw.
     bindE (orTeamErr (exec_db (\<lambda>d. Some (set_key newID content (nullableCiphertext pw) d)))) (\<lambda>_.
     ret newID))))"

definition importKeys :: "int \<Rightarrow> teamExportKey list \<Rightarrow> ('r, 'z, (int, int) table) team_io" where
  "importKeys tid ks = map_refs ks ek_ref (import_key tid) []"

definition insert_category_sorted :: "int \<Rightarrow> string \<Rightarrow> int \<Rightarrow> server_db \<Rightarrow> (server_db \<times> int) option" where
  "insert_category_sorted tid nm srt d =
     (if tid \<notin> set (known_teams d) \<or> list_ex (\<lambda>(_, r). cat_named tid nm r) (cats d) \<or> \<not> fits 32 srt then None
      else Some (d\<lparr>cats := (cat_seq d + 1, \<lparr>cat_team = tid, cat_name = nm, cat_sort = srt\<rparr>) # cats d, cat_seq := cat_seq d + 1\<rparr>,
        cat_seq d + 1))"

definition importCategories :: "int \<Rightarrow> teamExportCategory list \<Rightarrow> ('r, 'z, (int, int) table) team_io" where
  "importCategories tid cs =
     map_refs (if cs = [] then [\<lparr>ec_ref = 0, ec_name = ''Default'', ec_sort = 0\<rparr>] else cs) ec_ref
       (\<lambda>c. orTeamErr (exec_db_val (insert_category_sorted tid (ec_name c) (ec_sort c)))) []"

text \<open>\<open>INSERT\<close> of a rule: the item is unique and the values are in bounds.\<close>

definition insert_team_rule :: "int \<Rightarrow> teamExportAlert \<Rightarrow> server_db \<Rightarrow> server_db option" where
  "insert_team_rule tid a d =
     (if tid \<notin> set (known_teams d) \<or> has_key (team_rules d) (tid, ea_item a) \<or> \<not> config_bounds (ea_item a) (ea_threshold a) (ea_duration a) \<or>
         \<not> fits 32 (ea_threshold a) \<or> \<not> fits 32 (ea_duration a) then None
      else Some (d\<lparr>team_rules := ((tid, ea_item a), (ea_threshold a, ea_duration a)) # team_rules d\<rparr>))"

definition insert_rule :: "int \<Rightarrow> teamExportAlert \<Rightarrow> server_db \<Rightarrow> server_db option" where
  "insert_rule sid a d =
     (if \<not> has_key (srvs d) sid \<or> has_key (rules d) (sid, ea_item a) \<or> \<not> config_bounds (ea_item a) (ea_threshold a) (ea_duration a) \<or>
         \<not> fits 32 (ea_threshold a) \<or> \<not> fits 32 (ea_duration a) then None
      else Some (d\<lparr>rules := ((sid, ea_item a), (ea_threshold a, ea_duration a)) # rules d\<rparr>))"

definition importTeamAlerts :: "int \<Rightarrow> teamExportAlert list \<Rightarrow> ('r, 'z, unit) team_io" where
  "importTeamAlerts tid al = forE al (\<lambda>a. orTeamErr (exec_db (insert_team_rule tid a)))"

definition insert_notification :: "int \<Rightarrow> TeamNotification \<Rightarrow> server_db \<Rightarrow> server_db option" where
  "insert_notification tid n d =
     (if tid \<notin> set (known_teams d) then None else Some (d\<lparr>notifs := notifs d @ [(tid, Module n, Target n)]\<rparr>))"

definition insertNotifications :: "int \<Rightarrow> TeamNotification list \<Rightarrow> ('r, 'z, unit) team_io" where
  "insertNotifications tid ns = forE ns (\<lambda>n. orTeamErr (exec_db (insert_notification tid n)))"

definition exportStr :: "string option \<Rightarrow> string" where
  "exportStr v = (case v of None \<Rightarrow> [] | Some s \<Rightarrow> s)"

definition insert_page :: "int \<Rightarrow> public_page \<Rightarrow> server_db \<Rightarrow> server_db option" where
  "insert_page tid p d =
     (if tid \<notin> set (known_teams d) \<or> has_key (public_pages d) tid \<or> page_conflict pp_name tid p d \<or> page_conflict pp_domain tid p d then None
      else Some (d\<lparr>public_pages := (tid, p) # public_pages d\<rparr>))"

text \<open>The checks are those of the settings page.\<close>

definition page_update :: "public_page \<Rightarrow> publicPageUpdateRequest" where
  "page_update p = \<lparr>pu_enabled = pp_enabled p, pu_name = exportStr (pp_name p), pu_domain = exportStr (pp_domain p),
     pu_title = exportStr (pp_title p), pu_description = exportStr (pp_description p), pu_css = exportStr (pp_css p)\<rparr>"

definition importPublicPage ::
  "int \<Rightarrow> public_page option \<Rightarrow> (('r, 'z) siteenv_scheme, team_err, unit) io" where
  "importPublicPage tid page =
     (case page of
        None \<Rightarrow> ret ()
      | Some p \<Rightarrow>
          bindE (gets (\<lambda>s. normalize_page (url_host s) (conf_domain s) (page_update p))) (\<lambda>checked. case checked of
            None \<Rightarrow> raise (OtherTeamErr ErrConstraint)
          | Some q \<Rightarrow> orTeamErr (exec_db (insert_page tid q))))"

section \<open>Servers of the bundle\<close>

definition normalizeImportedServerInfo :: "int \<Rightarrow> server_runtime \<Rightarrow> server_runtime" where
  "normalizeImportedServerInfo typ r = (if typ = 2 then no_runtime else r)"

definition normalizeImportedServerAdvancedInfo :: "int \<Rightarrow> server_adv \<Rightarrow> server_adv" where
  "normalizeImportedServerAdvancedInfo typ a = (if typ = 2 then no_adv else a)"

definition importServerInfo :: "int \<Rightarrow> teamExportServer \<Rightarrow> ('r, 'z, unit) team_io" where
  "importServerInfo sid x = orTeamErr (exec_db (insert_details sid (es_details x) (normalizeImportedServerInfo (es_type x) (es_runtime x))))"

definition importServerAdvancedInfo :: "int \<Rightarrow> teamExportServer \<Rightarrow> ('r, 'z, unit) team_io" where
  "importServerAdvancedInfo sid x = orTeamErr (exec_db (insert_advanced sid (normalizeImportedServerAdvancedInfo (es_type x) (es_adv x))))"

definition normalizeImportedAgentProtocol :: "int \<Rightarrow> teamExportAgent \<Rightarrow> int" where
  "normalizeImportedAgentProtocol typ a =
     (if trim_space (eg_public_key a) \<noteq> [] then 2
      else if typ = 1 \<and> (eg_protocol a = 0 \<or> eg_protocol a = 1) then 1
      else 2)"

text \<open>The address and the version an agent reported.\<close>

definition normalizeImportedAgentRuntime :: "int \<Rightarrow> teamExportAgent \<Rightarrow> string \<times> string" where
  "normalizeImportedAgentRuntime typ a = (if typ = 2 then ([], []) else (eg_ip a, eg_version a))"

definition imported_agent :: "int \<Rightarrow> teamExportAgent \<Rightarrow> string \<Rightarrow> agent_row" where
  "imported_agent typ a privateKey =
     \<lparr>ag_uid = eg_uid a, ag_status = eg_status a, ag_ip = fst (normalizeImportedAgentRuntime typ a),
      ag_version = snd (normalizeImportedAgentRuntime typ a), ag_public_key = eg_public_key a, ag_private_key = privateKey,
      ag_protocol = normalizeImportedAgentProtocol typ a, ag_host = eg_host a, ag_port = eg_port a\<rparr>"

datatype agent_stored = AgentStored | AgentUIDTaken

text \<open>The index \<open>IDX_AAU\<close> skips empty identifiers.\<close>

definition import_agent :: "int \<Rightarrow> agent_row \<Rightarrow> server_db \<Rightarrow> (server_db \<times> agent_stored) option" where
  "import_agent sid a d =
     (if has_key (agents d) sid \<or> \<not> has_key (srvs d) sid \<or> \<not> fits 32 (ag_port a) \<or> \<not> fits 16 (ag_status a) \<or>
         ag_protocol a \<notin> {1, 2} \<or> (ag_protocol a = 1 \<and> btrim (ag_public_key a) \<noteq> []) then None
      else if ag_uid a \<noteq> [] \<and> uid_taken (ag_uid a) d then Some (d, AgentUIDTaken)
      else Some (d\<lparr>agents := (sid, a) # agents d\<rparr>, AgentStored))"

definition import_token :: "int \<Rightarrow> enroll_row \<Rightarrow> server_db \<Rightarrow> server_db option" where
  "import_token sid r d =
     (if has_key (enrolls d) sid \<or> \<not> has_key (srvs d) sid then None else Some (d\<lparr>enrolls := (sid, r) # enrolls d\<rparr>))"

definition lookup_ref :: "(int, int) table \<Rightarrow> int \<Rightarrow> int" where
  "lookup_ref m i = (case map_of m i of None \<Rightarrow> 0 | Some j \<Rightarrow> j)"

definition import_ssh :: "gossh \<Rightarrow> int \<Rightarrow> (int, int) table \<Rightarrow> bool \<Rightarrow> teamExportSSH \<Rightarrow> ('r, 'z, unit) team_io" where
  "import_ssh G sid keyMap trust h =
     (if eh_host_key h = [] \<and> \<not> trust then raise errInvalidTeamImport
      else
        bindE (orTeamErr (hub_encrypt (eh_password h) (SSHPasswordContext sid))) (\<lambda>pw.
        bindE (if eh_host_key h = [] then ret None
               else case NormalizeHostKey G (eh_host_key h) of Inl _ \<Rightarrow> raise errInvalidTeamImport | Inr k \<Rightarrow> ret (Some k)) (\<lambda>hostKey.
        orTeamErr (exec_db (insert_ssh sid
          \<lparr>ssh_address = eh_address h, ssh_port = eh_port h, ssh_username = eh_username h, ssh_key_id = lookup_ref keyMap (eh_key_ref h),
           ssh_password = pw, ssh_host_key = hostKey, ssh_trust_legacy = (eh_host_key h = [])\<rparr>)))))"

definition import_agent_row :: "int \<Rightarrow> teamExportServer \<Rightarrow> teamExportAgent \<Rightarrow> ('r, 'z, unit) team_io" where
  "import_agent_row sid x a =
     bindE (if es_type x = 1 then orTeamErr (hub_encrypt (eg_private_key a) (AgentPrivateKeyContext sid)) else ret []) (\<lambda>privateKey.
     bindE (orTeamErr (exec_db_val (import_agent sid (imported_agent (es_type x) a privateKey)))) (\<lambda>stored.
     if stored = AgentUIDTaken
     then raise (UIDConflict \<lparr>uc_server = es_name x, uc_uid = eg_uid a, uc_source = ''database'', uc_conflicting = []\<rparr>)
     else ret ()))"

definition importServerConnection :: "gossh \<Rightarrow> int \<Rightarrow> teamExportServer \<Rightarrow> (int, int) table \<Rightarrow> bool \<Rightarrow> ('r, 'z, unit) team_io" where
  "importServerConnection G sid x keyMap trust =
     (if es_type x = 0 then
        (case es_ssh x of None \<Rightarrow> raise errInvalidTeamImport | Some h \<Rightarrow> import_ssh G sid keyMap trust h)
      else if es_type x = 1 \<or> es_type x = 2 then
        bindE (case es_agent x of None \<Rightarrow> ret () | Some a \<Rightarrow> import_agent_row sid x a) (\<lambda>_.
        case es_enroll x of None \<Rightarrow> ret () | Some r \<Rightarrow> orTeamErr (exec_db (import_token sid r)))
      else ret ())"

definition imported_server :: "int \<Rightarrow> (int, int) table \<Rightarrow> int \<Rightarrow> teamExportServer \<Rightarrow> srv_row" where
  "imported_server tid categoryMap dflt x =
     \<lparr>srv_team = tid, srv_name = es_name x, srv_type = es_type x,
      srv_category = (if lookup_ref categoryMap (es_category x) = 0 then dflt else lookup_ref categoryMap (es_category x)),
      srv_monitor = es_monitor x, srv_terminal = es_terminal x,
      srv_public = (case es_public x of None \<Rightarrow> True | Some b \<Rightarrow> b), srv_weight = es_weight x\<rparr>"

definition import_server ::
  "gossh \<Rightarrow> int \<Rightarrow> (int, int) table \<Rightarrow> int \<Rightarrow> (int, int) table \<Rightarrow> bool \<Rightarrow> teamExportServer \<Rightarrow> ('r, 'z, int) team_io" where
  "import_server G tid categoryMap dflt keyMap trust x =
     bindE (orTeamErr (exec_db_val (insert_server (imported_server tid categoryMap dflt x)))) (\<lambda>sid.
     bindE (importServerInfo sid x) (\<lambda>_.
     bindE (importServerAdvancedInfo sid x) (\<lambda>_.
     bindE (importServerConnection G sid x keyMap trust) (\<lambda>_.
     bindE (forE (es_alerts x) (\<lambda>a. orTeamErr (exec_db (insert_rule sid a)))) (\<lambda>_.
     ret sid)))))"

fun import_loop :: "('a \<Rightarrow> ('s, 'e, 'b) io) \<Rightarrow> 'a list \<Rightarrow> ('s, 'e, 'b list) io" where
  "import_loop f [] = ret []"
| "import_loop f (x # xs) = bindE (f x) (\<lambda>y. bindE (import_loop f xs) (\<lambda>ys. ret (y # ys)))"

definition importServers ::
  "team_codec \<Rightarrow> gossh \<Rightarrow> int \<Rightarrow> teamExportServer list \<Rightarrow> (int, int) table \<Rightarrow> (int, int) table \<Rightarrow> bool \<Rightarrow> ('r, 'z, int list) team_io" where
  "importServers T G tid xs categoryMap keyMap trust =
     (let dflt = (if categoryMap = [] then 0 else range_first T (map snd categoryMap)) in
      if dflt = 0 then raise (OtherTeamErr ErrConstraint)
      else import_loop (import_server G tid categoryMap dflt keyMap trust) xs)"

section \<open>The transaction\<close>

text \<open>A transaction over all tables; the sequences of the identifiers are not rolled back.\<close>

definition team_transaction :: "('z srvenv_scheme, team_err, 'a) io \<Rightarrow> ('z srvenv_scheme, team_err, 'a) io" where
  "team_transaction body = (\<lambda>s. case next_call s of (oc, t) \<Rightarrow>
     (if oc \<noteq> Done then (Inl (OtherTeamErr ErrDb), t)
      else case body t of
        (Inl e, u) \<Rightarrow> (Inl e, u\<lparr>db := roll_back (db t) (db u), tabs := tabs t\<rparr>)
      | (Inr x, u) \<Rightarrow> (case next_call u of (oc', v) \<Rightarrow>
          (case oc' of
             Done \<Rightarrow> (Inr x, v)
           | Failed \<Rightarrow> (Inl (OtherTeamErr ErrDb), v\<lparr>db := roll_back (db t) (db u), tabs := tabs t\<rparr>)
           | Lost \<Rightarrow> (Inl (OtherTeamErr ErrDb), v)))))"

definition update_team :: "int \<Rightarrow> teamExportTeam \<Rightarrow> tables \<Rightarrow> tables" where
  "update_team tid et d = d\<lparr>teams := AList.map_entry tid (\<lambda>r. r\<lparr>name := et_name et, description := et_description et,
     color := et_color et, image := et_image et\<rparr>) (teams d)\<rparr>"

definition import_statements ::
  "team_codec \<Rightarrow> gossh \<Rightarrow> int \<Rightarrow> teamExportBundle \<Rightarrow> teamExportServer list \<Rightarrow> TeamNotification list \<Rightarrow> bool \<Rightarrow>
   (('r, 'z) siteenv_scheme, team_err, int list \<times> int list) io" where
  "import_statements T G tid data xs ns trust =
     bindE (orTeamErr (query_db (team_server_ids tid))) (\<lambda>oldServerIDs.
     bindE (orTeamErr (exec_sql ErrDb (\<lambda>d. Some (update_team tid (eb_team data) d)))) (\<lambda>_.
     bindE (clearTeamConfig tid) (\<lambda>_.
     bindE (importKeys tid (eb_keys data)) (\<lambda>keyMap.
     bindE (importCategories tid (eb_categories data)) (\<lambda>categoryMap.
     bindE (importTeamAlerts tid (eb_alerts data)) (\<lambda>_.
     bindE (insertNotifications tid ns) (\<lambda>_.
     bindE (importPublicPage tid (eb_page data)) (\<lambda>_.
     bindE (importServers T G tid xs categoryMap keyMap trust) (\<lambda>newServers.
     ret (oldServerIDs, newServers))))))))))"

definition bundle_notifications :: "teamExportBundle \<Rightarrow> TeamNotification list" where
  "bundle_notifications data = map (\<lambda>(m, t). \<lparr>Module = m, Target = t\<rparr>) (eb_notifications data)"

definition applyTeamImport ::
  "team_codec \<Rightarrow> gossh \<Rightarrow> parsers \<Rightarrow> int \<Rightarrow> teamExportBundle \<Rightarrow> bool \<Rightarrow> (('r, 'z) siteenv_scheme, team_err, int list \<times> int list) io" where
  "applyTeamImport T G P tid data trust =
     (case inspectImportedSSHHostKeys G (eb_servers data) of
        Inl e \<Rightarrow> raise e
      | Inr legacy \<Rightarrow>
          if legacy \<noteq> [] \<and> \<not> trust then raise errInvalidTeamImport
          else case normalizeImportedAgentKeys G (eb_servers data) of
            Inl e \<Rightarrow> raise e
          | Inr xs \<Rightarrow>
              (case NormalizeEntries P (bundle_notifications data) of
                 None \<Rightarrow> raise ErrInvalidConfiguration
               | Some ns \<Rightarrow>
                   bindE (preflightImportedAgentUIDs tid xs) (\<lambda>_.
                   team_transaction (import_statements T G tid data xs ns trust))))"

section \<open>The handler of an import\<close>

record teamImportRequest =
  ir_code :: string
  ir_password :: string
  ir_encrypted :: "EncryptedFile option"
  ir_data :: string
  ir_trust :: bool

definition hasJSON :: "string \<Rightarrow> bool" where
  "hasJSON raw \<longleftrightarrow> trim_space raw \<noteq> [] \<and> trim_space raw \<noteq> ''null''"

definition decodeTeamImportBundle :: "team_codec \<Rightarrow> ciphers \<Rightarrow> teamImportRequest \<Rightarrow> teamExportBundle option" where
  "decodeTeamImportBundle T C req =
     (if hasJSON (ir_data req) then unmarshal_bundle T (ir_data req)
      else case DecryptJSON C (argon T) (unmarshal_bundle T) (ir_password req) (ir_encrypted req) of
        Inl _ \<Rightarrow> None | Inr b \<Rightarrow> Some b)"

definition silent :: "('s, 'e, 'a) io \<Rightarrow> ('s, 'f, unit) io" where
  "silent m = tryE m (\<lambda>_. ret ())"

text \<open>After the commit: the cache of public hosts, the status points of old and new servers, the audit log.\<close>

fun clear_status :: "int list \<Rightarrow> ('r, 'z, unit) team_handler \<Rightarrow> ('r, 'z, unit) team_handler" where
  "clear_status [] k = k"
| "clear_status (i # is) k = tryE (RemoveServerStatus i) (\<lambda>r. case r of Inl _ \<Rightarrow> team_ErrorHandler | Inr _ \<Rightarrow> clear_status is k)"

definition import_finish :: "hub_request \<Rightarrow> int \<Rightarrow> int list \<Rightarrow> ('r, 'z, unit) team_handler" where
  "import_finish rq tid ids =
     tryE Refresh (\<lambda>r. case r of
       Inl _ \<Rightarrow> team_ErrorHandler
     | Inr _ \<Rightarrow>
         clear_status ids (
           bindE (LogAdd tid (hr_uid rq) ''team'' ''Import Team Configuration'' (hr_ip rq) (hr_ua rq) ''high'') (\<lambda>_.
           cJSON (200, ''ok'') NoTeamData)))"

text \<open>The new servers are connected when the handler returns, whatever it returns.\<close>

definition import_applied :: "hub_request \<Rightarrow> int \<Rightarrow> int list \<times> int list \<Rightarrow> ('r, 'z, unit) team_handler" where
  "import_applied rq tid = (\<lambda>(oldServers, newServers).
     bindE (forE oldServers (\<lambda>i. silent (StopServer i))) (\<lambda>_.
     tryE (import_finish rq tid (oldServers @ newServers)) (\<lambda>r.
     bindE (forE newServers (\<lambda>i. silent (ReconcileServer i))) (\<lambda>_.
     lift_sum r))))"

definition import_bundle ::
  "team_codec \<Rightarrow> gossh \<Rightarrow> parsers \<Rightarrow> hub_request \<Rightarrow> int \<Rightarrow> bool \<Rightarrow> teamExportBundle \<Rightarrow> ('r, 'z, unit) team_handler" where
  "import_bundle T G P rq tid trust data =
     (if eb_version data \<noteq> teamExportVersion then cJSON (400, ''invalid'') NoTeamData
      else case inspectImportedSSHHostKeys G (eb_servers data) of
        Inl _ \<Rightarrow> cJSON (400, ''invalid'') NoTeamData
      | Inr legacy \<Rightarrow>
          if legacy \<noteq> [] \<and> \<not> trust then cJSON (409, ''legacy_ssh_host_key_confirmation_required'') (LegacyServers legacy)
          else tryE (applyTeamImport T G P tid data trust) (\<lambda>r. case r of
            Inr ids \<Rightarrow> import_applied rq tid ids
          | Inl e \<Rightarrow>
              (case e of
                 UIDConflict c \<Rightarrow> cJSON (409, ''agent_uid_conflict'') (ConflictingUID c)
               | ErrInvalidConfiguration \<Rightarrow> cJSON (400, ''invalid'') NoTeamData
               | errInvalidTeamImport \<Rightarrow> cJSON (400, ''invalid'') NoTeamData
               | _ \<Rightarrow> team_ErrorHandler)))"

definition importTeam ::
  "team_codec \<Rightarrow> gossh \<Rightarrow> parsers \<Rightarrow> hub_request \<Rightarrow> teamImportRequest option \<Rightarrow> ('r, 'z, unit) team_handler" where
  "importTeam T G P rq bound =
     bindE (requireTeamOwnerAndTOTP rq) (\<lambda>(tid, _, secret). case bound of
       None \<Rightarrow> cJSON (400, ''invalid'') NoTeamData
     | Some req \<Rightarrow>
         bindE (requireTOTPCode T secret (ir_code req)) (\<lambda>_.
         bindE (gets (\<lambda>s. decodeTeamImportBundle T (hub_ciphers s) req)) (\<lambda>decoded. case decoded of
           None \<Rightarrow> cJSON (400, ''invalid'') NoTeamData
         | Some data \<Rightarrow> import_bundle T G P rq tid (ir_trust req) data)))"

end
