(* ===== verification/Team_Transfer.thy ===== *)
theory Team_Transfer
  imports Team_Import
begin

text \<open>
  What exporting and importing a team guarantee, and what they do not: an import touches the rows of
  its own team only and changes nothing when it fails, an exported configuration imported again is the same
  configuration, and a refused one-time password does not stop either of them.
\<close>

declare map_of_eq_Some_iff [simp del]

section \<open>An import stays within its team\<close>

lemma scoped_orTeamErr: "scoped tid P m Q \<Longrightarrow> scoped tid P (orTeamErr m) Q"
  unfolding orTeamErr_def by (rule scoped_try) (auto intro: scoped_ret scoped_raise)

lemma quiet_orTeamErr [quiet_rules]: "quiet m \<Longrightarrow> quiet (orTeamErr m)"
  unfolding orTeamErr_def by (intro quiet_rules)

lemma quiet_optional_row [quiet_rules]: "quiet (optional_row q)"
  unfolding optional_row_def by (intro quiet_rules)

text \<open>One statement of the import.\<close>

lemma scoped_st: "(\<And>d e. tidy d \<Longrightarrow> f d = Some e \<Longrightarrow> tidy e \<and> leaves tid d e) \<Longrightarrow> scoped tid P (orTeamErr (exec_db f)) (\<lambda>_ _. True)"
  by (intro scoped_orTeamErr scoped_stmt)

lemma delete_server_leaves: "tidy d \<Longrightarrow> tidy (delete_server tid i d) \<and> leaves tid d (delete_server tid i d)"
proof (cases "server_in_team d tid i")
  case True
  with stmt_delete_server [of tid i] show "tidy d \<Longrightarrow> ?thesis" by (auto simp: stmt_def dest: server_in_team_mine)
qed (simp add: delete_server_def)

lemma fold_delete_leaves: "tidy d \<Longrightarrow> tidy (fold (delete_server tid) is d) \<and> leaves tid d (fold (delete_server tid) is d)"
proof (induction "is" arbitrary: d)
  case (Cons i "is")
  from delete_server_leaves [OF Cons.prems] Cons.IH [of "delete_server tid i d"] show ?case by (auto intro: leaves_trans)
qed simp

text \<open>A change of the alert rules, the notifications or the public page of the team.\<close>

lemma rest_leaves:
  assumes "tidy d" "foreign_rest tid rs ns ps = foreign_rest tid (team_rules d) (notifs d) (public_pages d)"
  shows "tidy (d\<lparr>team_rules := rs, notifs := ns, public_pages := ps\<rparr>) \<and> leaves tid d (d\<lparr>team_rules := rs, notifs := ns, public_pages := ps\<rparr>)"
  using assms by (auto simp: tidy_def leaves_def foreign_server_def foreign_key_def foreign_category_def fun_eq_iff split: option.splits)

lemma map_of_delete_first: "map_of (delete_where (\<lambda>(t, _) _. t = tid) xs) (u, item) = (if u = tid then None else map_of xs (u, item))"
  by (rule map_of_delete_rules)

lemma clear_leaves:
  assumes "tidy d" "f \<in> set (clear_statements tid)" "f d = Some e" and kc: "keyed (cats d)"
  shows "tidy e \<and> leaves tid d e"
proof -
  have k: "keyed (cred_keys d)" and b: "\<And>i. has_key (cred_keys d) i \<Longrightarrow> i \<le> key_seq d" "\<And>i. has_key (cats d) i \<Longrightarrow> i \<le> cat_seq d"
    using assms(1) by (auto simp: tidy_def)
  let ?k = "delete_where (\<lambda>_ r. k_team r = tid) (cred_keys d)" and ?c = "delete_where (\<lambda>_ r. cat_team r = tid) (cats d)"
  consider "e = delete_team_servers tid d" | "e = d\<lparr>cred_keys := ?k\<rparr>" | "e = d\<lparr>cats := ?c\<rparr>"
    | rs ns ps where "e = d\<lparr>team_rules := rs, notifs := ns, public_pages := ps\<rparr>"
        "foreign_rest tid rs ns ps = foreign_rest tid (team_rules d) (notifs d) (public_pages d)"
  proof -
    have 1: "foreign_rest tid (delete_where (\<lambda>(t, _) _. t = tid) (team_rules d)) (notifs d) (public_pages d) = foreign_rest tid (team_rules d) (notifs d) (public_pages d)"
      by (auto simp: foreign_rest_def map_of_delete_first fun_eq_iff)
    have 2: "foreign_rest tid (team_rules d) (filter (\<lambda>(t, _). t \<noteq> tid) (notifs d)) (public_pages d) = foreign_rest tid (team_rules d) (notifs d) (public_pages d)"
      by (simp add: foreign_rest_def)
    have 3: "foreign_rest tid (team_rules d) (notifs d) (AList.delete tid (public_pages d)) = foreign_rest tid (team_rules d) (notifs d) (public_pages d)"
      by (auto simp: foreign_rest_def AList.delete_conv' fun_eq_iff)
    show thesis using assms(2,3) that(1-3) that(4) [OF _ 1] that(4) [OF _ 2] that(4) [OF _ 3]
      by (auto simp: clear_statements_def delete_team_categories_def split: if_splits)
  qed
  then show ?thesis
  proof cases
    case 1
    with fold_delete_leaves [OF assms(1)] show ?thesis by (simp add: delete_team_servers_def)
  next
    case 2
    have "has_key ?k j \<Longrightarrow> j \<le> key_seq d" for j using b(1) by (auto simp: has_key_delete_where [OF k] dest: has_keyI)
    moreover have "foreign_key tid (d\<lparr>cred_keys := ?k\<rparr>) j = foreign_key tid d j" for j
      by (auto simp: foreign_key_def map_of_delete_where [OF k] split: option.split)
    ultimately show ?thesis using keys_leaves [OF assms(1) order_refl, of ?k tid] k 2 by simp
  next
    case 3
    have "has_key ?c j \<Longrightarrow> j \<le> cat_seq d" for j using b(2) by (auto simp: has_key_delete_where [OF kc] dest: has_keyI)
    moreover have "foreign_category tid (d\<lparr>cats := ?c\<rparr>) j = foreign_category tid d j" for j
      by (auto simp: foreign_category_def map_of_delete_where [OF kc] split: option.split)
    ultimately show ?thesis using cats_leaves [OF assms(1) order_refl, of ?c tid] 3 by simp
  next
    case 4
    with rest_leaves [OF assms(1)] show ?thesis by simp
  qed
qed

lemma clear_keyed: "f \<in> set (clear_statements tid) \<Longrightarrow> f d = Some e \<Longrightarrow> keyed (cats d) \<Longrightarrow> keyed (cats e)"
proof -
  have "cats (fold (delete_server tid) is d) = cats d" for "is" d by (induction "is" arbitrary: d) (simp_all add: delete_server_def)
  then show "f \<in> set (clear_statements tid) \<Longrightarrow> f d = Some e \<Longrightarrow> keyed (cats d) \<Longrightarrow> keyed (cats e)"
    by (auto simp: clear_statements_def delete_team_categories_def delete_team_servers_def split: if_splits)
qed

lemma scoped_statements:
  assumes "\<And>f d e. f \<in> set fs \<Longrightarrow> tidy d \<Longrightarrow> P d \<Longrightarrow> f d = Some e \<Longrightarrow> tidy e \<and> leaves tid d e \<and> P e"
  shows "scoped tid P (forE fs (\<lambda>f. orTeamErr (exec_db f)) :: ('r, 'z, unit) team_io) (\<lambda>_. P)"
  using assms
proof (induction fs)
  case (Cons f fs)
  from Cons.prems have "stmt tid P f" by (auto simp: stmt_def)
  then have 1: "scoped tid P (orTeamErr (exec_db f) :: ('r, 'z, unit) team_io) (\<lambda>_. P)" by (intro scoped_orTeamErr scoped_exec)
  have 2: "scoped tid P (forE fs (\<lambda>f. orTeamErr (exec_db f)) :: ('r, 'z, unit) team_io) (\<lambda>_. P)" by (rule Cons.IH) (use Cons.prems in auto)
  show ?case unfolding forE.simps by (rule scoped_bind [OF 1 2])
qed (auto intro: scoped_ret)

lemma scoped_clear: "scoped tid (\<lambda>d. keyed (cats d)) (clearTeamConfig tid) (\<lambda>_ _. True)"
  unfolding clearTeamConfig_def by (rule scoped_true, rule scoped_statements) (use clear_leaves clear_keyed in metis)

lemma scoped_map_refs: "(\<And>x. scoped tid (\<lambda>_. True) (f x) (\<lambda>_ _. True)) \<Longrightarrow> scoped tid (\<lambda>_. True) (map_refs xs ref f m) (\<lambda>_ _. True)"
  by (induction xs arbitrary: m) (auto intro: scoped_ret scoped_bind)

lemma scoped_import_loop: "(\<And>x. scoped tid (\<lambda>_. True) (f x) (\<lambda>_ _. True)) \<Longrightarrow> scoped tid (\<lambda>_. True) (import_loop f xs) (\<lambda>_ _. True)"
  by (induction xs) (auto intro: scoped_ret scoped_bind)

lemma scoped_import_key: "scoped tid (\<lambda>_. True) (import_key tid k) (\<lambda>_ _. True)"
proof -
  let ?own = "\<lambda>i d. \<exists>r. map_of (cred_keys d) i = Some r \<and> k_team r = tid"
  have "scoped tid (\<lambda>_. True) (orTeamErr (exec_db_val (insert_key tid (ek_name k)))) ?own"
    by (intro scoped_orTeamErr scoped_exec_val) (auto dest: insert_key_leaves)
  moreover have "scoped tid (?own i) (orTeamErr (exec_db (\<lambda>d. Some (set_key i c p d)))) (\<lambda>_ _. True)" for i c p
    by (intro scoped_orTeamErr, rule scoped_true, rule scoped_exec) (auto simp: stmt_def set_key_leaves, auto simp: set_key_def map_of_map_entry)
  ultimately show ?thesis unfolding import_key_def
    by (intro scoped_bind [of tid _ _ ?own] scoped_quiet_bind quiet_rules scoped_bind [OF _ scoped_ret] | assumption | simp)+
qed

lemma scoped_importKeys: "scoped tid (\<lambda>_. True) (importKeys tid ks) (\<lambda>_ _. True)"
  unfolding importKeys_def by (intro scoped_map_refs scoped_import_key)

lemma insert_category_sorted_leaves:
  assumes "tidy d" "insert_category_sorted tid nm srt d = Some (e, i)"
  shows "tidy e \<and> leaves tid d e"
proof -
  let ?t = "(cat_seq d + 1, \<lparr>cat_team = tid, cat_name = nm, cat_sort = srt\<rparr>) # cats d"
  have bound: "has_key (cats d) j \<Longrightarrow> j \<le> cat_seq d" for j using assms(1) by (simp add: tidy_def)
  then have fresh: "map_of (cats d) (cat_seq d + 1) = None" by (fastforce simp: not_has_key [symmetric])
  from assms(2) have "e = d\<lparr>cats := ?t, cat_seq := cat_seq d + 1\<rparr>" by (auto simp: insert_category_sorted_def split: if_splits)
  moreover have "has_key ?t j \<Longrightarrow> j \<le> cat_seq d + 1" for j using bound [of j] by (cases "j = cat_seq d + 1") (auto simp: has_key_def)
  moreover have "foreign_category tid (d\<lparr>cats := ?t\<rparr>) j = foreign_category tid d j" for j using fresh by (simp add: foreign_category_def)
  ultimately show ?thesis using cats_leaves [OF assms(1), of "cat_seq d + 1" ?t tid] by simp
qed

lemma scoped_importCategories: "scoped tid (\<lambda>_. True) (importCategories tid cs) (\<lambda>_ _. True)"
  unfolding importCategories_def
  by (intro scoped_map_refs scoped_orTeamErr scoped_exec_val) (use insert_category_sorted_leaves in blast)

lemma scoped_forTrue: "(\<And>x. scoped tid (\<lambda>_. True) (f x) (\<lambda>_ _. True)) \<Longrightarrow> scoped tid (\<lambda>_. True) (forE xs f) (\<lambda>_ _. True)"
  by (rule scoped_for)

lemma insert_rest_leaves:
  assumes "tidy d" "insert_team_rule tid a d = Some e \<or> insert_notification tid n d = Some e \<or> insert_page tid p d = Some e"
  shows "tidy e \<and> leaves tid d e"
proof -
  from assms(2) consider "e = d\<lparr>team_rules := ((tid, ea_item a), (ea_threshold a, ea_duration a)) # team_rules d\<rparr>"
    | "e = d\<lparr>notifs := notifs d @ [(tid, Module n, Target n)]\<rparr>" | "e = d\<lparr>public_pages := (tid, p) # public_pages d\<rparr>"
    by (auto simp: insert_team_rule_def insert_notification_def insert_page_def split: if_splits)
  then show ?thesis
  proof cases
    case 1
    then show ?thesis using rest_leaves [OF assms(1), of tid "team_rules e" "notifs d" "public_pages d"] by (simp add: foreign_rest_def fun_eq_iff)
  next
    case 2
    then show ?thesis using rest_leaves [OF assms(1), of tid "team_rules d" "notifs e" "public_pages d"] by (simp add: foreign_rest_def)
  next
    case 3
    then show ?thesis using rest_leaves [OF assms(1), of tid "team_rules d" "notifs d" "public_pages e"] by (simp add: foreign_rest_def fun_eq_iff)
  qed
qed

lemma scoped_rest:
  "scoped tid (\<lambda>_. True) (importTeamAlerts tid al) (\<lambda>_ _. True)"
  "scoped tid (\<lambda>_. True) (insertNotifications tid ns) (\<lambda>_ _. True)"
  "scoped tid (\<lambda>_. True) (importPublicPage tid page) (\<lambda>_ _. True)"
proof -
  show "scoped tid (\<lambda>_. True) (importTeamAlerts tid al) (\<lambda>_ _. True)" unfolding importTeamAlerts_def
    by (intro scoped_forTrue scoped_st) (use insert_rest_leaves in blast)
  show "scoped tid (\<lambda>_. True) (insertNotifications tid ns) (\<lambda>_ _. True)" unfolding insertNotifications_def
    by (intro scoped_forTrue scoped_st) (use insert_rest_leaves in blast)
  have 1: "scoped tid (\<lambda>_. True) (orTeamErr (exec_db (insert_page tid q))) (\<lambda>_ _. True)" for q
    by (rule scoped_st) (use insert_rest_leaves in blast)
  show "scoped tid (\<lambda>_. True) (importPublicPage tid page) (\<lambda>_ _. True)" unfolding importPublicPage_def
    by (cases page) (auto intro!: scoped_ret scoped_quiet_bind quiet_rules scoped_raise 1 split: option.split)
qed

subsection \<open>Servers\<close>

lemma stmt_import_agent: "import_agent sid a d = Some (e, x) \<Longrightarrow> about sid d e"
  by (auto simp: import_agent_def about_def split: if_splits)

lemma stmt_import_token: "stmt tid (mine tid sid) (import_token sid r)"
  by (rule stmt_about) (auto simp: import_token_def about_def split: if_splits)

lemma stmt_insert_rule: "stmt tid (mine tid sid) (insert_rule sid a)"
  by (rule stmt_about) (auto simp: insert_rule_def about_def split: if_splits)

lemma scoped_mine: "stmt tid (mine tid sid) f \<Longrightarrow> scoped tid (mine tid sid) (orTeamErr (exec_db f)) (\<lambda>_. mine tid sid)"
  by (intro scoped_orTeamErr scoped_exec)

lemma scoped_import_ssh: "scoped tid (mine tid sid) (import_ssh G sid m trust h) (\<lambda>_. mine tid sid)"
  unfolding import_ssh_def
  by (intro scoped_if scoped_raise scoped_quiet_bind quiet_rules scoped_mine stmt_ssh)

lemma scoped_import_agent_row: "scoped tid (mine tid sid) (import_agent_row sid x a) (\<lambda>_. mine tid sid)"
proof -
  have 1: "scoped tid (mine tid sid) (orTeamErr (exec_db_val (import_agent sid b))) (\<lambda>_. mine tid sid)" for b
    by (intro scoped_orTeamErr scoped_exec_val) (use stmt_import_agent about_leaves in blast)
  show ?thesis unfolding import_agent_row_def
    by (intro scoped_quiet_bind quiet_rules scoped_bind [OF 1] scoped_if scoped_raise scoped_ret)
qed

lemma scoped_import_connection: "scoped tid (mine tid sid) (importServerConnection G sid x m trust) (\<lambda>_. mine tid sid)"
proof -
  have 1: "scoped tid (mine tid sid) (case es_agent x of None \<Rightarrow> ret () | Some a \<Rightarrow> import_agent_row sid x a) (\<lambda>_. mine tid sid)"
    by (cases "es_agent x") (auto intro: scoped_ret scoped_import_agent_row)
  have 2: "scoped tid (mine tid sid) (case es_enroll x of None \<Rightarrow> ret () | Some r \<Rightarrow> orTeamErr (exec_db (import_token sid r))) (\<lambda>_. mine tid sid)"
    by (cases "es_enroll x") (auto intro: scoped_ret scoped_mine stmt_import_token)
  have 3: "scoped tid (mine tid sid) (case es_ssh x of None \<Rightarrow> raise errInvalidTeamImport | Some h \<Rightarrow> import_ssh G sid m trust h) (\<lambda>_. mine tid sid)"
    by (cases "es_ssh x") (auto intro: scoped_raise scoped_import_ssh)
  show ?thesis unfolding importServerConnection_def by (intro scoped_if 3 scoped_bind [OF 1 2] scoped_ret)
qed

lemma scoped_import_server: "scoped tid (\<lambda>_. True) (import_server G tid cm dflt km trust x) (\<lambda>_ _. True)"
proof -
  have team: "srv_team (imported_server tid cm dflt x) = tid" by (simp add: imported_server_def)
  have 1: "scoped tid (\<lambda>_. True) (orTeamErr (exec_db_val (insert_server (imported_server tid cm dflt x)))) (\<lambda>sid. mine tid sid)"
    by (intro scoped_orTeamErr scoped_exec_val) (use insert_server_scoped [of _ "imported_server tid cm dflt x"] team in metis)
  have 2: "scoped tid (mine tid sid) (importServerInfo sid x) (\<lambda>_. mine tid sid)" "scoped tid (mine tid sid) (importServerAdvancedInfo sid x) (\<lambda>_. mine tid sid)" for sid
    unfolding importServerInfo_def importServerAdvancedInfo_def by (intro scoped_mine page_rules)+
  have 3: "scoped tid (mine tid sid) (forE (es_alerts x) (\<lambda>a. orTeamErr (exec_db (insert_rule sid a)))) (\<lambda>_. mine tid sid)" for sid
    by (intro scoped_for scoped_mine stmt_insert_rule)
  show ?thesis unfolding import_server_def
    by (rule scoped_bind [OF 1], rule scoped_bind [OF 2(1)], rule scoped_bind [OF 2(2)], rule scoped_bind [OF scoped_import_connection],
        rule scoped_bind [OF 3], rule scoped_ret, simp)
qed

lemma scoped_importServers: "scoped tid (\<lambda>_. True) (importServers T G tid xs cm km trust) (\<lambda>_ _. True)"
  unfolding importServers_def Let_def by (intro scoped_if scoped_raise scoped_import_loop scoped_import_server)

subsection \<open>The transaction and the handler\<close>

lemma scoped_team_transaction:
  assumes body: "scoped tid P m Q"
  shows "scoped tid P (team_transaction m) Q"
proof (rule scopedI)
  fix s r t
  assume s: "conn_ok s" "tidy (db s)" "P (db s)" and run: "team_transaction m s = (r, t)"
  let ?s = "s\<lparr>calls := Suc (calls s)\<rparr>"
  obtain q u where m: "m ?s = (q, u)" by fastforce
  have u: "conn_ok u" "tidy (db u)" "leaves tid (db s) (db u)" "\<And>x. q = Inr x \<Longrightarrow> Q x (db u)"
    using scopedD [OF body m] s by auto
  note rolled = roll_back_leaves [OF s(2) u(3)]
  show "conn_ok t \<and> tidy (db t) \<and> leaves tid (db s) (db t) \<and> (\<forall>x. r = Inr x \<longrightarrow> Q x (db t))"
  proof (cases "outcomes s (calls s) = Done")
    case False
    with run s show ?thesis by (auto simp: team_transaction_def next_call_def)
  next
    case True
    with run m u rolled show ?thesis
      by (auto simp: team_transaction_def next_call_def split: sum.splits outcome.splits)
  qed
qed

lemma quiet_exec_sql [quiet_rules]: "quiet (exec_sql e f)"
  by (simp add: quiet_def exec_sql_def next_call_def split: outcome.split option.split)

lemma quiet_query_sql [quiet_rules]: "quiet (query_row q)"
  by (simp add: quiet_def query_row_def query_sql_def next_call_def bindE_run raise_def ret_def split: option.split)

lemma quiet_time [quiet_rules]: "quiet time_now"
  by (simp add: quiet_def time_now_def)

lemma scoped_import_statements:
  "scoped tid (\<lambda>d. keyed (cats d)) (import_statements T G tid data xs ns trust) (\<lambda>_ _. True)"
  unfolding import_statements_def
  by (rule scoped_quiet_bind, intro quiet_rules, rule scoped_quiet_bind, intro quiet_rules, rule scoped_bind [OF scoped_clear],
      rule scoped_bind [OF scoped_importKeys], rule scoped_bind [OF scoped_importCategories], rule scoped_bind [OF scoped_rest(1)],
      rule scoped_bind [OF scoped_rest(2)], rule scoped_bind [OF scoped_rest(3)], rule scoped_bind [OF scoped_importServers], rule scoped_ret, simp)

lemma quiet_preflight [quiet_rules]: "quiet (preflightImportedAgentUIDs tid xs)"
  unfolding preflightImportedAgentUIDs_def by (intro quiet_rules)

lemma scoped_applyTeamImport: "scoped tid (\<lambda>d. keyed (cats d)) (applyTeamImport T G P tid data trust) (\<lambda>_ _. True)"
proof -
  have 1: "scoped tid (\<lambda>d. keyed (cats d)) (bindE (preflightImportedAgentUIDs tid xs) (\<lambda>_.
      team_transaction (import_statements T G tid data xs ns tr))) (\<lambda>_ _. True)" for xs ns tr
    by (rule scoped_quiet_bind [OF quiet_preflight], rule scoped_team_transaction [OF scoped_import_statements])
  show ?thesis unfolding applyTeamImport_def
    by (simp add: 1 scoped_raise split: sum.split option.split)
qed

lemma conn_ok_team_updates [simp]:
  fixes s :: "('r, 'z) teamenv_scheme"
  shows "conn_ok (s\<lparr>sent := a\<rparr>) = conn_ok s"
  by (simp add: conn_ok_def)

lemma conn_ok_site_updates [simp]:
  fixes s :: "('r, 'z) siteenv_scheme"
  shows "conn_ok (s\<lparr>snap := a\<rparr>) = conn_ok s"
  by (simp add: conn_ok_def)

lemma quiet_cJSON [quiet_rules]: "quiet (cJSON a b)" "quiet team_ErrorHandler"
  by (simp_all add: quiet_def cJSON_def team_ErrorHandler_def)

lemma quiet_Refresh [quiet_rules]: "quiet Refresh"
proof -
  have "quiet (modify (\<lambda>s :: ('r, 'z) siteenv_scheme. s\<lparr>snap := f s\<rparr>) :: ('r, 'z) siteenv_scheme \<Rightarrow> (err + unit) \<times> ('r, 'z) siteenv_scheme)" for f
    by (simp add: quiet_def modify_def)
  then show ?thesis unfolding Refresh_def ListEnabledPublicPageDomains_def by (intro quiet_rules)
qed

lemma quiet_require [quiet_rules]: "quiet (requireTeamOwnerAndTOTP rq)" "quiet (requireTOTPCode T secret code)"
  unfolding requireTeamOwnerAndTOTP_def requireTOTPCode_def refuse_def IsTeamOwner_def GetUserAuthById_def Let_def
  by (intro quiet_rules)+

lemma quiet_clear_status [quiet_rules]: "quiet k \<Longrightarrow> quiet (clear_status is k)"
  by (induction "is") (auto intro!: quiet_rules)

lemma quiet_import_finish [quiet_rules]: "quiet (import_finish rq tid ids)"
  unfolding import_finish_def by (intro quiet_rules)

lemma scoped_silent:
  "scoped tid P (silent (StopServer i) :: ('r, 'z, unit) team_handler) (\<lambda>_. P)"
  "scoped tid P (silent (ReconcileServer i) :: ('r, 'z, unit) team_handler) (\<lambda>_. P)"
  unfolding silent_def
  by (rule scopedI, metis sup.after_stop leaves_refl ret_def prod.inject)
    (rule scopedI, metis sup.after_reconcile leaves_refl ret_def prod.inject)

lemma scoped_import_applied: "scoped tid (\<lambda>_. True) (import_applied rq tid ids :: ('r, 'z, unit) team_handler) (\<lambda>_ _. True)"
proof -
  have "scoped tid (\<lambda>_. True) (bindE (forE new (\<lambda>i. silent (ReconcileServer i))) (\<lambda>_. lift_sum r) :: ('r, 'z, unit) team_handler) (\<lambda>_ _. True)" for new and r :: "unit + unit"
    by (rule scoped_bind [OF scoped_for [OF scoped_silent(2)]], intro scoped_quiet_any quiet_rules)
  then have "scoped tid (\<lambda>_. True) (tryE (import_finish rq tid is) (\<lambda>r. bindE (forE new (\<lambda>i. silent (ReconcileServer i))) (\<lambda>_. lift_sum r)) :: ('r, 'z, unit) team_handler) (\<lambda>_ _. True)" for "is" new
    by (intro scoped_try [OF scoped_quiet_any]) (intro quiet_rules)
  then show ?thesis unfolding import_applied_def
    by (cases ids) (simp, rule scoped_bind [OF scoped_for [OF scoped_silent(1)]])
qed

lemma scoped_import_bundle: "scoped tid (\<lambda>d. keyed (cats d)) (import_bundle T G P rq tid trust data) (\<lambda>_ _. True)"
proof -
  have 1: "scoped tid (\<lambda>d. keyed (cats d)) (tryE (applyTeamImport T G P tid data tr) (\<lambda>r. case r of
            Inr ids \<Rightarrow> import_applied rq tid ids
          | Inl e \<Rightarrow>
              (case e of
                 UIDConflict c \<Rightarrow> cJSON (409, ''agent_uid_conflict'') (ConflictingUID c)
               | ErrInvalidConfiguration \<Rightarrow> cJSON (400, ''invalid'') NoTeamData
               | errInvalidTeamImport \<Rightarrow> cJSON (400, ''invalid'') NoTeamData
               | _ \<Rightarrow> team_ErrorHandler))) (\<lambda>_ _. True)" for tr
    by (rule scoped_try [OF scoped_applyTeamImport])
      (auto intro: scoped_import_applied scoped_quiet_any quiet_rules split: team_err.split)
  show ?thesis unfolding import_bundle_def
    by (intro scoped_if) (auto intro: 1 scoped_quiet_any quiet_rules split: sum.split)
qed

text \<open>The identifiers a request is checked with are its own, or zero after a refusal.\<close>

lemma require_ids:
  assumes "requireTeamOwnerAndTOTP rq s = (Inr (tid, uid, secret), t)"
  shows "tid = hr_tid rq \<or> tid = 0"
  using assms by (auto simp: requireTeamOwnerAndTOTP_def Let_def refuse_def cJSON_def team_ErrorHandler_def tryE_run bindE_run ret_def
      split: if_splits sum.splits prod.splits option.splits)

subsection \<open>The tables of users and teams\<close>

text \<open>A computation that changes of these tables at most the row of one team.\<close>

definition own_row :: "int \<Rightarrow> ('z env_scheme, 'e, 'a) io \<Rightarrow> bool" where
  "own_row tid m \<longleftrightarrow> (\<forall>s. (tabs (snd (m s)))\<lparr>teams := []\<rparr> = (tabs s)\<lparr>teams := []\<rparr> \<and>
     (\<forall>k. k \<noteq> tid \<longrightarrow> map_of (teams (tabs (snd (m s)))) k = map_of (teams (tabs s)) k))"

named_theorems own_row_rules

lemma own_row_same: "(\<And>s. tabs (snd (m s)) = tabs s) \<Longrightarrow> own_row tid m"
  by (simp add: own_row_def)

lemma own_row_plain [own_row_rules]:
  "own_row tid (ret x)" "own_row tid (raise e)" "own_row tid (gets f)" "own_row tid (lift_sum r)"
  by (simp_all add: own_row_def ret_def raise_def gets_def lift_sum_def)

lemma own_row_try [own_row_rules]: "own_row tid m \<Longrightarrow> (\<And>x. own_row tid (f x)) \<Longrightarrow> own_row tid (tryE m f)"
  unfolding own_row_def by (simp add: tryE_run)

lemma own_row_bind [own_row_rules]: "own_row tid m \<Longrightarrow> (\<And>x. own_row tid (f x)) \<Longrightarrow> own_row tid (bindE m f)"
  unfolding own_row_def by (simp add: bindE_run split: prod.splits sum.splits) (metis snd_conv)

lemma own_row_if [own_row_rules]: "own_row tid a \<Longrightarrow> own_row tid b \<Longrightarrow> own_row tid (if c then a else b)"
  by simp

lemma own_row_let [own_row_rules]: "(\<And>x. own_row tid (f x)) \<Longrightarrow> own_row tid (let x = e in f x)"
  by (simp add: Let_def)

lemma own_row_case [own_row_rules]:
  "(\<And>e. own_row tid (f e)) \<Longrightarrow> (\<And>x. own_row tid (g x)) \<Longrightarrow> own_row tid (case r of Inl e \<Rightarrow> f e | Inr x \<Rightarrow> g x)"
  "own_row tid a \<Longrightarrow> (\<And>x. own_row tid (g x)) \<Longrightarrow> own_row tid (case q of None \<Rightarrow> a | Some x \<Rightarrow> g x)"
  "(\<And>x y. own_row tid (h x y)) \<Longrightarrow> own_row tid (case z of (x, y) \<Rightarrow> h x y)"
  by (simp_all split: sum.split option.split prod.split)

lemma own_row_for [own_row_rules]: "(\<And>x. own_row tid (f x)) \<Longrightarrow> own_row tid (forE xs f)"
  by (induction xs) (auto intro!: own_row_rules)

lemma own_row_map_refs [own_row_rules]: "(\<And>x. own_row tid (f x)) \<Longrightarrow> own_row tid (map_refs xs ref f m)"
  by (induction xs arbitrary: m) (auto intro!: own_row_rules)

lemma own_row_import_loop [own_row_rules]: "(\<And>x. own_row tid (f x)) \<Longrightarrow> own_row tid (import_loop f xs)"
  by (induction xs) (auto intro!: own_row_rules)

lemma own_row_db [own_row_rules]: "own_row tid (exec_db g)" "own_row tid (exec_db_val h)" "own_row tid (query_db q)" "own_row tid (query_db_row r)"
  by (rule own_row_same, simp add: exec_db_def exec_db_val_def query_db_def next_call_def split: outcome.split option.split prod.split)+
    (simp add: own_row_same query_db_row_run)

lemma own_row_query [own_row_rules]: "own_row tid (query_row q)" "own_row tid time_now" "own_row tid (optional_row p)"
  by (rule own_row_same, simp add: query_row_def query_sql_def next_call_def bindE_run raise_def ret_def time_now_def split: option.split)+
    (unfold optional_row_def, intro own_row_rules)

lemma own_row_update_team [own_row_rules]: "own_row tid (exec_sql e (\<lambda>d. Some (update_team tid et d)))"
  by (simp add: own_row_def exec_sql_def next_call_def update_team_def map_of_map_entry split: outcome.split)

lemma own_row_crypt [own_row_rules]: "own_row tid (hub_encrypt p c)" "own_row tid (hub_decrypt p c)" "own_row tid (decrypt_nonempty p c)"
  by (rule own_row_same, simp add: hub_encrypt_def hub_decrypt_def decrypt_nonempty_run split: sum.split)+

lemma own_row_orTeamErr [own_row_rules]: "own_row tid m \<Longrightarrow> own_row tid (orTeamErr m)"
  unfolding orTeamErr_def by (intro own_row_rules)

lemma own_row_cJSON [own_row_rules]: "own_row tid (cJSON a b)" "own_row tid team_ErrorHandler"
  by (simp_all add: own_row_def cJSON_def team_ErrorHandler_def)

lemma own_row_log [own_row_rules]: "own_row tid (LogAdd a b c d e f g)"
  by (simp add: own_row_def LogAdd_def modify_def log_event_def Let_def)

lemma own_row_Refresh [own_row_rules]: "own_row tid Refresh"
proof -
  have "own_row tid (modify (\<lambda>s :: ('r, 'z) siteenv_scheme. s\<lparr>snap := f s\<rparr>) :: ('r, 'z) siteenv_scheme \<Rightarrow> (err + unit) \<times> ('r, 'z) siteenv_scheme)" for f
    by (simp add: own_row_def modify_def)
  then show ?thesis unfolding Refresh_def ListEnabledPublicPageDomains_def by (intro own_row_rules)
qed

lemma own_row_require [own_row_rules]: "own_row tid (requireTeamOwnerAndTOTP rq)" "own_row tid (requireTOTPCode T secret code)"
  unfolding requireTeamOwnerAndTOTP_def requireTOTPCode_def refuse_def IsTeamOwner_def GetUserAuthById_def Let_def
  by (intro own_row_rules)+

lemma tabs_delete_buckets:
  fixes s :: "('r, 'z) netenv_scheme"
  shows "tabs (snd (delete_buckets sid bs s)) = tabs s"
proof (induction bs arbitrary: s)
  case (Cons b bs)
  have "tabs (snd (delete_bucket sid b s)) = tabs s" by (simp add: delete_bucket_def next_call_def)
  with Cons [of "snd (delete_bucket sid b s)"] show ?case by (simp add: prod.case_eq_if)
qed simp

lemma own_row_clear_status [own_row_rules]:
  fixes k :: "('r, 'z, unit) team_handler"
  assumes "own_row tid k"
  shows "own_row tid (clear_status is k)"
proof -
  have "own_row tid (RemoveServerStatus i :: (('r, 'z) teamenv_scheme, err, unit) io)" for i
    by (rule own_row_same) (metis (mono_tags, lifting) RemoveServerStatus_def tabs_delete_buckets prod.case_eq_if snd_conv)
  with assms show ?thesis by (induction "is") (auto intro!: own_row_rules)
qed

text \<open>The supervisor changes none of these tables.\<close>

lemma own_row_modify: "(\<And>s. tabs (f s) = tabs s) \<Longrightarrow> own_row tid (modify f)"
  by (simp add: own_row_def modify_def)

lemma own_row_stopping [own_row_rules]:
  "own_row tid (stopOutboundServer i)" "own_row tid (stopInboundServer i)" "own_row tid (stopServer i)" "own_row tid (cancelReconcileRetry i)"
  "own_row tid (StopServer i)"
proof -
  show 1: "own_row tid (stopOutboundServer i)" unfolding stopOutboundServer_def finishOutboundServer_def
    by (intro own_row_rules own_row_modify) (simp_all add: cancel_entry_def finish_entry_def)
  show 2: "own_row tid (stopInboundServer i)" unfolding stopInboundServer_def MainClose_eq
    by (rule own_row_modify) (simp add: managed_Close_def split: option.split)
  show 3: "own_row tid (stopServer i)" unfolding stopServer_def by (intro own_row_rules 1 2)
  show 4: "own_row tid (cancelReconcileRetry i)" unfolding cancelReconcileRetry_def
    by (rule own_row_modify) (simp add: cancel_retry_def split: option.split)
  show "own_row tid (StopServer i)" unfolding StopServer_def by (intro own_row_rules 3 4)
qed

lemma own_row_reconciling [own_row_rules]: "own_row tid (ReconcileServer i)"
proof -
  have "own_row tid (register_worker i w)" for w unfolding register_worker_def by (intro own_row_rules own_row_modify) simp
  then have "own_row tid (startServer i mode allow)" for mode allow
    unfolding startServer_def start_ssh_def start_active_def by (intro own_row_rules)
  then have 1: "own_row tid (connect_by_mode i mode allow)" for mode allow unfolding connect_by_mode_def by (intro own_row_rules)
  then have "own_row tid (reconcile_unmonitored i mode)" for mode unfolding reconcile_unmonitored_def by (intro own_row_rules)
  with 1 have 2: "own_row tid (reconcileServer i)" unfolding reconcileServer_def by (intro own_row_rules)
  have "own_row tid (startReconcileRetry i)" unfolding startReconcileRetry_def by (rule own_row_modify) simp
  with 2 show ?thesis unfolding ReconcileServer_def by (intro own_row_rules)
qed

lemma own_row_transaction [own_row_rules]:
  assumes "own_row tid m"
  shows "own_row tid (team_transaction m)"
proof -
  let ?same = "\<lambda>s u. (tabs u)\<lparr>teams := []\<rparr> = (tabs s)\<lparr>teams := []\<rparr> \<and> (\<forall>k. k \<noteq> tid \<longrightarrow> map_of (teams (tabs u)) k = map_of (teams (tabs s)) k)"
  have m: "?same s u" if "m (s\<lparr>calls := Suc (calls s)\<rparr>) = (q, u)" for s q u
    using assms [unfolded own_row_def, rule_format, of "s\<lparr>calls := Suc (calls s)\<rparr>"] that by simp
  have "?same s (snd (team_transaction m s))" for s
    by (cases "m (s\<lparr>calls := Suc (calls s)\<rparr>)") (auto simp: team_transaction_def next_call_def dest!: m split: sum.split outcome.split)
  then show ?thesis by (simp add: own_row_def)
qed

lemma own_row_import_connection [own_row_rules]: "own_row tid (importServerConnection G sid x m trust)"
  unfolding importServerConnection_def import_ssh_def import_agent_row_def by (intro own_row_rules)

lemma own_row_import_statements [own_row_rules]: "own_row tid (import_statements T G tid data xs ns trust)"
  unfolding import_statements_def clearTeamConfig_def importKeys_def import_key_def importCategories_def importTeamAlerts_def
    insertNotifications_def importPublicPage_def importServers_def import_server_def importServerInfo_def importServerAdvancedInfo_def
  by (intro own_row_rules)

lemma own_row_applyTeamImport [own_row_rules]: "own_row tid (applyTeamImport T G P tid data trust)"
  unfolding applyTeamImport_def preflightImportedAgentUIDs_def by (intro own_row_rules)

lemma own_row_import_bundle [own_row_rules]: "own_row tid (import_bundle T G P rq tid trust data)"
proof -
  have "own_row tid (import_applied rq tid ids :: ('r, 'z, unit) team_handler)" for ids
    unfolding import_applied_def import_finish_def silent_def by (intro own_row_rules)
  then show ?thesis unfolding import_bundle_def by (intro own_row_rules) (simp split: team_err.split add: own_row_rules)
qed

text \<open>
  (C20) Importing a configuration, whatever the bundle contains and however the services behave, changes the
  rows of no other team: its servers with everything that refers to them, its keys, categories, alert
  rules, notifications and public page stay as they are, its own row in the table of teams too, no row of users and
  memberships changes, and the connection supervisor stays consistent.
\<close>

theorem import_tenant_isolation:
  fixes s :: "('r, 'z) teamenv_scheme"
  assumes "conn_ok s" "tidy (db s)" "keyed (cats (db s))" "other \<noteq> hr_tid rq" "other \<noteq> 0"
  shows "conn_ok (snd (importTeam T G P rq bound s)) \<and>
    team_rows other (db (snd (importTeam T G P rq bound s))) = team_rows other (db s) \<and>
    map_of (teams (tabs (snd (importTeam T G P rq bound s)))) other = map_of (teams (tabs s)) other \<and>
    (tabs (snd (importTeam T G P rq bound s)))\<lparr>teams := []\<rparr> = (tabs s)\<lparr>teams := []\<rparr>"
proof -
  obtain r u where req: "requireTeamOwnerAndTOTP rq s = (r, u)" by fastforce
  have "db (snd (requireTeamOwnerAndTOTP rq s)) = db s \<and> conn_ok (snd (requireTeamOwnerAndTOTP rq s)) = conn_ok s"
    using quiet_require(1) [of rq] unfolding quiet_def by blast
  with req assms(1) have u: "db u = db s" "conn_ok u" by auto
  have rows: "(tabs (snd (m v)))\<lparr>teams := []\<rparr> = (tabs v)\<lparr>teams := []\<rparr>"
    "k \<noteq> other \<Longrightarrow> map_of (teams (tabs (snd (m v)))) other = map_of (teams (tabs v)) other"
    if "own_row k m" for k v and m :: "(('r, 'z) teamenv_scheme, 'e, 'a) io"
    using that by (simp_all add: own_row_def)
  have tabs_u: "(tabs u)\<lparr>teams := []\<rparr> = (tabs s)\<lparr>teams := []\<rparr>" "map_of (teams (tabs u)) other = map_of (teams (tabs s)) other"
    using rows [OF own_row_require(1) [of 0 rq], of s] assms(5) req by simp_all
  show ?thesis
  proof (cases r)
    case (Inl e)
    with req u tabs_u show ?thesis by (simp add: importTeam_def bindE_run)
  next
    case (Inr x)
    obtain tid uid secret where x: "x = (tid, uid, secret)" by (cases x) auto
    from require_ids [of rq s tid uid secret u] req Inr x assms(4,5) have tid: "other \<noteq> tid" by auto
    let ?k = "(case bound of None \<Rightarrow> cJSON (400, ''invalid'') NoTeamData
     | Some req \<Rightarrow> bindE (requireTOTPCode T secret (ir_code req)) (\<lambda>_.
         bindE (gets (\<lambda>s. decodeTeamImportBundle T (hub_ciphers s) req)) (\<lambda>decoded. case decoded of
           None \<Rightarrow> cJSON (400, ''invalid'') NoTeamData
         | Some data \<Rightarrow> import_bundle T G P rq tid (ir_trust req) data))) :: ('r, 'z, unit) team_handler"
    have sc: "scoped tid (\<lambda>d. keyed (cats d)) ?k (\<lambda>_ _. True)"
      by (cases bound) (auto intro!: scoped_quiet_bind scoped_import_bundle scoped_quiet_any [OF quiet_cJSON(1)] quiet_require(2) quiet_gets split: option.split)
    have run: "importTeam T G P rq bound s = ?k u" unfolding importTeam_def bindE_run req Inr x by simp
    obtain q t where k: "?k u = (q, t)" by (rule prod.exhaust)
    have "tidy (db u)" "keyed (cats (db u))" using u assms(2,3) by simp_all
    note end_state = scopedD(1,3) [OF sc k u(2) this]
    have "own_row tid ?k" by (intro own_row_rules)
    from rows [OF this, of u] tid tabs_u have "map_of (teams (tabs t)) other = map_of (teams (tabs s)) other \<and>
      (tabs t)\<lparr>teams := []\<rparr> = (tabs s)\<lparr>teams := []\<rparr>" unfolding k by simp
    with leaves_team_rows [OF end_state(2) tid] end_state(1) show ?thesis unfolding run k snd_conv u(1) by blast
  qed
qed

section \<open>An import is all or nothing\<close>

text \<open>What a transaction may leave behind: nothing but advanced sequences, or all of it when the answer to the commit was lost.\<close>

lemma team_transaction_Inl:
  assumes "team_transaction m s = (Inl e, t)"
  shows "db t = roll_back (db s) (db t) \<and> tabs t = tabs s \<or>
    (\<exists>x u. m (s\<lparr>calls := Suc (calls s)\<rparr>) = (Inr x, u) \<and> outcomes u (calls u) = Lost \<and> t = u\<lparr>calls := Suc (calls u)\<rparr>)"
proof -
  have rb: "roll_back d (roll_back d e) = roll_back d e" "roll_back d d = d" for d e :: server_db by (simp_all add: roll_back_def)
  show ?thesis using assms
    by (auto simp: team_transaction_def next_call_def rb split: if_splits prod.splits sum.splits outcome.splits)
qed

lemma preflight_frame:
  fixes s :: "('r, 'z) netenv_scheme"
  assumes "preflightImportedAgentUIDs tid xs s = (r, t)"
  shows "db t = db s \<and> tabs t = tabs s"
  using assms by (auto simp: preflightImportedAgentUIDs_def optional_row_def bindE_run tryE_run query_db_row_run raise_def ret_def
      split: sum.splits if_splits option.splits prod.splits)

text \<open>
  (C22) An import that reports an error has changed nothing, neither the team's own description nor its configuration, but
  for identifiers that were used up. The one exception: every statement succeeded, the commit was made and only the answer to
  it was lost; then the whole import is in place.
\<close>

theorem applyTeamImport_atomic:
  fixes s t :: "('r, 'z) siteenv_scheme"
  assumes "applyTeamImport T G P tid data trust s = (Inl e, t)"
  shows "db t = roll_back (db s) (db t) \<and> tabs t = tabs s \<or>
    (\<exists>xs ns ids s' u. normalizeImportedAgentKeys G (eb_servers data) = Inr xs \<and> NormalizeEntries P (bundle_notifications data) = Some ns \<and>
       db s' = db s \<and> tabs s' = tabs s \<and> import_statements T G tid data xs ns trust s' = (Inr ids, u) \<and>
       outcomes u (calls u) = Lost \<and> t = u\<lparr>calls := Suc (calls u)\<rparr>)"
proof (cases "\<exists>legacy xs ns. inspectImportedSSHHostKeys G (eb_servers data) = Inr legacy \<and> \<not> (legacy \<noteq> [] \<and> \<not> trust) \<and>
    normalizeImportedAgentKeys G (eb_servers data) = Inr xs \<and> NormalizeEntries P (bundle_notifications data) = Some ns")
  case False
  have "roll_back (db s) (db s) = db s" by (simp add: roll_back_def)
  moreover from False assms have "t = s" unfolding applyTeamImport_def by (auto simp: raise_def split: sum.splits option.splits if_splits)
  ultimately show ?thesis by simp
next
  case True
  then obtain legacy xs ns where c: "inspectImportedSSHHostKeys G (eb_servers data) = Inr legacy" "\<not> (legacy \<noteq> [] \<and> \<not> trust)"
    "normalizeImportedAgentKeys G (eb_servers data) = Inr xs" "NormalizeEntries P (bundle_notifications data) = Some ns" by blast
  obtain r u where pre: "preflightImportedAgentUIDs tid xs s = (r, u)" by fastforce
  note fr = preflight_frame [OF pre]
  have run: "bindE (preflightImportedAgentUIDs tid xs) (\<lambda>_. team_transaction (import_statements T G tid data xs ns trust)) s = (Inl e, t)"
    using assms c by (simp add: applyTeamImport_def)
  show ?thesis
  proof (cases r)
    case (Inl f)
    with run pre fr have "db t = db s \<and> tabs t = tabs s" by (simp add: bindE_run)
    then show ?thesis by (simp add: roll_back_def)
  next
    case (Inr x)
    with run pre have "team_transaction (import_statements T G tid data xs ns trust) u = (Inl e, t)" by (simp add: bindE_run)
    from team_transaction_Inl [OF this] show ?thesis
    proof (elim disjE exE)
      assume "db t = roll_back (db u) (db t) \<and> tabs t = tabs u"
      then show ?thesis using fr by simp
    next
      fix ids v
      assume "import_statements T G tid data xs ns trust (u\<lparr>calls := Suc (calls u)\<rparr>) = (Inr ids, v) \<and> outcomes v (calls v) = Lost \<and>
        t = v\<lparr>calls := Suc (calls v)\<rparr>"
      moreover have "db (u\<lparr>calls := Suc (calls u)\<rparr>) = db s" "tabs (u\<lparr>calls := Suc (calls u)\<rparr>) = tabs s" using fr by simp_all
      ultimately show ?thesis using c(3,4) by blast
    qed
  qed
qed

section \<open>A refused one-time password\<close>

text \<open>The owner of the team asks, has a secret, and the database answers.\<close>

definition owner_asks :: "hub_request \<Rightarrow> string \<Rightarrow> ('r, 'z) teamenv_scheme \<Rightarrow> bool" where
  "owner_asks rq secret s \<longleftrightarrow> hr_tid rq \<noteq> 0 \<and> hr_uid rq \<noteq> 0 \<and> secret \<noteq> [] \<and>
     map_option owner_id (map_of (teams (tabs s)) (hr_tid rq)) = Some (hr_uid rq) \<and>
     (case map_of (users (tabs s)) (hr_uid rq) of None \<Rightarrow> False | Some u \<Rightarrow> totp u = Some secret) \<and>
     outcomes s (calls s) = Done \<and> outcomes s (Suc (calls s)) = Done"

lemma owner_passes:
  assumes "owner_asks rq secret s"
  shows "requireTeamOwnerAndTOTP rq s = (Inr (hr_tid rq, hr_uid rq, secret), s\<lparr>calls := Suc (Suc (calls s))\<rparr>)"
  using assms by (auto simp: owner_asks_def requireTeamOwnerAndTOTP_def Let_def IsTeamOwner_def GetUserAuthById_def query_row_def query_sql_def
      next_call_def bindE_run tryE_run ret_def raise_def split: option.splits)

lemma wrong_code_goes_on:
  fixes s :: "('r, 'z) teamenv_scheme"
  assumes "\<forall>n. writes s n" "\<forall>now. \<not> otp_valid T now code secret" "code \<noteq> []" "secret \<noteq> []"
  shows "requireTOTPCode T secret code s =
    (Inr (), s\<lparr>reads := Suc (reads s), sent := sent s @ [((400, ''error''), NoTeamData)]\<rparr>)"
  using assms by (simp add: requireTOTPCode_def tryE_run time_now_def cJSON_def)

text \<open>
  (C23) The one-time password of the owner does not protect exports and imports: with a wrong code
  the refusal is written as an answer and the handler goes on as with the right code. An export goes on to
  encrypt and return the credentials of the team, an import to replace its configuration.
\<close>

theorem wrong_code_not_refused:
  fixes s :: "('r, 'z) teamenv_scheme"
  assumes "owner_asks rq secret s" "\<forall>n. writes s n"
    and wrong: "\<forall>now. \<not> otp_valid T now (ir_code req) secret" "\<forall>now. \<not> otp_valid T now (xr_code xreq) secret"
      "ir_code req \<noteq> []" "xr_code xreq \<noteq> []"
    and dec: "decodeTeamImportBundle T (hub_ciphers s) req = Some data"
  shows "let t = s\<lparr>calls := Suc (Suc (calls s)), reads := Suc (reads s), sent := sent s @ [((400, ''error''), NoTeamData)]\<rparr> in
    exportTeam T rq (Some xreq) s = export_checked T rq (hr_tid rq) (hr_uid rq) xreq t \<and>
    importTeam T G P rq (Some req) s = import_bundle T G P rq (hr_tid rq) (ir_trust req) data t"
proof -
  let ?s = "s\<lparr>calls := Suc (Suc (calls s))\<rparr>"
  have w: "\<forall>n. writes ?s n" using assms(2) by simp
  have ne: "secret \<noteq> []" using assms(1) by (simp add: owner_asks_def)
  note go = wrong_code_goes_on [OF w wrong(1,3) ne] wrong_code_goes_on [OF w wrong(2,4) ne]
  show ?thesis unfolding Let_def exportTeam_def importTeam_def bindE_run owner_passes [OF assms(1)]
    using dec by (simp add: bindE_run go gets_def)
qed

section \<open>A sample transfer\<close>

definition sample_bundle :: teamExportBundle where
  "sample_bundle = \<lparr>eb_version = 1, eb_exported_at = 0, eb_skipped_servers = [], eb_skipped_keys = [],
     eb_team = \<lparr>et_name = ''new'', et_description = [], et_color = [], et_image = []\<rparr>,
     eb_categories = [\<lparr>ec_ref = 1, ec_name = ''c'', ec_sort = 0\<rparr>], eb_keys = [], eb_alerts = [], eb_notifications = [], eb_page = None,
     eb_servers = [\<lparr>es_ref = 4, es_category = 1, es_type = 2, es_name = ''nas'', es_monitor = True, es_terminal = False, es_public = None,
       es_weight = 0, es_details = no_details, es_runtime = no_runtime, es_adv = no_adv, es_ssh = None, es_agent = None,
       es_enroll = Some \<lparr>en_hash = ''h'', en_revoked = False\<rparr>, es_alerts = []\<rparr>]\<rparr>"

definition sample_codec :: team_codec where
  "sample_codec = \<lparr>marshal_bundle = (\<lambda>_. Some ''b''), unmarshal_bundle = (\<lambda>x. if x = ''b'' then Some sample_bundle else None),
     argon = (\<lambda>_ _ _ _ _ n. replicate n CHR ''k''), otp_valid = (\<lambda>_ code secret. code = secret), by_item = (\<lambda>x. x), range_first = hd\<rparr>"

definition sample_team :: "unit teamenv" where
  "sample_team = siteenv.extend ((sample_site (no_servers\<lparr>known_teams := [7, 8],
       cats := [(2, \<lparr>cat_team = 8, cat_name = ''c'', cat_sort = 0\<rparr>)], cat_seq := 2\<rparr>))\<lparr>tabs := \<lparr>
       users = [(1, \<lparr>username = ''u'', email = [], password = [], salt = [], is_admin = False, verified = True, totp = Some ''777''\<rparr>)],
       teams = [(7, site_team), (8, site_team)], m_team_user = [], users_config = [], categories = []\<rparr>\<rparr>)
     \<lparr>sent = [], writes = (\<lambda>_. True)\<rparr>"

definition sample_import :: "string \<Rightarrow> teamImportRequest" where
  "sample_import code = \<lparr>ir_code = code, ir_password = [], ir_encrypted = None, ir_data = ''b'', ir_trust = False\<rparr>"

definition sample_export :: "string \<Rightarrow> teamExportAuthRequest" where
  "sample_export code = \<lparr>xr_code = code, xr_password = ''long enough'', xr_skip = None\<rparr>"

abbreviation run_import where
  "run_import \<equiv> importTeam sample_codec sample_ssh sample_parsers (page_request 7 [] []) (Some (sample_import ''123'')) sample_team"

theorem import_tenant_isolation_witness:
  "team_rows 8 (db (snd run_import)) = team_rows 8 (db sample_team) \<and>
   map_of (teams (tabs (snd run_import))) 8 = map_of (teams (tabs sample_team)) 8 \<and>
   map (name \<circ> snd) (teams (tabs (snd run_import))) = [''new'', ''ops''] \<and>
   map (srv_name \<circ> snd) (srvs (db (snd run_import))) = [''nas'']"
proof (intro conjI)
  have "team_rows 8 (db (snd run_import)) = team_rows 8 (db sample_team) \<and>
    map_of (teams (tabs (snd run_import))) 8 = map_of (teams (tabs sample_team)) 8 \<and>
    (tabs (snd run_import))\<lparr>teams := []\<rparr> = (tabs sample_team)\<lparr>teams := []\<rparr>"
    by (rule conjunct2 [OF import_tenant_isolation])
      (auto simp: sample_team_def sample_site_def siteenv.defs netenv.defs sample_net_def conn_ok_def reg_ok_def tidy_def
        no_servers_def has_key_def page_request_def split: if_splits)
  then show "team_rows 8 (db (snd run_import)) = team_rows 8 (db sample_team)"
    "map_of (teams (tabs (snd run_import))) 8 = map_of (teams (tabs sample_team)) 8" by blast+
  show "map (name \<circ> snd) (teams (tabs (snd run_import))) = [''new'', ''ops'']" by code_simp
  show "map (srv_name \<circ> snd) (srvs (db (snd run_import))) = [''nas'']" by code_simp
qed

theorem wrong_code_not_refused_witness:
  "sent (snd run_import) = [((400, ''error''), NoTeamData), ((200, ''ok''), NoTeamData)] \<and>
   map_option name (map_of (teams (tabs (snd run_import))) 7) = Some ''new''"
proof -
  have o: "owner_asks (page_request 7 [] []) ''777'' sample_team" by code_simp
  have w: "\<forall>n. writes sample_team n" by (simp add: sample_team_def siteenv.defs)
  have c: "\<forall>now. \<not> otp_valid sample_codec now (ir_code (sample_import ''123'')) ''777''"
    "\<forall>now. \<not> otp_valid sample_codec now (xr_code (sample_export ''123'')) ''777''"
    "ir_code (sample_import ''123'') \<noteq> []" "xr_code (sample_export ''123'') \<noteq> []"
    by (simp_all add: sample_codec_def sample_import_def sample_export_def)
  have d: "decodeTeamImportBundle sample_codec (hub_ciphers sample_team) (sample_import ''123'') = Some sample_bundle"
    by (simp add: decodeTeamImportBundle_def sample_import_def sample_codec_def hasJSON_def trim_space_def is_space_def)
  note go = conjunct2 [OF wrong_code_not_refused [OF o w c d, unfolded Let_def]]
  show ?thesis unfolding go
  proof
    let ?t = "sample_team\<lparr>calls := Suc (Suc (calls sample_team)), reads := Suc (reads sample_team), sent := sent sample_team @ [((400, ''error''), NoTeamData)]\<rparr>"
    let ?run = "import_bundle sample_codec sample_ssh sample_parsers (page_request 7 [] []) (hr_tid (page_request 7 [] [])) (ir_trust (sample_import ''123'')) sample_bundle ?t"
    show "sent (snd ?run) = [((400, ''error''), NoTeamData), ((200, ''ok''), NoTeamData)]" by code_simp
    show "map_option name (map_of (teams (tabs (snd ?run))) 7) = Some ''new''" by code_simp
  qed
qed

theorem applyTeamImport_atomic_witness:
  "db (snd (applyTeamImport sample_codec sample_ssh sample_parsers 9 sample_bundle False sample_team)) =
     roll_back (db sample_team) (db (snd (applyTeamImport sample_codec sample_ssh sample_parsers 9 sample_bundle False sample_team)))"
proof -
  let ?run = "applyTeamImport sample_codec sample_ssh sample_parsers 9 sample_bundle False sample_team"
  have "fst ?run = Inl (OtherTeamErr ErrConstraint)" by code_simp
  from applyTeamImport_atomic [OF run_of_fst [OF this]] have "db (snd ?run) = roll_back (db sample_team) (db (snd ?run)) \<or>
     (\<exists>u. outcomes u (calls u) = Lost \<and> snd ?run = u\<lparr>calls := Suc (calls u)\<rparr>)" by blast
  moreover have "outcomes (snd ?run) (calls (snd ?run) - 1) = Done" by code_simp
  ultimately show ?thesis by fastforce
qed

end
