(* ===== verification/Team_Roundtrip.thy ===== *)
theory Team_Roundtrip
  imports Team_Transfer Credential_Migration "HOL-Library.Char_ord" "HOL-Library.List_Lexorder"
begin

text \<open>
  An imported configuration exported again: the same team, categories, keys, rules, notifications, page and servers,
  in the normal form the import gives them and under new identifiers, with every credential readable.
\<close>

declare map_of_eq_Some_iff [simp del]

section \<open>Tables in the order of their identifiers\<close>

lemma insort_greatest: "(\<And>y. y \<in> set ys \<Longrightarrow> f y < f x) \<Longrightarrow> insort_key f x ys = ys @ [x]"
proof (induction ys)
  case (Cons y ys)
  from Cons.prems [of y] have "\<not> f x \<le> f y" by simp
  moreover from Cons have "insort_key f x ys = ys @ [x]" by simp
  ultimately show ?case by simp
qed simp

text \<open>Rows with the next identifiers of a sequence come last, in the order they were inserted.\<close>

definition fresh_rows :: "int \<Rightarrow> (int \<times> 'r) list \<Rightarrow> bool" where
  "fresh_rows n rows \<longleftrightarrow> map fst rows = map (\<lambda>k. n + 1 + int k) [0..<length rows]"

lemma fresh_rows_Nil [simp]: "fresh_rows n []"
  by (simp add: fresh_rows_def)

lemma fresh_rows_snoc [simp]: "fresh_rows n (rows @ [(i, r)]) \<longleftrightarrow> fresh_rows n rows \<and> i = n + 1 + int (length rows)"
  by (auto simp: fresh_rows_def)

lemma fresh_rows_Cons: "fresh_rows n ((n + 1, r) # rows) = fresh_rows (n + 1) rows"
proof -
  have "map (\<lambda>k. n + 1 + int k) [0..<Suc (length rows)] = (n + 1) # map (\<lambda>k. n + 1 + 1 + int k) [0..<length rows]"
    by (simp add: upt_conv_Cons map_Suc_upt [symmetric] del: upt_Suc)
  then show ?thesis by (simp add: fresh_rows_def)
qed

lemma fresh_rows_bounds: "fresh_rows n rows \<Longrightarrow> x \<in> set rows \<Longrightarrow> n < fst x \<and> fst x \<le> n + int (length rows)"
proof -
  assume f: "fresh_rows n rows" and x: "x \<in> set rows"
  from x have "fst x \<in> set (map fst rows)" by simp
  with f show ?thesis by (auto simp: fresh_rows_def)
qed

lemma fresh_rows_distinct: "fresh_rows n rows \<Longrightarrow> distinct (map fst rows)"
  by (simp add: fresh_rows_def distinct_map inj_on_def)

lemma sort_fresh_rows:
  assumes "fresh_rows n rows" "\<And>x. x \<in> set xs \<Longrightarrow> fst x \<le> n" "list_all p rows"
  shows "sort_key fst (filter p (rev rows @ xs)) = sort_key fst (filter p xs) @ rows"
  using assms(1,3)
proof (induction rows rule: rev_induct)
  case (snoc x rows)
  obtain i r where x: "x = (i, r)" by fastforce
  with snoc have IH: "sort_key fst (filter p (rev rows @ xs)) = sort_key fst (filter p xs) @ rows" and px: "p x"
    and f: "fresh_rows n rows" "i = n + 1 + int (length rows)" by auto
  have "fst y < fst x" if "y \<in> set (rev rows @ xs)" for y
    using that fresh_rows_bounds [OF f(1), of y] assms(2) [of y] f(2) x by (cases "y \<in> set rows") auto
  then have "insort_key fst x (sort_key fst (filter p (rev rows @ xs))) = sort_key fst (filter p (rev rows @ xs)) @ [x]"
    by (intro insort_greatest) auto
  with px IH show ?case by simp
qed simp

lemma orTeamErr_Inr_iff: "orTeamErr m s = (Inr x, t) \<longleftrightarrow> m s = (Inr x, t)"
  by (cases "m s"; cases "fst (m s)") (auto simp: orTeamErr_def tryE_run raise_def ret_def)

text \<open>A run that only moved the database, the calls and the draws.\<close>

definition moved :: "'z srvenv_scheme \<Rightarrow> 'z srvenv_scheme \<Rightarrow> bool" where
  "moved s t \<longleftrightarrow> t = s\<lparr>calls := calls t, draws := draws t, db := db t\<rparr>"

lemma moved_refl [simp]: "moved s s"
  by (simp add: moved_def)

lemma moved_trans [trans]:
  assumes "moved s t" "moved t u"
  shows "moved s u"
proof -
  have "u = t\<lparr>calls := calls u, draws := draws u, db := db u\<rparr>" using assms(2) by (simp add: moved_def)
  also have "\<dots> = s\<lparr>calls := calls u, draws := draws u, db := db u\<rparr>"
    by (subst assms(1) [unfolded moved_def]) simp
  finally show ?thesis by (simp add: moved_def)
qed

lemma moved_steps [simp]:
  "moved s (s\<lparr>calls := n\<rparr>)" "moved s (s\<lparr>draws := m\<rparr>)" "moved s (s\<lparr>calls := n, db := d\<rparr>)" "moved s (s\<lparr>db := d\<rparr>)"
  by (simp_all add: moved_def)

lemma moved_vault: "moved s t \<Longrightarrow> vault C key t = vault C key s"
  by (metis moved_def vault_updates)

lemma vault_encrypt:
  assumes "vault C mk s"
  shows "hub_encrypt p (KeyContentContext i) s = (Inr c, t) \<Longrightarrow> encrypt_Decrypt C c mk (KeyContentContext i) = Inr p \<and> t = s\<lparr>draws := Suc (draws s)\<rparr> \<and> c \<noteq> []"
    "hub_encrypt p (KeyPasswordContext i) s = (Inr c, t) \<Longrightarrow> encrypt_Decrypt C c mk (KeyPasswordContext i) = Inr p \<and> t = s\<lparr>draws := Suc (draws s)\<rparr> \<and> c \<noteq> []"
    "hub_encrypt p (SSHPasswordContext i) s = (Inr c, t) \<Longrightarrow> encrypt_Decrypt C c mk (SSHPasswordContext i) = Inr p \<and> t = s\<lparr>draws := Suc (draws s)\<rparr> \<and> c \<noteq> []"
    "hub_encrypt p (AgentPrivateKeyContext i) s = (Inr c, t) \<Longrightarrow> encrypt_Decrypt C c mk (AgentPrivateKeyContext i) = Inr p \<and> t = s\<lparr>draws := Suc (draws s)\<rparr> \<and> c \<noteq> []"
  using hub_encrypt_Inr [OF _ assms, of p "KeyContent i"] hub_encrypt_Inr [OF _ assms, of p "KeyPassword i"]
    hub_encrypt_Inr [OF _ assms, of p "SSHPassword i"] hub_encrypt_Inr [OF _ assms, of p "AgentPrivateKey i"] by simp_all

section \<open>Keys\<close>

text \<open>The row of an imported key, which reads as the key.\<close>

definition key_stored :: "ciphers \<Rightarrow> string \<Rightarrow> int \<Rightarrow> teamExportKey \<Rightarrow> int \<times> key_row \<Rightarrow> bool" where
  "key_stored C mk tid k = (\<lambda>(i, r). k_team r = tid \<and> export_one_key C mk (i, r) = Inr (k\<lparr>ek_ref := i\<rparr>))"

lemma import_key_Inr:
  fixes s :: "('r, 'z) netenv_scheme"
  assumes "import_key tid k s = (Inr i, t)" "vault C mk s"
  shows "i = key_seq (db s) + 1 \<and> moved s t \<and>
    (\<exists>r. key_stored C mk tid k (i, r) \<and> db t = (db s)\<lparr>cred_keys := (i, r) # cred_keys (db s), key_seq := i\<rparr>)"
proof -
  from assms(1) obtain s1 s2 s3 content pw where
    1: "exec_db_val (insert_key tid (ek_name k)) s = (Inr i, s1)" and
    2: "hub_encrypt (ek_content k) (KeyContentContext i) s1 = (Inr content, s2)" and
    3: "(case ek_password k of None \<Rightarrow> ret [] | Some p \<Rightarrow> orTeamErr (hub_encrypt p (KeyPasswordContext i))) s2 = (Inr pw, s3)" and
    4: "exec_db (\<lambda>d. Some (set_key i content (nullableCiphertext pw) d)) s3 = (Inr (), t)"
    by (auto simp: import_key_def bindE_Inr_iff orTeamErr_Inr_iff ret_def)
  from 1 have i: "i = key_seq (db s) + 1" and d1: "db s1 = (db s)\<lparr>cred_keys := (i, \<lparr>k_team = tid, k_name = ek_name k, k_content = [], k_password = None\<rparr>) # cred_keys (db s), key_seq := i\<rparr>"
    and s1: "moved s s1"
    by (auto simp: exec_db_val_Inr_iff insert_key_def split: if_splits)
  have v1: "vault C mk s1" using assms(2) moved_vault [OF s1] by simp
  note e = vault_encrypt(1) [OF v1 2]
  have v2: "vault C mk s2" using v1 e by simp
  have pw: "(case ek_password k of None \<Rightarrow> pw = [] | Some p \<Rightarrow> pw \<noteq> [] \<and> encrypt_Decrypt C pw mk (KeyPasswordContext i) = Inr p) \<and> moved s2 s3 \<and> db s3 = db s2"
  proof (cases "ek_password k")
    case None
    with 3 show ?thesis by (simp add: ret_def)
  next
    case (Some p)
    with 3 have "hub_encrypt p (KeyPasswordContext i) s2 = (Inr pw, s3)" by (simp add: orTeamErr_Inr_iff)
    from vault_encrypt(2) [OF v2 this] Some show ?thesis by simp
  qed
  let ?r = "\<lparr>k_team = tid, k_name = ek_name k, k_content = content, k_password = nullableCiphertext pw\<rparr>"
  have "moved s2 t" using 4 pw by (auto simp: exec_db_Inr_iff intro: moved_trans)
  moreover have "moved s s2" using s1 e by (auto intro: moved_trans)
  moreover have "db t = (db s)\<lparr>cred_keys := (i, ?r) # cred_keys (db s), key_seq := i\<rparr>"
    using 4 pw d1 e by (auto simp: exec_db_Inr_iff set_key_def)
  moreover have "key_stored C mk tid k (i, ?r)"
    using e pw by (auto simp: key_stored_def export_one_key_def nullableCiphertext_def Let_def split: option.splits)
  ultimately show ?thesis using i moved_trans by blast
qed

definition add_key :: "int \<times> key_row \<Rightarrow> server_db \<Rightarrow> server_db" where
  "add_key x d = d\<lparr>cred_keys := x # cred_keys d, key_seq := fst x\<rparr>"

definition add_category :: "int \<times> category_row \<Rightarrow> server_db \<Rightarrow> server_db" where
  "add_category x d = d\<lparr>cats := x # cats d, cat_seq := fst x\<rparr>"

lemma fold_add:
  "cred_keys (fold add_key rows d) = rev rows @ cred_keys d" "cats (fold add_category cs d) = rev cs @ cats d"
  "\<exists>n. fold add_key rows d = d\<lparr>cred_keys := rev rows @ cred_keys d, key_seq := n\<rparr>"
  "\<exists>n. fold add_category cs d = d\<lparr>cats := rev cs @ cats d, cat_seq := n\<rparr>"
proof -
  show 1: "\<exists>n. fold add_key rows d = d\<lparr>cred_keys := rev rows @ cred_keys d, key_seq := n\<rparr>"
  proof (induction rows arbitrary: d)
    case Nil
    then show ?case by (auto intro: exI [of _ "key_seq d"])
  next
    case (Cons x rows)
    from Cons [of "add_key x d"] show ?case by (auto simp: add_key_def)
  qed
  show 2: "\<exists>n. fold add_category cs d = d\<lparr>cats := rev cs @ cats d, cat_seq := n\<rparr>"
  proof (induction cs arbitrary: d)
    case Nil
    then show ?case by (auto intro: exI [of _ "cat_seq d"])
  next
    case (Cons x cs)
    from Cons [of "add_category x d"] show ?case by (auto simp: add_category_def)
  qed
  show "cred_keys (fold add_key rows d) = rev rows @ cred_keys d" using 1 by auto
  show "cats (fold add_category cs d) = rev cs @ cats d" using 2 by auto
qed

text \<open>A loop that inserts one row per element.\<close>

lemma map_refs_Inr:
  fixes s :: "('r, 'z) netenv_scheme" and f :: "'a \<Rightarrow> ('r, 'z, int) team_io"
  assumes step: "\<And>x s i u. vault C mk s \<Longrightarrow> f x s = (Inr i, u) \<Longrightarrow>
      i = sq (db s) + 1 \<and> moved s u \<and> (\<exists>r. stored x (i, r) \<and> db u = add (i, r) (db s))"
    and sq: "\<And>x d. sq (add x d) = fst x"
    and run: "map_refs xs ref f m s = (Inr m', t)" "vault C mk s"
  shows "moved s t \<and> (\<exists>rows. fresh_rows (sq (db s)) rows \<and> list_all2 stored xs rows \<and> db t = fold add rows (db s) \<and>
    m' = fold (\<lambda>(x, i, _). AList.update (ref x) i) (zip xs rows) m)"
  using run
proof (induction xs arbitrary: m s)
  case Nil
  then show ?case by (auto simp: ret_def intro!: exI [of _ "[]"])
next
  case (Cons x xs)
  from Cons.prems(1) obtain i u where 1: "f x s = (Inr i, u)" and 2: "map_refs xs ref f (AList.update (ref x) i m) u = (Inr m', t)"
    by (auto simp: bindE_Inr_iff)
  from step [OF Cons.prems(2) 1] obtain r where i: "i = sq (db s) + 1" "moved s u" "stored x (i, r)" and d: "db u = add (i, r) (db s)" by blast
  have v: "vault C mk u" using Cons.prems(2) moved_vault [OF i(2)] by simp
  from Cons.IH [OF 2 v] obtain rows where rows: "moved u t" "fresh_rows i rows" "list_all2 stored xs rows" "db t = fold add rows (db u)"
    and m': "m' = fold (\<lambda>(x, i, _). AList.update (ref x) i) (zip xs rows) (AList.update (ref x) i m)" by (auto simp: d sq)
  have "fresh_rows (sq (db s)) ((i, r) # rows)" using rows(2) i(1) by (simp add: fresh_rows_Cons)
  with i(2,3) rows m' d moved_trans show ?case by (intro conjI exI [of _ "(i, r) # rows"]) auto
qed

lemma importKeys_Inr:
  fixes s :: "('r, 'z) netenv_scheme"
  assumes "importKeys tid ks s = (Inr m', t)" "vault C mk s"
  shows "moved s t \<and> (\<exists>rows. fresh_rows (key_seq (db s)) rows \<and> list_all2 (key_stored C mk tid) ks rows \<and> db t = fold add_key rows (db s) \<and>
    m' = fold (\<lambda>(x, i, _). AList.update (ek_ref x) i) (zip ks rows) [])"
  by (rule map_refs_Inr [of C mk _ key_seq _ add_key, OF _ _ assms(1) [unfolded importKeys_def] assms(2)])
    (simp_all add: add_key_def, drule (1) import_key_Inr, simp)

section \<open>Categories\<close>

definition category_stored :: "int \<Rightarrow> teamExportCategory \<Rightarrow> int \<times> category_row \<Rightarrow> bool" where
  "category_stored tid c = (\<lambda>(i, r). r = \<lparr>cat_team = tid, cat_name = ec_name c, cat_sort = ec_sort c\<rparr>)"

definition bundle_categories :: "teamExportBundle \<Rightarrow> teamExportCategory list" where
  "bundle_categories data = (if eb_categories data = [] then [\<lparr>ec_ref = 0, ec_name = ''Default'', ec_sort = 0\<rparr>] else eb_categories data)"

lemma importCategories_Inr:
  fixes s :: "('r, 'z) netenv_scheme"
  assumes "importCategories tid (eb_categories data) s = (Inr m', t)" "vault C mk s"
  shows "moved s t \<and> (\<exists>rows. fresh_rows (cat_seq (db s)) rows \<and> list_all2 (category_stored tid) (bundle_categories data) rows \<and>
    db t = fold add_category rows (db s) \<and> m' = fold (\<lambda>(x, i, _). AList.update (ec_ref x) i) (zip (bundle_categories data) rows) [])"
  by (rule map_refs_Inr [of C mk _ cat_seq _ add_category, OF _ _ assms(1) [unfolded importCategories_def, folded bundle_categories_def] assms(2)])
    (auto simp: orTeamErr_Inr_iff exec_db_val_Inr_iff insert_category_sorted_def add_category_def category_stored_def split: if_splits)

text \<open>The identifier an entry of the bundle got.\<close>

lemma map_of_refs: "a \<notin> ref ` fst ` set ps \<Longrightarrow> map_of (fold (\<lambda>(x, i, _). AList.update (ref x) i) ps m) a = map_of m a"
  by (induction ps arbitrary: m) (auto simp: AList.update_conv')

lemma lookup_refs:
  assumes "distinct (map ref xs)" "length rows = length xs" "k < length xs"
  shows "lookup_ref (fold (\<lambda>(x, i, _). AList.update (ref x) i) (zip xs rows) m) (ref (xs ! k)) = fst (rows ! k)"
proof -
  have "map_of (fold (\<lambda>(x, i, _). AList.update (ref x) i) (zip xs rows) m) (ref (xs ! k)) = Some (fst (rows ! k))"
    using assms
  proof (induction xs arbitrary: rows m k)
    case (Cons x xs)
    obtain y ys where rows: "rows = y # ys" using Cons.prems(2) by (cases rows) auto
    show ?case
    proof (cases k)
      case 0
      have "ref x \<notin> ref ` fst ` set (zip xs ys)" using Cons.prems(1) by (auto dest: set_zip_leftD)
      with map_of_refs [OF this] rows 0 show ?thesis by (cases y) (simp add: AList.update_conv')
    next
      case (Suc j)
      with Cons.IH [of ys j] Cons.prems rows show ?thesis by (cases y) simp
    qed
  qed simp
  then show ?thesis by (simp add: lookup_ref_def)
qed

lemma lookup_no_ref:
  assumes "a \<notin> ref ` set xs"
  shows "lookup_ref (fold (\<lambda>(x, i, _). AList.update (ref x) i) (zip xs rows) []) a = 0"
proof -
  have "a \<notin> ref ` fst ` set (zip xs rows)" using assms by (auto dest: set_zip_leftD)
  from map_of_refs [OF this, of "[]"] show ?thesis by (simp add: lookup_ref_def)
qed

lemma map_refs_rows:
  assumes "distinct (map ref xs)" "length rows = length xs" "m' = fold (\<lambda>(x, i, _). AList.update (ref x) i) (zip xs rows) m"
  shows "map fst rows = map (\<lambda>x. lookup_ref m' (ref x)) xs"
  using lookup_refs [OF assms(1,2)] assms(2,3) by (intro nth_equalityI) simp_all

section \<open>Rules, notifications and the page\<close>

fun run_all :: "('a \<Rightarrow> 'd \<Rightarrow> 'd option) \<Rightarrow> 'a list \<Rightarrow> 'd \<Rightarrow> 'd option" where
  "run_all f [] d = Some d"
| "run_all f (x # xs) d = (case f x d of None \<Rightarrow> None | Some e \<Rightarrow> run_all f xs e)"

lemma forE_statements_Inr:
  fixes s :: "('r, 'z) netenv_scheme"
  shows "forE xs (\<lambda>x. orTeamErr (exec_db (f x))) s = (Inr y, t) \<Longrightarrow> moved s t \<and> run_all f xs (db s) = Some (db t)"
proof (induction xs arbitrary: s)
  case (Cons x xs)
  then obtain u where 1: "exec_db (f x) s = (Inr (), u)" and 2: "forE xs (\<lambda>x. orTeamErr (exec_db (f x))) u = (Inr y, t)"
    by (auto simp: bindE_Inr_iff orTeamErr_Inr_iff)
  from 1 have "moved s u" "f x (db s) = Some (db u)" by (auto simp: exec_db_Inr_iff)
  with Cons.IH [OF 2] moved_trans show ?case by auto
qed (simp add: ret_def)

definition rule_row :: "int \<Rightarrow> teamExportAlert \<Rightarrow> (int \<times> string) \<times> int \<times> int" where
  "rule_row i a = ((i, ea_item a), ea_threshold a, ea_duration a)"

lemma insert_team_rules_Some:
  "run_all (insert_team_rule tid) al d = Some e \<Longrightarrow>
    e = d\<lparr>team_rules := rev (map (rule_row tid) al) @ team_rules d\<rparr> \<and> distinct (map ea_item al) \<and> (\<forall>a \<in> set al. \<not> has_key (team_rules d) (tid, ea_item a))"
proof (induction al arbitrary: d)
  case (Cons a al)
  then obtain d1 where 1: "insert_team_rule tid a d = Some d1" and 2: "run_all (insert_team_rule tid) al d1 = Some e"
    by (auto split: option.splits)
  from 1 have d1: "d1 = d\<lparr>team_rules := rule_row tid a # team_rules d\<rparr>" "\<not> has_key (team_rules d) (tid, ea_item a)"
    by (auto simp: insert_team_rule_def rule_row_def split: if_splits)
  from Cons.IH [OF 2] d1 show ?case by (auto simp: has_key_def rule_row_def split: if_splits)
qed simp

lemma insert_rules_Some:
  "run_all (insert_rule i) al d = Some e \<Longrightarrow>
    e = d\<lparr>rules := rev (map (rule_row i) al) @ rules d\<rparr> \<and> distinct (map ea_item al) \<and> (\<forall>a \<in> set al. \<not> has_key (rules d) (i, ea_item a))"
proof (induction al arbitrary: d)
  case (Cons a al)
  then obtain d1 where 1: "insert_rule i a d = Some d1" and 2: "run_all (insert_rule i) al d1 = Some e"
    by (auto split: option.splits)
  from 1 have d1: "d1 = d\<lparr>rules := rule_row i a # rules d\<rparr>" "\<not> has_key (rules d) (i, ea_item a)"
    by (auto simp: insert_rule_def rule_row_def split: if_splits)
  from Cons.IH [OF 2] d1 show ?case by (auto simp: has_key_def rule_row_def split: if_splits)
qed simp

lemma insert_notifications_Some:
  "run_all (insert_notification tid) ns d = Some e \<Longrightarrow> e = d\<lparr>notifs := notifs d @ map (\<lambda>n. (tid, Module n, Target n)) ns\<rparr>"
proof (induction ns arbitrary: d)
  case (Cons n ns)
  then obtain d1 where 1: "insert_notification tid n d = Some d1" and 2: "run_all (insert_notification tid) ns d1 = Some e"
    by (auto split: option.splits)
  from Cons.IH [OF 2] 1 show ?case by (auto simp: insert_notification_def split: if_splits)
qed simp

lemma importPublicPage_Inr:
  fixes s :: "('r, 'z) siteenv_scheme"
  assumes "importPublicPage tid page s = (Inr y, t)"
  shows "moved s t \<and> (case page of
      None \<Rightarrow> db t = db s
    | Some p \<Rightarrow> \<exists>q. normalize_page (url_host s) (conf_domain s) (page_update p) = Some q \<and> db t = (db s)\<lparr>public_pages := (tid, q) # public_pages (db s)\<rparr>)"
  using assms
  by (auto simp: importPublicPage_def ret_def bindE_Inr_iff gets_def raise_def orTeamErr_Inr_iff exec_db_Inr_iff insert_page_def
      split: option.splits if_splits)

text \<open>The order of items in a collation depends on the rows only.\<close>

definition collation_ok :: "team_codec \<Rightarrow> bool" where
  "collation_ok T \<longleftrightarrow> (\<forall>xs ys. distinct (map ea_item xs) \<and> mset xs = mset ys \<longrightarrow> by_item T xs = by_item T ys)"

lemma read_alerts_imported:
  assumes "collation_ok T" "distinct (map ea_item al)" "filter (\<lambda>((j, _), _). j = i) rs = []"
  shows "read_alerts T i (rev (map (rule_row i) al) @ rs) = by_item T al"
proof -
  have "filter (\<lambda>((j, _), _). j = i) (rev (map (rule_row i) al) @ rs) = rev (map (rule_row i) al)"
    unfolding filter_append assms(3) by (simp add: filter_id_conv rule_row_def)
  moreover have "map (\<lambda>((_, item), c). export_alert item c) (rev (map (rule_row i) al)) = rev al"
    by (simp add: rev_map [symmetric] comp_def rule_row_def export_alert_def map_idI)
  moreover have "by_item T (rev al) = by_item T al" using assms(1,2) unfolding collation_ok_def
    by (metis mset_rev)
  ultimately show ?thesis by (simp add: read_alerts_def)
qed

section \<open>Servers\<close>

text \<open>What refers to a server.\<close>

record server_view =
  sv_details :: "server_details option"
  sv_runtime :: "server_runtime option"
  sv_adv :: "server_adv option"
  sv_ssh :: "ssh_row option"
  sv_agent :: "agent_row option"
  sv_enroll :: "enroll_row option"
  sv_rules :: "((int \<times> string) \<times> int \<times> int) list"

definition view :: "server_db \<Rightarrow> int \<Rightarrow> server_view" where
  "view d i = \<lparr>sv_details = map_of (details d) i, sv_runtime = map_of (runtime d) i, sv_adv = map_of (advanced d) i,
     sv_ssh = map_of (sshs d) i, sv_agent = map_of (agents d) i, sv_enroll = map_of (enrolls d) i,
     sv_rules = filter (\<lambda>((j, _), _). j = i) (rules d)\<rparr>"

definition empty_view :: server_view where
  "empty_view = \<lparr>sv_details = None, sv_runtime = None, sv_adv = None, sv_ssh = None, sv_agent = None, sv_enroll = None, sv_rules = []\<rparr>"

text \<open>Nothing refers to a server that was never given out.\<close>

definition no_orphans :: "server_db \<Rightarrow> bool" where
  "no_orphans d \<longleftrightarrow> (\<forall>i. srv_seq d < i \<longrightarrow> view d i = empty_view)"

text \<open>The connection of an imported server.\<close>

definition ssh_stored :: "ciphers \<Rightarrow> string \<Rightarrow> gossh \<Rightarrow> (int, int) table \<Rightarrow> teamExportSSH \<Rightarrow> int \<Rightarrow> ssh_row \<Rightarrow> bool" where
  "ssh_stored C mk G km h i r \<longleftrightarrow> ssh_address r = eh_address h \<and> ssh_port r = eh_port h \<and> ssh_username r = eh_username h \<and>
     ssh_key_id r = lookup_ref km (eh_key_ref h) \<and> encrypt_Decrypt C (ssh_password r) mk (SSHPasswordContext i) = Inr (eh_password h) \<and>
     (if eh_host_key h = [] then ssh_host_key r = None
      else \<exists>k. NormalizeHostKey G (eh_host_key h) = Inr k \<and> ssh_host_key r = Some k)"

definition agent_stored :: "ciphers \<Rightarrow> string \<Rightarrow> int \<Rightarrow> teamExportAgent \<Rightarrow> int \<Rightarrow> agent_row \<Rightarrow> bool" where
  "agent_stored C mk typ a i r \<longleftrightarrow> (\<exists>pk. r = imported_agent typ a pk \<and>
     (typ = 1 \<longrightarrow> encrypt_Decrypt C pk mk (AgentPrivateKeyContext i) = Inr (eg_private_key a)))"

definition connection_stored :: "ciphers \<Rightarrow> string \<Rightarrow> gossh \<Rightarrow> (int, int) table \<Rightarrow> teamExportServer \<Rightarrow> int \<Rightarrow> server_view \<Rightarrow> bool" where
  "connection_stored C mk G km x i v \<longleftrightarrow>
     (es_type x = 0 \<longrightarrow> (\<exists>h r. es_ssh x = Some h \<and> sv_ssh v = Some r \<and> ssh_stored C mk G km h i r)) \<and>
     (es_type x = 1 \<or> es_type x = 2 \<longrightarrow> sv_enroll v = es_enroll x \<and>
        (case es_agent x of None \<Rightarrow> sv_agent v = None | Some a \<Rightarrow> \<exists>r. sv_agent v = Some r \<and> agent_stored C mk (es_type x) a i r))"

text \<open>A step that changes what refers to the server \<open>i\<close> only.\<close>

definition on_view :: "int \<Rightarrow> server_view \<Rightarrow> server_db \<Rightarrow> server_db \<Rightarrow> bool" where
  "on_view i v d e \<longleftrightarrow> view e i = v \<and> (\<forall>j. j \<noteq> i \<longrightarrow> view e j = view d j) \<and>
     e = d\<lparr>details := details e, runtime := runtime e, advanced := advanced e, sshs := sshs e, agents := agents e, enrolls := enrolls e, rules := rules e\<rparr>"

lemma on_view_refl: "view d i = v \<Longrightarrow> on_view i v d d"
  by (simp add: on_view_def)

lemma on_view_trans:
  assumes "on_view i v d e" "on_view i w e f"
  shows "on_view i w d f"
proof -
  have "f = e\<lparr>details := details f, runtime := runtime f, advanced := advanced f, sshs := sshs f, agents := agents f, enrolls := enrolls f, rules := rules f\<rparr>"
    using assms(2) by (simp add: on_view_def)
  also have "\<dots> = d\<lparr>details := details f, runtime := runtime f, advanced := advanced f, sshs := sshs f, agents := agents f, enrolls := enrolls f, rules := rules f\<rparr>"
    by (subst conjunct2 [OF conjunct2 [OF assms(1) [unfolded on_view_def]]]) simp
  finally show ?thesis using assms by (auto simp: on_view_def)
qed

lemma details_view:
  assumes "insert_details i x r d = Some e"
  shows "on_view i ((view d i)\<lparr>sv_details := Some x, sv_runtime := Some r\<rparr>) d e"
  using assms by (auto simp: insert_details_def on_view_def view_def split: if_splits)

lemma advanced_view:
  assumes "insert_advanced i x d = Some e"
  shows "on_view i ((view d i)\<lparr>sv_adv := Some x\<rparr>) d e"
  using assms by (auto simp: insert_advanced_def on_view_def view_def split: if_splits)

lemma ssh_view:
  assumes "insert_ssh i r d = Some e"
  shows "on_view i ((view d i)\<lparr>sv_ssh := Some r\<rparr>) d e"
  using assms by (auto simp: insert_ssh_def on_view_def view_def split: if_splits)

lemma agent_view:
  assumes "import_agent i r d = Some (e, AgentStored)"
  shows "on_view i ((view d i)\<lparr>sv_agent := Some r\<rparr>) d e"
  using assms by (auto simp: import_agent_def on_view_def view_def split: if_splits)

lemma token_view:
  assumes "import_token i r d = Some e"
  shows "on_view i ((view d i)\<lparr>sv_enroll := Some r\<rparr>) d e"
  using assms by (auto simp: import_token_def on_view_def view_def split: if_splits)

lemma rules_view:
  assumes "run_all (insert_rule i) al d = Some e"
  shows "on_view i ((view d i)\<lparr>sv_rules := rev (map (rule_row i) al) @ sv_rules (view d i)\<rparr>) d e \<and> distinct (map ea_item al)"
proof -
  have 1: "filter (\<lambda>((j, _), _). j = k) (rev (map (rule_row i) al)) = (if k = i then rev (map (rule_row i) al) else [])" for k
    by (induction al) (auto simp: rule_row_def)
  from insert_rules_Some [OF assms] have "e = d\<lparr>rules := rev (map (rule_row i) al) @ rules d\<rparr>" "distinct (map ea_item al)" by blast+
  then show ?thesis by (auto simp: on_view_def view_def 1)
qed

lemma import_ssh_Inr:
  fixes s :: "('r, 'z) netenv_scheme"
  assumes "import_ssh G i km trust h s = (Inr y, t)" "vault C mk s"
  shows "moved s t \<and> (\<exists>r. ssh_stored C mk G km h i r \<and> on_view i ((view (db s) i)\<lparr>sv_ssh := Some r\<rparr>) (db s) (db t))"
proof -
  from assms(1) have c: "\<not> (eh_host_key h = [] \<and> \<not> trust)" by (auto simp: import_ssh_def raise_def split: if_splits)
  with assms(1) obtain pw u hk v where
    1: "hub_encrypt (eh_password h) (SSHPasswordContext i) s = (Inr pw, u)" and
    2: "(if eh_host_key h = [] then ret None
         else case NormalizeHostKey G (eh_host_key h) of Inl _ \<Rightarrow> raise errInvalidTeamImport | Inr k \<Rightarrow> ret (Some k)) u = (Inr hk, v)" and
    3: "exec_db (insert_ssh i \<lparr>ssh_address = eh_address h, ssh_port = eh_port h, ssh_username = eh_username h, ssh_key_id = lookup_ref km (eh_key_ref h),
           ssh_password = pw, ssh_host_key = hk, ssh_trust_legacy = (eh_host_key h = [])\<rparr>) v = (Inr (), t)"
    by (auto simp: import_ssh_def bindE_Inr_iff orTeamErr_Inr_iff simp del: if_split)
  let ?r = "\<lparr>ssh_address = eh_address h, ssh_port = eh_port h, ssh_username = eh_username h, ssh_key_id = lookup_ref km (eh_key_ref h),
           ssh_password = pw, ssh_host_key = hk, ssh_trust_legacy = (eh_host_key h = [])\<rparr>"
  note e = vault_encrypt(3) [OF assms(2) 1]
  from 2 have hk: "v = u" "if eh_host_key h = [] then hk = None else \<exists>k. NormalizeHostKey G (eh_host_key h) = Inr k \<and> hk = Some k"
    by (auto simp: ret_def raise_def split: if_splits sum.splits)
  from 3 have "insert_ssh i ?r (db v) = Some (db t)" "moved v t" by (auto simp: exec_db_Inr_iff)
  moreover from this e hk(1) have "moved s t" using moved_steps(2) [of s "Suc (draws s)"] moved_trans by blast
  moreover have "ssh_stored C mk G km h i ?r" using e hk(2) by (simp add: ssh_stored_def)
  ultimately show ?thesis using ssh_view [of i ?r "db v" "db t"] hk(1) e by auto
qed

lemma import_agent_row_Inr:
  fixes s :: "('r, 'z) netenv_scheme"
  assumes "import_agent_row i x a s = (Inr y, t)" "vault C mk s"
  shows "moved s t \<and> (\<exists>r. agent_stored C mk (es_type x) a i r \<and> on_view i ((view (db s) i)\<lparr>sv_agent := Some r\<rparr>) (db s) (db t))"
proof -
  from assms(1) obtain pk u st v where
    1: "(if es_type x = 1 then orTeamErr (hub_encrypt (eg_private_key a) (AgentPrivateKeyContext i)) else ret []) s = (Inr pk, u)" and
    e: "exec_db_val (import_agent i (imported_agent (es_type x) a pk)) u = (Inr st, v)" and
    r: "(if st = AgentUIDTaken then raise (UIDConflict \<lparr>uc_server = es_name x, uc_uid = eg_uid a, uc_source = ''database'', uc_conflicting = []\<rparr>)
         else ret ()) v = (Inr y, t)"
    unfolding import_agent_row_def bindE_Inr_iff orTeamErr_Inr_iff by blast
  from r have "st \<noteq> AgentUIDTaken" "v = t" by (auto simp: raise_def ret_def split: if_splits)
  with e have 2: "exec_db_val (import_agent i (imported_agent (es_type x) a pk)) u = (Inr AgentStored, t)" by (cases st) auto
  have u: "moved s u" "db u = db s" "es_type x = 1 \<longrightarrow> encrypt_Decrypt C pk mk (AgentPrivateKeyContext i) = Inr (eg_private_key a)"
    using 1 vault_encrypt(4) [OF assms(2), of "eg_private_key a" i pk u] by (auto simp: ret_def orTeamErr_Inr_iff split: if_splits)
  from 2 have "import_agent i (imported_agent (es_type x) a pk) (db s) = Some (db t, AgentStored)" "moved u t" using u by (auto simp: exec_db_val_Inr_iff)
  from agent_view [OF this(1)] u(3) have "agent_stored C mk (es_type x) a i (imported_agent (es_type x) a pk)"
    "on_view i ((view (db s) i)\<lparr>sv_agent := Some (imported_agent (es_type x) a pk)\<rparr>) (db s) (db t)"
    by (auto simp: agent_stored_def)
  with moved_trans [OF u(1) \<open>moved u t\<close>] show ?thesis by blast
qed

text \<open>The columns a connection does not touch.\<close>

definition same_info :: "server_view \<Rightarrow> server_view \<Rightarrow> bool" where
  "same_info v w \<longleftrightarrow> sv_details w = sv_details v \<and> sv_runtime w = sv_runtime v \<and> sv_adv w = sv_adv v \<and> sv_rules w = sv_rules v"

lemma import_connection_Inr:
  fixes s :: "('r, 'z) netenv_scheme"
  assumes run: "importServerConnection G i x km trust s = (Inr y, t)" and v: "vault C mk s"
    and none: "sv_agent (view (db s) i) = None" "sv_enroll (view (db s) i) = None"
  shows "moved s t \<and> (\<exists>w. connection_stored C mk G km x i w \<and> same_info (view (db s) i) w \<and> on_view i w (db s) (db t))"
proof -
  consider "es_type x = 0" | "es_type x = 1 \<or> es_type x = 2" "es_type x \<noteq> 0" | "es_type x \<noteq> 0" "es_type x \<noteq> 1" "es_type x \<noteq> 2" by blast
  then show ?thesis
  proof cases
    case 1
    with run obtain h where h: "es_ssh x = Some h" "import_ssh G i km trust h s = (Inr y, t)"
      by (auto simp: importServerConnection_def raise_def split: option.splits)
    from import_ssh_Inr [OF h(2) v] obtain r where r: "moved s t" "ssh_stored C mk G km h i r"
      "on_view i ((view (db s) i)\<lparr>sv_ssh := Some r\<rparr>) (db s) (db t)" by blast
    with 1 h(1) show ?thesis
      by (intro conjI exI [of _ "(view (db s) i)\<lparr>sv_ssh := Some r\<rparr>"]) (simp_all add: connection_stored_def same_info_def)
  next
    case 2
    with run obtain u where
      a: "(case es_agent x of None \<Rightarrow> ret () | Some a \<Rightarrow> import_agent_row i x a) s = (Inr (), u)" and
      b: "(case es_enroll x of None \<Rightarrow> ret () | Some r \<Rightarrow> orTeamErr (exec_db (import_token i r))) u = (Inr y, t)"
      by (auto simp: importServerConnection_def bindE_Inr_iff)
    obtain w where u: "moved s u" "on_view i w (db s) (db u)" "same_info (view (db s) i) w" "sv_enroll w = None"
      and w: "case es_agent x of None \<Rightarrow> sv_agent w = None | Some a \<Rightarrow> \<exists>r. sv_agent w = Some r \<and> agent_stored C mk (es_type x) a i r"
    proof (cases "es_agent x")
      case None
      with a none that [of "view (db s) i"] show thesis by (auto simp: ret_def same_info_def on_view_refl)
    next
      case (Some g)
      with a have "import_agent_row i x g s = (Inr (), u)" by simp
      from import_agent_row_Inr [OF this v] obtain r where "moved s u" "agent_stored C mk (es_type x) g i r"
        "on_view i ((view (db s) i)\<lparr>sv_agent := Some r\<rparr>) (db s) (db u)" by blast
      with Some none that [of "(view (db s) i)\<lparr>sv_agent := Some r\<rparr>"] show thesis by (simp add: same_info_def)
    qed
    have vu: "view (db u) i = w" using u(2) by (simp add: on_view_def)
    show ?thesis
    proof (cases "es_enroll x")
      case None
      with b have "t = u" by (simp add: ret_def)
      with u w 2 None show ?thesis by (auto simp: connection_stored_def)
    next
      case (Some r)
      with b have "import_token i r (db u) = Some (db t)" "moved u t" by (auto simp: orTeamErr_Inr_iff exec_db_Inr_iff)
      from token_view [OF this(1)] this(2) u vu have "moved s t" "on_view i (w\<lparr>sv_enroll := Some r\<rparr>) (db s) (db t)"
        using moved_trans on_view_trans by blast+
      with w u(3) 2 Some show ?thesis
        by (intro conjI exI [of _ "w\<lparr>sv_enroll := Some r\<rparr>"]) (auto simp: connection_stored_def same_info_def split: option.split option.splits)
    qed
  next
    case 3
    with run have "t = s" by (simp add: importServerConnection_def ret_def)
    with 3 show ?thesis by (intro conjI exI [of _ "view (db s) i"]) (auto simp: connection_stored_def same_info_def on_view_refl)
  qed
qed

definition server_stored :: "ciphers \<Rightarrow> string \<Rightarrow> gossh \<Rightarrow> (int, int) table \<Rightarrow> teamExportServer \<Rightarrow> int \<Rightarrow> server_view \<Rightarrow> bool" where
  "server_stored C mk G km x i v \<longleftrightarrow> sv_details v = Some (es_details x) \<and>
     sv_runtime v = Some (normalizeImportedServerInfo (es_type x) (es_runtime x)) \<and>
     sv_adv v = Some (normalizeImportedServerAdvancedInfo (es_type x) (es_adv x)) \<and>
     connection_stored C mk G km x i v \<and> sv_rules v = rev (map (rule_row i) (es_alerts x)) \<and> distinct (map ea_item (es_alerts x))"

definition add_server :: "int \<times> srv_row \<Rightarrow> server_db \<Rightarrow> server_db" where
  "add_server x d = d\<lparr>srvs := x # srvs d, srv_seq := fst x\<rparr>"

lemma view_add_server [simp]: "view (add_server x d) i = view d i"
  by (simp add: view_def add_server_def)

lemma connection_rules: "connection_stored C mk G km x i (v\<lparr>sv_rules := rs\<rparr>) = connection_stored C mk G km x i v"
  by (simp add: connection_stored_def split: option.split)

lemma import_server_Inr:
  fixes s :: "('r, 'z) netenv_scheme"
  assumes run: "import_server G tid cm dflt km trust x s = (Inr i, t)" and v: "vault C mk s" and orphans: "no_orphans (db s)"
  shows "i = srv_seq (db s) + 1 \<and> moved s t \<and> (\<exists>w. server_stored C mk G km x i w \<and>
    on_view i w (add_server (i, imported_server tid cm dflt x) (db s)) (db t))"
proof -
  let ?row = "imported_server tid cm dflt x" and ?rt = "normalizeImportedServerInfo (es_type x) (es_runtime x)"
    and ?av = "normalizeImportedServerAdvancedInfo (es_type x) (es_adv x)"
  from run obtain s1 s2 s3 s4 where
    1: "exec_db_val (insert_server ?row) s = (Inr i, s1)" and
    2: "exec_db (insert_details i (es_details x) ?rt) s1 = (Inr (), s2)" and
    3: "exec_db (insert_advanced i ?av) s2 = (Inr (), s3)" and
    4: "importServerConnection G i x km trust s3 = (Inr (), s4)" and
    5: "forE (es_alerts x) (\<lambda>a. orTeamErr (exec_db (insert_rule i a))) s4 = (Inr (), t)"
    by (auto simp: import_server_def importServerInfo_def importServerAdvancedInfo_def bindE_Inr_iff orTeamErr_Inr_iff ret_def)
  from 1 have i: "i = srv_seq (db s) + 1" and d1: "db s1 = add_server (i, ?row) (db s)" and m1: "moved s s1"
    by (auto simp: exec_db_val_Inr_iff insert_server_def add_server_def split: if_splits)
  have v1: "view (db s1) i = empty_view" using orphans i by (simp add: d1 no_orphans_def)
  from 2 have m2: "moved s1 s2" and d2: "on_view i (empty_view\<lparr>sv_details := Some (es_details x), sv_runtime := Some ?rt\<rparr>) (db s1) (db s2)"
    using details_view [of i "es_details x" ?rt "db s1" "db s2"] v1 by (auto simp: exec_db_Inr_iff)
  let ?v3 = "empty_view\<lparr>sv_details := Some (es_details x), sv_runtime := Some ?rt, sv_adv := Some ?av\<rparr>"
  from 3 have m3: "moved s2 s3" and d3: "on_view i ?v3 (db s2) (db s3)"
    using advanced_view [of i ?av "db s2" "db s3"] d2 by (auto simp: exec_db_Inr_iff on_view_def)
  have v3: "view (db s3) i = ?v3" using d3 by (simp add: on_view_def)
  have "vault C mk s3" using v m1 m2 m3 by (simp add: moved_vault)
  from import_connection_Inr [OF 4 this] v3 obtain w where m4: "moved s3 s4" and w: "connection_stored C mk G km x i w" "same_info ?v3 w" "on_view i w (db s3) (db s4)"
    by (auto simp: empty_view_def)
  have v4: "view (db s4) i = w" using w(3) by (simp add: on_view_def)
  from forE_statements_Inr [OF 5] have m5: "moved s4 t" and r: "run_all (insert_rule i) (es_alerts x) (db s4) = Some (db t)" by blast+
  let ?w = "w\<lparr>sv_rules := rev (map (rule_row i) (es_alerts x))\<rparr>"
  from rules_view [OF r] v4 w(2) have d5: "on_view i ?w (db s4) (db t)" "distinct (map ea_item (es_alerts x))"
    by (simp_all add: same_info_def empty_view_def)
  have "on_view i ?w (db s1) (db t)" using on_view_trans [OF on_view_trans [OF on_view_trans [OF d2 d3] w(3)] d5(1)] .
  moreover have "moved s t" using m1 m2 m3 m4 m5 moved_trans by blast
  moreover have "server_stored C mk G km x i ?w" using w(1,2) d5(2) by (simp add: server_stored_def same_info_def connection_rules)
  ultimately show ?thesis using i d1 by auto
qed


text \<open>A step that adds servers and what refers to them.\<close>

definition on_servers :: "server_db \<Rightarrow> server_db \<Rightarrow> bool" where
  "on_servers d e \<longleftrightarrow> (\<forall>j \<le> srv_seq d. view e j = view d j) \<and> srv_seq d \<le> srv_seq e \<and>
     e = d\<lparr>srvs := srvs e, srv_seq := srv_seq e, details := details e, runtime := runtime e, advanced := advanced e, sshs := sshs e,
       agents := agents e, enrolls := enrolls e, rules := rules e\<rparr>"

lemma on_servers_refl [simp]: "on_servers d d"
  by (simp add: on_servers_def)

lemma on_servers_trans:
  assumes "on_servers d e" "on_servers e f"
  shows "on_servers d f"
proof -
  have "f = e\<lparr>srvs := srvs f, srv_seq := srv_seq f, details := details f, runtime := runtime f, advanced := advanced f, sshs := sshs f,
      agents := agents f, enrolls := enrolls f, rules := rules f\<rparr>"
    using assms(2) by (simp add: on_servers_def)
  also have "\<dots> = d\<lparr>srvs := srvs f, srv_seq := srv_seq f, details := details f, runtime := runtime f, advanced := advanced f, sshs := sshs f,
      agents := agents f, enrolls := enrolls f, rules := rules f\<rparr>"
    by (subst conjunct2 [OF conjunct2 [OF assms(1) [unfolded on_servers_def]]]) simp
  finally show ?thesis using assms by (auto simp: on_servers_def)
qed

lemma add_server_on:
  assumes "i = srv_seq d + 1" "on_view i w (add_server (i, r) d) e"
  shows "on_servers d e \<and> srvs e = (i, r) # srvs d \<and> srv_seq e = i"
proof -
  have e: "e = (add_server (i, r) d)\<lparr>details := details e, runtime := runtime e, advanced := advanced e, sshs := sshs e, agents := agents e,
      enrolls := enrolls e, rules := rules e\<rparr>"
    using assms(2) by (simp add: on_view_def)
  have "srvs e = (i, r) # srvs d" "srv_seq e = i" by (subst e, simp add: add_server_def)+
  moreover from this have "e = d\<lparr>srvs := srvs e, srv_seq := srv_seq e, details := details e, runtime := runtime e, advanced := advanced e,
      sshs := sshs e, agents := agents e, enrolls := enrolls e, rules := rules e\<rparr>"
    using e by (simp add: add_server_def)
  ultimately show ?thesis using assms by (auto simp: on_servers_def on_view_def)
qed

lemma import_servers_Inr:
  fixes s :: "('r, 'z) netenv_scheme"
  assumes "import_loop (import_server G tid cm dflt km trust) xs s = (Inr js, t)" "vault C mk s" "no_orphans (db s)"
  shows "moved s t \<and> on_servers (db s) (db t) \<and> srvs (db t) = rev (zip js (map (imported_server tid cm dflt) xs)) @ srvs (db s) \<and>
    length js = length xs \<and> fresh_rows (srv_seq (db s)) (zip js xs) \<and> list_all2 (\<lambda>x i. server_stored C mk G km x i (view (db t) i)) xs js"
  using assms
proof (induction xs arbitrary: s js)
  case Nil
  then show ?case by (simp add: ret_def)
next
  case (Cons x xs)
  from Cons.prems(1) obtain i u ks where 1: "import_server G tid cm dflt km trust x s = (Inr i, u)"
    and 2: "import_loop (import_server G tid cm dflt km trust) xs u = (Inr ks, t)" and js: "js = i # ks"
    by (auto simp: bindE_Inr_iff ret_def)
  from import_server_Inr [OF 1 Cons.prems(2,3)] obtain w where i: "i = srv_seq (db s) + 1" "moved s u" "server_stored C mk G km x i w"
    and w: "on_view i w (add_server (i, imported_server tid cm dflt x) (db s)) (db u)" by blast
  note on = add_server_on [OF i(1) w]
  have v: "vault C mk u" using Cons.prems(2) moved_vault [OF i(2)] by simp
  have orphans: "no_orphans (db u)" using Cons.prems(3) w on i(1) by (auto simp: no_orphans_def on_view_def)
  note rest = Cons.IH [OF 2 v orphans]
  have "view (db t) i = view (db u) i" using rest on by (auto simp: on_servers_def)
  also have "\<dots> = w" using w by (simp add: on_view_def)
  finally have "server_stored C mk G km x i (view (db t) i)" using i(3) by simp
  moreover have "fresh_rows (srv_seq (db s)) (zip js (x # xs))" using rest i(1) on by (simp add: js fresh_rows_Cons)
  ultimately show ?case using rest on moved_trans [OF i(2)] on_servers_trans by (auto simp: js)
qed


section \<open>A team without configuration\<close>

lemma view_delete_server: "view (delete_server tid i d) j = (if j = i \<and> server_in_team d tid i then empty_view else view d j)"
proof -
  have "filter (\<lambda>((k, _), _). k = j) (delete_where (\<lambda>(k, _) _. k = i) rs) = (if j = i then [] else filter (\<lambda>((k, _), _). k = j) rs)" for rs :: "((int \<times> string) \<times> int \<times> int) list"
    by (induction rs) (auto simp: delete_where_def)
  from this [of "rules d"] show ?thesis by (cases "j = i") (simp_all add: delete_server_def view_def empty_view_def AList.delete_conv')
qed

definition fewer_servers :: "server_db \<Rightarrow> server_db \<Rightarrow> bool" where
  "fewer_servers d e \<longleftrightarrow> (no_orphans d \<longrightarrow> no_orphans e) \<and> set (srvs e) \<subseteq> set (srvs d) \<and>
     e = d\<lparr>srvs := srvs e, details := details e, runtime := runtime e, advanced := advanced e, sshs := sshs e,
       agents := agents e, enrolls := enrolls e, rules := rules e\<rparr>"

lemma delete_fewer: "fewer_servers d (delete_server tid i d)"
proof -
  let ?e = "delete_server tid i d"
  have "set (srvs ?e) \<subseteq> set (srvs d)" by (auto simp: delete_server_def AList.delete_eq)
  moreover have "srv_seq ?e = srv_seq d" by (simp add: delete_server_def)
  moreover from this have "no_orphans d \<longrightarrow> no_orphans ?e" by (simp add: no_orphans_def view_delete_server)
  moreover have "?e = d\<lparr>srvs := srvs ?e, details := details ?e, runtime := runtime ?e, advanced := advanced ?e, sshs := sshs ?e,
      agents := agents ?e, enrolls := enrolls ?e, rules := rules ?e\<rparr>" by (simp add: delete_server_def)
  ultimately show ?thesis by (simp add: fewer_servers_def)
qed

lemma fewer_frame:
  assumes "fewer_servers d e"
  shows "cred_keys e = cred_keys d" "cats e = cats d" "cat_seq e = cat_seq d" "key_seq e = key_seq d" "srv_seq e = srv_seq d"
  by (subst conjunct2 [OF conjunct2 [OF assms [unfolded fewer_servers_def]]], simp)+

lemma fewer_trans:
  assumes "fewer_servers d e" "fewer_servers e f"
  shows "fewer_servers d f"
proof -
  have "f = e\<lparr>srvs := srvs f, details := details f, runtime := runtime f, advanced := advanced f, sshs := sshs f,
      agents := agents f, enrolls := enrolls f, rules := rules f\<rparr>"
    using assms(2) by (simp add: fewer_servers_def)
  also have "\<dots> = d\<lparr>srvs := srvs f, details := details f, runtime := runtime f, advanced := advanced f, sshs := sshs f,
      agents := agents f, enrolls := enrolls f, rules := rules f\<rparr>"
    by (subst conjunct2 [OF conjunct2 [OF assms(1) [unfolded fewer_servers_def]]]) simp
  finally show ?thesis using assms by (auto simp: fewer_servers_def)
qed

lemma delete_team_servers_fewer: "fewer_servers d (delete_team_servers tid d)"
proof -
  have "fewer_servers d (fold (delete_server tid) js d)" for js
  proof (induction js arbitrary: d)
    case (Cons i js)
    from fewer_trans [OF delete_fewer Cons] show ?case by simp
  qed (simp add: fewer_servers_def)
  then show ?thesis by (simp add: delete_team_servers_def)
qed

text \<open>Nothing of the team is left, and identifiers are still below their sequences.\<close>

definition cleared :: "int \<Rightarrow> server_db \<Rightarrow> bool" where
  "cleared tid d \<longleftrightarrow> filter (\<lambda>(_, r). srv_team r = tid) (srvs d) = [] \<and> filter (\<lambda>(_, r). k_team r = tid) (cred_keys d) = [] \<and>
     filter (\<lambda>(_, r). cat_team r = tid) (cats d) = [] \<and> filter (\<lambda>((t, _), _). t = tid) (team_rules d) = [] \<and>
     filter (\<lambda>(t, _). t = tid) (notifs d) = [] \<and> map_of (public_pages d) tid = None"

definition numbered :: "server_db \<Rightarrow> bool" where
  "numbered d \<longleftrightarrow> (\<forall>x \<in> set (srvs d). fst x \<le> srv_seq d) \<and> (\<forall>x \<in> set (cred_keys d). fst x \<le> key_seq d) \<and>
     (\<forall>x \<in> set (cats d). fst x \<le> cat_seq d) \<and> 0 \<le> cat_seq d \<and> no_orphans d"

lemma clearTeamConfig_Inr:
  fixes s :: "('r, 'z) netenv_scheme"
  assumes "clearTeamConfig tid s = (Inr y, t)" "numbered (db s)"
  shows "moved s t \<and> cleared tid (db t) \<and> numbered (db t) \<and> cat_seq (db t) = cat_seq (db s)"
proof -
  from forE_statements_Inr [of "clear_statements tid" "\<lambda>f. f", OF assms(1) [unfolded clearTeamConfig_def]]
  have m: "moved s t" and r: "run_all (\<lambda>f. f) (clear_statements tid) (db s) = Some (db t)" by blast+
  let ?d = "db s" and ?e = "delete_team_servers tid (db s)"
  have f: "fewer_servers ?d ?e" by (rule delete_team_servers_fewer)
  then have e: "cred_keys ?e = cred_keys ?d" "cats ?e = cats ?d" "cat_seq ?e = cat_seq ?d" "key_seq ?e = key_seq ?d" "srv_seq ?e = srv_seq ?d"
    by (simp_all add: fewer_frame)
  have t: "db t = ?e\<lparr>cred_keys := delete_where (\<lambda>_ r. k_team r = tid) (cred_keys ?e), cats := delete_where (\<lambda>_ r. cat_team r = tid) (cats ?e),
      team_rules := delete_where (\<lambda>(t, _) _. t = tid) (team_rules ?e), notifs := filter (\<lambda>(t, _). t \<noteq> tid) (notifs ?e),
      public_pages := AList.delete tid (public_pages ?e)\<rparr>" and srv: "\<not> list_ex (\<lambda>(_, r). srv_team r = tid) (srvs ?e)"
    using r by (auto simp: clear_statements_def delete_team_categories_def split: if_splits)
  have "no_orphans (db t) = no_orphans ?e" by (simp add: t no_orphans_def view_def)
  moreover have "filter (\<lambda>(_, r). srv_team r = tid) (srvs ?e) = []" using srv by (auto simp: filter_empty_conv list_ex_iff)
  ultimately show ?thesis using m f assms(2)
    by (auto simp: t cleared_def numbered_def e fewer_servers_def delete_where_def filter_empty_conv AList.delete_conv')
qed


section \<open>The imported team\<close>

lemma moved_fields:
  assumes "moved s t"
  shows "outcomes t = outcomes s" "tabs t = tabs s" "clock t = clock s"
  by (subst assms [unfolded moved_def], simp)+

lemma moved_site:
  fixes s :: "('r, 'z) siteenv_scheme"
  assumes "moved s t"
  shows "url_host t = url_host s" "conf_domain t = conf_domain s"
  by (subst assms [unfolded moved_def], simp)+

lemma on_servers_frame:
  assumes "on_servers d e"
  shows "cred_keys e = cred_keys d" "cats e = cats d" "team_rules e = team_rules d" "notifs e = notifs d" "public_pages e = public_pages d"
  by (subst conjunct2 [OF conjunct2 [OF assms [unfolded on_servers_def]]], simp)+

text \<open>The configuration of the team in the tables, which reads as the bundle.\<close>

record import_maps =
  kmap :: "(int, int) table"
  cmap :: "(int, int) table"
  default_category :: int

definition imported ::
  "ciphers \<Rightarrow> string \<Rightarrow> gossh \<Rightarrow> int \<Rightarrow> teamExportBundle \<Rightarrow> teamExportServer list \<Rightarrow> TeamNotification list \<Rightarrow> public_page option \<Rightarrow>
   import_maps \<Rightarrow> int list \<Rightarrow> int \<Rightarrow> int \<Rightarrow> server_db \<Rightarrow> bool" where
  "imported C mk G tid data xs ns page M js kn cn d \<longleftrightarrow>
     (\<exists>krows. team_keys tid d = krows \<and> fresh_rows kn krows \<and> list_all2 (key_stored C mk tid) (eb_keys data) krows \<and>
        kmap M = fold (\<lambda>(x, i, _). AList.update (ek_ref x) i) (zip (eb_keys data) krows) []) \<and>
     (\<exists>crows. sort_key fst (filter (\<lambda>(_, r). cat_team r = tid) (cats d)) = crows \<and> fresh_rows cn crows \<and>
        list_all2 (category_stored tid) (bundle_categories data) crows \<and>
        cmap M = fold (\<lambda>(x, i, _). AList.update (ec_ref x) i) (zip (bundle_categories data) crows) []) \<and>
     filter (\<lambda>((t, _), _). t = tid) (team_rules d) = rev (map (rule_row tid) (eb_alerts data)) \<and> distinct (map ea_item (eb_alerts data)) \<and>
     filter (\<lambda>(t, _). t = tid) (notifs d) = map (\<lambda>n. (tid, Module n, Target n)) ns \<and>
     map_of (public_pages d) tid = page \<and>
     team_srvs tid d = zip js (map (imported_server tid (cmap M) (default_category M)) xs) \<and> length js = length xs \<and> distinct js \<and>
     list_all2 (\<lambda>x i. server_stored C mk G (kmap M) x i (view d i)) xs js"

lemma imported_rows:
  assumes "cleared tid d" "numbered d" "fresh_rows (key_seq d) krows" "list_all2 (key_stored C mk tid) ks krows"
    "fresh_rows (cat_seq d) crows" "list_all2 (category_stored tid) cs crows"
    "fresh_rows (srv_seq d) (zip js xs)" "length js = length xs"
  shows "sort_key fst (filter (\<lambda>(_, r). k_team r = tid) (rev krows @ cred_keys d)) = krows"
    "sort_key fst (filter (\<lambda>(_, r). cat_team r = tid) (rev crows @ cats d)) = crows"
    "sort_key fst (filter (\<lambda>(_, r). srv_team r = tid) (rev (zip js (map (imported_server tid cm dflt) xs)) @ srvs d)) =
       zip js (map (imported_server tid cm dflt) xs)"
    "distinct js"
proof -
  have "list_all (\<lambda>(_, r). k_team r = tid) krows" using assms(4) by (induction rule: list_all2_induct) (auto simp: key_stored_def)
  from sort_fresh_rows [OF assms(3) _ this, of "cred_keys d"] assms(1,2)
  show "sort_key fst (filter (\<lambda>(_, r). k_team r = tid) (rev krows @ cred_keys d)) = krows" by (simp add: cleared_def numbered_def)
  have "list_all (\<lambda>(_, r). cat_team r = tid) crows" using assms(6) by (induction rule: list_all2_induct) (auto simp: category_stored_def)
  from sort_fresh_rows [OF assms(5) _ this, of "cats d"] assms(1,2)
  show "sort_key fst (filter (\<lambda>(_, r). cat_team r = tid) (rev crows @ cats d)) = crows" by (simp add: cleared_def numbered_def)
  let ?rows = "zip js (map (imported_server tid cm dflt) xs)"
  have "list_all (\<lambda>(_, r). srv_team r = tid) ?rows" by (auto simp: list_all_iff imported_server_def dest!: set_zip_rightD)
  moreover have f: "fresh_rows (srv_seq d) ?rows" using assms(7,8) by (simp add: fresh_rows_def)
  ultimately show "sort_key fst (filter (\<lambda>(_, r). srv_team r = tid) (rev ?rows @ srvs d)) = ?rows"
    using sort_fresh_rows [of "srv_seq d" ?rows "srvs d" "\<lambda>(_, r). srv_team r = tid"] assms(1,2) by (simp add: cleared_def numbered_def)
  show "distinct js" using fresh_rows_distinct [OF f] assms(8) by simp
qed


lemma insert_rows_frame:
  fixes s :: "('r, 'z) netenv_scheme"
  shows "importTeamAlerts tid al s = (Inr y, t) \<Longrightarrow>
      moved s t \<and> db t = (db s)\<lparr>team_rules := rev (map (rule_row tid) al) @ team_rules (db s)\<rparr> \<and> distinct (map ea_item al)"
    "insertNotifications tid ns s = (Inr y, t) \<Longrightarrow> moved s t \<and> db t = (db s)\<lparr>notifs := notifs (db s) @ map (\<lambda>n. (tid, Module n, Target n)) ns\<rparr>"
  unfolding importTeamAlerts_def insertNotifications_def
  by (drule forE_statements_Inr, use insert_team_rules_Some insert_notifications_Some in blast)+

text \<open>Everything but the servers.\<close>

definition filled :: "ciphers \<Rightarrow> string \<Rightarrow> int \<Rightarrow> teamExportBundle \<Rightarrow> TeamNotification list \<Rightarrow> public_page option \<Rightarrow>
  (int, int) table \<Rightarrow> (int, int) table \<Rightarrow> server_db \<Rightarrow> server_db \<Rightarrow> bool" where
  "filled C mk tid data ns page km cm d e \<longleftrightarrow> (\<exists>krows crows kn cn ps.
     fresh_rows (key_seq d) krows \<and> list_all2 (key_stored C mk tid) (eb_keys data) krows \<and>
     km = fold (\<lambda>(x, i, _). AList.update (ek_ref x) i) (zip (eb_keys data) krows) [] \<and>
     fresh_rows (cat_seq d) crows \<and> list_all2 (category_stored tid) (bundle_categories data) crows \<and>
     cm = fold (\<lambda>(x, i, _). AList.update (ec_ref x) i) (zip (bundle_categories data) crows) [] \<and>
     distinct (map ea_item (eb_alerts data)) \<and> map_of ps tid = page \<and>
     e = d\<lparr>cred_keys := rev krows @ cred_keys d, key_seq := kn, cats := rev crows @ cats d, cat_seq := cn,
       team_rules := rev (map (rule_row tid) (eb_alerts data)) @ team_rules d,
       notifs := notifs d @ map (\<lambda>n. (tid, Module n, Target n)) ns, public_pages := ps\<rparr>)"

lemma import_filled:
  fixes s :: "('r, 'z) siteenv_scheme"
  assumes 1: "importKeys tid (eb_keys data) s = (Inr km, s1)" and 2: "importCategories tid (eb_categories data) s1 = (Inr cm, s2)"
    and 3: "importTeamAlerts tid (eb_alerts data) s2 = (Inr y3, s3)" and 4: "insertNotifications tid ns s3 = (Inr y4, s4)"
    and 5: "importPublicPage tid (eb_page data) s4 = (Inr y5, t)" and v: "vault C mk s" and none: "map_of (public_pages (db s)) tid = None"
  shows "moved s t \<and> filled C mk tid data ns (Option.bind (eb_page data) (\<lambda>p. normalize_page (url_host s) (conf_domain s) (page_update p))) km cm (db s) (db t)"
proof -
  let ?d = "db s"
  from importKeys_Inr [OF 1 v] obtain krows where m1: "moved s s1" and k: "fresh_rows (key_seq ?d) krows" "list_all2 (key_stored C mk tid) (eb_keys data) krows"
    "km = fold (\<lambda>(x, i, _). AList.update (ek_ref x) i) (zip (eb_keys data) krows) []" and "db s1 = fold add_key krows ?d" by blast
  with fold_add(3) [of krows ?d] obtain kn where d1: "db s1 = ?d\<lparr>cred_keys := rev krows @ cred_keys ?d, key_seq := kn\<rparr>" by auto
  have "vault C mk s1" using v moved_vault [OF m1] by simp
  from importCategories_Inr [OF 2 this] obtain crows where m2: "moved s1 s2" and c: "fresh_rows (cat_seq ?d) crows"
    "list_all2 (category_stored tid) (bundle_categories data) crows" "cm = fold (\<lambda>(x, i, _). AList.update (ec_ref x) i) (zip (bundle_categories data) crows) []"
    and "db s2 = fold add_category crows (db s1)" by (auto simp: d1)
  with fold_add(4) [of crows "db s1"] obtain cn where
    d2: "db s2 = ?d\<lparr>cred_keys := rev krows @ cred_keys ?d, key_seq := kn, cats := rev crows @ cats ?d, cat_seq := cn\<rparr>" by (auto simp: d1)
  note r = insert_rows_frame(1) [OF 3] insert_rows_frame(2) [OF 4]
  have m4: "moved s s4" using m1 m2 r moved_trans by blast
  note p = importPublicPage_Inr [OF 5, unfolded moved_site [OF m4]]
  let ?page = "Option.bind (eb_page data) (\<lambda>p. normalize_page (url_host s) (conf_domain s) (page_update p))"
  have pages: "public_pages (db s4) = public_pages ?d" using r by (simp add: d2)
  obtain ps where t: "db t = (db s4)\<lparr>public_pages := ps\<rparr>" and ps: "map_of ps tid = ?page"
  proof (cases "eb_page data")
    case None
    with p that [of "public_pages (db s4)"] none pages show thesis by simp
  next
    case (Some x)
    with p obtain q where "normalize_page (url_host s) (conf_domain s) (page_update x) = Some q" "db t = (db s4)\<lparr>public_pages := (tid, q) # public_pages (db s4)\<rparr>" by auto
    with that [of "(tid, q) # public_pages (db s4)"] Some show thesis by simp
  qed
  have "db t = ?d\<lparr>cred_keys := rev krows @ cred_keys ?d, key_seq := kn, cats := rev crows @ cats ?d, cat_seq := cn,
       team_rules := rev (map (rule_row tid) (eb_alerts data)) @ team_rules ?d,
       notifs := notifs ?d @ map (\<lambda>n. (tid, Module n, Target n)) ns, public_pages := ps\<rparr>"
    using r by (simp add: t d2)
  moreover have "moved s t" using moved_trans [OF m4] p by blast
  ultimately show ?thesis unfolding filled_def using k c r ps by blast
qed

lemma filled_imported:
  assumes c: "cleared tid d" "numbered d" and f: "filled C mk tid data ns page (kmap M) (cmap M) d e"
    and x: "on_servers e t" "srvs t = rev (zip js (map (imported_server tid (cmap M) (default_category M)) xs)) @ srvs e" "length js = length xs"
      "fresh_rows (srv_seq e) (zip js xs)" "list_all2 (\<lambda>x i. server_stored C mk G (kmap M) x i (view t i)) xs js"
  shows "imported C mk G tid data xs ns page M js (key_seq d) (cat_seq d) t"
proof -
  from f obtain krows crows kn cn ps where k: "fresh_rows (key_seq d) krows" "list_all2 (key_stored C mk tid) (eb_keys data) krows"
      "kmap M = fold (\<lambda>(x, i, _). AList.update (ek_ref x) i) (zip (eb_keys data) krows) []"
    and cr: "fresh_rows (cat_seq d) crows" "list_all2 (category_stored tid) (bundle_categories data) crows"
      "cmap M = fold (\<lambda>(x, i, _). AList.update (ec_ref x) i) (zip (bundle_categories data) crows) []"
    and al: "distinct (map ea_item (eb_alerts data))" and ps: "map_of ps tid = page"
    and e: "e = d\<lparr>cred_keys := rev krows @ cred_keys d, key_seq := kn, cats := rev crows @ cats d, cat_seq := cn,
       team_rules := rev (map (rule_row tid) (eb_alerts data)) @ team_rules d,
       notifs := notifs d @ map (\<lambda>n. (tid, Module n, Target n)) ns, public_pages := ps\<rparr>"
    unfolding filled_def by blast
  have "srv_seq e = srv_seq d" "srvs e = srvs d" by (simp_all add: e)
  with x have sx: "fresh_rows (srv_seq d) (zip js xs)" "srvs t = rev (zip js (map (imported_server tid (cmap M) (default_category M)) xs)) @ srvs d" by simp_all
  note rows = imported_rows [OF c k(1,2) cr(1,2) sx(1) x(3)]
  note t = on_servers_frame [OF x(1)]
  have "team_keys tid t = krows" using rows(1) by (simp add: team_keys_def t e)
  moreover have "sort_key fst (filter (\<lambda>(_, r). cat_team r = tid) (cats t)) = crows" using rows(2) by (simp add: t e)
  moreover have "team_srvs tid t = zip js (map (imported_server tid (cmap M) (default_category M)) xs)"
    unfolding team_srvs_def sx(2) by (rule rows(3))
  moreover have "filter (\<lambda>((t, _), _). t = tid) (team_rules t) = rev (map (rule_row tid) (eb_alerts data))"
    using c(1) by (simp add: t e cleared_def filter_id_conv rule_row_def)
  moreover have "filter (\<lambda>(t, _). t = tid) (notifs t) = map (\<lambda>n. (tid, Module n, Target n)) ns"
    using c(1) by (simp add: t e cleared_def filter_id_conv)
  moreover have "map_of (public_pages t) tid = page" using ps by (simp add: t e)
  ultimately show ?thesis unfolding imported_def using k cr al rows(4) x(3,5) by blast
qed

lemma import_statements_Inr:
  fixes s :: "('r, 'z) siteenv_scheme"
  assumes run: "import_statements T G tid data xs ns trust s = (Inr (old, js), t)" and v: "vault C mk s" and n: "numbered (db s)"
  shows "(\<exists>M kn. imported C mk G tid data xs ns (Option.bind (eb_page data) (\<lambda>p. normalize_page (url_host s) (conf_domain s) (page_update p)))
      M js kn (cat_seq (db s)) (db t)) \<and>
    outcomes t = outcomes s \<and> tabs t = update_team tid (eb_team data) (tabs s) \<and> vault C mk t"
proof -
  from run obtain s1 s2 s3 s4 s5 s6 s7 s8 km cm where
    1: "query_db (team_server_ids tid) s = (Inr old, s1)" and
    2: "exec_sql ErrDb (\<lambda>d. Some (update_team tid (eb_team data) d)) s1 = (Inr (), s2)" and
    3: "clearTeamConfig tid s2 = (Inr (), s3)" and
    4: "importKeys tid (eb_keys data) s3 = (Inr km, s4)" "importCategories tid (eb_categories data) s4 = (Inr cm, s5)"
      "importTeamAlerts tid (eb_alerts data) s5 = (Inr (), s6)" "insertNotifications tid ns s6 = (Inr (), s7)"
      "importPublicPage tid (eb_page data) s7 = (Inr (), s8)" and
    5: "importServers T G tid xs cm km trust s8 = (Inr js, t)"
    by (auto simp: import_statements_def bindE_Inr_iff orTeamErr_Inr_iff ret_def)
  from 1 have s1: "s1 = s\<lparr>calls := Suc (calls s)\<rparr>" by (simp add: query_db_Inr_iff)
  from 2 s1 have s2: "db s2 = db s" "outcomes s2 = outcomes s" "tabs s2 = update_team tid (eb_team data) (tabs s)"
    "url_host s2 = url_host s" "conf_domain s2 = conf_domain s" "vault C mk s2"
    using v by (auto simp: exec_sql_def next_call_def vault_def split: outcome.splits)
  from clearTeamConfig_Inr [OF 3] n s2(1) have m3: "moved s2 s3" and c: "cleared tid (db s3)" "numbered (db s3)" "cat_seq (db s3) = cat_seq (db s)" by simp_all
  have v3: "vault C mk s3" using s2(6) moved_vault [OF m3] by simp
  let ?page = "Option.bind (eb_page data) (\<lambda>p. normalize_page (url_host s) (conf_domain s) (page_update p))"
  have f: "moved s3 s8" "filled C mk tid data ns ?page km cm (db s3) (db s8)"
    using import_filled [OF 4 v3] c(1) moved_site [OF m3] s2(4,5) by (simp_all add: cleared_def)
  have m8: "moved s2 s8" using moved_trans [OF m3 f(1)] .
  have v8: "vault C mk s8" using s2(6) moved_vault [OF m8] by simp
  have o8: "no_orphans (db s8)" using c(2) f(2) by (auto simp: filled_def numbered_def no_orphans_def view_def)
  from 5 obtain dflt where "import_loop (import_server G tid cm dflt km trust) xs s8 = (Inr js, t)"
    by (auto simp: importServers_def Let_def raise_def split: if_splits)
  note x = import_servers_Inr [OF this v8 o8]
  let ?M = "\<lparr>kmap = km, cmap = cm, default_category = dflt\<rparr>"
  have "imported C mk G tid data xs ns ?page ?M js (key_seq (db s3)) (cat_seq (db s3)) (db t)"
    by (rule filled_imported [OF c(1,2), of _ _ _ _ _ _ "db s8"]) (use f x in simp_all)
  moreover have "moved s2 t" using moved_trans [OF m8] x by blast
  from moved_fields [OF this] moved_vault [OF this] have "outcomes t = outcomes s" "tabs t = update_team tid (eb_team data) (tabs s)" "vault C mk t" using s2 by simp_all
  ultimately show ?thesis unfolding c(3) by blast
qed


lemma optional_row_run:
  fixes s :: "('r, 'z) netenv_scheme"
  shows "optional_row q s = (if outcomes s (calls s) = Done then Inr (q (db s)) else Inl (OtherTeamErr ErrDb), s\<lparr>calls := Suc (calls s)\<rparr>)"
  by (simp add: optional_row_def tryE_run query_db_row_run raise_def ret_def split: option.split)

lemma preflight_moved: "preflightImportedAgentUIDs tid xs s = (Inr y, t) \<Longrightarrow> moved s t \<and> db t = db s"
  by (auto simp: preflightImportedAgentUIDs_def bindE_run optional_row_run raise_def ret_def split: sum.splits if_splits option.splits)

lemma team_transaction_Inr:
  "team_transaction m s = (Inr x, t) \<Longrightarrow>
    \<exists>u. m (s\<lparr>calls := Suc (calls s)\<rparr>) = (Inr x, u) \<and> t = u\<lparr>calls := Suc (calls u)\<rparr>"
  by (auto simp: team_transaction_def next_call_def split: if_splits prod.splits sum.splits outcome.splits)

lemma applyTeamImport_Inr:
  fixes s :: "('r, 'z) siteenv_scheme"
  assumes run: "applyTeamImport T G P tid data trust s = (Inr (old, js), t)" and v: "vault C mk s" and n: "numbered (db s)"
  shows "\<exists>xs ns M kn. normalizeImportedAgentKeys G (eb_servers data) = Inr xs \<and> NormalizeEntries P (bundle_notifications data) = Some ns \<and>
    imported C mk G tid data xs ns (Option.bind (eb_page data) (\<lambda>p. normalize_page (url_host s) (conf_domain s) (page_update p)))
      M js kn (cat_seq (db s)) (db t) \<and>
    outcomes t = outcomes s \<and> tabs t = update_team tid (eb_team data) (tabs s) \<and> vault C mk t"
proof -
  from run obtain xs ns u where xs: "normalizeImportedAgentKeys G (eb_servers data) = Inr xs" and ns: "NormalizeEntries P (bundle_notifications data) = Some ns"
    and 1: "preflightImportedAgentUIDs tid xs s = (Inr (), u)" and 2: "team_transaction (import_statements T G tid data xs ns trust) u = (Inr (old, js), t)"
    by (auto simp: applyTeamImport_def raise_def bindE_Inr_iff split: sum.splits if_splits option.splits)
  from team_transaction_Inr [OF 2] obtain w where 3: "import_statements T G tid data xs ns trust (u\<lparr>calls := Suc (calls u)\<rparr>) = (Inr (old, js), w)"
    and t: "t = w\<lparr>calls := Suc (calls w)\<rparr>" by blast
  from preflight_moved [OF 1] have m: "moved s u" and d: "db u = db s" by simp_all
  from import_statements_Inr [OF 3, of C mk] v n moved_vault [OF m] moved_fields [OF m] moved_site [OF m] d
  obtain M kn where "imported C mk G tid data xs ns (Option.bind (eb_page data) (\<lambda>p. normalize_page (url_host s) (conf_domain s) (page_update p)))
      M js kn (cat_seq (db s)) (db w)" "outcomes w = outcomes s" "tabs w = update_team tid (eb_team data) (tabs s)" "vault C mk w" by auto
  then show ?thesis using xs ns by (auto simp: t)
qed

section \<open>The configuration exported again\<close>

text \<open>The bundle in the form the import gives it, with the identifiers of the new rows.\<close>

definition kept_ssh :: "gossh \<Rightarrow> (int \<Rightarrow> int) \<Rightarrow> teamExportSSH \<Rightarrow> teamExportSSH" where
  "kept_ssh G kid h = h\<lparr>eh_key_ref := kid (eh_key_ref h),
     eh_host_key := (if eh_host_key h = [] then [] else case NormalizeHostKey G (eh_host_key h) of Inl _ \<Rightarrow> [] | Inr k \<Rightarrow> k)\<rparr>"

definition kept_agent :: "int \<Rightarrow> teamExportAgent \<Rightarrow> teamExportAgent" where
  "kept_agent typ a = a\<lparr>eg_ip := fst (normalizeImportedAgentRuntime typ a), eg_version := snd (normalizeImportedAgentRuntime typ a),
     eg_private_key := (if typ = 1 then eg_private_key a else []), eg_protocol := normalizeImportedAgentProtocol typ a\<rparr>"

definition kept_server :: "team_codec \<Rightarrow> gossh \<Rightarrow> (int \<Rightarrow> int) \<Rightarrow> (int \<Rightarrow> int) \<Rightarrow> int \<Rightarrow> teamExportServer \<Rightarrow> teamExportServer" where
  "kept_server T G kid cid i x = x\<lparr>es_ref := i, es_category := cid (es_category x),
     es_public := Some (case es_public x of None \<Rightarrow> True | Some b \<Rightarrow> b),
     es_runtime := normalizeImportedServerInfo (es_type x) (es_runtime x), es_adv := normalizeImportedServerAdvancedInfo (es_type x) (es_adv x),
     es_ssh := (if es_type x = 0 then map_option (kept_ssh G kid) (es_ssh x) else None),
     es_agent := (if es_type x = 1 \<or> es_type x = 2 then map_option (kept_agent (es_type x)) (es_agent x) else None),
     es_enroll := (if es_type x = 1 \<or> es_type x = 2 then es_enroll x else None), es_alerts := by_item T (es_alerts x)\<rparr>"

definition renumbered ::
  "team_codec \<Rightarrow> gossh \<Rightarrow> (int \<Rightarrow> int) \<Rightarrow> (int \<Rightarrow> int) \<Rightarrow> int list \<Rightarrow> teamExportServer list \<Rightarrow> TeamNotification list \<Rightarrow> public_page option \<Rightarrow>
   go_time \<Rightarrow> teamExportBundle \<Rightarrow> teamExportBundle" where
  "renumbered T G kid cid js xs ns page now data =
     \<lparr>eb_version = teamExportVersion, eb_exported_at = now, eb_skipped_servers = [], eb_skipped_keys = [], eb_team = eb_team data,
      eb_categories = map (\<lambda>c. c\<lparr>ec_ref := cid (ec_ref c)\<rparr>) (sort_key ec_sort (bundle_categories data)),
      eb_keys = map (\<lambda>k. k\<lparr>ek_ref := kid (ek_ref k)\<rparr>) (eb_keys data), eb_alerts = by_item T (eb_alerts data),
      eb_notifications = map (\<lambda>n. (Module n, Target n)) ns, eb_page = page, eb_servers = map2 (kept_server T G kid cid) js xs\<rparr>"

text \<open>A database that answers.\<close>

definition responds :: "'z env_scheme \<Rightarrow> bool" where
  "responds s \<longleftrightarrow> (\<forall>n. outcomes s n = Done)"

lemma responds_run:
  fixes s :: "('r, 'z) netenv_scheme"
  assumes "responds s"
  shows "responds (s\<lparr>calls := n\<rparr>)" "orTeamErr (query_db q) s = (Inr (q (db s)), s\<lparr>calls := Suc (calls s)\<rparr>)"
    "optional_row p s = (Inr (p (db s)), s\<lparr>calls := Suc (calls s)\<rparr>)"
    "p (db s) = Some x \<Longrightarrow> orTeamErr (query_db_row p) s = (Inr x, s\<lparr>calls := Suc (calls s)\<rparr>)"
  using assms by (simp_all add: responds_def orTeamErr_def tryE_run query_db_run query_db_row_run optional_row_run ret_def)

lemma export_decrypt_run:
  "encrypt_Decrypt (hub_ciphers s) c (hub_key s) ctx = Inr p \<Longrightarrow> export_decrypt x cred c ctx s = (Inr p, s)"
  by (simp add: export_decrypt_def tryE_run hub_decrypt_run ret_def)


text \<open>What the connection of an imported server reads as.\<close>

definition with_connection :: "gossh \<Rightarrow> (int \<Rightarrow> int) \<Rightarrow> teamExportServer \<Rightarrow> teamExportServer \<Rightarrow> teamExportServer" where
  "with_connection G kid x y =
     (if es_type x = 0 then y\<lparr>es_ssh := map_option (kept_ssh G kid) (es_ssh x)\<rparr>
      else if es_type x = 1 \<or> es_type x = 2 then y\<lparr>es_agent := map_option (kept_agent (es_type x)) (es_agent x), es_enroll := es_enroll x\<rparr>
      else y)"

lemma view_maps: "map_of (sshs d) i = sv_ssh (view d i)" "map_of (agents d) i = sv_agent (view d i)" "map_of (enrolls d) i = sv_enroll (view d i)"
  "map_of (advanced d) i = sv_adv (view d i)" "map_of (details d) i = sv_details (view d i)" "map_of (runtime d) i = sv_runtime (view d i)"
  by (simp_all add: view_def)

lemma export_stored_ssh: "ssh_stored C mk G km h i r \<Longrightarrow> export_ssh r (eh_password h) = kept_ssh G (lookup_ref km) h"
  by (cases h) (auto simp: ssh_stored_def export_ssh_def kept_ssh_def split: if_splits)

lemma export_stored_agent: "agent_stored C mk typ a i r \<Longrightarrow> export_agent r (if typ = 1 then eg_private_key a else []) = kept_agent typ a"
  by (cases a) (auto simp: agent_stored_def export_agent_def kept_agent_def imported_agent_def)

lemma export_connection:
  fixes s :: "('r, 'z) netenv_scheme"
  assumes s: "responds s" "vault C mk s" and stored: "connection_stored C mk G km x i (view (db s) i)" and y: "es_type y = es_type x" "es_ref y = i"
  shows "\<exists>n. exportServerConnection y s = (Inr (with_connection G (lookup_ref km) x y), s\<lparr>calls := n\<rparr>)"
proof -
  note [simp] = responds_run [OF s(1)] responds_run [OF responds_run(1) [OF s(1)]]
  have k: "hub_ciphers s = C" "hub_key s = mk" using s(2) by (simp_all add: vault_def)
  consider "es_type x = 0" | "es_type x = 1 \<or> es_type x = 2" "es_type x \<noteq> 0" | "es_type x \<noteq> 0" "es_type x \<noteq> 1" "es_type x \<noteq> 2" by blast
  then show ?thesis
  proof cases
    case 1
    with stored obtain h r where h: "es_ssh x = Some h" "sv_ssh (view (db s) i) = Some r" "ssh_stored C mk G km h i r" by (auto simp: connection_stored_def)
    have "encrypt_Decrypt C (ssh_password r) mk (SSHPasswordContext i) = Inr (eh_password h)" using h(3) by (simp add: ssh_stored_def)
    with 1 h y k show ?thesis
      by (intro exI [of _ "Suc (calls s)"])
        (simp add: exportServerConnection_def bindE_run view_maps export_decrypt_run export_stored_ssh with_connection_def ret_def)
  next
    case 2
    have token: "sv_enroll (view (db s) i) = es_enroll x" using 2 stored by (simp add: connection_stored_def)
    show ?thesis
    proof (cases "es_agent x")
      case None
      with 2 stored have "sv_agent (view (db s) i) = None" by (auto simp: connection_stored_def)
      with 2 None y token show ?thesis
        by (intro exI [of _ "Suc (Suc (calls s))"]) (auto simp: exportServerConnection_def bindE_run view_maps with_connection_def ret_def)
    next
      case (Some a)
      with 2 stored obtain r where r: "sv_agent (view (db s) i) = Some r" "agent_stored C mk (es_type x) a i r" by (auto simp: connection_stored_def)
      let ?pk = "if es_type x = 1 then eg_private_key a else []"
      have "es_type x = 1 \<Longrightarrow> encrypt_Decrypt C (ag_private_key r) mk (AgentPrivateKeyContext i) = Inr (eg_private_key a)"
        using r(2) by (auto simp: agent_stored_def imported_agent_def)
      then have d: "(if es_type x = 1 then export_decrypt y ''active_agent_private_key'' (ag_private_key r) (AgentPrivateKeyContext i) else ret [])
          (s\<lparr>calls := Suc (calls s)\<rparr>) = (Inr ?pk, s\<lparr>calls := Suc (calls s)\<rparr>)"
        using k by (simp add: export_decrypt_run ret_def)
      have t: "es_type x \<noteq> 0" "(es_type x = 1 \<or> es_type x = 2) = True" using 2 by simp_all
      show ?thesis unfolding exportServerConnection_def Let_def y t(2) if_True with_connection_def Some
        by (intro exI [of _ "Suc (Suc (calls s))"])
          (simp add: t(1) bindE_run view_maps r(1) d export_stored_agent [OF r(2)] token ret_def del: if_split)
    qed
  next
    case 3
    with y show ?thesis by (intro exI [of _ "calls s"]) (simp add: exportServerConnection_def with_connection_def ret_def)
  qed
qed

definition category_of :: "import_maps \<Rightarrow> int \<Rightarrow> int" where
  "category_of M c = (if lookup_ref (cmap M) c = 0 then default_category M else lookup_ref (cmap M) c)"

lemma export_stored_server:
  fixes s :: "('r, 'z) netenv_scheme"
  assumes s: "responds s" "vault C mk s" and T: "collation_ok T" and stored: "server_stored C mk G (kmap M) x i (view (db s) i)"
  shows "\<exists>n. export_one_server T skip [] (export_server_row (i, imported_server tid (cmap M) (default_category M) x)) s =
    (Inr (Inr (kept_server T G (lookup_ref (kmap M)) (category_of M) i x)), s\<lparr>calls := n\<rparr>)"
proof -
  let ?y = "(export_server_row (i, imported_server tid (cmap M) (default_category M) x))\<lparr>es_details := es_details x,
    es_runtime := normalizeImportedServerInfo (es_type x) (es_runtime x), es_adv := normalizeImportedServerAdvancedInfo (es_type x) (es_adv x)\<rparr>"
  let ?c = "with_connection G (lookup_ref (kmap M)) x ?y"
  have y: "es_type ?y = es_type x" "es_ref ?y = i" by (simp_all add: export_server_row_def imported_server_def)
  let ?s = "s\<lparr>calls := Suc (Suc (calls s))\<rparr>"
  from export_connection [of ?s C mk G "kmap M" x i ?y] s stored y responds_run(1) [OF s(1)]
  obtain n where n: "exportServerConnection ?y ?s = (Inr ?c, s\<lparr>calls := n\<rparr>)" by (auto simp: server_stored_def)
  have info: "read_info i (db s) = Some (es_details x, normalizeImportedServerInfo (es_type x) (es_runtime x))"
    "map_of (advanced (db s)) i = Some (normalizeImportedServerAdvancedInfo (es_type x) (es_adv x))"
    using stored by (simp_all add: read_info_def view_maps server_stored_def)
  have "filter (\<lambda>((j, _), _). j = i) (rules (db s)) = rev (map (rule_row i) (es_alerts x))" "distinct (map ea_item (es_alerts x))"
    using stored by (simp_all add: server_stored_def view_def)
  with read_alerts_imported [OF T, of "es_alerts x" i "[]"] have al: "read_alerts T i (rules (db s)) = by_item T (es_alerts x)"
    by (simp add: read_alerts_def filter_id_conv rule_row_def)
  have "?c\<lparr>es_alerts := by_item T (es_alerts x)\<rparr> = kept_server T G (lookup_ref (kmap M)) (category_of M) i x"
    by (cases x) (simp add: with_connection_def kept_server_def export_server_row_def imported_server_def category_of_def)
  moreover have row: "es_ref (export_server_row (i, r)) = i" for r by (simp add: export_server_row_def)
  moreover have "\<not> (case es_ssh ?c of None \<Rightarrow> False | Some h \<Rightarrow> eh_key_ref h \<in> set [])" by (simp split: option.split)
  ultimately show ?thesis using n al
    unfolding export_one_server_def Let_def bindE_run tryE_run row responds_run(3) [OF s(1)] info
    by (intro exI [of _ "Suc n"]) (simp add: info responds_run(2,3) [OF responds_run(1) [OF s(1)]] bindE_run ret_def)
qed


lemma export_stored_servers:
  fixes s :: "('r, 'z) netenv_scheme"
  assumes "responds s" "vault C mk s" "collation_ok T" "list_all2 (\<lambda>x i. server_stored C mk G (kmap M) x i (view (db s) i)) xs js"
  shows "\<exists>n. export_servers_loop T skip [] (map export_server_row (zip js (map (imported_server tid (cmap M) (default_category M)) xs))) s =
    (Inr (map2 (kept_server T G (lookup_ref (kmap M)) (category_of M)) js xs, []), s\<lparr>calls := n\<rparr>)"
  using assms
proof (induction xs arbitrary: js s)
  case Nil
  then show ?case by (auto simp: ret_def intro: exI [of _ "calls s"])
next
  case (Cons x xs)
  from Cons.prems(4) obtain i ks where js: "js = i # ks" and stored: "server_stored C mk G (kmap M) x i (view (db s) i)"
    and rest: "list_all2 (\<lambda>x i. server_stored C mk G (kmap M) x i (view (db s) i)) xs ks" by (auto simp: list_all2_Cons1)
  from export_stored_server [OF Cons.prems(1-3) stored, of skip tid] obtain n where
    1: "export_one_server T skip [] (export_server_row (i, imported_server tid (cmap M) (default_category M) x)) s =
      (Inr (Inr (kept_server T G (lookup_ref (kmap M)) (category_of M) i x)), s\<lparr>calls := n\<rparr>)" by blast
  from Cons.IH [of "s\<lparr>calls := n\<rparr>" ks] responds_run(1) [OF Cons.prems(1)] Cons.prems(2,3) rest obtain m where
    "export_servers_loop T skip [] (map export_server_row (zip ks (map (imported_server tid (cmap M) (default_category M)) xs))) (s\<lparr>calls := n\<rparr>) =
    (Inr (map2 (kept_server T G (lookup_ref (kmap M)) (category_of M)) ks xs, []), s\<lparr>calls := m\<rparr>)" by auto
  with 1 show ?case by (auto simp: js bindE_run ret_def)
qed

lemma export_stored_keys:
  "list_all2 (key_stored C mk tid) ks rows \<Longrightarrow> export_keys_loop C mk skip rows = Inr (map2 (\<lambda>k i. k\<lparr>ek_ref := i\<rparr>) ks (map fst rows), [])"
  by (induction rule: list_all2_induct) (auto simp: key_stored_def)

lemma sort_key_map: "sort_key f (map g xs) = map g (sort_key (\<lambda>x. f (g x)) xs)"
proof -
  have "insort_key f (g x) (map g ys) = map g (insort_key (\<lambda>x. f (g x)) x ys)" for x ys by (induction ys) auto
  then show ?thesis by (induction xs) auto
qed

lemma export_stored_categories:
  assumes "sort_key fst (filter (\<lambda>(_, r). cat_team r = tid) (cats d)) = rows" "list_all2 (category_stored tid) cs rows"
    "map fst rows = map (\<lambda>c. cid (ec_ref c)) cs"
  shows "read_categories tid d = map (\<lambda>c. c\<lparr>ec_ref := cid (ec_ref c)\<rparr>) (sort_key ec_sort cs)"
proof -
  have "rows = map (\<lambda>c. (cid (ec_ref c), \<lparr>cat_team = tid, cat_name = ec_name c, cat_sort = ec_sort c\<rparr>)) cs"
    using assms(2,3) by (induction rule: list_all2_induct) (auto simp: category_stored_def)
  then show ?thesis unfolding read_categories_def assms(1) by (simp add: sort_key_map)
qed

lemma read_team_updated: "has_key (teams d) tid \<Longrightarrow> read_team (update_team tid et d) tid = Some et"
  by (auto simp: read_team_def update_team_def map_of_map_entry has_key_def)

text \<open>The identifiers of the new rows.\<close>

lemma imported_refs:
  assumes M: "imported C mk G tid data xs ns page M js kn cn d" and cn: "0 \<le> cn"
    and refs: "distinct (map ek_ref (eb_keys data))" "distinct (map ec_ref (bundle_categories data))"
  shows "\<exists>rows. team_keys tid d = rows \<and> list_all2 (key_stored C mk tid) (eb_keys data) rows \<and> distinct (map fst rows) \<and>
      map fst rows = map (\<lambda>k. lookup_ref (kmap M) (ek_ref k)) (eb_keys data)"
    "\<exists>rows. sort_key fst (filter (\<lambda>(_, r). cat_team r = tid) (cats d)) = rows \<and> list_all2 (category_stored tid) (bundle_categories data) rows \<and>
      distinct (map fst rows) \<and> map fst rows = map (\<lambda>c. category_of M (ec_ref c)) (bundle_categories data)"
    "r \<notin> ek_ref ` set (eb_keys data) \<Longrightarrow> lookup_ref (kmap M) r = 0"
proof -
  obtain krows where k: "team_keys tid d = krows" "list_all2 (key_stored C mk tid) (eb_keys data) krows" "fresh_rows kn krows"
    "kmap M = fold (\<lambda>(x, i, _). AList.update (ek_ref x) i) (zip (eb_keys data) krows) []" using M by (auto simp: imported_def)
  have "map fst krows = map (\<lambda>k. lookup_ref (kmap M) (ek_ref k)) (eb_keys data)"
    by (rule map_refs_rows [OF refs(1) _ k(4)]) (use k(2) in \<open>simp add: list_all2_lengthD\<close>)
  with k fresh_rows_distinct show "\<exists>rows. team_keys tid d = rows \<and> list_all2 (key_stored C mk tid) (eb_keys data) rows \<and> distinct (map fst rows) \<and>
      map fst rows = map (\<lambda>k. lookup_ref (kmap M) (ek_ref k)) (eb_keys data)" by blast
  show "r \<notin> ek_ref ` set (eb_keys data) \<Longrightarrow> lookup_ref (kmap M) r = 0" unfolding k(4) by (rule lookup_no_ref)
  obtain crows where c: "sort_key fst (filter (\<lambda>(_, r). cat_team r = tid) (cats d)) = crows" "fresh_rows cn crows"
    "list_all2 (category_stored tid) (bundle_categories data) crows" "cmap M = fold (\<lambda>(x, i, _). AList.update (ec_ref x) i) (zip (bundle_categories data) crows) []"
    using M by (auto simp: imported_def)
  have "map fst crows = map (\<lambda>c. lookup_ref (cmap M) (ec_ref c)) (bundle_categories data)"
    by (rule map_refs_rows [OF refs(2) _ c(4)]) (use c(3) in \<open>simp add: list_all2_lengthD\<close>)
  also have "\<dots> = map (\<lambda>c. category_of M (ec_ref c)) (bundle_categories data)"
  proof (rule map_cong [OF refl])
    fix x assume "x \<in> set (bundle_categories data)"
    then have "lookup_ref (cmap M) (ec_ref x) \<in> set (map fst crows)" using calculation by simp
    with fresh_rows_bounds [OF c(2)] cn show "lookup_ref (cmap M) (ec_ref x) = category_of M (ec_ref x)" by (force simp: category_of_def)
  qed
  finally show "\<exists>rows. sort_key fst (filter (\<lambda>(_, r). cat_team r = tid) (cats d)) = rows \<and> list_all2 (category_stored tid) (bundle_categories data) rows \<and>
      distinct (map fst rows) \<and> map fst rows = map (\<lambda>c. category_of M (ec_ref c)) (bundle_categories data)"
    using c(1-3) fresh_rows_distinct by blast
qed

lemma inj_on_refs: "distinct (map fst rows) \<Longrightarrow> map fst rows = map (\<lambda>x. f (ref x)) xs \<Longrightarrow> inj_on f (ref ` set xs)"
proof -
  assume "distinct (map fst rows)" "map fst rows = map (\<lambda>x. f (ref x)) xs"
  then have "distinct (map f (map ref xs))" by (simp add: comp_def)
  then have "inj_on f (set (map ref xs))" by (simp only: distinct_map)
  then show ?thesis by simp
qed

lemma export_imported:
  fixes t :: "('r, 'z) netenv_scheme"
  assumes t: "responds t" "vault C mk t" and T: "collation_ok T" and team: "read_team (tabs t) tid = Some (eb_team data)"
    and M: "imported C mk G tid data xs ns page M js kn cn (db t)" and cn: "0 \<le> cn"
    and refs: "distinct (map ek_ref (eb_keys data))" "distinct (map ec_ref (bundle_categories data))"
  shows "fst (buildTeamExport T tid skip t) = Inr (renumbered T G (lookup_ref (kmap M)) (category_of M) js xs ns page (clock t (reads t)) data)"
proof -
  note ids = imported_refs [OF M cn refs]
  from ids(1) obtain krows where k: "team_keys tid (db t) = krows" "list_all2 (key_stored C mk tid) (eb_keys data) krows"
    "map fst krows = map (\<lambda>k. lookup_ref (kmap M) (ek_ref k)) (eb_keys data)" by blast
  from k(3) have keys: "export_keys_loop C mk skip krows = Inr (map (\<lambda>k. k\<lparr>ek_ref := lookup_ref (kmap M) (ek_ref k)\<rparr>) (eb_keys data), [])"
    by (simp add: export_stored_keys [OF k(2)] zip_map2 comp_def zip_same_conv_map)
  from ids(2) have cs: "read_categories tid (db t) = map (\<lambda>c. c\<lparr>ec_ref := category_of M (ec_ref c)\<rparr>) (sort_key ec_sort (bundle_categories data))"
    using export_stored_categories by blast
  have al: "read_alerts T tid (team_rules (db t)) = by_item T (eb_alerts data)"
    using read_alerts_imported [OF T, of "eb_alerts data" tid "[]"] M by (simp add: imported_def read_alerts_def filter_id_conv rule_row_def)
  let ?t = "t\<lparr>reads := Suc (reads t), calls := Suc (Suc (Suc (Suc (Suc (Suc (Suc (calls t)))))))\<rparr>"
  have rt: "responds (t\<lparr>reads := m, calls := n\<rparr>)" for m n using t(1) by (simp add: responds_def)
  have "vault C mk ?t" using t(2) by (simp add: vault_def)
  from export_stored_servers [OF rt this T, of G M xs js skip tid] M obtain n where
    ss: "export_servers_loop T skip [] (map export_server_row (zip js (map (imported_server tid (cmap M) (default_category M)) xs))) ?t =
      (Inr (map2 (kept_server T G (lookup_ref (kmap M)) (category_of M)) js xs, []), ?t\<lparr>calls := n\<rparr>)" by (auto simp: imported_def)
  have hub: "hub_ciphers t = C" "hub_key t = mk" using t(2) by (simp_all add: vault_def)
  have ns: "map snd (filter (\<lambda>(t, _). t = tid) (notifs (db t))) = map (\<lambda>n. (Module n, Target n)) ns" "map_of (public_pages (db t)) tid = page"
    "team_srvs tid (db t) = zip js (map (imported_server tid (cmap M) (default_category M)) xs)" using M by (simp_all add: imported_def)
  have start: "orTeamErr time_now t = (Inr (clock t (reads t)), t\<lparr>reads := Suc (reads t)\<rparr>)"
    by (simp add: orTeamErr_def tryE_run time_now_def ret_def)
  have first: "orTeamErr (query_row (\<lambda>d. read_team d tid)) (t\<lparr>reads := Suc (reads t)\<rparr>) =
      (Inr (eb_team data), t\<lparr>reads := Suc (reads t), calls := Suc (calls t)\<rparr>)"
    using t(1) team by (simp add: orTeamErr_def tryE_run query_row_def query_sql_def next_call_def bindE_run responds_def ret_def)
  show ?thesis
    unfolding buildTeamExport_def exportKeys_def exportPublicPage_def exportServers_def renumbered_def
    by (simp add: bindE_run start first responds_run(2,3) [OF rt] k(1) keys hub cs al ns ss lift_sum_def gets_def ret_def)
qed

section \<open>The round trip\<close>

text \<open>
  (C21) A configuration imported into a team is what the team exports afterwards: when an import succeeds and the
  database answers, exporting the team succeeds, skips no server and no key for an unreadable credential, and yields the
  imported bundle, in the normal form of the checks of the import (agent keys, notifications, page, host keys), with the
  alerts and categories in the order of the queries, and with the keys and categories of the bundle, and every reference to them, renumbered one to one; a
  server that names a key the bundle does not have gets none.
\<close>

theorem import_export_roundtrip:
  fixes s :: "('r, 'z) siteenv_scheme"
  assumes "applyTeamImport T G P tid data trust s = (Inr (old, new), t)"
    and "ciphers_ok (hub_ciphers s)" "\<And>n. rand_ok (entropy s n)" "collation_ok T" "responds s"
    and "numbered (db s)" "has_key (teams (tabs s)) tid"
    and "distinct (map ek_ref (eb_keys data))" "distinct (map ec_ref (bundle_categories data))"
  shows "\<exists>kid cid xs ns. normalizeImportedAgentKeys G (eb_servers data) = Inr xs \<and> NormalizeEntries P (bundle_notifications data) = Some ns \<and>
    inj_on kid (ek_ref ` set (eb_keys data)) \<and> (\<forall>r. r \<notin> ek_ref ` set (eb_keys data) \<longrightarrow> kid r = 0) \<and>
    inj_on cid (ec_ref ` set (bundle_categories data)) \<and> distinct new \<and> length new = length xs \<and>
    fst (buildTeamExport T tid skip t) = Inr (renumbered T G kid cid new xs ns
      (Option.bind (eb_page data) (\<lambda>p. normalize_page (url_host s) (conf_domain s) (page_update p))) (clock t (reads t)) data)"
proof -
  have v: "vault (hub_ciphers s) (hub_key s) s" using assms(2,3) by (simp add: vault_def)
  let ?page = "Option.bind (eb_page data) (\<lambda>p. normalize_page (url_host s) (conf_domain s) (page_update p))"
  from applyTeamImport_Inr [OF assms(1) v assms(6)] obtain xs ns M kn where
    n: "normalizeImportedAgentKeys G (eb_servers data) = Inr xs" "NormalizeEntries P (bundle_notifications data) = Some ns"
    and M: "imported (hub_ciphers s) (hub_key s) G tid data xs ns ?page M new kn (cat_seq (db s)) (db t)"
    and t: "outcomes t = outcomes s" "tabs t = update_team tid (eb_team data) (tabs s)" "vault (hub_ciphers s) (hub_key s) t" by blast
  have cn: "0 \<le> cat_seq (db s)" using assms(6) by (simp add: numbered_def)
  have "responds t" using assms(5) t(1) by (simp add: responds_def)
  moreover have "read_team (tabs t) tid = Some (eb_team data)" unfolding t(2) by (rule read_team_updated [OF assms(7)])
  ultimately have "fst (buildTeamExport T tid skip t) = Inr (renumbered T G (lookup_ref (kmap M)) (category_of M) new xs ns ?page (clock t (reads t)) data)"
    using t(3) assms(4) M cn assms(8,9) by (intro export_imported)
  moreover note imported_refs(3) [OF M cn assms(8,9)]
  moreover have "inj_on (lookup_ref (kmap M)) (ek_ref ` set (eb_keys data))" "inj_on (category_of M) (ec_ref ` set (bundle_categories data))"
    using imported_refs(1,2) [OF M cn assms(8,9)] inj_on_refs by blast+
  moreover have "distinct new" "length new = length xs" using M by (simp_all add: imported_def)
  ultimately show ?thesis using n by blast
qed


text \<open>A server behind SSH with its key and its rules, imported into the team 7 and read back.\<close>

definition ssh_bundle :: teamExportBundle where
  "ssh_bundle = sample_bundle\<lparr>
     eb_keys := [\<lparr>ek_ref = 3, ek_name = ''k'', ek_content = ''pem'', ek_password = None\<rparr>],
     eb_alerts := [\<lparr>ea_item = ''disk'', ea_threshold = 80, ea_duration = 5\<rparr>, \<lparr>ea_item = ''cpu'', ea_threshold = 90, ea_duration = 10\<rparr>],
     eb_servers := [\<lparr>es_ref = 4, es_category = 1, es_type = 0, es_name = ''nas'', es_monitor = True, es_terminal = False, es_public = None,
       es_weight = 0, es_details = no_details, es_runtime = no_runtime, es_adv = no_adv,
       es_ssh = Some \<lparr>eh_address = ''10.0.0.1'', eh_port = 22, eh_username = ''root'', eh_key_ref = 3, eh_password = ''pw'', eh_host_key = []\<rparr>,
       es_agent = None, es_enroll = None, es_alerts = []\<rparr>]\<rparr>"

definition sorting_codec :: team_codec where
  "sorting_codec = sample_codec\<lparr>by_item := sort_key ea_item\<rparr>"

lemma sorting_codec_ok: "collation_ok sorting_codec"
  unfolding collation_ok_def sorting_codec_def
  by (auto simp: distinct_map intro!: sort_key_inj_key_eq)

abbreviation run_apply where
  "run_apply \<equiv> applyTeamImport sorting_codec sample_ssh sample_parsers 7 ssh_bundle True sample_team"

theorem import_export_roundtrip_witness:
  "\<exists>b. fst (buildTeamExport sorting_codec 7 False (snd run_apply)) = Inr b \<and> map ek_content (eb_keys b) = [''pem''] \<and>
     map (map_option eh_password \<circ> es_ssh) (eb_servers b) = [Some ''pw''] \<and> map ea_item (eb_alerts b) = [''cpu'', ''disk'']"
proof -
  have "fst run_apply = Inr ([], [1])" by code_simp
  note run = run_of_fst [OF this]
  have s: "ciphers_ok (hub_ciphers sample_team)" "rand_ok (entropy sample_team n)" "responds sample_team" "numbered (db sample_team)" "has_key (teams (tabs sample_team)) 7" for n
    by (simp_all add: sample_team_def sample_site_def siteenv.defs netenv.defs sample_net_def sample_ciphers_ok rand_ok_def responds_def numbered_def
        no_orphans_def view_def empty_view_def no_servers_def has_key_def)
  have d: "distinct (map ek_ref (eb_keys ssh_bundle))" "distinct (map ec_ref (bundle_categories ssh_bundle))"
    by (simp_all add: ssh_bundle_def bundle_categories_def sample_bundle_def)
  from import_export_roundtrip [OF run s(1,2) sorting_codec_ok s(3,4,5) d, of False] obtain kid cid xs ns page where
    xs: "normalizeImportedAgentKeys sample_ssh (eb_servers ssh_bundle) = Inr xs" and
    b: "fst (buildTeamExport sorting_codec 7 False (snd run_apply)) =
      Inr (renumbered sorting_codec sample_ssh kid cid [1] xs ns page (clock (snd run_apply) (reads (snd run_apply))) ssh_bundle)" by blast
  from xs have "xs = eb_servers ssh_bundle" by (simp add: normalizeImportedAgentKeys_def normalize_server_agent_def ssh_bundle_def)
  moreover have "sort_key ea_item (eb_alerts ssh_bundle) = rev (eb_alerts ssh_bundle)" by code_simp
  ultimately show ?thesis unfolding b by (simp add: renumbered_def kept_server_def kept_ssh_def sorting_codec_def ssh_bundle_def)
qed

end
