(* ===== verification/Spec2Isabelle.thy ===== *)
theory Spec2Isabelle
  imports Team_Handlers Status_Writer Signed_Headers Handshake Auto_Renew Alert_Run Credential_Migration Supervisor_Races Terminal_Sessions Server_Pages Public_Access Team_Roundtrip
begin

text \<open>
  \<^bold>\<open>mosona-manager: a verification library.\<close>

  The program is a hub that manages servers for teams of users: a web application
  (\<open>internal/app\<close>) over PostgreSQL (\<open>internal/db\<close>), Redis (\<open>internal/redis\<close>) and InfluxDB
  (\<open>internal/influx\<close>), agents on the servers that the hub reaches over encrypted websockets
  (\<open>pkg/securews\<close>, \<open>pkg/identity\<close>, \<open>internal/connect\<close>, \<open>agent\<close>), and periodic tasks that renew
  subscriptions and evaluate alert rules (\<open>internal/task\<close>). The library models the parts that decide
  who may do what, what is stored, and what is sent, and proves them correct for every pattern of
  failures of the services around them.

  \<^bold>\<open>Conventions.\<close> A Go function that returns an error is a computation \<open>('s, 'e, 'a) io\<close> from the
  state to an error or a value and the new state (\<open>Prelude\<close>); \<open>bindE\<close> is the early return on an
  error, \<open>tryE\<close> the inspection of one. \<open>keeps I m\<close> and \<open>ensures I Q m\<close> are the calculus of
  invariants. Each call that leaves the process consumes an outcome of the environment: done,
  failed without effect, or done with the answer lost (\<open>World\<close>); theorems quantify over all of
  them. SQL statements are functions on tables under the constraints of the schema, a transaction
  is atomic (\<open>World\<close>, \<open>Database\<close>). Ids are integers, instants and durations are nanoseconds with the
  saturation and wrap-around of \<open>int64\<close> where the code can reach it, counters that wrap are words.
  Where Go iterates a map, the order is a parameter. Measured values are reals: rounding is left
  out. Third-party code and cryptography are parameters, with their documented behaviour as named
  laws and a concrete instance that satisfies them in each witness: \<open>redis_service\<close> and
  \<open>redis_counters\<close> for Redis, \<open>primitives_ok\<close> for the channel, \<open>ciphers_ok\<close> and \<open>rand_ok\<close> for the stored
  credentials, \<open>handshake_ok\<close> and \<open>keys_ok\<close> for SSH, \<open>answers_flux\<close> (the database runs the stages of a Flux pipeline
  as the language documents them), \<open>codec_ok\<close> and \<open>plain_times\<close> for the log queries. The parsing of URLs, one-time passwords,
  the order of texts in the database and encoding of JSON are parameters too.

  \<^bold>\<open>Users, teams, access.\<close>
  \<^item> \<open>Teams\<close>: \<open>internal/db/team.go\<close>, \<open>user_config.go\<close> and the team part of
    \<open>internal/app/api/team/edit.go\<close> and \<open>create.go\<close>: creation, editing, leaving, transfer, removal.
  \<^item> \<open>Accounts\<close>: \<open>internal/db/user.go\<close>: administrators' changes to accounts.
  \<^item> \<open>Governance\<close>: the step relation of all these operations; every reachable state keeps the schema,
    an administrating owner per team, valid active teams and at least one administrator.
  \<^item> \<open>Sessions\<close>, \<open>Mem_Redis\<close>: \<open>internal/redis/sessions.go\<close>, \<open>internal/access/team.go\<close> and
    \<open>session_finalize.go\<close> over the locale \<open>redis_service\<close>, interpreted on a store with expiry and
    optimistic transactions: revocation is all-or-nothing and complete, team access means membership.
  \<^item> \<open>Rate_Limit\<close>: \<open>internal/app/auth/rate_limit.go\<close>: the lock of a failure counter and its end.
  \<^item> \<open>Password\<close>, \<open>Go_Strings\<close>: \<open>internal/utils/password\<close>: hashes round-trip, parameters are bounded.
  \<^item> \<open>Web\<close>, \<open>Login\<close>, \<open>Team_Handlers\<close>: \<open>internal/app/middleware\<close>, \<open>internal/app/auth\<close> and the team
    handlers: which requests reach a handler, when a login succeeds, that leaving revokes access.

  \<^bold>\<open>Servers, keys, categories.\<close>
  \<^item> \<open>Encryption\<close>: \<open>internal/utils/encrypt\<close>: the envelope of a stored credential binds it to one field
    of one record; the key file is created once and never replaced.
  \<^item> \<open>Servers\<close>, \<open>Credential_Migration\<close>: \<open>internal/db/server.go\<close>, \<open>agent.go\<close>, \<open>key.go\<close>, \<open>category.go\<close> and
    \<open>encryption_migration.go\<close>: the tables of servers and their operations; the migration rewrites every
    legacy credential or reports it, and changes nothing else.
  \<^item> \<open>Hub\<close>, \<open>Server_Handlers\<close>: the environment of the pages and the handlers of \<open>internal/app/api/server\<close>,
    \<open>keys\<close>, \<open>category\<close> and \<open>internal/app/agent/enroll.go\<close>, each whole.
  \<^item> \<open>Page_Rules\<close>, \<open>Server_Pages\<close>: a calculus of team-local computations over the contract of the
    supervisor (locale \<open>supervisor\<close>), and what the pages guarantee: isolation of teams, complete
    deletion, reinstallation, one agent per enrolment token.
  \<^item> \<open>Audit_Log\<close>, \<open>Log_Query\<close>: \<open>internal/influx/log_add.go\<close> and \<open>log_record.go\<close>: accounting and shutdown of
    the queue of audit events; the code of a query does not depend on the texts of its filters, and the pages read each record
    once when no two have the same time. A query is compared with the stages of the pipeline it is meant to be.

  \<^bold>\<open>Public pages, export and import of teams.\<close>
  \<^item> \<open>Public_Pages\<close>, \<open>Public_Access\<close>: \<open>internal/siteaccess\<close>, \<open>internal/utils/sitehost.go\<close>, \<open>internal/app/middleware/base_host.go\<close>,
    \<open>internal/db/public_page.go\<close>, \<open>public_monitor.go\<close>, the settings of a page and \<open>internal/app/api/public\<close>: visitors see public
    columns only, pages are found where they were set up, the custom style stays in its element, and one refresh loop runs while
    someone listens. \<open>bootstrap\<close> is the route of a domain without the cache of five seconds.
  \<^item> \<open>Export_Crypto\<close>: \<open>internal/security/exportcrypto\<close>: the file of an export.
  \<^item> \<open>Team_Export\<close>, \<open>Team_Import\<close>, \<open>Team_Transfer\<close>, \<open>Team_Roundtrip\<close>: \<open>internal/app/api/team/export_import.go\<close>: the bundle, the
    handlers, the import as one transaction that touches no other team, and that the team exports what it imported. A wrong one-time
    password is answered with a refusal and then not refused.

  \<^bold>\<open>Agents.\<close>
  \<^item> \<open>Connections\<close>: \<open>internal/connect/conn\<close>, \<open>internal/connect/init.go\<close> and
    \<open>internal/app/agent/connection/main.go\<close>: the supervisor as a step relation; what runs for a server is
    what the tables want, at most once, and nothing after a stop.
  \<^item> \<open>Supervisor_Races\<close>: the same operations cut into the sections they run under each mutex. The sections of all goroutines
    interleave, held apart only by the lifecycle lock of a server; the operations of \<open>Connections\<close> are runs of
    sections, and in every reachable state there is at most one worker and one retry of a server, and an open connection of its
    agent is the registered one or about to be closed.
  \<^item> \<open>SSH_Trust\<close>: \<open>internal/connect/ssh/auth.go\<close>, \<open>connect.go\<close> and the loop of \<open>login.go\<close>: credentials go only to hosts whose key
    was trusted or confirmed, from validation, from the reconnecting loop and from the login monitor beside it.
  \<^item> \<open>Terminal_Sessions\<close>: \<open>internal/app/agent/connection/user.go\<close>: the rendezvous of a browser's terminal
    and its agent.
  \<^item> \<open>Signed_Headers\<close>: \<open>pkg/identity/auth.go\<close>: a header is not accepted twice, and where it is.
  \<^item> \<open>Secure_Channel\<close>: \<open>pkg/securews\<close>: transcript binding, round trip and integrity of the channel
    against an attacker on the network.
  \<^item> \<open>Handshake\<close>: \<open>internal/connect/active\<close> and \<open>agent/active/middleware\<close>: agreement of hub and agent
    on the transcript and the keys, pinning of identities, completion of an honest handshake.
  \<^item> \<open>Status_Writer\<close>: \<open>internal/influx/status_writer.go\<close>: the ring buffer refines a bounded queue,
    points are conserved under every interleaving, and after points are no longer accepted every run of the worker ends,
    within the bound \<open>drain_measure\<close>, with nothing pending.

  \<^bold>\<open>Tasks.\<close>
  \<^item> \<open>Auto_Renew\<close>: \<open>internal/task/auto_renew.go\<close>: calendar arithmetic and the renewal transaction.
  \<^item> \<open>Notifications\<close>: \<open>internal/servernotify\<close>, \<open>internal/notification\<close>: delivery, rate limits, checks of
    targets, headers and redirects.
  \<^item> \<open>Alert_Rules\<close>, \<open>Alert_Queries\<close>, \<open>Alert_Config\<close>, \<open>Alert_Run\<close>: \<open>internal/task/alerts\<close>,
    \<open>internal/db/alert.go\<close> and \<open>internal/app/api/server/alert\<close>: query planning and loading, the checks,
    the stored outcome, and the tenant isolation of the configuration.

  \<^bold>\<open>Bounds and fuel.\<close> Loops that run as long as the hub does (\<open>SSH\<close>, \<open>loginMonitor_run\<close>) take the list of what happens in their
  rounds, and theorems hold for every list; the reader of log pages has a number of pages, and one more than there are points is
  shown to be enough. All other recursion ends by a termination proof.

  \<^bold>\<open>Not modelled.\<close> What flows through a terminal or an SSH session with the parsing of what shell commands print, the
  buffers around a websocket (\<open>pkg/ws\<close>), the installation scripts, the program of the agent beside its part of the
  handshake, and the serving of static files, icons and event streams are input and output with little logic of their own. The layout of
  points of InfluxDB, the settings pages, the status queries and the views of the monitor are thin wrappers of one query
  each, and their downsampling is evaluated by the database. Sign-in with other providers follows the protocol of a library, of which
  only the single-use states are modelled. Tests, the front end and generated code are outside the library.
\<close>

end
